(* ===== verification/Osal_Prelude.thy ===== *)
theory Osal_Prelude
  imports Main "HOL-Library.Word" "HOL-Library.Monad_Syntax"
begin

text \<open>
  The prelude: C types at their width, the error numbers of \<open>kernel.h\<close>, the byte loops of
  \<open>src/common/internal.h\<close>, and the generic facts on words, lists and bytes that the
  component theories share.

  Conventions used in every theory:
  \<^item> Targets are ILP32 (the RV32 and ARM32 builds): \<open>size_t\<close>, \<open>uintptr_t\<close> and
    \<open>long\<close> are 32 bits wide.
  \<^item> A C pointer that may be NULL is an \<open>option\<close>; \<open>None\<close> is NULL.
  \<^item> A function whose C body could be undefined behaviour (an access outside an object, a
    NULL dereference) returns an \<open>option\<close>: \<open>None\<close> is that behaviour, so a theorem that
    ends in \<open>Some\<close> is a memory-safety statement.
  \<^item> Return codes are \<open>int\<close>, as in C; error returns are the negated error numbers.
  \<^item> A region between \<open>os_enter_critical\<close> and \<open>os_exit_critical\<close> is one atomic
    definition.
\<close>

unbundle bit_operations_syntax

section \<open>C types\<close>

type_synonym u8 = "8 word"
type_synonym u32 = "32 word"
type_synonym u64 = "64 word"
type_synonym size_t = "32 word"

definition OS_WAIT_FOREVER :: u32 where
  "OS_WAIT_FOREVER = 0xFFFFFFFF"

definition UINT16_MAX :: u32 where
  "UINT16_MAX = 65535"

definition SIZE_MAX :: size_t where
  "SIZE_MAX = 0xFFFFFFFF"

section \<open>Error numbers\<close>

named_theorems errno_defs "the values of the error numbers"

definition EPERM :: int where [errno_defs]: "EPERM = 1"
definition EIO :: int where [errno_defs]: "EIO = 5"
definition EAGAIN :: int where [errno_defs]: "EAGAIN = 11"
definition ENOMEM :: int where [errno_defs]: "ENOMEM = 12"
definition EBUSY :: int where [errno_defs]: "EBUSY = 16"
definition ENODEV :: int where [errno_defs]: "ENODEV = 19"
definition EINVAL :: int where [errno_defs]: "EINVAL = 22"
definition ENOSPC :: int where [errno_defs]: "ENOSPC = 28"
definition EDEADLK :: int where [errno_defs]: "EDEADLK = 35"
definition ENOTSUP :: int where [errno_defs]: "ENOTSUP = 95"
definition ETIMEDOUT :: int where [errno_defs]: "ETIMEDOUT = 110"
definition EALREADY :: int where [errno_defs]: "EALREADY = 114"
definition ECANCELED :: int where [errno_defs]: "ECANCELED = 125"
definition EWOULDBLOCK :: int where [errno_defs]: "EWOULDBLOCK = EAGAIN"

lemma errno_nonzero [simp]:
  "EPERM \<noteq> 0" "EIO \<noteq> 0" "EAGAIN \<noteq> 0" "ENOMEM \<noteq> 0" "EBUSY \<noteq> 0" "ENODEV \<noteq> 0" "EINVAL \<noteq> 0"
  "ENOSPC \<noteq> 0" "EDEADLK \<noteq> 0" "ENOTSUP \<noteq> 0" "ETIMEDOUT \<noteq> 0" "EALREADY \<noteq> 0" "ECANCELED \<noteq> 0"
  "EWOULDBLOCK \<noteq> 0"
  by (simp_all add: errno_defs)

section \<open>Byte loops of internal.h\<close>

text \<open>
  \<open>os_common_zero\<close> is applied in the code to whole control structures, which the component
  theories model by a record constant whose fields are all zero; the loop itself is here.
  The pointer walks through an object \<open>mem\<close> starting at offset \<open>i\<close>.
\<close>

fun os_common_zero :: "u8 list \<Rightarrow> nat \<Rightarrow> nat \<Rightarrow> u8 list option" where
  "os_common_zero mem i 0 = Some mem"
| "os_common_zero mem i (Suc n) =
     (if i < length mem then os_common_zero (mem[i := 0]) (Suc i) n else None)"

text \<open>\<open>dst\<close> and \<open>src\<close> are distinct objects; the pointers start at offsets \<open>d\<close> and \<open>s\<close>.\<close>

fun os_common_copy :: "u8 list \<Rightarrow> nat \<Rightarrow> u8 list \<Rightarrow> nat \<Rightarrow> nat \<Rightarrow> u8 list option" where
  "os_common_copy dst d src s 0 = Some dst"
| "os_common_copy dst d src s (Suc n) =
     (if d < length dst \<and> s < length src
      then os_common_copy (dst[d := src ! s]) (Suc d) src (Suc s) n else None)"

lemma os_common_zero_spec:
  "i + n \<le> length mem \<Longrightarrow>
   os_common_zero mem i n = Some (take i mem @ replicate n 0 @ drop (i + n) mem)"
proof (induction n arbitrary: mem i)
  case 0
  then show ?case by simp
next
  case (Suc n)
  have "take (Suc i) (mem[i := 0]) = take i mem @ [0]"
    using Suc.prems by (simp add: take_Suc_conv_app_nth)
  with Suc show ?case by simp
qed

lemma os_common_copy_spec:
  "d + n \<le> length dst \<Longrightarrow> s + n \<le> length src \<Longrightarrow>
   os_common_copy dst d src s n = Some (take d dst @ take n (drop s src) @ drop (d + n) dst)"
proof (induction n arbitrary: dst d s)
  case 0
  then show ?case by simp
next
  case (Suc n)
  have "take (Suc d) (dst[d := src ! s]) = take d dst @ [src ! s]"
    using Suc.prems by (simp add: take_Suc_conv_app_nth)
  moreover have "take (Suc n) (drop s src) = src ! s # take n (drop (Suc s) src)"
    using Suc.prems by (simp add: take_Suc_conv_app_nth Cons_nth_drop_Suc [symmetric])
  ultimately show ?case using Suc by simp
qed

lemma os_common_copy_length:
  "os_common_copy dst d src s n = Some dst' \<Longrightarrow> length dst' = length dst"
  by (induction dst d src s n rule: os_common_copy.induct) (auto split: if_splits)

section \<open>Slots of a byte array\<close>

text \<open>The \<open>i\<close>-th block of \<open>sz\<close> bytes of a buffer.\<close>

definition slot :: "u8 list \<Rightarrow> nat \<Rightarrow> nat \<Rightarrow> u8 list" where
  "slot buf sz i = take sz (drop (i * sz) buf)"

lemma slot_length: "(i + 1) * sz \<le> length buf \<Longrightarrow> length (slot buf sz i) = sz"
  by (simp add: slot_def)

lemma block_in_range:
  fixes i k sz :: nat
  assumes "i < k"
  shows "i * sz + sz \<le> k * sz"
  using mult_le_mono1 [of "Suc i" k sz] assms by simp

lemma slot_write_same:
  assumes "i * sz + sz \<le> length buf" "length m = sz"
  shows "slot (take (i * sz) buf @ m @ drop (i * sz + sz) buf) sz i = m"
  using assms by (simp add: slot_def)

lemma slot_write_other:
  assumes "i \<noteq> j" "i * sz + sz \<le> length buf" "length m = sz"
  shows "slot (take (i * sz) buf @ m @ drop (i * sz + sz) buf) sz j = slot buf sz j"
proof (cases "j < i")
  case True
  then have "j * sz + sz \<le> i * sz" by (rule block_in_range)
  with assms show ?thesis by (simp add: slot_def min_def take_drop)
next
  case False
  with assms(1) have "i * sz + sz \<le> j * sz" by (intro block_in_range) simp
  then obtain k where "j * sz = i * sz + sz + k" by (metis le_iff_add)
  with assms show ?thesis by (simp add: slot_def add.commute add.left_commute)
qed

section \<open>Words read as natural numbers\<close>

lemma unat_inc_less:
  fixes a b :: u32
  shows "a < b \<Longrightarrow> unat (a + 1) = Suc (unat a)"
proof -
  assume "a < b"
  moreover have "unat b < 2 ^ LENGTH(32)" by (rule unsigned_less)
  ultimately have "Suc (unat a) < 2 ^ 32" by (simp add: word_less_nat_alt)
  then show ?thesis by (simp add: unat_word_ariths)
qed

lemma unat_dec:
  fixes a :: u32
  shows "a \<noteq> 0 \<Longrightarrow> unat (a - 1) = unat a - 1"
  by (metis unat_minus_one)

lemma unat_mod_inc:
  fixes a b :: u32
  assumes "a < b"
  shows "unat ((a + 1) mod b) = Suc (unat a) mod unat b"
  using assms by (simp add: unat_mod_distrib unat_inc_less)

lemma unat_mult_fits:
  fixes a b :: u32
  assumes "unat a * unat b < 2 ^ 32"
  shows "unat (a * b) = unat a * unat b"
  using assms by (simp add: unat_mult_lem [THEN iffD1])

lemma unat_div_guard:
  fixes a b :: u32
  assumes "b \<noteq> 0" "\<not> a > SIZE_MAX div b"
  shows "unat b * unat a < 2 ^ 32"
proof -
  have "unat a \<le> unat SIZE_MAX div unat b"
    using assms(2) by (simp add: not_less word_le_nat_alt unat_div_distrib)
  then have "unat b * unat a \<le> unat b * (unat SIZE_MAX div unat b)" by simp
  also have "\<dots> \<le> unat SIZE_MAX" by simp
  finally show ?thesis by (simp add: SIZE_MAX_def)
qed

lemma unat_of_nat_less:
  fixes n :: u32
  assumes "i < unat n"
  shows "unat (of_nat i :: u32) = i"
proof -
  have "unat n < 2 ^ LENGTH(32)" by (rule unsigned_less)
  with assms show ?thesis by (simp add: unat_of_nat)
qed

lemma sint_of_diff:
  fixes a :: u32
  assumes "- (2 ^ 31) \<le> d" "d < 2 ^ 31" "a = word_of_int d"
  shows "sint a = d"
  using assms by (simp add: sint_sbintrunc' signed_take_bit_int_eq_self)

lemma sint_small:
  fixes p :: u32
  assumes "unat p < 2 ^ 31"
  shows "sint p = int (unat p)"
proof (rule sint_of_diff)
  show "int (unat p) < 2 ^ 31"
    using assms by (metis of_nat_less_iff of_nat_numeral of_nat_power)
  show "- (2 ^ 31) \<le> int (unat p)" by (rule order_trans [of _ 0]) simp_all
qed simp

section \<open>Embedded objects\<close>

text \<open>
  A call that passes the address of an object embedded in another one (\<open>&q->items\<close>): the
  callee takes a pointer that may be NULL, the address of a member never is.
\<close>

definition via_ptr :: "('s option \<Rightarrow> 'b \<times> 's option) \<Rightarrow> 's \<Rightarrow> 'b \<times> 's" where
  "via_ptr f s = (case f (Some s) of (r, p) \<Rightarrow> (r, case p of None \<Rightarrow> s | Some s' \<Rightarrow> s'))"

lemma via_ptr_Some [simp]: "f (Some s) = (r, Some s') \<Longrightarrow> via_ptr f s = (r, s')"
  by (simp add: via_ptr_def)

section \<open>Token accounting\<close>

text \<open>
  The interleaving models count the threads at each program point; a list of program points
  is summed with a weight, and one thread moving changes the sum at one place.
\<close>

definition count_at :: "('a \<Rightarrow> bool) \<Rightarrow> 'a list \<Rightarrow> nat" where
  "count_at P xs = length (filter P xs)"

lemma count_at_update:
  assumes "i < length xs"
  shows "count_at P (xs[i := x]) + of_bool (P (xs ! i)) = count_at P xs + of_bool (P x)"
  using assms
proof (induction xs arbitrary: i)
  case Nil
  then show ?case by simp
next
  case (Cons y xs)
  show ?case
  proof (cases i)
    case 0
    then show ?thesis by (simp add: count_at_def)
  next
    case (Suc j)
    with Cons have "count_at P (xs[j := x]) + of_bool (P (xs ! j)) = count_at P xs + of_bool (P x)"
      by simp
    with Suc show ?thesis by (simp add: count_at_def)
  qed
qed

lemma count_at_pos: "i < length xs \<Longrightarrow> P (xs ! i) \<Longrightarrow> 0 < count_at P xs"
  unfolding count_at_def length_greater_0_conv filter_empty_conv using nth_mem by blast

lemma count_at_zero: "count_at P xs = 0 \<longleftrightarrow> (\<forall>x \<in> set xs. \<not> P x)"
  by (simp add: count_at_def filter_empty_conv)

end
