(* ===== verification/Semaphore.thy ===== *)
theory Semaphore
  imports Osal_Prelude
begin

text \<open>
  The portable counting-semaphore interface of \<open>kernel.h\<close>.

  Which \<open>os_sem_*\<close> implementation is linked is a build-time choice among the FreeRTOS,
  RT-Thread and Zephyr adapters, so the common components take the six operations as a
  record. \<open>os_sem_contract\<close> states what \<open>kernel.h\<close> documents: bounded counts,
  non-blocking take, a saturating give, \<open>-EINVAL\<close> on an object that was not initialised.
  Each adapter theory proves the contract for its own model. The flag \<open>isr\<close> is what
  \<open>os_is_in_isr()\<close> returns in the calling context.

  \<open>live\<close> holds of an initialised semaphore and \<open>dead\<close> of one whose handle is NULL;
  \<open>cnt\<close> and \<open>lim\<close> read its token count and its limit. A take that has to wait may end
  in a token or in a timeout; the other threads' steps during the wait are the subject of
  the interleaving models.
\<close>

record 's sem_ops =
  sem_zero :: 's
  sem_init :: "'s \<Rightarrow> u32 \<Rightarrow> u32 \<Rightarrow> int \<times> 's"
  sem_deinit :: "bool \<Rightarrow> 's \<Rightarrow> int \<times> 's"
  sem_take :: "bool \<Rightarrow> 's \<Rightarrow> u32 \<Rightarrow> int \<times> 's"
  sem_trytake :: "bool \<Rightarrow> 's \<Rightarrow> int \<times> 's"
  sem_give :: "bool \<Rightarrow> 's \<Rightarrow> 's"
  sem_count_get :: "bool \<Rightarrow> 's \<Rightarrow> u32"

text \<open>What both adapters answer when the caller's context forbids waiting.\<close>

definition may_wait :: "bool \<Rightarrow> u32 \<Rightarrow> bool" where
  "may_wait isr timeout \<longleftrightarrow> \<not> isr \<or> timeout = 0"

locale os_sem_contract =
  fixes S :: "'s sem_ops"
    and live :: "'s \<Rightarrow> bool"
    and dead :: "'s \<Rightarrow> bool"
    and cnt :: "'s \<Rightarrow> nat"
    and lim :: "'s \<Rightarrow> nat"
  assumes live_not_dead: "live s \<Longrightarrow> \<not> dead s"
    and cnt_le_lim: "live s \<Longrightarrow> cnt s \<le> lim s"
    and zero_dead: "dead (sem_zero S)"
    and init_invalid: "l = 0 \<or> l < i \<Longrightarrow> sem_init S s i l = (- EINVAL, s)"
    and init_ok: "sem_init S s i l = (0, s') \<Longrightarrow> live s' \<and> cnt s' = unat i \<and> lim s' = unat l"
    and deinit_dead: "dead s \<Longrightarrow> sem_deinit S isr s = (- EINVAL, s)"
    and deinit_live: "live s \<Longrightarrow> sem_deinit S isr s = (r, s') \<Longrightarrow>
           (r = 0 \<and> \<not> isr \<and> dead s') \<or> (r \<noteq> 0 \<and> s' = s)"
    and take_dead: "dead s \<Longrightarrow> sem_take S isr s t = (- EINVAL, s)"
    and take_isr: "live s \<Longrightarrow> \<not> may_wait isr t \<Longrightarrow> sem_take S isr s t = (- EWOULDBLOCK, s)"
    and take_token: "live s \<Longrightarrow> may_wait isr t \<Longrightarrow> 0 < cnt s \<Longrightarrow>
           \<exists>s'. sem_take S isr s t = (0, s') \<and> live s' \<and> cnt s' = cnt s - 1 \<and> lim s' = lim s"
    and take_empty: "live s \<Longrightarrow> cnt s = 0 \<Longrightarrow>
           \<exists>s'. sem_take S isr s 0 = (- EBUSY, s') \<and> live s' \<and> cnt s' = 0 \<and> lim s' = lim s"
    and take_wait: "live s \<Longrightarrow> may_wait isr t \<Longrightarrow> t \<noteq> 0 \<Longrightarrow> cnt s = 0 \<Longrightarrow>
           sem_take S isr s t = (r, s') \<Longrightarrow>
           (r = 0 \<or> r = - ETIMEDOUT \<and> cnt s' = 0) \<and> live s' \<and> lim s' = lim s"
    and trytake_take: "sem_trytake S isr s = sem_take S isr s 0"
    and give_dead: "dead s \<Longrightarrow> sem_give S isr s = s"
    and give_live: "live s \<Longrightarrow>
           live (sem_give S isr s) \<and> cnt (sem_give S isr s) = min (Suc (cnt s)) (lim s)
           \<and> lim (sem_give S isr s) = lim s"
    and count_dead: "dead s \<Longrightarrow> sem_count_get S isr s = 0"
    and count_live: "live s \<Longrightarrow> unat (sem_count_get S isr s) = cnt s"
begin

lemma take_live:
  assumes "live s" "sem_take S isr s t = (r, s')"
  shows "live s' \<and> lim s' = lim s"
proof (cases "may_wait isr t")
  case False
  with assms take_isr [of s isr t] show ?thesis by simp
next
  case True
  consider "0 < cnt s" | "cnt s = 0" "t = 0" | "cnt s = 0" "t \<noteq> 0" by auto
  then show ?thesis
  proof cases
    case 1
    with take_token [OF assms(1) True] assms(2) show ?thesis by auto
  next
    case 2
    with take_empty [OF assms(1), of isr] assms(2) show ?thesis by auto
  next
    case 3
    with take_wait [OF assms(1) True] assms(2) show ?thesis by blast
  qed
qed

text \<open>A take that fails takes nothing.\<close>

lemma take_fails:
  assumes "live s" "sem_take S isr s t = (r, s')" "r \<noteq> 0"
  shows "live s' \<and> cnt s' = cnt s \<and> lim s' = lim s"
proof (cases "may_wait isr t")
  case False
  with assms take_isr [of s isr t] show ?thesis by simp
next
  case True
  then have empty: "cnt s = 0"
    using take_token [OF assms(1) True] assms(2,3) by (cases "cnt s") auto
  show ?thesis
  proof (cases "t = 0")
    case True
    with take_empty [OF assms(1) empty, of isr] assms(2) empty show ?thesis by auto
  next
    case False
    with take_wait [OF assms(1) True _ empty assms(2)] assms(3) empty show ?thesis by simp
  qed
qed

text \<open>A take that finds a token and succeeds uses exactly one.\<close>

lemma take_succeeds:
  assumes "live s" "0 < cnt s" "sem_take S isr s t = (0, s')"
  shows "live s' \<and> cnt s = Suc (cnt s') \<and> lim s' = lim s"
proof -
  have "may_wait isr t" using assms take_isr [of s isr t] by (cases "may_wait isr t") auto
  with assms take_token [of s isr t] show ?thesis by auto
qed

lemma trytake_token:
  "live s \<Longrightarrow> 0 < cnt s \<Longrightarrow>
   \<exists>s'. sem_trytake S isr s = (0, s') \<and> live s' \<and> cnt s' = cnt s - 1 \<and> lim s' = lim s"
  using take_token [of s isr 0] by (simp add: trytake_take may_wait_def)

lemma trytake_empty:
  "live s \<Longrightarrow> cnt s = 0 \<Longrightarrow>
   \<exists>s'. sem_trytake S isr s = (- EBUSY, s') \<and> live s' \<and> cnt s' = 0 \<and> lim s' = lim s"
  using take_empty [of s isr] by (simp add: trytake_take)

lemma give_below:
  "live s \<Longrightarrow> cnt s < lim s \<Longrightarrow>
   live (sem_give S isr s) \<and> cnt (sem_give S isr s) = Suc (cnt s) \<and> lim (sem_give S isr s) = lim s"
  using give_live [of s isr] by simp

text \<open>A give and a take cancel out below the limit.\<close>

lemma give_take:
  assumes "live s" "cnt s < lim s" "may_wait isr' t"
  shows "\<exists>s'. sem_take S isr' (sem_give S isr s) t = (0, s') \<and> cnt s' = cnt s"
  using give_below [OF assms(1,2), of isr] take_token [of "sem_give S isr s" isr' t] assms(3)
  by auto

end

end
