(* ===== verification/Native_Semaphore.thy ===== *)
theory Native_Semaphore
  imports Osal_Prelude
begin

text \<open>
  A concrete counting semaphore, a pair of count and maximum, that behaves the way the three
  kernels document theirs. It is not a model of repository code: it instantiates the kernel
  parameters of the adapters, which shows that the hypotheses on the kernels can hold, and
  the witnesses evaluate on it. A wait on an empty semaphore with nobody else running times
  out.
\<close>

type_synonym native = "u32 \<times> u32"

definition native_take :: "native \<Rightarrow> bool \<times> native" where
  "native_take n = (if fst n = 0 then (False, n) else (True, (fst n - 1, snd n)))"

definition native_give :: "native \<Rightarrow> bool \<times> native" where
  "native_give n = (if fst n < snd n then (True, (fst n + 1, snd n)) else (False, n))"

definition native_ok :: "native \<Rightarrow> bool" where
  "native_ok n \<longleftrightarrow> fst n \<le> snd n"

definition native_cnt :: "native \<Rightarrow> nat" where
  "native_cnt n = unat (fst n)"

definition native_max :: "native \<Rightarrow> nat" where
  "native_max n = unat (snd n)"

lemmas native_defs = native_take_def native_give_def native_ok_def native_cnt_def native_max_def

lemma native_take_token:
  "native_ok n \<Longrightarrow> 0 < native_cnt n \<Longrightarrow>
   \<exists>n'. native_take n = (True, n') \<and> native_ok n' \<and> native_cnt n' = native_cnt n - Suc 0
        \<and> native_max n' = native_max n"
  by (auto simp: native_defs unat_dec word_le_nat_alt)

lemma native_take_empty: "native_cnt n = 0 \<Longrightarrow> native_take n = (False, n)"
  by (simp add: native_defs unat_eq_0)

lemma native_give_spec:
  "native_ok n \<Longrightarrow> native_give n = (r, n') \<Longrightarrow>
   native_ok n' \<and> native_cnt n' = min (Suc (native_cnt n)) (native_max n)
   \<and> native_max n' = native_max n"
  by (auto simp: native_defs unat_inc_less word_le_nat_alt word_less_nat_alt split: if_splits)

lemma native_le: "native_ok n \<Longrightarrow> native_cnt n \<le> native_max n"
  by (simp add: native_defs word_le_nat_alt)

lemma native_new:
  "i \<le> l \<Longrightarrow> native_ok (i, l)" "native_cnt (i, l) = unat i" "native_max (i, l) = unat l"
  by (simp_all add: native_defs)

lemma native_get: "unat (fst n) = native_cnt n"
  by (simp add: native_defs)

end
