(* ===== verification/Sem_FreeRTOS.thy ===== *)
theory Sem_FreeRTOS
  imports Semaphore Native_Semaphore
begin

text \<open>
  \<open>src/osal_freertos/semaphore.c\<close>. The FreeRTOS kernel is not part of the repository: its
  semaphore calls are the parameters of \<open>freertos_sem\<close>, over a native object type \<open>'n\<close>,
  and \<open>freertos_sem_native\<close> states their documented behaviour. The native object lives in
  \<open>sem->storage\<close> and is reached through \<open>sem->handle\<close>; the model keeps it in
  \<open>sem_handle\<close>, with \<open>None\<close> for a NULL handle. \<open>portYIELD_FROM_ISR\<close> only requests a
  context switch and has no part in the state.
\<close>

record 'n freertos_sem =
  portMAX_DELAY :: u32
  xSemaphoreCreateCountingStatic :: "u32 \<Rightarrow> u32 \<Rightarrow> 'n option"
  xSemaphoreTake :: "'n \<Rightarrow> u32 \<Rightarrow> bool \<times> 'n"
  xSemaphoreTakeFromISR :: "'n \<Rightarrow> bool \<times> 'n"
  xSemaphoreGive :: "'n \<Rightarrow> bool \<times> 'n"
  xSemaphoreGiveFromISR :: "'n \<Rightarrow> bool \<times> 'n"
  uxSemaphoreGetCount :: "'n \<Rightarrow> u32"
  uxSemaphoreGetCountFromISR :: "'n \<Rightarrow> u32"

record 'n os_sem =
  sem_handle :: "'n option"
  sem_limit :: u32

definition os_sem_zero :: "'n os_sem" where
  "os_sem_zero = \<lparr>sem_handle = None, sem_limit = 0\<rparr>"

definition freertos_os_sem_init ::
  "'n freertos_sem \<Rightarrow> 'n os_sem option \<Rightarrow> u32 \<Rightarrow> u32 \<Rightarrow> int \<times> 'n os_sem option" where
  "freertos_os_sem_init N sem initial_count limit =
     (if sem = None \<or> limit = 0 \<or> initial_count > limit then (- EINVAL, sem)
      else (case xSemaphoreCreateCountingStatic N limit initial_count of
              None \<Rightarrow> (- ENOMEM, Some os_sem_zero)
            | Some handle \<Rightarrow> (0, Some \<lparr>sem_handle = Some handle, sem_limit = limit\<rparr>)))"

definition freertos_os_sem_deinit ::
  "bool \<Rightarrow> 'n os_sem option \<Rightarrow> int \<times> 'n os_sem option" where
  "freertos_os_sem_deinit isr sem =
     (case sem of
        None \<Rightarrow> (- EINVAL, None)
      | Some s \<Rightarrow>
          if sem_handle s = None then (- EINVAL, Some s)
          else if isr then (- EWOULDBLOCK, Some s)
          else (0, Some (s\<lparr>sem_handle := None, sem_limit := 0\<rparr>)))"

definition freertos_os_sem_take ::
  "'n freertos_sem \<Rightarrow> bool \<Rightarrow> 'n os_sem option \<Rightarrow> u32 \<Rightarrow> int \<times> 'n os_sem option" where
  "freertos_os_sem_take N isr sem timeout =
     (case sem of
        None \<Rightarrow> (- EINVAL, None)
      | Some s \<Rightarrow>
          (case sem_handle s of
             None \<Rightarrow> (- EINVAL, Some s)
           | Some n \<Rightarrow>
               if isr \<and> timeout \<noteq> 0 then (- EWOULDBLOCK, Some s)
               else
                 let (result, n') =
                       (if isr then xSemaphoreTakeFromISR N n
                        else xSemaphoreTake N n
                               (if timeout = OS_WAIT_FOREVER then portMAX_DELAY N else timeout))
                 in (if result then 0 else if timeout = 0 then - EBUSY else - ETIMEDOUT,
                     Some (s\<lparr>sem_handle := Some n'\<rparr>))))"

definition freertos_os_sem_trytake ::
  "'n freertos_sem \<Rightarrow> bool \<Rightarrow> 'n os_sem option \<Rightarrow> int \<times> 'n os_sem option" where
  "freertos_os_sem_trytake N isr sem = freertos_os_sem_take N isr sem 0"

definition freertos_os_sem_give ::
  "'n freertos_sem \<Rightarrow> bool \<Rightarrow> 'n os_sem option \<Rightarrow> 'n os_sem option" where
  "freertos_os_sem_give N isr sem =
     (case sem of
        None \<Rightarrow> None
      | Some s \<Rightarrow>
          (case sem_handle s of
             None \<Rightarrow> Some s
           | Some n \<Rightarrow>
               Some (s\<lparr>sem_handle :=
                 Some (snd (if isr then xSemaphoreGiveFromISR N n else xSemaphoreGive N n))\<rparr>)))"

definition freertos_os_sem_count_get ::
  "'n freertos_sem \<Rightarrow> bool \<Rightarrow> 'n os_sem option \<Rightarrow> u32" where
  "freertos_os_sem_count_get N isr sem =
     (case sem of
        None \<Rightarrow> 0
      | Some s \<Rightarrow>
          (case sem_handle s of
             None \<Rightarrow> 0
           | Some n \<Rightarrow>
               if isr then uxSemaphoreGetCountFromISR N n else uxSemaphoreGetCount N n))"

lemmas freertos_sem_defs =
  freertos_os_sem_init_def freertos_os_sem_deinit_def freertos_os_sem_take_def
  freertos_os_sem_trytake_def freertos_os_sem_give_def freertos_os_sem_count_get_def

text \<open>The adapter as an instance of the portable interface.\<close>

definition freertos_sem_ops :: "'n freertos_sem \<Rightarrow> 'n os_sem sem_ops" where
  "freertos_sem_ops N =
     \<lparr>sem_zero = os_sem_zero,
      sem_init = \<lambda>s i l. via_ptr (\<lambda>p. freertos_os_sem_init N p i l) s,
      sem_deinit = \<lambda>isr. via_ptr (freertos_os_sem_deinit isr),
      sem_take = \<lambda>isr s t. via_ptr (\<lambda>p. freertos_os_sem_take N isr p t) s,
      sem_trytake = \<lambda>isr. via_ptr (freertos_os_sem_trytake N isr),
      sem_give = \<lambda>isr s. snd (via_ptr (\<lambda>p. ((), freertos_os_sem_give N isr p)) s),
      sem_count_get = \<lambda>isr s. freertos_os_sem_count_get N isr (Some s)\<rparr>"

text \<open>
  The documented behaviour of the FreeRTOS calls: a counting semaphore bounded by the
  maximum count given at creation; a take with a token available succeeds; a take that
  returns \<open>pdFALSE\<close> took nothing and found none; a give at the maximum reports
  \<open>errQUEUE_FULL\<close> and changes nothing.
\<close>

locale freertos_sem_native =
  fixes N :: "'n freertos_sem"
    and nok :: "'n \<Rightarrow> bool"
    and ncnt :: "'n \<Rightarrow> nat"
    and nmax :: "'n \<Rightarrow> nat"
  assumes forever_waits: "portMAX_DELAY N \<noteq> 0"
    and ncnt_le: "nok n \<Longrightarrow> ncnt n \<le> nmax n"
    and create: "xSemaphoreCreateCountingStatic N l i = Some n \<Longrightarrow> l \<noteq> 0 \<Longrightarrow> i \<le> l \<Longrightarrow>
           nok n \<and> ncnt n = unat i \<and> nmax n = unat l"
    and ntake_token: "nok n \<Longrightarrow> 0 < ncnt n \<Longrightarrow>
           \<exists>n'. xSemaphoreTake N n t = (True, n') \<and> nok n' \<and> ncnt n' = ncnt n - 1 \<and> nmax n' = nmax n"
    and ntake_empty: "nok n \<Longrightarrow> ncnt n = 0 \<Longrightarrow> fst (xSemaphoreTake N n 0) = False"
    and ntake_frame: "nok n \<Longrightarrow> ncnt n = 0 \<Longrightarrow> xSemaphoreTake N n t = (r, n') \<Longrightarrow>
           nok n' \<and> nmax n' = nmax n \<and> (\<not> r \<longrightarrow> ncnt n' = 0)"
    and ntake_isr_token: "nok n \<Longrightarrow> 0 < ncnt n \<Longrightarrow>
           \<exists>n'. xSemaphoreTakeFromISR N n = (True, n') \<and> nok n' \<and> ncnt n' = ncnt n - 1 \<and> nmax n' = nmax n"
    and ntake_isr_empty: "nok n \<Longrightarrow> ncnt n = 0 \<Longrightarrow>
           \<exists>n'. xSemaphoreTakeFromISR N n = (False, n') \<and> nok n' \<and> ncnt n' = 0 \<and> nmax n' = nmax n"
    and ngive: "nok n \<Longrightarrow> xSemaphoreGive N n = (r, n') \<Longrightarrow>
           nok n' \<and> ncnt n' = min (Suc (ncnt n)) (nmax n) \<and> nmax n' = nmax n"
    and ngive_isr: "nok n \<Longrightarrow> xSemaphoreGiveFromISR N n = (r, n') \<Longrightarrow>
           nok n' \<and> ncnt n' = min (Suc (ncnt n)) (nmax n) \<and> nmax n' = nmax n"
    and nget: "nok n \<Longrightarrow> unat (uxSemaphoreGetCount N n) = ncnt n"
    and nget_isr: "nok n \<Longrightarrow> unat (uxSemaphoreGetCountFromISR N n) = ncnt n"

text \<open>When an \<open>os_sem\<close> is initialised, and its count and limit, through the handle.\<close>

definition sem_live :: "('n \<Rightarrow> bool) \<Rightarrow> 'n os_sem \<Rightarrow> bool" where
  "sem_live nok s = (case sem_handle s of None \<Rightarrow> False | Some n \<Rightarrow> nok n)"

definition sem_dead :: "'n os_sem \<Rightarrow> bool" where
  "sem_dead s = (sem_handle s = None)"

definition sem_read :: "('n \<Rightarrow> nat) \<Rightarrow> 'n os_sem \<Rightarrow> nat" where
  "sem_read f s = (case sem_handle s of None \<Rightarrow> 0 | Some n \<Rightarrow> f n)"

lemmas sem_view_defs = sem_live_def sem_dead_def sem_read_def

lemma sem_liveE:
  assumes "sem_live nok s"
  obtains n where "sem_handle s = Some n" "nok n"
proof (cases "sem_handle s")
  case None
  with assms show ?thesis by (simp add: sem_live_def)
next
  case (Some n)
  with assms that show ?thesis by (simp add: sem_live_def)
qed

text \<open>The operations of the instance, seen through a valid handle.\<close>

lemma freertos_take_handle:
  assumes "sem_handle s = Some n"
    and "(if isr then xSemaphoreTakeFromISR N n
          else xSemaphoreTake N n (if t = OS_WAIT_FOREVER then portMAX_DELAY N else t)) = (r, n')"
    and "may_wait isr t"
  shows "sem_take (freertos_sem_ops N) isr s t =
     (if r then 0 else if t = 0 then - EBUSY else - ETIMEDOUT, s\<lparr>sem_handle := Some n'\<rparr>)"
  using assms
  by (auto simp: freertos_sem_ops_def freertos_os_sem_take_def via_ptr_def may_wait_def)

lemma freertos_give_handle:
  assumes "sem_handle s = Some n"
  shows "sem_give (freertos_sem_ops N) isr s =
     s\<lparr>sem_handle := Some (snd (if isr then xSemaphoreGiveFromISR N n else xSemaphoreGive N n))\<rparr>"
  using assms by (simp add: freertos_sem_ops_def freertos_os_sem_give_def via_ptr_def)

sublocale freertos_sem_native \<subseteq> freertos:
  os_sem_contract "freertos_sem_ops N" "sem_live nok" sem_dead "sem_read ncnt" "sem_read nmax"
proof (unfold_locales, goal_cases)
  case (1 s)
  then show ?case by (auto simp: sem_dead_def elim!: sem_liveE)
next
  case (2 s)
  then show ?case by (auto simp: sem_read_def ncnt_le elim!: sem_liveE)
next
  case 3
  then show ?case by (simp add: freertos_sem_ops_def os_sem_zero_def sem_dead_def)
next
  case (4 l i s)
  then show ?case by (auto simp: freertos_sem_ops_def freertos_os_sem_init_def via_ptr_def)
next
  case (5 s i l s')
  then show ?case
    by (auto simp: freertos_sem_ops_def freertos_os_sem_init_def via_ptr_def sem_view_defs
        not_less dest: create split: if_splits option.splits)
next
  case (6 s isr)
  then show ?case
    by (simp add: freertos_sem_ops_def freertos_os_sem_deinit_def via_ptr_def sem_dead_def)
next
  case (7 s isr r s')
  then show ?case
    by (auto simp: freertos_sem_ops_def freertos_os_sem_deinit_def via_ptr_def sem_view_defs
        split: if_splits option.splits)
next
  case (8 s isr t)
  then show ?case
    by (simp add: freertos_sem_ops_def freertos_os_sem_take_def via_ptr_def sem_dead_def)
next
  case (9 s isr t)
  then show ?case
    by (auto simp: freertos_sem_ops_def freertos_os_sem_take_def via_ptr_def may_wait_def
        elim!: sem_liveE)
next
  case (10 s isr t)
  then obtain n where n: "sem_handle s = Some n" "nok n" "0 < ncnt n"
    by (auto simp: sem_read_def elim!: sem_liveE)
  obtain n' where "(if isr then xSemaphoreTakeFromISR N n
      else xSemaphoreTake N n (if t = OS_WAIT_FOREVER then portMAX_DELAY N else t)) = (True, n')"
    and "nok n'" "ncnt n' = ncnt n - 1" "nmax n' = nmax n"
    using ntake_isr_token [OF n(2,3)]
      ntake_token [OF n(2,3), of "if t = OS_WAIT_FOREVER then portMAX_DELAY N else t"]
    by (cases isr) (simp, metis)+
  then show ?case using n freertos_take_handle [OF n(1) _ 10(2), of N True n']
    by (simp add: sem_view_defs)
next
  case (11 s isr)
  then obtain n where n: "sem_handle s = Some n" "nok n" "ncnt n = 0"
    by (auto simp: sem_read_def elim!: sem_liveE)
  obtain r n' where t: "xSemaphoreTake N n 0 = (r, n')" by (cases "xSemaphoreTake N n 0")
  then have "\<not> r" "nok n'" "nmax n' = nmax n" "ncnt n' = 0"
    using ntake_empty [OF n(2,3)] ntake_frame [OF n(2,3) t] by auto
  moreover obtain n'' where "xSemaphoreTakeFromISR N n = (False, n'')" "nok n''" "ncnt n'' = 0"
      "nmax n'' = nmax n"
    using ntake_isr_empty [OF n(2,3)] by blast
  ultimately show ?case
    using n t freertos_take_handle [OF n(1), of isr N 0 False "if isr then n'' else n'"]
    by (simp add: sem_view_defs may_wait_def OS_WAIT_FOREVER_def split: if_splits)
next
  case (12 s isr t r s')
  then obtain n where n: "sem_handle s = Some n" "nok n" "ncnt n = 0"
    by (auto simp: sem_read_def elim!: sem_liveE)
  let ?t = "if t = OS_WAIT_FOREVER then portMAX_DELAY N else t"
  obtain b n' where t: "xSemaphoreTake N n ?t = (b, n')" by (cases "xSemaphoreTake N n ?t")
  have "\<not> isr" using 12(2,3) by (simp add: may_wait_def)
  then have "r = (if b then 0 else - ETIMEDOUT)" "s' = s\<lparr>sem_handle := Some n'\<rparr>"
    using freertos_take_handle [OF n(1) _ 12(2), of N b n'] t 12(3,5) by auto
  then show ?case
    using n ntake_frame [OF n(2,3) t] by (simp add: sem_view_defs)
next
  case (13 isr s)
  then show ?case
    by (simp add: freertos_sem_ops_def freertos_os_sem_trytake_def via_ptr_def)
next
  case (14 s isr)
  then show ?case
    by (simp add: freertos_sem_ops_def freertos_os_sem_give_def via_ptr_def sem_dead_def)
next
  case (15 s isr)
  then obtain n where n: "sem_handle s = Some n" "nok n" by (rule sem_liveE)
  show ?case
    using n ngive [OF n(2) prod.collapse [symmetric]] ngive_isr [OF n(2) prod.collapse [symmetric]]
    by (simp add: freertos_give_handle [OF n(1)] sem_view_defs)
next
  case (16 s isr)
  then show ?case
    by (simp add: freertos_sem_ops_def freertos_os_sem_count_get_def sem_dead_def)
next
  case (17 s isr)
  then show ?case
    by (auto simp: freertos_sem_ops_def freertos_os_sem_count_get_def sem_read_def nget nget_isr
        elim!: sem_liveE)
qed

context freertos_sem_native begin

lemma adapter_contract:
  "os_sem_contract (freertos_sem_ops N) (sem_live nok) sem_dead (sem_read ncnt) (sem_read nmax)"
  by (rule freertos.os_sem_contract_axioms)

end

section \<open>An instance of the native semaphore\<close>

definition native_freertos :: "native freertos_sem" where
  "native_freertos =
     \<lparr>portMAX_DELAY = 0xFFFFFFFF,
      xSemaphoreCreateCountingStatic = \<lambda>l i. Some (i, l),
      xSemaphoreTake = \<lambda>n _. native_take n,
      xSemaphoreTakeFromISR = native_take,
      xSemaphoreGive = native_give,
      xSemaphoreGiveFromISR = native_give,
      uxSemaphoreGetCount = fst,
      uxSemaphoreGetCountFromISR = fst\<rparr>"

interpretation fr: freertos_sem_native native_freertos native_ok native_cnt native_max
  by unfold_locales
    (auto simp: native_freertos_def native_le native_get native_take_token native_take_empty
      intro: native_new dest: native_give_spec simp del: split_paired_Ex)

text \<open>The adapter over the reference native semaphore: the instance that witnesses use.\<close>

definition ref_sems :: "native os_sem sem_ops" where
  "ref_sems = freertos_sem_ops native_freertos"

lemmas ref_sems_contract = fr.freertos.os_sem_contract_axioms [folded ref_sems_def]

lemma ref_sem_init:
  "sem_init ref_sems s i l =
     (if l = 0 \<or> i > l then (- EINVAL, s) else (0, \<lparr>sem_handle = Some (i, l), sem_limit = l\<rparr>))"
  by (simp add: ref_sems_def freertos_sem_ops_def freertos_os_sem_init_def native_freertos_def via_ptr_def)

section \<open>Property\<close>

text \<open>C8: The FreeRTOS adapter keeps the portable semaphore contract, for every kernel whose
  semaphores behave as FreeRTOS documents, in task and in interrupt context.\<close>

theorem freertos_sem_keeps_contract:
  assumes "freertos_sem_native N nok ncnt nmax"
  shows "os_sem_contract (freertos_sem_ops N) (sem_live nok) sem_dead (sem_read ncnt) (sem_read nmax)"
  using assms by (rule freertos_sem_native.adapter_contract)

theorem freertos_sem_keeps_contract_witness:
  "os_sem_contract ref_sems (sem_live native_ok) sem_dead (sem_read native_cnt) (sem_read native_max)"
  unfolding ref_sems_def by (rule freertos_sem_keeps_contract [OF fr.freertos_sem_native_axioms])

end
