(* ===== verification/Sem_RTThread.thy ===== *)
theory Sem_RTThread
  imports Semaphore Native_Semaphore
begin

text \<open>
  \<open>src/osal_rtthread/semaphore.c\<close>. The RT-Thread kernel is a parameter (\<open>rt_sem\<close>) with
  its documented behaviour in \<open>rt_sem_native\<close>. Two things are particular to this backend:
  the count starts bounded by \<open>RT_SEM_VALUE_MAX\<close> and gets its limit by a control call, and
  deinit refuses while threads wait. The object names that \<open>os_rt_name_generate\<close> makes only
  label the kernel object. \<open>os_to_rt_timeout\<close> of \<open>internal.h\<close> is here too: the timeout
  becomes the 32 bits of a signed tick count, with \<open>RT_WAITING_FOREVER\<close> for the sentinel.
\<close>

record 'n rt_sem =
  RT_SEM_VALUE_MAX :: u32
  RT_WAITING_FOREVER :: u32
  rt_sem_init :: "u32 \<Rightarrow> bool \<times> 'n"
  rt_sem_control_vlimit :: "'n \<Rightarrow> u32 \<Rightarrow> bool \<times> 'n"
  rt_sem_detach :: "'n \<Rightarrow> bool"
  rt_sem_trytake :: "'n \<Rightarrow> bool \<times> 'n"
  rt_sem_take :: "'n \<Rightarrow> u32 \<Rightarrow> bool \<times> 'n"
  rt_sem_release :: "'n \<Rightarrow> 'n"
  rt_sem_value :: "'n \<Rightarrow> u32"
  rt_sem_has_waiters :: "'n \<Rightarrow> bool"

record 'n rt_os_sem =
  rs_handle :: "'n option"
  rs_limit :: u32

definition rt_os_sem_zero :: "'n rt_os_sem" where
  "rt_os_sem_zero = \<lparr>rs_handle = None, rs_limit = 0\<rparr>"

definition os_to_rt_timeout :: "'n rt_sem \<Rightarrow> u32 \<Rightarrow> u32" where
  "os_to_rt_timeout N timeout =
     (if timeout = OS_WAIT_FOREVER then RT_WAITING_FOREVER N else timeout)"

definition rt_os_sem_init ::
  "'n rt_sem \<Rightarrow> 'n rt_os_sem option \<Rightarrow> u32 \<Rightarrow> u32 \<Rightarrow> int \<times> 'n rt_os_sem option" where
  "rt_os_sem_init N sem initial_count limit =
     (if sem = None \<or> limit = 0 \<or> initial_count > limit \<or> limit > RT_SEM_VALUE_MAX N
      then (- EINVAL, sem)
      else
        let (ok, n) = rt_sem_init N initial_count
        in if \<not> ok then (- ENOMEM, Some rt_os_sem_zero)
           else
             let (ok, n) = rt_sem_control_vlimit N n limit
             in if \<not> ok then (- EINVAL, Some rt_os_sem_zero)
                else (0, Some \<lparr>rs_handle = Some n, rs_limit = limit\<rparr>))"

definition rt_os_sem_deinit ::
  "'n rt_sem \<Rightarrow> bool \<Rightarrow> 'n rt_os_sem option \<Rightarrow> int \<times> 'n rt_os_sem option" where
  "rt_os_sem_deinit N isr sem =
     (case sem of
        None \<Rightarrow> (- EINVAL, None)
      | Some s \<Rightarrow>
          (case rs_handle s of
             None \<Rightarrow> (- EINVAL, Some s)
           | Some n \<Rightarrow>
               if isr then (- EWOULDBLOCK, Some s)
               else if rt_sem_has_waiters N n then (- EBUSY, Some s)
               else if \<not> rt_sem_detach N n then (- EBUSY, Some s)
               else (0, Some rt_os_sem_zero)))"

definition rt_os_sem_take ::
  "'n rt_sem \<Rightarrow> bool \<Rightarrow> 'n rt_os_sem option \<Rightarrow> u32 \<Rightarrow> int \<times> 'n rt_os_sem option" where
  "rt_os_sem_take N isr sem timeout =
     (case sem of
        None \<Rightarrow> (- EINVAL, None)
      | Some s \<Rightarrow>
          (case rs_handle s of
             None \<Rightarrow> (- EINVAL, Some s)
           | Some n \<Rightarrow>
               if isr \<and> timeout \<noteq> 0 then (- EWOULDBLOCK, Some s)
               else
                 let ticks = (if timeout = OS_WAIT_FOREVER then RT_WAITING_FOREVER N else timeout);
                     (result, n') = (if timeout = 0 then rt_sem_trytake N n
                                     else rt_sem_take N n ticks)
                 in (if result then 0 else if timeout = 0 then - EBUSY else - ETIMEDOUT,
                     Some (s\<lparr>rs_handle := Some n'\<rparr>))))"

definition rt_os_sem_trytake ::
  "'n rt_sem \<Rightarrow> bool \<Rightarrow> 'n rt_os_sem option \<Rightarrow> int \<times> 'n rt_os_sem option" where
  "rt_os_sem_trytake N isr sem = rt_os_sem_take N isr sem 0"

definition rt_os_sem_give :: "'n rt_sem \<Rightarrow> 'n rt_os_sem option \<Rightarrow> 'n rt_os_sem option" where
  "rt_os_sem_give N sem =
     (case sem of
        None \<Rightarrow> None
      | Some s \<Rightarrow>
          (case rs_handle s of
             None \<Rightarrow> Some s
           | Some n \<Rightarrow> Some (s\<lparr>rs_handle := Some (rt_sem_release N n)\<rparr>)))"

definition rt_os_sem_count_get :: "'n rt_sem \<Rightarrow> 'n rt_os_sem option \<Rightarrow> u32" where
  "rt_os_sem_count_get N sem =
     (case sem of
        None \<Rightarrow> 0
      | Some s \<Rightarrow> (case rs_handle s of None \<Rightarrow> 0 | Some n \<Rightarrow> rt_sem_value N n))"

definition rt_sem_ops :: "'n rt_sem \<Rightarrow> 'n rt_os_sem sem_ops" where
  "rt_sem_ops N =
     \<lparr>sem_zero = rt_os_sem_zero,
      sem_init = \<lambda>s i l. via_ptr (\<lambda>p. rt_os_sem_init N p i l) s,
      sem_deinit = \<lambda>isr. via_ptr (rt_os_sem_deinit N isr),
      sem_take = \<lambda>isr s t. via_ptr (\<lambda>p. rt_os_sem_take N isr p t) s,
      sem_trytake = \<lambda>isr. via_ptr (rt_os_sem_trytake N isr),
      sem_give = \<lambda>isr s. snd (via_ptr (\<lambda>p. ((), rt_os_sem_give N p)) s),
      sem_count_get = \<lambda>isr s. rt_os_sem_count_get N (Some s)\<rparr>"

text \<open>
  The documented behaviour of the RT-Thread calls. A release at the value limit reports
  \<open>-RT_EFULL\<close> and changes nothing.
\<close>

locale rt_sem_native =
  fixes N :: "'n rt_sem"
    and nok :: "'n \<Rightarrow> bool"
    and ncnt :: "'n \<Rightarrow> nat"
    and nmax :: "'n \<Rightarrow> nat"
  assumes ncnt_le: "nok n \<Longrightarrow> ncnt n \<le> nmax n"
    and ninit: "rt_sem_init N i = (True, n) \<Longrightarrow> rt_sem_control_vlimit N n l = (True, n') \<Longrightarrow>
           l \<noteq> 0 \<Longrightarrow> i \<le> l \<Longrightarrow> nok n' \<and> ncnt n' = unat i \<and> nmax n' = unat l"
    and ntry_token: "nok n \<Longrightarrow> 0 < ncnt n \<Longrightarrow>
           \<exists>n'. rt_sem_trytake N n = (True, n') \<and> nok n' \<and> ncnt n' = ncnt n - 1 \<and> nmax n' = nmax n"
    and ntry_empty: "nok n \<Longrightarrow> ncnt n = 0 \<Longrightarrow>
           \<exists>n'. rt_sem_trytake N n = (False, n') \<and> nok n' \<and> ncnt n' = 0 \<and> nmax n' = nmax n"
    and ntake_token: "nok n \<Longrightarrow> 0 < ncnt n \<Longrightarrow>
           \<exists>n'. rt_sem_take N n t = (True, n') \<and> nok n' \<and> ncnt n' = ncnt n - 1 \<and> nmax n' = nmax n"
    and ntake_frame: "nok n \<Longrightarrow> ncnt n = 0 \<Longrightarrow> rt_sem_take N n t = (r, n') \<Longrightarrow>
           nok n' \<and> nmax n' = nmax n \<and> (\<not> r \<longrightarrow> ncnt n' = 0)"
    and nrelease: "nok n \<Longrightarrow> nok (rt_sem_release N n)
           \<and> ncnt (rt_sem_release N n) = min (Suc (ncnt n)) (nmax n)
           \<and> nmax (rt_sem_release N n) = nmax n"
    and nvalue: "nok n \<Longrightarrow> unat (rt_sem_value N n) = ncnt n"

definition rs_live :: "('n \<Rightarrow> bool) \<Rightarrow> 'n rt_os_sem \<Rightarrow> bool" where
  "rs_live nok s = (case rs_handle s of None \<Rightarrow> False | Some n \<Rightarrow> nok n)"

definition rs_dead :: "'n rt_os_sem \<Rightarrow> bool" where
  "rs_dead s = (rs_handle s = None)"

definition rs_read :: "('n \<Rightarrow> nat) \<Rightarrow> 'n rt_os_sem \<Rightarrow> nat" where
  "rs_read f s = (case rs_handle s of None \<Rightarrow> 0 | Some n \<Rightarrow> f n)"

lemmas rs_view_defs = rs_live_def rs_dead_def rs_read_def

lemma rs_liveE:
  assumes "rs_live nok s"
  obtains n where "rs_handle s = Some n" "nok n"
proof (cases "rs_handle s")
  case None
  with assms show ?thesis by (simp add: rs_live_def)
next
  case (Some n)
  with assms that show ?thesis by (simp add: rs_live_def)
qed

lemma rt_take_handle:
  assumes "rs_handle s = Some n"
    and "(if t = 0 then rt_sem_trytake N n
          else rt_sem_take N n (if t = OS_WAIT_FOREVER then RT_WAITING_FOREVER N else t)) = (r, n')"
    and "may_wait isr t"
  shows "sem_take (rt_sem_ops N) isr s t =
     (if r then 0 else if t = 0 then - EBUSY else - ETIMEDOUT, s\<lparr>rs_handle := Some n'\<rparr>)"
  using assms
  by (cases "t = 0") (simp_all add: rt_sem_ops_def rt_os_sem_take_def via_ptr_def may_wait_def Let_def)

sublocale rt_sem_native \<subseteq> rt:
  os_sem_contract "rt_sem_ops N" "rs_live nok" rs_dead "rs_read ncnt" "rs_read nmax"
proof (unfold_locales, goal_cases)
  case (1 s)
  then show ?case by (auto simp: rs_dead_def elim!: rs_liveE)
next
  case (2 s)
  then show ?case by (auto simp: rs_read_def ncnt_le elim!: rs_liveE)
next
  case 3
  then show ?case by (simp add: rt_sem_ops_def rt_os_sem_zero_def rs_dead_def)
next
  case (4 l i s)
  then show ?case by (auto simp: rt_sem_ops_def rt_os_sem_init_def via_ptr_def)
next
  case (5 s i l s')
  then show ?case
    by (auto simp: rt_sem_ops_def rt_os_sem_init_def via_ptr_def rs_view_defs Let_def not_less
        dest: ninit split: if_splits prod.splits)
next
  case (6 s isr)
  then show ?case
    by (simp add: rt_sem_ops_def rt_os_sem_deinit_def via_ptr_def rs_dead_def)
next
  case (7 s isr r s')
  then obtain n where "rs_handle s = Some n" by (auto elim!: rs_liveE)
  with 7(2) show ?case
    by (auto simp: rt_sem_ops_def rt_os_sem_deinit_def via_ptr_def rs_dead_def rt_os_sem_zero_def
        split: if_splits)
next
  case (8 s isr t)
  then show ?case by (simp add: rt_sem_ops_def rt_os_sem_take_def via_ptr_def rs_dead_def)
next
  case (9 s isr t)
  then show ?case
    by (auto simp: rt_sem_ops_def rt_os_sem_take_def via_ptr_def may_wait_def elim!: rs_liveE)
next
  case (10 s isr t)
  then obtain n where n: "rs_handle s = Some n" "nok n" "0 < ncnt n"
    by (auto simp: rs_read_def elim!: rs_liveE)
  obtain n' where "(if t = 0 then rt_sem_trytake N n
      else rt_sem_take N n (if t = OS_WAIT_FOREVER then RT_WAITING_FOREVER N else t)) = (True, n')"
    and "nok n'" "ncnt n' = ncnt n - 1" "nmax n' = nmax n"
    using ntry_token [OF n(2,3)]
      ntake_token [OF n(2,3), of "if t = OS_WAIT_FOREVER then RT_WAITING_FOREVER N else t"]
    by (cases "t = 0") (simp, metis)+
  then show ?case using n rt_take_handle [OF n(1) _ 10(2), of N True n']
    by (simp add: rs_view_defs)
next
  case (11 s isr)
  then obtain n where n: "rs_handle s = Some n" "nok n" "ncnt n = 0"
    by (auto simp: rs_read_def elim!: rs_liveE)
  obtain n' where "rt_sem_trytake N n = (False, n')" "nok n'" "ncnt n' = 0" "nmax n' = nmax n"
    using ntry_empty [OF n(2,3)] by blast
  then show ?case using n rt_take_handle [OF n(1), of 0 N False n' isr]
    by (simp add: rs_view_defs may_wait_def)
next
  case (12 s isr t r s')
  then obtain n where n: "rs_handle s = Some n" "nok n" "ncnt n = 0"
    by (auto simp: rs_read_def elim!: rs_liveE)
  let ?t = "if t = OS_WAIT_FOREVER then RT_WAITING_FOREVER N else t"
  obtain b n' where t: "rt_sem_take N n ?t = (b, n')" by (cases "rt_sem_take N n ?t")
  have "r = (if b then 0 else - ETIMEDOUT)" "s' = s\<lparr>rs_handle := Some n'\<rparr>"
    using rt_take_handle [OF n(1) _ 12(2), of N b n'] t 12(3,5) by auto
  then show ?case using n ntake_frame [OF n(2,3) t] by (simp add: rs_view_defs)
next
  case (13 isr s)
  then show ?case by (simp add: rt_sem_ops_def rt_os_sem_trytake_def via_ptr_def)
next
  case (14 s isr)
  then show ?case by (simp add: rt_sem_ops_def rt_os_sem_give_def via_ptr_def rs_dead_def)
next
  case (15 s isr)
  then obtain n where "rs_handle s = Some n" "nok n" by (rule rs_liveE)
  then show ?case using nrelease [of n]
    by (simp add: rt_sem_ops_def rt_os_sem_give_def via_ptr_def rs_view_defs)
next
  case (16 s isr)
  then show ?case by (simp add: rt_sem_ops_def rt_os_sem_count_get_def rs_dead_def)
next
  case (17 s isr)
  then show ?case
    by (auto simp: rt_sem_ops_def rt_os_sem_count_get_def rs_read_def nvalue elim!: rs_liveE)
qed

context rt_sem_native begin

lemma adapter_contract:
  "os_sem_contract (rt_sem_ops N) (rs_live nok) rs_dead (rs_read ncnt) (rs_read nmax)"
  by (rule rt.os_sem_contract_axioms)

end

text \<open>The reference object does not record who waits on it, so that is a parameter \<open>w\<close>.\<close>

definition native_rt :: "(native \<Rightarrow> bool) \<Rightarrow> native rt_sem" where
  "native_rt w =
     \<lparr>RT_SEM_VALUE_MAX = 65535,
      RT_WAITING_FOREVER = 0xFFFFFFFF,
      rt_sem_init = \<lambda>i. (True, (i, 65535)),
      rt_sem_control_vlimit = \<lambda>n l. (True, (fst n, l)),
      rt_sem_detach = \<lambda>_. True,
      rt_sem_trytake = native_take,
      rt_sem_take = \<lambda>n _. native_take n,
      rt_sem_release = \<lambda>n. snd (native_give n),
      rt_sem_value = fst,
      rt_sem_has_waiters = w\<rparr>"

interpretation rtn: rt_sem_native "native_rt w" native_ok native_cnt native_max for w
  by unfold_locales
    (auto simp: native_rt_def native_le native_get native_take_token native_take_empty
      intro: native_new dest: native_give_spec [OF _ prod.collapse [symmetric]]
      simp del: split_paired_Ex)

section \<open>Property\<close>

text \<open>C9: The RT-Thread adapter keeps the portable semaphore contract, for every kernel whose
  semaphores behave as RT-Thread documents: counts stay within the limit, a take that may not
  wait returns at once with \<open>-EBUSY\<close> or \<open>-EWOULDBLOCK\<close>, a give saturates, and every call on
  an object that is not initialised returns \<open>-EINVAL\<close> or does nothing.\<close>

theorem rt_sem_keeps_contract:
  assumes "rt_sem_native N nok ncnt nmax"
  shows "os_sem_contract (rt_sem_ops N) (rs_live nok) rs_dead (rs_read ncnt) (rs_read nmax)"
  using assms by (rule rt_sem_native.adapter_contract)

theorem rt_sem_keeps_contract_witness:
  "os_sem_contract (rt_sem_ops (native_rt (\<lambda>n. fst n = 0))) (rs_live native_ok) rs_dead
     (rs_read native_cnt) (rs_read native_max)"
  by (rule rt_sem_keeps_contract [OF rtn.rt_sem_native_axioms])

end
