(* ===== verification/Message_Queue.thy ===== *)
theory Message_Queue
  imports Sem_FreeRTOS Sem_RTThread
begin

text \<open>
  \<open>src/common/message_queue.c\<close>: fixed-size messages copied into a caller-provided ring.

  \<open>os_msgq\<close> is \<open>struct os_msgq\<close> of \<open>kernel.h\<close>; \<open>mq_buffer\<close> is the caller's memory that
  the \<open>buffer\<close> field points to. Each call is translated whole, with the semaphore operations
  as the parameter \<open>S\<close>; the two critical sections are definitions of their own, because the
  interleaving model runs them as atomic steps. \<open>msgq_contents\<close> is the abstract queue, and the
  second half of the theory proves that the ring implements a bounded FIFO queue of messages.
\<close>

section \<open>State and operations\<close>

record 's os_msgq =
  mq_buffer :: "u8 list"
  message_size :: size_t
  capacity :: u32
  read_index :: u32
  write_index :: u32
  mq_count :: u32
  mq_items :: 's
  mq_spaces :: 's
  mq_initialized :: bool

definition os_msgq_zero :: "'s sem_ops \<Rightarrow> 's os_msgq" where
  "os_msgq_zero S =
     \<lparr>mq_buffer = [], message_size = 0, capacity = 0, read_index = 0, write_index = 0,
      mq_count = 0, mq_items = sem_zero S, mq_spaces = sem_zero S, mq_initialized = False\<rparr>"

definition os_msgq_init ::
  "'s sem_ops \<Rightarrow> bool \<Rightarrow> 's os_msgq option \<Rightarrow> u8 list option \<Rightarrow> size_t \<Rightarrow> u32 \<Rightarrow>
   int \<times> 's os_msgq option" where
  "os_msgq_init S isr msgq buffer message_sz cap =
     (case (msgq, buffer) of
        (Some _, Some buf) \<Rightarrow>
          if message_sz = 0 \<or> cap = 0 \<or> message_sz > SIZE_MAX div cap then (- EINVAL, msgq)
          else
            let q = os_msgq_zero S;
                (result, items) = sem_init S (mq_items q) 0 cap;
                q = q\<lparr>mq_items := items\<rparr>
            in if result \<noteq> 0 then (- ENOMEM, Some q)
               else
                 let (result, spaces) = sem_init S (mq_spaces q) cap cap;
                     q = q\<lparr>mq_spaces := spaces\<rparr>
                 in if result \<noteq> 0
                    then (- ENOMEM, Some (q\<lparr>mq_items := snd (sem_deinit S isr (mq_items q))\<rparr>))
                    else (0, Some (q\<lparr>mq_buffer := buf, message_size := message_sz,
                                     capacity := cap, mq_initialized := True\<rparr>))
      | _ \<Rightarrow> (- EINVAL, msgq))"

definition os_msgq_deinit ::
  "'s sem_ops \<Rightarrow> bool \<Rightarrow> 's os_msgq option \<Rightarrow> int \<times> 's os_msgq option" where
  "os_msgq_deinit S isr msgq =
     (case msgq of
        None \<Rightarrow> (- EINVAL, None)
      | Some q \<Rightarrow>
          if \<not> mq_initialized q then (- EINVAL, Some q)
          else
            let (result, items) = sem_deinit S isr (mq_items q); q = q\<lparr>mq_items := items\<rparr>
            in if result \<noteq> 0 then (result, Some q)
               else
                 let (result, spaces) = sem_deinit S isr (mq_spaces q);
                     q = q\<lparr>mq_spaces := spaces\<rparr>
                 in if result \<noteq> 0 then (result, Some q)
                    else (0, Some (os_msgq_zero S)))"

text \<open>The critical section of \<open>os_msgq_put\<close>: copy the message in and advance the index.\<close>

definition msgq_put_section :: "'s os_msgq \<Rightarrow> u8 list \<Rightarrow> 's os_msgq option" where
  "msgq_put_section q message = do {
     buf \<leftarrow> os_common_copy (mq_buffer q) (unat (write_index q * message_size q))
              message 0 (unat (message_size q));
     Some (q\<lparr>mq_buffer := buf,
             write_index := (write_index q + 1) mod capacity q,
             mq_count := mq_count q + 1\<rparr>)
   }"

definition os_msgq_put ::
  "'s sem_ops \<Rightarrow> bool \<Rightarrow> 's os_msgq option \<Rightarrow> u8 list option \<Rightarrow> u32 \<Rightarrow>
   (int \<times> 's os_msgq option) option" where
  "os_msgq_put S isr msgq message timeout =
     (case (msgq, message) of
        (Some q, Some m) \<Rightarrow>
          if \<not> mq_initialized q then Some (- EINVAL, Some q)
          else
            let (result, spaces) = sem_take S isr (mq_spaces q) timeout;
                q = q\<lparr>mq_spaces := spaces\<rparr>
            in if result \<noteq> 0 then Some (result, Some q)
               else do {
                 q \<leftarrow> msgq_put_section q m;
                 Some (0, Some (q\<lparr>mq_items := sem_give S isr (mq_items q)\<rparr>))
               }
      | _ \<Rightarrow> Some (- EINVAL, msgq))"

text \<open>The critical section of \<open>os_msgq_get\<close>: copy the message out and advance the index.\<close>

definition msgq_get_section :: "'s os_msgq \<Rightarrow> u8 list \<Rightarrow> ('s os_msgq \<times> u8 list) option" where
  "msgq_get_section q message = do {
     m \<leftarrow> os_common_copy message 0 (mq_buffer q) (unat (read_index q * message_size q))
            (unat (message_size q));
     Some (q\<lparr>read_index := (read_index q + 1) mod capacity q, mq_count := mq_count q - 1\<rparr>, m)
   }"

definition os_msgq_get ::
  "'s sem_ops \<Rightarrow> bool \<Rightarrow> 's os_msgq option \<Rightarrow> u8 list option \<Rightarrow> u32 \<Rightarrow>
   (int \<times> 's os_msgq option \<times> u8 list option) option" where
  "os_msgq_get S isr msgq message timeout =
     (case (msgq, message) of
        (Some q, Some dest) \<Rightarrow>
          if \<not> mq_initialized q then Some (- EINVAL, Some q, Some dest)
          else
            let (result, items) = sem_take S isr (mq_items q) timeout;
                q = q\<lparr>mq_items := items\<rparr>
            in if result \<noteq> 0 then Some (result, Some q, Some dest)
               else do {
                 (q, dest) \<leftarrow> msgq_get_section q dest;
                 Some (0, Some (q\<lparr>mq_spaces := sem_give S isr (mq_spaces q)\<rparr>), Some dest)
               }
      | _ \<Rightarrow> Some (- EINVAL, msgq, message))"

definition os_msgq_count_get :: "'s os_msgq option \<Rightarrow> u32" where
  "os_msgq_count_get msgq =
     (case msgq of None \<Rightarrow> 0 | Some q \<Rightarrow> if mq_initialized q then mq_count q else 0)"

section \<open>The ring as a queue of messages\<close>

definition msgq_contents :: "'s os_msgq \<Rightarrow> u8 list list" where
  "msgq_contents q =
     map (\<lambda>k. slot (mq_buffer q) (unat (message_size q)) ((unat (read_index q) + k) mod unat (capacity q)))
       [0..<unat (mq_count q)]"

text \<open>The ring invariant: sizes that do not overflow, a large enough buffer, indices in range.\<close>

definition msgq_ring :: "'s os_msgq \<Rightarrow> bool" where
  "msgq_ring q \<longleftrightarrow>
     mq_initialized q \<and> 0 < unat (message_size q) \<and> 0 < unat (capacity q)
     \<and> unat (capacity q) * unat (message_size q) < 2 ^ 32
     \<and> unat (capacity q) * unat (message_size q) \<le> length (mq_buffer q)
     \<and> unat (read_index q) < unat (capacity q)
     \<and> unat (mq_count q) \<le> unat (capacity q)
     \<and> unat (write_index q) = (unat (read_index q) + unat (mq_count q)) mod unat (capacity q)"

lemma msgq_contents_length [simp]: "length (msgq_contents q) = unat (mq_count q)"
  by (simp add: msgq_contents_def)

lemma msgq_ring_offset:
  assumes "msgq_ring q" "unat i < unat (capacity q)"
  shows "unat (i * message_size q) = unat i * unat (message_size q)"
    and "unat i * unat (message_size q) + unat (message_size q) \<le> length (mq_buffer q)"
proof -
  have block: "unat i * unat (message_size q) + unat (message_size q)
      \<le> unat (capacity q) * unat (message_size q)"
    using assms(2) by (rule block_in_range)
  then have "unat i * unat (message_size q) < 2 ^ 32"
    using assms(1) by (auto simp: msgq_ring_def)
  then show "unat (i * message_size q) = unat i * unat (message_size q)"
    by (rule unat_mult_fits)
  show "unat i * unat (message_size q) + unat (message_size q) \<le> length (mq_buffer q)"
    using block assms(1) by (auto simp: msgq_ring_def)
qed

lemma msgq_ring_write_index: "msgq_ring q \<Longrightarrow> unat (write_index q) < unat (capacity q)"
  by (simp add: msgq_ring_def)

lemma ring_slot_distinct:
  fixes r n k c :: nat
  assumes "r < c" "n < c" "k < n"
  shows "(r + n) mod c \<noteq> (r + k) mod c"
proof
  assume "(r + n) mod c = (r + k) mod c"
  then have "c dvd (r + n) - (r + k)" by (metis mod_eq_dvd_iff_nat assms(3) add_le_mono le_refl less_imp_le)
  then have "c dvd n - k" by simp
  with assms show False by (auto dest: dvd_imp_le)
qed

text \<open>Putting into a ring with a free slot appends the message and stays inside the buffer.\<close>

lemma msgq_put_section_spec:
  assumes ring: "msgq_ring q" and room: "unat (mq_count q) < unat (capacity q)"
    and msg: "unat (message_size q) \<le> length m"
  shows "\<exists>q'. msgq_put_section q m = Some q' \<and> msgq_ring q'
     \<and> msgq_contents q' = msgq_contents q @ [take (unat (message_size q)) m]
     \<and> unat (mq_count q') = Suc (unat (mq_count q))
     \<and> capacity q' = capacity q \<and> message_size q' = message_size q
     \<and> mq_items q' = mq_items q \<and> mq_spaces q' = mq_spaces q"
proof -
  let ?sz = "unat (message_size q)" and ?w = "unat (write_index q)" and ?c = "unat (capacity q)"
  let ?r = "unat (read_index q)" and ?n = "unat (mq_count q)"
  note off = msgq_ring_offset [OF ring msgq_ring_write_index [OF ring]]
  let ?buf = "take (?w * ?sz) (mq_buffer q) @ take ?sz m @ drop (?w * ?sz + ?sz) (mq_buffer q)"
  let ?q = "q\<lparr>mq_buffer := ?buf, write_index := (write_index q + 1) mod capacity q,
              mq_count := mq_count q + 1\<rparr>"
  have put: "msgq_put_section q m = Some ?q"
    using off msg by (simp add: msgq_put_section_def os_common_copy_spec)
  have count: "unat (mq_count q + 1) = Suc ?n"
    using room by (simp add: unat_inc_less word_less_nat_alt)
  have w: "?w = (?r + ?n) mod ?c" using ring by (simp add: msgq_ring_def)
  have "unat ((write_index q + 1) mod capacity q) = Suc ?w mod ?c"
    using msgq_ring_write_index [OF ring] by (simp add: unat_mod_inc word_less_nat_alt)
  also have "\<dots> = (?r + Suc ?n) mod ?c" by (simp add: w mod_Suc_eq)
  finally have ring': "msgq_ring ?q"
    using ring room off(2) msg count by (simp add: msgq_ring_def)
  have old: "slot ?buf ?sz ((?r + k) mod ?c) = slot (mq_buffer q) ?sz ((?r + k) mod ?c)"
    if "k < ?n" for k
    using ring_slot_distinct [of ?r ?c ?n k] that ring room off(2) msg w
    by (intro slot_write_other) (auto simp: msgq_ring_def)
  have new: "slot ?buf ?sz ((?r + ?n) mod ?c) = take ?sz m"
    using off(2) msg by (simp add: w [symmetric] slot_write_same)
  have "msgq_contents ?q = msgq_contents q @ [take ?sz m]"
    using old new by (simp add: msgq_contents_def count)
  with put ring' count show ?thesis by simp
qed

text \<open>Getting from a non-empty ring copies the oldest message out and removes it.\<close>

lemma msgq_get_section_spec:
  assumes ring: "msgq_ring q" and some: "0 < unat (mq_count q)"
    and dest: "unat (message_size q) \<le> length d"
  shows "\<exists>q' m. msgq_get_section q d = Some (q', m @ drop (unat (message_size q)) d)
     \<and> msgq_contents q = m # msgq_contents q' \<and> length m = unat (message_size q)
     \<and> msgq_ring q' \<and> Suc (unat (mq_count q')) = unat (mq_count q)
     \<and> capacity q' = capacity q \<and> message_size q' = message_size q
     \<and> mq_items q' = mq_items q \<and> mq_spaces q' = mq_spaces q"
proof -
  let ?sz = "unat (message_size q)" and ?c = "unat (capacity q)"
  let ?r = "unat (read_index q)" and ?n = "unat (mq_count q)"
  have r: "?r < ?c" using ring by (simp add: msgq_ring_def)
  note off = msgq_ring_offset [OF ring r]
  let ?q = "q\<lparr>read_index := (read_index q + 1) mod capacity q, mq_count := mq_count q - 1\<rparr>"
  let ?m = "slot (mq_buffer q) ?sz ?r"
  have get: "msgq_get_section q d = Some (?q, ?m @ drop ?sz d)"
    using off dest by (simp add: msgq_get_section_def os_common_copy_spec slot_def)
  have count: "unat (mq_count q - 1) = ?n - 1"
    using some by (intro unat_dec) auto
  have read: "unat ((read_index q + 1) mod capacity q) = Suc ?r mod ?c"
    using r by (simp add: unat_mod_inc word_less_nat_alt)
  have shift: "(Suc ?r mod ?c + k) mod ?c = (?r + Suc k) mod ?c" for k
    by (simp add: mod_add_left_eq)
  obtain k where n: "?n = Suc k" using some by (cases ?n) auto
  then have count': "unat (mq_count q - 1) = k" using count by simp
  have ring': "msgq_ring ?q"
    using ring shift [of k] r by (simp add: msgq_ring_def count' read n)
  have "[0..<Suc k] = 0 # map Suc [0..<k]"
    by (simp add: upt_conv_Cons map_Suc_upt del: upt_Suc)
  then have "msgq_contents q = ?m # msgq_contents ?q"
    using r by (simp add: msgq_contents_def count' read shift n del: upt_Suc)
  moreover have "length ?m = ?sz" using off(2) by (simp add: slot_length)
  ultimately show ?thesis
    using get ring' n count' by (intro exI [of _ ?q] exI [of _ ?m]) simp
qed

section \<open>The calls on a queue in a consistent state\<close>

text \<open>
  Between calls the two semaphores count the messages and the free slots. The lemmas hold for
  every semaphore implementation that satisfies the contract.
\<close>

definition msgq_inv ::
  "('s \<Rightarrow> bool) \<Rightarrow> ('s \<Rightarrow> nat) \<Rightarrow> ('s \<Rightarrow> nat) \<Rightarrow> 's os_msgq \<Rightarrow> bool" where
  "msgq_inv live cnt lim q \<longleftrightarrow>
     msgq_ring q \<and> live (mq_items q) \<and> live (mq_spaces q)
     \<and> cnt (mq_items q) = unat (mq_count q)
     \<and> cnt (mq_spaces q) + unat (mq_count q) = unat (capacity q)
     \<and> lim (mq_items q) = unat (capacity q) \<and> lim (mq_spaces q) = unat (capacity q)"

context os_sem_contract begin

abbreviation mq_inv :: "'s os_msgq \<Rightarrow> bool" where
  "mq_inv \<equiv> msgq_inv live cnt lim"

lemma msgq_init_inv:
  assumes "os_msgq_init S isr (Some q) (Some buf) sz cap = (0, Some q')"
    and "unat cap * unat sz \<le> length buf"
  shows "mq_inv q' \<and> msgq_contents q' = [] \<and> capacity q' = cap \<and> message_size q' = sz"
proof -
  obtain items where items: "sem_init S (sem_zero S) 0 cap = (0, items)"
    using assms(1) by (auto simp: os_msgq_init_def os_msgq_zero_def Let_def split: if_splits prod.splits)
  obtain spaces where spaces: "sem_init S (sem_zero S) cap cap = (0, spaces)"
    using assms(1) items
    by (auto simp: os_msgq_init_def os_msgq_zero_def Let_def split: if_splits prod.splits)
  have args: "sz \<noteq> 0" "cap \<noteq> 0" "\<not> sz > SIZE_MAX div cap"
    using assms(1) by (auto simp: os_msgq_init_def split: if_splits)
  have q': "q' = (os_msgq_zero S)\<lparr>mq_items := items, mq_spaces := spaces, mq_buffer := buf,
      message_size := sz, capacity := cap, mq_initialized := True\<rparr>"
    using assms(1) items spaces args by (simp add: os_msgq_init_def os_msgq_zero_def)
  have "msgq_ring q'"
    using args unat_div_guard [OF args(2,3)] assms(2)
    by (simp add: q' msgq_ring_def os_msgq_zero_def unat_gt_0)
  then show ?thesis
    using init_ok [OF items] init_ok [OF spaces]
    by (simp add: q' msgq_inv_def os_msgq_zero_def msgq_contents_def)
qed

lemma msgq_init_rejects:
  assumes "msgq = None \<or> buffer = None \<or> sz = 0 \<or> cap = 0 \<or> unat cap * unat sz \<ge> 2 ^ 32"
  shows "os_msgq_init S isr msgq buffer sz cap = (- EINVAL, msgq)"
proof -
  have "sz > SIZE_MAX div cap" if "2 ^ 32 \<le> unat cap * unat sz" "cap \<noteq> 0"
    using that unat_div_guard [of cap sz] by (meson not_less)
  with assms show ?thesis by (auto simp: os_msgq_init_def split: option.split)
qed

lemma msgq_put_room:
  assumes inv: "mq_inv q" and room: "unat (mq_count q) < unat (capacity q)"
    and wait: "may_wait isr t" and msg: "unat (message_size q) \<le> length m"
  shows "\<exists>q'. os_msgq_put S isr (Some q) (Some m) t = Some (0, Some q') \<and> mq_inv q'
     \<and> msgq_contents q' = msgq_contents q @ [take (unat (message_size q)) m]
     \<and> capacity q' = capacity q \<and> message_size q' = message_size q"
proof -
  have ring: "msgq_ring q" and live: "live (mq_spaces q)" "0 < cnt (mq_spaces q)"
    using inv room by (auto simp: msgq_inv_def)
  obtain sp where take: "sem_take S isr (mq_spaces q) t = (0, sp)" and sp: "live sp"
      "Suc (cnt sp) = cnt (mq_spaces q)" "lim sp = lim (mq_spaces q)"
    using take_token [OF live(1) wait live(2)] live(2) by auto
  let ?q = "q\<lparr>mq_spaces := sp\<rparr>"
  have "msgq_ring ?q" "msgq_contents ?q = msgq_contents q"
    using ring by (simp_all add: msgq_ring_def msgq_contents_def)
  then obtain q' where put: "msgq_put_section ?q m = Some q'" "msgq_ring q'"
      "msgq_contents q' = msgq_contents q @ [take (unat (message_size q)) m]"
      "unat (mq_count q') = Suc (unat (mq_count q))" "capacity q' = capacity q"
      "message_size q' = message_size q" "mq_items q' = mq_items q" "mq_spaces q' = sp"
    using msgq_put_section_spec [of ?q m] room msg by auto
  let ?q' = "q'\<lparr>mq_items := sem_give S isr (mq_items q')\<rparr>"
  have "msgq_ring ?q'" "msgq_contents ?q' = msgq_contents q'"
    using put(2) by (simp_all add: msgq_ring_def msgq_contents_def)
  moreover have "cnt (mq_items q) < lim (mq_items q)"
    using inv room by (simp add: msgq_inv_def)
  ultimately have "mq_inv ?q'"
    using inv put sp give_below [of "mq_items q" isr] by (auto simp: msgq_inv_def)
  moreover have "os_msgq_put S isr (Some q) (Some m) t = Some (0, Some ?q')"
    using ring take put(1) by (simp add: os_msgq_put_def msgq_ring_def)
  ultimately show ?thesis using put \<open>msgq_contents ?q' = msgq_contents q'\<close> by auto
qed

lemma msgq_get_some:
  assumes inv: "mq_inv q" and some: "0 < unat (mq_count q)"
    and wait: "may_wait isr t" and dest: "unat (message_size q) \<le> length d"
  shows "\<exists>q' m. os_msgq_get S isr (Some q) (Some d) t
       = Some (0, Some q', Some (m @ drop (unat (message_size q)) d))
     \<and> msgq_contents q = m # msgq_contents q' \<and> length m = unat (message_size q) \<and> mq_inv q'
     \<and> capacity q' = capacity q \<and> message_size q' = message_size q"
proof -
  have ring: "msgq_ring q" and live: "live (mq_items q)" "0 < cnt (mq_items q)"
    using inv some by (auto simp: msgq_inv_def)
  obtain it where take: "sem_take S isr (mq_items q) t = (0, it)" and it: "live it"
      "Suc (cnt it) = cnt (mq_items q)" "lim it = lim (mq_items q)"
    using take_token [OF live(1) wait live(2)] live(2) by auto
  let ?q = "q\<lparr>mq_items := it\<rparr>"
  have "msgq_ring ?q" "msgq_contents ?q = msgq_contents q"
    using ring by (simp_all add: msgq_ring_def msgq_contents_def)
  then obtain q' m where get:
      "msgq_get_section ?q d = Some (q', m @ drop (unat (message_size q)) d)"
      "msgq_contents q = m # msgq_contents q'" "length m = unat (message_size q)" "msgq_ring q'"
      "Suc (unat (mq_count q')) = unat (mq_count q)" "capacity q' = capacity q"
      "message_size q' = message_size q" "mq_items q' = it" "mq_spaces q' = mq_spaces q"
    using msgq_get_section_spec [of ?q d] some dest by auto
  let ?q' = "q'\<lparr>mq_spaces := sem_give S isr (mq_spaces q')\<rparr>"
  have "msgq_ring ?q'" "msgq_contents ?q' = msgq_contents q'"
    using get(4) by (simp_all add: msgq_ring_def msgq_contents_def)
  moreover have "cnt (mq_spaces q) < lim (mq_spaces q)"
    using inv some by (auto simp: msgq_inv_def)
  ultimately have "mq_inv ?q'"
    using inv get it give_below [of "mq_spaces q" isr] by (auto simp: msgq_inv_def)
  moreover have "os_msgq_get S isr (Some q) (Some d) t
      = Some (0, Some ?q', Some (m @ drop (unat (message_size q)) d))"
    using ring take get(1) by (simp add: os_msgq_get_def msgq_ring_def)
  ultimately show ?thesis using get \<open>msgq_contents ?q' = msgq_contents q'\<close> by auto
qed

text \<open>Full and empty queues answer \<open>-EBUSY\<close> at once when asked not to wait.\<close>

lemma msgq_put_full:
  assumes inv: "mq_inv q" and full: "unat (mq_count q) = unat (capacity q)"
  shows "\<exists>q'. os_msgq_put S isr (Some q) (Some m) 0 = Some (- EBUSY, Some q') \<and> mq_inv q'
     \<and> msgq_contents q' = msgq_contents q \<and> capacity q' = capacity q
     \<and> message_size q' = message_size q"
proof -
  have "live (mq_spaces q)" "cnt (mq_spaces q) = 0" using inv full by (auto simp: msgq_inv_def)
  then obtain sp where "sem_take S isr (mq_spaces q) 0 = (- EBUSY, sp)" "live sp" "cnt sp = 0"
      "lim sp = lim (mq_spaces q)"
    using take_empty [of "mq_spaces q" isr] by auto
  with inv full show ?thesis
    by (auto simp: os_msgq_put_def msgq_inv_def msgq_ring_def msgq_contents_def)
qed

lemma msgq_get_empty:
  assumes inv: "mq_inv q" and empty: "unat (mq_count q) = 0"
  shows "\<exists>q'. os_msgq_get S isr (Some q) (Some d) 0 = Some (- EBUSY, Some q', Some d) \<and> mq_inv q'
     \<and> msgq_contents q' = msgq_contents q \<and> capacity q' = capacity q
     \<and> message_size q' = message_size q"
proof -
  have "live (mq_items q)" "cnt (mq_items q) = 0" using inv empty by (auto simp: msgq_inv_def)
  then obtain it where "sem_take S isr (mq_items q) 0 = (- EBUSY, it)" "live it" "cnt it = 0"
      "lim it = lim (mq_items q)"
    using take_empty [of "mq_items q" isr] by auto
  with inv empty show ?thesis
    by (auto simp: os_msgq_get_def msgq_inv_def msgq_ring_def msgq_contents_def)
qed

lemma msgq_deinit_stuck:
  assumes inv: "mq_inv q" and items: "sem_deinit S isr (mq_items q) = (0, items)"
    and spaces: "sem_deinit S isr (mq_spaces q) = (r, spaces)" "r \<noteq> 0"
  shows "\<exists>q'. os_msgq_deinit S isr (Some q) = (r, Some q')
     \<and> os_msgq_deinit S isr' (Some q') = (- EINVAL, Some q')
     \<and> os_msgq_get S isr' (Some q') (Some d) t = Some (- EINVAL, Some q', Some d)"
proof -
  have init: "mq_initialized q" and live: "live (mq_items q)" "live (mq_spaces q)"
    using inv by (auto simp: msgq_inv_def msgq_ring_def)
  let ?q = "q\<lparr>mq_items := items, mq_spaces := spaces\<rparr>"
  have dead: "dead items" using deinit_live [OF live(1) items] by simp
  have "os_msgq_deinit S isr (Some q) = (r, Some ?q)"
    using init items spaces by (simp add: os_msgq_deinit_def)
  moreover have "os_msgq_deinit S isr' (Some ?q) = (- EINVAL, Some ?q)"
    using init deinit_dead [OF dead] by (simp add: os_msgq_deinit_def)
  moreover have "os_msgq_get S isr' (Some ?q) (Some d) t = Some (- EINVAL, Some ?q, Some d)"
    using init take_dead [OF dead] by (simp add: os_msgq_get_def)
  ultimately show ?thesis by blast
qed

end

section \<open>Refinement of a bounded FIFO queue\<close>

text \<open>
  The abstract queue holds at most \<open>cap\<close> messages of \<open>sz\<close> bytes; a call answers with a
  return code and, for a get, the bytes of the destination.
\<close>

datatype mq_op = MPut "u8 list" | MGet "u8 list"

fun bq_call :: "nat \<Rightarrow> nat \<Rightarrow> u8 list list \<Rightarrow> mq_op \<Rightarrow> (int \<times> u8 list) \<times> u8 list list" where
  "bq_call cap sz xs (MPut m) =
     (if length xs < cap then ((0, []), xs @ [take sz m]) else ((- EBUSY, []), xs))"
| "bq_call cap sz xs (MGet d) =
     (case xs of [] \<Rightarrow> ((- EBUSY, d), []) | m # ys \<Rightarrow> ((0, m @ drop sz d), ys))"

fun bq_run :: "nat \<Rightarrow> nat \<Rightarrow> u8 list list \<Rightarrow> mq_op list \<Rightarrow> (int \<times> u8 list) list \<times> u8 list list" where
  "bq_run cap sz xs [] = ([], xs)"
| "bq_run cap sz xs (c # cs) =
     (let (r, ys) = bq_call cap sz xs c; (rs, zs) = bq_run cap sz ys cs in (r # rs, zs))"

text \<open>The same calls on the implementation, without waiting.\<close>

fun msgq_call ::
  "'s sem_ops \<Rightarrow> bool \<Rightarrow> 's os_msgq \<Rightarrow> mq_op \<Rightarrow> ((int \<times> u8 list) \<times> 's os_msgq) option" where
  "msgq_call S isr q (MPut m) =
     (case os_msgq_put S isr (Some q) (Some m) 0 of
        Some (r, Some q') \<Rightarrow> Some ((r, []), q') | _ \<Rightarrow> None)"
| "msgq_call S isr q (MGet d) =
     (case os_msgq_get S isr (Some q) (Some d) 0 of
        Some (r, Some q', Some d') \<Rightarrow> Some ((r, d'), q') | _ \<Rightarrow> None)"

fun msgq_run ::
  "'s sem_ops \<Rightarrow> bool \<Rightarrow> 's os_msgq \<Rightarrow> mq_op list \<Rightarrow> ((int \<times> u8 list) list \<times> 's os_msgq) option" where
  "msgq_run S isr q [] = Some ([], q)"
| "msgq_run S isr q (c # cs) = do {
     (r, q) \<leftarrow> msgq_call S isr q c;
     (rs, q) \<leftarrow> msgq_run S isr q cs;
     Some (r # rs, q)
   }"

text \<open>The buffers that the caller passes have at least the configured message size.\<close>

definition call_fits :: "nat \<Rightarrow> mq_op \<Rightarrow> bool" where
  "call_fits sz c = (case c of MPut m \<Rightarrow> sz \<le> length m | MGet d \<Rightarrow> sz \<le> length d)"

context os_sem_contract begin

lemma msgq_call_refines:
  assumes inv: "mq_inv q" and fits: "call_fits (unat (message_size q)) c"
    and abs: "bq_call (unat (capacity q)) (unat (message_size q)) (msgq_contents q) c = (r, xs)"
  shows "\<exists>q'. msgq_call S isr q c = Some (r, q') \<and> mq_inv q' \<and> msgq_contents q' = xs
     \<and> capacity q' = capacity q \<and> message_size q' = message_size q"
proof (cases c)
  case (MPut m)
  have le: "unat (mq_count q) \<le> unat (capacity q)"
    using inv by (simp add: msgq_inv_def msgq_ring_def)
  have msg: "unat (message_size q) \<le> length m" using fits MPut by (simp add: call_fits_def)
  show ?thesis
  proof (cases "unat (mq_count q) < unat (capacity q)")
    case True
    show ?thesis
      using msgq_put_room [OF inv True _ msg, of isr 0] abs True
      by (auto simp: MPut may_wait_def)
  next
    case False
    with le have full: "unat (mq_count q) = unat (capacity q)" by simp
    show ?thesis
      using msgq_put_full [OF inv full, of isr m] abs False by (auto simp: MPut)
  qed
next
  case (MGet d)
  have dest: "unat (message_size q) \<le> length d" using fits MGet by (simp add: call_fits_def)
  show ?thesis
  proof (cases "msgq_contents q")
    case Nil
    then have empty: "unat (mq_count q) = 0" by (metis list.size(3) msgq_contents_length)
    show ?thesis
      using msgq_get_empty [OF inv empty, of isr d] abs Nil by (auto simp: MGet)
  next
    case (Cons m ms)
    then have some: "0 < unat (mq_count q)"
      by (metis length_greater_0_conv list.distinct(1) msgq_contents_length)
    show ?thesis
      using msgq_get_some [OF inv some _ dest, of isr 0] abs Cons
      by (auto simp: MGet may_wait_def)
  qed
qed

lemma msgq_run_refines:
  assumes "mq_inv q" "\<forall>c \<in> set cs. call_fits (unat (message_size q)) c"
    and "bq_run (unat (capacity q)) (unat (message_size q)) (msgq_contents q) cs = (rs, xs)"
  shows "\<exists>q'. msgq_run S isr q cs = Some (rs, q') \<and> mq_inv q' \<and> msgq_contents q' = xs"
  using assms
proof (induction cs arbitrary: q rs)
  case Nil
  then show ?case by simp
next
  case (Cons c cs)
  obtain r ys where call: "bq_call (unat (capacity q)) (unat (message_size q)) (msgq_contents q) c
      = (r, ys)" by (metis surj_pair)
  obtain rs' where run: "bq_run (unat (capacity q)) (unat (message_size q)) ys cs = (rs', xs)"
      "rs = r # rs'"
    using Cons.prems(3) call by (auto split: prod.splits)
  obtain q' where q': "msgq_call S isr q c = Some (r, q')" "mq_inv q'" "msgq_contents q' = ys"
      "capacity q' = capacity q" "message_size q' = message_size q"
    using msgq_call_refines [OF Cons.prems(1) _ call] Cons.prems(2) by auto
  obtain q'' where "msgq_run S isr q' cs = Some (rs', q'')" "mq_inv q''" "msgq_contents q'' = xs"
    using Cons.IH [OF q'(2), of rs'] Cons.prems(2) q' run by auto
  with q' run show ?case by simp
qed

end

section \<open>Properties\<close>

text \<open>C2: A message queue is a bounded FIFO queue. Over any semaphore that keeps the interface's
  contract, every sequence of non-blocking puts and gets on an initialised queue returns
  exactly what the abstract queue of at most \<open>capacity\<close> messages of \<open>message_size\<close> bytes
  returns: messages come out whole and in the order they went in, a put into a full queue and
  a get from an empty one return \<open>-EBUSY\<close>, and no access leaves the caller's buffers.\<close>

theorem msgq_refines_bounded_queue:
  assumes contract: "os_sem_contract S live dead cnt lim"
    and init: "os_msgq_init S isr (Some q0) (Some buf) sz cap = (0, Some q)"
    and buf: "unat cap * unat sz \<le> length buf"
    and fits: "\<forall>c \<in> set cs. call_fits (unat sz) c"
  shows "\<exists>q'. msgq_run S isr' q cs = Some (fst (bq_run (unat cap) (unat sz) [] cs), q')
           \<and> msgq_contents q' = snd (bq_run (unat cap) (unat sz) [] cs)"
proof -
  have inv: "msgq_inv live cnt lim q \<and> msgq_contents q = [] \<and> capacity q = cap \<and> message_size q = sz"
    by (rule os_sem_contract.msgq_init_inv [OF contract init buf])
  then show ?thesis
    using os_sem_contract.msgq_run_refines [OF contract, of q cs
        "fst (bq_run (unat cap) (unat sz) [] cs)" "snd (bq_run (unat cap) (unat sz) [] cs)" isr'] fits
    by auto
qed

text \<open>The queue of three two-byte messages that the witnesses start from.\<close>

definition ref_msgq :: "native os_sem os_msgq" where
  "ref_msgq = (os_msgq_zero ref_sems)\<lparr>mq_buffer := replicate 6 0, message_size := 2, capacity := 3,
     mq_items := \<lparr>sem_handle = Some (0, 3), sem_limit = 3\<rparr>,
     mq_spaces := \<lparr>sem_handle = Some (3, 3), sem_limit = 3\<rparr>, mq_initialized := True\<rparr>"

lemma ref_msgq_init:
  "os_msgq_init ref_sems False (Some (os_msgq_zero ref_sems)) (Some (replicate 6 0)) 2 3
     = (0, Some ref_msgq)"
  by (simp add: os_msgq_init_def ref_msgq_def ref_sem_init os_msgq_zero_def SIZE_MAX_def)

theorem msgq_refines_bounded_queue_witness:
  "\<exists>q. msgq_run ref_sems True ref_msgq
         [MPut [1, 2], MPut [3, 4, 9], MGet [0, 0], MGet [7, 7, 7], MGet [5, 5]]
       = Some ([(0, []), (0, []), (0, [1, 2]), (0, [3, 4, 7]), (- EBUSY, [5, 5])], q)
     \<and> msgq_contents q = []"
  using msgq_refines_bounded_queue [OF ref_sems_contract ref_msgq_init,
      of "[MPut [1, 2], MPut [3, 4, 9], MGet [0, 0], MGet [7, 7, 7], MGet [5, 5]]" True]
  by (simp add: call_fits_def)

text \<open>C12: \<open>os_msgq_init\<close> rejects NULL arguments, a zero size or capacity and every pair whose
  product does not fit \<open>size_t\<close>, leaving the caller's structure alone; a queue that it accepts
  has a byte size that does not wrap, is empty, and reports no messages.\<close>

theorem msgq_init_guards:
  assumes contract: "os_sem_contract S live dead cnt lim"
  shows "if msgq = None \<or> buffer = None \<or> sz = 0 \<or> cap = 0 \<or> unat cap * unat sz \<ge> 2 ^ 32
         then os_msgq_init S isr msgq buffer sz cap = (- EINVAL, msgq)
         else \<forall>q. os_msgq_init S isr msgq buffer sz cap = (0, Some q)
                \<and> unat cap * unat sz \<le> length (the buffer) \<longrightarrow>
                msgq_inv live cnt lim q \<and> os_msgq_count_get (Some q) = 0"
proof (cases "msgq = None \<or> buffer = None \<or> sz = 0 \<or> cap = 0 \<or> unat cap * unat sz \<ge> 2 ^ 32")
  case True
  then show ?thesis using os_sem_contract.msgq_init_rejects [OF contract True] by simp
next
  case False
  then obtain q0 buf where some: "msgq = Some q0" "buffer = Some buf" by auto
  have "msgq_inv live cnt lim q \<and> os_msgq_count_get (Some q) = 0"
    if "os_msgq_init S isr (Some q0) (Some buf) sz cap = (0, Some q)"
      "unat cap * unat sz \<le> length buf" for q
  proof -
    have q: "msgq_inv live cnt lim q" "msgq_contents q = []"
      using os_sem_contract.msgq_init_inv [OF contract that] by auto
    then have "unat (mq_count q) = 0" by (metis list.size(3) msgq_contents_length)
    with q show ?thesis by (simp add: os_msgq_count_get_def unat_eq_0)
  qed
  with False some show ?thesis by simp
qed

theorem msgq_init_guards_witness:
  "os_msgq_init ref_sems False (Some ref_msgq) (Some [0]) 0x10000 0x10000 = (- EINVAL, Some ref_msgq)
   \<and> msgq_inv (sem_live native_ok) (sem_read native_cnt) (sem_read native_max) ref_msgq"
  using msgq_init_guards [OF ref_sems_contract, of "Some ref_msgq" "Some [0]" "0x10000" "0x10000" False]
    msgq_init_guards [OF ref_sems_contract,
      of "Some (os_msgq_zero ref_sems)" "Some (replicate 6 0)" 2 3 False] ref_msgq_init
  by simp

text \<open>When \<open>os_msgq_deinit\<close> has destroyed the item semaphore and the space semaphore then
  refuses (a thread waits for space), the error leaves a queue that can neither be used nor
  deinitialised: every later \<open>os_msgq_deinit\<close> and \<open>os_msgq_get\<close> returns \<open>-EINVAL\<close>.\<close>

theorem msgq_deinit_half_done:
  assumes "os_sem_contract S live dead cnt lim" "msgq_inv live cnt lim q"
    and "sem_deinit S isr (mq_items q) = (0, items)"
    and "sem_deinit S isr (mq_spaces q) = (r, spaces)" "r \<noteq> 0"
  shows "\<exists>q'. os_msgq_deinit S isr (Some q) = (r, Some q')
     \<and> os_msgq_deinit S isr' (Some q') = (- EINVAL, Some q')
     \<and> os_msgq_get S isr' (Some q') (Some d) t = Some (- EINVAL, Some q', Some d)"
  using assms by (rule os_sem_contract.msgq_deinit_stuck)

text \<open>A full queue over the RT-Thread adapter, with a producer waiting for space.\<close>

definition busy_rt :: "native rt_sem" where
  "busy_rt = native_rt (\<lambda>n. fst n = 0)"

definition busy_msgq :: "native rt_os_sem os_msgq" where
  "busy_msgq = (os_msgq_zero (rt_sem_ops busy_rt))\<lparr>mq_buffer := [7], message_size := 1, capacity := 1,
     mq_count := 1, mq_items := \<lparr>rs_handle = Some (1, 1), rs_limit = 1\<rparr>,
     mq_spaces := \<lparr>rs_handle = Some (0, 1), rs_limit = 1\<rparr>, mq_initialized := True\<rparr>"

theorem msgq_deinit_half_done_witness:
  "\<exists>q. os_msgq_deinit (rt_sem_ops busy_rt) False (Some busy_msgq) = (- EBUSY, Some q)
     \<and> os_msgq_deinit (rt_sem_ops busy_rt) False (Some q) = (- EINVAL, Some q)
     \<and> os_msgq_get (rt_sem_ops busy_rt) False (Some q) (Some [0]) 0 = Some (- EINVAL, Some q, Some [0])"
proof (rule msgq_deinit_half_done [OF rtn.rt.os_sem_contract_axioms [of "\<lambda>n. fst n = 0", folded busy_rt_def]])
  show "msgq_inv (rs_live native_ok) (rs_read native_cnt) (rs_read native_max) busy_msgq"
    by (simp add: msgq_inv_def msgq_ring_def busy_msgq_def os_msgq_zero_def rs_view_defs native_defs)
  show "sem_deinit (rt_sem_ops busy_rt) False (mq_items busy_msgq) = (0, rt_os_sem_zero)"
    by (simp add: busy_msgq_def busy_rt_def rt_sem_ops_def rt_os_sem_deinit_def native_rt_def via_ptr_def)
  show "sem_deinit (rt_sem_ops busy_rt) False (mq_spaces busy_msgq) = (- EBUSY, mq_spaces busy_msgq)"
    by (simp add: busy_msgq_def busy_rt_def rt_sem_ops_def rt_os_sem_deinit_def native_rt_def via_ptr_def)
qed simp

end
