(* ===== verification/Msgq_Interleaving.thy ===== *)
theory Msgq_Interleaving
  imports Message_Queue
begin

text \<open>
  Any number of threads and interrupt handlers using one message queue at the same time.

  A call of \<open>os_msgq_put\<close> or \<open>os_msgq_get\<close> is three atomic steps: taking a token, the
  critical section, and giving the other token. A thread waits in the first step until a
  token is there, so its success is a step in a state with a token; a take that fails (no
  token in time) leaves the thread where it was. \<open>mq_sent\<close> and \<open>mq_received\<close> are
  ghost logs of the messages in the order of the critical sections.
\<close>

datatype mq_pc = MIdle | MPutTaken "u8 list" | MPutGive | MGetTaken "u8 list" | MGetGive

record 's mq_sys =
  mq_q :: "'s os_msgq"
  mq_pcs :: "mq_pc list"
  mq_sent :: "u8 list list"
  mq_received :: "u8 list list"

inductive mq_step :: "'s sem_ops \<Rightarrow> ('s \<Rightarrow> nat) \<Rightarrow> 's mq_sys \<Rightarrow> 's mq_sys \<Rightarrow> bool"
  for S :: "'s sem_ops" and cnt :: "'s \<Rightarrow> nat" where
  put_take:
  "i < length (mq_pcs s) \<Longrightarrow> mq_pcs s ! i = MIdle \<Longrightarrow>
   unat (message_size (mq_q s)) \<le> length m \<Longrightarrow> 0 < cnt (mq_spaces (mq_q s)) \<Longrightarrow>
   sem_take S isr (mq_spaces (mq_q s)) t = (0, sp) \<Longrightarrow>
   mq_step S cnt s (s\<lparr>mq_q := (mq_q s)\<lparr>mq_spaces := sp\<rparr>, mq_pcs := (mq_pcs s)[i := MPutTaken m]\<rparr>)"
| put_fail:
  "i < length (mq_pcs s) \<Longrightarrow> mq_pcs s ! i = MIdle \<Longrightarrow>
   sem_take S isr (mq_spaces (mq_q s)) t = (r, sp) \<Longrightarrow> r \<noteq> 0 \<Longrightarrow>
   mq_step S cnt s (s\<lparr>mq_q := (mq_q s)\<lparr>mq_spaces := sp\<rparr>\<rparr>)"
| put_section:
  "i < length (mq_pcs s) \<Longrightarrow> mq_pcs s ! i = MPutTaken m \<Longrightarrow>
   msgq_put_section (mq_q s) m = Some q \<Longrightarrow>
   mq_step S cnt s (s\<lparr>mq_q := q, mq_pcs := (mq_pcs s)[i := MPutGive],
                   mq_sent := mq_sent s @ [take (unat (message_size q)) m]\<rparr>)"
| put_give:
  "i < length (mq_pcs s) \<Longrightarrow> mq_pcs s ! i = MPutGive \<Longrightarrow>
   mq_step S cnt s (s\<lparr>mq_q := (mq_q s)\<lparr>mq_items := sem_give S isr (mq_items (mq_q s))\<rparr>,
                   mq_pcs := (mq_pcs s)[i := MIdle]\<rparr>)"
| get_take:
  "i < length (mq_pcs s) \<Longrightarrow> mq_pcs s ! i = MIdle \<Longrightarrow>
   unat (message_size (mq_q s)) \<le> length d \<Longrightarrow> 0 < cnt (mq_items (mq_q s)) \<Longrightarrow>
   sem_take S isr (mq_items (mq_q s)) t = (0, it) \<Longrightarrow>
   mq_step S cnt s (s\<lparr>mq_q := (mq_q s)\<lparr>mq_items := it\<rparr>, mq_pcs := (mq_pcs s)[i := MGetTaken d]\<rparr>)"
| get_fail:
  "i < length (mq_pcs s) \<Longrightarrow> mq_pcs s ! i = MIdle \<Longrightarrow>
   sem_take S isr (mq_items (mq_q s)) t = (r, it) \<Longrightarrow> r \<noteq> 0 \<Longrightarrow>
   mq_step S cnt s (s\<lparr>mq_q := (mq_q s)\<lparr>mq_items := it\<rparr>\<rparr>)"
| get_section:
  "i < length (mq_pcs s) \<Longrightarrow> mq_pcs s ! i = MGetTaken d \<Longrightarrow>
   msgq_get_section (mq_q s) d = Some (q, d') \<Longrightarrow>
   mq_step S cnt s (s\<lparr>mq_q := q, mq_pcs := (mq_pcs s)[i := MGetGive],
                   mq_received := mq_received s @ [take (unat (message_size q)) d']\<rparr>)"
| get_give:
  "i < length (mq_pcs s) \<Longrightarrow> mq_pcs s ! i = MGetGive \<Longrightarrow>
   mq_step S cnt s (s\<lparr>mq_q := (mq_q s)\<lparr>mq_spaces := sem_give S isr (mq_spaces (mq_q s))\<rparr>,
                   mq_pcs := (mq_pcs s)[i := MIdle]\<rparr>)"

text \<open>Reachable from a freshly initialised queue with all threads outside its calls.\<close>

inductive mq_reachable :: "'s sem_ops \<Rightarrow> ('s \<Rightarrow> nat) \<Rightarrow> 's mq_sys \<Rightarrow> bool"
  for S :: "'s sem_ops" and cnt :: "'s \<Rightarrow> nat" where
  start:
  "os_msgq_init S isr (Some q0) (Some buf) sz cap = (0, Some q) \<Longrightarrow>
   unat cap * unat sz \<le> length buf \<Longrightarrow>
   mq_reachable S cnt \<lparr>mq_q = q, mq_pcs = replicate n MIdle, mq_sent = [], mq_received = []\<rparr>"
| step: "mq_reachable S cnt s \<Longrightarrow> mq_step S cnt s s' \<Longrightarrow> mq_reachable S cnt s'"

definition is_put_taken :: "mq_pc \<Rightarrow> bool" where
  "is_put_taken p = (case p of MPutTaken _ \<Rightarrow> True | _ \<Rightarrow> False)"

definition is_get_taken :: "mq_pc \<Rightarrow> bool" where
  "is_get_taken p = (case p of MGetTaken _ \<Rightarrow> True | _ \<Rightarrow> False)"

definition pc_fits :: "nat \<Rightarrow> mq_pc \<Rightarrow> bool" where
  "pc_fits sz p = (case p of MPutTaken m \<Rightarrow> sz \<le> length m | MGetTaken d \<Rightarrow> sz \<le> length d | _ \<Rightarrow> True)"

lemma mq_pc_simps [simp]:
  "is_put_taken (MPutTaken m)" "\<not> is_put_taken MIdle" "\<not> is_put_taken MPutGive"
  "\<not> is_put_taken (MGetTaken d)" "\<not> is_put_taken MGetGive"
  "is_get_taken (MGetTaken d)" "\<not> is_get_taken MIdle" "\<not> is_get_taken MPutGive"
  "\<not> is_get_taken (MPutTaken m)" "\<not> is_get_taken MGetGive"
  "pc_fits sz MIdle" "pc_fits sz MPutGive" "pc_fits sz MGetGive"
  "pc_fits sz (MPutTaken m) \<longleftrightarrow> sz \<le> length m" "pc_fits sz (MGetTaken d) \<longleftrightarrow> sz \<le> length d"
  by (simp_all add: is_put_taken_def is_get_taken_def pc_fits_def)

text \<open>
  The invariant: a token of \<open>items\<close>, a thread that holds one, or a message whose token is
  about to be given, for every message in the ring; the same for the free slots; and the
  messages sent are the messages received followed by those in the ring.
\<close>

definition mq_sys_inv ::
  "('s \<Rightarrow> bool) \<Rightarrow> ('s \<Rightarrow> nat) \<Rightarrow> ('s \<Rightarrow> nat) \<Rightarrow> 's mq_sys \<Rightarrow> bool" where
  "mq_sys_inv live cnt lim s \<longleftrightarrow>
     msgq_ring (mq_q s) \<and> live (mq_items (mq_q s)) \<and> live (mq_spaces (mq_q s))
     \<and> lim (mq_items (mq_q s)) = unat (capacity (mq_q s))
     \<and> lim (mq_spaces (mq_q s)) = unat (capacity (mq_q s))
     \<and> cnt (mq_items (mq_q s)) + count_at (\<lambda>p. p = MPutGive) (mq_pcs s)
         + count_at is_get_taken (mq_pcs s) = unat (mq_count (mq_q s))
     \<and> cnt (mq_spaces (mq_q s)) + count_at is_put_taken (mq_pcs s)
         + count_at (\<lambda>p. p = MGetGive) (mq_pcs s) + unat (mq_count (mq_q s))
         = unat (capacity (mq_q s))
     \<and> list_all (pc_fits (unat (message_size (mq_q s)))) (mq_pcs s)
     \<and> mq_sent s = mq_received s @ msgq_contents (mq_q s)"

lemma msgq_ring_sems [simp]:
  "msgq_ring (q\<lparr>mq_items := a\<rparr>) = msgq_ring q" "msgq_ring (q\<lparr>mq_spaces := a\<rparr>) = msgq_ring q"
  "msgq_contents (q\<lparr>mq_items := a\<rparr>) = msgq_contents q"
  "msgq_contents (q\<lparr>mq_spaces := a\<rparr>) = msgq_contents q"
  by (simp_all add: msgq_ring_def msgq_contents_def)

lemma pcs_fit_update:
  "list_all (pc_fits sz) pcs \<Longrightarrow> pc_fits sz x \<Longrightarrow> list_all (pc_fits sz) (pcs[i := x])"
  by (auto simp: list_all_iff dest!: set_update_subset_insert [THEN subsetD])

text \<open>How the four counts move when thread \<open>i\<close> moves.\<close>

lemmas count_at_moves =
  count_at_update [where P = is_put_taken] count_at_update [where P = is_get_taken]
  count_at_update [where P = "\<lambda>p. p = MPutGive"] count_at_update [where P = "\<lambda>p. p = MGetGive"]

context os_sem_contract begin

abbreviation mq_sinv :: "'s mq_sys \<Rightarrow> bool" where
  "mq_sinv \<equiv> mq_sys_inv live cnt lim"

lemma mq_put_section_defined:
  assumes inv: "mq_sinv s" and i: "i < length (mq_pcs s)" "mq_pcs s ! i = MPutTaken m"
  shows "\<exists>q. msgq_put_section (mq_q s) m = Some q \<and> msgq_ring q
     \<and> msgq_contents q = msgq_contents (mq_q s) @ [take (unat (message_size (mq_q s))) m]
     \<and> unat (mq_count q) = Suc (unat (mq_count (mq_q s))) \<and> capacity q = capacity (mq_q s)
     \<and> message_size q = message_size (mq_q s) \<and> mq_items q = mq_items (mq_q s)
     \<and> mq_spaces q = mq_spaces (mq_q s)"
proof (rule msgq_put_section_spec)
  show "msgq_ring (mq_q s)" using inv by (simp add: mq_sys_inv_def)
  have "0 < count_at is_put_taken (mq_pcs s)" using i by (intro count_at_pos) auto
  then show "unat (mq_count (mq_q s)) < unat (capacity (mq_q s))"
    using inv by (simp add: mq_sys_inv_def)
  have "pc_fits (unat (message_size (mq_q s))) (MPutTaken m)"
    using inv i by (metis mq_sys_inv_def list_all_length)
  then show "unat (message_size (mq_q s)) \<le> length m" by simp
qed

lemma mq_get_section_defined:
  assumes inv: "mq_sinv s" and i: "i < length (mq_pcs s)" "mq_pcs s ! i = MGetTaken d"
  shows "\<exists>q m. msgq_get_section (mq_q s) d = Some (q, m @ drop (unat (message_size (mq_q s))) d)
     \<and> msgq_contents (mq_q s) = m # msgq_contents q \<and> length m = unat (message_size (mq_q s))
     \<and> msgq_ring q \<and> Suc (unat (mq_count q)) = unat (mq_count (mq_q s))
     \<and> capacity q = capacity (mq_q s) \<and> message_size q = message_size (mq_q s)
     \<and> mq_items q = mq_items (mq_q s) \<and> mq_spaces q = mq_spaces (mq_q s)"
proof (rule msgq_get_section_spec)
  show "msgq_ring (mq_q s)" using inv by (simp add: mq_sys_inv_def)
  have "0 < count_at is_get_taken (mq_pcs s)" using i by (intro count_at_pos) auto
  then show "0 < unat (mq_count (mq_q s))" using inv by (simp add: mq_sys_inv_def)
  have "pc_fits (unat (message_size (mq_q s))) (MGetTaken d)"
    using inv i by (metis mq_sys_inv_def list_all_length)
  then show "unat (message_size (mq_q s)) \<le> length d" by simp
qed

lemma mq_step_inv:
  assumes "mq_step S cnt s s'" "mq_sinv s"
  shows "mq_sinv s'"
  using assms
proof (induction rule: mq_step.induct)
  case (put_take i s m isr t sp)
  have "live sp \<and> cnt (mq_spaces (mq_q s)) = Suc (cnt sp) \<and> lim sp = lim (mq_spaces (mq_q s))"
    using put_take by (intro take_succeeds [of _ isr t]) (auto simp: mq_sys_inv_def)
  then show ?case
    using put_take count_at_moves [OF put_take(1), of "MPutTaken m"]
    by (simp add: mq_sys_inv_def pcs_fit_update)
next
  case (put_fail i s isr t r sp)
  then show ?case
    using take_fails [of "mq_spaces (mq_q s)" isr t r sp] by (simp add: mq_sys_inv_def)
next
  case (put_section i s m q)
  then show ?case
    using mq_put_section_defined [OF put_section(4,1,2)] count_at_moves [OF put_section(1), of MPutGive]
    by (auto simp: mq_sys_inv_def pcs_fit_update)
next
  case (put_give i s isr)
  have "0 < count_at (\<lambda>p. p = MPutGive) (mq_pcs s)"
    using put_give by (intro count_at_pos) auto
  then have "cnt (mq_items (mq_q s)) < lim (mq_items (mq_q s))"
    using put_give by (simp add: mq_sys_inv_def)
  then show ?case
    using put_give give_below [of "mq_items (mq_q s)" isr] count_at_moves [OF put_give(1), of MIdle]
    by (simp add: mq_sys_inv_def pcs_fit_update)
next
  case (get_take i s d isr t it)
  have "live it \<and> cnt (mq_items (mq_q s)) = Suc (cnt it) \<and> lim it = lim (mq_items (mq_q s))"
    using get_take by (intro take_succeeds [of _ isr t]) (auto simp: mq_sys_inv_def)
  then show ?case
    using get_take count_at_moves [OF get_take(1), of "MGetTaken d"]
    by (simp add: mq_sys_inv_def pcs_fit_update)
next
  case (get_fail i s isr t r it)
  then show ?case
    using take_fails [of "mq_items (mq_q s)" isr t r it] by (simp add: mq_sys_inv_def)
next
  case (get_section i s d q d')
  then show ?case
    using mq_get_section_defined [OF get_section(4,1,2)] count_at_moves [OF get_section(1), of MGetGive]
    by (auto simp: mq_sys_inv_def pcs_fit_update)
next
  case (get_give i s isr)
  have "0 < count_at (\<lambda>p. p = MGetGive) (mq_pcs s)"
    using get_give by (intro count_at_pos) auto
  then have "cnt (mq_spaces (mq_q s)) < lim (mq_spaces (mq_q s))"
    using get_give by (simp add: mq_sys_inv_def)
  then show ?case
    using get_give give_below [of "mq_spaces (mq_q s)" isr] count_at_moves [OF get_give(1), of MIdle]
    by (simp add: mq_sys_inv_def pcs_fit_update)
qed

lemma mq_reachable_inv: "mq_reachable S cnt s \<Longrightarrow> mq_sinv s"
proof (induction rule: mq_reachable.induct)
  case (start isr q0 buf sz cap q n)
  then show ?case
    using msgq_init_inv [OF start]
    by (simp add: mq_sys_inv_def msgq_inv_def count_at_def list_all_iff)
next
  case (step s s')
  then show ?case by (blast intro: mq_step_inv)
qed

lemma mq_quiescent:
  assumes "mq_reachable S cnt s" "\<forall>p \<in> set (mq_pcs s). p = MIdle"
  shows "mq_inv (mq_q s)"
proof -
  have "count_at is_put_taken (mq_pcs s) = 0" "count_at is_get_taken (mq_pcs s) = 0"
      "count_at (\<lambda>p. p = MPutGive) (mq_pcs s) = 0" "count_at (\<lambda>p. p = MGetGive) (mq_pcs s) = 0"
    using assms(2) by (auto simp: count_at_zero)
  with mq_reachable_inv [OF assms(1)] show ?thesis by (simp add: mq_sys_inv_def msgq_inv_def)
qed

end

section \<open>Properties\<close>

text \<open>C3: With any number of threads and interrupt handlers inside \<open>os_msgq_put\<close> and
  \<open>os_msgq_get\<close> at once, interleaved at every semaphore call and critical section: no message
  is lost, duplicated or reordered (the messages sent are those received followed by those in
  the ring), the ring never holds more than \<open>capacity\<close> messages, and a thread past its take
  always finds its slot, so no critical section touches memory outside the buffer.\<close>

theorem msgq_concurrent_fifo:
  assumes contract: "os_sem_contract S live dead cnt lim" and reach: "mq_reachable S cnt s"
  shows "mq_sent s = mq_received s @ msgq_contents (mq_q s)
     \<and> length (msgq_contents (mq_q s)) \<le> unat (capacity (mq_q s))
     \<and> (\<forall>i < length (mq_pcs s).
          (\<forall>m. mq_pcs s ! i = MPutTaken m \<longrightarrow> msgq_put_section (mq_q s) m \<noteq> None)
        \<and> (\<forall>d. mq_pcs s ! i = MGetTaken d \<longrightarrow> msgq_get_section (mq_q s) d \<noteq> None))"
proof -
  have inv: "mq_sys_inv live cnt lim s"
    by (rule os_sem_contract.mq_reachable_inv [OF contract reach])
  have "msgq_put_section (mq_q s) m \<noteq> None" if "i < length (mq_pcs s)" "mq_pcs s ! i = MPutTaken m" for i m
    using os_sem_contract.mq_put_section_defined [OF contract inv that] by auto
  moreover have "msgq_get_section (mq_q s) d \<noteq> None"
    if "i < length (mq_pcs s)" "mq_pcs s ! i = MGetTaken d" for i d
    using os_sem_contract.mq_get_section_defined [OF contract inv that] by auto
  ultimately show ?thesis using inv by (simp add: mq_sys_inv_def msgq_ring_def)
qed

text \<open>Thread 0 has put a message and is about to give its token; thread 1 holds a token of space.\<close>

definition ref_mq_sys :: "native os_sem mq_sys" where
  "ref_mq_sys =
     \<lparr>mq_q = ref_msgq\<lparr>mq_buffer := 1 # 2 # replicate 4 0, write_index := 1, mq_count := 1,
                     mq_spaces := \<lparr>sem_handle = Some (1, 3), sem_limit = 3\<rparr>\<rparr>,
      mq_pcs = [MPutGive, MPutTaken [3, 4]], mq_sent = [[1, 2]], mq_received = []\<rparr>"

lemma ref_sem_take:
  "0 < n \<Longrightarrow> sem_take ref_sems False \<lparr>sem_handle = Some (n, l), sem_limit = k\<rparr> 0
     = (0, \<lparr>sem_handle = Some (n - 1, l), sem_limit = k\<rparr>)"
  by (simp add: ref_sems_def freertos_sem_ops_def freertos_os_sem_take_def native_freertos_def
      native_take_def via_ptr_def)

lemma ref_mq_reachable: "mq_reachable ref_sems (sem_read native_cnt) ref_mq_sys"
proof -
  let ?s0 = "\<lparr>mq_q = ref_msgq, mq_pcs = [MIdle, MIdle], mq_sent = [], mq_received = []\<rparr>"
  let ?sp = "\<lambda>n. \<lparr>sem_handle = Some (n, 3), sem_limit = 3\<rparr> :: native os_sem"
  let ?s1 = "?s0\<lparr>mq_q := ref_msgq\<lparr>mq_spaces := ?sp 2\<rparr>, mq_pcs := [MPutTaken [1, 2], MIdle]\<rparr>"
  let ?s2 = "?s1\<lparr>mq_q := ref_msgq\<lparr>mq_spaces := ?sp 1\<rparr>, mq_pcs := [MPutTaken [1, 2], MPutTaken [3, 4]]\<rparr>"
  have two: "replicate 2 MIdle = [MIdle, MIdle]" by (simp add: numeral_2_eq_2)
  have s0: "mq_reachable ref_sems (sem_read native_cnt) ?s0"
    using mq_reachable.start [OF ref_msgq_init, of "sem_read native_cnt" 2]
    by (simp add: two)
  have "mq_step ref_sems (sem_read native_cnt) ?s0 ?s1"
    using mq_step.put_take [of 0 ?s0 "[1, 2]" "sem_read native_cnt" ref_sems False 0 "?sp 2"]
      ref_sem_take [of 3 3 3]
    by (simp add: ref_msgq_def sem_read_def native_cnt_def)
  moreover have "mq_step ref_sems (sem_read native_cnt) ?s1 ?s2"
    using mq_step.put_take [of 1 ?s1 "[3, 4]" "sem_read native_cnt" ref_sems False 0 "?sp 1"]
      ref_sem_take [of 2 3 3]
    by (simp add: ref_msgq_def sem_read_def native_cnt_def)
  moreover have "mq_step ref_sems (sem_read native_cnt) ?s2 ref_mq_sys"
    using mq_step.put_section [of 0 ?s2 "[1, 2]" "mq_q ref_mq_sys"]
    by (simp add: ref_msgq_def ref_mq_sys_def msgq_put_section_def os_common_copy_spec
        os_msgq_zero_def)
  ultimately show ?thesis by (blast intro: s0 mq_reachable.step)
qed

theorem msgq_concurrent_fifo_witness:
  "mq_sent ref_mq_sys = mq_received ref_mq_sys @ msgq_contents (mq_q ref_mq_sys)
   \<and> msgq_put_section (mq_q ref_mq_sys) [3, 4] \<noteq> None"
  using msgq_concurrent_fifo [OF ref_sems_contract ref_mq_reachable]
  by (elim conjE, drule_tac x = 1 in spec) (simp add: ref_mq_sys_def)

end
