(* ===== verification/Dlist.thy ===== *)
theory Dlist
  imports Osal_Prelude
begin

text \<open>
  The intrusive doubly-linked list of \<open>include/hazel_wireless/sys/dlist.h\<close>, at pointer level.

  The type variable \<open>'a\<close> is the type of node addresses; a heap maps every address to the
  \<open>struct _dnode\<close> stored there. The list object itself is a node of the heap, and
  \<open>head\<close>/\<open>next\<close> and \<open>tail\<close>/\<open>prev\<close> are the two unions of the struct. NULL is
  \<open>None\<close>, and writing through NULL makes an operation return \<open>None\<close>.

  \<open>dlist_rep h l xs\<close> says that the list object at \<open>l\<close> links the nodes \<open>xs\<close>, in this
  order, into a circle with correct back pointers. Every operation is proved to implement
  the operation on \<open>xs\<close>, to be defined (no NULL is dereferenced), and to leave alone every
  node outside the list it works on.
\<close>

section \<open>Nodes and heaps\<close>

record 'a dnode =
  dn_next :: "'a option"
  dn_prev :: "'a option"

type_synonym 'a dheap = "'a \<Rightarrow> 'a dnode"

definition set_next :: "'a \<Rightarrow> 'a option \<Rightarrow> 'a dheap \<Rightarrow> 'a dheap" where
  "set_next a v h = h(a := (h a)\<lparr>dn_next := v\<rparr>)"

definition set_prev :: "'a \<Rightarrow> 'a option \<Rightarrow> 'a dheap \<Rightarrow> 'a dheap" where
  "set_prev a v h = h(a := (h a)\<lparr>dn_prev := v\<rparr>)"

text \<open>A store through a pointer that may be NULL.\<close>

definition store_next :: "'a option \<Rightarrow> 'a option \<Rightarrow> 'a dheap \<Rightarrow> 'a dheap option" where
  "store_next p v h = (case p of None \<Rightarrow> None | Some a \<Rightarrow> Some (set_next a v h))"

definition store_prev :: "'a option \<Rightarrow> 'a option \<Rightarrow> 'a dheap \<Rightarrow> 'a dheap option" where
  "store_prev p v h = (case p of None \<Rightarrow> None | Some a \<Rightarrow> Some (set_prev a v h))"

lemma set_next_simps [simp]:
  "dn_next (set_next a v h b) = (if b = a then v else dn_next (h b))"
  "dn_prev (set_next a v h b) = dn_prev (h b)"
  by (simp_all add: set_next_def)

lemma set_prev_simps [simp]:
  "dn_prev (set_prev a v h b) = (if b = a then v else dn_prev (h b))"
  "dn_next (set_prev a v h b) = dn_next (h b)"
  by (simp_all add: set_prev_def)

lemma set_other [simp]:
  "b \<noteq> a \<Longrightarrow> set_next a v h b = h b"
  "b \<noteq> a \<Longrightarrow> set_prev a v h b = h b"
  by (simp_all add: set_next_def set_prev_def)

lemma store_Some [simp]:
  "store_next (Some a) v h = Some (set_next a v h)"
  "store_prev (Some a) v h = Some (set_prev a v h)"
  by (simp_all add: store_next_def store_prev_def)

section \<open>The operations\<close>

definition sys_dlist_init :: "'a \<Rightarrow> 'a dheap \<Rightarrow> 'a dheap" where
  "sys_dlist_init list h = set_prev list (Some list) (set_next list (Some list) h)"

definition sys_dnode_init :: "'a \<Rightarrow> 'a dheap \<Rightarrow> 'a dheap" where
  "sys_dnode_init node h = set_prev node None (set_next node None h)"

definition sys_dnode_is_linked :: "'a \<Rightarrow> 'a dheap \<Rightarrow> bool" where
  "sys_dnode_is_linked node h = (dn_next (h node) \<noteq> None)"

definition sys_dlist_is_head :: "'a \<Rightarrow> 'a option \<Rightarrow> 'a dheap \<Rightarrow> bool" where
  "sys_dlist_is_head list node h = (dn_next (h list) = node)"

definition sys_dlist_is_tail :: "'a \<Rightarrow> 'a option \<Rightarrow> 'a dheap \<Rightarrow> bool" where
  "sys_dlist_is_tail list node h = (dn_prev (h list) = node)"

definition sys_dlist_is_empty :: "'a \<Rightarrow> 'a dheap \<Rightarrow> bool" where
  "sys_dlist_is_empty list h = (dn_next (h list) = Some list)"

definition sys_dlist_has_multiple_nodes :: "'a \<Rightarrow> 'a dheap \<Rightarrow> bool" where
  "sys_dlist_has_multiple_nodes list h = (dn_next (h list) \<noteq> dn_prev (h list))"

definition sys_dlist_peek_head :: "'a \<Rightarrow> 'a dheap \<Rightarrow> 'a option" where
  "sys_dlist_peek_head list h = (if sys_dlist_is_empty list h then None else dn_next (h list))"

definition sys_dlist_peek_head_not_empty :: "'a \<Rightarrow> 'a dheap \<Rightarrow> 'a option" where
  "sys_dlist_peek_head_not_empty list h = dn_next (h list)"

definition sys_dlist_peek_next_no_check :: "'a \<Rightarrow> 'a \<Rightarrow> 'a dheap \<Rightarrow> 'a option" where
  "sys_dlist_peek_next_no_check list node h =
     (if Some node = dn_prev (h list) then None else dn_next (h node))"

definition sys_dlist_peek_next :: "'a \<Rightarrow> 'a option \<Rightarrow> 'a dheap \<Rightarrow> 'a option" where
  "sys_dlist_peek_next list node h =
     (case node of None \<Rightarrow> None | Some n \<Rightarrow> sys_dlist_peek_next_no_check list n h)"

definition sys_dlist_peek_prev_no_check :: "'a \<Rightarrow> 'a \<Rightarrow> 'a dheap \<Rightarrow> 'a option" where
  "sys_dlist_peek_prev_no_check list node h =
     (if Some node = dn_next (h list) then None else dn_prev (h node))"

definition sys_dlist_peek_prev :: "'a \<Rightarrow> 'a option \<Rightarrow> 'a dheap \<Rightarrow> 'a option" where
  "sys_dlist_peek_prev list node h =
     (case node of None \<Rightarrow> None | Some n \<Rightarrow> sys_dlist_peek_prev_no_check list n h)"

definition sys_dlist_peek_tail :: "'a \<Rightarrow> 'a dheap \<Rightarrow> 'a option" where
  "sys_dlist_peek_tail list h = (if sys_dlist_is_empty list h then None else dn_prev (h list))"

definition sys_dlist_append :: "'a \<Rightarrow> 'a \<Rightarrow> 'a dheap \<Rightarrow> 'a dheap option" where
  "sys_dlist_append list node h = do {
     let tail = dn_prev (h list);
     let h = set_prev node tail (set_next node (Some list) h);
     h \<leftarrow> store_next tail (Some node) h;
     Some (set_prev list (Some node) h)
   }"

definition sys_dlist_prepend :: "'a \<Rightarrow> 'a \<Rightarrow> 'a dheap \<Rightarrow> 'a dheap option" where
  "sys_dlist_prepend list node h = do {
     let head = dn_next (h list);
     let h = set_prev node (Some list) (set_next node head h);
     h \<leftarrow> store_prev head (Some node) h;
     Some (set_next list (Some node) h)
   }"

definition sys_dlist_insert :: "'a \<Rightarrow> 'a \<Rightarrow> 'a dheap \<Rightarrow> 'a dheap option" where
  "sys_dlist_insert successor node h = do {
     let prev = dn_prev (h successor);
     let h = set_next node (Some successor) (set_prev node prev h);
     h \<leftarrow> store_next prev (Some node) h;
     Some (set_prev successor (Some node) h)
   }"

definition sys_dlist_dequeue :: "'a \<Rightarrow> 'a dheap \<Rightarrow> 'a dheap option" where
  "sys_dlist_dequeue node h = do {
     let prev = dn_prev (h node);
     let next' = dn_next (h node);
     h \<leftarrow> store_next prev next' h;
     store_prev next' prev h
   }"

definition sys_dlist_remove :: "'a \<Rightarrow> 'a dheap \<Rightarrow> 'a dheap option" where
  "sys_dlist_remove node h = do {
     let prev = dn_prev (h node);
     let next' = dn_next (h node);
     h \<leftarrow> store_next prev next' h;
     h \<leftarrow> store_prev next' prev h;
     Some (sys_dnode_init node h)
   }"

definition sys_dlist_get :: "'a \<Rightarrow> 'a dheap \<Rightarrow> ('a option \<times> 'a dheap) option" where
  "sys_dlist_get list h =
     (if \<not> sys_dlist_is_empty list h
      then (case dn_next (h list) of
              None \<Rightarrow> None
            | Some node \<Rightarrow> map_option (\<lambda>h'. (Some node, h')) (sys_dlist_remove node h))
      else Some (None, h))"

text \<open>
  \<open>SYS_DLIST_FOR_EACH_NODE\<close>: the loop body \<open>f\<close> sees the node and a loop state; it returns
  \<open>Inl\<close> of the new state to go on and \<open>Inr\<close> of a result to \<open>break\<close>. The loop may run
  forever on a heap whose links never come back to the tail, which is \<open>None\<close>.
\<close>

partial_function (option) dlist_for_each ::
  "'a \<Rightarrow> 'a dheap \<Rightarrow> ('a \<Rightarrow> 'c \<Rightarrow> 'c + 'r) \<Rightarrow> 'a option \<Rightarrow> 'c \<Rightarrow> ('c + 'r) option" where
  "dlist_for_each list h f node c =
     (case node of
        None \<Rightarrow> Some (Inl c)
      | Some n \<Rightarrow>
          (case f n c of
             Inr r \<Rightarrow> Some (Inr r)
           | Inl c' \<Rightarrow> dlist_for_each list h f (sys_dlist_peek_next list (Some n) h) c'))"

definition sys_dlist_for_each_node ::
  "'a \<Rightarrow> 'a dheap \<Rightarrow> ('a \<Rightarrow> 'c \<Rightarrow> 'c + 'r) \<Rightarrow> 'c \<Rightarrow> ('c + 'r) option" where
  "sys_dlist_for_each_node list h f c =
     dlist_for_each list h f (sys_dlist_peek_head list h) c"

definition sys_dlist_len :: "'a \<Rightarrow> 'a dheap \<Rightarrow> size_t option" where
  "sys_dlist_len list h =
     (case sys_dlist_for_each_node list h (\<lambda>_ len. Inl (len + 1) :: size_t + unit) 0 of
        Some (Inl len) \<Rightarrow> Some len | _ \<Rightarrow> None)"

text \<open>\<open>sys_dlist_insert_at\<close>: the search loop, then the insertion before the found node.\<close>

definition sys_dlist_insert_at ::
  "'a \<Rightarrow> 'a \<Rightarrow> ('a \<Rightarrow> bool) \<Rightarrow> 'a dheap \<Rightarrow> 'a dheap option" where
  "sys_dlist_insert_at list node cond h =
     (if sys_dlist_is_empty list h then sys_dlist_append list node h
      else (case sys_dlist_for_each_node list h (\<lambda>n c. if cond n then Inr n else Inl c) () of
              None \<Rightarrow> None
            | Some (Inr pos) \<Rightarrow> sys_dlist_insert pos node h
            | Some (Inl _) \<Rightarrow> sys_dlist_append list node h))"

section \<open>What a list represents\<close>

fun links :: "'a dheap \<Rightarrow> 'a list \<Rightarrow> bool" where
  "links h (a # b # xs) =
     (dn_next (h a) = Some b \<and> dn_prev (h b) = Some a \<and> links h (b # xs))"
| "links h _ = True"

definition dlist_rep :: "'a dheap \<Rightarrow> 'a \<Rightarrow> 'a list \<Rightarrow> bool" where
  "dlist_rep h l xs \<longleftrightarrow> distinct (l # xs) \<and> links h (l # xs @ [l])"

lemma links_split:
  "links h (xs @ a # ys) \<longleftrightarrow> links h (xs @ [a]) \<and> links h (a # ys)"
proof (induction xs)
  case Nil
  then show ?case by (cases ys) auto
next
  case (Cons x xs)
  then show ?case by (cases xs) auto
qed

lemma links_cong:
  assumes "\<And>a. a \<in> set (butlast xs) \<Longrightarrow> dn_next (h' a) = dn_next (h a)"
    and "\<And>a. a \<in> set (tl xs) \<Longrightarrow> dn_prev (h' a) = dn_prev (h a)"
  shows "links h' xs = links h xs"
  using assms by (induction h xs rule: links.induct) auto

lemma dlist_rep_frame:
  assumes "dlist_rep h l xs" "\<And>a. a \<in> set (l # xs) \<Longrightarrow> h' a = h a"
  shows "dlist_rep h' l xs"
proof -
  have "links h' (l # xs @ [l]) = links h (l # xs @ [l])"
    using assms(2) by (intro links_cong) (auto dest: in_set_butlastD)
  with assms(1) show ?thesis by (simp add: dlist_rep_def)
qed

lemma dlist_rep_distinct: "dlist_rep h l xs \<Longrightarrow> distinct xs \<and> l \<notin> set xs"
  by (simp add: dlist_rep_def)

lemma dlist_rep_init: "dlist_rep (sys_dlist_init l h) l []"
  by (simp add: dlist_rep_def sys_dlist_init_def)

lemma links_snoc:
  "xs \<noteq> [] \<Longrightarrow> links h (xs @ [b]) \<longleftrightarrow>
     links h xs \<and> dn_next (h (last xs)) = Some b \<and> dn_prev (h b) = Some (last xs)"
  by (induction h xs rule: links.induct) auto

lemma links_append:
  assumes "xs \<noteq> []" "ys \<noteq> []"
  shows "links h (xs @ ys) \<longleftrightarrow>
     links h xs \<and> links h ys \<and> dn_next (h (last xs)) = Some (hd ys)
     \<and> dn_prev (h (hd ys)) = Some (last xs)"
proof -
  obtain y zs where ys: "ys = y # zs" using assms(2) by (cases ys) auto
  show ?thesis
    using links_split [of h xs y zs] links_snoc [OF assms(1), of h y] by (auto simp: ys)
qed

lemma dlist_rep_ends:
  assumes "dlist_rep h l xs"
  shows "dn_next (h l) = Some (hd (xs @ [l]))" and "dn_prev (h l) = Some (last (l # xs))"
  using assms links_snoc [of "l # xs" h l] links_append [of "[l]" "xs @ [l]" h]
  by (auto simp: dlist_rep_def)

lemma dlist_rep_around:
  assumes "dlist_rep h l (as @ n # bs)"
  shows "dn_prev (h n) = Some (last (l # as))" and "dn_next (h n) = Some (hd (bs @ [l]))"
  using assms links_append [of "l # as" "n # bs @ [l]" h] links_append [of "[n]" "bs @ [l]" h]
  by (auto simp: dlist_rep_def)

lemma links_insert:
  assumes "links h (xs @ ys)" "xs \<noteq> []" "ys \<noteq> []"
    and "dn_next (h' (last xs)) = Some n" "dn_prev (h' n) = Some (last xs)"
    and "dn_next (h' n) = Some (hd ys)" "dn_prev (h' (hd ys)) = Some n"
    and "\<And>a. a \<in> set (butlast xs) \<union> set (butlast ys) \<Longrightarrow> dn_next (h' a) = dn_next (h a)"
    and "\<And>a. a \<in> set (tl xs) \<union> set (tl ys) \<Longrightarrow> dn_prev (h' a) = dn_prev (h a)"
  shows "links h' (xs @ n # ys)"
proof -
  have "links h' xs = links h xs" "links h' ys = links h ys"
    using assms(8,9) by (auto intro!: links_cong)
  then have "links h' xs" "links h' ys"
    using assms(1-3) by (simp_all add: links_append)
  with assms(2-7) show ?thesis
    using links_append [of xs "n # ys" h'] links_append [of "[n]" ys h'] by simp
qed

lemma links_delete:
  assumes "links h (xs @ n # ys)" "xs \<noteq> []" "ys \<noteq> []"
    and "dn_next (h' (last xs)) = Some (hd ys)" "dn_prev (h' (hd ys)) = Some (last xs)"
    and "\<And>a. a \<in> set (butlast xs) \<union> set (butlast ys) \<Longrightarrow> dn_next (h' a) = dn_next (h a)"
    and "\<And>a. a \<in> set (tl xs) \<union> set (tl ys) \<Longrightarrow> dn_prev (h' a) = dn_prev (h a)"
  shows "links h' (xs @ ys)"
proof -
  have "links h' xs = links h xs" "links h' ys = links h ys"
    using assms(6,7) by (auto intro!: links_cong)
  moreover have "links h xs" "links h ys"
    using assms(1-3) links_append [of xs "n # ys" h] links_append [of "[n]" ys h] by simp_all
  ultimately show ?thesis using assms(2-5) by (simp add: links_append)
qed

section \<open>The operations implement list operations\<close>

lemma sys_dlist_is_empty_rep: "dlist_rep h l xs \<Longrightarrow> sys_dlist_is_empty l h \<longleftrightarrow> xs = []"
  using dlist_rep_ends(1) [of h l xs] dlist_rep_distinct [of h l xs]
  by (cases xs) (auto simp: sys_dlist_is_empty_def)

lemma sys_dlist_peek_head_rep:
  "dlist_rep h l xs \<Longrightarrow> sys_dlist_peek_head l h = (case xs of [] \<Rightarrow> None | x # _ \<Rightarrow> Some x)"
  by (auto simp: sys_dlist_peek_head_def sys_dlist_is_empty_rep dlist_rep_ends(1) split: list.split)

lemma sys_dlist_peek_tail_rep:
  "dlist_rep h l xs \<Longrightarrow> sys_dlist_peek_tail l h = (if xs = [] then None else Some (last xs))"
  by (simp add: sys_dlist_peek_tail_def sys_dlist_is_empty_rep dlist_rep_ends(2))

lemma sys_dlist_peek_next_rep:
  assumes "dlist_rep h l (as @ n # bs)"
  shows "sys_dlist_peek_next l (Some n) h = (case bs of [] \<Rightarrow> None | b # _ \<Rightarrow> Some b)"
  using dlist_rep_ends(2) [OF assms] dlist_rep_around(2) [OF assms] dlist_rep_distinct [OF assms]
  by (auto simp: sys_dlist_peek_next_def sys_dlist_peek_next_no_check_def split: list.split)

lemma sys_dlist_peek_prev_rep:
  assumes "dlist_rep h l (as @ n # bs)"
  shows "sys_dlist_peek_prev l (Some n) h = (if as = [] then None else Some (last as))"
  using dlist_rep_ends(1) [OF assms] dlist_rep_around(1) [OF assms] dlist_rep_distinct [OF assms]
  by (cases as) (auto simp: sys_dlist_peek_prev_def sys_dlist_peek_prev_no_check_def)

text \<open>
  Insertion of a node between two neighbours, shared by append, prepend and insert: the
  node must not be on the list, and nothing outside the list and the node changes.
\<close>

lemma dlist_rep_insert:
  assumes rep: "dlist_rep h l (as @ bs)" and new: "n \<notin> set (l # as @ bs)"
    and next': "\<And>a. dn_next (h' a) = (if a = n then Some (hd (bs @ [l]))
                 else if a = last (l # as) then Some n else dn_next (h a))"
    and prev': "\<And>a. dn_prev (h' a) = (if a = n then Some (last (l # as))
                 else if a = hd (bs @ [l]) then Some n else dn_prev (h a))"
  shows "dlist_rep h' l (as @ n # bs)"
proof -
  have dist: "distinct (l # as @ bs)" and links: "links h ((l # as) @ (bs @ [l]))"
    using rep by (simp_all add: dlist_rep_def)
  obtain p where last: "last (l # as) = p" and p: "p \<in> set (l # as)"
    using last_in_set [of "l # as"] by blast
  obtain s where head: "hd (bs @ [l]) = s" and s: "s \<in> set (bs @ [l])"
    using hd_in_set [of "bs @ [l]"] by blast
  have ends: "n \<noteq> p" "n \<noteq> s" using new p s by auto
  have nexts: "a \<noteq> p \<and> a \<noteq> n" if "a \<in> set (butlast (l # as)) \<union> set (butlast (bs @ [l]))" for a
    using that dist new unfolding last [symmetric]
    by (cases as rule: rev_cases) (auto dest: in_set_butlastD)
  have prevs: "a \<noteq> s \<and> a \<noteq> n" if "a \<in> set (tl (l # as)) \<union> set (tl (bs @ [l]))" for a
    using that dist new unfolding head [symmetric] by (cases bs) auto
  have "links h' ((l # as) @ n # (bs @ [l]))"
  proof (rule links_insert [OF links])
    fix a
    show "a \<in> set (butlast (l # as)) \<union> set (butlast (bs @ [l])) \<Longrightarrow> dn_next (h' a) = dn_next (h a)"
      using nexts [of a] by (simp only: next' last) simp
    show "a \<in> set (tl (l # as)) \<union> set (tl (bs @ [l])) \<Longrightarrow> dn_prev (h' a) = dn_prev (h a)"
      using prevs [of a] by (simp only: prev' head) simp
  qed (use ends in \<open>simp_all add: next' prev' last head del: last.simps\<close>)
  then show ?thesis using dist new by (auto simp: dlist_rep_def)
qed

lemma sys_dlist_append_rep:
  assumes rep: "dlist_rep h l xs" and new: "n \<notin> set (l # xs)"
  shows "\<exists>h'. sys_dlist_append l n h = Some h' \<and> dlist_rep h' l (xs @ [n])
           \<and> (\<forall>a. a \<notin> set (l # n # xs) \<longrightarrow> h' a = h a)"
proof -
  obtain t where last: "last (l # xs) = t" and t: "t \<in> set (l # xs)"
    using last_in_set [of "l # xs"] by blast
  let ?h = "set_prev l (Some n) (set_next t (Some n)
              (set_prev n (Some t) (set_next n (Some l) h)))"
  have "sys_dlist_append l n h = Some ?h"
    by (simp only: sys_dlist_append_def dlist_rep_ends(2) [OF rep] last) simp
  moreover have "dlist_rep ?h l (xs @ n # [])"
    by (rule dlist_rep_insert [of h]) (use rep new t in \<open>auto simp only: last\<close>, use t new in auto)
  moreover have "?h a = h a" if "a \<notin> set (l # n # xs)" for a
  proof -
    have "a \<noteq> t" using that t by auto
    then show ?thesis using that by simp
  qed
  ultimately show ?thesis by blast
qed

lemma sys_dlist_prepend_rep:
  assumes rep: "dlist_rep h l xs" and new: "n \<notin> set (l # xs)"
  shows "\<exists>h'. sys_dlist_prepend l n h = Some h' \<and> dlist_rep h' l (n # xs)
           \<and> (\<forall>a. a \<notin> set (l # n # xs) \<longrightarrow> h' a = h a)"
proof -
  obtain s where head: "hd (xs @ [l]) = s" and s: "s \<in> set (xs @ [l])"
    using hd_in_set [of "xs @ [l]"] by blast
  let ?h = "set_next l (Some n) (set_prev s (Some n)
              (set_prev n (Some l) (set_next n (Some s) h)))"
  have "sys_dlist_prepend l n h = Some ?h"
    by (simp add: sys_dlist_prepend_def dlist_rep_ends(1) [OF rep] head)
  moreover have "dlist_rep ?h l ([] @ n # xs)"
    by (rule dlist_rep_insert [of h]) (use rep new s in \<open>auto simp: head\<close>)
  moreover have "?h a = h a" if "a \<notin> set (l # n # xs)" for a
  proof -
    have "a \<noteq> s" using that s by auto
    then show ?thesis using that by simp
  qed
  ultimately show ?thesis by auto
qed

lemma sys_dlist_insert_rep:
  assumes rep: "dlist_rep h l (as @ s # bs)" and new: "n \<notin> set (l # as @ s # bs)"
  shows "\<exists>h'. sys_dlist_insert s n h = Some h' \<and> dlist_rep h' l (as @ n # s # bs)
           \<and> (\<forall>a. a \<notin> set (l # n # as @ s # bs) \<longrightarrow> h' a = h a)"
proof -
  obtain p where last: "last (l # as) = p" and p: "p \<in> set (l # as)"
    using last_in_set [of "l # as"] by blast
  let ?h = "set_prev s (Some n) (set_next p (Some n)
              (set_next n (Some s) (set_prev n (Some p) h)))"
  have "sys_dlist_insert s n h = Some ?h"
    by (simp only: sys_dlist_insert_def dlist_rep_around(1) [OF rep] last) simp
  moreover have "dlist_rep ?h l (as @ n # (s # bs))"
    by (rule dlist_rep_insert [of h]) (use rep new p in \<open>auto simp only: last\<close>, use p new in auto)
  moreover have "?h a = h a" if "a \<notin> set (l # n # as @ s # bs)" for a
  proof -
    have "a \<noteq> p" using that p by auto
    then show ?thesis using that by simp
  qed
  ultimately show ?thesis by blast
qed

lemma sys_dlist_remove_rep:
  assumes rep: "dlist_rep h l (as @ n # bs)"
  shows "\<exists>h'. sys_dlist_remove n h = Some h' \<and> dlist_rep h' l (as @ bs)
           \<and> dn_next (h' n) = None \<and> dn_prev (h' n) = None
           \<and> (\<forall>a. a \<notin> set (l # as @ n # bs) \<longrightarrow> h' a = h a)"
proof -
  obtain p where last: "last (l # as) = p" and p: "p \<in> set (l # as)"
    using last_in_set [of "l # as"] by blast
  obtain s where head: "hd (bs @ [l]) = s" and s: "s \<in> set (bs @ [l])"
    using hd_in_set [of "bs @ [l]"] by blast
  let ?h = "sys_dnode_init n (set_prev s (Some p) (set_next p (Some s) h))"
  have dist: "distinct (l # as @ n # bs)" and links: "links h ((l # as) @ n # (bs @ [l]))"
    using rep by (simp_all add: dlist_rep_def)
  have ne: "n \<noteq> p" "n \<noteq> s" using p s dist by auto
  have nexts: "a \<noteq> p \<and> a \<noteq> n" if "a \<in> set (butlast (l # as)) \<union> set (butlast (bs @ [l]))" for a
    using that dist unfolding last [symmetric]
    by (cases as rule: rev_cases) (auto dest: in_set_butlastD)
  have prevs: "a \<noteq> s \<and> a \<noteq> n" if "a \<in> set (tl (l # as)) \<union> set (tl (bs @ [l]))" for a
    using that dist unfolding head [symmetric] by (cases bs) auto
  have links': "links ?h ((l # as) @ (bs @ [l]))"
  proof (rule links_delete [OF links])
    fix a
    show "a \<in> set (butlast (l # as)) \<union> set (butlast (bs @ [l])) \<Longrightarrow> dn_next (?h a) = dn_next (h a)"
      using nexts [of a] by (simp add: sys_dnode_init_def)
    show "a \<in> set (tl (l # as)) \<union> set (tl (bs @ [l])) \<Longrightarrow> dn_prev (?h a) = dn_prev (h a)"
      using prevs [of a] by (simp add: sys_dnode_init_def)
  qed (use ne in \<open>simp_all add: sys_dnode_init_def last head del: last.simps\<close>)
  then have "dlist_rep ?h l (as @ bs)" using dist by (simp add: dlist_rep_def)
  moreover have "sys_dlist_remove n h = Some ?h"
    by (simp add: sys_dlist_remove_def dlist_rep_around [OF rep] last head del: last.simps)
  moreover have "?h a = h a" if "a \<notin> set (l # as @ n # bs)" for a
  proof -
    have "a \<noteq> p" "a \<noteq> s" using that p s by auto
    then show ?thesis using that by (simp add: sys_dnode_init_def)
  qed
  ultimately show ?thesis by (auto simp: sys_dnode_init_def)
qed

lemma sys_dlist_get_rep:
  assumes "dlist_rep h l (n # xs)"
  shows "\<exists>h'. sys_dlist_get l h = Some (Some n, h') \<and> dlist_rep h' l xs
           \<and> dn_next (h' n) = None \<and> dn_prev (h' n) = None
           \<and> (\<forall>a. a \<notin> set (l # n # xs) \<longrightarrow> h' a = h a)"
  using sys_dlist_remove_rep [of h l "[]" n xs] assms
  by (auto simp: sys_dlist_get_def sys_dlist_is_empty_rep dlist_rep_ends(1))

lemma sys_dlist_get_empty: "dlist_rep h l [] \<Longrightarrow> sys_dlist_get l h = Some (None, h)"
  by (simp add: sys_dlist_get_def sys_dlist_is_empty_rep)

section \<open>Loops over a list\<close>

text \<open>The loop over the nodes of a represented list is the fold with early exit over \<open>xs\<close>.\<close>

primrec list_for_each :: "('a \<Rightarrow> 'c \<Rightarrow> 'c + 'r) \<Rightarrow> 'a list \<Rightarrow> 'c \<Rightarrow> 'c + 'r" where
  "list_for_each f [] c = Inl c"
| "list_for_each f (x # xs) c =
     (case f x c of Inr r \<Rightarrow> Inr r | Inl c' \<Rightarrow> list_for_each f xs c')"

lemma dlist_for_each_suffix:
  assumes "dlist_rep h l (as @ bs)"
  shows "dlist_for_each l h f (case bs of [] \<Rightarrow> None | b # _ \<Rightarrow> Some b) c
           = Some (list_for_each f bs c)"
  using assms
proof (induction bs arbitrary: as c)
  case Nil
  then show ?case by (simp add: dlist_for_each.simps)
next
  case (Cons b bs)
  have "dlist_rep h l ((as @ [b]) @ bs)" using Cons.prems by simp
  then have "dlist_for_each l h f (case bs of [] \<Rightarrow> None | x # _ \<Rightarrow> Some x) c'
        = Some (list_for_each f bs c')" for c'
    by (rule Cons.IH)
  then show ?case
    using sys_dlist_peek_next_rep [OF Cons.prems]
    by (simp add: dlist_for_each.simps [of l h f "Some b"] split: sum.split)
qed

lemma sys_dlist_for_each_node_rep:
  "dlist_rep h l xs \<Longrightarrow> sys_dlist_for_each_node l h f c = Some (list_for_each f xs c)"
  using dlist_for_each_suffix [of h l "[]" xs f c]
  by (simp add: sys_dlist_for_each_node_def sys_dlist_peek_head_rep)

lemma list_for_each_count:
  "list_for_each (\<lambda>_ len. Inl (len + 1) :: size_t + unit) xs c = Inl (c + of_nat (length xs))"
  by (induction xs arbitrary: c) (auto simp: algebra_simps)

lemma sys_dlist_len_rep: "dlist_rep h l xs \<Longrightarrow> sys_dlist_len l h = Some (of_nat (length xs))"
  by (simp add: sys_dlist_len_def sys_dlist_for_each_node_rep list_for_each_count)

text \<open>Searching: the nodes before the first one that satisfies the condition, and the rest.\<close>

lemma list_for_each_find:
  "list_for_each (\<lambda>n c. if P n then Inr n else Inl c) xs () =
     (case dropWhile (\<lambda>n. \<not> P n) xs of [] \<Rightarrow> Inl () | s # _ \<Rightarrow> Inr s)"
  by (induction xs) auto

lemma sys_dlist_insert_at_rep:
  assumes rep: "dlist_rep h l xs" and new: "n \<notin> set (l # xs)"
  shows "\<exists>h'. sys_dlist_insert_at l n P h = Some h'
           \<and> dlist_rep h' l (takeWhile (\<lambda>a. \<not> P a) xs @ n # dropWhile (\<lambda>a. \<not> P a) xs)
           \<and> (\<forall>a. a \<notin> set (l # n # xs) \<longrightarrow> h' a = h a)"
proof (cases "dropWhile (\<lambda>a. \<not> P a) xs")
  case Nil
  then have take: "takeWhile (\<lambda>a. \<not> P a) xs = xs"
    by (metis append_Nil2 takeWhile_dropWhile_id)
  have "list_for_each (\<lambda>n c. if P n then Inr n else Inl c) xs () = Inl ()"
    by (simp only: list_for_each_find Nil list.case)
  then have "sys_dlist_insert_at l n P h = sys_dlist_append l n h"
    using rep by (simp add: sys_dlist_insert_at_def sys_dlist_for_each_node_rep)
  with sys_dlist_append_rep [OF rep new] show ?thesis by (simp only: Nil take)
next
  case (Cons s bs)
  then have split: "xs = takeWhile (\<lambda>a. \<not> P a) xs @ s # bs" (is "_ = ?as @ _")
    by (metis takeWhile_dropWhile_id)
  have "xs \<noteq> []" using Cons by auto
  then have "sys_dlist_insert_at l n P h = sys_dlist_insert s n h"
    using rep Cons by (simp add: sys_dlist_insert_at_def sys_dlist_is_empty_rep
      sys_dlist_for_each_node_rep list_for_each_find)
  moreover have "\<exists>h'. sys_dlist_insert s n h = Some h' \<and> dlist_rep h' l (?as @ n # s # bs)
           \<and> (\<forall>a. a \<notin> set (l # n # ?as @ s # bs) \<longrightarrow> h' a = h a)"
    by (rule sys_dlist_insert_rep) (use rep new split in auto)
  ultimately show ?thesis using Cons split by simp
qed

section \<open>A family of lists in one heap\<close>

text \<open>
  Several lists whose nodes are embedded in the same kind of object: \<open>H q\<close> is the address of
  the head of list \<open>q\<close> and \<open>N n\<close> that of the node inside object \<open>n\<close>. An object is on at most
  one list.
\<close>

definition dlists_rep ::
  "('q \<Rightarrow> 'a) \<Rightarrow> ('n \<Rightarrow> 'a) \<Rightarrow> 'q set \<Rightarrow> ('q \<Rightarrow> 'n list) \<Rightarrow> 'a dheap \<Rightarrow> bool" where
  "dlists_rep H N Q xs h \<longleftrightarrow>
     (\<forall>q \<in> Q. dlist_rep h (H q) (map N (xs q)))
     \<and> (\<forall>q \<in> Q. \<forall>q' \<in> Q. q \<noteq> q' \<longrightarrow> set (xs q) \<inter> set (xs q') = {})"

locale dlist_family =
  fixes H :: "'q \<Rightarrow> 'a" and N :: "'n \<Rightarrow> 'a"
  assumes inj_head: "H p = H q \<Longrightarrow> p = q"
    and inj_node: "N m = N n \<Longrightarrow> m = n"
    and head_node: "H q \<noteq> N n"
begin

lemma node_image [simp]: "N n \<in> N ` A \<longleftrightarrow> n \<in> A"
  by (auto dest: inj_node)

lemma head_image [simp]: "H q \<notin> N ` A"
  using head_node by auto

lemma dlists_distinct: "dlists_rep H N Q xs h \<Longrightarrow> q \<in> Q \<Longrightarrow> distinct (xs q)"
  by (auto simp: dlists_rep_def distinct_map dest!: bspec dlist_rep_distinct)

text \<open>One list changes, with the others untouched.\<close>

lemma dlists_update:
  assumes rep: "dlists_rep H N Q xs h" and q: "q \<in> Q" "dlist_rep h' (H q) (map N ys)"
    and frame: "\<And>a. a \<notin> set (H q # N n # map N ns) \<Longrightarrow> h' a = h a"
    and free: "\<And>p. p \<in> Q \<Longrightarrow> p \<noteq> q \<Longrightarrow> n \<notin> set (xs p) \<and> set (xs p) \<inter> set ns = {}"
    and ys: "set ys \<subseteq> insert n (set ns)"
  shows "dlists_rep H N Q (xs(q := ys)) h'"
proof -
  have other: "dlist_rep h' (H p) (map N (xs p))" if "p \<in> Q" "p \<noteq> q" for p
  proof (rule dlist_rep_frame)
    show "dlist_rep h (H p) (map N (xs p))" using rep that by (simp add: dlists_rep_def)
    show "h' a = h a" if "a \<in> set (H p # map N (xs p))" for a
      using that free [OF \<open>p \<in> Q\<close> \<open>p \<noteq> q\<close>] \<open>p \<noteq> q\<close>
      by (intro frame) (auto dest: inj_head inj_node simp: head_node head_node [symmetric])
  qed
  moreover have "set (xs p) \<inter> set ys = {}" if "p \<in> Q" "p \<noteq> q" for p
    using free [OF that] ys by auto
  ultimately show ?thesis using rep q by (auto simp: dlists_rep_def)
qed

lemma dlists_append:
  assumes rep: "dlists_rep H N Q xs h" and q: "q \<in> Q" and new: "\<And>p. p \<in> Q \<Longrightarrow> n \<notin> set (xs p)"
  shows "\<exists>h'. sys_dlist_append (H q) (N n) h = Some h' \<and> dlists_rep H N Q (xs(q := xs q @ [n])) h'"
proof -
  have "dlist_rep h (H q) (map N (xs q))" using rep q by (simp add: dlists_rep_def)
  then obtain h' where h': "sys_dlist_append (H q) (N n) h = Some h'"
      "dlist_rep h' (H q) (map N (xs q @ [n]))"
      "\<And>a. a \<notin> set (H q # N n # map N (xs q)) \<Longrightarrow> h' a = h a"
    using sys_dlist_append_rep [of h "H q" "map N (xs q)" "N n"] new [OF q]
    by (auto simp: head_node [symmetric])
  have "set (xs p) \<inter> set (xs q) = {}" if "p \<in> Q" "p \<noteq> q" for p
    using rep q that by (simp add: dlists_rep_def)
  then have "dlists_rep H N Q (xs(q := xs q @ [n])) h'"
    by (intro dlists_update [OF rep q h'(2) h'(3)]) (use new in auto)
  with h'(1) show ?thesis by blast
qed

lemma dlists_insert:
  assumes rep: "dlists_rep H N Q xs h" and q: "q \<in> Q" and split: "xs q = as @ s # bs"
    and new: "\<And>p. p \<in> Q \<Longrightarrow> n \<notin> set (xs p)"
  shows "\<exists>h'. sys_dlist_insert (N s) (N n) h = Some h'
           \<and> dlists_rep H N Q (xs(q := as @ n # s # bs)) h'"
proof -
  have "dlist_rep h (H q) (map N as @ N s # map N bs)" using rep q split by (force simp: dlists_rep_def)
  moreover have "N n \<notin> set (H q # map N as @ N s # map N bs)"
    using new [OF q] split by (auto simp: head_node [symmetric] dest: inj_node)
  ultimately obtain h' where h': "sys_dlist_insert (N s) (N n) h = Some h'"
      "dlist_rep h' (H q) (map N (as @ n # s # bs))"
      "\<And>a. a \<notin> set (H q # N n # map N (xs q)) \<Longrightarrow> h' a = h a"
    using sys_dlist_insert_rep [of h "H q" "map N as" "N s" "map N bs" "N n"] split by auto
  have "set (xs p) \<inter> set (xs q) = {}" if "p \<in> Q" "p \<noteq> q" for p
    using rep q that by (simp add: dlists_rep_def)
  then have "dlists_rep H N Q (xs(q := as @ n # s # bs)) h'"
    by (intro dlists_update [where ns = "xs q" and n = n, OF rep q h'(2) h'(3)])
      (use new split in auto)
  with h'(1) show ?thesis by blast
qed

lemma dlists_remove:
  assumes rep: "dlists_rep H N Q xs h" and q: "q \<in> Q" and split: "xs q = as @ n # bs"
  shows "\<exists>h'. sys_dlist_remove (N n) h = Some h' \<and> dlists_rep H N Q (xs(q := as @ bs)) h'"
proof -
  have "dlist_rep h (H q) (map N as @ N n # map N bs)" using rep q split by (force simp: dlists_rep_def)
  then obtain h' where h': "sys_dlist_remove (N n) h = Some h'" "dlist_rep h' (H q) (map N (as @ bs))"
      "\<And>a. a \<notin> set (H q # N n # map N (as @ bs)) \<Longrightarrow> h' a = h a"
    using sys_dlist_remove_rep [of h "H q" "map N as" "N n" "map N bs"] by auto
  have "n \<notin> set (xs p) \<and> set (xs p) \<inter> set (as @ bs) = {}" if "p \<in> Q" "p \<noteq> q" for p
  proof -
    have "set (xs p) \<inter> set (xs q) = {}" using rep q that by (simp add: dlists_rep_def)
    then show ?thesis using split by auto
  qed
  then have "dlists_rep H N Q (xs(q := as @ bs)) h'"
    by (intro dlists_update [of Q xs h q h' "as @ bs" n "as @ bs", OF rep q h'(2) h'(3)]) auto
  with h'(1) show ?thesis by blast
qed

lemma dlists_get:
  assumes rep: "dlists_rep H N Q xs h" and q: "q \<in> Q" and split: "xs q = n # ns"
  shows "\<exists>h'. sys_dlist_get (H q) h = Some (Some (N n), h') \<and> dlists_rep H N Q (xs(q := ns)) h'"
proof -
  have list: "dlist_rep h (H q) (N n # map N ns)" using rep q split by (force simp: dlists_rep_def)
  obtain h' where "sys_dlist_remove (N n) h = Some h'" "dlists_rep H N Q (xs(q := [] @ ns)) h'"
    using dlists_remove [OF rep q, of "[]" n ns] split by auto
  with list show ?thesis
    by (simp add: sys_dlist_get_def sys_dlist_is_empty_rep dlist_rep_ends(1))
qed

lemma dlists_get_empty:
  "dlists_rep H N Q xs h \<Longrightarrow> q \<in> Q \<Longrightarrow> xs q = [] \<Longrightarrow> sys_dlist_get (H q) h = Some (None, h)"
  by (force simp: dlists_rep_def intro: sys_dlist_get_empty)

lemma dlists_init:
  assumes "dlists_rep H N Q xs h" "\<And>a. a \<noteq> H q \<Longrightarrow> h' a = h a" "dlist_rep h' (H q) []"
  shows "dlists_rep H N (insert q Q) (xs(q := [])) h'"
proof -
  have "dlist_rep h' (H p) (map N (xs p))" if "p \<in> Q" "p \<noteq> q" for p
  proof (rule dlist_rep_frame)
    show "dlist_rep h (H p) (map N (xs p))" using assms(1) that by (simp add: dlists_rep_def)
    show "h' a = h a" if "a \<in> set (H p # map N (xs p))" for a
      using that \<open>p \<noteq> q\<close> by (intro assms(2)) (auto dest: inj_head simp: head_node head_node [symmetric])
  qed
  with assms show ?thesis by (auto simp: dlists_rep_def)
qed

lemma dlists_frame:
  assumes rep: "dlists_rep H N Q xs h" and heads: "\<And>q. q \<in> Q \<Longrightarrow> h' (H q) = h (H q)"
    and nodes: "\<And>q n. q \<in> Q \<Longrightarrow> n \<in> set (xs q) \<Longrightarrow> h' (N n) = h (N n)"
  shows "dlists_rep H N Q xs h'"
proof -
  have "dlist_rep h' (H p) (map N (xs p))" if "p \<in> Q" for p
    by (rule dlist_rep_frame [of h]) (use rep heads nodes that in \<open>auto simp: dlists_rep_def\<close>)
  with rep show ?thesis by (simp add: dlists_rep_def)
qed

end

section \<open>Programs over one list\<close>

text \<open>Any sequence of list operations, against the same operations on a HOL list.\<close>

datatype 'a dl_op =
  DAppend 'a | DPrepend 'a | DInsert 'a 'a | DRemove 'a | DGet | DInsertAt 'a "'a \<Rightarrow> bool"

fun dlist_op_ok :: "'a \<Rightarrow> 'a list \<Rightarrow> 'a dl_op \<Rightarrow> bool" where
  "dlist_op_ok l xs (DAppend n) = (n \<notin> set (l # xs))"
| "dlist_op_ok l xs (DPrepend n) = (n \<notin> set (l # xs))"
| "dlist_op_ok l xs (DInsert s n) = (s \<in> set xs \<and> n \<notin> set (l # xs))"
| "dlist_op_ok l xs (DRemove n) = (n \<in> set xs)"
| "dlist_op_ok l xs DGet = True"
| "dlist_op_ok l xs (DInsertAt n P) = (n \<notin> set (l # xs))"

fun list_op :: "'a list \<Rightarrow> 'a dl_op \<Rightarrow> 'a option \<times> 'a list" where
  "list_op xs (DAppend n) = (None, xs @ [n])"
| "list_op xs (DPrepend n) = (None, n # xs)"
| "list_op xs (DInsert s n) =
     (None, takeWhile (\<lambda>a. a \<noteq> s) xs @ n # dropWhile (\<lambda>a. a \<noteq> s) xs)"
| "list_op xs (DRemove n) = (None, remove1 n xs)"
| "list_op xs DGet = (case xs of [] \<Rightarrow> (None, []) | x # ys \<Rightarrow> (Some x, ys))"
| "list_op xs (DInsertAt n P) =
     (None, takeWhile (\<lambda>a. \<not> P a) xs @ n # dropWhile (\<lambda>a. \<not> P a) xs)"

fun dlist_op :: "'a \<Rightarrow> 'a dheap \<Rightarrow> 'a dl_op \<Rightarrow> ('a option \<times> 'a dheap) option" where
  "dlist_op l h (DAppend n) = map_option (Pair None) (sys_dlist_append l n h)"
| "dlist_op l h (DPrepend n) = map_option (Pair None) (sys_dlist_prepend l n h)"
| "dlist_op l h (DInsert s n) = map_option (Pair None) (sys_dlist_insert s n h)"
| "dlist_op l h (DRemove n) = map_option (Pair None) (sys_dlist_remove n h)"
| "dlist_op l h DGet = sys_dlist_get l h"
| "dlist_op l h (DInsertAt n P) = map_option (Pair None) (sys_dlist_insert_at l n P h)"

fun dlist_ops_ok :: "'a \<Rightarrow> 'a list \<Rightarrow> 'a dl_op list \<Rightarrow> bool" where
  "dlist_ops_ok l xs [] = True"
| "dlist_ops_ok l xs (c # cs) = (dlist_op_ok l xs c \<and> dlist_ops_ok l (snd (list_op xs c)) cs)"

fun list_ops :: "'a list \<Rightarrow> 'a dl_op list \<Rightarrow> 'a option list \<times> 'a list" where
  "list_ops xs [] = ([], xs)"
| "list_ops xs (c # cs) =
     (let (r, ys) = list_op xs c; (rs, zs) = list_ops ys cs in (r # rs, zs))"

fun dlist_ops :: "'a \<Rightarrow> 'a dheap \<Rightarrow> 'a dl_op list \<Rightarrow> ('a option list \<times> 'a dheap) option" where
  "dlist_ops l h [] = Some ([], h)"
| "dlist_ops l h (c # cs) = do {
     (r, h) \<leftarrow> dlist_op l h c;
     (rs, h) \<leftarrow> dlist_ops l h cs;
     Some (r # rs, h)
   }"

lemma dlist_op_refines:
  assumes rep: "dlist_rep h l xs" and ok: "dlist_op_ok l xs c"
  shows "\<exists>h'. dlist_op l h c = Some (fst (list_op xs c), h')
           \<and> dlist_rep h' l (snd (list_op xs c))"
proof (cases c)
  case (DAppend n)
  with sys_dlist_append_rep [OF rep, of n] ok show ?thesis by auto
next
  case (DPrepend n)
  with sys_dlist_prepend_rep [OF rep, of n] ok show ?thesis by auto
next
  case (DInsert s n)
  then obtain as bs where xs: "xs = as @ s # bs" "s \<notin> set as"
    using ok split_list_first [of s xs] by auto
  then have "takeWhile (\<lambda>a. a \<noteq> s) xs = as" "dropWhile (\<lambda>a. a \<noteq> s) xs = s # bs"
    by (auto simp: takeWhile_append dropWhile_append)
  with sys_dlist_insert_rep [of h l as s bs n] rep ok xs DInsert show ?thesis by auto
next
  case (DRemove n)
  then obtain as bs where xs: "xs = as @ n # bs" "n \<notin> set as"
    using ok split_list_first [of n xs] by auto
  then have "remove1 n xs = as @ bs" by (simp add: remove1_append)
  with sys_dlist_remove_rep [of h l as n bs] rep xs DRemove show ?thesis by auto
next
  case DGet
  show ?thesis
  proof (cases xs)
    case Nil
    with sys_dlist_get_empty [of h l] rep DGet show ?thesis by auto
  next
    case (Cons x ys)
    with sys_dlist_get_rep [of h l x ys] rep DGet show ?thesis by auto
  qed
next
  case (DInsertAt n P)
  with sys_dlist_insert_at_rep [OF rep, of n P] ok show ?thesis by auto
qed

section \<open>Properties\<close>

text \<open>C1: Any sequence of the doubly-linked-list operations, run on the pointers of a
  well-formed list with nodes that are not already linked, never dereferences NULL, returns
  what the same operations return on a sequence, and leaves the pointers well-formed for the
  resulting sequence.\<close>

theorem dlist_ops_refine:
  assumes "dlist_rep h l xs" "dlist_ops_ok l xs cs"
  shows "\<exists>h'. dlist_ops l h cs = Some (fst (list_ops xs cs), h')
           \<and> dlist_rep h' l (snd (list_ops xs cs))"
  using assms
proof (induction cs arbitrary: h xs)
  case Nil
  then show ?case by simp
next
  case (Cons c cs)
  obtain h1 where h1: "dlist_op l h c = Some (fst (list_op xs c), h1)"
      "dlist_rep h1 l (snd (list_op xs c))"
    using dlist_op_refines [OF Cons.prems(1)] Cons.prems(2) by auto
  obtain h2 where "dlist_ops l h1 cs = Some (fst (list_ops (snd (list_op xs c)) cs), h2)"
      "dlist_rep h2 l (snd (list_ops (snd (list_op xs c)) cs))"
    using Cons.IH [OF h1(2)] Cons.prems(2) by auto
  with h1(1) show ?case by (auto simp: split_beta)
qed

definition blank_heap :: "nat dheap" where
  "blank_heap = (\<lambda>_. \<lparr>dn_next = None, dn_prev = None\<rparr>)"

theorem dlist_ops_refine_witness:
  "\<exists>h'. dlist_ops 0 (sys_dlist_init 0 blank_heap)
           [DAppend 1, DAppend 2, DPrepend 3, DRemove 1, DInsertAt 4 (\<lambda>n. n = 2), DGet]
         = Some ([None, None, None, None, None, Some 3], h') \<and> dlist_rep h' 0 [4, 2]"
  using dlist_ops_refine [OF dlist_rep_init [of "0::nat" blank_heap],
      of "[DAppend 1, DAppend 2, DPrepend 3, DRemove 1, DInsertAt 4 (\<lambda>n. n = 2), DGet]"]
  by simp

text \<open>Iterating a well-formed list visits its nodes in order and stops, so the length loop
  terminates and counts them (modulo the width of \<open>size_t\<close>).\<close>

theorem dlist_traversal_terminates:
  assumes "dlist_rep h l xs"
  shows "sys_dlist_for_each_node l h (\<lambda>n seen. Inl (seen @ [n]) :: 'a list + unit) []
           = Some (Inl xs)
       \<and> sys_dlist_len l h = Some (of_nat (length xs))"
proof -
  have "list_for_each (\<lambda>n seen. Inl (seen @ [n]) :: 'a list + unit) xs acc = Inl (acc @ xs)" for acc
    by (induction xs arbitrary: acc) auto
  with assms show ?thesis by (simp add: sys_dlist_for_each_node_rep sys_dlist_len_rep)
qed

theorem dlist_traversal_terminates_witness:
  "sys_dlist_for_each_node 0 (sys_dlist_init 0 blank_heap)
     (\<lambda>n seen. Inl (seen @ [n]) :: nat list + unit) [] = Some (Inl [])
   \<and> sys_dlist_len 0 (sys_dlist_init 0 blank_heap) = Some 0"
  using dlist_traversal_terminates [OF dlist_rep_init [of "0::nat" blank_heap]] by simp

end
