(* ===== verification/Fifo.thy ===== *)
theory Fifo
  imports Dlist Sem_FreeRTOS
begin

text \<open>
  \<open>src/common/fifo.c\<close>: an intrusive, zero-copy FIFO of nodes that the caller owns.

  The memory holds any number of FIFOs and nodes. \<open>FifoList q\<close> is the address of the list
  head inside FIFO \<open>q\<close> and \<open>FifoNode n\<close> that of the list node inside node \<open>n\<close>, so
  \<open>CONTAINER_OF\<close> is the inverse of \<open>FifoNode\<close>; applied to a list head it is undefined
  behaviour. The links themselves are the pointers of \<open>Dlist\<close>.
\<close>

section \<open>State and operations\<close>

datatype ('q, 'n) faddr = FifoList 'q | FifoNode 'n

record 's os_fifo =
  ff_items :: 's
  ff_count :: u32
  ff_initialized :: bool

record ('q, 'n, 's) fifo_mem =
  fm_heap :: "('q, 'n) faddr dheap"
  fm_fifo :: "'q \<Rightarrow> 's os_fifo"
  fm_queued :: "'n \<Rightarrow> bool"

definition null_dnode :: "'a dnode" where
  "null_dnode = \<lparr>dn_next = None, dn_prev = None\<rparr>"

definition os_fifo_zero :: "'s sem_ops \<Rightarrow> 's os_fifo" where
  "os_fifo_zero S = \<lparr>ff_items = sem_zero S, ff_count = 0, ff_initialized = False\<rparr>"

definition upd_fifo ::
  "'q \<Rightarrow> ('s os_fifo \<Rightarrow> 's os_fifo) \<Rightarrow> ('q, 'n, 's) fifo_mem \<Rightarrow> ('q, 'n, 's) fifo_mem" where
  "upd_fifo q f m = m\<lparr>fm_fifo := (fm_fifo m)(q := f (fm_fifo m q))\<rparr>"

definition set_queued :: "'n \<Rightarrow> bool \<Rightarrow> ('q, 'n, 's) fifo_mem \<Rightarrow> ('q, 'n, 's) fifo_mem" where
  "set_queued n b m = m\<lparr>fm_queued := (fm_queued m)(n := b)\<rparr>"

definition fifo_zero_at :: "'s sem_ops \<Rightarrow> 'q \<Rightarrow> ('q, 'n, 's) fifo_mem \<Rightarrow> ('q, 'n, 's) fifo_mem" where
  "fifo_zero_at S q m =
     upd_fifo q (\<lambda>_. os_fifo_zero S) m
       \<lparr>fm_heap := (fm_heap m)(FifoList q := null_dnode)\<rparr>"

definition os_fifo_init ::
  "'s sem_ops \<Rightarrow> 'q option \<Rightarrow> ('q, 'n, 's) fifo_mem \<Rightarrow> int \<times> ('q, 'n, 's) fifo_mem" where
  "os_fifo_init S fifo m =
     (case fifo of
        None \<Rightarrow> (- EINVAL, m)
      | Some q \<Rightarrow>
          let m = fifo_zero_at S q m;
              m = m\<lparr>fm_heap := sys_dlist_init (FifoList q) (fm_heap m)\<rparr>;
              (result, items) = sem_init S (ff_items (fm_fifo m q)) 0 UINT16_MAX;
              m = upd_fifo q (\<lambda>f. f\<lparr>ff_items := items\<rparr>) m
          in if result \<noteq> 0 then (- ENOMEM, m)
             else (0, upd_fifo q (\<lambda>f. f\<lparr>ff_initialized := True\<rparr>) m))"

definition os_fifo_deinit ::
  "'s sem_ops \<Rightarrow> bool \<Rightarrow> 'q option \<Rightarrow> ('q, 'n, 's) fifo_mem \<Rightarrow> int \<times> ('q, 'n, 's) fifo_mem" where
  "os_fifo_deinit S isr fifo m =
     (case fifo of
        None \<Rightarrow> (- EINVAL, m)
      | Some q \<Rightarrow>
          if \<not> ff_initialized (fm_fifo m q) then (- EINVAL, m)
          else if \<not> sys_dlist_is_empty (FifoList q) (fm_heap m) then (- EBUSY, m)
          else
            let (result, items) = sem_deinit S isr (ff_items (fm_fifo m q));
                m = upd_fifo q (\<lambda>f. f\<lparr>ff_items := items\<rparr>) m
            in (result, if result = 0 then fifo_zero_at S q m else m))"

definition os_fifo_node_init ::
  "'n option \<Rightarrow> ('q, 'n, 's) fifo_mem \<Rightarrow> ('q, 'n, 's) fifo_mem" where
  "os_fifo_node_init node m =
     (case node of
        None \<Rightarrow> m
      | Some n \<Rightarrow> set_queued n False m\<lparr>fm_heap := (fm_heap m)(FifoNode n := null_dnode)\<rparr>)"

text \<open>The critical section of \<open>os_fifo_put\<close>; its early exits are return codes.\<close>

definition fifo_put_section ::
  "'q \<Rightarrow> 'n \<Rightarrow> ('q, 'n, 's) fifo_mem \<Rightarrow> (int \<times> ('q, 'n, 's) fifo_mem) option" where
  "fifo_put_section q n m =
     (if fm_queued m n then Some (- EBUSY, m)
      else if ff_count (fm_fifo m q) \<ge> UINT16_MAX then Some (- ENOSPC, m)
      else do {
        let m = set_queued n True m;
        h \<leftarrow> sys_dlist_append (FifoList q) (FifoNode n) (fm_heap m);
        Some (0, upd_fifo q (\<lambda>f. f\<lparr>ff_count := ff_count f + 1\<rparr>) (m\<lparr>fm_heap := h\<rparr>))
      })"

definition fifo_give :: "'s sem_ops \<Rightarrow> bool \<Rightarrow> 'q \<Rightarrow> ('q, 'n, 's) fifo_mem \<Rightarrow> ('q, 'n, 's) fifo_mem" where
  "fifo_give S isr q = upd_fifo q (\<lambda>f. f\<lparr>ff_items := sem_give S isr (ff_items f)\<rparr>)"

definition os_fifo_put ::
  "'s sem_ops \<Rightarrow> bool \<Rightarrow> 'q option \<Rightarrow> 'n option \<Rightarrow> ('q, 'n, 's) fifo_mem \<Rightarrow>
   (int \<times> ('q, 'n, 's) fifo_mem) option" where
  "os_fifo_put S isr fifo node m =
     (case (fifo, node) of
        (Some q, Some n) \<Rightarrow>
          if \<not> ff_initialized (fm_fifo m q) then Some (- EINVAL, m)
          else do {
            (r, m) \<leftarrow> fifo_put_section q n m;
            if r \<noteq> 0 then Some (r, m) else Some (0, fifo_give S isr q m)
          }
      | _ \<Rightarrow> Some (- EINVAL, m))"

text \<open>The critical section of \<open>os_fifo_get\<close>; the second component is the entry it stores.\<close>

definition fifo_get_section ::
  "'q \<Rightarrow> ('q, 'n, 's) fifo_mem \<Rightarrow> (int \<times> 'n option \<times> ('q, 'n, 's) fifo_mem) option" where
  "fifo_get_section q m = do {
     (entry, h) \<leftarrow> sys_dlist_get (FifoList q) (fm_heap m);
     let m = m\<lparr>fm_heap := h\<rparr>;
     (case entry of
        None \<Rightarrow> Some (- EAGAIN, None, m)
      | Some (FifoNode n) \<Rightarrow>
          Some (0, Some n, upd_fifo q (\<lambda>f. f\<lparr>ff_count := ff_count f - 1\<rparr>) (set_queued n False m))
      | Some (FifoList _) \<Rightarrow> None)
   }"

text \<open>
  The out-parameter \<open>node\<close> is a pointer to the caller's variable: \<open>None\<close> for NULL, otherwise
  the value of that variable, which the call returns updated.
\<close>

definition os_fifo_get ::
  "'s sem_ops \<Rightarrow> bool \<Rightarrow> 'q option \<Rightarrow> 'n option option \<Rightarrow> u32 \<Rightarrow> ('q, 'n, 's) fifo_mem \<Rightarrow>
   (int \<times> 'n option option \<times> ('q, 'n, 's) fifo_mem) option" where
  "os_fifo_get S isr fifo node timeout m =
     (case (fifo, node) of
        (Some q, Some out) \<Rightarrow>
          if \<not> ff_initialized (fm_fifo m q) then Some (- EINVAL, node, m)
          else
            let (result, items) = sem_take S isr (ff_items (fm_fifo m q)) timeout;
                m = upd_fifo q (\<lambda>f. f\<lparr>ff_items := items\<rparr>) m
            in if result \<noteq> 0 then Some (result, node, m)
               else do {
                 (r, entry, m) \<leftarrow> fifo_get_section q m;
                 Some (r, Some (if r = 0 then entry else out), m)
               }
      | _ \<Rightarrow> Some (- EINVAL, node, m))"

lemma upd_fifo_simps [simp]:
  "fm_heap (upd_fifo q f m) = fm_heap m" "fm_queued (upd_fifo q f m) = fm_queued m"
  "fm_fifo (upd_fifo q f m) = (fm_fifo m)(q := f (fm_fifo m q))"
  "upd_fifo q f (m\<lparr>fm_heap := h\<rparr>) = upd_fifo q f m\<lparr>fm_heap := h\<rparr>"
  by (simp_all add: upd_fifo_def)

lemma set_queued_simps [simp]:
  "fm_heap (set_queued n b m) = fm_heap m" "fm_fifo (set_queued n b m) = fm_fifo m"
  "fm_queued (set_queued n b m) = (fm_queued m)(n := b)"
  by (simp_all add: set_queued_def)

lemma fifo_give_simps [simp]:
  "fm_heap (fifo_give S isr q m) = fm_heap m" "fm_queued (fifo_give S isr q m) = fm_queued m"
  "fm_fifo (fifo_give S isr q m) =
     (fm_fifo m)(q := (fm_fifo m q)\<lparr>ff_items := sem_give S isr (ff_items (fm_fifo m q))\<rparr>)"
  by (simp_all add: fifo_give_def)

section \<open>What the memory represents\<close>

interpretation fifos: dlist_family FifoList FifoNode
  by unfold_locales auto

text \<open>
  \<open>xs q\<close> is the sequence of nodes in FIFO \<open>q\<close>, for the initialised FIFOs \<open>Q\<close>. A node is
  marked queued exactly when it is in one of them, and it is in at most one.
\<close>

definition fifo_at :: "('q, 'n, 's) fifo_mem \<Rightarrow> 'q \<Rightarrow> 'n list \<Rightarrow> bool" where
  "fifo_at m q ns \<longleftrightarrow>
     ff_initialized (fm_fifo m q) \<and> unat (ff_count (fm_fifo m q)) = length ns \<and> length ns \<le> 65535"

definition fifo_shape :: "'q set \<Rightarrow> ('q \<Rightarrow> 'n list) \<Rightarrow> ('q, 'n, 's) fifo_mem \<Rightarrow> bool" where
  "fifo_shape Q xs m \<longleftrightarrow>
     dlists_rep FifoList FifoNode Q xs (fm_heap m)
     \<and> (\<forall>q \<in> Q. fifo_at m q (xs q))
     \<and> (\<forall>n. fm_queued m n \<longleftrightarrow> (\<exists>q \<in> Q. n \<in> set (xs q)))"

lemma fifo_shape_items [simp]:
  "fifo_shape Q xs (upd_fifo q (\<lambda>f. f\<lparr>ff_items := g f\<rparr>) m) = fifo_shape Q xs m"
  by (auto simp: fifo_shape_def fifo_at_def)

lemma fifo_shape_give [simp]: "fifo_shape Q xs (fifo_give S isr q m) = fifo_shape Q xs m"
  by (simp add: fifo_give_def)

lemma fifo_shapeD:
  assumes "fifo_shape Q xs m" "p \<in> Q"
  shows "fifo_at m p (xs p)" and "n \<in> set (xs p) \<Longrightarrow> fm_queued m n" and "distinct (xs p)"
    and "q \<in> Q \<Longrightarrow> p \<noteq> q \<Longrightarrow> set (xs p) \<inter> set (xs q) = {}"
    and "unat (ff_count (fm_fifo m p)) = length (xs p)" and "length (xs p) \<le> 65535"
  using assms fifos.dlists_distinct [of Q xs "fm_heap m" p]
  by (auto simp: fifo_shape_def dlists_rep_def fifo_at_def)

text \<open>One FIFO changes: its list, its count and the marks of its nodes.\<close>

lemma fifo_shape_update:
  assumes shape: "fifo_shape Q xs m" and q: "q \<in> Q" "fifo_at m' q ys"
    and lists: "dlists_rep FifoList FifoNode Q (xs(q := ys)) (fm_heap m')"
    and other: "\<And>p. p \<noteq> q \<Longrightarrow> fm_fifo m' p = fm_fifo m p"
    and queued: "\<And>k. fm_queued m' k \<longleftrightarrow>
                   k \<in> set ys \<or> (fm_queued m k \<and> k \<notin> set (xs q))"
  shows "fifo_shape Q (xs(q := ys)) m'"
proof -
  have "fm_queued m' k \<longleftrightarrow> (\<exists>p\<in>Q. k \<in> set ((xs(q := ys)) p))" for k
  proof
    assume "fm_queued m' k"
    with queued [of k] consider "k \<in> set ys" | p where "p \<in> Q" "k \<in> set (xs p)" "p \<noteq> q"
      using shape by (auto simp: fifo_shape_def)
    then show "\<exists>p\<in>Q. k \<in> set ((xs(q := ys)) p)"
    proof cases
      case 1
      with q(1) show ?thesis by (intro bexI [of _ q]) simp
    next
      case 2
      then show ?thesis by (intro bexI [of _ p]) simp
    qed
  next
    assume "\<exists>p\<in>Q. k \<in> set ((xs(q := ys)) p)"
    then obtain p where p: "p \<in> Q" "k \<in> set ((xs(q := ys)) p)" by blast
    then show "fm_queued m' k"
      using fifo_shapeD(2) [OF shape p(1), of k] fifo_shapeD(4) [OF shape p(1), of q] q(1) queued [of k]
      by (cases "p = q") auto
  qed
  then show ?thesis using shape q lists other by (auto simp: fifo_shape_def fifo_at_def)
qed

text \<open>A put of a free node into a FIFO with room appends it.\<close>

lemma fifo_put_section_append:
  assumes shape: "fifo_shape Q xs m" and q: "q \<in> Q" and free: "\<not> fm_queued m n"
    and room: "length (xs q) < 65535"
  shows "\<exists>m'. fifo_put_section q n m = Some (0, m') \<and> fifo_shape Q (xs(q := xs q @ [n])) m'
     \<and> (\<forall>p. ff_items (fm_fifo m' p) = ff_items (fm_fifo m p))"
proof -
  have lists: "dlists_rep FifoList FifoNode Q xs (fm_heap m)" using shape by (simp add: fifo_shape_def)
  have "n \<notin> set (xs p)" if "p \<in> Q" for p using fifo_shapeD(2) [OF shape that] free by blast
  then obtain h where h: "sys_dlist_append (FifoList q) (FifoNode n) (fm_heap m) = Some h"
      "dlists_rep FifoList FifoNode Q (xs(q := xs q @ [n])) h"
    using fifos.dlists_append [OF lists q] by blast
  let ?m = "upd_fifo q (\<lambda>f. f\<lparr>ff_count := ff_count f + 1\<rparr>) (set_queued n True m)\<lparr>fm_heap := h\<rparr>"
  note cnt = fifo_shapeD(5) [OF shape q]
  then have below: "ff_count (fm_fifo m q) < UINT16_MAX"
    using room by (simp add: word_less_nat_alt UINT16_MAX_def)
  then have "fifo_at ?m q (xs q @ [n])"
    using fifo_shapeD(1) [OF shape q] cnt room by (simp add: fifo_at_def unat_inc_less)
  then have "fifo_shape Q (xs(q := xs q @ [n])) ?m"
    by (rule fifo_shape_update [OF shape q])
      (use h(2) fifo_shapeD(2) [OF shape q] in auto)
  moreover have "fifo_put_section q n m = Some (0, ?m)"
    using free below h(1) by (simp add: fifo_put_section_def not_le)
  ultimately show ?thesis by auto
qed

lemma fifo_put_section_full:
  assumes "fifo_shape Q xs m" "q \<in> Q" "length (xs q) = 65535" "\<not> fm_queued m n"
  shows "fifo_put_section q n m = Some (- ENOSPC, m)"
  using assms fifo_shapeD(5) [OF assms(1,2)]
  by (simp add: fifo_put_section_def word_le_nat_alt UINT16_MAX_def)

text \<open>Taking a node off its FIFO, at the head or in the middle.\<close>

lemma fifo_shape_dequeue:
  assumes shape: "fifo_shape Q xs m" and q: "q \<in> Q" and split: "xs q = as @ n # bs"
    and h: "dlists_rep FifoList FifoNode Q (xs(q := as @ bs)) h"
  shows "fifo_shape Q (xs(q := as @ bs))
     (upd_fifo q (\<lambda>f. f\<lparr>ff_count := ff_count f - 1\<rparr>) (set_queued n False (m\<lparr>fm_heap := h\<rparr>)))"
    (is "fifo_shape Q _ ?m")
proof -
  have "ff_count (fm_fifo m q) \<noteq> 0" using fifo_shapeD(5) [OF shape q] split by auto
  then have at: "fifo_at ?m q (as @ bs)"
    using fifo_shapeD(1) [OF shape q] split by (simp add: fifo_at_def unat_dec)
  have dist: "n \<notin> set (as @ bs)" using fifo_shapeD(3) [OF shape q] split by auto
  show ?thesis
    by (rule fifo_shape_update [OF shape q at])
      (use h dist split fifo_shapeD(2) [OF shape q] in auto)
qed

text \<open>A get from a FIFO that is not empty removes its first node.\<close>

lemma fifo_get_section_head:
  assumes shape: "fifo_shape Q xs m" and q: "q \<in> Q" and ns: "xs q = n # ns"
  shows "\<exists>m'. fifo_get_section q m = Some (0, Some n, m') \<and> fifo_shape Q (xs(q := ns)) m'
     \<and> (\<forall>p. ff_items (fm_fifo m' p) = ff_items (fm_fifo m p))"
proof -
  have "dlists_rep FifoList FifoNode Q xs (fm_heap m)" using shape by (simp add: fifo_shape_def)
  then obtain h where h: "sys_dlist_get (FifoList q) (fm_heap m) = Some (Some (FifoNode n), h)"
      "dlists_rep FifoList FifoNode Q (xs(q := ns)) h"
    using fifos.dlists_get [of Q xs "fm_heap m" q n ns] q ns by blast
  let ?m = "upd_fifo q (\<lambda>f. f\<lparr>ff_count := ff_count f - 1\<rparr>) (set_queued n False (m\<lparr>fm_heap := h\<rparr>))"
  have "fifo_shape Q (xs(q := ns)) ?m"
    using fifo_shape_dequeue [OF shape q, of "[]" n ns h] ns h(2) by simp
  moreover have "fifo_get_section q m = Some (0, Some n, ?m)"
    using h(1) by (simp add: fifo_get_section_def)
  ultimately show ?thesis by auto
qed

lemma fifo_get_section_empty:
  assumes "fifo_shape Q xs m" "q \<in> Q" "xs q = []"
  shows "fifo_get_section q m = Some (- EAGAIN, None, m)"
  using fifos.dlists_get_empty [of Q xs "fm_heap m" q] assms
  by (simp add: fifo_get_section_def fifo_shape_def)

section \<open>The calls over a semaphore that keeps its contract\<close>

definition fifo_inv ::
  "('s \<Rightarrow> bool) \<Rightarrow> ('s \<Rightarrow> nat) \<Rightarrow> ('s \<Rightarrow> nat) \<Rightarrow> 'q set \<Rightarrow> ('q \<Rightarrow> 'n list) \<Rightarrow>
   ('q, 'n, 's) fifo_mem \<Rightarrow> bool" where
  "fifo_inv live cnt lim Q xs m \<longleftrightarrow>
     fifo_shape Q xs m
     \<and> (\<forall>q \<in> Q. live (ff_items (fm_fifo m q)) \<and> lim (ff_items (fm_fifo m q)) = 65535
              \<and> cnt (ff_items (fm_fifo m q)) = length (xs q))"

lemma fifo_shape_length: "fifo_shape Q xs m \<Longrightarrow> q \<in> Q \<Longrightarrow> length (xs q) \<le> 65535"
  by (simp add: fifo_shape_def fifo_at_def)

lemma fifo_shape_initialized: "fifo_shape Q xs m \<Longrightarrow> q \<in> Q \<Longrightarrow> ff_initialized (fm_fifo m q)"
  by (simp add: fifo_shape_def fifo_at_def)

text \<open>Initialising a list of FIFOs one after the other, all of them successfully.\<close>

fun fifo_init_all :: "'s sem_ops \<Rightarrow> 'q list \<Rightarrow> ('q, 'n, 's) fifo_mem \<Rightarrow> ('q, 'n, 's) fifo_mem option" where
  "fifo_init_all S [] m = Some m"
| "fifo_init_all S (q # qs) m =
     (case os_fifo_init S (Some q) m of (r, m') \<Rightarrow> if r = 0 then fifo_init_all S qs m' else None)"

lemma fifo_init_memory:
  assumes init: "os_fifo_init S (Some q) m = (0, m')"
  shows "\<exists>items. sem_init S (sem_zero S) 0 UINT16_MAX = (0, items) \<and> fm_queued m' = fm_queued m
     \<and> fm_heap m' = sys_dlist_init (FifoList q) ((fm_heap m)(FifoList q := null_dnode))
     \<and> fm_fifo m' = (fm_fifo m)(q := \<lparr>ff_items = items, ff_count = 0, ff_initialized = True\<rparr>)"
proof -
  obtain items where items: "sem_init S (sem_zero S) 0 UINT16_MAX = (0, items)"
    using init by (auto simp: os_fifo_init_def fifo_zero_at_def os_fifo_zero_def Let_def
        split: if_splits prod.splits)
  then show ?thesis
    using init by (auto simp: os_fifo_init_def fifo_zero_at_def os_fifo_zero_def)
qed

lemma fifo_init_shape:
  assumes shape: "fifo_shape Q (\<lambda>_. []) m" and init: "os_fifo_init S (Some q) m = (0, m')"
  shows "fifo_shape (insert q Q) (\<lambda>_. []) m'"
proof -
  obtain items where m': "fm_queued m' = fm_queued m"
      "fm_heap m' = sys_dlist_init (FifoList q) ((fm_heap m)(FifoList q := null_dnode))"
      "fm_fifo m' = (fm_fifo m)(q := \<lparr>ff_items = items, ff_count = 0, ff_initialized = True\<rparr>)"
    using fifo_init_memory [OF init] by blast
  have "dlists_rep FifoList FifoNode (insert q Q) ((\<lambda>_. [])(q := [])) (fm_heap m')"
  proof (rule fifos.dlists_init [of Q _ "fm_heap m"])
    show "dlists_rep FifoList FifoNode Q (\<lambda>_. []) (fm_heap m)"
      using shape by (simp add: fifo_shape_def)
    show "dlist_rep (fm_heap m') (FifoList q) []" by (simp add: m' dlist_rep_init)
  qed (simp add: m' sys_dlist_init_def)
  then have "dlists_rep FifoList FifoNode (insert q Q) (\<lambda>_. []) (fm_heap m')"
    by (simp add: fun_upd_idem)
  moreover have "fifo_at m' p []" if "p = q \<or> p \<in> Q" for p
    using shape that by (auto simp: fifo_shape_def fifo_at_def m')
  ultimately show ?thesis
    using shape by (simp add: fifo_shape_def m')
qed

context os_sem_contract begin

abbreviation ff_inv :: "'q set \<Rightarrow> ('q \<Rightarrow> 'n list) \<Rightarrow> ('q, 'n, 's) fifo_mem \<Rightarrow> bool" where
  "ff_inv \<equiv> fifo_inv live cnt lim"

lemma fifo_init_step:
  assumes inv: "ff_inv Q (\<lambda>_. []) m" and init: "os_fifo_init S (Some q) m = (0, m')"
  shows "ff_inv (insert q Q) (\<lambda>_. []) m'"
proof -
  obtain items where items: "sem_init S (sem_zero S) 0 UINT16_MAX = (0, items)"
      "fm_fifo m' = (fm_fifo m)(q := \<lparr>ff_items = items, ff_count = 0, ff_initialized = True\<rparr>)"
    using fifo_init_memory [OF init] by blast
  then show ?thesis
    using inv init_ok [OF items(1)] fifo_init_shape [OF _ init, of Q]
    by (auto simp: fifo_inv_def UINT16_MAX_def)
qed

lemma fifo_init_all_inv:
  assumes "fifo_init_all S qs m = Some m'" "ff_inv Q (\<lambda>_. []) m"
  shows "ff_inv (Q \<union> set qs) (\<lambda>_. []) m'"
  using assms
proof (induction qs arbitrary: Q m)
  case Nil
  then show ?case by simp
next
  case (Cons q qs)
  obtain m1 where "os_fifo_init S (Some q) m = (0, m1)" "fifo_init_all S qs m1 = Some m'"
    using Cons.prems(1) by (auto split: prod.splits if_splits)
  then show ?case
    using Cons.IH [of m1 "insert q Q"] fifo_init_step [OF Cons.prems(2)] by simp
qed

lemma fifo_init_all_start:
  assumes "fifo_init_all S qs m = Some m'" "\<And>n. \<not> fm_queued m n"
  shows "ff_inv (set qs) (\<lambda>_. []) m'"
  using fifo_init_all_inv [OF assms(1), of "{}"] assms(2) by (simp add: fifo_inv_def fifo_shape_def dlists_rep_def)

lemma fifo_put_appends:
  assumes inv: "ff_inv Q xs m" and q: "q \<in> Q" and free: "\<not> fm_queued m n"
    and room: "length (xs q) < 65535"
  shows "\<exists>m'. os_fifo_put S isr (Some q) (Some n) m = Some (0, m') \<and> ff_inv Q (xs(q := xs q @ [n])) m'"
proof -
  have shape: "fifo_shape Q xs m" using inv by (simp add: fifo_inv_def)
  obtain m' where m': "fifo_put_section q n m = Some (0, m')" "fifo_shape Q (xs(q := xs q @ [n])) m'"
      "\<And>p. ff_items (fm_fifo m' p) = ff_items (fm_fifo m p)"
    using fifo_put_section_append [OF shape q free room] by blast
  have "os_fifo_put S isr (Some q) (Some n) m = Some (0, fifo_give S isr q m')"
    using m'(1) fifo_shape_initialized [OF shape q] by (simp add: os_fifo_put_def)
  moreover have "ff_inv Q (xs(q := xs q @ [n])) (fifo_give S isr q m')"
    using inv q room m'(2,3) give_below [of "ff_items (fm_fifo m q)" isr]
    by (simp add: fifo_inv_def)
  ultimately show ?thesis by blast
qed

lemma fifo_put_refused:
  assumes inv: "ff_inv Q xs m" and q: "q \<in> Q"
  shows "fm_queued m n \<Longrightarrow> os_fifo_put S isr (Some q) (Some n) m = Some (- EBUSY, m)"
    and "\<not> fm_queued m n \<Longrightarrow> length (xs q) \<ge> 65535 \<Longrightarrow>
           os_fifo_put S isr (Some q) (Some n) m = Some (- ENOSPC, m)"
proof -
  have shape: "fifo_shape Q xs m" using inv by (simp add: fifo_inv_def)
  note init = fifo_shape_initialized [OF shape q]
  show "os_fifo_put S isr (Some q) (Some n) m = Some (- EBUSY, m)" if "fm_queued m n"
    using init that by (simp add: os_fifo_put_def fifo_put_section_def)
  show "os_fifo_put S isr (Some q) (Some n) m = Some (- ENOSPC, m)"
    if "\<not> fm_queued m n" "length (xs q) \<ge> 65535"
    using init fifo_put_section_full [OF shape q _ that(1)] fifo_shape_length [OF shape q] that(2)
    by (simp add: os_fifo_put_def)
qed

lemma fifo_get_takes_head:
  assumes inv: "ff_inv Q xs m" and q: "q \<in> Q" and ns: "xs q = n # ns" and wait: "may_wait isr t"
  shows "\<exists>m'. os_fifo_get S isr (Some q) (Some out) t m = Some (0, Some (Some n), m')
           \<and> ff_inv Q (xs(q := ns)) m'"
proof -
  have shape: "fifo_shape Q xs m" using inv by (simp add: fifo_inv_def)
  have "live (ff_items (fm_fifo m q))" "0 < cnt (ff_items (fm_fifo m q))"
    using inv q ns by (auto simp: fifo_inv_def)
  then obtain it where take: "sem_take S isr (ff_items (fm_fifo m q)) t = (0, it)" "live it"
      "Suc (cnt it) = cnt (ff_items (fm_fifo m q))" "lim it = lim (ff_items (fm_fifo m q))"
    using take_token [OF _ wait, of "ff_items (fm_fifo m q)"] by auto
  let ?m = "upd_fifo q (\<lambda>f. f\<lparr>ff_items := it\<rparr>) m"
  have shape': "fifo_shape Q xs ?m" using shape by simp
  obtain m' where m': "fifo_get_section q ?m = Some (0, Some n, m')" "fifo_shape Q (xs(q := ns)) m'"
      "\<And>p. ff_items (fm_fifo m' p) = ff_items (fm_fifo ?m p)"
    using fifo_get_section_head [of Q xs ?m q n ns, OF shape' q ns] by blast
  have "os_fifo_get S isr (Some q) (Some out) t m = Some (0, Some (Some n), m')"
    using take(1) m'(1) fifo_shape_initialized [OF shape q] by (simp add: os_fifo_get_def)
  moreover have "ff_inv Q (xs(q := ns)) m'"
    using inv q ns take m'(2,3) by (auto simp: fifo_inv_def)
  ultimately show ?thesis by blast
qed

lemma fifo_get_nothing:
  assumes inv: "ff_inv Q xs m" and q: "q \<in> Q" and ns: "xs q = []"
  shows "\<exists>m'. os_fifo_get S isr (Some q) (Some out) 0 m = Some (- EBUSY, Some out, m') \<and> ff_inv Q xs m'"
proof -
  have shape: "fifo_shape Q xs m" using inv by (simp add: fifo_inv_def)
  have "live (ff_items (fm_fifo m q))" "cnt (ff_items (fm_fifo m q)) = 0"
    using inv q ns by (auto simp: fifo_inv_def)
  then obtain it where take: "sem_take S isr (ff_items (fm_fifo m q)) 0 = (- EBUSY, it)" "live it"
      "cnt it = 0" "lim it = lim (ff_items (fm_fifo m q))"
    using take_empty [of "ff_items (fm_fifo m q)" isr] by auto
  let ?m = "upd_fifo q (\<lambda>f. f\<lparr>ff_items := it\<rparr>) m"
  have "os_fifo_get S isr (Some q) (Some out) 0 m = Some (- EBUSY, Some out, ?m)"
    using take(1) fifo_shape_initialized [OF shape q] by (simp add: os_fifo_get_def)
  moreover have "ff_inv Q xs ?m" using inv q ns take by (auto simp: fifo_inv_def)
  ultimately show ?thesis by blast
qed

end

section \<open>Refinement of a family of bounded queues\<close>

datatype ('q, 'n) ff_op = FPut 'q 'n | FGet 'q

fun ff_op_on :: "'q set \<Rightarrow> ('q, 'n) ff_op \<Rightarrow> bool" where
  "ff_op_on Q (FPut q n) = (q \<in> Q)" | "ff_op_on Q (FGet q) = (q \<in> Q)"

fun fq_call ::
  "'q list \<Rightarrow> ('q \<Rightarrow> 'n list) \<Rightarrow> ('q, 'n) ff_op \<Rightarrow> (int \<times> 'n option) \<times> ('q \<Rightarrow> 'n list)" where
  "fq_call qs xs (FPut q n) =
     (if \<exists>p \<in> set qs. n \<in> set (xs p) then ((- EBUSY, None), xs)
      else if length (xs q) \<ge> 65535 then ((- ENOSPC, None), xs)
      else ((0, None), xs(q := xs q @ [n])))"
| "fq_call qs xs (FGet q) =
     (case xs q of [] \<Rightarrow> ((- EBUSY, None), xs) | n # ns \<Rightarrow> ((0, Some n), xs(q := ns)))"

fun fq_run ::
  "'q list \<Rightarrow> ('q \<Rightarrow> 'n list) \<Rightarrow> ('q, 'n) ff_op list \<Rightarrow> (int \<times> 'n option) list \<times> ('q \<Rightarrow> 'n list)" where
  "fq_run qs xs [] = ([], xs)"
| "fq_run qs xs (c # cs) =
     (let (r, ys) = fq_call qs xs c; (rs, zs) = fq_run qs ys cs in (r # rs, zs))"

fun fifo_call ::
  "'s sem_ops \<Rightarrow> bool \<Rightarrow> ('q, 'n, 's) fifo_mem \<Rightarrow> ('q, 'n) ff_op \<Rightarrow>
   ((int \<times> 'n option) \<times> ('q, 'n, 's) fifo_mem) option" where
  "fifo_call S isr m (FPut q n) =
     map_option (\<lambda>(r, m). ((r, None), m)) (os_fifo_put S isr (Some q) (Some n) m)"
| "fifo_call S isr m (FGet q) =
     (case os_fifo_get S isr (Some q) (Some None) 0 m of
        Some (r, Some out, m') \<Rightarrow> Some ((r, out), m') | _ \<Rightarrow> None)"

fun fifo_run ::
  "'s sem_ops \<Rightarrow> bool \<Rightarrow> ('q, 'n, 's) fifo_mem \<Rightarrow> ('q, 'n) ff_op list \<Rightarrow>
   ((int \<times> 'n option) list \<times> ('q, 'n, 's) fifo_mem) option" where
  "fifo_run S isr m [] = Some ([], m)"
| "fifo_run S isr m (c # cs) = do {
     (r, m) \<leftarrow> fifo_call S isr m c;
     (rs, m) \<leftarrow> fifo_run S isr m cs;
     Some (r # rs, m)
   }"

context os_sem_contract begin

lemma fifo_call_refines:
  assumes inv: "ff_inv (set qs) xs m" and on: "ff_op_on (set qs) c"
  shows "\<exists>m'. fifo_call S isr m c = Some (fst (fq_call qs xs c), m')
           \<and> ff_inv (set qs) (snd (fq_call qs xs c)) m'"
proof (cases c)
  case (FPut q n)
  have queued: "fm_queued m n \<longleftrightarrow> (\<exists>p \<in> set qs. n \<in> set (xs p))"
    using inv by (simp add: fifo_inv_def fifo_shape_def)
  have q: "q \<in> set qs" using on FPut by simp
  consider "fm_queued m n" | "\<not> fm_queued m n" "length (xs q) \<ge> 65535"
    | "\<not> fm_queued m n" "length (xs q) < 65535" by linarith
  then show ?thesis
  proof cases
    case 1
    then show ?thesis
      using FPut fifo_put_refused(1) [OF inv q 1, of isr] queued inv by simp
  next
    case 2
    then show ?thesis
      using FPut fifo_put_refused(2) [OF inv q 2, of isr] queued inv by simp
  next
    case 3
    then obtain m' where "os_fifo_put S isr (Some q) (Some n) m = Some (0, m')"
        "ff_inv (set qs) (xs(q := xs q @ [n])) m'"
      using fifo_put_appends [OF inv q] by blast
    with 3 FPut queued show ?thesis by simp
  qed
next
  case (FGet q)
  then have q: "q \<in> set qs" using on by simp
  show ?thesis
  proof (cases "xs q")
    case Nil
    then obtain m' where "os_fifo_get S isr (Some q) (Some None) 0 m = Some (- EBUSY, Some None, m')"
        "ff_inv (set qs) xs m'"
      using fifo_get_nothing [OF inv q] by blast
    with FGet Nil show ?thesis by simp
  next
    case (Cons n ns)
    then obtain m' where "os_fifo_get S isr (Some q) (Some None) 0 m = Some (0, Some (Some n), m')"
        "ff_inv (set qs) (xs(q := ns)) m'"
      using fifo_get_takes_head [OF inv q Cons, of isr 0] by (auto simp: may_wait_def)
    with FGet Cons show ?thesis by simp
  qed
qed

lemma fifo_run_refines:
  assumes "ff_inv (set qs) xs m" "\<forall>c \<in> set cs. ff_op_on (set qs) c"
  shows "\<exists>m'. fifo_run S isr m cs = Some (fst (fq_run qs xs cs), m')
           \<and> ff_inv (set qs) (snd (fq_run qs xs cs)) m'"
  using assms
proof (induction cs arbitrary: m xs)
  case Nil
  then show ?case by simp
next
  case (Cons c cs)
  obtain m1 where m1: "fifo_call S isr m c = Some (fst (fq_call qs xs c), m1)"
      "ff_inv (set qs) (snd (fq_call qs xs c)) m1"
    using fifo_call_refines [OF Cons.prems(1), of c isr] Cons.prems(2) by auto
  obtain m2 where "fifo_run S isr m1 cs = Some (fst (fq_run qs (snd (fq_call qs xs c)) cs), m2)"
      "ff_inv (set qs) (snd (fq_run qs (snd (fq_call qs xs c)) cs)) m2"
    using Cons.IH [OF m1(2)] Cons.prems(2) by auto
  with m1(1) show ?case by (auto simp: split_beta)
qed

end

section \<open>Properties\<close>

text \<open>C13: FIFOs are bounded queues of nodes. Over any semaphore that keeps its contract, every
  sequence of puts and non-blocking gets on a family of initialised FIFOs returns what the
  abstract queues return: first in first out per FIFO, \<open>-EBUSY\<close> for a node that is already in
  any FIFO and for an empty one, \<open>-ENOSPC\<close> at \<open>UINT16_MAX\<close> nodes. The pointers of all the
  lists stay well-formed and represent the abstract queues, and no call dereferences NULL.\<close>

theorem fifo_refines_queues:
  assumes contract: "os_sem_contract S live dead cnt lim"
    and init: "fifo_init_all S qs m0 = Some m" and fresh: "\<forall>n. \<not> fm_queued m0 n"
    and on: "\<forall>c \<in> set cs. ff_op_on (set qs) c"
  shows "\<exists>m'. fifo_run S isr m cs = Some (fst (fq_run qs (\<lambda>_. []) cs), m')
           \<and> fifo_shape (set qs) (snd (fq_run qs (\<lambda>_. []) cs)) m'"
  using os_sem_contract.fifo_run_refines [OF contract
      os_sem_contract.fifo_init_all_start [OF contract init] on, of isr] fresh
  by (auto simp: fifo_inv_def)

definition blank_fifos :: "(nat, nat, native os_sem) fifo_mem" where
  "blank_fifos = \<lparr>fm_heap = \<lambda>_. null_dnode, fm_fifo = \<lambda>_. os_fifo_zero ref_sems, fm_queued = \<lambda>_. False\<rparr>"

lemma blank_fifos_queued [simp]: "\<not> fm_queued blank_fifos n"
  by (simp add: blank_fifos_def)

lemma ref_fifo_init: "\<exists>m'. os_fifo_init ref_sems (Some q) m = (0, m')"
  by (simp add: os_fifo_init_def fifo_zero_at_def os_fifo_zero_def ref_sem_init UINT16_MAX_def)

lemma ref_fifo_init_all: "\<exists>m'. fifo_init_all ref_sems qs m = Some m'"
proof (induction qs arbitrary: m)
  case (Cons q qs)
  then show ?case using ref_fifo_init [of q m] by auto
qed simp

theorem fifo_refines_queues_witness:
  "\<exists>m m'. fifo_init_all ref_sems [0, 1] blank_fifos = Some m
     \<and> fifo_run ref_sems False m [FPut 0 7, FPut 1 8, FPut 1 7, FPut 0 9, FGet 0, FPut 1 7, FGet 0, FGet 0]
       = Some ([(0, None), (0, None), (- EBUSY, None), (0, None), (0, Some 7), (0, None),
                (0, Some 9), (- EBUSY, None)], m')"
proof -
  obtain m where m: "fifo_init_all ref_sems [0, 1] blank_fifos = Some m"
    using ref_fifo_init_all by blast
  show ?thesis
    using fifo_refines_queues [OF ref_sems_contract m, of
        "[FPut 0 7, FPut 1 8, FPut 1 7, FPut 0 9, FGet 0, FPut 1 7, FGet 0, FGet 0]" False] m
    by auto
qed

end
