(* ===== verification/Fifo_Interleaving.thy ===== *)
theory Fifo_Interleaving
  imports Fifo
begin

text \<open>
  Threads and interrupt handlers using several FIFOs at the same time. A put is its critical
  section followed by the give; a get is the take followed by its critical section.
  \<open>fs_sent q\<close> and \<open>fs_got q\<close> are ghost logs of the nodes that entered and left FIFO \<open>q\<close>;
  \<open>fs_again\<close> counts the gets that returned \<open>-EAGAIN\<close>.
\<close>

datatype 'q ff_pc = FIdle | FGive 'q | FTaken 'q

record ('q, 'n, 's) ff_sys =
  fs_mem :: "('q, 'n, 's) fifo_mem"
  fs_pcs :: "'q ff_pc list"
  fs_sent :: "'q \<Rightarrow> 'n list"
  fs_got :: "'q \<Rightarrow> 'n list"
  fs_again :: nat

definition fs_items :: "('q, 'n, 's) ff_sys \<Rightarrow> 'q \<Rightarrow> 's" where
  "fs_items s q = ff_items (fm_fifo (fs_mem s) q)"

definition set_items :: "'q \<Rightarrow> 's \<Rightarrow> ('q, 'n, 's) fifo_mem \<Rightarrow> ('q, 'n, 's) fifo_mem" where
  "set_items q it = upd_fifo q (\<lambda>f. f\<lparr>ff_items := it\<rparr>)"

inductive ff_step ::
  "'s sem_ops \<Rightarrow> ('s \<Rightarrow> nat) \<Rightarrow> 'q set \<Rightarrow> ('q, 'n, 's) ff_sys \<Rightarrow> ('q, 'n, 's) ff_sys \<Rightarrow> bool"
  for S :: "'s sem_ops" and cnt :: "'s \<Rightarrow> nat" and Q :: "'q set" where
  put_section:
  "i < length (fs_pcs s) \<Longrightarrow> fs_pcs s ! i = FIdle \<Longrightarrow> q \<in> Q \<Longrightarrow>
   fifo_put_section q n (fs_mem s) = Some (0, m) \<Longrightarrow>
   ff_step S cnt Q s (s\<lparr>fs_mem := m, fs_pcs := (fs_pcs s)[i := FGive q],
                       fs_sent := (fs_sent s)(q := fs_sent s q @ [n])\<rparr>)"
| put_give:
  "i < length (fs_pcs s) \<Longrightarrow> fs_pcs s ! i = FGive q \<Longrightarrow>
   ff_step S cnt Q s (s\<lparr>fs_mem := fifo_give S isr q (fs_mem s), fs_pcs := (fs_pcs s)[i := FIdle]\<rparr>)"
| get_take:
  "i < length (fs_pcs s) \<Longrightarrow> fs_pcs s ! i = FIdle \<Longrightarrow> q \<in> Q \<Longrightarrow> 0 < cnt (fs_items s q) \<Longrightarrow>
   sem_take S isr (fs_items s q) t = (0, it) \<Longrightarrow>
   ff_step S cnt Q s (s\<lparr>fs_mem := set_items q it (fs_mem s), fs_pcs := (fs_pcs s)[i := FTaken q]\<rparr>)"
| get_fail:
  "i < length (fs_pcs s) \<Longrightarrow> fs_pcs s ! i = FIdle \<Longrightarrow> q \<in> Q \<Longrightarrow>
   sem_take S isr (fs_items s q) t = (r, it) \<Longrightarrow> r \<noteq> 0 \<Longrightarrow>
   ff_step S cnt Q s (s\<lparr>fs_mem := set_items q it (fs_mem s)\<rparr>)"
| get_section:
  "i < length (fs_pcs s) \<Longrightarrow> fs_pcs s ! i = FTaken q \<Longrightarrow>
   fifo_get_section q (fs_mem s) = Some (0, Some n, m) \<Longrightarrow>
   ff_step S cnt Q s (s\<lparr>fs_mem := m, fs_pcs := (fs_pcs s)[i := FIdle],
                       fs_got := (fs_got s)(q := fs_got s q @ [n])\<rparr>)"
| get_again:
  "i < length (fs_pcs s) \<Longrightarrow> fs_pcs s ! i = FTaken q \<Longrightarrow>
   fifo_get_section q (fs_mem s) = Some (- EAGAIN, e, m) \<Longrightarrow>
   ff_step S cnt Q s (s\<lparr>fs_mem := m, fs_pcs := (fs_pcs s)[i := FIdle],
                       fs_again := Suc (fs_again s)\<rparr>)"

text \<open>Reachable from freshly initialised FIFOs with no node queued and no thread inside.\<close>

inductive ff_reachable :: "'s sem_ops \<Rightarrow> ('s \<Rightarrow> nat) \<Rightarrow> 'q set \<Rightarrow> ('q, 'n, 's) ff_sys \<Rightarrow> bool"
  for S :: "'s sem_ops" and cnt :: "'s \<Rightarrow> nat" and Q :: "'q set" where
  start:
  "fifo_init_all S qs m0 = Some m \<Longrightarrow> Q = set qs \<Longrightarrow> (\<And>n. \<not> fm_queued m0 n) \<Longrightarrow>
   ff_reachable S cnt Q \<lparr>fs_mem = m, fs_pcs = replicate k FIdle, fs_sent = \<lambda>_. [],
                         fs_got = \<lambda>_. [], fs_again = 0\<rparr>"
| step: "ff_reachable S cnt Q s \<Longrightarrow> ff_step S cnt Q s s' \<Longrightarrow> ff_reachable S cnt Q s'"

fun pc_on :: "'q set \<Rightarrow> 'q ff_pc \<Rightarrow> bool" where
  "pc_on Q FIdle = True" | "pc_on Q (FGive q) = (q \<in> Q)" | "pc_on Q (FTaken q) = (q \<in> Q)"

lemma pcs_on_update: "list_all (pc_on Q) pcs \<Longrightarrow> pc_on Q x \<Longrightarrow> list_all (pc_on Q) (pcs[i := x])"
  by (auto simp: list_all_iff dest!: set_update_subset_insert [THEN subsetD])

definition at_give :: "('q, 'n, 's) ff_sys \<Rightarrow> 'q \<Rightarrow> nat" where
  "at_give s q = count_at (\<lambda>p. p = FGive q) (fs_pcs s)"

definition at_taken :: "('q, 'n, 's) ff_sys \<Rightarrow> 'q \<Rightarrow> nat" where
  "at_taken s q = count_at (\<lambda>p. p = FTaken q) (fs_pcs s)"

text \<open>
  Every queued node has a token in the semaphore, a put about to give it, or a get that took it.
\<close>

definition ff_sys_inv ::
  "('s \<Rightarrow> bool) \<Rightarrow> ('s \<Rightarrow> nat) \<Rightarrow> ('s \<Rightarrow> nat) \<Rightarrow> 'q set \<Rightarrow> ('q \<Rightarrow> 'n list) \<Rightarrow>
   ('q, 'n, 's) ff_sys \<Rightarrow> bool" where
  "ff_sys_inv live cnt lim Q xs s \<longleftrightarrow>
     fifo_shape Q xs (fs_mem s) \<and> list_all (pc_on Q) (fs_pcs s) \<and> fs_again s = 0
     \<and> (\<forall>q \<in> Q. live (fs_items s q) \<and> lim (fs_items s q) = 65535
          \<and> cnt (fs_items s q) + at_give s q + at_taken s q = length (xs q)
          \<and> fs_sent s q = fs_got s q @ xs q)"

lemma at_move:
  assumes "i < length (fs_pcs s)" "fs_pcs s' = (fs_pcs s)[i := x]"
  shows "at_give s' q + of_bool (fs_pcs s ! i = FGive q) = at_give s q + of_bool (x = FGive q)"
    and "at_taken s' q + of_bool (fs_pcs s ! i = FTaken q) = at_taken s q + of_bool (x = FTaken q)"
  using assms count_at_update [OF assms(1), of "\<lambda>p. p = FGive q" x]
    count_at_update [OF assms(1), of "\<lambda>p. p = FTaken q" x]
  by (simp_all add: at_give_def at_taken_def)

lemma fs_items_simps [simp]:
  "fs_items (s\<lparr>fs_pcs := p\<rparr>) = fs_items s" "fs_items (s\<lparr>fs_sent := a\<rparr>) = fs_items s"
  "fs_items (s\<lparr>fs_got := a\<rparr>) = fs_items s" "fs_items (s\<lparr>fs_again := n\<rparr>) = fs_items s"
  "fs_items (s\<lparr>fs_mem := m\<rparr>) q = ff_items (fm_fifo m q)"
  by (auto simp: fs_items_def)

lemma set_items_simps [simp]:
  "fifo_shape Q xs (set_items q it m) = fifo_shape Q xs m"
  "ff_items (fm_fifo (set_items q it m) p) = (if p = q then it else ff_items (fm_fifo m p))"
  by (simp_all add: set_items_def)

lemma at_simps [simp]:
  "at_give (s\<lparr>fs_mem := m\<rparr>) = at_give s" "at_taken (s\<lparr>fs_mem := m\<rparr>) = at_taken s"
  "at_give (s\<lparr>fs_sent := a\<rparr>) = at_give s" "at_taken (s\<lparr>fs_sent := a\<rparr>) = at_taken s"
  "at_give (s\<lparr>fs_got := a\<rparr>) = at_give s" "at_taken (s\<lparr>fs_got := a\<rparr>) = at_taken s"
  by (auto simp: at_give_def at_taken_def)

context os_sem_contract begin

abbreviation fs_inv :: "'q set \<Rightarrow> ('q \<Rightarrow> 'n list) \<Rightarrow> ('q, 'n, 's) ff_sys \<Rightarrow> bool" where
  "fs_inv \<equiv> ff_sys_inv live cnt lim"

lemma fs_room: "fs_inv Q xs s \<Longrightarrow> q \<in> Q \<Longrightarrow> length (xs q) \<le> 65535"
  by (auto simp: ff_sys_inv_def intro: fifo_shape_length)

text \<open>A get that took its token always finds a node.\<close>

lemma fs_taken_section:
  assumes inv: "fs_inv Q xs s" and i: "i < length (fs_pcs s)" "fs_pcs s ! i = FTaken q"
  shows "\<exists>n ns m. q \<in> Q \<and> xs q = n # ns \<and> fifo_get_section q (fs_mem s) = Some (0, Some n, m)
     \<and> fifo_shape Q (xs(q := ns)) m \<and> (\<forall>p. ff_items (fm_fifo m p) = fs_items s p)"
proof -
  have q: "q \<in> Q" using inv i by (auto simp: ff_sys_inv_def list_all_length)
  have "0 < at_taken s q" unfolding at_taken_def using i by (intro count_at_pos) auto
  then obtain n ns where ns: "xs q = n # ns"
    using inv q by (cases "xs q") (auto simp: ff_sys_inv_def)
  have "fifo_shape Q xs (fs_mem s)" using inv by (simp add: ff_sys_inv_def)
  from fifo_get_section_head [of Q xs "fs_mem s" q n ns, OF this q ns] q ns
  show ?thesis by (auto simp: fs_items_def)
qed

lemma fs_put_step:
  assumes inv: "fs_inv Q xs s" and i: "i < length (fs_pcs s)" "fs_pcs s ! i = FIdle" and q: "q \<in> Q"
    and put: "fifo_put_section q n (fs_mem s) = Some (0, m)"
  shows "fs_inv Q (xs(q := xs q @ [n])) (s\<lparr>fs_mem := m, fs_pcs := (fs_pcs s)[i := FGive q],
            fs_sent := (fs_sent s)(q := fs_sent s q @ [n])\<rparr>)" (is "fs_inv Q ?xs ?s")
proof -
  have shape: "fifo_shape Q xs (fs_mem s)" using inv by (simp add: ff_sys_inv_def)
  have free: "\<not> fm_queued (fs_mem s) n" using put by (auto simp: fifo_put_section_def)
  have room: "length (xs q) < 65535"
    using fifo_put_section_full [OF shape q _ free] fs_room [OF inv q] put
    by (cases "length (xs q) = 65535") auto
  have m: "fifo_shape Q ?xs m" "\<And>p. ff_items (fm_fifo m p) = fs_items s p"
    using fifo_put_section_append [OF shape q free room] put by (auto simp: fs_items_def)
  have moves: "at_give ?s p = at_give s p + of_bool (q = p)" "at_taken ?s p = at_taken s p" for p
    using at_move [OF i(1), of ?s "FGive q" p] i(2) by simp_all
  show ?thesis
    unfolding ff_sys_inv_def moves
    using inv m i q by (simp add: ff_sys_inv_def pcs_on_update)
qed

lemma fs_get_step:
  assumes inv: "fs_inv Q xs s" and i: "i < length (fs_pcs s)" "fs_pcs s ! i = FTaken q"
    and q: "q \<in> Q" "xs q = n # ns"
    and m: "fifo_shape Q (xs(q := ns)) m" "\<And>p. ff_items (fm_fifo m p) = fs_items s p"
  shows "fs_inv Q (xs(q := ns)) (s\<lparr>fs_mem := m, fs_pcs := (fs_pcs s)[i := FIdle],
            fs_got := (fs_got s)(q := fs_got s q @ [n])\<rparr>)" (is "fs_inv Q ?xs ?s")
proof -
  have moves: "at_give ?s p = at_give s p" "at_taken ?s p + of_bool (q = p) = at_taken s p" for p
    using at_move [OF i(1), of ?s FIdle p] i(2) by simp_all
  have "cnt (fs_items s p) + at_give s p + at_taken ?s p = length (?xs p)
      \<and> fs_sent s p = (if p = q then fs_got s q @ [n] else fs_got s p) @ ?xs p"
    if "p \<in> Q" for p
    using inv that q moves(2) [of p] by (cases "p = q") (auto simp: ff_sys_inv_def)
  then show ?thesis
    unfolding ff_sys_inv_def moves(1)
    using inv m i q by (simp add: ff_sys_inv_def pcs_on_update)
qed

lemma fs_token_steps:
  assumes inv: "fs_inv Q xs s" and i: "i < length (fs_pcs s)"
  shows "fs_pcs s ! i = FGive q \<Longrightarrow>
      fs_inv Q xs (s\<lparr>fs_mem := fifo_give S isr q (fs_mem s), fs_pcs := (fs_pcs s)[i := FIdle]\<rparr>)"
    and "fs_pcs s ! i = FIdle \<Longrightarrow> q \<in> Q \<Longrightarrow> 0 < cnt (fs_items s q) \<Longrightarrow>
      sem_take S isr (fs_items s q) t = (0, it) \<Longrightarrow>
      fs_inv Q xs (s\<lparr>fs_mem := set_items q it (fs_mem s), fs_pcs := (fs_pcs s)[i := FTaken q]\<rparr>)"
    and "q \<in> Q \<Longrightarrow> sem_take S isr (fs_items s q) t = (r, it) \<Longrightarrow> r \<noteq> 0 \<Longrightarrow>
      fs_inv Q xs (s\<lparr>fs_mem := set_items q it (fs_mem s)\<rparr>)"
proof -
  assume pc: "fs_pcs s ! i = FGive q"
  let ?s = "s\<lparr>fs_mem := fifo_give S isr q (fs_mem s), fs_pcs := (fs_pcs s)[i := FIdle]\<rparr>"
  have q: "q \<in> Q" using inv i pc by (auto simp: ff_sys_inv_def list_all_length)
  have pos: "0 < at_give s q" unfolding at_give_def using i pc by (intro count_at_pos) auto
  have "live (fs_items s q)" "cnt (fs_items s q) < lim (fs_items s q)"
    using inv q pos fs_room [OF inv q] by (auto simp: ff_sys_inv_def)
  note give = give_below [OF this, of isr]
  have moves: "at_give ?s p + of_bool (q = p) = at_give s p" "at_taken ?s p = at_taken s p" for p
    using at_move [OF i, of ?s FIdle p] pc by simp_all
  have "live (fs_items ?s p) \<and> lim (fs_items ?s p) = 65535
      \<and> cnt (fs_items ?s p) + at_give ?s p + at_taken s p = length (xs p)" if "p \<in> Q" for p
    using inv that give moves(1) [of p] by (cases "p = q") (auto simp: ff_sys_inv_def fs_items_def)
  then show "fs_inv Q xs ?s"
    unfolding ff_sys_inv_def moves(2)
    using inv i by (simp add: ff_sys_inv_def pcs_on_update)
next
  assume pc: "fs_pcs s ! i = FIdle" and q: "q \<in> Q" and token: "0 < cnt (fs_items s q)"
    and take: "sem_take S isr (fs_items s q) t = (0, it)"
  let ?s = "s\<lparr>fs_mem := set_items q it (fs_mem s), fs_pcs := (fs_pcs s)[i := FTaken q]\<rparr>"
  have "live (fs_items s q)" using inv q by (simp add: ff_sys_inv_def)
  note took = take_succeeds [OF this token take]
  have moves: "at_give ?s p = at_give s p" "at_taken ?s p = at_taken s p + of_bool (q = p)" for p
    using at_move [OF i, of ?s "FTaken q" p] pc by simp_all
  have "live (fs_items ?s p) \<and> lim (fs_items ?s p) = 65535
      \<and> cnt (fs_items ?s p) + at_give s p + at_taken ?s p = length (xs p)" if "p \<in> Q" for p
    using inv that took moves(2) [of p] by (cases "p = q") (auto simp: ff_sys_inv_def fs_items_def)
  then show "fs_inv Q xs ?s"
    unfolding ff_sys_inv_def moves(1)
    using inv i q by (simp add: ff_sys_inv_def pcs_on_update)
next
  assume q: "q \<in> Q" and take: "sem_take S isr (fs_items s q) t = (r, it)" "r \<noteq> 0"
  have "live (fs_items s q)" using inv q by (simp add: ff_sys_inv_def)
  from take_fails [OF this take] show "fs_inv Q xs (s\<lparr>fs_mem := set_items q it (fs_mem s)\<rparr>)"
    using inv by (auto simp: ff_sys_inv_def fs_items_def)
qed

lemma ff_step_inv: "ff_step S cnt Q s s' \<Longrightarrow> fs_inv Q xs s \<Longrightarrow> \<exists>xs'. fs_inv Q xs' s'"
proof (induction rule: ff_step.induct)
  case (put_section i s q n m)
  then show ?case by (blast intro: fs_put_step)
next
  case (put_give i s q isr)
  then show ?case by (blast intro: fs_token_steps)
next
  case (get_take i s q isr t it)
  then show ?case by (blast intro: fs_token_steps)
next
  case (get_fail i s q isr t r it)
  then show ?case by (blast intro: fs_token_steps)
next
  case (get_section i s q n m)
  from fs_taken_section [OF get_section(4,1,2)] get_section(3)
  obtain ns where "q \<in> Q" "xs q = n # ns" "fifo_shape Q (xs(q := ns)) m"
      "\<And>p. ff_items (fm_fifo m p) = fs_items s p" by auto
  then show ?case using get_section by (blast intro: fs_get_step)
next
  case (get_again i s q e m)
  from fs_taken_section [OF get_again(4,1,2)] get_again(3) show ?case by (auto simp: errno_defs)
qed

lemma ff_reachable_inv: "ff_reachable S cnt Q s \<Longrightarrow> \<exists>xs. fs_inv Q xs s"
proof (induction rule: ff_reachable.induct)
  case (start qs m0 m k)
  have "fs_inv Q (\<lambda>_. []) \<lparr>fs_mem = m, fs_pcs = replicate k FIdle, fs_sent = \<lambda>_. [],
                         fs_got = \<lambda>_. [], fs_again = 0\<rparr>"
    using fifo_init_all_start [OF start(1,3)] start(2)
    by (auto simp: ff_sys_inv_def fifo_inv_def fs_items_def at_give_def at_taken_def count_at_def
        list_all_iff)
  then show ?case by blast
next
  case (step s s')
  then show ?case by (blast dest: ff_step_inv)
qed

end

section \<open>Properties\<close>

text \<open>C14: With any number of threads and interrupt handlers interleaved inside puts and gets of a
  family of FIFOs, each FIFO delivers its nodes in order, none lost and none twice; the lists
  stay well-formed; a get that obtained its token always finds a node, so the \<open>-EAGAIN\<close>
  branch of \<open>os_fifo_get\<close> is never taken.\<close>

theorem fifo_concurrent_order:
  assumes contract: "os_sem_contract S live dead cnt lim" and reach: "ff_reachable S cnt Q s"
  shows "fs_again s = 0 \<and> (\<exists>xs. fifo_shape Q xs (fs_mem s)
     \<and> (\<forall>q \<in> Q. fs_sent s q = fs_got s q @ xs q)
     \<and> (\<forall>i < length (fs_pcs s). \<forall>q. fs_pcs s ! i = FTaken q \<longrightarrow>
          (\<exists>m. fifo_get_section q (fs_mem s) = Some (0, Some (hd (xs q)), m))))"
proof -
  obtain xs where inv: "ff_sys_inv live cnt lim Q xs s"
    using os_sem_contract.ff_reachable_inv [OF contract reach] by blast
  have "\<exists>m. fifo_get_section q (fs_mem s) = Some (0, Some (hd (xs q)), m)"
    if "i < length (fs_pcs s)" "fs_pcs s ! i = FTaken q" for i q
    using os_sem_contract.fs_taken_section [OF contract inv that] by auto
  with inv show ?thesis unfolding ff_sys_inv_def by blast
qed

theorem fifo_concurrent_order_witness:
  "\<exists>s :: (nat, nat, native os_sem) ff_sys. fs_pcs s = [FGive 1, FIdle] \<and> fs_sent s 1 = [7] \<and> fs_again s = 0
     \<and> (\<exists>xs. fifo_shape {0, 1} xs (fs_mem s) \<and> fs_sent s 1 = fs_got s 1 @ xs 1)"
proof -
  obtain m where m: "fifo_init_all ref_sems [0, 1] blank_fifos = Some m"
    using ref_fifo_init_all by blast
  let ?s = "\<lparr>fs_mem = m, fs_pcs = [FIdle, FIdle], fs_sent = \<lambda>_. [], fs_got = \<lambda>_. [], fs_again = 0\<rparr>"
  have s: "ff_reachable ref_sems (sem_read native_cnt) {0, 1} ?s"
    using ff_reachable.start [OF m, of "{0, 1}" "sem_read native_cnt" "Suc (Suc 0)"] by simp
  have shape: "fifo_shape {0, 1} (\<lambda>_. []) m"
    using os_sem_contract.fifo_init_all_start [OF ref_sems_contract m] by (simp add: fifo_inv_def)
  then obtain m' where put: "fifo_put_section 1 7 m = Some (0, m')"
    using fifo_put_section_append [OF shape, of 1 7] by (auto simp: fifo_shape_def)
  let ?s' = "?s\<lparr>fs_mem := m', fs_pcs := [FGive 1, FIdle], fs_sent := (\<lambda>_. [])(1 := [7])\<rparr>"
  have "ff_step ref_sems (sem_read native_cnt) {0, 1} ?s ?s'"
    using ff_step.put_section [of 0 ?s 1 "{0, 1}" 7 m' ref_sems "sem_read native_cnt"] put by simp
  with s have "ff_reachable ref_sems (sem_read native_cnt) {0, 1} ?s'" by (rule ff_reachable.step)
  from fifo_concurrent_order [OF ref_sems_contract this] show ?thesis
    by (intro exI [of _ ?s']) auto
qed

end
