(* ===== verification/Mem_Slab.thy ===== *)
theory Mem_Slab
  imports Sem_FreeRTOS
begin

text \<open>
  \<open>src/common/mem_slab.c\<close>: fixed-size blocks over the caller's storage, the free ones linked
  through their own first word.

  \<open>words\<close> is the memory, a partial map from addresses to pointer-sized words; an access
  outside its domain is undefined behaviour and has the value \<open>None\<close>. Pointers are \<open>u32\<close>
  addresses and NULL is 0.
\<close>

section \<open>State and operations\<close>

type_synonym words = "u32 \<Rightarrow> u32 option"

definition store_word :: "words \<Rightarrow> u32 \<Rightarrow> u32 \<Rightarrow> words option" where
  "store_word mem a v = (case mem a of None \<Rightarrow> None | Some _ \<Rightarrow> Some (mem(a := Some v)))"

record 's os_mem_slab =
  slab_buffer :: u32
  free_list :: u32
  block_size :: size_t
  num_blocks :: u32
  free_blocks :: u32
  available :: 's
  slab_initialized :: bool

definition os_mem_slab_zero :: "'s sem_ops \<Rightarrow> 's os_mem_slab" where
  "os_mem_slab_zero S = \<lparr>slab_buffer = 0, free_list = 0, block_size = 0, num_blocks = 0,
     free_blocks = 0, available = sem_zero S, slab_initialized = False\<rparr>"

text \<open>The loop of \<open>os_mem_slab_init\<close>, which links every block to the one after it.\<close>

function slab_link_loop :: "u32 \<Rightarrow> size_t \<Rightarrow> u32 \<Rightarrow> u32 \<Rightarrow> words \<Rightarrow> words option" where
  "slab_link_loop buffer bsize n i mem =
     (if i < n
      then do {
        let block = buffer + i * bsize;
        let nxt = (if i + 1 < n then block + bsize else 0);
        mem \<leftarrow> store_word mem block nxt;
        slab_link_loop buffer bsize n (i + 1) mem
      }
      else Some mem)"
  by auto
termination
  by (relation "measure (\<lambda>(_, _, n, i, _). unat n - unat i)")
    (auto simp: unat_inc_less word_less_nat_alt)

definition os_mem_slab_init ::
  "'s sem_ops \<Rightarrow> 's os_mem_slab option \<Rightarrow> u32 \<Rightarrow> size_t \<Rightarrow> u32 \<Rightarrow> words \<Rightarrow>
   (int \<times> 's os_mem_slab option \<times> words) option" where
  "os_mem_slab_init S slab buffer bsize n mem =
     (if slab = None \<or> buffer = 0 \<or> bsize < 4 \<or> n = 0 \<or> buffer mod 4 \<noteq> 0 \<or> bsize mod 4 \<noteq> 0
         \<or> bsize > SIZE_MAX div n
      then Some (- EINVAL, slab, mem)
      else do {
        let q = os_mem_slab_zero S;
        mem \<leftarrow> slab_link_loop buffer bsize n 0 mem;
        let (result, av) = sem_init S (available q) n n;
        let q = q\<lparr>available := av\<rparr>;
        if result \<noteq> 0 then Some (- ENOMEM, Some q, mem)
        else Some (0, Some (q\<lparr>slab_buffer := buffer, free_list := buffer, block_size := bsize,
                              num_blocks := n, free_blocks := n, slab_initialized := True\<rparr>), mem)
      })"

definition os_mem_slab_num_free_get :: "'s os_mem_slab option \<Rightarrow> u32" where
  "os_mem_slab_num_free_get slab =
     (case slab of None \<Rightarrow> 0 | Some q \<Rightarrow> if slab_initialized q then free_blocks q else 0)"

definition os_mem_slab_deinit ::
  "'s sem_ops \<Rightarrow> bool \<Rightarrow> 's os_mem_slab option \<Rightarrow> int \<times> 's os_mem_slab option" where
  "os_mem_slab_deinit S isr slab =
     (case slab of
        None \<Rightarrow> (- EINVAL, None)
      | Some q \<Rightarrow>
          if \<not> slab_initialized q then (- EINVAL, Some q)
          else if os_mem_slab_num_free_get (Some q) \<noteq> num_blocks q then (- EBUSY, Some q)
          else
            let (result, av) = sem_deinit S isr (available q)
            in (result, Some (if result = 0 then os_mem_slab_zero S else q\<lparr>available := av\<rparr>)))"

text \<open>The critical section of \<open>os_mem_slab_alloc\<close>: pop the free list.\<close>

definition slab_alloc_section :: "'s os_mem_slab \<Rightarrow> words \<Rightarrow> (u32 \<times> 's os_mem_slab) option" where
  "slab_alloc_section q mem = do {
     nxt \<leftarrow> mem (free_list q);
     Some (free_list q, q\<lparr>free_list := nxt, free_blocks := free_blocks q - 1\<rparr>)
   }"

definition os_mem_slab_alloc ::
  "'s sem_ops \<Rightarrow> bool \<Rightarrow> 's os_mem_slab option \<Rightarrow> u32 option \<Rightarrow> u32 \<Rightarrow> words \<Rightarrow>
   (int \<times> 's os_mem_slab option \<times> u32 option) option" where
  "os_mem_slab_alloc S isr slab memory timeout mem =
     (case (slab, memory) of
        (Some q, Some out) \<Rightarrow>
          if \<not> slab_initialized q then Some (- EINVAL, slab, memory)
          else
            let (result, av) = sem_take S isr (available q) timeout; q = q\<lparr>available := av\<rparr>
            in if result \<noteq> 0 then Some (result, Some q, memory)
               else do {
                 (block, q) \<leftarrow> slab_alloc_section q mem;
                 Some (0, Some q, Some block)
               }
      | _ \<Rightarrow> Some (- EINVAL, slab, memory))"

text \<open>The loop of \<open>os_mem_slab_free\<close>: is the block already on the free list?\<close>

function slab_scan :: "words \<Rightarrow> u32 \<Rightarrow> u32 \<Rightarrow> u32 \<Rightarrow> u32 \<Rightarrow> bool option" where
  "slab_scan mem limit memory free_block scanned =
     (if free_block \<noteq> 0 \<and> scanned < limit
      then (if free_block = memory then Some True
            else do {
              nxt \<leftarrow> mem free_block;
              slab_scan mem limit memory nxt (scanned + 1)
            })
      else Some False)"
  by auto
termination
  by (relation "measure (\<lambda>(_, limit, _, _, scanned). unat limit - unat scanned)")
    (auto simp: unat_inc_less word_less_nat_alt)

text \<open>The critical section of \<open>os_mem_slab_free\<close>.\<close>

definition slab_free_section ::
  "'s os_mem_slab \<Rightarrow> u32 \<Rightarrow> words \<Rightarrow> (int \<times> 's os_mem_slab \<times> words) option" where
  "slab_free_section q memory mem =
     (if free_blocks q \<ge> num_blocks q then Some (- EINVAL, q, mem)
      else do {
        found \<leftarrow> slab_scan mem (free_blocks q) memory (free_list q) 0;
        if found then Some (- EINVAL, q, mem)
        else do {
          mem \<leftarrow> store_word mem memory (free_list q);
          Some (0, q\<lparr>free_list := memory, free_blocks := free_blocks q + 1\<rparr>, mem)
        }
      })"

text \<open>The address checks of \<open>os_mem_slab_free\<close>.\<close>

definition slab_owns :: "'s os_mem_slab \<Rightarrow> u32 \<Rightarrow> bool" where
  "slab_owns q address =
     (let start = slab_buffer q; total = block_size q * num_blocks q
      in \<not> (address < start \<or> address - start \<ge> total \<or> (address - start) mod block_size q \<noteq> 0))"

definition os_mem_slab_free ::
  "'s sem_ops \<Rightarrow> bool \<Rightarrow> 's os_mem_slab option \<Rightarrow> u32 \<Rightarrow> words \<Rightarrow>
   (int \<times> 's os_mem_slab option \<times> words) option" where
  "os_mem_slab_free S isr slab memory mem =
     (case slab of
        None \<Rightarrow> Some (- EINVAL, None, mem)
      | Some q \<Rightarrow>
          if \<not> slab_initialized q \<or> memory = 0 then Some (- EINVAL, slab, mem)
          else if \<not> slab_owns q memory then Some (- EINVAL, slab, mem)
          else do {
            (r, q, mem) \<leftarrow> slab_free_section q memory mem;
            Some (r, Some (if r = 0 then q\<lparr>available := sem_give S isr (available q)\<rparr> else q), mem)
          })"

declare slab_link_loop.simps [simp del] slab_scan.simps [simp del]

section \<open>Geometry: the blocks of a slab\<close>

definition slab_geom :: "'s os_mem_slab \<Rightarrow> bool" where
  "slab_geom q \<longleftrightarrow>
     0 < unat (slab_buffer q) \<and> 4 \<le> unat (block_size q) \<and> 0 < unat (num_blocks q)
     \<and> unat (slab_buffer q) mod 4 = 0 \<and> unat (block_size q) mod 4 = 0
     \<and> unat (slab_buffer q) + unat (num_blocks q) * unat (block_size q) \<le> 2 ^ 32
     \<and> unat (num_blocks q) * unat (block_size q) < 2 ^ 32"

definition slab_block :: "'s os_mem_slab \<Rightarrow> nat \<Rightarrow> u32" where
  "slab_block q i = slab_buffer q + of_nat i * block_size q"

definition slab_blocks :: "'s os_mem_slab \<Rightarrow> u32 list" where
  "slab_blocks q = map (slab_block q) [0..<unat (num_blocks q)]"

lemma slab_block_address:
  assumes "slab_geom q" "i < unat (num_blocks q)"
  shows "unat (slab_block q i) = unat (slab_buffer q) + i * unat (block_size q)"
proof -
  have "i * unat (block_size q) + unat (block_size q) \<le> unat (num_blocks q) * unat (block_size q)"
    using assms(2) by (rule block_in_range)
  then have "unat (slab_buffer q) + i * unat (block_size q) < 2 ^ LENGTH(32)"
    using assms(1) by (simp add: slab_geom_def)
  moreover have "slab_block q i = of_nat (unat (slab_buffer q) + i * unat (block_size q))"
    by (simp add: slab_block_def)
  ultimately show ?thesis by (simp add: unsigned_of_nat take_bit_nat_eq_self del: of_nat_add of_nat_mult)
qed

text \<open>The blocks are distinct and not NULL, and the address check accepts exactly the blocks.\<close>

lemma slab_blocks_distinct: "slab_geom q \<Longrightarrow> distinct (slab_blocks q)"
proof -
  assume geom: "slab_geom q"
  have "i = j" if "i < unat (num_blocks q)" "j < unat (num_blocks q)" "slab_block q i = slab_block q j" for i j
    using that slab_block_address [OF geom] geom
    by (metis add_left_cancel mult_cancel2 not_numeral_le_zero slab_geom_def)
  then show ?thesis by (auto simp: slab_blocks_def distinct_map inj_on_def)
qed

lemma slab_block_not_null: "slab_geom q \<Longrightarrow> a \<in> set (slab_blocks q) \<Longrightarrow> a \<noteq> 0"
  using slab_block_address [of q] by (auto simp: slab_blocks_def slab_geom_def dest!: arg_cong [where f = unat])

lemma slab_owns_iff:
  assumes geom: "slab_geom q"
  shows "slab_owns q a \<longleftrightarrow> a \<in> set (slab_blocks q)"
proof
  let ?b = "unat (slab_buffer q)" and ?s = "unat (block_size q)" and ?n = "unat (num_blocks q)"
  have total: "unat (block_size q * num_blocks q) = ?n * ?s"
    using geom by (simp add: unat_mult_fits slab_geom_def mult.commute)
  assume owns: "slab_owns q a"
  then have ge: "slab_buffer q \<le> a" by (simp add: slab_owns_def Let_def not_less)
  then have off: "unat (a - slab_buffer q) = unat a - ?b" by (rule unat_sub)
  have lt: "unat a - ?b < ?n * ?s"
    using owns by (simp add: slab_owns_def Let_def not_le word_less_nat_alt off total)
  have "unat ((a - slab_buffer q) mod block_size q) = 0"
    using owns by (simp add: slab_owns_def Let_def)
  then have "(unat a - ?b) mod ?s = 0" by (simp add: unat_mod_distrib off)
  then obtain i where i: "unat a - ?b = i * ?s" by (metis dvd_def mod_eq_0_iff_dvd mult.commute)
  then have "i < ?n" using lt by simp
  moreover have "a = slab_block q i"
    using slab_block_address [OF geom \<open>i < ?n\<close>] i ge
    by (simp add: word_unat_eq_iff word_le_nat_alt)
  ultimately show "a \<in> set (slab_blocks q)" by (simp add: slab_blocks_def)
next
  let ?b = "unat (slab_buffer q)" and ?s = "unat (block_size q)" and ?n = "unat (num_blocks q)"
  assume "a \<in> set (slab_blocks q)"
  then obtain i where i: "i < ?n" "a = slab_block q i" by (auto simp: slab_blocks_def)
  then have a: "unat a = ?b + i * ?s" using slab_block_address [OF geom] by simp
  have total: "unat (block_size q * num_blocks q) = ?n * ?s"
    using geom by (simp add: unat_mult_fits slab_geom_def mult.commute)
  have ge: "slab_buffer q \<le> a" using a by (simp add: word_le_nat_alt)
  then have off: "unat (a - slab_buffer q) = i * ?s" using a by (simp add: unat_sub)
  have "i * ?s < ?n * ?s" using i(1) geom by (simp add: slab_geom_def)
  moreover have "(a - slab_buffer q) mod block_size q = 0"
    using off by (simp add: word_unat_eq_iff unat_mod_distrib)
  ultimately show "slab_owns q a"
    using ge off total by (simp add: slab_owns_def Let_def word_less_nat_alt word_le_nat_alt)
qed

section \<open>The free list\<close>

primrec slab_chain :: "words \<Rightarrow> u32 \<Rightarrow> u32 list \<Rightarrow> bool" where
  "slab_chain mem p [] = (p = 0)"
| "slab_chain mem p (a # as) =
     (p = a \<and> a \<noteq> 0 \<and> (case mem a of None \<Rightarrow> False | Some nxt \<Rightarrow> slab_chain mem nxt as))"

lemma slab_chain_frame:
  "slab_chain mem p xs \<Longrightarrow> (\<And>a. a \<in> set xs \<Longrightarrow> mem' a = mem a) \<Longrightarrow> slab_chain mem' p xs"
  by (induction xs arbitrary: p) (auto split: option.splits)

text \<open>The search visits the whole free list and answers whether the block is on it.\<close>

lemma slab_scan_chain:
  assumes "slab_chain mem p xs" "unat scanned + length xs = unat limit"
  shows "slab_scan mem limit memory p scanned = Some (memory \<in> set xs)"
  using assms
proof (induction xs arbitrary: p scanned)
  case Nil
  then show ?case by (simp add: slab_scan.simps)
next
  case (Cons a xs)
  obtain nxt where nxt: "mem a = Some nxt" "slab_chain mem nxt xs"
    using Cons.prems(1) by (auto split: option.splits)
  have lt: "scanned < limit" using Cons.prems(2) by (simp add: word_less_nat_alt)
  have "slab_scan mem limit memory nxt (scanned + 1) = Some (memory \<in> set xs)"
    using Cons.IH [OF nxt(2)] Cons.prems(2) lt by (simp add: unat_inc_less)
  then show ?case
    using Cons.prems(1) lt nxt(1) by (subst slab_scan.simps) auto
qed

text \<open>The storage that the caller hands to init: an object that does not wrap around.\<close>

definition slab_storage :: "u32 \<Rightarrow> size_t \<Rightarrow> u32 \<Rightarrow> words \<Rightarrow> bool" where
  "slab_storage buffer bsize n mem \<longleftrightarrow>
     unat buffer + unat n * unat bsize \<le> 2 ^ 32
     \<and> (\<forall>i < unat n. mem (buffer + of_nat i * bsize) \<noteq> None)"

lemma slab_link_loop_links:
  fixes buffer bsize n :: u32
  assumes "unat n - i = k" "i \<le> unat n"
    and "inj_on (\<lambda>j. buffer + of_nat j * bsize) {..<unat n}"
    and "\<And>j. j < unat n \<Longrightarrow> mem (buffer + of_nat j * bsize) \<noteq> None"
  shows "\<exists>mem'. slab_link_loop buffer bsize n (of_nat i) mem = Some mem'
     \<and> (\<forall>j. i \<le> j \<and> j < unat n \<longrightarrow> mem' (buffer + of_nat j * bsize)
            = Some (if Suc j < unat n then buffer + of_nat (Suc j) * bsize else 0))
     \<and> (\<forall>a. (\<forall>j. i \<le> j \<and> j < unat n \<longrightarrow> a \<noteq> buffer + of_nat j * bsize) \<longrightarrow> mem' a = mem a)"
  using assms
proof (induction k arbitrary: i mem)
  case 0
  then have i: "i = unat n" by simp
  then show ?case by (auto simp: slab_link_loop.simps)
next
  case (Suc k)
  let ?f = "\<lambda>j. buffer + of_nat j * bsize"
  have i: "i < unat n" using Suc.prems(1) by simp
  have unat_i: "unat (of_nat i :: u32) = i"
    using i by (rule unat_of_nat_less)
  then have lt: "(of_nat i :: u32) < n" using i by (simp add: word_less_nat_alt)
  then have lt': "of_nat i + 1 < n \<longleftrightarrow> Suc i < unat n"
    by (simp add: word_less_nat_alt unat_inc_less unat_i)
  have next_eq: "?f i + bsize = ?f (Suc i)" by (simp add: algebra_simps)
  let ?nxt = "if Suc i < unat n then ?f (Suc i) else 0"
  let ?mem = "mem(?f i := Some ?nxt)"
  have store: "store_word mem (?f i) ?nxt = Some ?mem"
    using Suc.prems(4) [OF i] by (auto simp: store_word_def)
  have "\<And>j. j < unat n \<Longrightarrow> ?mem (?f j) \<noteq> None" using Suc.prems(4) by simp
  moreover have "unat n - Suc i = k" "Suc i \<le> unat n" using Suc.prems(1) i by simp_all
  ultimately obtain mem' where mem': "slab_link_loop buffer bsize n (of_nat (Suc i)) ?mem = Some mem'"
      "\<And>j. Suc i \<le> j \<and> j < unat n \<Longrightarrow> mem' (?f j) = Some (if Suc j < unat n then ?f (Suc j) else 0)"
      "\<And>a. (\<forall>j. Suc i \<le> j \<and> j < unat n \<longrightarrow> a \<noteq> ?f j) \<Longrightarrow> mem' a = ?mem a"
    using Suc.IH [of "Suc i" ?mem] Suc.prems(3) by blast
  have fresh: "?f i \<noteq> ?f j" if "Suc i \<le> j \<and> j < unat n" for j
    using inj_onD [OF Suc.prems(3), of i j] that i by auto
  have "slab_link_loop buffer bsize n (of_nat i) mem = Some mem'"
  proof -
    have nxt: "(if of_nat i + 1 < n then ?f i + bsize else 0) = ?nxt" by (simp only: lt' next_eq)
    have suc: "of_nat (Suc i) = (of_nat i + 1 :: u32)" by simp
    show ?thesis
      using mem'(1) store nxt unfolding suc
      by (subst slab_link_loop.simps) (simp only: Let_def lt if_True Option.bind.bind_lunit)
  qed
  moreover have "mem' (?f j) = Some (if Suc j < unat n then ?f (Suc j) else 0)"
    if "i \<le> j \<and> j < unat n" for j
    using that mem'(2) [of j] mem'(3) [of "?f i"] fresh by (cases "j = i") auto
  moreover have "mem' a = mem a" if "\<forall>j. i \<le> j \<and> j < unat n \<longrightarrow> a \<noteq> ?f j" for a
    using that mem'(3) [of a] i by auto
  ultimately show ?case by blast
qed

text \<open>The state between calls: the free list links the blocks \<open>xs\<close>, all of this slab, once each.\<close>

definition slab_shape :: "u32 list \<Rightarrow> 's os_mem_slab \<Rightarrow> words \<Rightarrow> bool" where
  "slab_shape xs q mem \<longleftrightarrow>
     slab_geom q \<and> slab_initialized q \<and> slab_chain mem (free_list q) xs
     \<and> distinct xs \<and> set xs \<subseteq> set (slab_blocks q)
     \<and> unat (free_blocks q) = length xs
     \<and> (\<forall>a \<in> set (slab_blocks q). mem a \<noteq> None)"

lemma slab_shape_length:
  assumes "slab_shape xs q mem"
  shows "length xs \<le> unat (num_blocks q)"
    and "length xs = unat (num_blocks q) \<longleftrightarrow> set xs = set (slab_blocks q)"
proof -
  have d: "distinct xs" "distinct (slab_blocks q)" "set xs \<subseteq> set (slab_blocks q)"
    using assms slab_blocks_distinct by (auto simp: slab_shape_def)
  have n: "card (set (slab_blocks q)) = unat (num_blocks q)" "card (set xs) = length xs"
    using d distinct_card [of "slab_blocks q"] distinct_card [of xs] by (simp_all add: slab_blocks_def)
  then show "length xs \<le> unat (num_blocks q)"
    using card_mono [OF _ d(3)] by simp
  show "length xs = unat (num_blocks q) \<longleftrightarrow> set xs = set (slab_blocks q)"
    using n card_subset_eq [OF _ d(3)] by auto
qed

lemma slab_shape_available [simp]:
  "slab_shape xs (q\<lparr>available := av\<rparr>) mem = slab_shape xs q mem"
  "slab_blocks (q\<lparr>available := av\<rparr>) = slab_blocks q"
  by (simp_all add: slab_shape_def slab_geom_def slab_blocks_def slab_block_def)

lemma slab_alloc_section_pops:
  assumes shape: "slab_shape (a # xs) q mem"
  shows "\<exists>q'. slab_alloc_section q mem = Some (a, q') \<and> slab_shape xs q' mem
     \<and> slab_blocks q' = slab_blocks q \<and> available q' = available q \<and> num_blocks q' = num_blocks q"
proof -
  obtain nxt where nxt: "free_list q = a" "mem a = Some nxt" "slab_chain mem nxt xs"
    using shape by (auto simp: slab_shape_def split: option.splits)
  have "free_blocks q \<noteq> 0" using shape by (auto simp: slab_shape_def)
  then have "unat (free_blocks q - 1) = length xs"
    using shape by (simp add: unat_dec slab_shape_def)
  then show ?thesis
    using shape nxt
    by (simp add: slab_alloc_section_def slab_shape_def slab_geom_def slab_blocks_def slab_block_def)
qed

lemma slab_free_section_pushes:
  assumes shape: "slab_shape xs q mem" and a: "a \<in> set (slab_blocks q)" "a \<notin> set xs"
  shows "\<exists>q' mem'. slab_free_section q a mem = Some (0, q', mem') \<and> slab_shape (a # xs) q' mem'
     \<and> slab_blocks q' = slab_blocks q \<and> available q' = available q \<and> num_blocks q' = num_blocks q"
proof -
  have lt: "length xs < unat (num_blocks q)"
    using slab_shape_length [OF shape] a by force
  then have below: "free_blocks q < num_blocks q"
    using shape by (simp add: slab_shape_def word_less_nat_alt)
  have scan: "slab_scan mem (free_blocks q) a (free_list q) 0 = Some False"
    using slab_scan_chain [of mem "free_list q" xs 0] shape a by (simp add: slab_shape_def)
  let ?mem = "mem(a := Some (free_list q))"
  have store: "store_word mem a (free_list q) = Some ?mem"
    using shape a by (auto simp: store_word_def slab_shape_def)
  have chain: "slab_chain ?mem (free_list q) xs"
    by (rule slab_chain_frame [of mem]) (use shape a in \<open>auto simp: slab_shape_def\<close>)
  have null: "a \<noteq> 0" using shape a slab_block_not_null by (auto simp: slab_shape_def)
  let ?q = "q\<lparr>free_list := a, free_blocks := free_blocks q + 1\<rparr>"
  have same: "slab_blocks ?q = slab_blocks q" "slab_geom ?q = slab_geom q"
    by (simp_all add: slab_blocks_def slab_block_def slab_geom_def)
  have "slab_free_section q a mem = Some (0, ?q, ?mem)"
    using below scan store by (simp add: slab_free_section_def not_le)
  moreover have "slab_chain ?mem a (a # xs)" using chain null by simp
  moreover have "unat (free_blocks q + 1) = length (a # xs)"
    using shape below by (simp add: unat_inc_less slab_shape_def)
  moreover have "\<forall>b \<in> set (slab_blocks q). ?mem b \<noteq> None"
    using shape by (simp add: slab_shape_def)
  ultimately show ?thesis
    using shape a by (intro exI [of _ ?q] exI [of _ ?mem]) (simp add: slab_shape_def same)
qed

lemma slab_free_section_double:
  assumes shape: "slab_shape xs q mem" and a: "a \<in> set xs"
  shows "slab_free_section q a mem = Some (- EINVAL, q, mem)"
  using slab_scan_chain [of mem "free_list q" xs 0 "free_blocks q" a] shape a
  by (simp add: slab_free_section_def slab_shape_def)

section \<open>The calls over a semaphore that keeps its contract\<close>

definition slab_inv ::
  "('s \<Rightarrow> bool) \<Rightarrow> ('s \<Rightarrow> nat) \<Rightarrow> ('s \<Rightarrow> nat) \<Rightarrow> u32 list \<Rightarrow> 's os_mem_slab \<Rightarrow> words \<Rightarrow> bool" where
  "slab_inv live cnt lim xs q mem \<longleftrightarrow>
     slab_shape xs q mem \<and> live (available q) \<and> lim (available q) = unat (num_blocks q)
     \<and> cnt (available q) = length xs"

lemma slab_not_block:
  "slab_shape xs q mem \<Longrightarrow> a \<notin> set (slab_blocks q) \<Longrightarrow>
   os_mem_slab_free S isr (Some q) a mem = Some (- EINVAL, Some q, mem)"
  using slab_owns_iff [of q a] by (simp add: os_mem_slab_free_def slab_shape_def)

text \<open>What init returns when it accepts: all blocks are free, in address order.\<close>

lemma slab_init_shape:
  fixes q :: "'s os_mem_slab"
  assumes fields: "slab_buffer q = buffer" "block_size q = bsize" "num_blocks q = n"
    and args: "buffer \<noteq> 0" "4 \<le> bsize" "n \<noteq> 0" "buffer mod 4 = 0" "bsize mod 4 = 0"
      "\<not> bsize > SIZE_MAX div n"
    and storage: "slab_storage buffer bsize n mem"
  shows "\<exists>mem'. slab_link_loop buffer bsize n 0 mem = Some mem'
     \<and> slab_shape (slab_blocks q) (q\<lparr>slab_buffer := buffer, free_list := buffer, block_size := bsize,
            num_blocks := n, free_blocks := n, slab_initialized := True\<rparr>) mem'"
proof -
  let ?f = "\<lambda>j. buffer + of_nat j * bsize"
  let ?q = "q\<lparr>slab_buffer := buffer, free_list := buffer, block_size := bsize,
            num_blocks := n, free_blocks := n, slab_initialized := True\<rparr>"
  have "unat buffer mod 4 = 0" "unat bsize mod 4 = 0"
    using args(4,5) unat_mod_distrib [of buffer 4] unat_mod_distrib [of bsize 4] by simp_all
  then have geom: "slab_geom ?q"
    using args storage unat_div_guard [OF args(3,6)]
    by (simp add: slab_geom_def slab_storage_def unat_gt_0 word_le_nat_alt)
  have block: "slab_block ?q = ?f" by (simp add: slab_block_def fun_eq_iff)
  have "distinct (slab_blocks ?q)" by (rule slab_blocks_distinct [OF geom])
  then have inj: "inj_on ?f {..<unat n}"
    by (simp add: slab_blocks_def distinct_map block atLeast0LessThan)
  obtain mem' where mem': "slab_link_loop buffer bsize n 0 mem = Some mem'"
      "\<And>j. j < unat n \<Longrightarrow> mem' (?f j) = Some (if Suc j < unat n then ?f (Suc j) else 0)"
    using slab_link_loop_links [of n 0 "unat n" buffer bsize mem] inj storage
    by (auto simp: slab_storage_def)
  have pos: "0 < unat n" using args(3) by (simp add: unat_gt_0)
  have "slab_chain mem' (if i < unat n then ?f i else 0) (map ?f [i..<unat n])" for i
  proof (induction "unat n - i" arbitrary: i)
    case 0
    then show ?case by simp
  next
    case (Suc k)
    then have i: "i < unat n" by simp
    have "?f i \<noteq> 0" using slab_block_not_null [OF geom, of "?f i"] i by (auto simp: slab_blocks_def block)
    moreover have "slab_chain mem' (if Suc i < unat n then ?f (Suc i) else 0) (map ?f [Suc i..<unat n])"
      using Suc.hyps(1) [of "Suc i"] Suc.hyps(2) by simp
    ultimately show ?case using i mem'(2) [OF i] by (simp add: upt_conv_Cons)
  qed
  from this [of 0] have chain: "slab_chain mem' buffer (slab_blocks ?q)"
    using pos by (simp add: slab_blocks_def block)
  have "mem' a \<noteq> None" if "a \<in> set (slab_blocks ?q)" for a
    using that mem'(2) by (auto simp: slab_blocks_def block)
  then have "slab_shape (slab_blocks ?q) ?q mem'"
    using geom chain slab_blocks_distinct [OF geom] by (simp add: slab_shape_def) (simp add: slab_blocks_def)
  moreover have "slab_blocks ?q = slab_blocks q"
    using fields by (simp add: slab_blocks_def slab_block_def)
  ultimately show ?thesis using mem'(1) by metis
qed

context os_sem_contract begin

abbreviation sl_inv :: "u32 list \<Rightarrow> 's os_mem_slab \<Rightarrow> words \<Rightarrow> bool" where
  "sl_inv \<equiv> slab_inv live cnt lim"

lemma slab_init_inv:
  assumes init: "os_mem_slab_init S slab buffer bsize n mem = Some (0, Some q, mem')"
    and storage: "slab_storage buffer bsize n mem"
  shows "sl_inv (slab_blocks q) q mem'"
proof -
  have args: "buffer \<noteq> 0" "4 \<le> bsize" "n \<noteq> 0" "buffer mod 4 = 0" "bsize mod 4 = 0"
      "\<not> bsize > SIZE_MAX div n"
    using init by (auto simp: os_mem_slab_init_def not_less split: if_splits)
  let ?q = "\<lambda>av. (os_mem_slab_zero S)\<lparr>available := av, slab_buffer := buffer, free_list := buffer,
      block_size := bsize, num_blocks := n, free_blocks := n, slab_initialized := True\<rparr>"
  have same: "?q av = (?q (sem_zero S))\<lparr>available := av\<rparr>" for av
    by (simp add: os_mem_slab_zero_def)
  obtain m where link: "slab_link_loop buffer bsize n 0 mem = Some m"
      and shape: "slab_shape (slab_blocks (?q (sem_zero S))) (?q (sem_zero S)) m"
    using slab_init_shape [OF _ _ _ args storage, of "?q (sem_zero S)"] by auto
  have m: "slab_shape (slab_blocks (?q av)) (?q av) m" for av
    unfolding same [of av] slab_shape_available by (rule shape)
  obtain av where av: "sem_init S (sem_zero S) n n = (0, av)" "q = ?q av" "mem' = m"
    using init link by (auto simp: os_mem_slab_init_def os_mem_slab_zero_def Let_def split: if_splits prod.splits)
  have "length (slab_blocks q) = unat n" by (simp add: av(2) slab_blocks_def)
  with m [of av] init_ok [OF av(1)] show ?thesis by (simp add: slab_inv_def av(2,3))
qed

lemma slab_alloc_pops:
  assumes inv: "sl_inv (a # xs) q mem" and wait: "may_wait isr t"
  shows "\<exists>q'. os_mem_slab_alloc S isr (Some q) (Some out) t mem = Some (0, Some q', Some a)
     \<and> sl_inv xs q' mem \<and> slab_blocks q' = slab_blocks q"
proof -
  have "live (available q)" "0 < cnt (available q)" using inv by (auto simp: slab_inv_def)
  then obtain av where take: "sem_take S isr (available q) t = (0, av)" "live av"
      "cnt av = length xs" "lim av = lim (available q)"
    using take_token [OF _ wait, of "available q"] inv by (auto simp: slab_inv_def)
  have "slab_shape (a # xs) (q\<lparr>available := av\<rparr>) mem" using inv by (simp add: slab_inv_def)
  from slab_alloc_section_pops [OF this] obtain q' where q': "slab_alloc_section (q\<lparr>available := av\<rparr>) mem
        = Some (a, q')" "slab_shape xs q' mem" "slab_blocks q' = slab_blocks q" "available q' = av"
        "num_blocks q' = num_blocks q" by auto
  with take inv show ?thesis
    by (auto simp: os_mem_slab_alloc_def slab_inv_def slab_shape_def)
qed

lemma slab_alloc_empty:
  assumes inv: "sl_inv [] q mem"
  shows "\<exists>q'. os_mem_slab_alloc S isr (Some q) (Some out) 0 mem = Some (- EBUSY, Some q', Some out)
     \<and> sl_inv [] q' mem \<and> slab_blocks q' = slab_blocks q"
proof -
  have "live (available q)" "cnt (available q) = 0" using inv by (auto simp: slab_inv_def)
  then obtain av where take: "sem_take S isr (available q) 0 = (- EBUSY, av)" "live av" "cnt av = 0"
      "lim av = lim (available q)"
    using take_empty [of "available q" isr] by auto
  have "os_mem_slab_alloc S isr (Some q) (Some out) 0 mem
      = Some (- EBUSY, Some (q\<lparr>available := av\<rparr>), Some out)"
    using take inv by (simp add: os_mem_slab_alloc_def slab_inv_def slab_shape_def)
  moreover have "sl_inv [] (q\<lparr>available := av\<rparr>) mem" using take inv by (simp add: slab_inv_def)
  ultimately show ?thesis by auto
qed

lemma slab_free_pushes:
  assumes inv: "sl_inv xs q mem" and a: "a \<in> set (slab_blocks q)" "a \<notin> set xs"
  shows "\<exists>q' mem'. os_mem_slab_free S isr (Some q) a mem = Some (0, Some q', mem')
     \<and> sl_inv (a # xs) q' mem' \<and> slab_blocks q' = slab_blocks q"
proof -
  have shape: "slab_shape xs q mem" using inv by (simp add: slab_inv_def)
  then have geom: "slab_geom q" "slab_initialized q" by (simp_all add: slab_shape_def)
  obtain q' mem' where q': "slab_free_section q a mem = Some (0, q', mem')"
      "slab_shape (a # xs) q' mem'" "slab_blocks q' = slab_blocks q" "available q' = available q"
      "num_blocks q' = num_blocks q"
    using slab_free_section_pushes [OF shape a] by blast
  have "length xs < unat (num_blocks q)"
    using slab_shape_length [OF q'(2)] q'(5) by simp
  then have give: "live (sem_give S isr (available q))" "cnt (sem_give S isr (available q)) = Suc (length xs)"
      "lim (sem_give S isr (available q)) = unat (num_blocks q)"
    using inv give_below [of "available q" isr] by (simp_all add: slab_inv_def)
  have "os_mem_slab_free S isr (Some q) a mem
      = Some (0, Some (q'\<lparr>available := sem_give S isr (available q')\<rparr>), mem')"
    using q'(1) geom a slab_owns_iff [of q a] slab_block_not_null [OF geom(1) a(1)]
    by (simp add: os_mem_slab_free_def)
  moreover have "sl_inv (a # xs) (q'\<lparr>available := sem_give S isr (available q')\<rparr>) mem'"
    using q' give by (simp add: slab_inv_def)
  ultimately show ?thesis using q'(3) by auto
qed

lemma slab_free_rejected:
  assumes inv: "sl_inv xs q mem" and a: "a \<notin> set (slab_blocks q) \<or> a \<in> set xs"
  shows "os_mem_slab_free S isr (Some q) a mem = Some (- EINVAL, Some q, mem)"
proof (cases "a \<in> set (slab_blocks q)")
  case True
  have shape: "slab_shape xs q mem" using inv by (simp add: slab_inv_def)
  then show ?thesis
    using slab_free_section_double [OF shape] True a slab_owns_iff [of q a]
    by (simp add: os_mem_slab_free_def slab_shape_def)
next
  case False
  with inv slab_not_block [of xs q mem a S isr] show ?thesis by (simp add: slab_inv_def)
qed

end

section \<open>Refinement of a free-list allocator\<close>

text \<open>
  The abstract allocator keeps the free blocks in order. The client may also write to the first
  word of a block that it holds, which is where the slab keeps the link of a free block.
\<close>

datatype slab_op = SAlloc | SFree u32 | SWrite u32 u32

fun slab_op_ok :: "u32 list \<Rightarrow> u32 list \<Rightarrow> slab_op \<Rightarrow> bool" where
  "slab_op_ok blocks xs (SWrite a v) = (a \<in> set blocks \<and> a \<notin> set xs)"
| "slab_op_ok blocks xs _ = True"

fun free_list_call :: "u32 list \<Rightarrow> u32 list \<Rightarrow> slab_op \<Rightarrow> (int \<times> u32) \<times> u32 list" where
  "free_list_call blocks xs SAlloc = (case xs of [] \<Rightarrow> ((- EBUSY, 0), []) | a # ys \<Rightarrow> ((0, a), ys))"
| "free_list_call blocks xs (SFree a) =
     (if a \<in> set blocks \<and> a \<notin> set xs then ((0, 0), a # xs) else ((- EINVAL, 0), xs))"
| "free_list_call blocks xs (SWrite a v) = ((0, 0), xs)"

fun free_list_ok :: "u32 list \<Rightarrow> u32 list \<Rightarrow> slab_op list \<Rightarrow> bool" where
  "free_list_ok blocks xs [] = True"
| "free_list_ok blocks xs (c # cs) =
     (slab_op_ok blocks xs c \<and> free_list_ok blocks (snd (free_list_call blocks xs c)) cs)"

fun free_list_run :: "u32 list \<Rightarrow> u32 list \<Rightarrow> slab_op list \<Rightarrow> (int \<times> u32) list \<times> u32 list" where
  "free_list_run blocks xs [] = ([], xs)"
| "free_list_run blocks xs (c # cs) =
     (let (r, ys) = free_list_call blocks xs c; (rs, zs) = free_list_run blocks ys cs in (r # rs, zs))"

fun slab_call ::
  "'s sem_ops \<Rightarrow> bool \<Rightarrow> 's os_mem_slab \<Rightarrow> words \<Rightarrow> slab_op \<Rightarrow>
   ((int \<times> u32) \<times> 's os_mem_slab \<times> words) option" where
  "slab_call S isr q mem SAlloc =
     (case os_mem_slab_alloc S isr (Some q) (Some 0) 0 mem of
        Some (r, Some q', Some a) \<Rightarrow> Some ((r, a), q', mem) | _ \<Rightarrow> None)"
| "slab_call S isr q mem (SFree a) =
     (case os_mem_slab_free S isr (Some q) a mem of
        Some (r, Some q', mem') \<Rightarrow> Some ((r, 0), q', mem') | _ \<Rightarrow> None)"
| "slab_call S isr q mem (SWrite a v) = map_option (\<lambda>mem. ((0, 0), q, mem)) (store_word mem a v)"

fun slab_run ::
  "'s sem_ops \<Rightarrow> bool \<Rightarrow> 's os_mem_slab \<Rightarrow> words \<Rightarrow> slab_op list \<Rightarrow>
   ((int \<times> u32) list \<times> 's os_mem_slab \<times> words) option" where
  "slab_run S isr q mem [] = Some ([], q, mem)"
| "slab_run S isr q mem (c # cs) = do {
     (r, q, mem) \<leftarrow> slab_call S isr q mem c;
     (rs, q, mem) \<leftarrow> slab_run S isr q mem cs;
     Some (r # rs, q, mem)
   }"

lemma slab_shape_write:
  assumes "slab_shape xs q mem" "a \<in> set (slab_blocks q)" "a \<notin> set xs"
  shows "store_word mem a v = Some (mem(a := Some v))" and "slab_shape xs q (mem(a := Some v))"
proof -
  show "store_word mem a v = Some (mem(a := Some v))"
    using assms by (auto simp: store_word_def slab_shape_def)
  have "slab_chain (mem(a := Some v)) (free_list q) xs"
    by (rule slab_chain_frame [of mem]) (use assms in \<open>auto simp: slab_shape_def\<close>)
  with assms show "slab_shape xs q (mem(a := Some v))" by (simp add: slab_shape_def)
qed

context os_sem_contract begin

lemma slab_call_refines:
  assumes inv: "sl_inv xs q mem" and ok: "slab_op_ok (slab_blocks q) xs c"
  shows "\<exists>q' mem'. slab_call S isr q mem c = Some (fst (free_list_call (slab_blocks q) xs c), q', mem')
     \<and> sl_inv (snd (free_list_call (slab_blocks q) xs c)) q' mem' \<and> slab_blocks q' = slab_blocks q"
proof (cases c)
  case SAlloc
  show ?thesis
  proof (cases xs)
    case Nil
    with SAlloc slab_alloc_empty [of q mem isr 0] inv show ?thesis by auto
  next
    case (Cons a ys)
    with SAlloc slab_alloc_pops [of a ys q mem isr 0 0] inv show ?thesis by (auto simp: may_wait_def)
  qed
next
  case (SFree a)
  show ?thesis
  proof (cases "a \<in> set (slab_blocks q) \<and> a \<notin> set xs")
    case True
    with SFree slab_free_pushes [OF inv, of a isr] show ?thesis by auto
  next
    case False
    with SFree slab_free_rejected [OF inv, of a isr] inv show ?thesis by auto
  qed
next
  case (SWrite a v)
  with slab_shape_write [of xs q mem a v] inv ok show ?thesis by (auto simp: slab_inv_def)
qed

lemma slab_run_refines:
  assumes "sl_inv xs q mem" "free_list_ok (slab_blocks q) xs cs"
  shows "\<exists>q' mem'. slab_run S isr q mem cs = Some (fst (free_list_run (slab_blocks q) xs cs), q', mem')
     \<and> sl_inv (snd (free_list_run (slab_blocks q) xs cs)) q' mem' \<and> slab_blocks q' = slab_blocks q"
  using assms
proof (induction cs arbitrary: q mem xs)
  case Nil
  then show ?case by simp
next
  case (Cons c cs)
  obtain q1 m1 where step: "slab_call S isr q mem c = Some (fst (free_list_call (slab_blocks q) xs c), q1, m1)"
      "sl_inv (snd (free_list_call (slab_blocks q) xs c)) q1 m1" "slab_blocks q1 = slab_blocks q"
    using slab_call_refines [OF Cons.prems(1), of c isr] Cons.prems(2) by auto
  have "free_list_ok (slab_blocks q1) (snd (free_list_call (slab_blocks q) xs c)) cs"
    using Cons.prems(2) step(3) by simp
  from Cons.IH [OF step(2) this] step show ?case by (auto simp: split_beta)
qed

end

section \<open>Properties\<close>

text \<open>C15: A memory slab is a free-list allocator. After a successful init over the caller's
  storage, every sequence of non-blocking allocations and frees, with the client writing to the
  blocks it holds, returns what the abstract allocator returns: blocks in free-list order,
  \<open>-EBUSY\<close> when none is left, \<open>-EINVAL\<close> for an address that is not a block and for a double
  free. No access leaves the storage.\<close>

theorem slab_refines_free_list:
  assumes contract: "os_sem_contract S live dead cnt lim"
    and init: "os_mem_slab_init S slab buffer bsize n mem = Some (0, Some q, mem')"
    and storage: "slab_storage buffer bsize n mem"
    and ok: "free_list_ok (slab_blocks q) (slab_blocks q) cs"
  shows "\<exists>q' mem''. slab_run S isr q mem' cs
           = Some (fst (free_list_run (slab_blocks q) (slab_blocks q) cs), q', mem'')
     \<and> slab_shape (snd (free_list_run (slab_blocks q) (slab_blocks q) cs)) q' mem''"
  using os_sem_contract.slab_run_refines [OF contract
      os_sem_contract.slab_init_inv [OF contract init storage] ok, of isr]
  by (auto simp: slab_inv_def)

text \<open>Two eight-byte blocks at address 0x100.\<close>

definition ref_storage :: words where
  "ref_storage = (\<lambda>a. if 0x100 \<le> a \<and> a < 0x110 then Some 0 else None)"

definition ref_slab :: "native os_sem os_mem_slab" where
  "ref_slab = \<lparr>slab_buffer = 0x100, free_list = 0x100, block_size = 8, num_blocks = 2,
     free_blocks = 2, available = \<lparr>sem_handle = Some (2, 2), sem_limit = 2\<rparr>, slab_initialized = True\<rparr>"

definition ref_slab_mem :: words where
  "ref_slab_mem = ref_storage(0x100 := Some 0x108, 0x108 := Some 0)"

lemma ref_slab_init:
  "os_mem_slab_init ref_sems None 0x100 8 2 ref_storage = Some (- EINVAL, None, ref_storage)"
  "os_mem_slab_init ref_sems (Some ref_slab) 0x100 8 2 ref_storage = Some (0, Some ref_slab, ref_slab_mem)"
  by (simp_all add: os_mem_slab_init_def ref_slab_def ref_slab_mem_def ref_sem_init SIZE_MAX_def
      os_mem_slab_zero_def slab_link_loop.simps store_word_def ref_storage_def Let_def)

lemma ref_slab_storage: "slab_storage 0x100 8 2 ref_storage"
proof -
  have "ref_storage (0x100 + of_nat i * 8) \<noteq> None" if "i < 2" for i
  proof -
    have "i = 0 \<or> i = 1" using that by auto
    then show ?thesis by (elim disjE) (simp_all add: ref_storage_def)
  qed
  then show ?thesis by (simp add: slab_storage_def)
qed

lemma ref_slab_blocks: "slab_blocks ref_slab = [0x100, 0x108]"
proof -
  have two: "[0..<2] = [0, 1 :: nat]" by (simp add: upt_rec)
  show ?thesis by (simp add: slab_blocks_def slab_block_def ref_slab_def two)
qed

theorem slab_refines_free_list_witness:
  "\<exists>q mem. slab_run ref_sems False ref_slab ref_slab_mem
       [SAlloc, SWrite 0x100 0xDEAD, SAlloc, SAlloc, SFree 0x104, SFree 0x100, SFree 0x100, SAlloc]
     = Some ([(0, 0x100), (0, 0), (0, 0x108), (- EBUSY, 0), (- EINVAL, 0), (0, 0), (- EINVAL, 0),
              (0, 0x100)], q, mem)"
  using slab_refines_free_list [OF ref_sems_contract ref_slab_init(2) ref_slab_storage, of
      "[SAlloc, SWrite 0x100 0xDEAD, SAlloc, SAlloc, SFree 0x104, SFree 0x100, SFree 0x100, SAlloc]" False]
  by (auto simp: ref_slab_blocks)

text \<open>C17: The blocks of an accepted slab are word-aligned, lie inside the caller's storage and do
  not overlap, computed without wrap-around; and the address check of \<open>os_mem_slab_free\<close>
  accepts exactly the block addresses.\<close>

theorem slab_blocks_disjoint:
  assumes contract: "os_sem_contract S live dead cnt lim"
    and init: "os_mem_slab_init S slab buffer bsize n mem = Some (0, Some q, mem')"
    and storage: "slab_storage buffer bsize n mem"
  shows "(\<forall>i < unat n. unat (slab_block q i) = unat buffer + i * unat bsize
            \<and> unat (slab_block q i) mod 4 = 0
            \<and> unat (slab_block q i) + unat bsize \<le> unat buffer + unat n * unat bsize)
     \<and> (\<forall>j < unat n. \<forall>i < j. unat (slab_block q i) + unat bsize \<le> unat (slab_block q j))
     \<and> (\<forall>a. slab_owns q a \<longleftrightarrow> (\<exists>i < unat n. a = slab_block q i))"
proof -
  have shape: "slab_shape (slab_blocks q) q mem'"
    using os_sem_contract.slab_init_inv [OF contract init storage] by (simp add: slab_inv_def)
  then have geom: "slab_geom q" by (simp add: slab_shape_def)
  have fields: "slab_buffer q = buffer" "block_size q = bsize" "num_blocks q = n"
    using init by (auto simp: os_mem_slab_init_def Let_def split: if_splits bind_splits prod.splits)
  have addr: "unat (slab_block q i) = unat buffer + i * unat bsize" if "i < unat n" for i
    using slab_block_address [OF geom] that by (simp add: fields)
  have "(unat buffer + i * unat bsize) mod 4 = 0" for i
    using geom by (simp add: slab_geom_def fields mod_eq_0_iff_dvd)
  moreover have "i * unat bsize + unat bsize \<le> j * unat bsize" if "i < j" for i j
    using that by (rule block_in_range)
  moreover have "slab_owns q a \<longleftrightarrow> (\<exists>i < unat n. a = slab_block q i)" for a
    using slab_owns_iff [OF geom, of a] by (auto simp: slab_blocks_def fields)
  ultimately show ?thesis using addr by auto
qed

theorem slab_blocks_disjoint_witness:
  "unat (slab_block ref_slab 0) + 8 \<le> unat (slab_block ref_slab (0 + 1))"
  using slab_blocks_disjoint [OF ref_sems_contract ref_slab_init(2) ref_slab_storage] by simp

end
