(* ===== verification/Mem_Slab_Interleaving.thy ===== *)
theory Mem_Slab_Interleaving
  imports Mem_Slab
begin

text \<open>
  Threads and interrupt handlers allocating and freeing blocks of one slab at the same time. An
  allocation is the take followed by its critical section; a free is its critical section
  (after the address checks, which read fields that never change) followed by the give. Any
  caller may pass any address to free, at any time. \<open>ss_out\<close> is the ghost list of the blocks
  that are handed out.
\<close>

datatype slab_pc = SlIdle | SlTaken | SlGive

record 's slab_sys =
  ss_slab :: "'s os_mem_slab"
  ss_mem :: words
  ss_pcs :: "slab_pc list"
  ss_out :: "u32 list"

inductive slab_step :: "'s sem_ops \<Rightarrow> ('s \<Rightarrow> nat) \<Rightarrow> 's slab_sys \<Rightarrow> 's slab_sys \<Rightarrow> bool"
  for S :: "'s sem_ops" and cnt :: "'s \<Rightarrow> nat" where
  alloc_take:
  "i < length (ss_pcs s) \<Longrightarrow> ss_pcs s ! i = SlIdle \<Longrightarrow> 0 < cnt (available (ss_slab s)) \<Longrightarrow>
   sem_take S isr (available (ss_slab s)) t = (0, av) \<Longrightarrow>
   slab_step S cnt s (s\<lparr>ss_slab := (ss_slab s)\<lparr>available := av\<rparr>, ss_pcs := (ss_pcs s)[i := SlTaken]\<rparr>)"
| alloc_fail:
  "i < length (ss_pcs s) \<Longrightarrow> ss_pcs s ! i = SlIdle \<Longrightarrow>
   sem_take S isr (available (ss_slab s)) t = (r, av) \<Longrightarrow> r \<noteq> 0 \<Longrightarrow>
   slab_step S cnt s (s\<lparr>ss_slab := (ss_slab s)\<lparr>available := av\<rparr>\<rparr>)"
| alloc_section:
  "i < length (ss_pcs s) \<Longrightarrow> ss_pcs s ! i = SlTaken \<Longrightarrow>
   slab_alloc_section (ss_slab s) (ss_mem s) = Some (a, q) \<Longrightarrow>
   slab_step S cnt s (s\<lparr>ss_slab := q, ss_pcs := (ss_pcs s)[i := SlIdle], ss_out := a # ss_out s\<rparr>)"
| free_section:
  "i < length (ss_pcs s) \<Longrightarrow> ss_pcs s ! i = SlIdle \<Longrightarrow> slab_owns (ss_slab s) a \<Longrightarrow>
   slab_free_section (ss_slab s) a (ss_mem s) = Some (0, q, mem) \<Longrightarrow>
   slab_step S cnt s (s\<lparr>ss_slab := q, ss_mem := mem, ss_pcs := (ss_pcs s)[i := SlGive],
                       ss_out := remove1 a (ss_out s)\<rparr>)"
| free_reject:
  "i < length (ss_pcs s) \<Longrightarrow> ss_pcs s ! i = SlIdle \<Longrightarrow> slab_owns (ss_slab s) a \<Longrightarrow>
   slab_free_section (ss_slab s) a (ss_mem s) = Some (r, q, mem) \<Longrightarrow> r \<noteq> 0 \<Longrightarrow>
   slab_step S cnt s (s\<lparr>ss_slab := q, ss_mem := mem\<rparr>)"
| free_give:
  "i < length (ss_pcs s) \<Longrightarrow> ss_pcs s ! i = SlGive \<Longrightarrow>
   slab_step S cnt s (s\<lparr>ss_slab := (ss_slab s)\<lparr>available := sem_give S isr (available (ss_slab s))\<rparr>,
                       ss_pcs := (ss_pcs s)[i := SlIdle]\<rparr>)"
| client_write:
  "a \<in> set (ss_out s) \<Longrightarrow> store_word (ss_mem s) a v = Some mem \<Longrightarrow>
   slab_step S cnt s (s\<lparr>ss_mem := mem\<rparr>)"

inductive slab_reachable :: "'s sem_ops \<Rightarrow> ('s \<Rightarrow> nat) \<Rightarrow> 's slab_sys \<Rightarrow> bool"
  for S :: "'s sem_ops" and cnt :: "'s \<Rightarrow> nat" where
  start:
  "os_mem_slab_init S slab buffer bsize n mem = Some (0, Some q, mem') \<Longrightarrow>
   slab_storage buffer bsize n mem \<Longrightarrow>
   slab_reachable S cnt \<lparr>ss_slab = q, ss_mem = mem', ss_pcs = replicate k SlIdle, ss_out = []\<rparr>"
| step: "slab_reachable S cnt s \<Longrightarrow> slab_step S cnt s s' \<Longrightarrow> slab_reachable S cnt s'"

definition slab_sys_inv ::
  "('s \<Rightarrow> bool) \<Rightarrow> ('s \<Rightarrow> nat) \<Rightarrow> ('s \<Rightarrow> nat) \<Rightarrow> u32 list \<Rightarrow> 's slab_sys \<Rightarrow> bool" where
  "slab_sys_inv live cnt lim xs s \<longleftrightarrow>
     slab_shape xs (ss_slab s) (ss_mem s)
     \<and> distinct (ss_out s) \<and> set (ss_out s) = set (slab_blocks (ss_slab s)) - set xs
     \<and> live (available (ss_slab s)) \<and> lim (available (ss_slab s)) = unat (num_blocks (ss_slab s))
     \<and> cnt (available (ss_slab s)) + count_at (\<lambda>p. p = SlTaken) (ss_pcs s)
         + count_at (\<lambda>p. p = SlGive) (ss_pcs s) = length xs"

lemmas slab_moves =
  count_at_update [where P = "\<lambda>p. p = SlTaken"] count_at_update [where P = "\<lambda>p. p = SlGive"]

context os_sem_contract begin

abbreviation ss_inv :: "u32 list \<Rightarrow> 's slab_sys \<Rightarrow> bool" where
  "ss_inv \<equiv> slab_sys_inv live cnt lim"

lemma ss_taken_section:
  assumes inv: "ss_inv xs s" and i: "i < length (ss_pcs s)" "ss_pcs s ! i = SlTaken"
  shows "\<exists>a ys q. xs = a # ys \<and> slab_alloc_section (ss_slab s) (ss_mem s) = Some (a, q)
     \<and> slab_shape ys q (ss_mem s) \<and> slab_blocks q = slab_blocks (ss_slab s)
     \<and> available q = available (ss_slab s) \<and> num_blocks q = num_blocks (ss_slab s)"
proof -
  have "0 < count_at (\<lambda>p. p = SlTaken) (ss_pcs s)" using i by (intro count_at_pos) auto
  then obtain a ys where xs: "xs = a # ys" using inv by (cases xs) (auto simp: slab_sys_inv_def)
  then have "slab_shape (a # ys) (ss_slab s) (ss_mem s)" using inv by (simp add: slab_sys_inv_def)
  from slab_alloc_section_pops [OF this] xs show ?thesis by blast
qed

lemma ss_alloc_step:
  assumes inv: "ss_inv xs s" and i: "i < length (ss_pcs s)" "ss_pcs s ! i = SlTaken"
    and sec: "slab_alloc_section (ss_slab s) (ss_mem s) = Some (a, q)"
  shows "\<exists>ys. ss_inv ys (s\<lparr>ss_slab := q, ss_pcs := (ss_pcs s)[i := SlIdle], ss_out := a # ss_out s\<rparr>)"
proof -
  obtain ys where ys: "xs = a # ys" "slab_shape ys q (ss_mem s)" "slab_blocks q = slab_blocks (ss_slab s)"
      "available q = available (ss_slab s)" "num_blocks q = num_blocks (ss_slab s)"
    using ss_taken_section [OF inv i] sec by auto
  have "distinct xs" "set xs \<subseteq> set (slab_blocks (ss_slab s))"
    using inv by (simp_all add: slab_sys_inv_def slab_shape_def)
  then have "set (a # ss_out s) = set (slab_blocks (ss_slab s)) - set ys" "a \<notin> set (ss_out s)"
    using inv ys(1) by (auto simp: slab_sys_inv_def)
  then have "ss_inv ys (s\<lparr>ss_slab := q, ss_pcs := (ss_pcs s)[i := SlIdle], ss_out := a # ss_out s\<rparr>)"
    using inv ys slab_moves [OF i(1), of SlIdle] i(2) by (simp add: slab_sys_inv_def)
  then show ?thesis ..
qed

lemma ss_free_step:
  assumes inv: "ss_inv xs s" and i: "i < length (ss_pcs s)" "ss_pcs s ! i = SlIdle"
    and owns: "slab_owns (ss_slab s) a"
    and sec: "slab_free_section (ss_slab s) a (ss_mem s) = Some (0, q, mem)"
  shows "ss_inv (a # xs) (s\<lparr>ss_slab := q, ss_mem := mem, ss_pcs := (ss_pcs s)[i := SlGive],
                       ss_out := remove1 a (ss_out s)\<rparr>)"
proof -
  have shape: "slab_shape xs (ss_slab s) (ss_mem s)" using inv by (simp add: slab_sys_inv_def)
  have a: "a \<in> set (slab_blocks (ss_slab s))" using owns shape slab_owns_iff by (auto simp: slab_shape_def)
  have notin: "a \<notin> set xs" using slab_free_section_double [OF shape, of a] sec by auto
  have q: "slab_shape (a # xs) q mem" "slab_blocks q = slab_blocks (ss_slab s)"
      "available q = available (ss_slab s)" "num_blocks q = num_blocks (ss_slab s)"
    using slab_free_section_pushes [OF shape a notin] sec by auto
  have "set (remove1 a (ss_out s)) = set (slab_blocks (ss_slab s)) - set (a # xs)"
    using inv by (auto simp: slab_sys_inv_def set_remove1_eq)
  then show ?thesis
    using inv q slab_moves [OF i(1), of SlGive] i(2) by (simp add: slab_sys_inv_def distinct_remove1)
qed

lemma ss_token_steps:
  assumes inv: "ss_inv xs s" and i: "i < length (ss_pcs s)"
  shows "ss_pcs s ! i = SlIdle \<Longrightarrow> 0 < cnt (available (ss_slab s)) \<Longrightarrow>
      sem_take S isr (available (ss_slab s)) t = (0, av) \<Longrightarrow>
      ss_inv xs (s\<lparr>ss_slab := (ss_slab s)\<lparr>available := av\<rparr>, ss_pcs := (ss_pcs s)[i := SlTaken]\<rparr>)"
    and "sem_take S isr (available (ss_slab s)) t = (r, av) \<Longrightarrow> r \<noteq> 0 \<Longrightarrow>
      ss_inv xs (s\<lparr>ss_slab := (ss_slab s)\<lparr>available := av\<rparr>\<rparr>)"
    and "ss_pcs s ! i = SlGive \<Longrightarrow>
      ss_inv xs (s\<lparr>ss_slab := (ss_slab s)\<lparr>available := sem_give S isr (available (ss_slab s))\<rparr>,
                   ss_pcs := (ss_pcs s)[i := SlIdle]\<rparr>)"
proof -
  have live: "live (available (ss_slab s))" using inv by (simp add: slab_sys_inv_def)
  {
    assume pc: "ss_pcs s ! i = SlIdle" and "0 < cnt (available (ss_slab s))"
      "sem_take S isr (available (ss_slab s)) t = (0, av)"
    then show "ss_inv xs (s\<lparr>ss_slab := (ss_slab s)\<lparr>available := av\<rparr>, ss_pcs := (ss_pcs s)[i := SlTaken]\<rparr>)"
      using inv take_succeeds [OF live, of isr t av] slab_moves [OF i, of SlTaken]
      by (simp add: slab_sys_inv_def)
  next
    assume "sem_take S isr (available (ss_slab s)) t = (r, av)" "r \<noteq> 0"
    then show "ss_inv xs (s\<lparr>ss_slab := (ss_slab s)\<lparr>available := av\<rparr>\<rparr>)"
      using inv take_fails [OF live, of isr t r av] by (simp add: slab_sys_inv_def)
  next
    assume pc: "ss_pcs s ! i = SlGive"
    then have "0 < count_at (\<lambda>p. p = SlGive) (ss_pcs s)" using i by (intro count_at_pos) auto
    moreover have "length xs \<le> unat (num_blocks (ss_slab s))"
      using inv slab_shape_length by (auto simp: slab_sys_inv_def)
    ultimately have "cnt (available (ss_slab s)) < lim (available (ss_slab s))"
      using inv by (simp add: slab_sys_inv_def)
    from give_below [OF live this, of isr] pc
    show "ss_inv xs (s\<lparr>ss_slab := (ss_slab s)\<lparr>available := sem_give S isr (available (ss_slab s))\<rparr>,
                   ss_pcs := (ss_pcs s)[i := SlIdle]\<rparr>)"
      using inv slab_moves [OF i, of SlIdle] by (simp add: slab_sys_inv_def)
  }
qed

lemma slab_step_inv: "slab_step S cnt s s' \<Longrightarrow> ss_inv xs s \<Longrightarrow> \<exists>ys. ss_inv ys s'"
proof (induction rule: slab_step.induct)
  case (free_reject i s a r q mem)
  have shape: "slab_shape xs (ss_slab s) (ss_mem s)" using free_reject by (simp add: slab_sys_inv_def)
  have a: "a \<in> set (slab_blocks (ss_slab s))"
    using free_reject(3) shape slab_owns_iff by (auto simp: slab_shape_def)
  have "q = ss_slab s \<and> mem = ss_mem s"
    using slab_free_section_pushes [OF shape a] slab_free_section_double [OF shape, of a]
      free_reject(4,5) by (cases "a \<in> set xs") auto
  then have "s\<lparr>ss_slab := q, ss_mem := mem\<rparr> = s" by simp
  with free_reject show ?case by auto
next
  case (client_write a s v mem)
  have "a \<in> set (slab_blocks (ss_slab s))" "a \<notin> set xs" "slab_shape xs (ss_slab s) (ss_mem s)"
    using client_write by (auto simp: slab_sys_inv_def)
  with slab_shape_write [of xs "ss_slab s" "ss_mem s" a v] client_write(2,3)
  have "ss_inv xs (s\<lparr>ss_mem := mem\<rparr>)" by (simp add: slab_sys_inv_def)
  then show ?case ..
qed (blast intro: ss_alloc_step ss_free_step ss_token_steps)+

lemma slab_reachable_inv: "slab_reachable S cnt s \<Longrightarrow> \<exists>xs. ss_inv xs s"
proof (induction rule: slab_reachable.induct)
  case (start slab buffer bsize n mem q mem' k)
  have "ss_inv (slab_blocks q) \<lparr>ss_slab = q, ss_mem = mem', ss_pcs = replicate k SlIdle, ss_out = []\<rparr>"
    using slab_init_inv [OF start] by (simp add: slab_sys_inv_def slab_inv_def count_at_def)
  then show ?case ..
next
  case (step s s')
  then show ?case by (blast dest: slab_step_inv)
qed

end

section \<open>Properties\<close>

text \<open>C16: With threads and interrupt handlers interleaved inside allocations and frees, double and
  foreign frees included, and clients writing to their blocks: no block is ever handed out twice
  at the same time, every block is either handed out or on the free list (none leaks), and an
  allocation past its take always finds a block, so it never follows a NULL link.\<close>

theorem slab_concurrent_safety:
  assumes contract: "os_sem_contract S live dead cnt lim" and reach: "slab_reachable S cnt s"
  shows "distinct (ss_out s)
     \<and> (\<exists>xs. slab_chain (ss_mem s) (free_list (ss_slab s)) xs \<and> distinct xs
            \<and> set xs \<inter> set (ss_out s) = {}
            \<and> set xs \<union> set (ss_out s) = set (slab_blocks (ss_slab s)))
     \<and> (\<forall>i < length (ss_pcs s). ss_pcs s ! i = SlTaken \<longrightarrow>
          slab_alloc_section (ss_slab s) (ss_mem s) \<noteq> None)"
proof -
  obtain xs where inv: "slab_sys_inv live cnt lim xs s"
    using os_sem_contract.slab_reachable_inv [OF contract reach] by blast
  have "slab_alloc_section (ss_slab s) (ss_mem s) \<noteq> None"
    if "i < length (ss_pcs s)" "ss_pcs s ! i = SlTaken" for i
    using os_sem_contract.ss_taken_section [OF contract inv that] by auto
  moreover have "set xs \<inter> set (ss_out s) = {}" "set xs \<union> set (ss_out s) = set (slab_blocks (ss_slab s))"
      "slab_chain (ss_mem s) (free_list (ss_slab s)) xs" "distinct xs" "distinct (ss_out s)"
    using inv by (auto simp: slab_sys_inv_def slab_shape_def)
  ultimately show ?thesis by blast
qed

theorem slab_concurrent_safety_witness:
  "\<exists>s :: native os_sem slab_sys. ss_out s = [0x100] \<and> slab_blocks (ss_slab s) = [0x100, 0x108]
     \<and> (\<exists>xs. slab_chain (ss_mem s) (free_list (ss_slab s)) xs \<and> set xs \<union> {0x100} = {0x100, 0x108})"
proof -
  let ?av = "\<lparr>sem_handle = Some (1, 2), sem_limit = 2\<rparr> :: native os_sem"
  let ?s0 = "\<lparr>ss_slab = ref_slab, ss_mem = ref_slab_mem, ss_pcs = [SlIdle], ss_out = []\<rparr>"
  let ?s1 = "?s0\<lparr>ss_slab := ref_slab\<lparr>available := ?av\<rparr>, ss_pcs := [SlTaken]\<rparr>"
  let ?q = "ref_slab\<lparr>available := ?av, free_list := 0x108, free_blocks := 1\<rparr>"
  let ?s2 = "?s1\<lparr>ss_slab := ?q, ss_pcs := [SlIdle], ss_out := [0x100]\<rparr>"
  have "slab_reachable ref_sems (sem_read native_cnt) ?s0"
    using slab_reachable.start [OF ref_slab_init(2) ref_slab_storage, of "sem_read native_cnt" 1] by simp
  moreover have "slab_step ref_sems (sem_read native_cnt) ?s0 ?s1"
    using slab_step.alloc_take [of 0 ?s0 "sem_read native_cnt" ref_sems False 0 ?av]
    by (simp add: ref_slab_def sem_read_def native_cnt_def ref_sems_def freertos_sem_ops_def
        freertos_os_sem_take_def native_freertos_def native_take_def via_ptr_def)
  moreover have "slab_step ref_sems (sem_read native_cnt) ?s1 ?s2"
    using slab_step.alloc_section [of 0 ?s1 "0x100" ?q ref_sems "sem_read native_cnt"]
    by (simp add: slab_alloc_section_def ref_slab_def ref_slab_mem_def)
  ultimately have "slab_reachable ref_sems (sem_read native_cnt) ?s2"
    by (blast intro: slab_reachable.step)
  moreover have "slab_blocks ?q = [0x100, 0x108]"
  proof -
    have "slab_block ?q = slab_block ref_slab" by (simp add: slab_block_def fun_eq_iff)
    with ref_slab_blocks show ?thesis by (simp add: slab_blocks_def)
  qed
  ultimately show ?thesis
    using slab_concurrent_safety [OF ref_sems_contract, of ?s2] by (intro exI [of _ ?s2]) auto
qed

end
