(* ===== verification/Signal.thy ===== *)
theory Signal
  imports Sem_FreeRTOS
begin

text \<open>
  \<open>src/common/signal.c\<close>: one pending notification with an integer result.

  The first part translates the calls, the second part interleaves threads and interrupt
  handlers inside them. \<open>os_signal_raise\<close> and \<open>os_signal_reset\<close> are one critical section
  each; \<open>os_signal_wait\<close> is a take and, later, a critical section. The loop of
  \<open>os_signal_reset\<close> is a partial function whose termination follows from the semaphore
  contract.
\<close>

section \<open>State and operations\<close>

record 's os_signal =
  notification :: 's
  sg_result :: int
  raised :: bool
  sg_initialized :: bool

definition os_signal_zero :: "'s sem_ops \<Rightarrow> 's os_signal" where
  "os_signal_zero S =
     \<lparr>notification = sem_zero S, sg_result = 0, raised = False, sg_initialized = False\<rparr>"

definition os_signal_init :: "'s sem_ops \<Rightarrow> 's os_signal option \<Rightarrow> int \<times> 's os_signal option" where
  "os_signal_init S signal =
     (case signal of
        None \<Rightarrow> (- EINVAL, None)
      | Some _ \<Rightarrow>
          let g = os_signal_zero S;
              (result, n) = sem_init S (notification g) 0 1;
              g = g\<lparr>notification := n\<rparr>
          in if result \<noteq> 0 then (- ENOMEM, Some g) else (0, Some (g\<lparr>sg_initialized := True\<rparr>)))"

definition os_signal_deinit ::
  "'s sem_ops \<Rightarrow> bool \<Rightarrow> 's os_signal option \<Rightarrow> int \<times> 's os_signal option" where
  "os_signal_deinit S isr signal =
     (case signal of
        None \<Rightarrow> (- EINVAL, None)
      | Some g \<Rightarrow>
          if \<not> sg_initialized g then (- EINVAL, Some g)
          else
            let (result, n) = sem_deinit S isr (notification g)
            in (result, Some (if result = 0 then os_signal_zero S else g\<lparr>notification := n\<rparr>)))"

definition os_signal_raise ::
  "'s sem_ops \<Rightarrow> bool \<Rightarrow> 's os_signal option \<Rightarrow> int \<Rightarrow> int \<times> 's os_signal option" where
  "os_signal_raise S isr signal result =
     (case signal of
        None \<Rightarrow> (- EINVAL, None)
      | Some g \<Rightarrow>
          if \<not> sg_initialized g then (- EINVAL, Some g)
          else if raised g then (- EBUSY, Some g)
          else (0, Some (g\<lparr>sg_result := result, raised := True,
                          notification := sem_give S isr (notification g)\<rparr>)))"

text \<open>The critical section of \<open>os_signal_wait\<close>.\<close>

definition signal_wait_section :: "'s os_signal \<Rightarrow> int \<times> 's os_signal" where
  "signal_wait_section g = (sg_result g, g\<lparr>raised := False\<rparr>)"

definition os_signal_wait ::
  "'s sem_ops \<Rightarrow> bool \<Rightarrow> 's os_signal option \<Rightarrow> u32 \<Rightarrow> int option \<Rightarrow>
   int \<times> 's os_signal option \<times> int option" where
  "os_signal_wait S isr signal timeout result =
     (case (signal, result) of
        (Some g, Some out) \<Rightarrow>
          if \<not> sg_initialized g then (- EINVAL, signal, result)
          else
            let (status, n) = sem_take S isr (notification g) timeout; g = g\<lparr>notification := n\<rparr>
            in if status \<noteq> 0 then (status, Some g, result)
               else let (r, g) = signal_wait_section g in (0, Some g, Some r)
      | _ \<Rightarrow> (- EINVAL, signal, result))"

partial_function (option) signal_drain :: "'s sem_ops \<Rightarrow> bool \<Rightarrow> 's \<Rightarrow> 's option" where
  "signal_drain S isr n =
     (case sem_trytake S isr n of (r, n') \<Rightarrow> if r = 0 then signal_drain S isr n' else Some n')"

text \<open>\<open>None\<close> stands for a reset that does not return.\<close>

definition os_signal_reset ::
  "'s sem_ops \<Rightarrow> bool \<Rightarrow> 's os_signal option \<Rightarrow> (int \<times> 's os_signal option) option" where
  "os_signal_reset S isr signal =
     (case signal of
        None \<Rightarrow> Some (- EINVAL, None)
      | Some g \<Rightarrow>
          if \<not> sg_initialized g then Some (- EINVAL, Some g)
          else map_option (\<lambda>n. (0, Some (g\<lparr>notification := n, raised := False, sg_result := 0\<rparr>)))
                 (signal_drain S isr (notification g)))"

section \<open>The calls one at a time\<close>

definition signal_inv ::
  "('s \<Rightarrow> bool) \<Rightarrow> ('s \<Rightarrow> nat) \<Rightarrow> ('s \<Rightarrow> nat) \<Rightarrow> 's os_signal \<Rightarrow> bool" where
  "signal_inv live cnt lim g \<longleftrightarrow>
     sg_initialized g \<and> live (notification g) \<and> lim (notification g) = 1
     \<and> cnt (notification g) = of_bool (raised g)"

text \<open>The pending result, which is all a client can observe.\<close>

definition pending :: "'s os_signal \<Rightarrow> int option" where
  "pending g = (if raised g then Some (sg_result g) else None)"

context os_sem_contract begin

lemma signal_drain_terminates:
  "live n \<Longrightarrow> \<exists>n'. signal_drain S isr n = Some n' \<and> live n' \<and> cnt n' = 0 \<and> lim n' = lim n"
proof (induction "cnt n" arbitrary: n)
  case 0
  then obtain n' where "sem_trytake S isr n = (- EBUSY, n')" "live n'" "cnt n' = 0" "lim n' = lim n"
    using trytake_empty [of n isr] by auto
  then show ?case by (subst signal_drain.simps) simp
next
  case (Suc k)
  then obtain n' where n': "sem_trytake S isr n = (0, n')" "live n'" "cnt n' = k" "lim n' = lim n"
    using trytake_token [of n isr] by auto
  then obtain n'' where "signal_drain S isr n' = Some n''" "live n''" "cnt n'' = 0" "lim n'' = lim n'"
    using Suc.hyps(1) [of n'] by auto
  with n' show ?case by (subst signal_drain.simps) simp
qed

lemma signal_init_inv:
  "os_signal_init S signal = (0, Some g) \<Longrightarrow> signal_inv live cnt lim g \<and> pending g = None"
  by (auto simp: os_signal_init_def os_signal_zero_def signal_inv_def pending_def Let_def
      dest!: init_ok split: option.splits prod.splits if_splits)

lemma signal_raise_spec:
  assumes "signal_inv live cnt lim g"
  shows "pending g = None \<Longrightarrow> \<exists>g'. os_signal_raise S isr (Some g) r = (0, Some g')
           \<and> signal_inv live cnt lim g' \<and> pending g' = Some r"
    and "pending g = Some r' \<Longrightarrow> os_signal_raise S isr (Some g) r = (- EBUSY, Some g)"
  using assms give_below [of "notification g" isr]
  by (auto simp: signal_inv_def pending_def os_signal_raise_def split: if_splits)

lemma signal_wait_spec:
  assumes inv: "signal_inv live cnt lim g"
  shows "pending g = Some r \<Longrightarrow> may_wait isr t \<Longrightarrow>
      \<exists>g'. os_signal_wait S isr (Some g) t (Some out) = (0, Some g', Some r)
         \<and> signal_inv live cnt lim g' \<and> pending g' = None"
    and "pending g = None \<Longrightarrow>
      \<exists>g'. os_signal_wait S isr (Some g) 0 (Some out) = (- EBUSY, Some g', Some out)
         \<and> signal_inv live cnt lim g' \<and> pending g' = None"
proof -
  assume p: "pending g = Some r" and wait: "may_wait isr t"
  then have "live (notification g)" "0 < cnt (notification g)"
    using inv by (auto simp: signal_inv_def pending_def split: if_splits)
  with take_token [OF _ wait] obtain n where "sem_take S isr (notification g) t = (0, n)" "live n"
      "cnt n = cnt (notification g) - 1" "lim n = lim (notification g)" by blast
  with inv p show "\<exists>g'. os_signal_wait S isr (Some g) t (Some out) = (0, Some g', Some r)
         \<and> signal_inv live cnt lim g' \<and> pending g' = None"
    by (auto simp: signal_inv_def pending_def os_signal_wait_def signal_wait_section_def split: if_splits)
next
  assume p: "pending g = None"
  then have "live (notification g)" "cnt (notification g) = 0"
    using inv by (auto simp: signal_inv_def pending_def split: if_splits)
  with take_empty [of "notification g" isr] obtain n where "sem_take S isr (notification g) 0 = (- EBUSY, n)"
      "live n" "cnt n = 0" "lim n = lim (notification g)" by blast
  with inv p show "\<exists>g'. os_signal_wait S isr (Some g) 0 (Some out) = (- EBUSY, Some g', Some out)
         \<and> signal_inv live cnt lim g' \<and> pending g' = None"
    by (auto simp: signal_inv_def pending_def os_signal_wait_def split: if_splits)
qed

lemma signal_reset_spec:
  assumes inv: "signal_inv live cnt lim g"
  shows "\<exists>g'. os_signal_reset S isr (Some g) = Some (0, Some g') \<and> signal_inv live cnt lim g'
           \<and> pending g' = None"
proof -
  obtain n where "signal_drain S isr (notification g) = Some n" "live n" "cnt n = 0" "lim n = 1"
    using signal_drain_terminates [of "notification g" isr] inv by (auto simp: signal_inv_def)
  with inv show ?thesis
    by (intro exI [of _ "g\<lparr>notification := n, raised := False, sg_result := 0\<rparr>"])
      (simp add: os_signal_reset_def signal_inv_def pending_def)
qed

end

datatype signal_op = SigRaise int | SigWait | SigReset

text \<open>The abstract signal is the pending result.\<close>

fun mailbox_call :: "int option \<Rightarrow> signal_op \<Rightarrow> (int \<times> int option) \<times> int option" where
  "mailbox_call p (SigRaise r) =
     (case p of None \<Rightarrow> ((0, None), Some r) | Some _ \<Rightarrow> ((- EBUSY, None), p))"
| "mailbox_call p SigWait =
     (case p of None \<Rightarrow> ((- EBUSY, None), None) | Some r \<Rightarrow> ((0, Some r), None))"
| "mailbox_call p SigReset = ((0, None), None)"

fun mailbox_run :: "int option \<Rightarrow> signal_op list \<Rightarrow> (int \<times> int option) list \<times> int option" where
  "mailbox_run p [] = ([], p)"
| "mailbox_run p (c # cs) =
     (let (r, p) = mailbox_call p c; (rs, p) = mailbox_run p cs in (r # rs, p))"

fun signal_call ::
  "'s sem_ops \<Rightarrow> bool \<Rightarrow> 's os_signal \<Rightarrow> signal_op \<Rightarrow> ((int \<times> int option) \<times> 's os_signal) option" where
  "signal_call S isr g (SigRaise r) =
     (case os_signal_raise S isr (Some g) r of
        (e, Some g') \<Rightarrow> Some ((e, None), g') | _ \<Rightarrow> None)"
| "signal_call S isr g SigWait =
     (case os_signal_wait S isr (Some g) 0 (Some 0) of
        (e, Some g', Some r) \<Rightarrow> Some ((e, if e = 0 then Some r else None), g') | _ \<Rightarrow> None)"
| "signal_call S isr g SigReset =
     (case os_signal_reset S isr (Some g) of
        Some (e, Some g') \<Rightarrow> Some ((e, None), g') | _ \<Rightarrow> None)"

fun signal_run ::
  "'s sem_ops \<Rightarrow> bool \<Rightarrow> 's os_signal \<Rightarrow> signal_op list \<Rightarrow>
   ((int \<times> int option) list \<times> 's os_signal) option" where
  "signal_run S isr g [] = Some ([], g)"
| "signal_run S isr g (c # cs) = do {
     (r, g) \<leftarrow> signal_call S isr g c;
     (rs, g) \<leftarrow> signal_run S isr g cs;
     Some (r # rs, g)
   }"

context os_sem_contract begin

lemma signal_call_refines:
  assumes inv: "signal_inv live cnt lim g"
  shows "\<exists>g'. signal_call S isr g c = Some (fst (mailbox_call (pending g) c), g')
     \<and> signal_inv live cnt lim g' \<and> pending g' = snd (mailbox_call (pending g) c)"
proof (cases c)
  case (SigRaise r)
  show ?thesis
  proof (cases "pending g")
    case None
    with SigRaise signal_raise_spec(1) [OF inv, of isr r] show ?thesis by auto
  next
    case (Some r')
    with SigRaise signal_raise_spec(2) [OF inv, of r' isr r] inv show ?thesis by auto
  qed
next
  case SigWait
  show ?thesis
  proof (cases "pending g")
    case None
    with SigWait signal_wait_spec(2) [OF inv, of isr 0] show ?thesis by auto
  next
    case (Some r')
    with SigWait signal_wait_spec(1) [OF inv, of r' isr 0 0] show ?thesis by (auto simp: may_wait_def)
  qed
next
  case SigReset
  with signal_reset_spec [OF inv, of isr] show ?thesis by auto
qed

lemma signal_run_refines:
  "signal_inv live cnt lim g \<Longrightarrow>
   \<exists>g'. signal_run S isr g cs = Some (fst (mailbox_run (pending g) cs), g')
     \<and> signal_inv live cnt lim g' \<and> pending g' = snd (mailbox_run (pending g) cs)"
proof (induction cs arbitrary: g)
  case Nil
  then show ?case by simp
next
  case (Cons c cs)
  obtain g1 where g1: "signal_call S isr g c = Some (fst (mailbox_call (pending g) c), g1)"
      "signal_inv live cnt lim g1" "pending g1 = snd (mailbox_call (pending g) c)"
    using signal_call_refines [OF Cons.prems] by blast
  with Cons.IH [OF g1(2)] show ?case by (auto simp: split_beta)
qed

end

section \<open>Threads and interrupts interleaved\<close>

text \<open>
  \<open>gs_raised\<close> and \<open>gs_delivered\<close> are ghost logs of the results that successful raises gave
  and that successful waits returned. The flag \<open>R\<close> says whether \<open>os_signal_reset\<close> is used.
\<close>

datatype sig_pc = SgIdle | SgTaken

record 's sig_sys =
  gs_signal :: "'s os_signal"
  gs_pcs :: "sig_pc list"
  gs_raised :: "int list"
  gs_delivered :: "int list"

inductive sig_step :: "'s sem_ops \<Rightarrow> ('s \<Rightarrow> nat) \<Rightarrow> bool \<Rightarrow> 's sig_sys \<Rightarrow> 's sig_sys \<Rightarrow> bool"
  for S :: "'s sem_ops" and cnt :: "'s \<Rightarrow> nat" and R :: bool where
  raise:
  "os_signal_raise S isr (Some (gs_signal s)) r = (0, Some g) \<Longrightarrow>
   sig_step S cnt R s (s\<lparr>gs_signal := g, gs_raised := gs_raised s @ [r]\<rparr>)"
| wait_take:
  "i < length (gs_pcs s) \<Longrightarrow> gs_pcs s ! i = SgIdle \<Longrightarrow> 0 < cnt (notification (gs_signal s)) \<Longrightarrow>
   sem_take S isr (notification (gs_signal s)) t = (0, n) \<Longrightarrow>
   sig_step S cnt R s (s\<lparr>gs_signal := (gs_signal s)\<lparr>notification := n\<rparr>, gs_pcs := (gs_pcs s)[i := SgTaken]\<rparr>)"
| wait_fail:
  "i < length (gs_pcs s) \<Longrightarrow> gs_pcs s ! i = SgIdle \<Longrightarrow>
   sem_take S isr (notification (gs_signal s)) t = (e, n) \<Longrightarrow> e \<noteq> 0 \<Longrightarrow>
   sig_step S cnt R s (s\<lparr>gs_signal := (gs_signal s)\<lparr>notification := n\<rparr>\<rparr>)"
| wait_section:
  "i < length (gs_pcs s) \<Longrightarrow> gs_pcs s ! i = SgTaken \<Longrightarrow>
   signal_wait_section (gs_signal s) = (r, g) \<Longrightarrow>
   sig_step S cnt R s (s\<lparr>gs_signal := g, gs_pcs := (gs_pcs s)[i := SgIdle],
                        gs_delivered := gs_delivered s @ [r]\<rparr>)"
| reset:
  "R \<Longrightarrow> os_signal_reset S isr (Some (gs_signal s)) = Some (0, Some g) \<Longrightarrow>
   sig_step S cnt R s (s\<lparr>gs_signal := g\<rparr>)"

inductive sig_reachable :: "'s sem_ops \<Rightarrow> ('s \<Rightarrow> nat) \<Rightarrow> bool \<Rightarrow> 's sig_sys \<Rightarrow> bool"
  for S :: "'s sem_ops" and cnt :: "'s \<Rightarrow> nat" and R :: bool where
  start:
  "os_signal_init S (Some g0) = (0, Some g) \<Longrightarrow>
   sig_reachable S cnt R \<lparr>gs_signal = g, gs_pcs = replicate k SgIdle, gs_raised = [], gs_delivered = []\<rparr>"
| step: "sig_reachable S cnt R s \<Longrightarrow> sig_step S cnt R s s' \<Longrightarrow> sig_reachable S cnt R s'"

definition sig_sys_inv ::
  "('s \<Rightarrow> bool) \<Rightarrow> ('s \<Rightarrow> nat) \<Rightarrow> ('s \<Rightarrow> nat) \<Rightarrow> 's sig_sys \<Rightarrow> bool" where
  "sig_sys_inv live cnt lim s \<longleftrightarrow>
     sg_initialized (gs_signal s) \<and> live (notification (gs_signal s))
     \<and> lim (notification (gs_signal s)) = 1
     \<and> cnt (notification (gs_signal s)) + count_at (\<lambda>p. p = SgTaken) (gs_pcs s)
         = of_bool (raised (gs_signal s))
     \<and> gs_raised s = gs_delivered s @ (case pending (gs_signal s) of None \<Rightarrow> [] | Some r \<Rightarrow> [r])"

lemma pending_notification [simp]: "pending (g\<lparr>notification := n\<rparr>) = pending g"
  by (simp add: pending_def)

lemmas sig_moves = count_at_update [where P = "\<lambda>p. p = SgTaken"]

context os_sem_contract begin

lemma sig_step_inv:
  assumes "sig_step S cnt False s s'" "sig_sys_inv live cnt lim s"
  shows "sig_sys_inv live cnt lim s'"
  using assms
proof (induction rule: sig_step.induct)
  case (raise isr s r g)
  then have low: "\<not> raised (gs_signal s)" "cnt (notification (gs_signal s)) < lim (notification (gs_signal s))"
    by (auto simp: os_signal_raise_def sig_sys_inv_def split: if_splits)
  have g: "g = (gs_signal s)\<lparr>sg_result := r, raised := True,
      notification := sem_give S isr (notification (gs_signal s))\<rparr>"
    using raise(1) low by (auto simp: os_signal_raise_def split: if_splits)
  show ?case
    using raise(2) low give_below [of "notification (gs_signal s)" isr]
    by (simp add: g sig_sys_inv_def pending_def)
next
  case (wait_take i s isr t n)
  have "live (notification (gs_signal s))" using wait_take by (simp add: sig_sys_inv_def)
  from take_succeeds [OF this wait_take(3,4)] show ?case
    using wait_take sig_moves [OF wait_take(1), of SgTaken] by (simp add: sig_sys_inv_def)
next
  case (wait_fail i s isr t e n)
  then show ?case
    using take_fails [of "notification (gs_signal s)" isr t e n] by (simp add: sig_sys_inv_def)
next
  case (wait_section i s r g)
  have "0 < count_at (\<lambda>p. p = SgTaken) (gs_pcs s)" using wait_section by (intro count_at_pos) auto
  then have "raised (gs_signal s)" using wait_section(4) by (cases "raised (gs_signal s)") (auto simp: sig_sys_inv_def)
  then show ?case
    using wait_section sig_moves [OF wait_section(1), of SgIdle]
    by (auto simp: sig_sys_inv_def signal_wait_section_def pending_def)
next
  case (reset isr s g)
  then show ?case by simp
qed

lemma sig_reachable_inv: "sig_reachable S cnt False s \<Longrightarrow> sig_sys_inv live cnt lim s"
proof (induction rule: sig_reachable.induct)
  case (start g0 g k)
  then show ?case
    using signal_init_inv [OF start] by (auto simp: sig_sys_inv_def signal_inv_def count_at_def pending_def split: if_splits)
next
  case (step s s')
  then show ?case by (blast intro: sig_step_inv)
qed

end

text \<open>
  With resets: a reset between a waiter's take and its critical section leaves that waiter with
  a claim on a result that is gone. It then consumes the next raise, whose token is still there
  for a second waiter.
\<close>

context os_sem_contract begin

lemma signal_reset_section:
  assumes "sg_initialized g" "live (notification g)" "lim (notification g) = 1"
  shows "\<exists>g'. os_signal_reset S isr (Some g) = Some (0, Some g') \<and> signal_inv live cnt lim g'
           \<and> pending g' = None"
proof -
  obtain n where "signal_drain S isr (notification g) = Some n" "live n" "cnt n = 0" "lim n = 1"
    using signal_drain_terminates [OF assms(2), of isr] assms(3) by auto
  with assms(1) show ?thesis
    by (intro exI [of _ "g\<lparr>notification := n, raised := False, sg_result := 0\<rparr>"])
      (simp add: os_signal_reset_def signal_inv_def pending_def)
qed

lemma signal_token:
  assumes "live (notification g)" "cnt (notification g) = 1"
  obtains n where "sem_take S False (notification g) 0 = (0, n)" "live n" "cnt n = 0"
    "lim n = lim (notification g)"
  using take_token [OF assms(1), of False 0] assms(2) that by (auto simp: may_wait_def)

lemma signal_race:
  assumes init: "os_signal_init S (Some g0) = (0, Some g)"
  shows "\<exists>s. sig_reachable S cnt True s \<and> gs_raised s = [a, b] \<and> gs_delivered s = [b, b]"
proof -
  let ?s0 = "\<lparr>gs_signal = g, gs_pcs = [SgIdle], gs_raised = [], gs_delivered = []\<rparr>"
  have s0: "sig_reachable S cnt True ?s0" using sig_reachable.start [OF init, of cnt True 1] by simp
  have inv: "signal_inv live cnt lim g" "pending g = None" using signal_init_inv [OF init] by auto
  obtain g1 where g1: "os_signal_raise S False (Some g) a = (0, Some g1)" "signal_inv live cnt lim g1"
      "pending g1 = Some a"
    using signal_raise_spec(1) [OF inv, of False a] by blast
  have one: "live (notification g1)" "cnt (notification g1) = 1" "lim (notification g1) = 1" "sg_initialized g1"
    using g1 by (auto simp: signal_inv_def pending_def split: if_splits)
  obtain n where n: "sem_take S False (notification g1) 0 = (0, n)" "live n" "cnt n = 0" "lim n = 1"
    using signal_token [OF one(1,2)] one(3) by metis
  let ?g2 = "g1\<lparr>notification := n\<rparr>"
  obtain g3 where g3: "os_signal_reset S False (Some ?g2) = Some (0, Some g3)"
      "signal_inv live cnt lim g3" "pending g3 = None"
    using signal_reset_section [of ?g2 False] n one(4) by auto
  obtain g4 where g4: "os_signal_raise S False (Some g3) b = (0, Some g4)" "signal_inv live cnt lim g4"
      "pending g4 = Some b"
    using signal_raise_spec(1) [OF g3(2,3), of False b] by blast
  have four: "live (notification g4)" "cnt (notification g4) = 1" "sg_result g4 = b"
    using g4 by (auto simp: signal_inv_def pending_def split: if_splits)
  obtain n' where n': "sem_take S False (notification g4) 0 = (0, n')"
    using signal_token [OF four(1,2)] by metis
  let ?s1 = "?s0\<lparr>gs_signal := g1, gs_raised := [a]\<rparr>"
  let ?s2 = "?s1\<lparr>gs_signal := ?g2, gs_pcs := [SgTaken]\<rparr>"
  let ?s3 = "?s2\<lparr>gs_signal := g3\<rparr>"
  let ?s4 = "?s3\<lparr>gs_signal := g4, gs_raised := [a, b]\<rparr>"
  let ?s5 = "?s4\<lparr>gs_signal := g4\<lparr>raised := False\<rparr>, gs_pcs := [SgIdle], gs_delivered := [b]\<rparr>"
  let ?s6 = "?s5\<lparr>gs_signal := g4\<lparr>raised := False, notification := n'\<rparr>, gs_pcs := [SgTaken]\<rparr>"
  let ?s7 = "?s6\<lparr>gs_pcs := [SgIdle], gs_delivered := [b, b]\<rparr>"
  have "sig_step S cnt True ?s0 ?s1" using sig_step.raise [of S False ?s0 a g1 cnt True] g1(1) by simp
  moreover have "sig_step S cnt True ?s1 ?s2"
    using sig_step.wait_take [of 0 ?s1 cnt S False 0 n True] n(1) one(2) by simp
  moreover have "sig_step S cnt True ?s2 ?s3"
    using sig_step.reset [of True S False ?s2 g3 cnt] g3(1) by simp
  moreover have "sig_step S cnt True ?s3 ?s4" using sig_step.raise [of S False ?s3 b g4 cnt True] g4(1) by simp
  moreover have "sig_step S cnt True ?s4 ?s5"
    using sig_step.wait_section [of 0 ?s4 b "g4\<lparr>raised := False\<rparr>" S cnt True] four(3)
    by (simp add: signal_wait_section_def)
  moreover have "sig_step S cnt True ?s5 ?s6"
    using sig_step.wait_take [of 0 ?s5 cnt S False 0 n' True] n' four(2) by simp
  moreover have "sig_step S cnt True ?s6 ?s7"
    using sig_step.wait_section [of 0 ?s6 b "g4\<lparr>raised := False, notification := n'\<rparr>" S cnt True] four(3)
    by (simp add: signal_wait_section_def)
  ultimately have "sig_reachable S cnt True ?s7"
    using s0 by (meson sig_reachable.step)
  then show ?thesis by (intro exI [of _ ?s7]) simp
qed

end

section \<open>Properties\<close>

text \<open>C18: One caller at a time, a signal is a mailbox for one result: a raise fills it or returns
  \<open>-EBUSY\<close> and leaves the pending result alone, a wait empties it and returns that result, a
  reset empties it; and every call, the draining loop of the reset included, returns.\<close>

theorem signal_refines_mailbox:
  assumes contract: "os_sem_contract S live dead cnt lim"
    and init: "os_signal_init S signal = (0, Some g)"
  shows "\<exists>g'. signal_run S isr g cs = Some (fst (mailbox_run None cs), g')
     \<and> pending g' = snd (mailbox_run None cs)"
  using os_sem_contract.signal_run_refines [OF contract, of g isr cs]
    os_sem_contract.signal_init_inv [OF contract init] by auto

definition ref_signal :: "native os_sem os_signal" where
  "ref_signal = \<lparr>notification = \<lparr>sem_handle = Some (0, 1), sem_limit = 1\<rparr>, sg_result = 0,
                 raised = False, sg_initialized = True\<rparr>"

lemma ref_signal_init: "os_signal_init ref_sems (Some g) = (0, Some ref_signal)"
  by (simp add: os_signal_init_def os_signal_zero_def ref_sem_init ref_signal_def)

theorem signal_refines_mailbox_witness:
  "\<exists>g. signal_run ref_sems True ref_signal
         [SigWait, SigRaise 7, SigRaise 8, SigWait, SigRaise 9, SigReset, SigWait]
       = Some ([(- EBUSY, None), (0, None), (- EBUSY, None), (0, Some 7), (0, None), (0, None),
                (- EBUSY, None)], g)"
  using signal_refines_mailbox [OF ref_sems_contract ref_signal_init [of ref_signal],
      of True "[SigWait, SigRaise 7, SigRaise 8, SigWait, SigRaise 9, SigReset, SigWait]"]
  by auto

text \<open>C19: With any number of raisers and waiters interleaved, and no reset, every result that a
  raise accepted is delivered to exactly one wait, in order; the only one not yet delivered is
  the pending one.\<close>

theorem signal_delivers_once:
  assumes contract: "os_sem_contract S live dead cnt lim" and reach: "sig_reachable S cnt False s"
  shows "gs_raised s = gs_delivered s @ (case pending (gs_signal s) of None \<Rightarrow> [] | Some r \<Rightarrow> [r])"
  using os_sem_contract.sig_reachable_inv [OF contract reach] by (simp add: sig_sys_inv_def)

theorem signal_delivers_once_witness:
  "\<exists>g. os_signal_raise ref_sems True (Some ref_signal) 7 = (0, Some g)
     \<and> [7] = [] @ (case pending g of None \<Rightarrow> [] | Some r \<Rightarrow> [r])"
proof -
  let ?s = "\<lparr>gs_signal = ref_signal, gs_pcs = [SgIdle], gs_raised = [], gs_delivered = []\<rparr>"
  obtain g where g: "os_signal_raise ref_sems True (Some ref_signal) 7 = (0, Some g)"
    by (simp add: os_signal_raise_def ref_signal_def)
  have "sig_reachable ref_sems (sem_read native_cnt) False ?s"
    using sig_reachable.start [OF ref_signal_init, of "sem_read native_cnt" False 1] by simp
  moreover have "sig_step ref_sems (sem_read native_cnt) False ?s (?s\<lparr>gs_signal := g, gs_raised := [7]\<rparr>)"
    using sig_step.raise [of ref_sems True ?s 7 g "sem_read native_cnt" False] g by simp
  ultimately have "sig_reachable ref_sems (sem_read native_cnt) False (?s\<lparr>gs_signal := g, gs_raised := [7]\<rparr>)"
    by (rule sig_reachable.step)
  from signal_delivers_once [OF ref_sems_contract this] g show ?thesis by simp
qed

text \<open>Once \<open>os_signal_reset\<close> is used concurrently, that breaks: when a reset runs between a
  waiter's take and its critical section, that waiter returns success with the result of the
  next raise, and a second waiter returns the same result again.\<close>

theorem signal_reset_duplicates:
  assumes "os_sem_contract S live dead cnt lim" "os_signal_init S (Some g0) = (0, Some g)"
  shows "\<exists>s. sig_reachable S cnt True s \<and> gs_raised s = [a, b] \<and> gs_delivered s = [b, b]"
  using assms by (rule os_sem_contract.signal_race)

theorem signal_reset_duplicates_witness:
  "\<exists>s. sig_reachable ref_sems (sem_read native_cnt) True s \<and> gs_raised s = [1, 2] \<and> gs_delivered s = [2, 2]"
  by (rule signal_reset_duplicates [OF ref_sems_contract ref_signal_init])

end
