(* ===== verification/Sem_Zephyr.thy ===== *)
theory Sem_Zephyr
  imports Semaphore Native_Semaphore
begin

text \<open>
  \<open>src/zephyr/semaphore.c\<close>, a thin layer over Zephyr's \<open>k_sem\<close>, which is the parameter
  \<open>zephyr_sem\<close> with its documented behaviour in \<open>zephyr_sem_native\<close>. \<open>k_timeout\<close> has
  the three ways in which the adapter builds a \<open>k_timeout_t\<close>.
\<close>

datatype k_timeout = K_FOREVER | K_NO_WAIT | K_TICKS u32

record 'n zephyr_sem =
  k_sem_init :: "u32 \<Rightarrow> u32 \<Rightarrow> int \<times> 'n"
  k_sem_take :: "'n \<Rightarrow> k_timeout \<Rightarrow> int \<times> 'n"
  k_sem_give :: "'n \<Rightarrow> 'n"
  k_sem_count_get :: "'n \<Rightarrow> u32"

record 'n ze_os_sem =
  zs_handle :: "'n option"
  zs_limit :: u32

definition zephyr_os_sem_init ::
  "'n zephyr_sem \<Rightarrow> 'n ze_os_sem option \<Rightarrow> u32 \<Rightarrow> u32 \<Rightarrow> int \<times> 'n ze_os_sem option" where
  "zephyr_os_sem_init N sem initial_count limit =
     (if sem = None \<or> limit = 0 \<or> initial_count > limit then (- EINVAL, sem)
      else
        let (result, n) = k_sem_init N initial_count limit
        in if result \<noteq> 0 then (- EINVAL, sem)
           else (0, Some \<lparr>zs_handle = Some n, zs_limit = limit\<rparr>))"

definition zephyr_os_sem_deinit :: "bool \<Rightarrow> 'n ze_os_sem option \<Rightarrow> int \<times> 'n ze_os_sem option" where
  "zephyr_os_sem_deinit isr sem =
     (case sem of
        None \<Rightarrow> (- EINVAL, None)
      | Some s \<Rightarrow>
          if zs_handle s = None then (- EINVAL, Some s)
          else if isr then (- EWOULDBLOCK, Some s)
          else (0, Some (s\<lparr>zs_handle := None, zs_limit := 0\<rparr>)))"

definition zephyr_wait :: "u32 \<Rightarrow> k_timeout" where
  "zephyr_wait timeout =
     (if timeout = OS_WAIT_FOREVER then K_FOREVER
      else if timeout = 0 then K_NO_WAIT else K_TICKS timeout)"

definition zephyr_os_sem_take ::
  "'n zephyr_sem \<Rightarrow> bool \<Rightarrow> 'n ze_os_sem option \<Rightarrow> u32 \<Rightarrow> int \<times> 'n ze_os_sem option" where
  "zephyr_os_sem_take N isr sem timeout =
     (case sem of
        None \<Rightarrow> (- EINVAL, None)
      | Some s \<Rightarrow>
          (case zs_handle s of
             None \<Rightarrow> (- EINVAL, Some s)
           | Some n \<Rightarrow>
               if isr \<and> timeout \<noteq> 0 then (- EWOULDBLOCK, Some s)
               else
                 let (result, n') = k_sem_take N n (zephyr_wait timeout)
                 in (if result = 0 then 0 else if timeout = 0 then - EBUSY else - ETIMEDOUT,
                     Some (s\<lparr>zs_handle := Some n'\<rparr>))))"

definition zephyr_os_sem_trytake ::
  "'n zephyr_sem \<Rightarrow> bool \<Rightarrow> 'n ze_os_sem option \<Rightarrow> int \<times> 'n ze_os_sem option" where
  "zephyr_os_sem_trytake N isr sem = zephyr_os_sem_take N isr sem 0"

definition zephyr_os_sem_give :: "'n zephyr_sem \<Rightarrow> 'n ze_os_sem option \<Rightarrow> 'n ze_os_sem option" where
  "zephyr_os_sem_give N sem =
     (case sem of
        None \<Rightarrow> None
      | Some s \<Rightarrow>
          (case zs_handle s of
             None \<Rightarrow> Some s
           | Some n \<Rightarrow> Some (s\<lparr>zs_handle := Some (k_sem_give N n)\<rparr>)))"

definition zephyr_os_sem_count_get :: "'n zephyr_sem \<Rightarrow> 'n ze_os_sem option \<Rightarrow> u32" where
  "zephyr_os_sem_count_get N sem =
     (case sem of
        None \<Rightarrow> 0
      | Some s \<Rightarrow> (case zs_handle s of None \<Rightarrow> 0 | Some n \<Rightarrow> k_sem_count_get N n))"

definition ze_os_sem_zero :: "'n ze_os_sem" where
  "ze_os_sem_zero = \<lparr>zs_handle = None, zs_limit = 0\<rparr>"

definition zephyr_sem_ops :: "'n zephyr_sem \<Rightarrow> 'n ze_os_sem sem_ops" where
  "zephyr_sem_ops N =
     \<lparr>sem_zero = ze_os_sem_zero,
      sem_init = \<lambda>s i l. via_ptr (\<lambda>p. zephyr_os_sem_init N p i l) s,
      sem_deinit = \<lambda>isr. via_ptr (zephyr_os_sem_deinit isr),
      sem_take = \<lambda>isr s t. via_ptr (\<lambda>p. zephyr_os_sem_take N isr p t) s,
      sem_trytake = \<lambda>isr. via_ptr (zephyr_os_sem_trytake N isr),
      sem_give = \<lambda>isr s. snd (via_ptr (\<lambda>p. ((), zephyr_os_sem_give N p)) s),
      sem_count_get = \<lambda>isr s. zephyr_os_sem_count_get N (Some s)\<rparr>"

locale zephyr_sem_native =
  fixes N :: "'n zephyr_sem"
    and nok :: "'n \<Rightarrow> bool"
    and ncnt :: "'n \<Rightarrow> nat"
    and nmax :: "'n \<Rightarrow> nat"
  assumes ncnt_le: "nok n \<Longrightarrow> ncnt n \<le> nmax n"
    and ninit: "k_sem_init N i l = (0, n) \<Longrightarrow> l \<noteq> 0 \<Longrightarrow> i \<le> l \<Longrightarrow>
           nok n \<and> ncnt n = unat i \<and> nmax n = unat l"
    and ntake_token: "nok n \<Longrightarrow> 0 < ncnt n \<Longrightarrow>
           \<exists>n'. k_sem_take N n t = (0, n') \<and> nok n' \<and> ncnt n' = ncnt n - 1 \<and> nmax n' = nmax n"
    and ntake_empty: "nok n \<Longrightarrow> ncnt n = 0 \<Longrightarrow> fst (k_sem_take N n K_NO_WAIT) \<noteq> 0"
    and ntake_frame: "nok n \<Longrightarrow> ncnt n = 0 \<Longrightarrow> k_sem_take N n t = (r, n') \<Longrightarrow>
           nok n' \<and> nmax n' = nmax n \<and> (r \<noteq> 0 \<longrightarrow> ncnt n' = 0)"
    and ngive: "nok n \<Longrightarrow> nok (k_sem_give N n) \<and> ncnt (k_sem_give N n) = min (Suc (ncnt n)) (nmax n)
           \<and> nmax (k_sem_give N n) = nmax n"
    and nget: "nok n \<Longrightarrow> unat (k_sem_count_get N n) = ncnt n"

definition zs_live :: "('n \<Rightarrow> bool) \<Rightarrow> 'n ze_os_sem \<Rightarrow> bool" where
  "zs_live nok s = (case zs_handle s of None \<Rightarrow> False | Some n \<Rightarrow> nok n)"

definition zs_dead :: "'n ze_os_sem \<Rightarrow> bool" where
  "zs_dead s = (zs_handle s = None)"

definition zs_read :: "('n \<Rightarrow> nat) \<Rightarrow> 'n ze_os_sem \<Rightarrow> nat" where
  "zs_read f s = (case zs_handle s of None \<Rightarrow> 0 | Some n \<Rightarrow> f n)"

lemmas zs_view_defs = zs_live_def zs_dead_def zs_read_def

lemma zs_liveE:
  assumes "zs_live nok s"
  obtains n where "zs_handle s = Some n" "nok n"
proof (cases "zs_handle s")
  case None
  with assms show ?thesis by (simp add: zs_live_def)
next
  case (Some n)
  with assms that show ?thesis by (simp add: zs_live_def)
qed

lemma zephyr_take_handle:
  assumes "zs_handle s = Some n" "k_sem_take N n (zephyr_wait t) = (r, n')" "may_wait isr t"
  shows "sem_take (zephyr_sem_ops N) isr s t =
     (if r = 0 then 0 else if t = 0 then - EBUSY else - ETIMEDOUT, s\<lparr>zs_handle := Some n'\<rparr>)"
  using assms by (auto simp: zephyr_sem_ops_def zephyr_os_sem_take_def via_ptr_def may_wait_def)

sublocale zephyr_sem_native \<subseteq> zephyr:
  os_sem_contract "zephyr_sem_ops N" "zs_live nok" zs_dead "zs_read ncnt" "zs_read nmax"
proof (unfold_locales, goal_cases)
  case (1 s)
  then show ?case by (auto simp: zs_dead_def elim!: zs_liveE)
next
  case (2 s)
  then show ?case by (auto simp: zs_read_def ncnt_le elim!: zs_liveE)
next
  case 3
  then show ?case by (simp add: zephyr_sem_ops_def ze_os_sem_zero_def zs_dead_def)
next
  case (4 l i s)
  then show ?case by (auto simp: zephyr_sem_ops_def zephyr_os_sem_init_def via_ptr_def)
next
  case (5 s i l s')
  then show ?case
    by (auto simp: zephyr_sem_ops_def zephyr_os_sem_init_def via_ptr_def zs_view_defs Let_def
        not_less dest: ninit split: if_splits prod.splits)
next
  case (6 s isr)
  then show ?case
    by (simp add: zephyr_sem_ops_def zephyr_os_sem_deinit_def via_ptr_def zs_dead_def)
next
  case (7 s isr r s')
  then obtain n where "zs_handle s = Some n" by (auto elim!: zs_liveE)
  with 7(2) show ?case
    by (auto simp: zephyr_sem_ops_def zephyr_os_sem_deinit_def via_ptr_def zs_dead_def
        split: if_splits)
next
  case (8 s isr t)
  then show ?case by (simp add: zephyr_sem_ops_def zephyr_os_sem_take_def via_ptr_def zs_dead_def)
next
  case (9 s isr t)
  then show ?case
    by (auto simp: zephyr_sem_ops_def zephyr_os_sem_take_def via_ptr_def may_wait_def
        elim!: zs_liveE)
next
  case (10 s isr t)
  then obtain n where n: "zs_handle s = Some n" "nok n" "0 < ncnt n"
    by (auto simp: zs_read_def elim!: zs_liveE)
  obtain n' where "k_sem_take N n (zephyr_wait t) = (0, n')" "nok n'" "ncnt n' = ncnt n - 1"
      "nmax n' = nmax n"
    using ntake_token [OF n(2,3)] by blast
  then show ?case using n zephyr_take_handle [OF n(1) _ 10(2), of N 0 n']
    by (simp add: zs_view_defs)
next
  case (11 s isr)
  then obtain n where n: "zs_handle s = Some n" "nok n" "ncnt n = 0"
    by (auto simp: zs_read_def elim!: zs_liveE)
  obtain r n' where t: "k_sem_take N n K_NO_WAIT = (r, n')" by (cases "k_sem_take N n K_NO_WAIT")
  then have "r \<noteq> 0" "nok n'" "nmax n' = nmax n" "ncnt n' = 0"
    using ntake_empty [OF n(2,3)] ntake_frame [OF n(2,3) t] by auto
  then show ?case using n t zephyr_take_handle [OF n(1), of N 0 r n' isr]
    by (simp add: zs_view_defs may_wait_def zephyr_wait_def OS_WAIT_FOREVER_def)
next
  case (12 s isr t r s')
  then obtain n where n: "zs_handle s = Some n" "nok n" "ncnt n = 0"
    by (auto simp: zs_read_def elim!: zs_liveE)
  obtain b n' where t: "k_sem_take N n (zephyr_wait t) = (b, n')"
    by (cases "k_sem_take N n (zephyr_wait t)")
  have "r = (if b = 0 then 0 else - ETIMEDOUT)" "s' = s\<lparr>zs_handle := Some n'\<rparr>"
    using zephyr_take_handle [OF n(1) t 12(2)] 12(3,5) by auto
  then show ?case using n ntake_frame [OF n(2,3) t] by (simp add: zs_view_defs)
next
  case (13 isr s)
  then show ?case by (simp add: zephyr_sem_ops_def zephyr_os_sem_trytake_def via_ptr_def)
next
  case (14 s isr)
  then show ?case by (simp add: zephyr_sem_ops_def zephyr_os_sem_give_def via_ptr_def zs_dead_def)
next
  case (15 s isr)
  then obtain n where "zs_handle s = Some n" "nok n" by (rule zs_liveE)
  then show ?case using ngive [of n]
    by (simp add: zephyr_sem_ops_def zephyr_os_sem_give_def via_ptr_def zs_view_defs)
next
  case (16 s isr)
  then show ?case by (simp add: zephyr_sem_ops_def zephyr_os_sem_count_get_def zs_dead_def)
next
  case (17 s isr)
  then show ?case
    by (auto simp: zephyr_sem_ops_def zephyr_os_sem_count_get_def zs_read_def nget elim!: zs_liveE)
qed

context zephyr_sem_native begin

lemma adapter_contract:
  "os_sem_contract (zephyr_sem_ops N) (zs_live nok) zs_dead (zs_read ncnt) (zs_read nmax)"
  by (rule zephyr.os_sem_contract_axioms)

end

definition native_zephyr :: "native zephyr_sem" where
  "native_zephyr =
     \<lparr>k_sem_init = \<lambda>i l. (0, (i, l)),
      k_sem_take = \<lambda>n _. (case native_take n of (ok, n') \<Rightarrow> (if ok then 0 else - EAGAIN, n')),
      k_sem_give = \<lambda>n. snd (native_give n),
      k_sem_count_get = fst\<rparr>"

interpretation zen: zephyr_sem_native native_zephyr native_ok native_cnt native_max
proof (unfold_locales, goal_cases)
  case (3 n t)
  then show ?case using native_take_token [of n] by (auto simp: native_zephyr_def)
qed (auto simp: native_zephyr_def native_le native_get native_take_empty
      intro: native_new dest: native_give_spec [OF _ prod.collapse [symmetric]])

section \<open>Property\<close>

text \<open>C10: The Zephyr adapter keeps the portable semaphore contract, for every kernel whose
  semaphores behave as Zephyr documents.\<close>

theorem zephyr_sem_keeps_contract:
  assumes "zephyr_sem_native N nok ncnt nmax"
  shows "os_sem_contract (zephyr_sem_ops N) (zs_live nok) zs_dead (zs_read ncnt) (zs_read nmax)"
  using assms by (rule zephyr_sem_native.adapter_contract)

theorem zephyr_sem_keeps_contract_witness:
  "os_sem_contract (zephyr_sem_ops native_zephyr) (zs_live native_ok) zs_dead
     (zs_read native_cnt) (zs_read native_max)"
  by (rule zephyr_sem_keeps_contract [OF zen.zephyr_sem_native_axioms])

end
