(* ===== verification/Time.thy ===== *)
theory Time
  imports Osal_Prelude
begin

text \<open>
  The time services of the three backends: \<open>src/osal_freertos/time.c\<close>,
  \<open>src/osal_rtthread/time.c\<close> and \<open>src/zephyr/time.c\<close>.

  The tick rate (\<open>configTICK_RATE_HZ\<close>, \<open>RT_TICK_PER_SECOND\<close>) is an argument. Conversions
  are translated at their C widths and compared with exact arithmetic on natural numbers. The
  two 64-bit uptime clocks, built on a 32-bit tick counter, are translated as the steps that
  other threads can come between: reading the counter, and the critical section.
\<close>

section \<open>Conversions\<close>

definition UINT64_MAX :: u64 where
  "UINT64_MAX = 0xFFFFFFFFFFFFFFFF"

definition os_scale_ms_to_ticks_ceil :: "u64 \<Rightarrow> u32 \<Rightarrow> u32" where
  "os_scale_ms_to_ticks_ceil milliseconds ticks_per_second =
     (let max_ticks = ucast OS_WAIT_FOREVER - 1 :: u64;
          whole = milliseconds div 1000;
          remainder = milliseconds mod 1000
      in if whole > max_ticks div ucast ticks_per_second then ucast max_ticks
         else
           let ticks = whole * ucast ticks_per_second;
               ticks = ticks + (remainder * ucast ticks_per_second + 999) div 1000
           in if ticks > max_ticks then ucast max_ticks else ucast ticks)"

definition freertos_os_ms_to_ticks_ceil :: "u32 \<Rightarrow> u64 \<Rightarrow> u32" where
  "freertos_os_ms_to_ticks_ceil rate milliseconds = os_scale_ms_to_ticks_ceil milliseconds rate"

definition os_ticks_to_ms :: "u64 \<Rightarrow> u64 \<Rightarrow> u64" where
  "os_ticks_to_ms rate ticks =
     (let whole = ticks div rate;
          remainder = ticks mod rate
      in if whole > UINT64_MAX div 1000 then UINT64_MAX
         else whole * 1000 + (remainder * 1000) div rate)"

text \<open>The RT-Thread file has its own copies of the same functions.\<close>

definition rt_os_scale_ms_to_ticks_ceil :: "u64 \<Rightarrow> u32 \<Rightarrow> u32" where
  "rt_os_scale_ms_to_ticks_ceil milliseconds ticks_per_second =
     (let max_ticks = ucast OS_WAIT_FOREVER - 1 :: u64;
          whole = milliseconds div 1000;
          remainder = milliseconds mod 1000
      in if whole > max_ticks div ucast ticks_per_second then ucast max_ticks
         else
           let ticks = whole * ucast ticks_per_second;
               ticks = ticks + (remainder * ucast ticks_per_second + 999) div 1000
           in if ticks > max_ticks then ucast max_ticks else ucast ticks)"

definition rt_os_ms_to_ticks_ceil :: "u32 \<Rightarrow> u64 \<Rightarrow> u32" where
  "rt_os_ms_to_ticks_ceil rate milliseconds = rt_os_scale_ms_to_ticks_ceil milliseconds rate"

definition rt_os_ticks_to_ms :: "u64 \<Rightarrow> u64 \<Rightarrow> u64" where
  "rt_os_ticks_to_ms rate ticks =
     (let whole = ticks div rate;
          remainder = ticks mod rate
      in if whole > UINT64_MAX div 1000 then UINT64_MAX
         else whole * 1000 + (remainder * 1000) div rate)"

text \<open>Zephyr rounds in its own \<open>k_ms_to_ticks_ceil64\<close>, which is a parameter.\<close>

definition zephyr_os_ms_to_ticks_ceil :: "(u64 \<Rightarrow> u64) \<Rightarrow> u64 \<Rightarrow> u32" where
  "zephyr_os_ms_to_ticks_ceil k_ms_to_ticks_ceil64 milliseconds =
     (let ticks = k_ms_to_ticks_ceil64 milliseconds
      in if ticks \<ge> ucast OS_WAIT_FOREVER then OS_WAIT_FOREVER - 1 else ucast ticks)"

text \<open>\<open>os_delay\<close>: the ticks for which the kernel is asked to delay, none in an interrupt.\<close>

definition freertos_os_delay :: "bool \<Rightarrow> u32 \<Rightarrow> u32 option" where
  "freertos_os_delay isr ticks = (if \<not> isr then Some ticks else None)"

definition rt_os_delay :: "bool \<Rightarrow> u32 \<Rightarrow> u32 option" where
  "rt_os_delay isr ticks = (if \<not> isr then Some ticks else None)"

definition zephyr_os_delay :: "bool \<Rightarrow> u32 \<Rightarrow> u32 option" where
  "zephyr_os_delay isr ticks = (if \<not> isr then Some ticks else None)"

text \<open>The rest of Zephyr's clock, over its counters and its own conversion.\<close>

definition zephyr_os_tick_get :: "64 word \<Rightarrow> u32" where
  "zephyr_os_tick_get k_uptime_ticks = ucast k_uptime_ticks"

definition zephyr_os_uptime_get :: "64 word \<Rightarrow> u64" where
  "zephyr_os_uptime_get k_uptime_get = k_uptime_get"

definition zephyr_os_ticks_to_ms :: "(u64 \<Rightarrow> u64) \<Rightarrow> u64 \<Rightarrow> u64" where
  "zephyr_os_ticks_to_ms k_ticks_to_ms_floor64 ticks = k_ticks_to_ms_floor64 ticks"

lemma zephyr_tick_get_wraps: "unat (zephyr_os_tick_get t) = unat t mod 2 ^ 32"
  by (simp add: zephyr_os_tick_get_def unsigned_ucast_eq take_bit_eq_mod)

lemma unat_ucast_up [simp]: "unat (ucast (x :: u32) :: u64) = unat x"
  by transfer simp

lemma unat_mult64: "unat (a :: u64) * unat b < 2 ^ 64 \<Longrightarrow> unat (a * b) = unat a * unat b"
  by (simp add: unat_mult_lem [THEN iffD1])

lemma unat_add64: "unat (a :: u64) + unat b < 2 ^ 64 \<Longrightarrow> unat (a + b) = unat a + unat b"
  by (simp add: unat_add_lem [THEN iffD1])

lemma max_ticks_value: "ucast OS_WAIT_FOREVER - 1 = (0xFFFFFFFE :: u64)"
  by (simp add: OS_WAIT_FOREVER_def)

lemma ceil_split:
  fixes w r t :: nat
  shows "((w * 1000 + r) * t + 999) div 1000 = w * t + (r * t + 999) div 1000"
proof -
  have "(w * 1000 + r) * t + 999 = (r * t + 999) + 1000 * (w * t)" by (simp add: algebra_simps)
  then show ?thesis by simp
qed

lemma scale_exact:
  assumes tps: "0 < tps"
  shows "unat (os_scale_ms_to_ticks_ceil ms tps) = min 0xFFFFFFFE ((unat ms * unat tps + 999) div 1000)"
proof -
  let ?w = "unat ms div 1000" and ?r = "unat ms mod 1000" and ?t = "unat tps"
  have ceil: "(unat ms * ?t + 999) div 1000 = ?w * ?t + (?r * ?t + 999) div 1000"
    using ceil_split [of ?w ?r ?t] by simp
  have t: "0 < ?t" "?t < 2 ^ 32"
    using tps unsigned_less [of tps] by (simp_all add: word_less_nat_alt)
  have whole: "unat (ms div 1000) = ?w" and rem: "unat (ms mod 1000) = ?r"
    by (simp_all add: unat_div_distrib unat_mod_distrib)
  have lim: "ms div 1000 > 0xFFFFFFFE div ucast tps \<longleftrightarrow> ?w > 0xFFFFFFFE div ?t"
    by (simp add: word_less_nat_alt whole unat_div_distrib)
  show ?thesis
  proof (cases "?w > 0xFFFFFFFE div ?t")
    case True
    then have "0xFFFFFFFE < ?w * ?t" using t(1) by (simp add: div_less_iff_less_mult)
    then have "0xFFFFFFFE \<le> (unat ms * ?t + 999) div 1000" unfolding ceil by simp
    then show ?thesis
      unfolding os_scale_ms_to_ticks_ceil_def Let_def max_ticks_value lim using True by simp
  next
    case False
    then have "?w * ?t \<le> 0xFFFFFFFE" using t(1)
      by (metis div_less_iff_less_mult not_less)
    moreover have "?r * ?t \<le> 999 * 2 ^ 32" using t(2) by (intro mult_le_mono) auto
    moreover have wt: "unat (ms div 1000 * ucast tps) = ?w * ?t"
      using calculation by (subst unat_mult64) (simp_all add: whole)
    moreover have rt: "unat (ms mod 1000 * ucast tps) = ?r * ?t"
      using calculation by (subst unat_mult64) (simp_all add: rem)
    moreover have "unat (ms mod 1000 * ucast tps + 999) = ?r * ?t + 999"
      using calculation by (subst unat_add64) (simp_all add: rt)
    moreover have up: "unat ((ms mod 1000 * ucast tps + 999) div 1000) = (?r * ?t + 999) div 1000"
      using calculation by (simp add: unat_div_distrib)
    moreover have "(?r * ?t + 999) div 1000 \<le> 2 ^ 33" using calculation by simp
    ultimately have ticks: "unat (ms div 1000 * ucast tps + (ms mod 1000 * ucast tps + 999) div 1000)
        = (unat ms * ?t + 999) div 1000"
      unfolding ceil by (subst unat_add64) simp_all
    let ?ticks = "ms div 1000 * ucast tps + (ms mod 1000 * ucast tps + 999) div 1000"
    have "unat (ucast ?ticks :: u32) = unat ?ticks" if "unat ?ticks \<le> 0xFFFFFFFE"
      using that by (simp add: unsigned_ucast_eq take_bit_nat_eq_self_iff)
    then show ?thesis
      unfolding os_scale_ms_to_ticks_ceil_def Let_def max_ticks_value lim using False
      by (simp add: word_less_nat_alt ticks min_def)
  qed
qed

lemma floor_split:
  fixes w r t :: nat
  assumes "0 < t"
  shows "((w * t + r) * 1000) div t = w * 1000 + (r * 1000) div t"
proof -
  have eq: "(w * t + r) * 1000 = r * 1000 + t * (w * 1000)" by (simp add: algebra_simps)
  have "t \<noteq> 0" using assms by simp
  then show ?thesis unfolding eq by (rule div_mult_self2)
qed

lemma uint64_max_div: "UINT64_MAX div 1000 = (18446744073709551 :: u64)" "unat UINT64_MAX = 2 ^ 64 - 1"
  by (simp_all add: UINT64_MAX_def)

text \<open>What the conversion returns below the saturation guard: the exact value modulo \<open>2 ^ 64\<close>.\<close>

lemma ticks_to_ms_value:
  assumes rate: "0 < rate" "unat rate < 2 ^ 32" and guard: "\<not> ticks div rate > UINT64_MAX div 1000"
  shows "unat (os_ticks_to_ms rate ticks) = (unat ticks * 1000) div unat rate mod 2 ^ 64"
proof -
  let ?w = "unat ticks div unat rate" and ?r = "unat ticks mod unat rate" and ?t = "unat rate"
  have t: "0 < ?t" using rate(1) by (simp add: word_less_nat_alt)
  have exact: "(unat ticks * 1000) div ?t = ?w * 1000 + (?r * 1000) div ?t"
    using floor_split [OF t, of ?w ?r] by simp
  have "?w \<le> 18446744073709551"
    using guard by (simp add: uint64_max_div not_less word_le_nat_alt unat_div_distrib)
  then have w: "unat (ticks div rate * 1000) = ?w * 1000"
    by (subst unat_mult64) (simp_all add: unat_div_distrib)
  have "?r < ?t" using t by simp
  then have r: "unat (ticks mod rate * 1000) = ?r * 1000"
    using rate(2) by (subst unat_mult64) (simp_all add: unat_mod_distrib)
  have "unat (os_ticks_to_ms rate ticks) = (?w * 1000 + (?r * 1000) div ?t) mod 2 ^ 64"
    using guard by (simp add: os_ticks_to_ms_def Let_def unat_word_ariths(1) w unat_div_distrib r)
  then show ?thesis by (simp only: exact)
qed

lemma ticks_to_ms_guard:
  assumes rate: "0 < rate" and fits: "(unat ticks * 1000) div unat rate < 2 ^ 64"
  shows "\<not> ticks div rate > UINT64_MAX div 1000"
proof -
  have t: "0 < unat rate" using rate by (simp add: word_less_nat_alt)
  have "unat ticks div unat rate * 1000 \<le> (unat ticks * 1000) div unat rate"
    by (simp add: times_div_less_eq_dividend div_mult_div_if_dvd mult.commute
        less_eq_div_iff_mult_less_eq [OF t] mult.assoc [symmetric])
  with fits show ?thesis
    by (simp add: uint64_max_div not_less word_le_nat_alt unat_div_distrib)
qed

section \<open>Uptime of the RT-Thread backend\<close>

text \<open>The static variables of \<open>os_uptime_get\<close>, and its critical section.\<close>

record rt_uptime =
  up_epoch :: u64
  up_previous :: u32

definition rt_uptime_section :: "u32 \<Rightarrow> rt_uptime \<Rightarrow> u64 \<times> rt_uptime" where
  "rt_uptime_section current st =
     (let st = (if current < up_previous st then st\<lparr>up_epoch := up_epoch st + push_bit 32 1\<rparr> else st);
          st = st\<lparr>up_previous := current\<rparr>
      in (up_epoch st + ucast current, st))"

definition rt_os_uptime_get :: "u64 \<Rightarrow> u32 \<Rightarrow> rt_uptime \<Rightarrow> u64 \<times> rt_uptime" where
  "rt_os_uptime_get rate tick st =
     (let current = tick; (ticks, st) = rt_uptime_section current st
      in (rt_os_ticks_to_ms rate ticks, st))"

definition rt_uptime_zero :: rt_uptime where
  "rt_uptime_zero = \<lparr>up_epoch = 0, up_previous = 0\<rparr>"

text \<open>The state after a call at the true time \<open>t\<close>, in ticks since the start.\<close>

definition epoch_of :: "nat \<Rightarrow> u64" where
  "epoch_of t = of_nat (2 ^ 32 * (t div 2 ^ 32))"

definition rt_uptime_at :: "nat \<Rightarrow> rt_uptime" where
  "rt_uptime_at t = \<lparr>up_epoch = epoch_of t, up_previous = of_nat t\<rparr>"

lemma unat_tick: "unat (of_nat t :: u32) = t mod 2 ^ 32"
  by (simp add: unat_of_nat)

lemma ucast_tick: "ucast (of_nat t :: u32) = (of_nat (t mod 2 ^ 32) :: u64)"
proof -
  have "t mod 2 ^ 32 < 2 ^ 64" by (rule order_less_trans [of _ "2 ^ 32"]) simp_all
  then have "unat (of_nat (t mod 2 ^ 32) :: u64) = t mod 2 ^ 32" by (simp add: unat_of_nat)
  moreover have "unat (ucast (of_nat t :: u32) :: u64) = t mod 2 ^ 32"
    by (simp only: unat_ucast_up unat_tick)
  ultimately show ?thesis by (simp only: word_unat_eq_iff)
qed

lemma epoch_plus_tick: "epoch_of t + ucast (of_nat t :: u32) = of_nat t"
  unfolding epoch_of_def ucast_tick of_nat_add [symmetric] mult_div_mod_eq ..

lemma epoch_next:
  assumes "t div 2 ^ 32 = Suc (t' div 2 ^ 32)"
  shows "epoch_of t' + push_bit 32 1 = epoch_of t"
proof -
  have "2 ^ 32 * (t div 2 ^ 32) = 2 ^ 32 * (t' div 2 ^ 32) + 2 ^ 32" unfolding assms by simp
  then show ?thesis by (simp add: epoch_of_def push_bit_eq_mult)
qed

lemma tick_wraps:
  assumes "t' \<le> t" "t < t' + 2 ^ 32"
  shows "(of_nat t :: u32) < of_nat t' \<longleftrightarrow> t div 2 ^ 32 = Suc (t' div 2 ^ 32)"
    and "\<not> (of_nat t :: u32) < of_nat t' \<Longrightarrow> t div 2 ^ 32 = t' div 2 ^ 32"
proof -
  obtain a x where t: "t = 2 ^ 32 * a + x" "x < 2 ^ 32" "t div 2 ^ 32 = a" "t mod 2 ^ 32 = x"
    by (rule that [of "t div 2 ^ 32" "t mod 2 ^ 32"]) simp_all
  obtain b y where t': "t' = 2 ^ 32 * b + y" "y < 2 ^ 32" "t' div 2 ^ 32 = b" "t' mod 2 ^ 32 = y"
    by (rule that [of "t' div 2 ^ 32" "t' mod 2 ^ 32"]) simp_all
  have "(of_nat t :: u32) < of_nat t' \<longleftrightarrow> x < y"
    by (simp only: word_less_nat_alt unat_tick t(4) t'(4))
  moreover have "a = b \<or> a = Suc b" using assms t t' by simp linarith
  moreover have "a = b \<Longrightarrow> \<not> x < y" "a = Suc b \<Longrightarrow> x < y" using assms t(1) t'(1) by simp_all
  ultimately show "(of_nat t :: u32) < of_nat t' \<longleftrightarrow> t div 2 ^ 32 = Suc (t' div 2 ^ 32)"
      "\<not> (of_nat t :: u32) < of_nat t' \<Longrightarrow> t div 2 ^ 32 = t' div 2 ^ 32"
    unfolding t(3) t'(3) by auto
qed

lemma rt_uptime_section_exact:
  assumes "t' \<le> t" "t < t' + 2 ^ 32"
  shows "rt_uptime_section (of_nat t) (rt_uptime_at t') = (of_nat t, rt_uptime_at t)"
proof (cases "(of_nat t :: u32) < of_nat t'")
  case True
  then have "epoch_of t' + push_bit 32 1 = epoch_of t"
    using tick_wraps(1) [OF assms] by (intro epoch_next) simp
  with True show ?thesis
    by (simp add: rt_uptime_section_def rt_uptime_at_def epoch_plus_tick)
next
  case False
  have "epoch_of t' = epoch_of t"
    unfolding epoch_of_def tick_wraps(2) [OF assms False] ..
  with False show ?thesis
    by (simp add: rt_uptime_section_def rt_uptime_at_def epoch_plus_tick)
qed

lemma rt_ticks_to_ms_same: "rt_os_ticks_to_ms = os_ticks_to_ms"
  by (simp add: fun_eq_iff rt_os_ticks_to_ms_def os_ticks_to_ms_def)

text \<open>Calls one after the other, at the true times \<open>ts\<close>, never \<open>2 ^ 32\<close> ticks apart.\<close>

fun rt_uptime_calls :: "u64 \<Rightarrow> rt_uptime \<Rightarrow> nat list \<Rightarrow> u64 list" where
  "rt_uptime_calls rate st [] = []"
| "rt_uptime_calls rate st (t # ts) =
     (let (ms, st) = rt_os_uptime_get rate (of_nat t) st in ms # rt_uptime_calls rate st ts)"

fun steady :: "nat \<Rightarrow> nat list \<Rightarrow> bool" where
  "steady t' [] = True"
| "steady t' (t # ts) = (t' \<le> t \<and> t < t' + 2 ^ 32 \<and> steady t ts)"

lemma rt_uptime_calls_exact:
  "steady t' ts \<Longrightarrow>
   rt_uptime_calls rate (rt_uptime_at t') ts = map (\<lambda>t. rt_os_ticks_to_ms rate (of_nat t)) ts"
  by (induction ts arbitrary: t') (simp_all add: rt_os_uptime_get_def rt_uptime_section_exact)

text \<open>
  Calls that overlap: time passes, thread \<open>i\<close> reads the tick counter, thread \<open>i\<close> runs its
  critical section and returns. The result lists the true time and the ticks counted.
\<close>

datatype up_event = UpTick nat | UpRead nat | UpSection nat

fun rt_uptime_run ::
  "u64 \<Rightarrow> nat \<Rightarrow> (nat \<Rightarrow> u32) \<Rightarrow> rt_uptime \<Rightarrow> up_event list \<Rightarrow> (nat \<times> u64) list" where
  "rt_uptime_run rate now reads st [] = []"
| "rt_uptime_run rate now reads st (UpTick n # es) = rt_uptime_run rate (now + n) reads st es"
| "rt_uptime_run rate now reads st (UpRead i # es) =
     rt_uptime_run rate now (reads(i := of_nat now)) st es"
| "rt_uptime_run rate now reads st (UpSection i # es) =
     (let (ticks, st) = rt_uptime_section (reads i) st
      in (now, rt_os_ticks_to_ms rate ticks) # rt_uptime_run rate now reads st es)"

section \<open>Uptime of the FreeRTOS backend\<close>

text \<open>
  A task reads the kernel's 64-bit time (\<open>xOverflowCount\<close> and \<open>xTimeOnEntering\<close> of
  \<open>vTaskSetTimeOutState\<close>) and stores it; an interrupt handler, which can only read the 32-bit
  counter, extends it with the stored epoch. \<open>pmax\<close> is \<open>portMAX_DELAY\<close>.
\<close>

record fr_uptime =
  cached_epoch :: u64
  cached_tick :: u32

definition freertos_uptime_task_ticks :: "u32 \<Rightarrow> u32 \<Rightarrow> u32 \<Rightarrow> u64" where
  "freertos_uptime_task_ticks pmax overflow tick =
     (let tick_range = ucast pmax + 1 in ucast overflow * tick_range + ucast tick)"

definition freertos_uptime_task_section :: "u64 \<Rightarrow> u32 \<Rightarrow> fr_uptime \<Rightarrow> fr_uptime" where
  "freertos_uptime_task_section ticks tick st = st\<lparr>cached_epoch := ticks - ucast tick, cached_tick := tick\<rparr>"

definition freertos_uptime_isr_section :: "u32 \<Rightarrow> u32 \<Rightarrow> fr_uptime \<Rightarrow> u64 \<times> fr_uptime" where
  "freertos_uptime_isr_section pmax tick st =
     (let st = (if tick < cached_tick st
                then st\<lparr>cached_epoch := cached_epoch st + (ucast pmax + 1)\<rparr> else st);
          st = st\<lparr>cached_tick := tick\<rparr>
      in (cached_epoch st + ucast tick, st))"

definition freertos_os_uptime_get ::
  "u32 \<Rightarrow> u64 \<Rightarrow> bool \<Rightarrow> u32 \<Rightarrow> u32 \<Rightarrow> fr_uptime \<Rightarrow> u64 \<times> fr_uptime" where
  "freertos_os_uptime_get pmax rate isr overflow tick st =
     (if \<not> isr
      then let ticks = freertos_uptime_task_ticks pmax overflow tick
           in (os_ticks_to_ms rate ticks, freertos_uptime_task_section ticks tick st)
      else let (ticks, st) = freertos_uptime_isr_section pmax tick st
           in (os_ticks_to_ms rate ticks, st))"

definition fr_uptime_at :: "nat \<Rightarrow> fr_uptime" where
  "fr_uptime_at t = \<lparr>cached_epoch = epoch_of t, cached_tick = of_nat t\<rparr>"

lemma of_nat_mod_64: "(of_nat (n mod 2 ^ 64) :: u64) = of_nat n"
  by (simp add: word_unat_eq_iff unat_of_nat)

lemma fr_task_ticks_exact:
  "freertos_uptime_task_ticks 0xFFFFFFFF (of_nat (t div 2 ^ 32)) (of_nat t) = of_nat t"
proof -
  let ?x = "t div 2 ^ 32"
  have "(ucast (of_nat ?x :: u32) :: u64) * 2 ^ 32 = of_nat (?x mod 2 ^ 32 * 2 ^ 32)"
    by (simp only: ucast_tick of_nat_mult of_nat_power of_nat_numeral)
  also have "\<dots> = of_nat (2 ^ 32 * ?x)"
    using of_nat_mod_64 [of "?x * 2 ^ 32"] mod_mult_mult2 [of ?x "2 ^ 32" "2 ^ 32"]
    by (simp add: mult.commute)
  finally have "(ucast (of_nat ?x :: u32) :: u64) * 2 ^ 32 = epoch_of t"
    by (simp only: epoch_of_def)
  then show ?thesis
    using epoch_plus_tick [of t] by (simp add: freertos_uptime_task_ticks_def)
qed

lemma fr_task_section_exact:
  "freertos_uptime_task_section (of_nat t) (of_nat t) st = fr_uptime_at t"
  using epoch_plus_tick [of t]
  by (simp add: freertos_uptime_task_section_def fr_uptime_at_def eq_diff_eq [symmetric])

lemma fr_isr_section_exact:
  assumes "t' \<le> t" "t < t' + 2 ^ 32"
  shows "freertos_uptime_isr_section 0xFFFFFFFF (of_nat t) (fr_uptime_at t') = (of_nat t, fr_uptime_at t)"
proof (cases "(of_nat t :: u32) < of_nat t'")
  case True
  then have "epoch_of t' + push_bit 32 1 = epoch_of t"
    using tick_wraps(1) [OF assms] by (intro epoch_next) simp
  with True show ?thesis
    by (simp add: freertos_uptime_isr_section_def fr_uptime_at_def epoch_plus_tick push_bit_eq_mult)
next
  case False
  have "epoch_of t' = epoch_of t"
    unfolding epoch_of_def tick_wraps(2) [OF assms False] ..
  with False show ?thesis
    by (simp add: freertos_uptime_isr_section_def fr_uptime_at_def epoch_plus_tick)
qed

text \<open>
  Tasks interleaved between reading the kernel's time and storing it, and interrupts at any
  point. \<open>fu_cached\<close> is the true time that the stored epoch stands for and \<open>fu_log\<close> lists the
  true times and the results of the calls. An interrupt's call comes less than \<open>2 ^ 32\<close> ticks
  after the stored time.
\<close>

record fu_sys =
  fu_now :: nat
  fu_st :: fr_uptime
  fu_cached :: nat
  fu_pend :: "nat option list"
  fu_log :: "(nat \<times> u64) list"

inductive fu_step :: "u64 \<Rightarrow> fu_sys \<Rightarrow> fu_sys \<Rightarrow> bool" for rate :: u64 where
  fu_tick: "fu_step rate s (s\<lparr>fu_now := fu_now s + n\<rparr>)"
| fu_read:
  "i < length (fu_pend s) \<Longrightarrow> fu_pend s ! i = None \<Longrightarrow>
   fu_step rate s (s\<lparr>fu_pend := (fu_pend s)[i := Some (fu_now s)]\<rparr>)"
| fu_section:
  "i < length (fu_pend s) \<Longrightarrow> fu_pend s ! i = Some t \<Longrightarrow>
   ticks = freertos_uptime_task_ticks 0xFFFFFFFF (of_nat (t div 2 ^ 32)) (of_nat t) \<Longrightarrow>
   fu_step rate s (s\<lparr>fu_st := freertos_uptime_task_section ticks (of_nat t) (fu_st s),
     fu_cached := t, fu_pend := (fu_pend s)[i := None],
     fu_log := (t, os_ticks_to_ms rate ticks) # fu_log s\<rparr>)"
| fu_isr:
  "fu_now s < fu_cached s + 2 ^ 32 \<Longrightarrow>
   freertos_uptime_isr_section 0xFFFFFFFF (of_nat (fu_now s)) (fu_st s) = (ticks, st) \<Longrightarrow>
   fu_step rate s (s\<lparr>fu_st := st, fu_cached := fu_now s,
     fu_log := (fu_now s, os_ticks_to_ms rate ticks) # fu_log s\<rparr>)"

inductive fu_reachable :: "u64 \<Rightarrow> fu_sys \<Rightarrow> bool" for rate :: u64 where
  fu_start:
  "fu_reachable rate \<lparr>fu_now = 0, fu_st = \<lparr>cached_epoch = 0, cached_tick = 0\<rparr>, fu_cached = 0,
     fu_pend = replicate k None, fu_log = []\<rparr>"
| fu_next: "fu_reachable rate s \<Longrightarrow> fu_step rate s s' \<Longrightarrow> fu_reachable rate s'"

definition pend_ok :: "nat \<Rightarrow> nat option \<Rightarrow> bool" where
  "pend_ok now p \<longleftrightarrow> (case p of None \<Rightarrow> True | Some t \<Rightarrow> t \<le> now)"

definition fu_inv :: "u64 \<Rightarrow> fu_sys \<Rightarrow> bool" where
  "fu_inv rate s \<longleftrightarrow>
     fu_st s = fr_uptime_at (fu_cached s) \<and> fu_cached s \<le> fu_now s
     \<and> list_all (pend_ok (fu_now s)) (fu_pend s)
     \<and> list_all (\<lambda>(t, ms). ms = os_ticks_to_ms rate (of_nat t)) (fu_log s)"

lemma list_all_update: "list_all P xs \<Longrightarrow> P x \<Longrightarrow> list_all P (xs[i := x])"
  by (auto simp: list_all_iff dest!: set_update_subset_insert [THEN subsetD])

lemma fu_step_inv: "fu_step rate s s' \<Longrightarrow> fu_inv rate s \<Longrightarrow> fu_inv rate s'"
proof (induction rule: fu_step.induct)
  case (fu_tick s n)
  then show ?case by (auto simp: fu_inv_def list_all_iff pend_ok_def split: option.splits)
next
  case (fu_read i s)
  then show ?case by (simp add: fu_inv_def list_all_update pend_ok_def)
next
  case (fu_section i s t ticks)
  have "t \<le> fu_now s"
    using fu_section(1,2,4) by (auto simp: fu_inv_def list_all_length pend_ok_def dest!: spec [of _ i])
  moreover have "ticks = of_nat t" using fu_section(3) by (simp only: fr_task_ticks_exact)
  ultimately show ?case
    using fu_section(1,2,4) by (simp add: fu_inv_def list_all_update fr_task_section_exact pend_ok_def)
next
  case (fu_isr s ticks st)
  have "ticks = of_nat (fu_now s) \<and> st = fr_uptime_at (fu_now s)"
    using fr_isr_section_exact [of "fu_cached s" "fu_now s"] fu_isr by (simp add: fu_inv_def)
  with fu_isr show ?case by (simp add: fu_inv_def)
qed

lemma fu_reachable_inv: "fu_reachable rate s \<Longrightarrow> fu_inv rate s"
proof (induction rule: fu_reachable.induct)
  case (fu_start k)
  then show ?case by (simp add: fu_inv_def fr_uptime_at_def epoch_of_def list_all_iff pend_ok_def)
next
  case (fu_next s s')
  then show ?case by (blast intro: fu_step_inv)
qed

section \<open>Properties\<close>

text \<open>\<open>os_ms_to_ticks_ceil\<close> of the FreeRTOS and RT-Thread backends is the exact ceiling of
  \<open>milliseconds * rate / 1000\<close>, saturated at \<open>OS_WAIT_FOREVER - 1\<close>, for every 64-bit input and
  every positive rate; no intermediate product wraps, and the sentinel is never returned.\<close>

theorem ms_to_ticks_exact:
  assumes "0 < rate"
  shows "unat (freertos_os_ms_to_ticks_ceil rate ms) = min (2 ^ 32 - 2) ((unat ms * unat rate + 999) div 1000)
     \<and> rt_os_ms_to_ticks_ceil rate ms = freertos_os_ms_to_ticks_ceil rate ms
     \<and> freertos_os_ms_to_ticks_ceil rate ms \<noteq> OS_WAIT_FOREVER"
proof -
  have exact: "unat (freertos_os_ms_to_ticks_ceil rate ms)
      = min (2 ^ 32 - 2) ((unat ms * unat rate + 999) div 1000)"
    using scale_exact [OF assms] by (simp add: freertos_os_ms_to_ticks_ceil_def)
  have "unat OS_WAIT_FOREVER = 2 ^ 32 - 1" by (simp add: OS_WAIT_FOREVER_def)
  with exact have "freertos_os_ms_to_ticks_ceil rate ms \<noteq> OS_WAIT_FOREVER" by auto
  with exact show ?thesis
    by (simp add: rt_os_ms_to_ticks_ceil_def freertos_os_ms_to_ticks_ceil_def
        rt_os_scale_ms_to_ticks_ceil_def os_scale_ms_to_ticks_ceil_def)
qed

theorem ms_to_ticks_exact_witness:
  "unat (freertos_os_ms_to_ticks_ceil 32768 1001) = 32801
   \<and> unat (freertos_os_ms_to_ticks_ceil 1000 0xFFFFFFFFFFFFFFFF) = 2 ^ 32 - 2"
  using ms_to_ticks_exact [of 32768 1001] ms_to_ticks_exact [of 1000 "0xFFFFFFFFFFFFFFFF"] by simp

text \<open>\<open>os_ticks_to_ms\<close> is the exact floor of \<open>ticks * 1000 / rate\<close> whenever that fits 64 bits,
  for every rate below \<open>2 ^ 32\<close>.\<close>

theorem ticks_to_ms_exact:
  assumes "0 < rate" "unat rate < 2 ^ 32" "(unat ticks * 1000) div unat rate < 2 ^ 64"
  shows "unat (os_ticks_to_ms rate ticks) = (unat ticks * 1000) div unat rate
     \<and> rt_os_ticks_to_ms rate ticks = os_ticks_to_ms rate ticks"
  using ticks_to_ms_value [OF assms(1,2) ticks_to_ms_guard [OF assms(1,3)]] assms(3)
  by (simp add: rt_ticks_to_ms_same)

theorem ticks_to_ms_exact_witness: "unat (os_ticks_to_ms 32768 0xFFFFFFFFFFFF) = 8589934591999"
  using ticks_to_ms_exact [of 32768 "0xFFFFFFFFFFFF"] by simp

text \<open>Above that the conversion is meant to saturate, but just above it, where the whole
  seconds still pass the guard, it wraps to the exact value minus \<open>2 ^ 64\<close>, less than 1000.\<close>

theorem ticks_to_ms_wraps:
  assumes "0 < rate" "unat rate < 2 ^ 32" "2 ^ 64 \<le> (unat ticks * 1000) div unat rate"
    and "ticks div rate = UINT64_MAX div 1000"
  shows "unat (os_ticks_to_ms rate ticks) = (unat ticks * 1000) div unat rate - 2 ^ 64
     \<and> unat (os_ticks_to_ms rate ticks) < 1000"
proof -
  let ?v = "(unat ticks * 1000) div unat rate"
  have t: "0 < unat rate" using assms(1) by (simp add: word_less_nat_alt)
  have whole: "unat ticks div unat rate = 18446744073709551"
    using arg_cong [OF assms(4), of unat] by (simp add: uint64_max_div unat_div_distrib)
  have "?v = (unat ticks div unat rate) * 1000 + (unat ticks mod unat rate * 1000) div unat rate"
    using floor_split [OF t, of "unat ticks div unat rate" "unat ticks mod unat rate"] by simp
  moreover have "(unat ticks mod unat rate * 1000) div unat rate < 1000"
    using t by (simp add: div_less_iff_less_mult)
  ultimately have "?v < 2 ^ 64 + 1000" using whole by simp
  then have "?v mod 2 ^ 64 = ?v - 2 ^ 64" using assms(3) by (simp add: mod_if)
  with \<open>?v < 2 ^ 64 + 1000\<close> ticks_to_ms_value [OF assms(1,2)] assms(3,4) show ?thesis by simp
qed

theorem ticks_to_ms_wraps_witness: "unat (os_ticks_to_ms 100 1844674407370955162) = 4"
  using ticks_to_ms_wraps [of 100 "1844674407370955162"] by (simp add: UINT64_MAX_def)

text \<open>The RT-Thread uptime clock extends the 32-bit tick counter exactly: calls that do not
  overlap, less than \<open>2 ^ 32\<close> ticks apart, return the milliseconds of the true time, across any
  number of counter wraps.\<close>

theorem rt_uptime_exact:
  assumes "steady 0 ts"
  shows "rt_uptime_calls rate rt_uptime_zero ts = map (\<lambda>t. rt_os_ticks_to_ms rate (of_nat t)) ts"
  using rt_uptime_calls_exact [OF assms, of rate]
  by (simp add: rt_uptime_at_def rt_uptime_zero_def epoch_of_def)

theorem rt_uptime_exact_witness:
  "rt_uptime_calls 1000 rt_uptime_zero [4294967295, 4294967296, 8589934591]
     = [4294967295, 4294967296, 8589934591]"
  using rt_uptime_exact [of "[4294967295, 4294967296, 8589934591]" 1000]
  by (simp add: rt_os_ticks_to_ms_def UINT64_MAX_def)

text \<open>Calls that overlap at a counter wrap break it for good: thread 0 reads the counter just
  before the wrap, thread 1 completes a call just after, then thread 0 runs its critical
  section. Thread 0's result is \<open>2 ^ 32 - 1\<close> ticks ahead of the true time, and every later
  call is ahead by \<open>2 ^ 32\<close>.\<close>

theorem rt_uptime_race:
  "rt_uptime_run 1000 0 (\<lambda>_. 0) rt_uptime_zero
     [UpTick 0xFFFFFFFE, UpRead 1, UpSection 1, UpTick 1, UpRead 0, UpTick 1, UpRead 1,
      UpSection 1, UpSection 0, UpTick 1, UpRead 0, UpSection 0]
   = [(2 ^ 32 - 2, 2 ^ 32 - 2), (2 ^ 32, 2 ^ 32), (2 ^ 32, 2 ^ 33 - 1), (2 ^ 32 + 1, 2 ^ 33 + 1)]"
  by (simp add: rt_uptime_section_def rt_uptime_zero_def rt_os_ticks_to_ms_def UINT64_MAX_def)

text \<open>C20: The FreeRTOS uptime clock is exact under concurrency: with tasks interleaved between
  reading the kernel's time and storing it, and interrupt handlers at any point that is less
  than \<open>2 ^ 32\<close> ticks after the stored time, every call returns the milliseconds of the time at
  which it read the counter.\<close>

theorem freertos_uptime_exact:
  assumes "fu_reachable rate s" "(t, ms) \<in> set (fu_log s)"
  shows "ms = os_ticks_to_ms rate (of_nat t)"
  using fu_reachable_inv [OF assms(1)] assms(2) by (auto simp: fu_inv_def list_all_iff)

theorem freertos_uptime_exact_witness:
  "\<exists>s ms. fu_reachable 1000 s \<and> fu_log s = [(7, ms)] \<and> ms = 7"
proof -
  let ?s0 = "\<lparr>fu_now = 0, fu_st = \<lparr>cached_epoch = 0, cached_tick = 0\<rparr>, fu_cached = 0,
     fu_pend = [], fu_log = []\<rparr>"
  let ?s1 = "?s0\<lparr>fu_now := 7\<rparr>"
  obtain ticks st where sec: "freertos_uptime_isr_section 0xFFFFFFFF (of_nat 7)
      \<lparr>cached_epoch = 0, cached_tick = 0\<rparr> = (ticks, st)" by fastforce
  let ?s2 = "?s1\<lparr>fu_st := st, fu_cached := 7, fu_log := [(7, os_ticks_to_ms 1000 ticks)]\<rparr>"
  have "fu_reachable 1000 ?s0" using fu_start [of 1000 0] by simp
  moreover have "fu_step 1000 ?s0 ?s1" using fu_tick [of 1000 ?s0 7] by simp
  moreover have "fu_step 1000 ?s1 ?s2" using fu_isr [of ?s1 ticks st 1000] sec by simp
  ultimately have reach: "fu_reachable 1000 ?s2" by (blast intro: fu_next)
  have "os_ticks_to_ms 1000 ticks = os_ticks_to_ms 1000 (of_nat 7)"
    by (rule freertos_uptime_exact [OF reach]) simp
  then have "os_ticks_to_ms 1000 ticks = 7" by (simp add: os_ticks_to_ms_def UINT64_MAX_def)
  with reach show ?thesis by (intro exI [of _ ?s2] exI [of _ "os_ticks_to_ms 1000 ticks"]) simp
qed

end
