(* ===== verification/Work_Queue.thy ===== *)
theory Work_Queue
  imports Fifo
begin

text \<open>
  \<open>src/common/work_queue.c\<close>: immediate and delayable work items run by worker threads.

  Addresses: a queue is a number; a work item is \<open>Work w\<close> when it stands alone and \<open>DWork d\<close>
  when it is the member \<open>work\<close> of the delayable item \<open>d\<close>. The FIFO of a queue links the
  nodes \<open>WorkNode w\<close> inside work items and the queue's own \<open>StopNode\<close>; the delayed list links
  the nodes \<open>DelayNode d\<close>. The two kinds of links are different members of different
  structures, so they live in two heaps.

  \<open>wctx\<close> is the calling context: whether it is an interrupt, and the queue whose worker thread
  is running, which is what \<open>os_get_current_thread() == &queue->thread\<close> asks. Tick values are
  arguments. A wait inside a call lets other threads run: the calls that wait take the
  environment's effect on memory during the \<open>k\<close>-th wait as a parameter.
\<close>

section \<open>State\<close>

datatype work_addr = Work nat | DWork nat

datatype wnode = WorkNode work_addr | StopNode nat

datatype daddr = DelayedList nat | DelayNode nat

definition OS_WORK_MAGIC :: u32 where "OS_WORK_MAGIC = 0x6f73776b"

definition OS_WORK_RUNNING :: u32 where "OS_WORK_RUNNING = push_bit 0 1"
definition OS_WORK_CANCELING :: u32 where "OS_WORK_CANCELING = push_bit 1 1"
definition OS_WORK_QUEUED :: u32 where "OS_WORK_QUEUED = push_bit 2 1"
definition OS_WORK_DELAYED :: u32 where "OS_WORK_DELAYED = push_bit 3 1"

definition INT32_MAX :: u32 where "INT32_MAX = 0x7FFFFFFF"

record 's os_work =
  handler :: "nat option"
  wk_queue :: "nat option"
  wk_sync :: 's
  flags :: u32
  submission_id :: u32
  running_id :: u32
  completion_id :: u32
  magic :: u32
  sync_initialized :: bool

record os_work_delayable =
  dw_queue :: "nat option"
  deadline :: u32

record os_work_queue =
  current :: "work_addr option"
  started :: bool
  stopping :: bool
  draining :: bool
  plugged :: bool
  no_yield :: bool

record 's wq_mem =
  wm_fifo :: "(nat, wnode, 's) fifo_mem"
  wm_delayed :: "daddr dheap"
  wm_work :: "work_addr \<Rightarrow> 's os_work"
  wm_dwork :: "nat \<Rightarrow> os_work_delayable"
  wm_queue :: "nat \<Rightarrow> os_work_queue"

record wctx =
  cx_isr :: bool
  cx_worker :: "nat option"

definition upd_work :: "work_addr \<Rightarrow> ('s os_work \<Rightarrow> 's os_work) \<Rightarrow> 's wq_mem \<Rightarrow> 's wq_mem" where
  "upd_work w f m = m\<lparr>wm_work := (wm_work m)(w := f (wm_work m w))\<rparr>"

definition upd_queue :: "nat \<Rightarrow> (os_work_queue \<Rightarrow> os_work_queue) \<Rightarrow> 's wq_mem \<Rightarrow> 's wq_mem" where
  "upd_queue q f m = m\<lparr>wm_queue := (wm_queue m)(q := f (wm_queue m q))\<rparr>"

definition set_flag :: "u32 \<Rightarrow> 's os_work \<Rightarrow> 's os_work" where
  "set_flag b w = w\<lparr>flags := flags w OR b\<rparr>"

definition clear_flag :: "u32 \<Rightarrow> 's os_work \<Rightarrow> 's os_work" where
  "clear_flag b w = w\<lparr>flags := flags w AND NOT b\<rparr>"

definition has_flag :: "u32 \<Rightarrow> 's os_work \<Rightarrow> bool" where
  "has_flag b w \<longleftrightarrow> flags w AND b \<noteq> 0"

definition fifo_count :: "nat \<Rightarrow> 's wq_mem \<Rightarrow> u32" where
  "fifo_count q m = ff_count (fm_fifo (wm_fifo m) q)"

definition upd_count :: "nat \<Rightarrow> (u32 \<Rightarrow> u32) \<Rightarrow> 's wq_mem \<Rightarrow> 's wq_mem" where
  "upd_count q f m = m\<lparr>wm_fifo := upd_fifo q (\<lambda>x. x\<lparr>ff_count := f (ff_count x)\<rparr>) (wm_fifo m)\<rparr>"

definition set_node_queued :: "wnode \<Rightarrow> bool \<Rightarrow> 's wq_mem \<Rightarrow> 's wq_mem" where
  "set_node_queued n b m = m\<lparr>wm_fifo := set_queued n b (wm_fifo m)\<rparr>"

definition give_items :: "'s sem_ops \<Rightarrow> bool \<Rightarrow> nat \<Rightarrow> 's wq_mem \<Rightarrow> 's wq_mem" where
  "give_items S isr q m = m\<lparr>wm_fifo := fifo_give S isr q (wm_fifo m)\<rparr>"

definition trytake_items :: "'s sem_ops \<Rightarrow> bool \<Rightarrow> nat \<Rightarrow> 's wq_mem \<Rightarrow> 's wq_mem" where
  "trytake_items S isr q m =
     m\<lparr>wm_fifo := upd_fifo q (\<lambda>x. x\<lparr>ff_items := snd (sem_trytake S isr (ff_items x))\<rparr>) (wm_fifo m)\<rparr>"

text \<open>The three statements that put a node on a queue's FIFO, in \<open>submit\<close> and in \<open>stop\<close>.\<close>

definition enqueue_node :: "nat \<Rightarrow> wnode \<Rightarrow> 's wq_mem \<Rightarrow> 's wq_mem option" where
  "enqueue_node q n m = do {
     let m = set_node_queued n True m;
     h \<leftarrow> sys_dlist_append (FifoList q) (FifoNode n) (fm_heap (wm_fifo m));
     Some (upd_count q (\<lambda>c. c + 1) (m\<lparr>wm_fifo := (wm_fifo m)\<lparr>fm_heap := h\<rparr>\<rparr>))
   }"

text \<open>Take a delayable item off its delayed list and clear its flag.\<close>

definition undelay :: "nat \<Rightarrow> 's wq_mem \<Rightarrow> 's wq_mem option" where
  "undelay d m = do {
     h \<leftarrow> sys_dlist_remove (DelayNode d) (wm_delayed m);
     Some (upd_work (DWork d) (clear_flag OS_WORK_DELAYED) (m\<lparr>wm_delayed := h\<rparr>))
   }"

section \<open>Internal functions\<close>

definition os_work_notify :: "'s sem_ops \<Rightarrow> bool \<Rightarrow> work_addr \<Rightarrow> 's wq_mem \<Rightarrow> 's wq_mem" where
  "os_work_notify S isr w m =
     (if sync_initialized (wm_work m w)
      then upd_work w (\<lambda>x. x\<lparr>wk_sync := sem_give S isr (wk_sync x)\<rparr>) m else m)"

definition os_work_deadline_remaining :: "u32 \<Rightarrow> u32 \<Rightarrow> u32" where
  "os_work_deadline_remaining dl now =
     (let remaining = sint (dl - now) in if remaining > 0 then word_of_int remaining else 0)"

section \<open>Submission\<close>

text \<open>The critical section of \<open>os_work_submit_to_queue\<close>; a positive result means queued.\<close>

definition submit_section :: "wctx \<Rightarrow> nat \<Rightarrow> work_addr \<Rightarrow> 's wq_mem \<Rightarrow> (int \<times> 's wq_mem) option" where
  "submit_section cx q w m =
     (let Q = wm_queue m q; W = wm_work m w
      in if stopping Q \<or> ((draining Q \<or> plugged Q) \<and> cx_worker cx \<noteq> Some q)
            \<or> has_flag OS_WORK_CANCELING W then Some (- EBUSY, m)
         else if has_flag OS_WORK_QUEUED W
           then Some (if wk_queue W = Some q then 0 else - EBUSY, m)
         else if has_flag OS_WORK_RUNNING W \<and> wk_queue W \<noteq> Some q then Some (- EBUSY, m)
         else if fifo_count q m \<ge> UINT16_MAX then Some (- ENOSPC, m)
         else do {
           let result = (if has_flag OS_WORK_RUNNING W then 2 else 1);
           let m = upd_work w (\<lambda>x. set_flag OS_WORK_QUEUED
                     (x\<lparr>submission_id := submission_id x + 1, wk_queue := Some q\<rparr>)) m;
           m \<leftarrow> enqueue_node q (WorkNode w) m;
           Some (result, m)
         })"

definition os_work_submit_to_queue ::
  "'s sem_ops \<Rightarrow> wctx \<Rightarrow> nat option \<Rightarrow> work_addr option \<Rightarrow> 's wq_mem \<Rightarrow> (int \<times> 's wq_mem) option" where
  "os_work_submit_to_queue S cx queue work m =
     (case work of
        None \<Rightarrow> Some (- EINVAL, m)
      | Some w \<Rightarrow>
          let W = wm_work m w
          in if magic W \<noteq> OS_WORK_MAGIC \<or> handler W = None \<or> \<not> sync_initialized W
             then Some (- EINVAL, m)
             else (case (if queue = None then wk_queue W else queue) of
                     None \<Rightarrow> Some (- EINVAL, m)
                   | Some q \<Rightarrow>
                       if \<not> started (wm_queue m q) then Some (- ENODEV, m)
                       else do {
                         (r, m) \<leftarrow> submit_section cx q w m;
                         Some (r, if r > 0 then give_items S (cx_isr cx) q m else m)
                       }))"

definition os_work_submit ::
  "'s sem_ops \<Rightarrow> wctx \<Rightarrow> nat option \<Rightarrow> work_addr option \<Rightarrow> 's wq_mem \<Rightarrow> (int \<times> 's wq_mem) option" where
  "os_work_submit S cx queue work m = os_work_submit_to_queue S cx queue work m"

section \<open>The worker thread\<close>

text \<open>
  One pass of \<open>os_work_promote_delayed\<close> through its critical section: the due item, if any
  (taken off the list), the time to the next deadline, and whether the queue is blocked.
\<close>

definition promote_section ::
  "nat \<Rightarrow> u32 \<Rightarrow> 's wq_mem \<Rightarrow> ((nat option \<times> u32 \<times> bool) \<times> 's wq_mem) option" where
  "promote_section q now m =
     (case sys_dlist_for_each_node (DelayedList q) (wm_delayed m)
             (\<lambda>node timeout. case node of
                DelayedList _ \<Rightarrow> Inr None
              | DelayNode d \<Rightarrow>
                  let remaining = os_work_deadline_remaining (deadline (wm_dwork m d)) now
                  in if remaining = 0 then Inr (Some d)
                     else Inl (if timeout = OS_WAIT_FOREVER \<or> remaining < timeout
                               then remaining else timeout))
             OS_WAIT_FOREVER of
        None \<Rightarrow> None
      | Some (Inr None) \<Rightarrow> None
      | Some (Inl timeout) \<Rightarrow> Some ((None, timeout, False), m)
      | Some (Inr (Some d)) \<Rightarrow> do {
          m \<leftarrow> undelay d m;
          Some ((Some d, OS_WAIT_FOREVER, plugged (wm_queue m q) \<or> stopping (wm_queue m q)), m)
        })"

partial_function (option) os_work_promote_delayed ::
  "'s sem_ops \<Rightarrow> wctx \<Rightarrow> nat \<Rightarrow> (nat \<Rightarrow> u32) \<Rightarrow> nat \<Rightarrow> 's wq_mem \<Rightarrow> (u32 \<times> 's wq_mem) option" where
  "os_work_promote_delayed S cx q tick k m = do {
     (p, m) \<leftarrow> promote_section q (tick k) m;
     (case p of
        (None, timeout, _) \<Rightarrow> Some (timeout, m)
      | (Some d, _, blocked) \<Rightarrow>
          if \<not> blocked
          then do {
            (_, m) \<leftarrow> os_work_submit_to_queue S cx (Some q) (Some (DWork d)) m;
            os_work_promote_delayed S cx q tick (Suc k) m
          }
          else os_work_promote_delayed S cx q tick (Suc k) (os_work_notify S (cx_isr cx) (DWork d) m))
   }"

datatype fetched = FetchNothing | FetchStop | FetchWork work_addr

definition worker_fetch_section :: "nat \<Rightarrow> 's wq_mem \<Rightarrow> (fetched \<times> 's wq_mem) option" where
  "worker_fetch_section q m = do {
     (entry, h) \<leftarrow> sys_dlist_get (FifoList q) (fm_heap (wm_fifo m));
     let m = m\<lparr>wm_fifo := (wm_fifo m)\<lparr>fm_heap := h\<rparr>\<rparr>;
     (case entry of
        None \<Rightarrow> Some (FetchNothing, m)
      | Some (FifoList _) \<Rightarrow> None
      | Some (FifoNode n) \<Rightarrow>
          let m = upd_count q (\<lambda>c. c - 1) (set_node_queued n False m)
          in (case n of
                StopNode p \<Rightarrow> if p = q then Some (FetchStop, m) else None
              | WorkNode w \<Rightarrow>
                  let m = upd_work w (\<lambda>x. let x = set_flag OS_WORK_RUNNING (clear_flag OS_WORK_QUEUED x)
                                          in x\<lparr>running_id := submission_id x\<rparr>) m
                  in Some (FetchWork w, upd_queue q (\<lambda>x. x\<lparr>current := Some w\<rparr>) m)))
   }"

definition worker_finish_section :: "nat \<Rightarrow> work_addr \<Rightarrow> 's wq_mem \<Rightarrow> 's wq_mem" where
  "worker_finish_section q w m =
     upd_work w (\<lambda>x. clear_flag (OS_WORK_RUNNING OR OS_WORK_CANCELING) (x\<lparr>completion_id := running_id x\<rparr>))
       (upd_queue q (\<lambda>x. x\<lparr>current := None\<rparr>) m)"

text \<open>
  One iteration of the loop of \<open>os_work_queue_entry\<close>, with \<open>run\<close> the effect of a handler;
  the result says whether the thread returns.
\<close>

definition worker_iteration ::
  "'s sem_ops \<Rightarrow> nat \<Rightarrow> (work_addr \<Rightarrow> 's wq_mem \<Rightarrow> 's wq_mem option) \<Rightarrow> (nat \<Rightarrow> u32) \<Rightarrow> 's wq_mem \<Rightarrow>
   (bool \<times> 's wq_mem) option" where
  "worker_iteration S q run tick m = do {
     let cx = \<lparr>cx_isr = False, cx_worker = Some q\<rparr>;
     (timeout, m) \<leftarrow> os_work_promote_delayed S cx q tick 0 m;
     let (r, items) = sem_take S False (ff_items (fm_fifo (wm_fifo m) q)) timeout;
     let m = m\<lparr>wm_fifo := upd_fifo q (\<lambda>x. x\<lparr>ff_items := items\<rparr>) (wm_fifo m)\<rparr>;
     if r \<noteq> 0 then Some (False, m)
     else do {
       (f, m) \<leftarrow> worker_fetch_section q m;
       (case f of
          FetchNothing \<Rightarrow> Some (False, m)
        | FetchStop \<Rightarrow> Some (True, m)
        | FetchWork w \<Rightarrow> do {
            m \<leftarrow> run w m;
            Some (False, os_work_notify S False w (worker_finish_section q w m))
          })
     }
   }"

section \<open>Work items\<close>

definition os_work_zero :: "'s sem_ops \<Rightarrow> 's os_work" where
  "os_work_zero S = \<lparr>handler = None, wk_queue = None, wk_sync = sem_zero S, flags = 0,
     submission_id = 0, running_id = 0, completion_id = 0, magic = 0, sync_initialized = False\<rparr>"

definition os_work_init ::
  "'s sem_ops \<Rightarrow> work_addr option \<Rightarrow> nat option \<Rightarrow> 's wq_mem \<Rightarrow> 's wq_mem" where
  "os_work_init S work h m =
     (case work of
        None \<Rightarrow> m
      | Some w \<Rightarrow>
          let m = upd_work w (\<lambda>_. os_work_zero S) m;
              m = m\<lparr>wm_fifo := os_fifo_node_init (Some (WorkNode w)) (wm_fifo m)\<rparr>;
              (r, sync) = sem_init S (wk_sync (wm_work m w)) 0 1
          in upd_work w (\<lambda>x. x\<lparr>handler := h, wk_sync := sync, sync_initialized := (r = 0),
                               magic := OS_WORK_MAGIC\<rparr>) m)"

definition os_work_busy_get :: "work_addr option \<Rightarrow> 's wq_mem \<Rightarrow> u32" where
  "os_work_busy_get work m =
     (case work of
        None \<Rightarrow> 0
      | Some w \<Rightarrow> if magic (wm_work m w) \<noteq> OS_WORK_MAGIC then 0 else flags (wm_work m w))"

definition os_work_is_pending :: "work_addr option \<Rightarrow> 's wq_mem \<Rightarrow> bool" where
  "os_work_is_pending work m \<longleftrightarrow> os_work_busy_get work m \<noteq> 0"

text \<open>
  The critical section of \<open>os_work_cancel\<close>: the flags it returns, and the queue from which the
  item was removed.
\<close>

definition cancel_section :: "work_addr \<Rightarrow> 's wq_mem \<Rightarrow> ((u32 \<times> nat option) \<times> 's wq_mem) option" where
  "cancel_section w m = do {
     let queue = wk_queue (wm_work m w);
     (was_queued, m) \<leftarrow>
       (case queue of
          Some q \<Rightarrow>
            if has_flag OS_WORK_QUEUED (wm_work m w)
            then do {
              h \<leftarrow> sys_dlist_remove (FifoNode (WorkNode w)) (fm_heap (wm_fifo m));
              let m = set_node_queued (WorkNode w) False (m\<lparr>wm_fifo := (wm_fifo m)\<lparr>fm_heap := h\<rparr>\<rparr>);
              Some (Some q, upd_work w (clear_flag OS_WORK_QUEUED) (upd_count q (\<lambda>c. c - 1) m))
            }
            else Some (None, m)
        | None \<Rightarrow> Some (None, m));
     let m = (if has_flag OS_WORK_RUNNING (wm_work m w)
              then upd_work w (set_flag OS_WORK_CANCELING) m
              else upd_work w (\<lambda>x. clear_flag OS_WORK_CANCELING (x\<lparr>completion_id := submission_id x\<rparr>)) m);
     Some ((flags (wm_work m w), was_queued), m)
   }"

definition os_work_cancel ::
  "'s sem_ops \<Rightarrow> bool \<Rightarrow> work_addr option \<Rightarrow> 's wq_mem \<Rightarrow> (int \<times> 's wq_mem) option" where
  "os_work_cancel S isr work m =
     (case work of
        None \<Rightarrow> Some (- EINVAL, m)
      | Some w \<Rightarrow>
          if magic (wm_work m w) \<noteq> OS_WORK_MAGIC \<or> \<not> sync_initialized (wm_work m w)
          then Some (- EINVAL, m)
          else do {
            ((fl, was_queued), m) \<leftarrow> cancel_section w m;
            let m = (case was_queued of None \<Rightarrow> m | Some q \<Rightarrow> trytake_items S isr q m);
            Some (sint fl, os_work_notify S isr w m)
          })"

text \<open>Waiting on the completion semaphore; the environment then runs.\<close>

definition sync_wait ::
  "'s sem_ops \<Rightarrow> bool \<Rightarrow> work_addr \<Rightarrow> ('s wq_mem \<Rightarrow> 's wq_mem) \<Rightarrow> 's wq_mem \<Rightarrow> 's wq_mem" where
  "sync_wait S isr w env m =
     env (upd_work w (\<lambda>x. x\<lparr>wk_sync := snd (sem_take S isr (wk_sync x) OS_WAIT_FOREVER)\<rparr>) m)"

partial_function (option) await_idle ::
  "'s sem_ops \<Rightarrow> bool \<Rightarrow> (nat \<Rightarrow> 's wq_mem \<Rightarrow> 's wq_mem) \<Rightarrow> work_addr \<Rightarrow> nat \<Rightarrow> 's wq_mem \<Rightarrow> 's wq_mem option" where
  "await_idle S isr env w k m =
     (if os_work_busy_get (Some w) m \<noteq> 0
      then await_idle S isr env w (Suc k) (sync_wait S isr w (env k) m)
      else Some m)"

text \<open>The caller's \<open>os_work_sync\<close> is only tested against NULL.\<close>

definition os_work_cancel_sync ::
  "'s sem_ops \<Rightarrow> bool \<Rightarrow> (nat \<Rightarrow> 's wq_mem \<Rightarrow> 's wq_mem) \<Rightarrow> work_addr option \<Rightarrow> unit option \<Rightarrow>
   's wq_mem \<Rightarrow> (bool \<times> 's wq_mem) option" where
  "os_work_cancel_sync S isr env work sync m =
     (case (work, sync) of
        (Some w, Some _) \<Rightarrow>
          if magic (wm_work m w) \<noteq> OS_WORK_MAGIC \<or> \<not> sync_initialized (wm_work m w)
          then Some (False, m)
          else do {
            let was_pending = (flags (wm_work m w) \<noteq> 0);
            (_, m) \<leftarrow> os_work_cancel S isr work m;
            m \<leftarrow> await_idle S isr env w 0 m;
            Some (was_pending, m)
          }
      | _ \<Rightarrow> Some (False, m))"

partial_function (option) await_completion ::
  "'s sem_ops \<Rightarrow> bool \<Rightarrow> (nat \<Rightarrow> 's wq_mem \<Rightarrow> 's wq_mem) \<Rightarrow> work_addr \<Rightarrow> u32 \<Rightarrow> nat \<Rightarrow> 's wq_mem \<Rightarrow>
   's wq_mem option" where
  "await_completion S isr env w target k m =
     (if completion_id (wm_work m w) = target then Some m
      else await_completion S isr env w target (Suc k) (sync_wait S isr w (env k) m))"

definition os_work_flush ::
  "'s sem_ops \<Rightarrow> bool \<Rightarrow> (nat \<Rightarrow> 's wq_mem \<Rightarrow> 's wq_mem) \<Rightarrow> work_addr option \<Rightarrow> unit option \<Rightarrow>
   's wq_mem \<Rightarrow> (bool \<times> 's wq_mem) option" where
  "os_work_flush S isr env work sync m =
     (case (work, sync) of
        (Some w, Some _) \<Rightarrow>
          if magic (wm_work m w) \<noteq> OS_WORK_MAGIC \<or> \<not> sync_initialized (wm_work m w)
          then Some (False, m)
          else do {
            let target = submission_id (wm_work m w);
            let waited = (completion_id (wm_work m w) \<noteq> target);
            m \<leftarrow> await_completion S isr env w target 0 m;
            Some (waited, m)
          }
      | _ \<Rightarrow> Some (False, m))"

section \<open>Delayable items\<close>

definition os_work_init_delayable ::
  "'s sem_ops \<Rightarrow> nat option \<Rightarrow> nat option \<Rightarrow> 's wq_mem \<Rightarrow> 's wq_mem" where
  "os_work_init_delayable S dwork h m =
     (case dwork of
        None \<Rightarrow> m
      | Some d \<Rightarrow>
          let m = m\<lparr>wm_dwork := (wm_dwork m)(d := \<lparr>dw_queue = None, deadline = 0\<rparr>)\<rparr>;
              m = os_work_init S (Some (DWork d)) h m
          in m\<lparr>wm_delayed := sys_dnode_init (DelayNode d) (wm_delayed m)\<rparr>)"

text \<open>\<open>CONTAINER_OF\<close> of a work item that stands alone is undefined behaviour.\<close>

definition os_work_delayable_from_work :: "work_addr option \<Rightarrow> nat option option" where
  "os_work_delayable_from_work work =
     (case work of
        None \<Rightarrow> Some None
      | Some (DWork d) \<Rightarrow> Some (Some d)
      | Some (Work _) \<Rightarrow> None)"

definition os_work_delayable_busy_get :: "nat option \<Rightarrow> 's wq_mem \<Rightarrow> u32" where
  "os_work_delayable_busy_get dwork m =
     (case dwork of None \<Rightarrow> 0 | Some d \<Rightarrow> os_work_busy_get (Some (DWork d)) m)"

definition os_work_delayable_is_pending :: "nat option \<Rightarrow> 's wq_mem \<Rightarrow> bool" where
  "os_work_delayable_is_pending dwork m \<longleftrightarrow> os_work_delayable_busy_get dwork m \<noteq> 0"

definition os_work_delayable_expires_get :: "u32 \<Rightarrow> nat option \<Rightarrow> 's wq_mem \<Rightarrow> u32" where
  "os_work_delayable_expires_get now dwork m =
     (case dwork of
        None \<Rightarrow> now
      | Some d \<Rightarrow> if has_flag OS_WORK_DELAYED (wm_work m (DWork d)) then deadline (wm_dwork m d) else now)"

definition os_work_delayable_remaining_get :: "u32 \<Rightarrow> nat option \<Rightarrow> 's wq_mem \<Rightarrow> u32" where
  "os_work_delayable_remaining_get now dwork m =
     (case dwork of
        None \<Rightarrow> 0
      | Some d \<Rightarrow>
          if has_flag OS_WORK_DELAYED (wm_work m (DWork d))
          then os_work_deadline_remaining (deadline (wm_dwork m d)) now else 0)"

text \<open>
  The critical section of \<open>os_work_schedule_common\<close>. \<open>SchedDone\<close> is a return code decided
  inside it, \<open>SchedSubmit\<close> goes on to submit at once, \<open>SchedDelayed\<close> has put the item on the
  delayed list; the last two carry the queue that held it before.
\<close>

datatype sched = SchedDone int | SchedSubmit "nat option" | SchedDelayed "nat option"

definition schedule_section ::
  "wctx \<Rightarrow> u32 \<Rightarrow> nat \<Rightarrow> nat \<Rightarrow> u32 \<Rightarrow> bool \<Rightarrow> 's wq_mem \<Rightarrow> (sched \<times> 's wq_mem) option" where
  "schedule_section cx now q d delay reschedule m =
     (let Q = wm_queue m q; W = wm_work m (DWork d)
      in if has_flag OS_WORK_CANCELING W \<or> stopping Q
            \<or> ((draining Q \<or> plugged Q) \<and> cx_worker cx \<noteq> Some q)
         then Some (SchedDone (- EBUSY), m)
         else if \<not> reschedule \<and> has_flag (OS_WORK_DELAYED OR OS_WORK_QUEUED) W
         then Some (SchedDone 0, m)
         else do {
           (old_queue, m) \<leftarrow>
             (if has_flag OS_WORK_DELAYED W
              then map_option (Pair (dw_queue (wm_dwork m d))) (undelay d m)
              else Some (None, m));
           if delay = 0 then Some (SchedSubmit old_queue, m)
           else do {
             let m = m\<lparr>wm_dwork := (wm_dwork m)(d := \<lparr>dw_queue = Some q, deadline = now + delay\<rparr>)\<rparr>;
             let m = upd_work (DWork d) (set_flag OS_WORK_DELAYED) m;
             h \<leftarrow> sys_dlist_append (DelayedList q) (DelayNode d) (wm_delayed m);
             Some (SchedDelayed old_queue, m\<lparr>wm_delayed := h\<rparr>)
           }
         })"

definition os_work_schedule_common ::
  "'s sem_ops \<Rightarrow> wctx \<Rightarrow> u32 \<Rightarrow> nat option \<Rightarrow> nat option \<Rightarrow> u32 \<Rightarrow> bool \<Rightarrow> 's wq_mem \<Rightarrow>
   (int \<times> 's wq_mem) option" where
  "os_work_schedule_common S cx now queue dwork delay reschedule m =
     (case (queue, dwork) of
        (Some q, Some d) \<Rightarrow>
          if magic (wm_work m (DWork d)) \<noteq> OS_WORK_MAGIC \<or> delay > INT32_MAX then Some (- EINVAL, m)
          else if \<not> started (wm_queue m q) then Some (- ENODEV, m)
          else do {
            (r, m) \<leftarrow> schedule_section cx now q d delay reschedule m;
            (case r of
               SchedDone e \<Rightarrow> Some (e, m)
             | SchedSubmit old_queue \<Rightarrow>
                 os_work_submit_to_queue S cx (Some q) (Some (DWork d))
                   (case old_queue of None \<Rightarrow> m | Some p \<Rightarrow> give_items S (cx_isr cx) p m)
             | SchedDelayed old_queue \<Rightarrow>
                 let m = (case old_queue of
                            None \<Rightarrow> m
                          | Some p \<Rightarrow> if p \<noteq> q then give_items S (cx_isr cx) p m else m)
                 in Some (1, give_items S (cx_isr cx) q m))
          }
      | _ \<Rightarrow> Some (- EINVAL, m))"

definition os_work_schedule_for_queue ::
  "'s sem_ops \<Rightarrow> wctx \<Rightarrow> u32 \<Rightarrow> nat option \<Rightarrow> nat option \<Rightarrow> u32 \<Rightarrow> 's wq_mem \<Rightarrow> (int \<times> 's wq_mem) option" where
  "os_work_schedule_for_queue S cx now queue dwork delay m =
     os_work_schedule_common S cx now queue dwork delay False m"

definition os_work_reschedule_for_queue ::
  "'s sem_ops \<Rightarrow> wctx \<Rightarrow> u32 \<Rightarrow> nat option \<Rightarrow> nat option \<Rightarrow> u32 \<Rightarrow> 's wq_mem \<Rightarrow> (int \<times> 's wq_mem) option" where
  "os_work_reschedule_for_queue S cx now queue dwork delay m =
     os_work_schedule_common S cx now queue dwork delay True m"

definition os_work_schedule ::
  "'s sem_ops \<Rightarrow> wctx \<Rightarrow> u32 \<Rightarrow> nat option \<Rightarrow> nat option \<Rightarrow> u32 \<Rightarrow> 's wq_mem \<Rightarrow> (int \<times> 's wq_mem) option" where
  "os_work_schedule S cx now queue dwork delay m = os_work_schedule_for_queue S cx now queue dwork delay m"

definition os_work_reschedule ::
  "'s sem_ops \<Rightarrow> wctx \<Rightarrow> u32 \<Rightarrow> nat option \<Rightarrow> nat option \<Rightarrow> u32 \<Rightarrow> 's wq_mem \<Rightarrow> (int \<times> 's wq_mem) option" where
  "os_work_reschedule S cx now queue dwork delay m = os_work_reschedule_for_queue S cx now queue dwork delay m"

text \<open>
  The critical section shared by \<open>os_work_cancel_delayable\<close> and \<open>os_work_flush_delayable\<close>;
  \<open>Some queue\<close> when the item was delayed.
\<close>

definition undelay_section :: "nat \<Rightarrow> 's wq_mem \<Rightarrow> (nat option option \<times> 's wq_mem) option" where
  "undelay_section d m =
     (if has_flag OS_WORK_DELAYED (wm_work m (DWork d))
      then map_option (Pair (Some (dw_queue (wm_dwork m d)))) (undelay d m)
      else Some (None, m))"

definition os_work_cancel_delayable ::
  "'s sem_ops \<Rightarrow> bool \<Rightarrow> nat option \<Rightarrow> 's wq_mem \<Rightarrow> (int \<times> 's wq_mem) option" where
  "os_work_cancel_delayable S isr dwork m =
     (case dwork of
        None \<Rightarrow> Some (- EINVAL, m)
      | Some d \<Rightarrow>
          if magic (wm_work m (DWork d)) \<noteq> OS_WORK_MAGIC then Some (- EINVAL, m)
          else do {
            (old, m) \<leftarrow> undelay_section d m;
            let m = (case old of Some (Some q) \<Rightarrow> give_items S isr q m | _ \<Rightarrow> m);
            os_work_cancel S isr (Some (DWork d)) m
          })"

definition os_work_cancel_delayable_sync ::
  "'s sem_ops \<Rightarrow> bool \<Rightarrow> (nat \<Rightarrow> 's wq_mem \<Rightarrow> 's wq_mem) \<Rightarrow> nat option \<Rightarrow> unit option \<Rightarrow>
   's wq_mem \<Rightarrow> (bool \<times> 's wq_mem) option" where
  "os_work_cancel_delayable_sync S isr env dwork sync m =
     (case (dwork, sync) of
        (Some d, Some _) \<Rightarrow> do {
          let was_pending = os_work_delayable_is_pending dwork m;
          (_, m) \<leftarrow> os_work_cancel_delayable S isr dwork m;
          m \<leftarrow> await_idle S isr env (DWork d) 0 m;
          Some (was_pending, m)
        }
      | _ \<Rightarrow> Some (False, m))"

text \<open>The give dereferences the queue of a delayed item; a NULL there is undefined behaviour.\<close>

definition os_work_flush_delayable ::
  "'s sem_ops \<Rightarrow> wctx \<Rightarrow> (nat \<Rightarrow> 's wq_mem \<Rightarrow> 's wq_mem) \<Rightarrow> nat option \<Rightarrow> unit option \<Rightarrow>
   's wq_mem \<Rightarrow> (bool \<times> 's wq_mem) option" where
  "os_work_flush_delayable S cx env dwork sync m =
     (case (dwork, sync) of
        (Some d, Some _) \<Rightarrow>
          if magic (wm_work m (DWork d)) \<noteq> OS_WORK_MAGIC then Some (False, m)
          else do {
            (old, m) \<leftarrow> undelay_section d m;
            m \<leftarrow> (case old of
                    None \<Rightarrow> Some m
                  | Some None \<Rightarrow> None
                  | Some (Some q) \<Rightarrow>
                      map_option snd (os_work_submit_to_queue S cx (Some q) (Some (DWork d))
                        (give_items S (cx_isr cx) q m)));
            (waited, m) \<leftarrow> os_work_flush S (cx_isr cx) env (Some (DWork d)) sync m;
            Some (waited \<or> old \<noteq> None, m)
          }
      | _ \<Rightarrow> Some (False, m))"

section \<open>Queue lifecycle\<close>

definition os_work_queue_zero :: os_work_queue where
  "os_work_queue_zero = \<lparr>current = None, started = False, stopping = False, draining = False,
     plugged = False, no_yield = False\<rparr>"

text \<open>\<open>create\<close> is the return value of \<open>os_thread_create\<close>; the name only labels the thread.\<close>

definition os_work_queue_start ::
  "'s sem_ops \<Rightarrow> bool \<Rightarrow> int \<Rightarrow> nat option \<Rightarrow> size_t \<Rightarrow> bool option \<Rightarrow> 's wq_mem \<Rightarrow> int \<times> 's wq_mem" where
  "os_work_queue_start S isr create queue stack_size config m =
     (case queue of
        None \<Rightarrow> (- EINVAL, m)
      | Some q \<Rightarrow>
          if stack_size = 0 then (- EINVAL, m)
          else if started (wm_queue m q) then (- EALREADY, m)
          else
            let m = upd_queue q (\<lambda>_. os_work_queue_zero) m;
                F = os_fifo_node_init (Some (StopNode q)) (fifo_zero_at S q (wm_fifo m));
                m = m\<lparr>wm_fifo := F, wm_delayed := (wm_delayed m)(DelayedList q := null_dnode)\<rparr>;
                (result, F) = os_fifo_init S (Some q) (wm_fifo m);
                m = m\<lparr>wm_fifo := F\<rparr>
            in if result \<noteq> 0 then (result, m)
               else
                 let m = m\<lparr>wm_delayed := sys_dlist_init (DelayedList q) (wm_delayed m)\<rparr>;
                     m = upd_queue q (\<lambda>x. x\<lparr>no_yield := (case config of None \<Rightarrow> False | Some b \<Rightarrow> b)\<rparr>) m
                 in if create \<noteq> 0
                    then (create, m\<lparr>wm_fifo := snd (os_fifo_deinit S isr (Some q) (wm_fifo m))\<rparr>)
                    else (0, upd_queue q (\<lambda>x. x\<lparr>started := True\<rparr>) m))"

text \<open>The loop of \<open>os_work_queue_drain\<close>; \<open>env k\<close> runs during the \<open>k\<close>-th delay.\<close>

partial_function (option) drain_loop ::
  "(nat \<Rightarrow> 's wq_mem \<Rightarrow> 's wq_mem) \<Rightarrow> nat \<Rightarrow> nat \<Rightarrow> 's wq_mem \<Rightarrow> 's wq_mem option" where
  "drain_loop env q k m =
     (if fifo_count q m = 0 \<and> current (wm_queue m q) = None
      then Some (upd_queue q (\<lambda>x. x\<lparr>draining := False\<rparr>) m)
      else drain_loop env q (Suc k) (env k m))"

definition os_work_queue_drain ::
  "bool \<Rightarrow> (nat \<Rightarrow> 's wq_mem \<Rightarrow> 's wq_mem) \<Rightarrow> nat option \<Rightarrow> bool \<Rightarrow> 's wq_mem \<Rightarrow> (int \<times> 's wq_mem) option" where
  "os_work_queue_drain isr env queue plug m =
     (case queue of
        None \<Rightarrow> Some (- EINVAL, m)
      | Some q \<Rightarrow>
          if \<not> started (wm_queue m q) then Some (- EINVAL, m)
          else if isr then Some (- EWOULDBLOCK, m)
          else do {
            let m = upd_queue q (\<lambda>x. x\<lparr>draining := True, plugged := plug \<or> plugged x\<rparr>) m;
            let waited = (fifo_count q m \<noteq> 0 \<or> current (wm_queue m q) \<noteq> None);
            m \<leftarrow> drain_loop env q 0 m;
            Some (if waited then 1 else 0, m)
          })"

definition os_work_queue_unplug :: "nat option \<Rightarrow> 's wq_mem \<Rightarrow> int \<times> 's wq_mem" where
  "os_work_queue_unplug queue m =
     (case queue of
        None \<Rightarrow> (- EINVAL, m)
      | Some q \<Rightarrow>
          if \<not> started (wm_queue m q) then (- EINVAL, m)
          else if \<not> plugged (wm_queue m q) then (- EALREADY, m)
          else (0, upd_queue q (\<lambda>x. x\<lparr>plugged := False\<rparr>) m))"

text \<open>The first critical section of \<open>os_work_queue_stop\<close>.\<close>

definition stop_section :: "nat \<Rightarrow> 's wq_mem \<Rightarrow> (int \<times> 's wq_mem) option" where
  "stop_section q m =
     (if \<not> plugged (wm_queue m q) \<or> fifo_count q m \<noteq> 0 \<or> current (wm_queue m q) \<noteq> None
      then Some (- EBUSY, m)
      else map_option (Pair 0) (enqueue_node q (StopNode q) (upd_queue q (\<lambda>x. x\<lparr>stopping := True\<rparr>) m)))"

text \<open>The loop that empties the delayed list.\<close>

partial_function (option) release_delayed ::
  "'s sem_ops \<Rightarrow> bool \<Rightarrow> nat \<Rightarrow> 's wq_mem \<Rightarrow> 's wq_mem option" where
  "release_delayed S isr q m =
     (case sys_dlist_peek_head (DelayedList q) (wm_delayed m) of
        None \<Rightarrow> Some m
      | Some (DelayedList _) \<Rightarrow> None
      | Some (DelayNode d) \<Rightarrow> do {
          m \<leftarrow> undelay d m;
          release_delayed S isr q (os_work_notify S isr (DWork d) m)
        })"

text \<open>\<open>join\<close> is \<open>os_thread_join\<close>: its result, and what the worker does until it returns.\<close>

definition os_work_queue_stop ::
  "'s sem_ops \<Rightarrow> wctx \<Rightarrow> ('s wq_mem \<Rightarrow> int \<times> 's wq_mem) \<Rightarrow> nat option \<Rightarrow> 's wq_mem \<Rightarrow>
   (int \<times> 's wq_mem) option" where
  "os_work_queue_stop S cx join queue m =
     (case queue of
        None \<Rightarrow> Some (- EALREADY, m)
      | Some q \<Rightarrow>
          if \<not> started (wm_queue m q) then Some (- EALREADY, m)
          else if cx_worker cx = Some q then Some (- EDEADLK, m)
          else do {
            (r, m) \<leftarrow> stop_section q m;
            if r \<noteq> 0 then Some (r, m)
            else
              let (result, m) = join (give_items S (cx_isr cx) q m)
              in if result \<noteq> 0 then Some (result, m)
                 else do {
                   m \<leftarrow> release_delayed S (cx_isr cx) q m;
                   let (result, F) = os_fifo_deinit S (cx_isr cx) (Some q) (wm_fifo m);
                   let m = m\<lparr>wm_fifo := F\<rparr>;
                   if result \<noteq> 0 then Some (result, m)
                   else Some (0, upd_queue q (\<lambda>x. x\<lparr>started := False\<rparr>) m)
                 }
          })"

text \<open>The thread of a queue, named by the queue.\<close>

definition os_work_queue_thread_get :: "nat option \<Rightarrow> nat option" where
  "os_work_queue_thread_get queue = queue"

end
