(* ===== verification/Work_Invariant.thy ===== *)
theory Work_Invariant
  imports Work_Queue
begin

text \<open>
  The data-structure invariant of the work queues, and its preservation by every critical
  section of \<open>work_queue.c\<close>: the flags of a work item say exactly which lists it is on and
  whether a worker runs it.
\<close>

section \<open>Flags\<close>

lemma has_flag_bits:
  "has_flag OS_WORK_RUNNING w \<longleftrightarrow> bit (flags w) 0" "has_flag OS_WORK_CANCELING w \<longleftrightarrow> bit (flags w) 1"
  "has_flag OS_WORK_QUEUED w \<longleftrightarrow> bit (flags w) 2" "has_flag OS_WORK_DELAYED w \<longleftrightarrow> bit (flags w) 3"
  unfolding has_flag_def OS_WORK_RUNNING_def OS_WORK_CANCELING_def OS_WORK_QUEUED_def OS_WORK_DELAYED_def
  by (simp_all only: bit_iff_and_push_bit_not_eq_0)

lemma mask_bits:
  "bit OS_WORK_RUNNING n \<longleftrightarrow> n = 0" "bit OS_WORK_CANCELING n \<longleftrightarrow> n = 1"
  "bit OS_WORK_QUEUED n \<longleftrightarrow> n = 2" "bit OS_WORK_DELAYED n \<longleftrightarrow> n = 3"
  unfolding OS_WORK_RUNNING_def OS_WORK_CANCELING_def OS_WORK_QUEUED_def OS_WORK_DELAYED_def
    bit_push_bit_iff bit_1_iff
  by auto

lemma has_flag_set [simp]:
  "has_flag OS_WORK_RUNNING (set_flag b w) \<longleftrightarrow> bit b 0 \<or> has_flag OS_WORK_RUNNING w"
  "has_flag OS_WORK_CANCELING (set_flag b w) \<longleftrightarrow> bit b 1 \<or> has_flag OS_WORK_CANCELING w"
  "has_flag OS_WORK_QUEUED (set_flag b w) \<longleftrightarrow> bit b 2 \<or> has_flag OS_WORK_QUEUED w"
  "has_flag OS_WORK_DELAYED (set_flag b w) \<longleftrightarrow> bit b 3 \<or> has_flag OS_WORK_DELAYED w"
  by (auto simp: has_flag_bits set_flag_def bit_or_iff)

lemma has_flag_clear [simp]:
  "has_flag OS_WORK_RUNNING (clear_flag b w) \<longleftrightarrow> has_flag OS_WORK_RUNNING w \<and> \<not> bit b 0"
  "has_flag OS_WORK_CANCELING (clear_flag b w) \<longleftrightarrow> has_flag OS_WORK_CANCELING w \<and> \<not> bit b 1"
  "has_flag OS_WORK_QUEUED (clear_flag b w) \<longleftrightarrow> has_flag OS_WORK_QUEUED w \<and> \<not> bit b 2"
  "has_flag OS_WORK_DELAYED (clear_flag b w) \<longleftrightarrow> has_flag OS_WORK_DELAYED w \<and> \<not> bit b 3"
  by (auto simp: has_flag_bits clear_flag_def bit_and_iff bit_not_iff)

lemma mask_or [simp]: "bit (a OR b) n \<longleftrightarrow> bit a n \<or> bit (b :: u32) n"
  by (simp add: bit_or_iff)

lemma has_flag_or: "has_flag (a OR b) w \<longleftrightarrow> has_flag a w \<or> has_flag b w"
proof -
  have "flags w AND (a OR b) = (flags w AND a) OR (flags w AND b)" by (rule bit.conj_disj_distrib)
  then show ?thesis by (simp add: has_flag_def or_eq_0_iff)
qed

lemma has_flag_fields [simp]:
  "has_flag b (w\<lparr>handler := h\<rparr>) = has_flag b w" "has_flag b (w\<lparr>wk_queue := q\<rparr>) = has_flag b w"
  "has_flag b (w\<lparr>wk_sync := s\<rparr>) = has_flag b w" "has_flag b (w\<lparr>submission_id := i\<rparr>) = has_flag b w"
  "has_flag b (w\<lparr>running_id := i\<rparr>) = has_flag b w" "has_flag b (w\<lparr>completion_id := i\<rparr>) = has_flag b w"
  by (simp_all add: has_flag_def)

lemma flag_fields [simp]:
  "wk_queue (set_flag b w) = wk_queue w" "wk_queue (clear_flag b w) = wk_queue w"
  "submission_id (set_flag b w) = submission_id w" "submission_id (clear_flag b w) = submission_id w"
  "completion_id (set_flag b w) = completion_id w" "completion_id (clear_flag b w) = completion_id w"
  "running_id (set_flag b w) = running_id w" "running_id (clear_flag b w) = running_id w"
  "magic (set_flag b w) = magic w" "magic (clear_flag b w) = magic w"
  "handler (set_flag b w) = handler w" "handler (clear_flag b w) = handler w"
  "wk_sync (set_flag b w) = wk_sync w" "wk_sync (clear_flag b w) = wk_sync w"
  "sync_initialized (set_flag b w) = sync_initialized w"
  "sync_initialized (clear_flag b w) = sync_initialized w"
  by (simp_all add: set_flag_def clear_flag_def)

section \<open>Memory updates\<close>

lemma upd_work_simps [simp]:
  "wm_fifo (upd_work w f m) = wm_fifo m" "wm_delayed (upd_work w f m) = wm_delayed m"
  "wm_dwork (upd_work w f m) = wm_dwork m" "wm_queue (upd_work w f m) = wm_queue m"
  "wm_work (upd_work w f m) = (wm_work m)(w := f (wm_work m w))"
  by (simp_all add: upd_work_def)

lemma upd_queue_simps [simp]:
  "wm_fifo (upd_queue q g m) = wm_fifo m" "wm_delayed (upd_queue q g m) = wm_delayed m"
  "wm_dwork (upd_queue q g m) = wm_dwork m" "wm_work (upd_queue q g m) = wm_work m"
  "wm_queue (upd_queue q g m) = (wm_queue m)(q := g (wm_queue m q))"
  by (simp_all add: upd_queue_def)

lemma upd_count_simps [simp]:
  "wm_work (upd_count q f m) = wm_work m" "wm_delayed (upd_count q f m) = wm_delayed m"
  "wm_dwork (upd_count q f m) = wm_dwork m" "wm_queue (upd_count q f m) = wm_queue m"
  "wm_fifo (upd_count q f m) = upd_fifo q (\<lambda>x. x\<lparr>ff_count := f (ff_count x)\<rparr>) (wm_fifo m)"
  by (simp_all add: upd_count_def)

lemma set_node_queued_simps [simp]:
  "wm_work (set_node_queued n b m) = wm_work m" "wm_delayed (set_node_queued n b m) = wm_delayed m"
  "wm_dwork (set_node_queued n b m) = wm_dwork m" "wm_queue (set_node_queued n b m) = wm_queue m"
  "wm_fifo (set_node_queued n b m) = set_queued n b (wm_fifo m)"
  by (simp_all add: set_node_queued_def)

section \<open>The invariant\<close>

interpretation delays: dlist_family DelayedList DelayNode
  by unfold_locales auto

text \<open>
  \<open>xs q\<close> are the nodes on the FIFO of queue \<open>q\<close> and \<open>ys q\<close> the delayable items on its
  delayed list. \<open>work_ok\<close> ties the flags of one item to them.
\<close>

definition work_ok ::
  "nat set \<Rightarrow> (nat \<Rightarrow> wnode list) \<Rightarrow> (nat \<Rightarrow> nat list) \<Rightarrow> 's wq_mem \<Rightarrow> work_addr \<Rightarrow> bool" where
  "work_ok Q xs ys m w \<longleftrightarrow>
     (let W = wm_work m w in
        (has_flag OS_WORK_QUEUED W \<longleftrightarrow> (\<exists>q \<in> Q. WorkNode w \<in> set (xs q)))
      \<and> (\<forall>q \<in> Q. WorkNode w \<in> set (xs q) \<longrightarrow> wk_queue W = Some q)
      \<and> (has_flag OS_WORK_RUNNING W \<longleftrightarrow> (\<exists>q \<in> Q. current (wm_queue m q) = Some w))
      \<and> (\<forall>q \<in> Q. current (wm_queue m q) = Some w \<longrightarrow> wk_queue W = Some q)
      \<and> (has_flag OS_WORK_CANCELING W \<longrightarrow> has_flag OS_WORK_RUNNING W)
      \<and> (has_flag OS_WORK_DELAYED W \<longleftrightarrow> (\<exists>q \<in> Q. \<exists>d \<in> set (ys q). w = DWork d)))"

definition wq_shape ::
  "nat set \<Rightarrow> (nat \<Rightarrow> wnode list) \<Rightarrow> (nat \<Rightarrow> nat list) \<Rightarrow> 's wq_mem \<Rightarrow> bool" where
  "wq_shape Q xs ys m \<longleftrightarrow>
     fifo_shape Q xs (wm_fifo m)
     \<and> dlists_rep DelayedList DelayNode Q ys (wm_delayed m)
     \<and> (\<forall>q \<in> Q. \<forall>p. StopNode p \<in> set (xs q) \<longrightarrow> p = q)
     \<and> (\<forall>q \<in> Q. \<forall>d \<in> set (ys q). dw_queue (wm_dwork m d) = Some q)
     \<and> (\<forall>w. work_ok Q xs ys m w)"

lemma wq_shapeD:
  assumes "wq_shape Q xs ys m"
  shows "fifo_shape Q xs (wm_fifo m)" "dlists_rep DelayedList DelayNode Q ys (wm_delayed m)"
    and "work_ok Q xs ys m w"
  using assms by (simp_all add: wq_shape_def)

lemma fifo_count_length: "wq_shape Q xs ys m \<Longrightarrow> q \<in> Q \<Longrightarrow> unat (fifo_count q m) = length (xs q)"
  using fifo_shapeD(5) [of Q xs "wm_fifo m" q] by (simp add: fifo_count_def wq_shape_def)

lemma delays_disjoint:
  "wq_shape Q xs ys m \<Longrightarrow> p \<in> Q \<Longrightarrow> q \<in> Q \<Longrightarrow> d \<in> set (ys p) \<Longrightarrow> d \<in> set (ys q) \<Longrightarrow> p = q"
  unfolding wq_shape_def dlists_rep_def by blast

text \<open>Putting a free node on a FIFO with room.\<close>

lemma enqueue_node_shape:
  assumes shape: "fifo_shape Q xs (wm_fifo m)" and q: "q \<in> Q" and free: "\<not> fm_queued (wm_fifo m) n"
    and room: "length (xs q) < 65535"
  shows "\<exists>m'. enqueue_node q n m = Some m' \<and> fifo_shape Q (xs(q := xs q @ [n])) (wm_fifo m')
     \<and> wm_work m' = wm_work m \<and> wm_delayed m' = wm_delayed m \<and> wm_dwork m' = wm_dwork m
     \<and> wm_queue m' = wm_queue m"
proof -
  obtain F where F: "fifo_put_section q n (wm_fifo m) = Some (0, F)"
      "fifo_shape Q (xs(q := xs q @ [n])) F"
    using fifo_put_section_append [OF shape q free room] by blast
  obtain h where h: "sys_dlist_append (FifoList q) (FifoNode n) (fm_heap (wm_fifo m)) = Some h"
      "F = upd_fifo q (\<lambda>f. f\<lparr>ff_count := ff_count f + 1\<rparr>) (set_queued n True (wm_fifo m)\<lparr>fm_heap := h\<rparr>)"
    using F(1) free by (auto simp: fifo_put_section_def errno_defs split: if_splits bind_splits)
  then show ?thesis using F(2) by (simp add: enqueue_node_def)
qed

lemma remove1_split: "distinct xs \<Longrightarrow> xs = as @ n # bs \<Longrightarrow> remove1 n xs = as @ bs"
  by (auto simp: remove1_append)

lemma fifo_remove_shape:
  assumes shape: "fifo_shape Q xs F" and q: "q \<in> Q" and n: "n \<in> set (xs q)"
  shows "\<exists>h. sys_dlist_remove (FifoNode n) (fm_heap F) = Some h
     \<and> fifo_shape Q (xs(q := remove1 n (xs q)))
         (upd_fifo q (\<lambda>f. f\<lparr>ff_count := ff_count f - 1\<rparr>) (set_queued n False (F\<lparr>fm_heap := h\<rparr>)))"
proof -
  obtain as bs where split: "xs q = as @ n # bs" using n by (auto dest: split_list)
  have "dlists_rep FifoList FifoNode Q xs (fm_heap F)" using shape by (simp add: fifo_shape_def)
  then obtain h where h: "sys_dlist_remove (FifoNode n) (fm_heap F) = Some h"
      "dlists_rep FifoList FifoNode Q (xs(q := as @ bs)) h"
    using fifos.dlists_remove [of Q xs "fm_heap F" q as n bs] q split by blast
  have "remove1 n (xs q) = as @ bs" by (rule remove1_split [OF fifo_shapeD(3) [OF shape q] split])
  with h fifo_shape_dequeue [OF shape q split h(2)] show ?thesis by simp
qed

lemma delay_remove_shape:
  assumes rep: "dlists_rep DelayedList DelayNode Q ys h" and q: "q \<in> Q" and d: "d \<in> set (ys q)"
  shows "\<exists>h'. sys_dlist_remove (DelayNode d) h = Some h'
     \<and> dlists_rep DelayedList DelayNode Q (ys(q := remove1 d (ys q))) h'"
proof -
  obtain as bs where split: "ys q = as @ d # bs" using d by (auto dest: split_list)
  obtain h' where h': "sys_dlist_remove (DelayNode d) h = Some h'"
      "dlists_rep DelayedList DelayNode Q (ys(q := as @ bs)) h'"
    using delays.dlists_remove [OF rep q split] by blast
  have "remove1 d (ys q) = as @ bs"
    by (rule remove1_split [OF delays.dlists_distinct [OF rep q] split])
  with h' show ?thesis by metis
qed

lemma work_okI:
  assumes "has_flag OS_WORK_QUEUED (wm_work m w) \<longleftrightarrow> (\<exists>q \<in> Q. WorkNode w \<in> set (xs q))"
    and "\<And>q. q \<in> Q \<Longrightarrow> WorkNode w \<in> set (xs q) \<Longrightarrow> wk_queue (wm_work m w) = Some q"
    and "has_flag OS_WORK_RUNNING (wm_work m w) \<longleftrightarrow> (\<exists>q \<in> Q. current (wm_queue m q) = Some w)"
    and "\<And>q. q \<in> Q \<Longrightarrow> current (wm_queue m q) = Some w \<Longrightarrow> wk_queue (wm_work m w) = Some q"
    and "has_flag OS_WORK_CANCELING (wm_work m w) \<Longrightarrow> has_flag OS_WORK_RUNNING (wm_work m w)"
    and "has_flag OS_WORK_DELAYED (wm_work m w) \<longleftrightarrow> (\<exists>q \<in> Q. \<exists>d \<in> set (ys q). w = DWork d)"
  shows "work_ok Q xs ys m w"
  using assms by (simp add: work_ok_def Let_def)

lemma work_okD:
  assumes "work_ok Q xs ys m w"
  shows "has_flag OS_WORK_QUEUED (wm_work m w) \<longleftrightarrow> (\<exists>q \<in> Q. WorkNode w \<in> set (xs q))"
    and "q \<in> Q \<Longrightarrow> WorkNode w \<in> set (xs q) \<Longrightarrow> wk_queue (wm_work m w) = Some q"
    and "has_flag OS_WORK_RUNNING (wm_work m w) \<longleftrightarrow> (\<exists>q \<in> Q. current (wm_queue m q) = Some w)"
    and "q \<in> Q \<Longrightarrow> current (wm_queue m q) = Some w \<Longrightarrow> wk_queue (wm_work m w) = Some q"
    and "has_flag OS_WORK_CANCELING (wm_work m w) \<Longrightarrow> has_flag OS_WORK_RUNNING (wm_work m w)"
    and "has_flag OS_WORK_DELAYED (wm_work m w) \<longleftrightarrow> (\<exists>q \<in> Q. \<exists>d \<in> set (ys q). w = DWork d)"
  using assms unfolding work_ok_def Let_def by blast+

section \<open>The critical sections preserve the invariant\<close>

text \<open>The invariant reads only these parts of the memory.\<close>

lemma work_ok_cong:
  assumes "work_ok Q xs ys m w" "flags (wm_work m' w) = flags (wm_work m w)"
    and "wk_queue (wm_work m' w) = wk_queue (wm_work m w)"
    and "\<And>q. q \<in> Q \<Longrightarrow> current (wm_queue m' q) = current (wm_queue m q)"
    and "\<And>q. q \<in> Q \<Longrightarrow> WorkNode w \<in> set (xs' q) \<longleftrightarrow> WorkNode w \<in> set (xs q)"
    and "\<And>q d. q \<in> Q \<Longrightarrow> w = DWork d \<Longrightarrow> d \<in> set (ys' q) \<longleftrightarrow> d \<in> set (ys q)"
  shows "work_ok Q xs' ys' m' w"
proof -
  have "has_flag b (wm_work m' w) = has_flag b (wm_work m w)" for b
    using assms(2) by (simp add: has_flag_def)
  note flag = this
  note ok = work_okD [OF assms(1)]
  show ?thesis
  proof (rule work_okI)
    show "has_flag OS_WORK_QUEUED (wm_work m' w) \<longleftrightarrow> (\<exists>q \<in> Q. WorkNode w \<in> set (xs' q))"
      using ok(1) assms(5) by (auto simp: flag)
    show "wk_queue (wm_work m' w) = Some q" if "q \<in> Q" "WorkNode w \<in> set (xs' q)" for q
      using ok(2) assms(3,5) that by simp
    show "has_flag OS_WORK_RUNNING (wm_work m' w) \<longleftrightarrow> (\<exists>q \<in> Q. current (wm_queue m' q) = Some w)"
      using ok(3) assms(4) by (simp add: flag)
    show "wk_queue (wm_work m' w) = Some q" if "q \<in> Q" "current (wm_queue m' q) = Some w" for q
      using ok(4) assms(3,4) that by simp
    show "has_flag OS_WORK_RUNNING (wm_work m' w)" if "has_flag OS_WORK_CANCELING (wm_work m' w)"
      using ok(5) that by (simp add: flag)
    show "has_flag OS_WORK_DELAYED (wm_work m' w) \<longleftrightarrow> (\<exists>q \<in> Q. \<exists>d \<in> set (ys' q). w = DWork d)"
      using ok(6) assms(6) by (auto simp: flag)
  qed
qed

text \<open>Changes that touch neither lists, flags, queues of items nor running items.\<close>

lemma wq_shape_cong:
  assumes "wq_shape Q xs ys m" "fifo_shape Q xs (wm_fifo m')" "wm_delayed m' = wm_delayed m"
    and "\<And>d. dw_queue (wm_dwork m' d) = dw_queue (wm_dwork m d)"
    and "\<And>q. current (wm_queue m' q) = current (wm_queue m q)"
    and "\<And>w. flags (wm_work m' w) = flags (wm_work m w)"
    and "\<And>w. wk_queue (wm_work m' w) = wk_queue (wm_work m w)"
  shows "wq_shape Q xs ys m'"
proof -
  have "work_ok Q xs ys m' w" for w
    by (rule work_ok_cong [OF wq_shapeD(3) [OF assms(1)]]) (simp_all add: assms)
  then show ?thesis using assms(1-4) by (simp add: wq_shape_def)
qed

lemma wq_shape_tokens:
  assumes "wq_shape Q xs ys m"
  shows "wq_shape Q xs ys (give_items S isr q m)" "wq_shape Q xs ys (trytake_items S isr q m)"
  by (rule wq_shape_cong [OF assms]; use wq_shapeD(1) [OF assms] in
      \<open>simp add: give_items_def trytake_items_def fifo_shape_def fifo_at_def fifo_give_def upd_fifo_def\<close>)+

lemma wq_shape_work_cong:
  assumes "wq_shape Q xs ys m" "\<And>x. flags (f x) = flags x" "\<And>x. wk_queue (f x) = wk_queue x"
  shows "wq_shape Q xs ys (upd_work w f m)"
  by (rule wq_shape_cong [OF assms(1)]) (use wq_shapeD(1) [OF assms(1)] in \<open>simp_all add: assms\<close>)

lemma wq_shape_notify: "wq_shape Q xs ys m \<Longrightarrow> wq_shape Q xs ys (os_work_notify S isr w m)"
  by (simp add: os_work_notify_def wq_shape_work_cong)

lemma wq_shape_queue_cong:
  assumes "wq_shape Q xs ys m" "\<And>x. current (g x) = current x"
  shows "wq_shape Q xs ys (upd_queue q g m)"
  by (rule wq_shape_cong [OF assms(1)]) (use wq_shapeD(1) [OF assms(1)] in \<open>simp_all add: assms\<close>)

text \<open>A change of one item's flags that keeps what they say about the lists.\<close>

lemma wq_shape_item:
  assumes shape: "wq_shape Q xs ys m" and fifo: "fifo_shape Q xs' (wm_fifo m')"
    and rep: "dlists_rep DelayedList DelayNode Q ys' (wm_delayed m')"
    and stop: "\<And>q p. q \<in> Q \<Longrightarrow> StopNode p \<in> set (xs' q) \<Longrightarrow> p = q"
    and dq: "\<And>q d. q \<in> Q \<Longrightarrow> d \<in> set (ys' q) \<Longrightarrow> dw_queue (wm_dwork m' d) = Some q"
    and others: "\<And>v. v \<noteq> w \<Longrightarrow> wm_work m' v = wm_work m v"
    and cur: "\<And>q v. q \<in> Q \<Longrightarrow> v \<noteq> w \<Longrightarrow> current (wm_queue m' q) = Some v \<longleftrightarrow> current (wm_queue m q) = Some v"
    and nodes: "\<And>q v. q \<in> Q \<Longrightarrow> v \<noteq> w \<Longrightarrow> WorkNode v \<in> set (xs' q) \<longleftrightarrow> WorkNode v \<in> set (xs q)"
    and delays: "\<And>q d. q \<in> Q \<Longrightarrow> DWork d \<noteq> w \<Longrightarrow> d \<in> set (ys' q) \<longleftrightarrow> d \<in> set (ys q)"
    and ok: "work_ok Q xs' ys' m' w"
  shows "wq_shape Q xs' ys' m'"
proof -
  have "work_ok Q xs' ys' m' v" for v
  proof (cases "v = w")
    case True
    with ok show ?thesis by simp
  next
    case False
    note old = work_okD [OF wq_shapeD(3) [OF shape, of v]]
    show ?thesis
    proof (rule work_okI)
      show "has_flag OS_WORK_QUEUED (wm_work m' v) \<longleftrightarrow> (\<exists>q \<in> Q. WorkNode v \<in> set (xs' q))"
        using old(1) nodes False by (auto simp: others)
      show "wk_queue (wm_work m' v) = Some q" if "q \<in> Q" "WorkNode v \<in> set (xs' q)" for q
        using old(2) nodes False that by (simp add: others)
      show "has_flag OS_WORK_RUNNING (wm_work m' v) \<longleftrightarrow> (\<exists>q \<in> Q. current (wm_queue m' q) = Some v)"
        using old(3) cur False by (auto simp: others)
      show "wk_queue (wm_work m' v) = Some q" if "q \<in> Q" "current (wm_queue m' q) = Some v" for q
        using old(4) cur False that by (simp add: others)
      show "has_flag OS_WORK_RUNNING (wm_work m' v)" if "has_flag OS_WORK_CANCELING (wm_work m' v)"
        using old(5) that False by (simp add: others)
      show "has_flag OS_WORK_DELAYED (wm_work m' v) \<longleftrightarrow> (\<exists>q \<in> Q. \<exists>d \<in> set (ys' q). v = DWork d)"
        using old(6) delays False by (auto simp: others)
    qed
  qed
  then show ?thesis using fifo rep stop dq by (simp add: wq_shape_def)
qed

lemma wq_shape_stop: "wq_shape Q xs ys m \<Longrightarrow> q \<in> Q \<Longrightarrow> StopNode p \<in> set (xs q) \<Longrightarrow> p = q"
  by (simp add: wq_shape_def)

lemma wq_shape_dwork: "wq_shape Q xs ys m \<Longrightarrow> q \<in> Q \<Longrightarrow> d \<in> set (ys q) \<Longrightarrow> dw_queue (wm_dwork m d) = Some q"
  by (simp add: wq_shape_def)

end
