(* ===== verification/Work_Sections.thy ===== *)
theory Work_Sections
  imports Work_Invariant
begin

text \<open>
  Every critical section of \<open>work_queue.c\<close> is defined on memory with the invariant and
  re-establishes it.
\<close>

section \<open>Submission and cancellation\<close>

lemma submit_section_enqueue:
  assumes shape: "wq_shape Q xs ys m" and q: "q \<in> Q"
    and quiet: "\<not> has_flag OS_WORK_CANCELING (wm_work m w)" "\<not> has_flag OS_WORK_QUEUED (wm_work m w)"
    and running: "has_flag OS_WORK_RUNNING (wm_work m w) \<Longrightarrow> wk_queue (wm_work m w) = Some q"
    and room: "\<not> fifo_count q m \<ge> UINT16_MAX"
  shows "\<exists>m'. enqueue_node q (WorkNode w) (upd_work w (\<lambda>x. set_flag OS_WORK_QUEUED
                (x\<lparr>submission_id := submission_id x + 1, wk_queue := Some q\<rparr>)) m) = Some m'
     \<and> wq_shape Q (xs(q := xs q @ [WorkNode w])) ys m'
     \<and> wm_work m' = (wm_work m)(w := set_flag OS_WORK_QUEUED
          ((wm_work m w)\<lparr>submission_id := submission_id (wm_work m w) + 1, wk_queue := Some q\<rparr>))
     \<and> wm_queue m' = wm_queue m \<and> wm_delayed m' = wm_delayed m \<and> wm_dwork m' = wm_dwork m"
    (is "\<exists>m'. enqueue_node q _ ?m = _ \<and> _")
proof -
  note ok = work_okD [OF wq_shapeD(3) [OF shape, of w]]
  have notin: "WorkNode w \<notin> set (xs p)" if "p \<in> Q" for p
    using ok(1) quiet(2) that by blast
  have F: "fifo_shape Q xs (wm_fifo ?m)" using wq_shapeD(1) [OF shape] by simp
  have free: "\<not> fm_queued (wm_fifo ?m) (WorkNode w)"
    using wq_shapeD(1) [OF shape] notin by (auto simp: fifo_shape_def)
  have len: "length (xs q) < 65535"
    using room fifo_count_length [OF shape q] by (simp add: word_le_nat_alt UINT16_MAX_def)
  obtain m' where m': "enqueue_node q (WorkNode w) ?m = Some m'"
      "fifo_shape Q (xs(q := xs q @ [WorkNode w])) (wm_fifo m')"
      "wm_work m' = wm_work ?m" "wm_delayed m' = wm_delayed ?m" "wm_dwork m' = wm_dwork ?m"
      "wm_queue m' = wm_queue ?m"
    using enqueue_node_shape [of Q xs ?m q "WorkNode w", OF F q free len] by blast
  let ?xs = "xs(q := xs q @ [WorkNode w])"
  have "wq_shape Q ?xs ys m'"
  proof (rule wq_shape_item [OF shape m'(2), where w = w])
    show "dlists_rep DelayedList DelayNode Q ys (wm_delayed m')"
      using wq_shapeD(2) [OF shape] m'(4) by simp
    show "\<And>q' p. q' \<in> Q \<Longrightarrow> StopNode p \<in> set (?xs q') \<Longrightarrow> p = q'"
      using wq_shape_stop [OF shape] by (auto split: if_splits)
    show "\<And>q d. q \<in> Q \<Longrightarrow> d \<in> set (ys q) \<Longrightarrow> dw_queue (wm_dwork m' d) = Some q"
      using wq_shape_dwork [OF shape] m'(5) by simp
    show "work_ok Q ?xs ys m' w"
    proof (rule work_okI)
      show "has_flag OS_WORK_QUEUED (wm_work m' w) \<longleftrightarrow> (\<exists>p \<in> Q. WorkNode w \<in> set (?xs p))"
        using q m'(3) by (auto simp: mask_bits)
      show "wk_queue (wm_work m' w) = Some p" if "p \<in> Q" "WorkNode w \<in> set (?xs p)" for p
        using that notin m'(3) by (auto split: if_splits)
      show "has_flag OS_WORK_RUNNING (wm_work m' w) \<longleftrightarrow> (\<exists>p \<in> Q. current (wm_queue m' p) = Some w)"
        using ok(3) m'(3,6) by (simp add: mask_bits)
      show "wk_queue (wm_work m' w) = Some p" if "p \<in> Q" "current (wm_queue m' p) = Some w" for p
        using ok(3,4) running that m'(3,6) by fastforce
      show "has_flag OS_WORK_RUNNING (wm_work m' w)" if "has_flag OS_WORK_CANCELING (wm_work m' w)"
        using that quiet m'(3) by (simp add: mask_bits)
      show "has_flag OS_WORK_DELAYED (wm_work m' w) \<longleftrightarrow> (\<exists>p \<in> Q. \<exists>d \<in> set (ys p). w = DWork d)"
        using ok(6) m'(3) by (simp add: mask_bits)
    qed
  qed (use m' in auto)
  with m' show ?thesis by auto
qed

text \<open>The decision, and what an accepted submission does.\<close>

definition submit_accepts :: "wctx \<Rightarrow> nat \<Rightarrow> work_addr \<Rightarrow> 's wq_mem \<Rightarrow> bool" where
  "submit_accepts cx q w m \<longleftrightarrow>
     \<not> stopping (wm_queue m q) \<and> (draining (wm_queue m q) \<or> plugged (wm_queue m q) \<longrightarrow> cx_worker cx = Some q)
     \<and> \<not> has_flag OS_WORK_CANCELING (wm_work m w) \<and> \<not> has_flag OS_WORK_QUEUED (wm_work m w)
     \<and> (has_flag OS_WORK_RUNNING (wm_work m w) \<longrightarrow> wk_queue (wm_work m w) = Some q)
     \<and> fifo_count q m < UINT16_MAX"

lemma submit_section_refuses:
  "\<not> submit_accepts cx q w m \<Longrightarrow> \<exists>r \<le> 0. submit_section cx q w m = Some (r, m)"
  by (auto simp: submit_section_def submit_accepts_def Let_def errno_defs not_le)

lemma submit_section_accepts:
  assumes shape: "wq_shape Q xs ys m" and q: "q \<in> Q" and acc: "submit_accepts cx q w m"
  shows "\<exists>m'. submit_section cx q w m
       = Some (if has_flag OS_WORK_RUNNING (wm_work m w) then 2 else 1, m')
     \<and> wq_shape Q (xs(q := xs q @ [WorkNode w])) ys m'
     \<and> wm_work m' = (wm_work m)(w := set_flag OS_WORK_QUEUED
          ((wm_work m w)\<lparr>submission_id := submission_id (wm_work m w) + 1, wk_queue := Some q\<rparr>))
     \<and> wm_queue m' = wm_queue m \<and> wm_delayed m' = wm_delayed m \<and> wm_dwork m' = wm_dwork m"
proof -
  obtain m' where m': "enqueue_node q (WorkNode w) (upd_work w (\<lambda>x. set_flag OS_WORK_QUEUED
                (x\<lparr>submission_id := submission_id x + 1, wk_queue := Some q\<rparr>)) m) = Some m'"
     "wq_shape Q (xs(q := xs q @ [WorkNode w])) ys m'"
     "wm_work m' = (wm_work m)(w := set_flag OS_WORK_QUEUED
          ((wm_work m w)\<lparr>submission_id := submission_id (wm_work m w) + 1, wk_queue := Some q\<rparr>))"
     "wm_queue m' = wm_queue m" "wm_delayed m' = wm_delayed m" "wm_dwork m' = wm_dwork m"
    using submit_section_enqueue [OF shape q, of w] acc by (auto simp: submit_accepts_def not_le)
  have "submit_section cx q w m = Some (if has_flag OS_WORK_RUNNING (wm_work m w) then 2 else 1, m')"
    using acc m'(1) by (auto simp: submit_section_def submit_accepts_def Let_def not_le)
  with m' show ?thesis by simp
qed

text \<open>Taking an item off its FIFO from the middle, as a cancellation does.\<close>

lemma cancel_dequeue:
  assumes shape: "wq_shape Q xs ys m" and queued: "has_flag OS_WORK_QUEUED (wm_work m w)"
  shows "\<exists>q h m'. q \<in> Q \<and> wk_queue (wm_work m w) = Some q \<and> WorkNode w \<in> set (xs q)
     \<and> sys_dlist_remove (FifoNode (WorkNode w)) (fm_heap (wm_fifo m)) = Some h
     \<and> m' = upd_work w (clear_flag OS_WORK_QUEUED) (upd_count q (\<lambda>c. c - 1)
            (set_node_queued (WorkNode w) False (m\<lparr>wm_fifo := (wm_fifo m)\<lparr>fm_heap := h\<rparr>\<rparr>)))
     \<and> wq_shape Q (xs(q := remove1 (WorkNode w) (xs q))) ys m'"
proof -
  note ok = work_okD [OF wq_shapeD(3) [OF shape, of w]]
  obtain q where q: "q \<in> Q" "WorkNode w \<in> set (xs q)" "wk_queue (wm_work m w) = Some q"
    using ok(1,2) queued by blast
  obtain h where h: "sys_dlist_remove (FifoNode (WorkNode w)) (fm_heap (wm_fifo m)) = Some h"
      "fifo_shape Q (xs(q := remove1 (WorkNode w) (xs q)))
         (upd_fifo q (\<lambda>f. f\<lparr>ff_count := ff_count f - 1\<rparr>)
           (set_queued (WorkNode w) False ((wm_fifo m)\<lparr>fm_heap := h\<rparr>)))"
    using fifo_remove_shape [OF wq_shapeD(1) [OF shape] q(1,2)] by blast
  let ?m = "upd_work w (clear_flag OS_WORK_QUEUED) (upd_count q (\<lambda>c. c - 1)
      (set_node_queued (WorkNode w) False (m\<lparr>wm_fifo := (wm_fifo m)\<lparr>fm_heap := h\<rparr>\<rparr>)))"
  let ?xs = "xs(q := remove1 (WorkNode w) (xs q))"
  have dist: "distinct (xs q)" by (rule fifo_shapeD(3) [OF wq_shapeD(1) [OF shape] q(1)])
  have only: "WorkNode w \<notin> set (xs p)" if "p \<in> Q" "p \<noteq> q" for p
    using fifo_shapeD(4) [OF wq_shapeD(1) [OF shape] that(1) q(1) that(2)] q(2) by blast
  have gone: "WorkNode w \<notin> set (?xs p)" if "p \<in> Q" for p
    using that only dist by (cases "p = q") auto
  have "wq_shape Q ?xs ys ?m"
  proof (rule wq_shape_item [OF shape, where w = w])
    show "fifo_shape Q ?xs (wm_fifo ?m)" using h(2) by simp
    show "dlists_rep DelayedList DelayNode Q ys (wm_delayed ?m)" using wq_shapeD(2) [OF shape] by simp
    show "\<And>q' p. q' \<in> Q \<Longrightarrow> StopNode p \<in> set (?xs q') \<Longrightarrow> p = q'"
      using wq_shape_stop [OF shape] by (auto split: if_splits dest: notin_set_remove1)
    show "\<And>q d. q \<in> Q \<Longrightarrow> d \<in> set (ys q) \<Longrightarrow> dw_queue (wm_dwork ?m d) = Some q"
      using wq_shape_dwork [OF shape] by simp
    show "work_ok Q ?xs ys ?m w"
    proof (rule work_okI)
      show "has_flag OS_WORK_QUEUED (wm_work ?m w) \<longleftrightarrow> (\<exists>p \<in> Q. WorkNode w \<in> set (?xs p))"
        using gone by (auto simp: mask_bits)
      show "wk_queue (wm_work ?m w) = Some p" if "p \<in> Q" "WorkNode w \<in> set (?xs p)" for p
        using that gone by blast
    qed (use ok(3-6) in \<open>auto simp: mask_bits\<close>)
  qed (use dist in auto)
  with q h(1) show ?thesis by blast
qed

text \<open>How a cancellation ends for an item that is not queued any more.\<close>

definition cancel_mark :: "work_addr \<Rightarrow> 's wq_mem \<Rightarrow> 's wq_mem" where
  "cancel_mark w m =
     (if has_flag OS_WORK_RUNNING (wm_work m w) then upd_work w (set_flag OS_WORK_CANCELING) m
      else upd_work w (\<lambda>x. clear_flag OS_WORK_CANCELING (x\<lparr>completion_id := submission_id x\<rparr>)) m)"

lemma cancel_section_eq:
  "cancel_section w m = do {
     (was, m) \<leftarrow> (if has_flag OS_WORK_QUEUED (wm_work m w) then
        (case wk_queue (wm_work m w) of None \<Rightarrow> Some (None, m)
         | Some q \<Rightarrow> do {
             h \<leftarrow> sys_dlist_remove (FifoNode (WorkNode w)) (fm_heap (wm_fifo m));
             Some (Some q, upd_work w (clear_flag OS_WORK_QUEUED) (upd_count q (\<lambda>c. c - 1)
                (set_node_queued (WorkNode w) False (m\<lparr>wm_fifo := (wm_fifo m)\<lparr>fm_heap := h\<rparr>\<rparr>))))})
        else Some (None, m));
     Some ((flags (wm_work (cancel_mark w m) w), was), cancel_mark w m) }"
  unfolding cancel_section_def Let_def
  by (fold cancel_mark_def, cases "wk_queue (wm_work m w)"; cases "has_flag OS_WORK_QUEUED (wm_work m w)")
    (simp_all only: if_True if_False option.case bind.bind_lunit Option.bind_assoc prod.case HOL.simp_thms)

lemma cancel_mark_shape:
  assumes shape: "wq_shape Q xs ys m"
  shows "wq_shape Q xs ys (cancel_mark w m)"
proof (rule wq_shape_item [OF shape, where w = w])
  note ok = work_okD [OF wq_shapeD(3) [OF shape, of w]]
  show "work_ok Q xs ys (cancel_mark w m) w"
  proof (rule work_okI)
    show "wk_queue (wm_work (cancel_mark w m) w) = Some q" if "q \<in> Q" "WorkNode w \<in> set (xs q)" for q
      using ok(2) [OF that] by (simp add: cancel_mark_def)
    show "wk_queue (wm_work (cancel_mark w m) w) = Some q"
      if "q \<in> Q" "current (wm_queue (cancel_mark w m) q) = Some w" for q
      using ok(4) [OF that(1)] that(2) by (simp add: cancel_mark_def split: if_splits)
    show "has_flag OS_WORK_RUNNING (wm_work (cancel_mark w m) w)"
      if "has_flag OS_WORK_CANCELING (wm_work (cancel_mark w m) w)"
      using that by (simp add: cancel_mark_def mask_bits split: if_splits)
  qed (use ok(1,3,6) in \<open>simp_all add: cancel_mark_def mask_bits\<close>)
  show "fifo_shape Q xs (wm_fifo (cancel_mark w m))"
    using wq_shapeD(1) [OF shape] by (simp add: cancel_mark_def)
  show "dlists_rep DelayedList DelayNode Q ys (wm_delayed (cancel_mark w m))"
    using wq_shapeD(2) [OF shape] by (simp add: cancel_mark_def)
  show "\<And>q p. q \<in> Q \<Longrightarrow> StopNode p \<in> set (xs q) \<Longrightarrow> p = q"
    by (rule wq_shape_stop [OF shape])
  show "\<And>q d. q \<in> Q \<Longrightarrow> d \<in> set (ys q) \<Longrightarrow> dw_queue (wm_dwork (cancel_mark w m) d) = Some q"
    using wq_shape_dwork [OF shape] by (simp add: cancel_mark_def)
qed (simp_all add: cancel_mark_def)

lemma cancel_section_shape:
  assumes shape: "wq_shape Q xs ys m"
  shows "\<exists>fl was m'. cancel_section w m = Some ((fl, was), m')
     \<and> wq_shape Q (case was of None \<Rightarrow> xs | Some q \<Rightarrow> xs(q := remove1 (WorkNode w) (xs q))) ys m'
     \<and> (was \<noteq> None \<longleftrightarrow> has_flag OS_WORK_QUEUED (wm_work m w))
     \<and> \<not> has_flag OS_WORK_QUEUED (wm_work m' w) \<and> fl = flags (wm_work m' w)
     \<and> (\<forall>q. was = Some q \<longrightarrow> q \<in> Q) \<and> wm_queue m' = wm_queue m
     \<and> (if has_flag OS_WORK_RUNNING (wm_work m w) then has_flag OS_WORK_CANCELING (wm_work m' w)
        else completion_id (wm_work m' w) = submission_id (wm_work m' w))"
proof (cases "has_flag OS_WORK_QUEUED (wm_work m w)")
  case True
  obtain q h m' where m': "q \<in> Q" "wk_queue (wm_work m w) = Some q"
     "sys_dlist_remove (FifoNode (WorkNode w)) (fm_heap (wm_fifo m)) = Some h"
     "m' = upd_work w (clear_flag OS_WORK_QUEUED) (upd_count q (\<lambda>c. c - 1)
            (set_node_queued (WorkNode w) False (m\<lparr>wm_fifo := (wm_fifo m)\<lparr>fm_heap := h\<rparr>\<rparr>)))"
     "wq_shape Q (xs(q := remove1 (WorkNode w) (xs q))) ys m'"
    using cancel_dequeue [OF shape True] by blast
  have "cancel_section w m = Some ((flags (wm_work (cancel_mark w m') w), Some q), cancel_mark w m')"
    using True m'(2,3) by (simp add: cancel_section_eq m'(4))
  with cancel_mark_shape [OF m'(5), of w] m'(1) show ?thesis
    by (intro exI [of _ "flags (wm_work (cancel_mark w m') w)"] exI [of _ "Some q"]
        exI [of _ "cancel_mark w m'"] conjI)
      (simp_all add: True m'(4) cancel_mark_def mask_bits)
next
  case False
  have "cancel_section w m = Some ((flags (wm_work (cancel_mark w m) w), None), cancel_mark w m)"
    using False by (simp add: cancel_section_eq)
  with cancel_mark_shape [OF shape, of w] False show ?thesis
    by (intro exI [of _ "flags (wm_work (cancel_mark w m) w)"] exI [of _ None]
        exI [of _ "cancel_mark w m"] conjI) (simp_all add: cancel_mark_def mask_bits)
qed

section \<open>The worker\<close>

text \<open>A fetch by an idle worker takes the head of its FIFO.\<close>

lemma worker_fetch_empty:
  assumes shape: "wq_shape Q xs ys m" and q: "q \<in> Q" and nil: "xs q = []"
  shows "worker_fetch_section q m = Some (FetchNothing, m)"
  using fifos.dlists_get_empty [of Q xs "fm_heap (wm_fifo m)" q] wq_shapeD(1) [OF shape] q nil
  by (simp add: worker_fetch_section_def fifo_shape_def)

lemma worker_fetch_head:
  assumes shape: "wq_shape Q xs ys m" and q: "q \<in> Q" and ns: "xs q = n # ns"
  shows "\<exists>m1. worker_fetch_section q m = Some (case n of StopNode _ \<Rightarrow> (FetchStop, m1)
        | WorkNode w \<Rightarrow> (FetchWork w, upd_queue q (\<lambda>x. x\<lparr>current := Some w\<rparr>)
            (upd_work w (\<lambda>x. let x = set_flag OS_WORK_RUNNING (clear_flag OS_WORK_QUEUED x)
                             in x\<lparr>running_id := submission_id x\<rparr>) m1)))
     \<and> fifo_shape Q (xs(q := ns)) (wm_fifo m1) \<and> wm_work m1 = wm_work m
     \<and> wm_queue m1 = wm_queue m \<and> wm_delayed m1 = wm_delayed m \<and> wm_dwork m1 = wm_dwork m"
proof -
  have F: "fifo_shape Q xs (wm_fifo m)" by (rule wq_shapeD(1) [OF shape])
  then have "dlists_rep FifoList FifoNode Q xs (fm_heap (wm_fifo m))" by (simp add: fifo_shape_def)
  then obtain h where h: "sys_dlist_get (FifoList q) (fm_heap (wm_fifo m)) = Some (Some (FifoNode n), h)"
      "dlists_rep FifoList FifoNode Q (xs(q := ns)) h"
    using fifos.dlists_get [of Q xs "fm_heap (wm_fifo m)" q n ns] q ns by blast
  let ?m1 = "upd_count q (\<lambda>c. c - 1) (set_node_queued n False (m\<lparr>wm_fifo := (wm_fifo m)\<lparr>fm_heap := h\<rparr>\<rparr>))"
  have "fifo_shape Q (xs(q := [] @ ns)) (wm_fifo ?m1)"
    using fifo_shape_dequeue [OF F q, of "[]" n ns h] ns h(2) by simp
  moreover have "p = q" if "n = StopNode p" for p
    using wq_shape_stop [OF shape q, of p] ns that by simp
  ultimately show ?thesis
    by (intro exI [of _ ?m1]) (simp add: worker_fetch_section_def h(1) Let_def split: wnode.split)
qed

lemma worker_fetch_shape:
  assumes shape: "wq_shape Q xs ys m" and q: "q \<in> Q" and idle: "current (wm_queue m q) = None"
  shows "\<exists>f m'. worker_fetch_section q m = Some (f, m') \<and> wq_shape Q (xs(q := tl (xs q))) ys m'
     \<and> (case f of FetchWork w \<Rightarrow> xs q \<noteq> [] \<and> hd (xs q) = WorkNode w
          \<and> wm_queue m' = (wm_queue m)(q := (wm_queue m q)\<lparr>current := Some w\<rparr>)
          \<and> running_id (wm_work m' w) = submission_id (wm_work m' w)
        | FetchStop \<Rightarrow> xs q \<noteq> [] \<and> hd (xs q) = StopNode q \<and> wm_queue m' = wm_queue m
        | FetchNothing \<Rightarrow> m' = m \<and> xs q = [])"
proof (cases "xs q")
  case Nil
  then have "xs(q := tl (xs q)) = xs" by (simp add: fun_upd_idem)
  with Nil worker_fetch_empty [OF shape q] shape show ?thesis by force
next
  case (Cons n ns)
  obtain m1 where m1: "worker_fetch_section q m = Some (case n of StopNode _ \<Rightarrow> (FetchStop, m1)
        | WorkNode w \<Rightarrow> (FetchWork w, upd_queue q (\<lambda>x. x\<lparr>current := Some w\<rparr>)
            (upd_work w (\<lambda>x. let x = set_flag OS_WORK_RUNNING (clear_flag OS_WORK_QUEUED x)
                             in x\<lparr>running_id := submission_id x\<rparr>) m1)))"
     "fifo_shape Q (xs(q := ns)) (wm_fifo m1)" "wm_work m1 = wm_work m"
     "wm_queue m1 = wm_queue m" "wm_delayed m1 = wm_delayed m" "wm_dwork m1 = wm_dwork m"
    using worker_fetch_head [OF shape q Cons] by blast
  let ?xs = "xs(q := ns)"
  note F = wq_shapeD(1) [OF shape] and D = wq_shapeD(2) [OF shape]
  have stop: "p = q'" if "q' \<in> Q" "StopNode p \<in> set (?xs q')" for p q'
    using wq_shape_stop [OF shape that(1), of p] that(2) Cons by (auto split: if_splits)
  note dwork = wq_shape_dwork [OF shape]
  show ?thesis
  proof (cases n)
    case (StopNode p)
    then have p: "p = q" using wq_shape_stop [OF shape q, of p] Cons by simp
    have nodes: "WorkNode v \<in> set (?xs q') \<longleftrightarrow> WorkNode v \<in> set (xs q')" for v q'
      using Cons StopNode by auto
    have ok: "work_ok Q ?xs ys m1 v" for v
      by (rule work_ok_cong [OF wq_shapeD(3) [OF shape]])
        (use nodes m1(3,4) in \<open>simp_all del: fun_upd_apply\<close>)
    have "wq_shape Q ?xs ys m1"
      using m1(2,5,6) D dwork stop ok by (simp add: wq_shape_def)
    with m1(1,4) StopNode p Cons show ?thesis by auto
  next
    case (WorkNode w)
    let ?m = "upd_queue q (\<lambda>x. x\<lparr>current := Some w\<rparr>)
            (upd_work w (\<lambda>x. let x = set_flag OS_WORK_RUNNING (clear_flag OS_WORK_QUEUED x)
                             in x\<lparr>running_id := submission_id x\<rparr>) m1)"
    note ok = work_okD [OF wq_shapeD(3) [OF shape, of w]]
    have mem: "WorkNode w \<in> set (xs q)" using Cons WorkNode by simp
    have own: "wk_queue (wm_work m w) = Some q" by (rule ok(2) [OF q mem])
    have norun: "\<not> has_flag OS_WORK_RUNNING (wm_work m w)"
      using ok(3,4) own idle by auto
    have gone: "WorkNode w \<notin> set (?xs p)" if "p \<in> Q" for p
      using that fifo_shapeD(3) [OF F q] fifo_shapeD(4) [OF F that q] mem Cons WorkNode by (cases "p = q") auto
    have "wq_shape Q ?xs ys ?m"
    proof (rule wq_shape_item [OF shape, where w = w])
      show "work_ok Q ?xs ys ?m w"
      proof (rule work_okI)
        show "has_flag OS_WORK_QUEUED (wm_work ?m w) \<longleftrightarrow> (\<exists>p \<in> Q. WorkNode w \<in> set (?xs p))"
          using gone by (auto simp: mask_bits Let_def)
        show "wk_queue (wm_work ?m w) = Some p" if "p \<in> Q" "WorkNode w \<in> set (?xs p)" for p
          using that gone by blast
        show "has_flag OS_WORK_RUNNING (wm_work ?m w) \<longleftrightarrow> (\<exists>p \<in> Q. current (wm_queue ?m p) = Some w)"
          using q by (auto simp: mask_bits Let_def)
        show "wk_queue (wm_work ?m w) = Some p" if "p \<in> Q" "current (wm_queue ?m p) = Some w" for p
          using that own norun ok(3) m1(3,4) by (auto simp: Let_def split: if_splits)
        show "has_flag OS_WORK_RUNNING (wm_work ?m w)" if "has_flag OS_WORK_CANCELING (wm_work ?m w)"
          by (simp add: mask_bits Let_def)
        show "has_flag OS_WORK_DELAYED (wm_work ?m w) \<longleftrightarrow> (\<exists>p \<in> Q. \<exists>d \<in> set (ys p). w = DWork d)"
          using ok(6) m1(3) by (simp add: mask_bits Let_def)
      qed
    qed (use m1 D dwork stop idle WorkNode Cons in \<open>auto simp: m1\<close>)
    moreover have "worker_fetch_section q m = Some (FetchWork w, ?m)" using m1(1) WorkNode by simp
    ultimately show ?thesis using Cons WorkNode m1(4)
      by (intro exI [of _ "FetchWork w"] exI [of _ ?m] conjI) (simp_all add: Let_def)
  qed
qed

text \<open>The worker's second critical section, after the handler.\<close>

lemma worker_finish_shape:
  assumes shape: "wq_shape Q xs ys m" and q: "q \<in> Q" and cur: "current (wm_queue m q) = Some w"
  shows "wq_shape Q xs ys (worker_finish_section q w m)" (is "wq_shape Q xs ys ?m")
proof (rule wq_shape_item [OF shape, where w = w])
  note ok = work_okD [OF wq_shapeD(3) [OF shape, of w]]
  have own: "wk_queue (wm_work m w) = Some q" by (rule ok(4) [OF q cur])
  have work: "wm_work ?m w = clear_flag (OS_WORK_RUNNING OR OS_WORK_CANCELING)
      ((wm_work m w)\<lparr>completion_id := running_id (wm_work m w)\<rparr>)"
    by (simp add: worker_finish_section_def)
  have other: "current (wm_queue ?m p) \<noteq> Some w" if "p \<in> Q" for p
    using ok(4) [OF that] own by (auto simp: worker_finish_section_def)
  show "work_ok Q xs ys ?m w"
  proof (rule work_okI)
    show "has_flag OS_WORK_QUEUED (wm_work ?m w) \<longleftrightarrow> (\<exists>p \<in> Q. WorkNode w \<in> set (xs p))"
      using ok(1) by (simp add: work mask_bits)
    show "wk_queue (wm_work ?m w) = Some p" if "p \<in> Q" "WorkNode w \<in> set (xs p)" for p
      using ok(2) [OF that] by (simp add: work)
    show "has_flag OS_WORK_RUNNING (wm_work ?m w) \<longleftrightarrow> (\<exists>p \<in> Q. current (wm_queue ?m p) = Some w)"
      using other by (auto simp: work mask_bits)
    show "wk_queue (wm_work ?m w) = Some p" if "p \<in> Q" "current (wm_queue ?m p) = Some w" for p
      using other that by blast
    show "has_flag OS_WORK_RUNNING (wm_work ?m w)" if "has_flag OS_WORK_CANCELING (wm_work ?m w)"
      using that by (simp add: work mask_bits)
    show "has_flag OS_WORK_DELAYED (wm_work ?m w) \<longleftrightarrow> (\<exists>p \<in> Q. \<exists>d \<in> set (ys p). w = DWork d)"
      using ok(6) by (simp add: work mask_bits)
  qed
  show "fifo_shape Q xs (wm_fifo ?m)" using wq_shapeD(1) [OF shape] by (simp add: worker_finish_section_def)
  show "dlists_rep DelayedList DelayNode Q ys (wm_delayed ?m)"
    using wq_shapeD(2) [OF shape] by (simp add: worker_finish_section_def)
  show "\<And>q p. q \<in> Q \<Longrightarrow> StopNode p \<in> set (xs q) \<Longrightarrow> p = q" by (rule wq_shape_stop [OF shape])
  show "\<And>q d. q \<in> Q \<Longrightarrow> d \<in> set (ys q) \<Longrightarrow> dw_queue (wm_dwork ?m d) = Some q"
    using wq_shape_dwork [OF shape] by (simp add: worker_finish_section_def)
  show "current (wm_queue ?m p) = Some v \<longleftrightarrow> current (wm_queue m p) = Some v"
    if "p \<in> Q" "v \<noteq> w" for p v
    using that cur by (simp add: worker_finish_section_def)
qed (simp_all add: worker_finish_section_def)

section \<open>Delayed items\<close>

lemma delay_member:
  assumes "wq_shape Q xs ys m" "has_flag OS_WORK_DELAYED (wm_work m (DWork d))"
  shows "\<exists>q \<in> Q. d \<in> set (ys q) \<and> dw_queue (wm_dwork m d) = Some q"
  using work_okD(6) [OF wq_shapeD(3) [OF assms(1), of "DWork d"]] assms(2) wq_shape_dwork [OF assms(1)]
  by blast

lemma undelay_shape:
  assumes shape: "wq_shape Q xs ys m" and q: "q \<in> Q" and d: "d \<in> set (ys q)"
  shows "\<exists>h. undelay d m = Some (upd_work (DWork d) (clear_flag OS_WORK_DELAYED) (m\<lparr>wm_delayed := h\<rparr>))
     \<and> wq_shape Q xs (ys(q := remove1 d (ys q)))
         (upd_work (DWork d) (clear_flag OS_WORK_DELAYED) (m\<lparr>wm_delayed := h\<rparr>))"
proof -
  obtain h where h: "sys_dlist_remove (DelayNode d) (wm_delayed m) = Some h"
      "dlists_rep DelayedList DelayNode Q (ys(q := remove1 d (ys q))) h"
    using delay_remove_shape [OF wq_shapeD(2) [OF shape] q d] by blast
  let ?m = "upd_work (DWork d) (clear_flag OS_WORK_DELAYED) (m\<lparr>wm_delayed := h\<rparr>)"
  let ?ys = "ys(q := remove1 d (ys q))"
  have dist: "distinct (ys q)" by (rule delays.dlists_distinct [OF wq_shapeD(2) [OF shape] q])
  have gone: "d \<notin> set (?ys p)" if "p \<in> Q" for p
    using that dist delays_disjoint [OF shape q that d] by (cases "p = q") auto
  note ok = work_okD [OF wq_shapeD(3) [OF shape, of "DWork d"]]
  have "wq_shape Q xs ?ys ?m"
  proof (rule wq_shape_item [OF shape, where w = "DWork d"])
    show "work_ok Q xs ?ys ?m (DWork d)"
    proof (rule work_okI)
      show "wk_queue (wm_work ?m (DWork d)) = Some p" if "p \<in> Q" "WorkNode (DWork d) \<in> set (xs p)" for p
        using ok(2) [OF that] by simp
      show "wk_queue (wm_work ?m (DWork d)) = Some p" if "p \<in> Q" "current (wm_queue ?m p) = Some (DWork d)" for p
        using ok(4) [OF that(1)] that(2) by simp
      show "has_flag OS_WORK_RUNNING (wm_work ?m (DWork d))"
        if "has_flag OS_WORK_CANCELING (wm_work ?m (DWork d))"
        using ok(5) that by (simp add: mask_bits)
      show "has_flag OS_WORK_DELAYED (wm_work ?m (DWork d)) \<longleftrightarrow> (\<exists>p \<in> Q. \<exists>e \<in> set (?ys p). DWork d = DWork e)"
      proof -
        have "\<not> has_flag OS_WORK_DELAYED (wm_work ?m (DWork d))" by (simp add: mask_bits)
        with gone show ?thesis by blast
      qed
    qed (use ok(1,3) in \<open>simp_all add: mask_bits\<close>)
    show "\<And>q p. q \<in> Q \<Longrightarrow> StopNode p \<in> set (xs q) \<Longrightarrow> p = q" by (rule wq_shape_stop [OF shape])
    show "\<And>p e. p \<in> Q \<Longrightarrow> e \<in> set (?ys p) \<Longrightarrow> dw_queue (wm_dwork ?m e) = Some p"
      using wq_shape_dwork [OF shape] by (auto split: if_splits dest: notin_set_remove1)
  qed (use wq_shapeD(1) [OF shape] h(2) dist in auto)
  with h(1) show ?thesis by (auto simp: undelay_def)
qed

lemma undelay_section_shape:
  assumes shape: "wq_shape Q xs ys m"
  shows "\<exists>old m' ys'. undelay_section d m = Some (old, m') \<and> wq_shape Q xs ys' m'
     \<and> \<not> has_flag OS_WORK_DELAYED (wm_work m' (DWork d)) \<and> wm_queue m' = wm_queue m
     \<and> (case old of None \<Rightarrow> m' = m | Some None \<Rightarrow> False | Some (Some q) \<Rightarrow> q \<in> Q)"
proof (cases "has_flag OS_WORK_DELAYED (wm_work m (DWork d))")
  case True
  obtain q where q: "q \<in> Q" "d \<in> set (ys q)" "dw_queue (wm_dwork m d) = Some q"
    using delay_member [OF shape True] by blast
  from undelay_shape [OF shape q(1,2)] obtain h where h:
     "undelay d m = Some (upd_work (DWork d) (clear_flag OS_WORK_DELAYED) (m\<lparr>wm_delayed := h\<rparr>))"
     "wq_shape Q xs (ys(q := remove1 d (ys q)))
        (upd_work (DWork d) (clear_flag OS_WORK_DELAYED) (m\<lparr>wm_delayed := h\<rparr>))" by blast
  with True q show ?thesis
    by (intro exI [of _ "Some (Some q)"]
        exI [of _ "upd_work (DWork d) (clear_flag OS_WORK_DELAYED) (m\<lparr>wm_delayed := h\<rparr>)"]
        exI [of _ "ys(q := remove1 d (ys q))"])
      (simp add: undelay_section_def mask_bits)
next
  case False
  with shape show ?thesis by (force simp: undelay_section_def)
qed

text \<open>Putting a free delayable item on a delayed list.\<close>

lemma delay_append_shape:
  assumes shape: "wq_shape Q xs ys m" and q: "q \<in> Q" and free: "\<not> has_flag OS_WORK_DELAYED (wm_work m (DWork d))"
  shows "\<exists>h. sys_dlist_append (DelayedList q) (DelayNode d) (wm_delayed m) = Some h
     \<and> wq_shape Q xs (ys(q := ys q @ [d]))
         (upd_work (DWork d) (set_flag OS_WORK_DELAYED)
           (m\<lparr>wm_dwork := (wm_dwork m)(d := \<lparr>dw_queue = Some q, deadline = dl\<rparr>)\<rparr>)\<lparr>wm_delayed := h\<rparr>)"
proof -
  note ok = work_okD [OF wq_shapeD(3) [OF shape, of "DWork d"]]
  have new: "d \<notin> set (ys p)" if "p \<in> Q" for p using ok(6) free that by blast
  obtain h where h: "sys_dlist_append (DelayedList q) (DelayNode d) (wm_delayed m) = Some h"
      "dlists_rep DelayedList DelayNode Q (ys(q := ys q @ [d])) h"
    using delays.dlists_append [OF wq_shapeD(2) [OF shape] q new] by blast
  let ?m = "upd_work (DWork d) (set_flag OS_WORK_DELAYED)
      (m\<lparr>wm_dwork := (wm_dwork m)(d := \<lparr>dw_queue = Some q, deadline = dl\<rparr>)\<rparr>)\<lparr>wm_delayed := h\<rparr>"
  let ?ys = "ys(q := ys q @ [d])"
  have "wq_shape Q xs ?ys ?m"
  proof (rule wq_shape_item [OF shape, where w = "DWork d"])
    show "work_ok Q xs ?ys ?m (DWork d)"
    proof (rule work_okI)
      show "wk_queue (wm_work ?m (DWork d)) = Some p" if "p \<in> Q" "WorkNode (DWork d) \<in> set (xs p)" for p
        using ok(2) [OF that] by simp
      show "wk_queue (wm_work ?m (DWork d)) = Some p" if "p \<in> Q" "current (wm_queue ?m p) = Some (DWork d)" for p
        using ok(4) [OF that(1)] that(2) by simp
      show "has_flag OS_WORK_RUNNING (wm_work ?m (DWork d))"
        if "has_flag OS_WORK_CANCELING (wm_work ?m (DWork d))"
        using ok(5) that by (simp add: mask_bits)
      show "has_flag OS_WORK_DELAYED (wm_work ?m (DWork d)) \<longleftrightarrow> (\<exists>p \<in> Q. \<exists>e \<in> set (?ys p). DWork d = DWork e)"
        using q by (auto simp: mask_bits)
    qed (use ok(1,3) in \<open>simp_all add: mask_bits\<close>)
    show "\<And>q p. q \<in> Q \<Longrightarrow> StopNode p \<in> set (xs q) \<Longrightarrow> p = q" by (rule wq_shape_stop [OF shape])
    show "\<And>p e. p \<in> Q \<Longrightarrow> e \<in> set (?ys p) \<Longrightarrow> dw_queue (wm_dwork ?m e) = Some p"
      using wq_shape_dwork [OF shape] new by (auto split: if_splits)
  qed (use wq_shapeD(1) [OF shape] h(2) in auto)
  with h(1) show ?thesis by blast
qed

lemma schedule_section_shape:
  assumes shape: "wq_shape Q xs ys m" and q: "q \<in> Q"
  shows "\<exists>r m' ys'. schedule_section cx now q d delay re m = Some (r, m') \<and> wq_shape Q xs ys' m'
     \<and> wm_queue m' = wm_queue m
     \<and> (case r of SchedDone e \<Rightarrow> m' = m \<and> e \<le> 0
        | SchedSubmit old \<Rightarrow> delay = 0 \<and> (\<forall>p. old = Some p \<longrightarrow> p \<in> Q)
            \<and> \<not> has_flag OS_WORK_DELAYED (wm_work m' (DWork d))
        | SchedDelayed old \<Rightarrow> (\<forall>p. old = Some p \<longrightarrow> p \<in> Q) \<and> d \<in> set (ys' q)
            \<and> deadline (wm_dwork m' d) = now + delay)"
proof -
  let ?Q = "wm_queue m q" and ?W = "wm_work m (DWork d)"
  let ?refuse = "has_flag OS_WORK_CANCELING ?W \<or> stopping ?Q
            \<or> ((draining ?Q \<or> plugged ?Q) \<and> cx_worker cx \<noteq> Some q)"
  let ?keep = "\<not> re \<and> has_flag (OS_WORK_DELAYED OR OS_WORK_QUEUED) ?W"
  consider (refuse) ?refuse | (keep) "\<not> ?refuse" ?keep | (go) "\<not> ?refuse" "\<not> ?keep" by blast
  then show ?thesis
  proof cases
    case refuse
    then have "schedule_section cx now q d delay re m = Some (SchedDone (- EBUSY), m)"
      by (simp only: schedule_section_def Let_def if_True)
    with shape show ?thesis by (intro exI conjI) (auto simp: errno_defs)
  next
    case keep
    then have "schedule_section cx now q d delay re m = Some (SchedDone 0, m)"
      by (simp only: schedule_section_def Let_def if_True if_False HOL.simp_thms)
    with shape show ?thesis by (intro exI conjI) auto
  next
    case go
    obtain old m1 ys1 where u: "undelay_section d m = Some (old, m1)" "wq_shape Q xs ys1 m1"
        "\<not> has_flag OS_WORK_DELAYED (wm_work m1 (DWork d))" "wm_queue m1 = wm_queue m"
        "case old of None \<Rightarrow> m1 = m | Some None \<Rightarrow> False | Some (Some q) \<Rightarrow> q \<in> Q"
      using undelay_section_shape [OF shape, of d] by blast
    let ?o = "Option.bind old id"
    have old: "\<And>p. ?o = Some p \<Longrightarrow> p \<in> Q" using u(5) by (cases old) auto
    have step: "(if has_flag OS_WORK_DELAYED ?W
        then map_option (Pair (dw_queue (wm_dwork m d))) (undelay d m) else Some (None, m)) = Some (?o, m1)"
      using u(1) by (auto simp: undelay_section_def split: if_splits)
    show ?thesis
    proof (cases "delay = 0")
      case True
      then have "schedule_section cx now q d delay re m = Some (SchedSubmit ?o, m1)"
        using go by (simp only: schedule_section_def Let_def if_True if_False HOL.simp_thms step bind.bind_lunit prod.case)
      with u(2-4) old True show ?thesis
        by (intro exI [of _ "SchedSubmit ?o"] exI [of _ m1] exI [of _ ys1] conjI) simp_all
    next
      case False
      from delay_append_shape [OF u(2) q u(3), of "now + delay"] obtain h where h:
        "sys_dlist_append (DelayedList q) (DelayNode d) (wm_delayed m1) = Some h"
        "wq_shape Q xs (ys1(q := ys1 q @ [d]))
           (upd_work (DWork d) (set_flag OS_WORK_DELAYED)
             (m1\<lparr>wm_dwork := (wm_dwork m1)(d := \<lparr>dw_queue = Some q, deadline = now + delay\<rparr>)\<rparr>)\<lparr>wm_delayed := h\<rparr>)"
        (is "wq_shape Q xs _ ?m") by blast
      have "schedule_section cx now q d delay re m = Some (SchedDelayed ?o, ?m)"
        using go False h(1)
        by (simp only: schedule_section_def Let_def if_True if_False HOL.simp_thms step bind.bind_lunit
            prod.case upd_work_simps) simp
      with h(2) u(4) old show ?thesis
        by (intro exI [of _ "SchedDelayed ?o"] exI [of _ ?m] exI [of _ "ys1(q := ys1 q @ [d])"] conjI) simp_all
    qed
  qed
qed

text \<open>What the worker's scan of its delayed list finds: the first due item, or the nearest deadline.\<close>

definition remaining_of :: "'s wq_mem \<Rightarrow> u32 \<Rightarrow> nat \<Rightarrow> u32" where
  "remaining_of m now d = os_work_deadline_remaining (deadline (wm_dwork m d)) now"

definition nearer :: "u32 \<Rightarrow> u32 \<Rightarrow> u32" where
  "nearer r timeout = (if timeout = OS_WAIT_FOREVER \<or> r < timeout then r else timeout)"

lemma promote_scan:
  "list_for_each (\<lambda>node timeout. case node of
      DelayedList _ \<Rightarrow> Inr None
    | DelayNode d \<Rightarrow>
        let remaining = os_work_deadline_remaining (deadline (wm_dwork m d)) now
        in if remaining = 0 then Inr (Some d)
           else Inl (if timeout = OS_WAIT_FOREVER \<or> remaining < timeout then remaining else timeout))
     (map DelayNode ds) t
   = (case dropWhile (\<lambda>d. remaining_of m now d \<noteq> 0) ds of
        [] \<Rightarrow> Inl (fold nearer (map (remaining_of m now) ds) t)
      | d # _ \<Rightarrow> Inr (Some d))"
  unfolding Let_def remaining_of_def [symmetric] nearer_def [symmetric]
  by (induction ds arbitrary: t) (simp_all split: list.split del: dropWhile_eq_Nil_conv)

lemma promote_section_eq:
  assumes shape: "wq_shape Q xs ys m" and q: "q \<in> Q"
  shows "promote_section q now m =
     (case dropWhile (\<lambda>d. remaining_of m now d \<noteq> 0) (ys q) of
        [] \<Rightarrow> Some ((None, fold nearer (map (remaining_of m now) (ys q)) OS_WAIT_FOREVER, False), m)
      | d # _ \<Rightarrow> do {
          m \<leftarrow> undelay d m;
          Some ((Some d, OS_WAIT_FOREVER, plugged (wm_queue m q) \<or> stopping (wm_queue m q)), m)
        })"
proof -
  have rep: "dlist_rep (wm_delayed m) (DelayedList q) (map DelayNode (ys q))"
    using wq_shapeD(2) [OF shape] q by (simp add: dlists_rep_def)
  show ?thesis
    unfolding promote_section_def sys_dlist_for_each_node_rep [OF rep] promote_scan
    by (cases "dropWhile (\<lambda>d. remaining_of m now d \<noteq> 0) (ys q)")
      (simp_all only: list.case sum.case option.case)
qed

lemma promote_section_shape:
  assumes shape: "wq_shape Q xs ys m" and q: "q \<in> Q"
  shows "\<exists>p t blocked m' ys'. promote_section q now m = Some ((p, t, blocked), m') \<and> wq_shape Q xs ys' m'
     \<and> wm_queue m' = wm_queue m
     \<and> (case p of
          None \<Rightarrow> m' = m \<and> (\<forall>d \<in> set (ys q). remaining_of m now d \<noteq> 0)
            \<and> t = fold nearer (map (remaining_of m now) (ys q)) OS_WAIT_FOREVER
        | Some d \<Rightarrow> d \<in> set (ys q) \<and> remaining_of m now d = 0 \<and> ys' = ys(q := remove1 d (ys q))
            \<and> blocked = (plugged (wm_queue m q) \<or> stopping (wm_queue m q)))"
proof (cases "dropWhile (\<lambda>d. remaining_of m now d \<noteq> 0) (ys q)")
  case Nil
  then have "\<forall>d \<in> set (ys q). remaining_of m now d \<noteq> 0" by (simp add: dropWhile_eq_Nil_conv)
  moreover have "promote_section q now m
      = Some ((None, fold nearer (map (remaining_of m now) (ys q)) OS_WAIT_FOREVER, False), m)"
    by (simp only: promote_section_eq [OF shape q] Nil list.case)
  ultimately show ?thesis using shape by force
next
  case (Cons d ds)
  have "hd (dropWhile (\<lambda>d. remaining_of m now d \<noteq> 0) (ys q)) = d"
    "dropWhile (\<lambda>d. remaining_of m now d \<noteq> 0) (ys q) \<noteq> []" using Cons by simp_all
  then have due: "remaining_of m now d = 0"
    using hd_dropWhile [of "\<lambda>d. remaining_of m now d \<noteq> 0" "ys q"] by simp
  have d: "d \<in> set (ys q)"
    using Cons by (metis list.set_intros(1) set_dropWhileD)
  from undelay_shape [OF shape q d] due d show ?thesis
    by (auto simp: promote_section_eq [OF shape q] Cons)
qed

section \<open>Stopping a queue\<close>

lemma stop_section_shape:
  assumes shape: "wq_shape Q xs ys m" and q: "q \<in> Q"
  shows "\<exists>r m' xs'. stop_section q m = Some (r, m') \<and> wq_shape Q xs' ys m' \<and> r \<le> 0
     \<and> (r = 0 \<longrightarrow> xs q = [] \<and> xs' = xs(q := [StopNode q]) \<and> stopping (wm_queue m' q))
     \<and> (r \<noteq> 0 \<longrightarrow> m' = m) \<and> wm_work m' = wm_work m
     \<and> (\<forall>p. current (wm_queue m' p) = current (wm_queue m p))"
proof (cases "\<not> plugged (wm_queue m q) \<or> fifo_count q m \<noteq> 0 \<or> current (wm_queue m q) \<noteq> None")
  case True
  then have "stop_section q m = Some (- EBUSY, m)" by (simp add: stop_section_def)
  with shape show ?thesis by (intro exI conjI) (auto simp: errno_defs)
next
  case False
  let ?m = "upd_queue q (\<lambda>x. x\<lparr>stopping := True\<rparr>) m"
  have shape1: "wq_shape Q xs ys ?m" by (rule wq_shape_queue_cong [OF shape]) simp
  have nil: "xs q = []" using fifo_count_length [OF shape q] False by simp
  have "StopNode q \<notin> set (xs p)" if "p \<in> Q" for p
    using wq_shape_stop [OF shape that, of q] nil by (cases "p = q") auto
  then have free: "\<not> fm_queued (wm_fifo ?m) (StopNode q)"
    using wq_shapeD(1) [OF shape] by (auto simp: fifo_shape_def)
  have len: "length (xs q) < 65535" using nil by simp
  obtain m' where m': "enqueue_node q (StopNode q) ?m = Some m'"
      "fifo_shape Q (xs(q := xs q @ [StopNode q])) (wm_fifo m')"
      "wm_work m' = wm_work ?m" "wm_delayed m' = wm_delayed ?m" "wm_dwork m' = wm_dwork ?m"
      "wm_queue m' = wm_queue ?m"
    using enqueue_node_shape [of Q xs ?m q "StopNode q", OF wq_shapeD(1) [OF shape1] q free len] by blast
  have ok: "work_ok Q (xs(q := [StopNode q])) ys m' v" for v
    by (rule work_ok_cong [OF wq_shapeD(3) [OF shape1]]) (use m' nil in auto)
  have stop: "p = q'" if "q' \<in> Q" "StopNode p \<in> set ((xs(q := [StopNode q])) q')" for p q'
    using wq_shape_stop [OF shape that(1), of p] that(2) by (auto split: if_splits)
  have dw: "dw_queue (wm_dwork m' d) = Some p" if "p \<in> Q" "d \<in> set (ys p)" for p d
    using wq_shape_dwork [OF shape that] m'(5) by simp
  have "wq_shape Q (xs(q := [StopNode q])) ys m'"
    using m'(2,4) nil wq_shapeD(2) [OF shape] ok stop dw by (simp add: wq_shape_def)
  moreover have "stop_section q m = Some (0, m')" using False m'(1) by (simp add: stop_section_def)
  ultimately show ?thesis using nil m'(3,6)
    by (intro exI [of _ 0] exI [of _ m'] exI [of _ "xs(q := [StopNode q])"] conjI) simp_all
qed

end
