(* ===== verification/Work_Interleaving.thy ===== *)
theory Work_Interleaving
  imports Work_Sections
begin

text \<open>
  Work queues under any interleaving of clients, interrupts and worker threads.

  A step is one critical section, or what a thread does between two of them. Clients are not
  followed individually: any client step is possible in any state, in any calling context, so
  every order of calls and every preemption between the sections of a call is included.
  Semaphores are free as well: a give, a take or a try may happen at any time and the worker
  may fetch without a token, which only adds behaviours. Workers have program counters, because
  what they do depends on where they are.

  The record also carries ghost fields that the code does not have: the stamps of submissions
  and what has been accepted, fetched and cancelled.
\<close>

section \<open>The step relation\<close>

datatype wpc = Scanning | Promoting nat | Taking | Running work_addr | Exited

record 's wq_sys =
  sy_mem :: "'s wq_mem"
  sy_pc :: "nat \<Rightarrow> wpc"
  sy_clock :: nat
  sy_stamp :: "work_addr \<Rightarrow> nat"
  sy_ran :: "nat \<Rightarrow> nat list"
  sy_accepted :: "work_addr \<Rightarrow> nat"
  sy_fetched :: "work_addr \<Rightarrow> nat"
  sy_cancelled :: "work_addr \<Rightarrow> nat"

definition note_submit :: "int \<Rightarrow> work_addr \<Rightarrow> 's wq_sys \<Rightarrow> 's wq_sys" where
  "note_submit r w s =
     (if r > 0 then s\<lparr>sy_clock := sy_clock s + 1, sy_stamp := (sy_stamp s)(w := sy_clock s),
                      sy_accepted := (sy_accepted s)(w := sy_accepted s w + 1)\<rparr>
      else s)"

definition note_fetch :: "nat \<Rightarrow> work_addr \<Rightarrow> 's wq_sys \<Rightarrow> 's wq_sys" where
  "note_fetch q w s =
     s\<lparr>sy_ran := (sy_ran s)(q := sy_ran s q @ [sy_stamp s w]),
       sy_fetched := (sy_fetched s)(w := sy_fetched s w + 1)\<rparr>"

definition note_cancel :: "nat option \<Rightarrow> work_addr \<Rightarrow> 's wq_sys \<Rightarrow> 's wq_sys" where
  "note_cancel was w s =
     (if was = None then s else s\<lparr>sy_cancelled := (sy_cancelled s)(w := sy_cancelled s w + 1)\<rparr>)"

definition goto :: "nat \<Rightarrow> wpc \<Rightarrow> 's wq_sys \<Rightarrow> 's wq_sys" where
  "goto q pc s = s\<lparr>sy_pc := (sy_pc s)(q := pc)\<rparr>"

text \<open>Updates of a queue's flags by drain, unplug and stop.\<close>

definition queue_flags :: "bool \<Rightarrow> bool \<Rightarrow> bool \<Rightarrow> os_work_queue \<Rightarrow> os_work_queue" where
  "queue_flags st dr pl x = x\<lparr>started := st, draining := dr, plugged := pl\<rparr>"

inductive wq_step :: "'s sem_ops \<Rightarrow> nat set \<Rightarrow> 's wq_sys \<Rightarrow> 's wq_sys \<Rightarrow> bool" for S Q where
  client_submit:
    "q \<in> Q \<Longrightarrow> submit_section cx q w (sy_mem s) = Some (r, m) \<Longrightarrow>
       wq_step S Q s (note_submit r w (s\<lparr>sy_mem := m\<rparr>))"
| client_cancel:
    "cancel_section w (sy_mem s) = Some ((fl, was), m) \<Longrightarrow>
       wq_step S Q s (note_cancel was w (s\<lparr>sy_mem := m\<rparr>))"
| client_schedule:
    "q \<in> Q \<Longrightarrow> schedule_section cx now q d delay re (sy_mem s) = Some (r, m) \<Longrightarrow>
       wq_step S Q s (s\<lparr>sy_mem := m\<rparr>)"
| client_undelay:
    "undelay_section d (sy_mem s) = Some (old, m) \<Longrightarrow> wq_step S Q s (s\<lparr>sy_mem := m\<rparr>)"
| client_stop:
    "q \<in> Q \<Longrightarrow> stop_section q (sy_mem s) = Some (r, m) \<Longrightarrow> wq_step S Q s (s\<lparr>sy_mem := m\<rparr>)"
| client_init:
    "flags (wm_work (sy_mem s) w) = 0 \<Longrightarrow> wq_step S Q s (s\<lparr>sy_mem := os_work_init S (Some w) h (sy_mem s)\<rparr>)"
| client_flags:
    "wq_step S Q s (s\<lparr>sy_mem := upd_queue q (queue_flags st dr pl) (sy_mem s)\<rparr>)"
| give:
    "wq_step S Q s (s\<lparr>sy_mem := give_items S isr q (sy_mem s)\<rparr>)"
| trytake:
    "wq_step S Q s (s\<lparr>sy_mem := trytake_items S isr q (sy_mem s)\<rparr>)"
| notify:
    "wq_step S Q s (s\<lparr>sy_mem := os_work_notify S isr w (sy_mem s)\<rparr>)"
| await:
    "wq_step S Q s (s\<lparr>sy_mem := sync_wait S isr w id (sy_mem s)\<rparr>)"
| scan_none:
    "q \<in> Q \<Longrightarrow> sy_pc s q = Scanning \<Longrightarrow> promote_section q now (sy_mem s) = Some ((None, t, b), m) \<Longrightarrow>
       wq_step S Q s (goto q Taking (s\<lparr>sy_mem := m\<rparr>))"
| scan_due:
    "q \<in> Q \<Longrightarrow> sy_pc s q = Scanning \<Longrightarrow> promote_section q now (sy_mem s) = Some ((Some d, t, b), m) \<Longrightarrow>
       wq_step S Q s (goto q (if b then Scanning else Promoting d) (s\<lparr>sy_mem := m\<rparr>))"
| promote:
    "q \<in> Q \<Longrightarrow> sy_pc s q = Promoting d \<Longrightarrow>
       submit_section \<lparr>cx_isr = False, cx_worker = Some q\<rparr> q (DWork d) (sy_mem s) = Some (r, m) \<Longrightarrow>
       wq_step S Q s (goto q Scanning (note_submit r (DWork d) (s\<lparr>sy_mem := m\<rparr>)))"
| promote_rejected:
    "q \<in> Q \<Longrightarrow> sy_pc s q = Promoting d \<Longrightarrow> wq_step S Q s (goto q Scanning s)"
| take_timeout:
    "q \<in> Q \<Longrightarrow> sy_pc s q = Taking \<Longrightarrow> wq_step S Q s (goto q Scanning s)"
| fetch_nothing:
    "q \<in> Q \<Longrightarrow> sy_pc s q = Taking \<Longrightarrow> worker_fetch_section q (sy_mem s) = Some (FetchNothing, m) \<Longrightarrow>
       wq_step S Q s (goto q Scanning (s\<lparr>sy_mem := m\<rparr>))"
| fetch_stop:
    "q \<in> Q \<Longrightarrow> sy_pc s q = Taking \<Longrightarrow> worker_fetch_section q (sy_mem s) = Some (FetchStop, m) \<Longrightarrow>
       wq_step S Q s (goto q Exited (s\<lparr>sy_mem := m\<rparr>))"
| fetch_work:
    "q \<in> Q \<Longrightarrow> sy_pc s q = Taking \<Longrightarrow> worker_fetch_section q (sy_mem s) = Some (FetchWork w, m) \<Longrightarrow>
       wq_step S Q s (goto q (Running w) (note_fetch q w (s\<lparr>sy_mem := m\<rparr>)))"
| finish:
    "q \<in> Q \<Longrightarrow> sy_pc s q = Running w \<Longrightarrow>
       wq_step S Q s (goto q Scanning (s\<lparr>sy_mem := worker_finish_section q w (sy_mem s)\<rparr>))"

section \<open>The invariant\<close>

fun works :: "wnode list \<Rightarrow> work_addr list" where
  "works [] = []"
| "works (WorkNode w # ns) = w # works ns"
| "works (StopNode q # ns) = works ns"

lemma works_append [simp]: "works (ns @ ms) = works ns @ works ms"
  by (induction ns rule: works.induct) auto

lemma set_works [simp]: "w \<in> set (works ns) \<longleftrightarrow> WorkNode w \<in> set ns"
  by (induction ns rule: works.induct) auto

lemma works_remove1: "works (remove1 (WorkNode w) ns) = remove1 w (works ns)"
  by (induction ns rule: works.induct) auto

definition running_of :: "wpc \<Rightarrow> work_addr option" where
  "running_of pc = (case pc of Running w \<Rightarrow> Some w | _ \<Rightarrow> None)"

text \<open>What a queue has run, then what waits on it, in order of submission.\<close>

definition order_ok :: "(nat \<Rightarrow> wnode list) \<Rightarrow> 's wq_sys \<Rightarrow> nat \<Rightarrow> bool" where
  "order_ok xs s q \<longleftrightarrow>
     sorted_wrt (<) (sy_ran s q @ map (sy_stamp s) (works (xs q)) @ [sy_clock s])"

definition counts_ok :: "'s wq_sys \<Rightarrow> work_addr \<Rightarrow> bool" where
  "counts_ok s w \<longleftrightarrow>
     sy_accepted s w = sy_fetched s w + sy_cancelled s w
        + (if has_flag OS_WORK_QUEUED (wm_work (sy_mem s) w) then 1 else 0)"

definition wq_inv :: "nat set \<Rightarrow> (nat \<Rightarrow> wnode list) \<Rightarrow> (nat \<Rightarrow> nat list) \<Rightarrow> 's wq_sys \<Rightarrow> bool" where
  "wq_inv Q xs ys s \<longleftrightarrow>
     wq_shape Q xs ys (sy_mem s)
     \<and> (\<forall>q \<in> Q. current (wm_queue (sy_mem s) q) = running_of (sy_pc s q))
     \<and> (\<forall>q \<in> Q. order_ok xs s q) \<and> (\<forall>w. counts_ok s w)"

lemma wq_invD:
  assumes "wq_inv Q xs ys s"
  shows "wq_shape Q xs ys (sy_mem s)"
    and "q \<in> Q \<Longrightarrow> current (wm_queue (sy_mem s) q) = running_of (sy_pc s q)"
    and "q \<in> Q \<Longrightarrow> order_ok xs s q" and "counts_ok s w"
  using assms by (simp_all add: wq_inv_def)

text \<open>A step that keeps the FIFOs and the running items.\<close>

lemma queued_iff:
  "wq_shape Q xs ys m \<Longrightarrow> has_flag OS_WORK_QUEUED (wm_work m w) \<longleftrightarrow> (\<exists>q \<in> Q. WorkNode w \<in> set (xs q))"
  by (rule work_okD(1) [OF wq_shapeD(3)])

lemma inv_keep:
  assumes inv: "wq_inv Q xs ys s" and shape: "wq_shape Q xs ys' m"
    and cur: "\<And>q. q \<in> Q \<Longrightarrow> current (wm_queue m q) = current (wm_queue (sy_mem s) q)"
  shows "wq_inv Q xs ys' (s\<lparr>sy_mem := m\<rparr>)"
proof -
  have "has_flag OS_WORK_QUEUED (wm_work m w) = has_flag OS_WORK_QUEUED (wm_work (sy_mem s) w)" for w
    using queued_iff [OF shape] queued_iff [OF wq_invD(1) [OF inv]] by simp
  then show ?thesis
    using inv shape cur by (simp add: wq_inv_def counts_ok_def order_ok_def)
qed

lemma inv_goto:
  assumes "wq_inv Q xs ys s" "running_of pc = running_of (sy_pc s q)"
  shows "wq_inv Q xs ys (goto q pc s)"
  using assms by (simp add: wq_inv_def goto_def counts_ok_def order_ok_def)

lemma goto_mem [simp]: "goto q pc s\<lparr>sy_mem := m\<rparr> = goto q pc (s\<lparr>sy_mem := m\<rparr>)"
  by (simp add: goto_def)

text \<open>Submissions.\<close>

lemma inv_submit:
  assumes inv: "wq_inv Q xs ys s" and q: "q \<in> Q" and r: "submit_section cx q w (sy_mem s) = Some (r, m)"
  shows "\<exists>xs'. wq_inv Q xs' ys (note_submit r w (s\<lparr>sy_mem := m\<rparr>))"
proof (cases "submit_accepts cx q w (sy_mem s)")
  case False
  then have "r \<le> 0" "m = sy_mem s" using submit_section_refuses [OF False] r by auto
  with inv show ?thesis by (auto simp: note_submit_def)
next
  case True
  note shape = wq_invD(1) [OF inv]
  let ?xs = "xs(q := xs q @ [WorkNode w])"
  have "r > 0" and m: "wq_shape Q ?xs ys m"
      "wm_work m = (wm_work (sy_mem s))(w := set_flag OS_WORK_QUEUED
          ((wm_work (sy_mem s) w)\<lparr>submission_id := submission_id (wm_work (sy_mem s) w) + 1, wk_queue := Some q\<rparr>))"
      "wm_queue m = wm_queue (sy_mem s)"
    using submit_section_accepts [OF shape q True] r by (auto split: if_splits)
  let ?s = "note_submit r w (s\<lparr>sy_mem := m\<rparr>)"
  have fresh: "\<not> has_flag OS_WORK_QUEUED (wm_work (sy_mem s) w)" using True by (simp add: submit_accepts_def)
  have notin: "w \<notin> set (works (xs p))" if "p \<in> Q" for p
    using fresh queued_iff [OF shape, of w] that by auto
  have same: "map ((sy_stamp s)(w := sy_clock s)) (works (xs p)) = map (sy_stamp s) (works (xs p))"
    if "p \<in> Q" for p
    using notin [OF that] by (auto intro!: map_cong)
  have order: "order_ok ?xs ?s p" if p: "p \<in> Q" for p
  proof (cases "p = q")
    case True
    with wq_invD(3) [OF inv p] \<open>r > 0\<close> show ?thesis
      by (auto simp: order_ok_def note_submit_def same [OF q] sorted_wrt_append less_Suc_eq)
  next
    case False
    with wq_invD(3) [OF inv p] \<open>r > 0\<close> show ?thesis
      by (auto simp: order_ok_def note_submit_def same [OF p] sorted_wrt_append less_Suc_eq)
  qed
  have counts: "counts_ok ?s v" for v
    using wq_invD(4) [OF inv, of v] fresh \<open>r > 0\<close>
    by (auto simp: counts_ok_def note_submit_def m(2) mask_bits)
  have "wq_inv Q ?xs ys ?s"
    using m(1,3) wq_invD(2) [OF inv] order counts \<open>r > 0\<close>
    by (simp add: wq_inv_def note_submit_def del: fun_upd_apply)
  then show ?thesis by blast
qed

text \<open>Cancellations.\<close>

lemma sorted_wrt_remove1: "sorted_wrt P xs \<Longrightarrow> sorted_wrt P (remove1 x xs)"
  by (induction xs) (auto dest: notin_set_remove1)

lemma inv_cancel:
  assumes inv: "wq_inv Q xs ys s" and r: "cancel_section w (sy_mem s) = Some ((fl, was), m)"
  shows "\<exists>xs'. wq_inv Q xs' ys (note_cancel was w (s\<lparr>sy_mem := m\<rparr>))"
proof -
  note shape = wq_invD(1) [OF inv]
  let ?xs = "case was of None \<Rightarrow> xs | Some q \<Rightarrow> xs(q := remove1 (WorkNode w) (xs q))"
  have m: "wq_shape Q ?xs ys m" "was \<noteq> None \<longleftrightarrow> has_flag OS_WORK_QUEUED (wm_work (sy_mem s) w)"
      "\<not> has_flag OS_WORK_QUEUED (wm_work m w)" "wm_queue m = wm_queue (sy_mem s)"
    using cancel_section_shape [OF shape, of w] r by auto
  show ?thesis
  proof (cases was)
    case None
    with inv_keep [OF inv, of ys m] m(1,4) show ?thesis by (auto simp: note_cancel_def)
  next
    case (Some q)
    let ?s = "note_cancel was w (s\<lparr>sy_mem := m\<rparr>)"
    have others: "has_flag OS_WORK_QUEUED (wm_work m v) = has_flag OS_WORK_QUEUED (wm_work (sy_mem s) v)"
      if "v \<noteq> w" for v
      using queued_iff [OF m(1), of v] queued_iff [OF shape, of v] that Some by (auto split: if_splits)
    have order: "order_ok ?xs ?s p" if p: "p \<in> Q" for p
    proof (cases "p = q")
      case True
      have "sorted_wrt (<) (sy_ran s q @ map (sy_stamp s) (remove1 w (works (xs q))) @ [sy_clock s])"
        using wq_invD(3) [OF inv, of q] p True
        by (auto simp: order_ok_def sorted_wrt_append sorted_wrt_map sorted_wrt_remove1 dest: notin_set_remove1)
      then show ?thesis using True Some by (simp add: order_ok_def note_cancel_def works_remove1)
    next
      case False
      then show ?thesis using wq_invD(3) [OF inv p] Some by (simp add: order_ok_def note_cancel_def)
    qed
    have counts: "counts_ok ?s v" for v
      using wq_invD(4) [OF inv, of v] m(2,3) others [of v] Some
      by (cases "v = w") (auto simp: counts_ok_def note_cancel_def)
    have s: "sy_mem ?s = m" "sy_pc ?s = sy_pc s" by (simp_all add: note_cancel_def)
    have cur: "current (wm_queue m p) = running_of (sy_pc s p)" if "p \<in> Q" for p
      using wq_invD(2) [OF inv that] by (simp add: m(4))
    have "wq_inv Q ?xs ys ?s"
      unfolding wq_inv_def s using m(1) cur order counts by blast
    then show ?thesis by blast
  qed
qed

text \<open>Fetches and completions.\<close>

lemma inv_fetch:
  assumes inv: "wq_inv Q xs ys s" and q: "q \<in> Q" and pc: "running_of (sy_pc s q) = None"
    and r: "worker_fetch_section q (sy_mem s) = Some (f, m)"
  shows "case f of
      FetchWork w \<Rightarrow> wq_inv Q (xs(q := tl (xs q))) ys (goto q (Running w) (note_fetch q w (s\<lparr>sy_mem := m\<rparr>)))
    | _ \<Rightarrow> wq_inv Q (xs(q := tl (xs q))) ys (s\<lparr>sy_mem := m\<rparr>)"
proof -
  note shape = wq_invD(1) [OF inv] and cur = wq_invD(2) [OF inv]
  let ?xs = "xs(q := tl (xs q))"
  have m: "wq_shape Q ?xs ys m"
      "case f of FetchWork w \<Rightarrow> xs q \<noteq> [] \<and> hd (xs q) = WorkNode w
          \<and> wm_queue m = (wm_queue (sy_mem s))(q := (wm_queue (sy_mem s) q)\<lparr>current := Some w\<rparr>)
          \<and> running_id (wm_work m w) = submission_id (wm_work m w)
        | FetchStop \<Rightarrow> xs q \<noteq> [] \<and> hd (xs q) = StopNode q \<and> wm_queue m = wm_queue (sy_mem s)
        | FetchNothing \<Rightarrow> m = sy_mem s \<and> xs q = []"
    using worker_fetch_shape [OF shape q] cur [OF q] pc r by auto
  have dist: "distinct (xs q)" by (rule fifo_shapeD(3) [OF wq_shapeD(1) [OF shape] q])
  show ?thesis
  proof (cases f)
    case FetchNothing
    then have "m = sy_mem s" "?xs = xs" using m(2) by (simp_all add: fun_upd_idem)
    with FetchNothing inv show ?thesis by simp
  next
    case FetchStop
    then have head: "xs q = StopNode q # tl (xs q)" "wm_queue m = wm_queue (sy_mem s)"
      using m(2) by (simp_all add: list.expand)
    have flag: "has_flag OS_WORK_QUEUED (wm_work m v) = has_flag OS_WORK_QUEUED (wm_work (sy_mem s) v)" for v
      using queued_iff [OF m(1), of v] queued_iff [OF shape, of v] head(1)
      by (metis fun_upd_apply set_ConsD list.set_intros(2) wnode.distinct(1))
    have "order_ok ?xs (s\<lparr>sy_mem := m\<rparr>) p" if "p \<in> Q" for p
      using wq_invD(3) [OF inv that] head(1)
      by (cases "p = q") (simp_all add: order_ok_def, metis works.simps(3))
    with m(1) cur head(2) wq_invD(4) [OF inv] flag FetchStop show ?thesis
      by (simp add: wq_inv_def counts_ok_def del: fun_upd_apply)
  next
    case (FetchWork w)
    then have head: "xs q = WorkNode w # tl (xs q)"
        "wm_queue m = (wm_queue (sy_mem s))(q := (wm_queue (sy_mem s) q)\<lparr>current := Some w\<rparr>)"
      using m(2) by (simp_all add: list.expand)
    let ?s = "goto q (Running w) (note_fetch q w (s\<lparr>sy_mem := m\<rparr>))"
    have s: "sy_mem ?s = m" "sy_pc ?s = (sy_pc s)(q := Running w)" by (simp_all add: goto_def note_fetch_def)
    have was: "has_flag OS_WORK_QUEUED (wm_work (sy_mem s) w)"
      using queued_iff [OF shape, of w] q head(1) by (metis list.set_intros(1))
    have only: "WorkNode w \<notin> set (?xs p)" if "p \<in> Q" for p
      using fifo_shapeD(4) [OF wq_shapeD(1) [OF shape] that q] dist head(1)
      by (cases "p = q") (metis distinct.simps(2) fun_upd_same, metis disjoint_iff fun_upd_other list.set_intros(1))
    then have now: "\<not> has_flag OS_WORK_QUEUED (wm_work m w)"
      using queued_iff [OF m(1), of w] by blast
    have others: "has_flag OS_WORK_QUEUED (wm_work m v) = has_flag OS_WORK_QUEUED (wm_work (sy_mem s) v)"
      if "v \<noteq> w" for v
      using queued_iff [OF m(1), of v] queued_iff [OF shape, of v] head(1) that
      by (metis fun_upd_apply set_ConsD list.set_intros(2) wnode.inject(1))
    have order: "order_ok ?xs ?s p" if "p \<in> Q" for p
    proof (cases "p = q")
      case True
      have "works (xs q) = w # works (tl (xs q))" by (subst head(1)) simp
      with wq_invD(3) [OF inv q] True show ?thesis
        by (simp add: order_ok_def goto_def note_fetch_def)
    next
      case False
      with wq_invD(3) [OF inv that] show ?thesis by (simp add: order_ok_def goto_def note_fetch_def)
    qed
    have counts: "counts_ok ?s v" for v
      using wq_invD(4) [OF inv, of v] was now others [of v]
      by (cases "v = w") (simp_all add: counts_ok_def goto_def note_fetch_def)
    have "current (wm_queue m p) = running_of (((sy_pc s)(q := Running w)) p)" if "p \<in> Q" for p
      using cur [OF that] by (simp add: head(2) running_of_def)
    then have "wq_inv Q ?xs ys ?s"
      unfolding wq_inv_def s using m(1) order counts by blast
    then show ?thesis by (simp only: FetchWork fetched.case)
  qed
qed

lemma inv_stop:
  assumes inv: "wq_inv Q xs ys s" and q: "q \<in> Q" and r: "stop_section q (sy_mem s) = Some (r, m)"
  shows "\<exists>xs'. wq_inv Q xs' ys (s\<lparr>sy_mem := m\<rparr>)"
proof -
  note shape = wq_invD(1) [OF inv]
  obtain xs' where m: "wq_shape Q xs' ys m" "r = 0 \<Longrightarrow> xs q = [] \<and> xs' = xs(q := [StopNode q])"
      "r \<noteq> 0 \<Longrightarrow> m = sy_mem s" "wm_work m = wm_work (sy_mem s)"
      "\<And>p. current (wm_queue m p) = current (wm_queue (sy_mem s) p)"
    using stop_section_shape [OF shape q] r by auto
  show ?thesis
  proof (cases "r = 0")
    case True
    have works: "works (xs' p) = works (xs p)" for p using m(2) [OF True] by simp
    have "order_ok xs' (s\<lparr>sy_mem := m\<rparr>) p" if "p \<in> Q" for p
      using wq_invD(3) [OF inv that] by (simp add: order_ok_def works)
    with m(1,4,5) wq_invD(2,4) [OF inv] show ?thesis
      by (intro exI [of _ xs']) (simp add: wq_inv_def counts_ok_def)
  next
    case False
    with m(3) inv show ?thesis by auto
  qed
qed

lemma inv_finish:
  assumes inv: "wq_inv Q xs ys s" and q: "q \<in> Q" and pc: "sy_pc s q = Running w"
  shows "wq_inv Q xs ys (goto q Scanning (s\<lparr>sy_mem := worker_finish_section q w (sy_mem s)\<rparr>))" (is "wq_inv Q xs ys ?s")
proof -
  note shape = wq_invD(1) [OF inv] and cur = wq_invD(2) [OF inv]
  let ?m = "worker_finish_section q w (sy_mem s)"
  have s: "sy_mem ?s = ?m" "sy_pc ?s = (sy_pc s)(q := Scanning)" by (simp_all add: goto_def)
  have m: "wq_shape Q xs ys ?m"
    by (rule worker_finish_shape [OF shape q]) (use cur [OF q] pc in \<open>simp add: running_of_def\<close>)
  have "has_flag OS_WORK_QUEUED (wm_work ?m v) = has_flag OS_WORK_QUEUED (wm_work (sy_mem s) v)" for v
    using queued_iff [OF m] queued_iff [OF shape] by simp
  then have counts: "counts_ok ?s v" for v
    using wq_invD(4) [OF inv, of v] by (simp add: counts_ok_def s) (simp add: goto_def)
  have "current (wm_queue ?m p) = running_of (((sy_pc s)(q := Scanning)) p)" if "p \<in> Q" for p
    using cur [OF that] by (simp add: worker_finish_section_def running_of_def)
  moreover have "order_ok xs ?s p" if "p \<in> Q" for p
    using wq_invD(3) [OF inv that] by (simp add: order_ok_def goto_def)
  ultimately show ?thesis unfolding wq_inv_def s using m counts by blast
qed

section \<open>Initialisation\<close>

text \<open>Initialising an item that no queue holds.\<close>

lemma os_work_init_simps:
  "wm_delayed (os_work_init S (Some w) h m) = wm_delayed m"
  "wm_dwork (os_work_init S (Some w) h m) = wm_dwork m"
  "wm_queue (os_work_init S (Some w) h m) = wm_queue m"
  "wm_fifo (os_work_init S (Some w) h m) = os_fifo_node_init (Some (WorkNode w)) (wm_fifo m)"
  "v \<noteq> w \<Longrightarrow> wm_work (os_work_init S (Some w) h m) v = wm_work m v"
  "flags (wm_work (os_work_init S (Some w) h m) w) = 0"
  by (simp_all add: os_work_init_def Let_def os_work_zero_def split: prod.split)

lemma no_flag: "flags w = 0 \<Longrightarrow> \<not> has_flag b w"
  by (simp add: has_flag_def)

lemma fifo_node_init_shape:
  assumes shape: "fifo_shape Q xs F" and out: "\<And>q. q \<in> Q \<Longrightarrow> n \<notin> set (xs q)"
  shows "fifo_shape Q xs (os_fifo_node_init (Some n) F)"
proof -
  have "dlists_rep FifoList FifoNode Q xs (fm_heap (os_fifo_node_init (Some n) F))"
    by (rule fifos.dlists_frame [of Q xs "fm_heap F"])
      (use shape out in \<open>auto simp: fifo_shape_def os_fifo_node_init_def\<close>)
  with shape out show ?thesis
    by (auto simp: fifo_shape_def fifo_at_def os_fifo_node_init_def set_queued_def)
qed

lemma os_work_init_shape:
  assumes shape: "wq_shape Q xs ys m" and idle: "flags (wm_work m w) = 0"
  shows "wq_shape Q xs ys (os_work_init S (Some w) h m)" (is "wq_shape Q xs ys ?m")
proof (rule wq_shape_item [OF shape, where w = w])
  note ok = work_okD [OF wq_shapeD(3) [OF shape, of w]]
  note simps = os_work_init_simps [where S = S and w = w and h = h and m = m]
  have out: "WorkNode w \<notin> set (xs q)" if "q \<in> Q" for q
    using ok(1) no_flag [OF idle] that by blast
  show "work_ok Q xs ys ?m w"
    by (rule work_okI)
      (use ok(1,3,6) no_flag [OF idle] no_flag [OF simps(6)] in \<open>auto simp: simps(3)\<close>)
  show "fifo_shape Q xs (wm_fifo ?m)"
    using fifo_node_init_shape [OF wq_shapeD(1) [OF shape] out] by (simp add: simps)
  show "dlists_rep DelayedList DelayNode Q ys (wm_delayed ?m)"
    using wq_shapeD(2) [OF shape] by (simp add: simps)
  show "\<And>q p. q \<in> Q \<Longrightarrow> StopNode p \<in> set (xs q) \<Longrightarrow> p = q" by (rule wq_shape_stop [OF shape])
  show "\<And>q d. q \<in> Q \<Longrightarrow> d \<in> set (ys q) \<Longrightarrow> dw_queue (wm_dwork ?m d) = Some q"
    using wq_shape_dwork [OF shape] by (simp add: simps)
qed (simp_all add: os_work_init_simps)

text \<open>Starting queues one after the other, all of them successfully.\<close>

fun wq_boot :: "'s sem_ops \<Rightarrow> bool \<Rightarrow> (nat \<times> size_t \<times> bool option) list \<Rightarrow> 's wq_mem \<Rightarrow> 's wq_mem option" where
  "wq_boot S isr [] m = Some m"
| "wq_boot S isr ((q, stack, config) # qs) m =
     (case os_work_queue_start S isr 0 (Some q) stack config m of
        (r, m') \<Rightarrow> if r = 0 then wq_boot S isr qs m' else None)"

lemma start_memory:
  assumes "os_work_queue_start S isr 0 (Some q) stack config m = (0, m')"
  shows "wm_work m' = wm_work m" "wm_dwork m' = wm_dwork m"
    "\<And>p. p \<noteq> q \<Longrightarrow> wm_queue m' p = wm_queue m p" "current (wm_queue m' q) = None"
    "\<exists>F. os_fifo_init S (Some q) (os_fifo_node_init (Some (StopNode q)) (fifo_zero_at S q (wm_fifo m))) = (0, F)
       \<and> wm_fifo m' = F"
    "wm_delayed m' = sys_dlist_init (DelayedList q) ((wm_delayed m)(DelayedList q := null_dnode))"
  using assms
  by (auto simp: os_work_queue_start_def Let_def os_work_queue_zero_def errno_defs split: if_splits prod.splits)

lemma start_shape:
  assumes shape: "wq_shape Q (\<lambda>_. []) (\<lambda>_. []) m"
    and start: "os_work_queue_start S isr 0 (Some q) stack config m = (0, m')"
    and idle: "\<And>w. flags (wm_work m w) = 0"
  shows "wq_shape (insert q Q) (\<lambda>_. []) (\<lambda>_. []) m'"
proof -
  note m' = start_memory [OF start]
  obtain F where F: "os_fifo_init S (Some q)
       (os_fifo_node_init (Some (StopNode q)) (fifo_zero_at S q (wm_fifo m))) = (0, F)" "wm_fifo m' = F"
    using m'(5) by blast
  let ?Q = "Q - {q}"
  have "dlists_rep FifoList FifoNode ?Q (\<lambda>_. []) (fm_heap (fifo_zero_at S q (wm_fifo m)))"
    by (rule fifos.dlists_frame [of _ _ "fm_heap (wm_fifo m)"])
      (use wq_shapeD(1) [OF shape] in \<open>auto simp: fifo_shape_def dlists_rep_def fifo_zero_at_def\<close>)
  then have "fifo_shape ?Q (\<lambda>_. []) (fifo_zero_at S q (wm_fifo m))"
    using wq_shapeD(1) [OF shape] by (auto simp: fifo_shape_def fifo_at_def fifo_zero_at_def)
  then have "fifo_shape (insert q ?Q) (\<lambda>_. []) (wm_fifo m')"
    unfolding F(2) by (intro fifo_init_shape [OF fifo_node_init_shape F(1)]) simp_all
  moreover have "dlists_rep DelayedList DelayNode (insert q Q) ((\<lambda>_. [])(q := [])) (wm_delayed m')"
    by (rule delays.dlists_init [of Q _ "wm_delayed m"])
      (use wq_shapeD(2) [OF shape] in \<open>simp_all add: m'(6) dlist_rep_init\<close>, simp add: sys_dlist_init_def)
  moreover have "work_ok (insert q Q) (\<lambda>_. []) (\<lambda>_. []) m' w" for w
  proof -
    have "current (wm_queue m' p) \<noteq> Some w" if "p \<in> insert q Q" for p
      using work_okD(3) [OF wq_shapeD(3) [OF shape, of w]] no_flag [OF idle [of w]] m'(3,4) that
      by (cases "p = q") auto
    then show ?thesis
      using no_flag [OF idle [of w]] by (auto simp: work_ok_def m'(1))
  qed
  ultimately show ?thesis by (simp add: wq_shape_def fun_upd_idem insert_absorb)
qed

lemma boot_shape:
  assumes "wq_boot S isr qs m = Some m'" "wq_shape Q (\<lambda>_. []) (\<lambda>_. []) m" "\<And>w. flags (wm_work m w) = 0"
  shows "wq_shape (Q \<union> fst ` set qs) (\<lambda>_. []) (\<lambda>_. []) m' \<and> wm_work m' = wm_work m"
  using assms
proof (induction qs arbitrary: Q m rule: list.induct)
  case Nil
  then show ?case by simp
next
  case (Cons e qs)
  obtain q stack config where e: "e = (q, stack, config)" by (cases e)
  obtain m1 where m1: "os_work_queue_start S isr 0 (Some q) stack config m = (0, m1)"
      "wq_boot S isr qs m1 = Some m'"
    using Cons.prems(1) e by (auto split: prod.splits if_splits)
  note work = start_memory(1) [OF m1(1)]
  have "wq_shape (insert q Q) (\<lambda>_. []) (\<lambda>_. []) m1"
    by (rule start_shape [OF Cons.prems(2) m1(1) Cons.prems(3)])
  from Cons.IH [OF m1(2) this] work Cons.prems(3) e show ?case by simp
qed

section \<open>Every reachable state has the invariant\<close>

lemma inv_step:
  assumes step: "wq_step S Q s s'" and inv: "wq_inv Q xs ys s"
  shows "\<exists>xs' ys'. wq_inv Q xs' ys' s'"
  using step
proof cases
  case (client_submit q cx w r m)
  with inv_submit [OF inv] show ?thesis by blast
next
  case (client_cancel w fl was m)
  with inv_cancel [OF inv] show ?thesis by blast
next
  case (client_schedule q cx now d delay re r m)
  with schedule_section_shape [OF wq_invD(1) [OF inv], of q cx now d delay re]
  obtain ys' where m: "wq_shape Q xs ys' m" "wm_queue m = wm_queue (sy_mem s)" by auto
  have "wq_inv Q xs ys' (s\<lparr>sy_mem := m\<rparr>)" by (rule inv_keep [OF inv m(1)]) (simp add: m(2))
  with client_schedule(1) show ?thesis by blast
next
  case (client_undelay d old m)
  with undelay_section_shape [OF wq_invD(1) [OF inv], of d]
  obtain ys' where m: "wq_shape Q xs ys' m" "wm_queue m = wm_queue (sy_mem s)" by auto
  have "wq_inv Q xs ys' (s\<lparr>sy_mem := m\<rparr>)" by (rule inv_keep [OF inv m(1)]) (simp add: m(2))
  with client_undelay(1) show ?thesis by blast
next
  case (client_stop q r m)
  with inv_stop [OF inv] show ?thesis by blast
next
  case (client_init w h)
  have "wq_inv Q xs ys (s\<lparr>sy_mem := os_work_init S (Some w) h (sy_mem s)\<rparr>)"
    by (rule inv_keep [OF inv os_work_init_shape [OF wq_invD(1) [OF inv] client_init(2)]]) (simp_all add: os_work_init_simps)
  with client_init(1) show ?thesis by blast
next
  case (client_flags q st dr pl)
  have "wq_inv Q xs ys (s\<lparr>sy_mem := upd_queue q (queue_flags st dr pl) (sy_mem s)\<rparr>)"
    by (rule inv_keep [OF inv wq_shape_queue_cong [OF wq_invD(1) [OF inv]]]) (simp_all add: queue_flags_def)
  with client_flags(1) show ?thesis by blast
next
  case (give isr q)
  have "wq_inv Q xs ys (s\<lparr>sy_mem := give_items S isr q (sy_mem s)\<rparr>)"
    by (rule inv_keep [OF inv wq_shape_tokens(1) [OF wq_invD(1) [OF inv]]]) (simp_all add: give_items_def)
  with give(1) show ?thesis by blast
next
  case (trytake isr q)
  have "wq_inv Q xs ys (s\<lparr>sy_mem := trytake_items S isr q (sy_mem s)\<rparr>)"
    by (rule inv_keep [OF inv wq_shape_tokens(2) [OF wq_invD(1) [OF inv]]]) (simp_all add: trytake_items_def)
  with trytake(1) show ?thesis by blast
next
  case (notify isr w)
  have "wq_inv Q xs ys (s\<lparr>sy_mem := os_work_notify S isr w (sy_mem s)\<rparr>)"
    by (rule inv_keep [OF inv wq_shape_notify [OF wq_invD(1) [OF inv]]]) (simp_all add: os_work_notify_def)
  with notify(1) show ?thesis by blast
next
  case (await isr w)
  have "wq_shape Q xs ys (sync_wait S isr w id (sy_mem s))"
    using wq_shape_work_cong [OF wq_invD(1) [OF inv]] by (simp add: sync_wait_def)
  then have "wq_inv Q xs ys (s\<lparr>sy_mem := sync_wait S isr w id (sy_mem s)\<rparr>)"
    by (rule inv_keep [OF inv]) (simp add: sync_wait_def)
  with await(1) show ?thesis by blast
next
  case (scan_none q now t b m)
  have "m = sy_mem s"
    using promote_section_shape [OF wq_invD(1) [OF inv] scan_none(2), of now] scan_none(4) by auto
  with inv_goto [OF inv, of Taking q] scan_none show ?thesis by (auto simp: running_of_def)
next
  case (scan_due q now d t b m)
  with promote_section_shape [OF wq_invD(1) [OF inv] scan_due(2), of now]
  obtain ys' where m: "wq_shape Q xs ys' m" "wm_queue m = wm_queue (sy_mem s)" by auto
  have "wq_inv Q xs ys' (s\<lparr>sy_mem := m\<rparr>)" by (rule inv_keep [OF inv m(1)]) (simp add: m(2))
  then have "wq_inv Q xs ys' (goto q (if b then Scanning else Promoting d) (s\<lparr>sy_mem := m\<rparr>))"
    by (rule inv_goto) (simp add: scan_due(3) running_of_def)
  with scan_due(1) show ?thesis by blast
next
  case (promote q d r m)
  from inv_submit [OF inv promote(2,4)] obtain xs' where
    "wq_inv Q xs' ys (note_submit r (DWork d) (s\<lparr>sy_mem := m\<rparr>))" by blast
  then have "wq_inv Q xs' ys (goto q Scanning (note_submit r (DWork d) (s\<lparr>sy_mem := m\<rparr>)))"
    by (rule inv_goto) (simp add: promote(3) running_of_def note_submit_def)
  with promote(1) show ?thesis by blast
next
  case (promote_rejected q d)
  with inv_goto [OF inv, of Scanning q] show ?thesis by (auto simp: running_of_def)
next
  case (take_timeout q)
  with inv_goto [OF inv, of Scanning q] show ?thesis by (auto simp: running_of_def)
next
  case (fetch_nothing q m)
  from inv_fetch [OF inv fetch_nothing(2) _ fetch_nothing(4)] fetch_nothing(3)
  have "wq_inv Q (xs(q := tl (xs q))) ys (s\<lparr>sy_mem := m\<rparr>)" by (simp add: running_of_def)
  from inv_goto [OF this, of Scanning q] fetch_nothing show ?thesis by (auto simp: running_of_def)
next
  case (fetch_stop q m)
  from inv_fetch [OF inv fetch_stop(2) _ fetch_stop(4)] fetch_stop(3)
  have "wq_inv Q (xs(q := tl (xs q))) ys (s\<lparr>sy_mem := m\<rparr>)" by (simp add: running_of_def)
  from inv_goto [OF this, of Exited q] fetch_stop show ?thesis by (auto simp: running_of_def)
next
  case (fetch_work q w m)
  from inv_fetch [OF inv fetch_work(2) _ fetch_work(4)] fetch_work(1,3)
  show ?thesis by (auto simp: running_of_def)
next
  case (finish q w)
  with inv_finish [OF inv] show ?thesis by blast
qed

lemma inv_steps:
  assumes "(wq_step S Q)\<^sup>*\<^sup>* s s'" "wq_inv Q xs ys s"
  shows "\<exists>xs' ys'. wq_inv Q xs' ys' s'"
  using assms by (induction rule: rtranclp_induct) (auto dest: inv_step)

definition sys_start :: "'s wq_mem \<Rightarrow> 's wq_sys" where
  "sys_start m = \<lparr>sy_mem = m, sy_pc = \<lambda>_. Scanning, sy_clock = 0, sy_stamp = \<lambda>_. 0, sy_ran = \<lambda>_. [],
     sy_accepted = \<lambda>_. 0, sy_fetched = \<lambda>_. 0, sy_cancelled = \<lambda>_. 0\<rparr>"

text \<open>Memory before any queue has started: no item carries a flag or a mark.\<close>

definition wq_clear :: "'s wq_mem \<Rightarrow> bool" where
  "wq_clear m \<longleftrightarrow> (\<forall>w. flags (wm_work m w) = 0) \<and> (\<forall>n. \<not> fm_queued (wm_fifo m) n)"

lemma inv_boot:
  assumes boot: "wq_boot S isr qs m0 = Some m" and clear: "wq_clear m0"
    and Q: "Q = fst ` set qs"
  shows "wq_inv Q (\<lambda>_. []) (\<lambda>_. []) (sys_start m)"
proof -
  have "wq_shape {} (\<lambda>_. []) (\<lambda>_. []) m0"
    using clear by (simp add: wq_shape_def fifo_shape_def dlists_rep_def work_ok_def wq_clear_def no_flag)
  then have m: "wq_shape Q (\<lambda>_. []) (\<lambda>_. []) m" "wm_work m = wm_work m0"
    using boot_shape [OF boot, of "{}"] clear by (simp_all add: wq_clear_def Q)
  have "current (wm_queue m q) = None" if "q \<in> Q" for q
    using work_okD(3) [OF wq_shapeD(3) [OF m(1)]] clear that
    by (cases "current (wm_queue m q)") (auto simp: m(2) wq_clear_def no_flag)
  with m clear show ?thesis
    by (simp add: wq_inv_def sys_start_def running_of_def order_ok_def counts_ok_def wq_clear_def no_flag)
qed

lemma inv_reachable:
  assumes "wq_boot S isr qs m0 = Some m" "wq_clear m0" "(wq_step S (fst ` set qs))\<^sup>*\<^sup>* (sys_start m) s"
  shows "\<exists>xs ys. wq_inv (fst ` set qs) xs ys s"
  by (rule inv_steps [OF assms(3) inv_boot [OF assms(1,2) refl]])

lemma inv_runs_alone:
  assumes "wq_inv Q xs ys s" "p \<in> Q" "q \<in> Q" "sy_pc s p = Running w" "sy_pc s q = Running w"
  shows "p = q"
proof -
  have "current (wm_queue (sy_mem s) p) = Some w" "current (wm_queue (sy_mem s) q) = Some w"
    using wq_invD(2) [OF assms(1)] assms(2-5) by (simp_all add: running_of_def)
  then show ?thesis
    using work_okD(4) [OF wq_shapeD(3) [OF wq_invD(1) [OF assms(1)], of w]] assms(2,3)
    by (metis option.inject)
qed

lemma inv_running_iff:
  assumes "wq_inv Q xs ys s"
  shows "has_flag OS_WORK_RUNNING (wm_work (sy_mem s) w) \<longleftrightarrow> (\<exists>q \<in> Q. sy_pc s q = Running w)"
proof -
  have "current (wm_queue (sy_mem s) q) = Some w \<longleftrightarrow> sy_pc s q = Running w" if "q \<in> Q" for q
    using wq_invD(2) [OF assms that] by (auto simp: running_of_def split: wpc.splits)
  then show ?thesis
    using work_okD(3) [OF wq_shapeD(3) [OF wq_invD(1) [OF assms], of w]] by blast
qed

section \<open>A concrete run\<close>

text \<open>One queue is started; an item is submitted, and the worker fetches it.\<close>

definition blank_works :: "native os_sem wq_mem" where
  "blank_works = \<lparr>wm_fifo = \<lparr>fm_heap = \<lambda>_. null_dnode, fm_fifo = \<lambda>_. os_fifo_zero ref_sems, fm_queued = \<lambda>_. False\<rparr>,
     wm_delayed = \<lambda>_. null_dnode, wm_work = \<lambda>_. os_work_zero ref_sems,
     wm_dwork = \<lambda>_. \<lparr>dw_queue = None, deadline = 0\<rparr>, wm_queue = \<lambda>_. os_work_queue_zero\<rparr>"

lemma blank_works_clear: "wq_clear blank_works"
  by (simp add: wq_clear_def blank_works_def os_work_zero_def)

lemma demo_boot:
  "\<exists>m. wq_boot ref_sems False [(0, 1, None)] blank_works = Some m
     \<and> wm_queue m 0 = os_work_queue_zero\<lparr>started := True\<rparr> \<and> fifo_count 0 m = 0
     \<and> wm_work m = (\<lambda>_. os_work_zero ref_sems)
     \<and> ff_items (fm_fifo (wm_fifo m) 0) = \<lparr>sem_handle = Some (0, 65535), sem_limit = 65535\<rparr>"
  by (simp add: os_work_queue_start_def os_fifo_init_def fifo_zero_at_def os_fifo_zero_def ref_sem_init
      UINT16_MAX_def blank_works_def os_work_queue_zero_def fifo_count_def os_fifo_node_init_def
      set_queued_def upd_fifo_def upd_queue_def)

lemma demo_run:
  "\<exists>m s. wq_boot ref_sems False [(0, 1, None)] blank_works = Some m
     \<and> (wq_step ref_sems (fst ` set [(0, 1 :: size_t, None :: bool option)]))\<^sup>*\<^sup>* (sys_start m) s
     \<and> sy_accepted s (Work 0) = 1 \<and> sy_pc s 0 = Running (Work 0)"
proof -
  obtain m where m: "wq_boot ref_sems False [(0, 1, None)] blank_works = Some m"
      "wm_queue m 0 = os_work_queue_zero\<lparr>started := True\<rparr>" "fifo_count 0 m = 0"
      "wm_work m = (\<lambda>_. os_work_zero ref_sems)"
    using demo_boot by blast
  have inv: "wq_inv {0} (\<lambda>_. []) (\<lambda>_. []) (sys_start m)"
    by (rule inv_boot [OF m(1) blank_works_clear]) simp
  let ?cx = "\<lparr>cx_isr = False, cx_worker = None\<rparr>"
  have "submit_accepts ?cx 0 (Work 0) m"
    by (simp add: submit_accepts_def m os_work_queue_zero_def os_work_zero_def no_flag UINT16_MAX_def)
  then obtain m1 where m1: "submit_section ?cx 0 (Work 0) m = Some (1, m1)"
      "wq_shape {0} ((\<lambda>_. [])(0 := [] @ [WorkNode (Work 0)])) (\<lambda>_. []) m1"
    using submit_section_accepts [of "{0}" "\<lambda>_. []" "\<lambda>_. []" m 0 ?cx "Work 0"] wq_invD(1) [OF inv]
    by (auto simp: sys_start_def m(4) os_work_zero_def no_flag)
  let ?s = "note_submit 1 (Work 0) ((sys_start m)\<lparr>sy_mem := m1\<rparr>)"
  have step1: "wq_step ref_sems {0} (sys_start m) ?s"
    by (rule wq_step.client_submit [of 0 _ ?cx]) (use m1(1) in \<open>simp_all add: sys_start_def\<close>)
  have "promote_section 0 0 m1 = Some ((None, OS_WAIT_FOREVER, False), m1)"
    using promote_section_eq [OF m1(2), of 0 0] by simp
  then have step2: "wq_step ref_sems {0} ?s (goto 0 Taking ?s)"
    using wq_step.scan_none [of 0 "{0}" ?s 0 OS_WAIT_FOREVER False m1 ref_sems]
    by (simp add: note_submit_def sys_start_def)
  obtain m2 where "worker_fetch_section 0 m1 = Some (FetchWork (Work 0), m2)"
    using worker_fetch_head [OF m1(2), of 0 "WorkNode (Work 0)" "[]"] by auto
  then have step3: "wq_step ref_sems {0} (goto 0 Taking ?s)
      (goto 0 (Running (Work 0)) (note_fetch 0 (Work 0) ((goto 0 Taking ?s)\<lparr>sy_mem := m2\<rparr>)))"
    by (intro wq_step.fetch_work) (simp_all add: goto_def note_submit_def)
  show ?thesis
    using m(1) step1 step2 step3
    by (intro exI [of _ m] exI [of _ "goto 0 (Running (Work 0))
        (note_fetch 0 (Work 0) ((goto 0 Taking ?s)\<lparr>sy_mem := m2\<rparr>))"] conjI)
      (simp_all add: goto_def note_fetch_def note_submit_def sys_start_def)
qed

section \<open>Properties\<close>

text \<open>C5: The flags of a work item say exactly what the queues hold, in every state that
  interleaved clients and workers can reach: QUEUED when its node is on the FIFO of exactly one
  queue, the one it names; RUNNING when exactly one worker is between its two critical sections
  with it; DELAYED when it is on a delayed list; CANCELING only while it runs. The lists are
  well formed and the counts are their lengths.\<close>

theorem work_flags_exact:
  assumes "wq_boot S isr qs m0 = Some m" "wq_clear m0" "(wq_step S (fst ` set qs))\<^sup>*\<^sup>* (sys_start m) s"
  shows "\<exists>xs ys. dlists_rep FifoList FifoNode (fst ` set qs) xs (fm_heap (wm_fifo (sy_mem s)))
     \<and> dlists_rep DelayedList DelayNode (fst ` set qs) ys (wm_delayed (sy_mem s))
     \<and> (\<forall>q \<in> fst ` set qs. unat (fifo_count q (sy_mem s)) = length (xs q))
     \<and> (\<forall>w. (has_flag OS_WORK_QUEUED (wm_work (sy_mem s) w) \<longleftrightarrow> (\<exists>q \<in> fst ` set qs. WorkNode w \<in> set (xs q)))
          \<and> (\<forall>q \<in> fst ` set qs. WorkNode w \<in> set (xs q) \<longrightarrow> wk_queue (wm_work (sy_mem s) w) = Some q)
          \<and> (has_flag OS_WORK_RUNNING (wm_work (sy_mem s) w) \<longleftrightarrow> (\<exists>q \<in> fst ` set qs. sy_pc s q = Running w))
          \<and> (has_flag OS_WORK_CANCELING (wm_work (sy_mem s) w) \<longrightarrow> has_flag OS_WORK_RUNNING (wm_work (sy_mem s) w))
          \<and> (has_flag OS_WORK_DELAYED (wm_work (sy_mem s) w) \<longleftrightarrow>
               (\<exists>q \<in> fst ` set qs. \<exists>d \<in> set (ys q). w = DWork d)))"
proof -
  obtain xs ys where inv: "wq_inv (fst ` set qs) xs ys s" using inv_reachable [OF assms] by blast
  note shape = wq_invD(1) [OF inv]
  show ?thesis
  proof (intro exI [of _ xs] exI [of _ ys] conjI allI ballI)
    show "dlists_rep FifoList FifoNode (fst ` set qs) xs (fm_heap (wm_fifo (sy_mem s)))"
      using wq_shapeD(1) [OF shape] by (simp add: fifo_shape_def)
    show "dlists_rep DelayedList DelayNode (fst ` set qs) ys (wm_delayed (sy_mem s))"
      by (rule wq_shapeD(2) [OF shape])
    show "unat (fifo_count q (sy_mem s)) = length (xs q)" if "q \<in> fst ` set qs" for q
      by (rule fifo_count_length [OF shape that])
    fix w
    note ok = work_okD [OF wq_shapeD(3) [OF shape, of w]]
    show "has_flag OS_WORK_QUEUED (wm_work (sy_mem s) w) \<longleftrightarrow> (\<exists>q \<in> fst ` set qs. WorkNode w \<in> set (xs q))"
      by (rule ok(1))
    show "WorkNode w \<in> set (xs q) \<longrightarrow> wk_queue (wm_work (sy_mem s) w) = Some q" if "q \<in> fst ` set qs" for q
      using ok(2) [OF that] by (rule impI)
    show "has_flag OS_WORK_RUNNING (wm_work (sy_mem s) w) \<longleftrightarrow> (\<exists>q \<in> fst ` set qs. sy_pc s q = Running w)"
      by (rule inv_running_iff [OF inv])
    show "has_flag OS_WORK_CANCELING (wm_work (sy_mem s) w) \<longrightarrow> has_flag OS_WORK_RUNNING (wm_work (sy_mem s) w)"
      using ok(5) by (rule impI)
    show "has_flag OS_WORK_DELAYED (wm_work (sy_mem s) w) \<longleftrightarrow>
        (\<exists>q \<in> fst ` set qs. \<exists>d \<in> set (ys q). w = DWork d)"
      by (rule ok(6))
  qed
qed

theorem work_flags_exact_witness:
  "\<exists>s :: native os_sem wq_sys. sy_pc s 0 = Running (Work 0) \<and> has_flag OS_WORK_RUNNING (wm_work (sy_mem s) (Work 0))
     \<and> (\<exists>xs. dlists_rep FifoList FifoNode {0} xs (fm_heap (wm_fifo (sy_mem s))))"
proof -
  obtain m s where run: "wq_boot ref_sems False [(0, 1, None)] blank_works = Some m"
      "(wq_step ref_sems (fst ` set [(0, 1 :: size_t, None :: bool option)]))\<^sup>*\<^sup>* (sys_start m) s"
      "sy_pc s 0 = Running (Work 0)"
    using demo_run by blast
  obtain xs where "dlists_rep FifoList FifoNode {0} xs (fm_heap (wm_fifo (sy_mem s)))"
      "has_flag OS_WORK_RUNNING (wm_work (sy_mem s) (Work 0)) \<longleftrightarrow> (\<exists>q \<in> {0}. sy_pc s q = Running (Work 0))"
    using work_flags_exact [OF run(1) blank_works_clear run(2)] by auto
  with run(3) show ?thesis by blast
qed

text \<open>C4: No item is run by two workers at a time, every accepted submission is fetched once,
  cancelled once or still queued, and a worker runs what it fetches in the order of submission.\<close>

theorem work_runs_once_in_order:
  assumes "wq_boot S isr qs m0 = Some m" "wq_clear m0" "(wq_step S (fst ` set qs))\<^sup>*\<^sup>* (sys_start m) s"
  shows "(\<forall>p \<in> fst ` set qs. \<forall>q \<in> fst ` set qs. \<forall>w. sy_pc s p = Running w \<longrightarrow> sy_pc s q = Running w \<longrightarrow> p = q)
     \<and> (\<forall>w. sy_accepted s w = sy_fetched s w + sy_cancelled s w
            + (if has_flag OS_WORK_QUEUED (wm_work (sy_mem s) w) then 1 else 0))
     \<and> (\<forall>q \<in> fst ` set qs. sorted_wrt (<) (sy_ran s q))"
proof -
  obtain xs ys where inv: "wq_inv (fst ` set qs) xs ys s" using inv_reachable [OF assms] by blast
  show ?thesis
    using inv_runs_alone [OF inv] wq_invD(3,4) [OF inv]
    by (simp add: counts_ok_def order_ok_def sorted_wrt_append)
qed

theorem work_runs_once_in_order_witness:
  "\<exists>s :: native os_sem wq_sys. sy_accepted s (Work 0) = 1 \<and> sy_fetched s (Work 0) + sy_cancelled s (Work 0)
     + (if has_flag OS_WORK_QUEUED (wm_work (sy_mem s) (Work 0)) then 1 else 0) = 1"
proof -
  obtain m s where run: "wq_boot ref_sems False [(0, 1, None)] blank_works = Some m"
      "(wq_step ref_sems (fst ` set [(0, 1 :: size_t, None :: bool option)]))\<^sup>*\<^sup>* (sys_start m) s"
      "sy_accepted s (Work 0) = 1"
    using demo_run by blast
  from work_runs_once_in_order [OF run(1) blank_works_clear run(2)] run(3) show ?thesis by metis
qed

text \<open>C6: In every reachable state every critical section of the module is defined: none follows
  a stale pointer, unlinks an item that is on no list or dequeues a foreign stop node.\<close>

theorem work_sections_defined:
  assumes "wq_boot S isr qs m0 = Some m" "wq_clear m0" "(wq_step S (fst ` set qs))\<^sup>*\<^sup>* (sys_start m) s"
  shows "(\<forall>q \<in> fst ` set qs. \<forall>cx w. submit_section cx q w (sy_mem s) \<noteq> None)
     \<and> (\<forall>w. cancel_section w (sy_mem s) \<noteq> None)
     \<and> (\<forall>q \<in> fst ` set qs. \<forall>cx now d delay re. schedule_section cx now q d delay re (sy_mem s) \<noteq> None)
     \<and> (\<forall>d. undelay_section d (sy_mem s) \<noteq> None)
     \<and> (\<forall>q \<in> fst ` set qs. stop_section q (sy_mem s) \<noteq> None)
     \<and> (\<forall>q \<in> fst ` set qs. \<forall>now. promote_section q now (sy_mem s) \<noteq> None)
     \<and> (\<forall>q \<in> fst ` set qs. sy_pc s q = Taking \<longrightarrow> worker_fetch_section q (sy_mem s) \<noteq> None)"
proof -
  obtain xs ys where inv: "wq_inv (fst ` set qs) xs ys s" using inv_reachable [OF assms] by blast
  note shape = wq_invD(1) [OF inv]
  show ?thesis
  proof (intro conjI ballI allI impI)
    show "submit_section cx q w (sy_mem s) \<noteq> None" if "q \<in> fst ` set qs" for cx q w
      using submit_section_accepts [OF shape that, of cx w] submit_section_refuses [of cx q w "sy_mem s"]
      by (cases "submit_accepts cx q w (sy_mem s)") auto
    show "worker_fetch_section q (sy_mem s) \<noteq> None" if "q \<in> fst ` set qs" "sy_pc s q = Taking" for q
      using worker_fetch_shape [OF shape that(1)] wq_invD(2) [OF inv that(1)] that(2)
      by (auto simp: running_of_def)
    show "cancel_section w (sy_mem s) \<noteq> None" for w
      using cancel_section_shape [OF shape, of w] by (elim exE conjE) simp
    show "schedule_section cx now q d delay re (sy_mem s) \<noteq> None" if "q \<in> fst ` set qs" for cx now q d delay re
      using schedule_section_shape [OF shape that, of cx now d delay re] by (elim exE conjE) simp
    show "undelay_section d (sy_mem s) \<noteq> None" for d
      using undelay_section_shape [OF shape, of d] by (elim exE conjE) simp
    show "stop_section q (sy_mem s) \<noteq> None" if "q \<in> fst ` set qs" for q
      using stop_section_shape [OF shape that] by (elim exE conjE) simp
    show "promote_section q now (sy_mem s) \<noteq> None" if "q \<in> fst ` set qs" for q now
      using promote_section_shape [OF shape that, of now] by (elim exE conjE) simp
  qed
qed

theorem work_sections_defined_witness:
  "\<exists>s :: native os_sem wq_sys. sy_pc s 0 = Running (Work 0) \<and> cancel_section (Work 0) (sy_mem s) \<noteq> None
     \<and> stop_section 0 (sy_mem s) \<noteq> None"
proof -
  obtain m s where run: "wq_boot ref_sems False [(0, 1, None)] blank_works = Some m"
      "(wq_step ref_sems (fst ` set [(0, 1 :: size_t, None :: bool option)]))\<^sup>*\<^sup>* (sys_start m) s"
      "sy_pc s 0 = Running (Work 0)"
    using demo_run by blast
  from work_sections_defined [OF run(1) blank_works_clear run(2)] run(3) show ?thesis by auto
qed

end
