(* ===== verification/Work_Calls.thy ===== *)
theory Work_Calls
  imports Work_Interleaving
begin

text \<open>
  Whole calls of \<open>work_queue.c\<close>: deadlines, the worker's promotion loop, and what calls that
  overlap or follow each other do to the promises in the header.
\<close>

section \<open>Deadlines\<close>

lemma deadline_remaining_int:
  "os_work_deadline_remaining dl now = (let r = sint (dl - now) in if r > 0 then word_of_int r else 0)"
  by (simp add: os_work_deadline_remaining_def)

lemma deadline_remaining_of:
  assumes "- (2 ^ 31) \<le> d" "d < 2 ^ 31" "dl - now = (word_of_int d :: u32)"
  shows "unat (os_work_deadline_remaining dl now) = nat d"
proof -
  have "sint (dl - now) = d" by (rule sint_of_diff [OF assms])
  moreover have "unat (word_of_int d :: u32) = nat d" if "d > 0"
    using that assms(2) by (simp add: unat_eq_nat_uint uint_word_of_int)
  ultimately show ?thesis by (simp add: deadline_remaining_int)
qed

lemma deadline_remaining_small: "unat (os_work_deadline_remaining dl now) < 2 ^ 31"
proof -
  have "sint (dl - now) < 2 ^ 31" using sint_lt [of "dl - now"] by simp
  moreover have "- (2 ^ 31) \<le> sint (dl - now)" using sint_ge [of "dl - now"] by simp
  ultimately show ?thesis using deadline_remaining_of [of "sint (dl - now)" dl now] by simp
qed

text \<open>For every delay the API accepts, the time remaining at \<open>e\<close> ticks after scheduling is
  exact across wraps of the tick counter, as long as the worker looks within \<open>2 ^ 31\<close> ticks of
  the deadline; an item later than that looks pending again.\<close>

theorem deadline_remaining_exact:
  assumes "delay \<le> INT32_MAX" "e < unat delay + 2 ^ 32"
  shows "unat (os_work_deadline_remaining (start + delay) (start + of_nat e))
           = (if e \<le> unat delay + 2 ^ 31 then unat delay - e else unat delay + 2 ^ 32 - e)"
proof -
  obtain n where n: "n = unat delay" by simp
  have small: "n < 2 ^ 31" using assms(1) by (simp add: n word_le_nat_alt INT32_MAX_def)
  have lim: "e < n + 2 ^ 32" using assms(2) by (simp add: n)
  have diff: "(start + delay) - (start + of_nat e) = word_of_int (int n - int e)"
    by (simp add: n)
  show ?thesis
    unfolding n [symmetric]
  proof (cases "e \<le> n + 2 ^ 31")
    case True
    then have "unat (os_work_deadline_remaining (start + delay) (start + of_nat e)) = nat (int n - int e)"
      using small by (intro deadline_remaining_of [OF _ _ diff]) simp_all
    with True show "unat (os_work_deadline_remaining (start + delay) (start + of_nat e))
        = (if e \<le> n + 2 ^ 31 then n - e else n + 2 ^ 32 - e)" by simp
  next
    case False
    have "(word_of_int (int n - int e) :: u32) = word_of_int (int n - int e + 2 ^ 32)"
      by (simp add: word_of_int_eq_iff take_bit_eq_mod)
    then have "unat (os_work_deadline_remaining (start + delay) (start + of_nat e)) = nat (int n - int e + 2 ^ 32)"
      using False lim diff by (intro deadline_remaining_of) simp_all
    with False lim show "unat (os_work_deadline_remaining (start + delay) (start + of_nat e))
        = (if e \<le> n + 2 ^ 31 then n - e else n + 2 ^ 32 - e)" by simp
  qed
qed

theorem deadline_remaining_exact_witness:
  "unat (os_work_deadline_remaining (0xFFFFFFF0 + 0x20) (0xFFFFFFF0 + of_nat 0x18)) = 8"
  using deadline_remaining_exact [where delay = "0x20" and e = "0x18" and start = "0xFFFFFFF0"] by (simp add: INT32_MAX_def)

section \<open>The promotion loop\<close>

lemma unat_bounded_u32: "unat (r :: u32) < 2 ^ LENGTH(32)"
  by (rule unsigned_less)

lemma nearer_min: "nearer r t = min r t"
proof -
  have "unat r < 2 ^ 32" using unat_bounded_u32 [of r] by simp
  then have "r \<le> OS_WAIT_FOREVER" by (simp add: OS_WAIT_FOREVER_def word_le_nat_alt)
  then show ?thesis by (auto simp: nearer_def min_def)
qed

lemma fold_nearer:
  "fold nearer rs t \<le> t \<and> (\<forall>r \<in> set rs. fold nearer rs t \<le> r) \<and> (fold nearer rs t = t \<or> fold nearer rs t \<in> set rs)"
proof (induction rs arbitrary: t)
  case Nil
  then show ?case by simp
next
  case (Cons r rs)
  from Cons [of "nearer r t"] show ?case
    by (auto simp: nearer_min min_def split: if_splits)
qed

lemma remaining_finite: "remaining_of m now d < OS_WAIT_FOREVER"
  using deadline_remaining_small [of "deadline (wm_dwork m d)" now]
  by (simp add: remaining_of_def OS_WAIT_FOREVER_def word_less_nat_alt)

lemma fold_nearer_forever:
  "fold nearer (map (remaining_of m now) ds) OS_WAIT_FOREVER = OS_WAIT_FOREVER \<longleftrightarrow> ds = []"
proof (cases ds)
  case (Cons d ds')
  then have "fold nearer (map (remaining_of m now) ds) OS_WAIT_FOREVER \<le> remaining_of m now d"
    using fold_nearer [of "map (remaining_of m now) ds" OS_WAIT_FOREVER] by simp
  also have "\<dots> < OS_WAIT_FOREVER" by (rule remaining_finite)
  finally show ?thesis using Cons by auto
qed simp

lemma submit_call_shape:
  assumes shape: "wq_shape Q xs ys m" and q: "q \<in> Q"
  shows "\<exists>r m' xs'. os_work_submit_to_queue S cx (Some q) (Some w) m = Some (r, m') \<and> wq_shape Q xs' ys m'
     \<and> wm_dwork m' = wm_dwork m"
proof -
  consider "magic (wm_work m w) \<noteq> OS_WORK_MAGIC \<or> handler (wm_work m w) = None
              \<or> \<not> sync_initialized (wm_work m w) \<or> \<not> started (wm_queue m q)"
    | (go) "\<not> (magic (wm_work m w) \<noteq> OS_WORK_MAGIC \<or> handler (wm_work m w) = None
              \<or> \<not> sync_initialized (wm_work m w))" "started (wm_queue m q)" by blast
  then show ?thesis
  proof cases
    case 1
    with shape show ?thesis by (auto simp: os_work_submit_to_queue_def Let_def)
  next
    case go
    have call: "os_work_submit_to_queue S cx (Some q) (Some w) m = do {
        (r, m) \<leftarrow> submit_section cx q w m;
        Some (r, if r > 0 then give_items S (cx_isr cx) q m else m) }"
      using go by (auto simp: os_work_submit_to_queue_def Let_def)
    show ?thesis
    proof (cases "submit_accepts cx q w m")
      case True
      from submit_section_accepts [OF shape q True] obtain m1 where m1:
        "submit_section cx q w m = Some (if has_flag OS_WORK_RUNNING (wm_work m w) then 2 else 1, m1)"
        "wq_shape Q (xs(q := xs q @ [WorkNode w])) ys m1" "wm_dwork m1 = wm_dwork m" by blast
      with wq_shape_tokens(1) [OF m1(2)] show ?thesis
        by (auto simp: call give_items_def split: if_splits)
    next
      case False
      from submit_section_refuses [OF False] obtain r where "r \<le> 0" "submit_section cx q w m = Some (r, m)"
        by blast
      with shape show ?thesis by (auto simp: call)
    qed
  qed
qed

text \<open>What a promotion pass leaves: the items that are not due, and the time to the nearest.\<close>

definition promoted :: "nat \<Rightarrow> u32 \<Rightarrow> u32 \<Rightarrow> (nat \<Rightarrow> nat list) \<Rightarrow> 's wq_mem \<Rightarrow> bool" where
  "promoted q now t ys m \<longleftrightarrow>
     (\<forall>d \<in> set (ys q). remaining_of m now d \<noteq> 0 \<and> t \<le> remaining_of m now d)
     \<and> (if ys q = [] then t = OS_WAIT_FOREVER else t \<in> remaining_of m now ` set (ys q))"

lemma promote_loop:
  assumes "wq_shape Q xs ys m" "q \<in> Q"
  shows "\<exists>t m' xs' ys' n. os_work_promote_delayed S cx q tick k m = Some (t, m') \<and> wq_shape Q xs' ys' m'
     \<and> n + length (ys' q) = length (ys q) \<and> set (ys' q) \<subseteq> set (ys q) \<and> promoted q (tick (k + n)) t ys' m'"
  using assms(1)
proof (induction "length (ys q)" arbitrary: k xs ys m rule: less_induct)
  case less
  obtain p t b m1 ys1 where p: "promote_section q (tick k) m = Some ((p, t, b), m1)" "wq_shape Q xs ys1 m1"
      "case p of
          None \<Rightarrow> m1 = m \<and> (\<forall>d \<in> set (ys q). remaining_of m (tick k) d \<noteq> 0)
            \<and> t = fold nearer (map (remaining_of m (tick k)) (ys q)) OS_WAIT_FOREVER
        | Some d \<Rightarrow> d \<in> set (ys q) \<and> remaining_of m (tick k) d = 0 \<and> ys1 = ys(q := remove1 d (ys q))
            \<and> b = (plugged (wm_queue m q) \<or> stopping (wm_queue m q))"
    using promote_section_shape [OF less.prems assms(2), of "tick k"] by blast
  show ?case
  proof (cases p)
    case None
    then have "os_work_promote_delayed S cx q tick k m = Some (t, m1)"
      using p(1) by (simp add: os_work_promote_delayed.simps [of S cx q tick k m])
    moreover have "promoted q (tick (k + 0)) t ys m"
      using None p(3) fold_nearer [of "map (remaining_of m (tick k)) (ys q)" OS_WAIT_FOREVER]
        fold_nearer_forever [of m "tick k" "ys q"]
      by (auto simp: promoted_def)
    ultimately show ?thesis using None p(3) less.prems by (intro exI conjI) auto
  next
    case (Some d)
    then have d: "d \<in> set (ys q)" "ys1 = ys(q := remove1 d (ys q))" using p(3) by simp_all
    then have shorter: "Suc (length (ys1 q)) = length (ys q)"
      using length_pos_if_in_set [OF d(1)] by (simp add: length_remove1)
    have "\<exists>m2 xs2. os_work_promote_delayed S cx q tick k m = os_work_promote_delayed S cx q tick (Suc k) m2
        \<and> wq_shape Q xs2 ys1 m2"
    proof (cases b)
      case True
      with Some p(1) have "os_work_promote_delayed S cx q tick k m
          = os_work_promote_delayed S cx q tick (Suc k) (os_work_notify S (cx_isr cx) (DWork d) m1)"
        by (simp add: os_work_promote_delayed.simps [of S cx q tick k m])
      with wq_shape_notify [OF p(2)] show ?thesis by blast
    next
      case False
      obtain r m2 xs2 where "os_work_submit_to_queue S cx (Some q) (Some (DWork d)) m1 = Some (r, m2)"
          "wq_shape Q xs2 ys1 m2"
        using submit_call_shape [OF p(2) assms(2), of S cx "DWork d"] by blast
      with False Some p(1) show ?thesis
        by (auto simp: os_work_promote_delayed.simps [of S cx q tick k m])
    qed
    then obtain m2 xs2 where m2: "os_work_promote_delayed S cx q tick k m
        = os_work_promote_delayed S cx q tick (Suc k) m2" "wq_shape Q xs2 ys1 m2" by blast
    obtain t m' xs' ys' n where r: "os_work_promote_delayed S cx q tick (Suc k) m2 = Some (t, m')"
        "wq_shape Q xs' ys' m'" "n + length (ys' q) = length (ys1 q)" "set (ys' q) \<subseteq> set (ys1 q)"
        "promoted q (tick (Suc k + n)) t ys' m'"
      using less.hyps [OF _ m2(2), of "Suc k"] shorter by auto
    have "set (ys' q) \<subseteq> set (ys q)" using r(4) d(2) set_remove1_subset by fastforce
    with m2(1) r shorter show ?thesis
      by (intro exI [of _ t] exI [of _ m'] exI [of _ xs'] exI [of _ ys'] exI [of _ "Suc n"]) simp
  qed
qed

text \<open>A started queue with one delayed item.\<close>

lemma demo_delayed:
  "\<exists>m :: native os_sem wq_mem. wq_shape {0} (\<lambda>_. []) ((\<lambda>_. [])(0 := [5])) m"
proof -
  obtain m where m: "wq_boot ref_sems False [(0, 1, None)] blank_works = Some m"
      "wm_work m = (\<lambda>_. os_work_zero ref_sems)"
    using demo_boot by blast
  have "wq_shape {0} (\<lambda>_. []) (\<lambda>_. []) m"
    using wq_invD(1) [OF inv_boot [OF m(1) blank_works_clear refl]] by (simp add: sys_start_def)
  from delay_append_shape [OF this, of 0 5] m(2) show ?thesis
    by (auto simp: os_work_zero_def no_flag)
qed

text \<open>C21: The worker's promotion pass ends after at most one round per delayed item, whatever the
  clock does. What stays on the list was not due at the last tick it read, and the timeout it
  returns is the time to the nearest deadline, or for ever when nothing is delayed.\<close>

theorem promote_delayed_returns:
  assumes "wq_shape Q xs ys m" "q \<in> Q"
  shows "\<exists>t m' xs' ys' n. os_work_promote_delayed S cx q tick 0 m = Some (t, m') \<and> wq_shape Q xs' ys' m'
     \<and> n + length (ys' q) = length (ys q) \<and> set (ys' q) \<subseteq> set (ys q) \<and> promoted q (tick n) t ys' m'"
  using promote_loop [OF assms, of S cx tick 0] by simp

theorem promote_delayed_returns_witness:
  "\<exists>(m :: native os_sem wq_mem) t m'.
     os_work_promote_delayed ref_sems \<lparr>cx_isr = False, cx_worker = Some 0\<rparr> 0 (\<lambda>k. of_nat k) 0 m = Some (t, m')"
proof -
  obtain m :: "native os_sem wq_mem" where "wq_shape {0} (\<lambda>_. []) ((\<lambda>_. [])(0 := [5])) m"
    using demo_delayed by blast
  from promote_delayed_returns [OF this, of 0] show ?thesis by blast
qed

end
