(* ===== verification/Work_Races.thy ===== *)
theory Work_Races
  imports Work_Calls
begin

text \<open>
  Orders of calls under which \<open>work_queue.c\<close> does not keep what \<open>kernel.h\<close> promises: a flush
  that never returns, a lost wakeup, a synchronous cancel that misses an item in transit, and a
  queue that can no longer be stopped.
\<close>

section \<open>A flush that never returns\<close>

lemma await_completion_stuck:
  assumes frozen: "\<And>k m. completion_id (wm_work (env k m) w) = completion_id (wm_work m w)"
    and ne: "completion_id (wm_work m w) \<noteq> target"
  shows "await_completion S isr env w target k m = None"
proof -
  let ?P = "\<lambda>(S :: 'a sem_ops) isr (e :: nat \<Rightarrow> 'a wq_mem \<Rightarrow> 'a wq_mem) v t (k :: nat) m (y :: 'a wq_mem).
      (\<forall>k m. completion_id (wm_work (e k m) v) = completion_id (wm_work m v)) \<longrightarrow>
      completion_id (wm_work m v) = t"
  have "?P S isr e v t k m y"
    if "await_completion S isr e v t k m = Some y" for S :: "'a sem_ops" and isr e v t k m y
  proof (rule await_completion.raw_induct [where P = ?P, OF _ that])
    fix f and S :: "'a sem_ops" and isr e v t k m y
    assume IH: "\<And>S isr e v t k m y. f S isr e v t k m = Some y \<Longrightarrow> ?P S isr e v t k m y"
      and body: "(if completion_id (wm_work m v) = t then Some m
        else f S isr e v t (Suc k) (sync_wait S isr v (e k) m)) = Some y"
    show "?P S isr e v t k m y"
    proof (intro impI, rule ccontr)
      assume frz: "\<forall>k m. completion_id (wm_work (e k m) v) = completion_id (wm_work m v)"
        and ne: "completion_id (wm_work m v) \<noteq> t"
      with body have "f S isr e v t (Suc k) (sync_wait S isr v (e k) m) = Some y" by simp
      from IH [OF this] frz ne show False by (simp add: sync_wait_def)
    qed
  qed
  with assms show ?thesis by (cases "await_completion S isr env w target k m") auto
qed

lemma cancel_running_queued:
  assumes shape: "wq_shape Q xs ys m" and queued: "has_flag OS_WORK_QUEUED (wm_work m w)"
    and running: "has_flag OS_WORK_RUNNING (wm_work m w)" and r: "cancel_section w m = Some (p, m1)"
  shows "wm_work m1 w = set_flag OS_WORK_CANCELING (clear_flag OS_WORK_QUEUED (wm_work m w))"
proof -
  obtain q h m' where m': "q \<in> Q" "wk_queue (wm_work m w) = Some q"
     "sys_dlist_remove (FifoNode (WorkNode w)) (fm_heap (wm_fifo m)) = Some h"
     "m' = upd_work w (clear_flag OS_WORK_QUEUED) (upd_count q (\<lambda>c. c - 1)
            (set_node_queued (WorkNode w) False (m\<lparr>wm_fifo := (wm_fifo m)\<lparr>fm_heap := h\<rparr>\<rparr>)))"
    using cancel_dequeue [OF shape queued] by blast
  have "m1 = cancel_mark w m'"
    using r queued m'(2,3) by (simp add: cancel_section_eq m'(4))
  with running show ?thesis by (simp add: cancel_mark_def m'(4) mask_bits)
qed

text \<open>An item that has been initialised, submitted, fetched and submitted again.\<close>

lemma demo_requeued:
  "\<exists>(m :: native os_sem wq_mem) xs. wq_shape {0} xs (\<lambda>_. []) m \<and> current (wm_queue m 0) = Some (Work 0)
     \<and> has_flag OS_WORK_QUEUED (wm_work m (Work 0)) \<and> running_id (wm_work m (Work 0)) = 1
     \<and> submission_id (wm_work m (Work 0)) = 2 \<and> magic (wm_work m (Work 0)) = OS_WORK_MAGIC
     \<and> sync_initialized (wm_work m (Work 0))"
proof -
  obtain m where m: "wq_boot ref_sems False [(0, 1, None)] blank_works = Some m"
      "wm_queue m 0 = os_work_queue_zero\<lparr>started := True\<rparr>" "fifo_count 0 m = 0"
      "wm_work m = (\<lambda>_. os_work_zero ref_sems)"
    using demo_boot by blast
  have shape: "wq_shape {0} (\<lambda>_. []) (\<lambda>_. []) m"
    using wq_invD(1) [OF inv_boot [OF m(1) blank_works_clear refl]] by (simp add: sys_start_def)
  let ?m0 = "os_work_init ref_sems (Some (Work 0)) (Some 7) m"
  let ?cx = "\<lparr>cx_isr = False, cx_worker = None\<rparr>"
  have shape0: "wq_shape {0} (\<lambda>_. []) (\<lambda>_. []) ?m0"
    by (rule os_work_init_shape [OF shape]) (simp add: m(4) os_work_zero_def)
  have w0: "flags (wm_work ?m0 (Work 0)) = 0" "submission_id (wm_work ?m0 (Work 0)) = 0"
      "magic (wm_work ?m0 (Work 0)) = OS_WORK_MAGIC" "sync_initialized (wm_work ?m0 (Work 0))"
    by (simp_all add: os_work_init_def Let_def os_work_zero_def ref_sem_init)
  have c0: "fifo_count 0 ?m0 = 0" using fifo_count_length [OF shape0, of 0] by (simp add: unat_eq_0)
  have acc: "submit_accepts ?cx 0 (Work 0) ?m0"
    by (simp add: submit_accepts_def os_work_init_simps m(2) os_work_queue_zero_def no_flag w0(1) c0 UINT16_MAX_def)
  obtain m1 where m1: "wq_shape {0} ((\<lambda>_. [])(0 := [] @ [WorkNode (Work 0)])) (\<lambda>_. []) m1"
      "wm_work m1 = (wm_work ?m0)(Work 0 := set_flag OS_WORK_QUEUED ((wm_work ?m0 (Work 0))
         \<lparr>submission_id := submission_id (wm_work ?m0 (Work 0)) + 1, wk_queue := Some 0\<rparr>))"
      "wm_queue m1 = wm_queue ?m0"
    using submit_section_accepts [OF shape0 _ acc] by auto
  have idle: "current (wm_queue m1 0) = None" by (simp add: m1(3) os_work_init_simps m(2) os_work_queue_zero_def)
  obtain ma where ma: "wm_work ma = wm_work m1" "wm_queue ma = wm_queue m1"
      "worker_fetch_section 0 m1 = Some (FetchWork (Work 0), upd_queue 0 (\<lambda>x. x\<lparr>current := Some (Work 0)\<rparr>)
            (upd_work (Work 0) (\<lambda>x. let x = set_flag OS_WORK_RUNNING (clear_flag OS_WORK_QUEUED x)
                             in x\<lparr>running_id := submission_id x\<rparr>) ma))" (is "_ = Some (_, ?m2)")
    using worker_fetch_head [OF m1(1), of 0 "WorkNode (Work 0)" "[]"] by auto
  have shape2: "wq_shape {0} (((\<lambda>_. [])(0 := [] @ [WorkNode (Work 0)]))(0 := [])) (\<lambda>_. []) ?m2"
    using worker_fetch_shape [OF m1(1) _ idle] ma(3) by auto
  have acc2: "submit_accepts ?cx 0 (Work 0) ?m2"
    using fifo_count_length [OF shape2, of 0]
    by (simp add: submit_accepts_def ma(1,2) m1(2,3) os_work_init_simps m(2) os_work_queue_zero_def Let_def
        no_flag w0(1) UINT16_MAX_def mask_bits unat_eq_0)
  obtain m3 where m3: "wq_shape {0} ((\<lambda>_. [])(0 := [WorkNode (Work 0)])) (\<lambda>_. []) m3"
      "wm_work m3 = (wm_work ?m2)(Work 0 := set_flag OS_WORK_QUEUED ((wm_work ?m2 (Work 0))
         \<lparr>submission_id := submission_id (wm_work ?m2 (Work 0)) + 1, wk_queue := Some 0\<rparr>))"
      "wm_queue m3 = wm_queue ?m2"
    using submit_section_accepts [OF shape2 _ acc2] by auto
  have "submission_id (wm_work m3 (Work 0)) = 2" "running_id (wm_work m3 (Work 0)) = 1"
      "current (wm_queue m3 0) = Some (Work 0)" "has_flag OS_WORK_QUEUED (wm_work m3 (Work 0))"
      "magic (wm_work m3 (Work 0)) = OS_WORK_MAGIC" "sync_initialized (wm_work m3 (Work 0))"
    using w0 by (simp_all add: m3(2,3) ma(1,2) m1(2) Let_def mask_bits)
  with m3(1) show ?thesis by blast
qed

text \<open>When an item that runs and has been submitted again is cancelled, the worker later
  records the completion of the run, not of the submission that was cancelled. The item is then
  idle with \<open>completion_id\<close> behind \<open>submission_id\<close>, and \<open>os_work_flush\<close> never returns, whatever
  happens during its waits, as long as nobody submits or cancels the item again.\<close>

theorem flush_hangs_after_cancel:
  assumes shape: "wq_shape Q xs ys m" and q: "q \<in> Q" "current (wm_queue m q) = Some w"
    and again: "has_flag OS_WORK_QUEUED (wm_work m w)" "running_id (wm_work m w) \<noteq> submission_id (wm_work m w)"
    and init: "magic (wm_work m w) = OS_WORK_MAGIC" "sync_initialized (wm_work m w)"
    and cancel: "cancel_section w m = Some (p, m1)"
    and env: "\<And>k m. completion_id (wm_work (env k m) w) = completion_id (wm_work m w)"
  shows "\<not> has_flag OS_WORK_QUEUED (wm_work (worker_finish_section q w m1) w)
     \<and> \<not> has_flag OS_WORK_RUNNING (wm_work (worker_finish_section q w m1) w)
     \<and> os_work_flush S isr env (Some w) (Some ()) (worker_finish_section q w m1) = None"
proof -
  have running: "has_flag OS_WORK_RUNNING (wm_work m w)"
    using work_okD(3) [OF wq_shapeD(3) [OF shape]] q by blast
  let ?m = "worker_finish_section q w m1"
  have w: "wm_work ?m w = clear_flag (OS_WORK_RUNNING OR OS_WORK_CANCELING)
      (set_flag OS_WORK_CANCELING (clear_flag OS_WORK_QUEUED (wm_work m w))\<lparr>completion_id := running_id (wm_work m w)\<rparr>)"
    using cancel_running_queued [OF shape again(1) running cancel] by (simp add: worker_finish_section_def)
  have "completion_id (wm_work ?m w) \<noteq> submission_id (wm_work ?m w)"
    using again(2) by (simp add: w)
  then have "await_completion S isr env w (submission_id (wm_work ?m w)) 0 ?m = None"
    by (rule await_completion_stuck [OF env])
  then have "os_work_flush S isr env (Some w) (Some ()) ?m = None"
    using init by (simp add: os_work_flush_def w)
  then show ?thesis by (simp add: w mask_bits)
qed

theorem flush_hangs_after_cancel_witness:
  "\<exists>(m :: native os_sem wq_mem) p m1. cancel_section (Work 0) m = Some (p, m1)
     \<and> os_work_flush ref_sems False (\<lambda>_ m. m) (Some (Work 0)) (Some ())
         (worker_finish_section 0 (Work 0) m1) = None"
proof -
  obtain m :: "native os_sem wq_mem" and xs where m: "wq_shape {0} xs (\<lambda>_. []) m"
      "current (wm_queue m 0) = Some (Work 0)" "has_flag OS_WORK_QUEUED (wm_work m (Work 0))"
      "running_id (wm_work m (Work 0)) = 1" "submission_id (wm_work m (Work 0)) = 2"
      "magic (wm_work m (Work 0)) = OS_WORK_MAGIC" "sync_initialized (wm_work m (Work 0))"
    using demo_requeued by blast
  obtain p m1 where c: "cancel_section (Work 0) m = Some (p, m1)"
    using cancel_section_shape [OF m(1), of "Work 0"] by blast
  have "running_id (wm_work m (Work 0)) \<noteq> submission_id (wm_work m (Work 0))" by (simp add: m(4,5))
  from flush_hangs_after_cancel [OF m(1) _ m(2,3) this m(6,7) c, of "\<lambda>_ m. m" ref_sems False] c
  show ?thesis by blast
qed

section \<open>A wakeup lost to a cancellation\<close>

definition take_items :: "'s sem_ops \<Rightarrow> nat \<Rightarrow> u32 \<Rightarrow> 's wq_mem \<Rightarrow> 's wq_mem" where
  "take_items S q t m =
     m\<lparr>wm_fifo := upd_fifo q (\<lambda>x. x\<lparr>ff_items := snd (sem_take S False (ff_items x) t)\<rparr>) (wm_fifo m)\<rparr>"

lemma take_items_shape: "wq_shape Q xs ys m \<Longrightarrow> wq_shape Q xs ys (take_items S q t m)"
  by (rule wq_shape_cong) (auto simp: take_items_def dest: wq_shapeD(1))

abbreviation items_of :: "nat \<Rightarrow> 's wq_mem \<Rightarrow> 's" where
  "items_of q m \<equiv> ff_items (fm_fifo (wm_fifo m) q)"

lemma cancel_queued_exact:
  assumes shape: "wq_shape Q xs ys m" and q: "q \<in> Q" and node: "WorkNode w \<in> set (xs q)"
  shows "\<exists>fl m'. cancel_section w m = Some ((fl, Some q), m')
     \<and> wq_shape Q (xs(q := remove1 (WorkNode w) (xs q))) ys m'
     \<and> items_of q m' = items_of q m \<and> wm_queue m' = wm_queue m
     \<and> (\<forall>v. v \<noteq> w \<longrightarrow> wm_work m' v = wm_work m v)"
proof -
  note ok = work_okD [OF wq_shapeD(3) [OF shape, of w]]
  have queued: "has_flag OS_WORK_QUEUED (wm_work m w)" using ok(1) q node by blast
  obtain p h m' where m': "p \<in> Q" "wk_queue (wm_work m w) = Some p"
     "sys_dlist_remove (FifoNode (WorkNode w)) (fm_heap (wm_fifo m)) = Some h"
     "m' = upd_work w (clear_flag OS_WORK_QUEUED) (upd_count p (\<lambda>c. c - 1)
            (set_node_queued (WorkNode w) False (m\<lparr>wm_fifo := (wm_fifo m)\<lparr>fm_heap := h\<rparr>\<rparr>)))"
     "wq_shape Q (xs(p := remove1 (WorkNode w) (xs p))) ys m'"
    using cancel_dequeue [OF shape queued] by blast
  have p: "p = q" using ok(2) [OF q node] m'(2) by simp
  have "cancel_section w m = Some ((flags (wm_work (cancel_mark w m') w), Some q), cancel_mark w m')"
    using queued m'(2,3) p by (simp add: cancel_section_eq m'(4))
  with cancel_mark_shape [OF m'(5), of w] p show ?thesis
    by (auto simp: m'(4) cancel_mark_def set_queued_def upd_fifo_def)
qed

lemma submit_section_items:
  "submit_section cx q w m = Some (r, m') \<Longrightarrow> items_of p m' = items_of p m"
  by (auto simp: submit_section_def enqueue_node_def Let_def upd_fifo_def set_queued_def
      split: if_splits bind_splits)

text \<open>A client that can be submitted to a queue that accepts submissions.\<close>

definition ready :: "nat \<Rightarrow> work_addr \<Rightarrow> 's wq_mem \<Rightarrow> bool" where
  "ready q v m \<longleftrightarrow> magic (wm_work m v) = OS_WORK_MAGIC \<and> handler (wm_work m v) \<noteq> None
     \<and> sync_initialized (wm_work m v) \<and> flags (wm_work m v) = 0
     \<and> started (wm_queue m q) \<and> \<not> stopping (wm_queue m q) \<and> \<not> draining (wm_queue m q)
     \<and> \<not> plugged (wm_queue m q)"

lemma ready_accepts:
  "ready q v m \<Longrightarrow> fifo_count q m < UINT16_MAX \<Longrightarrow> submit_accepts cx q v m"
  by (simp add: ready_def submit_accepts_def no_flag)

lemma ready_submit:
  assumes shape: "wq_shape Q xs ys m" and q: "q \<in> Q" and v: "ready q v m" and room: "length (xs q) < 65535"
  shows "\<exists>m'. os_work_submit_to_queue S cx (Some q) (Some v) m = Some (1, give_items S (cx_isr cx) q m')
     \<and> wq_shape Q (xs(q := xs q @ [WorkNode v])) ys m' \<and> items_of q m' = items_of q m
     \<and> (\<forall>u. u \<noteq> v \<longrightarrow> wm_work m' u = wm_work m u) \<and> wm_queue m' = wm_queue m"
proof -
  have "fifo_count q m < UINT16_MAX"
    using fifo_count_length [OF shape q] room by (simp add: word_less_nat_alt UINT16_MAX_def)
  from submit_section_accepts [OF shape q ready_accepts [OF v this], of cx] v
  obtain m' where m': "submit_section cx q v m = Some (1, m')" "wq_shape Q (xs(q := xs q @ [WorkNode v])) ys m'"
      "\<forall>u. u \<noteq> v \<longrightarrow> wm_work m' u = wm_work m u" "wm_queue m' = wm_queue m"
    by (auto simp: ready_def no_flag)
  have "os_work_submit_to_queue S cx (Some q) (Some v) m = Some (1, give_items S (cx_isr cx) q m')"
    using v m'(1) by (auto simp: os_work_submit_to_queue_def ready_def Let_def)
  with m' submit_section_items [OF m'(1)] show ?thesis by blast
qed

lemma ready_cong:
  "ready q v m \<Longrightarrow> wm_work m' v = wm_work m v \<Longrightarrow> wm_queue m' q = wm_queue m q \<Longrightarrow> ready q v m'"
  by (simp add: ready_def)

context os_sem_contract begin

lemma wakeup_lost:
  assumes shape: "wq_shape Q xs ys m" and q: "q \<in> Q" "xs q = [WorkNode w]"
    and token: "live (items_of q m)" "cnt (items_of q m) = 1" and v: "v \<noteq> w" "ready q v m"
  shows "\<exists>fl m2 m4. fst (sem_take S False (items_of q m) t) = 0
     \<and> cancel_section w (take_items S q t m) = Some ((fl, Some q), m2)
     \<and> worker_fetch_section q m2 = Some (FetchNothing, m2)
     \<and> os_work_submit_to_queue S cx (Some q) (Some v) m2 = Some (1, m4)
     \<and> wq_shape Q (xs(q := [WorkNode v])) ys (trytake_items S isr q m4)
     \<and> cnt (items_of q (trytake_items S isr q m4)) = 0"
proof -
  let ?m1 = "take_items S q t m"
  obtain s1 where s1: "sem_take S False (items_of q m) t = (0, s1)" "live s1" "cnt s1 = 0" "lim s1 = lim (items_of q m)"
    using take_token [OF token(1), of False t] token(2) by (auto simp: may_wait_def)
  have lim: "0 < lim s1" using cnt_le_lim [OF token(1)] token(2) s1(4) by simp
  have shape1: "wq_shape Q xs ys ?m1" by (rule take_items_shape [OF shape])
  have m1: "items_of q ?m1 = s1" "wm_work ?m1 = wm_work m" "wm_queue ?m1 = wm_queue m"
    using s1(1) by (simp_all add: take_items_def upd_fifo_def)
  obtain fl m2 where m2: "cancel_section w ?m1 = Some ((fl, Some q), m2)"
      "wq_shape Q (xs(q := remove1 (WorkNode w) (xs q))) ys m2" "items_of q m2 = s1" "wm_queue m2 = wm_queue m"
      "wm_work m2 v = wm_work m v"
    using cancel_queued_exact [OF shape1 q(1), of w] q(2) m1 v(1) by auto
  have shape2: "wq_shape Q (xs(q := [])) ys m2" using m2(2) q(2) by simp
  have fetch: "worker_fetch_section q m2 = Some (FetchNothing, m2)"
    by (rule worker_fetch_empty [OF shape2 q(1)]) simp
  have "ready q v m2" by (rule ready_cong [OF v(2) m2(5)]) (simp add: m2(4))
  then obtain m3 where m3: "os_work_submit_to_queue S cx (Some q) (Some v) m2 = Some (1, give_items S (cx_isr cx) q m3)"
      "wq_shape Q (xs(q := [WorkNode v])) ys m3" "items_of q m3 = s1"
    using ready_submit [OF shape2 q(1), of v S cx] m2(3) by auto
  let ?m4 = "give_items S (cx_isr cx) q m3"
  have i4: "items_of q ?m4 = sem_give S (cx_isr cx) s1"
    by (simp add: give_items_def fifo_give_def upd_fifo_def m3(3))
  have "live (items_of q ?m4)" "cnt (items_of q ?m4) = 1"
    using give_below [OF s1(2), of "cx_isr cx"] lim s1(3) i4 by simp_all
  then have "cnt (items_of q (trytake_items S isr q ?m4)) = 0"
    using trytake_token [of "items_of q ?m4" isr] by (auto simp: trytake_items_def upd_fifo_def)
  moreover have "wq_shape Q (xs(q := [WorkNode v])) ys (trytake_items S isr q ?m4)"
    by (intro wq_shape_tokens m3(2))
  ultimately show ?thesis using s1(1) m2(1) fetch m3(1) by auto
qed

end

text \<open>\<open>os_work_cancel\<close> gives its token back with a try outside the critical section. Between
  the two, the worker can wake with the token, find the FIFO empty and go on; a submission then
  adds an item with a token, and the late try takes that token. The new item waits on the FIFO
  with no token left to wake the worker.\<close>

theorem cancel_loses_wakeup:
  assumes contract: "os_sem_contract S live dead cnt lim"
    and "wq_shape Q xs ys m" "q \<in> Q" "xs q = [WorkNode w]"
    and "live (items_of q m)" "cnt (items_of q m) = 1" "v \<noteq> w" "ready q v m"
  shows "\<exists>fl m2 m4. fst (sem_take S False (items_of q m) t) = 0
     \<and> cancel_section w (take_items S q t m) = Some ((fl, Some q), m2)
     \<and> worker_fetch_section q m2 = Some (FetchNothing, m2)
     \<and> os_work_submit_to_queue S cx (Some q) (Some v) m2 = Some (1, m4)
     \<and> wq_shape Q (xs(q := [WorkNode v])) ys (trytake_items S isr q m4)
     \<and> cnt (items_of q (trytake_items S isr q m4)) = 0"
  by (rule os_sem_contract.wakeup_lost [OF assms])

lemma demo_ready:
  "\<exists>m :: native os_sem wq_mem. wq_shape {0} (\<lambda>_. []) (\<lambda>_. []) m \<and> ready 0 (Work 0) m \<and> ready 0 (Work 2) m
     \<and> sem_live native_ok (items_of 0 m) \<and> sem_read native_cnt (items_of 0 m) = 0
     \<and> sem_read native_max (items_of 0 m) = 65535"
proof -
  obtain m where m: "wq_boot ref_sems False [(0, 1, None)] blank_works = Some m"
      "wm_queue m 0 = os_work_queue_zero\<lparr>started := True\<rparr>"
      "wm_work m = (\<lambda>_. os_work_zero ref_sems)"
      "items_of 0 m = \<lparr>sem_handle = Some (0, 65535), sem_limit = 65535\<rparr>"
    using demo_boot by blast
  have shape: "wq_shape {0} (\<lambda>_. []) (\<lambda>_. []) m"
    using wq_invD(1) [OF inv_boot [OF m(1) blank_works_clear refl]] by (simp add: sys_start_def)
  let ?i = "os_work_init ref_sems (Some (Work 0)) (Some 7)"
  let ?j = "os_work_init ref_sems (Some (Work 2)) (Some 8)"
  have "wq_shape {0} (\<lambda>_. []) (\<lambda>_. []) (?j (?i m))"
    by (intro os_work_init_shape shape) (simp_all add: os_work_init_simps m(3) os_work_zero_def)
  moreover have "ready 0 (Work 0) (?j (?i m))" "ready 0 (Work 2) (?j (?i m))"
    by (simp_all add: ready_def os_work_init_def Let_def os_work_zero_def ref_sem_init m(2) os_work_queue_zero_def)
  moreover have "items_of 0 (?j (?i m)) = \<lparr>sem_handle = Some (0, 65535), sem_limit = 65535\<rparr>"
    by (simp add: os_work_init_simps os_fifo_node_init_def set_queued_def m(4))
  moreover have "sem_init ref_sems (sem_zero ref_sems) 0 65535 = (0, \<lparr>sem_handle = Some (0, 65535), sem_limit = 65535\<rparr>)"
    by (simp add: ref_sem_init)
  ultimately show ?thesis
    using os_sem_contract.init_ok [OF ref_sems_contract] by (intro exI [of _ "?j (?i m)"]) fastforce
qed

theorem cancel_loses_wakeup_witness:
  "\<exists>(m :: native os_sem wq_mem) m4. wq_shape {0} ((\<lambda>_. [])(0 := [WorkNode (Work 2)])) (\<lambda>_. [])
       (trytake_items ref_sems False 0 m4)
     \<and> sem_read native_cnt (items_of 0 (trytake_items ref_sems False 0 m4)) = 0"
proof -
  obtain m0 :: "native os_sem wq_mem" where m0: "wq_shape {0} (\<lambda>_. []) (\<lambda>_. []) m0"
      "ready 0 (Work 0) m0" "ready 0 (Work 2) m0"
      "sem_live native_ok (items_of 0 m0)" "sem_read native_cnt (items_of 0 m0) = 0"
      "sem_read native_max (items_of 0 m0) = 65535"
    using demo_ready by blast
  let ?cx = "\<lparr>cx_isr = False, cx_worker = None\<rparr>"
  obtain m1 where m1: "wq_shape {0} ((\<lambda>_. [])(0 := [] @ [WorkNode (Work 0)])) (\<lambda>_. []) m1"
      "items_of 0 m1 = items_of 0 m0" "wm_work m1 (Work 2) = wm_work m0 (Work 2)" "wm_queue m1 = wm_queue m0"
    using ready_submit [OF m0(1) _ m0(2), of ref_sems ?cx] by auto
  let ?m = "give_items ref_sems False 0 m1"
  have items: "items_of 0 ?m = sem_give ref_sems False (items_of 0 m0)"
    by (simp add: give_items_def fifo_give_def upd_fifo_def m1(2))
  have live: "sem_live native_ok (items_of 0 ?m)" "sem_read native_cnt (items_of 0 ?m) = 1"
    using os_sem_contract.give_below [OF ref_sems_contract m0(4), of False] m0(5,6) unfolding items by simp_all
  have "ready 0 (Work 2) ?m"
    by (rule ready_cong [OF m0(3)]) (simp_all add: give_items_def m1(3,4))
  from cancel_loses_wakeup [OF ref_sems_contract wq_shape_tokens(1) [OF m1(1)] _ _ live _ this,
      of "Work 0" OS_WAIT_FOREVER ?cx False]
  show ?thesis by auto
qed

section \<open>A synchronous cancel that misses an item in transit\<close>

text \<open>What the pass of the worker leaves of the item it takes off the delayed list.\<close>

lemma promote_takes:
  assumes shape: "wq_shape Q xs ys m" and q: "q \<in> Q" and p: "promote_section q now m = Some ((Some d, t, b), m1)"
  shows "\<exists>ys'. wq_shape Q xs ys' m1 \<and> wm_work m1 = (wm_work m)(DWork d := clear_flag OS_WORK_DELAYED (wm_work m (DWork d)))
     \<and> wm_queue m1 = wm_queue m \<and> wm_fifo m1 = wm_fifo m \<and> b = (plugged (wm_queue m q) \<or> stopping (wm_queue m q))"
proof -
  have d: "d \<in> set (ys q)" "b = (plugged (wm_queue m q) \<or> stopping (wm_queue m q))"
    using promote_section_shape [OF shape q, of now] p by auto
  obtain e where e: "undelay e m = Some m1" "e = d"
    using p by (auto simp: promote_section_eq [OF shape q] split: list.splits bind_splits)
  with undelay_shape [OF shape q d(1)] d(2) show ?thesis by auto
qed

text \<open>The worker takes a due item off its delayed list and clears DELAYED before it submits the
  item. A synchronous cancel that runs in between finds the item idle, changes nothing that stops
  the submission and returns at once that nothing was pending; the worker's submission is then
  accepted and the handler runs after the cancel has returned.\<close>

theorem cancel_sync_misses_promotion:
  assumes shape: "wq_shape Q xs ys m" and q: "q \<in> Q" "length (xs q) < 65535"
    and p: "promote_section q now m = Some ((Some d, t, False), m1)"
    and item: "magic (wm_work m (DWork d)) = OS_WORK_MAGIC" "sync_initialized (wm_work m (DWork d))"
      "handler (wm_work m (DWork d)) \<noteq> None" "flags (wm_work m (DWork d)) = OS_WORK_DELAYED"
    and queue: "started (wm_queue m q)" "\<not> draining (wm_queue m q)"
  shows "\<exists>m2 m3. os_work_cancel_delayable_sync S isr env (Some d) (Some ()) m1 = Some (False, m2)
     \<and> os_work_submit_to_queue S \<lparr>cx_isr = False, cx_worker = Some q\<rparr> (Some q) (Some (DWork d)) m2 = Some (1, m3)"
proof -
  obtain ys' where m1: "wq_shape Q xs ys' m1"
      "wm_work m1 = (wm_work m)(DWork d := clear_flag OS_WORK_DELAYED (wm_work m (DWork d)))"
      "wm_queue m1 = wm_queue m" "wm_fifo m1 = wm_fifo m" "\<not> plugged (wm_queue m q)" "\<not> stopping (wm_queue m q)"
    using promote_takes [OF shape q(1) p] by auto
  have idle: "flags (wm_work m1 (DWork d)) = 0" by (simp add: m1(2) clear_flag_def item(4))
  have flag0: "\<not> has_flag f (wm_work m1 (DWork d))" for f by (rule no_flag [OF idle])
  let ?c = "cancel_mark (DWork d) m1" let ?m2 = "os_work_notify S isr (DWork d) ?c"
  have sec: "cancel_section (DWork d) m1 = Some ((0, None), ?c)"
    using flag0 idle by (simp add: cancel_section_eq) (simp add: cancel_mark_def clear_flag_def idle)
  have init: "magic (wm_work m1 (DWork d)) = OS_WORK_MAGIC" "sync_initialized (wm_work m1 (DWork d))"
    by (simp_all add: m1(2) item)
  have idle2: "flags (wm_work ?m2 (DWork d)) = 0"
    by (simp add: os_work_notify_def cancel_mark_def flag0 clear_flag_def idle)
  have "os_work_cancel S isr (Some (DWork d)) m1 = Some (0, ?m2)"
    using init sec by (simp add: os_work_cancel_def)
  then have "os_work_cancel_delayable S isr (Some d) m1 = Some (0, ?m2)"
    using init flag0 by (simp add: os_work_cancel_delayable_def undelay_section_def)
  moreover have "await_idle S isr env (DWork d) 0 ?m2 = Some ?m2"
    using idle2 by (simp add: await_idle.simps [of S isr env "DWork d" 0 ?m2] os_work_busy_get_def)
  ultimately have call: "os_work_cancel_delayable_sync S isr env (Some d) (Some ()) m1 = Some (False, ?m2)"
    using idle by (simp add: os_work_cancel_delayable_sync_def os_work_delayable_is_pending_def
        os_work_delayable_busy_get_def os_work_busy_get_def)
  have shape2: "wq_shape Q xs ys' ?m2" by (intro wq_shape_notify cancel_mark_shape m1(1))
  have same: "magic (wm_work ?m2 (DWork d)) = magic (wm_work m1 (DWork d))"
      "handler (wm_work ?m2 (DWork d)) = handler (wm_work m1 (DWork d))"
      "sync_initialized (wm_work ?m2 (DWork d)) = sync_initialized (wm_work m1 (DWork d))"
      "wm_queue ?m2 = wm_queue m1"
    by (simp_all add: os_work_notify_def cancel_mark_def flag0)
  have "ready q (DWork d) ?m2"
    using m1(3,5,6) item queue init idle2 by (simp add: ready_def same) (simp add: m1(2))
  from ready_submit [OF shape2 q(1) this q(2)] call show ?thesis by blast
qed

text \<open>A started queue with one delayed, initialised item.\<close>

lemma demo_transit:
  "\<exists>m :: native os_sem wq_mem. wq_shape {0} (\<lambda>_. []) ((\<lambda>_. [])(0 := [5])) m
     \<and> magic (wm_work m (DWork 5)) = OS_WORK_MAGIC \<and> sync_initialized (wm_work m (DWork 5))
     \<and> handler (wm_work m (DWork 5)) \<noteq> None \<and> flags (wm_work m (DWork 5)) = OS_WORK_DELAYED
     \<and> deadline (wm_dwork m 5) = 0 \<and> wm_queue m 0 = os_work_queue_zero\<lparr>started := True\<rparr>"
proof -
  obtain m where m: "wq_boot ref_sems False [(0, 1, None)] blank_works = Some m"
      "wm_queue m 0 = os_work_queue_zero\<lparr>started := True\<rparr>"
      "wm_work m = (\<lambda>_. os_work_zero ref_sems)"
    using demo_boot by blast
  have shape: "wq_shape {0} (\<lambda>_. []) (\<lambda>_. []) m"
    using wq_invD(1) [OF inv_boot [OF m(1) blank_works_clear refl]] by (simp add: sys_start_def)
  let ?m0 = "os_work_init ref_sems (Some (DWork 5)) (Some 7) m"
  have shape0: "wq_shape {0} (\<lambda>_. []) (\<lambda>_. []) ?m0"
    by (rule os_work_init_shape [OF shape]) (simp add: m(3) os_work_zero_def)
  have w0: "flags (wm_work ?m0 (DWork 5)) = 0" "magic (wm_work ?m0 (DWork 5)) = OS_WORK_MAGIC"
      "sync_initialized (wm_work ?m0 (DWork 5))" "handler (wm_work ?m0 (DWork 5)) = Some 7"
    by (simp_all add: os_work_init_def Let_def os_work_zero_def ref_sem_init)
  from delay_append_shape [OF shape0, of 0 5 0] no_flag [OF w0(1)] obtain h where
    "wq_shape {0} (\<lambda>_. []) ((\<lambda>_. [])(0 := [] @ [5]))
       (upd_work (DWork 5) (set_flag OS_WORK_DELAYED)
         (?m0\<lparr>wm_dwork := (wm_dwork ?m0)(5 := \<lparr>dw_queue = Some 0, deadline = 0\<rparr>)\<rparr>)\<lparr>wm_delayed := h\<rparr>)"
    by auto
  with w0 show ?thesis
    by (intro exI [of _ "upd_work (DWork 5) (set_flag OS_WORK_DELAYED)
         (?m0\<lparr>wm_dwork := (wm_dwork ?m0)(5 := \<lparr>dw_queue = Some 0, deadline = 0\<rparr>)\<rparr>)\<lparr>wm_delayed := h\<rparr>"])
      (simp add: set_flag_def os_work_init_simps m(2))
qed

theorem cancel_sync_misses_promotion_witness:
  "\<exists>(m1 :: native os_sem wq_mem) m2 m3.
       os_work_cancel_delayable_sync ref_sems False (\<lambda>_ m. m) (Some 5) (Some ()) m1 = Some (False, m2)
     \<and> os_work_submit_to_queue ref_sems \<lparr>cx_isr = False, cx_worker = Some 0\<rparr> (Some 0) (Some (DWork 5)) m2
         = Some (1, m3)"
proof -
  obtain m :: "native os_sem wq_mem" where m: "wq_shape {0} (\<lambda>_. []) ((\<lambda>_. [])(0 := [5])) m"
      "magic (wm_work m (DWork 5)) = OS_WORK_MAGIC" "sync_initialized (wm_work m (DWork 5))"
      "handler (wm_work m (DWork 5)) \<noteq> None" "flags (wm_work m (DWork 5)) = OS_WORK_DELAYED"
      "deadline (wm_dwork m 5) = 0" "wm_queue m 0 = os_work_queue_zero\<lparr>started := True\<rparr>"
    using demo_transit by blast
  have due: "remaining_of m 0 5 = 0" by (simp add: remaining_of_def os_work_deadline_remaining_def m(6))
  obtain m1 where m1: "undelay 5 m = Some m1" using undelay_shape [OF m(1), of 0 5] by auto
  have "promote_section 0 0 m = Some ((Some 5, OS_WAIT_FOREVER, False), m1)"
    using m1 due undelay_shape [OF m(1), of 0 5]
    by (auto simp: promote_section_eq [OF m(1)] m(7) os_work_queue_zero_def)
  from cancel_sync_misses_promotion [OF m(1) _ _ this m(2-5), of ref_sems False "\<lambda>_ m. m"]
  show ?thesis by (auto simp: m(7) os_work_queue_zero_def)
qed

end
