(* ===== verification/Work_Stop.thy ===== *)
theory Work_Stop
  imports Work_Races
begin

text \<open>
  Stopping a work queue: what a stop that goes through leaves behind, and what happens after one
  whose wait for the worker timed out.
\<close>

section \<open>Emptying the delayed list\<close>

lemma release_delayed_returns:
  assumes "wq_shape Q xs ys m" "q \<in> Q"
  shows "\<exists>m'. release_delayed S isr q m = Some m' \<and> wq_shape Q xs (ys(q := [])) m'
     \<and> wm_fifo m' = wm_fifo m \<and> wm_queue m' = wm_queue m"
  using assms(1)
proof (induction "ys q" arbitrary: ys m)
  case Nil
  have rep: "dlist_rep (wm_delayed m) (DelayedList q) (map DelayNode (ys q))"
    using wq_shapeD(2) [OF Nil.prems] assms(2) by (simp add: dlists_rep_def)
  then have "release_delayed S isr q m = Some m"
    using Nil.hyps by (simp add: release_delayed.simps [of S isr q m] sys_dlist_peek_head_rep [OF rep])
  moreover have "ys(q := []) = ys" using Nil.hyps by (simp add: fun_upd_idem)
  ultimately show ?case using Nil.prems by simp
next
  case (Cons d ds)
  have rep: "dlist_rep (wm_delayed m) (DelayedList q) (map DelayNode (ys q))"
    using wq_shapeD(2) [OF Cons.prems] assms(2) by (simp add: dlists_rep_def)
  have d: "d \<in> set (ys q)" "remove1 d (ys q) = ds" using Cons.hyps(2) by (simp_all flip: Cons.hyps(2))
  obtain h where h: "undelay d m = Some (upd_work (DWork d) (clear_flag OS_WORK_DELAYED) (m\<lparr>wm_delayed := h\<rparr>))"
      "wq_shape Q xs (ys(q := ds)) (upd_work (DWork d) (clear_flag OS_WORK_DELAYED) (m\<lparr>wm_delayed := h\<rparr>))"
      (is "wq_shape Q xs ?ys ?m")
    using undelay_shape [OF Cons.prems assms(2) d(1)] d(2) by auto
  let ?m' = "os_work_notify S isr (DWork d) ?m"
  have "release_delayed S isr q m = release_delayed S isr q ?m'"
    using h(1) Cons.hyps(2) by (simp add: release_delayed.simps [of S isr q m] sys_dlist_peek_head_rep [OF rep]
        flip: Cons.hyps(2))
  moreover have "wq_shape Q xs ?ys ?m'" by (rule wq_shape_notify [OF h(2)])
  moreover have "wm_fifo ?m' = wm_fifo m" "wm_queue ?m' = wm_queue m" by (simp_all add: os_work_notify_def)
  ultimately show ?case using Cons.hyps(1) [of ?ys ?m'] by auto
qed

section \<open>The calls\<close>

text \<open>A queue that can be stopped.\<close>

definition stoppable :: "nat \<Rightarrow> nat option \<Rightarrow> 's wq_mem \<Rightarrow> bool" where
  "stoppable q caller m \<longleftrightarrow> started (wm_queue m q) \<and> plugged (wm_queue m q)
     \<and> current (wm_queue m q) = None \<and> caller \<noteq> Some q"

lemma stop_section_goes:
  assumes shape: "wq_shape Q xs ys m" and q: "q \<in> Q" "xs q = []" and ok: "stoppable q c m"
  shows "\<exists>m1. stop_section q m = Some (0, m1) \<and> wq_shape Q (xs(q := [StopNode q])) ys m1
     \<and> stoppable q c m1 \<and> items_of q m1 = items_of q m \<and> ff_initialized (fm_fifo (wm_fifo m1) q)"
proof -
  let ?m = "upd_queue q (\<lambda>x. x\<lparr>stopping := True\<rparr>) m"
  have "fifo_count q m = 0" using fifo_count_length [OF shape q(1)] q(2) by (simp add: unat_eq_0)
  then have go: "stop_section q m = map_option (Pair 0) (enqueue_node q (StopNode q) ?m)"
    using ok by (simp add: stop_section_def stoppable_def)
  obtain r m1 xs' where m1: "stop_section q m = Some (r, m1)" "wq_shape Q xs' ys m1"
      "r = 0 \<longrightarrow> xs' = xs(q := [StopNode q])"
    using stop_section_shape [OF shape q(1)] by auto
  have "map_option (Pair 0) (enqueue_node q (StopNode q) ?m) = Some (r, m1)"
    using m1(1) unfolding go .
  then have r: "r = 0" and e: "enqueue_node q (StopNode q) ?m = Some m1" by auto
  have "wm_queue m1 = wm_queue ?m" "items_of q m1 = items_of q m"
    using e by (auto simp: enqueue_node_def set_node_queued_def set_queued_def upd_count_def upd_fifo_def
        split: bind_splits)
  moreover have "ff_initialized (fm_fifo (wm_fifo m1) q)"
    using fifo_shapeD(1) [OF wq_shapeD(1) [OF m1(2)] q(1)] by (simp add: fifo_at_def)
  ultimately show ?thesis using m1 r ok by (simp add: stoppable_def)
qed

lemma stop_call:
  assumes "stoppable q (cx_worker cx) m" "stop_section q m = Some (0, m1)"
    and "join (give_items S (cx_isr cx) q m1) = (e, m2)"
  shows "os_work_queue_stop S cx join (Some q) m =
     (if e \<noteq> 0 then Some (e, m2) else do {
        m \<leftarrow> release_delayed S (cx_isr cx) q m2;
        let (result, F) = os_fifo_deinit S (cx_isr cx) (Some q) (wm_fifo m);
        let m = m\<lparr>wm_fifo := F\<rparr>;
        if result \<noteq> 0 then Some (result, m) else Some (0, upd_queue q (\<lambda>x. x\<lparr>started := False\<rparr>) m)
      })"
  using assms by (simp add: os_work_queue_stop_def stoppable_def)

lemma give_items_queue [simp]: "wm_queue (give_items S isr q m) = wm_queue m"
  by (simp add: give_items_def)

lemma stoppable_give [simp]: "stoppable q c (give_items S isr p m) = stoppable q c m"
  by (simp add: stoppable_def)

text \<open>After a stop that timed out waiting for the worker, no later stop can succeed. While the
  worker has not run, the queue's own stop node makes the FIFO busy; once it has taken the node
  and returned, the next call puts a second stop node on the FIFO, which nobody takes, and
  \<open>os_fifo_deinit\<close> refuses the FIFO.\<close>

theorem stop_after_timeout_fails:
  assumes shape: "wq_shape Q xs ys m" and q: "q \<in> Q" "xs q = []" and ok: "stoppable q (cx_worker cx) m"
    and first: "os_work_queue_stop S cx (\<lambda>m. (e, m)) (Some q) m = Some (e, m1)" "e \<noteq> 0"
  shows "(\<forall>join. os_work_queue_stop S cx join (Some q) m1 = Some (- EBUSY, m1))
     \<and> (\<exists>m2 m3. worker_fetch_section q m1 = Some (FetchStop, m2)
          \<and> os_work_queue_stop S cx (\<lambda>m. (0, m)) (Some q) m2 = Some (- EBUSY, m3))"
proof -
  obtain s1 where s1: "stop_section q m = Some (0, s1)" "wq_shape Q (xs(q := [StopNode q])) ys s1"
      "stoppable q (cx_worker cx) s1"
    using stop_section_goes [OF shape q ok] by blast
  have m1: "m1 = give_items S (cx_isr cx) q s1"
    using stop_call [OF ok s1(1), of "\<lambda>m. (e, m)" S e] first by simp
  have shape1: "wq_shape Q (xs(q := [StopNode q])) ys m1"
    unfolding m1 by (rule wq_shape_tokens(1) [OF s1(2)])
  have ok1: "stoppable q (cx_worker cx) m1" using s1(3) by (simp add: m1)
  have "fifo_count q m1 \<noteq> 0" using fifo_count_length [OF shape1 q(1)] by auto
  then have busy: "os_work_queue_stop S cx join (Some q) m1 = Some (- EBUSY, m1)" for join
    using ok1 by (simp add: os_work_queue_stop_def stop_section_def stoppable_def errno_defs)
  have idle: "current (wm_queue m1 q) = None" using ok1 by (simp add: stoppable_def)
  obtain f m2 where f: "worker_fetch_section q m1 = Some (f, m2)" "wq_shape Q (xs(q := [])) ys m2"
      "case f of FetchWork w \<Rightarrow> False | FetchStop \<Rightarrow> wm_queue m2 = wm_queue m1 | FetchNothing \<Rightarrow> False"
    using worker_fetch_shape [OF shape1 q(1) idle] by (fastforce split: fetched.splits)
  then have m2: "worker_fetch_section q m1 = Some (FetchStop, m2)" "wq_shape Q (xs(q := [])) ys m2"
      "wm_queue m2 = wm_queue m1"
    by (cases f; simp)+
  have ok2: "stoppable q (cx_worker cx) m2" using ok1 m2(3) by (simp add: stoppable_def)
  obtain s2 where s2: "stop_section q m2 = Some (0, s2)" "wq_shape Q (xs(q := [StopNode q])) ys s2"
    using stop_section_goes [OF m2(2) q(1) _ ok2] by auto
  let ?g = "give_items S (cx_isr cx) q s2"
  obtain m3 where m3: "release_delayed S (cx_isr cx) q ?g = Some m3" "wq_shape Q (xs(q := [StopNode q])) (ys(q := [])) m3"
    using release_delayed_returns [OF wq_shape_tokens(1) [OF s2(2)] q(1)] by blast
  have "dlist_rep (fm_heap (wm_fifo m3)) (FifoList q) [FifoNode (StopNode q)]"
    using wq_shapeD(1) [OF m3(2)] q(1) by (auto simp: fifo_shape_def dlists_rep_def dest!: bspec [of Q _ q])
  then have "\<not> sys_dlist_is_empty (FifoList q) (fm_heap (wm_fifo m3))" by (simp add: sys_dlist_is_empty_rep)
  moreover have "ff_initialized (fm_fifo (wm_fifo m3) q)"
    using fifo_shapeD(1) [OF wq_shapeD(1) [OF m3(2)] q(1)] by (simp add: fifo_at_def)
  ultimately have "os_fifo_deinit S (cx_isr cx) (Some q) (wm_fifo m3) = (- EBUSY, wm_fifo m3)"
    by (simp add: os_fifo_deinit_def)
  then have "os_work_queue_stop S cx (\<lambda>m. (0, m)) (Some q) m2 = Some (- EBUSY, m3)"
    using stop_call [OF ok2 s2(1), of "\<lambda>m. (0, m)" S 0] m3(1) by (simp add: errno_defs)
  with busy m2(1) show ?thesis by blast
qed

text \<open>When the worker takes the stop node and returns before the wait ends, stopping a plugged,
  idle queue releases every delayed item of the queue and ends with the result of destroying its
  semaphore; the queue is marked stopped exactly when that succeeds.\<close>

theorem queue_stop_releases:
  assumes shape: "wq_shape Q xs ys m" and q: "q \<in> Q" "xs q = []" and ok: "stoppable q (cx_worker cx) m"
    and join: "\<And>m m'. worker_fetch_section q m = Some (FetchStop, m') \<Longrightarrow> join m = (0, m')"
  shows "\<exists>r m'. os_work_queue_stop S cx join (Some q) m = Some (r, m')
     \<and> r = fst (sem_deinit S (cx_isr cx) (sem_give S (cx_isr cx) (items_of q m)))
     \<and> (started (wm_queue m' q) \<longleftrightarrow> r \<noteq> 0)
     \<and> (\<forall>d \<in> set (ys q). \<not> has_flag OS_WORK_DELAYED (wm_work m' (DWork d)))"
proof -
  let ?isr = "cx_isr cx"
  obtain s1 where s1: "stop_section q m = Some (0, s1)" "wq_shape Q (xs(q := [StopNode q])) ys s1"
      "stoppable q (cx_worker cx) s1" "items_of q s1 = items_of q m"
    using stop_section_goes [OF shape q ok] by blast
  let ?g = "give_items S ?isr q s1"
  have shape1: "wq_shape Q (xs(q := [StopNode q])) ys ?g" by (rule wq_shape_tokens(1) [OF s1(2)])
  have head: "(xs(q := [StopNode q])) q = [StopNode q]" by simp
  obtain m2 where m2: "worker_fetch_section q ?g = Some (FetchStop, m2)"
    using worker_fetch_head [OF shape1 q(1) head] by auto
  have items2: "items_of q m2 = sem_give S ?isr (items_of q m)"
    using m2 s1(4) by (auto simp: worker_fetch_section_def give_items_def fifo_give_def upd_fifo_def
        upd_count_def set_node_queued_def set_queued_def Let_def split: bind_splits option.splits faddr.splits wnode.splits if_splits)
  have idle: "current (wm_queue ?g q) = None" using s1(3) by (simp add: stoppable_def)
  have m2s: "wq_shape Q (xs(q := [])) ys m2" "wm_queue m2 = wm_queue s1"
    using worker_fetch_shape [OF shape1 q(1) idle] m2 by auto
  obtain m3 where m3: "release_delayed S ?isr q m2 = Some m3" "wq_shape Q (xs(q := [])) (ys(q := [])) m3"
      "wm_fifo m3 = wm_fifo m2" "wm_queue m3 = wm_queue m2"
    using release_delayed_returns [OF m2s(1) q(1)] by blast
  have "dlist_rep (fm_heap (wm_fifo m3)) (FifoList q) []"
    using wq_shapeD(1) [OF m3(2)] q(1) by (auto simp: fifo_shape_def dlists_rep_def dest!: bspec [of Q _ q])
  then have empty: "sys_dlist_is_empty (FifoList q) (fm_heap (wm_fifo m3))" by (simp add: sys_dlist_is_empty_rep)
  have init: "ff_initialized (fm_fifo (wm_fifo m3) q)"
    using fifo_shapeD(1) [OF wq_shapeD(1) [OF m3(2)] q(1)] by (simp add: fifo_at_def)
  let ?r = "fst (sem_deinit S ?isr (sem_give S ?isr (items_of q m)))"
  obtain F where F: "os_fifo_deinit S ?isr (Some q) (wm_fifo m3) = (?r, F)"
    using empty init items2 m3(3)
    by (cases "sem_deinit S ?isr (sem_give S ?isr (items_of q m))") (simp add: os_fifo_deinit_def Let_def)
  have free: "\<not> has_flag OS_WORK_DELAYED (wm_work m3 (DWork d))" if "d \<in> set (ys q)" for d
    using work_okD(6) [OF wq_shapeD(3) [OF m3(2), of "DWork d"]] delays_disjoint [OF shape _ q(1) _ that]
    by (auto split: if_splits)
  have "started (wm_queue m3 q)" using s1(3) m3(4) m2s(2) by (simp add: stoppable_def)
  with free show ?thesis
    using stop_call [OF ok s1(1), of join S 0 m2] join [OF m2] m3(1) F by (cases "?r = 0") simp_all
qed

section \<open>Witnesses\<close>

text \<open>A started, plugged queue with one delayed item, and a worker that fetches its stop node.\<close>

lemma demo_stoppable:
  "\<exists>m :: native os_sem wq_mem. wq_shape {0} (\<lambda>_. []) ((\<lambda>_. [])(0 := [5])) m \<and> stoppable 0 None m"
proof -
  obtain m :: "native os_sem wq_mem" where m: "wq_shape {0} (\<lambda>_. []) ((\<lambda>_. [])(0 := [5])) m"
      "wm_queue m 0 = os_work_queue_zero\<lparr>started := True\<rparr>"
    using demo_transit by blast
  let ?m = "upd_queue 0 (\<lambda>x. x\<lparr>plugged := True\<rparr>) m"
  have "wq_shape {0} (\<lambda>_. []) ((\<lambda>_. [])(0 := [5])) ?m" by (rule wq_shape_queue_cong [OF m(1)]) simp
  with m(2) show ?thesis by (intro exI [of _ ?m]) (simp add: stoppable_def os_work_queue_zero_def)
qed

theorem stop_after_timeout_fails_witness:
  "\<exists>(m :: native os_sem wq_mem) m1. os_work_queue_stop ref_sems \<lparr>cx_isr = False, cx_worker = None\<rparr>
        (\<lambda>m. (- ETIMEDOUT, m)) (Some 0) m = Some (- ETIMEDOUT, m1)
     \<and> os_work_queue_stop ref_sems \<lparr>cx_isr = False, cx_worker = None\<rparr> (\<lambda>m. (0, m)) (Some 0) m1 = Some (- EBUSY, m1)"
proof -
  obtain m :: "native os_sem wq_mem" where m: "wq_shape {0} (\<lambda>_. []) ((\<lambda>_. [])(0 := [5])) m" "stoppable 0 None m"
    using demo_stoppable by blast
  let ?cx = "\<lparr>cx_isr = False, cx_worker = None\<rparr>"
  obtain s1 where "stop_section 0 m = Some (0, s1)"
    using stop_section_goes [OF m(1) _ _ m(2)] by auto
  then obtain m1 where first: "os_work_queue_stop ref_sems ?cx (\<lambda>m. (- ETIMEDOUT, m)) (Some 0) m = Some (- ETIMEDOUT, m1)"
    using stop_call [of 0 ?cx m s1 "\<lambda>m. (- ETIMEDOUT, m)" ref_sems "- ETIMEDOUT"] m(2) by (simp add: errno_defs)
  from stop_after_timeout_fails [OF m(1) _ _ _ first] m(2) first show ?thesis by (auto simp: errno_defs)
qed

theorem queue_stop_releases_witness:
  "\<exists>(m :: native os_sem wq_mem) m' r. os_work_queue_stop ref_sems \<lparr>cx_isr = False, cx_worker = None\<rparr>
        (\<lambda>m. case worker_fetch_section 0 m of Some (FetchStop, m') \<Rightarrow> (0, m') | _ \<Rightarrow> (- ETIMEDOUT, m)) (Some 0) m
        = Some (r, m') \<and> has_flag OS_WORK_DELAYED (wm_work m (DWork 5)) \<and> \<not> has_flag OS_WORK_DELAYED (wm_work m' (DWork 5))"
proof -
  obtain m :: "native os_sem wq_mem" where m: "wq_shape {0} (\<lambda>_. []) ((\<lambda>_. [])(0 := [5])) m" "stoppable 0 None m"
    using demo_stoppable by blast
  let ?cx = "\<lparr>cx_isr = False, cx_worker = None\<rparr>"
  let ?join = "\<lambda>m. case worker_fetch_section 0 m of Some (FetchStop, m') \<Rightarrow> (0, m') | _ \<Rightarrow> (- ETIMEDOUT, m)"
  have "has_flag OS_WORK_DELAYED (wm_work m (DWork 5))"
    using work_okD(6) [OF wq_shapeD(3) [OF m(1), of "DWork 5"]] by simp
  with queue_stop_releases [OF m(1), of 0 ?cx ?join ref_sems] m(2) show ?thesis by fastforce
qed

end
