(* ===== verification/Byteorder.thy ===== *)
theory Byteorder
  imports Osal_Prelude
begin

text \<open>
  \<open>include/hazel_wireless/sys/byteorder.h\<close>: byte swaps, and integers put into and read from
  byte arrays in both byte orders.

  A pointer is an offset into a byte array; an access outside it is None. The two byte orders
  of the build are the argument \<open>little\<close> (\<open>CONFIG_LITTLE_ENDIAN\<close>) or \<open>big\<close>
  (\<open>CONFIG_BIG_ENDIAN\<close>). \<open>be_bytes\<close> and \<open>le_bytes\<close> are the reference: the bytes of a number,
  most and least significant first.
\<close>

unbundle bit_operations_syntax

type_synonym u16 = "16 word"

section \<open>Swaps\<close>

definition BSWAP_16 :: "u16 \<Rightarrow> u16" where
  "BSWAP_16 x = (drop_bit 8 x AND 0xff) OR push_bit 8 (x AND 0xff)"

definition BSWAP_24 :: "u32 \<Rightarrow> u32" where
  "BSWAP_24 x = (drop_bit 16 x AND 0xff) OR (x AND 0xff00) OR push_bit 16 (x AND 0xff)"

definition BSWAP_32 :: "u32 \<Rightarrow> u32" where
  "BSWAP_32 x = (drop_bit 24 x AND 0xff) OR (drop_bit 8 x AND 0xff00)
     OR push_bit 8 (x AND 0xff00) OR push_bit 24 (x AND 0xff)"

definition BSWAP_40 :: "u64 \<Rightarrow> u64" where
  "BSWAP_40 x = (drop_bit 32 x AND 0xff) OR (drop_bit 16 x AND 0xff00) OR (x AND 0xff0000)
     OR push_bit 16 (x AND 0xff00) OR push_bit 32 (x AND 0xff)"

definition BSWAP_48 :: "u64 \<Rightarrow> u64" where
  "BSWAP_48 x = (drop_bit 40 x AND 0xff) OR (drop_bit 24 x AND 0xff00) OR (drop_bit 8 x AND 0xff0000)
     OR push_bit 8 (x AND 0xff0000) OR push_bit 24 (x AND 0xff00) OR push_bit 40 (x AND 0xff)"

definition BSWAP_64 :: "u64 \<Rightarrow> u64" where
  "BSWAP_64 x = (drop_bit 56 x AND 0xff) OR (drop_bit 40 x AND 0xff00) OR (drop_bit 24 x AND 0xff0000)
     OR (drop_bit 8 x AND 0xff000000) OR push_bit 8 (x AND 0xff000000) OR push_bit 24 (x AND 0xff0000)
     OR push_bit 40 (x AND 0xff00) OR push_bit 56 (x AND 0xff)"

section \<open>Single bytes\<close>

definition put_byte :: "nat \<Rightarrow> u8 \<Rightarrow> u8 list \<Rightarrow> u8 list option" where
  "put_byte d b dst = (if d < length dst then Some (dst[d := b]) else None)"

definition get_byte :: "u8 list \<Rightarrow> nat \<Rightarrow> u8 option" where
  "get_byte src s = (if s < length src then Some (src ! s) else None)"

section \<open>Putting integers\<close>

definition sys_put_be16 :: "u16 \<Rightarrow> nat \<Rightarrow> u8 list \<Rightarrow> u8 list option" where
  "sys_put_be16 val d dst = do { dst \<leftarrow> put_byte d (ucast (drop_bit 8 val)) dst; put_byte (d + 1) (ucast val) dst }"

definition sys_put_be24 :: "u32 \<Rightarrow> nat \<Rightarrow> u8 list \<Rightarrow> u8 list option" where
  "sys_put_be24 val d dst = do { dst \<leftarrow> put_byte d (ucast (drop_bit 16 val)) dst; sys_put_be16 (ucast val) (d + 1) dst }"

definition sys_put_be32 :: "u32 \<Rightarrow> nat \<Rightarrow> u8 list \<Rightarrow> u8 list option" where
  "sys_put_be32 val d dst = do { dst \<leftarrow> sys_put_be16 (ucast (drop_bit 16 val)) d dst; sys_put_be16 (ucast val) (d + 2) dst }"

definition sys_put_be40 :: "u64 \<Rightarrow> nat \<Rightarrow> u8 list \<Rightarrow> u8 list option" where
  "sys_put_be40 val d dst = do { dst \<leftarrow> put_byte d (ucast (drop_bit 32 val)) dst; sys_put_be32 (ucast val) (d + 1) dst }"

definition sys_put_be48 :: "u64 \<Rightarrow> nat \<Rightarrow> u8 list \<Rightarrow> u8 list option" where
  "sys_put_be48 val d dst = do { dst \<leftarrow> sys_put_be16 (ucast (drop_bit 32 val)) d dst; sys_put_be32 (ucast val) (d + 2) dst }"

definition sys_put_be64 :: "u64 \<Rightarrow> nat \<Rightarrow> u8 list \<Rightarrow> u8 list option" where
  "sys_put_be64 val d dst = do { dst \<leftarrow> sys_put_be32 (ucast (drop_bit 32 val)) d dst; sys_put_be32 (ucast val) (d + 4) dst }"

definition sys_put_le16 :: "u16 \<Rightarrow> nat \<Rightarrow> u8 list \<Rightarrow> u8 list option" where
  "sys_put_le16 val d dst = do { dst \<leftarrow> put_byte d (ucast val) dst; put_byte (d + 1) (ucast (drop_bit 8 val)) dst }"

definition sys_put_le24 :: "u32 \<Rightarrow> nat \<Rightarrow> u8 list \<Rightarrow> u8 list option" where
  "sys_put_le24 val d dst = do { dst \<leftarrow> sys_put_le16 (ucast val) d dst; put_byte (d + 2) (ucast (drop_bit 16 val)) dst }"

definition sys_put_le32 :: "u32 \<Rightarrow> nat \<Rightarrow> u8 list \<Rightarrow> u8 list option" where
  "sys_put_le32 val d dst = do { dst \<leftarrow> sys_put_le16 (ucast val) d dst; sys_put_le16 (ucast (drop_bit 16 val)) (d + 2) dst }"

definition sys_put_le40 :: "u64 \<Rightarrow> nat \<Rightarrow> u8 list \<Rightarrow> u8 list option" where
  "sys_put_le40 val d dst = do { dst \<leftarrow> sys_put_le32 (ucast val) d dst; put_byte (d + 4) (ucast (drop_bit 32 val)) dst }"

definition sys_put_le48 :: "u64 \<Rightarrow> nat \<Rightarrow> u8 list \<Rightarrow> u8 list option" where
  "sys_put_le48 val d dst = do { dst \<leftarrow> sys_put_le32 (ucast val) d dst; sys_put_le16 (ucast (drop_bit 32 val)) (d + 4) dst }"

definition sys_put_le64 :: "u64 \<Rightarrow> nat \<Rightarrow> u8 list \<Rightarrow> u8 list option" where
  "sys_put_le64 val d dst = do { dst \<leftarrow> sys_put_le32 (ucast val) d dst; sys_put_le32 (ucast (drop_bit 32 val)) (d + 4) dst }"

section \<open>Reading integers\<close>

definition sys_get_be16 :: "u8 list \<Rightarrow> nat \<Rightarrow> u16 option" where
  "sys_get_be16 src s = do { a \<leftarrow> get_byte src s; b \<leftarrow> get_byte src (s + 1); Some (push_bit 8 (ucast a) OR ucast b) }"

definition sys_get_be24 :: "u8 list \<Rightarrow> nat \<Rightarrow> u32 option" where
  "sys_get_be24 src s = do { a \<leftarrow> get_byte src s; b \<leftarrow> sys_get_be16 src (s + 1); Some (push_bit 16 (ucast a) OR ucast b) }"

definition sys_get_be32 :: "u8 list \<Rightarrow> nat \<Rightarrow> u32 option" where
  "sys_get_be32 src s = do { a \<leftarrow> sys_get_be16 src s; b \<leftarrow> sys_get_be16 src (s + 2); Some (push_bit 16 (ucast a) OR ucast b) }"

definition sys_get_be40 :: "u8 list \<Rightarrow> nat \<Rightarrow> u64 option" where
  "sys_get_be40 src s = do { a \<leftarrow> sys_get_be32 src s; b \<leftarrow> get_byte src (s + 4); Some (push_bit 8 (ucast a) OR ucast b) }"

definition sys_get_be48 :: "u8 list \<Rightarrow> nat \<Rightarrow> u64 option" where
  "sys_get_be48 src s = do { a \<leftarrow> sys_get_be32 src s; b \<leftarrow> sys_get_be16 src (s + 4); Some (push_bit 16 (ucast a) OR ucast b) }"

definition sys_get_be64 :: "u8 list \<Rightarrow> nat \<Rightarrow> u64 option" where
  "sys_get_be64 src s = do { a \<leftarrow> sys_get_be32 src s; b \<leftarrow> sys_get_be32 src (s + 4); Some (push_bit 32 (ucast a) OR ucast b) }"

definition sys_get_le16 :: "u8 list \<Rightarrow> nat \<Rightarrow> u16 option" where
  "sys_get_le16 src s = do { a \<leftarrow> get_byte src (s + 1); b \<leftarrow> get_byte src s; Some (push_bit 8 (ucast a) OR ucast b) }"

definition sys_get_le24 :: "u8 list \<Rightarrow> nat \<Rightarrow> u32 option" where
  "sys_get_le24 src s = do { a \<leftarrow> get_byte src (s + 2); b \<leftarrow> sys_get_le16 src s; Some (push_bit 16 (ucast a) OR ucast b) }"

definition sys_get_le32 :: "u8 list \<Rightarrow> nat \<Rightarrow> u32 option" where
  "sys_get_le32 src s = do { a \<leftarrow> sys_get_le16 src (s + 2); b \<leftarrow> sys_get_le16 src s; Some (push_bit 16 (ucast a) OR ucast b) }"

definition sys_get_le40 :: "u8 list \<Rightarrow> nat \<Rightarrow> u64 option" where
  "sys_get_le40 src s = do { a \<leftarrow> sys_get_le32 src (s + 1); b \<leftarrow> get_byte src s; Some (push_bit 8 (ucast a) OR ucast b) }"

definition sys_get_le48 :: "u8 list \<Rightarrow> nat \<Rightarrow> u64 option" where
  "sys_get_le48 src s = do { a \<leftarrow> sys_get_le32 src (s + 2); b \<leftarrow> sys_get_le16 src s; Some (push_bit 16 (ucast a) OR ucast b) }"

definition sys_get_le64 :: "u8 list \<Rightarrow> nat \<Rightarrow> u64 option" where
  "sys_get_le64 src s = do { a \<leftarrow> sys_get_le32 src (s + 4); b \<leftarrow> sys_get_le32 src s; Some (push_bit 32 (ucast a) OR ucast b) }"

section \<open>Byte sequences\<close>

definition put_bytes :: "nat \<Rightarrow> u8 list \<Rightarrow> u8 list \<Rightarrow> u8 list option" where
  "put_bytes d bs dst =
     (if d + length bs \<le> length dst then Some (take d dst @ bs @ drop (d + length bs) dst) else None)"

definition get_bytes :: "u8 list \<Rightarrow> nat \<Rightarrow> nat \<Rightarrow> u8 list option" where
  "get_bytes src s n = (if s + n \<le> length src then Some (take n (drop s src)) else None)"

definition le_bytes :: "nat \<Rightarrow> 'a::len word \<Rightarrow> u8 list" where
  "le_bytes n v = map (\<lambda>i. ucast (drop_bit (8 * i) v)) [0..<n]"

definition be_bytes :: "nat \<Rightarrow> 'a::len word \<Rightarrow> u8 list" where
  "be_bytes n v = rev (le_bytes n v)"

lemma length_bytes [simp]: "length (le_bytes n v) = n" "length (be_bytes n v) = n"
  by (simp_all add: le_bytes_def be_bytes_def)

lemma put_byte_bytes: "put_byte d b = put_bytes d [b]"
  by (auto simp: put_byte_def put_bytes_def fun_eq_iff upd_conv_take_nth_drop)

lemma put_bytes_append: "put_bytes d (xs @ ys) dst = put_bytes d xs dst \<bind> put_bytes (d + length xs) ys"
  by (auto simp: put_bytes_def ac_simps)

lemma le_bytes_split: "le_bytes (m + n) v = le_bytes m v @ le_bytes n (drop_bit (8 * m) v)"
proof -
  have list: "[0..<m + n] = [0..<m] @ map (\<lambda>i. m + i) [0..<n]"
    by (rule nth_equalityI) (auto simp: nth_append)
  have bits: "drop_bit (8 * (m + i)) v = drop_bit (8 * i) (drop_bit (8 * m) v)" for i
    by (simp add: drop_bit_drop_bit distrib_left add.commute)
  show ?thesis unfolding le_bytes_def list map_append map_map comp_def bits ..
qed

lemma be_bytes_split: "be_bytes (m + n) v = be_bytes m (drop_bit (8 * n) v) @ be_bytes n v"
  using le_bytes_split [of n m v] by (simp add: be_bytes_def add.commute)

lemma le_bytes_one: "le_bytes 1 v = [ucast v]" "be_bytes 1 v = [ucast v]"
  by (simp_all add: le_bytes_def be_bytes_def)

lemma le_bytes_ucast:
  fixes v :: "'a::len word"
  assumes "8 * n \<le> LENGTH('b)"
  shows "le_bytes n (ucast v :: 'b::len word) = le_bytes n v" "be_bytes n (ucast v :: 'b::len word) = be_bytes n v"
proof -
  have "ucast (drop_bit (8 * i) (ucast v :: 'b word)) = (ucast (drop_bit (8 * i) v) :: u8)" if "i < n" for i
    by (rule bit_word_eqI) (use that assms in \<open>auto simp: bit_simps\<close>)
  then show "le_bytes n (ucast v :: 'b::len word) = le_bytes n v" by (simp add: le_bytes_def)
  then show "be_bytes n (ucast v :: 'b::len word) = be_bytes n v" by (simp add: be_bytes_def)
qed

text \<open>One multi-byte field is the concatenation of its parts.\<close>

lemma put_parts:
  "k = m + n \<Longrightarrow> put_bytes d (be_bytes m (drop_bit (8 * n) v)) dst \<bind> put_bytes (d + m) (be_bytes n v)
     = put_bytes d (be_bytes k v) dst"
  "k = m + n \<Longrightarrow> put_bytes d (le_bytes m v) dst \<bind> put_bytes (d + m) (le_bytes n (drop_bit (8 * m) v))
     = put_bytes d (le_bytes k v) dst"
  by (simp_all add: be_bytes_split le_bytes_split put_bytes_append)

lemma put_one: "put_byte d (ucast v) = put_bytes d (be_bytes 1 v)" "put_byte d (ucast v) = put_bytes d (le_bytes 1 v)"
  by (simp_all add: put_byte_bytes le_bytes_one del: One_nat_def)

lemma put_16: "sys_put_be16 v d dst = put_bytes d (be_bytes 2 v) dst" "sys_put_le16 v d dst = put_bytes d (le_bytes 2 v) dst"
  unfolding sys_put_be16_def sys_put_le16_def
  using put_parts [of 2 1 1 d v dst]
  by (simp add: put_one(1) del: One_nat_def, simp add: put_one(2) del: One_nat_def)

lemma put_24: "sys_put_be24 v d dst = put_bytes d (be_bytes 3 v) dst" "sys_put_le24 v d dst = put_bytes d (le_bytes 3 v) dst"
  unfolding sys_put_be24_def sys_put_le24_def put_16
  using put_parts(1) [of 3 1 2 d v dst] put_parts(2) [of 3 2 1 d v dst]
  by (simp add: put_one(1) le_bytes_ucast del: One_nat_def, simp add: put_one(2) le_bytes_ucast del: One_nat_def)

lemma put_32: "sys_put_be32 v d dst = put_bytes d (be_bytes 4 v) dst" "sys_put_le32 v d dst = put_bytes d (le_bytes 4 v) dst"
  unfolding sys_put_be32_def sys_put_le32_def put_16
  using put_parts [of 4 2 2 d v dst] by (simp_all add: le_bytes_ucast)

lemma put_40: "sys_put_be40 v d dst = put_bytes d (be_bytes 5 v) dst" "sys_put_le40 v d dst = put_bytes d (le_bytes 5 v) dst"
  unfolding sys_put_be40_def sys_put_le40_def put_32
  using put_parts(1) [of 5 1 4 d v dst] put_parts(2) [of 5 4 1 d v dst]
  by (simp add: put_one(1) le_bytes_ucast del: One_nat_def, simp add: put_one(2) le_bytes_ucast del: One_nat_def)

lemma put_48: "sys_put_be48 v d dst = put_bytes d (be_bytes 6 v) dst" "sys_put_le48 v d dst = put_bytes d (le_bytes 6 v) dst"
  unfolding sys_put_be48_def sys_put_le48_def put_16 put_32
  using put_parts(1) [of 6 2 4 d v dst] put_parts(2) [of 6 4 2 d v dst] by (simp_all add: le_bytes_ucast)

lemma put_64: "sys_put_be64 v d dst = put_bytes d (be_bytes 8 v) dst" "sys_put_le64 v d dst = put_bytes d (le_bytes 8 v) dst"
  unfolding sys_put_be64_def sys_put_le64_def put_32
  using put_parts [of 8 4 4 d v dst] by (simp_all add: le_bytes_ucast)

lemmas put_specs = put_16 put_24 put_32 put_40 put_48 put_64

section \<open>Numbers from bytes\<close>

primrec of_le :: "u8 list \<Rightarrow> 'a::len word" where
  "of_le [] = 0"
| "of_le (b # bs) = ucast b OR push_bit 8 (of_le bs)"

definition of_be :: "u8 list \<Rightarrow> 'a::len word" where
  "of_be bs = of_le (rev bs)"

lemma bit_of_le:
  "bit (of_le bs :: 'a::len word) n \<longleftrightarrow> n < LENGTH('a) \<and> n div 8 < length bs \<and> bit (bs ! (n div 8)) (n mod 8)"
proof (induction bs arbitrary: n)
  case Nil
  then show ?case by simp
next
  case (Cons b bs)
  show ?case
  proof (cases "n < 8")
    case True
    then show ?thesis by (auto simp: bit_simps)
  next
    case False
    then have "n div 8 = Suc ((n - 8) div 8)" "n mod 8 = (n - 8) mod 8" by (simp_all add: div_if mod_if)
    with False show ?thesis using Cons.IH [of "n - 8"] bit_imp_le_length [of b n]
      by (auto simp: bit_simps)
  qed
qed

lemma of_le_append:
  "(of_le (xs @ ys) :: 'a::len word) = of_le xs OR push_bit (8 * length xs) (of_le ys)"
proof (induction xs)
  case Nil
  then show ?case by simp
next
  case (Cons x xs)
  then show ?case
    by (simp add: push_bit_or or.assoc push_bit_push_bit add.commute)
qed

lemma ucast_of_le:
  assumes "8 * length bs \<le> LENGTH('b)"
  shows "ucast (of_le bs :: 'b::len word) = (of_le bs :: 'a::len word)"
proof (rule bit_word_eqI)
  fix n assume "n < LENGTH('a)"
  moreover have "n < LENGTH('b)" if "n div 8 < length bs" using that assms by simp
  ultimately show "bit (ucast (of_le bs :: 'b word) :: 'a word) n = bit (of_le bs :: 'a word) n"
    by (auto simp: bit_simps bit_of_le)
qed

lemma of_le_bytes:
  "(of_le (le_bytes n (v :: 'a::len word)) :: 'a word) = take_bit (8 * n) v"
proof (rule bit_word_eqI)
  fix k assume "k < LENGTH('a)"
  then show "bit (of_le (le_bytes n v) :: 'a word) k = bit (take_bit (8 * n) v) k"
    by (auto simp: bit_of_le le_bytes_def bit_simps)
qed

lemma of_le_single [simp]: "of_le [b] = ucast b"
  by simp

text \<open>Reading a field in parts.\<close>

lemma get_bytes_append:
  "get_bytes src s (m + n) = do { a \<leftarrow> get_bytes src s m; b \<leftarrow> get_bytes src (s + m) n; Some (a @ b) }"
  by (auto simp: get_bytes_def take_add ac_simps)

lemma get_bytes_length: "get_bytes src s n = Some bs \<Longrightarrow> length bs = n"
  by (auto simp: get_bytes_def split: if_splits)

lemma of_be_append: "(of_be (xs @ ys) :: 'a::len word) = push_bit (8 * length ys) (of_be xs) OR of_be ys"
  by (simp add: of_be_def of_le_append or.commute)

lemma ucast_of_be: "8 * length bs \<le> LENGTH('b) \<Longrightarrow> ucast (of_be bs :: 'b::len word) = (of_be bs :: 'a::len word)"
  by (simp add: of_be_def ucast_of_le)

lemma get_byte_bytes:
  "get_byte src s = map_option of_le (get_bytes src s 1)" "get_byte src s = map_option of_be (get_bytes src s 1)"
proof -
  have "take (Suc 0) (drop s src) = [src ! s]" if "s < length src"
    using that by (simp add: Cons_nth_drop_Suc [symmetric])
  then show "get_byte src s = map_option of_le (get_bytes src s 1)" "get_byte src s = map_option of_be (get_bytes src s 1)"
    by (auto simp: get_byte_def get_bytes_def of_be_def)
qed

lemma get_parts_le:
  assumes "8 * m \<le> LENGTH('b)" "8 * n \<le> LENGTH('c)" "k = m + n" "p = 8 * m"
  shows "do {
      b \<leftarrow> map_option (of_le :: _ \<Rightarrow> 'c::len word) (get_bytes src (s + m) n);
      a \<leftarrow> map_option (of_le :: _ \<Rightarrow> 'b::len word) (get_bytes src s m);
      Some (push_bit p (ucast b :: 'a::len word) OR ucast a)
    } = map_option of_le (get_bytes src s k)"
  using assms by (auto simp: get_bytes_append get_bytes_length ucast_of_le of_le_append or.commute
      split: option.split bind_split)

lemma get_parts_be:
  assumes "8 * m \<le> LENGTH('b)" "8 * n \<le> LENGTH('c)" "k = m + n" "p = 8 * n"
  shows "do {
      a \<leftarrow> map_option (of_be :: _ \<Rightarrow> 'b::len word) (get_bytes src s m);
      b \<leftarrow> map_option (of_be :: _ \<Rightarrow> 'c::len word) (get_bytes src (s + m) n);
      Some (push_bit p (ucast a :: 'a::len word) OR ucast b)
    } = map_option of_be (get_bytes src s k)"
  using assms by (auto simp: get_bytes_append get_bytes_length ucast_of_be of_be_append
      split: option.split bind_split)

lemma get_be16: "sys_get_be16 src s = map_option of_be (get_bytes src s 2)"
  unfolding sys_get_be16_def get_byte_bytes(2)
  by (rule get_parts_be [where m = 1 and n = 1]) simp_all

lemma get_le16: "sys_get_le16 src s = map_option of_le (get_bytes src s 2)"
  unfolding sys_get_le16_def get_byte_bytes(1)
  by (rule get_parts_le [where m = 1 and n = 1]) simp_all

lemmas get_16 = get_be16 get_le16

lemma get_be24: "sys_get_be24 src s = map_option of_be (get_bytes src s 3)"
  unfolding sys_get_be24_def get_16 get_byte_bytes(2)
  by (rule get_parts_be [where m = 1 and n = 2]) simp_all

lemma get_le24: "sys_get_le24 src s = map_option of_le (get_bytes src s 3)"
  unfolding sys_get_le24_def get_16 get_byte_bytes(1)
  by (rule get_parts_le [where m = 2 and n = 1]) simp_all

lemmas get_24 = get_be24 get_le24

lemma get_be32: "sys_get_be32 src s = map_option of_be (get_bytes src s 4)"
  unfolding sys_get_be32_def get_16
  by (rule get_parts_be [where m = 2 and n = 2]) simp_all

lemma get_le32: "sys_get_le32 src s = map_option of_le (get_bytes src s 4)"
  unfolding sys_get_le32_def get_16
  by (rule get_parts_le [where m = 2 and n = 2]) simp_all

lemmas get_32 = get_be32 get_le32

lemma get_be40: "sys_get_be40 src s = map_option of_be (get_bytes src s 5)"
  unfolding sys_get_be40_def get_32 get_byte_bytes(2)
  by (rule get_parts_be [where m = 4 and n = 1]) simp_all

lemma get_le40: "sys_get_le40 src s = map_option of_le (get_bytes src s 5)"
  unfolding sys_get_le40_def get_32 get_byte_bytes(1)
  by (rule get_parts_le [where m = 1 and n = 4]) simp_all

lemmas get_40 = get_be40 get_le40

lemma get_be48: "sys_get_be48 src s = map_option of_be (get_bytes src s 6)"
  unfolding sys_get_be48_def get_16 get_32
  by (rule get_parts_be [where m = 4 and n = 2]) simp_all

lemma get_le48: "sys_get_le48 src s = map_option of_le (get_bytes src s 6)"
  unfolding sys_get_le48_def get_16 get_32
  by (rule get_parts_le [where m = 2 and n = 4]) simp_all

lemmas get_48 = get_be48 get_le48

lemma get_be64: "sys_get_be64 src s = map_option of_be (get_bytes src s 8)"
  unfolding sys_get_be64_def get_32
  by (rule get_parts_be [where m = 4 and n = 4]) simp_all

lemma get_le64: "sys_get_le64 src s = map_option of_le (get_bytes src s 8)"
  unfolding sys_get_le64_def get_32
  by (rule get_parts_le [where m = 4 and n = 4]) simp_all

lemmas get_64 = get_be64 get_le64

lemmas get_specs = get_16 get_24 get_32 get_40 get_48 get_64

section \<open>Round trips\<close>

lemma le_bytes_of_le:
  assumes "8 * length bs \<le> LENGTH('a)"
  shows "le_bytes (length bs) (of_le bs :: 'a::len word) = bs"
proof (rule nth_equalityI)
  fix i assume i: "i < length (le_bytes (length bs) (of_le bs :: 'a word))"
  show "le_bytes (length bs) (of_le bs :: 'a word) ! i = bs ! i"
  proof (rule bit_word_eqI)
    fix j assume j: "j < LENGTH(8)"
    have "8 * i + j < LENGTH('a)" using i j assms by simp
    moreover have "(8 * i + j) div 8 = i" "(8 * i + j) mod 8 = j" using j by simp_all
    ultimately show "bit (le_bytes (length bs) (of_le bs :: 'a word) ! i) j = bit (bs ! i) j"
      using i j by (auto simp: le_bytes_def bit_simps bit_of_le)
  qed
qed simp

lemma be_bytes_of_be: "8 * length bs \<le> LENGTH('a) \<Longrightarrow> be_bytes (length bs) (of_be bs :: 'a::len word) = bs"
  using le_bytes_of_le [of "rev bs", where 'a = 'a] by (simp add: be_bytes_def of_be_def)

lemma put_get_bytes:
  "d + length bs \<le> length dst \<Longrightarrow> put_bytes d bs dst \<bind> (\<lambda>b. get_bytes b d (length bs)) = Some bs"
  by (simp add: put_bytes_def get_bytes_def)

lemma put_get_le:
  fixes v :: "'a::len word"
  assumes "d + n \<le> length dst"
  shows "put_bytes d (le_bytes n v) dst \<bind> (\<lambda>b. map_option of_le (get_bytes b d n)) = Some (take_bit (8 * n) v)"
    "put_bytes d (be_bytes n v) dst \<bind> (\<lambda>b. map_option of_be (get_bytes b d n)) = Some (take_bit (8 * n) v)"
  using put_get_bytes [of d "le_bytes n v" dst] put_get_bytes [of d "be_bytes n v" dst] assms
  by (auto simp: put_bytes_def get_bytes_def of_le_bytes of_be_def be_bytes_def)

lemma get_put_le:
  fixes v :: "'a::len word"
  assumes "8 * n \<le> LENGTH('a)"
  shows "map_option of_le (get_bytes buf d n) = Some v \<Longrightarrow> put_bytes d (le_bytes n v) buf = Some buf"
    "map_option of_be (get_bytes buf d n) = Some v \<Longrightarrow> put_bytes d (be_bytes n v) buf = Some buf"
proof -
  have "take d buf @ take n (drop d buf) @ drop (d + n) buf = buf"
    by (metis append_assoc append_take_drop_id take_add)
  then have "put_bytes d bs buf = Some buf" "length bs = n" if "get_bytes buf d n = Some bs" for bs
    using that by (auto simp: get_bytes_def put_bytes_def split: if_splits)
  then show "map_option of_le (get_bytes buf d n) = Some v \<Longrightarrow> put_bytes d (le_bytes n v) buf = Some buf"
    "map_option of_be (get_bytes buf d n) = Some v \<Longrightarrow> put_bytes d (be_bytes n v) buf = Some buf"
    using le_bytes_of_le [where 'a = 'a] be_bytes_of_be [where 'a = 'a] assms by fastforce+
qed

lemma take_bit_full: "take_bit 16 (v :: u16) = v" "take_bit 32 (w :: u32) = w" "take_bit 64 (x :: u64) = x"
  by (simp_all add: take_bit_word_eq_self)

text \<open>C22: What a put writes, the get of the same width and order reads back; the widths of 24, 40
  and 48 bits keep the low bits of the value.\<close>

theorem byteorder_put_get:
  assumes "d + 8 \<le> length dst"
  shows "sys_put_be16 a d dst \<bind> (\<lambda>m. sys_get_be16 m d) = Some a
     \<and> sys_put_le16 a d dst \<bind> (\<lambda>m. sys_get_le16 m d) = Some a
     \<and> sys_put_be24 b d dst \<bind> (\<lambda>m. sys_get_be24 m d) = Some (take_bit 24 b)
     \<and> sys_put_le24 b d dst \<bind> (\<lambda>m. sys_get_le24 m d) = Some (take_bit 24 b)
     \<and> sys_put_be32 b d dst \<bind> (\<lambda>m. sys_get_be32 m d) = Some b
     \<and> sys_put_le32 b d dst \<bind> (\<lambda>m. sys_get_le32 m d) = Some b
     \<and> sys_put_be40 c d dst \<bind> (\<lambda>m. sys_get_be40 m d) = Some (take_bit 40 c)
     \<and> sys_put_le40 c d dst \<bind> (\<lambda>m. sys_get_le40 m d) = Some (take_bit 40 c)
     \<and> sys_put_be48 c d dst \<bind> (\<lambda>m. sys_get_be48 m d) = Some (take_bit 48 c)
     \<and> sys_put_le48 c d dst \<bind> (\<lambda>m. sys_get_le48 m d) = Some (take_bit 48 c)
     \<and> sys_put_be64 c d dst \<bind> (\<lambda>m. sys_get_be64 m d) = Some c
     \<and> sys_put_le64 c d dst \<bind> (\<lambda>m. sys_get_le64 m d) = Some c"
  using assms by (simp add: put_specs get_specs put_get_le take_bit_full)

theorem byteorder_put_get_witness:
  "sys_put_be48 0x010203040506 0 (replicate 8 0) \<bind> (\<lambda>m. sys_get_be48 m 0) = Some 0x010203040506"
  using byteorder_put_get [of 0 "replicate 8 0"] by simp

text \<open>Writing back what was read leaves the bytes as they were.\<close>

theorem byteorder_get_put:
  "(sys_get_be16 buf d = Some a \<longrightarrow> sys_put_be16 a d buf = Some buf)
     \<and> (sys_get_le16 buf d = Some a \<longrightarrow> sys_put_le16 a d buf = Some buf)
     \<and> (sys_get_be24 buf d = Some b \<longrightarrow> sys_put_be24 b d buf = Some buf)
     \<and> (sys_get_le24 buf d = Some b \<longrightarrow> sys_put_le24 b d buf = Some buf)
     \<and> (sys_get_be32 buf d = Some b \<longrightarrow> sys_put_be32 b d buf = Some buf)
     \<and> (sys_get_le32 buf d = Some b \<longrightarrow> sys_put_le32 b d buf = Some buf)
     \<and> (sys_get_be40 buf d = Some c \<longrightarrow> sys_put_be40 c d buf = Some buf)
     \<and> (sys_get_le40 buf d = Some c \<longrightarrow> sys_put_le40 c d buf = Some buf)
     \<and> (sys_get_be48 buf d = Some c \<longrightarrow> sys_put_be48 c d buf = Some buf)
     \<and> (sys_get_le48 buf d = Some c \<longrightarrow> sys_put_le48 c d buf = Some buf)
     \<and> (sys_get_be64 buf d = Some c \<longrightarrow> sys_put_be64 c d buf = Some buf)
     \<and> (sys_get_le64 buf d = Some c \<longrightarrow> sys_put_le64 c d buf = Some buf)"
  by (auto simp: put_specs get_specs get_put_le)

theorem byteorder_get_put_witness:
  "sys_get_le24 [1, 2, 3, 4] 1 = Some 0x040302 \<and> sys_put_le24 0x040302 1 [1, 2, 3, 4] = Some [1, 2, 3, 4]"
proof -
  have get: "sys_get_le24 [1, 2, 3, 4] 1 = Some 0x040302"
    by (simp add: sys_get_le24_def sys_get_le16_def get_byte_def)
  with byteorder_get_put [of "[1, 2, 3, 4]" 1] show ?thesis by blast
qed

section \<open>Swaps relate the two orders\<close>

lemma mask_fields:
  fixes x :: "'a::len word"
  shows "x AND 0xff = take_bit 8 x" "x AND 0xff00 = push_bit 8 (take_bit 8 (drop_bit 8 x))"
    "x AND 0xff0000 = push_bit 16 (take_bit 8 (drop_bit 16 x))"
    "x AND 0xff000000 = push_bit 24 (take_bit 8 (drop_bit 24 x))"
proof -
  have masks: "0xff = (mask 8 :: 'a word)" "0xff00 = (push_bit 8 (mask 8) :: 'a word)"
    "0xff0000 = (push_bit 16 (mask 8) :: 'a word)" "0xff000000 = (push_bit 24 (mask 8) :: 'a word)"
    by (simp_all add: mask_eq_exp_minus_1 push_bit_eq_mult)
  show "x AND 0xff = take_bit 8 x" unfolding masks by (simp add: take_bit_eq_mask)
  show "x AND 0xff00 = push_bit 8 (take_bit 8 (drop_bit 8 x))" unfolding masks(2)
    by (rule bit_word_eqI) (auto simp: bit_simps)
  show "x AND 0xff0000 = push_bit 16 (take_bit 8 (drop_bit 16 x))" unfolding masks(3)
    by (rule bit_word_eqI) (auto simp: bit_simps)
  show "x AND 0xff000000 = push_bit 24 (take_bit 8 (drop_bit 24 x))" unfolding masks(4)
    by (rule bit_word_eqI) (auto simp: bit_simps)
qed

lemma byte_field: "ucast (ucast (y :: 'a::len word) :: u8) = take_bit 8 y" if "8 \<le> LENGTH('a)"
  by (rule bit_word_eqI) (use that in \<open>auto simp: bit_simps\<close>)

lemma le_bytes_list:
  "le_bytes 2 x = [ucast x, ucast (drop_bit 8 x)]"
  "le_bytes 3 x = [ucast x, ucast (drop_bit 8 x), ucast (drop_bit 16 x)]"
  "le_bytes 4 x = [ucast x, ucast (drop_bit 8 x), ucast (drop_bit 16 x), ucast (drop_bit 24 x)]"
  "le_bytes 5 x = [ucast x, ucast (drop_bit 8 x), ucast (drop_bit 16 x), ucast (drop_bit 24 x), ucast (drop_bit 32 x)]"
  "le_bytes 6 x = [ucast x, ucast (drop_bit 8 x), ucast (drop_bit 16 x), ucast (drop_bit 24 x), ucast (drop_bit 32 x), ucast (drop_bit 40 x)]"
  "le_bytes 8 x = [ucast x, ucast (drop_bit 8 x), ucast (drop_bit 16 x), ucast (drop_bit 24 x), ucast (drop_bit 32 x), ucast (drop_bit 40 x), ucast (drop_bit 48 x), ucast (drop_bit 56 x)]"
  by (simp_all add: le_bytes_def upt_conv_Cons)

lemmas swap_simps = of_be_def le_bytes_list mask_fields byte_field push_bit_or push_bit_push_bit drop_bit_drop_bit
  or.assoc or.commute or.left_commute

lemma bswap_16: "BSWAP_16 x = of_be (le_bytes 2 x)"
  by (simp add: BSWAP_16_def swap_simps)

lemma bswap_24: "BSWAP_24 x = of_be (le_bytes 3 x)"
  by (simp add: BSWAP_24_def swap_simps)

lemma bswap_32: "BSWAP_32 x = of_be (le_bytes 4 x)"
  by (simp add: BSWAP_32_def swap_simps)

lemma bswap_40: "BSWAP_40 x = of_be (le_bytes 5 x)"
  by (simp add: BSWAP_40_def swap_simps)

lemma bswap_48: "BSWAP_48 x = of_be (le_bytes 6 x)"
  by (simp add: BSWAP_48_def swap_simps)

lemma bswap_64: "BSWAP_64 x = of_be (le_bytes 8 x)"
  by (simp add: BSWAP_64_def swap_simps)

lemma be_le_swap:
  fixes v :: "'a::len word"
  assumes "8 * k \<le> LENGTH('a)"
  shows "le_bytes k (of_be (le_bytes k v) :: 'a word) = be_bytes k v"
    and "(of_be (be_bytes k v) :: 'a word) = take_bit (8 * k) v"
proof -
  show swap: "le_bytes k (of_be (le_bytes k v) :: 'a word) = be_bytes k v"
    using le_bytes_of_le [of "be_bytes k v", where 'a = 'a] assms by (simp add: be_bytes_def of_be_def)
  show "(of_be (be_bytes k v) :: 'a word) = take_bit (8 * k) v"
    by (simp add: be_bytes_def of_be_def of_le_bytes)
qed

lemma get_swap:
  assumes "8 * k \<le> LENGTH('a)"
  shows "map_option of_be (get_bytes src s k) = map_option (\<lambda>v. of_be (le_bytes k v)) (map_option (of_le :: _ \<Rightarrow> 'a::len word) (get_bytes src s k))"
proof (cases "get_bytes src s k")
  case (Some bs)
  with get_bytes_length [OF Some] le_bytes_of_le [of bs, where 'a = 'a] assms show ?thesis by simp
qed simp

text \<open>In every width the big-endian accessors are the little-endian ones on swapped values, and
  swapping twice gives the value back (its low bits, for 24, 40 and 48).\<close>

theorem byteorder_swap:
  "sys_put_be16 a d buf = sys_put_le16 (BSWAP_16 a) d buf
     \<and> sys_put_be24 b d buf = sys_put_le24 (BSWAP_24 b) d buf
     \<and> sys_put_be32 b d buf = sys_put_le32 (BSWAP_32 b) d buf
     \<and> sys_put_be40 c d buf = sys_put_le40 (BSWAP_40 c) d buf
     \<and> sys_put_be48 c d buf = sys_put_le48 (BSWAP_48 c) d buf
     \<and> sys_put_be64 c d buf = sys_put_le64 (BSWAP_64 c) d buf
     \<and> sys_get_be16 buf d = map_option BSWAP_16 (sys_get_le16 buf d)
     \<and> sys_get_be24 buf d = map_option BSWAP_24 (sys_get_le24 buf d)
     \<and> sys_get_be32 buf d = map_option BSWAP_32 (sys_get_le32 buf d)
     \<and> sys_get_be40 buf d = map_option BSWAP_40 (sys_get_le40 buf d)
     \<and> sys_get_be48 buf d = map_option BSWAP_48 (sys_get_le48 buf d)
     \<and> sys_get_be64 buf d = map_option BSWAP_64 (sys_get_le64 buf d)
     \<and> BSWAP_16 (BSWAP_16 a) = a
     \<and> BSWAP_24 (BSWAP_24 b) = take_bit 24 b
     \<and> BSWAP_32 (BSWAP_32 b) = b
     \<and> BSWAP_40 (BSWAP_40 c) = take_bit 40 c
     \<and> BSWAP_48 (BSWAP_48 c) = take_bit 48 c
     \<and> BSWAP_64 (BSWAP_64 c) = c"
  by (simp add: put_specs get_specs bswap_16 bswap_24 bswap_32 bswap_40 bswap_48 bswap_64 be_le_swap
      get_swap [where 'a = 16] get_swap [where 'a = 32] get_swap [where 'a = 64] take_bit_full
      option.map_comp comp_def)

section \<open>Memory in either order\<close>

text \<open>The loop of \<open>sys_mem_swap\<close>; \<open>i\<close> runs up to half the length.\<close>

fun mem_swap_loop :: "nat \<Rightarrow> nat \<Rightarrow> nat \<Rightarrow> u8 list \<Rightarrow> u8 list option" where
  "mem_swap_loop i 0 n buf = Some buf"
| "mem_swap_loop i (Suc k) n buf = do {
     tmp \<leftarrow> get_byte buf i;
     b \<leftarrow> get_byte buf (n - 1 - i);
     buf \<leftarrow> put_byte i b buf;
     buf \<leftarrow> put_byte (n - 1 - i) tmp buf;
     mem_swap_loop (Suc i) k n buf
   }"

definition sys_mem_swap :: "u8 list \<Rightarrow> nat \<Rightarrow> u8 list option" where
  "sys_mem_swap buf n = mem_swap_loop 0 (n div 2) n buf"

definition sys_le_to_cpu :: "bool \<Rightarrow> u8 list \<Rightarrow> nat \<Rightarrow> u8 list option" where
  "sys_le_to_cpu big buf n = (if big then sys_mem_swap buf n else Some buf)"

definition sys_cpu_to_le :: "bool \<Rightarrow> u8 list \<Rightarrow> nat \<Rightarrow> u8 list option" where
  "sys_cpu_to_le big buf n = (if big then sys_mem_swap buf n else Some buf)"

definition sys_be_to_cpu :: "bool \<Rightarrow> u8 list \<Rightarrow> nat \<Rightarrow> u8 list option" where
  "sys_be_to_cpu little buf n = (if little then sys_mem_swap buf n else Some buf)"

definition sys_cpu_to_be :: "bool \<Rightarrow> u8 list \<Rightarrow> nat \<Rightarrow> u8 list option" where
  "sys_cpu_to_be little buf n = (if little then sys_mem_swap buf n else Some buf)"

text \<open>
  Two pointers into one memory: \<open>d\<close> and \<open>s\<close> are addresses in \<open>mem\<close>. The copy loop of
  \<open>sys_memcpy_swap\<close> walks the source backwards; \<open>ps\<close> is one past the byte it reads next.
\<close>

fun memcpy_swap_loop :: "nat \<Rightarrow> nat \<Rightarrow> nat \<Rightarrow> u8 list \<Rightarrow> u8 list option" where
  "memcpy_swap_loop pd ps 0 mem = Some mem"
| "memcpy_swap_loop pd ps (Suc k) mem = do {
     b \<leftarrow> get_byte mem (ps - 1);
     mem \<leftarrow> put_byte pd b mem;
     memcpy_swap_loop (Suc pd) (ps - 1) k mem
   }"

definition sys_memcpy_swap :: "nat \<Rightarrow> nat \<Rightarrow> nat \<Rightarrow> u8 list \<Rightarrow> u8 list option" where
  "sys_memcpy_swap d s n mem =
     (if (s < d \<and> s + n \<le> d) \<or> (s > d \<and> d + n \<le> s) then Some mem
      else memcpy_swap_loop d (s + n) n mem)"

text \<open>\<open>memcpy\<close> on overlapping areas is undefined.\<close>

definition c_memcpy :: "nat \<Rightarrow> nat \<Rightarrow> nat \<Rightarrow> u8 list \<Rightarrow> u8 list option" where
  "c_memcpy d s n mem =
     (if s + n \<le> d \<or> d + n \<le> s then do { bs \<leftarrow> get_bytes mem s n; put_bytes d bs mem } else None)"

definition sys_put_le :: "bool \<Rightarrow> nat \<Rightarrow> nat \<Rightarrow> nat \<Rightarrow> u8 list \<Rightarrow> u8 list option" where
  "sys_put_le little d s n mem = (if little then c_memcpy d s n mem else sys_memcpy_swap d s n mem)"

definition sys_put_be :: "bool \<Rightarrow> nat \<Rightarrow> nat \<Rightarrow> nat \<Rightarrow> u8 list \<Rightarrow> u8 list option" where
  "sys_put_be little d s n mem = (if little then sys_memcpy_swap d s n mem else c_memcpy d s n mem)"

definition sys_get_le :: "bool \<Rightarrow> nat \<Rightarrow> nat \<Rightarrow> nat \<Rightarrow> u8 list \<Rightarrow> u8 list option" where
  "sys_get_le little d s n mem = (if little then c_memcpy d s n mem else sys_memcpy_swap d s n mem)"

definition sys_get_be :: "bool \<Rightarrow> nat \<Rightarrow> nat \<Rightarrow> nat \<Rightarrow> u8 list \<Rightarrow> u8 list option" where
  "sys_get_be little d s n mem = (if little then sys_memcpy_swap d s n mem else c_memcpy d s n mem)"

text \<open>The swap loop exchanges the ends and works inwards.\<close>

lemma swap_ends:
  "do {
     tmp \<leftarrow> get_byte (pre @ x # ys @ y # post) (length pre);
     b \<leftarrow> get_byte (pre @ x # ys @ y # post) (length pre + length ys + 1);
     buf \<leftarrow> put_byte (length pre) b (pre @ x # ys @ y # post);
     buf \<leftarrow> put_byte (length pre + length ys + 1) tmp buf;
     f buf
   } = f (pre @ y # ys @ x # post)"
  by (simp add: get_byte_def put_byte_def nth_append list_update_append)

lemma mem_swap_loop_spec:
  assumes "k = length xs div 2" "n = 2 * length pre + length xs"
  shows "mem_swap_loop (length pre) k n (pre @ xs @ post) = Some (pre @ rev xs @ post)"
  using assms
proof (induction k arbitrary: pre xs post)
  case 0
  then have "length xs \<le> 1" by simp
  then have "rev xs = xs" by (cases xs) auto
  then show ?case by simp
next
  case (Suc k)
  then have "2 \<le> length xs" by arith
  then obtain x zs where "xs = x # zs" "1 \<le> length zs" by (cases xs) auto
  moreover then have "zs \<noteq> []" by auto
  ultimately obtain ys y where xs: "xs = x # ys @ [y]" using rev_exhaust [of zs] by blast
  have last: "n - 1 - length pre = length pre + length ys + 1" using Suc.prems xs by simp
  have "mem_swap_loop (length pre) (Suc k) n (pre @ xs @ post)
      = mem_swap_loop (Suc (length pre)) k n (pre @ y # ys @ x # post)"
    using swap_ends [of pre x ys y post "mem_swap_loop (Suc (length pre)) k n"]
    by (simp only: mem_swap_loop.simps last xs append_Cons append_assoc append_Nil)
  also have "\<dots> = Some ((pre @ [y]) @ rev ys @ x # post)"
    using Suc.IH [of ys "pre @ [y]" "x # post"] Suc.prems xs by simp
  finally show ?case by (simp add: xs)
qed

lemma sys_mem_swap_rev:
  assumes "n \<le> length buf"
  shows "sys_mem_swap buf n = Some (rev (take n buf) @ drop n buf)"
  using mem_swap_loop_spec [of "n div 2" "take n buf" n "[]" "drop n buf"] assms
  by (simp add: sys_mem_swap_def)

text \<open>\<open>sys_mem_swap\<close> reverses the first bytes of a buffer in place, whatever the parity of the
  length, and the conversions to and from the CPU's order undo each other.\<close>

theorem sys_mem_swap_reverses:
  assumes "n \<le> length buf"
  shows "sys_mem_swap buf n = Some (rev (take n buf) @ drop n buf)
     \<and> sys_cpu_to_le big buf n \<bind> (\<lambda>b. sys_le_to_cpu big b n) = Some buf
     \<and> sys_cpu_to_be little buf n \<bind> (\<lambda>b. sys_be_to_cpu little b n) = Some buf"
proof -
  have "sys_mem_swap (rev (take n buf) @ drop n buf) n = Some buf"
    using assms sys_mem_swap_rev [of n "rev (take n buf) @ drop n buf"] by simp
  then show ?thesis
    using sys_mem_swap_rev [OF assms]
    by (simp add: sys_cpu_to_le_def sys_le_to_cpu_def sys_cpu_to_be_def sys_be_to_cpu_def)
qed

theorem sys_mem_swap_reverses_witness:
  "sys_mem_swap [1, 2, 3, 4, 5] 3 = Some [3, 2, 1, 4, 5]"
  using sys_mem_swap_reverses [of 3 "[1, 2, 3, 4, 5]" False False] by simp

text \<open>\<open>sys_memcpy_swap\<close> copies nothing when the two areas are disjoint, which is the only case its
  description allows: on a little-endian machine \<open>sys_put_be\<close> and \<open>sys_get_be\<close> leave the
  destination as it was.\<close>

theorem memcpy_swap_does_nothing:
  assumes "s + n \<le> d \<or> d + n \<le> s" "n \<noteq> 0"
  shows "sys_memcpy_swap d s n mem = Some mem \<and> sys_put_be True d s n mem = Some mem
     \<and> sys_get_be True d s n mem = Some mem \<and> sys_put_le False d s n mem = Some mem"
  using assms by (auto simp: sys_memcpy_swap_def sys_put_be_def sys_get_be_def sys_put_le_def)

theorem memcpy_swap_does_nothing_witness:
  "sys_put_be True 0 4 4 [0, 0, 0, 0, 1, 2, 3, 4] = Some [0, 0, 0, 0, 1, 2, 3, 4]"
  using memcpy_swap_does_nothing [of 4 4 0] by simp

section \<open>Values in the CPU's order\<close>

definition sys_le16_to_cpu :: "bool \<Rightarrow> u16 \<Rightarrow> u16" where
  "sys_le16_to_cpu little v = (if little then v else BSWAP_16 v)"

definition sys_cpu_to_le16 :: "bool \<Rightarrow> u16 \<Rightarrow> u16" where
  "sys_cpu_to_le16 little v = (if little then v else BSWAP_16 v)"

definition sys_be16_to_cpu :: "bool \<Rightarrow> u16 \<Rightarrow> u16" where
  "sys_be16_to_cpu little v = (if little then BSWAP_16 v else v)"

definition sys_cpu_to_be16 :: "bool \<Rightarrow> u16 \<Rightarrow> u16" where
  "sys_cpu_to_be16 little v = (if little then BSWAP_16 v else v)"

definition sys_le24_to_cpu :: "bool \<Rightarrow> u32 \<Rightarrow> u32" where
  "sys_le24_to_cpu little v = (if little then v else BSWAP_24 v)"

definition sys_cpu_to_le24 :: "bool \<Rightarrow> u32 \<Rightarrow> u32" where
  "sys_cpu_to_le24 little v = (if little then v else BSWAP_24 v)"

definition sys_be24_to_cpu :: "bool \<Rightarrow> u32 \<Rightarrow> u32" where
  "sys_be24_to_cpu little v = (if little then BSWAP_24 v else v)"

definition sys_cpu_to_be24 :: "bool \<Rightarrow> u32 \<Rightarrow> u32" where
  "sys_cpu_to_be24 little v = (if little then BSWAP_24 v else v)"

definition sys_le32_to_cpu :: "bool \<Rightarrow> u32 \<Rightarrow> u32" where
  "sys_le32_to_cpu little v = (if little then v else BSWAP_32 v)"

definition sys_cpu_to_le32 :: "bool \<Rightarrow> u32 \<Rightarrow> u32" where
  "sys_cpu_to_le32 little v = (if little then v else BSWAP_32 v)"

definition sys_be32_to_cpu :: "bool \<Rightarrow> u32 \<Rightarrow> u32" where
  "sys_be32_to_cpu little v = (if little then BSWAP_32 v else v)"

definition sys_cpu_to_be32 :: "bool \<Rightarrow> u32 \<Rightarrow> u32" where
  "sys_cpu_to_be32 little v = (if little then BSWAP_32 v else v)"

definition sys_le40_to_cpu :: "bool \<Rightarrow> u64 \<Rightarrow> u64" where
  "sys_le40_to_cpu little v = (if little then v else BSWAP_40 v)"

definition sys_cpu_to_le40 :: "bool \<Rightarrow> u64 \<Rightarrow> u64" where
  "sys_cpu_to_le40 little v = (if little then v else BSWAP_40 v)"

definition sys_be40_to_cpu :: "bool \<Rightarrow> u64 \<Rightarrow> u64" where
  "sys_be40_to_cpu little v = (if little then BSWAP_40 v else v)"

definition sys_cpu_to_be40 :: "bool \<Rightarrow> u64 \<Rightarrow> u64" where
  "sys_cpu_to_be40 little v = (if little then BSWAP_40 v else v)"

definition sys_le48_to_cpu :: "bool \<Rightarrow> u64 \<Rightarrow> u64" where
  "sys_le48_to_cpu little v = (if little then v else BSWAP_48 v)"

definition sys_cpu_to_le48 :: "bool \<Rightarrow> u64 \<Rightarrow> u64" where
  "sys_cpu_to_le48 little v = (if little then v else BSWAP_48 v)"

definition sys_be48_to_cpu :: "bool \<Rightarrow> u64 \<Rightarrow> u64" where
  "sys_be48_to_cpu little v = (if little then BSWAP_48 v else v)"

definition sys_cpu_to_be48 :: "bool \<Rightarrow> u64 \<Rightarrow> u64" where
  "sys_cpu_to_be48 little v = (if little then BSWAP_48 v else v)"

definition sys_le64_to_cpu :: "bool \<Rightarrow> u64 \<Rightarrow> u64" where
  "sys_le64_to_cpu little v = (if little then v else BSWAP_64 v)"

definition sys_cpu_to_le64 :: "bool \<Rightarrow> u64 \<Rightarrow> u64" where
  "sys_cpu_to_le64 little v = (if little then v else BSWAP_64 v)"

definition sys_be64_to_cpu :: "bool \<Rightarrow> u64 \<Rightarrow> u64" where
  "sys_be64_to_cpu little v = (if little then BSWAP_64 v else v)"

definition sys_cpu_to_be64 :: "bool \<Rightarrow> u64 \<Rightarrow> u64" where
  "sys_cpu_to_be64 little v = (if little then BSWAP_64 v else v)"

definition sys_uint16_to_array :: "bool \<Rightarrow> u16 \<Rightarrow> u8 list" where
  "sys_uint16_to_array little v =
     (if little then [ucast (v AND 0xff), ucast (drop_bit 8 v AND 0xff)]
      else [ucast (drop_bit 8 v AND 0xff), ucast (v AND 0xff)])"

definition sys_uint32_to_array :: "bool \<Rightarrow> u32 \<Rightarrow> u8 list" where
  "sys_uint32_to_array little v =
     (if little then [ucast (v AND 0xff), ucast (drop_bit 8 v AND 0xff), ucast (drop_bit 16 v AND 0xff), ucast (drop_bit 24 v AND 0xff)]
      else [ucast (drop_bit 24 v AND 0xff), ucast (drop_bit 16 v AND 0xff), ucast (drop_bit 8 v AND 0xff), ucast (v AND 0xff)])"

definition sys_uint64_to_array :: "bool \<Rightarrow> u64 \<Rightarrow> u8 list" where
  "sys_uint64_to_array little v =
     (if little then [ucast (v AND 0xff), ucast (drop_bit 8 v AND 0xff), ucast (drop_bit 16 v AND 0xff), ucast (drop_bit 24 v AND 0xff), ucast (drop_bit 32 v AND 0xff), ucast (drop_bit 40 v AND 0xff), ucast (drop_bit 48 v AND 0xff), ucast (drop_bit 56 v AND 0xff)]
      else [ucast (drop_bit 56 v AND 0xff), ucast (drop_bit 48 v AND 0xff), ucast (drop_bit 40 v AND 0xff), ucast (drop_bit 32 v AND 0xff), ucast (drop_bit 24 v AND 0xff), ucast (drop_bit 16 v AND 0xff), ucast (drop_bit 8 v AND 0xff), ucast (v AND 0xff)])"

lemma mask_byte: "ucast (y AND 0xff) = (ucast (y :: 'a::len word) :: u8)"
  unfolding mask_fields(1) by (rule bit_word_eqI) (auto simp: bit_simps)

definition native_bytes :: "bool \<Rightarrow> nat \<Rightarrow> 'a::len word \<Rightarrow> u8 list" where
  "native_bytes little k v = (if little then le_bytes k v else be_bytes k v)"

lemma be_bytes_swap:
  fixes v :: "'a::len word"
  assumes "8 * k \<le> LENGTH('a)"
  shows "be_bytes k (of_be (le_bytes k v) :: 'a word) = le_bytes k v"
  using be_bytes_of_be [of "le_bytes k v", where 'a = 'a] assms by simp

text \<open>On either kind of machine, storing a value converted with \<open>sys_cpu_to_le\<close> or
  \<open>sys_cpu_to_be\<close> puts its bytes into memory least or most significant first, and
  \<open>sys_uintN_to_array\<close> lists the bytes as the machine stores them.\<close>

theorem cpu_order_bytes:
  "native_bytes little 2 (sys_cpu_to_le16 little a) = le_bytes 2 a
     \<and> native_bytes little 2 (sys_cpu_to_be16 little a) = be_bytes 2 a
     \<and> native_bytes little 3 (sys_cpu_to_le24 little b) = le_bytes 3 b
     \<and> native_bytes little 3 (sys_cpu_to_be24 little b) = be_bytes 3 b
     \<and> native_bytes little 4 (sys_cpu_to_le32 little b) = le_bytes 4 b
     \<and> native_bytes little 4 (sys_cpu_to_be32 little b) = be_bytes 4 b
     \<and> native_bytes little 5 (sys_cpu_to_le40 little c) = le_bytes 5 c
     \<and> native_bytes little 5 (sys_cpu_to_be40 little c) = be_bytes 5 c
     \<and> native_bytes little 6 (sys_cpu_to_le48 little c) = le_bytes 6 c
     \<and> native_bytes little 6 (sys_cpu_to_be48 little c) = be_bytes 6 c
     \<and> native_bytes little 8 (sys_cpu_to_le64 little c) = le_bytes 8 c
     \<and> native_bytes little 8 (sys_cpu_to_be64 little c) = be_bytes 8 c
     \<and> sys_uint16_to_array little a = native_bytes little 2 a
     \<and> sys_uint32_to_array little b = native_bytes little 4 b
     \<and> sys_uint64_to_array little c = native_bytes little 8 c"
proof -
  note swaps = bswap_16 bswap_24 bswap_32 bswap_40 bswap_48 bswap_64
  have arrays: "sys_uint16_to_array little a = native_bytes little 2 a"
      "sys_uint32_to_array little b = native_bytes little 4 b"
      "sys_uint64_to_array little c = native_bytes little 8 c"
    by (cases little; simp add: native_bytes_def be_bytes_def le_bytes_list mask_byte
        sys_uint16_to_array_def sys_uint32_to_array_def sys_uint64_to_array_def)+
  show ?thesis
    unfolding arrays
    by (cases little) (simp_all add: native_bytes_def swaps be_le_swap(1) be_bytes_swap
        sys_cpu_to_le16_def sys_cpu_to_be16_def
        sys_cpu_to_le24_def sys_cpu_to_be24_def
        sys_cpu_to_le32_def sys_cpu_to_be32_def
        sys_cpu_to_le40_def sys_cpu_to_be40_def
        sys_cpu_to_le48_def sys_cpu_to_be48_def
        sys_cpu_to_le64_def sys_cpu_to_be64_def)
qed

end
