(* ===== verification/Thread_FreeRTOS.thy ===== *)
theory Thread_FreeRTOS
  imports Dlist
begin

text \<open>
  The FreeRTOS backend's threads, wait queues and mutexes:
  \<open>src/osal_freertos/thread.c\<close>, \<open>waitq.c\<close> and \<open>mutex.c\<close>, on the structures
  \<open>os_thread\<close> and \<open>os_mutex\<close> of \<open>kernel.h\<close>. The three files share their state, so
  their operations are in one theory.

  Threads, mutexes and free-standing wait queues are numbered; a \<open>struct os_thread *\<close> that may
  be NULL is a \<open>nat option\<close>. The intrusive lists live in two heaps: \<open>waits\<close> has the heads
  of the wait queues and the \<open>wait_node\<close> of every thread, \<open>owned\<close> the \<open>owned_mutexes\<close>
  head of every thread and the \<open>owner_node\<close> of every mutex. \<open>CONTAINER_OF\<close> recovers the
  thread or mutex from a node; applied to a list head it would be a wild pointer, which is
  \<open>None\<close>. The storage members (\<open>tcb\<close>, \<open>wait_storage\<close>, \<open>completion_storage\<close>) are
  only ever passed by address and are identified by the thread's number.

  The FreeRTOS kernel is a parameter \<open>K\<close> over the kernel's own state \<open>'k\<close>, with task
  handles \<open>'h\<close> and semaphore handles \<open>'s\<close>. The flag \<open>isr\<close> is
  \<open>os_is_in_isr()\<close>. What other threads do while a call is blocked is the parameter
  \<open>wait\<close> of the whole calls; the critical sections are definitions of their own and the
  interleaving theories run them one by one.
\<close>

section \<open>Data\<close>

datatype wait_queue = PlainQueue nat | MutexQueue nat

datatype wait_addr = WaitList wait_queue | WaitNode nat

datatype owner_addr = OwnedList nat | OwnerNode nat

datatype os_thread_state = OS_THREAD_READY | OS_THREAD_PENDING | OS_THREAD_TERMINATED

record ('h, 's) os_thread =
  t_handle :: "'h option"
  t_stack :: "nat option"
  t_stack_size :: size_t
  t_entry :: "nat option"
  t_p1 :: nat
  t_p2 :: nat
  t_p3 :: nat
  wait_q :: "wait_queue option"
  waiting_mutex :: "nat option"
  wait_result :: u32
  t_state :: os_thread_state
  base_priority :: int
  completion_handle :: "'s option"
  completed :: bool
  completion_signaled :: bool
  completion_reaped :: bool
  join_active :: bool
  cancel_requested :: bool
  aborted :: bool

text \<open>\<open>memset(thread, 0, sizeof(*thread))\<close>; the list nodes are in the heaps.\<close>

definition os_thread_zero :: "('h, 's) os_thread" where
  "os_thread_zero = \<lparr>t_handle = None, t_stack = None, t_stack_size = 0, t_entry = None,
     t_p1 = 0, t_p2 = 0, t_p3 = 0, wait_q = None, waiting_mutex = None, wait_result = 0,
     t_state = OS_THREAD_READY, base_priority = 0, completion_handle = None, completed = False,
     completion_signaled = False, completion_reaped = False, join_active = False,
     cancel_requested = False, aborted = False\<rparr>"

record os_mutex =
  m_owner :: "nat option"
  lock_count :: u32
  m_initialized :: bool

record ('h, 's, 'k) osal =
  th :: "nat \<Rightarrow> ('h, 's) os_thread"
  mx :: "nat \<Rightarrow> os_mutex"
  waits :: "wait_addr dheap"
  owned :: "owner_addr dheap"
  kern :: 'k

definition upd_th ::
  "nat \<Rightarrow> (('h, 's) os_thread \<Rightarrow> ('h, 's) os_thread) \<Rightarrow> ('h, 's, 'k) osal \<Rightarrow> ('h, 's, 'k) osal" where
  "upd_th t f m = m\<lparr>th := (th m)(t := f (th m t))\<rparr>"

definition upd_mx ::
  "nat \<Rightarrow> (os_mutex \<Rightarrow> os_mutex) \<Rightarrow> ('h, 's, 'k) osal \<Rightarrow> ('h, 's, 'k) osal" where
  "upd_mx u f m = m\<lparr>mx := (mx m)(u := f (mx m u))\<rparr>"

section \<open>The FreeRTOS kernel\<close>

text \<open>
  The calls the three files make. \<open>xTaskNotify\<close> is the form with
  \<open>eSetValueWithOverwrite\<close>; \<open>xTaskNotifyFromISR\<close> also reports whether a higher-priority task
  was woken. \<open>xTaskCreate\<close> returns \<open>pdPASS\<close> and the handle it stored.
\<close>

record ('h, 's, 'k) fr_tasks =
  task_MAX_DELAY :: u32
  sizeof_StackType :: u32
  xTaskGetTickCount :: "'k \<Rightarrow> u32"
  xTaskGetCurrentTaskHandle :: "'k \<Rightarrow> 'h"
  pvTaskGetThreadLocalStoragePointer :: "'h \<Rightarrow> 'k \<Rightarrow> nat option"
  vTaskSetThreadLocalStoragePointer :: "'h \<Rightarrow> nat option \<Rightarrow> 'k \<Rightarrow> 'k"
  uxTaskPriorityGet :: "'h \<Rightarrow> 'k \<Rightarrow> u32"
  vTaskPrioritySet :: "'h \<Rightarrow> u32 \<Rightarrow> 'k \<Rightarrow> 'k"
  xTaskNotify :: "'h \<Rightarrow> u32 \<Rightarrow> 'k \<Rightarrow> 'k"
  xTaskNotifyFromISR :: "'h \<Rightarrow> u32 \<Rightarrow> 'k \<Rightarrow> bool \<times> 'k"
  portYIELD_FROM_ISR :: "'k \<Rightarrow> 'k"
  vTaskSuspendAll :: "'k \<Rightarrow> 'k"
  xTaskResumeAll :: "'k \<Rightarrow> 'k"
  xTaskCreateStatic :: "nat \<Rightarrow> u32 \<Rightarrow> nat \<Rightarrow> u32 \<Rightarrow> nat \<Rightarrow> 'k \<Rightarrow> 'h option \<times> 'k"
  xTaskCreate :: "nat \<Rightarrow> u32 \<Rightarrow> nat \<Rightarrow> u32 \<Rightarrow> 'k \<Rightarrow> (bool \<times> 'h option) \<times> 'k"
  vTaskDelete :: "'h option \<Rightarrow> 'k \<Rightarrow> 'k"
  taskYIELD :: "'k \<Rightarrow> 'k"
  xSemaphoreCreateBinaryStatic :: "nat \<Rightarrow> 'k \<Rightarrow> 's option \<times> 'k"
  completion_give :: "'s \<Rightarrow> 'k \<Rightarrow> 'k"
  vSemaphoreDelete :: "'s \<Rightarrow> 'k \<Rightarrow> 'k"

definition os_tick_get :: "('h, 's, 'k) fr_tasks \<Rightarrow> ('h, 's, 'k) osal \<Rightarrow> u32" where
  "os_tick_get K m = xTaskGetTickCount K (kern m)"

definition os_get_current_thread :: "('h, 's, 'k) fr_tasks \<Rightarrow> ('h, 's, 'k) osal \<Rightarrow> nat option" where
  "os_get_current_thread K m =
     pvTaskGetThreadLocalStoragePointer K (xTaskGetCurrentTaskHandle K (kern m)) (kern m)"

definition os_thread_get_priority ::
  "('h, 's, 'k) fr_tasks \<Rightarrow> nat option \<Rightarrow> ('h, 's, 'k) osal \<Rightarrow> int" where
  "os_thread_get_priority K thread m =
     (case thread of
        None \<Rightarrow> - EINVAL
      | Some t \<Rightarrow>
          (case t_handle (th m t) of
             None \<Rightarrow> - EINVAL
           | Some h \<Rightarrow> sint (uxTaskPriorityGet K h (kern m))))"

section \<open>Wait queues\<close>

definition os_waitq_init :: "wait_queue option \<Rightarrow> ('h, 's, 'k) osal \<Rightarrow> ('h, 's, 'k) osal" where
  "os_waitq_init q m =
     (case q of None \<Rightarrow> m | Some q \<Rightarrow> m\<lparr>waits := sys_dlist_init (WaitList q) (waits m)\<rparr>)"

definition os_waitq_notify_thread_locked ::
  "('h, 's, 'k) fr_tasks \<Rightarrow> bool \<Rightarrow> nat option \<Rightarrow> u32 \<Rightarrow> ('h, 's, 'k) osal \<Rightarrow> bool \<times> ('h, 's, 'k) osal" where
  "os_waitq_notify_thread_locked K isr thread reason m =
     (case thread of
        None \<Rightarrow> (False, m)
      | Some t \<Rightarrow>
          (case t_handle (th m t) of
             None \<Rightarrow> (False, m)
           | Some h \<Rightarrow>
               if isr
               then (let (hpw, k) = xTaskNotifyFromISR K h reason (kern m) in (hpw, m\<lparr>kern := k\<rparr>))
               else (False, m\<lparr>kern := xTaskNotify K h reason (kern m)\<rparr>)))"

text \<open>The search loop: the first queued thread of lower priority, or NULL.\<close>

definition waitq_position ::
  "('h, 's, 'k) fr_tasks \<Rightarrow> wait_queue \<Rightarrow> int \<Rightarrow> ('h, 's, 'k) osal \<Rightarrow> (unit + wait_addr option) option" where
  "waitq_position K q priority m =
     sys_dlist_for_each_node (WaitList q) (waits m)
       (\<lambda>node _. case node of
          WaitList _ \<Rightarrow> Inr None
        | WaitNode queued \<Rightarrow>
            if priority > os_thread_get_priority K (Some queued) m then Inr (Some node) else Inl ())
       ()"

definition os_waitq_insert_priority_locked ::
  "('h, 's, 'k) fr_tasks \<Rightarrow> wait_queue \<Rightarrow> nat \<Rightarrow> ('h, 's, 'k) osal \<Rightarrow> ('h, 's, 'k) osal option" where
  "os_waitq_insert_priority_locked K q t m =
     (case waitq_position K q (os_thread_get_priority K (Some t) m) m of
        Some (Inl ()) \<Rightarrow>
          map_option (\<lambda>h. m\<lparr>waits := h\<rparr>) (sys_dlist_append (WaitList q) (WaitNode t) (waits m))
      | Some (Inr (Some node)) \<Rightarrow>
          map_option (\<lambda>h. m\<lparr>waits := h\<rparr>) (sys_dlist_insert node (WaitNode t) (waits m))
      | _ \<Rightarrow> None)"

definition waitq_remove :: "nat \<Rightarrow> ('h, 's, 'k) osal \<Rightarrow> ('h, 's, 'k) osal option" where
  "waitq_remove t m = map_option (\<lambda>h. m\<lparr>waits := h\<rparr>) (sys_dlist_remove (WaitNode t) (waits m))"

text \<open>\<open>os_waitq_block\<close>: the section that queues the thread, and the one after the wait.\<close>

definition waitq_block_section ::
  "('h, 's, 'k) fr_tasks \<Rightarrow> wait_queue \<Rightarrow> nat \<Rightarrow> ('h, 's, 'k) osal \<Rightarrow> ('h, 's, 'k) osal option" where
  "waitq_block_section K q t m =
     os_waitq_insert_priority_locked K q t
       (upd_th t (\<lambda>T. T\<lparr>wait_q := Some q, wait_result := 0, t_state := OS_THREAD_PENDING\<rparr>) m)"

definition waitq_wake_section ::
  "nat \<Rightarrow> bool \<Rightarrow> u32 \<Rightarrow> ('h, 's, 'k) osal \<Rightarrow> (int \<times> ('h, 's, 'k) osal) option" where
  "waitq_wake_section t result notify m =
     (if wait_q (th m t) \<noteq> None
      then do {
        m \<leftarrow> waitq_remove t m;
        Some (- ETIMEDOUT, upd_th t (\<lambda>T. T\<lparr>wait_q := None, t_state := OS_THREAD_READY\<rparr>) m)
      }
      else Some (if result then sint notify else - ETIMEDOUT,
             upd_th t (\<lambda>T. T\<lparr>wait_result := notify, t_state := OS_THREAD_READY\<rparr>) m))"

definition os_waitq_block ::
  "('h, 's, 'k) fr_tasks \<Rightarrow> bool \<Rightarrow> (u32 \<Rightarrow> ('h, 's, 'k) osal \<Rightarrow> bool \<times> u32 \<times> ('h, 's, 'k) osal) \<Rightarrow>
   wait_queue option \<Rightarrow> u32 \<Rightarrow> ('h, 's, 'k) osal \<Rightarrow> (int \<times> ('h, 's, 'k) osal) option" where
  "os_waitq_block K isr wait q timeout m =
     (case q of
        None \<Rightarrow> Some (- EINVAL, m)
      | Some q \<Rightarrow>
          if isr then Some (- EWOULDBLOCK, m)
          else (case os_get_current_thread K m of
                  None \<Rightarrow> Some (- EINVAL, m)
                | Some t \<Rightarrow> do {
                    m \<leftarrow> waitq_block_section K q t m;
                    let (result, notify, m) =
                      wait (if timeout = OS_WAIT_FOREVER then task_MAX_DELAY K else timeout) m;
                    waitq_wake_section t result notify m
                  }))"

text \<open>Taking the first thread off a queue, the step \<open>wake_one\<close>, \<open>wake_all\<close> and the unlock share.\<close>

definition waitq_get ::
  "wait_queue \<Rightarrow> ('h, 's, 'k) osal \<Rightarrow> (nat \<times> ('h, 's, 'k) osal) option" where
  "waitq_get q m = do {
     (node, h) \<leftarrow> sys_dlist_get (WaitList q) (waits m);
     (case node of
        Some (WaitNode t) \<Rightarrow> Some (t, m\<lparr>waits := h\<rparr>)
      | _ \<Rightarrow> None)
   }"

definition wake_one_section ::
  "('h, 's, 'k) fr_tasks \<Rightarrow> bool \<Rightarrow> wait_queue \<Rightarrow> u32 \<Rightarrow> ('h, 's, 'k) osal \<Rightarrow>
   (bool \<times> ('h, 's, 'k) osal) option" where
  "wake_one_section K isr q reason m =
     (if sys_dlist_is_empty (WaitList q) (waits m) then Some (False, m)
      else do {
        (t, m) \<leftarrow> waitq_get q m;
        let m = upd_th t (\<lambda>T. T\<lparr>wait_q := None, wait_result := reason,
                              t_state := OS_THREAD_READY\<rparr>) m;
        Some (os_waitq_notify_thread_locked K isr (Some t) reason m)
      })"

text \<open>The yield after the section, when an interrupt woke a thread of higher priority.\<close>

definition isr_yield :: "('h, 's, 'k) fr_tasks \<Rightarrow> bool \<Rightarrow> bool \<times> ('h, 's, 'k) osal \<Rightarrow> ('h, 's, 'k) osal" where
  "isr_yield K isr r =
     (case r of (hpw, m) \<Rightarrow> if isr \<and> hpw then m\<lparr>kern := portYIELD_FROM_ISR K (kern m)\<rparr> else m)"

definition os_waitq_wake_one ::
  "('h, 's, 'k) fr_tasks \<Rightarrow> bool \<Rightarrow> wait_queue option \<Rightarrow> u32 \<Rightarrow> ('h, 's, 'k) osal \<Rightarrow>
   ('h, 's, 'k) osal option" where
  "os_waitq_wake_one K isr q reason m =
     (case q of
        None \<Rightarrow> Some m
      | Some q \<Rightarrow> map_option (isr_yield K isr) (wake_one_section K isr q reason m))"

partial_function (option) wake_all_loop ::
  "('h, 's, 'k) fr_tasks \<Rightarrow> bool \<Rightarrow> wait_queue \<Rightarrow> u32 \<Rightarrow> bool \<Rightarrow> ('h, 's, 'k) osal \<Rightarrow>
   (bool \<times> ('h, 's, 'k) osal) option" where
  "wake_all_loop K isr q reason hpw m =
     (if sys_dlist_is_empty (WaitList q) (waits m) then Some (hpw, m)
      else do {
        (t, m) \<leftarrow> waitq_get q m;
        let m = upd_th t (\<lambda>T. T\<lparr>wait_q := None, wait_result := reason,
                              t_state := OS_THREAD_READY\<rparr>) m;
        let (woken, m) = os_waitq_notify_thread_locked K isr (Some t) reason m;
        wake_all_loop K isr q reason (hpw \<or> woken) m
      })"

definition os_waitq_wake_all ::
  "('h, 's, 'k) fr_tasks \<Rightarrow> bool \<Rightarrow> wait_queue option \<Rightarrow> u32 \<Rightarrow> ('h, 's, 'k) osal \<Rightarrow>
   ('h, 's, 'k) osal option" where
  "os_waitq_wake_all K isr q reason m =
     (case q of
        None \<Rightarrow> Some m
      | Some q \<Rightarrow> map_option (isr_yield K isr) (wake_all_loop K isr q reason False m))"

section \<open>Mutexes\<close>

definition os_mutex_zero :: os_mutex where
  "os_mutex_zero = \<lparr>m_owner = None, lock_count = 0, m_initialized = False\<rparr>"

text \<open>The \<open>memset\<close> of a mutex also clears the links of its wait-queue head and owner node.\<close>

definition mutex_clear :: "nat \<Rightarrow> ('h, 's, 'k) osal \<Rightarrow> ('h, 's, 'k) osal" where
  "mutex_clear u m =
     upd_mx u (\<lambda>_. os_mutex_zero)
       (m\<lparr>waits := sys_dnode_init (WaitList (MutexQueue u)) (waits m),
          owned := sys_dnode_init (OwnerNode u) (owned m)\<rparr>)"

definition os_mutex_init :: "nat option \<Rightarrow> ('h, 's, 'k) osal \<Rightarrow> ('h, 's, 'k) osal" where
  "os_mutex_init mutex m =
     (case mutex of
        None \<Rightarrow> m
      | Some u \<Rightarrow>
          upd_mx u (\<lambda>M. M\<lparr>m_initialized := True\<rparr>)
            (os_waitq_init (Some (MutexQueue u)) (mutex_clear u m)))"

definition os_mutex_deinit ::
  "bool \<Rightarrow> nat option \<Rightarrow> ('h, 's, 'k) osal \<Rightarrow> int \<times> ('h, 's, 'k) osal" where
  "os_mutex_deinit isr mutex m =
     (case mutex of
        None \<Rightarrow> (- EINVAL, m)
      | Some u \<Rightarrow>
          if \<not> m_initialized (mx m u) then (- EINVAL, m)
          else if isr then (- EWOULDBLOCK, m)
          else if m_owner (mx m u) \<noteq> None \<or> \<not> sys_dlist_is_empty (WaitList (MutexQueue u)) (waits m)
          then (- EBUSY, m)
          else (0, mutex_clear u (upd_mx u (\<lambda>M. M\<lparr>m_initialized := False\<rparr>) m)))"

text \<open>The two nested loops of \<open>os_mutex_compute_priority_locked\<close>.\<close>

definition waiters_priority ::
  "('h, 's, 'k) fr_tasks \<Rightarrow> ('h, 's, 'k) osal \<Rightarrow> nat \<Rightarrow> int \<Rightarrow> (int + unit) option" where
  "waiters_priority K m u effective =
     sys_dlist_for_each_node (WaitList (MutexQueue u)) (waits m)
       (\<lambda>node effective. case node of
          WaitList _ \<Rightarrow> Inr ()
        | WaitNode waiter \<Rightarrow>
            let waiter_priority = os_thread_get_priority K (Some waiter) m
            in Inl (if waiter_priority > effective then waiter_priority else effective))
       effective"

definition os_mutex_compute_priority_locked ::
  "('h, 's, 'k) fr_tasks \<Rightarrow> nat option \<Rightarrow> ('h, 's, 'k) osal \<Rightarrow> int option" where
  "os_mutex_compute_priority_locked K thread m =
     (case thread of
        None \<Rightarrow> Some (- EINVAL)
      | Some t \<Rightarrow>
          if t_handle (th m t) = None then Some (- EINVAL)
          else (case sys_dlist_for_each_node (OwnedList t) (owned m)
                       (\<lambda>node effective. case node of
                          OwnedList _ \<Rightarrow> Inr ()
                        | OwnerNode u \<Rightarrow>
                            (case waiters_priority K m u effective of
                               Some (Inl e) \<Rightarrow> Inl e
                             | _ \<Rightarrow> Inr ()))
                       (base_priority (th m t)) of
                  Some (Inl e) \<Rightarrow> Some e
                | _ \<Rightarrow> None))"

definition OS_PI_MAX_CHAIN_DEPTH :: nat where
  "OS_PI_MAX_CHAIN_DEPTH = 16"

definition apply_priority ::
  "('h, 's, 'k) fr_tasks \<Rightarrow> nat \<Rightarrow> int \<Rightarrow> ('h, 's, 'k) osal \<Rightarrow> ('h, 's, 'k) osal" where
  "apply_priority K t effective m =
     (if effective \<ge> 0 \<and> os_thread_get_priority K (Some t) m \<noteq> effective
      then (case t_handle (th m t) of
              None \<Rightarrow> m
            | Some h \<Rightarrow> m\<lparr>kern := vTaskPrioritySet K h (word_of_int effective) (kern m)\<rparr>)
      else m)"

text \<open>\<open>visited\<close> holds the array of that name, \<open>fuel\<close> is the depth still allowed.\<close>

fun pi_chain_loop ::
  "('h, 's, 'k) fr_tasks \<Rightarrow> nat list \<Rightarrow> nat \<Rightarrow> nat option \<Rightarrow> ('h, 's, 'k) osal \<Rightarrow>
   ('h, 's, 'k) osal option" where
  "pi_chain_loop K visited 0 thread m = Some m"
| "pi_chain_loop K visited (Suc fuel) None m = Some m"
| "pi_chain_loop K visited (Suc fuel) (Some t) m =
     (if t \<in> set visited then Some m
      else do {
        effective \<leftarrow> os_mutex_compute_priority_locked K (Some t) m;
        let m = apply_priority K t effective m;
        (case waiting_mutex (th m t) of
           None \<Rightarrow> Some m
         | Some upstream \<Rightarrow> do {
             m \<leftarrow> waitq_remove t m;
             m \<leftarrow> os_waitq_insert_priority_locked K (MutexQueue upstream) t m;
             pi_chain_loop K (visited @ [t]) fuel (m_owner (mx m upstream)) m
           })
      })"

definition os_mutex_update_pi_chain_locked ::
  "('h, 's, 'k) fr_tasks \<Rightarrow> nat option \<Rightarrow> ('h, 's, 'k) osal \<Rightarrow> ('h, 's, 'k) osal option" where
  "os_mutex_update_pi_chain_locked K thread m =
     pi_chain_loop K [] OS_PI_MAX_CHAIN_DEPTH thread m"

fun would_deadlock_loop :: "nat \<Rightarrow> nat \<Rightarrow> nat option \<Rightarrow> ('h, 's, 'k) osal \<Rightarrow> bool" where
  "would_deadlock_loop t fuel None m = False"
| "would_deadlock_loop t 0 (Some own) m = True"
| "would_deadlock_loop t (Suc fuel) (Some own) m =
     (if own = t then True
      else (case waiting_mutex (th m own) of
              None \<Rightarrow> False
            | Some u \<Rightarrow> would_deadlock_loop t fuel (m_owner (mx m u)) m))"

definition os_mutex_would_deadlock_locked :: "nat \<Rightarrow> nat \<Rightarrow> ('h, 's, 'k) osal \<Rightarrow> bool" where
  "os_mutex_would_deadlock_locked t u m =
     would_deadlock_loop t OS_PI_MAX_CHAIN_DEPTH (m_owner (mx m u)) m"

text \<open>
  \<open>os_mutex_lock\<close>: the first critical section of the loop ends with a result or in a wait of
  \<open>remaining\<close> ticks, the second one after the wait with a result or another round.
\<close>

datatype lock_outcome = LockReturns int | LockWaits u32

definition lock_section ::
  "('h, 's, 'k) fr_tasks \<Rightarrow> nat \<Rightarrow> nat \<Rightarrow> u32 \<Rightarrow> u32 \<Rightarrow> ('h, 's, 'k) osal \<Rightarrow>
   (lock_outcome \<times> ('h, 's, 'k) osal) option" where
  "lock_section K cur u timeout start m =
     (if m_owner (mx m u) = None
      then do {
        let m = upd_mx u (\<lambda>M. M\<lparr>m_owner := Some cur, lock_count := 1\<rparr>) m;
        h \<leftarrow> sys_dlist_append (OwnedList cur) (OwnerNode u) (owned m);
        Some (LockReturns 0, m\<lparr>owned := h\<rparr>)
      }
      else if m_owner (mx m u) = Some cur
      then Some (LockReturns 0, upd_mx u (\<lambda>M. M\<lparr>lock_count := lock_count M + 1\<rparr>) m)
      else if timeout = 0 then Some (LockReturns (- EBUSY), m)
      else if os_mutex_would_deadlock_locked cur u m then Some (LockReturns (- EDEADLK), m)
      else if timeout \<noteq> OS_WAIT_FOREVER \<and> os_tick_get K m - start \<ge> timeout
      then Some (LockReturns (- ETIMEDOUT), m)
      else do {
        let remaining = (if timeout \<noteq> OS_WAIT_FOREVER then timeout - (os_tick_get K m - start)
                         else OS_WAIT_FOREVER);
        let m = upd_th cur (\<lambda>T. T\<lparr>wait_q := Some (MutexQueue u), waiting_mutex := Some u,
                                   wait_result := 0, t_state := OS_THREAD_PENDING\<rparr>) m;
        m \<leftarrow> os_waitq_insert_priority_locked K (MutexQueue u) cur m;
        m \<leftarrow> os_mutex_update_pi_chain_locked K (m_owner (mx m u)) m;
        Some (LockWaits remaining, m)
      })"

definition lock_wake_section ::
  "('h, 's, 'k) fr_tasks \<Rightarrow> nat \<Rightarrow> nat \<Rightarrow> bool \<Rightarrow> ('h, 's, 'k) osal \<Rightarrow>
   (int option \<times> ('h, 's, 'k) osal) option" where
  "lock_wake_section K cur u notified m =
     (if wait_q (th m cur) \<noteq> None
      then do {
        let owner = m_owner (mx m u);
        m \<leftarrow> waitq_remove cur m;
        let m = upd_th cur (\<lambda>T. T\<lparr>wait_q := None, waiting_mutex := None,
                                   t_state := OS_THREAD_READY\<rparr>) m;
        m \<leftarrow> os_mutex_update_pi_chain_locked K owner m;
        Some (Some (if notified then - EAGAIN else - ETIMEDOUT), m)
      }
      else Some (None, upd_th cur (\<lambda>T. T\<lparr>t_state := OS_THREAD_READY, waiting_mutex := None\<rparr>) m))"

text \<open>The loop; round \<open>k\<close> waits with \<open>wait k\<close>.\<close>

partial_function (option) lock_loop ::
  "('h, 's, 'k) fr_tasks \<Rightarrow> (nat \<Rightarrow> u32 \<Rightarrow> ('h, 's, 'k) osal \<Rightarrow> bool \<times> ('h, 's, 'k) osal) \<Rightarrow>
   nat \<Rightarrow> nat \<Rightarrow> u32 \<Rightarrow> u32 \<Rightarrow> nat \<Rightarrow> ('h, 's, 'k) osal \<Rightarrow> (int \<times> ('h, 's, 'k) osal) option" where
  "lock_loop K wait cur u timeout start k m = do {
     (out, m) \<leftarrow> lock_section K cur u timeout start m;
     (case out of
        LockReturns r \<Rightarrow> Some (r, m)
      | LockWaits remaining \<Rightarrow> do {
          let (notified, m) =
            wait k (if remaining = OS_WAIT_FOREVER then task_MAX_DELAY K else remaining) m;
          (res, m) \<leftarrow> lock_wake_section K cur u notified m;
          (case res of
             Some r \<Rightarrow> Some (r, m)
           | None \<Rightarrow> lock_loop K wait cur u timeout start (Suc k) m)
        })
   }"

definition os_mutex_lock ::
  "('h, 's, 'k) fr_tasks \<Rightarrow> bool \<Rightarrow> (nat \<Rightarrow> u32 \<Rightarrow> ('h, 's, 'k) osal \<Rightarrow> bool \<times> ('h, 's, 'k) osal) \<Rightarrow>
   nat option \<Rightarrow> u32 \<Rightarrow> ('h, 's, 'k) osal \<Rightarrow> (int \<times> ('h, 's, 'k) osal) option" where
  "os_mutex_lock K isr wait mutex timeout m =
     (case mutex of
        None \<Rightarrow> Some (- EINVAL, m)
      | Some u \<Rightarrow>
          if \<not> m_initialized (mx m u) then Some (- EINVAL, m)
          else if isr then Some (- EWOULDBLOCK, m)
          else (case os_get_current_thread K m of
                  None \<Rightarrow> Some (- EINVAL, m)
                | Some cur \<Rightarrow> lock_loop K wait cur u timeout (os_tick_get K m) 0 m))"

definition os_mutex_trylock ::
  "('h, 's, 'k) fr_tasks \<Rightarrow> bool \<Rightarrow> (nat \<Rightarrow> u32 \<Rightarrow> ('h, 's, 'k) osal \<Rightarrow> bool \<times> ('h, 's, 'k) osal) \<Rightarrow>
   nat option \<Rightarrow> ('h, 's, 'k) osal \<Rightarrow> (int \<times> ('h, 's, 'k) osal) option" where
  "os_mutex_trylock K isr wait mutex m = os_mutex_lock K isr wait mutex 0 m"

definition unlock_wake ::
  "('h, 's, 'k) fr_tasks \<Rightarrow> nat \<Rightarrow> ('h, 's, 'k) osal \<Rightarrow> ('h, 's, 'k) osal option" where
  "unlock_wake K u m =
     (if sys_dlist_is_empty (WaitList (MutexQueue u)) (waits m) then Some m
      else do {
        (t, m) \<leftarrow> waitq_get (MutexQueue u) m;
        let m = upd_th t (\<lambda>T. T\<lparr>wait_q := None, waiting_mutex := None, wait_result := 0,
                              t_state := OS_THREAD_READY\<rparr>) m;
        Some (snd (os_waitq_notify_thread_locked K False (Some t) 0 m))
      })"

definition unlock_section ::
  "('h, 's, 'k) fr_tasks \<Rightarrow> nat \<Rightarrow> nat \<Rightarrow> ('h, 's, 'k) osal \<Rightarrow> (int \<times> ('h, 's, 'k) osal) option" where
  "unlock_section K cur u m =
     (if m_owner (mx m u) \<noteq> Some cur then Some (- EPERM, m)
      else if lock_count (mx m u) = 0 then Some (- EINVAL, m)
      else do {
        let m = upd_mx u (\<lambda>M. M\<lparr>lock_count := lock_count M - 1\<rparr>) m;
        if lock_count (mx m u) > 0 then Some (0, m)
        else do {
          h \<leftarrow> sys_dlist_remove (OwnerNode u) (owned m);
          let m = upd_mx u (\<lambda>M. M\<lparr>m_owner := None\<rparr>) (m\<lparr>owned := h\<rparr>);
          m \<leftarrow> unlock_wake K u m;
          m \<leftarrow> os_mutex_update_pi_chain_locked K (Some cur) m;
          Some (0, m)
        }
      })"

definition os_mutex_unlock ::
  "('h, 's, 'k) fr_tasks \<Rightarrow> bool \<Rightarrow> nat option \<Rightarrow> ('h, 's, 'k) osal \<Rightarrow>
   (int \<times> ('h, 's, 'k) osal) option" where
  "os_mutex_unlock K isr mutex m =
     (case mutex of
        None \<Rightarrow> Some (- EINVAL, m)
      | Some u \<Rightarrow>
          if \<not> m_initialized (mx m u) then Some (- EINVAL, m)
          else if isr then Some (- EWOULDBLOCK, m)
          else (case os_get_current_thread K m of
                  None \<Rightarrow> Some (- EINVAL, m)
                | Some cur \<Rightarrow> unlock_section K cur u m))"

section \<open>Threads\<close>

text \<open>
  \<open>os_task_entry\<close>: the body \<open>run\<close> of the thread with its entry and arguments, the two
  critical sections of the exit and the calls between them.
\<close>

definition exit_section :: "nat \<Rightarrow> ('h, 's, 'k) osal \<Rightarrow> ('h, 's, 'k) osal" where
  "exit_section t = upd_th t (\<lambda>T. T\<lparr>completed := True, t_state := OS_THREAD_TERMINATED\<rparr>)"

definition exit_give ::
  "('h, 's, 'k) fr_tasks \<Rightarrow> nat \<Rightarrow> ('h, 's, 'k) osal \<Rightarrow> ('h, 's, 'k) osal option" where
  "exit_give K t m =
     (case completion_handle (th m t) of
        None \<Rightarrow> None
      | Some c \<Rightarrow> Some (m\<lparr>kern := completion_give K c (kern m)\<rparr>))"

definition signal_section :: "nat \<Rightarrow> ('h, 's, 'k) osal \<Rightarrow> ('h, 's, 'k) osal" where
  "signal_section t = upd_th t (\<lambda>T. T\<lparr>completion_signaled := True\<rparr>)"

definition os_task_entry ::
  "('h, 's, 'k) fr_tasks \<Rightarrow>
   (nat \<Rightarrow> nat \<Rightarrow> nat \<Rightarrow> nat \<Rightarrow> ('h, 's, 'k) osal \<Rightarrow> ('h, 's, 'k) osal) \<Rightarrow>
   nat \<Rightarrow> ('h, 's, 'k) osal \<Rightarrow> ('h, 's, 'k) osal option" where
  "os_task_entry K run t m =
     (case t_entry (th m t) of
        None \<Rightarrow> None
      | Some f \<Rightarrow> do {
          let m = run f (t_p1 (th m t)) (t_p2 (th m t)) (t_p3 (th m t)) m;
          m \<leftarrow> exit_give K t (exit_section t m);
          let m = signal_section t m;
          Some (m\<lparr>kern := vTaskDelete K None (kern m)\<rparr>)
        })"

text \<open>\<open>os_thread_create\<close>: the fields are set, then the two native objects are created.\<close>

definition create_fields ::
  "nat \<Rightarrow> nat option \<Rightarrow> size_t \<Rightarrow> nat option \<Rightarrow> nat \<Rightarrow> nat \<Rightarrow> nat \<Rightarrow> int \<Rightarrow>
   ('h, 's, 'k) osal \<Rightarrow> ('h, 's, 'k) osal" where
  "create_fields t stack stack_size entry p1 p2 p3 prio m =
     upd_th t (\<lambda>_. os_thread_zero\<lparr>t_entry := entry, t_p1 := p1, t_p2 := p2, t_p3 := p3,
                 t_stack := stack, t_stack_size := stack_size, t_state := OS_THREAD_READY,
                 base_priority := prio\<rparr>)
       (m\<lparr>waits := sys_dnode_init (WaitNode t) (waits m),
          owned := sys_dlist_init (OwnedList t) (owned m)\<rparr>)"

definition create_task ::
  "('h, 's, 'k) fr_tasks \<Rightarrow> nat \<Rightarrow> nat \<Rightarrow> nat option \<Rightarrow> size_t \<Rightarrow> int \<Rightarrow>
   ('h, 's, 'k) osal \<Rightarrow> ('h, 's, 'k) osal" where
  "create_task K t name stack stack_size prio m =
     (let stack_words = (stack_size + sizeof_StackType K - 1) div sizeof_StackType K;
          (handle, k) =
            (case stack of
               Some s \<Rightarrow> xTaskCreateStatic K name stack_words t (word_of_int prio) s (kern m)
             | None \<Rightarrow>
                 (let ((result, handle), k) =
                        xTaskCreate K name stack_words t (word_of_int prio) (kern m)
                  in (if result then handle else None, k)))
      in upd_th t (\<lambda>T. T\<lparr>t_handle := handle\<rparr>) (m\<lparr>kern := k\<rparr>))"

definition os_thread_create ::
  "('h, 's, 'k) fr_tasks \<Rightarrow> nat option \<Rightarrow> nat option \<Rightarrow> nat option \<Rightarrow> size_t \<Rightarrow> nat option \<Rightarrow>
   nat \<Rightarrow> nat \<Rightarrow> nat \<Rightarrow> int \<Rightarrow> u32 \<Rightarrow> ('h, 's, 'k) osal \<Rightarrow> int \<times> ('h, 's, 'k) osal" where
  "os_thread_create K thread name stack stack_size entry p1 p2 p3 prio options m =
     (case (thread, entry, name) of
        (Some t, Some _, Some n) \<Rightarrow>
          if stack_size = 0 then (- EINVAL, m)
          else
            let m = create_fields t stack stack_size entry p1 p2 p3 prio m;
                (completion, k) = xSemaphoreCreateBinaryStatic K t (kern m);
                m = m\<lparr>kern := k\<rparr>
            in (case completion of
                  None \<Rightarrow> (- ENOMEM, m)
                | Some c \<Rightarrow>
                    let m = upd_th t (\<lambda>T. T\<lparr>completion_handle := Some c\<rparr>) m;
                        m = m\<lparr>kern := vTaskSuspendAll K (kern m)\<rparr>;
                        m = create_task K t n stack stack_size prio m
                    in (case t_handle (th m t) of
                          None \<Rightarrow>
                            (- ENOMEM,
                             upd_th t (\<lambda>T. T\<lparr>completion_handle := None\<rparr>)
                               (m\<lparr>kern := vSemaphoreDelete K c (xTaskResumeAll K (kern m))\<rparr>))
                        | Some h \<Rightarrow>
                            (0, m\<lparr>kern := xTaskResumeAll K
                                   (vTaskSetThreadLocalStoragePointer K h (Some t) (kern m))\<rparr>)))
      | _ \<Rightarrow> (- EINVAL, m))"

definition reap_section ::
  "nat \<Rightarrow> ('h, 's, 'k) osal \<Rightarrow> 's option \<times> ('h, 's, 'k) osal" where
  "reap_section t m =
     (completion_handle (th m t),
      upd_th t (\<lambda>T. T\<lparr>completion_handle := None, t_handle := None, completion_reaped := True,
                       join_active := False\<rparr>) m)"

definition os_thread_reap ::
  "('h, 's, 'k) fr_tasks \<Rightarrow> nat \<Rightarrow> ('h, 's, 'k) osal \<Rightarrow> ('h, 's, 'k) osal" where
  "os_thread_reap K t m =
     (case reap_section t m of
        (None, m) \<Rightarrow> m
      | (Some c, m) \<Rightarrow> m\<lparr>kern := vSemaphoreDelete K c (kern m)\<rparr>)"

text \<open>\<open>os_thread_join\<close>: \<open>sem_wait\<close> is \<open>xSemaphoreTake\<close> with what the others do meanwhile.\<close>

definition join_section :: "nat \<Rightarrow> ('h, 's, 'k) osal \<Rightarrow> (int + 's) \<times> ('h, 's, 'k) osal" where
  "join_section t m =
     (if completion_reaped (th m t) then (Inl 0, m)
      else (case completion_handle (th m t) of
              None \<Rightarrow> (Inl (- EINVAL), m)
            | Some c \<Rightarrow>
                if join_active (th m t) then (Inl (- EBUSY), m)
                else (Inr c, upd_th t (\<lambda>T. T\<lparr>join_active := True\<rparr>) m)))"

definition join_cancel_section :: "nat \<Rightarrow> ('h, 's, 'k) osal \<Rightarrow> ('h, 's, 'k) osal" where
  "join_cancel_section t = upd_th t (\<lambda>T. T\<lparr>join_active := False\<rparr>)"

definition os_thread_join ::
  "('h, 's, 'k) fr_tasks \<Rightarrow> bool \<Rightarrow> ('s \<Rightarrow> u32 \<Rightarrow> ('h, 's, 'k) osal \<Rightarrow> bool \<times> ('h, 's, 'k) osal) \<Rightarrow>
   nat option \<Rightarrow> u32 \<Rightarrow> ('h, 's, 'k) osal \<Rightarrow> int \<times> ('h, 's, 'k) osal" where
  "os_thread_join K isr sem_wait thread timeout m =
     (case thread of
        None \<Rightarrow> (- EINVAL, m)
      | Some t \<Rightarrow>
          if isr then (- EWOULDBLOCK, m)
          else if os_get_current_thread K m = Some t then (- EDEADLK, m)
          else (case join_section t m of
                  (Inl r, m) \<Rightarrow> (r, m)
                | (Inr c, m) \<Rightarrow>
                    (case sem_wait c (if timeout = OS_WAIT_FOREVER then task_MAX_DELAY K else timeout) m of
                       (False, m) \<Rightarrow>
                         (if timeout = 0 then - EBUSY else - ETIMEDOUT, join_cancel_section t m)
                     | (True, m) \<Rightarrow> (0, os_thread_reap K t m))))"

definition delete_section :: "nat \<Rightarrow> ('h, 's, 'k) osal \<Rightarrow> int option \<times> ('h, 's, 'k) osal" where
  "delete_section t m =
     (if completion_reaped (th m t) then (Some 0, m)
      else if completion_handle (th m t) = None then (Some (- EINVAL), m)
      else if \<not> completed (th m t) \<or> \<not> completion_signaled (th m t) \<or> join_active (th m t)
      then (Some (- EBUSY), m)
      else (None, upd_th t (\<lambda>T. T\<lparr>join_active := True\<rparr>) m))"

definition os_thread_delete ::
  "('h, 's, 'k) fr_tasks \<Rightarrow> bool \<Rightarrow> nat option \<Rightarrow> ('h, 's, 'k) osal \<Rightarrow> int \<times> ('h, 's, 'k) osal" where
  "os_thread_delete K isr thread m =
     (case thread of
        None \<Rightarrow> (- EINVAL, m)
      | Some t \<Rightarrow>
          if isr then (- EWOULDBLOCK, m)
          else (case delete_section t m of
                  (Some r, m) \<Rightarrow> (r, m)
                | (None, m) \<Rightarrow> (0, os_thread_reap K t m)))"

definition cancel_request_section :: "nat \<Rightarrow> ('h, 's, 'k) osal \<Rightarrow> int \<times> ('h, 's, 'k) osal" where
  "cancel_request_section t m =
     (if completed (th m t) then (- EALREADY, m)
      else (0, upd_th t (\<lambda>T. T\<lparr>cancel_requested := True\<rparr>) m))"

definition os_thread_cancel ::
  "bool \<Rightarrow> nat option \<Rightarrow> ('h, 's, 'k) osal \<Rightarrow> int \<times> ('h, 's, 'k) osal" where
  "os_thread_cancel isr thread m =
     (case thread of
        None \<Rightarrow> (- EINVAL, m)
      | Some t \<Rightarrow>
          if t_handle (th m t) = None then (- EINVAL, m)
          else if isr then (- EWOULDBLOCK, m)
          else cancel_request_section t m)"

definition os_thread_cancel_requested :: "('h, 's, 'k) fr_tasks \<Rightarrow> ('h, 's, 'k) osal \<Rightarrow> bool" where
  "os_thread_cancel_requested K m =
     (case os_get_current_thread K m of
        None \<Rightarrow> False
      | Some t \<Rightarrow> cancel_requested (th m t))"

definition os_thread_test_cancel :: "('h, 's, 'k) fr_tasks \<Rightarrow> ('h, 's, 'k) osal \<Rightarrow> int" where
  "os_thread_test_cancel K m = (if os_thread_cancel_requested K m then - ECANCELED else 0)"

text \<open>\<open>os_thread_abort\<close>: the critical section, then the deletion and the completion signal.\<close>

definition abort_unqueue ::
  "('h, 's, 'k) fr_tasks \<Rightarrow> nat \<Rightarrow> ('h, 's, 'k) osal \<Rightarrow> ('h, 's, 'k) osal option" where
  "abort_unqueue K t m =
     (if wait_q (th m t) = None then Some m
      else do {
        let owner = (case waiting_mutex (th m t) of None \<Rightarrow> None | Some u \<Rightarrow> m_owner (mx m u));
        m \<leftarrow> waitq_remove t m;
        let m = upd_th t (\<lambda>T. T\<lparr>wait_q := None, waiting_mutex := None\<rparr>) m;
        if owner \<noteq> None then os_mutex_update_pi_chain_locked K owner m else Some m
      })"

definition abort_section ::
  "('h, 's, 'k) fr_tasks \<Rightarrow> nat \<Rightarrow> ('h, 's, 'k) osal \<Rightarrow>
   ((int + 'h option \<times> 's option) \<times> ('h, 's, 'k) osal) option" where
  "abort_section K t m =
     (if completed (th m t) then Some (Inl (- EALREADY), m)
      else if \<not> sys_dlist_is_empty (OwnedList t) (owned m) then Some (Inl (- EBUSY), m)
      else do {
        m \<leftarrow> abort_unqueue K t m;
        let m = upd_th t (\<lambda>T. T\<lparr>cancel_requested := True, aborted := True, completed := True,
                              t_state := OS_THREAD_TERMINATED\<rparr>) m;
        Some (Inr (t_handle (th m t), completion_handle (th m t)), m)
      })"

definition give_completion ::
  "('h, 's, 'k) fr_tasks \<Rightarrow> 's option \<Rightarrow> ('h, 's, 'k) osal \<Rightarrow> ('h, 's, 'k) osal option" where
  "give_completion K completion m =
     (case completion of
        None \<Rightarrow> None
      | Some c \<Rightarrow> Some (m\<lparr>kern := completion_give K c (kern m)\<rparr>))"

definition os_thread_abort ::
  "('h, 's, 'k) fr_tasks \<Rightarrow> bool \<Rightarrow> nat option \<Rightarrow> ('h, 's, 'k) osal \<Rightarrow>
   (int \<times> ('h, 's, 'k) osal) option" where
  "os_thread_abort K isr thread m =
     (case thread of
        None \<Rightarrow> Some (- EINVAL, m)
      | Some t \<Rightarrow>
          if t_handle (th m t) = None \<or> completion_handle (th m t) = None then Some (- EINVAL, m)
          else if isr then Some (- EWOULDBLOCK, m)
          else do {
            let current = os_get_current_thread K m;
            (r, m) \<leftarrow> abort_section K t m;
            (case r of
               Inl e \<Rightarrow> Some (e, m)
             | Inr (handle, completion) \<Rightarrow>
                 if current = Some t
                 then do {
                   m \<leftarrow> give_completion K completion m;
                   let m = signal_section t m;
                   Some (0, m\<lparr>kern := vTaskDelete K None (kern m)\<rparr>)
                 }
                 else do {
                   m \<leftarrow> give_completion K completion (m\<lparr>kern := vTaskDelete K handle (kern m)\<rparr>);
                   Some (0, signal_section t m)
                 })
          })"

definition set_priority_section ::
  "('h, 's, 'k) fr_tasks \<Rightarrow> nat \<Rightarrow> int \<Rightarrow> ('h, 's, 'k) osal \<Rightarrow> ('h, 's, 'k) osal option" where
  "set_priority_section K t priority m = do {
     m \<leftarrow> os_mutex_update_pi_chain_locked K (Some t) (upd_th t (\<lambda>T. T\<lparr>base_priority := priority\<rparr>) m);
     (case wait_q (th m t) of
        Some q \<Rightarrow>
          if waiting_mutex (th m t) = None
          then do {
            m \<leftarrow> waitq_remove t m;
            os_waitq_insert_priority_locked K q t m
          }
          else Some m
      | None \<Rightarrow> Some m)
   }"

definition os_thread_set_priority ::
  "('h, 's, 'k) fr_tasks \<Rightarrow> nat option \<Rightarrow> int \<Rightarrow> ('h, 's, 'k) osal \<Rightarrow> ('h, 's, 'k) osal option" where
  "os_thread_set_priority K thread priority m =
     (case thread of
        None \<Rightarrow> Some m
      | Some t \<Rightarrow>
          if t_handle (th m t) = None then Some m else set_priority_section K t priority m)"

definition os_thread_yield ::
  "('h, 's, 'k) fr_tasks \<Rightarrow> bool \<Rightarrow> ('h, 's, 'k) osal \<Rightarrow> ('h, 's, 'k) osal" where
  "os_thread_yield K isr m = (if isr then m else m\<lparr>kern := taskYIELD K (kern m)\<rparr>)"

end
