(* ===== verification/Waitq_FreeRTOS.thy ===== *)
theory Waitq_FreeRTOS
  imports Thread_FreeRTOS
begin

text \<open>
  What the FreeRTOS kernel promises about priorities and notifications (\<open>fr_kernel\<close>), when the
  lists of threads, wait queues and mutexes represent sequences (\<open>lists_ok\<close>), and what the
  list operations of \<open>waitq.c\<close> and \<open>mutex.c\<close> do to those sequences.
\<close>

lemma upd_th_simps [simp]:
  "th (upd_th t f m) = (th m)(t := f (th m t))" "mx (upd_th t f m) = mx m"
  "waits (upd_th t f m) = waits m" "owned (upd_th t f m) = owned m" "kern (upd_th t f m) = kern m"
  by (simp_all add: upd_th_def)

lemma upd_mx_simps [simp]:
  "mx (upd_mx u g m) = (mx m)(u := g (mx m u))" "th (upd_mx u g m) = th m"
  "waits (upd_mx u g m) = waits m" "owned (upd_mx u g m) = owned m" "kern (upd_mx u g m) = kern m"
  by (simp_all add: upd_mx_def)

section \<open>The kernel's documented behaviour\<close>

text \<open>
  \<open>live h k\<close>: \<open>h\<close> is the handle of a task that was created and not deleted.
  \<open>maxp\<close> is \<open>configMAX_PRIORITIES\<close>.
\<close>

locale fr_kernel =
  fixes K :: "('h, 's, 'k) fr_tasks" and live :: "'h \<Rightarrow> 'k \<Rightarrow> bool" and maxp :: nat
  assumes maxp_range: "0 < maxp" "maxp \<le> 2 ^ 31"
    and priority_range: "live h k \<Longrightarrow> unat (uxTaskPriorityGet K h k) < maxp"
    and priority_set: "live h k \<Longrightarrow> unat p < maxp \<Longrightarrow>
      uxTaskPriorityGet K h (vTaskPrioritySet K h p k) = p"
    and priority_set_other: "live h k \<Longrightarrow> g \<noteq> h \<Longrightarrow>
      uxTaskPriorityGet K g (vTaskPrioritySet K h p k) = uxTaskPriorityGet K g k"
    and live_priority_set: "live h k \<Longrightarrow> live g (vTaskPrioritySet K h p k) = live g k"
    and priority_notify: "live h k \<Longrightarrow>
      uxTaskPriorityGet K g (xTaskNotify K h v k) = uxTaskPriorityGet K g k"
    and live_notify: "live h k \<Longrightarrow> live g (xTaskNotify K h v k) = live g k"
    and priority_notify_isr: "live h k \<Longrightarrow>
      uxTaskPriorityGet K g (snd (xTaskNotifyFromISR K h v k)) = uxTaskPriorityGet K g k"
    and live_notify_isr: "live h k \<Longrightarrow> live g (snd (xTaskNotifyFromISR K h v k)) = live g k"

section \<open>Priorities\<close>

abbreviation tprio :: "('h, 's, 'k) fr_tasks \<Rightarrow> ('h, 's, 'k) osal \<Rightarrow> nat \<Rightarrow> int" where
  "tprio K m t \<equiv> os_thread_get_priority K (Some t) m"

lemma tprio_def: "tprio K m t =
    (case t_handle (th m t) of None \<Rightarrow> - EINVAL | Some h \<Rightarrow> sint (uxTaskPriorityGet K h (kern m)))"
  by (simp add: os_thread_get_priority_def)

lemma tprio_same: "th m' = th m \<Longrightarrow> kern m' = kern m \<Longrightarrow> tprio K m' = tprio K m"
  by (auto simp: fun_eq_iff tprio_def split: option.split)

lemma tprio_cong:
  "t_handle (th m' t) = t_handle (th m t) \<Longrightarrow> kern m' = kern m \<Longrightarrow> tprio K m' t = tprio K m t"
  by (simp add: tprio_def split: option.split)

text \<open>Insertion behind the last thread that is not of lower priority.\<close>

definition prio_insert :: "(nat \<Rightarrow> int) \<Rightarrow> nat \<Rightarrow> nat list \<Rightarrow> nat list" where
  "prio_insert p t xs = takeWhile (\<lambda>u. p t \<le> p u) xs @ t # dropWhile (\<lambda>u. p t \<le> p u) xs"

definition prio_sorted :: "(nat \<Rightarrow> int) \<Rightarrow> nat list \<Rightarrow> bool" where
  "prio_sorted p xs \<longleftrightarrow> sorted_wrt (\<lambda>a b. p b \<le> p a) xs"

lemma prio_insert_simps [simp]:
  "prio_insert p t [] = [t]"
  "prio_insert p t (x # xs) = (if p t \<le> p x then x # prio_insert p t xs else t # x # xs)"
  by (simp_all add: prio_insert_def)

lemma set_prio_insert [simp]: "set (prio_insert p t xs) = insert t (set xs)"
  by (induction xs) auto

lemma distinct_prio_insert: "distinct xs \<Longrightarrow> t \<notin> set xs \<Longrightarrow> distinct (prio_insert p t xs)"
  by (induction xs) auto

lemma prio_sorted_insert: "prio_sorted p xs \<Longrightarrow> prio_sorted p (prio_insert p t xs)"
  by (induction xs) (auto simp: prio_sorted_def)

lemma prio_sorted_remove1: "prio_sorted p xs \<Longrightarrow> prio_sorted p (remove1 t xs)"
proof (induction xs)
  case (Cons x xs)
  then show ?case using set_remove1_subset [of t xs] by (auto simp: prio_sorted_def)
qed (simp add: prio_sorted_def)

lemma prio_sorted_cong:
  "(\<And>a. a \<in> set xs \<Longrightarrow> p a = r a) \<Longrightarrow> prio_sorted p xs = prio_sorted r xs"
  by (induction xs) (auto simp: prio_sorted_def)

lemma prio_insert_cong:
  "(\<And>a. a \<in> insert t (set xs) \<Longrightarrow> p a = r a) \<Longrightarrow> prio_insert p t xs = prio_insert r t xs"
  by (induction xs) auto

section \<open>Wait queues as sequences\<close>

interpretation waits: dlist_family WaitList WaitNode
  by unfold_locales auto

interpretation owned: dlist_family OwnedList OwnerNode
  by unfold_locales auto

text \<open>The search loop of the insertion, and the insertion itself.\<close>

definition prio_insert_at ::
  "(nat \<Rightarrow> int) \<Rightarrow> wait_queue \<Rightarrow> nat \<Rightarrow> wait_addr dheap \<Rightarrow> wait_addr dheap option" where
  "prio_insert_at p q t h =
     (case sys_dlist_for_each_node (WaitList q) h
             (\<lambda>node _. case node of
                WaitList _ \<Rightarrow> Inr None
              | WaitNode queued \<Rightarrow> if p t > p queued then Inr (Some node) else Inl ()) () of
        Some (Inl ()) \<Rightarrow> sys_dlist_append (WaitList q) (WaitNode t) h
      | Some (Inr (Some node)) \<Rightarrow> sys_dlist_insert node (WaitNode t) h
      | _ \<Rightarrow> None)"

lemma insert_priority_at:
  "os_waitq_insert_priority_locked K q t m =
     map_option (\<lambda>h. m\<lparr>waits := h\<rparr>) (prio_insert_at (tprio K m) q t (waits m))"
  by (simp add: os_waitq_insert_priority_locked_def waitq_position_def prio_insert_at_def
      split: option.split sum.split unit.split)

lemma prio_insert_at_loop:
  "list_for_each
     (\<lambda>node _. case node of
          WaitList _ \<Rightarrow> Inr None
        | WaitNode queued \<Rightarrow> if (r :: int) > p queued then Inr (Some node) else Inl ())
     (map WaitNode xs) () =
   (case dropWhile (\<lambda>u. r \<le> p u) xs of [] \<Rightarrow> Inl () | s # _ \<Rightarrow> Inr (Some (WaitNode s)))"
  by (induction xs) (auto simp: not_le)

lemma prio_insert_at_spec:
  assumes rep: "dlists_rep WaitList WaitNode Q wq h" and q: "q \<in> Q"
    and new: "\<And>p. p \<in> Q \<Longrightarrow> t \<notin> set (wq p)"
  obtains h' where "prio_insert_at p q t h = Some h'"
    and "dlists_rep WaitList WaitNode Q (wq(q := prio_insert p t (wq q))) h'"
proof -
  let ?P = "\<lambda>u. p t \<le> p u"
  have list: "dlist_rep h (WaitList q) (map WaitNode (wq q))" using rep q by (simp add: dlists_rep_def)
  note loop = sys_dlist_for_each_node_rep [OF list, where c = "()"] prio_insert_at_loop
  show thesis
  proof (cases "dropWhile ?P (wq q)")
    case Nil
    then have "takeWhile ?P (wq q) = wq q" by (metis append_Nil2 takeWhile_dropWhile_id)
    then have ins: "prio_insert p t (wq q) = wq q @ [t]" using Nil by (simp add: prio_insert_def)
    obtain h' where "sys_dlist_append (WaitList q) (WaitNode t) h = Some h'"
        "dlists_rep WaitList WaitNode Q (wq(q := wq q @ [t])) h'"
      using waits.dlists_append [OF rep q new] by blast
    moreover from this have "prio_insert_at p q t h = Some h'"
      by (simp only: prio_insert_at_def loop Nil list.case option.case sum.case old.unit.case)
    ultimately show thesis using that [of h'] by (simp only: ins)
  next
    case (Cons s bs)
    then have split: "wq q = takeWhile ?P (wq q) @ s # bs" by (metis takeWhile_dropWhile_id)
    have ins: "prio_insert p t (wq q) = takeWhile ?P (wq q) @ t # s # bs"
      using Cons by (simp add: prio_insert_def)
    obtain h' where "sys_dlist_insert (WaitNode s) (WaitNode t) h = Some h'"
        "dlists_rep WaitList WaitNode Q (wq(q := takeWhile ?P (wq q) @ t # s # bs)) h'"
      using waits.dlists_insert [OF rep q split new] by blast
    moreover from this have "prio_insert_at p q t h = Some h'"
      by (simp only: prio_insert_at_def loop Cons list.case option.case sum.case)
    ultimately show thesis using that [of h'] by (simp only: ins)
  qed
qed

lemma insert_priority_spec:
  assumes rep: "dlists_rep WaitList WaitNode Q wq (waits m)" and q: "q \<in> Q"
    and new: "\<And>p. p \<in> Q \<Longrightarrow> t \<notin> set (wq p)"
  obtains h where "os_waitq_insert_priority_locked K q t m = Some (m\<lparr>waits := h\<rparr>)"
    and "dlists_rep WaitList WaitNode Q (wq(q := prio_insert (tprio K m) t (wq q))) h"
proof -
  obtain h where "prio_insert_at (tprio K m) q t (waits m) = Some h"
      "dlists_rep WaitList WaitNode Q (wq(q := prio_insert (tprio K m) t (wq q))) h"
    by (rule prio_insert_at_spec [OF rep q new])
  then show thesis using that by (simp add: insert_priority_at)
qed

lemma waitq_remove_spec:
  assumes rep: "dlists_rep WaitList WaitNode Q wq (waits m)" and q: "q \<in> Q" "t \<in> set (wq q)"
  obtains h where "waitq_remove t m = Some (m\<lparr>waits := h\<rparr>)"
    and "dlists_rep WaitList WaitNode Q (wq(q := remove1 t (wq q))) h"
proof -
  obtain as bs where split: "wq q = as @ t # bs" "t \<notin> set as"
    using split_list_first [OF q(2)] by blast
  have "remove1 t (wq q) = as @ bs" using split by (simp add: remove1_append)
  then show thesis
    using waits.dlists_remove [OF rep q(1) split(1)] that by (auto simp: waitq_remove_def)
qed

lemma waitq_get_spec:
  assumes rep: "dlists_rep WaitList WaitNode Q wq (waits m)" and q: "q \<in> Q" "wq q = t # ts"
  obtains h where "waitq_get q m = Some (t, m\<lparr>waits := h\<rparr>)"
    and "dlists_rep WaitList WaitNode Q (wq(q := ts)) h"
  using waits.dlists_get [OF rep q] that by (auto simp: waitq_get_def)

lemma waitq_empty_spec:
  "dlists_rep WaitList WaitNode Q wq (waits m) \<Longrightarrow> q \<in> Q \<Longrightarrow>
   sys_dlist_is_empty (WaitList q) (waits m) \<longleftrightarrow> wq q = []"
  using sys_dlist_is_empty_rep by (fastforce simp: dlists_rep_def)

end
