(* ===== verification/Priority_Inheritance.thy ===== *)
theory Priority_Inheritance
  imports Waitq_FreeRTOS
begin

text \<open>
  Priority inheritance of \<open>mutex.c\<close>: the priority computed for a thread is the maximum of its
  base priority and of the threads waiting for its mutexes; the update along the chain of
  owners leaves the lists well-formed and the mutex queues sorted, and when the chain ends
  within the sixteen steps the loop is allowed, every thread has exactly the priority it
  should have.
\<close>

section \<open>Consistent states\<close>

text \<open>
  \<open>Q\<close> are the initialised wait queues, \<open>A\<close> the threads; \<open>wq q\<close> is the sequence of threads
  waiting on \<open>q\<close> and \<open>ow t\<close> the sequence of mutexes thread \<open>t\<close> owns.
\<close>

definition waits_agree ::
  "wait_queue set \<Rightarrow> nat set \<Rightarrow> (wait_queue \<Rightarrow> nat list) \<Rightarrow> (nat \<Rightarrow> ('h, 's) os_thread) \<Rightarrow> bool" where
  "waits_agree Q A wq T \<longleftrightarrow>
     (\<forall>q \<in> Q. set (wq q) \<subseteq> A)
     \<and> (\<forall>t \<in> A. \<forall>q \<in> Q. t \<in> set (wq q) \<longleftrightarrow> wait_q (T t) = Some q)
     \<and> (\<forall>t \<in> A. \<forall>q. wait_q (T t) = Some q \<longrightarrow> q \<in> Q)
     \<and> (\<forall>t \<in> A. \<forall>u. waiting_mutex (T t) = Some u \<longleftrightarrow> wait_q (T t) = Some (MutexQueue u))"

definition owners_agree ::
  "wait_queue set \<Rightarrow> nat set \<Rightarrow> (nat \<Rightarrow> nat list) \<Rightarrow> (nat \<Rightarrow> os_mutex) \<Rightarrow> bool" where
  "owners_agree Q A ow M \<longleftrightarrow>
     (\<forall>t \<in> A. \<forall>u \<in> set (ow t). MutexQueue u \<in> Q)
     \<and> (\<forall>u. MutexQueue u \<in> Q \<longrightarrow>
          (\<forall>t. m_owner (M u) = Some t \<longrightarrow> t \<in> A)
          \<and> (\<forall>t \<in> A. u \<in> set (ow t) \<longleftrightarrow> m_owner (M u) = Some t)
          \<and> (m_owner (M u) = None \<longleftrightarrow> lock_count (M u) = 0)
          \<and> m_initialized (M u))"

definition tasks_ok ::
  "('h \<Rightarrow> 'k \<Rightarrow> bool) \<Rightarrow> nat \<Rightarrow> nat set \<Rightarrow> ('h, 's, 'k) osal \<Rightarrow> bool" where
  "tasks_ok live maxp A m \<longleftrightarrow>
     (\<forall>t \<in> A. \<exists>h. t_handle (th m t) = Some h \<and> live h (kern m))
     \<and> (\<forall>s \<in> A. \<forall>t \<in> A. t_handle (th m s) = t_handle (th m t) \<longrightarrow> s = t)
     \<and> (\<forall>t \<in> A. 0 \<le> base_priority (th m t) \<and> base_priority (th m t) < int maxp)"

definition lists_ok ::
  "('h \<Rightarrow> 'k \<Rightarrow> bool) \<Rightarrow> nat \<Rightarrow> wait_queue set \<Rightarrow> nat set \<Rightarrow> (wait_queue \<Rightarrow> nat list) \<Rightarrow>
   (nat \<Rightarrow> nat list) \<Rightarrow> ('h, 's, 'k) osal \<Rightarrow> bool" where
  "lists_ok live maxp Q A wq ow m \<longleftrightarrow>
     dlists_rep WaitList WaitNode Q wq (waits m)
     \<and> dlists_rep OwnedList OwnerNode A ow (owned m)
     \<and> waits_agree Q A wq (th m) \<and> owners_agree Q A ow (mx m) \<and> tasks_ok live maxp A m"

lemma lists_okD:
  assumes "lists_ok live maxp Q A wq ow m"
  shows lists_ok_waits: "dlists_rep WaitList WaitNode Q wq (waits m)"
    and lists_ok_owned: "dlists_rep OwnedList OwnerNode A ow (owned m)"
    and lists_ok_waits_agree: "waits_agree Q A wq (th m)"
    and lists_ok_owners_agree: "owners_agree Q A ow (mx m)"
    and lists_ok_tasks: "tasks_ok live maxp A m"
  using assms by (simp_all add: lists_ok_def)

lemma waits_agreeD:
  assumes "waits_agree Q A wq T"
  shows "q \<in> Q \<Longrightarrow> t \<in> set (wq q) \<Longrightarrow> t \<in> A"
    and "t \<in> A \<Longrightarrow> q \<in> Q \<Longrightarrow> t \<in> set (wq q) \<longleftrightarrow> wait_q (T t) = Some q"
    and "t \<in> A \<Longrightarrow> wait_q (T t) = Some q \<Longrightarrow> q \<in> Q"
    and "t \<in> A \<Longrightarrow> waiting_mutex (T t) = Some u \<longleftrightarrow> wait_q (T t) = Some (MutexQueue u)"
  using assms unfolding waits_agree_def by blast+

lemma waits_agreeI:
  assumes "\<And>q t. q \<in> Q \<Longrightarrow> t \<in> set (wq q) \<Longrightarrow> t \<in> A"
    and "\<And>t q. t \<in> A \<Longrightarrow> q \<in> Q \<Longrightarrow> t \<in> set (wq q) \<longleftrightarrow> wait_q (T t) = Some q"
    and "\<And>t q. t \<in> A \<Longrightarrow> wait_q (T t) = Some q \<Longrightarrow> q \<in> Q"
    and "\<And>t u. t \<in> A \<Longrightarrow> waiting_mutex (T t) = Some u \<longleftrightarrow> wait_q (T t) = Some (MutexQueue u)"
  shows "waits_agree Q A wq T"
  unfolding waits_agree_def
  by (intro conjI ballI allI impI subsetI; (rule assms; assumption))

lemma owners_agreeD:
  assumes "owners_agree Q A ow M"
  shows "t \<in> A \<Longrightarrow> u \<in> set (ow t) \<Longrightarrow> MutexQueue u \<in> Q"
    and "MutexQueue u \<in> Q \<Longrightarrow> m_owner (M u) = Some t \<Longrightarrow> t \<in> A"
    and "MutexQueue u \<in> Q \<Longrightarrow> t \<in> A \<Longrightarrow> u \<in> set (ow t) \<longleftrightarrow> m_owner (M u) = Some t"
    and "MutexQueue u \<in> Q \<Longrightarrow> m_owner (M u) = None \<longleftrightarrow> lock_count (M u) = 0"
    and "MutexQueue u \<in> Q \<Longrightarrow> m_initialized (M u)"
  using assms unfolding owners_agree_def by blast+

lemma owners_agreeI:
  assumes "\<And>t u. t \<in> A \<Longrightarrow> u \<in> set (ow t) \<Longrightarrow> MutexQueue u \<in> Q"
    and "\<And>u t. MutexQueue u \<in> Q \<Longrightarrow> m_owner (M u) = Some t \<Longrightarrow> t \<in> A"
    and "\<And>u t. MutexQueue u \<in> Q \<Longrightarrow> t \<in> A \<Longrightarrow> u \<in> set (ow t) \<longleftrightarrow> m_owner (M u) = Some t"
    and "\<And>u. MutexQueue u \<in> Q \<Longrightarrow> m_owner (M u) = None \<longleftrightarrow> lock_count (M u) = 0"
    and "\<And>u. MutexQueue u \<in> Q \<Longrightarrow> m_initialized (M u)"
  shows "owners_agree Q A ow M"
  unfolding owners_agree_def
  by (intro conjI ballI allI impI; (rule assms; assumption))

lemma tasks_okD:
  assumes "tasks_ok live maxp A m"
  shows "t \<in> A \<Longrightarrow> \<exists>h. t_handle (th m t) = Some h \<and> live h (kern m)"
    and "s \<in> A \<Longrightarrow> t \<in> A \<Longrightarrow> t_handle (th m s) = t_handle (th m t) \<Longrightarrow> s = t"
    and "t \<in> A \<Longrightarrow> 0 \<le> base_priority (th m t) \<and> base_priority (th m t) < int maxp"
  using assms unfolding tasks_ok_def by blast+

text \<open>The queues of mutexes are sorted by the current priority of the threads in them.\<close>

definition mutexes_sorted ::
  "('h, 's, 'k) fr_tasks \<Rightarrow> wait_queue set \<Rightarrow> (wait_queue \<Rightarrow> nat list) \<Rightarrow> ('h, 's, 'k) osal \<Rightarrow> bool" where
  "mutexes_sorted K Q wq m \<longleftrightarrow>
     (\<forall>u. MutexQueue u \<in> Q \<longrightarrow> prio_sorted (tprio K m) (wq (MutexQueue u)))"

text \<open>The threads waiting for a mutex of \<open>t\<close>, and the priority \<open>t\<close> should have.\<close>

definition waiters :: "(wait_queue \<Rightarrow> nat list) \<Rightarrow> (nat \<Rightarrow> nat list) \<Rightarrow> nat \<Rightarrow> nat set" where
  "waiters wq ow t = (\<Union>u \<in> set (ow t). set (wq (MutexQueue u)))"

definition pi_priority ::
  "('h, 's, 'k) fr_tasks \<Rightarrow> (wait_queue \<Rightarrow> nat list) \<Rightarrow> (nat \<Rightarrow> nat list) \<Rightarrow> ('h, 's, 'k) osal \<Rightarrow>
   nat \<Rightarrow> int" where
  "pi_priority K wq ow m t =
     Max (insert (base_priority (th m t)) (tprio K m ` waiters wq ow t))"

lemma finite_waiters [simp]: "finite (waiters wq ow t)"
  by (simp add: waiters_def)

lemma pi_priority_cong:
  assumes "base_priority (th m' t) = base_priority (th m t)" "waiters wq' ow' t = waiters wq ow t"
    and "\<And>s. s \<in> waiters wq ow t \<Longrightarrow> tprio K m' s = tprio K m s"
  shows "pi_priority K wq' ow' m' t = pi_priority K wq ow m t"
proof -
  have "tprio K m' ` waiters wq ow t = tprio K m ` waiters wq ow t"
    using assms(3) by (rule image_cong [OF refl])
  then show ?thesis by (simp add: pi_priority_def assms(1,2))
qed

section \<open>Computing the priority\<close>

lemma waiters_loop:
  "list_for_each
     (\<lambda>node e. case node of
          WaitList _ \<Rightarrow> Inr ()
        | WaitNode w \<Rightarrow> let p = f w in Inl (if p > e then p else e))
     (map WaitNode xs) (e :: int) = Inl (Max (insert e (f ` set xs)))"
proof (induction xs arbitrary: e)
  case Nil
  then show ?case by simp
next
  case (Cons x xs)
  have "Max (insert (if f x > e then f x else e) (f ` set xs)) = Max (insert e (f ` set (x # xs)))"
    by (cases "xs = []") (auto simp: max_def insert_commute)
  then show ?case using Cons by (simp add: Let_def)
qed

lemma waiters_priority_spec:
  assumes "dlists_rep WaitList WaitNode Q wq (waits m)" "MutexQueue u \<in> Q"
  shows "waiters_priority K m u e = Some (Inl (Max (insert e (tprio K m ` set (wq (MutexQueue u))))))"
proof -
  have "dlist_rep (waits m) (WaitList (MutexQueue u)) (map WaitNode (wq (MutexQueue u)))"
    using assms by (simp add: dlists_rep_def)
  then show ?thesis
    by (simp only: waiters_priority_def sys_dlist_for_each_node_rep waiters_loop)
qed

lemma Max_insert_Max:
  assumes "finite S" "finite T"
  shows "Max (insert (Max (insert e S)) T) = Max (insert (e :: int) (S \<union> T))"
proof (cases "T = {}")
  case False
  have "Max (insert (Max (insert e S)) T) = max (Max (insert e S)) (Max T)"
    using assms False by (intro Max_insert)
  also have "\<dots> = Max (insert e S \<union> T)"
    using assms False by (intro Max_Un [symmetric]) simp_all
  finally show ?thesis by simp
qed simp

lemma owned_loop:
  assumes "\<And>u e. u \<in> set us \<Longrightarrow> W u e = Some (Inl (Max (insert e (F u))))" "\<And>u. finite (F u)"
  shows "list_for_each
     (\<lambda>node e. case node of
          OwnedList _ \<Rightarrow> Inr ()
        | OwnerNode u \<Rightarrow> (case W u e of Some (Inl e) \<Rightarrow> Inl e | _ \<Rightarrow> Inr ()))
     (map OwnerNode us) (e :: int) = Inl (Max (insert e (\<Union>u \<in> set us. F u)))"
  using assms(1)
proof (induction us arbitrary: e)
  case Nil
  then show ?case by simp
next
  case (Cons u us)
  have "Max (insert (Max (insert e (F u))) (\<Union>u \<in> set us. F u)) = Max (insert e (\<Union>u \<in> set (u # us). F u))"
    using Max_insert_Max [of "F u" "\<Union>u \<in> set us. F u" e] assms(2) by simp
  then show ?case using Cons by simp
qed

lemma compute_priority_spec:
  assumes ok: "lists_ok live maxp Q A wq ow m" and t: "t \<in> A"
  shows "os_mutex_compute_priority_locked K (Some t) m = Some (pi_priority K wq ow m t)"
proof -
  have "dlist_rep (owned m) (OwnedList t) (map OwnerNode (ow t))"
    using ok t by (simp add: lists_ok_def dlists_rep_def)
  moreover have "waiters_priority K m u e = Some (Inl (Max (insert e (tprio K m ` set (wq (MutexQueue u))))))"
    if "u \<in> set (ow t)" for u e
    by (rule waiters_priority_spec [OF lists_ok_waits [OF ok]])
      (rule owners_agreeD(1) [OF lists_ok_owners_agree [OF ok] t that])
  moreover have "t_handle (th m t) \<noteq> None"
    using tasks_okD(1) [OF lists_ok_tasks [OF ok] t] by auto
  moreover have "(\<Union>u \<in> set (ow t). tprio K m ` set (wq (MutexQueue u))) = tprio K m ` waiters wq ow t"
    by (auto simp: waiters_def)
  ultimately show ?thesis
    using owned_loop [of "ow t" "waiters_priority K m" "\<lambda>u. tprio K m ` set (wq (MutexQueue u))"]
    by (simp only: os_mutex_compute_priority_locked_def sys_dlist_for_each_node_rep pi_priority_def
        option.case sum.case if_False finite_imageI finite_set simp_thms)
qed

section \<open>One round of the chain\<close>

text \<open>What the update may change: priorities, and the order inside the queues of mutexes.\<close>

definition pi_frame ::
  "(wait_queue \<Rightarrow> nat list) \<Rightarrow> (wait_queue \<Rightarrow> nat list) \<Rightarrow> ('h, 's, 'k) osal \<Rightarrow> ('h, 's, 'k) osal \<Rightarrow> bool" where
  "pi_frame wq wq' m m' \<longleftrightarrow>
     th m' = th m \<and> mx m' = mx m \<and> owned m' = owned m
     \<and> (\<forall>q. set (wq' q) = set (wq q)) \<and> (\<forall>i. wq' (PlainQueue i) = wq (PlainQueue i))"

lemma pi_frame_refl: "pi_frame wq wq m m"
  by (simp add: pi_frame_def)

lemma pi_frame_trans: "pi_frame wq wq' m m' \<Longrightarrow> pi_frame wq' wq'' m' m'' \<Longrightarrow> pi_frame wq wq'' m m''"
  by (simp add: pi_frame_def)

lemma pi_frame_waiters: "pi_frame wq wq' m m' \<Longrightarrow> waiters wq' ow t = waiters wq ow t"
  by (simp add: pi_frame_def waiters_def)

lemma apply_priority_same [simp]:
  "th (apply_priority K t e m) = th m" "mx (apply_priority K t e m) = mx m"
  "waits (apply_priority K t e m) = waits m" "owned (apply_priority K t e m) = owned m"
  by (simp_all add: apply_priority_def split: option.split)

context fr_kernel
begin

lemma maxp_int: "int maxp \<le> 2 ^ 31"
  using of_nat_mono [OF maxp_range(2), where 'a = int] by simp

lemma tprio_nat:
  assumes "tasks_ok live maxp A m" "t \<in> A"
  obtains h where "t_handle (th m t) = Some h" "live h (kern m)"
    "tprio K m t = int (unat (uxTaskPriorityGet K h (kern m)))"
    "unat (uxTaskPriorityGet K h (kern m)) < maxp"
proof -
  obtain h where h: "t_handle (th m t) = Some h" "live h (kern m)"
    using tasks_okD(1) [OF assms] by blast
  note priority_range [OF h(2)]
  moreover from this have "unat (uxTaskPriorityGet K h (kern m)) < 2 ^ 31"
    using maxp_range(2) by linarith
  ultimately show thesis using h that by (simp add: tprio_def sint_small)
qed

lemma tprio_range:
  assumes "tasks_ok live maxp A m" "t \<in> A"
  shows "0 \<le> tprio K m t \<and> tprio K m t < int maxp"
  by (rule tprio_nat [OF assms]) linarith

lemma pi_priority_range:
  assumes "lists_ok live maxp Q A wq ow m" "t \<in> A"
  shows "0 \<le> pi_priority K wq ow m t \<and> pi_priority K wq ow m t < int maxp"
proof -
  note tasks = lists_ok_tasks [OF assms(1)]
  have "w \<in> A" if "w \<in> waiters wq ow t" for w
  proof -
    from that obtain u where u: "u \<in> set (ow t)" "w \<in> set (wq (MutexQueue u))"
      by (auto simp: waiters_def)
    have "MutexQueue u \<in> Q"
      by (rule owners_agreeD(1) [OF lists_ok_owners_agree [OF assms(1)] assms(2) u(1)])
    then show ?thesis by (rule waits_agreeD(1) [OF lists_ok_waits_agree [OF assms(1)] _ u(2)])
  qed
  then have "\<forall>p \<in> insert (base_priority (th m t)) (tprio K m ` waiters wq ow t). 0 \<le> p \<and> p < int maxp"
    using tprio_range [OF tasks] tasks_okD(3) [OF tasks assms(2)] by blast
  moreover have "pi_priority K wq ow m t \<in> insert (base_priority (th m t)) (tprio K m ` waiters wq ow t)"
    unfolding pi_priority_def by (rule Max_in) simp_all
  ultimately show ?thesis by blast
qed

lemma apply_priority_spec:
  assumes tasks: "tasks_ok live maxp A m" and t: "t \<in> A" and e: "0 \<le> e" "e < int maxp"
  shows apply_priority_self: "tprio K (apply_priority K t e m) t = e"
    and apply_priority_other: "\<And>s. s \<in> A \<Longrightarrow> s \<noteq> t \<Longrightarrow> tprio K (apply_priority K t e m) s = tprio K m s"
    and apply_priority_tasks: "tasks_ok live maxp A (apply_priority K t e m)"
proof -
  obtain h where h: "t_handle (th m t) = Some h" "live h (kern m)"
    using tasks_okD(1) [OF tasks t] by blast
  let ?p = "word_of_int e :: u32"
  have small: "e < 2 ^ 31" using e(2) maxp_int by linarith
  then have "uint ?p = e" using e(1) by (simp add: uint_word_of_int_eq take_bit_int_eq_self)
  then have p: "unat ?p < maxp" using e by (simp add: unat_eq_nat_uint)
  have sp: "sint ?p = e" using e(1) small by (intro sint_of_diff) simp_all
  let ?k = "vTaskPrioritySet K h ?p (kern m)"
  have cases: "apply_priority K t e m = (if tprio K m t = e then m else m\<lparr>kern := ?k\<rparr>)"
    using e(1) h(1) by (simp add: apply_priority_def)
  show "tprio K (apply_priority K t e m) t = e"
    by (simp add: cases) (simp add: tprio_def h(1) priority_set [OF h(2) p] sp)
  show "tprio K (apply_priority K t e m) s = tprio K m s" if "s \<in> A" "s \<noteq> t" for s
  proof -
    obtain g where g: "t_handle (th m s) = Some g" using tasks_okD(1) [OF tasks \<open>s \<in> A\<close>] by blast
    have "g \<noteq> h" using tasks_okD(2) [OF tasks \<open>s \<in> A\<close> t] g h(1) that(2) by auto
    then show ?thesis
      by (simp add: cases) (simp add: tprio_def g priority_set_other [OF h(2)])
  qed
  show "tasks_ok live maxp A (apply_priority K t e m)"
    using tasks by (simp add: cases tasks_ok_def live_priority_set [OF h(2)])
qed

lemma pi_step_queued:
  assumes ok: "lists_ok live maxp Q A wq ow m" and sorted: "mutexes_sorted K Q wq m"
    and t: "t \<in> A" and u: "waiting_mutex (th m t) = Some u"
    and e: "0 \<le> e" "e < int maxp"
  obtains m1 wq1 where
    "waitq_remove t (apply_priority K t e m) \<bind> os_waitq_insert_priority_locked K (MutexQueue u) t = Some m1"
    "lists_ok live maxp Q A wq1 ow m1" "mutexes_sorted K Q wq1 m1" "pi_frame wq wq1 m m1"
    "tprio K m1 t = e" "\<And>s. s \<in> A \<Longrightarrow> s \<noteq> t \<Longrightarrow> tprio K m1 s = tprio K m s"
proof -
  let ?m = "apply_priority K t e m"
  note tasks = lists_ok_tasks [OF ok] and agree = lists_ok_waits_agree [OF ok]
  have wait: "wait_q (th m t) = Some (MutexQueue u)" using waits_agreeD(4) [OF agree t, of u] u by blast
  have q: "MutexQueue u \<in> Q" by (rule waits_agreeD(3) [OF agree t wait])
  have mem: "t \<in> set (wq (MutexQueue u))" using waits_agreeD(2) [OF agree t q] wait by simp
  have only: "t \<notin> set (wq p)" if "p \<in> Q" "p \<noteq> MutexQueue u" for p
    using waits_agreeD(2) [OF agree t that(1)] wait that(2) by simp
  have rep: "dlists_rep WaitList WaitNode Q wq (waits ?m)" using lists_ok_waits [OF ok] by simp
  have dist: "distinct (wq (MutexQueue u))" by (rule waits.dlists_distinct [OF lists_ok_waits [OF ok] q])
  let ?w = "wq(MutexQueue u := remove1 t (wq (MutexQueue u)))"
  obtain h where h: "waitq_remove t ?m = Some (?m\<lparr>waits := h\<rparr>)" "dlists_rep WaitList WaitNode Q ?w h"
    by (rule waitq_remove_spec [OF rep q mem])
  let ?m' = "?m\<lparr>waits := h\<rparr>"
  have new: "t \<notin> set (?w p)" if "p \<in> Q" for p
    using only [OF that] dist by (cases "p = MutexQueue u") auto
  have rep': "dlists_rep WaitList WaitNode Q ?w (waits ?m')" using h(2) by simp
  obtain h' where h': "os_waitq_insert_priority_locked K (MutexQueue u) t ?m' = Some (?m'\<lparr>waits := h'\<rparr>)"
      "dlists_rep WaitList WaitNode Q
         (?w(MutexQueue u := prio_insert (tprio K ?m') t (?w (MutexQueue u)))) h'"
    by (rule insert_priority_spec [OF rep' q new])
  let ?wq1 = "wq(MutexQueue u := prio_insert (tprio K ?m') t (remove1 t (wq (MutexQueue u))))"
  let ?m1 = "?m\<lparr>waits := h'\<rparr>"
  have prios: "tprio K ?m' = tprio K ?m" "tprio K ?m1 = tprio K ?m" by (rule tprio_same; simp)+
  have prio1: "tprio K ?m1 s = tprio K ?m s" for s using prios(2) by (rule fun_cong)
  have sets: "set (?wq1 p) = set (wq p)" for p using mem dist by (auto simp: set_remove1_eq)
  have frame: "pi_frame wq ?wq1 m ?m1" using sets by (simp add: pi_frame_def)
  have self: "tprio K ?m1 t = e" using apply_priority_self [OF tasks t e] by (simp only: prio1)
  have other: "tprio K ?m1 s = tprio K m s" if "s \<in> A" "s \<noteq> t" for s
    using apply_priority_other [OF tasks t e that] by (simp only: prio1)
  have "waits_agree Q A ?wq1 (th m)"
    using agree unfolding waits_agree_def sets by (rule back_subst) simp
  moreover have "tasks_ok live maxp A ?m1"
    using apply_priority_tasks [OF tasks t e] by (simp add: tasks_ok_def)
  ultimately have ok1: "lists_ok live maxp Q A ?wq1 ow ?m1"
    using h'(2) ok by (simp add: lists_ok_def)
  have "prio_sorted (tprio K ?m1) (?wq1 (MutexQueue v))" if v: "MutexQueue v \<in> Q" for v
  proof (cases "v = u")
    case False
    have "prio_sorted (tprio K ?m1) (wq (MutexQueue v)) = prio_sorted (tprio K m) (wq (MutexQueue v))"
      using only [OF v] False waits_agreeD(1) [OF agree v]
      by (intro prio_sorted_cong other) auto
    then show ?thesis using sorted v False by (simp add: mutexes_sorted_def)
  next
    case True
    have "prio_sorted (tprio K ?m1) (remove1 t (wq (MutexQueue u)))
        = prio_sorted (tprio K m) (remove1 t (wq (MutexQueue u)))"
      using dist waits_agreeD(1) [OF agree q] by (intro prio_sorted_cong other) auto
    then have "prio_sorted (tprio K ?m1) (remove1 t (wq (MutexQueue u)))"
      using sorted q by (simp add: mutexes_sorted_def prio_sorted_remove1)
    then show ?thesis using True by (simp add: prios prio_sorted_insert)
  qed
  then have "mutexes_sorted K Q ?wq1 ?m1" by (simp add: mutexes_sorted_def)
  moreover have "waitq_remove t ?m \<bind> os_waitq_insert_priority_locked K (MutexQueue u) t = Some ?m1"
    using h(1) h'(1) by simp
  ultimately show thesis using ok1 frame self other that by blast
qed

lemma pi_step:
  assumes ok: "lists_ok live maxp Q A wq ow m" and sorted: "mutexes_sorted K Q wq m"
    and t: "t \<in> A"
  obtains m1 wq1 where
    "\<And>visited n. t \<notin> set visited \<Longrightarrow> pi_chain_loop K visited (Suc n) (Some t) m =
       (case waiting_mutex (th m t) of
          None \<Rightarrow> Some m1
        | Some u \<Rightarrow> pi_chain_loop K (visited @ [t]) n (m_owner (mx m u)) m1)"
    "lists_ok live maxp Q A wq1 ow m1" "mutexes_sorted K Q wq1 m1" "pi_frame wq wq1 m m1"
    "tprio K m1 t = pi_priority K wq ow m t" "\<And>s. s \<in> A \<Longrightarrow> s \<noteq> t \<Longrightarrow> tprio K m1 s = tprio K m s"
proof -
  let ?e = "pi_priority K wq ow m t" and ?m = "apply_priority K t (pi_priority K wq ow m t) m"
  note tasks = lists_ok_tasks [OF ok] and agree = lists_ok_waits_agree [OF ok]
  have e: "0 \<le> ?e" "?e < int maxp" using pi_priority_range [OF ok t] by auto
  note unfold = pi_chain_loop.simps(3) compute_priority_spec [OF ok t] bind.bind_lunit Let_def
    apply_priority_same if_False
  show thesis
  proof (cases "waiting_mutex (th m t)")
    case None
    have free: "t \<notin> set (wq (MutexQueue u))" if "MutexQueue u \<in> Q" for u
      using waits_agreeD(2,4) [OF agree t] None that by (metis option.distinct(1))
    have "lists_ok live maxp Q A wq ow ?m"
      using ok apply_priority_tasks [OF tasks t e] by (simp add: lists_ok_def)
    moreover have "prio_sorted (tprio K ?m) (wq (MutexQueue u)) = prio_sorted (tprio K m) (wq (MutexQueue u))"
      if "MutexQueue u \<in> Q" for u
      using free [OF that] waits_agreeD(1) [OF agree that]
      by (intro prio_sorted_cong apply_priority_other [OF tasks t e]) auto
    then have "mutexes_sorted K Q wq ?m" using sorted by (simp add: mutexes_sorted_def)
    ultimately show thesis
      using apply_priority_self [OF tasks t e] apply_priority_other [OF tasks t e]
      by (intro that [of ?m wq]) (simp_all add: None pi_frame_def compute_priority_spec [OF ok t])
  next
    case (Some u)
    obtain m1 wq1 where step:
      "waitq_remove t ?m \<bind> os_waitq_insert_priority_locked K (MutexQueue u) t = Some m1"
      "lists_ok live maxp Q A wq1 ow m1" "mutexes_sorted K Q wq1 m1" "pi_frame wq wq1 m m1"
      "tprio K m1 t = ?e" "\<And>s. s \<in> A \<Longrightarrow> s \<noteq> t \<Longrightarrow> tprio K m1 s = tprio K m s"
      by (rule pi_step_queued [OF ok sorted t Some e]) (rule that)
    have loop: "pi_chain_loop K visited (Suc n) (Some t) m =
        pi_chain_loop K (visited @ [t]) n (m_owner (mx m u)) m1" if "t \<notin> set visited" for visited n
    proof -
      have "pi_chain_loop K visited (Suc n) (Some t) m =
          (waitq_remove t ?m \<bind> os_waitq_insert_priority_locked K (MutexQueue u) t)
            \<bind> (\<lambda>m. pi_chain_loop K (visited @ [t]) n (m_owner (mx m u)) m)"
        using that by (simp add: compute_priority_spec [OF ok t] Some)
      also have "\<dots> = pi_chain_loop K (visited @ [t]) n (m_owner (mx m1 u)) m1"
        by (simp add: step(1))
      also have "mx m1 = mx m" using step(4) by (simp add: pi_frame_def)
      finally show ?thesis .
    qed
    show thesis
    proof (rule that [of m1 wq1])
      show "pi_chain_loop K visited (Suc n) (Some t) m =
         (case waiting_mutex (th m t) of
            None \<Rightarrow> Some m1
          | Some u \<Rightarrow> pi_chain_loop K (visited @ [t]) n (m_owner (mx m u)) m1)"
        if "t \<notin> set visited" for visited n
        using loop [OF that] by (simp only: Some option.case)
      show "tprio K m1 s = tprio K m s" if "s \<in> A" "s \<noteq> t" for s
        using that by (rule step(6))
    qed (rule step(2-5))+
  qed
qed

end

section \<open>The chain of owners\<close>

text \<open>The owner of the mutex \<open>t\<close> waits for, and the first \<open>n\<close> threads of the chain that starts so.\<close>

definition waits_on :: "('h, 's, 'k) osal \<Rightarrow> nat \<Rightarrow> nat option" where
  "waits_on m t = (case waiting_mutex (th m t) of None \<Rightarrow> None | Some u \<Rightarrow> m_owner (mx m u))"

fun chain :: "('h, 's, 'k) osal \<Rightarrow> nat \<Rightarrow> nat option \<Rightarrow> nat list" where
  "chain m (Suc n) (Some t) = t # chain m n (waits_on m t)"
| "chain m _ _ = []"

fun chain_ends :: "('h, 's, 'k) osal \<Rightarrow> nat \<Rightarrow> nat option \<Rightarrow> bool" where
  "chain_ends m n None = True"
| "chain_ends m 0 (Some t) = False"
| "chain_ends m (Suc n) (Some t) = chain_ends m n (waits_on m t)"

lemma waits_on_cong:
  "waiting_mutex (th m' t) = waiting_mutex (th m t) \<Longrightarrow> mx m' = mx m \<Longrightarrow> waits_on m' t = waits_on m t"
  by (simp add: waits_on_def split: option.split)

lemma chain_cong: "waits_on m' = waits_on m \<Longrightarrow> chain m' n x = chain m n x"
  by (induction m n x rule: chain.induct) simp_all

lemma chain_ends_cong: "waits_on m' = waits_on m \<Longrightarrow> chain_ends m' n x = chain_ends m n x"
  by (induction m n x rule: chain_ends.induct) simp_all

lemma pi_frame_waits_on: "pi_frame wq wq' m m' \<Longrightarrow> waits_on m' = waits_on m"
  by (intro ext waits_on_cong) (simp_all add: pi_frame_def)

lemma would_deadlock_iff:
  "would_deadlock_loop t n x m \<longleftrightarrow> t \<in> set (chain m n x) \<or> \<not> chain_ends m n x"
proof (induction n arbitrary: x)
  case 0
  then show ?case by (cases x) simp_all
next
  case (Suc n)
  show ?case
  proof (cases x)
    case (Some own)
    have "would_deadlock_loop t (Suc n) (Some own) m
        \<longleftrightarrow> own = t \<or> would_deadlock_loop t n (waits_on m own) m"
      by (simp add: waits_on_def split: option.split)
    then show ?thesis using Suc.IH [of "waits_on m own"] Some
      by (auto simp del: would_deadlock_loop.simps)
  qed simp
qed

lemma chain_ends_mono: "chain_ends m n x \<Longrightarrow> n \<le> k \<Longrightarrow> chain_ends m k x \<and> chain m k x = chain m n x"
proof (induction m n x arbitrary: k rule: chain_ends.induct)
  case (3 m n t)
  show ?case
  proof (cases k)
    case (Suc j)
    then show ?thesis using "3.IH" [of j] "3.prems" by simp
  qed (use "3.prems" in simp)
qed simp_all

lemma chain_suffix:
  "s \<in> set (chain m n x) \<Longrightarrow> chain_ends m n x \<Longrightarrow>
   \<exists>k \<le> n. chain_ends m k (Some s) \<and> length (chain m k (Some s)) \<le> length (chain m n x)"
proof (induction m n x rule: chain_ends.induct)
  case (3 m n t)
  show ?case
  proof (cases "s = t")
    case True
    then show ?thesis using 3 by (intro exI [of _ "Suc n"]) simp
  next
    case False
    then obtain k where "k \<le> n" "chain_ends m k (Some s)"
        "length (chain m k (Some s)) \<le> length (chain m n (waits_on m t))"
      using 3 by auto
    then show ?thesis by (intro exI [of _ k]) simp
  qed
qed simp_all

text \<open>A thread whose chain ends does not meet itself on it.\<close>

lemma chain_not_self:
  assumes "chain_ends m n (waits_on m t)"
  shows "t \<notin> set (chain m n (waits_on m t))"
proof
  assume "t \<in> set (chain m n (waits_on m t))"
  then obtain k where k: "k \<le> n" "chain_ends m k (Some t)"
      "length (chain m k (Some t)) \<le> length (chain m n (waits_on m t))"
    using chain_suffix [OF _ assms] by blast
  have "chain m (Suc n) (Some t) = chain m k (Some t)"
    using chain_ends_mono [OF k(2), of "Suc n"] k(1) by simp
  then have "length (chain m k (Some t)) = Suc (length (chain m n (waits_on m t)))"
    by (metis chain.simps(1) length_Cons)
  with k(3) show False by simp
qed

section \<open>The update of the whole chain\<close>

definition pi_consistent ::
  "('h, 's, 'k) fr_tasks \<Rightarrow> nat set \<Rightarrow> (wait_queue \<Rightarrow> nat list) \<Rightarrow> (nat \<Rightarrow> nat list) \<Rightarrow>
   ('h, 's, 'k) osal \<Rightarrow> nat option \<Rightarrow> bool" where
  "pi_consistent K A wq ow m except \<longleftrightarrow>
     (\<forall>s \<in> A. Some s \<noteq> except \<longrightarrow> tprio K m s = pi_priority K wq ow m s)"

context fr_kernel
begin

lemma waits_on_owner:
  assumes ok: "lists_ok live maxp Q A wq ow m" and t: "t \<in> A" and s: "s \<in> A"
  shows "t \<in> waiters wq ow s \<longleftrightarrow> waits_on m t = Some s"
proof -
  note wa = lists_ok_waits_agree [OF ok] and oa = lists_ok_owners_agree [OF ok]
  show ?thesis
  proof
    assume "t \<in> waiters wq ow s"
    then obtain u where u: "u \<in> set (ow s)" "t \<in> set (wq (MutexQueue u))"
      by (auto simp: waiters_def)
    have q: "MutexQueue u \<in> Q" by (rule owners_agreeD(1) [OF oa s u(1)])
    have "waiting_mutex (th m t) = Some u"
      using waits_agreeD(2) [OF wa t q] waits_agreeD(4) [OF wa t, of u] u(2) by blast
    moreover have "m_owner (mx m u) = Some s" using owners_agreeD(3) [OF oa q s] u(1) by blast
    ultimately show "waits_on m t = Some s" by (simp add: waits_on_def)
  next
    assume "waits_on m t = Some s"
    then obtain u where u: "waiting_mutex (th m t) = Some u" "m_owner (mx m u) = Some s"
      by (auto simp: waits_on_def split: option.splits)
    have w: "wait_q (th m t) = Some (MutexQueue u)" using waits_agreeD(4) [OF wa t, of u] u(1) by blast
    have q: "MutexQueue u \<in> Q" by (rule waits_agreeD(3) [OF wa t w])
    have "u \<in> set (ow s)" using owners_agreeD(3) [OF oa q s] u(2) by blast
    moreover have "t \<in> set (wq (MutexQueue u))" using waits_agreeD(2) [OF wa t q] w by blast
    ultimately show "t \<in> waiters wq ow s" by (auto simp: waiters_def)
  qed
qed

text \<open>One round makes the thread consistent and disturbs at most the next one.\<close>

lemma pi_step_consistent:
  assumes ok: "lists_ok live maxp Q A wq ow m" and t: "t \<in> A"
    and cons: "pi_consistent K A wq ow m (Some t)" and self: "waits_on m t \<noteq> Some t"
    and frame: "pi_frame wq wq1 m m1" and prio: "tprio K m1 t = pi_priority K wq ow m t"
    and other: "\<And>s. s \<in> A \<Longrightarrow> s \<noteq> t \<Longrightarrow> tprio K m1 s = tprio K m s"
  shows "pi_consistent K A wq1 ow m1 (waits_on m t)"
  unfolding pi_consistent_def
proof (intro ballI impI)
  fix s assume s: "s \<in> A" "Some s \<noteq> waits_on m t"
  have "t \<notin> waiters wq ow s" using waits_on_owner [OF ok t s(1)] s(2) by auto
  moreover have "w \<in> A" if "w \<in> waiters wq ow s" for w
    using that waits_agreeD(1) [OF lists_ok_waits_agree [OF ok]]
      owners_agreeD(1) [OF lists_ok_owners_agree [OF ok] s(1)] by (auto simp: waiters_def)
  ultimately have "pi_priority K wq1 ow m1 s = pi_priority K wq ow m s"
    using frame by (intro pi_priority_cong pi_frame_waiters [OF frame] other) (auto simp: pi_frame_def)
  then show "tprio K m1 s = pi_priority K wq1 ow m1 s"
    using prio other [OF s(1)] cons s(1) by (cases "s = t") (auto simp: pi_consistent_def)
qed

lemma pi_chain_loop_spec:
  assumes "lists_ok live maxp Q A wq ow m" "mutexes_sorted K Q wq m" "set_option thread \<subseteq> A"
  shows "\<exists>m' wq'. pi_chain_loop K visited n thread m = Some m'
    \<and> lists_ok live maxp Q A wq' ow m' \<and> mutexes_sorted K Q wq' m' \<and> pi_frame wq wq' m m'
    \<and> (\<forall>s \<in> A. s \<notin> set (chain m n thread) \<longrightarrow> tprio K m' s = tprio K m s)
    \<and> (chain_ends m n thread \<and> set visited \<inter> set (chain m n thread) = {}
         \<and> pi_consistent K A wq ow m thread \<longrightarrow> pi_consistent K A wq' ow m' None)"
  using assms
proof (induction n arbitrary: visited thread m wq)
  case 0
  then show ?case
    by (cases thread; intro exI [of _ m] exI [of _ wq]) (simp_all add: pi_frame_refl)
next
  case (Suc n)
  show ?case
  proof (cases thread)
    case None
    then show ?thesis using Suc.prems
      by (intro exI [of _ m] exI [of _ wq]) (simp_all add: pi_frame_refl)
  next
    case (Some t)
    then have t: "t \<in> A" using Suc.prems(3) by simp
    show ?thesis
    proof (cases "t \<in> set visited")
      case True
      then show ?thesis using Suc.prems Some
        by (intro exI [of _ m] exI [of _ wq]) (auto simp: pi_frame_refl)
    next
      case False
      note ok = Suc.prems(1)
      obtain m1 wq1 where
        loop: "\<And>visited n. t \<notin> set visited \<Longrightarrow> pi_chain_loop K visited (Suc n) (Some t) m =
           (case waiting_mutex (th m t) of
              None \<Rightarrow> Some m1
            | Some u \<Rightarrow> pi_chain_loop K (visited @ [t]) n (m_owner (mx m u)) m1)"
        and step: "lists_ok live maxp Q A wq1 ow m1" "mutexes_sorted K Q wq1 m1"
        and frame: "pi_frame wq wq1 m m1" and prio: "tprio K m1 t = pi_priority K wq ow m t"
        and other: "\<And>s. s \<in> A \<Longrightarrow> s \<noteq> t \<Longrightarrow> tprio K m1 s = tprio K m s"
        by (rule pi_step [OF ok Suc.prems(2) t]) (rule that)
      have cons: "pi_consistent K A wq1 ow m1 (waits_on m t)"
        if "chain_ends m n (waits_on m t)" "pi_consistent K A wq ow m (Some t)"
      proof -
        have "waits_on m t \<noteq> Some t"
          using chain_not_self [OF that(1)] that(1) by (cases n) auto
        then show ?thesis
          by (rule pi_step_consistent [OF ok t that(2) _ frame prio other])
      qed
      have on: "waits_on m1 = waits_on m" by (rule pi_frame_waits_on [OF frame])
      show ?thesis
      proof (cases "waiting_mutex (th m t)")
        case None
        then have "waits_on m t = None" by (simp add: waits_on_def)
        then show ?thesis
          using loop [OF False] step frame other cons None Some
          by (intro exI [of _ m1] exI [of _ wq1]) simp
      next
        case (Some u)
        then have next': "waits_on m t = m_owner (mx m u)" by (simp add: waits_on_def)
        have "MutexQueue u \<in> Q"
          using waits_agreeD(3,4) [OF lists_ok_waits_agree [OF ok] t] Some by blast
        then have "set_option (waits_on m t) \<subseteq> A"
          using owners_agreeD(2) [OF lists_ok_owners_agree [OF ok]] by (auto simp: next')
        from Suc.IH [OF step this, of "visited @ [t]"] obtain m2 wq2 where ih:
          "pi_chain_loop K (visited @ [t]) n (waits_on m t) m1 = Some m2"
          "lists_ok live maxp Q A wq2 ow m2" "mutexes_sorted K Q wq2 m2" "pi_frame wq1 wq2 m1 m2"
          "\<forall>s \<in> A. s \<notin> set (chain m n (waits_on m t)) \<longrightarrow> tprio K m2 s = tprio K m1 s"
          "chain_ends m n (waits_on m t) \<and> set (visited @ [t]) \<inter> set (chain m n (waits_on m t)) = {}
             \<and> pi_consistent K A wq1 ow m1 (waits_on m t) \<longrightarrow> pi_consistent K A wq2 ow m2 None"
          unfolding chain_cong [OF on] chain_ends_cong [OF on] by blast
        have "pi_chain_loop K visited (Suc n) thread m = Some m2"
          using loop [OF False] ih(1) \<open>thread = Some t\<close> Some next' by simp
        moreover have "pi_consistent K A wq2 ow m2 None"
          if "chain_ends m (Suc n) thread" "set visited \<inter> set (chain m (Suc n) thread) = {}"
            "pi_consistent K A wq ow m thread"
          using that ih(6) cons chain_not_self [of m n t] \<open>thread = Some t\<close> by auto
        ultimately show ?thesis
          using ih(2-5) pi_frame_trans [OF frame ih(4)] other \<open>thread = Some t\<close>
          by (intro exI [of _ m2] exI [of _ wq2]) simp
      qed
    qed
  qed
qed

lemma update_pi_chain_spec:
  assumes "lists_ok live maxp Q A wq ow m" "mutexes_sorted K Q wq m" "set_option thread \<subseteq> A"
  obtains m' wq' where "os_mutex_update_pi_chain_locked K thread m = Some m'"
    "lists_ok live maxp Q A wq' ow m'" "mutexes_sorted K Q wq' m'" "pi_frame wq wq' m m'"
    "\<And>s. s \<in> A \<Longrightarrow> s \<notin> set (chain m 16 thread) \<Longrightarrow> tprio K m' s = tprio K m s"
    "chain_ends m 16 thread \<Longrightarrow> pi_consistent K A wq ow m thread \<Longrightarrow> pi_consistent K A wq' ow m' None"
  using pi_chain_loop_spec [OF assms, of "[]" OS_PI_MAX_CHAIN_DEPTH]
  unfolding os_mutex_update_pi_chain_locked_def OS_PI_MAX_CHAIN_DEPTH_def by auto

end

end
