(* ===== verification/Mutex_Sections.thy ===== *)
theory Mutex_Sections
  imports Priority_Inheritance
begin

text \<open>
  Every critical section of \<open>waitq.c\<close>, \<open>mutex.c\<close> and \<open>thread.c\<close> that touches the lists is
  defined on a consistent state, and leaves it consistent: the lists well-formed, the fields of
  threads and mutexes in agreement with them, the queues of mutexes sorted, and the graph of
  threads waiting for owners without a cycle.
\<close>

section \<open>Single list updates\<close>

lemma tprio_fun_cong:
  assumes "\<And>t. t_handle (th m' t) = t_handle (th m t)" "kern m' = kern m"
  shows "tprio K m' = tprio K m"
  by (rule ext) (rule tprio_cong [OF assms])

lemma tasks_ok_cong:
  assumes "tasks_ok live maxp A m" "kern m' = kern m"
    and "\<And>t. t \<in> A \<Longrightarrow> t_handle (th m' t) = t_handle (th m t) \<and> base_priority (th m' t) = base_priority (th m t)"
  shows "tasks_ok live maxp A m'"
  using assms unfolding tasks_ok_def by metis

lemma waits_agree_cong:
  assumes "waits_agree Q A wq T"
    and "\<And>t. t \<in> A \<Longrightarrow> wait_q (T' t) = wait_q (T t) \<and> waiting_mutex (T' t) = waiting_mutex (T t)"
    and "\<And>q. q \<in> Q \<Longrightarrow> set (wq' q) = set (wq q)"
  shows "waits_agree Q A wq' T'"
  using assms unfolding waits_agree_def by simp

definition queue_mutex :: "wait_queue \<Rightarrow> nat option" where
  "queue_mutex q = (case q of PlainQueue _ \<Rightarrow> None | MutexQueue u \<Rightarrow> Some u)"

lemma queue_mutex_simps [simp]:
  "queue_mutex (PlainQueue i) = None" "queue_mutex (MutexQueue u) = Some u"
  by (simp_all add: queue_mutex_def)

lemma queue_mutex_iff: "queue_mutex q = Some u \<longleftrightarrow> q = MutexQueue u"
  by (cases q) auto

lemma waits_agree_enqueue:
  assumes agree: "waits_agree Q A wq T" and t: "t \<in> A" "q \<in> Q" "wait_q (T t) = None"
    and T: "wait_q T' = Some q" "waiting_mutex T' = queue_mutex q"
    and sets: "set xs = insert t (set (wq q))"
  shows "waits_agree Q A (wq(q := xs)) (T(t := T'))"
proof -
  have "set ((wq(q := xs)) p) \<subseteq> A" if "p \<in> Q" for p
    using waits_agreeD(1) [OF agree that] t(1) sets by auto
  moreover have "s \<in> set ((wq(q := xs)) p) \<longleftrightarrow> wait_q ((T(t := T')) s) = Some p"
    if "s \<in> A" "p \<in> Q" for s p
    using waits_agreeD(2) [OF agree that] t(3) T(1) sets by (cases "p = q"; cases "s = t") simp_all
  moreover have "p \<in> Q" if "s \<in> A" "wait_q ((T(t := T')) s) = Some p" for s p
    using waits_agreeD(3) [OF agree that(1), of p] that(2) t(2) T(1) by (cases "s = t") simp_all
  moreover have "waiting_mutex ((T(t := T')) s) = Some u \<longleftrightarrow> wait_q ((T(t := T')) s) = Some (MutexQueue u)"
    if "s \<in> A" for s u
    using waits_agreeD(4) [OF agree that, of u] T by (cases "s = t") (simp_all add: queue_mutex_iff)
  ultimately show ?thesis unfolding waits_agree_def by blast
qed

lemma waits_agree_dequeue:
  assumes agree: "waits_agree Q A wq T" and t: "t \<in> A" "wait_q (T t) = Some q"
    and T: "wait_q T' = None" "waiting_mutex T' = None"
    and sets: "set xs = set (wq q) - {t}"
  shows "waits_agree Q A (wq(q := xs)) (T(t := T'))"
proof -
  have "set ((wq(q := xs)) p) \<subseteq> A" if "p \<in> Q" for p
    using waits_agreeD(1) [OF agree that] sets by auto
  moreover have "s \<in> set ((wq(q := xs)) p) \<longleftrightarrow> wait_q ((T(t := T')) s) = Some p"
    if "s \<in> A" "p \<in> Q" for s p
    using waits_agreeD(2) [OF agree that] t(2) T(1) sets by (cases "p = q"; cases "s = t") auto
  moreover have "p \<in> Q" if "s \<in> A" "wait_q ((T(t := T')) s) = Some p" for s p
    using waits_agreeD(3) [OF agree that(1), of p] that(2) T(1) by (cases "s = t") simp_all
  moreover have "waiting_mutex ((T(t := T')) s) = Some u \<longleftrightarrow> wait_q ((T(t := T')) s) = Some (MutexQueue u)"
    if "s \<in> A" for s u
    using waits_agreeD(4) [OF agree that, of u] T by (cases "s = t") simp_all
  ultimately show ?thesis unfolding waits_agree_def by blast
qed

lemma mutexes_sorted_cong:
  "tprio K m' = tprio K m \<Longrightarrow> mutexes_sorted K Q wq m' = mutexes_sorted K Q wq m"
  by (simp add: mutexes_sorted_def)

text \<open>What a change of one thread's record keeps.\<close>

definition same_task :: "('h, 's) os_thread \<Rightarrow> ('h, 's) os_thread \<Rightarrow> bool" where
  "same_task T' T \<longleftrightarrow> t_handle T' = t_handle T \<and> base_priority T' = base_priority T"

lemma enqueue_spec:
  assumes ok: "lists_ok live maxp Q A wq ow m" and sorted: "mutexes_sorted K Q wq m"
    and t: "t \<in> A" "q \<in> Q" "wait_q (th m t) = None"
    and f: "wait_q (f (th m t)) = Some q" "waiting_mutex (f (th m t)) = queue_mutex q"
      "same_task (f (th m t)) (th m t)"
  obtains h where "os_waitq_insert_priority_locked K q t (upd_th t f m) = Some (upd_th t f m\<lparr>waits := h\<rparr>)"
    "lists_ok live maxp Q A (wq(q := prio_insert (tprio K m) t (wq q))) ow (upd_th t f m\<lparr>waits := h\<rparr>)"
    "mutexes_sorted K Q (wq(q := prio_insert (tprio K m) t (wq q))) (upd_th t f m\<lparr>waits := h\<rparr>)"
proof -
  note agree = lists_ok_waits_agree [OF ok]
  have prio: "tprio K (upd_th t f m) = tprio K m"
    by (rule tprio_fun_cong) (use f in \<open>auto simp: same_task_def\<close>)
  have "t \<notin> set (wq p)" if "p \<in> Q" for p
    using waits_agreeD(2) [OF agree t(1) that] t(3) by simp
  then obtain h where h:
    "os_waitq_insert_priority_locked K q t (upd_th t f m) = Some (upd_th t f m\<lparr>waits := h\<rparr>)"
    "dlists_rep WaitList WaitNode Q (wq(q := prio_insert (tprio K m) t (wq q))) h"
    using insert_priority_spec [of Q wq "upd_th t f m" q t K] lists_ok_waits [OF ok] t(2)
    unfolding prio by auto
  have prio': "tprio K (upd_th t f m\<lparr>waits := h\<rparr>) = tprio K m"
    by (rule tprio_fun_cong) (use f in \<open>auto simp: same_task_def\<close>)
  have "waits_agree Q A (wq(q := prio_insert (tprio K m) t (wq q))) ((th m)(t := f (th m t)))"
    by (rule waits_agree_enqueue [OF agree t f(1,2)]) simp
  moreover have "tasks_ok live maxp A (upd_th t f m\<lparr>waits := h\<rparr>)"
    by (rule tasks_ok_cong [OF lists_ok_tasks [OF ok]]) (use f(3) in \<open>auto simp: same_task_def\<close>)
  ultimately have "lists_ok live maxp Q A (wq(q := prio_insert (tprio K m) t (wq q))) ow
      (upd_th t f m\<lparr>waits := h\<rparr>)"
    using ok h(2) by (simp add: lists_ok_def)
  moreover have "mutexes_sorted K Q (wq(q := prio_insert (tprio K m) t (wq q))) (upd_th t f m\<lparr>waits := h\<rparr>)"
    using sorted by (auto simp: mutexes_sorted_def prio' prio_sorted_insert)
  ultimately show thesis using h(1) that by blast
qed

lemma dequeue_ok:
  assumes ok: "lists_ok live maxp Q A wq ow m" and sorted: "mutexes_sorted K Q wq m"
    and t: "t \<in> A" "wait_q (th m t) = Some q"
    and rep: "dlists_rep WaitList WaitNode Q (wq(q := remove1 t (wq q))) h"
    and f: "wait_q (f (th m t)) = None" "waiting_mutex (f (th m t)) = None"
      "same_task (f (th m t)) (th m t)"
  shows "lists_ok live maxp Q A (wq(q := remove1 t (wq q))) ow (upd_th t f (m\<lparr>waits := h\<rparr>))"
    and "mutexes_sorted K Q (wq(q := remove1 t (wq q))) (upd_th t f (m\<lparr>waits := h\<rparr>))"
proof -
  note agree = lists_ok_waits_agree [OF ok]
  have q: "q \<in> Q" by (rule waits_agreeD(3) [OF agree t])
  have prio: "tprio K (upd_th t f (m\<lparr>waits := h\<rparr>)) = tprio K m"
    by (rule tprio_fun_cong) (use f in \<open>auto simp: same_task_def\<close>)
  have "distinct (wq q)" by (rule waits.dlists_distinct [OF lists_ok_waits [OF ok] q])
  then have "waits_agree Q A (wq(q := remove1 t (wq q))) ((th m)(t := f (th m t)))"
    by (intro waits_agree_dequeue [OF agree t f(1,2)]) (simp add: set_remove1_eq)
  moreover have "tasks_ok live maxp A (upd_th t f (m\<lparr>waits := h\<rparr>))"
    by (rule tasks_ok_cong [OF lists_ok_tasks [OF ok]]) (use f(3) in \<open>auto simp: same_task_def\<close>)
  ultimately show "lists_ok live maxp Q A (wq(q := remove1 t (wq q))) ow (upd_th t f (m\<lparr>waits := h\<rparr>))"
    using ok rep by (simp add: lists_ok_def)
  show "mutexes_sorted K Q (wq(q := remove1 t (wq q))) (upd_th t f (m\<lparr>waits := h\<rparr>))"
    using sorted by (auto simp: mutexes_sorted_def prio prio_sorted_remove1)
qed

lemma dequeue_remove:
  assumes ok: "lists_ok live maxp Q A wq ow m" and t: "t \<in> A" "wait_q (th m t) = Some q"
  obtains h where "waitq_remove t m = Some (m\<lparr>waits := h\<rparr>)"
    "dlists_rep WaitList WaitNode Q (wq(q := remove1 t (wq q))) h"
proof -
  note agree = lists_ok_waits_agree [OF ok]
  have q: "q \<in> Q" by (rule waits_agreeD(3) [OF agree t])
  have "t \<in> set (wq q)" using waits_agreeD(2) [OF agree t(1) q] t(2) by simp
  then show thesis by (rule waitq_remove_spec [OF lists_ok_waits [OF ok] q]) (rule that)
qed

lemma dequeue_get:
  assumes ok: "lists_ok live maxp Q A wq ow m" and q: "q \<in> Q" "wq q = t # ts"
  obtains h where "waitq_get q m = Some (t, m\<lparr>waits := h\<rparr>)"
    "dlists_rep WaitList WaitNode Q (wq(q := remove1 t (wq q))) h" "t \<in> A" "wait_q (th m t) = Some q"
proof -
  note agree = lists_ok_waits_agree [OF ok]
  have t: "t \<in> A" using waits_agreeD(1) [OF agree q(1), of t] q(2) by simp
  have w: "wait_q (th m t) = Some q" using waits_agreeD(2) [OF agree t q(1)] q(2) by simp
  obtain h where "waitq_get q m = Some (t, m\<lparr>waits := h\<rparr>)"
      "dlists_rep WaitList WaitNode Q (wq(q := ts)) h"
    by (rule waitq_get_spec [OF lists_ok_waits [OF ok] q])
  with t w show thesis using that q(2) by simp
qed

lemma thread_update_ok:
  assumes ok: "lists_ok live maxp Q A wq ow m" and sorted: "mutexes_sorted K Q wq m"
    and f: "wait_q (f (th m t)) = wait_q (th m t)" "waiting_mutex (f (th m t)) = waiting_mutex (th m t)"
      "same_task (f (th m t)) (th m t)"
  shows "lists_ok live maxp Q A wq ow (upd_th t f m)" "mutexes_sorted K Q wq (upd_th t f m)"
proof -
  have prio: "tprio K (upd_th t f m) = tprio K m"
    by (rule tprio_fun_cong) (use f in \<open>auto simp: same_task_def\<close>)
  have "waits_agree Q A wq (th (upd_th t f m))"
    by (rule waits_agree_cong [OF lists_ok_waits_agree [OF ok]]) (use f in auto)
  moreover have "tasks_ok live maxp A (upd_th t f m)"
    by (rule tasks_ok_cong [OF lists_ok_tasks [OF ok]]) (use f(3) in \<open>auto simp: same_task_def\<close>)
  ultimately show "lists_ok live maxp Q A wq ow (upd_th t f m)" using ok by (simp add: lists_ok_def)
  show "mutexes_sorted K Q wq (upd_th t f m)" using sorted by (simp add: mutexes_sorted_cong [OF prio])
qed

context fr_kernel
begin

lemma notify_spec:
  assumes ok: "lists_ok live maxp Q A wq ow m" and sorted: "mutexes_sorted K Q wq m" and t: "t \<in> A"
  obtains k where "snd (os_waitq_notify_thread_locked K isr (Some t) v m) = m\<lparr>kern := k\<rparr>"
    "lists_ok live maxp Q A wq ow (m\<lparr>kern := k\<rparr>)" "mutexes_sorted K Q wq (m\<lparr>kern := k\<rparr>)"
    "tprio K (m\<lparr>kern := k\<rparr>) = tprio K m"
proof -
  obtain h where h: "t_handle (th m t) = Some h" "live h (kern m)"
    using tasks_okD(1) [OF lists_ok_tasks [OF ok] t] by blast
  obtain k where k: "k = (if isr then snd (xTaskNotifyFromISR K h v (kern m)) else xTaskNotify K h v (kern m))"
    by blast
  have same: "uxTaskPriorityGet K g k = uxTaskPriorityGet K g (kern m)" "live g k = live g (kern m)" for g
    unfolding k
    by (simp_all add: priority_notify [OF h(2)] priority_notify_isr [OF h(2)] live_notify [OF h(2)]
        live_notify_isr [OF h(2)])
  have prio: "tprio K (m\<lparr>kern := k\<rparr>) = tprio K m"
    by (rule ext) (simp add: tprio_def same split: option.split)
  have "snd (os_waitq_notify_thread_locked K isr (Some t) v m) = m\<lparr>kern := k\<rparr>"
    by (simp add: os_waitq_notify_thread_locked_def h(1) split_beta k)
  moreover have "tasks_ok live maxp A (m\<lparr>kern := k\<rparr>)"
    using lists_ok_tasks [OF ok] by (simp add: tasks_ok_def same)
  then have "lists_ok live maxp Q A wq ow (m\<lparr>kern := k\<rparr>)" using ok by (simp add: lists_ok_def)
  moreover have "mutexes_sorted K Q wq (m\<lparr>kern := k\<rparr>)"
    using sorted by (simp add: mutexes_sorted_cong [OF prio])
  ultimately show thesis using prio that by blast
qed

end

section \<open>The graph of waiting threads\<close>

definition no_deadlock :: "nat set \<Rightarrow> ('h, 's, 'k) osal \<Rightarrow> bool" where
  "no_deadlock A m \<longleftrightarrow> (\<forall>t \<in> A. \<exists>n. chain_ends m n (Some t))"

text \<open>Edges are removed, or redirected to a thread that does not wait.\<close>

lemma chain_ends_redirect:
  assumes "\<And>s. waits_on m' s = waits_on m s \<or> waits_on m' s = None \<or> waits_on m' s = Some c"
    and "waits_on m' c = None"
  shows "chain_ends m n x \<Longrightarrow> chain_ends m' (Suc n) x"
proof (induction n arbitrary: x)
  case 0
  then show ?case by (cases x) simp_all
next
  case (Suc n)
  show ?case
  proof (cases x)
    case (Some s)
    then have IH: "chain_ends m' (Suc n) (waits_on m s)" using Suc by simp
    have "chain_ends m' (Suc n) (waits_on m' s)"
      using assms(1) [of s] IH by (elim disjE) (simp_all add: assms(2) del: chain_ends.simps(3), simp add: assms(2))
    then show ?thesis using Some by simp
  qed simp
qed

lemma no_deadlock_redirect:
  assumes "no_deadlock A m" "waits_on m' c = None"
    and "\<And>s. waits_on m' s = waits_on m s \<or> waits_on m' s = None \<or> waits_on m' s = Some c"
  shows "no_deadlock A m'"
  using assms(1) chain_ends_redirect [OF assms(3,2)] unfolding no_deadlock_def by blast

lemma no_deadlock_removed:
  assumes "no_deadlock A m"
    and "\<And>s. waits_on m' s = waits_on m s \<or> waits_on m' s = None"
  shows "no_deadlock A m'"
proof (cases "\<exists>c. waits_on m' c = None")
  case True
  then obtain c where "waits_on m' c = None" by blast
  then show ?thesis by (rule no_deadlock_redirect [OF assms(1)]) (use assms(2) in blast)
next
  case False
  then have "waits_on m' = waits_on m" using assms(2) by (intro ext) metis
  then show ?thesis using assms(1) chain_ends_cong [of m' m] by (simp add: no_deadlock_def)
qed

lemma no_deadlock_same: "no_deadlock A m \<Longrightarrow> waits_on m' = waits_on m \<Longrightarrow> no_deadlock A m'"
  using chain_ends_cong [of m' m] by (simp add: no_deadlock_def)

text \<open>One thread starts to wait for the owner of a mutex, whose chain it is not on.\<close>

lemma chain_ends_avoid:
  assumes "waits_on m' = (waits_on m)(c := w)"
  shows "c \<notin> set (chain m n x) \<Longrightarrow> chain_ends m n x \<Longrightarrow> chain_ends m' n x"
proof (induction n arbitrary: x)
  case 0
  then show ?case by (cases x) simp_all
next
  case (Suc n)
  then show ?case by (cases x) (simp_all add: assms)
qed

lemma no_deadlock_wait:
  assumes nd: "no_deadlock A m" and on: "waits_on m' = (waits_on m)(c := w)"
    and end': "chain_ends m k w" "c \<notin> set (chain m k w)"
  shows "no_deadlock A m'"
proof -
  have w: "chain_ends m' k w" by (rule chain_ends_avoid [OF on end'(2,1)])
  have "chain_ends m' (n + k) x" if "chain_ends m n x" for n x
    using that
  proof (induction n arbitrary: x)
    case 0
    then show ?case by (cases x) simp_all
  next
    case (Suc n)
    show ?case
    proof (cases x)
      case (Some s)
      have "chain_ends m' (n + k) (waits_on m' s)"
      proof (cases "s = c")
        case True
        then show ?thesis using chain_ends_mono [OF w, of "n + k"] by (simp add: on)
      next
        case False
        then show ?thesis using Suc Some by (simp add: on)
      qed
      then show ?thesis using Some by simp
    qed simp
  qed
  then show ?thesis using nd unfolding no_deadlock_def by blast
qed

text \<open>A chain that ends is no longer than the number of threads.\<close>

lemma chain_distinct: "chain_ends m n x \<Longrightarrow> distinct (chain m n x)"
proof (induction n arbitrary: x)
  case (Suc n)
  then show ?case using chain_not_self by (cases x) auto
qed simp

lemma chain_length: "chain_ends m n x \<Longrightarrow> chain_ends m (length (chain m n x)) x"
proof (induction n arbitrary: x)
  case 0
  then show ?case by (cases x) simp_all
next
  case (Suc n)
  then show ?case by (cases x) simp_all
qed

lemma chain_in_threads:
  assumes "lists_ok live maxp Q A wq ow m" "set_option x \<subseteq> A"
  shows "set (chain m n x) \<subseteq> A"
  using assms(2)
proof (induction n arbitrary: x)
  case (Suc n)
  show ?case
  proof (cases x)
    case (Some t)
    then have t: "t \<in> A" using Suc.prems by simp
    have "set_option (waits_on m t) \<subseteq> A"
    proof (cases "waiting_mutex (th m t)")
      case (Some u)
      then have "MutexQueue u \<in> Q"
        using waits_agreeD(3,4) [OF lists_ok_waits_agree [OF assms(1)] t] by blast
      then show ?thesis
        using owners_agreeD(2) [OF lists_ok_owners_agree [OF assms(1)]] Some by (auto simp: waits_on_def)
    qed (simp add: waits_on_def)
    then show ?thesis using Suc.IH t Some by simp
  qed simp
qed simp

lemma chain_ends_threads:
  assumes ok: "lists_ok live maxp Q A wq ow m" and nd: "no_deadlock A m"
    and A: "finite A" "card A \<le> k" and x: "set_option x \<subseteq> A"
  shows "chain_ends m k x"
proof (cases x)
  case (Some t)
  then obtain n where n: "chain_ends m n x" using nd x by (auto simp: no_deadlock_def)
  have "length (chain m n x) = card (set (chain m n x))"
    using distinct_card [OF chain_distinct [OF n]] by simp
  also have "\<dots> \<le> k" using card_mono [OF A(1) chain_in_threads [OF ok x]] A(2) by (rule order_trans)
  finally show ?thesis using chain_ends_mono [OF chain_length [OF n]] by blast
qed simp

section \<open>Ownership\<close>

lemma owners_agree_acquire:
  assumes agree: "owners_agree Q A ow M" and u: "MutexQueue u \<in> Q" "m_owner (M u) = None"
    and t: "t \<in> A" and M': "m_owner M' = Some t" "lock_count M' \<noteq> 0" "m_initialized M'"
  shows "owners_agree Q A (ow(t := ow t @ [u])) (M(u := M'))"
proof -
  have "MutexQueue v \<in> Q" if "s \<in> A" "v \<in> set ((ow(t := ow t @ [u])) s)" for s v
    using owners_agreeD(1) [OF agree that(1), of v] that(2) u(1) by (cases "s = t") auto
  moreover have "r \<in> A" if "MutexQueue v \<in> Q" "m_owner ((M(u := M')) v) = Some r" for v r
    using owners_agreeD(2) [OF agree that(1), of r] that(2) t M'(1) by (cases "v = u") simp_all
  moreover have "v \<in> set ((ow(t := ow t @ [u])) s) \<longleftrightarrow> m_owner ((M(u := M')) v) = Some s"
    if "MutexQueue v \<in> Q" "s \<in> A" for v s
    using owners_agreeD(3) [OF agree that] u(2) M'(1) by (cases "v = u"; cases "s = t") auto
  moreover have "(m_owner ((M(u := M')) v) = None \<longleftrightarrow> lock_count ((M(u := M')) v) = 0)
      \<and> m_initialized ((M(u := M')) v)" if "MutexQueue v \<in> Q" for v
    using owners_agreeD(4,5) [OF agree that] M' by (cases "v = u") simp_all
  ultimately show ?thesis unfolding owners_agree_def by blast
qed

lemma owners_agree_release:
  assumes agree: "owners_agree Q A ow M" and u: "MutexQueue u \<in> Q" "m_owner (M u) = Some t"
    and dist: "distinct (ow t)" and M': "m_owner M' = None" "lock_count M' = 0" "m_initialized M'"
  shows "owners_agree Q A (ow(t := remove1 u (ow t))) (M(u := M'))"
proof -
  have set: "set ((ow(t := remove1 u (ow t))) s) = (if s = t then set (ow t) - {u} else set (ow s))" for s
    using dist by (simp add: set_remove1_eq)
  have "MutexQueue v \<in> Q" if "s \<in> A" "v \<in> set ((ow(t := remove1 u (ow t))) s)" for s v
    using owners_agreeD(1) [OF agree that(1), of v] that(2) unfolding set by (cases "s = t") auto
  moreover have "r \<in> A" if "MutexQueue v \<in> Q" "m_owner ((M(u := M')) v) = Some r" for v r
    using owners_agreeD(2) [OF agree that(1), of r] that(2) M'(1) by (cases "v = u") simp_all
  moreover have "v \<in> set ((ow(t := remove1 u (ow t))) s) \<longleftrightarrow> m_owner ((M(u := M')) v) = Some s"
    if "MutexQueue v \<in> Q" "s \<in> A" for v s
    using owners_agreeD(3) [OF agree that] u(2) M'(1) unfolding set
    by (cases "v = u"; cases "s = t") auto
  moreover have "(m_owner ((M(u := M')) v) = None \<longleftrightarrow> lock_count ((M(u := M')) v) = 0)
      \<and> m_initialized ((M(u := M')) v)" if "MutexQueue v \<in> Q" for v
    using owners_agreeD(4,5) [OF agree that] M' by (cases "v = u") simp_all
  ultimately show ?thesis unfolding owners_agree_def by blast
qed

lemma owners_agree_count:
  assumes agree: "owners_agree Q A ow M" and M': "m_owner M' = m_owner (M u)"
    "m_initialized M' = m_initialized (M u)" "lock_count M' = 0 \<longleftrightarrow> lock_count (M u) = 0"
  shows "owners_agree Q A ow (M(u := M'))"
proof -
  have same: "m_owner ((M(u := M')) v) = m_owner (M v)" "m_initialized ((M(u := M')) v) = m_initialized (M v)"
      "lock_count ((M(u := M')) v) = 0 \<longleftrightarrow> lock_count (M v) = 0" for v
    using M' by (cases "v = u"; simp)+
  show ?thesis using agree unfolding owners_agree_def same .
qed

section \<open>Consistent systems\<close>

definition sys_ok ::
  "('h, 's, 'k) fr_tasks \<Rightarrow> ('h \<Rightarrow> 'k \<Rightarrow> bool) \<Rightarrow> nat \<Rightarrow> wait_queue set \<Rightarrow> nat set \<Rightarrow>
   (wait_queue \<Rightarrow> nat list) \<Rightarrow> (nat \<Rightarrow> nat list) \<Rightarrow> ('h, 's, 'k) osal \<Rightarrow> bool" where
  "sys_ok K live maxp Q A wq ow m \<longleftrightarrow>
     lists_ok live maxp Q A wq ow m \<and> mutexes_sorted K Q wq m \<and> no_deadlock A m"

lemma sys_okD:
  assumes "sys_ok K live maxp Q A wq ow m"
  shows "lists_ok live maxp Q A wq ow m" "mutexes_sorted K Q wq m" "no_deadlock A m"
  using assms by (simp_all add: sys_ok_def)

lemma mutex_change_ok:
  assumes ok: "sys_ok K live maxp Q A wq ow m"
    and agree: "owners_agree Q A ow' (mx m')" and rep: "dlists_rep OwnedList OwnerNode A ow' (owned m')"
    and same: "th m' = th m" "waits m' = waits m" "kern m' = kern m" and nd: "no_deadlock A m'"
  shows "sys_ok K live maxp Q A wq ow' m'"
proof -
  have "tasks_ok live maxp A m'"
    by (rule tasks_ok_cong [OF lists_ok_tasks [OF sys_okD(1) [OF ok]]]) (simp_all add: same)
  moreover have "mutexes_sorted K Q wq m'"
    using sys_okD(2) [OF ok] mutexes_sorted_cong [OF tprio_same [OF same(1,3)]] by blast
  ultimately show ?thesis
    using sys_okD(1) [OF ok] agree rep nd by (simp add: sys_ok_def lists_ok_def same)
qed

lemma idle_waits_on:
  assumes "lists_ok live maxp Q A wq ow m" "t \<in> A" "wait_q (th m t) = None"
  shows "waiting_mutex (th m t) = None" "waits_on m t = None"
proof -
  show "waiting_mutex (th m t) = None"
    using waits_agreeD(4) [OF lists_ok_waits_agree [OF assms(1)] assms(2)] assms(3) by (metis option.exhaust option.distinct(1))
  then show "waits_on m t = None" by (simp add: waits_on_def)
qed

section \<open>Locking\<close>

lemma lock_acquire_ok:
  assumes sys: "sys_ok K live maxp Q A wq ow m" and cur: "cur \<in> A" "wait_q (th m cur) = None"
    and u: "MutexQueue u \<in> Q" and free: "m_owner (mx m u) = None"
  obtains h where
    "lock_section K cur u timeout start m =
       Some (LockReturns 0, upd_mx u (\<lambda>M. M\<lparr>m_owner := Some cur, lock_count := 1\<rparr>) m\<lparr>owned := h\<rparr>)"
    "sys_ok K live maxp Q A wq (ow(cur := ow cur @ [u]))
       (upd_mx u (\<lambda>M. M\<lparr>m_owner := Some cur, lock_count := 1\<rparr>) m\<lparr>owned := h\<rparr>)"
proof -
  note ok = sys_okD(1) [OF sys]
  note agree = lists_ok_owners_agree [OF ok]
  let ?m = "upd_mx u (\<lambda>M. M\<lparr>m_owner := Some cur, lock_count := 1\<rparr>) m"
  have new: "u \<notin> set (ow s)" if "s \<in> A" for s
    using owners_agreeD(3) [OF agree u that] free by simp
  obtain h where h: "sys_dlist_append (OwnedList cur) (OwnerNode u) (owned m) = Some h"
      "dlists_rep OwnedList OwnerNode A (ow(cur := ow cur @ [u])) h"
    using owned.dlists_append [OF lists_ok_owned [OF ok] cur(1) new] by blast
  have "waits_on (?m\<lparr>owned := h\<rparr>) s = waits_on m s \<or> waits_on (?m\<lparr>owned := h\<rparr>) s = None
      \<or> waits_on (?m\<lparr>owned := h\<rparr>) s = Some cur" for s
    by (simp add: waits_on_def split: option.split)
  moreover have "waits_on (?m\<lparr>owned := h\<rparr>) cur = None"
    using idle_waits_on(1) [OF ok cur] by (simp add: waits_on_def)
  ultimately have "no_deadlock A (?m\<lparr>owned := h\<rparr>)"
    using no_deadlock_redirect [OF sys_okD(3) [OF sys]] by blast
  then have "sys_ok K live maxp Q A wq (ow(cur := ow cur @ [u])) (?m\<lparr>owned := h\<rparr>)"
    by (intro mutex_change_ok [OF sys])
      (use h(2) owners_agree_acquire [OF agree u free cur(1)] owners_agreeD(5) [OF agree u] in simp_all)
  moreover have "lock_section K cur u timeout start m = Some (LockReturns 0, ?m\<lparr>owned := h\<rparr>)"
    using free h(1) by (simp add: lock_section_def)
  ultimately show thesis by (rule that [rotated])
qed

lemma lock_again_ok:
  assumes sys: "sys_ok K live maxp Q A wq ow m" and u: "MutexQueue u \<in> Q"
    and own: "m_owner (mx m u) = Some cur" and count: "lock_count (mx m u) + 1 \<noteq> 0"
  shows "lock_section K cur u timeout start m =
       Some (LockReturns 0, upd_mx u (\<lambda>M. M\<lparr>lock_count := lock_count M + 1\<rparr>) m)"
    and "sys_ok K live maxp Q A wq ow (upd_mx u (\<lambda>M. M\<lparr>lock_count := lock_count M + 1\<rparr>) m)"
proof -
  note ok = sys_okD(1) [OF sys]
  note agree = lists_ok_owners_agree [OF ok]
  show "lock_section K cur u timeout start m =
       Some (LockReturns 0, upd_mx u (\<lambda>M. M\<lparr>lock_count := lock_count M + 1\<rparr>) m)"
    using own by (simp add: lock_section_def)
  have "waits_on (upd_mx u (\<lambda>M. M\<lparr>lock_count := lock_count M + 1\<rparr>) m) = waits_on m"
    by (simp add: fun_eq_iff waits_on_def split: option.split)
  then have "no_deadlock A (upd_mx u (\<lambda>M. M\<lparr>lock_count := lock_count M + 1\<rparr>) m)"
    by (rule no_deadlock_same [OF sys_okD(3) [OF sys]])
  moreover have "lock_count (mx m u) \<noteq> 0" using owners_agreeD(4) [OF agree u] own by simp
  then have "owners_agree Q A ow (mx (upd_mx u (\<lambda>M. M\<lparr>lock_count := lock_count M + 1\<rparr>) m))"
    using count by (auto intro!: owners_agree_count [OF agree])
  ultimately show "sys_ok K live maxp Q A wq ow (upd_mx u (\<lambda>M. M\<lparr>lock_count := lock_count M + 1\<rparr>) m)"
    by (intro mutex_change_ok [OF sys]) (use lists_ok_owned [OF ok] in simp_all)
qed

lemma pi_consistent_except:
  assumes "pi_consistent K A wq ow m y" "tprio K m' = tprio K m"
    and "\<And>s. s \<in> A \<Longrightarrow> Some s \<noteq> x \<Longrightarrow> Some s \<noteq> y
      \<and> base_priority (th m' s) = base_priority (th m s) \<and> waiters wq' ow' s = waiters wq ow s"
  shows "pi_consistent K A wq' ow' m' x"
  unfolding pi_consistent_def
proof (intro ballI impI)
  fix s assume s: "s \<in> A" "Some s \<noteq> x"
  have prio: "tprio K m' r = tprio K m r" for r using assms(2) by (rule fun_cong)
  have "pi_priority K wq' ow' m' s = pi_priority K wq ow m s"
    by (rule pi_priority_cong) (use assms(3) [OF s] prio in simp_all)
  then show "tprio K m' s = pi_priority K wq' ow' m' s"
    using assms(1) s(1) assms(3) [OF s] prio by (simp add: pi_consistent_def)
qed

lemma pi_consistent_change:
  assumes "pi_consistent K A wq ow m None" "tprio K m' = tprio K m"
    and "\<And>s. s \<in> A \<Longrightarrow> Some s \<noteq> x \<Longrightarrow>
      base_priority (th m' s) = base_priority (th m s) \<and> waiters wq' ow' s = waiters wq ow s"
  shows "pi_consistent K A wq' ow' m' x"
  by (rule pi_consistent_except [OF assms(1,2)]) (use assms(3) in simp)

lemma waiters_other:
  assumes "\<And>u. u \<in> set (ow s) \<Longrightarrow> set (wq' (MutexQueue u)) = set (wq (MutexQueue u))"
  shows "waiters wq' ow s = waiters wq ow s"
  using assms by (simp add: waiters_def)

definition lock_wait_update :: "nat \<Rightarrow> ('h, 's) os_thread \<Rightarrow> ('h, 's) os_thread" where
  "lock_wait_update u T = T\<lparr>wait_q := Some (MutexQueue u), waiting_mutex := Some u, wait_result := 0,
     t_state := OS_THREAD_PENDING\<rparr>"

definition lock_leave_update :: "('h, 's) os_thread \<Rightarrow> ('h, 's) os_thread" where
  "lock_leave_update T = T\<lparr>wait_q := None, waiting_mutex := None, t_state := OS_THREAD_READY\<rparr>"

definition unlock_wake_update :: "('h, 's) os_thread \<Rightarrow> ('h, 's) os_thread" where
  "unlock_wake_update T = T\<lparr>wait_q := None, waiting_mutex := None, wait_result := 0,
     t_state := OS_THREAD_READY\<rparr>"

definition block_update :: "wait_queue \<Rightarrow> ('h, 's) os_thread \<Rightarrow> ('h, 's) os_thread" where
  "block_update q T = T\<lparr>wait_q := Some q, wait_result := 0, t_state := OS_THREAD_PENDING\<rparr>"

definition timeout_update :: "('h, 's) os_thread \<Rightarrow> ('h, 's) os_thread" where
  "timeout_update T = T\<lparr>wait_q := None, t_state := OS_THREAD_READY\<rparr>"

definition notified_update :: "u32 \<Rightarrow> ('h, 's) os_thread \<Rightarrow> ('h, 's) os_thread" where
  "notified_update v T = T\<lparr>wait_result := v, t_state := OS_THREAD_READY\<rparr>"

definition wake_update :: "u32 \<Rightarrow> ('h, 's) os_thread \<Rightarrow> ('h, 's) os_thread" where
  "wake_update v T = T\<lparr>wait_q := None, wait_result := v, t_state := OS_THREAD_READY\<rparr>"

definition base_update :: "int \<Rightarrow> ('h, 's) os_thread \<Rightarrow> ('h, 's) os_thread" where
  "base_update p T = T\<lparr>base_priority := p\<rparr>"

definition unqueue_update :: "('h, 's) os_thread \<Rightarrow> ('h, 's) os_thread" where
  "unqueue_update T = T\<lparr>wait_q := None, waiting_mutex := None\<rparr>"

definition abort_update :: "('h, 's) os_thread \<Rightarrow> ('h, 's) os_thread" where
  "abort_update T = T\<lparr>wait_q := None, waiting_mutex := None, cancel_requested := True, aborted := True,
     completed := True, t_state := OS_THREAD_TERMINATED\<rparr>"

context fr_kernel
begin

text \<open>The update of a chain on a consistent system.\<close>

lemma update_chain_ok:
  assumes sys: "sys_ok K live maxp Q A wq ow m" and x: "set_option x \<subseteq> A"
  obtains m' wq' where "os_mutex_update_pi_chain_locked K x m = Some m'"
    "sys_ok K live maxp Q A wq' ow m'" "pi_frame wq wq' m m'"
    "finite A \<Longrightarrow> card A \<le> 16 \<Longrightarrow> pi_consistent K A wq ow m x \<Longrightarrow> pi_consistent K A wq' ow m' None"
proof -
  note ok = sys_okD(1) [OF sys]
  obtain m' wq' where c: "os_mutex_update_pi_chain_locked K x m = Some m'"
      "lists_ok live maxp Q A wq' ow m'" "mutexes_sorted K Q wq' m'" "pi_frame wq wq' m m'"
      "chain_ends m 16 x \<Longrightarrow> pi_consistent K A wq ow m x \<Longrightarrow> pi_consistent K A wq' ow m' None"
    by (rule update_pi_chain_spec [OF ok sys_okD(2) [OF sys] x]) (rule that)
  have "no_deadlock A m'"
    by (rule no_deadlock_same [OF sys_okD(3) [OF sys] pi_frame_waits_on [OF c(4)]])
  moreover have "pi_consistent K A wq' ow m' None"
    if "finite A" "card A \<le> 16" "pi_consistent K A wq ow m x"
    by (rule c(5) [OF chain_ends_threads [OF ok sys_okD(3) [OF sys] that(1,2) x] that(3)])
  ultimately show thesis using c that by (simp add: sys_ok_def)
qed

lemma lock_wait_ok:
  assumes sys: "sys_ok K live maxp Q A wq ow m" and cur: "cur \<in> A" "wait_q (th m cur) = None"
    and u: "MutexQueue u \<in> Q" and own: "m_owner (mx m u) = Some own" "own \<noteq> cur"
    and wait: "timeout \<noteq> 0" "\<not> os_mutex_would_deadlock_locked cur u m"
      "\<not> (timeout \<noteq> OS_WAIT_FOREVER \<and> os_tick_get K m - start \<ge> timeout)"
  obtains m' wq' where
    "lock_section K cur u timeout start m =
       Some (LockWaits (if timeout \<noteq> OS_WAIT_FOREVER then timeout - (os_tick_get K m - start)
                        else OS_WAIT_FOREVER), m')"
    "sys_ok K live maxp Q A wq' ow m'" "mx m' = mx m" "owned m' = owned m"
    "th m' = (th m)(cur := lock_wait_update u (th m cur))"
    "\<And>q. set (wq' q) = set (wq q) \<union> (if q = MutexQueue u then {cur} else {})"
    "finite A \<Longrightarrow> card A \<le> 16 \<Longrightarrow> pi_consistent K A wq ow m None \<Longrightarrow> pi_consistent K A wq' ow m' None"
proof -
  note ok = sys_okD(1) [OF sys]
  let ?f = "lock_wait_update u" and ?wq1 = "wq(MutexQueue u := prio_insert (tprio K m) cur (wq (MutexQueue u)))"
  obtain h where h:
    "os_waitq_insert_priority_locked K (MutexQueue u) cur (upd_th cur ?f m) = Some (upd_th cur ?f m\<lparr>waits := h\<rparr>)"
    "lists_ok live maxp Q A ?wq1 ow (upd_th cur ?f m\<lparr>waits := h\<rparr>)"
    "mutexes_sorted K Q ?wq1 (upd_th cur ?f m\<lparr>waits := h\<rparr>)"
    by (rule enqueue_spec [OF ok sys_okD(2) [OF sys] cur(1) u cur(2), of "lock_wait_update u"])
      (simp_all add: lock_wait_update_def same_task_def)
  let ?m1 = "upd_th cur ?f m\<lparr>waits := h\<rparr>"
  have on: "waits_on ?m1 = (waits_on m)(cur := Some own)"
    by (simp add: fun_eq_iff waits_on_def lock_wait_update_def own split: option.split)
  have ends: "chain_ends m 16 (Some own)" "cur \<notin> set (chain m 16 (Some own))"
    using wait(2) own(1) would_deadlock_iff [of cur 16 "Some own" m]
    by (simp_all add: os_mutex_would_deadlock_locked_def OS_PI_MAX_CHAIN_DEPTH_def)
  have sys1: "sys_ok K live maxp Q A ?wq1 ow ?m1"
    using h(2,3) no_deadlock_wait [OF sys_okD(3) [OF sys] on ends] by (simp add: sys_ok_def)
  have ownA: "own \<in> A" by (rule owners_agreeD(2) [OF lists_ok_owners_agree [OF ok] u own(1)])
  then have "set_option (Some own) \<subseteq> A" by simp
  then obtain m' wq' where c: "os_mutex_update_pi_chain_locked K (Some own) ?m1 = Some m'"
      "sys_ok K live maxp Q A wq' ow m'" "pi_frame ?wq1 wq' ?m1 m'"
      "finite A \<Longrightarrow> card A \<le> 16 \<Longrightarrow> pi_consistent K A ?wq1 ow ?m1 (Some own) \<Longrightarrow> pi_consistent K A wq' ow m' None"
    by (rule update_chain_ok [OF sys1]) (rule that)
  have cons: "pi_consistent K A ?wq1 ow ?m1 (Some own)" if "pi_consistent K A wq ow m None"
  proof (rule pi_consistent_change [OF that])
    show "tprio K ?m1 = tprio K m"
      by (rule tprio_fun_cong) (simp_all add: lock_wait_update_def)
    fix s assume s: "s \<in> A" "Some s \<noteq> Some own"
    have "u \<notin> set (ow s)" using owners_agreeD(3) [OF lists_ok_owners_agree [OF ok] u s(1)] own(1) s(2) by simp
    then show "base_priority (th ?m1 s) = base_priority (th m s) \<and> waiters ?wq1 ow s = waiters wq ow s"
      by (auto simp: lock_wait_update_def split: if_splits intro!: waiters_other)
  qed
  have "lock_section K cur u timeout start m =
       Some (LockWaits (if timeout \<noteq> OS_WAIT_FOREVER then timeout - (os_tick_get K m - start)
                        else OS_WAIT_FOREVER), m')"
  proof -
    have "upd_th cur (\<lambda>T. T\<lparr>wait_q := Some (MutexQueue u), waiting_mutex := Some u, wait_result := 0,
         t_state := OS_THREAD_PENDING\<rparr>) m = upd_th cur ?f m"
      by (simp add: upd_th_def lock_wait_update_def)
    then show ?thesis
      using own wait h(1) c(1) by (auto simp: lock_section_def)
  qed
  moreover have "set (wq' q) = set (wq q) \<union> (if q = MutexQueue u then {cur} else {})" for q
    using c(3) by (auto simp: pi_frame_def)
  ultimately show thesis
    using c(2,3,4) cons by (intro that [of m' wq']) (simp_all add: pi_frame_def)
qed

text \<open>Leaving a queue, by a timeout or an abort, then updating the owner of the mutex.\<close>

lemma leave_queue_ok:
  assumes sys: "sys_ok K live maxp Q A wq ow m" and t: "t \<in> A" "wait_q (th m t) = Some q"
    and f: "wait_q (f (th m t)) = None" "waiting_mutex (f (th m t)) = None"
      "same_task (f (th m t)) (th m t)"
    and rep: "dlists_rep WaitList WaitNode Q (wq(q := remove1 t (wq q))) h"
  shows "sys_ok K live maxp Q A (wq(q := remove1 t (wq q))) ow (upd_th t f (m\<lparr>waits := h\<rparr>))" (is "sys_ok _ _ _ _ _ ?wq1 _ ?m1")
    and "pi_consistent K A wq ow m None \<Longrightarrow>
         pi_consistent K A (wq(q := remove1 t (wq q))) ow (upd_th t f (m\<lparr>waits := h\<rparr>)) (waits_on m t)"
proof -
  note ok = sys_okD(1) [OF sys]
  have "waits_on ?m1 s = waits_on m s \<or> waits_on ?m1 s = None" for s
    using f(2) by (simp add: waits_on_def split: option.split)
  then have "no_deadlock A ?m1" by (rule no_deadlock_removed [OF sys_okD(3) [OF sys]])
  then show "sys_ok K live maxp Q A ?wq1 ow ?m1"
    using dequeue_ok [where f = f and t = t and m = m, OF ok sys_okD(2) [OF sys] t rep f] by (simp add: sys_ok_def)
  assume cons: "pi_consistent K A wq ow m None"
  show "pi_consistent K A ?wq1 ow ?m1 (waits_on m t)"
  proof (rule pi_consistent_change [OF cons])
    show "tprio K ?m1 = tprio K m"
      by (rule tprio_fun_cong) (use f(3) in \<open>simp_all add: same_task_def\<close>)
    fix s assume s: "s \<in> A" "Some s \<noteq> waits_on m t"
    have "t \<notin> waiters wq ow s" using waits_on_owner [OF ok t(1) s(1)] s(2) by auto
    then have "t \<notin> set (wq (MutexQueue u))" if "u \<in> set (ow s)" for u
      using that by (auto simp: waiters_def)
    then have "waiters ?wq1 ow s = waiters wq ow s"
      by (intro waiters_other) (auto simp: set_remove1_eq remove1_idem)
    then show "base_priority (th ?m1 s) = base_priority (th m s) \<and> waiters ?wq1 ow s = waiters wq ow s"
      using f(3) by (simp add: same_task_def)
  qed
qed

lemma lock_timeout_ok:
  assumes sys: "sys_ok K live maxp Q A wq ow m"
    and cur: "cur \<in> A" "wait_q (th m cur) = Some (MutexQueue u)"
  obtains m' wq' where
    "lock_wake_section K cur u notified m =
       Some (Some (if notified then - EAGAIN else - ETIMEDOUT), m')"
    "sys_ok K live maxp Q A wq' ow m'" "mx m' = mx m" "owned m' = owned m"
    "th m' = (th m)(cur := lock_leave_update (th m cur))"
    "finite A \<Longrightarrow> card A \<le> 16 \<Longrightarrow> pi_consistent K A wq ow m None \<Longrightarrow> pi_consistent K A wq' ow m' None"
proof -
  note ok = sys_okD(1) [OF sys]
  have u: "MutexQueue u \<in> Q" by (rule waits_agreeD(3) [OF lists_ok_waits_agree [OF ok] cur])
  have wm: "waiting_mutex (th m cur) = Some u"
    using waits_agreeD(4) [OF lists_ok_waits_agree [OF ok] cur(1)] cur(2) by blast
  then have on: "waits_on m cur = m_owner (mx m u)" by (simp add: waits_on_def)
  obtain h where h: "waitq_remove cur m = Some (m\<lparr>waits := h\<rparr>)"
      "dlists_rep WaitList WaitNode Q (wq(MutexQueue u := remove1 cur (wq (MutexQueue u)))) h"
    by (rule dequeue_remove [OF ok cur]) (rule that)
  let ?wq1 = "wq(MutexQueue u := remove1 cur (wq (MutexQueue u)))"
  let ?m1 = "upd_th cur lock_leave_update (m\<lparr>waits := h\<rparr>)"
  note leave = leave_queue_ok [OF sys cur, of lock_leave_update, OF _ _ _ h(2)]
  have sys1: "sys_ok K live maxp Q A ?wq1 ow ?m1"
    by (rule leave(1)) (simp_all add: lock_leave_update_def same_task_def)
  have cons: "pi_consistent K A ?wq1 ow ?m1 (m_owner (mx m u))" if "pi_consistent K A wq ow m None"
    using leave(2) that by (simp add: lock_leave_update_def same_task_def on)
  have "set_option (m_owner (mx m u)) \<subseteq> A"
    using owners_agreeD(2) [OF lists_ok_owners_agree [OF ok] u] by auto
  then obtain m' wq' where c: "os_mutex_update_pi_chain_locked K (m_owner (mx m u)) ?m1 = Some m'"
      "sys_ok K live maxp Q A wq' ow m'" "pi_frame ?wq1 wq' ?m1 m'"
      "finite A \<Longrightarrow> card A \<le> 16 \<Longrightarrow> pi_consistent K A ?wq1 ow ?m1 (m_owner (mx m u)) \<Longrightarrow>
       pi_consistent K A wq' ow m' None"
    by (rule update_chain_ok [OF sys1]) (rule that)
  have upd: "upd_th cur (\<lambda>T. T\<lparr>wait_q := None, waiting_mutex := None, t_state := OS_THREAD_READY\<rparr>) x
      = upd_th cur lock_leave_update x" for x :: "('h, 's, 'k) osal"
    by (simp add: upd_th_def lock_leave_update_def)
  have "lock_wake_section K cur u notified m =
       Some (Some (if notified then - EAGAIN else - ETIMEDOUT), m')"
    using cur(2) h(1) c(1) by (simp add: lock_wake_section_def upd)
  then show thesis using c(2,3,4) cons by (intro that [of m' wq']) (simp_all add: pi_frame_def)
qed

lemma lock_woken_ok:
  assumes sys: "sys_ok K live maxp Q A wq ow m" and cur: "cur \<in> A" "wait_q (th m cur) = None"
  shows "lock_wake_section K cur u notified m = Some (None, upd_th cur lock_leave_update m)"
    and "sys_ok K live maxp Q A wq ow (upd_th cur lock_leave_update m)"
    and "pi_consistent K A wq ow m None \<Longrightarrow> pi_consistent K A wq ow (upd_th cur lock_leave_update m) None"
proof -
  note ok = sys_okD(1) [OF sys]
  have wm: "waiting_mutex (th m cur) = None" by (rule idle_waits_on(1) [OF ok cur])
  have eq: "(\<lambda>T. T\<lparr>t_state := OS_THREAD_READY, waiting_mutex := None\<rparr>) (th m cur) = lock_leave_update (th m cur)"
    using cur(2) by (simp add: lock_leave_update_def)
  show "lock_wake_section K cur u notified m = Some (None, upd_th cur lock_leave_update m)"
    using cur(2) eq by (simp add: lock_wake_section_def upd_th_def)
  have f: "wait_q (lock_leave_update (th m cur)) = wait_q (th m cur)"
      "waiting_mutex (lock_leave_update (th m cur)) = waiting_mutex (th m cur)"
      "same_task (lock_leave_update (th m cur)) (th m cur)"
    using cur(2) wm by (simp_all add: lock_leave_update_def same_task_def)
  have on: "waits_on (upd_th cur lock_leave_update m) = waits_on m"
    using f(2) by (intro ext waits_on_cong) simp_all
  show "sys_ok K live maxp Q A wq ow (upd_th cur lock_leave_update m)"
    using thread_update_ok [where f = lock_leave_update and t = cur and m = m, OF ok sys_okD(2) [OF sys] f] no_deadlock_same [OF sys_okD(3) [OF sys] on]
    by (simp add: sys_ok_def)
  show "pi_consistent K A wq ow (upd_th cur lock_leave_update m) None" if "pi_consistent K A wq ow m None"
    by (rule pi_consistent_change [OF that])
      (use f(3) in \<open>auto simp: same_task_def intro!: tprio_fun_cong\<close>)
qed

text \<open>Unlocking: the last level gives the mutex up and wakes the first waiter.\<close>

lemma release_ok:
  assumes sys: "sys_ok K live maxp Q A wq ow m" and u: "MutexQueue u \<in> Q"
    and own: "m_owner (mx m u) = Some cur"
  obtains h where "sys_dlist_remove (OwnerNode u) (owned m) = Some h"
    "sys_ok K live maxp Q A wq (ow(cur := remove1 u (ow cur)))
       (upd_mx u (\<lambda>M. M\<lparr>lock_count := 0, m_owner := None\<rparr>) (m\<lparr>owned := h\<rparr>))"
    "pi_consistent K A wq ow m None \<Longrightarrow>
     pi_consistent K A wq (ow(cur := remove1 u (ow cur)))
       (upd_mx u (\<lambda>M. M\<lparr>lock_count := 0, m_owner := None\<rparr>) (m\<lparr>owned := h\<rparr>)) (Some cur)"
proof -
  note ok = sys_okD(1) [OF sys]
  note agree = lists_ok_owners_agree [OF ok]
  have cur: "cur \<in> A" by (rule owners_agreeD(2) [OF agree u own])
  have "u \<in> set (ow cur)" using owners_agreeD(3) [OF agree u cur] own by simp
  then obtain as bs where split: "ow cur = as @ u # bs" "u \<notin> set as"
    using split_list_first by fast
  have rem: "remove1 u (ow cur) = as @ bs" using split by (simp add: remove1_append)
  obtain h where h: "sys_dlist_remove (OwnerNode u) (owned m) = Some h"
      "dlists_rep OwnedList OwnerNode A (ow(cur := as @ bs)) h"
    using owned.dlists_remove [OF lists_ok_owned [OF ok] cur split(1)] by blast
  let ?m1 = "upd_mx u (\<lambda>M. M\<lparr>lock_count := 0, m_owner := None\<rparr>) (m\<lparr>owned := h\<rparr>)"
  let ?ow1 = "ow(cur := remove1 u (ow cur))"
  have dist: "distinct (ow cur)" by (rule owned.dlists_distinct [OF lists_ok_owned [OF ok] cur])
  have "waits_on ?m1 s = waits_on m s \<or> waits_on ?m1 s = None" for s
    by (simp add: waits_on_def split: option.split)
  then have "no_deadlock A ?m1" by (rule no_deadlock_removed [OF sys_okD(3) [OF sys]])
  moreover have "owners_agree Q A ?ow1 (mx ?m1)"
    using owners_agree_release [OF agree u own dist, of "mx ?m1 u"] owners_agreeD(5) [OF agree u] by simp
  ultimately have "sys_ok K live maxp Q A wq ?ow1 ?m1"
    by (intro mutex_change_ok [OF sys]) (use h(2) rem in simp_all)
  moreover have "pi_consistent K A wq ?ow1 ?m1 (Some cur)" if "pi_consistent K A wq ow m None"
    by (rule pi_consistent_change [OF that])
      (auto intro!: tprio_fun_cong waiters_other simp: waiters_def)
  ultimately show thesis using h(1) that by blast
qed

lemma notify_ok:
  assumes sys: "sys_ok K live maxp Q A wq ow m" and t: "t \<in> A"
  obtains k where "snd (os_waitq_notify_thread_locked K isr (Some t) v m) = m\<lparr>kern := k\<rparr>"
    "sys_ok K live maxp Q A wq ow (m\<lparr>kern := k\<rparr>)" "tprio K (m\<lparr>kern := k\<rparr>) = tprio K m"
proof -
  obtain k where k: "snd (os_waitq_notify_thread_locked K isr (Some t) v m) = m\<lparr>kern := k\<rparr>"
    "lists_ok live maxp Q A wq ow (m\<lparr>kern := k\<rparr>)" "mutexes_sorted K Q wq (m\<lparr>kern := k\<rparr>)"
    "tprio K (m\<lparr>kern := k\<rparr>) = tprio K m"
    by (rule notify_spec [OF sys_okD(1,2) [OF sys] t]) (rule that)
  have "waits_on (m\<lparr>kern := k\<rparr>) = waits_on m" by (intro ext waits_on_cong) simp_all
  then have "no_deadlock A (m\<lparr>kern := k\<rparr>)" by (rule no_deadlock_same [OF sys_okD(3) [OF sys]])
  then show thesis using k that by (simp add: sys_ok_def)
qed

text \<open>Taking the head of a queue, marking the thread ready and notifying it.\<close>

lemma wake_head_ok:
  assumes sys: "sys_ok K live maxp Q A wq ow m" and q: "q \<in> Q" "wq q = t # ts"
    and f: "wait_q (f (th m t)) = None" "waiting_mutex (f (th m t)) = None"
      "same_task (f (th m t)) (th m t)"
  obtains h k where "waitq_get q m = Some (t, m\<lparr>waits := h\<rparr>)"
    "snd (os_waitq_notify_thread_locked K isr (Some t) v (upd_th t f (m\<lparr>waits := h\<rparr>)))
       = upd_th t f (m\<lparr>waits := h\<rparr>)\<lparr>kern := k\<rparr>"
    "sys_ok K live maxp Q A (wq(q := ts)) ow (upd_th t f (m\<lparr>waits := h\<rparr>)\<lparr>kern := k\<rparr>)"
    "tprio K (upd_th t f (m\<lparr>waits := h\<rparr>)\<lparr>kern := k\<rparr>) = tprio K m" "t \<in> A"
proof -
  obtain h where h: "waitq_get q m = Some (t, m\<lparr>waits := h\<rparr>)"
    "dlists_rep WaitList WaitNode Q (wq(q := remove1 t (wq q))) h" "t \<in> A" "wait_q (th m t) = Some q"
    by (rule dequeue_get [OF sys_okD(1) [OF sys] q]) (rule that)
  have "remove1 t (wq q) = ts" using q(2) by simp
  then have sys1: "sys_ok K live maxp Q A (wq(q := ts)) ow (upd_th t f (m\<lparr>waits := h\<rparr>))"
    using leave_queue_ok(1) [where f = f and t = t and m = m, OF sys h(3,4) f h(2)] by simp
  have prio: "tprio K (upd_th t f (m\<lparr>waits := h\<rparr>)) = tprio K m"
    by (rule tprio_fun_cong) (use f(3) in \<open>auto simp: same_task_def\<close>)
  show thesis
    by (rule notify_ok [OF sys1 h(3), of isr v]) (rule that [OF h(1)], use prio h(3) in simp_all)
qed

lemma unlock_release_ok:
  assumes sys: "sys_ok K live maxp Q A wq ow m" and u: "MutexQueue u \<in> Q"
    and own: "m_owner (mx m u) = Some cur" and count: "lock_count (mx m u) = 1"
  obtains m' wq' where "unlock_section K cur u m = Some (0, m')"
    "sys_ok K live maxp Q A wq' (ow(cur := remove1 u (ow cur))) m'"
    "mx m' = (mx m)(u := mx m u\<lparr>lock_count := 0, m_owner := None\<rparr>)"
    "th m' = (case wq (MutexQueue u) of [] \<Rightarrow> th m | t # _ \<Rightarrow> (th m)(t := unlock_wake_update (th m t)))"
    "set (wq' (MutexQueue u)) = set (tl (wq (MutexQueue u)))"
    "finite A \<Longrightarrow> card A \<le> 16 \<Longrightarrow> pi_consistent K A wq ow m None \<Longrightarrow>
     pi_consistent K A wq' (ow(cur := remove1 u (ow cur))) m' None"
proof -
  note ok = sys_okD(1) [OF sys]
  note agree = lists_ok_owners_agree [OF ok]
  have cur: "cur \<in> A" by (rule owners_agreeD(2) [OF agree u own])
  let ?ow1 = "ow(cur := remove1 u (ow cur))"
  obtain h where h: "sys_dlist_remove (OwnerNode u) (owned m) = Some h"
    "sys_ok K live maxp Q A wq ?ow1
       (upd_mx u (\<lambda>M. M\<lparr>lock_count := 0, m_owner := None\<rparr>) (m\<lparr>owned := h\<rparr>))"
    "pi_consistent K A wq ow m None \<Longrightarrow> pi_consistent K A wq ?ow1
       (upd_mx u (\<lambda>M. M\<lparr>lock_count := 0, m_owner := None\<rparr>) (m\<lparr>owned := h\<rparr>)) (Some cur)"
    by (rule release_ok [OF sys u own]) (rule that)
  let ?m1 = "upd_mx u (\<lambda>M. M\<lparr>lock_count := 0, m_owner := None\<rparr>) (m\<lparr>owned := h\<rparr>)"
  have m1: "upd_mx u (\<lambda>M. M\<lparr>m_owner := None\<rparr>) (upd_mx u (\<lambda>M. M\<lparr>lock_count := lock_count M - 1\<rparr>) m\<lparr>owned := h\<rparr>)
      = ?m1"
    using count by (simp add: upd_mx_def)
  have "\<exists>m2 wq2. unlock_wake K u ?m1 = Some m2
        \<and> sys_ok K live maxp Q A wq2 ?ow1 m2 \<and> mx m2 = mx ?m1
        \<and> th m2 = (case wq (MutexQueue u) of [] \<Rightarrow> th m | t # _ \<Rightarrow> (th m)(t := unlock_wake_update (th m t)))
        \<and> wq2 = wq(MutexQueue u := tl (wq (MutexQueue u)))
        \<and> (pi_consistent K A wq ?ow1 ?m1 (Some cur) \<longrightarrow> pi_consistent K A wq2 ?ow1 m2 (Some cur))"
  proof (cases "wq (MutexQueue u)")
    case Nil
    then have "sys_dlist_is_empty (WaitList (MutexQueue u)) (waits ?m1)"
      using waitq_empty_spec [OF lists_ok_waits [OF ok] u] by simp
    moreover have "wq(MutexQueue u := tl (wq (MutexQueue u))) = wq" using Nil by auto
    ultimately show ?thesis
      using h(2) Nil by (intro exI [of _ ?m1] exI [of _ wq]) (simp add: unlock_wake_def)
  next
    case (Cons t ts)
    then have ne: "\<not> sys_dlist_is_empty (WaitList (MutexQueue u)) (waits ?m1)"
      using waitq_empty_spec [OF lists_ok_waits [OF ok] u] by simp
    have upd: "upd_th t (\<lambda>T. T\<lparr>wait_q := None, waiting_mutex := None, wait_result := 0,
        t_state := OS_THREAD_READY\<rparr>) x = upd_th t unlock_wake_update x" for x :: "('h, 's, 'k) osal"
      by (simp add: upd_th_def unlock_wake_update_def)
    obtain h' k where w: "waitq_get (MutexQueue u) ?m1 = Some (t, ?m1\<lparr>waits := h'\<rparr>)"
      "snd (os_waitq_notify_thread_locked K False (Some t) 0 (upd_th t unlock_wake_update (?m1\<lparr>waits := h'\<rparr>)))
         = upd_th t unlock_wake_update (?m1\<lparr>waits := h'\<rparr>)\<lparr>kern := k\<rparr>"
      "sys_ok K live maxp Q A (wq(MutexQueue u := ts)) ?ow1
         (upd_th t unlock_wake_update (?m1\<lparr>waits := h'\<rparr>)\<lparr>kern := k\<rparr>)"
      "tprio K (upd_th t unlock_wake_update (?m1\<lparr>waits := h'\<rparr>)\<lparr>kern := k\<rparr>) = tprio K ?m1" "t \<in> A"
      by (rule wake_head_ok [OF h(2) u Cons, of unlock_wake_update False 0])
        (simp_all add: unlock_wake_update_def same_task_def)
    let ?m2 = "upd_th t unlock_wake_update (?m1\<lparr>waits := h'\<rparr>)\<lparr>kern := k\<rparr>"
    have free: "u \<notin> set (?ow1 s)" if "s \<in> A" for s
      using owners_agreeD(3) [OF lists_ok_owners_agree [OF sys_okD(1) [OF h(2)]] u that] by simp
    have "pi_consistent K A (wq(MutexQueue u := ts)) ?ow1 ?m2 (Some cur)"
      if "pi_consistent K A wq ?ow1 ?m1 (Some cur)"
    proof (rule pi_consistent_except [OF that w(4)])
      fix s assume s: "s \<in> A" "Some s \<noteq> Some cur"
      have "waiters (wq(MutexQueue u := ts)) ?ow1 s = waiters wq ?ow1 s"
        by (rule waiters_other) (use free [OF s(1)] in \<open>auto split: if_splits\<close>)
      then show "Some s \<noteq> Some cur \<and> base_priority (th ?m2 s) = base_priority (th ?m1 s)
          \<and> waiters (wq(MutexQueue u := ts)) ?ow1 s = waiters wq ?ow1 s"
        using s(2) by (simp add: unlock_wake_update_def)
    qed
    then show ?thesis
      using w(1-3) ne Cons by (intro exI [of _ ?m2] exI [of _ "wq(MutexQueue u := ts)"])
        (simp add: upd unlock_wake_def)
  qed
  then obtain m2 wq2 where m2: "unlock_wake K u ?m1 = Some m2"
    "sys_ok K live maxp Q A wq2 ?ow1 m2" "mx m2 = mx ?m1"
    "th m2 = (case wq (MutexQueue u) of [] \<Rightarrow> th m | t # _ \<Rightarrow> (th m)(t := unlock_wake_update (th m t)))"
    "wq2 = wq(MutexQueue u := tl (wq (MutexQueue u)))"
    "pi_consistent K A wq ?ow1 ?m1 (Some cur) \<Longrightarrow> pi_consistent K A wq2 ?ow1 m2 (Some cur)"
    by blast
  have "set_option (Some cur) \<subseteq> A" using cur by simp
  then obtain m' wq' where c: "os_mutex_update_pi_chain_locked K (Some cur) m2 = Some m'"
      "sys_ok K live maxp Q A wq' ?ow1 m'" "pi_frame wq2 wq' m2 m'"
      "finite A \<Longrightarrow> card A \<le> 16 \<Longrightarrow> pi_consistent K A wq2 ?ow1 m2 (Some cur) \<Longrightarrow>
       pi_consistent K A wq' ?ow1 m' None"
    by (rule update_chain_ok [OF m2(2)]) (rule that)
  have "unlock_section K cur u m = Some (0, m')"
    using own count h(1) c(1) m2(1) by (simp add: unlock_section_def Let_def m1)
  then show thesis
    using c(2-4) m2(3-6) h(3) by (intro that [of m' wq']) (simp_all add: pi_frame_def)
qed

lemma unlock_nested_ok:
  assumes sys: "sys_ok K live maxp Q A wq ow m" and u: "MutexQueue u \<in> Q"
    and own: "m_owner (mx m u) = Some cur" and count: "lock_count (mx m u) - 1 > 0"
  shows "unlock_section K cur u m = Some (0, upd_mx u (\<lambda>M. M\<lparr>lock_count := lock_count M - 1\<rparr>) m)"
    and "sys_ok K live maxp Q A wq ow (upd_mx u (\<lambda>M. M\<lparr>lock_count := lock_count M - 1\<rparr>) m)"
proof -
  note ok = sys_okD(1) [OF sys]
  note agree = lists_ok_owners_agree [OF ok]
  let ?m = "upd_mx u (\<lambda>M. M\<lparr>lock_count := lock_count M - 1\<rparr>) m"
  have nz: "lock_count (mx m u) \<noteq> 0" using owners_agreeD(4) [OF agree u] own by simp
  show "unlock_section K cur u m = Some (0, ?m)"
    using own nz count by (simp add: unlock_section_def)
  have "waits_on ?m = waits_on m" by (simp add: fun_eq_iff waits_on_def split: option.split)
  then have "no_deadlock A ?m" by (rule no_deadlock_same [OF sys_okD(3) [OF sys]])
  moreover have "owners_agree Q A ow (mx ?m)"
    using count nz by (auto intro!: owners_agree_count [OF agree])
  ultimately show "sys_ok K live maxp Q A wq ow ?m"
    by (intro mutex_change_ok [OF sys]) (use lists_ok_owned [OF ok] in simp_all)
qed

section \<open>Plain wait queues\<close>

lemma block_ok:
  assumes sys: "sys_ok K live maxp Q A wq ow m" and t: "t \<in> A" "wait_q (th m t) = None"
    and q: "PlainQueue i \<in> Q"
  obtains h where "waitq_block_section K (PlainQueue i) t m =
      Some (upd_th t (block_update (PlainQueue i)) m\<lparr>waits := h\<rparr>)"
    "sys_ok K live maxp Q A (wq(PlainQueue i := prio_insert (tprio K m) t (wq (PlainQueue i)))) ow
       (upd_th t (block_update (PlainQueue i)) m\<lparr>waits := h\<rparr>)"
proof -
  note ok = sys_okD(1) [OF sys]
  let ?f = "block_update (PlainQueue i)"
  have wm: "waiting_mutex (th m t) = None" by (rule idle_waits_on(1) [OF ok t])
  obtain h where h:
    "os_waitq_insert_priority_locked K (PlainQueue i) t (upd_th t ?f m) = Some (upd_th t ?f m\<lparr>waits := h\<rparr>)"
    "lists_ok live maxp Q A (wq(PlainQueue i := prio_insert (tprio K m) t (wq (PlainQueue i)))) ow
       (upd_th t ?f m\<lparr>waits := h\<rparr>)"
    "mutexes_sorted K Q (wq(PlainQueue i := prio_insert (tprio K m) t (wq (PlainQueue i))))
       (upd_th t ?f m\<lparr>waits := h\<rparr>)"
    by (rule enqueue_spec [OF ok sys_okD(2) [OF sys] t(1) q t(2), of ?f])
      (use wm in \<open>simp_all add: block_update_def same_task_def\<close>)
  have "waits_on (upd_th t ?f m\<lparr>waits := h\<rparr>) = waits_on m"
    by (intro ext waits_on_cong) (simp_all add: block_update_def)
  then have "no_deadlock A (upd_th t ?f m\<lparr>waits := h\<rparr>)" by (rule no_deadlock_same [OF sys_okD(3) [OF sys]])
  moreover have "upd_th t (\<lambda>T. T\<lparr>wait_q := Some (PlainQueue i), wait_result := 0,
      t_state := OS_THREAD_PENDING\<rparr>) m = upd_th t ?f m"
    by (simp add: upd_th_def block_update_def)
  ultimately show thesis using h that by (simp add: waitq_block_section_def sys_ok_def)
qed

lemma block_timeout_ok:
  assumes sys: "sys_ok K live maxp Q A wq ow m" and t: "t \<in> A" "wait_q (th m t) = Some (PlainQueue i)"
  obtains h where "waitq_wake_section t result v m =
      Some (- ETIMEDOUT, upd_th t timeout_update (m\<lparr>waits := h\<rparr>))"
    "sys_ok K live maxp Q A (wq(PlainQueue i := remove1 t (wq (PlainQueue i)))) ow
       (upd_th t timeout_update (m\<lparr>waits := h\<rparr>))"
proof -
  note ok = sys_okD(1) [OF sys]
  have wm: "waiting_mutex (th m t) = None"
    using waits_agreeD(4) [OF lists_ok_waits_agree [OF ok] t(1)] t(2)
    by (cases "waiting_mutex (th m t)") auto
  obtain h where h: "waitq_remove t m = Some (m\<lparr>waits := h\<rparr>)"
      "dlists_rep WaitList WaitNode Q (wq(PlainQueue i := remove1 t (wq (PlainQueue i)))) h"
    by (rule dequeue_remove [OF ok t]) (rule that)
  have upd: "upd_th t (\<lambda>T. T\<lparr>wait_q := None, t_state := OS_THREAD_READY\<rparr>) x = upd_th t timeout_update x"
    for x :: "('h, 's, 'k) osal"
    by (simp add: upd_th_def timeout_update_def)
  show thesis
    by (rule that [of h])
      (use t h wm leave_queue_ok(1) [OF sys t, of timeout_update, OF _ _ _ h(2)]
        in \<open>simp_all add: waitq_wake_section_def upd, simp_all add: timeout_update_def same_task_def\<close>)
qed

lemma block_woken_ok:
  assumes sys: "sys_ok K live maxp Q A wq ow m" and t: "t \<in> A" "wait_q (th m t) = None"
  shows "waitq_wake_section t result v m =
      Some (if result then sint v else - ETIMEDOUT, upd_th t (notified_update v) m)"
    and "sys_ok K live maxp Q A wq ow (upd_th t (notified_update v) m)"
proof -
  note ok = sys_okD(1) [OF sys]
  have "upd_th t (\<lambda>T. T\<lparr>wait_result := v, t_state := OS_THREAD_READY\<rparr>) m = upd_th t (notified_update v) m"
    by (simp add: upd_th_def notified_update_def)
  then show "waitq_wake_section t result v m =
      Some (if result then sint v else - ETIMEDOUT, upd_th t (notified_update v) m)"
    using t(2) by (simp add: waitq_wake_section_def)
  have on: "waits_on (upd_th t (notified_update v) m) = waits_on m"
    by (intro ext waits_on_cong) (simp_all add: notified_update_def)
  show "sys_ok K live maxp Q A wq ow (upd_th t (notified_update v) m)"
    using thread_update_ok [where f = "notified_update v" and t = t and m = m, OF ok sys_okD(2) [OF sys]]
      no_deadlock_same [OF sys_okD(3) [OF sys] on]
    by (simp add: sys_ok_def notified_update_def same_task_def)
qed

text \<open>One round of a wake: the head of a plain queue leaves it and is notified.\<close>

lemma wake_round_ok:
  assumes sys: "sys_ok K live maxp Q A wq ow m" and q: "PlainQueue i \<in> Q" "wq (PlainQueue i) = t # ts"
  obtains h k where "waitq_get (PlainQueue i) m = Some (t, m\<lparr>waits := h\<rparr>)"
    "snd (os_waitq_notify_thread_locked K isr (Some t) v (upd_th t (wake_update v) (m\<lparr>waits := h\<rparr>)))
       = upd_th t (wake_update v) (m\<lparr>waits := h\<rparr>)\<lparr>kern := k\<rparr>"
    "sys_ok K live maxp Q A (wq(PlainQueue i := ts)) ow
       (upd_th t (wake_update v) (m\<lparr>waits := h\<rparr>)\<lparr>kern := k\<rparr>)"
    "tprio K (upd_th t (wake_update v) (m\<lparr>waits := h\<rparr>)\<lparr>kern := k\<rparr>) = tprio K m"
proof -
  note ok = sys_okD(1) [OF sys]
  have t: "t \<in> A" using waits_agreeD(1) [OF lists_ok_waits_agree [OF ok] q(1)] q(2) by simp
  have "wait_q (th m t) = Some (PlainQueue i)"
    using waits_agreeD(2) [OF lists_ok_waits_agree [OF ok] t q(1)] q(2) by simp
  then have wm: "waiting_mutex (th m t) = None"
    using waits_agreeD(4) [OF lists_ok_waits_agree [OF ok] t] by (cases "waiting_mutex (th m t)") auto
  show thesis
    by (rule wake_head_ok [OF sys q, of "wake_update v" isr v])
      (use wm that in \<open>simp_all add: wake_update_def same_task_def\<close>)
qed

lemma wake_one_ok:
  assumes sys: "sys_ok K live maxp Q A wq ow m" and q: "PlainQueue i \<in> Q"
  obtains b m' where "wake_one_section K isr (PlainQueue i) v m = Some (b, m')"
    "sys_ok K live maxp Q A (wq(PlainQueue i := tl (wq (PlainQueue i)))) ow m'"
    "mx m' = mx m" "owned m' = owned m"
    "th m' = (case wq (PlainQueue i) of [] \<Rightarrow> th m | t # _ \<Rightarrow> (th m)(t := wake_update v (th m t)))"
    "tprio K m' = tprio K m"
proof (cases "wq (PlainQueue i)")
  case Nil
  then have "sys_dlist_is_empty (WaitList (PlainQueue i)) (waits m)"
    using waitq_empty_spec [OF lists_ok_waits [OF sys_okD(1) [OF sys]] q] by simp
  moreover have "wq(PlainQueue i := tl (wq (PlainQueue i))) = wq" using Nil by auto
  ultimately show thesis using sys Nil by (intro that [of False m]) (simp_all add: wake_one_section_def)
next
  case (Cons t ts)
  then have ne: "\<not> sys_dlist_is_empty (WaitList (PlainQueue i)) (waits m)"
    using waitq_empty_spec [OF lists_ok_waits [OF sys_okD(1) [OF sys]] q] by simp
  have upd: "upd_th t (\<lambda>T. T\<lparr>wait_q := None, wait_result := v, t_state := OS_THREAD_READY\<rparr>) x
      = upd_th t (wake_update v) x" for x :: "('h, 's, 'k) osal"
    by (simp add: upd_th_def wake_update_def)
  obtain h k where w: "waitq_get (PlainQueue i) m = Some (t, m\<lparr>waits := h\<rparr>)"
    "snd (os_waitq_notify_thread_locked K isr (Some t) v (upd_th t (wake_update v) (m\<lparr>waits := h\<rparr>)))
       = upd_th t (wake_update v) (m\<lparr>waits := h\<rparr>)\<lparr>kern := k\<rparr>"
    "sys_ok K live maxp Q A (wq(PlainQueue i := ts)) ow
       (upd_th t (wake_update v) (m\<lparr>waits := h\<rparr>)\<lparr>kern := k\<rparr>)"
    "tprio K (upd_th t (wake_update v) (m\<lparr>waits := h\<rparr>)\<lparr>kern := k\<rparr>) = tprio K m"
    by (rule wake_round_ok [OF sys q Cons]) (rule that)
  show thesis
    by (rule that [of "fst (os_waitq_notify_thread_locked K isr (Some t) v (upd_th t (wake_update v) (m\<lparr>waits := h\<rparr>)))"
            "upd_th t (wake_update v) (m\<lparr>waits := h\<rparr>)\<lparr>kern := k\<rparr>"])
      (use w ne Cons in \<open>simp_all add: wake_one_section_def upd prod_eq_iff\<close>)
qed

lemma wake_all_loop_ok:
  assumes "sys_ok K live maxp Q A wq ow m" "PlainQueue i \<in> Q"
  shows "\<exists>b m'. wake_all_loop K isr (PlainQueue i) v hpw m = Some (b, m')
    \<and> sys_ok K live maxp Q A (wq(PlainQueue i := [])) ow m' \<and> mx m' = mx m \<and> owned m' = owned m
    \<and> th m' = (\<lambda>s. if s \<in> set (wq (PlainQueue i)) then wake_update v (th m s) else th m s)
    \<and> tprio K m' = tprio K m"
  using assms
proof (induction "wq (PlainQueue i)" arbitrary: wq m hpw)
  case Nil
  then have "sys_dlist_is_empty (WaitList (PlainQueue i)) (waits m)"
    using waitq_empty_spec [OF lists_ok_waits [OF sys_okD(1) [OF Nil.prems(1)]] Nil.prems(2)] by simp
  moreover have "wq(PlainQueue i := []) = wq" using Nil.hyps by auto
  ultimately show ?case using Nil by (intro exI [of _ hpw] exI [of _ m]) (simp add: wake_all_loop.simps)
next
  case (Cons t ts)
  note q = Cons.hyps(2) [symmetric]
  have ne: "\<not> sys_dlist_is_empty (WaitList (PlainQueue i)) (waits m)"
    using waitq_empty_spec [OF lists_ok_waits [OF sys_okD(1) [OF Cons.prems(1)]] Cons.prems(2)] q by simp
  have upd: "upd_th t (\<lambda>T. T\<lparr>wait_q := None, wait_result := v, t_state := OS_THREAD_READY\<rparr>) x
      = upd_th t (wake_update v) x" for x :: "('h, 's, 'k) osal"
    by (simp add: upd_th_def wake_update_def)
  obtain h k where w: "waitq_get (PlainQueue i) m = Some (t, m\<lparr>waits := h\<rparr>)"
    "snd (os_waitq_notify_thread_locked K isr (Some t) v (upd_th t (wake_update v) (m\<lparr>waits := h\<rparr>)))
       = upd_th t (wake_update v) (m\<lparr>waits := h\<rparr>)\<lparr>kern := k\<rparr>"
    "sys_ok K live maxp Q A (wq(PlainQueue i := ts)) ow
       (upd_th t (wake_update v) (m\<lparr>waits := h\<rparr>)\<lparr>kern := k\<rparr>)"
    "tprio K (upd_th t (wake_update v) (m\<lparr>waits := h\<rparr>)\<lparr>kern := k\<rparr>) = tprio K m"
    by (rule wake_round_ok [OF Cons.prems q]) (rule that)
  let ?m1 = "upd_th t (wake_update v) (m\<lparr>waits := h\<rparr>)\<lparr>kern := k\<rparr>"
  have dist: "distinct (t # ts)"
    using waits.dlists_distinct [OF lists_ok_waits [OF sys_okD(1) [OF Cons.prems(1)]] Cons.prems(2)] q by simp
  let ?hpw = "hpw \<or> fst (os_waitq_notify_thread_locked K isr (Some t) v (upd_th t (wake_update v) (m\<lparr>waits := h\<rparr>)))"
  have "\<exists>b m'. wake_all_loop K isr (PlainQueue i) v ?hpw ?m1 = Some (b, m')
    \<and> sys_ok K live maxp Q A (wq(PlainQueue i := [])) ow m' \<and> mx m' = mx ?m1 \<and> owned m' = owned ?m1
    \<and> th m' = (\<lambda>s. if s \<in> set ts then wake_update v (th ?m1 s) else th ?m1 s)
    \<and> tprio K m' = tprio K ?m1"
    using Cons.hyps(1) [of "wq(PlainQueue i := ts)", OF _ w(3) Cons.prems(2)] by simp
  then obtain b m' where m': "wake_all_loop K isr (PlainQueue i) v ?hpw ?m1 = Some (b, m')"
    "sys_ok K live maxp Q A (wq(PlainQueue i := [])) ow m'" "mx m' = mx ?m1" "owned m' = owned ?m1"
    "th m' = (\<lambda>s. if s \<in> set ts then wake_update v (th ?m1 s) else th ?m1 s)"
    "tprio K m' = tprio K ?m1"
    by blast
  have "wake_all_loop K isr (PlainQueue i) v hpw m = Some (b, m')"
    using ne w(1,2) m'(1) by (simp add: wake_all_loop.simps [of K isr _ v hpw m] upd split_beta)
  moreover have "th m' = (\<lambda>s. if s \<in> set (wq (PlainQueue i)) then wake_update v (th m s) else th m s)"
    using m'(5) dist q by (auto simp: fun_eq_iff)
  ultimately show ?case using m'(2-4,6) w(4) by (intro exI [of _ b] exI [of _ m']) simp
qed

section \<open>Priorities and abort\<close>

lemma requeue_ok:
  assumes sys: "sys_ok K live maxp Q A wq ow m" and t: "t \<in> A" "wait_q (th m t) = Some (PlainQueue i)"
  obtains h where "waitq_remove t m \<bind> os_waitq_insert_priority_locked K (PlainQueue i) t = Some (m\<lparr>waits := h\<rparr>)"
    "sys_ok K live maxp Q A (wq(PlainQueue i := prio_insert (tprio K m) t (remove1 t (wq (PlainQueue i))))) ow
       (m\<lparr>waits := h\<rparr>)"
proof -
  note ok = sys_okD(1) [OF sys]
  note agree = lists_ok_waits_agree [OF ok]
  have q: "PlainQueue i \<in> Q" by (rule waits_agreeD(3) [OF agree t])
  let ?w = "wq(PlainQueue i := remove1 t (wq (PlainQueue i)))"
  obtain h where h: "waitq_remove t m = Some (m\<lparr>waits := h\<rparr>)" "dlists_rep WaitList WaitNode Q ?w h"
    by (rule dequeue_remove [OF ok t]) (rule that)
  have dist: "distinct (wq (PlainQueue i))" by (rule waits.dlists_distinct [OF lists_ok_waits [OF ok] q])
  have mem: "t \<in> set (wq (PlainQueue i))" using waits_agreeD(2) [OF agree t(1) q] t(2) by simp
  have new: "t \<notin> set (?w p)" if "p \<in> Q" for p
    using waits_agreeD(2) [OF agree t(1) that] t(2) dist by (cases "p = PlainQueue i") auto
  have rep: "dlists_rep WaitList WaitNode Q ?w (waits (m\<lparr>waits := h\<rparr>))" using h(2) by simp
  have prio: "tprio K (m\<lparr>waits := x\<rparr>) = tprio K m" for x by (rule tprio_same) simp_all
  obtain h' where h': "os_waitq_insert_priority_locked K (PlainQueue i) t (m\<lparr>waits := h\<rparr>)
        = Some (m\<lparr>waits := h\<rparr>\<lparr>waits := h'\<rparr>)"
      "dlists_rep WaitList WaitNode Q
         (?w(PlainQueue i := prio_insert (tprio K (m\<lparr>waits := h\<rparr>)) t (?w (PlainQueue i)))) h'"
    by (rule insert_priority_spec [OF rep q new])
  let ?wq1 = "wq(PlainQueue i := prio_insert (tprio K m) t (remove1 t (wq (PlainQueue i))))"
  have "waits_agree Q A ?wq1 (th m)"
    by (rule waits_agree_cong [OF agree]) (use mem dist in \<open>auto simp: set_remove1_eq\<close>)
  moreover have "tasks_ok live maxp A (m\<lparr>waits := h'\<rparr>)"
    by (rule tasks_ok_cong [OF lists_ok_tasks [OF ok]]) simp_all
  ultimately have "lists_ok live maxp Q A ?wq1 ow (m\<lparr>waits := h'\<rparr>)"
    using ok h'(2) prio by (simp add: lists_ok_def)
  moreover have "mutexes_sorted K Q ?wq1 (m\<lparr>waits := h'\<rparr>)"
    using sys_okD(2) [OF sys] by (simp add: mutexes_sorted_def prio)
  moreover have "waits_on (m\<lparr>waits := h'\<rparr>) = waits_on m" by (intro ext waits_on_cong) simp_all
  then have "no_deadlock A (m\<lparr>waits := h'\<rparr>)" by (rule no_deadlock_same [OF sys_okD(3) [OF sys]])
  ultimately show thesis using h(1) h'(1) that [of h'] by (simp add: sys_ok_def)
qed

lemma set_base_ok:
  assumes sys: "sys_ok K live maxp Q A wq ow m" and p: "0 \<le> p" "p < int maxp"
  shows "sys_ok K live maxp Q A wq ow (upd_th t (base_update p) m)"
    and "pi_consistent K A wq ow m None \<Longrightarrow> pi_consistent K A wq ow (upd_th t (base_update p) m) (Some t)"
proof -
  note ok = sys_okD(1) [OF sys]
  let ?m = "upd_th t (base_update p) m"
  have prio: "tprio K ?m = tprio K m" by (rule tprio_fun_cong) (simp_all add: base_update_def)
  have "waits_agree Q A wq (th ?m)"
    by (rule waits_agree_cong [OF lists_ok_waits_agree [OF ok]]) (simp_all add: base_update_def)
  moreover have "tasks_ok live maxp A ?m"
  proof -
    have same: "t_handle (th ?m s) = t_handle (th m s)" for s by (simp add: base_update_def)
    have base: "0 \<le> base_priority (th ?m s) \<and> base_priority (th ?m s) < int maxp" if "s \<in> A" for s
      using tasks_okD(3) [OF lists_ok_tasks [OF ok] that] p by (cases "s = t") (simp_all add: base_update_def)
    have k: "kern ?m = kern m" by simp
    show ?thesis
      unfolding tasks_ok_def same k
      using tasks_okD(1,2) [OF lists_ok_tasks [OF ok]] base by blast
  qed
  ultimately have "lists_ok live maxp Q A wq ow ?m" using ok by (simp add: lists_ok_def)
  moreover have "mutexes_sorted K Q wq ?m" using sys_okD(2) [OF sys] mutexes_sorted_cong [OF prio] by blast
  moreover have "waits_on ?m = waits_on m" by (intro ext waits_on_cong) (simp_all add: base_update_def)
  then have "no_deadlock A ?m" by (rule no_deadlock_same [OF sys_okD(3) [OF sys]])
  ultimately show "sys_ok K live maxp Q A wq ow ?m" by (simp add: sys_ok_def)
  show "pi_consistent K A wq ow ?m (Some t)" if "pi_consistent K A wq ow m None"
    by (rule pi_consistent_change [OF that prio]) simp
qed

lemma set_priority_ok:
  assumes sys: "sys_ok K live maxp Q A wq ow m" and t: "t \<in> A" and p: "0 \<le> p" "p < int maxp"
  obtains m' wq' where "set_priority_section K t p m = Some m'"
    "sys_ok K live maxp Q A wq' ow m'" "mx m' = mx m" "owned m' = owned m"
    "th m' = (th m)(t := base_update p (th m t))"
    "finite A \<Longrightarrow> card A \<le> 16 \<Longrightarrow> pi_consistent K A wq ow m None \<Longrightarrow> pi_consistent K A wq' ow m' None"
proof -
  let ?m1 = "upd_th t (base_update p) m"
  have sys1: "sys_ok K live maxp Q A wq ow ?m1" by (rule set_base_ok(1) [OF sys p])
  have "set_option (Some t) \<subseteq> A" using t by simp
  then obtain m2 wq2 where c: "os_mutex_update_pi_chain_locked K (Some t) ?m1 = Some m2"
      "sys_ok K live maxp Q A wq2 ow m2" "pi_frame wq wq2 ?m1 m2"
      "finite A \<Longrightarrow> card A \<le> 16 \<Longrightarrow> pi_consistent K A wq ow ?m1 (Some t) \<Longrightarrow> pi_consistent K A wq2 ow m2 None"
    by (rule update_chain_ok [OF sys1]) (rule that)
  have upd: "upd_th t (\<lambda>T. T\<lparr>base_priority := p\<rparr>) m = ?m1" by (simp add: upd_th_def base_update_def)
  have frame: "mx m2 = mx m" "owned m2 = owned m" "th m2 = (th m)(t := base_update p (th m t))"
    using c(3) by (simp_all add: pi_frame_def)
  have cons: "pi_consistent K A wq2 ow m2 None"
    if "finite A" "card A \<le> 16" "pi_consistent K A wq ow m None"
    by (rule c(4) [OF that(1,2) set_base_ok(2) [OF sys p that(3)]])
  show thesis
  proof (cases "\<exists>i. wait_q (th m2 t) = Some (PlainQueue i)")
    case True
    then obtain i where i: "wait_q (th m2 t) = Some (PlainQueue i)" by blast
    have wm: "waiting_mutex (th m2 t) = None"
      using waits_agreeD(4) [OF lists_ok_waits_agree [OF sys_okD(1) [OF c(2)]] t] i
      by (cases "waiting_mutex (th m2 t)") auto
    let ?wq3 = "wq2(PlainQueue i := prio_insert (tprio K m2) t (remove1 t (wq2 (PlainQueue i))))"
    obtain h where h:
      "waitq_remove t m2 \<bind> os_waitq_insert_priority_locked K (PlainQueue i) t = Some (m2\<lparr>waits := h\<rparr>)"
      "sys_ok K live maxp Q A ?wq3 ow (m2\<lparr>waits := h\<rparr>)"
      by (rule requeue_ok [OF c(2) t i]) (rule that)
    have "pi_consistent K A ?wq3 ow (m2\<lparr>waits := h\<rparr>) None" if "pi_consistent K A wq2 ow m2 None"
      by (rule pi_consistent_change [OF that]) (auto intro!: tprio_same simp: waiters_def)
    then show thesis
      using c(1) h i wm frame cons
      by (intro that [of "m2\<lparr>waits := h\<rparr>" ?wq3]) (simp_all add: set_priority_section_def upd)
  next
    case False
    then have "(case wait_q (th m2 t) of
        Some q \<Rightarrow>
          if waiting_mutex (th m2 t) = None
          then waitq_remove t m2 \<bind> os_waitq_insert_priority_locked K q t
          else Some m2
      | None \<Rightarrow> Some m2) = Some m2"
      using waits_agreeD(4) [OF lists_ok_waits_agree [OF sys_okD(1) [OF c(2)]] t]
      by (auto split: option.split wait_queue.split) (metis option.distinct(1) wait_queue.exhaust)
    then have "set_priority_section K t p m = Some m2"
      using c(1) by (simp add: set_priority_section_def upd)
    then show thesis using c(2) frame cons by (intro that [of m2 wq2]) simp_all
  qed
qed

lemma abort_unqueue_ok:
  assumes sys: "sys_ok K live maxp Q A wq ow m" and t: "t \<in> A"
  obtains m' wq' where "abort_unqueue K t m = Some m'"
    "sys_ok K live maxp Q A wq' ow m'" "mx m' = mx m" "owned m' = owned m"
    "th m' = (th m)(t := unqueue_update (th m t))"
    "finite A \<Longrightarrow> card A \<le> 16 \<Longrightarrow> pi_consistent K A wq ow m None \<Longrightarrow> pi_consistent K A wq' ow m' None"
proof (cases "wait_q (th m t)")
  case None
  have "unqueue_update (th m t) = th m t"
    using None idle_waits_on(1) [OF sys_okD(1) [OF sys] t None] by (simp add: unqueue_update_def)
  then show thesis
    using sys None by (intro that [of m wq]) (simp_all add: abort_unqueue_def)
next
  case (Some q)
  note ok = sys_okD(1) [OF sys]
  note agree = lists_ok_waits_agree [OF ok]
  obtain h where h: "waitq_remove t m = Some (m\<lparr>waits := h\<rparr>)"
      "dlists_rep WaitList WaitNode Q (wq(q := remove1 t (wq q))) h"
    by (rule dequeue_remove [OF ok t Some]) (rule that)
  let ?wq1 = "wq(q := remove1 t (wq q))"
  let ?m1 = "upd_th t unqueue_update (m\<lparr>waits := h\<rparr>)"
  have upd: "upd_th t (\<lambda>T. T\<lparr>wait_q := None, waiting_mutex := None\<rparr>) x = upd_th t unqueue_update x"
    for x :: "('h, 's, 'k) osal"
    by (simp add: upd_th_def unqueue_update_def)
  note leave = leave_queue_ok [OF sys t Some, of unqueue_update, OF _ _ _ h(2)]
  have sys1: "sys_ok K live maxp Q A ?wq1 ow ?m1"
    by (rule leave(1)) (simp_all add: unqueue_update_def same_task_def)
  have cons: "pi_consistent K A ?wq1 ow ?m1 (waits_on m t)" if "pi_consistent K A wq ow m None"
    using leave(2) that by (simp add: unqueue_update_def same_task_def)
  show thesis
  proof (cases "waits_on m t")
    case None
    then have "abort_unqueue K t m = Some ?m1"
      using h(1) Some by (simp add: abort_unqueue_def waits_on_def upd split: option.splits)
    then show thesis using sys1 cons None by (intro that [of ?m1 ?wq1]) simp_all
  next
    case (Some own)
    then obtain u where u: "waiting_mutex (th m t) = Some u" "m_owner (mx m u) = Some own"
      by (auto simp: waits_on_def split: option.splits)
    have "wait_q (th m t) = Some (MutexQueue u)" using waits_agreeD(4) [OF agree t, of u] u(1) by blast
    then have "MutexQueue u \<in> Q" by (rule waits_agreeD(3) [OF agree t])
    then have "own \<in> A" by (rule owners_agreeD(2) [OF lists_ok_owners_agree [OF ok] _ u(2)])
    then have "set_option (Some own) \<subseteq> A" by simp
    then obtain m' wq' where c: "os_mutex_update_pi_chain_locked K (Some own) ?m1 = Some m'"
        "sys_ok K live maxp Q A wq' ow m'" "pi_frame ?wq1 wq' ?m1 m'"
        "finite A \<Longrightarrow> card A \<le> 16 \<Longrightarrow> pi_consistent K A ?wq1 ow ?m1 (Some own) \<Longrightarrow>
         pi_consistent K A wq' ow m' None"
      by (rule update_chain_ok [OF sys1]) (rule that)
    have "abort_unqueue K t m = Some m'"
      using h(1) u c(1) \<open>wait_q (th m t) = Some q\<close> by (simp add: abort_unqueue_def upd)
    then show thesis
      using c(2-4) cons Some by (intro that [of m' wq']) (simp_all add: pi_frame_def)
  qed
qed

lemma abort_ok:
  assumes sys: "sys_ok K live maxp Q A wq ow m" and t: "t \<in> A"
    and run: "\<not> completed (th m t)" and free: "ow t = []"
  obtains m' wq' where "abort_section K t m = Some (Inr (t_handle (th m t), completion_handle (th m t)), m')"
    "sys_ok K live maxp Q A wq' ow m'" "mx m' = mx m" "owned m' = owned m"
    "th m' = (th m)(t := abort_update (th m t))"
    "finite A \<Longrightarrow> card A \<le> 16 \<Longrightarrow> pi_consistent K A wq ow m None \<Longrightarrow> pi_consistent K A wq' ow m' None"
proof -
  obtain m1 wq1 where a: "abort_unqueue K t m = Some m1"
    "sys_ok K live maxp Q A wq1 ow m1" "mx m1 = mx m" "owned m1 = owned m"
    "th m1 = (th m)(t := unqueue_update (th m t))"
    "finite A \<Longrightarrow> card A \<le> 16 \<Longrightarrow> pi_consistent K A wq ow m None \<Longrightarrow> pi_consistent K A wq1 ow m1 None"
    by (rule abort_unqueue_ok [OF sys t]) (rule that)
  let ?f = "\<lambda>T. T\<lparr>cancel_requested := True, aborted := True, completed := True,
               t_state := OS_THREAD_TERMINATED\<rparr>"
  have empty: "sys_dlist_is_empty (OwnedList t) (owned m)"
    using lists_ok_owned [OF sys_okD(1) [OF sys]] t free sys_dlist_is_empty_rep
    by (fastforce simp: dlists_rep_def)
  have f: "wait_q (?f (th m1 t)) = wait_q (th m1 t)" "waiting_mutex (?f (th m1 t)) = waiting_mutex (th m1 t)"
      "same_task (?f (th m1 t)) (th m1 t)" by (simp_all add: same_task_def)
  have on: "waits_on (upd_th t ?f m1) = waits_on m1" by (intro ext waits_on_cong) simp_all
  have sys2: "sys_ok K live maxp Q A wq1 ow (upd_th t ?f m1)"
    using thread_update_ok [where f = ?f and t = t and m = m1, OF sys_okD(1,2) [OF a(2)] f]
      no_deadlock_same [OF sys_okD(3) [OF a(2)] on] by (simp add: sys_ok_def)
  have cons: "pi_consistent K A wq1 ow (upd_th t ?f m1) None" if "pi_consistent K A wq1 ow m1 None"
    by (rule pi_consistent_change [OF that]) (auto intro!: tprio_fun_cong)
  show thesis
  proof (rule that [OF _ sys2])
    show "abort_section K t m
        = Some (Inr (t_handle (th m t), completion_handle (th m t)), upd_th t ?f m1)"
      using run empty a(1,5) by (simp add: abort_section_def unqueue_update_def)
    show "th (upd_th t ?f m1) = (th m)(t := abort_update (th m t))"
      using a(5) by (simp add: abort_update_def unqueue_update_def)
  qed (use a cons in simp_all)
qed

text \<open>The outcomes of the first section of a lock, on a consistent system.\<close>

lemma lock_section_cases:
  assumes sys: "sys_ok K live maxp Q A wq ow m" and cur: "cur \<in> A" "wait_q (th m cur) = None"
    and u: "MutexQueue u \<in> Q"
    and count: "m_owner (mx m u) = Some cur \<Longrightarrow> lock_count (mx m u) + 1 \<noteq> 0"
  obtains (acquired) m' ow' where "lock_section K cur u timeout start m = Some (LockReturns 0, m')"
      "sys_ok K live maxp Q A wq ow' m'" "m_owner (mx m u) = None \<or> m_owner (mx m u) = Some cur"
      "mx m' = (mx m)(u := (mx m u)\<lparr>m_owner := Some cur, lock_count := lock_count (mx m u) + 1\<rparr>)"
      "th m' = th m"
  | (refused) r where "lock_section K cur u timeout start m = Some (LockReturns r, m)" "r \<noteq> 0"
  | (waits) remaining m' wq' where
      "lock_section K cur u timeout start m = Some (LockWaits remaining, m')"
      "sys_ok K live maxp Q A wq' ow m'" "mx m' = mx m" "th m' = (th m)(cur := lock_wait_update u (th m cur))"
proof (cases "m_owner (mx m u)")
  case None
  have zero: "lock_count (mx m u) = 0"
    using owners_agreeD(4) [OF lists_ok_owners_agree [OF sys_okD(1) [OF sys]] u] None by simp
  obtain h where "lock_section K cur u timeout start m =
       Some (LockReturns 0, upd_mx u (\<lambda>M. M\<lparr>m_owner := Some cur, lock_count := 1\<rparr>) m\<lparr>owned := h\<rparr>)"
    "sys_ok K live maxp Q A wq (ow(cur := ow cur @ [u]))
       (upd_mx u (\<lambda>M. M\<lparr>m_owner := Some cur, lock_count := 1\<rparr>) m\<lparr>owned := h\<rparr>)"
    by (rule lock_acquire_ok [OF sys cur u None]) (rule that)
  then show thesis by (rule acquired) (simp_all add: None zero)
next
  case (Some own)
  show thesis
  proof (cases "own = cur")
    case True
    have again: "lock_count (mx m u) + 1 \<noteq> 0" using count Some True by simp
    have own: "m_owner (mx m u) = Some cur" using Some True by simp
    have eq: "(mx m u)\<lparr>m_owner := Some cur, lock_count := lock_count (mx m u) + 1\<rparr>
        = (mx m u)\<lparr>lock_count := lock_count (mx m u) + 1\<rparr>"
      using own by simp
    show thesis
      by (rule acquired [OF lock_again_ok [OF sys u own again]]) (simp_all only: own eq upd_mx_simps simp_thms)
  next
    case False
    show thesis
    proof (cases "timeout = 0 \<or> os_mutex_would_deadlock_locked cur u m
        \<or> timeout \<noteq> OS_WAIT_FOREVER \<and> os_tick_get K m - start \<ge> timeout")
      case True
      then have "\<exists>r. lock_section K cur u timeout start m = Some (LockReturns r, m) \<and> r \<noteq> 0"
        using Some False by (auto simp: lock_section_def)
      then show thesis using refused by blast
    next
      case wait: False
      obtain m' wq' where w:
        "lock_section K cur u timeout start m =
           Some (LockWaits (if timeout \<noteq> OS_WAIT_FOREVER then timeout - (os_tick_get K m - start)
                            else OS_WAIT_FOREVER), m')"
        "sys_ok K live maxp Q A wq' ow m'" "mx m' = mx m" "owned m' = owned m"
        "th m' = (th m)(cur := lock_wait_update u (th m cur))"
        by (rule lock_wait_ok [OF sys cur u Some False, of timeout start]) (use wait that in auto)
      show thesis by (rule waits [OF w(1,2,3,5)])
    qed
  qed
qed

lemma unlock_section_cases:
  assumes sys: "sys_ok K live maxp Q A wq ow m" and u: "MutexQueue u \<in> Q"
  obtains (denied) "unlock_section K cur u m = Some (- EPERM, m)" "m_owner (mx m u) \<noteq> Some cur"
  | (released) m' wq' ow' where "unlock_section K cur u m = Some (0, m')"
      "sys_ok K live maxp Q A wq' ow' m'" "m_owner (mx m u) = Some cur" "lock_count (mx m u) \<noteq> 0"
      "mx m' = (mx m)(u := mx m' u)" "lock_count (mx m' u) = lock_count (mx m u) - 1"
      "m_owner (mx m' u) = (if lock_count (mx m u) = 1 then None else Some cur)"
      "\<And>s. wait_q (th m' s) = wait_q (th m s) \<or> wait_q (th m' s) = None"
proof (cases "m_owner (mx m u) = Some cur")
  case False
  then show thesis by (intro denied) (simp_all add: unlock_section_def)
next
  case own: True
  have nz: "lock_count (mx m u) \<noteq> 0"
    using owners_agreeD(4) [OF lists_ok_owners_agree [OF sys_okD(1) [OF sys]] u] own by simp
  show thesis
  proof (cases "lock_count (mx m u) = 1")
    case True
    obtain m' wq' where r: "unlock_section K cur u m = Some (0, m')"
      "sys_ok K live maxp Q A wq' (ow(cur := remove1 u (ow cur))) m'"
      "mx m' = (mx m)(u := mx m u\<lparr>lock_count := 0, m_owner := None\<rparr>)"
      "th m' = (case wq (MutexQueue u) of [] \<Rightarrow> th m | t # _ \<Rightarrow> (th m)(t := unlock_wake_update (th m t)))"
      by (rule unlock_release_ok [OF sys u own True]) (rule that)
    have w: "wait_q (th m' s) = wait_q (th m s) \<or> wait_q (th m' s) = None" for s
      by (cases "wq (MutexQueue u)") (simp_all add: r(4) unlock_wake_update_def)
    show thesis by (rule released [OF r(1,2) own nz _ _ _ w]) (simp_all add: r(3) True)
  next
    case False
    then have "lock_count (mx m u) - 1 > 0" using nz by (simp add: word_gt_0)
    note n = unlock_nested_ok [OF sys u own this]
    show thesis by (rule released [OF n own nz]) (simp_all add: own False)
  qed
qed

end

end
