(* ===== verification/Thread_Setup.thy ===== *)
theory Thread_Setup
  imports Mutex_Sections
begin

text \<open>
  How a consistent system comes about and changes its population: initialising wait queues and
  mutexes, creating threads, deinitialising mutexes and the exit of threads keep \<open>sys_ok\<close>,
  with the set of queues or threads one larger or smaller. The empty system is consistent, so
  every system built by these calls is.
\<close>

section \<open>Restricting and extending the lists\<close>

lemma dlists_subset:
  "dlists_rep H N Q xs h \<Longrightarrow> P \<subseteq> Q \<Longrightarrow> dlists_rep H N P xs h"
  unfolding dlists_rep_def by blast

lemma init_other:
  "a \<noteq> l \<Longrightarrow> sys_dlist_init l h a = h a" "a \<noteq> l \<Longrightarrow> sys_dnode_init l h a = h a"
  by (simp_all add: sys_dlist_init_def sys_dnode_init_def)

lemma sys_ok_empty: "sys_ok K live maxp {} {} (\<lambda>_. []) (\<lambda>_. []) m"
  by (simp add: sys_ok_def lists_ok_def dlists_rep_def waits_agree_def owners_agree_def tasks_ok_def
      mutexes_sorted_def no_deadlock_def)

lemma waits_agree_new_queue:
  assumes agree: "waits_agree Q A wq T" and new: "q \<notin> Q"
  shows "waits_agree (insert q Q) A (wq(q := [])) T"
proof (rule waits_agreeI)
  have no: "wait_q (T t) \<noteq> Some q" if "t \<in> A" for t
    using waits_agreeD(3) [OF agree that] new by blast
  fix p t
  show "t \<in> A" if "p \<in> insert q Q" "t \<in> set ((wq(q := [])) p)"
    using waits_agreeD(1) [OF agree, of p t] that by (cases "p = q") simp_all
  show "t \<in> set ((wq(q := [])) p) \<longleftrightarrow> wait_q (T t) = Some p" if "t \<in> A" "p \<in> insert q Q"
    using waits_agreeD(2) [OF agree that(1), of p] no [OF that(1)] that(2) by (cases "p = q") simp_all
  show "p \<in> insert q Q" if "t \<in> A" "wait_q (T t) = Some p"
    using waits_agreeD(3) [OF agree that] by simp
qed (rule waits_agreeD(4) [OF agree])

lemma waits_agree_drop_queue:
  assumes agree: "waits_agree Q A wq T" and empty: "wq q = []" "q \<in> Q"
  shows "waits_agree (Q - {q}) A wq T"
proof (rule waits_agreeI)
  show "p \<in> Q - {q}" if "t \<in> A" "wait_q (T t) = Some p" for t p
    using waits_agreeD(3) [OF agree that] waits_agreeD(2) [OF agree that(1) empty(2)] that(2) empty(1)
    by (cases "p = q") simp_all
  show "t \<in> A" if "p \<in> Q - {q}" "t \<in> set (wq p)" for p t
    by (rule waits_agreeD(1) [OF agree _ that(2)]) (use that(1) in simp)
  show "t \<in> set (wq p) \<longleftrightarrow> wait_q (T t) = Some p" if "t \<in> A" "p \<in> Q - {q}" for t p
    by (rule waits_agreeD(2) [OF agree that(1)]) (use that(2) in simp)
qed (rule waits_agreeD(4) [OF agree])

lemma owners_agree_cong:
  assumes agree: "owners_agree Q A ow M" and sub: "Q' \<subseteq> Q"
    and same: "\<And>u. MutexQueue u \<in> Q' \<Longrightarrow> M' u = M u"
    and mem: "\<And>t u. t \<in> A \<Longrightarrow> u \<in> set (ow t) \<Longrightarrow> MutexQueue u \<in> Q'"
  shows "owners_agree Q' A ow M'"
proof (rule owners_agreeI)
  have Q: "MutexQueue u \<in> Q" if "MutexQueue u \<in> Q'" for u using sub that by blast
  fix u assume u: "MutexQueue u \<in> Q'"
  show "t \<in> A" if "m_owner (M' u) = Some t" for t
    using owners_agreeD(2) [OF agree Q [OF u], of t] that by (simp add: same [OF u])
  show "u \<in> set (ow t) \<longleftrightarrow> m_owner (M' u) = Some t" if "t \<in> A" for t
    using owners_agreeD(3) [OF agree Q [OF u] that] by (simp add: same [OF u])
  show "m_owner (M' u) = None \<longleftrightarrow> lock_count (M' u) = 0" "m_initialized (M' u)"
    using owners_agreeD(4,5) [OF agree Q [OF u]] by (simp_all add: same [OF u])
qed (rule mem)

lemma owners_agree_new:
  assumes agree: "owners_agree Q A ow M" and new: "MutexQueue u \<notin> Q"
    and M': "\<And>v. v \<noteq> u \<Longrightarrow> M' v = M v" "m_owner (M' u) = None" "lock_count (M' u) = 0" "m_initialized (M' u)"
  shows "owners_agree (insert (MutexQueue u) Q) A ow M'"
proof (rule owners_agreeI)
  have notowned: "u \<notin> set (ow t)" if "t \<in> A" for t
    using owners_agreeD(1) [OF agree that] new by blast
  show "MutexQueue v \<in> insert (MutexQueue u) Q" if "t \<in> A" "v \<in> set (ow t)" for t v
    using owners_agreeD(1) [OF agree that] by simp
  fix v assume v: "MutexQueue v \<in> insert (MutexQueue u) Q"
  show "t \<in> A" if "m_owner (M' v) = Some t" for t
    using owners_agreeD(2) [OF agree, of v t] v that M' by (cases "v = u") simp_all
  show "v \<in> set (ow t) \<longleftrightarrow> m_owner (M' v) = Some t" if "t \<in> A" for t
    using owners_agreeD(3) [OF agree, of v t] v that M' notowned [OF that] by (cases "v = u") simp_all
  show "m_owner (M' v) = None \<longleftrightarrow> lock_count (M' v) = 0" "m_initialized (M' v)"
    using owners_agreeD(4,5) [OF agree, of v] v M' by (cases "v = u"; simp)+
qed

text \<open>Changes outside the consistent part: threads not in \<open>A\<close>, and quiet kernel activity.\<close>

definition kernel_same ::
  "('h, 's, 'k) fr_tasks \<Rightarrow> ('h \<Rightarrow> 'k \<Rightarrow> bool) \<Rightarrow> 'k \<Rightarrow> 'k \<Rightarrow> bool" where
  "kernel_same K live k k' \<longleftrightarrow>
     (\<forall>g. live g k \<longrightarrow> live g k' \<and> uxTaskPriorityGet K g k' = uxTaskPriorityGet K g k)"

lemma kernel_same_trans: "kernel_same K live k k' \<Longrightarrow> kernel_same K live k' k'' \<Longrightarrow> kernel_same K live k k''"
  by (simp add: kernel_same_def)

lemma kernel_same_refl: "kernel_same K live k k"
  by (simp add: kernel_same_def)

lemma sys_ok_outside:
  assumes sys: "sys_ok K live maxp Q A wq ow m"
    and th: "\<And>t. t \<in> A \<Longrightarrow> th m' t = th m t" and mx: "\<And>u. MutexQueue u \<in> Q \<Longrightarrow> mx m' u = mx m u"
    and waits: "dlists_rep WaitList WaitNode Q wq (waits m')"
    and owned: "dlists_rep OwnedList OwnerNode A ow (owned m')"
    and kern: "kernel_same K live (kern m) (kern m')"
  shows "sys_ok K live maxp Q A wq ow m'"
    and "\<And>t. t \<in> A \<Longrightarrow> tprio K m' t = tprio K m t"
proof -
  note ok = sys_okD(1) [OF sys]
  show prio: "tprio K m' t = tprio K m t" if "t \<in> A" for t
    using tasks_okD(1) [OF lists_ok_tasks [OF ok] that] kern th [OF that]
    by (auto simp: tprio_def kernel_same_def)
  have "waits_agree Q A wq (th m')"
    by (rule waits_agree_cong [OF lists_ok_waits_agree [OF ok]]) (simp_all add: th)
  moreover have "owners_agree Q A ow (mx m')"
    by (rule owners_agree_cong [OF lists_ok_owners_agree [OF ok] subset_refl])
      (simp_all add: mx owners_agreeD(1) [OF lists_ok_owners_agree [OF ok]])
  moreover have "tasks_ok live maxp A m'"
  proof -
    have "\<exists>h. t_handle (th m t) = Some h \<and> live h (kern m')" if "t \<in> A" for t
      using tasks_okD(1) [OF lists_ok_tasks [OF ok] that] kern unfolding kernel_same_def by blast
    then show ?thesis
      using tasks_okD(2,3) [OF lists_ok_tasks [OF ok]] unfolding tasks_ok_def by (simp add: th)
  qed
  ultimately have "lists_ok live maxp Q A wq ow m'" using waits owned by (simp add: lists_ok_def)
  moreover have "prio_sorted (tprio K m') (wq (MutexQueue u)) = prio_sorted (tprio K m) (wq (MutexQueue u))"
    if "MutexQueue u \<in> Q" for u
    using waits_agreeD(1) [OF lists_ok_waits_agree [OF ok] that] by (intro prio_sorted_cong prio)
  then have "mutexes_sorted K Q wq m'" using sys_okD(2) [OF sys] by (simp add: mutexes_sorted_def)
  moreover have "no_deadlock A m'"
  proof -
    have on: "waits_on m' t = waits_on m t" if t: "t \<in> A" for t
    proof (cases "waiting_mutex (th m t)")
      case (Some u)
      then have "MutexQueue u \<in> Q"
        using waits_agreeD(3,4) [OF lists_ok_waits_agree [OF ok] t] by blast
      then show ?thesis using th [OF t] mx Some by (simp add: waits_on_def)
    qed (simp add: waits_on_def th [OF t])
    have "chain_ends m' n x = chain_ends m n x" if "set_option x \<subseteq> A" for n x
      using that
    proof (induction n arbitrary: x)
      case 0
      then show ?case by (cases x) simp_all
    next
      case (Suc n)
      show ?case
      proof (cases x)
        case (Some t)
        then have t: "t \<in> A" using Suc.prems by simp
        have "set_option (waits_on m t) \<subseteq> A"
          using chain_in_threads [OF ok Suc.prems, of "Suc (Suc 0)"] Some
          by (cases "waits_on m t") simp_all
        then show ?thesis using Suc.IH on [OF t] Some by simp
      qed simp
    qed
    then show ?thesis using sys_okD(3) [OF sys] by (simp add: no_deadlock_def)
  qed
  ultimately show "sys_ok K live maxp Q A wq ow m'" by (simp add: sys_ok_def)
qed

section \<open>Wait queues and mutexes\<close>

lemma waitq_init_ok:
  assumes sys: "sys_ok K live maxp Q A wq ow m" and new: "PlainQueue i \<notin> Q"
  shows "sys_ok K live maxp (insert (PlainQueue i) Q) A (wq(PlainQueue i := [])) ow
           (os_waitq_init (Some (PlainQueue i)) m)"
proof -
  note ok = sys_okD(1) [OF sys]
  let ?m = "os_waitq_init (Some (PlainQueue i)) m"
  let ?Q = "insert (PlainQueue i) Q" and ?wq = "wq(PlainQueue i := [])"
  have same: "th ?m = th m" "mx ?m = mx m" "owned ?m = owned m" "kern ?m = kern m"
    by (simp_all add: os_waitq_init_def)
  have "dlists_rep WaitList WaitNode ?Q ?wq (waits ?m)"
    unfolding os_waitq_init_def
    by (simp, rule waits.dlists_init [OF lists_ok_waits [OF ok]])
      (simp_all add: dlist_rep_init init_other)
  moreover have "waits_agree ?Q A ?wq (th m)"
    by (rule waits_agree_new_queue [OF lists_ok_waits_agree [OF ok] new])
  moreover have "owners_agree ?Q A ow (mx m)"
    using owners_agreeD [OF lists_ok_owners_agree [OF ok]] by (intro owners_agreeI) blast+
  moreover have "tasks_ok live maxp A ?m" by (rule tasks_ok_cong [OF lists_ok_tasks [OF ok]]) (simp_all add: same)
  moreover have "mutexes_sorted K ?Q ?wq ?m"
    using sys_okD(2) [OF sys] unfolding mutexes_sorted_def tprio_same [OF same(1,4)] by simp
  moreover have "no_deadlock A ?m"
    by (rule no_deadlock_same [OF sys_okD(3) [OF sys]]) (simp add: fun_eq_iff waits_on_def same split: option.split)
  ultimately show ?thesis using ok by (simp add: sys_ok_def lists_ok_def same)
qed

lemma mutex_init_ok:
  assumes sys: "sys_ok K live maxp Q A wq ow m" and new: "MutexQueue u \<notin> Q"
  shows "sys_ok K live maxp (insert (MutexQueue u) Q) A (wq(MutexQueue u := [])) ow
           (os_mutex_init (Some u) m)"
proof -
  note ok = sys_okD(1) [OF sys]
  let ?m = "os_mutex_init (Some u) m"
  let ?Q = "insert (MutexQueue u) Q" and ?wq = "wq(MutexQueue u := [])"
  have same: "th ?m = th m" "kern ?m = kern m" "mx ?m = (mx m)(u := os_mutex_zero\<lparr>m_initialized := True\<rparr>)"
      "owned ?m = sys_dnode_init (OwnerNode u) (owned m)"
      "waits ?m = sys_dlist_init (WaitList (MutexQueue u)) (sys_dnode_init (WaitList (MutexQueue u)) (waits m))"
    by (simp_all add: os_mutex_init_def os_waitq_init_def mutex_clear_def)
  have notowned: "u \<notin> set (ow t)" if "t \<in> A" for t
    using owners_agreeD(1) [OF lists_ok_owners_agree [OF ok] that] new by blast
  have notwaiting: "wait_q (th m t) \<noteq> Some (MutexQueue u)" if "t \<in> A" for t
    using waits_agreeD(3) [OF lists_ok_waits_agree [OF ok] that] new by blast
  have "dlists_rep WaitList WaitNode ?Q ?wq (waits ?m)"
    unfolding same
    by (rule waits.dlists_init [OF lists_ok_waits [OF ok]])
      (simp_all add: dlist_rep_init init_other)
  moreover have "dlists_rep OwnedList OwnerNode A ow (owned ?m)"
    unfolding same
    by (rule owned.dlists_frame [OF lists_ok_owned [OF ok]])
      (rule init_other(2), use notowned in auto)+
  moreover have "waits_agree ?Q A ?wq (th m)"
    by (rule waits_agree_new_queue [OF lists_ok_waits_agree [OF ok] new])
  moreover have "owners_agree ?Q A ow (mx ?m)"
    by (rule owners_agree_new [OF lists_ok_owners_agree [OF ok] new])
      (simp_all add: same os_mutex_zero_def)
  moreover have "tasks_ok live maxp A ?m" by (rule tasks_ok_cong [OF lists_ok_tasks [OF ok]]) (simp_all add: same)
  moreover have "mutexes_sorted K ?Q ?wq ?m"
    using sys_okD(2) [OF sys] unfolding mutexes_sorted_def tprio_same [OF same(1,2)]
    by (simp add: prio_sorted_def)
  moreover have "no_deadlock A ?m"
  proof (rule no_deadlock_removed [OF sys_okD(3) [OF sys]])
    show "waits_on ?m s = waits_on m s \<or> waits_on ?m s = None" for s
      by (simp add: waits_on_def same os_mutex_zero_def split: option.split)
  qed
  ultimately show ?thesis by (simp add: sys_ok_def lists_ok_def same(1))
qed

lemma mutex_deinit_ok:
  assumes sys: "sys_ok K live maxp Q A wq ow m" and u: "MutexQueue u \<in> Q"
    and ret: "os_mutex_deinit isr (Some u) m = (0, m')"
  shows "sys_ok K live maxp (Q - {MutexQueue u}) A wq ow m'"
    and "m' = mutex_clear u m" and "m_owner (mx m u) = None" and "wq (MutexQueue u) = []"
proof -
  note ok = sys_okD(1) [OF sys]
  have free: "m_owner (mx m u) = None" "sys_dlist_is_empty (WaitList (MutexQueue u)) (waits m)"
    using ret by (auto simp: os_mutex_deinit_def split: if_splits)
  show "m_owner (mx m u) = None" by (rule free)
  show empty: "wq (MutexQueue u) = []"
    using waitq_empty_spec [OF lists_ok_waits [OF ok] u] free(2) by simp
  show m': "m' = mutex_clear u m"
    using ret by (auto simp: os_mutex_deinit_def mutex_clear_def upd_mx_def split: if_splits)
  have same: "th m' = th m" "kern m' = kern m" "mx m' = (mx m)(u := os_mutex_zero)"
      "owned m' = sys_dnode_init (OwnerNode u) (owned m)"
      "waits m' = sys_dnode_init (WaitList (MutexQueue u)) (waits m)"
    by (simp_all add: m' mutex_clear_def)
  have notowned: "u \<notin> set (ow t)" if "t \<in> A" for t
    using owners_agreeD(3) [OF lists_ok_owners_agree [OF ok] u that] free(1) by simp
  have notwaiting: "wait_q (th m t) \<noteq> Some (MutexQueue u)" if "t \<in> A" for t
    using waits_agreeD(2) [OF lists_ok_waits_agree [OF ok] that u] empty by simp
  have "dlists_rep WaitList WaitNode (Q - {MutexQueue u}) wq (waits m')"
    unfolding same
    by (rule waits.dlists_frame [OF dlists_subset [OF lists_ok_waits [OF ok]]])
      (auto simp: sys_dnode_init_def)
  moreover have "dlists_rep OwnedList OwnerNode A ow (owned m')"
    unfolding same
    by (rule owned.dlists_frame [OF lists_ok_owned [OF ok]])
      (rule init_other(2), use notowned in auto)+
  moreover have "waits_agree (Q - {MutexQueue u}) A wq (th m)"
    by (rule waits_agree_drop_queue [OF lists_ok_waits_agree [OF ok] empty u])
  moreover have "owners_agree (Q - {MutexQueue u}) A ow (mx m')"
    unfolding same
  proof (rule owners_agree_cong [OF lists_ok_owners_agree [OF ok]])
    show "MutexQueue v \<in> Q - {MutexQueue u}" if "t \<in> A" "v \<in> set (ow t)" for t v
      using owners_agreeD(1) [OF lists_ok_owners_agree [OF ok] that] notowned [OF that(1)] that(2)
      by auto
  qed auto
  moreover have "tasks_ok live maxp A m'" by (rule tasks_ok_cong [OF lists_ok_tasks [OF ok]]) (simp_all add: same)
  moreover have "mutexes_sorted K (Q - {MutexQueue u}) wq m'"
    using sys_okD(2) [OF sys] unfolding mutexes_sorted_def tprio_same [OF same(1,2)] by simp
  moreover have "no_deadlock A m'"
  proof (rule no_deadlock_removed [OF sys_okD(3) [OF sys]])
    show "waits_on m' s = waits_on m s \<or> waits_on m' s = None" for s
      by (simp add: waits_on_def same os_mutex_zero_def split: option.split)
  qed
  ultimately show "sys_ok K live maxp (Q - {MutexQueue u}) A wq ow m'"
    by (simp add: sys_ok_def lists_ok_def same(1))
qed

section \<open>Threads\<close>

text \<open>
  The documented behaviour of task creation: a created task is new, live and has the requested
  priority; creation, the semaphore calls and the scheduler calls leave other tasks alone.
\<close>

locale fr_kernel_create = fr_kernel K live maxp
  for K :: "('h, 's, 'k) fr_tasks" and live :: "'h \<Rightarrow> 'k \<Rightarrow> bool" and maxp :: nat +
  assumes create_static: "xTaskCreateStatic K n w t p s k = (r, k') \<Longrightarrow> unat p < maxp \<Longrightarrow>
      kernel_same K live k k'
      \<and> (\<forall>h. r = Some h \<longrightarrow> \<not> live h k \<and> live h k' \<and> uxTaskPriorityGet K h k' = p)"
    and create_dynamic: "xTaskCreate K n w t p k = ((res, r), k') \<Longrightarrow> unat p < maxp \<Longrightarrow>
      kernel_same K live k k'
      \<and> (\<forall>h. r = Some h \<longrightarrow> \<not> live h k \<and> live h k' \<and> uxTaskPriorityGet K h k' = p)"
    and quiet_sem_create: "kernel_same K live k (snd (xSemaphoreCreateBinaryStatic K t k))"
    and quiet_sem_delete: "kernel_same K live k (vSemaphoreDelete K c k)"
    and quiet_suspend: "kernel_same K live k (vTaskSuspendAll K k)"
    and quiet_resume: "kernel_same K live k (xTaskResumeAll K k)"
    and quiet_tls: "kernel_same K live k (vTaskSetThreadLocalStoragePointer K h ptr k)"

lemma tasks_ok_new:
  assumes tasks: "tasks_ok live maxp A m" and t: "t \<notin> A"
    and th: "\<And>s. s \<in> A \<Longrightarrow> th m' s = th m s" and kern: "kernel_same K live (kern m) (kern m')"
    and h: "t_handle (th m' t) = Some h" "live h (kern m')" "\<not> live h (kern m)"
    and base: "0 \<le> base_priority (th m' t)" "base_priority (th m' t) < int maxp"
  shows "tasks_ok live maxp (insert t A) m'"
proof -
  have live: "\<exists>g. t_handle (th m' s) = Some g \<and> live g (kern m')" if "s \<in> insert t A" for s
  proof (cases "s = t")
    case False
    then have s: "s \<in> A" using that by simp
    show ?thesis using tasks_okD(1) [OF tasks s] kern unfolding kernel_same_def th [OF s] by blast
  qed (use h in simp)
  have other: "t_handle (th m' s) \<noteq> Some h" if "s \<in> A" for s
    using tasks_okD(1) [OF tasks that] h(3) th [OF that] by auto
  have inj: "r = s" if "r \<in> insert t A" "s \<in> insert t A" "t_handle (th m' r) = t_handle (th m' s)" for r s
  proof (cases "r = t \<or> s = t")
    case True
    then show ?thesis using other [of r] other [of s] that h(1) by auto
  next
    case False
    then show ?thesis using tasks_okD(2) [OF tasks, of r s] that th by simp
  qed
  have prio: "0 \<le> base_priority (th m' s) \<and> base_priority (th m' s) < int maxp" if "s \<in> insert t A" for s
    using tasks_okD(3) [OF tasks, of s] that base th by (cases "s = t") simp_all
  show ?thesis unfolding tasks_ok_def using live inj prio by blast
qed

lemma thread_enters_ok:
  assumes sys: "sys_ok K live maxp Q A wq ow m" and t: "t \<notin> A"
    and th: "\<And>s. s \<in> A \<Longrightarrow> th m' s = th m s" and mx: "mx m' = mx m"
    and waits: "\<And>a. a \<noteq> WaitNode t \<Longrightarrow> waits m' a = waits m a"
    and owned: "\<And>a. a \<noteq> OwnedList t \<Longrightarrow> owned m' a = owned m a" "dlist_rep (owned m') (OwnedList t) []"
    and kern: "kernel_same K live (kern m) (kern m')"
    and h: "t_handle (th m' t) = Some h" "live h (kern m')" "\<not> live h (kern m)"
    and T: "0 \<le> base_priority (th m' t)" "base_priority (th m' t) < int maxp"
      "wait_q (th m' t) = None" "waiting_mutex (th m' t) = None"
  shows "sys_ok K live maxp Q (insert t A) wq (ow(t := [])) m'"
proof -
  note ok = sys_okD(1) [OF sys]
  note wa = lists_ok_waits_agree [OF ok] and oa = lists_ok_owners_agree [OF ok]
  have notin: "t \<notin> set (wq q)" if "q \<in> Q" for q using waits_agreeD(1) [OF wa that] t by blast
  have wrep: "dlists_rep WaitList WaitNode Q wq (waits m')"
    by (rule waits.dlists_frame [OF lists_ok_waits [OF ok]]; rule waits) (use notin in auto)
  have orep: "dlists_rep OwnedList OwnerNode (insert t A) (ow(t := [])) (owned m')"
    by (rule owned.dlists_init [OF lists_ok_owned [OF ok] owned(1,2)])
  have orep': "dlists_rep OwnedList OwnerNode A ow (owned m')"
    by (rule owned.dlists_frame [OF lists_ok_owned [OF ok]]; rule owned) (use t in auto)
  note out = sys_ok_outside [OF sys th _ wrep orep' kern]
  have sys': "sys_ok K live maxp Q A wq ow m'" by (rule out(1)) (simp_all add: mx)
  have "waits_agree Q (insert t A) wq (th m')"
  proof (rule waits_agreeI)
    note wa' = lists_ok_waits_agree [OF sys_okD(1) [OF sys']]
    show "s \<in> insert t A" if "q \<in> Q" "s \<in> set (wq q)" for q s using waits_agreeD(1) [OF wa' that] by simp
    fix s assume s: "s \<in> insert t A"
    show "s \<in> set (wq q) \<longleftrightarrow> wait_q (th m' s) = Some q" if "q \<in> Q" for q
      using waits_agreeD(2) [OF wa', of s q] s that notin [OF that] T(3) by (cases "s = t") simp_all
    show "q \<in> Q" if "wait_q (th m' s) = Some q" for q
      using waits_agreeD(3) [OF wa', of s q] s that T(3) by (cases "s = t") simp_all
    show "waiting_mutex (th m' s) = Some u \<longleftrightarrow> wait_q (th m' s) = Some (MutexQueue u)" for u
      using waits_agreeD(4) [OF wa', of s u] s T(3,4) by (cases "s = t") simp_all
  qed
  moreover have "owners_agree Q (insert t A) (ow(t := [])) (mx m')"
  proof (rule owners_agreeI)
    show "MutexQueue u \<in> Q" if "s \<in> insert t A" "u \<in> set ((ow(t := [])) s)" for s u
      using owners_agreeD(1) [OF oa, of s u] that by (cases "s = t") simp_all
    fix u assume u: "MutexQueue u \<in> Q"
    show own: "s \<in> insert t A" if "m_owner (mx m' u) = Some s" for s
      using owners_agreeD(2) [OF oa u, of s] that mx by simp
    have nt: "m_owner (mx m' u) \<noteq> Some t" using owners_agreeD(2) [OF oa u, of t] t mx by auto
    show "u \<in> set ((ow(t := [])) s) \<longleftrightarrow> m_owner (mx m' u) = Some s" if "s \<in> insert t A" for s
      using owners_agreeD(3) [OF oa u, of s] that nt mx by (cases "s = t") simp_all
    show "m_owner (mx m' u) = None \<longleftrightarrow> lock_count (mx m' u) = 0" "m_initialized (mx m' u)"
      using owners_agreeD(4,5) [OF oa u] mx by simp_all
  qed
  moreover have "tasks_ok live maxp (insert t A) m'"
    by (rule tasks_ok_new [OF lists_ok_tasks [OF ok] t th kern h T(1,2)])
  moreover have "no_deadlock (insert t A) m'"
  proof -
    have "chain_ends m' 1 (Some t)" using T(4) by (simp add: waits_on_def)
    then show ?thesis using sys_okD(3) [OF sys'] unfolding no_deadlock_def by blast
  qed
  ultimately show ?thesis
    using wrep orep sys_okD(2) [OF sys'] by (simp add: sys_ok_def lists_ok_def)
qed

text \<open>A thread that waits for nothing and owns nothing leaves.\<close>

lemma thread_leaves_ok:
  assumes sys: "sys_ok K live maxp Q A wq ow m" and t: "t \<in> A" "wait_q (th m t) = None" "ow t = []"
  shows "sys_ok K live maxp Q (A - {t}) wq ow m"
proof -
  note ok = sys_okD(1) [OF sys]
  note wa = lists_ok_waits_agree [OF ok] and oa = lists_ok_owners_agree [OF ok]
  have notin: "t \<notin> set (wq q)" if "q \<in> Q" for q using waits_agreeD(2) [OF wa t(1) that] t(2) by simp
  have "waits_agree Q (A - {t}) wq (th m)"
  proof (rule waits_agreeI)
    show "s \<in> A - {t}" if "q \<in> Q" "s \<in> set (wq q)" for q s
      using waits_agreeD(1) [OF wa that] notin [OF that(1)] that(2) by auto
  qed (use waits_agreeD(2-4) [OF wa] in blast)+
  moreover have "owners_agree Q (A - {t}) ow (mx m)"
  proof (rule owners_agreeI)
    show "s \<in> A - {t}" if "MutexQueue u \<in> Q" "m_owner (mx m u) = Some s" for u s
      using owners_agreeD(2,3) [OF oa that(1), of s] that(2) t(3) by auto
  qed (use owners_agreeD(1,3-5) [OF oa] in blast)+
  moreover have "tasks_ok live maxp (A - {t}) m"
    using lists_ok_tasks [OF ok] unfolding tasks_ok_def by blast
  moreover have "dlists_rep OwnedList OwnerNode (A - {t}) ow (owned m)"
    by (rule dlists_subset [OF lists_ok_owned [OF ok]]) blast
  ultimately show ?thesis
    using lists_ok_waits [OF ok] sys_okD(2,3) [OF sys] by (simp add: sys_ok_def lists_ok_def no_deadlock_def)
qed

text \<open>Creating a thread: what the call changes, whatever it returns.\<close>

lemma create_fields_simps [simp]:
  "th (create_fields t stack sz entry p1 p2 p3 prio m) s = (if s = t then os_thread_zero\<lparr>t_entry := entry,
     t_p1 := p1, t_p2 := p2, t_p3 := p3, t_stack := stack, t_stack_size := sz,
     t_state := OS_THREAD_READY, base_priority := prio\<rparr> else th m s)"
  "mx (create_fields t stack sz entry p1 p2 p3 prio m) = mx m"
  "waits (create_fields t stack sz entry p1 p2 p3 prio m) = sys_dnode_init (WaitNode t) (waits m)"
  "owned (create_fields t stack sz entry p1 p2 p3 prio m) = sys_dlist_init (OwnedList t) (owned m)"
  "kern (create_fields t stack sz entry p1 p2 p3 prio m) = kern m"
  by (simp_all add: create_fields_def)

definition created ::
  "('h, 's, 'k) fr_tasks \<Rightarrow> ('h \<Rightarrow> 'k \<Rightarrow> bool) \<Rightarrow> nat \<Rightarrow> int \<Rightarrow> ('h, 's, 'k) osal \<Rightarrow> ('h, 's, 'k) osal \<Rightarrow> bool" where
  "created K live t prio m m' \<longleftrightarrow>
     (\<forall>s. s \<noteq> t \<longrightarrow> th m' s = th m s) \<and> mx m' = mx m
     \<and> waits m' = sys_dnode_init (WaitNode t) (waits m)
     \<and> owned m' = sys_dlist_init (OwnedList t) (owned m)
     \<and> kernel_same K live (kern m) (kern m')
     \<and> base_priority (th m' t) = prio \<and> wait_q (th m' t) = None \<and> waiting_mutex (th m' t) = None"

context fr_kernel_create
begin

lemma priority_word:
  assumes "0 \<le> p" "p < int maxp"
  shows "unat (word_of_int p :: u32) < maxp" "sint (word_of_int p :: u32) = p"
proof -
  have small: "p < 2 ^ 31" using assms(2) maxp_int by linarith
  then have "uint (word_of_int p :: u32) = p"
    using assms(1) by (simp add: uint_word_of_int_eq take_bit_int_eq_self)
  then show "unat (word_of_int p :: u32) < maxp" using assms by (simp add: unat_eq_nat_uint)
  show "sint (word_of_int p :: u32) = p" using assms(1) small by (intro sint_of_diff) simp_all
qed

lemma create_task_spec:
  assumes p: "0 \<le> prio" "prio < int maxp"
  obtains r k where "create_task K t n stack sz prio m = upd_th t (\<lambda>T. T\<lparr>t_handle := r\<rparr>) (m\<lparr>kern := k\<rparr>)"
    "kernel_same K live (kern m) k" "\<And>h. r = Some h \<Longrightarrow> \<not> live h (kern m) \<and> live h k \<and> uxTaskPriorityGet K h k = word_of_int prio"
proof (cases stack)
  case None
  let ?w = "(sz + sizeof_StackType K - 1) div sizeof_StackType K"
  obtain res h k where c: "xTaskCreate K n ?w t (word_of_int prio) (kern m) = ((res, h), k)"
    by (metis prod.exhaust)
  have "create_task K t n stack sz prio m
      = upd_th t (\<lambda>T. T\<lparr>t_handle := if res then h else None\<rparr>) (m\<lparr>kern := k\<rparr>)"
    using None by (simp add: create_task_def c)
  then show thesis
    using create_dynamic [OF c priority_word(1) [OF p]] that by (auto split: if_splits)
next
  case (Some s)
  let ?w = "(sz + sizeof_StackType K - 1) div sizeof_StackType K"
  obtain h k where c: "xTaskCreateStatic K n ?w t (word_of_int prio) s (kern m) = (h, k)"
    by (metis prod.exhaust)
  have "create_task K t n stack sz prio m = upd_th t (\<lambda>T. T\<lparr>t_handle := h\<rparr>) (m\<lparr>kern := k\<rparr>)"
    using Some by (simp add: create_task_def c)
  then show thesis
    using create_static [OF c priority_word(1) [OF p]] that by auto
qed

lemma thread_create_spec:
  assumes p: "0 \<le> prio" "prio < int maxp"
    and call: "os_thread_create K (Some t) (Some n) stack sz (Some f) p1 p2 p3 prio opts m = (r, m')"
    and sz: "sz \<noteq> 0"
  shows "created K live t prio m m'"
    and "r = 0 \<Longrightarrow> \<exists>h. t_handle (th m' t) = Some h \<and> live h (kern m') \<and> \<not> live h (kern m)"
    and "r \<noteq> 0 \<Longrightarrow> r = - ENOMEM" and "r = 0 \<Longrightarrow> tprio K m' t = prio"
proof -
  let ?m1 = "create_fields t stack sz (Some f) p1 p2 p3 prio m"
  obtain c k1 where k1: "xSemaphoreCreateBinaryStatic K t (kern m) = (c, k1)" by (metis prod.exhaust)
  have same1: "kernel_same K live (kern m) k1" using quiet_sem_create [of "kern m" t] k1 by simp
  have "created K live t prio m m'
    \<and> (r = 0 \<longrightarrow> (\<exists>h. t_handle (th m' t) = Some h \<and> live h (kern m') \<and> \<not> live h (kern m)))
    \<and> (r \<noteq> 0 \<longrightarrow> r = - ENOMEM) \<and> (r = 0 \<longrightarrow> tprio K m' t = prio)"
  proof (cases c)
    case None
    then have "m' = ?m1\<lparr>kern := k1\<rparr>" "r = - ENOMEM"
      using call sz k1 by (simp_all add: os_thread_create_def)
    then show ?thesis using same1 by (simp add: created_def os_thread_zero_def)
  next
    case (Some sem)
    let ?m2 = "upd_th t (\<lambda>T. T\<lparr>completion_handle := Some sem\<rparr>) (?m1\<lparr>kern := k1\<rparr>)"
    let ?m3 = "?m2\<lparr>kern := vTaskSuspendAll K k1\<rparr>"
    obtain hd k where t: "create_task K t n stack sz prio ?m3 = upd_th t (\<lambda>T. T\<lparr>t_handle := hd\<rparr>) (?m3\<lparr>kern := k\<rparr>)"
      "kernel_same K live (kern ?m3) k" "\<And>h. hd = Some h \<Longrightarrow> \<not> live h (kern ?m3) \<and> live h k \<and> uxTaskPriorityGet K h k = word_of_int prio"
      by (rule create_task_spec [OF p]) (rule that)
    have same3: "kernel_same K live (kern m) (vTaskSuspendAll K k1)"
      by (rule kernel_same_trans [OF same1 quiet_suspend])
    have samek: "kernel_same K live (kern m) k"
      by (rule kernel_same_trans [OF same3]) (use t(2) in simp)
    show ?thesis
    proof (cases hd)
      case None
      then have "m' = upd_th t (\<lambda>T. T\<lparr>completion_handle := None\<rparr>)
          (upd_th t (\<lambda>T. T\<lparr>t_handle := None\<rparr>) (?m3\<lparr>kern := k\<rparr>)
             \<lparr>kern := vSemaphoreDelete K sem (xTaskResumeAll K k)\<rparr>)" "r = - ENOMEM"
        using call sz k1 Some t(1) by (simp_all add: os_thread_create_def Let_def)
      moreover have "kernel_same K live (kern m) (vSemaphoreDelete K sem (xTaskResumeAll K k))"
        by (rule kernel_same_trans [OF kernel_same_trans [OF samek quiet_resume] quiet_sem_delete])
      ultimately show ?thesis by (simp add: created_def os_thread_zero_def)
    next
      case h: (Some h)
      let ?k = "xTaskResumeAll K (vTaskSetThreadLocalStoragePointer K h (Some t) k)"
      have m': "m' = upd_th t (\<lambda>T. T\<lparr>t_handle := Some h\<rparr>) (?m3\<lparr>kern := k\<rparr>)\<lparr>kern := ?k\<rparr>" "r = 0"
        using call sz k1 Some t(1) h by (simp_all add: os_thread_create_def Let_def)
      have same: "kernel_same K live k ?k" by (rule kernel_same_trans [OF quiet_tls quiet_resume])
      have "\<not> live h (kern m)" using t(3) [OF h] same3 by (auto simp: kernel_same_def)
      moreover have "live h ?k" "uxTaskPriorityGet K h ?k = word_of_int prio"
        using t(3) [OF h] same by (auto simp: kernel_same_def)
      ultimately show ?thesis
        using m' kernel_same_trans [OF samek same] priority_word(2) [OF p]
        by (simp add: created_def os_thread_zero_def tprio_def)
    qed
  qed
  then show "created K live t prio m m'"
    and "r = 0 \<Longrightarrow> \<exists>h. t_handle (th m' t) = Some h \<and> live h (kern m') \<and> \<not> live h (kern m)"
    and "r \<noteq> 0 \<Longrightarrow> r = - ENOMEM" and "r = 0 \<Longrightarrow> tprio K m' t = prio" by blast+
qed

text \<open>
  \<open>os_thread_create\<close> on an object that is not a thread of the system: success adds the thread,
  failure leaves the system as it was.
\<close>

lemma thread_create_ok:
  assumes sys: "sys_ok K live maxp Q A wq ow m" and t: "t \<notin> A"
    and p: "0 \<le> prio" "prio < int maxp" and sz: "sz \<noteq> 0"
    and call: "os_thread_create K (Some t) (Some n) stack sz (Some f) p1 p2 p3 prio opts m = (r, m')"
  shows "r = 0 \<Longrightarrow> sys_ok K live maxp Q (insert t A) wq (ow(t := [])) m'"
    and "r \<noteq> 0 \<Longrightarrow> sys_ok K live maxp Q A wq ow m'"
proof -
  note spec = thread_create_spec [OF p call sz]
  note c = spec(1) [unfolded created_def]
  have th: "th m' s = th m s" if "s \<in> A" for s using c that t by auto
  have waits: "waits m' a = waits m a" if "a \<noteq> WaitNode t" for a using c that by (simp add: init_other)
  have owned: "owned m' a = owned m a" if "a \<noteq> OwnedList t" for a using c that by (simp add: init_other)
  show "sys_ok K live maxp Q (insert t A) wq (ow(t := [])) m'" if r0: "r = 0"
  proof -
    obtain h where h: "t_handle (th m' t) = Some h" "live h (kern m')" "\<not> live h (kern m)"
      using spec(2) [OF r0] by blast
    show ?thesis
      by (rule thread_enters_ok [OF sys t th _ waits owned _ _ h])
        (use c p in \<open>simp_all add: dlist_rep_init\<close>)
  qed
  show "sys_ok K live maxp Q A wq ow m'" if "r \<noteq> 0"
  proof (rule sys_ok_outside(1) [OF sys th])
    have notin: "t \<notin> set (wq q)" if "q \<in> Q" for q
      using waits_agreeD(1) [OF lists_ok_waits_agree [OF sys_okD(1) [OF sys]] that] t by blast
    show "dlists_rep WaitList WaitNode Q wq (waits m')"
      by (rule waits.dlists_frame [OF lists_ok_waits [OF sys_okD(1) [OF sys]]]; rule waits) (use notin in auto)
    show "dlists_rep OwnedList OwnerNode A ow (owned m')"
      by (rule owned.dlists_frame [OF lists_ok_owned [OF sys_okD(1) [OF sys]]]; rule owned) (use t in auto)
  qed (use c in simp_all)
qed

end

end
