(* ===== verification/Mutex_Interleaving.thy ===== *)
theory Mutex_Interleaving
  imports Thread_Setup
begin

text \<open>
  Threads, interrupts and the kernel interleaved: every critical section of \<open>waitq.c\<close>,
  \<open>mutex.c\<close> and \<open>thread.c\<close> that touches wait queues or mutexes is one step, and a thread
  blocked in the kernel may wake at any time, notified or not. The ghost \<open>c_held\<close> counts the
  successful locks of a thread less its successful unlocks.
\<close>

section \<open>Steps\<close>

text \<open>
  Where a thread is: running outside the modelled calls, about to run the first section of a
  lock, asleep inside a lock, or asleep in \<open>os_waitq_block\<close>.
\<close>

datatype fr_pc = Idle | Locking nat u32 u32 | Sleeping nat u32 u32 | Blocked nat

record ('h, 's, 'k) fr_config =
  c_mem :: "('h, 's, 'k) osal"
  c_queues :: "wait_queue set"
  c_threads :: "nat set"
  c_pc :: "nat \<Rightarrow> fr_pc"
  c_held :: "nat \<Rightarrow> nat \<Rightarrow> nat"

definition move_pc :: "nat \<Rightarrow> fr_pc \<Rightarrow> ('h, 's, 'k) osal \<Rightarrow> ('h, 's, 'k) fr_config \<Rightarrow> ('h, 's, 'k) fr_config" where
  "move_pc t p m c = c\<lparr>c_mem := m, c_pc := (c_pc c)(t := p)\<rparr>"

definition add_held :: "nat \<Rightarrow> nat \<Rightarrow> bool \<Rightarrow> ('h, 's, 'k) fr_config \<Rightarrow> ('h, 's, 'k) fr_config" where
  "add_held t u ok c = (if ok then c\<lparr>c_held := (c_held c)(t := (c_held c t)(u := c_held c t u + 1))\<rparr> else c)"

definition sub_held :: "nat \<Rightarrow> nat \<Rightarrow> bool \<Rightarrow> ('h, 's, 'k) fr_config \<Rightarrow> ('h, 's, 'k) fr_config" where
  "sub_held t u ok c = (if ok then c\<lparr>c_held := (c_held c)(t := (c_held c t)(u := c_held c t u - 1))\<rparr> else c)"

text \<open>
  Steps of callers that respect the interface: locks and unlocks of initialised mutexes, at most
  \<open>UINT32_MAX\<close> nested locks, priorities in range, no deinitialisation of a mutex somebody is
  locking, no exit of a thread that owns a mutex. The last step is everything else: threads
  outside the system, time, and kernel activity that leaves the priorities of tasks alone.
\<close>

inductive fr_step ::
  "('h, 's, 'k) fr_tasks \<Rightarrow> ('h \<Rightarrow> 'k \<Rightarrow> bool) \<Rightarrow> nat \<Rightarrow> ('h, 's, 'k) fr_config \<Rightarrow>
   ('h, 's, 'k) fr_config \<Rightarrow> bool"
  for K live maxp where
  lock_start: "t \<in> c_threads c \<Longrightarrow> c_pc c t = Idle \<Longrightarrow> MutexQueue u \<in> c_queues c \<Longrightarrow>
    fr_step K live maxp c (move_pc t (Locking u timeout (os_tick_get K (c_mem c))) (c_mem c) c)"
| lock_returns: "t \<in> c_threads c \<Longrightarrow> c_pc c t = Locking u timeout start \<Longrightarrow>
    lock_count (mx (c_mem c) u) + 1 \<noteq> 0 \<Longrightarrow>
    lock_section K t u timeout start (c_mem c) = Some (LockReturns r, m) \<Longrightarrow>
    fr_step K live maxp c (add_held t u (r = 0) (move_pc t Idle m c))"
| lock_waits: "t \<in> c_threads c \<Longrightarrow> c_pc c t = Locking u timeout start \<Longrightarrow>
    lock_section K t u timeout start (c_mem c) = Some (LockWaits remaining, m) \<Longrightarrow>
    fr_step K live maxp c (move_pc t (Sleeping u timeout start) m c)"
| lock_gives_up: "t \<in> c_threads c \<Longrightarrow> c_pc c t = Sleeping u timeout start \<Longrightarrow>
    lock_wake_section K t u notified (c_mem c) = Some (Some r, m) \<Longrightarrow>
    fr_step K live maxp c (move_pc t Idle m c)"
| lock_retries: "t \<in> c_threads c \<Longrightarrow> c_pc c t = Sleeping u timeout start \<Longrightarrow>
    lock_wake_section K t u notified (c_mem c) = Some (None, m) \<Longrightarrow>
    fr_step K live maxp c (move_pc t (Locking u timeout start) m c)"
| unlock: "t \<in> c_threads c \<Longrightarrow> c_pc c t = Idle \<Longrightarrow> MutexQueue u \<in> c_queues c \<Longrightarrow>
    unlock_section K t u (c_mem c) = Some (r, m) \<Longrightarrow>
    fr_step K live maxp c (sub_held t u (r = 0) (move_pc t Idle m c))"
| block: "t \<in> c_threads c \<Longrightarrow> c_pc c t = Idle \<Longrightarrow> PlainQueue i \<in> c_queues c \<Longrightarrow>
    waitq_block_section K (PlainQueue i) t (c_mem c) = Some m \<Longrightarrow>
    fr_step K live maxp c (move_pc t (Blocked i) m c)"
| unblock: "t \<in> c_threads c \<Longrightarrow> c_pc c t = Blocked i \<Longrightarrow>
    waitq_wake_section t result v (c_mem c) = Some (r, m) \<Longrightarrow>
    fr_step K live maxp c (move_pc t Idle m c)"
| wake_one: "PlainQueue i \<in> c_queues c \<Longrightarrow>
    wake_one_section K isr (PlainQueue i) v (c_mem c) = Some (b, m) \<Longrightarrow>
    fr_step K live maxp c (c\<lparr>c_mem := m\<rparr>)"
| wake_all: "PlainQueue i \<in> c_queues c \<Longrightarrow>
    wake_all_loop K isr (PlainQueue i) v False (c_mem c) = Some (b, m) \<Longrightarrow>
    fr_step K live maxp c (c\<lparr>c_mem := m\<rparr>)"
| set_priority: "t \<in> c_threads c \<Longrightarrow> 0 \<le> p \<Longrightarrow> p < int maxp \<Longrightarrow>
    set_priority_section K t p (c_mem c) = Some m \<Longrightarrow>
    fr_step K live maxp c (c\<lparr>c_mem := m\<rparr>)"
| abort: "t \<in> c_threads c \<Longrightarrow> abort_section K t (c_mem c) = Some (Inr x, m) \<Longrightarrow>
    fr_step K live maxp c (c\<lparr>c_mem := m, c_threads := c_threads c - {t}\<rparr>)"
| exit: "t \<in> c_threads c \<Longrightarrow> c_pc c t = Idle \<Longrightarrow>
    \<forall>u. MutexQueue u \<in> c_queues c \<longrightarrow> m_owner (mx (c_mem c) u) \<noteq> Some t \<Longrightarrow>
    fr_step K live maxp c (c\<lparr>c_mem := exit_section t (c_mem c), c_threads := c_threads c - {t}\<rparr>)"
| create: "t \<notin> c_threads c \<Longrightarrow> 0 \<le> prio \<Longrightarrow> prio < int maxp \<Longrightarrow> sz \<noteq> 0 \<Longrightarrow>
    os_thread_create K (Some t) (Some n) stack sz (Some f) p1 p2 p3 prio opts (c_mem c) = (r, m) \<Longrightarrow>
    fr_step K live maxp c (move_pc t Idle m (c\<lparr>c_threads := if r = 0 then insert t (c_threads c) else c_threads c\<rparr>))"
| init_waitq: "PlainQueue i \<notin> c_queues c \<Longrightarrow>
    fr_step K live maxp c (c\<lparr>c_mem := os_waitq_init (Some (PlainQueue i)) (c_mem c),
                             c_queues := insert (PlainQueue i) (c_queues c)\<rparr>)"
| init_mutex: "MutexQueue u \<notin> c_queues c \<Longrightarrow>
    fr_step K live maxp c (c\<lparr>c_mem := os_mutex_init (Some u) (c_mem c),
                             c_queues := insert (MutexQueue u) (c_queues c)\<rparr>)"
| deinit_mutex: "MutexQueue u \<in> c_queues c \<Longrightarrow>
    \<forall>t \<in> c_threads c. \<forall>x y. c_pc c t \<noteq> Locking u x y \<and> c_pc c t \<noteq> Sleeping u x y \<Longrightarrow>
    os_mutex_deinit isr (Some u) (c_mem c) = (0, m) \<Longrightarrow>
    fr_step K live maxp c (c\<lparr>c_mem := m, c_queues := c_queues c - {MutexQueue u}\<rparr>)"
| other: "\<forall>t \<in> c_threads c. th m t = th (c_mem c) t \<Longrightarrow> mx m = mx (c_mem c) \<Longrightarrow>
    waits m = waits (c_mem c) \<Longrightarrow> owned m = owned (c_mem c) \<Longrightarrow>
    kernel_same K live (kern (c_mem c)) (kern m) \<Longrightarrow>
    fr_step K live maxp c (c\<lparr>c_mem := m\<rparr>)"

definition fr_boot :: "('h, 's, 'k) osal \<Rightarrow> ('h, 's, 'k) fr_config" where
  "fr_boot m = \<lparr>c_mem = m, c_queues = {}, c_threads = {}, c_pc = (\<lambda>_. Idle), c_held = (\<lambda>_ _. 0)\<rparr>"

inductive fr_reach ::
  "('h, 's, 'k) fr_tasks \<Rightarrow> ('h \<Rightarrow> 'k \<Rightarrow> bool) \<Rightarrow> nat \<Rightarrow> ('h, 's, 'k) fr_config \<Rightarrow> bool"
  for K live maxp where
  boot: "fr_reach K live maxp (fr_boot m)"
| step: "fr_reach K live maxp c \<Longrightarrow> fr_step K live maxp c c' \<Longrightarrow> fr_reach K live maxp c'"

section \<open>The invariant\<close>

fun pc_ok :: "wait_queue set \<Rightarrow> wait_queue option \<Rightarrow> fr_pc \<Rightarrow> bool" where
  "pc_ok Q w Idle = (w = None)"
| "pc_ok Q w (Locking u _ _) = (w = None \<and> MutexQueue u \<in> Q)"
| "pc_ok Q w (Sleeping u _ _) = ((w = None \<or> w = Some (MutexQueue u)) \<and> MutexQueue u \<in> Q)"
| "pc_ok Q w (Blocked i) = ((w = None \<or> w = Some (PlainQueue i)) \<and> PlainQueue i \<in> Q)"

definition holds_of :: "wait_queue set \<Rightarrow> ('h, 's, 'k) osal \<Rightarrow> nat \<Rightarrow> nat \<Rightarrow> nat" where
  "holds_of Q m t u =
     (if MutexQueue u \<in> Q \<and> m_owner (mx m u) = Some t then unat (lock_count (mx m u)) else 0)"

definition fr_inv ::
  "('h, 's, 'k) fr_tasks \<Rightarrow> ('h \<Rightarrow> 'k \<Rightarrow> bool) \<Rightarrow> nat \<Rightarrow> ('h, 's, 'k) fr_config \<Rightarrow> bool" where
  "fr_inv K live maxp c \<longleftrightarrow>
     (\<exists>wq ow. sys_ok K live maxp (c_queues c) (c_threads c) wq ow (c_mem c))
     \<and> (\<forall>t \<in> c_threads c. pc_ok (c_queues c) (wait_q (th (c_mem c) t)) (c_pc c t))
     \<and> (\<forall>t u. c_held c t u = holds_of (c_queues c) (c_mem c) t u)"

lemma pc_ok_None: "pc_ok Q w p \<Longrightarrow> pc_ok Q None p"
  by (cases p) simp_all

lemma pc_ok_mono: "pc_ok Q w p \<Longrightarrow> Q \<subseteq> Q' \<Longrightarrow> pc_ok Q' w p"
  by (cases p) auto

lemma config_simps [simp]:
  "c_mem (move_pc t p m c) = m" "c_queues (move_pc t p m c) = c_queues c"
  "c_threads (move_pc t p m c) = c_threads c" "c_pc (move_pc t p m c) = (c_pc c)(t := p)"
  "c_held (move_pc t p m c) = c_held c"
  "c_mem (add_held t u b c) = c_mem c" "c_queues (add_held t u b c) = c_queues c"
  "c_threads (add_held t u b c) = c_threads c" "c_pc (add_held t u b c) = c_pc c"
  "c_mem (sub_held t u b c) = c_mem c" "c_queues (sub_held t u b c) = c_queues c"
  "c_threads (sub_held t u b c) = c_threads c" "c_pc (sub_held t u b c) = c_pc c"
  by (simp_all add: move_pc_def add_held_def sub_held_def)

lemma fr_invI:
  assumes "sys_ok K live maxp (c_queues c) (c_threads c) wq ow (c_mem c)"
    and "\<And>t. t \<in> c_threads c \<Longrightarrow> pc_ok (c_queues c) (wait_q (th (c_mem c) t)) (c_pc c t)"
    and "\<And>t u. c_held c t u = holds_of (c_queues c) (c_mem c) t u"
  shows "fr_inv K live maxp c"
  using assms unfolding fr_inv_def by blast

lemma fr_invE:
  assumes "fr_inv K live maxp c"
  obtains wq ow where "sys_ok K live maxp (c_queues c) (c_threads c) wq ow (c_mem c)"
    "\<And>t. t \<in> c_threads c \<Longrightarrow> pc_ok (c_queues c) (wait_q (th (c_mem c) t)) (c_pc c t)"
    "\<And>t u. c_held c t u = holds_of (c_queues c) (c_mem c) t u"
  using assms unfolding fr_inv_def by blast

lemma holds_of_same: "mx m' = mx m \<Longrightarrow> holds_of Q m' = holds_of Q m"
  by (simp add: holds_of_def fun_eq_iff)

lemma fr_inv_boot: "fr_inv K live maxp (fr_boot m)"
  by (rule fr_invI [of K live maxp _ "\<lambda>_. []" "\<lambda>_. []"])
    (simp_all add: fr_boot_def sys_ok_empty holds_of_def)

text \<open>A step of thread \<open>t\<close> that leaves the ownership of mutexes alone.\<close>

lemma fr_inv_thread_step:
  assumes inv: "fr_inv K live maxp c"
    and sys: "sys_ok K live maxp (c_queues c) (c_threads c) wq ow m"
    and mx: "mx m = mx (c_mem c)"
    and others: "\<And>s. s \<noteq> t \<Longrightarrow> wait_q (th m s) = wait_q (th (c_mem c) s) \<or> wait_q (th m s) = None"
    and pc: "t \<in> c_threads c \<Longrightarrow> pc_ok (c_queues c) (wait_q (th m t)) p"
  shows "fr_inv K live maxp (move_pc t p m c)"
proof -
  obtain wq0 ow0 where old: "sys_ok K live maxp (c_queues c) (c_threads c) wq0 ow0 (c_mem c)"
    "\<And>t. t \<in> c_threads c \<Longrightarrow> pc_ok (c_queues c) (wait_q (th (c_mem c) t)) (c_pc c t)"
    "\<And>t u. c_held c t u = holds_of (c_queues c) (c_mem c) t u"
    by (rule fr_invE [OF inv]) (rule that)
  show ?thesis
  proof (rule fr_invI)
    show "sys_ok K live maxp (c_queues (move_pc t p m c)) (c_threads (move_pc t p m c)) wq ow (c_mem (move_pc t p m c))"
      using sys by simp
    fix s
    show "pc_ok (c_queues (move_pc t p m c)) (wait_q (th (c_mem (move_pc t p m c)) s)) (c_pc (move_pc t p m c) s)"
      if "s \<in> c_threads (move_pc t p m c)"
    proof (cases "s = t")
      case True
      then show ?thesis using pc that by simp
    next
      case False
      then show ?thesis using others [OF False] old(2) [of s] that pc_ok_None by auto
    qed
    show "c_held (move_pc t p m c) s u = holds_of (c_queues (move_pc t p m c)) (c_mem (move_pc t p m c)) s u" for u
      using old(3) holds_of_same [OF mx] by simp
  qed
qed

text \<open>A step after which some threads left, or nobody moved.\<close>

lemma fr_inv_memory_step:
  assumes inv: "fr_inv K live maxp c" and A: "A \<subseteq> c_threads c"
    and sys: "sys_ok K live maxp (c_queues c) A wq ow m"
    and mx: "mx m = mx (c_mem c)"
    and others: "\<And>s. s \<in> A \<Longrightarrow> wait_q (th m s) = wait_q (th (c_mem c) s) \<or> wait_q (th m s) = None"
  shows "fr_inv K live maxp (c\<lparr>c_mem := m, c_threads := A\<rparr>)"
proof -
  obtain wq0 ow0 where old: "sys_ok K live maxp (c_queues c) (c_threads c) wq0 ow0 (c_mem c)"
    "\<And>t. t \<in> c_threads c \<Longrightarrow> pc_ok (c_queues c) (wait_q (th (c_mem c) t)) (c_pc c t)"
    "\<And>t u. c_held c t u = holds_of (c_queues c) (c_mem c) t u"
    by (rule fr_invE [OF inv]) (rule that)
  show ?thesis
  proof (rule fr_invI)
    show "sys_ok K live maxp (c_queues (c\<lparr>c_mem := m, c_threads := A\<rparr>)) (c_threads (c\<lparr>c_mem := m, c_threads := A\<rparr>))
        wq ow (c_mem (c\<lparr>c_mem := m, c_threads := A\<rparr>))"
      using sys by simp
    fix s
    show "pc_ok (c_queues (c\<lparr>c_mem := m, c_threads := A\<rparr>)) (wait_q (th (c_mem (c\<lparr>c_mem := m, c_threads := A\<rparr>)) s))
        (c_pc (c\<lparr>c_mem := m, c_threads := A\<rparr>) s)" if "s \<in> c_threads (c\<lparr>c_mem := m, c_threads := A\<rparr>)"
      using others [of s] old(2) [of s] that A pc_ok_None by auto
    show "c_held (c\<lparr>c_mem := m, c_threads := A\<rparr>) s u
        = holds_of (c_queues (c\<lparr>c_mem := m, c_threads := A\<rparr>)) (c_mem (c\<lparr>c_mem := m, c_threads := A\<rparr>)) s u" for u
      using old(3) holds_of_same [OF mx] by simp
  qed
qed

section \<open>Every step keeps the invariant\<close>

lemma holds_of_lock:
  assumes "mx m' = (mx m)(u := (mx m u)\<lparr>m_owner := Some t, lock_count := lock_count (mx m u) + 1\<rparr>)"
    and "MutexQueue u \<in> Q" "m_owner (mx m u) = None \<or> m_owner (mx m u) = Some t"
    and "m_owner (mx m u) = None \<Longrightarrow> lock_count (mx m u) = 0" "lock_count (mx m u) + 1 \<noteq> 0"
  shows "holds_of Q m' s v = (if s = t \<and> v = u then holds_of Q m s v + 1 else holds_of Q m s v)"
proof (cases "v = u")
  case True
  have inc: "unat (lock_count (mx m u) + 1) = unat (lock_count (mx m u)) + 1"
    using assms(5) by (metis unatSuc Suc_eq_plus1 add.commute)
  show ?thesis using assms(1-4) inc True by (auto simp: holds_of_def)
qed (simp add: holds_of_def assms(1))

lemma holds_of_unlock:
  assumes "mx m' = (mx m)(u := mx m' u)" "lock_count (mx m' u) = lock_count (mx m u) - 1"
    and "m_owner (mx m' u) = (if lock_count (mx m u) = 1 then None else Some t)"
    and "MutexQueue u \<in> Q" "m_owner (mx m u) = Some t" "lock_count (mx m u) \<noteq> 0"
  shows "holds_of Q m' s v = (if s = t \<and> v = u then holds_of Q m s v - 1 else holds_of Q m s v)"
proof (cases "v = u")
  case True
  have dec: "unat (lock_count (mx m u) - 1) = unat (lock_count (mx m u)) - 1"
    by (rule unat_dec [OF assms(6)])
  show ?thesis
    using assms(2-5) dec True by (simp add: holds_of_def)
next
  case False
  then have "mx m' v = mx m v" using assms(1) by (metis fun_upd_other)
  then show ?thesis using False by (simp add: holds_of_def)
qed

text \<open>Leaving \<open>c_held\<close> behind the memory, as the successful locks and unlocks do.\<close>

lemma fr_inv_ownership_step:
  assumes inv: "fr_inv K live maxp c" and sys: "sys_ok K live maxp (c_queues c) (c_threads c) wq ow m"
    and others: "\<And>s. wait_q (th m s) = wait_q (th (c_mem c) s) \<or> wait_q (th m s) = None"
    and pc: "t \<in> c_threads c \<Longrightarrow> wait_q (th m t) = None"
    and same: "c_mem c' = m" "c_queues c' = c_queues c" "c_threads c' = c_threads c"
      "c_pc c' = (c_pc c)(t := Idle)"
    and held: "\<And>s v. c_held c' s v = holds_of (c_queues c) m s v"
  shows "fr_inv K live maxp c'"
proof (rule fr_invI)
  show "sys_ok K live maxp (c_queues c') (c_threads c') wq ow (c_mem c')" using sys by (simp add: same)
  show "pc_ok (c_queues c') (wait_q (th (c_mem c') s)) (c_pc c' s)" if s: "s \<in> c_threads c'" for s
  proof (cases "s = t")
    case True
    then show ?thesis using pc s by (simp add: same)
  next
    case False
    have "pc_ok (c_queues c) (wait_q (th (c_mem c) s)) (c_pc c s)"
      using inv s by (simp add: fr_inv_def same)
    then show ?thesis using others [of s] pc_ok_None False by (auto simp: same)
  qed
qed (simp add: held same)

context fr_kernel
begin

lemma step_lock_returns:
  assumes inv: "fr_inv K live maxp c" and t: "t \<in> c_threads c" "c_pc c t = Locking u timeout start"
    and count: "lock_count (mx (c_mem c) u) + 1 \<noteq> 0"
    and sec: "lock_section K t u timeout start (c_mem c) = Some (LockReturns r, m)"
  shows "fr_inv K live maxp (add_held t u (r = 0) (move_pc t Idle m c))"
proof -
  obtain wq ow where old: "sys_ok K live maxp (c_queues c) (c_threads c) wq ow (c_mem c)"
    "\<And>t. t \<in> c_threads c \<Longrightarrow> pc_ok (c_queues c) (wait_q (th (c_mem c) t)) (c_pc c t)"
    "\<And>t u. c_held c t u = holds_of (c_queues c) (c_mem c) t u"
    by (rule fr_invE [OF inv]) (rule that)
  have idle: "wait_q (th (c_mem c) t) = None" and u: "MutexQueue u \<in> c_queues c"
    using old(2) [OF t(1)] t(2) by simp_all
  show ?thesis
  proof (cases rule: lock_section_cases [OF old(1) t(1) idle u, of timeout start, case_names count acquired refused waits])
    case count
    show ?case by (rule assms(4))
  next
    case (acquired m' ow')
    then have m: "m' = m" "r = 0" using sec by simp_all
    have zero: "m_owner (mx (c_mem c) u) = None \<Longrightarrow> lock_count (mx (c_mem c) u) = 0"
      using owners_agreeD(4) [OF lists_ok_owners_agree [OF sys_okD(1) [OF old(1)]] u] by simp
    note held = holds_of_lock [OF acquired(4) u acquired(3) zero assms(4)]
    show ?thesis
      by (rule fr_inv_ownership_step [OF inv acquired(2), of t])
        (simp_all add: m acquired(5) [unfolded m(1)] idle add_held_def move_pc_def old(3) held [unfolded m])
  next
    case (refused r')
    then have "m = c_mem c" "r \<noteq> 0" using sec by (simp_all add: lock_section_def split: if_splits)
    then show ?thesis
      using fr_inv_thread_step [OF inv old(1) refl, of t Idle] idle by (simp add: add_held_def)
  next
    case (waits remaining m' wq')
    then show ?thesis using sec by simp
  qed
qed

lemma step_lock_waits:
  assumes inv: "fr_inv K live maxp c" and t: "t \<in> c_threads c" "c_pc c t = Locking u timeout start"
    and sec: "lock_section K t u timeout start (c_mem c) = Some (LockWaits remaining, m)"
  shows "fr_inv K live maxp (move_pc t (Sleeping u timeout start) m c)"
proof -
  obtain wq ow where old: "sys_ok K live maxp (c_queues c) (c_threads c) wq ow (c_mem c)"
    "\<And>t. t \<in> c_threads c \<Longrightarrow> pc_ok (c_queues c) (wait_q (th (c_mem c) t)) (c_pc c t)"
    "\<And>t u. c_held c t u = holds_of (c_queues c) (c_mem c) t u"
    by (rule fr_invE [OF inv]) (rule that)
  have idle: "wait_q (th (c_mem c) t) = None" and u: "MutexQueue u \<in> c_queues c"
    using old(2) [OF t(1)] t(2) by simp_all
  have "m_owner (mx (c_mem c) u) \<noteq> Some t" using sec by (auto simp: lock_section_def)
  then show ?thesis
  proof (cases rule: lock_section_cases [OF old(1) t(1) idle u, of timeout start, case_names count acquired refused waits])
    case (waits remaining' m' wq')
    then have m: "m' = m" using sec by simp
    show ?thesis
      by (rule fr_inv_thread_step [OF inv waits(2) [unfolded m] waits(3) [unfolded m]])
        (use u in \<open>simp_all add: waits(4) [unfolded m] lock_wait_update_def\<close>)
  qed (use sec in simp_all)
qed

lemma step_lock_wakes:
  assumes inv: "fr_inv K live maxp c" and t: "t \<in> c_threads c" "c_pc c t = Sleeping u timeout start"
    and sec: "lock_wake_section K t u notified (c_mem c) = Some (res, m)"
    and p: "p = Idle \<or> p = Locking u timeout start"
  shows "fr_inv K live maxp (move_pc t p m c)"
proof -
  obtain wq ow where old: "sys_ok K live maxp (c_queues c) (c_threads c) wq ow (c_mem c)"
    "\<And>t. t \<in> c_threads c \<Longrightarrow> pc_ok (c_queues c) (wait_q (th (c_mem c) t)) (c_pc c t)"
    by (rule fr_invE [OF inv]) (rule that)
  have u: "MutexQueue u \<in> c_queues c" and w: "wait_q (th (c_mem c) t) = None \<or> wait_q (th (c_mem c) t) = Some (MutexQueue u)"
    using old(2) [OF t(1)] t(2) by simp_all
  from w show ?thesis
  proof
    assume n: "wait_q (th (c_mem c) t) = None"
    note woken = lock_woken_ok [OF old(1) t(1) n]
    have m: "m = upd_th t lock_leave_update (c_mem c)" using woken(1) [of u notified] sec by simp
    show ?thesis
      by (rule fr_inv_thread_step [OF inv, of wq ow])
        (use woken(2) p u n in \<open>auto simp: m lock_leave_update_def\<close>)
  next
    assume q: "wait_q (th (c_mem c) t) = Some (MutexQueue u)"
    obtain m' wq' where r: "lock_wake_section K t u notified (c_mem c) =
         Some (Some (if notified then - EAGAIN else - ETIMEDOUT), m')"
      "sys_ok K live maxp (c_queues c) (c_threads c) wq' ow m'" "mx m' = mx (c_mem c)"
      "th m' = (th (c_mem c))(t := lock_leave_update (th (c_mem c) t))"
      by (rule lock_timeout_ok [OF old(1) t(1) q, of notified]) (rule that)
    have m: "m' = m" using r(1) sec by simp
    show ?thesis
      by (rule fr_inv_thread_step [OF inv r(2) [unfolded m] r(3) [unfolded m]])
        (use p u in \<open>auto simp: r(4) [unfolded m] lock_leave_update_def\<close>)
  qed
qed

lemma step_unlock:
  assumes inv: "fr_inv K live maxp c" and t: "t \<in> c_threads c" "c_pc c t = Idle"
    and u: "MutexQueue u \<in> c_queues c"
    and sec: "unlock_section K t u (c_mem c) = Some (r, m)"
  shows "fr_inv K live maxp (sub_held t u (r = 0) (move_pc t Idle m c))"
proof -
  obtain wq ow where old: "sys_ok K live maxp (c_queues c) (c_threads c) wq ow (c_mem c)"
    "\<And>t. t \<in> c_threads c \<Longrightarrow> pc_ok (c_queues c) (wait_q (th (c_mem c) t)) (c_pc c t)"
    "\<And>t u. c_held c t u = holds_of (c_queues c) (c_mem c) t u"
    by (rule fr_invE [OF inv]) (rule that)
  have idle: "wait_q (th (c_mem c) t) = None" using old(2) [OF t(1)] t(2) by simp
  show ?thesis
  proof (cases rule: unlock_section_cases [OF old(1) u, of t, case_names denied released])
    case denied
    then have "m = c_mem c" "r \<noteq> 0" using sec by simp_all
    then show ?thesis
      using fr_inv_thread_step [OF inv old(1) refl, of t Idle] idle by (simp add: sub_held_def)
  next
    case (released m' wq' ow')
    then have m: "m' = m" "r = 0" using sec by simp_all
    note rel = released(2,5,6,7,8) [unfolded m(1)]
    note held = holds_of_unlock [OF rel(2,3,4) u released(3,4)]
    have "wait_q (th m t) = None" using rel(5) [of t] idle by auto
    then show ?thesis
      by (intro fr_inv_ownership_step [OF inv rel(1), of t])
        (use rel(5) in \<open>simp_all add: m sub_held_def move_pc_def old(3) held\<close>)
  qed
qed

lemma step_block:
  assumes inv: "fr_inv K live maxp c" and t: "t \<in> c_threads c" "c_pc c t = Idle"
    and i: "PlainQueue i \<in> c_queues c"
    and sec: "waitq_block_section K (PlainQueue i) t (c_mem c) = Some m"
  shows "fr_inv K live maxp (move_pc t (Blocked i) m c)"
proof -
  obtain wq ow where old: "sys_ok K live maxp (c_queues c) (c_threads c) wq ow (c_mem c)"
    "\<And>t. t \<in> c_threads c \<Longrightarrow> pc_ok (c_queues c) (wait_q (th (c_mem c) t)) (c_pc c t)"
    by (rule fr_invE [OF inv]) (rule that)
  have idle: "wait_q (th (c_mem c) t) = None" using old(2) [OF t(1)] t(2) by simp
  obtain h where h: "waitq_block_section K (PlainQueue i) t (c_mem c) =
      Some (upd_th t (block_update (PlainQueue i)) (c_mem c)\<lparr>waits := h\<rparr>)"
    "sys_ok K live maxp (c_queues c) (c_threads c)
       (wq(PlainQueue i := prio_insert (tprio K (c_mem c)) t (wq (PlainQueue i)))) ow
       (upd_th t (block_update (PlainQueue i)) (c_mem c)\<lparr>waits := h\<rparr>)"
    by (rule block_ok [OF old(1) t(1) idle i]) (rule that)
  have m: "m = upd_th t (block_update (PlainQueue i)) (c_mem c)\<lparr>waits := h\<rparr>" using h(1) sec by simp
  show ?thesis
    by (rule fr_inv_thread_step [OF inv h(2) [folded m]]) (use i in \<open>simp_all add: m block_update_def\<close>)
qed

lemma step_unblock:
  assumes inv: "fr_inv K live maxp c" and t: "t \<in> c_threads c" "c_pc c t = Blocked i"
    and sec: "waitq_wake_section t result v (c_mem c) = Some (r, m)"
  shows "fr_inv K live maxp (move_pc t Idle m c)"
proof -
  obtain wq ow where old: "sys_ok K live maxp (c_queues c) (c_threads c) wq ow (c_mem c)"
    "\<And>t. t \<in> c_threads c \<Longrightarrow> pc_ok (c_queues c) (wait_q (th (c_mem c) t)) (c_pc c t)"
    by (rule fr_invE [OF inv]) (rule that)
  have w: "wait_q (th (c_mem c) t) = None \<or> wait_q (th (c_mem c) t) = Some (PlainQueue i)"
    using old(2) [OF t(1)] t(2) by simp
  then show ?thesis
  proof
    assume n: "wait_q (th (c_mem c) t) = None"
    note woken = block_woken_ok [OF old(1) t(1) n]
    have m: "m = upd_th t (notified_update v) (c_mem c)" using woken(1) [of result v] sec by simp
    show ?thesis
      by (rule fr_inv_thread_step [OF inv, of wq ow])
        (use woken(2) n in \<open>auto simp: m notified_update_def\<close>)
  next
    assume q: "wait_q (th (c_mem c) t) = Some (PlainQueue i)"
    obtain h where h: "waitq_wake_section t result v (c_mem c) =
        Some (- ETIMEDOUT, upd_th t timeout_update (c_mem c\<lparr>waits := h\<rparr>))"
      "sys_ok K live maxp (c_queues c) (c_threads c) (wq(PlainQueue i := remove1 t (wq (PlainQueue i)))) ow
         (upd_th t timeout_update (c_mem c\<lparr>waits := h\<rparr>))"
      by (rule block_timeout_ok [OF old(1) t(1) q, of result v]) (rule that)
    have m: "m = upd_th t timeout_update (c_mem c\<lparr>waits := h\<rparr>)" using h(1) sec by simp
    show ?thesis
      by (rule fr_inv_thread_step [OF inv h(2) [folded m]]) (simp_all add: m timeout_update_def)
  qed
qed

lemma step_memory:
  assumes inv: "fr_inv K live maxp c"
    and sys: "sys_ok K live maxp (c_queues c) (c_threads c) wq ow m"
    and mx: "mx m = mx (c_mem c)"
    and others: "\<And>s. wait_q (th m s) = wait_q (th (c_mem c) s) \<or> wait_q (th m s) = None"
  shows "fr_inv K live maxp (c\<lparr>c_mem := m\<rparr>)"
  using fr_inv_memory_step [OF inv subset_refl sys mx others] by simp

lemma step_wakes:
  assumes inv: "fr_inv K live maxp c" and i: "PlainQueue i \<in> c_queues c"
  shows "wake_one_section K isr (PlainQueue i) v (c_mem c) = Some (b, m) \<Longrightarrow>
      fr_inv K live maxp (c\<lparr>c_mem := m\<rparr>)"
    and "wake_all_loop K isr (PlainQueue i) v False (c_mem c) = Some (b, m) \<Longrightarrow>
      fr_inv K live maxp (c\<lparr>c_mem := m\<rparr>)"
proof -
  obtain wq ow where old: "sys_ok K live maxp (c_queues c) (c_threads c) wq ow (c_mem c)"
    by (rule fr_invE [OF inv]) (rule that)
  show "fr_inv K live maxp (c\<lparr>c_mem := m\<rparr>)"
    if sec: "wake_one_section K isr (PlainQueue i) v (c_mem c) = Some (b, m)"
  proof -
    obtain b' m' where r: "wake_one_section K isr (PlainQueue i) v (c_mem c) = Some (b', m')"
      "sys_ok K live maxp (c_queues c) (c_threads c) (wq(PlainQueue i := tl (wq (PlainQueue i)))) ow m'"
      "mx m' = mx (c_mem c)"
      "th m' = (case wq (PlainQueue i) of [] \<Rightarrow> th (c_mem c)
                | t # _ \<Rightarrow> (th (c_mem c))(t := wake_update v (th (c_mem c) t)))"
      by (rule wake_one_ok [OF old i, of isr v]) (rule that)
    have m: "m' = m" using r(1) sec by simp
    have "wait_q (th m s) = wait_q (th (c_mem c) s) \<or> wait_q (th m s) = None" for s
      using r(4) unfolding m by (cases "wq (PlainQueue i)") (simp_all add: wake_update_def)
    then show ?thesis by (rule step_memory [OF inv r(2,3) [unfolded m]])
  qed
  show "fr_inv K live maxp (c\<lparr>c_mem := m\<rparr>)"
    if sec: "wake_all_loop K isr (PlainQueue i) v False (c_mem c) = Some (b, m)"
  proof -
    obtain b' m' where r: "wake_all_loop K isr (PlainQueue i) v False (c_mem c) = Some (b', m')"
      "sys_ok K live maxp (c_queues c) (c_threads c) (wq(PlainQueue i := [])) ow m'" "mx m' = mx (c_mem c)"
      "th m' = (\<lambda>s. if s \<in> set (wq (PlainQueue i)) then wake_update v (th (c_mem c) s) else th (c_mem c) s)"
      using wake_all_loop_ok [OF old i, of isr v False] by blast
    have m: "m' = m" using r(1) sec by simp
    have "wait_q (th m s) = wait_q (th (c_mem c) s) \<or> wait_q (th m s) = None" for s
      using r(4) unfolding m by (simp add: wake_update_def)
    then show ?thesis by (rule step_memory [OF inv r(2,3) [unfolded m]])
  qed
qed

lemma step_set_priority:
  assumes inv: "fr_inv K live maxp c" and t: "t \<in> c_threads c" and p: "0 \<le> p" "p < int maxp"
    and sec: "set_priority_section K t p (c_mem c) = Some m"
  shows "fr_inv K live maxp (c\<lparr>c_mem := m\<rparr>)"
proof -
  obtain wq ow where old: "sys_ok K live maxp (c_queues c) (c_threads c) wq ow (c_mem c)"
    by (rule fr_invE [OF inv]) (rule that)
  obtain m' wq' where r: "set_priority_section K t p (c_mem c) = Some m'"
    "sys_ok K live maxp (c_queues c) (c_threads c) wq' ow m'" "mx m' = mx (c_mem c)"
    "th m' = (th (c_mem c))(t := base_update p (th (c_mem c) t))"
    by (rule set_priority_ok [OF old t p]) (rule that)
  have m: "m' = m" using r(1) sec by simp
  have "wait_q (th m s) = wait_q (th (c_mem c) s) \<or> wait_q (th m s) = None" for s
    using r(4) unfolding m by (simp add: base_update_def)
  then show ?thesis by (rule step_memory [OF inv r(2,3) [unfolded m]])
qed

lemma step_abort:
  assumes inv: "fr_inv K live maxp c" and t: "t \<in> c_threads c"
    and sec: "abort_section K t (c_mem c) = Some (Inr x, m)"
  shows "fr_inv K live maxp (c\<lparr>c_mem := m, c_threads := c_threads c - {t}\<rparr>)"
proof -
  obtain wq ow where old: "sys_ok K live maxp (c_queues c) (c_threads c) wq ow (c_mem c)"
    by (rule fr_invE [OF inv]) (rule that)
  have run: "\<not> completed (th (c_mem c) t)" and empty: "sys_dlist_is_empty (OwnedList t) (owned (c_mem c))"
    using sec by (auto simp: abort_section_def split: if_splits)
  have "dlist_rep (owned (c_mem c)) (OwnedList t) (map OwnerNode (ow t))"
    using lists_ok_owned [OF sys_okD(1) [OF old]] t by (simp add: dlists_rep_def)
  then have free: "ow t = []" using empty sys_dlist_is_empty_rep by fastforce
  obtain m' wq' where r:
    "abort_section K t (c_mem c) = Some (Inr (t_handle (th (c_mem c) t), completion_handle (th (c_mem c) t)), m')"
    "sys_ok K live maxp (c_queues c) (c_threads c) wq' ow m'" "mx m' = mx (c_mem c)"
    "th m' = (th (c_mem c))(t := abort_update (th (c_mem c) t))"
    by (rule abort_ok [OF old t run free]) (rule that)
  have m: "m' = m" using r(1) sec by simp
  have "wait_q (th m t) = None" using r(4) m by (simp add: abort_update_def)
  then have "sys_ok K live maxp (c_queues c) (c_threads c - {t}) wq' ow m"
    using thread_leaves_ok [OF r(2) t _ free] m by simp
  then show ?thesis
    by (rule fr_inv_memory_step [OF inv Diff_subset])
      (use r(3,4) m in \<open>auto simp: abort_update_def\<close>)
qed

lemma step_exit:
  assumes inv: "fr_inv K live maxp c" and t: "t \<in> c_threads c" "c_pc c t = Idle"
    and own: "\<forall>u. MutexQueue u \<in> c_queues c \<longrightarrow> m_owner (mx (c_mem c) u) \<noteq> Some t"
  shows "fr_inv K live maxp (c\<lparr>c_mem := exit_section t (c_mem c), c_threads := c_threads c - {t}\<rparr>)"
proof -
  obtain wq ow where old: "sys_ok K live maxp (c_queues c) (c_threads c) wq ow (c_mem c)"
    "\<And>t. t \<in> c_threads c \<Longrightarrow> pc_ok (c_queues c) (wait_q (th (c_mem c) t)) (c_pc c t)"
    by (rule fr_invE [OF inv]) (rule that)
  have idle: "wait_q (th (c_mem c) t) = None" using old(2) [OF t(1)] t(2) by simp
  have "u \<notin> set (ow t)" for u
    using owners_agreeD(1,3) [OF lists_ok_owners_agree [OF sys_okD(1) [OF old(1)]]] t(1) own by blast
  then have free: "ow t = []" by (cases "ow t") auto
  let ?f = "\<lambda>T. T\<lparr>completed := True, t_state := OS_THREAD_TERMINATED\<rparr>"
  let ?m = "exit_section t (c_mem c)"
  have on: "waits_on ?m = waits_on (c_mem c)" by (intro ext waits_on_cong) (simp_all add: exit_section_def)
  have sys: "sys_ok K live maxp (c_queues c) (c_threads c) wq ow ?m"
    using thread_update_ok [where f = ?f and t = t and m = "c_mem c", OF sys_okD(1,2) [OF old(1)]]
      no_deadlock_same [OF sys_okD(3) [OF old(1)] on]
    by (simp add: sys_ok_def exit_section_def same_task_def)
  have "wait_q (th ?m t) = None" using idle by (simp add: exit_section_def)
  then have "sys_ok K live maxp (c_queues c) (c_threads c - {t}) wq ow ?m"
    using thread_leaves_ok [OF sys t(1) _ free] by simp
  then show ?thesis
    by (rule fr_inv_memory_step [OF inv Diff_subset]) (simp_all add: exit_section_def)
qed

end

lemma step_init_waitq:
  assumes inv: "fr_inv K live maxp c" and i: "PlainQueue i \<notin> c_queues c"
  shows "fr_inv K live maxp (c\<lparr>c_mem := os_waitq_init (Some (PlainQueue i)) (c_mem c),
                             c_queues := insert (PlainQueue i) (c_queues c)\<rparr>)"
proof -
  obtain wq ow where old: "sys_ok K live maxp (c_queues c) (c_threads c) wq ow (c_mem c)"
    "\<And>t. t \<in> c_threads c \<Longrightarrow> pc_ok (c_queues c) (wait_q (th (c_mem c) t)) (c_pc c t)"
    "\<And>t u. c_held c t u = holds_of (c_queues c) (c_mem c) t u"
    by (rule fr_invE [OF inv]) (rule that)
  show ?thesis
    by (rule fr_invI [of _ _ _ _ "wq(PlainQueue i := [])" ow])
      (use waitq_init_ok [OF old(1) i] old(2,3) pc_ok_mono subset_insertI
        in \<open>simp_all add: os_waitq_init_def holds_of_def, blast\<close>)
qed

lemma step_init_mutex:
  assumes inv: "fr_inv K live maxp c" and u: "MutexQueue u \<notin> c_queues c"
  shows "fr_inv K live maxp (c\<lparr>c_mem := os_mutex_init (Some u) (c_mem c),
                             c_queues := insert (MutexQueue u) (c_queues c)\<rparr>)"
proof -
  obtain wq ow where old: "sys_ok K live maxp (c_queues c) (c_threads c) wq ow (c_mem c)"
    "\<And>t. t \<in> c_threads c \<Longrightarrow> pc_ok (c_queues c) (wait_q (th (c_mem c) t)) (c_pc c t)"
    "\<And>t u. c_held c t u = holds_of (c_queues c) (c_mem c) t u"
    by (rule fr_invE [OF inv]) (rule that)
  have same: "th (os_mutex_init (Some u) (c_mem c)) = th (c_mem c)"
      "mx (os_mutex_init (Some u) (c_mem c)) = (mx (c_mem c))(u := os_mutex_zero\<lparr>m_initialized := True\<rparr>)"
    by (simp_all add: os_mutex_init_def os_waitq_init_def mutex_clear_def)
  have held: "holds_of (insert (MutexQueue u) (c_queues c)) (os_mutex_init (Some u) (c_mem c)) t v
      = holds_of (c_queues c) (c_mem c) t v" for t v
    using u by (auto simp: holds_of_def same os_mutex_zero_def)
  show ?thesis
    by (rule fr_invI [of _ _ _ _ "wq(MutexQueue u := [])" ow])
      (use mutex_init_ok [OF old(1) u] old(2,3) pc_ok_mono subset_insertI
        in \<open>simp_all add: held same, blast\<close>)
qed

lemma step_deinit_mutex:
  assumes inv: "fr_inv K live maxp c" and u: "MutexQueue u \<in> c_queues c"
    and pcs: "\<forall>t \<in> c_threads c. \<forall>x y. c_pc c t \<noteq> Locking u x y \<and> c_pc c t \<noteq> Sleeping u x y"
    and ret: "os_mutex_deinit isr (Some u) (c_mem c) = (0, m)"
  shows "fr_inv K live maxp (c\<lparr>c_mem := m, c_queues := c_queues c - {MutexQueue u}\<rparr>)"
proof -
  obtain wq ow where old: "sys_ok K live maxp (c_queues c) (c_threads c) wq ow (c_mem c)"
    "\<And>t. t \<in> c_threads c \<Longrightarrow> pc_ok (c_queues c) (wait_q (th (c_mem c) t)) (c_pc c t)"
    "\<And>t u. c_held c t u = holds_of (c_queues c) (c_mem c) t u"
    by (rule fr_invE [OF inv]) (rule that)
  note d = mutex_deinit_ok [OF old(1) u ret]
  have same: "th m = th (c_mem c)" "mx m = (mx (c_mem c))(u := os_mutex_zero)"
    by (simp_all add: d(2) mutex_clear_def)
  have held: "holds_of (c_queues c - {MutexQueue u}) m t v = holds_of (c_queues c) (c_mem c) t v" for t v
    using d(3) by (auto simp: holds_of_def same os_mutex_zero_def)
  have pc: "pc_ok (c_queues c - {MutexQueue u}) (wait_q (th m t)) (c_pc c t)" if "t \<in> c_threads c" for t
    using old(2) [OF that] pcs that by (cases "c_pc c t") (auto simp: same)
  show ?thesis
    by (rule fr_invI [of _ _ _ _ wq ow]) (use d(1) pc old(3) in \<open>simp_all add: held\<close>)
qed

lemma step_other:
  assumes inv: "fr_inv K live maxp c" and th: "\<forall>t \<in> c_threads c. th m t = th (c_mem c) t"
    and same: "mx m = mx (c_mem c)" "waits m = waits (c_mem c)" "owned m = owned (c_mem c)"
    and kern: "kernel_same K live (kern (c_mem c)) (kern m)"
  shows "fr_inv K live maxp (c\<lparr>c_mem := m\<rparr>)"
proof -
  obtain wq ow where old: "sys_ok K live maxp (c_queues c) (c_threads c) wq ow (c_mem c)"
    by (rule fr_invE [OF inv]) (rule that)
  have "sys_ok K live maxp (c_queues c) (c_threads c) wq ow m"
    by (rule sys_ok_outside(1) [OF old _ _ _ _ kern])
      (use th same lists_okD [OF sys_okD(1) [OF old]] in simp_all)
  then show ?thesis
    using fr_inv_memory_step [OF inv subset_refl _ same(1)] th by simp
qed


context fr_kernel_create
begin

lemma step_create:
  assumes inv: "fr_inv K live maxp c" and t: "t \<notin> c_threads c"
    and p: "0 \<le> prio" "prio < int maxp" and sz: "sz \<noteq> 0"
    and call: "os_thread_create K (Some t) (Some n) stack sz (Some f) p1 p2 p3 prio opts (c_mem c) = (r, m)"
  shows "fr_inv K live maxp
    (move_pc t Idle m (c\<lparr>c_threads := if r = 0 then insert t (c_threads c) else c_threads c\<rparr>))"
    (is "fr_inv K live maxp ?c")
proof -
  obtain wq ow where old: "sys_ok K live maxp (c_queues c) (c_threads c) wq ow (c_mem c)"
    "\<And>t. t \<in> c_threads c \<Longrightarrow> pc_ok (c_queues c) (wait_q (th (c_mem c) t)) (c_pc c t)"
    "\<And>t u. c_held c t u = holds_of (c_queues c) (c_mem c) t u"
    by (rule fr_invE [OF inv]) (rule that)
  note c = thread_create_spec(1) [OF p call sz, unfolded created_def]
  have new: "th m s = th (c_mem c) s" if "s \<noteq> t" for s using c that by blast
  have at: "wait_q (th m t) = None" "mx m = mx (c_mem c)" using c by blast+
  note ok = thread_create_ok [OF old(1) t p sz call]
  obtain ow' where sys: "sys_ok K live maxp (c_queues ?c) (c_threads ?c) wq ow' (c_mem ?c)"
  proof (cases "r = 0")
    case True
    then show thesis using that ok(1) by simp
  next
    case False
    then show thesis using that ok(2) by simp
  qed
  show ?thesis
  proof (rule fr_invI [OF sys])
    show "pc_ok (c_queues ?c) (wait_q (th (c_mem ?c) s)) (c_pc ?c s)" if s: "s \<in> c_threads ?c" for s
    proof (cases "s = t")
      case False
      then have "s \<in> c_threads c" using s by (simp split: if_splits)
      then show ?thesis using old(2) [of s] new [OF False] False by simp
    qed (simp add: at)
    show "c_held ?c s u = holds_of (c_queues ?c) (c_mem ?c) s u" for s u
      using old(3) by (simp add: holds_of_same [OF at(2)])
  qed
qed

lemma fr_inv_step:
  assumes inv: "fr_inv K live maxp c" and step: "fr_step K live maxp c c'"
  shows "fr_inv K live maxp c'"
  using step
proof cases
  case (lock_start t u timeout)
  obtain wq ow where old: "sys_ok K live maxp (c_queues c) (c_threads c) wq ow (c_mem c)"
    "\<And>t. t \<in> c_threads c \<Longrightarrow> pc_ok (c_queues c) (wait_q (th (c_mem c) t)) (c_pc c t)"
    by (rule fr_invE [OF inv]) (rule that)
  show ?thesis unfolding lock_start(1)
    by (rule fr_inv_thread_step [OF inv old(1)]) (use lock_start old(2) [of t] in simp_all)
next
  case (lock_returns t u timeout start r m)
  show ?thesis unfolding lock_returns(1) by (rule step_lock_returns [OF inv lock_returns(2-5)])
next
  case (lock_waits t u timeout start remaining m)
  show ?thesis unfolding lock_waits(1) by (rule step_lock_waits [OF inv lock_waits(2-4)])
next
  case (lock_gives_up t u timeout start notified r m)
  show ?thesis unfolding lock_gives_up(1) by (rule step_lock_wakes [OF inv lock_gives_up(2-4)], simp)
next
  case (lock_retries t u timeout start notified m)
  show ?thesis unfolding lock_retries(1) by (rule step_lock_wakes [OF inv lock_retries(2-4)], simp)
next
  case (unlock t u r m)
  show ?thesis unfolding unlock(1) by (rule step_unlock [OF inv unlock(2-5)])
next
  case (block t i m)
  show ?thesis unfolding block(1) by (rule step_block [OF inv block(2-5)])
next
  case (unblock t i result v r m)
  show ?thesis unfolding unblock(1) by (rule step_unblock [OF inv unblock(2-4)])
next
  case (wake_one i isr v b m)
  show ?thesis unfolding wake_one(1) by (rule step_wakes(1) [OF inv wake_one(2-3)])
next
  case (wake_all i isr v b m)
  show ?thesis unfolding wake_all(1) by (rule step_wakes(2) [OF inv wake_all(2-3)])
next
  case (set_priority t p m)
  show ?thesis unfolding set_priority(1) by (rule step_set_priority [OF inv set_priority(2-5)])
next
  case (abort t x m)
  show ?thesis unfolding abort(1) by (rule step_abort [OF inv abort(2-3)])
next
  case (exit t)
  show ?thesis unfolding exit(1) by (rule step_exit [OF inv exit(2-4)])
next
  case (create t prio sz n stack f p1 p2 p3 opts r m)
  show ?thesis unfolding create(1) by (rule step_create [OF inv create(2-6)])
next
  case (init_waitq i)
  show ?thesis unfolding init_waitq(1) by (rule step_init_waitq [OF inv init_waitq(2)])
next
  case (init_mutex u)
  show ?thesis unfolding init_mutex(1) by (rule step_init_mutex [OF inv init_mutex(2)])
next
  case (deinit_mutex u isr m)
  show ?thesis unfolding deinit_mutex(1) by (rule step_deinit_mutex [OF inv deinit_mutex(2-4)])
next
  case (other m)
  show ?thesis unfolding other(1) by (rule step_other [OF inv other(2-6)])
qed

text \<open>Every reachable configuration satisfies the invariant.\<close>

lemma fr_reach_inv:
  assumes "fr_reach K live maxp c"
  shows "fr_inv K live maxp c"
  using assms
proof (induction rule: fr_reach.induct)
  case (boot m)
  show ?case by (rule fr_inv_boot)
next
  case (step c c')
  show ?case by (rule fr_inv_step [OF step.IH step.hyps(2)])
qed

end

end
