(* ===== verification/Ref_Tasks.thy ===== *)
theory Ref_Tasks
  imports Mutex_Interleaving
begin

text \<open>
  A small instance of the FreeRTOS kernel the thread model is a parameter over: tasks numbered in
  order of creation, with a priority, a thread-local pointer and a notification value, and binary
  semaphores that are full or empty. It meets the laws of \<open>fr_kernel_create\<close>, so the theorems
  stated over those laws apply to it, and concrete runs of the code evaluate on it.
\<close>

record ref_kernel =
  rk_current :: nat
  rk_tick :: u32
  rk_next :: nat
  rk_dead :: "nat \<Rightarrow> bool"
  rk_prio :: "nat \<Rightarrow> u32"
  rk_tls :: "nat \<Rightarrow> nat option"
  rk_notified :: "nat \<Rightarrow> u32 option"
  rk_gone :: "nat \<Rightarrow> bool"
  rk_sem :: "nat \<Rightarrow> bool option"

text \<open>Priorities above \<open>configMAX_PRIORITIES - 1\<close> are capped, as the kernel does; \<open>rk_gone\<close>
  records the semaphores somebody used after their deletion.\<close>

definition ref_clamp :: "u32 \<Rightarrow> u32" where
  "ref_clamp p = (if unat p < 32 then p else 31)"

definition ref_create :: "u32 \<Rightarrow> ref_kernel \<Rightarrow> nat \<times> ref_kernel" where
  "ref_create p k =
     (rk_next k, k\<lparr>rk_next := rk_next k + 1, rk_dead := (rk_dead k)(rk_next k := False),
                   rk_prio := (rk_prio k)(rk_next k := ref_clamp p)\<rparr>)"

definition ref_tasks :: "(nat, nat, ref_kernel) fr_tasks" where
  "ref_tasks = \<lparr>
     task_MAX_DELAY = - 1,
     sizeof_StackType = 4,
     xTaskGetTickCount = rk_tick,
     xTaskGetCurrentTaskHandle = rk_current,
     pvTaskGetThreadLocalStoragePointer = (\<lambda>h k. rk_tls k h),
     vTaskSetThreadLocalStoragePointer = (\<lambda>h p k. k\<lparr>rk_tls := (rk_tls k)(h := p)\<rparr>),
     uxTaskPriorityGet = (\<lambda>h k. rk_prio k h),
     vTaskPrioritySet = (\<lambda>h p k. k\<lparr>rk_prio := (rk_prio k)(h := ref_clamp p)\<rparr>),
     xTaskNotify = (\<lambda>h v k. k\<lparr>rk_notified := (rk_notified k)(h := Some v)\<rparr>),
     xTaskNotifyFromISR = (\<lambda>h v k. (rk_prio k (rk_current k) < rk_prio k h,
       k\<lparr>rk_notified := (rk_notified k)(h := Some v)\<rparr>)),
     portYIELD_FROM_ISR = (\<lambda>k. k),
     vTaskSuspendAll = (\<lambda>k. k),
     xTaskResumeAll = (\<lambda>k. k),
     xTaskCreateStatic = (\<lambda>n w t p s k. let (h, k) = ref_create p k in (Some h, k)),
     xTaskCreate = (\<lambda>n w t p k. let (h, k) = ref_create p k in ((True, Some h), k)),
     vTaskDelete = (\<lambda>h k. let h = (case h of None \<Rightarrow> rk_current k | Some h \<Rightarrow> h)
                            in k\<lparr>rk_dead := (rk_dead k)(h := True)\<rparr>),
     taskYIELD = (\<lambda>k. k),
     xSemaphoreCreateBinaryStatic = (\<lambda>t k. (Some t, k\<lparr>rk_sem := (rk_sem k)(t := Some False)\<rparr>)),
     completion_give = (\<lambda>c k. case rk_sem k c of
         None \<Rightarrow> k\<lparr>rk_gone := (rk_gone k)(c := True)\<rparr>
       | Some _ \<Rightarrow> k\<lparr>rk_sem := (rk_sem k)(c := Some True)\<rparr>),
     vSemaphoreDelete = (\<lambda>c k. k\<lparr>rk_sem := (rk_sem k)(c := None)\<rparr>)\<rparr>"

definition ref_live :: "nat \<Rightarrow> ref_kernel \<Rightarrow> bool" where
  "ref_live h k \<longleftrightarrow> h < rk_next k \<and> \<not> rk_dead k h \<and> unat (rk_prio k h) < 32"

definition ref_kernel0 :: ref_kernel where
  "ref_kernel0 = \<lparr>rk_current = 0, rk_tick = 0, rk_next = 0, rk_dead = (\<lambda>_. False), rk_prio = (\<lambda>_. 0),
     rk_tls = (\<lambda>_. None), rk_notified = (\<lambda>_. None), rk_gone = (\<lambda>_. False), rk_sem = (\<lambda>_. None)\<rparr>"

lemma ref_clamp_range: "unat (ref_clamp p) < 32"
  by (simp add: ref_clamp_def)

lemma ref_tasks_create: "fr_kernel_create ref_tasks ref_live 32"
proof unfold_locales
  fix h g :: nat and k :: ref_kernel and p v :: u32
  assume live: "ref_live h k"
  show "unat (uxTaskPriorityGet ref_tasks h k) < 32" using live by (simp add: ref_tasks_def ref_live_def)
  show "uxTaskPriorityGet ref_tasks h (vTaskPrioritySet ref_tasks h p k) = p" if "unat p < 32"
    using that by (simp add: ref_tasks_def ref_clamp_def)
  show "uxTaskPriorityGet ref_tasks g (vTaskPrioritySet ref_tasks h p k) = uxTaskPriorityGet ref_tasks g k"
    if "g \<noteq> h"
    using that by (simp add: ref_tasks_def)
  show "ref_live g (vTaskPrioritySet ref_tasks h p k) = ref_live g k"
    using live by (auto simp: ref_tasks_def ref_live_def ref_clamp_range)
  show "uxTaskPriorityGet ref_tasks g (xTaskNotify ref_tasks h v k) = uxTaskPriorityGet ref_tasks g k"
    "ref_live g (xTaskNotify ref_tasks h v k) = ref_live g k"
    "uxTaskPriorityGet ref_tasks g (snd (xTaskNotifyFromISR ref_tasks h v k)) = uxTaskPriorityGet ref_tasks g k"
    "ref_live g (snd (xTaskNotifyFromISR ref_tasks h v k)) = ref_live g k"
    by (simp_all add: ref_tasks_def ref_live_def)
next
  fix n w t p s :: nat and q z :: u32 and k k' :: ref_kernel and r
  show "kernel_same ref_tasks ref_live k k'
      \<and> (\<forall>h. r = Some h \<longrightarrow> \<not> ref_live h k \<and> ref_live h k' \<and> uxTaskPriorityGet ref_tasks h k' = q)"
    if "xTaskCreateStatic ref_tasks n z t q s k = (r, k')" "unat q < 32"
    using that by (auto simp: ref_tasks_def ref_create_def ref_live_def kernel_same_def ref_clamp_def)
  show "kernel_same ref_tasks ref_live k k'
      \<and> (\<forall>h. r = Some h \<longrightarrow> \<not> ref_live h k \<and> ref_live h k' \<and> uxTaskPriorityGet ref_tasks h k' = q)"
    if "xTaskCreate ref_tasks n z t q k = ((res, r), k')" "unat q < 32" for res
    using that by (auto simp: ref_tasks_def ref_create_def ref_live_def kernel_same_def ref_clamp_def)
qed (simp_all add: ref_tasks_def ref_live_def kernel_same_def split: option.split)

interpretation ref: fr_kernel_create ref_tasks ref_live 32
  by (rule ref_tasks_create)

end
