(* ===== verification/Mutex_Properties.thy ===== *)
theory Mutex_Properties
  imports Ref_Tasks
begin

text \<open>
  What the invariant of the interleaved FreeRTOS threads and mutexes means for callers: mutual
  exclusion, exact and sorted wait queues, no deadlock among the modelled mutexes, no access through
  a wild or NULL pointer, and the notification of the first waiter by the releasing unlock. The
  kernel is any that meets \<open>fr_kernel_create\<close>, for the notification \<open>fr_kernel_wake\<close>, which adds what
  a notification leaves pending; the witnesses run on \<open>ref_tasks\<close>.
\<close>

section \<open>A contended mutex on the reference kernel\<close>

text \<open>Thread 0 of priority 5 and thread 1 of priority 10; thread 0 holds mutex 0, thread 1 waits.\<close>

definition demo_memory :: "(nat, nat, ref_kernel) osal" where
  "demo_memory = \<lparr>th = (\<lambda>_. os_thread_zero), mx = (\<lambda>_. os_mutex_zero),
     waits = (\<lambda>_. \<lparr>dn_next = None, dn_prev = None\<rparr>), owned = (\<lambda>_. \<lparr>dn_next = None, dn_prev = None\<rparr>),
     kern = ref_kernel0\<rparr>"

definition demo_create :: "nat \<Rightarrow> int \<Rightarrow> (nat, nat, ref_kernel) osal \<Rightarrow> (nat, nat, ref_kernel) osal" where
  "demo_create t prio m =
     snd (os_thread_create ref_tasks (Some t) (Some 0) None 512 (Some 7) 0 0 0 prio 0 m)"

lemma demo_create_returns:
  "os_thread_create ref_tasks (Some t) (Some 0) None 512 (Some 7) 0 0 0 prio 0 m = (0, demo_create t prio m)"
  by (simp add: demo_create_def os_thread_create_def create_task_def ref_tasks_def ref_create_def Let_def)

lemma demo_create_simps [simp]:
  "th (demo_create t prio m) s = (if s = t then os_thread_zero\<lparr>t_handle := Some (rk_next (kern m)), t_entry := Some 7,
     t_stack_size := 512, base_priority := prio, completion_handle := Some t\<rparr> else th m s)"
  "mx (demo_create t prio m) = mx m"
  "waits (demo_create t prio m) = sys_dnode_init (WaitNode t) (waits m)"
  "owned (demo_create t prio m) = sys_dlist_init (OwnedList t) (owned m)"
  "rk_next (kern (demo_create t prio m)) = rk_next (kern m) + 1"
  "rk_prio (kern (demo_create t prio m)) = (rk_prio (kern m))(rk_next (kern m) := ref_clamp (word_of_int prio))"
  by (simp_all add: demo_create_def os_thread_create_def create_task_def ref_tasks_def ref_create_def Let_def
      os_thread_zero_def)

definition demo_threads :: "(nat, nat, ref_kernel) osal" where
  "demo_threads = os_mutex_init (Some 0) (demo_create 1 10 (demo_create 0 5 demo_memory))"

lemma demo_threads_simps [simp]:
  "th demo_threads 0 = os_thread_zero\<lparr>t_handle := Some 0, t_entry := Some 7, t_stack_size := 512,
     base_priority := 5, completion_handle := Some 0\<rparr>"
  "th demo_threads (Suc 0) = os_thread_zero\<lparr>t_handle := Some 1, t_entry := Some 7, t_stack_size := 512,
     base_priority := 10, completion_handle := Some 1\<rparr>"
  "m_owner (mx demo_threads 0) = None" "lock_count (mx demo_threads 0) = 0"
  "rk_prio (kern demo_threads) 0 = 5" "rk_prio (kern demo_threads) (Suc 0) = 10"
  by (simp_all add: demo_threads_def demo_memory_def os_mutex_init_def os_waitq_init_def mutex_clear_def
      ref_kernel0_def os_mutex_zero_def ref_clamp_def)

lemma fr_reach_to:
  "fr_reach K live maxp c \<Longrightarrow> fr_step K live maxp c c'' \<Longrightarrow> c'' = c' \<Longrightarrow> fr_reach K live maxp c'"
  using fr_reach.step by blast

definition demo_config :: "(nat, nat, ref_kernel) osal \<Rightarrow> wait_queue set \<Rightarrow> nat set \<Rightarrow> (nat, nat, ref_kernel) fr_config" where
  "demo_config m Q A = \<lparr>c_mem = m, c_queues = Q, c_threads = A, c_pc = \<lambda>_. Idle, c_held = \<lambda>_ _. 0\<rparr>"

lemma demo_config_simps [simp]:
  "c_mem (demo_config m Q A) = m" "c_queues (demo_config m Q A) = Q" "c_threads (demo_config m Q A) = A"
  "c_pc (demo_config m Q A) = (\<lambda>_. Idle)" "c_held (demo_config m Q A) = (\<lambda>_ _. 0)"
  by (simp_all add: demo_config_def)

lemma demo_reach_create:
  assumes "fr_reach ref_tasks ref_live 32 (demo_config m Q A)" "t \<notin> A" "0 \<le> p" "p < 32"
  shows "fr_reach ref_tasks ref_live 32 (demo_config (demo_create t p m) Q (insert t A))"
proof (rule fr_reach_to [OF assms(1) fr_step.create [OF _ _ _ _ demo_create_returns]])
  show "move_pc t Idle (demo_create t p (c_mem (demo_config m Q A)))
      (demo_config m Q A\<lparr>c_threads := if (0 :: int) = 0 then insert t (c_threads (demo_config m Q A))
         else c_threads (demo_config m Q A)\<rparr>) = demo_config (demo_create t p m) Q (insert t A)"
    by (simp add: move_pc_def demo_config_def fun_eq_iff)
qed (use assms in simp_all)

lemma demo_reach_threads:
  "fr_reach ref_tasks ref_live 32 (demo_config demo_threads {MutexQueue 0} {0, 1})"
proof -
  have 0: "fr_reach ref_tasks ref_live 32 (demo_config demo_memory {} {})"
    using fr_reach.boot [of ref_tasks ref_live 32 demo_memory] by (simp add: fr_boot_def demo_config_def)
  have "fr_reach ref_tasks ref_live 32 (demo_config (demo_create 1 10 (demo_create 0 5 demo_memory)) {} {1, 0})"
    by (rule demo_reach_create [OF demo_reach_create [OF 0]]) simp_all
  then show ?thesis
    by (rule fr_reach_to [OF _ fr_step.init_mutex [of 0]])
      (simp_all add: demo_threads_def demo_config_def insert_commute)
qed

text \<open>Thread 0 locks the mutex, then thread 1 asks for it and waits.\<close>

lemma demo_locked:
  obtains c where "fr_reach ref_tasks ref_live 32 c" "c_threads c = {0, 1}" "c_queues c = {MutexQueue 0}"
    "c_pc c = (\<lambda>_. Idle)" "c_held c 0 0 = 1" "th (c_mem c) = th demo_threads"
    "m_owner (mx (c_mem c) 0) = Some 0" "lock_count (mx (c_mem c) 0) = 1"
    "kern (c_mem c) = kern demo_threads"
proof -
  let ?c = "demo_config demo_threads {MutexQueue 0} {0, 1}"
  have inv: "fr_inv ref_tasks ref_live 32 ?c" by (rule ref.fr_reach_inv [OF demo_reach_threads])
  obtain wq ow where sys: "sys_ok ref_tasks ref_live 32 {MutexQueue 0} {0, 1} wq ow demo_threads"
    using inv by (auto elim!: fr_invE)
  let ?tick = "os_tick_get ref_tasks demo_threads"
  obtain h where h: "lock_section ref_tasks 0 0 OS_WAIT_FOREVER ?tick demo_threads =
      Some (LockReturns 0, upd_mx 0 (\<lambda>M. M\<lparr>m_owner := Some 0, lock_count := 1\<rparr>) demo_threads\<lparr>owned := h\<rparr>)"
    by (rule lock_acquire_ok [OF sys, of 0 0 OS_WAIT_FOREVER ?tick]) (simp_all add: os_thread_zero_def)
  let ?c1 = "move_pc 0 (Locking 0 OS_WAIT_FOREVER ?tick) demo_threads ?c"
  have r1: "fr_reach ref_tasks ref_live 32 ?c1"
    by (rule fr_reach_to [OF demo_reach_threads fr_step.lock_start [of 0 _ 0]]) simp_all
  let ?m = "upd_mx 0 (\<lambda>M. M\<lparr>m_owner := Some 0, lock_count := 1\<rparr>) demo_threads\<lparr>owned := h\<rparr>"
  have r2: "fr_reach ref_tasks ref_live 32 (add_held 0 0 ((0 :: int) = 0) (move_pc 0 Idle ?m ?c1))"
    by (rule fr_reach.step [OF r1 fr_step.lock_returns]) (use h in simp_all)
  show thesis
    by (rule that [OF r2]) (simp_all add: fun_eq_iff, simp add: add_held_def move_pc_def)
qed

lemma demo_waits:
  obtains c0 c where "fr_reach ref_tasks ref_live 32 c0" "fr_step ref_tasks ref_live 32 c0 c"
    "c_threads c0 = {0, 1}" "c_queues c0 = {MutexQueue 0}" "m_owner (mx (c_mem c0) 0) = Some 0"
    "th (c_mem c0) = th demo_threads" "kern (c_mem c0) = kern demo_threads" "c_threads c = {0, 1}" "c_queues c = {MutexQueue 0}"
    "c_pc c 0 = Idle" "c_pc c 1 = Sleeping 0 OS_WAIT_FOREVER 0" "c_held c 0 0 = 1"
    "m_owner (mx (c_mem c) 0) = Some 0" "lock_count (mx (c_mem c) 0) = 1"
    "th (c_mem c) = (th demo_threads)(1 := lock_wait_update 0 (th demo_threads 1))"
proof -
  obtain c where c: "fr_reach ref_tasks ref_live 32 c" "c_threads c = {0, 1}" "c_queues c = {MutexQueue 0}"
    "c_pc c = (\<lambda>_. Idle)" "c_held c 0 0 = 1" "th (c_mem c) = th demo_threads"
    "m_owner (mx (c_mem c) 0) = Some 0" "lock_count (mx (c_mem c) 0) = 1"
    "kern (c_mem c) = kern demo_threads"
    by (rule demo_locked)
  obtain wq ow where sys: "sys_ok ref_tasks ref_live 32 {MutexQueue 0} {0, 1} wq ow (c_mem c)"
    using ref.fr_reach_inv [OF c(1)] c(2,3) by (auto elim!: fr_invE)
  have tick: "os_tick_get ref_tasks (c_mem c) = 0"
    by (simp add: os_tick_get_def c(9) ref_tasks_def demo_threads_def os_mutex_init_def os_waitq_init_def
        mutex_clear_def demo_create_def os_thread_create_def create_task_def ref_create_def Let_def
        demo_memory_def ref_kernel0_def)
  have nd: "\<not> os_mutex_would_deadlock_locked 1 0 (c_mem c)"
    by (simp add: os_mutex_would_deadlock_locked_def OS_PI_MAX_CHAIN_DEPTH_def c(6,7) eval_nat_numeral os_thread_zero_def)
  obtain m' where m': "lock_section ref_tasks 1 0 OS_WAIT_FOREVER 0 (c_mem c) =
       Some (LockWaits OS_WAIT_FOREVER, m')" "mx m' = mx (c_mem c)"
    "th m' = (th (c_mem c))(1 := lock_wait_update 0 (th (c_mem c) 1))"
    by (rule ref.lock_wait_ok [OF sys, of 1 0 0 OS_WAIT_FOREVER 0])
      (use nd in \<open>simp_all add: c(6,7) os_thread_zero_def OS_WAIT_FOREVER_def\<close>)
  let ?c1 = "move_pc 1 (Locking 0 OS_WAIT_FOREVER 0) (c_mem c) c"
  have r1: "fr_reach ref_tasks ref_live 32 ?c1"
    by (rule fr_reach_to [OF c(1) fr_step.lock_start [of 1 _ 0]]) (simp_all add: c tick)
  have r2: "fr_step ref_tasks ref_live 32 ?c1 (move_pc 1 (Sleeping 0 OS_WAIT_FOREVER 0) m' ?c1)"
    by (rule fr_step.lock_waits) (use m'(1) in \<open>simp_all add: c\<close>)
  show thesis
    by (rule that [OF r1 r2]) (simp_all add: c m' move_pc_def)
qed

lemma demo_contended:
  obtains c where "fr_reach ref_tasks ref_live 32 c" "c_threads c = {0, 1}" "c_queues c = {MutexQueue 0}"
    "c_pc c 0 = Idle" "c_pc c 1 = Sleeping 0 OS_WAIT_FOREVER 0" "c_held c 0 0 = 1"
    "m_owner (mx (c_mem c) 0) = Some 0" "lock_count (mx (c_mem c) 0) = 1"
    "th (c_mem c) = (th demo_threads)(1 := lock_wait_update 0 (th demo_threads 1))"
proof -
  obtain c0 c where r: "fr_reach ref_tasks ref_live 32 c0" "fr_step ref_tasks ref_live 32 c0 c"
    and c: "c_threads c = {0, 1}" "c_queues c = {MutexQueue 0}"
    "c_pc c 0 = Idle" "c_pc c 1 = Sleeping 0 OS_WAIT_FOREVER 0" "c_held c 0 0 = 1"
    "m_owner (mx (c_mem c) 0) = Some 0" "lock_count (mx (c_mem c) 0) = 1"
    "th (c_mem c) = (th demo_threads)(1 := lock_wait_update 0 (th demo_threads 1))"
    by (rule demo_waits) (rule that)
  show thesis by (rule that [OF fr_reach.step [OF r] c])
qed

section \<open>Mutual exclusion\<close>

text \<open>C23: In every state reachable by the interleaved sections of locks, unlocks, waits,
  wake-ups, priority changes, aborts, exits and creations, a thread whose successful locks of a
  mutex outnumber its successful unlocks is the recorded owner, the recorded nesting count is that
  difference, and no other thread holds the mutex.\<close>

theorem fr_mutex_excludes:
  assumes kernel: "fr_kernel_create K live maxp" and reach: "fr_reach K live maxp c"
    and holds: "0 < c_held c t u"
  shows "m_owner (mx (c_mem c) u) = Some t
     \<and> unat (lock_count (mx (c_mem c) u)) = c_held c t u
     \<and> (0 < c_held c s u \<longrightarrow> s = t)"
proof -
  have "c_held c r v = holds_of (c_queues c) (c_mem c) r v" for r v
    using fr_kernel_create.fr_reach_inv [OF kernel reach] by (simp add: fr_inv_def)
  then show ?thesis using holds by (simp add: holds_of_def split: if_splits)
qed

theorem fr_mutex_excludes_witness:
  "\<exists>c. fr_reach ref_tasks ref_live 32 c \<and> 0 < c_held c 0 0 \<and> c_pc c 1 = Sleeping 0 OS_WAIT_FOREVER 0
     \<and> m_owner (mx (c_mem c) 0) = Some 0 \<and> c_held c 1 0 = 0"
proof -
  obtain c where c: "fr_reach ref_tasks ref_live 32 c" "c_pc c 1 = Sleeping 0 OS_WAIT_FOREVER 0"
      "c_held c 0 0 = 1"
    by (rule demo_contended)
  have "0 < c_held c 0 0" using c(3) by simp
  note ex = fr_mutex_excludes [OF ref_tasks_create c(1) this]
  have "c_held c 1 0 = 0" using ex [of 1] by simp
  then show ?thesis using c ex by auto
qed

section \<open>The wait queues\<close>

text \<open>C27: In every reachable state every wait queue is a well-formed doubly linked list of
  distinct threads: exactly the threads whose \<open>wait_q\<close> field names the queue. The queue of a
  mutex is in order of current priority, also after boosts, and the \<open>owned_mutexes\<close> list of every
  thread holds exactly the mutexes whose owner it is.\<close>

theorem fr_wait_queues_exact:
  assumes kernel: "fr_kernel_create K live maxp" and reach: "fr_reach K live maxp c"
  shows "\<exists>wq ow.
      (\<forall>q \<in> c_queues c. dlist_rep (waits (c_mem c)) (WaitList q) (map WaitNode (wq q))
         \<and> set (wq q) = {t \<in> c_threads c. wait_q (th (c_mem c) t) = Some q})
    \<and> (\<forall>u. MutexQueue u \<in> c_queues c \<longrightarrow> sorted_wrt (\<lambda>s t. tprio K (c_mem c) t \<le> tprio K (c_mem c) s) (wq (MutexQueue u)))
    \<and> (\<forall>t \<in> c_threads c. dlist_rep (owned (c_mem c)) (OwnedList t) (map OwnerNode (ow t))
         \<and> set (ow t) = {u. MutexQueue u \<in> c_queues c \<and> m_owner (mx (c_mem c) u) = Some t})"
proof -
  obtain wq ow where sys: "sys_ok K live maxp (c_queues c) (c_threads c) wq ow (c_mem c)"
    by (rule fr_invE [OF fr_kernel_create.fr_reach_inv [OF kernel reach]]) (rule that)
  note ok = sys_okD(1) [OF sys]
  note wa = lists_ok_waits_agree [OF ok] and oa = lists_ok_owners_agree [OF ok]
  show ?thesis
  proof (intro exI [of _ wq] exI [of _ ow] conjI ballI allI impI)
    fix q assume q: "q \<in> c_queues c"
    show "dlist_rep (waits (c_mem c)) (WaitList q) (map WaitNode (wq q))"
      using lists_ok_waits [OF ok] q by (simp add: dlists_rep_def)
    show "set (wq q) = {t \<in> c_threads c. wait_q (th (c_mem c) t) = Some q}"
      using waits_agreeD(1) [OF wa q] waits_agreeD(2) [OF wa _ q] by blast
  next
    fix u assume "MutexQueue u \<in> c_queues c"
    then show "sorted_wrt (\<lambda>s t. tprio K (c_mem c) t \<le> tprio K (c_mem c) s) (wq (MutexQueue u))"
      using sys_okD(2) [OF sys] by (simp add: mutexes_sorted_def prio_sorted_def)
  next
    fix t assume t: "t \<in> c_threads c"
    show "dlist_rep (owned (c_mem c)) (OwnedList t) (map OwnerNode (ow t))"
      using lists_ok_owned [OF ok] t by (simp add: dlists_rep_def)
    show "set (ow t) = {u. MutexQueue u \<in> c_queues c \<and> m_owner (mx (c_mem c) u) = Some t}"
      using owners_agreeD(1) [OF oa t] owners_agreeD(3) [OF oa _ t] by blast
  qed
qed

theorem fr_wait_queues_exact_witness:
  "\<exists>c wq. fr_reach ref_tasks ref_live 32 c
     \<and> dlist_rep (waits (c_mem c)) (WaitList (MutexQueue 0)) (map WaitNode (wq :: nat list)) \<and> set wq = {1}"
proof -
  obtain c where c: "fr_reach ref_tasks ref_live 32 c" "c_threads c = {0, 1}" "c_queues c = {MutexQueue 0}"
      "th (c_mem c) = (th demo_threads)(1 := lock_wait_update 0 (th demo_threads 1))"
    by (rule demo_contended)
  obtain wq :: "wait_queue \<Rightarrow> nat list"
    where wq: "dlist_rep (waits (c_mem c)) (WaitList (MutexQueue 0)) (map WaitNode (wq (MutexQueue 0)))"
      "set (wq (MutexQueue 0)) = {t \<in> c_threads c. wait_q (th (c_mem c) t) = Some (MutexQueue 0)}"
    using fr_wait_queues_exact [OF ref_tasks_create c(1)] c(3) by auto
  have "{t \<in> c_threads c. wait_q (th (c_mem c) t) = Some (MutexQueue 0)} = {1}"
    by (auto simp: c lock_wait_update_def os_thread_zero_def)
  then show ?thesis using c(1) wq by auto
qed

section \<open>No deadlock\<close>

lemma chain_ends_no_cycle:
  assumes "(s, t) \<in> {(a, b). waits_on m a = Some b}\<^sup>+"
  shows "chain_ends m n (Some s) \<Longrightarrow> \<exists>k < n. chain_ends m k (Some t)"
  using assms
proof (induction arbitrary: n rule: trancl_induct)
  case (base t)
  then show ?case by (cases n) auto
next
  case (step t r)
  then obtain k where k: "k < n" "chain_ends m k (Some t)" by blast
  then show ?case using step.hyps(2) by (cases k) (auto intro: exI [of _ "k - 1"])
qed

lemma chain_ends_irrefl:
  "chain_ends m n (Some t) \<Longrightarrow> (t, t) \<notin> {(a, b). waits_on m a = Some b}\<^sup>+"
proof (induction n rule: less_induct)
  case (less n)
  then show ?case using chain_ends_no_cycle [of t t m n] by blast
qed

text \<open>C24: Whatever the order of the calls, the threads blocked in \<open>os_mutex_lock\<close> and the owners
  they wait for never form a cycle: the lock that would close one is refused.\<close>

theorem fr_waits_acyclic:
  assumes kernel: "fr_kernel_create K live maxp" and reach: "fr_reach K live maxp c"
    and t: "t \<in> c_threads c"
  shows "(t, t) \<notin> {(a, b). waits_on (c_mem c) a = Some b}\<^sup>+"
proof -
  obtain wq ow where "sys_ok K live maxp (c_queues c) (c_threads c) wq ow (c_mem c)"
    by (rule fr_invE [OF fr_kernel_create.fr_reach_inv [OF kernel reach]]) (rule that)
  then show ?thesis using chain_ends_irrefl t sys_okD(3) by (metis no_deadlock_def)
qed

theorem fr_waits_acyclic_witness:
  "\<exists>c. fr_reach ref_tasks ref_live 32 c \<and> waits_on (c_mem c) 1 = Some 0
     \<and> (0, 0) \<notin> {(a, b). waits_on (c_mem c) a = Some b}\<^sup>+"
proof -
  obtain c where c: "fr_reach ref_tasks ref_live 32 c" "c_threads c = {0, 1}"
      "th (c_mem c) = (th demo_threads)(1 := lock_wait_update 0 (th demo_threads 1))"
      "m_owner (mx (c_mem c) 0) = Some 0"
    by (rule demo_contended)
  have "0 \<in> c_threads c" using c(2) by simp
  from fr_waits_acyclic [OF ref_tasks_create c(1) this] c show ?thesis
    by (intro exI [of _ c]) (simp add: waits_on_def lock_wait_update_def)
qed

section \<open>Memory safety\<close>

context fr_kernel_create
begin

lemma lock_sections_defined:
  assumes sys: "sys_ok K live maxp Q A wq ow m" and t: "t \<in> A" and u: "MutexQueue u \<in> Q"
  shows "wait_q (th m t) = None \<Longrightarrow> lock_count (mx m u) + 1 \<noteq> 0 \<Longrightarrow> lock_section K t u timeout start m \<noteq> None"
    and "wait_q (th m t) = None \<or> wait_q (th m t) = Some (MutexQueue u) \<Longrightarrow> lock_wake_section K t u notified m \<noteq> None"
    and "unlock_section K t u m \<noteq> None"
proof -
  show "lock_section K t u timeout start m \<noteq> None"
    if w: "wait_q (th m t) = None" and n: "lock_count (mx m u) + 1 \<noteq> 0"
    by (cases rule: lock_section_cases [OF sys t w u, of timeout start, case_names count acquired refused waits])
      (use n in simp_all)
  show "lock_wake_section K t u notified m \<noteq> None"
    if "wait_q (th m t) = None \<or> wait_q (th m t) = Some (MutexQueue u)"
    using that
  proof
    assume "wait_q (th m t) = Some (MutexQueue u)"
    then show ?thesis by (rule lock_timeout_ok [OF sys t, of u notified]) simp
  qed (simp add: lock_wake_section_def)
  show "unlock_section K t u m \<noteq> None"
    by (cases rule: unlock_section_cases [OF sys u, of t, case_names denied released]) simp_all
qed

lemma waitq_sections_defined:
  assumes sys: "sys_ok K live maxp Q A wq ow m" and i: "PlainQueue i \<in> Q"
  shows "t \<in> A \<Longrightarrow> wait_q (th m t) = None \<Longrightarrow> waitq_block_section K (PlainQueue i) t m \<noteq> None"
    and "t \<in> A \<Longrightarrow> wait_q (th m t) = None \<or> wait_q (th m t) = Some (PlainQueue i) \<Longrightarrow>
      waitq_wake_section t result v m \<noteq> None"
    and "os_waitq_wake_one K isr (Some (PlainQueue i)) v m \<noteq> None"
    and "os_waitq_wake_all K isr (Some (PlainQueue i)) v m \<noteq> None"
proof -
  show "waitq_block_section K (PlainQueue i) t m \<noteq> None" if "t \<in> A" "wait_q (th m t) = None"
    by (rule block_ok [OF sys that i]) simp
  show "waitq_wake_section t result v m \<noteq> None"
    if t: "t \<in> A" and w: "wait_q (th m t) = None \<or> wait_q (th m t) = Some (PlainQueue i)"
    using w
  proof
    assume "wait_q (th m t) = Some (PlainQueue i)"
    then show ?thesis by (rule block_timeout_ok [OF sys t, of _ result v]) simp
  qed (simp add: waitq_wake_section_def)
  show "os_waitq_wake_one K isr (Some (PlainQueue i)) v m \<noteq> None"
    by (rule wake_one_ok [OF sys i, of isr v]) (simp add: os_waitq_wake_one_def)
  show "os_waitq_wake_all K isr (Some (PlainQueue i)) v m \<noteq> None"
    using wake_all_loop_ok [OF sys i, of isr v False] by (auto simp: os_waitq_wake_all_def)
qed

lemma thread_sections_defined:
  assumes sys: "sys_ok K live maxp Q A wq ow m" and t: "t \<in> A"
  shows "0 \<le> p \<Longrightarrow> p < int maxp \<Longrightarrow> set_priority_section K t p m \<noteq> None"
    and "abort_section K t m \<noteq> None"
proof -
  show "set_priority_section K t p m \<noteq> None" if "0 \<le> p" "p < int maxp"
    by (rule set_priority_ok [OF sys t that]) simp
  have rep: "dlist_rep (owned m) (OwnedList t) (map OwnerNode (ow t))"
    using lists_ok_owned [OF sys_okD(1) [OF sys]] t by (simp add: dlists_rep_def)
  show "abort_section K t m \<noteq> None"
  proof (cases "completed (th m t) \<or> ow t \<noteq> []")
    case True
    then show ?thesis using sys_dlist_is_empty_rep [OF rep] by (auto simp: abort_section_def)
  next
    case False
    then show ?thesis using abort_ok [OF sys t] by (metis option.distinct(1))
  qed
qed

end

text \<open>C28: In every reachable state every critical section a thread or interrupt may run next is
  defined: it follows no NULL or dangling link, converts no list head into a thread or mutex, and
  its loops end (waking all threads of a queue included).\<close>

theorem fr_sections_defined:
  assumes kernel: "fr_kernel_create K live maxp" and reach: "fr_reach K live maxp c" and t: "t \<in> c_threads c"
  shows "(c_pc c t = Locking u timeout start \<and> lock_count (mx (c_mem c) u) + 1 \<noteq> 0 \<longrightarrow>
           lock_section K t u timeout start (c_mem c) \<noteq> None)
     \<and> (c_pc c t = Sleeping u timeout start \<longrightarrow> lock_wake_section K t u notified (c_mem c) \<noteq> None)
     \<and> (MutexQueue u \<in> c_queues c \<longrightarrow> unlock_section K t u (c_mem c) \<noteq> None)
     \<and> (c_pc c t = Idle \<and> PlainQueue i \<in> c_queues c \<longrightarrow> waitq_block_section K (PlainQueue i) t (c_mem c) \<noteq> None)
     \<and> (c_pc c t = Blocked i \<longrightarrow> waitq_wake_section t result v (c_mem c) \<noteq> None)
     \<and> (PlainQueue i \<in> c_queues c \<longrightarrow> os_waitq_wake_one K isr (Some (PlainQueue i)) v (c_mem c) \<noteq> None
          \<and> os_waitq_wake_all K isr (Some (PlainQueue i)) v (c_mem c) \<noteq> None)
     \<and> (0 \<le> p \<and> p < int maxp \<longrightarrow> set_priority_section K t p (c_mem c) \<noteq> None)
     \<and> abort_section K t (c_mem c) \<noteq> None"
proof -
  obtain wq ow where sys: "sys_ok K live maxp (c_queues c) (c_threads c) wq ow (c_mem c)"
    and pc: "pc_ok (c_queues c) (wait_q (th (c_mem c) t)) (c_pc c t)"
    by (rule fr_invE [OF fr_kernel_create.fr_reach_inv [OF kernel reach]]) (use t in blast)
  note lock = fr_kernel_create.lock_sections_defined [OF kernel sys t]
  note waitq = fr_kernel_create.waitq_sections_defined [OF kernel sys]
  note thread = fr_kernel_create.thread_sections_defined [OF kernel sys t]
  show ?thesis
  proof (intro conjI impI)
    assume "c_pc c t = Locking u timeout start \<and> lock_count (mx (c_mem c) u) + 1 \<noteq> 0"
    then show "lock_section K t u timeout start (c_mem c) \<noteq> None" using lock(1) pc by simp
  next
    assume "c_pc c t = Sleeping u timeout start"
    then show "lock_wake_section K t u notified (c_mem c) \<noteq> None" using lock(2) pc by simp
  next
    assume "MutexQueue u \<in> c_queues c"
    then show "unlock_section K t u (c_mem c) \<noteq> None" by (rule lock(3))
  next
    assume "c_pc c t = Idle \<and> PlainQueue i \<in> c_queues c"
    then show "waitq_block_section K (PlainQueue i) t (c_mem c) \<noteq> None" using waitq(1) t pc by simp
  next
    assume "c_pc c t = Blocked i"
    then show "waitq_wake_section t result v (c_mem c) \<noteq> None" using waitq(2) [of i t] t pc by simp
  next
    assume "PlainQueue i \<in> c_queues c"
    then show "os_waitq_wake_one K isr (Some (PlainQueue i)) v (c_mem c) \<noteq> None"
      and "os_waitq_wake_all K isr (Some (PlainQueue i)) v (c_mem c) \<noteq> None"
      by (rule waitq(3), rule waitq(4))
  next
    assume "0 \<le> p \<and> p < int maxp"
    then show "set_priority_section K t p (c_mem c) \<noteq> None" using thread(1) by simp
  qed (rule thread(2))
qed

theorem fr_sections_defined_witness:
  "\<exists>c. fr_reach ref_tasks ref_live 32 c
     \<and> lock_wake_section ref_tasks 1 0 False (c_mem c) \<noteq> None \<and> unlock_section ref_tasks 0 0 (c_mem c) \<noteq> None"
proof -
  obtain c where c: "fr_reach ref_tasks ref_live 32 c" "c_threads c = {0, 1}" "c_queues c = {MutexQueue 0}"
      "c_pc c 1 = Sleeping 0 OS_WAIT_FOREVER 0"
    by (rule demo_contended)
  have t: "0 \<in> c_threads c" "1 \<in> c_threads c" using c(2) by simp_all
  note d = fr_sections_defined [OF ref_tasks_create c(1)]
  have "lock_wake_section ref_tasks 1 0 False (c_mem c) \<noteq> None" using d [OF t(2)] c(4) by blast
  moreover have "unlock_section ref_tasks 0 0 (c_mem c) \<noteq> None" using d [OF t(1)] c(3) by blast
  ultimately show ?thesis using c(1) by blast
qed

section \<open>Unlocking\<close>

text \<open>
  What the kernel promises of notifications: \<open>pending h k\<close> is the value a notification has left for
  the task \<open>h\<close> to wait for, and setting a priority leaves it alone.
\<close>

locale fr_kernel_wake = fr_kernel_create K live maxp
  for K :: "('h, 's, 'k) fr_tasks" and live :: "'h \<Rightarrow> 'k \<Rightarrow> bool" and maxp :: nat +
  fixes pending :: "'h \<Rightarrow> 'k \<Rightarrow> u32 option"
  assumes notify_pending: "live h k \<Longrightarrow> pending g (xTaskNotify K h v k) = (if g = h then Some v else pending g k)"
    and priority_pending: "live h k \<Longrightarrow> pending g (vTaskPrioritySet K h p k) = pending g k"
begin

lemma apply_priority_pending:
  assumes "t_handle (th m t) = Some h" "live h (kern m)"
  shows "pending g (kern (apply_priority K t e m)) = pending g (kern m)"
    "live g (kern (apply_priority K t e m)) = live g (kern m)"
  using assms by (simp_all add: apply_priority_def priority_pending live_priority_set)

text \<open>The priority chain notifies nobody.\<close>

lemma pi_chain_pending:
  assumes "pi_chain_loop K visited fuel thread m = Some m'"
    and "\<forall>t \<in> A. \<exists>h. t_handle (th m t) = Some h \<and> live h (kern m)"
    and "\<forall>t \<in> A. \<forall>u. waiting_mutex (th m t) = Some u \<longrightarrow> set_option (m_owner (mx m u)) \<subseteq> A"
    and "set_option thread \<subseteq> A"
  shows "pending g (kern m') = pending g (kern m)"
  using assms
proof (induction fuel arbitrary: visited thread m)
  case (Suc fuel)
  show ?case
  proof (cases thread)
    case (Some t)
    with Suc.prems(2,4) obtain h where h: "t_handle (th m t) = Some h" "live h (kern m)" by auto
    show ?thesis
    proof (cases "t \<in> set visited")
      case False
      obtain e where e: "os_mutex_compute_priority_locked K (Some t) m = Some e"
        using Suc.prems(1) False by (auto simp: Some bind_eq_Some_conv)
      let ?m1 = "apply_priority K t e m"
      have m1: "th ?m1 = th m" "mx ?m1 = mx m" by (simp_all add: apply_priority_def split: option.split)
      note kern = apply_priority_pending [where e = e, OF h]
      show ?thesis
      proof (cases "waiting_mutex (th m t)")
        case None
        then show ?thesis using Suc.prems(1) False e m1 kern by (simp add: Some)
      next
        case (Some u)
        with Suc.prems(1) False e m1 \<open>thread = Some t\<close> obtain w where
          w: "pi_chain_loop K (visited @ [t]) fuel (m_owner (mx m u)) (?m1\<lparr>waits := w\<rparr>) = Some m'"
          by (auto simp: bind_eq_Some_conv waitq_remove_def insert_priority_at)
        obtain m3 where m3: "th m3 = th ?m1" "mx m3 = mx ?m1" "kern m3 = kern ?m1"
          and rest: "pi_chain_loop K (visited @ [t]) fuel (m_owner (mx m3 u)) m3 = Some m'"
          using w by (intro that [of "?m1\<lparr>waits := w\<rparr>"]) (simp_all add: m1)
        have "t \<in> A" using Suc.prems(4) \<open>thread = Some t\<close> by simp
        with Suc.prems(3) Some have "set_option (m_owner (mx m3 u)) \<subseteq> A" by (simp add: m3 m1)
        then have "pending g (kern m') = pending g (kern m3)"
          using Suc.prems(2,3) by (intro Suc.IH [OF rest]) (simp_all add: m3 m1 kern)
        then show ?thesis by (simp add: m3 kern)
      qed
    qed (use Suc.prems(1) Some in simp)
  qed (use Suc.prems(1) in simp)
qed simp

lemma update_chain_pending:
  assumes sys: "sys_ok K live maxp Q A wq ow m" and "cur \<in> A"
    and "os_mutex_update_pi_chain_locked K (Some cur) m = Some m'"
  shows "pending g (kern m') = pending g (kern m)"
proof (rule pi_chain_pending [where A = A])
  show "pi_chain_loop K [] OS_PI_MAX_CHAIN_DEPTH (Some cur) m = Some m'"
    using assms(3) by (simp add: os_mutex_update_pi_chain_locked_def)
  note ok = sys_okD(1) [OF sys]
  show "\<forall>t \<in> A. \<exists>h. t_handle (th m t) = Some h \<and> live h (kern m)"
    using tasks_okD(1) [OF lists_ok_tasks [OF ok]] by blast
  show "\<forall>t \<in> A. \<forall>u. waiting_mutex (th m t) = Some u \<longrightarrow> set_option (m_owner (mx m u)) \<subseteq> A"
  proof (intro ballI allI impI)
    fix t u assume t: "t \<in> A" "waiting_mutex (th m t) = Some u"
    then have "MutexQueue u \<in> Q"
      using waits_agreeD(3,4) [OF lists_ok_waits_agree [OF ok] t(1)] by blast
    then show "set_option (m_owner (mx m u)) \<subseteq> A"
      using owners_agreeD(2) [OF lists_ok_owners_agree [OF ok]] by (cases "m_owner (mx m u)") auto
  qed
qed (use assms(2) in simp)

text \<open>The unlock notifies the head of the queue and nobody else.\<close>

lemma unlock_notifies:
  assumes sys: "sys_ok K live maxp Q A wq ow m" and u: "MutexQueue u \<in> Q"
    and own: "m_owner (mx m u) = Some cur" and count: "lock_count (mx m u) = 1"
    and head: "wq (MutexQueue u) = s # ss" and unlock: "unlock_section K cur u m = Some (0, m')"
  obtains h where "t_handle (th m s) = Some h" "pending h (kern m') = Some 0"
    "\<And>g. g \<noteq> h \<Longrightarrow> pending g (kern m') = pending g (kern m)"
proof -
  note ok = sys_okD(1) [OF sys]
  have cur: "cur \<in> A" by (rule owners_agreeD(2) [OF lists_ok_owners_agree [OF ok] u own])
  have s: "s \<in> A" using waits_agreeD(1) [OF lists_ok_waits_agree [OF ok] u] head by simp
  obtain h where h: "t_handle (th m s) = Some h" "live h (kern m)"
    using tasks_okD(1) [OF lists_ok_tasks [OF ok] s] by blast
  let ?free = "\<lambda>o'. upd_mx u (\<lambda>M. M\<lparr>lock_count := 0, m_owner := None\<rparr>) (m\<lparr>owned := o'\<rparr>)"
  have free: "upd_mx u (\<lambda>M. M\<lparr>m_owner := None\<rparr>) (upd_mx u (\<lambda>M. M\<lparr>lock_count := lock_count M - 1\<rparr>) m\<lparr>owned := o'\<rparr>)
      = ?free o'" for o' using count by (simp add: upd_mx_def)
  obtain o' m2 where o': "sys_dlist_remove (OwnerNode u) (owned m) = Some o'"
      and m2: "unlock_wake K u (?free o') = Some m2" and chain: "os_mutex_update_pi_chain_locked K (Some cur) m2 = Some m'"
    using unlock own count by (auto simp: unlock_section_def Let_def bind_eq_Some_conv free split: if_splits)
  obtain o'' where o'': "sys_dlist_remove (OwnerNode u) (owned m) = Some o''"
      "sys_ok K live maxp Q A wq (ow(cur := remove1 u (ow cur))) (?free o'')"
    by (rule release_ok [OF sys u own]) (rule that)
  then have sys1: "sys_ok K live maxp Q A wq (ow(cur := remove1 u (ow cur))) (?free o')" using o' by simp
  obtain w k where w: "waitq_get (MutexQueue u) (?free o') = Some (s, ?free o'\<lparr>waits := w\<rparr>)"
    "snd (os_waitq_notify_thread_locked K False (Some s) 0 (upd_th s unlock_wake_update (?free o'\<lparr>waits := w\<rparr>)))
       = upd_th s unlock_wake_update (?free o'\<lparr>waits := w\<rparr>)\<lparr>kern := k\<rparr>"
    "sys_ok K live maxp Q A (wq(MutexQueue u := ss)) (ow(cur := remove1 u (ow cur)))
       (upd_th s unlock_wake_update (?free o'\<lparr>waits := w\<rparr>)\<lparr>kern := k\<rparr>)"
    by (rule wake_head_ok [OF sys1 u head, of unlock_wake_update False 0])
      (simp_all add: unlock_wake_update_def same_task_def)
  have k: "k = xTaskNotify K h 0 (kern m)"
    using arg_cong [OF w(2), of kern] h(1) by (simp add: os_waitq_notify_thread_locked_def unlock_wake_update_def)
  have "\<not> sys_dlist_is_empty (WaitList (MutexQueue u)) (waits (?free o'))"
    using waitq_empty_spec [OF lists_ok_waits [OF ok] u] head by simp
  moreover have "upd_th s (\<lambda>T. T\<lparr>wait_q := None, waiting_mutex := None, wait_result := 0,
      t_state := OS_THREAD_READY\<rparr>) x = upd_th s unlock_wake_update x" for x :: "('h, 's, 'k) osal"
    by (simp add: upd_th_def unlock_wake_update_def)
  ultimately have m2': "m2 = upd_th s unlock_wake_update (?free o'\<lparr>waits := w\<rparr>)\<lparr>kern := k\<rparr>"
    using m2 w(1,2) by (simp add: unlock_wake_def)
  have "pending g (kern m') = pending g (kern m2)" for g
    by (rule update_chain_pending [OF w(3) [folded m2'] cur chain])
  then have "pending g (kern m') = (if g = h then Some 0 else pending g (kern m))" for g
    by (simp add: m2' k notify_pending [OF h(2)])
  with h(1) show thesis by (intro that [of h]) simp_all
qed

end

interpretation ref_wake: fr_kernel_wake ref_tasks ref_live 32 "\<lambda>h k. rk_notified k h"
  by unfold_locales (simp_all add: ref_tasks_def)

text \<open>C29: The unlock that releases a mutex clears its owner and wakes one of the threads waiting for
  it, one of the highest current priority among them: that thread leaves the queue, is ready and waits
  for nothing, and its task, and no other, has been notified with the result 0. Every other thread's
  record is unchanged.\<close>

theorem fr_unlock_wakes_highest:
  assumes kernel: "fr_kernel_wake K live maxp pending" and reach: "fr_reach K live maxp c"
    and u: "MutexQueue u \<in> c_queues c" and own: "m_owner (mx (c_mem c) u) = Some t"
    and last: "lock_count (mx (c_mem c) u) = 1"
    and waiter: "w \<in> c_threads c" "wait_q (th (c_mem c) w) = Some (MutexQueue u)"
  shows "\<exists>s m h. unlock_section K t u (c_mem c) = Some (0, m)
     \<and> m_owner (mx m u) = None \<and> lock_count (mx m u) = 0
     \<and> wait_q (th (c_mem c) s) = Some (MutexQueue u) \<and> tprio K (c_mem c) w \<le> tprio K (c_mem c) s
     \<and> wait_q (th m s) = None \<and> waiting_mutex (th m s) = None \<and> t_state (th m s) = OS_THREAD_READY
     \<and> t_handle (th (c_mem c) s) = Some h \<and> pending h (kern m) = Some 0
     \<and> (\<forall>g. g \<noteq> h \<longrightarrow> pending g (kern m) = pending g (kern (c_mem c)))
     \<and> (\<forall>r. r \<noteq> s \<longrightarrow> th m r = th (c_mem c) r)"
proof -
  have create: "fr_kernel_create K live maxp" by (rule fr_kernel_wake.axioms(1) [OF kernel])
  obtain wq ow where sys: "sys_ok K live maxp (c_queues c) (c_threads c) wq ow (c_mem c)"
    by (rule fr_invE [OF fr_kernel_create.fr_reach_inv [OF create reach]]) (rule that)
  note ok = sys_okD(1) [OF sys]
  note wa = lists_ok_waits_agree [OF ok]
  have w: "w \<in> set (wq (MutexQueue u))" using waits_agreeD(2) [OF wa waiter(1) u] waiter(2) by simp
  then obtain s ss where q: "wq (MutexQueue u) = s # ss" by (cases "wq (MutexQueue u)") auto
  then have "prio_sorted (tprio K (c_mem c)) (s # ss)"
    using sys_okD(2) [OF sys] u by (metis mutexes_sorted_def)
  then have top: "tprio K (c_mem c) w \<le> tprio K (c_mem c) s" using w q by (auto simp: prio_sorted_def)
  have s: "s \<in> c_threads c" using waits_agreeD(1) [OF wa u, of s] q by simp
  then have sw: "wait_q (th (c_mem c) s) = Some (MutexQueue u)" using waits_agreeD(2) [OF wa s u] q by simp
  obtain m' where m': "unlock_section K t u (c_mem c) = Some (0, m')"
    "mx m' = (mx (c_mem c))(u := mx (c_mem c) u\<lparr>lock_count := 0, m_owner := None\<rparr>)"
    "th m' = (case wq (MutexQueue u) of [] \<Rightarrow> th (c_mem c)
              | t # _ \<Rightarrow> (th (c_mem c))(t := unlock_wake_update (th (c_mem c) t)))"
    by (rule fr_kernel.unlock_release_ok [OF fr_kernel_create.axioms(1) [OF create] sys u own last]) (rule that)
  obtain h where h: "t_handle (th (c_mem c) s) = Some h" "pending h (kern m') = Some 0"
    "\<And>g. g \<noteq> h \<Longrightarrow> pending g (kern m') = pending g (kern (c_mem c))"
    by (rule fr_kernel_wake.unlock_notifies [OF kernel sys u own last q m'(1)]) (rule that)
  have "th m' = (th (c_mem c))(s := unlock_wake_update (th (c_mem c) s))" using m'(3) by (simp add: q)
  then show ?thesis
    using m'(1,2) sw top h by (intro exI [of _ s] exI [of _ m'] exI [of _ h]) (simp add: unlock_wake_update_def)
qed

theorem fr_unlock_wakes_highest_witness:
  "\<exists>c m. fr_reach ref_tasks ref_live 32 c \<and> unlock_section ref_tasks 0 0 (c_mem c) = Some (0, m)
     \<and> m_owner (mx m 0) = None \<and> rk_notified (kern m) 1 = Some 0"
proof -
  obtain c where c: "fr_reach ref_tasks ref_live 32 c" "c_threads c = {0, 1}" "c_queues c = {MutexQueue 0}"
      "m_owner (mx (c_mem c) 0) = Some 0" "lock_count (mx (c_mem c) 0) = 1"
      "th (c_mem c) = (th demo_threads)(1 := lock_wait_update 0 (th demo_threads 1))"
    by (rule demo_contended)
  have "MutexQueue 0 \<in> c_queues c" "1 \<in> c_threads c" "wait_q (th (c_mem c) 1) = Some (MutexQueue 0)"
    by (simp_all add: c lock_wait_update_def)
  from fr_unlock_wakes_highest [OF ref_wake.fr_kernel_wake_axioms c(1) this(1) c(4,5) this(2,3)]
  obtain s m h where m: "unlock_section ref_tasks 0 0 (c_mem c) = Some (0, m)" "m_owner (mx m 0) = None"
      "wait_q (th (c_mem c) s) = Some (MutexQueue 0)" "t_handle (th (c_mem c) s) = Some h" "rk_notified (kern m) h = Some 0"
    by blast
  have "wait_q (th demo_threads r) = None" for r
    by (simp add: demo_threads_def demo_memory_def os_mutex_init_def os_waitq_init_def mutex_clear_def os_thread_zero_def)
  then have "s = 1" using m(3) by (cases "s = 1") (simp_all add: c)
  then have "h = 1" using m(4) by (simp add: c lock_wait_update_def)
  with m c(1) show ?thesis by blast
qed

end
