(* ===== verification/Mutex_Inheritance.thy ===== *)
theory Mutex_Inheritance
  imports Mutex_Properties
begin

text \<open>
  Priority inheritance of the FreeRTOS mutexes, stated on the code's fields: a thread runs at the
  maximum of its base priority and the current priorities of the threads that wait for a mutex it
  owns. With at most sixteen threads every step keeps that, except the acquisition of a free mutex
  that still has waiters, which \<open>os_mutex_lock\<close> allows and after which it does not update the new
  owner.
\<close>

definition inherited_priority ::
  "('h, 's, 'k) fr_tasks \<Rightarrow> nat set \<Rightarrow> ('h, 's, 'k) osal \<Rightarrow> nat \<Rightarrow> int" where
  "inherited_priority K A m t =
     Max (insert (base_priority (th m t)) (tprio K m ` {s \<in> A. waits_on m s = Some t}))"

definition priorities_exact ::
  "('h, 's, 'k) fr_tasks \<Rightarrow> nat set \<Rightarrow> ('h, 's, 'k) osal \<Rightarrow> bool" where
  "priorities_exact K A m \<longleftrightarrow> (\<forall>t \<in> A. tprio K m t = inherited_priority K A m t)"

lemma inherited_priority_cong:
  assumes "base_priority (th m' t) = base_priority (th m t)"
    and "\<And>s. s \<in> A \<Longrightarrow> waits_on m s = Some t \<Longrightarrow> s \<in> B \<and> waits_on m' s = Some t \<and> tprio K m' s = tprio K m s"
    and "\<And>s. s \<in> B \<Longrightarrow> waits_on m' s = Some t \<Longrightarrow> s \<in> A \<and> waits_on m s = Some t"
  shows "inherited_priority K B m' t = inherited_priority K A m t"
proof -
  have "{s \<in> B. waits_on m' s = Some t} = {s \<in> A. waits_on m s = Some t}" using assms(2,3) by blast
  moreover have "tprio K m' ` {s \<in> A. waits_on m s = Some t} = tprio K m ` {s \<in> A. waits_on m s = Some t}"
    by (rule image_cong [OF refl]) (use assms(2) in blast)
  ultimately show ?thesis by (simp add: inherited_priority_def assms(1))
qed

text \<open>Steps after which the same threads wait for the same owners, at the same priorities.\<close>

lemma exact_same:
  assumes "priorities_exact K A m"
    and "\<And>t. t \<in> A \<Longrightarrow> base_priority (th m' t) = base_priority (th m t)"
    and "\<And>t. t \<in> A \<Longrightarrow> tprio K m' t = tprio K m t"
    and "\<And>t. t \<in> A \<Longrightarrow> waits_on m' t = waits_on m t"
  shows "priorities_exact K A m'"
  unfolding priorities_exact_def
proof
  fix t assume t: "t \<in> A"
  have "inherited_priority K A m' t = inherited_priority K A m t"
    by (rule inherited_priority_cong) (use assms(2-4) t in simp_all)
  then show "tprio K m' t = inherited_priority K A m' t"
    using assms(1) t by (simp add: priorities_exact_def assms(3))
qed

lemma exact_same_task:
  assumes "priorities_exact K A m" "kern m' = kern m"
    and "\<And>t. t \<in> A \<Longrightarrow> same_task (th m' t) (th m t)"
    and "\<And>t. t \<in> A \<Longrightarrow> waits_on m' t = waits_on m t"
  shows "priorities_exact K A m'"
  by (rule exact_same [OF assms(1) _ tprio_cong [OF _ assms(2)] assms(4)])
    (use assms(3) in \<open>simp_all add: same_task_def\<close>)

text \<open>A thread that waits for nobody leaves.\<close>

lemma exact_leave:
  assumes "priorities_exact K A m" "waits_on m t = None"
  shows "priorities_exact K (A - {t}) m"
  unfolding priorities_exact_def
proof
  fix s assume s: "s \<in> A - {t}"
  have "inherited_priority K (A - {t}) m s = inherited_priority K A m s"
    by (rule inherited_priority_cong) (use assms(2) in auto)
  then show "tprio K m s = inherited_priority K (A - {t}) m s"
    using assms(1) s by (simp add: priorities_exact_def)
qed

context fr_kernel
begin

lemma exact_iff:
  assumes ok: "lists_ok live maxp Q A wq ow m"
  shows "priorities_exact K A m \<longleftrightarrow> pi_consistent K A wq ow m None"
proof -
  have "waiters wq ow t = {s \<in> A. waits_on m s = Some t}" if t: "t \<in> A" for t
  proof -
    have "waiters wq ow t \<subseteq> A"
      using waits_agreeD(1) [OF lists_ok_waits_agree [OF ok]]
        owners_agreeD(1) [OF lists_ok_owners_agree [OF ok] t] by (auto simp: waiters_def)
    then show ?thesis using waits_on_owner [OF ok _ t] by blast
  qed
  then show ?thesis
    by (simp add: priorities_exact_def pi_consistent_def inherited_priority_def pi_priority_def)
qed

lemma nobody_waits:
  assumes ok: "lists_ok live maxp Q A wq ow m" and t: "t \<in> A" "wait_q (th m t) \<noteq> Some (MutexQueue u)"
  shows "waiting_mutex (th m t) \<noteq> Some u"
  using waits_agreeD(4) [OF lists_ok_waits_agree [OF ok] t(1), of u] t(2) by simp

lemma idle_waits_nobody:
  assumes ok: "lists_ok live maxp Q A wq ow m" and t: "t \<in> A" "wait_q (th m t) = None"
  shows "waiting_mutex (th m t) = None" "waits_on m t = None"
proof -
  show "waiting_mutex (th m t) = None"
    using waits_agreeD(4) [OF lists_ok_waits_agree [OF ok] t(1)] t(2)
    by (cases "waiting_mutex (th m t)") auto
  then show "waits_on m t = None" by (simp add: waits_on_def)
qed

text \<open>The first section of a lock.\<close>

lemma exact_lock_returns:
  assumes sys: "sys_ok K live maxp Q A wq ow m" and t: "t \<in> A" "wait_q (th m t) = None" and u: "MutexQueue u \<in> Q"
    and exact: "priorities_exact K A m"
    and fair: "m_owner (mx m u) = None \<Longrightarrow> \<forall>s \<in> A. wait_q (th m s) \<noteq> Some (MutexQueue u)"
    and sec: "lock_section K t u timeout start m = Some (LockReturns r, m')"
  shows "priorities_exact K A m'"
proof -
  note ok = sys_okD(1) [OF sys]
  consider (free) "m_owner (mx m u) = None" | (again) "m_owner (mx m u) = Some t"
    | (other) "m_owner (mx m u) \<noteq> None" "m_owner (mx m u) \<noteq> Some t" by blast
  then show ?thesis
  proof cases
    case free
    then obtain h where m': "m' = upd_mx u (\<lambda>M. M\<lparr>m_owner := Some t, lock_count := 1\<rparr>) m\<lparr>owned := h\<rparr>"
      using sec by (auto simp: lock_section_def Let_def bind_eq_Some_conv)
    have "waits_on m' s = waits_on m s" if "s \<in> A" for s
      using nobody_waits [OF ok that] fair [OF free] that by (auto simp: waits_on_def m' split: option.split)
    then show ?thesis by (intro exact_same_task [OF exact]) (simp_all add: m' same_task_def)
  next
    case again
    then have m': "m' = upd_mx u (\<lambda>M. M\<lparr>lock_count := lock_count M + 1\<rparr>) m"
      using sec by (auto simp: lock_section_def)
    have "waits_on m' s = waits_on m s" for s by (simp add: waits_on_def m' split: option.split)
    then show ?thesis by (intro exact_same_task [OF exact]) (simp_all add: m' same_task_def)
  next
    case other
    then have "m' = m" using sec by (auto simp: lock_section_def bind_eq_Some_conv Let_def split: if_splits)
    then show ?thesis using exact by simp
  qed
qed

lemma exact_lock_waits:
  assumes sys: "sys_ok K live maxp Q A wq ow m" and t: "t \<in> A" "wait_q (th m t) = None" and u: "MutexQueue u \<in> Q"
    and exact: "priorities_exact K A m" and A: "finite A" "card A \<le> 16"
    and sec: "lock_section K t u timeout start m = Some (LockWaits remaining, m')"
  shows "priorities_exact K A m'"
proof -
  have wait: "m_owner (mx m u) \<noteq> Some t" "timeout \<noteq> 0" "\<not> os_mutex_would_deadlock_locked t u m"
      "\<not> (timeout \<noteq> OS_WAIT_FOREVER \<and> os_tick_get K m - start \<ge> timeout)"
    using sec by (auto simp: lock_section_def bind_eq_Some_conv Let_def split: if_splits)
  obtain own where own: "m_owner (mx m u) = Some own"
    using sec by (cases "m_owner (mx m u)") (auto simp: lock_section_def bind_eq_Some_conv Let_def)
  obtain m2 wq' where m2: "lock_section K t u timeout start m =
       Some (LockWaits (if timeout \<noteq> OS_WAIT_FOREVER then timeout - (os_tick_get K m - start)
                        else OS_WAIT_FOREVER), m2)"
    "sys_ok K live maxp Q A wq' ow m2"
    "finite A \<Longrightarrow> card A \<le> 16 \<Longrightarrow> pi_consistent K A wq ow m None \<Longrightarrow> pi_consistent K A wq' ow m2 None"
    by (rule lock_wait_ok [OF sys t u own _ wait(2-4)]) (use wait(1) own that in auto)
  have "m2 = m'" using m2(1) sec by simp
  then show ?thesis
    using m2(3) [OF A] exact exact_iff [OF sys_okD(1) [OF sys]] exact_iff [OF sys_okD(1) [OF m2(2)]] by simp
qed

text \<open>The section after the wait of a lock.\<close>

lemma exact_lock_wakes:
  assumes sys: "sys_ok K live maxp Q A wq ow m" and t: "t \<in> A"
    and w: "wait_q (th m t) = None \<or> wait_q (th m t) = Some (MutexQueue u)"
    and exact: "priorities_exact K A m" and A: "finite A" "card A \<le> 16"
    and sec: "lock_wake_section K t u notified m = Some (res, m')"
  shows "priorities_exact K A m'"
  using w
proof
  assume n: "wait_q (th m t) = None"
  have m': "m' = upd_th t (\<lambda>T. T\<lparr>t_state := OS_THREAD_READY, waiting_mutex := None\<rparr>) m"
    using sec n by (simp add: lock_wake_section_def)
  have "waits_on m' s = waits_on m s" for s
    using idle_waits_nobody(1) [OF sys_okD(1) [OF sys] t n] by (simp add: waits_on_def m' split: option.split)
  then show ?thesis by (intro exact_same_task [OF exact]) (simp_all add: m' same_task_def)
next
  assume q: "wait_q (th m t) = Some (MutexQueue u)"
  obtain m2 wq' where m2: "lock_wake_section K t u notified m =
       Some (Some (if notified then - EAGAIN else - ETIMEDOUT), m2)"
    "sys_ok K live maxp Q A wq' ow m2"
    "finite A \<Longrightarrow> card A \<le> 16 \<Longrightarrow> pi_consistent K A wq ow m None \<Longrightarrow> pi_consistent K A wq' ow m2 None"
    by (rule lock_timeout_ok [OF sys t q, of notified]) (rule that)
  have "m2 = m'" using m2(1) sec by simp
  then show ?thesis
    using m2(3) [OF A] exact exact_iff [OF sys_okD(1) [OF sys]] exact_iff [OF sys_okD(1) [OF m2(2)]] by simp
qed

lemma exact_unlock:
  assumes sys: "sys_ok K live maxp Q A wq ow m" and u: "MutexQueue u \<in> Q"
    and exact: "priorities_exact K A m" and A: "finite A" "card A \<le> 16"
    and sec: "unlock_section K t u m = Some (r, m')"
  shows "priorities_exact K A m'"
proof (cases "m_owner (mx m u) = Some t \<and> lock_count (mx m u) \<noteq> 0")
  case False
  then have "m' = m" using sec by (auto simp: unlock_section_def split: if_splits)
  then show ?thesis using exact by simp
next
  case own: True
  show ?thesis
  proof (cases "lock_count (mx m u) = 1")
    case True
    obtain m2 wq' where m2: "unlock_section K t u m = Some (0, m2)"
      "sys_ok K live maxp Q A wq' (ow(t := remove1 u (ow t))) m2"
      "finite A \<Longrightarrow> card A \<le> 16 \<Longrightarrow> pi_consistent K A wq ow m None \<Longrightarrow>
       pi_consistent K A wq' (ow(t := remove1 u (ow t))) m2 None"
      by (rule unlock_release_ok [OF sys u _ True]) (use own that in auto)
    have "m2 = m'" using m2(1) sec by simp
    then show ?thesis
      using m2(3) [OF A] exact exact_iff [OF sys_okD(1) [OF sys]] exact_iff [OF sys_okD(1) [OF m2(2)]] by simp
  next
    case False
    then have "lock_count (mx m u) - 1 > 0" using own by (simp add: word_neq_0_conv [symmetric])
    then have m': "m' = upd_mx u (\<lambda>M. M\<lparr>lock_count := lock_count M - 1\<rparr>) m"
      using unlock_nested_ok(1) [OF sys u] own sec by simp
    have "waits_on m' s = waits_on m s" for s by (simp add: waits_on_def m' split: option.split)
    then show ?thesis by (intro exact_same_task [OF exact]) (simp_all add: m' same_task_def)
  qed
qed

text \<open>Wait queues that are not mutexes.\<close>

lemma exact_block:
  assumes sys: "sys_ok K live maxp Q A wq ow m" and t: "t \<in> A" "wait_q (th m t) = None" and i: "PlainQueue i \<in> Q"
    and exact: "priorities_exact K A m" and sec: "waitq_block_section K (PlainQueue i) t m = Some m'"
  shows "priorities_exact K A m'"
proof -
  obtain h where "waitq_block_section K (PlainQueue i) t m = Some (upd_th t (block_update (PlainQueue i)) m\<lparr>waits := h\<rparr>)"
    by (rule block_ok [OF sys t i]) (rule that)
  then have m': "m' = upd_th t (block_update (PlainQueue i)) m\<lparr>waits := h\<rparr>" using sec by simp
  have "waits_on m' s = waits_on m s" for s
    by (rule waits_on_cong) (simp_all add: m' block_update_def)
  then show ?thesis by (intro exact_same_task [OF exact]) (simp_all add: m' same_task_def block_update_def)
qed

lemma exact_unblock:
  assumes sys: "sys_ok K live maxp Q A wq ow m" and t: "t \<in> A"
    and w: "wait_q (th m t) = None \<or> wait_q (th m t) = Some (PlainQueue i)"
    and exact: "priorities_exact K A m" and sec: "waitq_wake_section t result v m = Some (r, m')"
  shows "priorities_exact K A m'"
proof -
  have same: "priorities_exact K A m'" if m': "m' = upd_th t f (m\<lparr>waits := h\<rparr>)" and
    f: "same_task (f (th m t)) (th m t)" "waiting_mutex (f (th m t)) = waiting_mutex (th m t)" for f h
  proof -
    have "waits_on m' s = waits_on m s" for s by (rule waits_on_cong) (simp_all add: m' f)
    then show ?thesis by (intro exact_same_task [OF exact]) (simp_all add: m' f same_task_def, use f in \<open>simp_all add: same_task_def\<close>)
  qed
  from w show ?thesis
  proof
    assume n: "wait_q (th m t) = None"
    have m': "m' = upd_th t (notified_update v) (m\<lparr>waits := waits m\<rparr>)"
      using block_woken_ok(1) [OF sys t n, of result v] sec by simp
    show ?thesis by (rule same [OF m']) (simp_all add: notified_update_def same_task_def)
  next
    assume q: "wait_q (th m t) = Some (PlainQueue i)"
    obtain h where "waitq_wake_section t result v m = Some (- ETIMEDOUT, upd_th t timeout_update (m\<lparr>waits := h\<rparr>))"
      by (rule block_timeout_ok [OF sys t q, of result v]) (rule that)
    then have m': "m' = upd_th t timeout_update (m\<lparr>waits := h\<rparr>)" using sec by simp
    show ?thesis by (rule same [OF m']) (simp_all add: timeout_update_def same_task_def)
  qed
qed

lemma exact_wakes:
  assumes sys: "sys_ok K live maxp Q A wq ow m" and i: "PlainQueue i \<in> Q" and exact: "priorities_exact K A m"
  shows "wake_one_section K isr (PlainQueue i) v m = Some (b, m') \<Longrightarrow> priorities_exact K A m'"
    and "wake_all_loop K isr (PlainQueue i) v False m = Some (b, m') \<Longrightarrow> priorities_exact K A m'"
proof -
  have same: "priorities_exact K A m2"
    if "mx m2 = mx m" "tprio K m2 = tprio K m" "\<And>s. th m2 s = th m s \<or> th m2 s = wake_update v (th m s)" for m2
  proof (rule exact_same [OF exact])
    fix s
    show "base_priority (th m2 s) = base_priority (th m s)" using that(3) [of s] by (auto simp: wake_update_def)
    show "waits_on m2 s = waits_on m s"
      by (rule waits_on_cong) (use that(1) that(3) [of s] in \<open>auto simp: wake_update_def\<close>)
    show "tprio K m2 s = tprio K m s" by (rule fun_cong [OF that(2)])
  qed
  show "priorities_exact K A m'" if sec: "wake_one_section K isr (PlainQueue i) v m = Some (b, m')"
  proof -
    obtain b2 m2 where r: "wake_one_section K isr (PlainQueue i) v m = Some (b2, m2)" "mx m2 = mx m"
      "th m2 = (case wq (PlainQueue i) of [] \<Rightarrow> th m | t # _ \<Rightarrow> (th m)(t := wake_update v (th m t)))"
      "tprio K m2 = tprio K m"
      by (rule wake_one_ok [OF sys i, of isr v]) (rule that)
    have "m2 = m'" using r(1) sec by simp
    then show ?thesis using same [OF r(2,4)] r(3) by (simp split: list.splits)
  qed
  show "priorities_exact K A m'" if sec: "wake_all_loop K isr (PlainQueue i) v False m = Some (b, m')"
  proof -
    obtain b2 m2 where r: "wake_all_loop K isr (PlainQueue i) v False m = Some (b2, m2)" "mx m2 = mx m"
      "th m2 = (\<lambda>s. if s \<in> set (wq (PlainQueue i)) then wake_update v (th m s) else th m s)"
      "tprio K m2 = tprio K m"
      using wake_all_loop_ok [OF sys i, of isr v False] by blast
    have "m2 = m'" using r(1) sec by simp
    then show ?thesis using same [OF r(2,4)] r(3) by simp
  qed
qed

text \<open>Threads changing priority or leaving.\<close>

lemma exact_set_priority:
  assumes sys: "sys_ok K live maxp Q A wq ow m" and t: "t \<in> A" and p: "0 \<le> p" "p < int maxp"
    and exact: "priorities_exact K A m" and A: "finite A" "card A \<le> 16"
    and sec: "set_priority_section K t p m = Some m'"
  shows "priorities_exact K A m'"
proof -
  obtain m2 wq' where m2: "set_priority_section K t p m = Some m2" "sys_ok K live maxp Q A wq' ow m2"
    "finite A \<Longrightarrow> card A \<le> 16 \<Longrightarrow> pi_consistent K A wq ow m None \<Longrightarrow> pi_consistent K A wq' ow m2 None"
    by (rule set_priority_ok [OF sys t p]) (rule that)
  have "m2 = m'" using m2(1) sec by simp
  then show ?thesis
    using m2(3) [OF A] exact exact_iff [OF sys_okD(1) [OF sys]] exact_iff [OF sys_okD(1) [OF m2(2)]] by simp
qed

lemma exact_abort:
  assumes sys: "sys_ok K live maxp Q A wq ow m" and t: "t \<in> A"
    and exact: "priorities_exact K A m" and A: "finite A" "card A \<le> 16"
    and sec: "abort_section K t m = Some (Inr x, m')"
  shows "priorities_exact K (A - {t}) m'"
proof -
  have run: "\<not> completed (th m t)" and empty: "sys_dlist_is_empty (OwnedList t) (owned m)"
    using sec by (auto simp: abort_section_def split: if_splits)
  have "dlist_rep (owned m) (OwnedList t) (map OwnerNode (ow t))"
    using lists_ok_owned [OF sys_okD(1) [OF sys]] t by (simp add: dlists_rep_def)
  then have free: "ow t = []" using empty sys_dlist_is_empty_rep by fastforce
  obtain m2 wq' where m2:
    "abort_section K t m = Some (Inr (t_handle (th m t), completion_handle (th m t)), m2)"
    "sys_ok K live maxp Q A wq' ow m2" "th m2 = (th m)(t := abort_update (th m t))"
    "finite A \<Longrightarrow> card A \<le> 16 \<Longrightarrow> pi_consistent K A wq ow m None \<Longrightarrow> pi_consistent K A wq' ow m2 None"
    by (rule abort_ok [OF sys t run free]) (rule that)
  have eq: "m2 = m'" using m2(1) sec by simp
  have "priorities_exact K A m'"
    using m2(4) [OF A] exact exact_iff [OF sys_okD(1) [OF sys]] exact_iff [OF sys_okD(1) [OF m2(2)]] eq by simp
  then show ?thesis
    by (rule exact_leave) (use m2(3) eq in \<open>simp add: waits_on_def abort_update_def\<close>)
qed

lemma exact_exit:
  assumes sys: "sys_ok K live maxp Q A wq ow m" and t: "t \<in> A" "wait_q (th m t) = None"
    and exact: "priorities_exact K A m"
  shows "priorities_exact K (A - {t}) (exit_section t m)"
proof (rule exact_leave)
  have on: "waits_on (exit_section t m) s = waits_on m s" for s
    by (rule waits_on_cong) (simp_all add: exit_section_def)
  then show "priorities_exact K A (exit_section t m)"
    by (intro exact_same_task [OF exact]) (simp_all add: exit_section_def same_task_def)
  show "waits_on (exit_section t m) t = None"
    using on idle_waits_nobody(2) [OF sys_okD(1) [OF sys] t] by simp
qed

end

context fr_kernel_create
begin

lemma exact_create:
  assumes sys: "sys_ok K live maxp Q A wq ow m" and t: "t \<notin> A" and exact: "priorities_exact K A m"
    and p: "0 \<le> prio" "prio < int maxp" and sz: "sz \<noteq> 0"
    and call: "os_thread_create K (Some t) (Some n) stack sz (Some f) p1 p2 p3 prio opts m = (r, m')"
  shows "priorities_exact K (if r = 0 then insert t A else A) m'"
proof -
  note ok = sys_okD(1) [OF sys]
  note c = thread_create_spec(1) [OF p call sz, unfolded created_def]
  have th: "th m' s = th m s" if "s \<in> A" for s using c that t by auto
  have waits: "waits m' a = waits m a" if "a \<noteq> WaitNode t" for a using c that by (simp add: init_other)
  have owned: "owned m' a = owned m a" if "a \<noteq> OwnedList t" for a using c that by (simp add: init_other)
  have notin: "t \<notin> set (wq q)" if "q \<in> Q" for q
    using waits_agreeD(1) [OF lists_ok_waits_agree [OF ok] that] t by blast
  have w: "dlists_rep WaitList WaitNode Q wq (waits m')"
    by (rule waits.dlists_frame [OF lists_ok_waits [OF ok]]; rule waits) (use notin in auto)
  have o: "dlists_rep OwnedList OwnerNode A ow (owned m')"
    by (rule owned.dlists_frame [OF lists_ok_owned [OF ok]]; rule owned) (use t in auto)
  have tp: "tprio K m' s = tprio K m s" if "s \<in> A" for s
    by (rule sys_ok_outside(2) [OF sys th _ w o _ that]) (use c in simp_all)
  have on: "waits_on m' s = waits_on m s" if "s \<in> A" for s
    by (rule waits_on_cong) (use c th [OF that] in simp_all)
  have old: "priorities_exact K A m'"
    by (rule exact_same [OF exact _ tp on]) (simp add: th)
  show ?thesis
  proof (cases "r = 0")
    case True
    have new: "waits_on m' t = None" using c by (simp add: waits_on_def)
    have nobody: "waits_on m' s \<noteq> Some t" if "s \<in> A" for s
    proof
      assume "waits_on m' s = Some t"
      then have "waits_on m s = Some t" using on [OF that] by simp
      then show False using chain_in_threads [OF ok, of "Some s" "Suc (Suc 0)"] that t by simp
    qed
    have "priorities_exact K (insert t A) m'"
      unfolding priorities_exact_def
    proof
      fix s assume s: "s \<in> insert t A"
      show "tprio K m' s = inherited_priority K (insert t A) m' s"
      proof (cases "s = t")
        case True
        have none: "{x \<in> insert t A. waits_on m' x = Some t} = {}" using new nobody by auto
        have "inherited_priority K (insert t A) m' t = prio"
          unfolding inherited_priority_def none using c by simp
        then show ?thesis using thread_create_spec(4) [OF p call sz \<open>r = 0\<close>] True by simp
      next
        case False
        have "inherited_priority K (insert t A) m' s = inherited_priority K A m' s"
          by (rule inherited_priority_cong) (use new in auto)
        then show ?thesis using old s False by (simp add: priorities_exact_def)
      qed
    qed
    then show ?thesis using True by simp
  qed (use old in simp)
qed

end

section \<open>Every step but one keeps the priorities exact\<close>

lemma exact_init:
  assumes ok: "lists_ok live maxp Q A wq ow m" and exact: "priorities_exact K A m"
  shows "priorities_exact K A (os_waitq_init q m)"
    and "MutexQueue u \<notin> Q \<Longrightarrow> priorities_exact K A (os_mutex_init (Some u) m)"
proof -
  have "waits_on (os_waitq_init q m) s = waits_on m s" for s
    by (rule waits_on_cong) (simp_all add: os_waitq_init_def split: option.split)
  then show "priorities_exact K A (os_waitq_init q m)"
    by (intro exact_same_task [OF exact]) (simp_all add: os_waitq_init_def same_task_def split: option.split)
  assume new: "MutexQueue u \<notin> Q"
  have same: "th (os_mutex_init (Some u) m) = th m" "kern (os_mutex_init (Some u) m) = kern m"
      "mx (os_mutex_init (Some u) m) = (mx m)(u := os_mutex_zero\<lparr>m_initialized := True\<rparr>)"
    by (simp_all add: os_mutex_init_def os_waitq_init_def mutex_clear_def)
  have "waits_on (os_mutex_init (Some u) m) s = waits_on m s" if "s \<in> A" for s
  proof -
    have "waiting_mutex (th m s) \<noteq> Some u"
      using waits_agreeD(3,4) [OF lists_ok_waits_agree [OF ok] that] new by blast
    then show ?thesis by (auto simp: waits_on_def same split: option.split)
  qed
  then show "priorities_exact K A (os_mutex_init (Some u) m)"
    by (intro exact_same_task [OF exact]) (simp_all add: same same_task_def)
qed

lemma exact_deinit:
  assumes sys: "sys_ok K live maxp Q A wq ow m" and u: "MutexQueue u \<in> Q" and exact: "priorities_exact K A m"
    and ret: "os_mutex_deinit isr (Some u) m = (0, m')"
  shows "priorities_exact K A m'"
proof -
  note d = mutex_deinit_ok [OF sys u ret]
  have "waits_on m' s = waits_on m s" for s
    using d(3) by (auto simp: waits_on_def d(2) mutex_clear_def os_mutex_zero_def split: option.split)
  then show ?thesis
    by (intro exact_same_task [OF exact]) (simp_all add: d(2) mutex_clear_def same_task_def)
qed

lemma exact_other:
  assumes sys: "sys_ok K live maxp Q A wq ow m" and exact: "priorities_exact K A m"
    and th: "\<forall>t \<in> A. th m' t = th m t"
    and same: "mx m' = mx m" "waits m' = waits m" "owned m' = owned m"
    and kern: "kernel_same K live (kern m) (kern m')"
  shows "priorities_exact K A m'"
proof (rule exact_same [OF exact])
  note ok = sys_okD(1) [OF sys]
  fix t assume t: "t \<in> A"
  show "base_priority (th m' t) = base_priority (th m t)" using th t by simp
  show "tprio K m' t = tprio K m t"
    by (rule sys_ok_outside(2) [OF sys _ _ _ _ kern t])
      (use th same lists_okD [OF ok] in simp_all)
  show "waits_on m' t = waits_on m t" by (rule waits_on_cong) (use th t same in simp_all)
qed

text \<open>A step that takes a free mutex although threads wait for it.\<close>

definition barges :: "('h, 's, 'k) fr_config \<Rightarrow> ('h, 's, 'k) fr_config \<Rightarrow> bool" where
  "barges c c' \<longleftrightarrow>
     (\<exists>u w. MutexQueue u \<in> c_queues c \<and> m_owner (mx (c_mem c) u) = None \<and> m_owner (mx (c_mem c') u) \<noteq> None
        \<and> w \<in> c_threads c \<and> wait_q (th (c_mem c) w) = Some (MutexQueue u))"

lemma lock_free_takes:
  "lock_section K t u timeout start m = Some (LockReturns r, m') \<Longrightarrow> m_owner (mx m u) = None \<Longrightarrow>
   m_owner (mx m' u) \<noteq> None"
  by (auto simp: lock_section_def Let_def bind_eq_Some_conv)

text \<open>C26: Priority inheritance is exact. If every thread runs at the maximum of its base priority
  and the current priorities of the threads waiting for a mutex it owns, then it does so after any
  step of a system of at most sixteen threads, whichever chain of owners the step affects, unless
  the step gives a free mutex to a thread while others still wait for it.\<close>

theorem fr_inheritance_exact:
  assumes kernel: "fr_kernel_create K live maxp" and reach: "fr_reach K live maxp c"
    and exact: "priorities_exact K (c_threads c) (c_mem c)"
    and few: "finite (c_threads c)" "card (c_threads c) \<le> 16"
    and step: "fr_step K live maxp c c'" and fair: "\<not> barges c c'"
  shows "priorities_exact K (c_threads c') (c_mem c')"
proof -
  obtain wq ow where sys: "sys_ok K live maxp (c_queues c) (c_threads c) wq ow (c_mem c)"
    and pc: "\<And>t. t \<in> c_threads c \<Longrightarrow> pc_ok (c_queues c) (wait_q (th (c_mem c) t)) (c_pc c t)"
    by (rule fr_invE [OF fr_kernel_create.fr_reach_inv [OF kernel reach]]) blast
  have fk: "fr_kernel K live maxp" by (rule fr_kernel_create.axioms(1) [OF kernel])
  note ok = sys_okD(1) [OF sys]
  from step show ?thesis
  proof cases
    case (lock_returns t u timeout start r m)
    have "m_owner (mx (c_mem c) u) = None \<Longrightarrow> \<forall>s \<in> c_threads c. wait_q (th (c_mem c) s) \<noteq> Some (MutexQueue u)"
      using fair lock_free_takes [OF lock_returns(5)] pc [OF lock_returns(2)] lock_returns(1,3)
      by (auto simp: barges_def)
    then show ?thesis
      using fr_kernel.exact_lock_returns [OF fk sys lock_returns(2) _ _ exact _ lock_returns(5)]
        pc [OF lock_returns(2)] lock_returns(1,3) by simp
  next
    case (lock_waits t u timeout start remaining m)
    then show ?thesis
      using fr_kernel.exact_lock_waits [OF fk sys lock_waits(2) _ _ exact few lock_waits(4)]
        pc [OF lock_waits(2)] by simp
  next
    case (lock_gives_up t u timeout start notified r m)
    then show ?thesis
      using fr_kernel.exact_lock_wakes [OF fk sys lock_gives_up(2) _ exact few lock_gives_up(4)]
        pc [OF lock_gives_up(2)] by simp
  next
    case (lock_retries t u timeout start notified m)
    then show ?thesis
      using fr_kernel.exact_lock_wakes [OF fk sys lock_retries(2) _ exact few lock_retries(4)]
        pc [OF lock_retries(2)] by simp
  next
    case (unlock t u r m)
    then show ?thesis using fr_kernel.exact_unlock [OF fk sys unlock(4) exact few unlock(5)] by simp
  next
    case (block t i m)
    then show ?thesis
      using fr_kernel.exact_block [OF fk sys block(2) _ block(4) exact block(5)] pc [OF block(2)] by simp
  next
    case (unblock t i result v r m)
    then show ?thesis
      using fr_kernel.exact_unblock [OF fk sys unblock(2) _ exact unblock(4), of i] pc [OF unblock(2)] by simp
  next
    case (wake_one i isr v b m)
    then show ?thesis using fr_kernel.exact_wakes(1) [OF fk sys wake_one(2) exact wake_one(3)] by simp
  next
    case (wake_all i isr v b m)
    then show ?thesis using fr_kernel.exact_wakes(2) [OF fk sys wake_all(2) exact wake_all(3)] by simp
  next
    case (set_priority t p m)
    then show ?thesis
      using fr_kernel.exact_set_priority [OF fk sys set_priority(2-4) exact few set_priority(5)] by simp
  next
    case (abort t x m)
    then show ?thesis using fr_kernel.exact_abort [OF fk sys abort(2) exact few abort(3)] by simp
  next
    case (exit t)
    then show ?thesis using fr_kernel.exact_exit [OF fk sys exit(2) _ exact] pc [OF exit(2)] by simp
  next
    case (create t prio sz n stack f p1 p2 p3 opts r m)
    then show ?thesis using fr_kernel_create.exact_create [OF kernel sys create(2) exact create(3-6)] by simp
  next
    case (init_waitq i)
    then show ?thesis using exact_init(1) [OF ok exact] by simp
  next
    case (init_mutex u)
    then show ?thesis using exact_init(2) [OF ok exact] by simp
  next
    case (deinit_mutex u isr m)
    then show ?thesis using exact_deinit [OF sys deinit_mutex(2) exact deinit_mutex(4)] by simp
  next
    case (other m)
    then show ?thesis using exact_other [OF sys exact other(2-6)] by simp
  qed (use exact in simp)
qed

theorem fr_inheritance_exact_witness:
  "\<exists>c c'. fr_reach ref_tasks ref_live 32 c \<and> fr_step ref_tasks ref_live 32 c c'
     \<and> tprio ref_tasks (c_mem c) 0 = 5 \<and> tprio ref_tasks (c_mem c') 0 = 10"
proof -
  obtain c c' where r: "fr_reach ref_tasks ref_live 32 c" "fr_step ref_tasks ref_live 32 c c'"
    and c: "c_threads c = {0, 1}" "c_queues c = {MutexQueue 0}" "m_owner (mx (c_mem c) 0) = Some 0"
      "th (c_mem c) = th demo_threads" "kern (c_mem c) = kern demo_threads"
    and c': "c_threads c' = {0, 1}" "m_owner (mx (c_mem c') 0) = Some 0"
      "th (c_mem c') = (th demo_threads)(1 := lock_wait_update 0 (th demo_threads 1))"
    by (rule demo_waits) (rule that)
  have prio: "tprio ref_tasks (c_mem c) 0 = 5" "tprio ref_tasks (c_mem c) (Suc 0) = 10"
    by (simp_all add: tprio_def c ref_tasks_def)
  have "waits_on (c_mem c) 0 = None" "waits_on (c_mem c) 1 = None"
    by (simp_all add: waits_on_def c os_thread_zero_def)
  then have "waits_on (c_mem c) s \<noteq> Some t" if "s \<in> {0, 1}" for s t
    using that by (elim insertE) simp_all
  then have none: "{s \<in> {0, 1}. waits_on (c_mem c) s = Some t} = {}" for t by blast
  have exact: "priorities_exact ref_tasks (c_threads c) (c_mem c)"
    unfolding priorities_exact_def inherited_priority_def c(1) none by (simp add: prio) (simp add: c)
  have "\<not> barges c c'" by (simp add: barges_def c)
  then have "priorities_exact ref_tasks (c_threads c') (c_mem c')"
    using fr_inheritance_exact [OF ref_tasks_create r(1) exact _ _ r(2)] by (simp add: c)
  then have exact': "tprio ref_tasks (c_mem c') t = inherited_priority ref_tasks {0, 1} (c_mem c') t" if "t \<in> {0, 1}" for t
    unfolding priorities_exact_def c' by (rule bspec [OF _ that])
  have on: "waits_on (c_mem c') 0 = None" "waits_on (c_mem c') 1 = Some 0"
    by (simp_all add: waits_on_def c' os_thread_zero_def lock_wait_update_def)
  have sets: "{s \<in> {0, 1}. waits_on (c_mem c') s = Some 0} = {1}"
      "{s \<in> {0, 1}. waits_on (c_mem c') s = Some 1} = {}"
  proof -
    have no: "waits_on (c_mem c') s \<noteq> Some 1" if "s \<in> {0, 1}" for s
      using that on by (elim insertE) simp_all
    show "{s \<in> {0, 1}. waits_on (c_mem c') s = Some 1} = {}" using no by blast
    have "s = 1" if "s \<in> {0, 1}" "waits_on (c_mem c') s = Some 0" for s
      using that on by (elim insertE) simp_all
    then show "{s \<in> {0, 1}. waits_on (c_mem c') s = Some 0} = {1}" using on by blast
  qed
  have "tprio ref_tasks (c_mem c') 1 = 10"
    using exact' [of 1] unfolding inherited_priority_def sets by (simp add: c' lock_wait_update_def)
  then have "tprio ref_tasks (c_mem c') 0 = 10"
    using exact' [of 0] unfolding inherited_priority_def sets by (simp add: c' lock_wait_update_def)
  then show ?thesis using r prio by blast
qed

end
