(* ===== verification/Mutex_Races.thy ===== *)
theory Mutex_Races
  imports Mutex_Inheritance
begin

text \<open>
  Orders of calls under which the FreeRTOS mutexes give less than a caller expects: a mutex taken
  past its waiters leaves them above their new owner, a thread aborted after an unlock woke it
  takes the wake-up with it, and a long chain of owners is reported as a deadlock.
\<close>

text \<open>
  An unlock frees the mutex and wakes its first waiter, but until that thread runs anybody may
  take the mutex. The new owner is not given the priority of the threads still waiting.
\<close>

lemma barging_skips_inheritance:
  assumes kernel: "fr_kernel_create K live maxp" and reach: "fr_reach K live maxp c"
    and t: "t \<in> c_threads c" "c_pc c t = Locking u timeout start" "m_owner (mx (c_mem c) u) = None"
    and w: "w \<in> c_threads c" "wait_q (th (c_mem c) w) = Some (MutexQueue u)"
    and prio: "tprio K (c_mem c) t < tprio K (c_mem c) w"
  shows "\<exists>m. lock_section K t u timeout start (c_mem c) = Some (LockReturns 0, m)
     \<and> waits_on m w = Some t \<and> tprio K m t < tprio K m w"
proof -
  obtain wq ow where sys: "sys_ok K live maxp (c_queues c) (c_threads c) wq ow (c_mem c)"
    and pc: "\<And>t. t \<in> c_threads c \<Longrightarrow> pc_ok (c_queues c) (wait_q (th (c_mem c) t)) (c_pc c t)"
    by (rule fr_invE [OF fr_kernel_create.fr_reach_inv [OF kernel reach]]) blast
  have idle: "wait_q (th (c_mem c) t) = None" and u: "MutexQueue u \<in> c_queues c"
    using pc [OF t(1)] t(2) by simp_all
  have wm: "waiting_mutex (th (c_mem c) w) = Some u"
    using waits_agreeD(4) [OF lists_ok_waits_agree [OF sys_okD(1) [OF sys]] w(1), of u] w(2) by simp
  let ?m = "\<lambda>h. upd_mx u (\<lambda>M. M\<lparr>m_owner := Some t, lock_count := 1\<rparr>) (c_mem c)\<lparr>owned := h\<rparr>"
  obtain h where h: "lock_section K t u timeout start (c_mem c) = Some (LockReturns 0, ?m h)"
    by (rule lock_acquire_ok [OF sys t(1) idle u t(3), of timeout start]) (rule that)
  have "tprio K (?m h) s = tprio K (c_mem c) s" for s by (rule tprio_cong) simp_all
  moreover have "waits_on (?m h) w = Some t" using wm by (simp add: waits_on_def)
  ultimately show ?thesis using h prio by simp
qed

text \<open>
  Aborting a thread that an unlock has taken off the queue touches neither the mutex nor its
  queue and notifies nobody, so the threads still in the queue of the free mutex sleep on.
\<close>

lemma abort_passes_no_wakeup:
  assumes "wait_q (th m t) = None" and "abort_section K t m = Some (Inr x, m')"
  shows "mx m' = mx m \<and> waits m' = waits m \<and> kern m' = kern m
     \<and> (\<forall>s. s \<noteq> t \<longrightarrow> th m' s = th m s)"
  using assms by (auto simp: abort_section_def abort_unqueue_def split: if_splits)

text \<open>
  The deadlock test answers exactly: the caller is among the first sixteen threads of the chain of
  owners, or the chain is longer than that. A chain of more than sixteen owners that never comes
  back to the caller is refused as a deadlock.
\<close>

lemma long_chain_refused:
  assumes long: "\<not> chain_ends m 16 (m_owner (mx m u))"
    and call: "m_owner (mx m u) = Some own" "own \<noteq> t" "timeout \<noteq> 0"
  shows "lock_section K t u timeout start m = Some (LockReturns (- EDEADLK), m)"
proof -
  have "os_mutex_would_deadlock_locked t u m"
    using long by (simp add: os_mutex_would_deadlock_locked_def would_deadlock_iff OS_PI_MAX_CHAIN_DEPTH_def)
  then show ?thesis using call by (simp add: lock_section_def)
qed

end
