(* ===== verification/Thread_Lifecycle.thy ===== *)
theory Thread_Lifecycle
  imports Thread_FreeRTOS
begin

text \<open>
  The end of a FreeRTOS thread: its exit path and any number of clients inside \<open>os_thread_join\<close>,
  \<open>os_thread_delete\<close> and \<open>os_thread_cancel\<close>, one critical section or semaphore operation at a
  time. The completion semaphore is a token and whether it still exists; \<open>l_deleted\<close> counts its
  deletions.
\<close>

section \<open>Steps\<close>

text \<open>The target runs, has passed \<open>exit_section\<close>, has given the semaphore, has signalled.\<close>

datatype lc_target = TRunning | TCompleted | TGave | TSignaled

text \<open>A client waits for the semaphore, is entitled to reap, or is about to delete the semaphore.\<close>

datatype lc_client = CIdle | CWaiting | CReaping | CDeleting

record ('h, 's, 'k) lc_config =
  l_mem :: "('h, 's, 'k) osal"
  l_target :: lc_target
  l_client :: "nat \<Rightarrow> lc_client"
  l_token :: bool
  l_alive :: bool
  l_deleted :: nat

inductive lc_step :: "nat \<Rightarrow> ('h, 's, 'k) lc_config \<Rightarrow> ('h, 's, 'k) lc_config \<Rightarrow> bool" for t where
  exits: "l_target c = TRunning \<Longrightarrow>
    lc_step t c (c\<lparr>l_mem := exit_section t (l_mem c), l_target := TCompleted\<rparr>)"
| gives: "l_target c = TCompleted \<Longrightarrow> completion_handle (th (l_mem c) t) \<noteq> None \<Longrightarrow> l_alive c \<Longrightarrow>
    lc_step t c (c\<lparr>l_target := TGave, l_token := True\<rparr>)"
| signals: "l_target c = TGave \<Longrightarrow>
    lc_step t c (c\<lparr>l_mem := signal_section t (l_mem c), l_target := TSignaled\<rparr>)"
| join_refused: "l_client c i = CIdle \<Longrightarrow> join_section t (l_mem c) = (Inl r, m) \<Longrightarrow>
    lc_step t c (c\<lparr>l_mem := m\<rparr>)"
| join_waits: "l_client c i = CIdle \<Longrightarrow> join_section t (l_mem c) = (Inr s, m) \<Longrightarrow>
    lc_step t c (c\<lparr>l_mem := m, l_client := (l_client c)(i := CWaiting)\<rparr>)"
| join_takes: "l_client c i = CWaiting \<Longrightarrow> l_token c \<Longrightarrow> l_alive c \<Longrightarrow>
    lc_step t c (c\<lparr>l_client := (l_client c)(i := CReaping), l_token := False\<rparr>)"
| join_gives_up: "l_client c i = CWaiting \<Longrightarrow>
    lc_step t c (c\<lparr>l_mem := join_cancel_section t (l_mem c), l_client := (l_client c)(i := CIdle)\<rparr>)"
| delete_refused: "l_client c i = CIdle \<Longrightarrow> delete_section t (l_mem c) = (Some r, m) \<Longrightarrow>
    lc_step t c (c\<lparr>l_mem := m\<rparr>)"
| delete_claims: "l_client c i = CIdle \<Longrightarrow> delete_section t (l_mem c) = (None, m) \<Longrightarrow>
    lc_step t c (c\<lparr>l_mem := m, l_client := (l_client c)(i := CReaping)\<rparr>)"
| reaps: "l_client c i = CReaping \<Longrightarrow> reap_section t (l_mem c) = (Some s, m) \<Longrightarrow>
    lc_step t c (c\<lparr>l_mem := m, l_client := (l_client c)(i := CDeleting)\<rparr>)"
| reaps_nothing: "l_client c i = CReaping \<Longrightarrow> reap_section t (l_mem c) = (None, m) \<Longrightarrow>
    lc_step t c (c\<lparr>l_mem := m, l_client := (l_client c)(i := CIdle)\<rparr>)"
| deletes: "l_client c i = CDeleting \<Longrightarrow>
    lc_step t c (c\<lparr>l_client := (l_client c)(i := CIdle), l_alive := False, l_deleted := l_deleted c + 1\<rparr>)"
| cancels: "cancel_request_section t (l_mem c) = (r, m) \<Longrightarrow> lc_step t c (c\<lparr>l_mem := m\<rparr>)"

text \<open>After \<open>os_thread_create\<close> returned 0.\<close>

definition lc_start :: "nat \<Rightarrow> ('h, 's, 'k) lc_config \<Rightarrow> bool" where
  "lc_start t c \<longleftrightarrow>
     completion_handle (th (l_mem c) t) \<noteq> None \<and> \<not> completed (th (l_mem c) t)
     \<and> \<not> completion_signaled (th (l_mem c) t) \<and> \<not> completion_reaped (th (l_mem c) t)
     \<and> \<not> join_active (th (l_mem c) t) \<and> l_target c = TRunning \<and> l_client c = (\<lambda>_. CIdle)
     \<and> \<not> l_token c \<and> l_alive c \<and> l_deleted c = 0"

inductive lc_reach :: "nat \<Rightarrow> ('h, 's, 'k) lc_config \<Rightarrow> bool" for t where
  start: "lc_start t c \<Longrightarrow> lc_reach t c"
| step: "lc_reach t c \<Longrightarrow> lc_step t c c' \<Longrightarrow> lc_reach t c'"

section \<open>Invariant\<close>

definition lc_flags_ok :: "('h, 's) os_thread \<Rightarrow> ('h, 's, 'k) lc_config \<Rightarrow> bool" where
  "lc_flags_ok T c \<longleftrightarrow>
     (completed T \<longleftrightarrow> l_target c \<noteq> TRunning) \<and> (completion_signaled T \<longleftrightarrow> l_target c = TSignaled)
     \<and> (completion_handle T = None \<longleftrightarrow> completion_reaped T)
     \<and> (l_target c = TRunning \<or> l_target c = TCompleted \<longrightarrow> \<not> l_token c \<and> \<not> completion_reaped T)"

definition lc_clients_ok :: "('h, 's) os_thread \<Rightarrow> ('h, 's, 'k) lc_config \<Rightarrow> bool" where
  "lc_clients_ok T c \<longleftrightarrow>
     (\<forall>i j. l_client c i \<noteq> CIdle \<longrightarrow> l_client c j \<noteq> CIdle \<longrightarrow> i = j)
     \<and> (join_active T \<longleftrightarrow> (\<exists>i. l_client c i = CWaiting \<or> l_client c i = CReaping))
     \<and> (\<forall>i. l_client c i = CReaping \<longrightarrow> l_target c = TGave \<or> l_target c = TSignaled)
     \<and> (join_active T \<longrightarrow> \<not> completion_reaped T)
     \<and> (\<forall>i. l_client c i = CDeleting \<longrightarrow> completion_reaped T)
     \<and> (l_alive c \<longleftrightarrow> \<not> completion_reaped T \<or> (\<exists>i. l_client c i = CDeleting))
     \<and> l_deleted c = (if l_alive c then 0 else 1)"

definition lc_inv :: "nat \<Rightarrow> ('h, 's, 'k) lc_config \<Rightarrow> bool" where
  "lc_inv t c \<longleftrightarrow> lc_flags_ok (th (l_mem c) t) c \<and> lc_clients_ok (th (l_mem c) t) c"

lemmas lc_defs = exit_section_def signal_section_def join_section_def join_cancel_section_def
  delete_section_def reap_section_def cancel_request_section_def upd_th_def

lemma lc_inv_start: "lc_start t c \<Longrightarrow> lc_inv t c"
  by (simp add: lc_inv_def lc_flags_ok_def lc_clients_ok_def lc_start_def)

lemma lc_inv_step:
  assumes "lc_inv t c" "lc_step t c c'"
  shows "lc_flags_ok (th (l_mem c') t) c'"
  using assms(2,1)
  by (cases rule: lc_step.cases)
    (auto simp: lc_inv_def lc_flags_ok_def lc_clients_ok_def lc_defs split: option.splits if_splits)

lemma lc_clients_claim:
  assumes ok: "lc_clients_ok T c" and idle: "l_client c i = CIdle" and T: "\<not> join_active T" "\<not> completion_reaped T"
    and new: "p = CWaiting \<or> p = CReaping \<and> (l_target c = TGave \<or> l_target c = TSignaled)"
    and c': "l_client c' = (l_client c)(i := p)" "l_target c' = l_target c" "l_alive c' = l_alive c"
      "l_deleted c' = l_deleted c"
    and T': "join_active T'" "\<not> completion_reaped T'"
  shows "lc_clients_ok T' c'"
proof -
  have all: "l_client c j = CIdle" for j
    using ok T by (cases "l_client c j") (auto simp: lc_clients_ok_def)
  then show ?thesis
    using ok new c' T T' by (auto simp: lc_clients_ok_def)
qed

lemma lc_clients_release:
  assumes ok: "lc_clients_ok T c" and busy: "l_client c i \<noteq> CIdle"
    and c': "l_client c' = (l_client c)(i := p)"
  shows "l_client c' j = (if j = i then p else CIdle)"
  using ok busy c' by (auto simp: lc_clients_ok_def)

lemma lc_clients_step:
  assumes inv: "lc_inv t c" and step: "lc_step t c c'"
  shows "lc_clients_ok (th (l_mem c') t) c'"
proof -
  let ?T = "th (l_mem c) t"
  have ok: "lc_clients_ok ?T c" and flags: "lc_flags_ok ?T c" using inv by (simp_all add: lc_inv_def)
  from step show ?thesis
  proof cases
    case (join_waits i s m)
    then show ?thesis
      by (intro lc_clients_claim [OF ok join_waits(2), of CWaiting])
        (auto simp: lc_defs split: if_splits option.splits)
  next
    case (delete_claims i m)
    then show ?thesis
      using flags
      by (intro lc_clients_claim [OF ok delete_claims(2), of CReaping])
        (auto simp: lc_defs lc_flags_ok_def split: if_splits)
  next
    case (join_takes i)
    note one = lc_clients_release [OF ok, of i _ CReaping]
    show ?thesis using join_takes ok flags one [of c']
      by (auto simp: lc_clients_ok_def lc_flags_ok_def; cases "l_target c"; simp)
  next
    case (join_gives_up i)
    note one = lc_clients_release [OF ok, of i _ CIdle]
    show ?thesis using join_gives_up ok one [of c'] by (auto simp: lc_clients_ok_def lc_defs)
  next
    case (reaps i s m)
    note one = lc_clients_release [OF ok, of i _ CDeleting]
    show ?thesis using reaps ok one [of c'] by (auto simp: lc_clients_ok_def lc_defs)
  next
    case (reaps_nothing i m)
    then show ?thesis using ok flags by (auto simp: lc_clients_ok_def lc_flags_ok_def lc_defs)
  next
    case (deletes i)
    note one = lc_clients_release [OF ok, of i _ CIdle]
    show ?thesis using deletes ok one [of c'] by (auto simp: lc_clients_ok_def)
  qed (use ok flags in \<open>auto simp: lc_clients_ok_def lc_flags_ok_def lc_defs split: if_splits option.splits\<close>)
qed

lemma lc_reach_inv: "lc_reach t c \<Longrightarrow> lc_inv t c"
proof (induction rule: lc_reach.induct)
  case (start c)
  then show ?case by (rule lc_inv_start)
next
  case (step c c')
  show ?case
    using lc_inv_step [OF step.IH step.hyps(2)] lc_clients_step [OF step.IH step.hyps(2)]
    by (simp add: lc_inv_def)
qed

section \<open>What joiners and deleters may rely on\<close>

text \<open>A run: the thread ends, client 0 joins it.\<close>

definition lc_demo :: "(nat, nat, unit) lc_config" where
  "lc_demo = \<lparr>l_mem = \<lparr>th = (\<lambda>_. os_thread_zero\<lparr>completion_handle := Some 0\<rparr>), mx = (\<lambda>_. os_mutex_zero),
       waits = (\<lambda>_. \<lparr>dn_next = None, dn_prev = None\<rparr>), owned = (\<lambda>_. \<lparr>dn_next = None, dn_prev = None\<rparr>),
       kern = ()\<rparr>,
     l_target = TRunning, l_client = (\<lambda>_. CIdle), l_token = False, l_alive = True, l_deleted = 0\<rparr>"

lemma lc_reach_to: "lc_reach t c \<Longrightarrow> lc_step t c c'' \<Longrightarrow> c'' = c' \<Longrightarrow> lc_reach t c'"
  using lc_reach.step by blast

lemma lc_demo_joins:
  obtains c :: "(nat, nat, unit) lc_config" where "lc_reach 0 c" "l_client c 0 = CReaping" "l_target c = TGave"
    "completion_handle (th (l_mem c) 0) = Some 0" "l_client c = (\<lambda>_. CIdle)(0 := CReaping)"
    "l_alive c" "l_deleted c = 0"
proof -
  let ?m1 = "exit_section 0 (l_mem lc_demo)"
  let ?m2 = "upd_th 0 (\<lambda>T. T\<lparr>join_active := True\<rparr>) ?m1"
  have "lc_reach 0 lc_demo" by (rule lc_reach.start) (simp add: lc_start_def lc_demo_def os_thread_zero_def)
  then have "lc_reach 0 (lc_demo\<lparr>l_mem := ?m1, l_target := TCompleted\<rparr>)"
    by (rule lc_reach.step) (rule lc_step.exits, simp add: lc_demo_def)
  then have "lc_reach 0 (lc_demo\<lparr>l_mem := ?m1, l_target := TCompleted\<rparr>\<lparr>l_target := TGave, l_token := True\<rparr>)"
    by (rule lc_reach.step) (rule lc_step.gives, simp_all add: lc_demo_def lc_defs)
  then have "lc_reach 0 (lc_demo\<lparr>l_mem := ?m1, l_target := TCompleted\<rparr>\<lparr>l_target := TGave, l_token := True\<rparr>
      \<lparr>l_mem := ?m2, l_client := (l_client lc_demo)(0 := CWaiting)\<rparr>)" (is "lc_reach 0 ?c")
    by (rule lc_reach_to [OF _ lc_step.join_waits [where i = 0 and s = 0 and m = ?m2]])
      (simp_all add: lc_demo_def lc_defs os_thread_zero_def)
  then have "lc_reach 0 (?c\<lparr>l_client := (l_client ?c)(0 := CReaping), l_token := False\<rparr>)"
    by (rule lc_reach.step) (rule lc_step.join_takes, simp_all add: lc_demo_def)
  then show thesis by (rule that) (simp_all add: lc_demo_def lc_defs)
qed

text \<open>C30: With any number of threads joining, deleting and cancelling a thread while it ends, at
  most one of them is past its claim at a time, the completion semaphore is deleted at most once
  and only by a client that still holds it, the exit path always finds it alive, and nobody reaps
  the thread before its entry function has returned.\<close>

theorem thread_reaped_once:
  assumes "lc_reach t c"
  shows "l_deleted c \<le> 1
     \<and> (l_target c = TCompleted \<longrightarrow> completion_handle (th (l_mem c) t) \<noteq> None \<and> l_alive c)
     \<and> (completion_reaped (th (l_mem c) t) \<longrightarrow> l_target c \<noteq> TRunning \<and> l_target c \<noteq> TCompleted)
     \<and> (l_client c i = CDeleting \<longrightarrow> l_alive c)
     \<and> (l_client c i \<noteq> CIdle \<and> l_client c j \<noteq> CIdle \<longrightarrow> i = j)"
  using lc_reach_inv [OF assms] by (auto simp: lc_inv_def lc_flags_ok_def lc_clients_ok_def)

theorem thread_reaped_once_witness:
  "\<exists>c :: (nat, nat, unit) lc_config. lc_reach 0 c \<and> l_client c 0 = CReaping \<and> l_deleted c \<le> 1"
proof -
  obtain c :: "(nat, nat, unit) lc_config" where c: "lc_reach 0 c" "l_client c 0 = CReaping" by (rule lc_demo_joins) (rule that)
  have "l_deleted c \<le> 1" using thread_reaped_once [OF c(1)] by blast
  then show ?thesis using c by blast
qed

text \<open>
  A join may return while the joined thread still has to write \<open>completion_signaled\<close> into its
  object: the semaphore is given before that write. (A delete waits for the write.)
\<close>

lemma join_returns_before_last_write:
  "\<exists>c :: (nat, nat, unit) lc_config. lc_reach 0 c \<and> completion_reaped (th (l_mem c) 0)
     \<and> l_client c = (\<lambda>_. CIdle) \<and> l_deleted c = 1 \<and> l_target c = TGave"
proof -
  obtain c :: "(nat, nat, unit) lc_config" where c: "lc_reach 0 c" "l_client c 0 = CReaping" "l_target c = TGave"
    "completion_handle (th (l_mem c) 0) = Some 0" "l_client c = (\<lambda>_. CIdle)(0 := CReaping)"
    "l_alive c" "l_deleted c = 0"
    by (rule lc_demo_joins)
  obtain m where m: "reap_section 0 (l_mem c) = (Some 0, m)" "completion_reaped (th m 0)"
    using c(4) by (auto simp: lc_defs)
  have r: "lc_reach 0 (c\<lparr>l_mem := m, l_client := (l_client c)(0 := CDeleting)\<rparr>)" (is "lc_reach 0 ?c")
    by (rule lc_reach.step [OF c(1) lc_step.reaps [OF c(2) m(1)]])
  let ?d = "?c\<lparr>l_client := (l_client ?c)(0 := CIdle), l_alive := False, l_deleted := l_deleted ?c + 1\<rparr>"
  have "lc_reach 0 ?d"
    by (rule lc_reach.step [OF r lc_step.deletes]) simp
  moreover have "completion_reaped (th (l_mem ?d) 0)" "l_client ?d = (\<lambda>_. CIdle)" "l_deleted ?d = 1"
    "l_target ?d = TGave"
    using m(2) c(3,7) by (simp_all add: fun_eq_iff c(5))
  ultimately show ?thesis by blast
qed

text \<open>
  Deleting a thread succeeds only once the thread has made its last write.
\<close>

lemma delete_after_last_write:
  assumes "lc_reach t c" "delete_section t (l_mem c) = (None, m)"
  shows "l_target c = TSignaled"
  using lc_reach_inv [OF assms(1)] assms(2)
  by (auto simp: lc_inv_def lc_flags_ok_def lc_defs split: if_splits)

text \<open>
  The exit path does not look at \<open>aborted\<close>: a thread that returns from its entry function after
  \<open>os_thread_abort\<close> marked it and before the kernel deletes it gives the semaphore as well.
\<close>

lemma abort_and_exit_give_twice:
  assumes "abort_section K t m = Some (Inr (h, Some s), m1)"
  shows "exit_give K t (exit_section t m1) = Some (exit_section t m1\<lparr>kern := completion_give K s (kern m1)\<rparr>)"
  using assms
  by (auto simp: abort_section_def exit_give_def exit_section_def upd_th_def bind_eq_Some_conv
      split: if_splits)

end
