(* ===== verification/Event.thy ===== *)
theory Event
  imports Sem_Zephyr
begin

text \<open>
  Event groups: the interface of \<open>kernel.h\<close> and its three adapters,
  \<open>src/osal_freertos/event.c\<close>, \<open>src/osal_rtthread/event.c\<close> and \<open>src/zephyr/event.c\<close>. The native
  event objects are parameters; what the kernels document about them is in the locales
  \<open>fr_event_native\<close> and \<open>rt_event_native\<close>. A native object is its state \<open>'g\<close>; the \<open>storage\<close> of
  an \<open>os_event\<close> is what its \<open>handle\<close> points to, so the two are one option.
\<close>

definition OS_EVENT_BITS_MASK :: u32 where
  "OS_EVENT_BITS_MASK = 0x00ffffff"

record 'g os_event =
  e_handle :: "'g option"
  e_initialized :: bool

definition os_event_zero :: "'g os_event" where
  "os_event_zero = \<lparr>e_handle = None, e_initialized = False\<rparr>"

text \<open>Whether the bits of a group satisfy a request.\<close>

definition ev_match :: "bool \<Rightarrow> u32 \<Rightarrow> u32 \<Rightarrow> bool" where
  "ev_match wait_all requested bits =
     (if wait_all then bits AND requested = requested else bits AND requested \<noteq> 0)"

section \<open>FreeRTOS\<close>

text \<open>The result of \<open>xEventGroupWaitBits\<close>, with what the other threads did during the wait.\<close>

record 'g fr_event =
  ev_port_MAX_DELAY :: u32
  xEventGroupCreateStatic :: "'g option"
  vEventGroupDelete :: "'g \<Rightarrow> 'g"
  xEventGroupSetBits :: "'g \<Rightarrow> u32 \<Rightarrow> 'g"
  xEventGroupClearBits :: "'g \<Rightarrow> u32 \<Rightarrow> 'g"
  xEventGroupWaitBits :: "'g \<Rightarrow> u32 \<Rightarrow> bool \<Rightarrow> bool \<Rightarrow> u32 \<Rightarrow> u32 \<times> 'g"

definition freertos_os_event_init :: "'g fr_event \<Rightarrow> 'g os_event option \<Rightarrow> int \<times> 'g os_event option" where
  "freertos_os_event_init N event =
     (case event of
        None \<Rightarrow> (- EINVAL, None)
      | Some _ \<Rightarrow>
          (case xEventGroupCreateStatic N of
             None \<Rightarrow> (- ENOMEM, Some os_event_zero)
           | Some g \<Rightarrow> (0, Some \<lparr>e_handle = Some g, e_initialized = True\<rparr>)))"

text \<open>The guard the calls share: a pointer to an initialised object with a handle.\<close>

definition event_group :: "'g os_event option \<Rightarrow> ('g os_event \<times> 'g) option" where
  "event_group event =
     (case event of
        None \<Rightarrow> None
      | Some e \<Rightarrow>
          if \<not> e_initialized e then None
          else (case e_handle e of None \<Rightarrow> None | Some g \<Rightarrow> Some (e, g)))"

definition freertos_os_event_deinit :: "'g fr_event \<Rightarrow> bool \<Rightarrow> 'g os_event option \<Rightarrow> int \<times> 'g os_event option" where
  "freertos_os_event_deinit N isr event =
     (case event_group event of
        None \<Rightarrow> (- EINVAL, event)
      | Some (e, g) \<Rightarrow> if isr then (- EWOULDBLOCK, event) else (0, Some os_event_zero))"

definition freertos_os_event_set ::
  "'g fr_event \<Rightarrow> bool \<Rightarrow> 'g os_event option \<Rightarrow> u32 \<Rightarrow> int \<times> 'g os_event option" where
  "freertos_os_event_set N isr event bits =
     (case event_group event of
        None \<Rightarrow> (- EINVAL, event)
      | Some (e, g) \<Rightarrow>
          if bits = 0 \<or> bits AND NOT OS_EVENT_BITS_MASK \<noteq> 0 then (- EINVAL, event)
          else if isr then (- EWOULDBLOCK, event)
          else (0, Some (e\<lparr>e_handle := Some (xEventGroupSetBits N g bits)\<rparr>)))"

definition freertos_os_event_clear ::
  "'g fr_event \<Rightarrow> bool \<Rightarrow> 'g os_event option \<Rightarrow> u32 \<Rightarrow> int \<times> 'g os_event option" where
  "freertos_os_event_clear N isr event bits =
     (case event_group event of
        None \<Rightarrow> (- EINVAL, event)
      | Some (e, g) \<Rightarrow>
          if bits AND NOT OS_EVENT_BITS_MASK \<noteq> 0 then (- EINVAL, event)
          else if isr then (- EWOULDBLOCK, event)
          else (0, Some (e\<lparr>e_handle := Some (xEventGroupClearBits N g bits)\<rparr>)))"

text \<open>\<open>received\<close> is the object the caller passes for the result, or NULL.\<close>

definition freertos_os_event_wait ::
  "'g fr_event \<Rightarrow> bool \<Rightarrow> 'g os_event option \<Rightarrow> u32 \<Rightarrow> bool \<Rightarrow> bool \<Rightarrow> u32 \<Rightarrow> u32 option \<Rightarrow>
   (int \<times> u32 option) \<times> 'g os_event option" where
  "freertos_os_event_wait N isr event requested wait_all clear timeout received =
     (case event_group event of
        None \<Rightarrow> ((- EINVAL, received), event)
      | Some (e, g) \<Rightarrow>
          if received = None \<or> requested = 0 \<or> requested AND NOT OS_EVENT_BITS_MASK \<noteq> 0
          then ((- EINVAL, received), event)
          else if isr then ((- EWOULDBLOCK, received), event)
          else
            let (bits, g) = xEventGroupWaitBits N g requested clear wait_all
                              (if timeout = OS_WAIT_FOREVER then ev_port_MAX_DELAY N else timeout);
                rec = bits AND requested;
                matched = (if wait_all then rec = requested else rec \<noteq> 0)
            in ((if matched then 0 else if timeout = 0 then - EBUSY else - ETIMEDOUT, Some rec),
                Some (e\<lparr>e_handle := Some g\<rparr>)))"

section \<open>RT-Thread\<close>

text \<open>
  \<open>rt_event_and_set\<close> is the direct update of \<open>storage.set\<close>; the option of \<open>rt_event_recv\<close> is
  given by its two flags \<open>RT_EVENT_FLAG_AND\<close> (else \<open>OR\<close>) and \<open>RT_EVENT_FLAG_CLEAR\<close>. The variable
  \<open>result\<close> starts at 0 and \<open>rt_event_recv\<close> returns its final value.
\<close>

record 'g rt_event =
  ev_WAITING_FOREVER :: u32
  rt_event_init :: "'g option"
  rt_event_has_waiters :: "'g \<Rightarrow> bool"
  rt_event_detach :: "'g \<Rightarrow> bool"
  rt_event_send :: "'g \<Rightarrow> u32 \<Rightarrow> bool \<times> 'g"
  rt_event_and_set :: "'g \<Rightarrow> u32 \<Rightarrow> 'g"
  rt_event_recv :: "'g \<Rightarrow> u32 \<Rightarrow> bool \<Rightarrow> bool \<Rightarrow> u32 \<Rightarrow> (bool \<times> u32) \<times> 'g"

definition rt_os_event_init :: "'g rt_event \<Rightarrow> 'g os_event option \<Rightarrow> int \<times> 'g os_event option" where
  "rt_os_event_init N event =
     (case event of
        None \<Rightarrow> (- EINVAL, None)
      | Some _ \<Rightarrow>
          (case rt_event_init N of
             None \<Rightarrow> (- ENOMEM, Some os_event_zero)
           | Some g \<Rightarrow> (0, Some \<lparr>e_handle = Some g, e_initialized = True\<rparr>)))"

definition rt_os_event_deinit :: "'g rt_event \<Rightarrow> bool \<Rightarrow> 'g os_event option \<Rightarrow> int \<times> 'g os_event option" where
  "rt_os_event_deinit N isr event =
     (case event_group event of
        None \<Rightarrow> (- EINVAL, event)
      | Some (e, g) \<Rightarrow>
          if isr then (- EWOULDBLOCK, event)
          else if rt_event_has_waiters N g then (- EBUSY, event)
          else if \<not> rt_event_detach N g then (- EBUSY, event)
          else (0, Some os_event_zero))"

definition rt_os_event_set ::
  "'g rt_event \<Rightarrow> bool \<Rightarrow> 'g os_event option \<Rightarrow> u32 \<Rightarrow> int \<times> 'g os_event option" where
  "rt_os_event_set N isr event bits =
     (case event_group event of
        None \<Rightarrow> (- EINVAL, event)
      | Some (e, g) \<Rightarrow>
          if bits = 0 \<or> bits AND NOT OS_EVENT_BITS_MASK \<noteq> 0 then (- EINVAL, event)
          else if isr then (- EWOULDBLOCK, event)
          else
            let (ok, g) = rt_event_send N g bits
            in (if ok then 0 else - EINVAL, Some (e\<lparr>e_handle := Some g\<rparr>)))"

definition rt_os_event_clear ::
  "'g rt_event \<Rightarrow> bool \<Rightarrow> 'g os_event option \<Rightarrow> u32 \<Rightarrow> int \<times> 'g os_event option" where
  "rt_os_event_clear N isr event bits =
     (case event_group event of
        None \<Rightarrow> (- EINVAL, event)
      | Some (e, g) \<Rightarrow>
          if bits AND NOT OS_EVENT_BITS_MASK \<noteq> 0 then (- EINVAL, event)
          else if isr then (- EWOULDBLOCK, event)
          else (0, Some (e\<lparr>e_handle := Some (rt_event_and_set N g (NOT bits))\<rparr>)))"

definition rt_os_event_wait ::
  "'g rt_event \<Rightarrow> bool \<Rightarrow> 'g os_event option \<Rightarrow> u32 \<Rightarrow> bool \<Rightarrow> bool \<Rightarrow> u32 \<Rightarrow> u32 option \<Rightarrow>
   (int \<times> u32 option) \<times> 'g os_event option" where
  "rt_os_event_wait N isr event requested wait_all clear timeout received =
     (case event_group event of
        None \<Rightarrow> ((- EINVAL, received), event)
      | Some (e, g) \<Rightarrow>
          if received = None \<or> requested = 0 \<or> requested AND NOT OS_EVENT_BITS_MASK \<noteq> 0
          then ((- EINVAL, received), event)
          else if isr then ((- EWOULDBLOCK, received), event)
          else
            let ((ok, result), g) = rt_event_recv N g requested wait_all clear
                   (if timeout = OS_WAIT_FOREVER then ev_WAITING_FOREVER N else timeout)
            in ((if ok then 0 else if timeout = 0 then - EBUSY else - ETIMEDOUT, Some (result AND requested)),
                Some (e\<lparr>e_handle := Some g\<rparr>)))"

section \<open>Zephyr\<close>

record 'g ze_event =
  k_event_init :: 'g
  k_event_post :: "'g \<Rightarrow> u32 \<Rightarrow> 'g"
  k_event_clear :: "'g \<Rightarrow> u32 \<Rightarrow> 'g"
  k_event_wait :: "'g \<Rightarrow> u32 \<Rightarrow> bool \<Rightarrow> k_timeout \<Rightarrow> u32 \<times> 'g"
  k_event_wait_all :: "'g \<Rightarrow> u32 \<Rightarrow> bool \<Rightarrow> k_timeout \<Rightarrow> u32 \<times> 'g"

definition zephyr_os_event_init :: "'g ze_event \<Rightarrow> 'g os_event option \<Rightarrow> int \<times> 'g os_event option" where
  "zephyr_os_event_init N event =
     (case event of
        None \<Rightarrow> (- EINVAL, None)
      | Some _ \<Rightarrow> (0, Some \<lparr>e_handle = Some (k_event_init N), e_initialized = True\<rparr>))"

definition zephyr_os_event_deinit :: "bool \<Rightarrow> 'g os_event option \<Rightarrow> int \<times> 'g os_event option" where
  "zephyr_os_event_deinit isr event =
     (case event_group event of
        None \<Rightarrow> (- EINVAL, event)
      | Some (e, g) \<Rightarrow> if isr then (- EWOULDBLOCK, event) else (0, Some os_event_zero))"

definition zephyr_os_event_set ::
  "'g ze_event \<Rightarrow> bool \<Rightarrow> 'g os_event option \<Rightarrow> u32 \<Rightarrow> int \<times> 'g os_event option" where
  "zephyr_os_event_set N isr event bits =
     (case event_group event of
        None \<Rightarrow> (- EINVAL, event)
      | Some (e, g) \<Rightarrow>
          if bits = 0 \<or> bits AND NOT OS_EVENT_BITS_MASK \<noteq> 0 then (- EINVAL, event)
          else if isr then (- EWOULDBLOCK, event)
          else (0, Some (e\<lparr>e_handle := Some (k_event_post N g bits)\<rparr>)))"

definition zephyr_os_event_clear ::
  "'g ze_event \<Rightarrow> bool \<Rightarrow> 'g os_event option \<Rightarrow> u32 \<Rightarrow> int \<times> 'g os_event option" where
  "zephyr_os_event_clear N isr event bits =
     (case event_group event of
        None \<Rightarrow> (- EINVAL, event)
      | Some (e, g) \<Rightarrow>
          if bits AND NOT OS_EVENT_BITS_MASK \<noteq> 0 then (- EINVAL, event)
          else if isr then (- EWOULDBLOCK, event)
          else (0, Some (e\<lparr>e_handle := Some (k_event_clear N g bits)\<rparr>)))"

definition zephyr_os_event_wait ::
  "'g ze_event \<Rightarrow> bool \<Rightarrow> 'g os_event option \<Rightarrow> u32 \<Rightarrow> bool \<Rightarrow> bool \<Rightarrow> u32 \<Rightarrow> u32 option \<Rightarrow>
   (int \<times> u32 option) \<times> 'g os_event option" where
  "zephyr_os_event_wait N isr event requested wait_all clear timeout received =
     (case event_group event of
        None \<Rightarrow> ((- EINVAL, received), event)
      | Some (e, g) \<Rightarrow>
          if received = None \<or> requested = 0 \<or> requested AND NOT OS_EVENT_BITS_MASK \<noteq> 0
          then ((- EINVAL, received), event)
          else if isr then ((- EWOULDBLOCK, received), event)
          else
            let (result, g) = (if wait_all then k_event_wait_all N g requested clear (zephyr_wait timeout)
                               else k_event_wait N g requested clear (zephyr_wait timeout));
                rec = result AND requested
            in ((if (if wait_all then rec = requested else rec \<noteq> 0) then 0
                 else if timeout = 0 then - EBUSY else - ETIMEDOUT, Some rec),
                Some (e\<lparr>e_handle := Some g\<rparr>)))"

end
