(* ===== verification/Event_Contract.thy ===== *)
theory Event_Contract
  imports Event
begin

text \<open>
  What \<open>kernel.h\<close> promises of event groups, as a contract over the calls of one adapter, and its
  proof for FreeRTOS and RT-Thread: without waiters, a group is a mask of 24 bits. The Zephyr
  adapter does not keep it, because \<open>k_event_wait\<close> clears the group before it waits.
\<close>

section \<open>The contract\<close>

record 'e event_ops =
  ev_init :: "'e \<Rightarrow> int \<times> 'e"
  ev_deinit :: "bool \<Rightarrow> 'e \<Rightarrow> int \<times> 'e"
  ev_set :: "bool \<Rightarrow> 'e \<Rightarrow> u32 \<Rightarrow> int \<times> 'e"
  ev_clear :: "bool \<Rightarrow> 'e \<Rightarrow> u32 \<Rightarrow> int \<times> 'e"
  ev_wait :: "bool \<Rightarrow> 'e \<Rightarrow> u32 \<Rightarrow> bool \<Rightarrow> bool \<Rightarrow> u32 \<Rightarrow> (int \<times> u32 option) \<times> 'e"

definition valid_bits :: "u32 \<Rightarrow> bool" where
  "valid_bits b \<longleftrightarrow> b AND NOT OS_EVENT_BITS_MASK = 0"

text \<open>\<open>live\<close>: initialised, and no thread waits; \<open>dead\<close>: not initialised.\<close>

locale os_event_contract =
  fixes E :: "'e event_ops" and live :: "'e \<Rightarrow> bool" and dead :: "'e \<Rightarrow> bool" and bits :: "'e \<Rightarrow> u32"
  assumes init_ok: "ev_init E e = (0, e') \<Longrightarrow> live e' \<and> bits e' = 0"
    and deinit_dead: "dead e \<Longrightarrow> ev_deinit E isr e = (- EINVAL, e)"
    and deinit_ok: "live e \<Longrightarrow> \<exists>e'. ev_deinit E False e = (0, e') \<and> dead e'"
    and set_bad: "dead e \<or> b = 0 \<or> \<not> valid_bits b \<Longrightarrow> ev_set E isr e b = (- EINVAL, e)"
    and set_isr: "live e \<Longrightarrow> b \<noteq> 0 \<Longrightarrow> valid_bits b \<Longrightarrow> ev_set E True e b = (- EWOULDBLOCK, e)"
    and set_ok: "live e \<Longrightarrow> b \<noteq> 0 \<Longrightarrow> valid_bits b \<Longrightarrow>
      \<exists>e'. ev_set E False e b = (0, e') \<and> live e' \<and> bits e' = bits e OR b"
    and clear_bad: "dead e \<or> \<not> valid_bits b \<Longrightarrow> ev_clear E isr e b = (- EINVAL, e)"
    and clear_isr: "live e \<Longrightarrow> valid_bits b \<Longrightarrow> ev_clear E True e b = (- EWOULDBLOCK, e)"
    and clear_ok: "live e \<Longrightarrow> valid_bits b \<Longrightarrow>
      \<exists>e'. ev_clear E False e b = (0, e') \<and> live e' \<and> bits e' = bits e AND NOT b"
    and wait_bad: "dead e \<or> req = 0 \<or> \<not> valid_bits req \<Longrightarrow>
      \<exists>v. ev_wait E isr e req all clr t = ((- EINVAL, v), e)"
    and wait_isr: "live e \<Longrightarrow> req \<noteq> 0 \<Longrightarrow> valid_bits req \<Longrightarrow>
      \<exists>v. ev_wait E True e req all clr t = ((- EWOULDBLOCK, v), e)"
    and wait_hit: "live e \<Longrightarrow> req \<noteq> 0 \<Longrightarrow> valid_bits req \<Longrightarrow> ev_match all req (bits e) \<Longrightarrow>
      \<exists>e'. ev_wait E False e req all clr t = ((0, Some (bits e AND req)), e') \<and> live e'
         \<and> bits e' = (if clr then bits e AND NOT req else bits e)"
    and wait_miss: "live e \<Longrightarrow> req \<noteq> 0 \<Longrightarrow> valid_bits req \<Longrightarrow> \<not> ev_match all req (bits e) \<Longrightarrow>
      \<exists>v e'. ev_wait E False e req all clr 0 = ((- EBUSY, v), e') \<and> live e' \<and> bits e' = bits e"
    and wait_blocks: "live e \<Longrightarrow> req \<noteq> 0 \<Longrightarrow> valid_bits req \<Longrightarrow> t \<noteq> 0 \<Longrightarrow>
      ev_wait E False e req all clr t = ((r, v), e') \<Longrightarrow>
      (r = 0 \<and> (\<exists>w. v = Some w \<and> ev_match all req w \<and> w AND req = w)) \<or> r = - ETIMEDOUT"

section \<open>A group as a mask\<close>

datatype ev_call = EvSet u32 | EvClear u32 | EvPoll u32 bool bool

text \<open>The result of a call: its return code, and the received bits where it succeeds.\<close>

definition ev_result :: "int \<times> u32 option \<Rightarrow> int \<times> u32" where
  "ev_result r = (fst r, if fst r = 0 then (case snd r of None \<Rightarrow> 0 | Some v \<Rightarrow> v) else 0)"

fun event_call :: "'e event_ops \<Rightarrow> 'e \<Rightarrow> ev_call \<Rightarrow> (int \<times> u32) \<times> 'e" where
  "event_call E e (EvSet b) = (let (r, e') = ev_set E False e b in ((r, 0), e'))"
| "event_call E e (EvClear b) = (let (r, e') = ev_clear E False e b in ((r, 0), e'))"
| "event_call E e (EvPoll req all clr) =
     (let (r, e') = ev_wait E False e req all clr 0 in (ev_result r, e'))"

fun event_run :: "'e event_ops \<Rightarrow> 'e \<Rightarrow> ev_call list \<Rightarrow> (int \<times> u32) list" where
  "event_run E e [] = []"
| "event_run E e (c # cs) = (let (r, e') = event_call E e c in r # event_run E e' cs)"

fun mask_call :: "u32 \<Rightarrow> ev_call \<Rightarrow> (int \<times> u32) \<times> u32" where
  "mask_call m (EvSet b) = (if b = 0 \<or> \<not> valid_bits b then ((- EINVAL, 0), m) else ((0, 0), m OR b))"
| "mask_call m (EvClear b) = (if \<not> valid_bits b then ((- EINVAL, 0), m) else ((0, 0), m AND NOT b))"
| "mask_call m (EvPoll req all clr) =
     (if req = 0 \<or> \<not> valid_bits req then ((- EINVAL, 0), m)
      else if ev_match all req m then ((0, m AND req), if clr then m AND NOT req else m)
      else ((- EBUSY, 0), m))"

fun mask_run :: "u32 \<Rightarrow> ev_call list \<Rightarrow> (int \<times> u32) list" where
  "mask_run m [] = []"
| "mask_run m (c # cs) = (let (r, m') = mask_call m c in r # mask_run m' cs)"

context os_event_contract
begin

lemma call_refines:
  assumes "live e"
  shows "\<exists>e'. event_call E e c = (fst (mask_call (bits e) c), e') \<and> live e' \<and> bits e' = snd (mask_call (bits e) c)"
proof (cases c)
  case (EvSet b)
  then show ?thesis
    using set_bad [of e b False] set_ok [OF assms, of b] assms by (cases "b = 0 \<or> \<not> valid_bits b") auto
next
  case (EvClear b)
  then show ?thesis
    using clear_bad [of e b False] clear_ok [OF assms, of b] assms by (cases "valid_bits b") auto
next
  case (EvPoll req all clr)
  consider (bad) "req = 0 \<or> \<not> valid_bits req" | (hit) "req \<noteq> 0" "valid_bits req" "ev_match all req (bits e)"
    | (miss) "req \<noteq> 0" "valid_bits req" "\<not> ev_match all req (bits e)" by blast
  then show ?thesis
  proof cases
    case bad
    then obtain v where "ev_wait E False e req all clr 0 = ((- EINVAL, v), e)"
      using wait_bad [of e req False all clr 0] by blast
    with bad assms show ?thesis by (simp add: EvPoll ev_result_def)
  next
    case hit
    obtain e' where "ev_wait E False e req all clr 0 = ((0, Some (bits e AND req)), e')" "live e'"
      "bits e' = (if clr then bits e AND NOT req else bits e)"
      using wait_hit [OF assms hit, of clr 0] by blast
    with hit show ?thesis by (simp add: EvPoll ev_result_def)
  next
    case miss
    obtain v e' where "ev_wait E False e req all clr 0 = ((- EBUSY, v), e')" "live e'" "bits e' = bits e"
      using wait_miss [OF assms miss, of clr] by blast
    with miss show ?thesis by (simp add: EvPoll ev_result_def)
  qed
qed

lemma run_refines: "live e \<Longrightarrow> event_run E e cs = mask_run (bits e) cs"
proof (induction cs arbitrary: e)
  case (Cons c cs)
  obtain e' where e': "event_call E e c = (fst (mask_call (bits e) c), e')" "live e'"
    "bits e' = snd (mask_call (bits e) c)"
    using call_refines [OF Cons.prems] by blast
  then show ?case using Cons.IH [OF e'(2)] by (simp add: split_beta)
qed simp

end

section \<open>The adapters\<close>

definition via_event :: "('g os_event option \<Rightarrow> 'r \<times> 'g os_event option) \<Rightarrow> 'g os_event \<Rightarrow> 'r \<times> 'g os_event" where
  "via_event f = via_ptr f"

definition fr_event_ops :: "'g fr_event \<Rightarrow> 'g os_event event_ops" where
  "fr_event_ops N =
     \<lparr>ev_init = via_event (freertos_os_event_init N),
      ev_deinit = \<lambda>isr. via_event (freertos_os_event_deinit N isr),
      ev_set = \<lambda>isr e b. via_event (\<lambda>p. freertos_os_event_set N isr p b) e,
      ev_clear = \<lambda>isr e b. via_event (\<lambda>p. freertos_os_event_clear N isr p b) e,
      ev_wait = \<lambda>isr e req all clr t. via_event (\<lambda>p. freertos_os_event_wait N isr p req all clr t (Some 0)) e\<rparr>"

definition rt_event_ops :: "'g rt_event \<Rightarrow> 'g os_event event_ops" where
  "rt_event_ops N =
     \<lparr>ev_init = via_event (rt_os_event_init N),
      ev_deinit = \<lambda>isr. via_event (rt_os_event_deinit N isr),
      ev_set = \<lambda>isr e b. via_event (\<lambda>p. rt_os_event_set N isr p b) e,
      ev_clear = \<lambda>isr e b. via_event (\<lambda>p. rt_os_event_clear N isr p b) e,
      ev_wait = \<lambda>isr e req all clr t. via_event (\<lambda>p. rt_os_event_wait N isr p req all clr t (Some 0)) e\<rparr>"

definition ze_event_ops :: "'g ze_event \<Rightarrow> 'g os_event event_ops" where
  "ze_event_ops N =
     \<lparr>ev_init = via_event (zephyr_os_event_init N),
      ev_deinit = \<lambda>isr. via_event (zephyr_os_event_deinit isr),
      ev_set = \<lambda>isr e b. via_event (\<lambda>p. zephyr_os_event_set N isr p b) e,
      ev_clear = \<lambda>isr e b. via_event (\<lambda>p. zephyr_os_event_clear N isr p b) e,
      ev_wait = \<lambda>isr e req all clr t. via_event (\<lambda>p. zephyr_os_event_wait N isr p req all clr t (Some 0)) e\<rparr>"

definition ev_live :: "('g \<Rightarrow> bool) \<Rightarrow> 'g os_event \<Rightarrow> bool" where
  "ev_live ok e \<longleftrightarrow> e_initialized e \<and> (\<exists>g. e_handle e = Some g \<and> ok g)"

definition ev_dead :: "'g os_event \<Rightarrow> bool" where
  "ev_dead e \<longleftrightarrow> \<not> e_initialized e \<or> e_handle e = None"

definition ev_bits :: "('g \<Rightarrow> u32) \<Rightarrow> 'g os_event \<Rightarrow> u32" where
  "ev_bits f e = (case e_handle e of None \<Rightarrow> 0 | Some g \<Rightarrow> f g)"

lemma ev_liveE:
  assumes "ev_live ok e"
  obtains g where "event_group (Some e) = Some (e, g)" "e_handle e = Some g" "e_initialized e" "ok g"
  using assms by (auto simp: ev_live_def event_group_def)

lemma ev_dead_group: "ev_dead e \<Longrightarrow> event_group (Some e) = None"
  by (auto simp: ev_dead_def event_group_def)

text \<open>
  What FreeRTOS documents: the bits after a wait that is satisfied are those before it, less the
  requested ones when it clears; a wait that times out returns the bits it leaves. \<open>ok\<close> also says
  that no task waits.
\<close>

locale fr_event_native =
  fixes N :: "'g fr_event" and ok :: "'g \<Rightarrow> bool" and gbits :: "'g \<Rightarrow> u32"
  assumes create: "xEventGroupCreateStatic N = Some g \<Longrightarrow> ok g \<and> gbits g = 0"
    and setBits: "ok g \<Longrightarrow> ok (xEventGroupSetBits N g b) \<and> gbits (xEventGroupSetBits N g b) = gbits g OR b"
    and clearBits: "ok g \<Longrightarrow> ok (xEventGroupClearBits N g b) \<and> gbits (xEventGroupClearBits N g b) = gbits g AND NOT b"
    and wait_now: "ok g \<Longrightarrow> ev_match all req (gbits g) \<Longrightarrow>
      \<exists>g'. xEventGroupWaitBits N g req clr all t = (gbits g, g') \<and> ok g'
         \<and> gbits g' = (if clr then gbits g AND NOT req else gbits g)"
    and wait_not: "ok g \<Longrightarrow> \<not> ev_match all req (gbits g) \<Longrightarrow>
      \<exists>g'. xEventGroupWaitBits N g req clr all 0 = (gbits g, g') \<and> ok g' \<and> gbits g' = gbits g"

text \<open>
  What RT-Thread documents: \<open>rt_event_recv\<close> stores the satisfied bits and clears the requested
  ones when asked to.
\<close>

locale rt_event_native =
  fixes N :: "'g rt_event" and ok :: "'g \<Rightarrow> bool" and gbits :: "'g \<Rightarrow> u32"
  assumes rinit: "rt_event_init N = Some g \<Longrightarrow> ok g \<and> gbits g = 0"
    and idle: "ok g \<Longrightarrow> \<not> rt_event_has_waiters N g"
    and detach: "ok g \<Longrightarrow> rt_event_detach N g"
    and send: "ok g \<Longrightarrow> b \<noteq> 0 \<Longrightarrow>
      \<exists>g'. rt_event_send N g b = (True, g') \<and> ok g' \<and> gbits g' = gbits g OR b"
    and and_set: "ok g \<Longrightarrow> ok (rt_event_and_set N g b) \<and> gbits (rt_event_and_set N g b) = gbits g AND b"
    and recv_now: "ok g \<Longrightarrow> ev_match all req (gbits g) \<Longrightarrow>
      \<exists>g'. rt_event_recv N g req all clr t = ((True, gbits g AND req), g') \<and> ok g'
         \<and> gbits g' = (if clr then gbits g AND NOT req else gbits g)"
    and recv_not: "ok g \<Longrightarrow> \<not> ev_match all req (gbits g) \<Longrightarrow>
      \<exists>v g'. rt_event_recv N g req all clr 0 = ((False, v), g') \<and> ok g' \<and> gbits g' = gbits g"
    and recv_match: "ok g \<Longrightarrow> rt_event_recv N g req all clr t = ((True, v), g') \<Longrightarrow> ev_match all req v"

lemma fr_event_ops_simps [simp]:
  "ev_init (fr_event_ops N) = via_event (freertos_os_event_init N)"
  "ev_deinit (fr_event_ops N) isr = via_event (freertos_os_event_deinit N isr)"
  "ev_set (fr_event_ops N) isr e b = via_event (\<lambda>p. freertos_os_event_set N isr p b) e"
  "ev_clear (fr_event_ops N) isr e b = via_event (\<lambda>p. freertos_os_event_clear N isr p b) e"
  "ev_wait (fr_event_ops N) isr e req all clr t =
     via_event (\<lambda>p. freertos_os_event_wait N isr p req all clr t (Some 0)) e"
  by (simp_all add: fr_event_ops_def)

lemma rt_event_ops_simps [simp]:
  "ev_init (rt_event_ops R) = via_event (rt_os_event_init R)"
  "ev_deinit (rt_event_ops R) isr = via_event (rt_os_event_deinit R isr)"
  "ev_set (rt_event_ops R) isr e b = via_event (\<lambda>p. rt_os_event_set R isr p b) e"
  "ev_clear (rt_event_ops R) isr e b = via_event (\<lambda>p. rt_os_event_clear R isr p b) e"
  "ev_wait (rt_event_ops R) isr e req all clr t =
     via_event (\<lambda>p. rt_os_event_wait R isr p req all clr t (Some 0)) e"
  by (simp_all add: rt_event_ops_def)

lemmas fr_event_defs = via_event_def via_ptr_def freertos_os_event_init_def freertos_os_event_deinit_def
  freertos_os_event_set_def freertos_os_event_clear_def freertos_os_event_wait_def valid_bits_def

lemmas rt_event_defs = via_event_def via_ptr_def rt_os_event_init_def rt_os_event_deinit_def
  rt_os_event_set_def rt_os_event_clear_def rt_os_event_wait_def valid_bits_def

lemma ev_live_update: "e_initialized e \<Longrightarrow> ok g \<Longrightarrow> ev_live ok (e\<lparr>e_handle := Some g\<rparr>)"
  by (simp add: ev_live_def)

lemma ev_match_self: "ev_match all req (b AND req) = ev_match all req b"
  by (simp add: ev_match_def and.assoc)

sublocale fr_event_native \<subseteq> fr: os_event_contract "fr_event_ops N" "ev_live ok" ev_dead "ev_bits gbits"
proof (unfold_locales, goal_cases)
  case (1 e e')
  then show ?case
    by (auto simp: fr_event_defs ev_live_def ev_bits_def create split: option.splits)
next
  case (2 e isr)
  then show ?case by (simp add: fr_event_defs ev_dead_group)
next
  case (3 e)
  then show ?case by (elim ev_liveE) (simp add: fr_event_defs ev_dead_def os_event_zero_def)
next
  case (4 e b isr)
  then show ?case by (auto simp: fr_event_defs ev_dead_group split: option.split)
next
  case (5 e b)
  then show ?case by (elim ev_liveE) (simp add: fr_event_defs)
next
  case (6 e b)
  then show ?case by (elim ev_liveE) (simp add: fr_event_defs ev_live_def ev_bits_def setBits)
next
  case (7 e b isr)
  then show ?case by (auto simp: fr_event_defs ev_dead_group split: option.split)
next
  case (8 e b)
  then show ?case by (elim ev_liveE) (simp add: fr_event_defs)
next
  case (9 e b)
  then show ?case by (elim ev_liveE) (simp add: fr_event_defs ev_live_def ev_bits_def clearBits)
next
  case (10 e req isr all clr t)
  then show ?case by (auto simp: fr_event_defs ev_dead_group split: option.split)
next
  case (11 e req all clr t)
  then show ?case by (elim ev_liveE) (simp add: fr_event_defs)
next
  case (12 e req all clr t)
  obtain g where g: "event_group (Some e) = Some (e, g)" "e_handle e = Some g" "e_initialized e" "ok g"
    using 12(1) by (rule ev_liveE)
  have m: "ev_match all req (gbits g)" using 12(4) g(2) by (simp add: ev_bits_def)
  obtain g' where "xEventGroupWaitBits N g req clr all
      (if t = OS_WAIT_FOREVER then ev_port_MAX_DELAY N else t) = (gbits g, g')"
    "ok g'" "gbits g' = (if clr then gbits g AND NOT req else gbits g)"
    using wait_now [OF g(4) m] by blast
  then show ?case using 12(2,3) g m
    by (cases all) (simp_all add: fr_event_defs ev_live_def ev_bits_def ev_match_def Let_def)
next
  case (13 e req all clr)
  obtain g where g: "event_group (Some e) = Some (e, g)" "e_handle e = Some g" "e_initialized e" "ok g"
    using 13(1) by (rule ev_liveE)
  have m: "\<not> ev_match all req (gbits g)" using 13(4) g(2) by (simp add: ev_bits_def)
  obtain g' where "xEventGroupWaitBits N g req clr all 0 = (gbits g, g')" "ok g'" "gbits g' = gbits g"
    using wait_not [OF g(4) m] by blast
  then show ?case
    using 13(2,3) g m
    by (cases all) (simp_all add: fr_event_defs ev_live_def ev_bits_def ev_match_def OS_WAIT_FOREVER_def Let_def)
next
  case (14 e req t all clr r v e')
  obtain g where g: "event_group (Some e) = Some (e, g)" using 14(1) by (rule ev_liveE)
  then show ?case
    using 14(2-5) by (auto simp: fr_event_defs ev_match_def Let_def and.assoc split: prod.splits if_splits)
qed

context fr_event_native
begin

lemma run_mask:
  assumes "freertos_os_event_init N (Some x) = (0, Some e)"
  shows "event_run (fr_event_ops N) e cs = mask_run 0 cs"
proof -
  have "ev_init (fr_event_ops N) x = (0, e)" using assms by (simp add: via_event_def via_ptr_def)
  then have "ev_live ok e \<and> ev_bits gbits e = 0" by (rule fr.init_ok)
  then show ?thesis using fr.run_refines [of e cs] by simp
qed

end

sublocale rt_event_native \<subseteq> rt: os_event_contract "rt_event_ops N" "ev_live ok" ev_dead "ev_bits gbits"
proof (unfold_locales, goal_cases)
  case (1 e e')
  then show ?case
    by (auto simp: rt_event_defs ev_live_def ev_bits_def rinit split: option.splits)
next
  case (2 e isr)
  then show ?case by (simp add: rt_event_defs ev_dead_group)
next
  case (3 e)
  then show ?case by (elim ev_liveE) (simp add: rt_event_defs ev_dead_def os_event_zero_def idle detach)
next
  case (4 e b isr)
  then show ?case by (auto simp: rt_event_defs ev_dead_group split: option.split)
next
  case (5 e b)
  then show ?case by (elim ev_liveE) (simp add: rt_event_defs)
next
  case (6 e b)
  obtain g where g: "event_group (Some e) = Some (e, g)" "e_handle e = Some g" "e_initialized e" "ok g"
    using 6(1) by (rule ev_liveE)
  obtain g' where "rt_event_send N g b = (True, g')" "ok g'" "gbits g' = gbits g OR b"
    using send [OF g(4) 6(2)] by blast
  then show ?case using 6(2,3) g by (simp add: rt_event_defs ev_live_def ev_bits_def)
next
  case (7 e b isr)
  then show ?case by (auto simp: rt_event_defs ev_dead_group split: option.split)
next
  case (8 e b)
  then show ?case by (elim ev_liveE) (simp add: rt_event_defs)
next
  case (9 e b)
  then show ?case by (elim ev_liveE) (simp add: rt_event_defs ev_live_def ev_bits_def and_set)
next
  case (10 e req isr all clr t)
  then show ?case by (auto simp: rt_event_defs ev_dead_group split: option.split)
next
  case (11 e req all clr t)
  then show ?case by (elim ev_liveE) (simp add: rt_event_defs)
next
  case (12 e req all clr t)
  obtain g where g: "event_group (Some e) = Some (e, g)" "e_handle e = Some g" "e_initialized e" "ok g"
    using 12(1) by (rule ev_liveE)
  have m: "ev_match all req (gbits g)" using 12(4) g(2) by (simp add: ev_bits_def)
  obtain g' where "rt_event_recv N g req all clr
      (if t = OS_WAIT_FOREVER then ev_WAITING_FOREVER N else t) = ((True, gbits g AND req), g')"
    "ok g'" "gbits g' = (if clr then gbits g AND NOT req else gbits g)"
    using recv_now [OF g(4) m] by blast
  then show ?case using 12(2,3) g by (simp add: rt_event_defs ev_live_def ev_bits_def and.assoc)
next
  case (13 e req all clr)
  obtain g where g: "event_group (Some e) = Some (e, g)" "e_handle e = Some g" "e_initialized e" "ok g"
    using 13(1) by (rule ev_liveE)
  have m: "\<not> ev_match all req (gbits g)" using 13(4) g(2) by (simp add: ev_bits_def)
  obtain v g' where "rt_event_recv N g req all clr 0 = ((False, v), g')" "ok g'" "gbits g' = gbits g"
    using recv_not [OF g(4) m] by blast
  then show ?case
    using 13(2,3) g by (simp add: rt_event_defs ev_live_def ev_bits_def OS_WAIT_FOREVER_def)
next
  case (14 e req t all clr r v e')
  obtain g where g: "event_group (Some e) = Some (e, g)" "ok g" using 14(1) by (rule ev_liveE)
  let ?t = "if t = OS_WAIT_FOREVER then ev_WAITING_FOREVER N else t"
  obtain b w g' where recv: "rt_event_recv N g req all clr ?t = ((b, w), g')" by (metis prod.exhaust)
  have "r = (if b then 0 else - ETIMEDOUT)" "v = Some (w AND req)"
    using 14(2-5) g(1) recv by (auto simp: rt_event_defs split: if_splits)
  then show ?case
    using recv_match [OF g(2), of req all clr ?t w g'] recv by (cases b) (simp_all add: ev_match_self and.assoc)
qed

context rt_event_native
begin

lemma run_mask:
  assumes "rt_os_event_init N (Some x) = (0, Some e)"
  shows "event_run (rt_event_ops N) e cs = mask_run 0 cs"
proof -
  have "ev_init (rt_event_ops N) x = (0, e)" using assms by (simp add: via_event_def via_ptr_def)
  then have "ev_live ok e \<and> ev_bits gbits e = 0" by (rule rt.init_ok)
  then show ?thesis using rt.run_refines [of e cs] by simp
qed

end

section \<open>Zephyr\<close>

text \<open>
  What Zephyr documents: \<open>k_event_wait\<close> with \<open>reset\<close> clears every bit of the object before it
  waits; it returns the matching bits, or 0 where the wait ends without them.
\<close>

locale ze_event_native =
  fixes N :: "'g ze_event" and gbits :: "'g \<Rightarrow> u32"
  assumes zinit: "gbits (k_event_init N) = 0"
    and post: "gbits (k_event_post N g b) = gbits g OR b"
    and zclear: "gbits (k_event_clear N g b) = gbits g AND NOT b"
    and wait_any: "\<exists>g'. k_event_wait N g req reset K_NO_WAIT =
        ((if reset then 0 else gbits g) AND req, g') \<and> gbits g' = (if reset then 0 else gbits g)"
    and wait_all: "\<exists>g'. k_event_wait_all N g req reset K_NO_WAIT =
        (if (if reset then 0 else gbits g) AND req = req then req else 0, g')
      \<and> gbits g' = (if reset then 0 else gbits g)"

lemmas ze_event_defs = zephyr_os_event_init_def zephyr_os_event_deinit_def
  zephyr_os_event_set_def zephyr_os_event_clear_def zephyr_os_event_wait_def valid_bits_def

context ze_event_native
begin

lemma poll_keep:
  assumes g: "event_group (Some e) = Some (e, g)" and req: "req \<noteq> 0" "valid_bits req"
  shows "\<exists>v g'. zephyr_os_event_wait N False (Some e) req all False 0 (Some 0) =
      ((if ev_match all req (gbits g) then 0 else - EBUSY, Some v), Some (e\<lparr>e_handle := Some g'\<rparr>))
    \<and> gbits g' = gbits g"
proof (cases all)
  case True
  obtain g' where "k_event_wait_all N g req False K_NO_WAIT = (if gbits g AND req = req then req else 0, g')"
    "gbits g' = gbits g" using wait_all [of g req False] by auto
  then show ?thesis using assms True
    by (auto simp: ze_event_defs zephyr_wait_def OS_WAIT_FOREVER_def ev_match_def intro!: exI [of _ g'])
next
  case False
  obtain g' where "k_event_wait N g req False K_NO_WAIT = (gbits g AND req, g')" "gbits g' = gbits g"
    using wait_any [of g req False] by auto
  then show ?thesis using assms False
    by (auto simp: ze_event_defs zephyr_wait_def OS_WAIT_FOREVER_def ev_match_def and.assoc intro!: exI [of _ g'])
qed

lemma poll_clear:
  assumes g: "event_group (Some e) = Some (e, g)" and req: "req \<noteq> 0" "valid_bits req"
  shows "\<exists>g'. zephyr_os_event_wait N False (Some e) req all True 0 (Some 0) =
      ((- EBUSY, Some 0), Some (e\<lparr>e_handle := Some g'\<rparr>)) \<and> gbits g' = 0"
proof (cases all)
  case True
  obtain g' where "k_event_wait_all N g req True K_NO_WAIT = (0, g')" "gbits g' = 0"
    using wait_all [of g req True] req(1) by auto
  then show ?thesis using assms True
    by (auto simp: ze_event_defs zephyr_wait_def OS_WAIT_FOREVER_def intro!: exI [of _ g'])
next
  case False
  obtain g' where "k_event_wait N g req True K_NO_WAIT = (0, g')" "gbits g' = 0"
    using wait_any [of g req True] by auto
  then show ?thesis using assms False
    by (auto simp: ze_event_defs zephyr_wait_def OS_WAIT_FOREVER_def intro!: exI [of _ g'])
qed

end

section \<open>Native groups as masks\<close>

definition native_fr_event :: "u32 fr_event" where
  "native_fr_event =
     \<lparr>ev_port_MAX_DELAY = 0xFFFFFFFF, xEventGroupCreateStatic = Some 0, vEventGroupDelete = (\<lambda>g. g),
      xEventGroupSetBits = (\<lambda>g b. g OR b), xEventGroupClearBits = (\<lambda>g b. g AND NOT b),
      xEventGroupWaitBits = (\<lambda>g req clr all t. (g, if clr \<and> ev_match all req g then g AND NOT req else g))\<rparr>"

definition native_rt_event :: "u32 rt_event" where
  "native_rt_event =
     \<lparr>ev_WAITING_FOREVER = 0xFFFFFFFF, rt_event_init = Some 0, rt_event_has_waiters = (\<lambda>g. False),
      rt_event_detach = (\<lambda>g. True), rt_event_send = (\<lambda>g b. (b \<noteq> 0, g OR b)),
      rt_event_and_set = (\<lambda>g b. g AND b),
      rt_event_recv = (\<lambda>g req all clr t.
        if ev_match all req g then ((True, g AND req), if clr then g AND NOT req else g)
        else ((False, 0), g))\<rparr>"

definition native_ze_event :: "u32 ze_event" where
  "native_ze_event =
     \<lparr>k_event_init = 0, k_event_post = (\<lambda>g b. g OR b), k_event_clear = (\<lambda>g b. g AND NOT b),
      k_event_wait = (\<lambda>g req reset t. let g = (if reset then 0 else g) in (g AND req, g)),
      k_event_wait_all = (\<lambda>g req reset t.
        let g = (if reset then 0 else g) in (if g AND req = req then req else 0, g))\<rparr>"

interpretation fr_mask: fr_event_native native_fr_event "\<lambda>_. True" id
  by unfold_locales (simp_all add: native_fr_event_def ac_simps)

interpretation rt_mask: rt_event_native native_rt_event "\<lambda>_. True" id
  by unfold_locales (auto simp: native_rt_event_def ev_match_self split: if_splits)

interpretation ze_mask: ze_event_native native_ze_event id
  by unfold_locales (simp_all add: native_ze_event_def Let_def)

section \<open>Properties\<close>

text \<open>C31: FreeRTOS and RT-Thread event groups are one specification: on either adapter, over any native
  group that keeps its kernel's documentation, the results of any sequence of set, clear and poll
  calls on a freshly initialised object - the error codes of bad arguments, the bits received, what
  a clearing poll leaves - are those of a 24-bit mask that starts at 0.\<close>

theorem event_backends_agree:
  assumes "fr_event_native N ok f" and "rt_event_native R ok' f'"
    and "freertos_os_event_init N (Some x) = (0, Some e)"
    and "rt_os_event_init R (Some y) = (0, Some e')"
  shows "event_run (fr_event_ops N) e cs = mask_run 0 cs \<and> event_run (rt_event_ops R) e' cs = mask_run 0 cs"
  using fr_event_native.run_mask [OF assms(1,3)] rt_event_native.run_mask [OF assms(2,4)] by blast

lemma event_backends_agree_witness:
  "event_run (fr_event_ops native_fr_event) \<lparr>e_handle = Some 0, e_initialized = True\<rparr>
     [EvSet 5, EvPoll 4 True True, EvPoll 4 True False, EvSet 0x1000000] =
     [(0, 0), (0, 4), (- EBUSY, 0), (- EINVAL, 0)]"
proof -
  have m: "mask_run 0 [EvSet 5, EvPoll 4 True True, EvPoll 4 True False, EvSet 0x1000000] =
     [(0, 0), (0, 4), (- EBUSY, 0), (- EINVAL, 0)]"
    by (simp add: valid_bits_def OS_EVENT_BITS_MASK_def ev_match_def)
  have f: "freertos_os_event_init native_fr_event (Some os_event_zero) = (0, Some \<lparr>e_handle = Some 0, e_initialized = True\<rparr>)"
    by (simp add: freertos_os_event_init_def native_fr_event_def)
  have r: "rt_os_event_init native_rt_event (Some os_event_zero) = (0, Some \<lparr>e_handle = Some 0, e_initialized = True\<rparr>)"
    by (simp add: rt_os_event_init_def native_rt_event_def)
  show ?thesis
    using event_backends_agree [OF fr_mask.fr_event_native_axioms rt_mask.rt_event_native_axioms f r] m by metis
qed

text \<open>Zephyr's groups are not that specification: a poll that asks for its bits to be cleared
  reports \<open>-EBUSY\<close> whatever bits are set and empties the whole group, because the adapter passes
  \<open>clear\<close> as the \<open>reset\<close> flag of \<open>k_event_wait\<close>, which clears the group before it looks. Without
  \<open>clear\<close> a poll reports exactly whether the bits match and leaves the group as it was.\<close>

theorem zephyr_event_poll:
  assumes "ze_event_native N f" and "e_initialized e" and "e_handle e = Some g"
    and "req \<noteq> 0" and "req AND NOT OS_EVENT_BITS_MASK = 0"
  shows "(\<exists>g'. zephyr_os_event_wait N False (Some e) req all True 0 (Some 0) =
            ((- EBUSY, Some 0), Some (e\<lparr>e_handle := Some g'\<rparr>)) \<and> f g' = 0)
       \<and> (\<exists>v g'. zephyr_os_event_wait N False (Some e) req all False 0 (Some 0) =
            ((if ev_match all req (f g) then 0 else - EBUSY, Some v), Some (e\<lparr>e_handle := Some g'\<rparr>))
            \<and> f g' = f g)"
proof -
  have "event_group (Some e) = Some (e, g)" "valid_bits req"
    using assms by (simp_all add: event_group_def valid_bits_def)
  then show ?thesis
    using ze_event_native.poll_clear [OF assms(1), of e g req all]
      ze_event_native.poll_keep [OF assms(1), of e g req all] assms(4) by blast
qed

lemma zephyr_event_poll_witness:
  "zephyr_os_event_wait native_ze_event False (Some \<lparr>e_handle = Some 7, e_initialized = True\<rparr>) 1 False True 0 (Some 0) =
     ((- EBUSY, Some 0), Some \<lparr>e_handle = Some 0, e_initialized = True\<rparr>)"
  using zephyr_event_poll [OF ze_mask.ze_event_native_axioms, of "\<lparr>e_handle = Some 7, e_initialized = True\<rparr>" 7 1 False]
  by (auto simp: OS_EVENT_BITS_MASK_def)

end
