(* ===== verification/Kernel_Control.thy ===== *)
theory Kernel_Control
  imports Semaphore
begin

text \<open>
  Kernel control, memory and critical sections: \<open>kernel.c\<close>, \<open>memory.c\<close> and \<open>context.c\<close> of the
  FreeRTOS and RT-Thread backends and \<open>src/zephyr/kernel.c\<close>. A scheduler run is the list of kernel
  calls its tasks and interrupts make until \<open>vTaskEndScheduler\<close> takes effect.
\<close>

section \<open>FreeRTOS: starting and stopping the scheduler\<close>

text \<open>
  The two static flags, and the kernel's own state: whether \<open>xTaskGetSchedulerState()\<close> differs from
  \<open>taskSCHEDULER_NOT_STARTED\<close>.
\<close>

record fr_sched =
  scheduler_started_by_osal :: bool
  scheduler_stop_requested :: bool
  native_started :: bool

text \<open>The options \<open>INCLUDE_xTaskGetSchedulerState\<close> and \<open>CONFIG_OSAL_FREERTOS_SCHEDULER_STOP\<close>.\<close>

record fr_sched_config =
  has_scheduler_state :: bool
  scheduler_stop :: bool

definition os_kernel_scheduler_running :: "fr_sched_config \<Rightarrow> fr_sched \<Rightarrow> bool" where
  "os_kernel_scheduler_running C s =
     (if has_scheduler_state C then native_started s else scheduler_started_by_osal s)"

definition freertos_os_kernel_init :: "bool \<Rightarrow> int" where
  "freertos_os_kernel_init isr = (if isr then - EWOULDBLOCK else 0)"

text \<open>
  \<open>vTaskStartScheduler\<close> is a parameter: the state when it returns, or \<open>None\<close> when it does not.
\<close>

definition freertos_os_kernel_start ::
  "fr_sched_config \<Rightarrow> (fr_sched \<Rightarrow> fr_sched option) \<Rightarrow> bool \<Rightarrow> fr_sched \<Rightarrow> (int \<times> fr_sched) option" where
  "freertos_os_kernel_start C vTaskStartScheduler isr s =
     (if isr then Some (- EWOULDBLOCK, s)
      else if os_kernel_scheduler_running C s then Some (- EALREADY, s)
      else do {
        s \<leftarrow> vTaskStartScheduler (s\<lparr>scheduler_stop_requested := False, scheduler_started_by_osal := True\<rparr>);
        let s = s\<lparr>scheduler_started_by_osal := False\<rparr>;
        Some (if scheduler_stop_requested s then (0, s\<lparr>scheduler_stop_requested := False\<rparr>)
              else (- ENOMEM, s))
      })"

definition freertos_os_kernel_stop ::
  "fr_sched_config \<Rightarrow> (fr_sched \<Rightarrow> fr_sched) \<Rightarrow> bool \<Rightarrow> fr_sched \<Rightarrow> int \<times> fr_sched" where
  "freertos_os_kernel_stop C vTaskEndScheduler isr s =
     (if isr then (- EWOULDBLOCK, s)
      else if \<not> os_kernel_scheduler_running C s then (- EALREADY, s)
      else if scheduler_stop C then (0, vTaskEndScheduler (s\<lparr>scheduler_stop_requested := True\<rparr>))
      else (- ENOTSUP, s))"

subsection \<open>A scheduler run\<close>

datatype kernel_call = KInit bool | KStart bool | KStop bool

text \<open>A nested \<open>os_kernel_start\<close> is given a \<open>vTaskStartScheduler\<close> that never returns.\<close>

fun task_call :: "fr_sched_config \<Rightarrow> kernel_call \<Rightarrow> fr_sched \<Rightarrow> (int \<times> fr_sched) option" where
  "task_call C (KInit isr) s = Some (freertos_os_kernel_init isr, s)"
| "task_call C (KStart isr) s = freertos_os_kernel_start C (\<lambda>_. None) isr s"
| "task_call C (KStop isr) s =
     Some (freertos_os_kernel_stop C (\<lambda>s. s\<lparr>native_started := False\<rparr>) isr s)"

text \<open>
  The tasks' calls with their results, until the scheduler has ended; \<open>None\<close> when it has not after
  all of them.
\<close>

fun task_calls :: "fr_sched_config \<Rightarrow> kernel_call list \<Rightarrow> fr_sched \<Rightarrow> (int list \<times> fr_sched) option" where
  "task_calls C [] s = (if native_started s then None else Some ([], s))"
| "task_calls C (c # cs) s =
     (if \<not> native_started s then Some ([], s)
      else do {
        (r, s) \<leftarrow> task_call C c s;
        (rs, s) \<leftarrow> task_calls C cs s;
        Some (r # rs, s)
      })"

text \<open>
  \<open>vTaskStartScheduler\<close>: returns at once when the idle task cannot be created (\<open>ok = False\<close>),
  otherwise the tasks run.
\<close>

definition scheduler_run :: "fr_sched_config \<Rightarrow> bool \<Rightarrow> kernel_call list \<Rightarrow> fr_sched \<Rightarrow> fr_sched option" where
  "scheduler_run C ok cs s =
     (if \<not> ok then Some s else map_option snd (task_calls C cs (s\<lparr>native_started := True\<rparr>)))"

definition sched_idle :: fr_sched where
  "sched_idle = \<lparr>scheduler_started_by_osal = False, scheduler_stop_requested = False, native_started = False\<rparr>"

definition sched_running :: fr_sched where
  "sched_running = \<lparr>scheduler_started_by_osal = True, scheduler_stop_requested = False, native_started = True\<rparr>"

lemma running_calls:
  "os_kernel_scheduler_running C sched_running"
  "task_call C (KInit isr) sched_running = Some (if isr then - EWOULDBLOCK else 0, sched_running)"
  "task_call C (KStart isr) sched_running = Some (if isr then - EWOULDBLOCK else - EALREADY, sched_running)"
  "task_call C (KStop isr) sched_running =
     Some (if isr then (- EWOULDBLOCK, sched_running)
           else if scheduler_stop C then (0, \<lparr>scheduler_started_by_osal = True, scheduler_stop_requested = True, native_started = False\<rparr>)
           else (- ENOTSUP, sched_running))"
  by (simp_all add: sched_running_def os_kernel_scheduler_running_def freertos_os_kernel_init_def
      freertos_os_kernel_start_def freertos_os_kernel_stop_def)

lemma sched_running_native [simp]: "native_started sched_running"
  by (simp add: sched_running_def)

text \<open>The results of the calls of a run up to the stop that ends it.\<close>

fun call_result :: "fr_sched_config \<Rightarrow> kernel_call \<Rightarrow> int" where
  "call_result C (KInit isr) = (if isr then - EWOULDBLOCK else 0)"
| "call_result C (KStart isr) = (if isr then - EWOULDBLOCK else - EALREADY)"
| "call_result C (KStop isr) = (if isr then - EWOULDBLOCK else if scheduler_stop C then 0 else - ENOTSUP)"

definition stops :: "fr_sched_config \<Rightarrow> kernel_call \<Rightarrow> bool" where
  "stops C c \<longleftrightarrow> scheduler_stop C \<and> c = KStop False"

lemma task_calls_running:
  "task_calls C cs sched_running =
     (if \<exists>c \<in> set cs. stops C c
      then Some (map (call_result C) (takeWhile (\<lambda>c. \<not> stops C c) cs) @ [0],
             \<lparr>scheduler_started_by_osal = True, scheduler_stop_requested = True, native_started = False\<rparr>)
      else None)"
proof (induction cs)
  case (Cons c cs)
  let ?s = "\<lparr>scheduler_started_by_osal = True, scheduler_stop_requested = True, native_started = False\<rparr>"
  have stopped: "task_calls C cs ?s = Some ([], ?s)" by (cases cs) simp_all
  show ?case
  proof (cases "stops C c")
    case True
    then show ?thesis using stopped by (simp add: stops_def running_calls del: task_call.simps)
  next
    case False
    have "task_call C c sched_running = Some (call_result C c, sched_running)"
      using False by (cases c) (auto simp: stops_def running_calls simp del: task_call.simps)
    then show ?thesis using False Cons.IH by (auto simp del: task_call.simps)
  qed
qed simp

section \<open>RT-Thread and Zephyr\<close>

text \<open>
  \<open>self\<close> is whether \<open>rt_thread_self()\<close> is a thread; \<open>rt_system_scheduler_start\<close> returns only on
  failure.
\<close>

definition rt_os_kernel_init :: "bool \<Rightarrow> int" where
  "rt_os_kernel_init isr = (if isr then - EWOULDBLOCK else 0)"

definition rt_os_kernel_start :: "bool \<Rightarrow> bool \<Rightarrow> ('k \<Rightarrow> 'k option) \<Rightarrow> 'k \<Rightarrow> (int \<times> 'k) option" where
  "rt_os_kernel_start isr self rt_system_scheduler_start k =
     (if isr then Some (- EWOULDBLOCK, k)
      else if self then Some (- EALREADY, k)
      else map_option (Pair (- EIO)) (rt_system_scheduler_start k))"

definition rt_os_kernel_stop :: "bool \<Rightarrow> bool \<Rightarrow> int" where
  "rt_os_kernel_stop isr self = (if isr then - EWOULDBLOCK else if \<not> self then - EALREADY else - ENOTSUP)"

definition zephyr_os_kernel_init :: "bool \<Rightarrow> int" where
  "zephyr_os_kernel_init isr = (if isr then - EWOULDBLOCK else 0)"

definition zephyr_os_kernel_start :: "bool \<Rightarrow> int" where
  "zephyr_os_kernel_start isr = (if isr then - EWOULDBLOCK else - EALREADY)"

definition zephyr_os_kernel_stop :: "bool \<Rightarrow> int" where
  "zephyr_os_kernel_stop isr = (if isr then - EWOULDBLOCK else - ENOTSUP)"

text \<open>On a running kernel the three backends refuse the same calls with the same codes.\<close>

lemma kernel_control_agrees:
  "zephyr_os_kernel_init isr = freertos_os_kernel_init isr"
  "rt_os_kernel_init isr = freertos_os_kernel_init isr"
  "rt_os_kernel_start isr True f k = Some (zephyr_os_kernel_start isr, k)"
  "freertos_os_kernel_start C g isr sched_running = Some (zephyr_os_kernel_start isr, sched_running)"
  "rt_os_kernel_stop isr True = zephyr_os_kernel_stop isr"
  "\<not> scheduler_stop C \<Longrightarrow>
   freertos_os_kernel_stop C e isr sched_running = (zephyr_os_kernel_stop isr, sched_running)"
  by (simp_all add: zephyr_os_kernel_init_def freertos_os_kernel_init_def rt_os_kernel_init_def
      rt_os_kernel_start_def zephyr_os_kernel_start_def freertos_os_kernel_start_def running_calls
      rt_os_kernel_stop_def zephyr_os_kernel_stop_def freertos_os_kernel_stop_def)

section \<open>Properties\<close>

text \<open>C32: Starting an idle FreeRTOS kernel: \<open>os_kernel_start\<close> returns -ENOMEM when the kernel cannot
  start; otherwise it returns exactly when stopping is configured and some task calls
  \<open>os_kernel_stop\<close> outside an interrupt, then with 0 and with the module idle again, so that it
  can be started anew. Every call up to then gets the documented code: -EWOULDBLOCK from an
  interrupt, -EALREADY for a second start, -ENOTSUP for an unconfigured stop.\<close>

theorem kernel_start_returns:
  "freertos_os_kernel_start C (scheduler_run C ok cs) False sched_idle =
     (if \<not> ok then Some (- ENOMEM, sched_idle)
      else if \<exists>c \<in> set cs. stops C c then Some (0, sched_idle) else None)
   \<and> map_option fst (task_calls C cs sched_running) =
       (if \<exists>c \<in> set cs. stops C c
        then Some (map (call_result C) (takeWhile (\<lambda>c. \<not> stops C c) cs) @ [0]) else None)"
proof -
  have idle: "\<not> os_kernel_scheduler_running C sched_idle"
    by (simp add: sched_idle_def os_kernel_scheduler_running_def)
  have set: "sched_idle\<lparr>scheduler_stop_requested := False, scheduler_started_by_osal := True\<rparr> =
      \<lparr>scheduler_started_by_osal = True, scheduler_stop_requested = False, native_started = False\<rparr>"
    by (simp add: sched_idle_def)
  have run: "scheduler_run C True cs
      \<lparr>scheduler_started_by_osal = True, scheduler_stop_requested = False, native_started = False\<rparr> =
      map_option snd (task_calls C cs sched_running)"
    by (simp add: scheduler_run_def sched_running_def)
  show ?thesis
  proof (cases ok)
    case False
    then show ?thesis using idle
      by (simp add: freertos_os_kernel_start_def set scheduler_run_def task_calls_running)
        (simp add: sched_idle_def)
  next
    case True
    then show ?thesis using idle
      by (simp add: freertos_os_kernel_start_def set run task_calls_running)
        (simp add: sched_idle_def)
  qed
qed

section \<open>Memory\<close>

text \<open>The native heaps: \<open>malloc\<close> returns a non-null address or NULL.\<close>

record 'k native_heap =
  heap_malloc :: "nat \<Rightarrow> 'k \<Rightarrow> nat option \<times> 'k"
  heap_free :: "nat \<Rightarrow> 'k \<Rightarrow> 'k"

definition freertos_os_malloc :: "'k native_heap \<Rightarrow> bool \<Rightarrow> nat \<Rightarrow> 'k \<Rightarrow> nat option \<times> 'k" where
  "freertos_os_malloc H isr n k = (if n = 0 \<or> isr then (None, k) else heap_malloc H n k)"

definition freertos_os_free :: "'k native_heap \<Rightarrow> bool \<Rightarrow> nat option \<Rightarrow> 'k \<Rightarrow> 'k" where
  "freertos_os_free H isr ptr k =
     (case ptr of None \<Rightarrow> k | Some p \<Rightarrow> if isr then k else heap_free H p k)"

text \<open>The option is \<open>RT_USING_HEAP\<close>; \<open>rt_size_t\<close> is 32 bits wide on the targets modelled.\<close>

definition rt_os_malloc :: "bool \<Rightarrow> 'k native_heap \<Rightarrow> bool \<Rightarrow> nat \<Rightarrow> 'k \<Rightarrow> nat option \<times> 'k" where
  "rt_os_malloc using_heap H isr n k =
     (if using_heap \<and> n \<noteq> 0 \<and> \<not> isr then heap_malloc H n k else (None, k))"

definition rt_os_free :: "bool \<Rightarrow> 'k native_heap \<Rightarrow> bool \<Rightarrow> nat option \<Rightarrow> 'k \<Rightarrow> 'k" where
  "rt_os_free using_heap H isr ptr k =
     (case ptr of None \<Rightarrow> k | Some p \<Rightarrow> if using_heap \<and> \<not> isr then heap_free H p k else k)"

lemma rt_memory_agrees:
  "rt_os_malloc True H = freertos_os_malloc H" "rt_os_free True H = freertos_os_free H"
  by (auto simp: fun_eq_iff rt_os_malloc_def freertos_os_malloc_def rt_os_free_def freertos_os_free_def
      split: option.split)

text \<open>An interrupt cannot free: the block stays allocated.\<close>

lemma free_in_isr: "freertos_os_free H True ptr k = k" "rt_os_free u H True ptr k = k"
  by (simp_all add: freertos_os_free_def rt_os_free_def split: option.split)

section \<open>Critical sections\<close>

text \<open>
  The interrupt state: a mask saved and restored, FreeRTOS's nesting count of task-level sections,
  and whether the code runs in an interrupt.
\<close>

record critical_key =
  ck_value :: nat
  ck_from_isr :: bool

record irq_state =
  irq_mask :: nat
  critical_nesting :: nat

record irq_port =
  set_mask :: "nat \<Rightarrow> nat"
  xPortIsInsideInterrupt :: nat
  rt_interrupt_get_nest :: nat

definition freertos_os_is_in_isr :: "irq_port \<Rightarrow> bool" where
  "freertos_os_is_in_isr P \<longleftrightarrow> xPortIsInsideInterrupt P \<noteq> 0"

definition rt_os_is_in_isr :: "irq_port \<Rightarrow> bool" where
  "rt_os_is_in_isr P \<longleftrightarrow> rt_interrupt_get_nest P \<noteq> 0"

text \<open>
  \<open>portSET_INTERRUPT_MASK_FROM_ISR\<close> and \<open>rt_hw_interrupt_disable\<close> raise the mask to
  \<open>set_mask\<close> of it and return the old one; \<open>taskENTER_CRITICAL\<close> counts its nesting.
\<close>

definition freertos_os_enter_critical :: "irq_port \<Rightarrow> irq_state \<Rightarrow> critical_key \<times> irq_state" where
  "freertos_os_enter_critical P s =
     (if freertos_os_is_in_isr P
      then (\<lparr>ck_value = irq_mask s, ck_from_isr = True\<rparr>, s\<lparr>irq_mask := set_mask P (irq_mask s)\<rparr>)
      else (\<lparr>ck_value = 0, ck_from_isr = False\<rparr>, s\<lparr>critical_nesting := critical_nesting s + 1\<rparr>))"

definition freertos_os_exit_critical :: "critical_key \<Rightarrow> irq_state \<Rightarrow> irq_state" where
  "freertos_os_exit_critical key s =
     (if ck_from_isr key then s\<lparr>irq_mask := ck_value key\<rparr>
      else s\<lparr>critical_nesting := critical_nesting s - 1\<rparr>)"

definition rt_os_enter_critical :: "irq_port \<Rightarrow> irq_state \<Rightarrow> critical_key \<times> irq_state" where
  "rt_os_enter_critical P s =
     (\<lparr>ck_value = irq_mask s, ck_from_isr = rt_os_is_in_isr P\<rparr>, s\<lparr>irq_mask := set_mask P (irq_mask s)\<rparr>)"

definition rt_os_exit_critical :: "critical_key \<Rightarrow> irq_state \<Rightarrow> irq_state" where
  "rt_os_exit_critical key s = s\<lparr>irq_mask := ck_value key\<rparr>"

text \<open>Sections nested \<open>n\<close> deep, each left with its own key, in reverse order.\<close>

fun nest_sections :: "('s \<Rightarrow> 'key \<times> 's) \<Rightarrow> ('key \<Rightarrow> 's \<Rightarrow> 's) \<Rightarrow> nat \<Rightarrow> 's \<Rightarrow> 's" where
  "nest_sections enter leave 0 s = s"
| "nest_sections enter leave (Suc n) s =
     (let (key, s) = enter s in leave key (nest_sections enter leave n s))"

text \<open>What a critical section needs of the two calls, whatever it nests.\<close>

locale critical_section =
  fixes enter :: "'s \<Rightarrow> 'key \<times> 's" and leave :: "'key \<Rightarrow> 's \<Rightarrow> 's" and masked :: "'s \<Rightarrow> bool"
  assumes enter_masks: "masked (snd (enter s))"
    and leave_restores: "leave (fst (enter s)) (snd (enter s)) = s"
begin

lemma nest_restores: "nest_sections enter leave n s = s"
  by (induction n arbitrary: s) (simp_all add: split_beta leave_restores)

end

interpretation fr_critical: critical_section "freertos_os_enter_critical P" freertos_os_exit_critical
    "\<lambda>s. freertos_os_is_in_isr P \<and> (\<exists>m. irq_mask s = set_mask P m) \<or> 0 < critical_nesting s"
  for P
  by unfold_locales (auto simp: freertos_os_enter_critical_def freertos_os_exit_critical_def)

interpretation rt_critical: critical_section "rt_os_enter_critical P" rt_os_exit_critical
    "\<lambda>s. \<exists>m. irq_mask s = set_mask P m"
  for P
  by unfold_locales (auto simp: rt_os_enter_critical_def rt_os_exit_critical_def)

end
