(* ===== verification/Rt_Names.thy ===== *)
theory Rt_Names
  imports Osal_Prelude
begin

text \<open>
  The helpers of the RT-Thread backend: priorities (\<open>src/osal_rtthread/internal.h\<close>) and the
  names of native objects (\<open>src/osal_rtthread/name.c\<close>). \<open>RT_THREAD_PRIORITY_MAX\<close> and
  \<open>RT_NAME_MAX\<close> are arguments.
\<close>

section \<open>Priorities\<close>

text \<open>Portable priorities grow upwards, RT-Thread's downwards; out of range ones are clamped.\<close>

definition os_to_rt_priority :: "nat \<Rightarrow> int \<Rightarrow> 8 word" where
  "os_to_rt_priority prio_max priority =
     (let priority = (if priority < 0 then 0 else priority);
          priority = (if priority \<ge> int prio_max then int prio_max - 1 else priority)
      in of_int (int prio_max - 1 - priority))"

definition rt_to_os_priority :: "nat \<Rightarrow> 8 word \<Rightarrow> int" where
  "rt_to_os_priority prio_max priority = sint (of_nat prio_max - 1 - ucast priority :: u32)"

lemma unat_os_to_rt:
  assumes "0 < n" "n \<le> 256"
  shows "unat (os_to_rt_priority n p) = nat (int n - 1 - max 0 (min (int n - 1) p))"
proof -
  let ?v = "int n - 1 - max 0 (min (int n - 1) p)"
  have v: "0 \<le> ?v" "?v < 256" using assms by auto
  have "(if int n \<le> (if p < 0 then 0 else p) then int n - 1 else if p < 0 then 0 else p) =
      max 0 (min (int n - 1) p)" using assms(1) by auto
  then have "os_to_rt_priority n p = of_int ?v"
    by (simp only: os_to_rt_priority_def Let_def)
  moreover have "unat (of_int ?v :: 8 word) = nat ?v"
    using v by (simp only: unsigned_of_int) (simp add: take_bit_int_eq_self del: of_int_diff)
  ultimately show ?thesis by simp
qed

lemma small_signed: "0 \<le> v \<Longrightarrow> v < 256 \<Longrightarrow> signed_take_bit 31 v = (v :: int)"
  by (simp add: signed_take_bit_int_eq_self)

lemma rt_to_os_value:
  assumes "n \<le> 256" "unat p < n"
  shows "rt_to_os_priority n p = int n - 1 - int (unat p)"
proof -
  let ?v = "int n - 1 - int (unat p)"
  have "ucast p = (of_int (int (unat p)) :: u32)" by simp
  then have "of_nat n - 1 - ucast p = (of_int ?v :: u32)" by (simp only: of_int_diff of_int_of_nat_eq of_int_1)
  moreover have "sint (of_int ?v :: u32) = signed_take_bit 31 ?v" by (simp only: signed_of_int) simp
  moreover have "0 \<le> ?v" "?v < 256" using assms by linarith+
  then have "signed_take_bit 31 ?v = ?v" by (rule small_signed)
  ultimately show ?thesis by (simp only: rt_to_os_priority_def)
qed

section \<open>Names\<close>

definition os_rt_hash_mix :: "u32 \<Rightarrow> u32" where
  "os_rt_hash_mix value =
     (let value = value XOR drop_bit 16 value;
          value = value * 0x7feb352d;
          value = value XOR drop_bit 15 value;
          value = value * 0x846ca68b
      in value XOR drop_bit 16 value)"

fun salt_loop :: "string \<Rightarrow> u32 \<Rightarrow> u32" where
  "salt_loop [] hash = hash"
| "salt_loop (c # salt) hash = salt_loop salt ((hash XOR of_char c) * 16777619)"

text \<open>
  The three formats of \<open>rt_snprintf\<close>: \<open>osal-%s-%08x\<close>, \<open>o%08x\<close> and \<open>%08x\<close>. \<open>rt_snprintf\<close> is
  a parameter: what it leaves in a buffer of the given size.
\<close>

datatype name_format = FormatKind string u32 | FormatO u32 | FormatHash u32

text \<open>
  \<open>wide\<close> is \<open>UINTPTR_MAX > UINT32_MAX\<close>; \<open>sequence\<close> is \<open>os_rt_name_sequence\<close>, whose new value is
  returned with the name.
\<close>

definition os_rt_name_generate ::
  "(nat \<Rightarrow> name_format \<Rightarrow> string) \<Rightarrow> nat \<Rightarrow> bool \<Rightarrow> u32 \<Rightarrow> string \<Rightarrow> u64 \<Rightarrow> string option \<Rightarrow> u32 \<Rightarrow> string \<times> u32" where
  "os_rt_name_generate rt_snprintf name_max wide tick kind address salt sequence =
     (let sequence = sequence + 1;
          hash = sequence;
          hash = hash XOR ucast address;
          hash = (if wide then hash XOR ucast (drop_bit 32 address) else hash);
          hash = hash XOR tick;
          hash = (case salt of None \<Rightarrow> hash | Some salt \<Rightarrow> salt_loop salt hash);
          hash = os_rt_hash_mix hash
      in (if name_max \<ge> 20 then rt_snprintf name_max (FormatKind kind hash)
          else if name_max \<ge> 10 then rt_snprintf name_max (FormatO hash)
          else rt_snprintf name_max (FormatHash hash), sequence))"

subsection \<open>The hash\<close>

lemma inj_left_inverse: "(\<And>x. g (f x) = x) \<Longrightarrow> inj f"
  by (metis injI)

lemma xorshift16: "inj (\<lambda>x :: u32. x XOR drop_bit 16 x)"
  by (rule inj_left_inverse [where g = "\<lambda>x. x XOR drop_bit 16 x"])
    (rule bit_word_eqI, auto simp: bit_simps)

lemma xorshift15: "inj (\<lambda>x :: u32. x XOR drop_bit 15 x)"
  by (rule inj_left_inverse [where g = "\<lambda>x. x XOR drop_bit 15 x XOR drop_bit 30 x"])
    (rule bit_word_eqI, auto simp: bit_simps)

lemma mult_inj: "a * b = 1 \<Longrightarrow> inj (\<lambda>x :: u32. x * a)"
  by (rule inj_left_inverse [where g = "\<lambda>x. x * b"]) (simp add: mult.assoc)

lemma os_rt_hash_mix_inj: "inj os_rt_hash_mix"
proof -
  have m1: "inj (\<lambda>x :: u32. x * 0x7feb352d)" by (rule mult_inj [where b = "0x1d69e2a5"]) simp
  have m2: "inj (\<lambda>x :: u32. x * 0x846ca68b)" by (rule mult_inj [where b = "0x43021123"]) simp
  have eq: "os_rt_hash_mix = (\<lambda>x. x XOR drop_bit 16 x) \<circ> (\<lambda>x. x * 0x846ca68b) \<circ> (\<lambda>x. x XOR drop_bit 15 x)
      \<circ> (\<lambda>x. x * 0x7feb352d) \<circ> (\<lambda>x. x XOR drop_bit 16 x)"
    by (simp add: fun_eq_iff os_rt_hash_mix_def Let_def)
  show ?thesis unfolding eq by (intro inj_compose xorshift16 xorshift15 m1 m2)
qed

lemma xor_cancel: "(a :: u32) XOR c = b XOR c \<Longrightarrow> a = b"
  by (metis xor.assoc xor.right_neutral xor_self_eq)

lemma salt_loop_inj: "salt_loop salt x = salt_loop salt y \<Longrightarrow> x = y"
proof (induction salt arbitrary: x y)
  case (Cons c salt)
  have "inj (\<lambda>x :: u32. x * 16777619)" by (rule mult_inj [where b = "0x359c449b"]) simp
  moreover have "(x XOR of_char c) * 16777619 = (y XOR of_char c) * 16777619"
    using Cons.IH Cons.prems by simp
  ultimately have "x XOR of_char c = y XOR of_char c" by (rule injD)
  then show ?case by (rule xor_cancel)
qed simp

subsection \<open>What formatting does\<close>

definition hex_digit :: "nat \<Rightarrow> char" where
  "hex_digit d = ''0123456789abcdef'' ! d"

fun hex_string :: "nat \<Rightarrow> nat \<Rightarrow> string" where
  "hex_string 0 v = []"
| "hex_string (Suc n) v = hex_string n (v div 16) @ [hex_digit (v mod 16)]"

fun formatted :: "name_format \<Rightarrow> string" where
  "formatted (FormatKind kind hash) = ''osal-'' @ kind @ ''-'' @ hex_string 8 (unat hash)"
| "formatted (FormatO hash) = ''o'' @ hex_string 8 (unat hash)"
| "formatted (FormatHash hash) = hex_string 8 (unat hash)"

text \<open>\<open>rt_snprintf\<close>, as documented: the formatted text, cut to the buffer less its terminator.\<close>

locale rt_format =
  fixes rt_snprintf :: "nat \<Rightarrow> name_format \<Rightarrow> string"
  assumes snprintf: "0 < n \<Longrightarrow> rt_snprintf n f = take (n - 1) (formatted f)"

lemma length_hex [simp]: "length (hex_string n v) = n"
  by (induction n arbitrary: v) simp_all

lemma hex_digit_inj: "a < 16 \<Longrightarrow> b < 16 \<Longrightarrow> hex_digit a = hex_digit b \<Longrightarrow> a = b"
proof -
  have d: "distinct ''0123456789abcdef''" by simp
  show "a < 16 \<Longrightarrow> b < 16 \<Longrightarrow> hex_digit a = hex_digit b \<Longrightarrow> a = b"
    using nth_eq_iff_index_eq [OF d, of a b] by (simp add: hex_digit_def)
qed

lemma hex_string_inj: "hex_string n v = hex_string n w \<Longrightarrow> v < 16 ^ n \<Longrightarrow> w < 16 ^ n \<Longrightarrow> v = w"
proof (induction n arbitrary: v w)
  case (Suc n)
  then have "v div 16 = w div 16" "v mod 16 = w mod 16"
    by (auto intro: hex_digit_inj simp: less_mult_imp_div_less mult.commute)
  then show ?case by (metis div_mult_mod_eq)
qed simp

lemma hex8_inj: "hex_string 8 (unat (v :: u32)) = hex_string 8 (unat (w :: u32)) \<Longrightarrow> v = w"
  using hex_string_inj [of 8 "unat v" "unat w"] unsigned_less [of v] unsigned_less [of w]
  by (simp add: word_unat_eq_iff)

subsection \<open>Formatted hashes\<close>

definition osal_kinds :: "string list" where
  "osal_kinds = [''thr'', ''wait'', ''done'', ''mutex'', ''event'', ''sem'']"

lemma osal_kinds_short: "kind \<in> set osal_kinds \<Longrightarrow> length kind \<le> 5"
  by (auto simp: osal_kinds_def)

context rt_format
begin

lemma generated_short:
  "0 < name_max \<Longrightarrow> length (fst (os_rt_name_generate rt_snprintf name_max wide tick kind address salt s)) < name_max"
  by (auto simp: os_rt_name_generate_def Let_def snprintf min_def)

text \<open>The name determines the hash when the buffer has room for its eight digits.\<close>

lemma formatted_inj:
  assumes kind: "kind \<in> set osal_kinds" and room: "9 \<le> name_max"
    and f: "f = (if name_max \<ge> 20 then FormatKind kind else if name_max \<ge> 10 then FormatO else FormatHash)"
    and eq: "rt_snprintf name_max (f v) = rt_snprintf name_max (f w)"
  shows "v = w"
proof -
  have "length (formatted (f x)) \<le> name_max - 1" for x
    using osal_kinds_short [OF kind] room by (cases "20 \<le> name_max"; cases "10 \<le> name_max") (simp add: f; linarith)+
  then have "rt_snprintf name_max (f x) = formatted (f x)" for x
    using room by (simp add: snprintf)
  then have "formatted (f v) = formatted (f w)" using eq by simp
  then have "hex_string 8 (unat v) = hex_string 8 (unat w)" by (simp add: f split: if_splits)
  then show ?thesis by (rule hex8_inj)
qed

lemma generated_inj:
  assumes kind: "kind \<in> set osal_kinds" and room: "9 \<le> name_max"
    and eq: "fst (os_rt_name_generate rt_snprintf name_max wide tick kind address salt s) =
             fst (os_rt_name_generate rt_snprintf name_max wide tick kind address salt s')"
  shows "s = s'"
proof -
  let ?f = "if name_max \<ge> 20 then FormatKind kind else if name_max \<ge> 10 then FormatO else FormatHash"
  let ?w = "if wide then ucast (drop_bit 32 address) else 0 :: u32"
  let ?salt = "\<lambda>h. case salt of None \<Rightarrow> h | Some salt \<Rightarrow> salt_loop salt h"
  let ?pre = "\<lambda>s. (((s + 1) XOR ucast address) XOR ?w) XOR tick"
  have name: "fst (os_rt_name_generate rt_snprintf name_max wide tick kind address salt s) =
      rt_snprintf name_max (?f (os_rt_hash_mix (?salt (?pre s))))" for s
    by (cases wide; cases salt) (simp_all add: os_rt_name_generate_def Let_def)
  have "os_rt_hash_mix (?salt (?pre s)) = os_rt_hash_mix (?salt (?pre s'))"
    by (rule formatted_inj [OF kind room refl]) (use eq name in simp)
  then have "?salt (?pre s) = ?salt (?pre s')" by (rule injD [OF os_rt_hash_mix_inj])
  then have "?pre s = ?pre s'" by (cases salt) (auto dest: salt_loop_inj)
  then have "s + 1 = s' + 1" by (blast dest: xor_cancel)
  then show ?thesis by simp
qed

end

definition reference_snprintf :: "nat \<Rightarrow> name_format \<Rightarrow> string" where
  "reference_snprintf n f = take (n - 1) (formatted f)"

interpretation reference_format: rt_format reference_snprintf
  by unfold_locales (simp add: reference_snprintf_def)

section \<open>Properties\<close>

text \<open>The two priority maps: a portable priority mapped to RT-Thread and back is itself clamped
  to the valid range, a native one mapped to a portable one and back is itself, the native value
  is always below \<open>RT_THREAD_PRIORITY_MAX\<close>, and a higher portable priority never gets a native
  priority of lower urgency.\<close>

theorem rt_priority_roundtrip:
  assumes "0 < n" and "n \<le> 256"
  shows "rt_to_os_priority n (os_to_rt_priority n p) = max 0 (min (int n - 1) p)
       \<and> unat (os_to_rt_priority n p) < n
       \<and> (p \<le> q \<longrightarrow> unat (os_to_rt_priority n q) \<le> unat (os_to_rt_priority n p))
       \<and> (unat r < n \<longrightarrow> os_to_rt_priority n (rt_to_os_priority n r) = r)"
proof -
  note nat_prio = unat_os_to_rt [OF assms]
  have lt: "unat (os_to_rt_priority n p) < n" for p
    using assms(1) nat_prio [of p] by linarith
  have rt_os: "rt_to_os_priority n (os_to_rt_priority n p) = max 0 (min (int n - 1) p)"
    using rt_to_os_value [OF assms(2) lt [of p]] nat_prio [of p] assms(1) by (simp add: max_def min_def)
  have "os_to_rt_priority n (rt_to_os_priority n r) = r" if r: "unat r < n"
  proof -
    have "unat (os_to_rt_priority n (rt_to_os_priority n r)) = unat r"
      using r nat_prio [of "int n - 1 - int (unat r)"] by (simp only: rt_to_os_value [OF assms(2) r])
    then show ?thesis by (simp only: word_unat_eq_iff)
  qed
  moreover have "p \<le> q \<Longrightarrow> unat (os_to_rt_priority n q) \<le> unat (os_to_rt_priority n p)"
    by (simp only: nat_prio)
  ultimately show ?thesis using rt_os lt by blast
qed

theorem rt_priority_roundtrip_witness:
  "rt_to_os_priority 32 (os_to_rt_priority 32 40) = 31 \<and> rt_to_os_priority 32 (os_to_rt_priority 32 5) = 5"
  using rt_priority_roundtrip [of 32 40 0 0] rt_priority_roundtrip [of 32 5 0 0] by simp

text \<open>The names the backend generates always fit \<open>RT_NAME_MAX\<close> with their terminator, and for one
  object, tick and salt no two of the 2^32 values of the sequence counter give the same name, as
  long as \<open>RT_NAME_MAX\<close> is at least 9; with 8, the hash loses a digit and names repeat.\<close>

theorem rt_names_distinct:
  assumes "rt_format P" and "kind \<in> set osal_kinds" and "9 \<le> name_max"
  shows "length (fst (os_rt_name_generate P name_max wide tick kind address salt s)) < name_max
       \<and> (fst (os_rt_name_generate P name_max wide tick kind address salt s) =
          fst (os_rt_name_generate P name_max wide tick kind address salt s') \<longleftrightarrow> s = s')"
proof -
  have "0 < name_max" using assms(3) by simp
  then show ?thesis
    using rt_format.generated_short [OF assms(1)] rt_format.generated_inj [OF assms] by blast
qed

theorem rt_names_distinct_witness:
  "fst (os_rt_name_generate reference_snprintf 20 False 0 ''mutex'' 0 None 0) \<noteq>
   fst (os_rt_name_generate reference_snprintf 20 False 0 ''mutex'' 0 None 1)"
  using rt_names_distinct [OF reference_format.rt_format_axioms, of "''mutex''" 20 False 0 0 None 0 1]
  by (simp add: osal_kinds_def)

end
