(* ===== verification/Rt_Threads.thy ===== *)
theory Rt_Threads
  imports Mutex_Sections Rt_Names
begin

text \<open>
  Threads and wait queues of the RT-Thread backend: \<open>src/osal_rtthread/thread.c\<close> and \<open>waitq.c\<close>,
  on the portable \<open>os_thread\<close> of \<open>Thread_FreeRTOS\<close>, whose fields the two backends share. A
  thread's two embedded semaphores are named by the thread; its \<open>completion_handle\<close> points to one
  of them. The RT-Thread kernel is the parameter \<open>R\<close> over its state \<open>'k\<close>; beside it the backend
  keeps the counter of \<open>name.c\<close>. What other threads do during a wait is a parameter of the whole
  calls.
\<close>

section \<open>The RT-Thread kernel\<close>

datatype rt_sem_id = WaitSem nat | CompletionSem nat

datatype rt_object = ThreadObject nat | SemObject rt_sem_id

text \<open>The results of \<open>rt_sem_take\<close>: \<open>RT_EOK\<close>, \<open>-RT_ETIMEOUT\<close>, any other error.\<close>

datatype rt_taken = RtOk | RtTimeout | RtError

record ('h, 'k) rt_threads =
  rt_priority_max :: nat
  rt_name_max :: nat
  rt_wide_address :: bool
  rt_using_heap :: bool
  rt_waiting_forever :: u32
  rt_printf :: "nat \<Rightarrow> name_format \<Rightarrow> string"
  rt_address :: "rt_object \<Rightarrow> u64"
  rt_tick_get :: "'k \<Rightarrow> u32"
  rt_thread_self :: "'k \<Rightarrow> 'h option"
  rt_user_data :: "'h \<Rightarrow> 'k \<Rightarrow> nat option"
  rt_set_user_data :: "'h \<Rightarrow> nat \<Rightarrow> 'k \<Rightarrow> 'k"
  rt_current_priority :: "'h \<Rightarrow> 'k \<Rightarrow> 8 word"
  rt_change_priority :: "'h \<Rightarrow> 8 word \<Rightarrow> 'k \<Rightarrow> 'k"
  rt_sem_init0 :: "rt_sem_id \<Rightarrow> string \<Rightarrow> 'k \<Rightarrow> bool \<times> 'k"
  rt_sem_limit1 :: "rt_sem_id \<Rightarrow> 'k \<Rightarrow> 'k"
  rt_sem_detach0 :: "rt_sem_id \<Rightarrow> 'k \<Rightarrow> 'k"
  rt_sem_release0 :: "rt_sem_id \<Rightarrow> 'k \<Rightarrow> 'k"
  rt_sem_trytake0 :: "rt_sem_id \<Rightarrow> 'k \<Rightarrow> bool \<times> 'k"
  rt_tcb :: "nat \<Rightarrow> 'h"
  rt_thread_init :: "'h \<Rightarrow> string \<Rightarrow> nat \<Rightarrow> nat \<Rightarrow> u32 \<Rightarrow> 8 word \<Rightarrow> 'k \<Rightarrow> bool \<times> 'k"
  rt_thread_create :: "string \<Rightarrow> nat \<Rightarrow> u32 \<Rightarrow> 8 word \<Rightarrow> 'k \<Rightarrow> 'h option \<times> 'k"
  rt_thread_startup :: "'h \<Rightarrow> 'k \<Rightarrow> bool \<times> 'k"
  rt_thread_detach :: "'h \<Rightarrow> 'k \<Rightarrow> bool \<times> 'k"
  rt_thread_delete :: "'h \<Rightarrow> 'k \<Rightarrow> bool \<times> 'k"
  rt_is_systemobject :: "'h \<Rightarrow> 'k \<Rightarrow> bool"
  rt_thread_yield :: "'k \<Rightarrow> 'k"

record 'k rt_kern =
  name_sequence :: u32
  native :: 'k

type_synonym ('h, 'k) rt_osal = "('h, rt_sem_id, 'k rt_kern) osal"

definition run_native :: "('k \<Rightarrow> 'k) \<Rightarrow> ('h, 'k) rt_osal \<Rightarrow> ('h, 'k) rt_osal" where
  "run_native f m = m\<lparr>kern := (kern m)\<lparr>native := f (native (kern m))\<rparr>\<rparr>"

definition call_native :: "('k \<Rightarrow> 'r \<times> 'k) \<Rightarrow> ('h, 'k) rt_osal \<Rightarrow> 'r \<times> ('h, 'k) rt_osal" where
  "call_native f m = (fst (f (native (kern m))), run_native (snd \<circ> f) m)"

definition rt_name ::
  "('h, 'k) rt_threads \<Rightarrow> string \<Rightarrow> rt_object \<Rightarrow> string option \<Rightarrow> ('h, 'k) rt_osal \<Rightarrow> string \<times> ('h, 'k) rt_osal" where
  "rt_name R kind obj salt m =
     (let (name, s) = os_rt_name_generate (rt_printf R) (rt_name_max R) (rt_wide_address R)
                        (rt_tick_get R (native (kern m))) kind (rt_address R obj) salt (name_sequence (kern m))
      in (name, m\<lparr>kern := (kern m)\<lparr>name_sequence := s\<rparr>\<rparr>))"

definition rt_os_get_current_thread :: "('h, 'k) rt_threads \<Rightarrow> ('h, 'k) rt_osal \<Rightarrow> nat option" where
  "rt_os_get_current_thread R m =
     (case rt_thread_self R (native (kern m)) of
        None \<Rightarrow> None
      | Some h \<Rightarrow> rt_user_data R h (native (kern m)))"

definition rt_os_thread_get_priority :: "('h, 'k) rt_threads \<Rightarrow> nat option \<Rightarrow> ('h, 'k) rt_osal \<Rightarrow> int" where
  "rt_os_thread_get_priority R thread m =
     (case thread of
        None \<Rightarrow> - EINVAL
      | Some t \<Rightarrow>
          (case t_handle (th m t) of
             None \<Rightarrow> - EINVAL
           | Some h \<Rightarrow> rt_to_os_priority (rt_priority_max R) (rt_current_priority R h (native (kern m)))))"

section \<open>Wait queues\<close>

definition rt_waitq_position ::
  "('h, 'k) rt_threads \<Rightarrow> wait_queue \<Rightarrow> int \<Rightarrow> ('h, 'k) rt_osal \<Rightarrow> (unit + wait_addr option) option" where
  "rt_waitq_position R q priority m =
     sys_dlist_for_each_node (WaitList q) (waits m)
       (\<lambda>node _. case node of
          WaitList _ \<Rightarrow> Inr None
        | WaitNode queued \<Rightarrow>
            if priority > rt_os_thread_get_priority R (Some queued) m then Inr (Some node) else Inl ())
       ()"

definition os_rt_waitq_insert_locked ::
  "('h, 'k) rt_threads \<Rightarrow> wait_queue \<Rightarrow> nat \<Rightarrow> ('h, 'k) rt_osal \<Rightarrow> ('h, 'k) rt_osal option" where
  "os_rt_waitq_insert_locked R q t m =
     (case rt_waitq_position R q (rt_os_thread_get_priority R (Some t) m) m of
        Some (Inl ()) \<Rightarrow>
          map_option (\<lambda>h. m\<lparr>waits := h\<rparr>) (sys_dlist_append (WaitList q) (WaitNode t) (waits m))
      | Some (Inr (Some node)) \<Rightarrow>
          map_option (\<lambda>h. m\<lparr>waits := h\<rparr>) (sys_dlist_insert node (WaitNode t) (waits m))
      | _ \<Rightarrow> None)"

definition rt_os_waitq_init :: "wait_queue option \<Rightarrow> ('h, 'k) rt_osal \<Rightarrow> ('h, 'k) rt_osal" where
  "rt_os_waitq_init q m =
     (case q of None \<Rightarrow> m | Some q \<Rightarrow> m\<lparr>waits := sys_dlist_init (WaitList q) (waits m)\<rparr>)"

text \<open>\<open>os_waitq_block\<close>: the section before the wait and the one after it.\<close>

definition rt_block_section ::
  "('h, 'k) rt_threads \<Rightarrow> wait_queue \<Rightarrow> nat \<Rightarrow> ('h, 'k) rt_osal \<Rightarrow> ('h, 'k) rt_osal option" where
  "rt_block_section R q t m =
     os_rt_waitq_insert_locked R q t
       (upd_th t (\<lambda>T. T\<lparr>wait_q := Some q, wait_result := 0, t_state := OS_THREAD_PENDING\<rparr>) m)"

definition rt_return_section ::
  "nat \<Rightarrow> rt_taken \<Rightarrow> ('h, 'k) rt_osal \<Rightarrow> (int \<times> ('h, 'k) rt_osal) option" where
  "rt_return_section t result m =
     (if wait_q (th m t) \<noteq> None
      then do {
        m \<leftarrow> waitq_remove t m;
        Some (if result = RtTimeout then - ETIMEDOUT else - EAGAIN,
              upd_th t (\<lambda>T. T\<lparr>wait_q := None, t_state := OS_THREAD_READY\<rparr>) m)
      }
      else Some (sint (wait_result (th m t)), upd_th t (\<lambda>T. T\<lparr>t_state := OS_THREAD_READY\<rparr>) m))"

definition rt_os_waitq_block ::
  "('h, 'k) rt_threads \<Rightarrow> bool \<Rightarrow> (rt_sem_id \<Rightarrow> u32 \<Rightarrow> ('h, 'k) rt_osal \<Rightarrow> rt_taken \<times> ('h, 'k) rt_osal) \<Rightarrow>
   wait_queue option \<Rightarrow> u32 \<Rightarrow> ('h, 'k) rt_osal \<Rightarrow> (int \<times> ('h, 'k) rt_osal) option" where
  "rt_os_waitq_block R isr rt_sem_take q timeout m =
     (case q of
        None \<Rightarrow> Some (- EINVAL, m)
      | Some q \<Rightarrow>
          if isr then Some (- EWOULDBLOCK, m)
          else (case rt_os_get_current_thread R m of
                  None \<Rightarrow> Some (- EINVAL, m)
                | Some t \<Rightarrow> do {
                    m \<leftarrow> rt_block_section R q t m;
                    let (result, m) = rt_sem_take (WaitSem t)
                          (if timeout = OS_WAIT_FOREVER then rt_waiting_forever R else timeout) m;
                    rt_return_section t result m
                  }))"

definition rt_wake_first ::
  "('h, 'k) rt_threads \<Rightarrow> wait_queue \<Rightarrow> u32 \<Rightarrow> ('h, 'k) rt_osal \<Rightarrow> ('h, 'k) rt_osal option" where
  "rt_wake_first R q reason m = do {
     (t, m) \<leftarrow> waitq_get q m;
     let m = upd_th t (\<lambda>T. T\<lparr>wait_q := None, wait_result := reason, t_state := OS_THREAD_READY\<rparr>) m;
     Some (run_native (rt_sem_release0 R (WaitSem t)) m)
   }"

definition rt_wake_one_section ::
  "('h, 'k) rt_threads \<Rightarrow> wait_queue \<Rightarrow> u32 \<Rightarrow> ('h, 'k) rt_osal \<Rightarrow> ('h, 'k) rt_osal option" where
  "rt_wake_one_section R q reason m =
     (if sys_dlist_is_empty (WaitList q) (waits m) then Some m else rt_wake_first R q reason m)"

definition rt_os_waitq_wake_one ::
  "('h, 'k) rt_threads \<Rightarrow> wait_queue option \<Rightarrow> u32 \<Rightarrow> ('h, 'k) rt_osal \<Rightarrow> ('h, 'k) rt_osal option" where
  "rt_os_waitq_wake_one R q reason m =
     (case q of None \<Rightarrow> Some m | Some q \<Rightarrow> rt_wake_one_section R q reason m)"

partial_function (option) rt_wake_all_loop ::
  "('h, 'k) rt_threads \<Rightarrow> wait_queue \<Rightarrow> u32 \<Rightarrow> ('h, 'k) rt_osal \<Rightarrow> ('h, 'k) rt_osal option" where
  "rt_wake_all_loop R q reason m =
     (if sys_dlist_is_empty (WaitList q) (waits m) then Some m
      else do {
        m \<leftarrow> rt_wake_first R q reason m;
        rt_wake_all_loop R q reason m
      })"

definition rt_os_waitq_wake_all ::
  "('h, 'k) rt_threads \<Rightarrow> wait_queue option \<Rightarrow> u32 \<Rightarrow> ('h, 'k) rt_osal \<Rightarrow> ('h, 'k) rt_osal option" where
  "rt_os_waitq_wake_all R q reason m =
     (case q of None \<Rightarrow> Some m | Some q \<Rightarrow> rt_wake_all_loop R q reason m)"

section \<open>Creating threads\<close>

text \<open>The two semaphores: initialised with value 0 and limited to 1, or none of them.\<close>

definition rt_create_sems ::
  "('h, 'k) rt_threads \<Rightarrow> nat \<Rightarrow> string \<Rightarrow> string \<Rightarrow> ('h, 'k) rt_osal \<Rightarrow> bool \<times> ('h, 'k) rt_osal" where
  "rt_create_sems R t wait_name completion_name m =
     (let (ok, m) = call_native (rt_sem_init0 R (WaitSem t) wait_name) m
      in if \<not> ok then (False, m)
         else
           let m = run_native (rt_sem_limit1 R (WaitSem t)) m;
               (ok, m) = call_native (rt_sem_init0 R (CompletionSem t) completion_name) m
           in if \<not> ok then (False, run_native (rt_sem_detach0 R (WaitSem t)) m)
              else
                let m = run_native (rt_sem_limit1 R (CompletionSem t)) m
                in (True, upd_th t (\<lambda>T. T\<lparr>completion_handle := Some (CompletionSem t)\<rparr>) m))"

definition rt_detach_sems :: "('h, 'k) rt_threads \<Rightarrow> nat \<Rightarrow> ('h, 'k) rt_osal \<Rightarrow> ('h, 'k) rt_osal" where
  "rt_detach_sems R t m =
     run_native (rt_sem_detach0 R (WaitSem t)) (run_native (rt_sem_detach0 R (CompletionSem t)) m)"

definition rt_create_native ::
  "('h, 'k) rt_threads \<Rightarrow> nat \<Rightarrow> string \<Rightarrow> nat option \<Rightarrow> u32 \<Rightarrow> int \<Rightarrow> ('h, 'k) rt_osal \<Rightarrow>
   'h option \<times> ('h, 'k) rt_osal" where
  "rt_create_native R t name stack stack_size prio m =
     (case stack of
        Some s \<Rightarrow>
          let (ok, m) = call_native (rt_thread_init R (rt_tcb R t) name t s stack_size
                                      (os_to_rt_priority (rt_priority_max R) prio)) m
          in (if ok then Some (rt_tcb R t) else None, m)
      | None \<Rightarrow>
          if rt_using_heap R
          then call_native (rt_thread_create R name t stack_size
                             (os_to_rt_priority (rt_priority_max R) prio)) m
          else (None, m))"

definition rt_create_start ::
  "('h, 'k) rt_threads \<Rightarrow> nat \<Rightarrow> nat option \<Rightarrow> 'h \<Rightarrow> ('h, 'k) rt_osal \<Rightarrow> int \<times> ('h, 'k) rt_osal" where
  "rt_create_start R t stack h m =
     (let m = upd_th t (\<lambda>T. T\<lparr>t_handle := Some h\<rparr>) m;
          m = run_native (rt_set_user_data R h t) m;
          (ok, m) = call_native (rt_thread_startup R h) m
      in if ok then (0, m)
         else
           let m = (if stack \<noteq> None then snd (call_native (rt_thread_detach R h) m)
                    else if rt_using_heap R then snd (call_native (rt_thread_delete R h) m) else m);
               m = rt_detach_sems R t (upd_th t (\<lambda>T. T\<lparr>t_handle := None\<rparr>) m)
           in (- EINVAL, upd_th t (\<lambda>T. T\<lparr>completion_handle := None\<rparr>) m))"

definition rt_os_thread_create ::
  "('h, 'k) rt_threads \<Rightarrow> nat option \<Rightarrow> string option \<Rightarrow> nat option \<Rightarrow> u32 \<Rightarrow> nat option \<Rightarrow>
   nat \<Rightarrow> nat \<Rightarrow> nat \<Rightarrow> int \<Rightarrow> u32 \<Rightarrow> ('h, 'k) rt_osal \<Rightarrow> int \<times> ('h, 'k) rt_osal" where
  "rt_os_thread_create R thread thread_name stack stack_size entry p1 p2 p3 prio options m =
     (case (thread, thread_name, entry) of
        (Some t, Some n, Some _) \<Rightarrow>
          if stack_size = 0 then (- EINVAL, m)
          else
            let m = create_fields t stack stack_size entry p1 p2 p3 prio m;
                (native_name, m) = rt_name R ''thr'' (ThreadObject t) (Some n) m;
                (wait_name, m) = rt_name R ''wait'' (SemObject (WaitSem t)) (Some n) m;
                (completion_name, m) = rt_name R ''done'' (SemObject (CompletionSem t)) (Some n) m;
                (ok, m) = rt_create_sems R t wait_name completion_name m
            in if \<not> ok then (- ENOMEM, m)
               else (case rt_create_native R t native_name stack stack_size prio m of
                       (None, m) \<Rightarrow> (- ENOMEM, rt_detach_sems R t m)
                     | (Some h, m) \<Rightarrow> rt_create_start R t stack h m)
      | _ \<Rightarrow> (- EINVAL, m))"

section \<open>The end of threads\<close>

definition os_rt_thread_entry ::
  "('h, 'k) rt_threads \<Rightarrow> (nat \<Rightarrow> ('h, 'k) rt_osal \<Rightarrow> ('h, 'k) rt_osal) \<Rightarrow> nat \<Rightarrow> ('h, 'k) rt_osal \<Rightarrow>
   ('h, 'k) rt_osal option" where
  "os_rt_thread_entry R entry t m =
     (let m = exit_section t (entry t m)
      in (case completion_handle (th m t) of
            None \<Rightarrow> None
          | Some c \<Rightarrow> Some (signal_section t (run_native (rt_sem_release0 R c) m))))"

definition os_rt_thread_reap :: "('h, 'k) rt_threads \<Rightarrow> nat \<Rightarrow> ('h, 'k) rt_osal \<Rightarrow> ('h, 'k) rt_osal" where
  "os_rt_thread_reap R t m = snd (reap_section t (rt_detach_sems R t m))"

definition rt_os_thread_join ::
  "('h, 'k) rt_threads \<Rightarrow> bool \<Rightarrow> (rt_sem_id \<Rightarrow> u32 \<Rightarrow> ('h, 'k) rt_osal \<Rightarrow> rt_taken \<times> ('h, 'k) rt_osal) \<Rightarrow>
   nat option \<Rightarrow> u32 \<Rightarrow> ('h, 'k) rt_osal \<Rightarrow> int \<times> ('h, 'k) rt_osal" where
  "rt_os_thread_join R isr rt_sem_take thread timeout m =
     (case thread of
        None \<Rightarrow> (- EINVAL, m)
      | Some t \<Rightarrow>
          if isr then (- EWOULDBLOCK, m)
          else if rt_os_get_current_thread R m = Some t then (- EDEADLK, m)
          else (case join_section t m of
                  (Inl r, m) \<Rightarrow> (r, m)
                | (Inr _, m) \<Rightarrow>
                    let (ok, m) =
                      (if timeout = 0 then call_native (rt_sem_trytake0 R (CompletionSem t)) m
                       else (let (r, m) = rt_sem_take (CompletionSem t)
                               (if timeout = OS_WAIT_FOREVER then rt_waiting_forever R else timeout) m
                             in (r = RtOk, m)))
                    in if ok then (0, os_rt_thread_reap R t m)
                       else (if timeout = 0 then - EBUSY else - ETIMEDOUT, join_cancel_section t m)))"

definition rt_os_thread_delete ::
  "('h, 'k) rt_threads \<Rightarrow> bool \<Rightarrow> nat option \<Rightarrow> ('h, 'k) rt_osal \<Rightarrow> int \<times> ('h, 'k) rt_osal" where
  "rt_os_thread_delete R isr thread m =
     (case thread of
        None \<Rightarrow> (- EINVAL, m)
      | Some t \<Rightarrow>
          if isr then (- EWOULDBLOCK, m)
          else (case delete_section t m of
                  (Some r, m) \<Rightarrow> (r, m)
                | (None, m) \<Rightarrow> (0, os_rt_thread_reap R t m)))"

definition rt_os_thread_cancel :: "bool \<Rightarrow> nat option \<Rightarrow> ('h, 'k) rt_osal \<Rightarrow> int \<times> ('h, 'k) rt_osal" where
  "rt_os_thread_cancel isr thread m =
     (case thread of
        None \<Rightarrow> (- EINVAL, m)
      | Some t \<Rightarrow>
          if t_handle (th m t) = None then (- EINVAL, m)
          else if isr then (- EWOULDBLOCK, m)
          else if completed (th m t) then (- EALREADY, m)
          else (0, upd_th t (\<lambda>T. T\<lparr>cancel_requested := True\<rparr>) m))"

definition rt_os_thread_cancel_requested :: "('h, 'k) rt_threads \<Rightarrow> ('h, 'k) rt_osal \<Rightarrow> bool" where
  "rt_os_thread_cancel_requested R m =
     (case rt_os_get_current_thread R m of
        None \<Rightarrow> False
      | Some t \<Rightarrow> cancel_requested (th m t))"

definition rt_os_thread_test_cancel :: "('h, 'k) rt_threads \<Rightarrow> ('h, 'k) rt_osal \<Rightarrow> int" where
  "rt_os_thread_test_cancel R m = (if rt_os_thread_cancel_requested R m then - ECANCELED else 0)"

section \<open>Aborting\<close>

definition rt_abort_section ::
  "nat \<Rightarrow> ('h, 'k) rt_osal \<Rightarrow> (int option \<times> ('h, 'k) rt_osal) option" where
  "rt_abort_section t m =
     (if completed (th m t) then Some (Some (- EALREADY), m)
      else do {
        m \<leftarrow> (if wait_q (th m t) = None then Some m
             else map_option (upd_th t (\<lambda>T. T\<lparr>wait_q := None\<rparr>)) (waitq_remove t m));
        Some (None, upd_th t (\<lambda>T. T\<lparr>cancel_requested := True, aborted := True, completed := True,
                                  t_state := OS_THREAD_TERMINATED\<rparr>) m)
      })"

definition rt_abort_native ::
  "('h, 'k) rt_threads \<Rightarrow> 'h \<Rightarrow> bool \<Rightarrow> ('h, 'k) rt_osal \<Rightarrow> bool \<times> ('h, 'k) rt_osal" where
  "rt_abort_native R h is_static m =
     (if is_static then call_native (rt_thread_detach R h) m
      else if rt_using_heap R then call_native (rt_thread_delete R h) m
      else (False, m))"

definition rt_abort_failed :: "nat \<Rightarrow> ('h, 'k) rt_osal \<Rightarrow> ('h, 'k) rt_osal" where
  "rt_abort_failed t =
     upd_th t (\<lambda>T. T\<lparr>completed := False, aborted := False, t_state := OS_THREAD_READY\<rparr>)"

definition rt_os_thread_abort ::
  "('h, 'k) rt_threads \<Rightarrow> bool \<Rightarrow> nat option \<Rightarrow> ('h, 'k) rt_osal \<Rightarrow> (int \<times> ('h, 'k) rt_osal) option" where
  "rt_os_thread_abort R isr thread m =
     (case thread of
        None \<Rightarrow> Some (- EINVAL, m)
      | Some t \<Rightarrow>
          (case t_handle (th m t) of
             None \<Rightarrow> Some (- EINVAL, m)
           | Some h \<Rightarrow>
               if completion_handle (th m t) = None then Some (- EINVAL, m)
               else if isr then Some (- EWOULDBLOCK, m)
               else if rt_os_get_current_thread R m = Some t then Some (- EDEADLK, m)
               else do {
                 let is_static = rt_is_systemobject R h (native (kern m));
                 (r, m) \<leftarrow> rt_abort_section t m;
                 (case r of
                    Some e \<Rightarrow> Some (e, m)
                  | None \<Rightarrow>
                      let (ok, m) = rt_abort_native R h is_static m
                      in if \<not> ok then Some (- EINVAL, rt_abort_failed t m)
                         else Some (0, signal_section t
                                         (run_native (rt_sem_release0 R (CompletionSem t)) m)))
               }))"

section \<open>Priorities\<close>

definition rt_requeue_section ::
  "('h, 'k) rt_threads \<Rightarrow> nat \<Rightarrow> ('h, 'k) rt_osal \<Rightarrow> ('h, 'k) rt_osal option" where
  "rt_requeue_section R t m =
     (case wait_q (th m t) of
        None \<Rightarrow> Some m
      | Some q \<Rightarrow> do {
          m \<leftarrow> waitq_remove t m;
          os_rt_waitq_insert_locked R q t m
        })"

definition rt_os_thread_set_priority ::
  "('h, 'k) rt_threads \<Rightarrow> nat option \<Rightarrow> int \<Rightarrow> ('h, 'k) rt_osal \<Rightarrow> ('h, 'k) rt_osal option" where
  "rt_os_thread_set_priority R thread priority m =
     (case thread of
        None \<Rightarrow> Some m
      | Some t \<Rightarrow>
          (case t_handle (th m t) of
             None \<Rightarrow> Some m
           | Some h \<Rightarrow>
               let native_priority = os_to_rt_priority (rt_priority_max R) priority;
                   m = upd_th t (\<lambda>T. T\<lparr>base_priority := priority\<rparr>) m;
                   m = run_native (rt_change_priority R h native_priority) m
               in rt_requeue_section R t m))"

definition rt_os_thread_yield :: "('h, 'k) rt_threads \<Rightarrow> bool \<Rightarrow> ('h, 'k) rt_osal \<Rightarrow> ('h, 'k) rt_osal" where
  "rt_os_thread_yield R isr m = (if isr then m else run_native (rt_thread_yield R) m)"

end
