(* ===== verification/Rt_Kernel.thy ===== *)
theory Rt_Kernel
  imports Rt_Threads
begin

text \<open>
  What the RT-Thread manual promises of the semaphores and threads the backend uses, and a small
  kernel that keeps it: the instance on which the laws are shown to be consistent.
\<close>

lemma run_native_simps [simp]:
  "th (run_native f m) = th m" "mx (run_native f m) = mx m" "waits (run_native f m) = waits m"
  "owned (run_native f m) = owned m" "native (kern (run_native f m)) = f (native (kern m))"
  by (simp_all add: run_native_def)

lemma upd_th_native [simp]: "native (kern (upd_th t f m)) = native (kern m)"
  by simp

lemma call_native_cases:
  obtains r k where "f (native (kern m)) = (r, k)" "call_native f m = (r, run_native (\<lambda>_. k) m)"
  by (cases "f (native (kern m))") (simp add: call_native_def run_native_def)

text \<open>
  \<open>sems k\<close>: the semaphores that are initialised; \<open>token s k\<close>: the value of \<open>s\<close>, which is at most 1
  under its limit; \<open>threads k\<close>: the threads initialised or created and not yet detached or deleted.
\<close>

locale rt_kernel =
  fixes R :: "('h, 'k) rt_threads" and sems :: "'k \<Rightarrow> rt_sem_id set"
    and token :: "rt_sem_id \<Rightarrow> 'k \<Rightarrow> bool" and threads :: "'k \<Rightarrow> 'h set"
  assumes sem_init: "rt_sem_init0 R s n k = (ok, k') \<Longrightarrow>
      sems k' = (if ok then insert s (sems k) else sems k) \<and> threads k' = threads k"
    and sem_limit: "sems (rt_sem_limit1 R s k) = sems k" "threads (rt_sem_limit1 R s k) = threads k"
    and sem_detach: "sems (rt_sem_detach0 R s k) = sems k - {s}" "threads (rt_sem_detach0 R s k) = threads k"
    and release_token: "token s (rt_sem_release0 R s' k) = (s = s' \<or> token s k)"
    and trytake: "rt_sem_trytake0 R s k = (ok, k') \<Longrightarrow>
      ok = token s k \<and> token s' k' = (if s' = s then False else token s' k)"
    and priority_token: "token s (rt_change_priority R h p k) = token s k"
    and thread_init: "rt_thread_init R h n t st sz p k = (ok, k') \<Longrightarrow>
      sems k' = sems k \<and> threads k' = (if ok then insert h (threads k) else threads k)"
    and thread_create: "rt_thread_create R n t sz p k = (r, k') \<Longrightarrow>
      sems k' = sems k \<and> threads k' = threads k \<union> set_option r \<and> set_option r \<inter> threads k = {}"
    and user_data: "sems (rt_set_user_data R h t k) = sems k" "threads (rt_set_user_data R h t k) = threads k"
    and startup: "rt_thread_startup R h k = (ok, k') \<Longrightarrow> sems k' = sems k \<and> threads k' = threads k"
    and thread_detach: "h \<in> threads k \<Longrightarrow> rt_thread_detach R h k = (ok, k') \<Longrightarrow>
      ok \<and> sems k' = sems k \<and> threads k' = threads k - {h}"
    and thread_delete: "h \<in> threads k \<Longrightarrow> rt_thread_delete R h k = (ok, k') \<Longrightarrow>
      ok \<and> sems k' = sems k \<and> threads k' = threads k - {h}"

section \<open>A reference kernel\<close>

text \<open>
  Threads are numbered; a dynamic thread gets the next number from 1000 on, as long as there are
  fewer than \<open>rk_max\<close> threads; a thread starts when its number is not \<open>rk_broken\<close>.
\<close>

record ref_kernel =
  rk_sems :: "rt_sem_id set"
  rk_tokens :: "rt_sem_id set"
  rk_threads :: "nat set"
  rk_next :: nat
  rk_max :: nat
  rk_broken :: nat
  rk_prio :: "nat \<Rightarrow> 8 word"
  rk_user :: "nat \<Rightarrow> nat option"
  rk_self :: "nat option"

definition ref_add :: "nat \<Rightarrow> 8 word \<Rightarrow> ref_kernel \<Rightarrow> bool \<times> ref_kernel" where
  "ref_add h p k =
     (if card (rk_threads k) < rk_max k
      then (True, k\<lparr>rk_threads := insert h (rk_threads k), rk_prio := (rk_prio k)(h := p)\<rparr>)
      else (False, k))"

definition ref_drop :: "nat \<Rightarrow> ref_kernel \<Rightarrow> bool \<times> ref_kernel" where
  "ref_drop h k = (h \<in> rk_threads k, k\<lparr>rk_threads := rk_threads k - {h}\<rparr>)"

definition ref_rt :: "(nat, ref_kernel) rt_threads" where
  "ref_rt = \<lparr>rt_priority_max = 32, rt_name_max = 20, rt_wide_address = False, rt_using_heap = True,
     rt_waiting_forever = 0xFFFFFFFF, rt_printf = reference_snprintf, rt_address = (\<lambda>_. 0),
     rt_tick_get = (\<lambda>_. 0), rt_thread_self = rk_self, rt_user_data = (\<lambda>h k. rk_user k h),
     rt_set_user_data = (\<lambda>h t k. k\<lparr>rk_user := (rk_user k)(h := Some t)\<rparr>),
     rt_current_priority = (\<lambda>h k. rk_prio k h),
     rt_change_priority = (\<lambda>h p k. k\<lparr>rk_prio := (rk_prio k)(h := p)\<rparr>),
     rt_sem_init0 = (\<lambda>s n k. (True, k\<lparr>rk_sems := insert s (rk_sems k), rk_tokens := rk_tokens k - {s}\<rparr>)),
     rt_sem_limit1 = (\<lambda>s k. k), rt_sem_detach0 = (\<lambda>s k. k\<lparr>rk_sems := rk_sems k - {s}\<rparr>),
     rt_sem_release0 = (\<lambda>s k. k\<lparr>rk_tokens := insert s (rk_tokens k)\<rparr>),
     rt_sem_trytake0 = (\<lambda>s k. (s \<in> rk_tokens k, k\<lparr>rk_tokens := rk_tokens k - {s}\<rparr>)),
     rt_tcb = (\<lambda>t. t), rt_thread_init = (\<lambda>h n t st sz p k. ref_add h p k),
     rt_thread_create = (\<lambda>n t sz p k.
        let h = rk_next k; (ok, k') = ref_add h p k
        in if h \<notin> rk_threads k \<and> ok then (Some h, k'\<lparr>rk_next := h + 1\<rparr>) else (None, k)),
     rt_thread_startup = (\<lambda>h k. (h \<noteq> rk_broken k, k)),
     rt_thread_detach = ref_drop, rt_thread_delete = ref_drop,
     rt_is_systemobject = (\<lambda>h k. h < 1000), rt_thread_yield = (\<lambda>k. k)\<rparr>"

interpretation ref_rt: rt_kernel ref_rt rk_sems "\<lambda>s k. s \<in> rk_tokens k" rk_threads
  by unfold_locales (auto simp: ref_rt_def ref_add_def ref_drop_def Let_def split: if_splits)

text \<open>A system without threads and semaphores.\<close>

definition ref_kernel_empty :: "nat \<Rightarrow> nat \<Rightarrow> ref_kernel" where
  "ref_kernel_empty limit broken = \<lparr>rk_sems = {}, rk_tokens = {}, rk_threads = {}, rk_next = 1000, rk_max = limit,
     rk_broken = broken, rk_prio = (\<lambda>_. 0), rk_user = (\<lambda>_. None), rk_self = None\<rparr>"

lemma ref_kernel_empty_simps [simp]:
  "rk_sems (ref_kernel_empty l b) = {}" "rk_threads (ref_kernel_empty l b) = {}"
  by (simp_all add: ref_kernel_empty_def)

definition ref_osal_empty :: "nat \<Rightarrow> nat \<Rightarrow> (nat, ref_kernel) rt_osal" where
  "ref_osal_empty limit broken = \<lparr>th = (\<lambda>_. os_thread_zero), mx = (\<lambda>_. os_mutex_zero),
     waits = (\<lambda>_. \<lparr>dn_next = None, dn_prev = None\<rparr>), owned = (\<lambda>_. \<lparr>dn_next = None, dn_prev = None\<rparr>),
     kern = \<lparr>name_sequence = 0, native = ref_kernel_empty limit broken\<rparr>\<rparr>"

lemma ref_osal_empty_native [simp]: "native (kern (ref_osal_empty limit broken)) = ref_kernel_empty limit broken"
  by (simp add: ref_osal_empty_def)

end
