(* ===== verification/Rt_Waitq.thy ===== *)
theory Rt_Waitq
  imports Rt_Kernel
begin

text \<open>
  Wait queues of the RT-Thread backend with threads, interrupts, timeouts, priority changes and
  aborts interleaved between the critical sections of \<open>waitq.c\<close> and \<open>thread.c\<close>.
\<close>

section \<open>Sections on sequences\<close>

abbreviation rprio :: "('h, 'k) rt_threads \<Rightarrow> ('h, 'k) rt_osal \<Rightarrow> nat \<Rightarrow> int" where
  "rprio R m t \<equiv> rt_os_thread_get_priority R (Some t) m"

lemma rt_insert_at:
  "os_rt_waitq_insert_locked R q t m =
     map_option (\<lambda>h. m\<lparr>waits := h\<rparr>) (prio_insert_at (rprio R m) q t (waits m))"
  by (simp add: os_rt_waitq_insert_locked_def rt_waitq_position_def prio_insert_at_def
      split: option.split sum.split unit.split)

text \<open>The lists represent \<open>wq\<close>, and the threads' fields agree with it; \<open>Q\<close> has only plain queues.\<close>

definition rt_lists_ok ::
  "wait_queue set \<Rightarrow> nat set \<Rightarrow> (wait_queue \<Rightarrow> nat list) \<Rightarrow> ('h, 'k) rt_osal \<Rightarrow> bool" where
  "rt_lists_ok Q A wq m \<longleftrightarrow>
     dlists_rep WaitList WaitNode Q wq (waits m) \<and> waits_agree Q A wq (th m) \<and> Q \<subseteq> range PlainQueue"

lemma rt_lists_okD:
  assumes "rt_lists_ok Q A wq m"
  shows "dlists_rep WaitList WaitNode Q wq (waits m)" "waits_agree Q A wq (th m)"
    and "q \<in> Q \<Longrightarrow> queue_mutex q = None" and "t \<in> A \<Longrightarrow> waiting_mutex (th m t) = None"
proof -
  show a: "dlists_rep WaitList WaitNode Q wq (waits m)" "waits_agree Q A wq (th m)"
    using assms by (simp_all add: rt_lists_ok_def)
  show q: "q \<in> Q \<Longrightarrow> queue_mutex q = None" for q
    using assms by (auto simp: rt_lists_ok_def)
  show "t \<in> A \<Longrightarrow> waiting_mutex (th m t) = None"
    using waits_agreeD(3,4) [OF a(2), of t] q by (cases "waiting_mutex (th m t)") fastforce+
qed

lemma rt_lists_okI:
  assumes "rt_lists_ok Q A wq m" "dlists_rep WaitList WaitNode Q wq' h" "waits_agree Q A wq' T"
  shows "rt_lists_ok Q A wq' (m\<lparr>waits := h, th := T\<rparr>)"
  using assms by (simp add: rt_lists_ok_def)

lemma rt_lists_ok_cong:
  assumes "rt_lists_ok Q A wq m" "waits m' = waits m"
    and "\<And>t. t \<in> A \<Longrightarrow> wait_q (th m' t) = wait_q (th m t) \<and> waiting_mutex (th m' t) = waiting_mutex (th m t)"
  shows "rt_lists_ok Q A wq m'"
  using assms waits_agree_cong [OF rt_lists_okD(2) [OF assms(1)], of "th m'" wq] by (simp add: rt_lists_ok_def)

lemma rt_insert_ok:
  assumes ok: "rt_lists_ok Q A wq m" and t: "t \<in> A" "q \<in> Q" "wait_q (th m t) = None"
    and f: "wait_q (f (th m t)) = Some q" "waiting_mutex (f (th m t)) = waiting_mutex (th m t)"
  obtains h where "os_rt_waitq_insert_locked R q t (upd_th t f m) = Some (upd_th t f m\<lparr>waits := h\<rparr>)"
    and "rt_lists_ok Q A (wq(q := prio_insert (rprio R (upd_th t f m)) t (wq q))) (upd_th t f m\<lparr>waits := h\<rparr>)"
proof -
  let ?xs = "prio_insert (rprio R (upd_th t f m)) t (wq q)"
  have "t \<notin> set (wq p)" if "p \<in> Q" for p
    using waits_agreeD(2) [OF rt_lists_okD(2) [OF ok] t(1) that] t(3) by simp
  then obtain h where h: "prio_insert_at (rprio R (upd_th t f m)) q t (waits m) = Some h"
      "dlists_rep WaitList WaitNode Q (wq(q := ?xs)) h"
    using prio_insert_at_spec [OF rt_lists_okD(1) [OF ok] t(2)] by blast
  have "waits_agree Q A (wq(q := ?xs)) ((th m)(t := f (th m t)))"
    by (rule waits_agree_enqueue [OF rt_lists_okD(2) [OF ok] t f(1)])
      (simp_all add: f(2) rt_lists_okD(3) [OF ok t(2)] rt_lists_okD(4) [OF ok t(1)])
  then have "rt_lists_ok Q A (wq(q := ?xs)) (upd_th t f m\<lparr>waits := h\<rparr>)"
    using ok h(2) by (simp add: rt_lists_ok_def)
  with h(1) show thesis by (intro that [of h]) (simp_all add: rt_insert_at)
qed

lemma rt_remove_ok:
  assumes ok: "rt_lists_ok Q A wq m" and t: "t \<in> A" "wait_q (th m t) = Some q"
    and f: "wait_q (f (th m t)) = None" "waiting_mutex (f (th m t)) = waiting_mutex (th m t)"
  obtains h where "waitq_remove t m = Some (m\<lparr>waits := h\<rparr>)"
    and "rt_lists_ok Q A (wq(q := remove1 t (wq q))) (upd_th t f (m\<lparr>waits := h\<rparr>))"
proof -
  have q: "q \<in> Q" "t \<in> set (wq q)"
    using waits_agreeD(2,3) [OF rt_lists_okD(2) [OF ok] t(1)] t(2) by blast+
  obtain h where h: "waitq_remove t m = Some (m\<lparr>waits := h\<rparr>)"
      "dlists_rep WaitList WaitNode Q (wq(q := remove1 t (wq q))) h"
    by (rule waitq_remove_spec [OF rt_lists_okD(1) [OF ok] q])
  have "waits_agree Q A (wq(q := remove1 t (wq q))) ((th m)(t := f (th m t)))"
    by (rule waits_agree_dequeue [OF rt_lists_okD(2) [OF ok] t f(1)])
      (simp_all add: f(2) rt_lists_okD(4) [OF ok t(1)] set_remove1_eq [OF waits.dlists_distinct [OF rt_lists_okD(1) [OF ok] q(1)]])
  then have "rt_lists_ok Q A (wq(q := remove1 t (wq q))) (upd_th t f (m\<lparr>waits := h\<rparr>))"
    using ok h(2) by (simp add: rt_lists_ok_def)
  with h(1) show thesis by (rule that)
qed

definition rt_woken :: "('h, 'k) rt_threads \<Rightarrow> nat \<Rightarrow> u32 \<Rightarrow> ('h, 'k) rt_osal \<Rightarrow> ('h, 'k) rt_osal" where
  "rt_woken R t reason m =
     run_native (rt_sem_release0 R (WaitSem t))
       (upd_th t (\<lambda>T. T\<lparr>wait_q := None, wait_result := reason, t_state := OS_THREAD_READY\<rparr>) m)"

lemma rt_wake_first_ok:
  assumes ok: "rt_lists_ok Q A wq m" and q: "q \<in> Q" "wq q = t # ts"
  obtains h where "rt_wake_first R q reason m = Some (rt_woken R t reason (m\<lparr>waits := h\<rparr>))"
    and "rt_lists_ok Q A (wq(q := ts)) (rt_woken R t reason (m\<lparr>waits := h\<rparr>))"
    and "t \<in> A" "wait_q (th m t) = Some q"
proof -
  obtain h where h: "waitq_get q m = Some (t, m\<lparr>waits := h\<rparr>)"
      "dlists_rep WaitList WaitNode Q (wq(q := ts)) h"
    by (rule waitq_get_spec [OF rt_lists_okD(1) [OF ok] q])
  have t: "t \<in> A" "wait_q (th m t) = Some q"
    using waits_agreeD(1,2) [OF rt_lists_okD(2) [OF ok]] q by (metis list.set_intros(1))+
  let ?m = "rt_woken R t reason (m\<lparr>waits := h\<rparr>)"
  have "t \<notin> set ts" using waits.dlists_distinct [OF rt_lists_okD(1) [OF ok] q(1)] q(2) by simp
  then have "waits_agree Q A (wq(q := ts)) ((th m)(t := th ?m t))"
    by (intro waits_agree_dequeue [OF rt_lists_okD(2) [OF ok] t])
      (simp_all add: rt_woken_def q(2) rt_lists_okD(4) [OF ok t(1)])
  then have "rt_lists_ok Q A (wq(q := ts)) ?m" using ok h(2) by (simp add: rt_lists_ok_def rt_woken_def)
  moreover have "rt_wake_first R q reason m = Some ?m" by (simp add: rt_wake_first_def h(1) rt_woken_def)
  ultimately show thesis using t by (intro that)
qed

lemma rt_empty_iff: "rt_lists_ok Q A wq m \<Longrightarrow> q \<in> Q \<Longrightarrow> sys_dlist_is_empty (WaitList q) (waits m) \<longleftrightarrow> wq q = []"
  using waitq_empty_spec [OF rt_lists_okD(1)] by blast

section \<open>Interleaving\<close>

datatype rt_phase = RtRunning | RtBlocked | RtTook rt_taken | RtDead

record ('h, 'k) rt_config =
  r_mem :: "('h, 'k) rt_osal"
  r_phase :: "nat \<Rightarrow> rt_phase"

text \<open>
  A blocked thread leaves \<open>rt_sem_take\<close> with a token or by a timeout; its critical section comes
  later. Priorities change in the kernel at any time (\<open>rt_thread_control\<close>, or inheritance by native
  mutexes); the section of \<open>os_thread_set_priority\<close> that queues the thread anew is a step of its own.
\<close>

inductive rt_step ::
  "('h, 'k) rt_threads \<Rightarrow> wait_queue set \<Rightarrow> nat set \<Rightarrow> ('h, 'k) rt_config \<Rightarrow> ('h, 'k) rt_config \<Rightarrow> bool"
  for R Q A where
  blocks: "t \<in> A \<Longrightarrow> q \<in> Q \<Longrightarrow> r_phase c t = RtRunning \<Longrightarrow> rt_block_section R q t (r_mem c) = Some m \<Longrightarrow>
    rt_step R Q A c (c\<lparr>r_mem := m, r_phase := (r_phase c)(t := RtBlocked)\<rparr>)"
| takes: "t \<in> A \<Longrightarrow> r_phase c t = RtBlocked \<Longrightarrow>
    call_native (rt_sem_trytake0 R (WaitSem t)) (r_mem c) = (True, m) \<Longrightarrow>
    rt_step R Q A c (c\<lparr>r_mem := m, r_phase := (r_phase c)(t := RtTook RtOk)\<rparr>)"
| times_out: "t \<in> A \<Longrightarrow> r_phase c t = RtBlocked \<Longrightarrow>
    rt_step R Q A c (c\<lparr>r_phase := (r_phase c)(t := RtTook RtTimeout)\<rparr>)"
| returns: "t \<in> A \<Longrightarrow> r_phase c t = RtTook r \<Longrightarrow> rt_return_section t r (r_mem c) = Some (v, m) \<Longrightarrow>
    rt_step R Q A c (c\<lparr>r_mem := m, r_phase := (r_phase c)(t := RtRunning)\<rparr>)"
| wakes_one: "q \<in> Q \<Longrightarrow> rt_wake_one_section R q reason (r_mem c) = Some m \<Longrightarrow>
    rt_step R Q A c (c\<lparr>r_mem := m\<rparr>)"
| wakes_all: "q \<in> Q \<Longrightarrow> rt_wake_all_loop R q reason (r_mem c) = Some m \<Longrightarrow>
    rt_step R Q A c (c\<lparr>r_mem := m\<rparr>)"
| reprioritises: "rt_step R Q A c (c\<lparr>r_mem := run_native (rt_change_priority R h p) (r_mem c)\<rparr>)"
| requeues: "t \<in> A \<Longrightarrow> rt_requeue_section R t (r_mem c) = Some m \<Longrightarrow>
    rt_step R Q A c (c\<lparr>r_mem := m\<rparr>)"
| aborts: "t \<in> A \<Longrightarrow> rt_abort_section t (r_mem c) = Some (None, m) \<Longrightarrow>
    rt_step R Q A c (c\<lparr>r_mem := m, r_phase := (r_phase c)(t := RtDead)\<rparr>)"

definition rt_start :: "wait_queue set \<Rightarrow> nat set \<Rightarrow> ('h, 'k) rt_config \<Rightarrow> bool" where
  "rt_start Q A c \<longleftrightarrow> rt_lists_ok Q A (\<lambda>_. []) (r_mem c) \<and> r_phase c = (\<lambda>_. RtRunning)"

inductive rt_reach ::
  "('h, 'k) rt_threads \<Rightarrow> wait_queue set \<Rightarrow> nat set \<Rightarrow> ('h, 'k) rt_config \<Rightarrow> bool" for R Q A where
  start: "rt_start Q A c \<Longrightarrow> rt_reach R Q A c"
| step: "rt_reach R Q A c \<Longrightarrow> rt_step R Q A c c' \<Longrightarrow> rt_reach R Q A c'"

definition rt_idle_ok :: "nat set \<Rightarrow> ('h, 'k) rt_config \<Rightarrow> bool" where
  "rt_idle_ok A c \<longleftrightarrow>
     (\<forall>t \<in> A. r_phase c t = RtRunning \<or> r_phase c t = RtDead \<longrightarrow> wait_q (th (r_mem c) t) = None)"

definition rt_tokens_ok :: "(rt_sem_id \<Rightarrow> 'k \<Rightarrow> bool) \<Rightarrow> nat set \<Rightarrow> ('h, 'k) rt_config \<Rightarrow> bool" where
  "rt_tokens_ok token A c \<longleftrightarrow>
     (\<forall>t \<in> A. r_phase c t = RtBlocked \<longrightarrow> wait_q (th (r_mem c) t) = None \<longrightarrow>
        token (WaitSem t) (native (kern (r_mem c))))"

definition rt_inv ::
  "(rt_sem_id \<Rightarrow> 'k \<Rightarrow> bool) \<Rightarrow> wait_queue set \<Rightarrow> nat set \<Rightarrow> (wait_queue \<Rightarrow> nat list) \<Rightarrow> ('h, 'k) rt_config \<Rightarrow> bool" where
  "rt_inv token Q A wq c \<longleftrightarrow> rt_lists_ok Q A wq (r_mem c) \<and> rt_idle_ok A c \<and> rt_tokens_ok token A c"

lemma rt_invI:
  assumes "rt_lists_ok Q A wq (r_mem c)"
    and "\<And>t. t \<in> A \<Longrightarrow> r_phase c t = RtRunning \<or> r_phase c t = RtDead \<Longrightarrow> wait_q (th (r_mem c) t) = None"
    and "\<And>t. t \<in> A \<Longrightarrow> r_phase c t = RtBlocked \<Longrightarrow> wait_q (th (r_mem c) t) = None \<Longrightarrow>
      token (WaitSem t) (native (kern (r_mem c)))"
  shows "rt_inv token Q A wq c"
  using assms unfolding rt_inv_def rt_idle_ok_def rt_tokens_ok_def by blast

lemma rt_invD:
  assumes "rt_inv token Q A wq c"
  shows "rt_lists_ok Q A wq (r_mem c)"
    and "t \<in> A \<Longrightarrow> r_phase c t = RtRunning \<or> r_phase c t = RtDead \<Longrightarrow> wait_q (th (r_mem c) t) = None"
    and "t \<in> A \<Longrightarrow> r_phase c t = RtBlocked \<Longrightarrow> wait_q (th (r_mem c) t) = None \<Longrightarrow>
      token (WaitSem t) (native (kern (r_mem c)))"
  using assms unfolding rt_inv_def rt_idle_ok_def rt_tokens_ok_def by blast+

section \<open>Each section on a consistent state\<close>

lemma rt_block_ok:
  assumes ok: "rt_lists_ok Q A wq m" and t: "t \<in> A" "q \<in> Q" "wait_q (th m t) = None"
  obtains wq' m' where "rt_block_section R q t m = Some m'" "rt_lists_ok Q A wq' m'" "kern m' = kern m"
    "\<And>s. s \<noteq> t \<Longrightarrow> th m' s = th m s" "wait_q (th m' t) = Some q"
proof -
  let ?f = "\<lambda>T. T\<lparr>wait_q := Some q, wait_result := 0, t_state := OS_THREAD_PENDING\<rparr>"
  obtain h where h: "os_rt_waitq_insert_locked R q t (upd_th t ?f m) = Some (upd_th t ?f m\<lparr>waits := h\<rparr>)"
      "rt_lists_ok Q A (wq(q := prio_insert (rprio R (upd_th t ?f m)) t (wq q))) (upd_th t ?f m\<lparr>waits := h\<rparr>)"
    by (rule rt_insert_ok [OF ok t, of ?f]) simp_all
  show thesis by (rule that [OF h(1) [folded rt_block_section_def] h(2)]) simp_all
qed

lemma rt_return_ok:
  assumes ok: "rt_lists_ok Q A wq m" and t: "t \<in> A"
  obtains wq' v m' where "rt_return_section t r m = Some (v, m')" "rt_lists_ok Q A wq' m'" "kern m' = kern m"
    "\<And>s. s \<noteq> t \<Longrightarrow> th m' s = th m s" "wait_q (th m' t) = None"
proof (cases "wait_q (th m t)")
  case None
  then have ret: "rt_return_section t r m =
      Some (sint (wait_result (th m t)), upd_th t (\<lambda>T. T\<lparr>t_state := OS_THREAD_READY\<rparr>) m)"
    by (simp add: rt_return_section_def)
  show thesis by (rule that [OF ret rt_lists_ok_cong [OF ok]]) (simp_all add: None)
next
  case (Some q)
  let ?f = "\<lambda>T. T\<lparr>wait_q := None, t_state := OS_THREAD_READY\<rparr>"
  obtain h where h: "waitq_remove t m = Some (m\<lparr>waits := h\<rparr>)"
      "rt_lists_ok Q A (wq(q := remove1 t (wq q))) (upd_th t ?f (m\<lparr>waits := h\<rparr>))"
    by (rule rt_remove_ok [OF ok t Some, of ?f]) simp_all
  have ret: "rt_return_section t r m =
      Some (if r = RtTimeout then - ETIMEDOUT else - EAGAIN, upd_th t ?f (m\<lparr>waits := h\<rparr>))"
    by (simp add: rt_return_section_def Some h(1))
  show thesis by (rule that [OF ret h(2)]) simp_all
qed

lemma rt_abort_ok:
  assumes ok: "rt_lists_ok Q A wq m" and t: "t \<in> A" "\<not> completed (th m t)"
  obtains wq' m' where "rt_abort_section t m = Some (None, m')" "rt_lists_ok Q A wq' m'" "kern m' = kern m"
    "\<And>s. s \<noteq> t \<Longrightarrow> th m' s = th m s" "wait_q (th m' t) = None"
proof (cases "wait_q (th m t)")
  case None
  then have ret: "rt_abort_section t m = Some (None, upd_th t (\<lambda>T. T\<lparr>cancel_requested := True, aborted := True,
      completed := True, t_state := OS_THREAD_TERMINATED\<rparr>) m)"
    using t by (simp add: rt_abort_section_def)
  show thesis by (rule that [OF ret rt_lists_ok_cong [OF ok]]) (simp_all add: None)
next
  case (Some q)
  let ?f = "\<lambda>T. T\<lparr>wait_q := None\<rparr>"
  let ?g = "\<lambda>T. T\<lparr>cancel_requested := True, aborted := True, completed := True, t_state := OS_THREAD_TERMINATED\<rparr>"
  obtain h where h: "waitq_remove t m = Some (m\<lparr>waits := h\<rparr>)"
      "rt_lists_ok Q A (wq(q := remove1 t (wq q))) (upd_th t ?f (m\<lparr>waits := h\<rparr>))"
    by (rule rt_remove_ok [OF ok t(1) Some, of ?f]) simp_all
  have ret: "rt_abort_section t m = Some (None, upd_th t ?g (upd_th t ?f (m\<lparr>waits := h\<rparr>)))"
    using t h(1) by (simp add: rt_abort_section_def Some)
  show thesis by (rule that [OF ret rt_lists_ok_cong [OF h(2)]]) simp_all
qed

lemma rt_requeue_ok:
  assumes ok: "rt_lists_ok Q A wq m" and t: "t \<in> A"
  obtains wq' h where "rt_requeue_section R t m = Some (m\<lparr>waits := h\<rparr>)" "rt_lists_ok Q A wq' (m\<lparr>waits := h\<rparr>)"
proof (cases "wait_q (th m t)")
  case None
  then have "rt_requeue_section R t m = Some (m\<lparr>waits := waits m\<rparr>)" by (simp add: rt_requeue_section_def)
  then show thesis by (rule that) (use ok in simp)
next
  case (Some q)
  have q: "q \<in> Q" using waits_agreeD(3) [OF rt_lists_okD(2) [OF ok] t Some] .
  obtain h where h: "waitq_remove t m = Some (m\<lparr>waits := h\<rparr>)"
      "rt_lists_ok Q A (wq(q := remove1 t (wq q))) (upd_th t (\<lambda>T. T\<lparr>wait_q := None\<rparr>) (m\<lparr>waits := h\<rparr>))"
    by (rule rt_remove_ok [OF ok t Some, of "\<lambda>T. T\<lparr>wait_q := None\<rparr>"]) simp_all
  let ?f = "\<lambda>T. T\<lparr>wait_q := Some q\<rparr>"
  have "th m t\<lparr>wait_q := Some q\<rparr> = th m t" using Some by (cases "th m t") simp
  then have th_t: "(th m)(t := th m t\<lparr>wait_q := Some q\<rparr>) = th m" by (metis fun_upd_triv)
  have same: "upd_th t ?f (upd_th t (\<lambda>T. T\<lparr>wait_q := None\<rparr>) (m\<lparr>waits := h\<rparr>)) = m\<lparr>waits := h\<rparr>"
    using th_t by (simp add: upd_th_def fun_upd_idem)
  obtain h' where "os_rt_waitq_insert_locked R q t (m\<lparr>waits := h\<rparr>) = Some (m\<lparr>waits := h\<rparr>\<lparr>waits := h'\<rparr>)"
      "rt_lists_ok Q A ((wq(q := remove1 t (wq q)))(q := prio_insert (rprio R (m\<lparr>waits := h\<rparr>)) t (remove1 t (wq q))))
         (m\<lparr>waits := h\<rparr>\<lparr>waits := h'\<rparr>)"
    by (rule rt_insert_ok [OF h(2) t q, of ?f R, unfolded same]) simp_all
  then show thesis using that by (simp add: rt_requeue_section_def Some h(1))
qed

text \<open>What waking does to the other threads: who leaves its queue has a token, and no token is lost.\<close>

definition rt_wakes ::
  "(rt_sem_id \<Rightarrow> 'k \<Rightarrow> bool) \<Rightarrow> nat set \<Rightarrow> ('h, 'k) rt_osal \<Rightarrow> ('h, 'k) rt_osal \<Rightarrow> bool" where
  "rt_wakes token A m m' \<longleftrightarrow>
     (\<forall>t \<in> A.
        (wait_q (th m t) = None \<longrightarrow> wait_q (th m' t) = None)
        \<and> (wait_q (th m' t) = None \<longrightarrow> wait_q (th m t) = None \<or> token (WaitSem t) (native (kern m')))
        \<and> (token (WaitSem t) (native (kern m)) \<longrightarrow> token (WaitSem t) (native (kern m'))))"

lemma rt_wakes_refl: "rt_wakes token A m m"
  by (simp add: rt_wakes_def)

lemma rt_wakes_trans: "rt_wakes token A m m' \<Longrightarrow> rt_wakes token A m' m'' \<Longrightarrow> rt_wakes token A m m''"
  unfolding rt_wakes_def by blast

lemma rt_wakes_inv:
  assumes inv: "rt_inv token Q A wq c" and ok: "rt_lists_ok Q A wq' m" and wakes: "rt_wakes token A (r_mem c) m"
  shows "rt_inv token Q A wq' (c\<lparr>r_mem := m\<rparr>)"
proof (rule rt_invI)
  fix t assume t: "t \<in> A"
  note w = wakes [unfolded rt_wakes_def, rule_format, OF t]
  show "wait_q (th (r_mem (c\<lparr>r_mem := m\<rparr>)) t) = None"
    if "r_phase (c\<lparr>r_mem := m\<rparr>) t = RtRunning \<or> r_phase (c\<lparr>r_mem := m\<rparr>) t = RtDead"
    using rt_invD(2) [OF inv t] that w by simp
  show "token (WaitSem t) (native (kern (r_mem (c\<lparr>r_mem := m\<rparr>))))"
    if "r_phase (c\<lparr>r_mem := m\<rparr>) t = RtBlocked" "wait_q (th (r_mem (c\<lparr>r_mem := m\<rparr>)) t) = None"
    using rt_invD(3) [OF inv t] that w by auto
qed (simp add: ok)

text \<open>A step of one thread: the others keep their fields and tokens.\<close>

lemma rt_own_inv:
  assumes inv: "rt_inv token Q A wq c" and ok: "rt_lists_ok Q A wq' m"
    and others: "\<And>s. s \<in> A \<Longrightarrow> s \<noteq> t \<Longrightarrow> wait_q (th m s) = wait_q (th (r_mem c) s)
      \<and> token (WaitSem s) (native (kern m)) = token (WaitSem s) (native (kern (r_mem c)))"
    and idle: "p = RtRunning \<or> p = RtDead \<Longrightarrow> wait_q (th m t) = None"
    and blocked: "p = RtBlocked \<Longrightarrow> wait_q (th m t) \<noteq> None"
  shows "rt_inv token Q A wq' (c\<lparr>r_mem := m, r_phase := (r_phase c)(t := p)\<rparr>)" (is "rt_inv token Q A wq' ?c")
proof (rule rt_invI)
  fix s assume s: "s \<in> A"
  show "wait_q (th (r_mem ?c) s) = None" if "r_phase ?c s = RtRunning \<or> r_phase ?c s = RtDead"
    using rt_invD(2) [OF inv s] others [OF s] idle that by (cases "s = t") simp_all
  show "token (WaitSem s) (native (kern (r_mem ?c)))" if "r_phase ?c s = RtBlocked" "wait_q (th (r_mem ?c) s) = None"
    using rt_invD(3) [OF inv s] others [OF s] blocked that by (cases "s = t") simp_all
qed (simp add: ok)

context rt_kernel
begin

lemma wake_first:
  assumes ok: "rt_lists_ok Q A wq m" and q: "q \<in> Q" "wq q = t # ts"
  obtains m' where "rt_wake_first R q reason m = Some m'" "rt_lists_ok Q A (wq(q := ts)) m'"
    "rt_wakes token A m m'"
proof -
  obtain h where h: "rt_wake_first R q reason m = Some (rt_woken R t reason (m\<lparr>waits := h\<rparr>))"
      "rt_lists_ok Q A (wq(q := ts)) (rt_woken R t reason (m\<lparr>waits := h\<rparr>))"
    by (rule rt_wake_first_ok [OF ok q])
  have "rt_wakes token A m (rt_woken R t reason (m\<lparr>waits := h\<rparr>))"
    by (simp add: rt_wakes_def rt_woken_def release_token)
  with h show thesis by (rule that)
qed

lemma wake_one:
  assumes ok: "rt_lists_ok Q A wq m" and q: "q \<in> Q"
  obtains wq' m' where "rt_wake_one_section R q reason m = Some m'" "rt_lists_ok Q A wq' m'" "rt_wakes token A m m'"
proof (cases "wq q")
  case Nil
  then have "rt_wake_one_section R q reason m = Some m"
    using rt_empty_iff [OF ok q] by (simp add: rt_wake_one_section_def)
  then show thesis by (rule that [OF _ ok rt_wakes_refl])
next
  case (Cons t ts)
  obtain m' where "rt_wake_first R q reason m = Some m'" "rt_lists_ok Q A (wq(q := ts)) m'" "rt_wakes token A m m'"
    by (rule wake_first [OF ok q Cons])
  then show thesis using that rt_empty_iff [OF ok q] Cons by (simp add: rt_wake_one_section_def)
qed

lemma wake_all:
  assumes "rt_lists_ok Q A wq m" and q: "q \<in> Q"
  obtains wq' m' where "rt_wake_all_loop R q reason m = Some m'" "rt_lists_ok Q A wq' m'" "rt_wakes token A m m'"
proof -
  have "\<exists>wq' m'. rt_wake_all_loop R q reason m = Some m' \<and> rt_lists_ok Q A wq' m' \<and> rt_wakes token A m m'"
    if "rt_lists_ok Q A wq m" "wq q = ts" for ts wq m
    using that
  proof (induction ts arbitrary: wq m)
    case Nil
    then have "rt_wake_all_loop R q reason m = Some m"
      using rt_empty_iff [OF Nil(1) q] by (subst rt_wake_all_loop.simps) simp
    then show ?case using Nil(1) rt_wakes_refl by blast
  next
    case (Cons t ts)
    obtain m1 where m1: "rt_wake_first R q reason m = Some m1" "rt_lists_ok Q A (wq(q := ts)) m1" "rt_wakes token A m m1"
      by (rule wake_first [OF Cons.prems(1) q Cons.prems(2)])
    obtain wq' m' where m': "rt_wake_all_loop R q reason m1 = Some m'" "rt_lists_ok Q A wq' m'" "rt_wakes token A m1 m'"
      using Cons.IH [OF m1(2)] by auto
    have "rt_wake_all_loop R q reason m = Some m'"
      using rt_empty_iff [OF Cons.prems(1) q] Cons.prems(2) m1(1) m'(1) by (subst rt_wake_all_loop.simps) simp
    then show ?case using m'(2) rt_wakes_trans [OF m1(3) m'(3)] by blast
  qed
  then show thesis using assms(1) that by blast
qed

lemma step_inv:
  assumes inv: "rt_inv token Q A wq c" and step: "rt_step R Q A c c'"
  shows "\<exists>wq'. rt_inv token Q A wq' c'"
  using step
proof cases
  case (blocks t q m)
  have free: "wait_q (th (r_mem c) t) = None" using rt_invD(2) [OF inv blocks(2)] blocks(4) by simp
  obtain wq' m' where "rt_block_section R q t (r_mem c) = Some m'" "rt_lists_ok Q A wq' m'" "kern m' = kern (r_mem c)"
      "\<And>s. s \<noteq> t \<Longrightarrow> th m' s = th (r_mem c) s" "wait_q (th m' t) = Some q"
    by (rule rt_block_ok [where R = R, OF rt_invD(1) [OF inv] blocks(2,3) free]) (rule that)
  then have "rt_inv token Q A wq' (c\<lparr>r_mem := m, r_phase := (r_phase c)(t := RtBlocked)\<rparr>)"
    using blocks(5) by (intro rt_own_inv [OF inv]) simp_all
  then show ?thesis using blocks(1) by blast
next
  case (takes t m)
  obtain ok k where k: "rt_sem_trytake0 R (WaitSem t) (native (kern (r_mem c))) = (ok, k)"
      "call_native (rt_sem_trytake0 R (WaitSem t)) (r_mem c) = (ok, run_native (\<lambda>_. k) (r_mem c))"
    by (rule call_native_cases)
  have m: "m = run_native (\<lambda>_. k) (r_mem c)" using takes(4) k(2) by simp
  have "rt_inv token Q A wq (c\<lparr>r_mem := m, r_phase := (r_phase c)(t := RtTook RtOk)\<rparr>)"
    by (rule rt_own_inv [OF inv]) (simp_all add: m trytake [OF k(1)] rt_lists_ok_cong [OF rt_invD(1) [OF inv]])
  then show ?thesis using takes(1) by blast
next
  case (times_out t)
  have "rt_inv token Q A wq (c\<lparr>r_mem := r_mem c, r_phase := (r_phase c)(t := RtTook RtTimeout)\<rparr>)"
    by (rule rt_own_inv [OF inv rt_invD(1) [OF inv]]) simp_all
  then show ?thesis using times_out(1) by auto
next
  case (returns t r v m)
  obtain wq' v' m' where "rt_return_section t r (r_mem c) = Some (v', m')" "rt_lists_ok Q A wq' m'" "kern m' = kern (r_mem c)"
      "\<And>s. s \<noteq> t \<Longrightarrow> th m' s = th (r_mem c) s" "wait_q (th m' t) = None"
    by (rule rt_return_ok [where r = r, OF rt_invD(1) [OF inv] returns(2)]) (rule that)
  then have "rt_inv token Q A wq' (c\<lparr>r_mem := m, r_phase := (r_phase c)(t := RtRunning)\<rparr>)"
    using returns(4) by (intro rt_own_inv [OF inv]) simp_all
  then show ?thesis using returns(1) by blast
next
  case (wakes_one q reason m)
  obtain wq' m' where "rt_wake_one_section R q reason (r_mem c) = Some m'" "rt_lists_ok Q A wq' m'"
      "rt_wakes token A (r_mem c) m'"
    by (rule wake_one [where reason = reason, OF rt_invD(1) [OF inv] wakes_one(2)]) (rule that)
  then show ?thesis using rt_wakes_inv [OF inv] wakes_one(1,3) by auto
next
  case (wakes_all q reason m)
  obtain wq' m' where "rt_wake_all_loop R q reason (r_mem c) = Some m'" "rt_lists_ok Q A wq' m'"
      "rt_wakes token A (r_mem c) m'"
    by (rule wake_all [where reason = reason, OF rt_invD(1) [OF inv] wakes_all(2)]) (rule that)
  then show ?thesis using rt_wakes_inv [OF inv] wakes_all(1,3) by auto
next
  case (reprioritises h p)
  have "rt_inv token Q A wq (c\<lparr>r_mem := run_native (rt_change_priority R h p) (r_mem c)\<rparr>)"
    by (rule rt_wakes_inv [OF inv])
      (simp_all add: rt_lists_ok_cong [OF rt_invD(1) [OF inv]] rt_wakes_def priority_token)
  then show ?thesis using reprioritises by blast
next
  case (requeues t m)
  obtain wq' h where "rt_requeue_section R t (r_mem c) = Some (r_mem c\<lparr>waits := h\<rparr>)" "rt_lists_ok Q A wq' (r_mem c\<lparr>waits := h\<rparr>)"
    by (rule rt_requeue_ok [where R = R, OF rt_invD(1) [OF inv] requeues(2)]) (rule that)
  moreover have "rt_wakes token A (r_mem c) (r_mem c\<lparr>waits := h\<rparr>)" by (simp add: rt_wakes_def)
  ultimately show ?thesis using rt_wakes_inv [OF inv] requeues(1,3) by auto
next
  case (aborts t m)
  then have live: "\<not> completed (th (r_mem c) t)" by (auto simp: rt_abort_section_def)
  obtain wq' m' where "rt_abort_section t (r_mem c) = Some (None, m')" "rt_lists_ok Q A wq' m'" "kern m' = kern (r_mem c)"
      "\<And>s. s \<noteq> t \<Longrightarrow> th m' s = th (r_mem c) s" "wait_q (th m' t) = None"
    by (rule rt_abort_ok [OF rt_invD(1) [OF inv] aborts(2) live]) (rule that)
  then have "rt_inv token Q A wq' (c\<lparr>r_mem := m, r_phase := (r_phase c)(t := RtDead)\<rparr>)"
    using aborts(3) by (intro rt_own_inv [OF inv]) simp_all
  then show ?thesis using aborts(1) by blast
qed

lemma reach_inv: "rt_reach R Q A c \<Longrightarrow> \<exists>wq. rt_inv token Q A wq c"
proof (induction rule: rt_reach.induct)
  case (start c)
  then have "rt_lists_ok Q A (\<lambda>_. []) (r_mem c)" "r_phase c = (\<lambda>_. RtRunning)" by (simp_all add: rt_start_def)
  moreover from this have "wait_q (th (r_mem c) t) = None" if "t \<in> A" for t
    using waits_agreeD(2,3) [OF rt_lists_okD(2), of Q A _ "r_mem c" t] that
    by (cases "wait_q (th (r_mem c) t)") fastforce+
  ultimately show ?case by (intro exI rt_invI) simp_all
next
  case (step c c')
  then show ?case using step_inv by blast
qed

end

section \<open>A wakeup that is never taken\<close>

lemma rt_block_alone:
  assumes ok: "rt_lists_ok Q A wq m" and t: "t \<in> A" "q \<in> Q" "wait_q (th m t) = None" and empty: "wq q = []"
  obtains m' where "rt_block_section R q t m = Some m'" "rt_lists_ok Q A (wq(q := [t])) m'" "kern m' = kern m"
    "wait_q (th m' t) = Some q"
proof -
  let ?f = "\<lambda>T. T\<lparr>wait_q := Some q, wait_result := 0, t_state := OS_THREAD_PENDING\<rparr>"
  obtain h where h: "os_rt_waitq_insert_locked R q t (upd_th t ?f m) = Some (upd_th t ?f m\<lparr>waits := h\<rparr>)"
      "rt_lists_ok Q A (wq(q := prio_insert (rprio R (upd_th t ?f m)) t (wq q))) (upd_th t ?f m\<lparr>waits := h\<rparr>)"
    by (rule rt_insert_ok [OF ok t, of ?f]) simp_all
  show thesis
    by (rule that [OF h(1) [folded rt_block_section_def] h(2) [unfolded empty prio_insert_simps]]) simp_all
qed

lemma rt_reach_to: "rt_reach R Q A c \<Longrightarrow> rt_step R Q A c c'' \<Longrightarrow> c'' = c' \<Longrightarrow> rt_reach R Q A c'"
  using rt_reach.step by blast

text \<open>One thread blocks alone and is woken.\<close>

context rt_kernel
begin

lemma woken_alone:
  assumes start: "rt_start Q A c" and t: "t \<in> A" "q \<in> Q"
  obtains m where "rt_reach R Q A (c\<lparr>r_mem := m, r_phase := (\<lambda>_. RtRunning)(t := RtBlocked)\<rparr>)"
    "rt_lists_ok Q A (\<lambda>_. []) m" "wait_q (th m t) = None" "token (WaitSem t) (native (kern m))"
    "wait_result (th m t) = reason"
proof -
  have ok: "rt_lists_ok Q A (\<lambda>_. []) (r_mem c)" and ph: "r_phase c = (\<lambda>_. RtRunning)"
    using start by (simp_all add: rt_start_def)
  have free: "wait_q (th (r_mem c) t) = None"
    using waits_agreeD(2,3) [OF rt_lists_okD(2) [OF ok] t(1)] by (cases "wait_q (th (r_mem c) t)") fastforce+
  obtain m1 where m1: "rt_block_section R q t (r_mem c) = Some m1" "rt_lists_ok Q A ((\<lambda>_. [])(q := [t])) m1"
    by (rule rt_block_alone [where R = R, OF ok t free refl])
  have r1: "rt_reach R Q A (c\<lparr>r_mem := m1, r_phase := (r_phase c)(t := RtBlocked)\<rparr>)" (is "rt_reach R Q A ?c1")
    by (rule rt_reach.step [OF rt_reach.start [OF start] rt_step.blocks [OF t _ m1(1)]]) (simp add: ph)
  obtain h where h: "rt_wake_first R q reason m1 = Some (rt_woken R t reason (m1\<lparr>waits := h\<rparr>))"
      "rt_lists_ok Q A (((\<lambda>_. [])(q := [t]))(q := [])) (rt_woken R t reason (m1\<lparr>waits := h\<rparr>))"
    by (rule rt_wake_first_ok [OF m1(2) t(2)]) simp_all
  let ?m = "rt_woken R t reason (m1\<lparr>waits := h\<rparr>)"
  have "rt_wake_one_section R q reason (r_mem ?c1) = Some ?m"
    using rt_empty_iff [OF m1(2) t(2)] h(1) by (simp add: rt_wake_one_section_def)
  then have "rt_reach R Q A (c\<lparr>r_mem := ?m, r_phase := (\<lambda>_. RtRunning)(t := RtBlocked)\<rparr>)"
    by (rule rt_reach_to [OF r1 rt_step.wakes_one [OF t(2)]]) (simp add: ph)
  moreover have "((\<lambda>_. [])(q := [t]))(q := []) = (\<lambda>_. [])" by auto
  ultimately show thesis
    using h(2) by (intro that [of ?m]) (simp_all add: rt_woken_def release_token)
qed

lemma stale_token:
  fixes c :: "('h, 'k) rt_config"
  assumes start: "rt_start Q A c" and t: "t \<in> A" "q \<in> Q"
  obtains c1 m2 m3 m4 where "rt_reach R Q A c1" "r_phase c1 t = RtRunning" "rt_block_section R q t (r_mem c1) = Some m2"
    "call_native (rt_sem_trytake0 R (WaitSem t)) m2 = (True, m3)" "rt_return_section t RtOk m3 = Some (- EAGAIN, m4)"
proof -
  obtain m where m: "rt_reach R Q A (c\<lparr>r_mem := m, r_phase := (\<lambda>_. RtRunning)(t := RtBlocked)\<rparr>)"
    "rt_lists_ok Q A (\<lambda>_. []) m" "wait_q (th m t) = None" "token (WaitSem t) (native (kern m))"
    by (rule woken_alone [OF start t, of 0])
  let ?ct = "c\<lparr>r_mem := m, r_phase := (\<lambda>_. RtRunning)(t := RtTook RtTimeout)\<rparr>"
  let ?c1 = "c\<lparr>r_mem := upd_th t (\<lambda>T. T\<lparr>t_state := OS_THREAD_READY\<rparr>) m, r_phase := \<lambda>_. RtRunning\<rparr>"
  have rt: "rt_reach R Q A ?ct"
    by (rule rt_reach_to [OF m(1) rt_step.times_out [OF t(1)]]) simp_all
  have ret: "rt_return_section t RtTimeout (r_mem ?ct) =
      Some (sint (wait_result (th m t)), upd_th t (\<lambda>T. T\<lparr>t_state := OS_THREAD_READY\<rparr>) m)"
    by (simp add: rt_return_section_def m(3))
  have phase: "r_phase ?ct t = RtTook RtTimeout" by simp
  have r: "rt_reach R Q A ?c1"
    by (rule rt_reach_to [OF rt rt_step.returns [OF t(1) phase ret]]) (simp add: fun_upd_idem)
  have ok1: "rt_lists_ok Q A (\<lambda>_. []) (r_mem ?c1)" by (rule rt_lists_ok_cong [OF m(2)]) simp_all
  obtain m2 where m2: "rt_block_section R q t (r_mem ?c1) = Some m2" "rt_lists_ok Q A ((\<lambda>_. [])(q := [t])) m2"
      "kern m2 = kern (r_mem ?c1)" "wait_q (th m2 t) = Some q"
    by (rule rt_block_alone [where R = R, OF ok1 t]) (simp_all add: m(3))
  obtain ok k where k: "rt_sem_trytake0 R (WaitSem t) (native (kern m2)) = (ok, k)"
      "call_native (rt_sem_trytake0 R (WaitSem t)) m2 = (ok, run_native (\<lambda>_. k) m2)"
    by (rule call_native_cases)
  have "ok" using trytake [OF k(1)] m(4) m2(3) by simp
  let ?m3 = "run_native (\<lambda>_. k) m2"
  have ok3: "rt_lists_ok Q A ((\<lambda>_. [])(q := [t])) ?m3" by (rule rt_lists_ok_cong [OF m2(2)]) simp_all
  have wq3: "wait_q (th ?m3 t) = Some q" using m2(4) by simp
  obtain h where h: "waitq_remove t ?m3 = Some (?m3\<lparr>waits := h\<rparr>)"
      "rt_lists_ok Q A (((\<lambda>_. [])(q := [t]))(q := remove1 t (((\<lambda>_. [])(q := [t])) q))) (upd_th t (\<lambda>T. T\<lparr>wait_q := None\<rparr>) (?m3\<lparr>waits := h\<rparr>))"
    by (rule rt_remove_ok [OF ok3 t(1) wq3, of "\<lambda>T. T\<lparr>wait_q := None\<rparr>"]) simp_all
  from h(1) have fin: "rt_return_section t RtOk (run_native (\<lambda>_. k) m2) =
      Some (- EAGAIN, upd_th t (\<lambda>T. T\<lparr>wait_q := None, t_state := OS_THREAD_READY\<rparr>) (run_native (\<lambda>_. k) m2\<lparr>waits := h\<rparr>))"
    by (simp add: rt_return_section_def m2(4))
  have "r_phase ?c1 t = RtRunning" by simp
  moreover have "call_native (rt_sem_trytake0 R (WaitSem t)) m2 = (True, ?m3)" using k(2) \<open>ok\<close> by simp
  ultimately show thesis by (rule that [OF r _ m2(1) _ fin])
qed

end

section \<open>Properties\<close>

lemma ref_rt_start:
  "rt_start {PlainQueue 0} {0}
     \<lparr>r_mem = rt_os_waitq_init (Some (PlainQueue 0)) (ref_osal_empty 0 0), r_phase = (\<lambda>_. RtRunning)\<rparr>"
proof -
  let ?m = "rt_os_waitq_init (Some (PlainQueue 0)) (ref_osal_empty 0 0)"
  have "dlists_rep WaitList WaitNode {PlainQueue 0} (\<lambda>_. []) (waits ?m)"
    by (simp add: dlists_rep_def rt_os_waitq_init_def dlist_rep_init)
  moreover have "waits_agree {PlainQueue 0} {0} (\<lambda>_. []) (th ?m)"
    by (simp add: waits_agree_def rt_os_waitq_init_def ref_osal_empty_def os_thread_zero_def)
  ultimately show ?thesis by (simp add: rt_start_def rt_lists_ok_def)
qed

text \<open>C33: With any number of threads of the RT-Thread backend blocking on wait queues, woken, timing
  out, changing priority and aborted in any interleaving, in every reachable state each queue is a
  well-formed list of exactly the threads whose \<open>wait_q\<close> names it, each once; no wakeup is lost -
  a thread still in \<open>rt_sem_take\<close> that was taken off its queue can take a token at once; and
  every critical section is memory safe.\<close>

theorem rt_wait_queues_exact:
  assumes "rt_kernel R sems token threads" and "rt_reach R Q A c"
  shows "(\<exists>wq. \<forall>q \<in> Q. dlist_rep (waits (r_mem c)) (WaitList q) (map WaitNode (wq q)) \<and> distinct (wq q)
             \<and> set (wq q) = {t \<in> A. wait_q (th (r_mem c) t) = Some q})
    \<and> (\<forall>t \<in> A. (r_phase c t = RtBlocked \<and> wait_q (th (r_mem c) t) = None \<longrightarrow>
             fst (call_native (rt_sem_trytake0 R (WaitSem t)) (r_mem c)))
          \<and> (r_phase c t = RtRunning \<longrightarrow> (\<forall>q \<in> Q. rt_block_section R q t (r_mem c) \<noteq> None))
          \<and> rt_return_section t r (r_mem c) \<noteq> None \<and> rt_requeue_section R t (r_mem c) \<noteq> None
          \<and> rt_abort_section t (r_mem c) \<noteq> None)
    \<and> (\<forall>q \<in> Q. rt_wake_one_section R q reason (r_mem c) \<noteq> None
          \<and> rt_wake_all_loop R q reason (r_mem c) \<noteq> None)"
proof -
  obtain wq where inv: "rt_inv token Q A wq c"
    using rt_kernel.reach_inv [OF assms] by blast
  note ok = rt_invD(1) [OF inv]
  note agree = waits_agreeD [OF rt_lists_okD(2) [OF ok]]
  have lists: "dlist_rep (waits (r_mem c)) (WaitList q) (map WaitNode (wq q)) \<and> distinct (wq q)
      \<and> set (wq q) = {t \<in> A. wait_q (th (r_mem c) t) = Some q}" if q: "q \<in> Q" for q
  proof -
    have "dlist_rep (waits (r_mem c)) (WaitList q) (map WaitNode (wq q))"
      using rt_lists_okD(1) [OF ok] q by (simp add: dlists_rep_def)
    moreover have "set (wq q) = {t \<in> A. wait_q (th (r_mem c) t) = Some q}"
      using agree(1) [OF q] agree(2) [OF _ q] by blast
    ultimately show ?thesis using waits.dlists_distinct [OF rt_lists_okD(1) [OF ok] q] by blast
  qed
  have take: "fst (call_native (rt_sem_trytake0 R (WaitSem t)) (r_mem c))"
    if t: "t \<in> A" "r_phase c t = RtBlocked" "wait_q (th (r_mem c) t) = None" for t
    using rt_invD(3) [OF inv t] rt_kernel.trytake [OF assms(1), of "WaitSem t" "native (kern (r_mem c))"]
    by (cases "rt_sem_trytake0 R (WaitSem t) (native (kern (r_mem c)))") (simp add: call_native_def)
  have block: "rt_block_section R q t (r_mem c) \<noteq> None" if "t \<in> A" "q \<in> Q" "r_phase c t = RtRunning" for t q
    by (rule rt_block_ok [where R = R, OF ok that(1,2)]) (use rt_invD(2) [OF inv that(1)] that(3) in simp_all)
  have sections: "rt_return_section t r (r_mem c) \<noteq> None \<and> rt_requeue_section R t (r_mem c) \<noteq> None
      \<and> rt_abort_section t (r_mem c) \<noteq> None" if t: "t \<in> A" for t
  proof (intro conjI)
    show "rt_return_section t r (r_mem c) \<noteq> None" by (rule rt_return_ok [where r = r, OF ok t]) simp
    show "rt_requeue_section R t (r_mem c) \<noteq> None" by (rule rt_requeue_ok [where R = R, OF ok t]) simp
    show "rt_abort_section t (r_mem c) \<noteq> None"
    proof (cases "completed (th (r_mem c) t)")
      case False
      show ?thesis by (rule rt_abort_ok [OF ok t False]) simp
    qed (simp add: rt_abort_section_def)
  qed
  have "rt_wake_one_section R q reason (r_mem c) \<noteq> None \<and> rt_wake_all_loop R q reason (r_mem c) \<noteq> None" if q: "q \<in> Q" for q
  proof
    show "rt_wake_one_section R q reason (r_mem c) \<noteq> None"
      by (rule rt_kernel.wake_one [where reason = reason, OF assms(1) ok q]) simp
    show "rt_wake_all_loop R q reason (r_mem c) \<noteq> None"
      by (rule rt_kernel.wake_all [where reason = reason, OF assms(1) ok q]) simp
  qed
  with lists take block sections show ?thesis by blast
qed

lemma rt_wait_queues_exact_witness:
  "\<exists>c. rt_reach ref_rt {PlainQueue 0} {0} c \<and> r_phase c 0 = RtBlocked \<and> wait_q (th (r_mem c) 0) = None
     \<and> fst (call_native (rt_sem_trytake0 ref_rt (WaitSem 0)) (r_mem c))"
proof -
  obtain m where m: "rt_reach ref_rt {PlainQueue 0} {0}
      (\<lparr>r_mem = rt_os_waitq_init (Some (PlainQueue 0)) (ref_osal_empty 0 0), r_phase = (\<lambda>_. RtRunning)\<rparr>
        \<lparr>r_mem := m, r_phase := (\<lambda>_. RtRunning)(0 := RtBlocked)\<rparr>)" (is "rt_reach _ _ _ ?c")
      "wait_q (th m 0) = None"
    by (rule ref_rt.woken_alone [OF ref_rt_start, of 0 "PlainQueue 0"]) simp_all
  have "fst (call_native (rt_sem_trytake0 ref_rt (WaitSem 0)) (r_mem ?c))"
    using rt_wait_queues_exact [OF ref_rt.rt_kernel_axioms m(1)] m(2) by simp
  then show ?thesis using m by (intro exI [of _ ?c]) simp
qed

text \<open>A wakeup that meets a timeout is delivered twice: when a thread is woken after its
  \<open>rt_sem_take\<close> timed out and before its second critical section, \<open>os_waitq_block\<close> returns the
  waker's reason and leaves the token in the thread's semaphore; its next \<open>os_waitq_block\<close> takes that
  token at once and returns -EAGAIN although nobody woke it.\<close>

theorem rt_stale_wakeup:
  fixes R :: "('h, 'k) rt_threads" and c :: "('h, 'k) rt_config"
  assumes "rt_kernel R sems token threads" and "rt_start Q A c" and "t \<in> A" and "q \<in> Q"
  shows "\<exists>c1 m2 m3 m4. rt_reach R Q A c1 \<and> r_phase c1 t = RtRunning
     \<and> rt_block_section R q t (r_mem c1) = Some m2
     \<and> call_native (rt_sem_trytake0 R (WaitSem t)) m2 = (True, m3)
     \<and> rt_return_section t RtOk m3 = Some (- EAGAIN, m4)"
  by (rule rt_kernel.stale_token [OF assms]) blast

lemma rt_stale_wakeup_witness:
  "\<exists>c1 m2 m3 m4. rt_reach ref_rt {PlainQueue 0} {0} c1 \<and> r_phase c1 0 = RtRunning
     \<and> rt_block_section ref_rt (PlainQueue 0) 0 (r_mem c1) = Some m2
     \<and> call_native (rt_sem_trytake0 ref_rt (WaitSem 0)) m2 = (True, m3)
     \<and> rt_return_section 0 RtOk m3 = Some (- EAGAIN, m4)"
  by (rule rt_stale_wakeup [OF ref_rt.rt_kernel_axioms ref_rt_start]) simp_all

end
