(* ===== verification/Rt_Create.thy ===== *)
theory Rt_Create
  imports Rt_Kernel
begin

text \<open>
  \<open>os_thread_create\<close> of the RT-Thread backend takes three native resources, two semaphores and a
  thread, and gives back what it took on every path that fails.
\<close>

definition rt_create_done :: "nat \<Rightarrow> 'h \<Rightarrow> ('k \<Rightarrow> rt_sem_id set) \<Rightarrow> ('k \<Rightarrow> 'h set) \<Rightarrow>
    ('h, 'k) rt_osal \<Rightarrow> ('h, 'k) rt_osal \<Rightarrow> bool" where
  "rt_create_done t h sems threads m m' \<longleftrightarrow>
     sems (native (kern m')) = sems (native (kern m)) \<union> {WaitSem t, CompletionSem t}
     \<and> threads (native (kern m')) = insert h (threads (native (kern m))) \<and> h \<notin> threads (native (kern m))
     \<and> t_handle (th m' t) = Some h \<and> completion_handle (th m' t) = Some (CompletionSem t)"

lemma rt_name_native [simp]:
  "native (kern (snd (rt_name R kind obj salt m))) = native (kern m)"
  "th (snd (rt_name R kind obj salt m)) = th m"
  by (simp_all add: rt_name_def split_beta)

lemma create_fields_native [simp]:
  "native (kern (create_fields t stack sz entry p1 p2 p3 prio m)) = native (kern m)"
  "t_handle (th (create_fields t stack sz entry p1 p2 p3 prio m) t) = None"
  "completion_handle (th (create_fields t stack sz entry p1 p2 p3 prio m) t) = None"
  by (simp_all add: create_fields_def os_thread_zero_def)

context rt_kernel
begin

lemma create_sems:
  assumes new: "WaitSem t \<notin> sems (native (kern m))" "CompletionSem t \<notin> sems (native (kern m))"
    and call: "rt_create_sems R t wn cn m = (ok, m')"
  shows "sems (native (kern m')) = (if ok then sems (native (kern m)) \<union> {WaitSem t, CompletionSem t} else sems (native (kern m)))"
    and "threads (native (kern m')) = threads (native (kern m))"
    and "t_handle (th m' t) = t_handle (th m t)"
    and "ok \<Longrightarrow> completion_handle (th m' t) = Some (CompletionSem t)"
    and "\<not> ok \<Longrightarrow> completion_handle (th m' t) = completion_handle (th m t)"
proof -
  obtain ok1 k1 where c1: "rt_sem_init0 R (WaitSem t) wn (native (kern m)) = (ok1, k1)"
      "call_native (rt_sem_init0 R (WaitSem t) wn) m = (ok1, run_native (\<lambda>_. k1) m)"
    by (rule call_native_cases)
  let ?m1 = "run_native (rt_sem_limit1 R (WaitSem t)) (run_native (\<lambda>_. k1) m)"
  obtain ok2 k2 where c2: "rt_sem_init0 R (CompletionSem t) cn (native (kern ?m1)) = (ok2, k2)"
      "call_native (rt_sem_init0 R (CompletionSem t) cn) ?m1 = (ok2, run_native (\<lambda>_. k2) ?m1)"
    by (rule call_native_cases)
  note e1 = sem_init [OF c1(1)] and e2 = sem_init [OF c2(1)]
  have "(ok, m') =
    (if \<not> ok1 then (False, run_native (\<lambda>_. k1) m)
     else if \<not> ok2 then (False, run_native (rt_sem_detach0 R (WaitSem t)) (run_native (\<lambda>_. k2) ?m1))
     else (True, upd_th t (\<lambda>T. T\<lparr>completion_handle := Some (CompletionSem t)\<rparr>)
             (run_native (rt_sem_limit1 R (CompletionSem t)) (run_native (\<lambda>_. k2) ?m1))))"
    using call by (cases ok1; cases ok2) (simp_all add: rt_create_sems_def c1(2) c2(2))
  then show "sems (native (kern m')) = (if ok then sems (native (kern m)) \<union> {WaitSem t, CompletionSem t} else sems (native (kern m)))"
    and "threads (native (kern m')) = threads (native (kern m))"
    and "t_handle (th m' t) = t_handle (th m t)"
    and "ok \<Longrightarrow> completion_handle (th m' t) = Some (CompletionSem t)"
    and "\<not> ok \<Longrightarrow> completion_handle (th m' t) = completion_handle (th m t)"
    using e1 e2 new by (auto simp: sem_limit sem_detach split: if_splits)
qed

lemma create_native:
  assumes call: "rt_create_native R t n stack sz prio m = (r, m')" and tcb: "rt_tcb R t \<notin> threads (native (kern m))"
  shows "sems (native (kern m')) = sems (native (kern m)) \<and> th m' = th m
    \<and> threads (native (kern m')) = threads (native (kern m)) \<union> set_option r
    \<and> set_option r \<inter> threads (native (kern m)) = {} \<and> (r \<noteq> None \<longrightarrow> stack \<noteq> None \<or> rt_using_heap R)"
proof (cases stack)
  case (Some s)
  obtain ok k where c: "rt_thread_init R (rt_tcb R t) n t s sz (os_to_rt_priority (rt_priority_max R) prio) (native (kern m)) = (ok, k)"
      "call_native (rt_thread_init R (rt_tcb R t) n t s sz (os_to_rt_priority (rt_priority_max R) prio)) m = (ok, run_native (\<lambda>_. k) m)"
    by (rule call_native_cases)
  show ?thesis using call thread_init [OF c(1)] tcb by (auto simp: rt_create_native_def Some c(2) split: if_splits)
next
  case None
  obtain r' k where c: "rt_thread_create R n t sz (os_to_rt_priority (rt_priority_max R) prio) (native (kern m)) = (r', k)"
      "call_native (rt_thread_create R n t sz (os_to_rt_priority (rt_priority_max R) prio)) m = (r', run_native (\<lambda>_. k) m)"
    by (rule call_native_cases)
  show ?thesis using call thread_create [OF c(1)] by (auto simp: rt_create_native_def None c(2) split: if_splits)
qed

lemma detach_sems:
  "sems (native (kern (rt_detach_sems R t m))) = sems (native (kern m)) - {WaitSem t, CompletionSem t}"
  "threads (native (kern (rt_detach_sems R t m))) = threads (native (kern m))"
  "th (rt_detach_sems R t m) = th m"
  by (auto simp: rt_detach_sems_def sem_detach)

lemma create_start:
  assumes h: "h \<in> threads (native (kern m))" and stack: "stack \<noteq> None \<or> rt_using_heap R"
    and call: "rt_create_start R t stack h m = (r, m')"
  shows "if r = 0 then sems (native (kern m')) = sems (native (kern m)) \<and> threads (native (kern m')) = threads (native (kern m))
           \<and> t_handle (th m' t) = Some h \<and> completion_handle (th m' t) = completion_handle (th m t)
         else r = - EINVAL \<and> sems (native (kern m')) = sems (native (kern m)) - {WaitSem t, CompletionSem t}
           \<and> threads (native (kern m')) = threads (native (kern m)) - {h}
           \<and> t_handle (th m' t) = None \<and> completion_handle (th m' t) = None"
proof -
  let ?m = "run_native (rt_set_user_data R h t) (upd_th t (\<lambda>T. T\<lparr>t_handle := Some h\<rparr>) m)"
  obtain ok k where c: "rt_thread_startup R h (native (kern ?m)) = (ok, k)"
      "call_native (rt_thread_startup R h) ?m = (ok, run_native (\<lambda>_. k) ?m)"
    by (rule call_native_cases)
  have k: "sems k = sems (native (kern m))" "threads k = threads (native (kern m))"
    using startup [OF c(1)] by (simp_all add: user_data)
  show ?thesis
  proof (cases ok)
    case True
    then show ?thesis using call k by (auto simp: rt_create_start_def c(2))
  next
    case False
    let ?m1 = "run_native (\<lambda>_. k) ?m"
    let ?m2 = "if stack \<noteq> None then snd (call_native (rt_thread_detach R h) ?m1)
               else snd (call_native (rt_thread_delete R h) ?m1)"
    obtain d1 k1 where d1: "rt_thread_detach R h (native (kern ?m1)) = (d1, k1)"
        "call_native (rt_thread_detach R h) ?m1 = (d1, run_native (\<lambda>_. k1) ?m1)"
      by (rule call_native_cases)
    obtain d2 k2 where d2: "rt_thread_delete R h (native (kern ?m1)) = (d2, k2)"
        "call_native (rt_thread_delete R h) ?m1 = (d2, run_native (\<lambda>_. k2) ?m1)"
      by (rule call_native_cases)
    have m1: "h \<in> threads (native (kern ?m1))" using h k by simp
    have m2: "sems (native (kern ?m2)) = sems (native (kern m))"
        "threads (native (kern ?m2)) = threads (native (kern m)) - {h}" "th ?m2 = th ?m"
      using thread_detach [OF m1 d1(1)] thread_delete [OF m1 d2(1)] k by (simp_all add: d1(2) d2(2))
    have "(r, m') = (- EINVAL, upd_th t (\<lambda>T. T\<lparr>completion_handle := None\<rparr>)
        (rt_detach_sems R t (upd_th t (\<lambda>T. T\<lparr>t_handle := None\<rparr>) ?m2)))"
      using call False stack by (cases "stack = None") (simp_all add: rt_create_start_def c(2))
    then show ?thesis using m2 by (simp add: detach_sems)
  qed
qed

lemma create_thread:
  assumes new: "WaitSem t \<notin> sems (native (kern m))" "CompletionSem t \<notin> sems (native (kern m))"
      "rt_tcb R t \<notin> threads (native (kern m))"
    and args: "stack_size \<noteq> 0"
    and call: "rt_os_thread_create R (Some t) (Some n) stack stack_size (Some e) p1 p2 p3 prio options m = (r, m')"
  shows "if r = 0 then \<exists>h. rt_create_done t h sems threads m m'
         else sems (native (kern m')) = sems (native (kern m)) \<and> threads (native (kern m')) = threads (native (kern m))
           \<and> t_handle (th m' t) = None"
proof -
  let ?m0 = "create_fields t stack stack_size (Some e) p1 p2 p3 prio m"
  let ?m1 = "snd (rt_name R ''thr'' (ThreadObject t) (Some n) ?m0)"
  let ?m2 = "snd (rt_name R ''wait'' (SemObject (WaitSem t)) (Some n) ?m1)"
  let ?m3 = "snd (rt_name R ''done'' (SemObject (CompletionSem t)) (Some n) ?m2)"
  let ?nn = "fst (rt_name R ''thr'' (ThreadObject t) (Some n) ?m0)"
  let ?wn = "fst (rt_name R ''wait'' (SemObject (WaitSem t)) (Some n) ?m1)"
  let ?cn = "fst (rt_name R ''done'' (SemObject (CompletionSem t)) (Some n) ?m2)"
  have m3: "native (kern ?m3) = native (kern m)" "th ?m3 = th ?m0" by simp_all
  obtain ok m4 where s: "rt_create_sems R t ?wn ?cn ?m3 = (ok, m4)" by fastforce
  note sems4 = create_sems [OF _ _ s, unfolded m3, OF new(1,2)]
  obtain ho m5 where c: "rt_create_native R t ?nn stack stack_size prio m4 = (ho, m5)" by fastforce
  have tcb: "rt_tcb R t \<notin> threads (native (kern m4))" using sems4(2) new(3) by simp
  note nat5 = create_native [OF c tcb]
  have ret: "(r, m') = (if \<not> ok then (- ENOMEM, m4)
      else (case ho of None \<Rightarrow> (- ENOMEM, rt_detach_sems R t m5) | Some h \<Rightarrow> rt_create_start R t stack h m5))"
    using call args s c by (cases ok; cases ho) (simp_all add: rt_os_thread_create_def split_beta Let_def)
  show ?thesis
  proof (cases "ok \<and> ho \<noteq> None")
    case False
    then show ?thesis
      using ret sems4 nat5 new by (auto simp: detach_sems split: if_splits option.splits)
  next
    case True
    then obtain h where h: "ho = Some h" by auto
    have "rt_create_start R t stack h m5 = (r, m')" using ret True h by simp
    then have "if r = 0 then sems (native (kern m')) = sems (native (kern m5)) \<and> threads (native (kern m')) = threads (native (kern m5))
           \<and> t_handle (th m' t) = Some h \<and> completion_handle (th m' t) = completion_handle (th m5 t)
         else r = - EINVAL \<and> sems (native (kern m')) = sems (native (kern m5)) - {WaitSem t, CompletionSem t}
           \<and> threads (native (kern m')) = threads (native (kern m5)) - {h}
           \<and> t_handle (th m' t) = None \<and> completion_handle (th m' t) = None"
      by (intro create_start) (use nat5 h in auto)
    then show ?thesis
      using nat5 sems4 True h new unfolding rt_create_done_def by (auto split: if_splits)
  qed
qed

end

section \<open>Properties\<close>

text \<open>C34: Creating a thread is all or nothing: with valid arguments, \<open>os_thread_create\<close> of the
  RT-Thread backend either returns 0 with both semaphores initialised, one new native thread and
  the handles pointing to them, or an error with the same semaphores and threads as before it and
  no handle, on every path - a failed semaphore, a failed thread, a failed start, a static or a
  dynamic stack.\<close>

theorem rt_create_all_or_nothing:
  assumes "rt_kernel R sems token threads"
    and "WaitSem t \<notin> sems (native (kern m))" and "CompletionSem t \<notin> sems (native (kern m))"
    and "rt_tcb R t \<notin> threads (native (kern m))" and "stack_size \<noteq> 0"
    and "rt_os_thread_create R (Some t) (Some n) stack stack_size (Some e) p1 p2 p3 prio options m = (r, m')"
  shows "if r = 0 then \<exists>h. rt_create_done t h sems threads m m'
         else sems (native (kern m')) = sems (native (kern m)) \<and> threads (native (kern m')) = threads (native (kern m))
           \<and> t_handle (th m' t) = None"
  by (rule rt_kernel.create_thread [OF assms])

lemmas ref_create_defs = rt_os_thread_create_def rt_create_sems_def rt_create_native_def rt_create_start_def
  call_native_def run_native_def rt_detach_sems_def rt_name_def create_fields_def ref_rt_def ref_add_def ref_drop_def
  ref_kernel_empty_def ref_osal_empty_def upd_th_def

lemma ref_create_fails:
  "fst (rt_os_thread_create ref_rt (Some 7) (Some ''a'') None 512 (Some 0) 0 0 0 5 0 (ref_osal_empty 0 0)) = - ENOMEM"
  by (simp add: ref_create_defs split_beta Let_def)

lemma rt_create_all_or_nothing_witness:
  "\<exists>m' :: (nat, ref_kernel) rt_osal. rk_sems (native (kern m')) = {} \<and> rk_threads (native (kern m')) = {}
     \<and> t_handle (th m' 7) = None
     \<and> rt_os_thread_create ref_rt (Some 7) (Some ''a'') None 512 (Some 0) 0 0 0 5 0 (ref_osal_empty 0 0) = (- ENOMEM, m')"
proof -
  obtain m' where m': "rt_os_thread_create ref_rt (Some 7) (Some ''a'') None 512 (Some 0) 0 0 0 5 0 (ref_osal_empty 0 0)
      = (- ENOMEM, m')"
    using ref_create_fails by (metis prod.collapse)
  show ?thesis
    using rt_create_all_or_nothing [OF ref_rt.rt_kernel_axioms _ _ _ _ m'] m' by auto
qed

text \<open>
  When the native thread cannot be created, the semaphores are detached but \<open>completion_handle\<close>
  still points to one of them: a later join passes every guard and waits on it.
\<close>

lemma rt_failed_create_joinable:
  "let m = snd (rt_os_thread_create ref_rt (Some 7) (Some ''a'') None 512 (Some 0) 0 0 0 5 0 (ref_osal_empty 0 0))
   in fst (join_section 7 m) = Inr (CompletionSem 7) \<and> CompletionSem 7 \<notin> rk_sems (native (kern m))"
  by (simp add: ref_create_defs split_beta Let_def join_section_def os_thread_zero_def)

end
