(* ===== verification/Rt_Mutex.thy ===== *)
theory Rt_Mutex
  imports Semaphore
begin

text \<open>
  Mutexes of the RT-Thread backend, \<open>src/osal_rtthread/mutex.c\<close>: a guard and a translation of
  error codes around the native recursive mutex. A native mutex is its state \<open>'g\<close>; the \<open>storage\<close>
  is what \<open>native_handle\<close> points to, so the two are one option. The calling thread is an argument
  of the native calls.
\<close>

record 'g rt_os_mutex =
  rm_handle :: "'g option"
  rm_initialized :: bool

definition rt_os_mutex_zero :: "'g rt_os_mutex" where
  "rt_os_mutex_zero = \<lparr>rm_handle = None, rm_initialized = False\<rparr>"

text \<open>\<open>rt_mutex_busy\<close> is the test of \<open>owner\<close> and of the suspended threads inside the section.\<close>

record 'g rt_mutex =
  mutex_WAITING_FOREVER :: u32
  rt_mutex_init :: "'g option"
  rt_mutex_busy :: "'g \<Rightarrow> bool"
  rt_mutex_detach :: "'g \<Rightarrow> bool"
  rt_mutex_take :: "nat \<Rightarrow> u32 \<Rightarrow> 'g \<Rightarrow> bool \<times> 'g"
  rt_mutex_trytake :: "nat \<Rightarrow> 'g \<Rightarrow> bool \<times> 'g"
  rt_mutex_release :: "nat \<Rightarrow> 'g \<Rightarrow> bool \<times> 'g"

definition rt_os_mutex_init :: "'g rt_mutex \<Rightarrow> 'g rt_os_mutex option \<Rightarrow> 'g rt_os_mutex option" where
  "rt_os_mutex_init N mutex =
     (case mutex of
        None \<Rightarrow> None
      | Some _ \<Rightarrow>
          (case rt_mutex_init N of
             None \<Rightarrow> Some rt_os_mutex_zero
           | Some g \<Rightarrow> Some \<lparr>rm_handle = Some g, rm_initialized = True\<rparr>))"

definition rt_native_mutex :: "'g rt_os_mutex option \<Rightarrow> ('g rt_os_mutex \<times> 'g) option" where
  "rt_native_mutex mutex =
     (case mutex of
        None \<Rightarrow> None
      | Some u \<Rightarrow>
          if \<not> rm_initialized u then None
          else (case rm_handle u of None \<Rightarrow> None | Some g \<Rightarrow> Some (u, g)))"

definition rt_os_mutex_deinit ::
  "'g rt_mutex \<Rightarrow> bool \<Rightarrow> 'g rt_os_mutex option \<Rightarrow> int \<times> 'g rt_os_mutex option" where
  "rt_os_mutex_deinit N isr mutex =
     (case rt_native_mutex mutex of
        None \<Rightarrow> (- EINVAL, mutex)
      | Some (u, g) \<Rightarrow>
          if isr then (- EWOULDBLOCK, mutex)
          else if rt_mutex_busy N g then (- EBUSY, mutex)
          else if \<not> rt_mutex_detach N g then (- EBUSY, mutex)
          else (0, Some rt_os_mutex_zero))"

definition rt_os_mutex_lock ::
  "'g rt_mutex \<Rightarrow> bool \<Rightarrow> nat \<Rightarrow> 'g rt_os_mutex option \<Rightarrow> u32 \<Rightarrow> int \<times> 'g rt_os_mutex option" where
  "rt_os_mutex_lock N isr self mutex timeout =
     (case rt_native_mutex mutex of
        None \<Rightarrow> (- EINVAL, mutex)
      | Some (u, g) \<Rightarrow>
          if isr then (- EWOULDBLOCK, mutex)
          else
            let (ok, g) = rt_mutex_take N self
                            (if timeout = OS_WAIT_FOREVER then mutex_WAITING_FOREVER N else timeout) g
            in (if ok then 0 else if timeout = 0 then - EBUSY else - ETIMEDOUT,
                Some (u\<lparr>rm_handle := Some g\<rparr>)))"

definition rt_os_mutex_trylock ::
  "'g rt_mutex \<Rightarrow> bool \<Rightarrow> nat \<Rightarrow> 'g rt_os_mutex option \<Rightarrow> int \<times> 'g rt_os_mutex option" where
  "rt_os_mutex_trylock N isr self mutex =
     (case rt_native_mutex mutex of
        None \<Rightarrow> (- EINVAL, mutex)
      | Some (u, g) \<Rightarrow>
          if isr then (- EWOULDBLOCK, mutex)
          else
            let (ok, g) = rt_mutex_trytake N self g
            in (if ok then 0 else - EBUSY, Some (u\<lparr>rm_handle := Some g\<rparr>)))"

definition rt_os_mutex_unlock ::
  "'g rt_mutex \<Rightarrow> bool \<Rightarrow> nat \<Rightarrow> 'g rt_os_mutex option \<Rightarrow> int \<times> 'g rt_os_mutex option" where
  "rt_os_mutex_unlock N isr self mutex =
     (case rt_native_mutex mutex of
        None \<Rightarrow> (- EINVAL, mutex)
      | Some (u, g) \<Rightarrow>
          if isr then (- EWOULDBLOCK, mutex)
          else
            let (ok, g) = rt_mutex_release N self g
            in (if ok then 0 else - EPERM, Some (u\<lparr>rm_handle := Some g\<rparr>)))"

section \<open>The recursive mutex of kernel.h\<close>

text \<open>The owner and its nesting depth; \<open>deepest\<close> is the depth the native counter can hold.\<close>

type_synonym rec_mutex = "(nat \<times> nat) option"

datatype mutex_call = MLock nat | MTry nat | MUnlock nat

fun rec_lock :: "nat \<Rightarrow> nat \<Rightarrow> rec_mutex \<Rightarrow> bool \<times> rec_mutex" where
  "rec_lock deepest self None = (True, Some (self, 1))"
| "rec_lock deepest self (Some (owner, n)) =
     (if owner = self \<and> n < deepest then (True, Some (self, n + 1)) else (False, Some (owner, n)))"

fun rec_unlock :: "nat \<Rightarrow> rec_mutex \<Rightarrow> bool \<times> rec_mutex" where
  "rec_unlock self None = (False, None)"
| "rec_unlock self (Some (owner, n)) =
     (if owner \<noteq> self then (False, Some (owner, n))
      else (True, if n = 1 then None else Some (self, n - 1)))"

fun rec_call :: "nat \<Rightarrow> rec_mutex \<Rightarrow> mutex_call \<Rightarrow> int \<times> rec_mutex" where
  "rec_call deepest r (MLock t) = (let (ok, r) = rec_lock deepest t r in (if ok then 0 else - EBUSY, r))"
| "rec_call deepest r (MTry t) = (let (ok, r) = rec_lock deepest t r in (if ok then 0 else - EBUSY, r))"
| "rec_call deepest r (MUnlock t) = (let (ok, r) = rec_unlock t r in (if ok then 0 else - EPERM, r))"

fun rec_run :: "nat \<Rightarrow> rec_mutex \<Rightarrow> mutex_call list \<Rightarrow> int list \<times> rec_mutex" where
  "rec_run deepest r [] = ([], r)"
| "rec_run deepest r (c # cs) =
     (let (v, r) = rec_call deepest r c; (vs, r) = rec_run deepest r cs in (v # vs, r))"

text \<open>The same calls of threads that do not wait, on the adapter.\<close>

fun rt_mutex_call :: "'g rt_mutex \<Rightarrow> 'g rt_os_mutex option \<Rightarrow> mutex_call \<Rightarrow> int \<times> 'g rt_os_mutex option" where
  "rt_mutex_call N u (MLock t) = rt_os_mutex_lock N False t u 0"
| "rt_mutex_call N u (MTry t) = rt_os_mutex_trylock N False t u"
| "rt_mutex_call N u (MUnlock t) = rt_os_mutex_unlock N False t u"

fun rt_mutex_run :: "'g rt_mutex \<Rightarrow> 'g rt_os_mutex option \<Rightarrow> mutex_call list \<Rightarrow> int list \<times> 'g rt_os_mutex option" where
  "rt_mutex_run N u [] = ([], u)"
| "rt_mutex_run N u (c # cs) =
     (let (v, u) = rt_mutex_call N u c; (vs, u) = rt_mutex_run N u cs in (v # vs, u))"

text \<open>An initialised object whose native mutex satisfies \<open>ok\<close> and represents \<open>r\<close>.\<close>

definition rt_mutex_rep ::
  "('g \<Rightarrow> bool) \<Rightarrow> ('g \<Rightarrow> rec_mutex) \<Rightarrow> 'g rt_os_mutex option \<Rightarrow> rec_mutex \<Rightarrow> bool" where
  "rt_mutex_rep ok rec u r \<longleftrightarrow>
     (\<exists>g. u = Some \<lparr>rm_handle = Some g, rm_initialized = True\<rparr> \<and> ok g \<and> rec g = r)"

text \<open>What the RT-Thread manual says of mutexes nobody waits for.\<close>

locale rt_mutex_native =
  fixes N :: "'g rt_mutex" and ok :: "'g \<Rightarrow> bool" and rec :: "'g \<Rightarrow> rec_mutex" and deepest :: nat
  assumes init_free: "rt_mutex_init N = Some g \<Longrightarrow> ok g \<and> rec g = None"
    and busy_held: "ok g \<Longrightarrow> rt_mutex_busy N g \<longleftrightarrow> rec g \<noteq> None"
    and detach_free: "ok g \<Longrightarrow> rec g = None \<Longrightarrow> rt_mutex_detach N g"
    and take_now: "ok g \<Longrightarrow> \<exists>g'. rt_mutex_take N t 0 g = (fst (rec_lock deepest t (rec g)), g')
      \<and> ok g' \<and> rec g' = snd (rec_lock deepest t (rec g))"
    and trytake_now: "ok g \<Longrightarrow> \<exists>g'. rt_mutex_trytake N t g = (fst (rec_lock deepest t (rec g)), g')
      \<and> ok g' \<and> rec g' = snd (rec_lock deepest t (rec g))"
    and release_now: "ok g \<Longrightarrow> \<exists>g'. rt_mutex_release N t g = (fst (rec_unlock t (rec g)), g')
      \<and> ok g' \<and> rec g' = snd (rec_unlock t (rec g))"
begin

lemmas call_defs = rt_os_mutex_lock_def rt_os_mutex_trylock_def rt_os_mutex_unlock_def rt_native_mutex_def
  OS_WAIT_FOREVER_def

lemma call_refines:
  assumes "rt_mutex_rep ok rec u r"
  shows "fst (rt_mutex_call N u c) = fst (rec_call deepest r c)
    \<and> rt_mutex_rep ok rec (snd (rt_mutex_call N u c)) (snd (rec_call deepest r c))"
proof -
  obtain g where u: "u = Some \<lparr>rm_handle = Some g, rm_initialized = True\<rparr>" "ok g" "rec g = r"
    using assms by (auto simp: rt_mutex_rep_def)
  show ?thesis
  proof (cases c)
    case (MLock t)
    then show ?thesis using take_now [OF u(2), of t]
      by (cases "rec_lock deepest t r") (auto simp: u rt_mutex_rep_def call_defs)
  next
    case (MTry t)
    then show ?thesis using trytake_now [OF u(2), of t]
      by (cases "rec_lock deepest t r") (auto simp: u rt_mutex_rep_def call_defs)
  next
    case (MUnlock t)
    then show ?thesis using release_now [OF u(2), of t]
      by (cases "rec_unlock t r") (auto simp: u rt_mutex_rep_def call_defs)
  qed
qed

lemma run_refines:
  assumes "rt_mutex_rep ok rec u r"
  shows "fst (rt_mutex_run N u cs) = fst (rec_run deepest r cs)
    \<and> rt_mutex_rep ok rec (snd (rt_mutex_run N u cs)) (snd (rec_run deepest r cs))"
  using assms
proof (induction cs arbitrary: u r)
  case (Cons c cs)
  obtain v u' where c: "rt_mutex_call N u c = (v, u')" by fastforce
  obtain v' r' where c': "rec_call deepest r c = (v', r')" by fastforce
  have "v = v'" "rt_mutex_rep ok rec u' r'" using call_refines [OF Cons.prems, of c] c c' by simp_all
  then show ?case using Cons.IH [of u' r'] c c' by (simp add: split_beta)
qed simp

lemma deinit_free:
  assumes "rt_mutex_rep ok rec u r"
  shows "rt_os_mutex_deinit N False u = (if r = None then (0, Some rt_os_mutex_zero) else (- EBUSY, u))"
  using assms busy_held detach_free
  by (auto simp: rt_mutex_rep_def rt_os_mutex_deinit_def rt_native_mutex_def)

end

section \<open>A native mutex\<close>

definition native_rt_mutex :: "rec_mutex rt_mutex" where
  "native_rt_mutex = \<lparr>mutex_WAITING_FOREVER = 0xFFFFFFFF, rt_mutex_init = Some None,
     rt_mutex_busy = (\<lambda>g. g \<noteq> None), rt_mutex_detach = (\<lambda>g. True),
     rt_mutex_take = (\<lambda>t timeout g. rec_lock 255 t g), rt_mutex_trytake = (\<lambda>t g. rec_lock 255 t g),
     rt_mutex_release = (\<lambda>t g. rec_unlock t g)\<rparr>"

interpretation native_mutex: rt_mutex_native native_rt_mutex "\<lambda>_. True" id 255
  by unfold_locales (simp_all add: native_rt_mutex_def prod_eq_iff)

section \<open>Properties\<close>

text \<open>On a freshly initialised mutex of the RT-Thread backend, any sequence of non-blocking locks
  and unlocks by any threads returns what a recursive mutex returns - nested locks of the owner
  succeed up to the depth of the native counter, others get -EBUSY, and only the owner may unlock -
  and the mutex can be deinitialised exactly when it is free again.\<close>

theorem rt_mutex_refines_recursive:
  assumes "rt_mutex_native N ok rec deepest" and "rt_mutex_init N \<noteq> None"
  shows "fst (rt_mutex_run N (rt_os_mutex_init N (Some u)) cs) = fst (rec_run deepest None cs)
    \<and> fst (rt_os_mutex_deinit N False (snd (rt_mutex_run N (rt_os_mutex_init N (Some u)) cs))) =
        (if snd (rec_run deepest None cs) = None then 0 else - EBUSY)"
proof -
  obtain g where g: "rt_mutex_init N = Some g" using assms(2) by auto
  have rep: "rt_mutex_rep ok rec (rt_os_mutex_init N (Some u)) None"
    using rt_mutex_native.init_free [OF assms(1) g] by (simp add: rt_mutex_rep_def rt_os_mutex_init_def g)
  note run = rt_mutex_native.run_refines [OF assms(1) rep, of cs]
  then show ?thesis
    using rt_mutex_native.deinit_free [OF assms(1) conjunct2 [OF run]] by simp
qed

lemma rt_mutex_refines_recursive_witness:
  "fst (rt_mutex_run native_rt_mutex (rt_os_mutex_init native_rt_mutex (Some rt_os_mutex_zero))
      [MLock 1, MTry 1, MLock 2, MUnlock 2, MUnlock 1, MUnlock 1, MTry 2]) =
   [0, 0, - EBUSY, - EPERM, 0, 0, 0]"
  using rt_mutex_refines_recursive [OF native_mutex.rt_mutex_native_axioms, of rt_os_mutex_zero
      "[MLock 1, MTry 1, MLock 2, MUnlock 2, MUnlock 1, MUnlock 1, MTry 2]"]
  by (simp add: native_rt_mutex_def)

end
