(* ===== verification/Slist.thy ===== *)
theory Slist
  imports Osal_Prelude
begin

text \<open>
  The singly-linked lists of \<open>include/hazel_wireless/sys/slist.h\<close>, whose operations are generated by
  the macros of \<open>list_gen.h\<close>. The memory has a head and a tail for every list, and a \<open>next\<close> for every
  node; pointers to lists are not NULL, pointers to nodes may be. Following a NULL node is \<open>None\<close>.
\<close>

section \<open>The operations\<close>

record ('l, 'n) smem =
  sl_head :: "'l \<Rightarrow> 'n option"
  sl_tail :: "'l \<Rightarrow> 'n option"
  sn_next :: "'n \<Rightarrow> 'n option"

definition sys_slist_init :: "'l \<Rightarrow> ('l, 'n) smem \<Rightarrow> ('l, 'n) smem" where
  "sys_slist_init list m = m\<lparr>sl_head := (sl_head m)(list := None), sl_tail := (sl_tail m)(list := None)\<rparr>"

definition z_snode_next_peek :: "'n option \<Rightarrow> ('l, 'n) smem \<Rightarrow> 'n option option" where
  "z_snode_next_peek node m = map_option (sn_next m) node"

definition z_snode_next_set :: "'n option \<Rightarrow> 'n option \<Rightarrow> ('l, 'n) smem \<Rightarrow> ('l, 'n) smem option" where
  "z_snode_next_set parent child m =
     map_option (\<lambda>p. m\<lparr>sn_next := (sn_next m)(p := child)\<rparr>) parent"

definition z_slist_head_set :: "'l \<Rightarrow> 'n option \<Rightarrow> ('l, 'n) smem \<Rightarrow> ('l, 'n) smem" where
  "z_slist_head_set list node m = m\<lparr>sl_head := (sl_head m)(list := node)\<rparr>"

definition z_slist_tail_set :: "'l \<Rightarrow> 'n option \<Rightarrow> ('l, 'n) smem \<Rightarrow> ('l, 'n) smem" where
  "z_slist_tail_set list node m = m\<lparr>sl_tail := (sl_tail m)(list := node)\<rparr>"

definition sys_slist_peek_head :: "'l \<Rightarrow> ('l, 'n) smem \<Rightarrow> 'n option" where
  "sys_slist_peek_head list m = sl_head m list"

definition sys_slist_peek_tail :: "'l \<Rightarrow> ('l, 'n) smem \<Rightarrow> 'n option" where
  "sys_slist_peek_tail list m = sl_tail m list"

definition sys_slist_is_empty :: "'l \<Rightarrow> ('l, 'n) smem \<Rightarrow> bool" where
  "sys_slist_is_empty list m \<longleftrightarrow> sys_slist_peek_head list m = None"

definition sys_slist_peek_next_no_check :: "'n option \<Rightarrow> ('l, 'n) smem \<Rightarrow> 'n option option" where
  "sys_slist_peek_next_no_check node m = z_snode_next_peek node m"

definition sys_slist_peek_next :: "'n option \<Rightarrow> ('l, 'n) smem \<Rightarrow> 'n option option" where
  "sys_slist_peek_next node m =
     (if node \<noteq> None then sys_slist_peek_next_no_check node m else Some None)"

definition sys_slist_prepend :: "'l \<Rightarrow> 'n option \<Rightarrow> ('l, 'n) smem \<Rightarrow> ('l, 'n) smem option" where
  "sys_slist_prepend list node m = do {
     m \<leftarrow> z_snode_next_set node (sys_slist_peek_head list m) m;
     let m = z_slist_head_set list node m;
     Some (if sys_slist_peek_tail list m = None
           then z_slist_tail_set list (sys_slist_peek_head list m) m else m)
   }"

definition sys_slist_append :: "'l \<Rightarrow> 'n option \<Rightarrow> ('l, 'n) smem \<Rightarrow> ('l, 'n) smem option" where
  "sys_slist_append list node m = do {
     m \<leftarrow> z_snode_next_set node None m;
     if sys_slist_peek_tail list m = None
     then Some (z_slist_head_set list node (z_slist_tail_set list node m))
     else do {
       m \<leftarrow> z_snode_next_set (sys_slist_peek_tail list m) node m;
       Some (z_slist_tail_set list node m)
     }
   }"

definition sys_slist_append_list ::
  "'l \<Rightarrow> 'n option \<Rightarrow> 'n option \<Rightarrow> ('l, 'n) smem \<Rightarrow> ('l, 'n) smem option" where
  "sys_slist_append_list list head tail m =
     (if head \<noteq> None \<and> tail \<noteq> None
      then do {
        m \<leftarrow> (if sys_slist_peek_tail list m = None then Some (z_slist_head_set list head m)
             else z_snode_next_set (sys_slist_peek_tail list m) head m);
        Some (z_slist_tail_set list tail m)
      }
      else Some m)"

definition sys_slist_merge_slist :: "'l \<Rightarrow> 'l \<Rightarrow> ('l, 'n) smem \<Rightarrow> ('l, 'n) smem option" where
  "sys_slist_merge_slist list list_to_append m = do {
     let head = sys_slist_peek_head list_to_append m;
     let tail = sys_slist_peek_tail list_to_append m;
     m \<leftarrow> sys_slist_append_list list head tail m;
     Some (sys_slist_init list_to_append m)
   }"

definition sys_slist_insert ::
  "'l \<Rightarrow> 'n option \<Rightarrow> 'n option \<Rightarrow> ('l, 'n) smem \<Rightarrow> ('l, 'n) smem option" where
  "sys_slist_insert list prev node m =
     (if prev = None then sys_slist_prepend list node m
      else do {
        next \<leftarrow> z_snode_next_peek prev m;
        if next = None then sys_slist_append list node m
        else do {
          m \<leftarrow> z_snode_next_set node next m;
          z_snode_next_set prev node m
        }
      })"

definition sys_slist_get_not_empty :: "'l \<Rightarrow> ('l, 'n) smem \<Rightarrow> ('n option \<times> ('l, 'n) smem) option" where
  "sys_slist_get_not_empty list m = do {
     let node = sys_slist_peek_head list m;
     next \<leftarrow> z_snode_next_peek node m;
     let m = z_slist_head_set list next m;
     Some (node, if sys_slist_peek_tail list m = node
                 then z_slist_tail_set list (sys_slist_peek_head list m) m else m)
   }"

definition sys_slist_get :: "'l \<Rightarrow> ('l, 'n) smem \<Rightarrow> ('n option \<times> ('l, 'n) smem) option" where
  "sys_slist_get list m =
     (if sys_slist_is_empty list m then Some (None, m) else sys_slist_get_not_empty list m)"

definition sys_slist_remove ::
  "'l \<Rightarrow> 'n option \<Rightarrow> 'n option \<Rightarrow> ('l, 'n) smem \<Rightarrow> ('l, 'n) smem option" where
  "sys_slist_remove list prev_node node m = do {
     next \<leftarrow> z_snode_next_peek node m;
     m \<leftarrow> (if prev_node = None
          then let m = z_slist_head_set list next m
               in Some (if sys_slist_peek_tail list m = node
                        then z_slist_tail_set list (sys_slist_peek_head list m) m else m)
          else do {
            m \<leftarrow> z_snode_next_set prev_node next m;
            Some (if sys_slist_peek_tail list m = node then z_slist_tail_set list prev_node m else m)
          });
     z_snode_next_set node None m
   }"

text \<open>The loop of \<open>sys_slist_find_and_remove\<close>; on a cyclic list it need not end.\<close>

partial_function (option) find_and_remove_loop ::
  "'l \<Rightarrow> 'n option \<Rightarrow> 'n option \<Rightarrow> 'n option \<Rightarrow> ('l, 'n) smem \<Rightarrow> (bool \<times> ('l, 'n) smem) option" where
  "find_and_remove_loop list node prev test m =
     (if test = None then Some (False, m)
      else if test = node then map_option (Pair True) (sys_slist_remove list prev node m)
      else do {
        next \<leftarrow> sys_slist_peek_next test m;
        find_and_remove_loop list node test next m
      })"

definition sys_slist_find_and_remove :: "'l \<Rightarrow> 'n option \<Rightarrow> ('l, 'n) smem \<Rightarrow> (bool \<times> ('l, 'n) smem) option" where
  "sys_slist_find_and_remove list node m =
     find_and_remove_loop list node None (sys_slist_peek_head list m) m"

section \<open>Lists as sequences\<close>

text \<open>The pointer to the first node of \<open>xs\<close>, or \<open>e\<close> when there is none.\<close>

definition hd_or :: "'n list \<Rightarrow> 'n option \<Rightarrow> 'n option" where
  "hd_or xs e = (case xs of [] \<Rightarrow> e | x # _ \<Rightarrow> Some x)"

fun path :: "('n \<Rightarrow> 'n option) \<Rightarrow> 'n list \<Rightarrow> 'n option \<Rightarrow> bool" where
  "path nx [] e = True"
| "path nx (x # xs) e = (nx x = hd_or xs e \<and> path nx xs e)"

definition last_or :: "'n list \<Rightarrow> 'n option" where
  "last_or xs = (if xs = [] then None else Some (last xs))"

definition slist_rep :: "('l, 'n) smem \<Rightarrow> 'l \<Rightarrow> 'n list \<Rightarrow> bool" where
  "slist_rep m l xs \<longleftrightarrow>
     distinct xs \<and> sl_head m l = hd_or xs None \<and> sl_tail m l = last_or xs \<and> path (sn_next m) xs None"

lemma hd_or_simps [simp]: "hd_or [] e = e" "hd_or (x # xs) e = Some x"
  by (simp_all add: hd_or_def)

lemma hd_or_append [simp]: "hd_or (xs @ ys) e = hd_or xs (hd_or ys e)"
  by (cases xs) simp_all

lemma hd_or_None_iff [simp]: "hd_or xs None = None \<longleftrightarrow> xs = []"
  by (cases xs) simp_all

lemma last_or_simps [simp]:
  "last_or [] = None" "last_or [x] = Some x" "last_or (xs @ [x]) = Some x" "last_or xs = None \<longleftrightarrow> xs = []"
  "last_or (xs @ y # ys) = last_or (y # ys)"
  by (simp_all add: last_or_def)

lemma last_or_Cons: "last_or (x # xs) = (if xs = [] then Some x else last_or xs)"
  by (simp add: last_or_def)

lemma last_or_append: "last_or (xs @ ys) = (if ys = [] then last_or xs else last_or ys)"
  by (simp add: last_or_def)

lemma path_append [simp]: "path nx (xs @ ys) e \<longleftrightarrow> path nx xs (hd_or ys e) \<and> path nx ys e"
  by (induction xs) auto

lemma path_upd [simp]: "n \<notin> set xs \<Longrightarrow> path (nx(n := v)) xs e = path nx xs e"
  by (induction xs) auto

text \<open>The lists in \<open>L\<close> represent \<open>xs\<close> and share no node.\<close>

definition slists_rep :: "'l set \<Rightarrow> ('l \<Rightarrow> 'n list) \<Rightarrow> ('l, 'n) smem \<Rightarrow> bool" where
  "slists_rep L xs m \<longleftrightarrow>
     (\<forall>l \<in> L. slist_rep m l (xs l)) \<and> (\<forall>l \<in> L. \<forall>k \<in> L. l \<noteq> k \<longrightarrow> set (xs l) \<inter> set (xs k) = {})"

lemma slists_repD:
  assumes "slists_rep L xs m" "l \<in> L"
  shows "slist_rep m l (xs l)" and "k \<in> L \<Longrightarrow> l \<noteq> k \<Longrightarrow> set (xs l) \<inter> set (xs k) = {}"
  using assms by (auto simp: slists_rep_def)

text \<open>An operation on one list that touches only the links of \<open>S\<close>.\<close>

definition slist_frame :: "'l \<Rightarrow> 'n set \<Rightarrow> ('l, 'n) smem \<Rightarrow> ('l, 'n) smem \<Rightarrow> bool" where
  "slist_frame l S m m' \<longleftrightarrow>
     (\<forall>k. k \<noteq> l \<longrightarrow> sl_head m' k = sl_head m k \<and> sl_tail m' k = sl_tail m k)
     \<and> (\<forall>n. n \<notin> S \<longrightarrow> sn_next m' n = sn_next m n)"

lemma path_cong: "(\<And>n. n \<in> set xs \<Longrightarrow> nx n = ny n) \<Longrightarrow> path nx xs e = path ny xs e"
  by (induction xs) auto

lemma slists_update:
  assumes rep: "slists_rep L xs m" and l: "l \<in> L" "slist_rep m' l ys"
    and frame: "slist_frame l (set (xs l) \<union> N) m m'"
    and new: "\<And>k. k \<in> L \<Longrightarrow> set (xs k) \<inter> N = {}" and ys: "set ys \<subseteq> set (xs l) \<union> N"
  shows "slists_rep L (xs(l := ys)) m'"
proof -
  have "slist_rep m' k (xs k)" if k: "k \<in> L" "k \<noteq> l" for k
  proof -
    have "n \<notin> set (xs l) \<union> N" if "n \<in> set (xs k)" for n
      using slists_repD(2) [OF rep k(1) l(1) k(2)] new [OF k(1)] that by blast
    then have "path (sn_next m') (xs k) None = path (sn_next m) (xs k) None"
      using frame by (intro path_cong) (simp add: slist_frame_def)
    then show ?thesis using slists_repD(1) [OF rep k(1)] frame k(2) by (simp add: slist_rep_def slist_frame_def)
  qed
  moreover have "set (xs k) \<inter> set ys = {}" if k: "k \<in> L" "k \<noteq> l" for k
    using slists_repD(2) [OF rep k(1) l(1) k(2)] new [OF k(1)] ys by blast
  ultimately show ?thesis
    using l slists_repD [OF rep] unfolding slists_rep_def by (auto simp: Int_commute)
qed

lemmas slist_op_defs = z_snode_next_peek_def z_snode_next_set_def z_slist_head_set_def z_slist_tail_set_def
  sys_slist_peek_head_def sys_slist_peek_tail_def

section \<open>Each operation\<close>

lemma sys_slist_init_rep: "slist_rep (sys_slist_init l m) l [] \<and> slist_frame l {} m (sys_slist_init l m)"
  by (simp add: slist_rep_def slist_frame_def sys_slist_init_def)

lemma sys_slist_is_empty_rep: "slist_rep m l xs \<Longrightarrow> sys_slist_is_empty l m \<longleftrightarrow> xs = []"
  by (simp add: slist_rep_def sys_slist_is_empty_def sys_slist_peek_head_def)

lemma sys_slist_prepend_rep:
  assumes "slist_rep m l xs" "n \<notin> set xs"
  obtains m' where "sys_slist_prepend l (Some n) m = Some m'" "slist_rep m' l (n # xs)" "slist_frame l {n} m m'"
  using assms that by (auto simp: sys_slist_prepend_def slist_op_defs slist_rep_def slist_frame_def Let_def last_or_Cons)

lemma sys_slist_append_rep:
  assumes rep: "slist_rep m l xs" and new: "n \<notin> set xs"
  obtains m' where "sys_slist_append l (Some n) m = Some m'" "slist_rep m' l (xs @ [n])"
    "slist_frame l (insert n (set xs)) m m'"
proof (cases xs rule: rev_cases)
  case Nil
  then show thesis using that rep
    by (auto simp: sys_slist_append_def slist_op_defs slist_rep_def slist_frame_def last_or_Cons)
next
  case (snoc ys y)
  let ?m = "m\<lparr>sn_next := (sn_next m)(n := None, y := Some n), sl_tail := (sl_tail m)(l := Some n)\<rparr>"
  have "sys_slist_append l (Some n) m = Some ?m"
    using rep by (simp add: sys_slist_append_def slist_op_defs slist_rep_def snoc)
  moreover have "slist_rep ?m l (xs @ [n])" using rep new by (auto simp: slist_rep_def snoc last_or_Cons)
  moreover have "slist_frame l (insert n (set xs)) m ?m" by (simp add: slist_frame_def snoc)
  ultimately show thesis by (rule that)
qed

lemma sys_slist_get_rep:
  assumes "slist_rep m l (x # xs)"
  obtains m' where "sys_slist_get l m = Some (Some x, m')" "slist_rep m' l xs" "slist_frame l {} m m'"
proof -
  have h: "sl_head m l = Some x" "sl_tail m l = last_or (x # xs)" "sn_next m x = hd_or xs None"
      "path (sn_next m) xs None" "x \<notin> set xs" "distinct xs"
    using assms by (simp_all add: slist_rep_def)
  have last: "last_or (x # xs) = Some x \<longleftrightarrow> xs = []"
    using h(5) last_in_set [of xs] by (auto simp: last_or_Cons last_or_def)
  show thesis using that h last
    by (cases "xs = []")
      (auto simp: sys_slist_get_def sys_slist_is_empty_def sys_slist_get_not_empty_def slist_op_defs slist_rep_def
        slist_frame_def last_or_Cons Let_def)
qed

lemma sys_slist_get_empty: "slist_rep m l [] \<Longrightarrow> sys_slist_get l m = Some (None, m)"
  by (simp add: sys_slist_get_def sys_slist_is_empty_rep)

lemma sys_slist_insert_rep:
  assumes rep: "slist_rep m l (as @ p # bs)" and new: "n \<notin> set (as @ p # bs)"
  obtains m' where "sys_slist_insert l (Some p) (Some n) m = Some m'" "slist_rep m' l (as @ p # n # bs)"
    "slist_frame l (insert n (set (as @ p # bs))) m m'"
proof (cases bs)
  case Nil
  obtain m' where "sys_slist_append l (Some n) m = Some m'" "slist_rep m' l ((as @ p # bs) @ [n])"
      "slist_frame l (insert n (set (as @ p # bs))) m m'"
    by (rule sys_slist_append_rep [OF rep new])
  moreover have "sn_next m p = None" using rep Nil by (simp add: slist_rep_def)
  ultimately show thesis using that Nil by (simp add: sys_slist_insert_def slist_op_defs)
next
  case (Cons b cs)
  let ?m = "m\<lparr>sn_next := (sn_next m)(n := Some b, p := Some n)\<rparr>"
  have "sn_next m p = Some b" using rep Cons by (simp add: slist_rep_def)
  then have "sys_slist_insert l (Some p) (Some n) m = Some ?m"
    by (simp add: sys_slist_insert_def slist_op_defs)
  moreover have "slist_rep ?m l (as @ p # n # bs)"
    using rep new Cons by (auto simp: slist_rep_def last_or_Cons last_or_append)
  moreover have "slist_frame l (insert n (set (as @ p # bs))) m ?m" by (simp add: slist_frame_def)
  ultimately show thesis by (rule that)
qed

lemma sys_slist_remove_rep:
  assumes rep: "slist_rep m l (as @ n # bs)" and prev: "prev = last_or as"
  obtains m' where "sys_slist_remove l prev (Some n) m = Some m'" "slist_rep m' l (as @ bs)"
    "slist_frame l (set (as @ n # bs)) m m'"
proof -
  have h: "sl_head m l = hd_or as (Some n)" "sl_tail m l = last_or (n # bs)" "sn_next m n = hd_or bs None"
      "path (sn_next m) as (Some n)" "path (sn_next m) bs None" "n \<notin> set as" "n \<notin> set bs" "distinct (as @ bs)"
    using rep by (simp_all add: slist_rep_def)
  have last: "last_or (n # bs) = Some n \<longleftrightarrow> bs = []"
    using h(7) last_in_set [of bs] by (auto simp: last_or_Cons last_or_def)
  show thesis
  proof (cases as rule: rev_cases)
    case Nil
    show thesis using that h last prev Nil
      by (cases "bs = []")
        (auto simp: sys_slist_remove_def slist_op_defs slist_rep_def slist_frame_def last_or_Cons Let_def)
  next
    case (snoc cs c)
    have path: "path (sn_next m) cs (Some c)" "c \<notin> set cs" "c \<noteq> n" "c \<notin> set bs"
      using h snoc by auto
    let ?n = "m\<lparr>sn_next := (sn_next m)(c := hd_or bs None, n := None)\<rparr>"
    let ?m = "if bs = [] then ?n\<lparr>sl_tail := (sl_tail m)(l := Some c)\<rparr> else ?n"
    have "sys_slist_remove l prev (Some n) m = Some ?m"
      using h last path by (cases "bs = []") (simp_all add: sys_slist_remove_def slist_op_defs prev snoc)
    moreover have "slist_rep ?m l (as @ bs)"
      using h path by (auto simp: slist_rep_def snoc last_or_Cons last_or_append)
    moreover have "slist_frame l (set (as @ n # bs)) m ?m" by (simp add: slist_frame_def snoc)
    ultimately show thesis by (rule that)
  qed
qed

lemma find_loop_rep:
  assumes "slist_rep m l (as @ bs)" and "n \<notin> set as" "prev = last_or as" "test = hd_or bs None"
  shows "find_and_remove_loop l (Some n) prev test m =
     (if n \<in> set bs then map_option (Pair True) (sys_slist_remove l (last_or (as @ takeWhile ((\<noteq>) n) bs)) (Some n) m)
      else Some (False, m))"
  using assms
proof (induction bs arbitrary: as prev test)
  case Nil
  then show ?case by (simp add: find_and_remove_loop.simps)
next
  case (Cons b bs)
  show ?case
  proof (cases "b = n")
    case True
    then show ?thesis using Cons.prems by (simp add: find_and_remove_loop.simps)
  next
    case False
    have "sn_next m b = hd_or bs None" using Cons.prems(1) by (simp add: slist_rep_def)
    then have "find_and_remove_loop l (Some n) prev test m = find_and_remove_loop l (Some n) (Some b) (hd_or bs None) m"
      using Cons.prems(4) False
      by (subst find_and_remove_loop.simps)
        (simp add: sys_slist_peek_next_def sys_slist_peek_next_no_check_def z_snode_next_peek_def)
    also have "\<dots> = (if n \<in> set bs
        then map_option (Pair True) (sys_slist_remove l (last_or ((as @ [b]) @ takeWhile ((\<noteq>) n) bs)) (Some n) m)
        else Some (False, m))"
      by (rule Cons.IH) (use Cons.prems False in simp_all)
    finally show ?thesis using False by simp
  qed
qed

lemma sys_slist_find_and_remove_rep:
  assumes rep: "slist_rep m l xs"
  obtains m' where "sys_slist_find_and_remove l (Some n) m = Some (n \<in> set xs, m')" "slist_rep m' l (remove1 n xs)"
    "slist_frame l (set xs) m m'"
proof (cases "n \<in> set xs")
  case False
  have "sys_slist_find_and_remove l (Some n) m = Some (False, m)"
    using find_loop_rep [of m l "[]" xs n None] rep False
    by (simp add: sys_slist_find_and_remove_def sys_slist_peek_head_def slist_rep_def)
  then show thesis using that [of m] rep False by (simp add: slist_frame_def remove1_idem)
next
  case True
  then obtain as bs where xs: "xs = as @ n # bs" "n \<notin> set as" by (meson split_list_first)
  have take: "takeWhile ((\<noteq>) n) (as @ n # bs) = as" using xs(2) by (subst takeWhile_append2) auto
  obtain m' where m': "sys_slist_remove l (last_or as) (Some n) m = Some m'" "slist_rep m' l (as @ bs)"
      "slist_frame l (set (as @ n # bs)) m m'"
    by (rule sys_slist_remove_rep [OF rep [unfolded xs(1)] refl])
  have "sys_slist_find_and_remove l (Some n) m = Some (True, m')"
    using find_loop_rep [of m l "[]" xs n None "sl_head m l"] rep True m'(1)
    by (simp add: sys_slist_find_and_remove_def sys_slist_peek_head_def slist_rep_def xs(1) take)
  then show thesis using that [of m'] m' xs by (simp add: remove1_append)
qed

lemma sys_slist_append_list_rep:
  assumes rep: "slist_rep m l xs" and ys: "ys \<noteq> []" "path (sn_next m) ys None" "distinct ys" "set xs \<inter> set ys = {}"
  obtains m' where "sys_slist_append_list l (hd_or ys None) (last_or ys) m = Some m'" "slist_rep m' l (xs @ ys)"
    "slist_frame l (set xs) m m'"
proof (cases xs rule: rev_cases)
  case Nil
  then show thesis using that rep ys
    by (auto simp: sys_slist_append_list_def slist_op_defs slist_rep_def slist_frame_def)
next
  case (snoc cs c)
  let ?m = "m\<lparr>sn_next := (sn_next m)(c := hd_or ys None), sl_tail := (sl_tail m)(l := last_or ys)\<rparr>"
  have "sys_slist_append_list l (hd_or ys None) (last_or ys) m = Some ?m"
    using rep ys(1) by (simp add: sys_slist_append_list_def slist_op_defs slist_rep_def snoc)
  moreover have "slist_rep ?m l (xs @ ys)"
    using rep ys by (auto simp: slist_rep_def snoc last_or_append last_or_Cons)
  moreover have "slist_frame l (set xs) m ?m" by (simp add: slist_frame_def snoc)
  ultimately show thesis by (rule that)
qed

lemma slists_subset: "slists_rep L xs m \<Longrightarrow> K \<subseteq> L \<Longrightarrow> slists_rep K xs m"
  unfolding slists_rep_def by blast

lemma slists_init:
  assumes "slists_rep (L - {k}) xs m"
  shows "slists_rep (insert k L) (xs(k := [])) (sys_slist_init k m)"
  using assms by (auto simp: slists_rep_def slist_rep_def sys_slist_init_def)

lemma sys_slist_merge_rep:
  assumes rep: "slists_rep L xs m" and l: "l \<in> L" "k \<in> L" "l \<noteq> k"
  obtains m' where "sys_slist_merge_slist l k m = Some m'" "slists_rep L (xs(l := xs l @ xs k, k := [])) m'"
proof -
  have k: "sl_head m k = hd_or (xs k) None" "sl_tail m k = last_or (xs k)" "path (sn_next m) (xs k) None" "distinct (xs k)"
    using slists_repD(1) [OF rep l(2)] by (simp_all add: slist_rep_def)
  obtain m1 where m1: "sys_slist_append_list l (hd_or (xs k) None) (last_or (xs k)) m = Some m1"
      "slists_rep (L - {k}) (xs(l := xs l @ xs k)) m1"
  proof (cases "xs k = []")
    case True
    show thesis
    proof (rule that [of m])
      show "slists_rep (L - {k}) (xs(l := xs l @ xs k)) m" using slists_subset [OF rep] True by simp
    qed (simp add: sys_slist_append_list_def True)
  next
    case False
    obtain m1 where m1: "sys_slist_append_list l (hd_or (xs k) None) (last_or (xs k)) m = Some m1"
        "slist_rep m1 l (xs l @ xs k)" "slist_frame l (set (xs l)) m m1"
      by (rule sys_slist_append_list_rep [OF slists_repD(1) [OF rep l(1)] False k(3,4) slists_repD(2) [OF rep l]])
    have sub: "slists_rep (L - {k}) xs m" by (rule slists_subset [OF rep]) blast
    have "slists_rep (L - {k}) (xs(l := xs l @ xs k)) m1"
    proof (rule slists_update [OF sub _ m1(2), where N = "set (xs k)"])
      show "slist_frame l (set (xs l) \<union> set (xs k)) m m1" using m1(3) by (simp add: slist_frame_def)
      show "set (xs j) \<inter> set (xs k) = {}" if "j \<in> L - {k}" for j
        using slists_repD(2) [OF rep, of j k] that l(2) by simp
    qed (use l in auto)
    with m1(1) show thesis by (rule that)
  qed
  have "slists_rep (insert k L) ((xs(l := xs l @ xs k))(k := [])) (sys_slist_init k m1)"
    by (rule slists_init [OF m1(2)])
  then have "slists_rep L (xs(l := xs l @ xs k, k := [])) (sys_slist_init k m1)" using l(2) by (simp add: insert_absorb)
  moreover have "sys_slist_merge_slist l k m = Some (sys_slist_init k m1)"
    using m1(1) by (simp add: sys_slist_merge_slist_def sys_slist_peek_head_def sys_slist_peek_tail_def k)
  ultimately show thesis by (rule that [rotated])
qed

section \<open>Sequences of operations\<close>

datatype ('l, 'n) slist_op =
    SPrepend 'l 'n | SAppend 'l 'n | SInsert 'l 'n 'n | SGet 'l | SFindRemove 'l 'n | SMerge 'l 'l | SIsEmpty 'l

datatype 'n slist_result = SUnit | SNode "'n option" | SFlag bool

fun slist_call :: "('l, 'n) slist_op \<Rightarrow> ('l, 'n) smem \<Rightarrow> ('n slist_result \<times> ('l, 'n) smem) option" where
  "slist_call (SPrepend l n) m = map_option (Pair SUnit) (sys_slist_prepend l (Some n) m)"
| "slist_call (SAppend l n) m = map_option (Pair SUnit) (sys_slist_append l (Some n) m)"
| "slist_call (SInsert l p n) m = map_option (Pair SUnit) (sys_slist_insert l (Some p) (Some n) m)"
| "slist_call (SGet l) m = map_option (\<lambda>(n, m). (SNode n, m)) (sys_slist_get l m)"
| "slist_call (SFindRemove l n) m = map_option (\<lambda>(b, m). (SFlag b, m)) (sys_slist_find_and_remove l (Some n) m)"
| "slist_call (SMerge l k) m = map_option (Pair SUnit) (sys_slist_merge_slist l k m)"
| "slist_call (SIsEmpty l) m = Some (SFlag (sys_slist_is_empty l m), m)"

text \<open>
  The same on sequences; \<open>None\<close> where a client breaks the rules: a list that is not initialised, a
  node that is on some list already, a predecessor that is not on the list, a list merged into itself.
\<close>

definition fresh_node :: "'l list \<Rightarrow> ('l \<Rightarrow> 'n list) \<Rightarrow> 'n \<Rightarrow> bool" where
  "fresh_node ls xs n \<longleftrightarrow> list_all (\<lambda>l. n \<notin> set (xs l)) ls"

fun insert_after :: "'n \<Rightarrow> 'n \<Rightarrow> 'n list \<Rightarrow> 'n list" where
  "insert_after p n [] = []"
| "insert_after p n (x # xs) = (if x = p then x # n # xs else x # insert_after p n xs)"

fun seq_call ::
  "'l list \<Rightarrow> ('l, 'n) slist_op \<Rightarrow> ('l \<Rightarrow> 'n list) \<Rightarrow> ('n slist_result \<times> ('l \<Rightarrow> 'n list)) option" where
  "seq_call ls (SPrepend l n) xs =
     (if l \<in> set ls \<and> fresh_node ls xs n then Some (SUnit, xs(l := n # xs l)) else None)"
| "seq_call ls (SAppend l n) xs =
     (if l \<in> set ls \<and> fresh_node ls xs n then Some (SUnit, xs(l := xs l @ [n])) else None)"
| "seq_call ls (SInsert l p n) xs =
     (if l \<in> set ls \<and> fresh_node ls xs n \<and> p \<in> set (xs l)
      then Some (SUnit, xs(l := insert_after p n (xs l))) else None)"
| "seq_call ls (SGet l) xs =
     (if l \<in> set ls then Some (SNode (hd_or (xs l) None), xs(l := tl (xs l))) else None)"
| "seq_call ls (SFindRemove l n) xs =
     (if l \<in> set ls then Some (SFlag (n \<in> set (xs l)), xs(l := remove1 n (xs l))) else None)"
| "seq_call ls (SMerge l k) xs =
     (if l \<in> set ls \<and> k \<in> set ls \<and> l \<noteq> k then Some (SUnit, xs(l := xs l @ xs k, k := [])) else None)"
| "seq_call ls (SIsEmpty l) xs = (if l \<in> set ls then Some (SFlag (xs l = []), xs) else None)"

fun run_ops :: "('op \<Rightarrow> 'm \<Rightarrow> ('r \<times> 'm) option) \<Rightarrow> 'op list \<Rightarrow> 'm \<Rightarrow> ('r list \<times> 'm) option" where
  "run_ops call [] m = Some ([], m)"
| "run_ops call (op # ops) m = do {
     (r, m) \<leftarrow> call op m;
     (rs, m) \<leftarrow> run_ops call ops m;
     Some (r # rs, m)
   }"

lemma insert_after_split: "p \<notin> set as \<Longrightarrow> insert_after p n (as @ p # bs) = as @ p # n # bs"
  by (induction as) auto

lemma fresh_nodeD: "fresh_node ls xs n \<Longrightarrow> l \<in> set ls \<Longrightarrow> n \<notin> set (xs l)"
  by (simp add: fresh_node_def list_all_iff)

lemma slist_call_refines:
  assumes rep: "slists_rep (set ls) xs m" and call: "seq_call ls op xs = Some (r, ys)"
  shows "\<exists>m'. slist_call op m = Some (r, m') \<and> slists_rep (set ls) ys m'"
proof (cases op)
  case (SPrepend l n)
  then have l: "l \<in> set ls" "fresh_node ls xs n" "r = SUnit" "ys = xs(l := n # xs l)"
    using call by (simp_all split: if_splits)
  obtain m' where m': "sys_slist_prepend l (Some n) m = Some m'" "slist_rep m' l (n # xs l)" "slist_frame l {n} m m'"
    by (rule sys_slist_prepend_rep [OF slists_repD(1) [OF rep l(1)] fresh_nodeD [OF l(2,1)]])
  have "slists_rep (set ls) (xs(l := n # xs l)) m'"
    by (rule slists_update [OF rep l(1) m'(2), where N = "{n}"])
      (use m'(3) fresh_nodeD [OF l(2)] in \<open>auto simp: slist_frame_def\<close>)
  then show ?thesis using m'(1) l SPrepend by simp
next
  case (SAppend l n)
  then have l: "l \<in> set ls" "fresh_node ls xs n" "r = SUnit" "ys = xs(l := xs l @ [n])"
    using call by (simp_all split: if_splits)
  obtain m' where m': "sys_slist_append l (Some n) m = Some m'" "slist_rep m' l (xs l @ [n])"
      "slist_frame l (insert n (set (xs l))) m m'"
    by (rule sys_slist_append_rep [OF slists_repD(1) [OF rep l(1)] fresh_nodeD [OF l(2,1)]])
  have "slists_rep (set ls) (xs(l := xs l @ [n])) m'"
    by (rule slists_update [OF rep l(1) m'(2), where N = "{n}"])
      (use m'(3) fresh_nodeD [OF l(2)] in \<open>auto simp: slist_frame_def\<close>)
  then show ?thesis using m'(1) l SAppend by simp
next
  case (SInsert l p n)
  then have l: "l \<in> set ls" "fresh_node ls xs n" "p \<in> set (xs l)" "r = SUnit" "ys = xs(l := insert_after p n (xs l))"
    using call by (simp_all split: if_splits)
  obtain as bs where split: "xs l = as @ p # bs" "p \<notin> set as" using split_list_first [OF l(3)] by blast
  obtain m' where m': "sys_slist_insert l (Some p) (Some n) m = Some m'" "slist_rep m' l (as @ p # n # bs)"
      "slist_frame l (insert n (set (as @ p # bs))) m m'"
    by (rule sys_slist_insert_rep [OF slists_repD(1) [OF rep l(1), unfolded split(1)] fresh_nodeD [OF l(2,1), unfolded split(1)]])
  have "slists_rep (set ls) (xs(l := as @ p # n # bs)) m'"
    by (rule slists_update [OF rep l(1) m'(2), where N = "{n}"])
      (use m'(3) fresh_nodeD [OF l(2)] in \<open>auto simp: slist_frame_def split(1)\<close>)
  then show ?thesis using m'(1) l SInsert by (simp add: split(1) insert_after_split [OF split(2)])
next
  case (SGet l)
  then have l: "l \<in> set ls" "r = SNode (hd_or (xs l) None)" "ys = xs(l := tl (xs l))"
    using call by (simp_all split: if_splits)
  note rep_l = slists_repD(1) [OF rep l(1)]
  show ?thesis
  proof (cases "xs l")
    case Nil
    then have "xs(l := tl (xs l)) = xs" by (simp add: fun_upd_idem)
    then show ?thesis using sys_slist_get_empty [of m l] rep_l rep l SGet Nil by simp
  next
    case (Cons x zs)
    obtain m' where m': "sys_slist_get l m = Some (Some x, m')" "slist_rep m' l zs" "slist_frame l {} m m'"
      by (rule sys_slist_get_rep [OF rep_l [unfolded Cons]])
    have "slists_rep (set ls) (xs(l := zs)) m'"
      by (rule slists_update [OF rep l(1) m'(2), where N = "{}"]) (use m'(3) Cons in \<open>auto simp: slist_frame_def\<close>)
    then show ?thesis using m'(1) l SGet Cons by simp
  qed
next
  case (SFindRemove l n)
  then have l: "l \<in> set ls" "r = SFlag (n \<in> set (xs l))" "ys = xs(l := remove1 n (xs l))"
    using call by (simp_all split: if_splits)
  obtain m' where m': "sys_slist_find_and_remove l (Some n) m = Some (n \<in> set (xs l), m')"
      "slist_rep m' l (remove1 n (xs l))" "slist_frame l (set (xs l)) m m'"
    by (rule sys_slist_find_and_remove_rep [OF slists_repD(1) [OF rep l(1)]])
  have "slists_rep (set ls) (xs(l := remove1 n (xs l))) m'"
    by (rule slists_update [OF rep l(1) m'(2), where N = "{}"])
      (use m'(3) set_remove1_subset [of n "xs l"] in auto)
  then show ?thesis using m'(1) l SFindRemove by simp
next
  case (SMerge l k)
  then have l: "l \<in> set ls" "k \<in> set ls" "l \<noteq> k" "r = SUnit" "ys = xs(l := xs l @ xs k, k := [])"
    using call by (simp_all split: if_splits)
  show ?thesis by (rule sys_slist_merge_rep [OF rep l(1-3)]) (use l SMerge in simp)
next
  case (SIsEmpty l)
  then show ?thesis using call rep sys_slist_is_empty_rep [OF slists_repD(1) [OF rep]] by (auto split: if_splits)
qed

section \<open>Properties\<close>

text \<open>C36: On well-formed singly-linked lists that share no node, any sequence of operations a client may
  make - prepend, append, insert after a node, get, find-and-remove, merge of one list into another,
  emptiness tests - never follows a NULL pointer, ends, returns what the same operations on finite
  sequences return, and leaves the heads, tails and links well-formed.\<close>

theorem slist_ops_refine:
  assumes "slists_rep (set ls) xs m" and "run_ops (seq_call ls) ops xs = Some (rs, ys)"
  shows "\<exists>m'. run_ops slist_call ops m = Some (rs, m') \<and> slists_rep (set ls) ys m'"
  using assms
proof (induction ops arbitrary: xs m rs)
  case (Cons op ops)
  obtain r xs1 rs1 where call: "seq_call ls op xs = Some (r, xs1)" "run_ops (seq_call ls) ops xs1 = Some (rs1, ys)"
      "rs = r # rs1"
    using Cons.prems(2) by (auto simp: bind_eq_Some_conv)
  obtain m1 where m1: "slist_call op m = Some (r, m1)" "slists_rep (set ls) xs1 m1"
    using slist_call_refines [OF Cons.prems(1) call(1)] by blast
  then show ?case using Cons.IH [OF m1(2) call(2)] call(3) by auto
qed simp

definition blank_slists :: "(nat, nat) smem" where
  "blank_slists = \<lparr>sl_head = (\<lambda>_. Some 9), sl_tail = (\<lambda>_. Some 9), sn_next = (\<lambda>_. Some 9)\<rparr>"

lemma slist_ops_refine_witness:
  "\<exists>m'. run_ops slist_call [SAppend 0 1, SPrepend 0 2, SAppend 1 3, SInsert 0 2 4, SMerge 0 1, SFindRemove 0 1, SGet 0, SGet 1]
      (sys_slist_init 1 (sys_slist_init 0 blank_slists)) =
      Some ([SUnit, SUnit, SUnit, SUnit, SUnit, SFlag True, SNode (Some 2), SNode None], m')
    \<and> slist_rep m' 0 [4, 3]"
proof -
  have rep: "slists_rep (set [0, 1 :: nat]) (\<lambda>_. []) (sys_slist_init 1 (sys_slist_init 0 blank_slists))"
    by (simp add: slists_rep_def slist_rep_def sys_slist_init_def)
  have run: "run_ops (seq_call [0, 1 :: nat])
      [SAppend 0 (1 :: nat), SPrepend 0 2, SAppend 1 3, SInsert 0 2 4, SMerge 0 1, SFindRemove 0 1, SGet 0, SGet 1] (\<lambda>_. []) =
      Some ([SUnit, SUnit, SUnit, SUnit, SUnit, SFlag True, SNode (Some 2), SNode None],
        (\<lambda>_. [])(0 := [1], 0 := [2, 1], 1 := [3], 0 := [2, 4, 1], 0 := [2, 4, 1, 3], 1 := [], 0 := [2, 4, 3], 0 := [4, 3], 1 := []))"
    by (simp add: fresh_node_def)
  show ?thesis using slist_ops_refine [OF rep run] by (fastforce simp: slists_rep_def)
qed

end
