(* ===== verification/Slist_Loops.thy ===== *)
theory Slist_Loops
  imports Slist
begin

text \<open>
  The loops and the container macros of \<open>include/hazel_wireless/sys/slist.h\<close>, from the
  \<open>Z_GENLIST\<close> macros of \<open>list_gen.h\<close>. The body of a loop may change the memory; a body that follows
  NULL, and a loop that never ends, is \<open>None\<close>. A container is a structure at a 32-bit address with
  the node at an offset, and \<open>CONTAINER_OF\<close> subtracts the offset; no structure lies at address 0, so
  a container is NULL only when its node is.
\<close>

section \<open>Loops over nodes\<close>

type_synonym ('l, 'n, 'c) loop_state = "('l, 'n) smem \<times> 'c"

partial_function (option) genlist_loop ::
  "('n \<Rightarrow> ('l, 'n, 'c) loop_state \<Rightarrow> ('l, 'n, 'c) loop_state option) \<Rightarrow> 'n option \<Rightarrow> ('l, 'n, 'c) loop_state \<Rightarrow>
   ('l, 'n, 'c) loop_state option" where
  "genlist_loop f sn s =
     (case sn of
        None \<Rightarrow> Some s
      | Some n \<Rightarrow>
          Option.bind (f n s) (\<lambda>s.
            Option.bind (sys_slist_peek_next sn (fst s)) (\<lambda>sn. genlist_loop f sn s)))"

definition sys_slist_for_each_node ::
  "'l \<Rightarrow> ('n \<Rightarrow> ('l, 'n, 'c) loop_state \<Rightarrow> ('l, 'n, 'c) loop_state option) \<Rightarrow> ('l, 'n, 'c) loop_state \<Rightarrow>
   ('l, 'n, 'c) loop_state option" where
  "sys_slist_for_each_node list f s = genlist_loop f (sys_slist_peek_head list (fst s)) s"

definition sys_slist_iterate_from_node ::
  "'l \<Rightarrow> ('n \<Rightarrow> ('l, 'n, 'c) loop_state \<Rightarrow> ('l, 'n, 'c) loop_state option) \<Rightarrow> 'n option \<Rightarrow>
   ('l, 'n, 'c) loop_state \<Rightarrow> ('l, 'n, 'c) loop_state option" where
  "sys_slist_iterate_from_node list f sn s = do {
     sn \<leftarrow> (if sn \<noteq> None then sys_slist_peek_next_no_check sn (fst s)
            else Some (sys_slist_peek_head list (fst s)));
     genlist_loop f sn s
   }"

text \<open>The safe loop reads the node after the next one before the body runs.\<close>

partial_function (option) genlist_loop_safe ::
  "('n \<Rightarrow> ('l, 'n, 'c) loop_state \<Rightarrow> ('l, 'n, 'c) loop_state option) \<Rightarrow> 'n option \<Rightarrow> 'n option \<Rightarrow>
   ('l, 'n, 'c) loop_state \<Rightarrow> ('l, 'n, 'c) loop_state option" where
  "genlist_loop_safe f sn sns s =
     (case sn of
        None \<Rightarrow> Some s
      | Some n \<Rightarrow>
          Option.bind (f n s) (\<lambda>s.
            Option.bind (sys_slist_peek_next sns (fst s)) (\<lambda>nxt. genlist_loop_safe f sns nxt s)))"

definition sys_slist_for_each_node_safe ::
  "'l \<Rightarrow> ('n \<Rightarrow> ('l, 'n, 'c) loop_state \<Rightarrow> ('l, 'n, 'c) loop_state option) \<Rightarrow> ('l, 'n, 'c) loop_state \<Rightarrow>
   ('l, 'n, 'c) loop_state option" where
  "sys_slist_for_each_node_safe list f s = do {
     let sn = sys_slist_peek_head list (fst s);
     sns \<leftarrow> sys_slist_peek_next sn (fst s);
     genlist_loop_safe f sn sns s
   }"

section \<open>Containers\<close>

definition sys_slist_container :: "u32 \<Rightarrow> u32 option \<Rightarrow> u32 option" where
  "sys_slist_container off ln = map_option (\<lambda>p. p - off) ln"

definition sys_slist_peek_head_container :: "u32 \<Rightarrow> 'l \<Rightarrow> ('l, u32) smem \<Rightarrow> u32 option" where
  "sys_slist_peek_head_container off list m = sys_slist_container off (sys_slist_peek_head list m)"

definition sys_slist_peek_tail_container :: "u32 \<Rightarrow> 'l \<Rightarrow> ('l, u32) smem \<Rightarrow> u32 option" where
  "sys_slist_peek_tail_container off list m = sys_slist_container off (sys_slist_peek_tail list m)"

definition sys_slist_peek_next_container :: "u32 \<Rightarrow> u32 option \<Rightarrow> ('l, u32) smem \<Rightarrow> u32 option option" where
  "sys_slist_peek_next_container off cn m =
     (case cn of
        None \<Rightarrow> Some None
      | Some c \<Rightarrow> map_option (sys_slist_container off) (sys_slist_peek_next (Some (c + off)) m))"

partial_function (option) container_loop ::
  "u32 \<Rightarrow> (u32 \<Rightarrow> ('l, u32, 'c) loop_state \<Rightarrow> ('l, u32, 'c) loop_state option) \<Rightarrow> u32 option \<Rightarrow>
   ('l, u32, 'c) loop_state \<Rightarrow> ('l, u32, 'c) loop_state option" where
  "container_loop off f cn s =
     (case cn of
        None \<Rightarrow> Some s
      | Some c \<Rightarrow>
          Option.bind (f c s) (\<lambda>s.
            Option.bind (sys_slist_peek_next_container off cn (fst s)) (\<lambda>cn. container_loop off f cn s)))"

definition sys_slist_for_each_container ::
  "u32 \<Rightarrow> 'l \<Rightarrow> (u32 \<Rightarrow> ('l, u32, 'c) loop_state \<Rightarrow> ('l, u32, 'c) loop_state option) \<Rightarrow>
   ('l, u32, 'c) loop_state \<Rightarrow> ('l, u32, 'c) loop_state option" where
  "sys_slist_for_each_container off list f s =
     container_loop off f (sys_slist_peek_head_container off list (fst s)) s"

partial_function (option) container_loop_safe ::
  "u32 \<Rightarrow> (u32 \<Rightarrow> ('l, u32, 'c) loop_state \<Rightarrow> ('l, u32, 'c) loop_state option) \<Rightarrow> u32 option \<Rightarrow> u32 option \<Rightarrow>
   ('l, u32, 'c) loop_state \<Rightarrow> ('l, u32, 'c) loop_state option" where
  "container_loop_safe off f cn cns s =
     (case cn of
        None \<Rightarrow> Some s
      | Some c \<Rightarrow>
          Option.bind (f c s) (\<lambda>s.
            Option.bind (sys_slist_peek_next_container off cns (fst s)) (\<lambda>nxt.
              container_loop_safe off f cns nxt s)))"

definition sys_slist_for_each_container_safe ::
  "u32 \<Rightarrow> 'l \<Rightarrow> (u32 \<Rightarrow> ('l, u32, 'c) loop_state \<Rightarrow> ('l, u32, 'c) loop_state option) \<Rightarrow>
   ('l, u32, 'c) loop_state \<Rightarrow> ('l, u32, 'c) loop_state option" where
  "sys_slist_for_each_container_safe off list f s = do {
     let cn = sys_slist_peek_head_container off list (fst s);
     cns \<leftarrow> sys_slist_peek_next_container off cn (fst s);
     container_loop_safe off f cn cns s
   }"

section \<open>What the loops visit\<close>

fun run_body :: "('n \<Rightarrow> 'c \<Rightarrow> 'c option) \<Rightarrow> 'n list \<Rightarrow> 'c \<Rightarrow> 'c option" where
  "run_body g [] c = Some c"
| "run_body g (x # xs) c = Option.bind (g x c) (run_body g xs)"

text \<open>A body that leaves the lists alone and acts on the rest of the state.\<close>

definition body_on :: "('n \<Rightarrow> 'c \<Rightarrow> 'c option) \<Rightarrow> 'n \<Rightarrow> ('l, 'n, 'c) loop_state \<Rightarrow> ('l, 'n, 'c) loop_state option" where
  "body_on g n s = map_option (Pair (fst s)) (g n (snd s))"

lemma container_simps [simp]:
  "sys_slist_container off None = None" "sys_slist_container off (Some p) = Some (p - off)"
  by (simp_all add: sys_slist_container_def)

lemma peek_next_path:
  "path (sn_next m) (x # xs) None \<Longrightarrow> sys_slist_peek_next (Some x) m = Some (hd_or xs None)"
  by (simp add: sys_slist_peek_next_def sys_slist_peek_next_no_check_def z_snode_next_peek_def)

lemma genlist_loop_visits:
  "path (sn_next m) xs None \<Longrightarrow>
   genlist_loop (body_on g) (hd_or xs None) (m, c) = map_option (Pair m) (run_body g xs c)"
proof (induction xs arbitrary: c)
  case Nil
  then show ?case by (subst genlist_loop.simps) simp
next
  case (Cons x xs)
  have "genlist_loop (body_on g) (Some x) (m, c) =
      Option.bind (g x c) (\<lambda>c. genlist_loop (body_on g) (hd_or xs None) (m, c))"
    by (subst genlist_loop.simps) (cases "g x c"; simp add: body_on_def peek_next_path [OF Cons.prems])
  then show ?case using Cons by (cases "g x c") simp_all
qed

lemma for_each_node_visits:
  "slist_rep m l xs \<Longrightarrow> sys_slist_for_each_node l (body_on g) (m, c) = map_option (Pair m) (run_body g xs c)"
  using genlist_loop_visits [of m xs g c]
  by (simp add: sys_slist_for_each_node_def sys_slist_peek_head_def slist_rep_def)

lemma iterate_from_node_visits:
  assumes "slist_rep m l (as @ n # bs)"
  shows "sys_slist_iterate_from_node l (body_on g) (Some n) (m, c) = map_option (Pair m) (run_body g bs c)"
    and "sys_slist_iterate_from_node l (body_on g) None (m, c) = map_option (Pair m) (run_body g (as @ n # bs) c)"
  using assms genlist_loop_visits [of m bs g c] genlist_loop_visits [of m "as @ n # bs" g c]
  by (simp_all add: sys_slist_iterate_from_node_def sys_slist_peek_head_def sys_slist_peek_next_no_check_def
      z_snode_next_peek_def slist_rep_def)

text \<open>A loop over containers is the loop over their nodes.\<close>

lemma container_loop_eq:
  "path (sn_next m) xs None \<Longrightarrow>
   container_loop off (body_on g) (sys_slist_container off (hd_or xs None)) (m, c) =
     map_option (Pair m) (run_body g (map (\<lambda>n. n - off) xs) c)"
proof (induction xs arbitrary: c)
  case Nil
  then show ?case by (subst container_loop.simps) (simp add: sys_slist_container_def)
next
  case (Cons x xs)
  have "sys_slist_peek_next_container off (Some (x - off)) m = Some (sys_slist_container off (hd_or xs None))"
    by (simp add: sys_slist_peek_next_container_def peek_next_path [OF Cons.prems])
  then have "container_loop off (body_on g) (Some (x - off)) (m, c) =
      Option.bind (g (x - off) c) (\<lambda>c. container_loop off (body_on g) (sys_slist_container off (hd_or xs None)) (m, c))"
    by (subst container_loop.simps) (cases "g (x - off) c"; simp add: body_on_def)
  then show ?case using Cons by (cases "g (x - off) c") (simp_all add: sys_slist_container_def)
qed

lemma for_each_container_visits:
  "slist_rep m l xs \<Longrightarrow> sys_slist_for_each_container off l (body_on g) (m, c) =
     map_option (Pair m) (run_body g (map (\<lambda>n. n - off) xs) c)"
  using container_loop_eq [of m xs off g c]
  by (simp add: sys_slist_for_each_container_def sys_slist_peek_head_container_def sys_slist_peek_head_def slist_rep_def)

text \<open>The safe loop over containers is the safe loop over their nodes, whatever its body does to the
  lists.\<close>

lemma peek_next_container_eq:
  "sys_slist_peek_next_container off (sys_slist_container off sn) m =
   map_option (sys_slist_container off) (sys_slist_peek_next sn m)"
  by (cases sn) (simp_all add: sys_slist_peek_next_container_def sys_slist_container_def sys_slist_peek_next_def)

lemma container_loop_safe_sim:
  "genlist_loop_safe h sn sns s = Some s' \<Longrightarrow> h = (\<lambda>n. f (n - off)) \<Longrightarrow>
   container_loop_safe off f (sys_slist_container off sn) (sys_slist_container off sns) s = Some s'"
proof (induction rule: genlist_loop_safe.raw_induct [rotated 1, consumes 1, case_names step])
  case (step loop h sn sns s s')
  show ?case
  proof (cases sn)
    case None
    with step.hyps show ?thesis by (subst container_loop_safe.simps) simp
  next
    case (Some n)
    with step.hyps step.prems obtain s1 nxt where *: "f (n - off) s = Some s1"
        "sys_slist_peek_next sns (fst s1) = Some nxt" "loop h sns nxt s1 = Some s'"
      by (auto simp: bind_eq_Some_conv)
    then have "container_loop_safe off f (sys_slist_container off sns) (sys_slist_container off nxt) s1 = Some s'"
      using step.IH [of h sns nxt s1 s'] step.prems by simp
    with * Some show ?thesis
      by (subst container_loop_safe.simps) (simp add: peek_next_container_eq)
  qed
qed

lemma for_each_container_safe_sim:
  "sys_slist_for_each_node_safe l (\<lambda>n. f (n - off)) s = Some s' \<Longrightarrow>
   sys_slist_for_each_container_safe off l f s = Some s'"
  by (auto simp: sys_slist_for_each_node_safe_def sys_slist_for_each_container_safe_def Let_def
      sys_slist_peek_head_container_def peek_next_container_eq bind_eq_Some_conv dest: container_loop_safe_sim)

section \<open>Removing while looping\<close>

text \<open>The body that takes out the nodes \<open>P\<close> selects and records its visits.\<close>

definition slist_remove_if :: "'l \<Rightarrow> ('n \<Rightarrow> bool) \<Rightarrow> 'n \<Rightarrow> ('l, 'n, 'n list) loop_state \<Rightarrow> ('l, 'n, 'n list) loop_state option" where
  "slist_remove_if l P n s =
     (if P n then map_option (\<lambda>(_, m). (m, snd s @ [n])) (sys_slist_find_and_remove l (Some n) (fst s))
      else Some (fst s, snd s @ [n]))"

lemma remove_if_step:
  assumes rep: "slist_rep m l (as @ x # bs)"
  obtains m' where "slist_remove_if l P x (m, seen) = Some (m', seen @ [x])"
    "slist_rep m' l ((as @ filter (\<lambda>n. \<not> P n) [x]) @ bs)"
proof (cases "P x")
  case True
  obtain m' where m': "sys_slist_find_and_remove l (Some x) m = Some (x \<in> set (as @ x # bs), m')"
      "slist_rep m' l (remove1 x (as @ x # bs))"
    by (rule sys_slist_find_and_remove_rep [OF rep]) (rule that)
  have "x \<notin> set as" using rep by (simp add: slist_rep_def)
  with m' True that [of m'] show thesis by (simp add: slist_remove_if_def remove1_append)
next
  case False
  with that [of m] rep show thesis by (simp add: slist_remove_if_def)
qed

lemma remove_if_safe_loop:
  assumes "slist_rep m l (as @ bs)"
  shows "\<exists>m'. genlist_loop_safe (slist_remove_if l P) (hd_or bs None) (hd_or (tl bs) None) (m, seen) = Some (m', seen @ bs)
     \<and> slist_rep m' l (as @ filter (\<lambda>n. \<not> P n) bs)"
  using assms
proof (induction bs arbitrary: m as seen)
  case Nil
  then show ?case by (subst genlist_loop_safe.simps) auto
next
  case (Cons x bs)
  let ?as = "as @ filter (\<lambda>n. \<not> P n) [x]"
  obtain m1 where m1: "slist_remove_if l P x (m, seen) = Some (m1, seen @ [x])" "slist_rep m1 l (?as @ bs)"
    by (rule remove_if_step [OF Cons.prems]) (rule that)
  have nxt: "sys_slist_peek_next (hd_or bs None) m1 = Some (hd_or (tl bs) None)"
  proof (cases bs)
    case (Cons y ys)
    with m1(2) have "path (sn_next m1) (y # ys) None" by (simp add: slist_rep_def)
    with Cons show ?thesis by (simp add: peek_next_path)
  qed (simp add: sys_slist_peek_next_def)
  obtain m' where m': "genlist_loop_safe (slist_remove_if l P) (hd_or bs None) (hd_or (tl bs) None) (m1, seen @ [x]) =
      Some (m', (seen @ [x]) @ bs)" "slist_rep m' l (?as @ filter (\<lambda>n. \<not> P n) bs)"
    using Cons.IH [OF m1(2), of "seen @ [x]"] by blast
  have "genlist_loop_safe (slist_remove_if l P) (Some x) (hd_or bs None) (m, seen) = Some (m', seen @ x # bs)"
    using m'(1) by (subst genlist_loop_safe.simps) (simp add: m1(1) nxt)
  with m'(2) show ?case by auto
qed

text \<open>The safe loop visits every node and keeps those the body does not take.\<close>

lemma slist_safe_removal:
  assumes rep: "slist_rep m l xs"
  shows "\<exists>m'. sys_slist_for_each_node_safe l (slist_remove_if l P) (m, []) = Some (m', xs)
     \<and> slist_rep m' l (filter (\<lambda>n. \<not> P n) xs)"
proof -
  have "sys_slist_peek_next (sys_slist_peek_head l m) m = Some (hd_or (tl xs) None)"
    using rep peek_next_path [of m "hd xs" "tl xs"]
    by (cases xs) (auto simp: slist_rep_def sys_slist_peek_head_def sys_slist_peek_next_def)
  with remove_if_safe_loop [of m l "[]" xs P "[]"] rep show ?thesis
    by (auto simp: sys_slist_for_each_node_safe_def sys_slist_peek_head_def slist_rep_def)
qed

text \<open>The plain loop stops after the first node it removes: the removal has cleared its link.\<close>

lemma slist_plain_removal_stops:
  assumes rep: "slist_rep m l (x # xs)"
  shows "\<exists>m'. sys_slist_for_each_node l (slist_remove_if l (\<lambda>_. True)) (m, []) = Some (m', [x]) \<and> slist_rep m' l xs"
proof -
  obtain m' where m': "sys_slist_find_and_remove l (Some x) m = Some (True, m')" "slist_rep m' l xs"
    by (rule sys_slist_find_and_remove_rep [OF rep, of x]) (use that in auto)
  have "sn_next m' x = None"
    using m'(1) rep by (auto simp: sys_slist_find_and_remove_def find_and_remove_loop.simps slist_rep_def slist_op_defs
        sys_slist_remove_def bind_eq_Some_conv split: if_splits)
  then have "genlist_loop (slist_remove_if l (\<lambda>_. True)) (Some x) (m, []) = Some (m', [x])"
    by (subst genlist_loop.simps)
      (simp add: slist_remove_if_def m'(1) sys_slist_peek_next_def sys_slist_peek_next_no_check_def
        z_snode_next_peek_def genlist_loop.simps)
  with rep m'(2) show ?thesis
    by (auto simp: sys_slist_for_each_node_def sys_slist_peek_head_def slist_rep_def)
qed

end
