(* ===== verification/Atomic.thy ===== *)
theory Atomic
  imports Osal_Prelude
begin

text \<open>
  Atomic variables and bitmaps: \<open>src/common/atomic.c\<close> and the inline functions of
  \<open>include/hazel_wireless/sys/atomic.h\<close>, for a \<open>long\<close> of 32 bits. Every builtin of the compiler is
  sequentially consistent, so a call is one step on a memory that maps the index of an atomic
  variable to its value, and an interleaving of threads is a sequence of calls. Pointers have a
  memory of their own.
\<close>

unbundle bit_operations_syntax

section \<open>Variables\<close>

type_synonym atomic_mem = "nat \<Rightarrow> u32"

definition atomic_cas :: "nat \<Rightarrow> u32 \<Rightarrow> u32 \<Rightarrow> atomic_mem \<Rightarrow> bool \<times> atomic_mem" where
  "atomic_cas target old_value new_value m =
     (if m target = old_value then (True, m(target := new_value)) else (False, m))"

definition atomic_add :: "nat \<Rightarrow> u32 \<Rightarrow> atomic_mem \<Rightarrow> u32 \<times> atomic_mem" where
  "atomic_add target v m = (m target, m(target := m target + v))"

definition atomic_sub :: "nat \<Rightarrow> u32 \<Rightarrow> atomic_mem \<Rightarrow> u32 \<times> atomic_mem" where
  "atomic_sub target v m = (m target, m(target := m target - v))"

definition atomic_inc :: "nat \<Rightarrow> atomic_mem \<Rightarrow> u32 \<times> atomic_mem" where
  "atomic_inc target = atomic_add target 1"

definition atomic_dec :: "nat \<Rightarrow> atomic_mem \<Rightarrow> u32 \<times> atomic_mem" where
  "atomic_dec target = atomic_sub target 1"

definition atomic_get :: "nat \<Rightarrow> atomic_mem \<Rightarrow> u32" where
  "atomic_get target m = m target"

definition atomic_set :: "nat \<Rightarrow> u32 \<Rightarrow> atomic_mem \<Rightarrow> u32 \<times> atomic_mem" where
  "atomic_set target v m = (m target, m(target := v))"

definition atomic_clear :: "nat \<Rightarrow> atomic_mem \<Rightarrow> u32 \<times> atomic_mem" where
  "atomic_clear target = atomic_set target 0"

definition atomic_or :: "nat \<Rightarrow> u32 \<Rightarrow> atomic_mem \<Rightarrow> u32 \<times> atomic_mem" where
  "atomic_or target v m = (m target, m(target := m target OR v))"

definition atomic_xor :: "nat \<Rightarrow> u32 \<Rightarrow> atomic_mem \<Rightarrow> u32 \<times> atomic_mem" where
  "atomic_xor target v m = (m target, m(target := m target XOR v))"

definition atomic_and :: "nat \<Rightarrow> u32 \<Rightarrow> atomic_mem \<Rightarrow> u32 \<times> atomic_mem" where
  "atomic_and target v m = (m target, m(target := m target AND v))"

definition atomic_nand :: "nat \<Rightarrow> u32 \<Rightarrow> atomic_mem \<Rightarrow> u32 \<times> atomic_mem" where
  "atomic_nand target v m = (m target, m(target := NOT (m target AND v)))"

subsection \<open>Pointers\<close>

definition atomic_ptr_cas ::
  "nat \<Rightarrow> 'p option \<Rightarrow> 'p option \<Rightarrow> (nat \<Rightarrow> 'p option) \<Rightarrow> bool \<times> (nat \<Rightarrow> 'p option)" where
  "atomic_ptr_cas target old_value new_value m =
     (if m target = old_value then (True, m(target := new_value)) else (False, m))"

definition atomic_ptr_get :: "nat \<Rightarrow> (nat \<Rightarrow> 'p option) \<Rightarrow> 'p option" where
  "atomic_ptr_get target m = m target"

definition atomic_ptr_set :: "nat \<Rightarrow> 'p option \<Rightarrow> (nat \<Rightarrow> 'p option) \<Rightarrow> 'p option \<times> (nat \<Rightarrow> 'p option)" where
  "atomic_ptr_set target v m = (m target, m(target := v))"

definition atomic_ptr_clear :: "nat \<Rightarrow> (nat \<Rightarrow> 'p option) \<Rightarrow> 'p option \<times> (nat \<Rightarrow> 'p option)" where
  "atomic_ptr_clear target = atomic_ptr_set target None"

section \<open>Bitmaps\<close>

text \<open>Bit numbers are non-negative \<open>int\<close>s, converted to \<open>unsigned long\<close> by the macros.\<close>

definition ATOMIC_BITS :: u32 where
  "ATOMIC_BITS = 4 * 8"

definition ATOMIC_MASK :: "u32 \<Rightarrow> u32" where
  "ATOMIC_MASK b = push_bit (unat (b AND (ATOMIC_BITS - 1))) 1"

definition ATOMIC_ELEM :: "nat \<Rightarrow> u32 \<Rightarrow> nat" where
  "ATOMIC_ELEM addr b = addr + unat (b div ATOMIC_BITS)"

definition ROUND_UP :: "u32 \<Rightarrow> u32 \<Rightarrow> u32" where
  "ROUND_UP x align = (x + (align - 1)) AND NOT (align - 1)"

definition ATOMIC_BITMAP_SIZE :: "u32 \<Rightarrow> u32" where
  "ATOMIC_BITMAP_SIZE num_bits = ROUND_UP num_bits ATOMIC_BITS div ATOMIC_BITS"

text \<open>The shift is of a signed \<open>long\<close>.\<close>

definition atomic_test_bit :: "nat \<Rightarrow> u32 \<Rightarrow> atomic_mem \<Rightarrow> bool" where
  "atomic_test_bit target b m =
     (let val = atomic_get (ATOMIC_ELEM target b) m
      in 1 AND signed_drop_bit (unat (b AND (ATOMIC_BITS - 1))) val \<noteq> 0)"

definition atomic_test_and_clear_bit :: "nat \<Rightarrow> u32 \<Rightarrow> atomic_mem \<Rightarrow> bool \<times> atomic_mem" where
  "atomic_test_and_clear_bit target b m =
     (let mask = ATOMIC_MASK b;
          (old, m) = atomic_and (ATOMIC_ELEM target b) (NOT mask) m
      in (old AND mask \<noteq> 0, m))"

definition atomic_test_and_set_bit :: "nat \<Rightarrow> u32 \<Rightarrow> atomic_mem \<Rightarrow> bool \<times> atomic_mem" where
  "atomic_test_and_set_bit target b m =
     (let mask = ATOMIC_MASK b;
          (old, m) = atomic_or (ATOMIC_ELEM target b) mask m
      in (old AND mask \<noteq> 0, m))"

definition atomic_test_and_set_bit_to :: "nat \<Rightarrow> u32 \<Rightarrow> bool \<Rightarrow> atomic_mem \<Rightarrow> bool \<times> atomic_mem" where
  "atomic_test_and_set_bit_to target b val m =
     (if val then (let (old, m) = atomic_test_and_set_bit target b m in (\<not> old, m))
      else atomic_test_and_clear_bit target b m)"

definition atomic_clear_bit :: "nat \<Rightarrow> u32 \<Rightarrow> atomic_mem \<Rightarrow> atomic_mem" where
  "atomic_clear_bit target b m =
     (let mask = ATOMIC_MASK b in snd (atomic_and (ATOMIC_ELEM target b) (NOT mask) m))"

definition atomic_set_bit :: "nat \<Rightarrow> u32 \<Rightarrow> atomic_mem \<Rightarrow> atomic_mem" where
  "atomic_set_bit target b m =
     (let mask = ATOMIC_MASK b in snd (atomic_or (ATOMIC_ELEM target b) mask m))"

definition atomic_set_bit_to :: "nat \<Rightarrow> u32 \<Rightarrow> bool \<Rightarrow> atomic_mem \<Rightarrow> atomic_mem" where
  "atomic_set_bit_to target b val m =
     (let mask = ATOMIC_MASK b
      in if val then snd (atomic_or (ATOMIC_ELEM target b) mask m)
         else snd (atomic_and (ATOMIC_ELEM target b) (NOT mask) m))"

subsection \<open>A bitmap as a set\<close>

definition atomic_bitmap :: "nat \<Rightarrow> atomic_mem \<Rightarrow> nat set" where
  "atomic_bitmap target m = {i. bit (m (target + i div 32)) (i mod 32)}"

lemma atomic_index [simp]:
  "unat (b AND (ATOMIC_BITS - 1)) = unat b mod 32" "ATOMIC_ELEM target b = target + unat b div 32"
proof -
  have "b AND (ATOMIC_BITS - 1) = take_bit 5 b"
    by (simp add: ATOMIC_BITS_def take_bit_eq_mask mask_eq_exp_minus_1)
  then show "unat (b AND (ATOMIC_BITS - 1)) = unat b mod 32"
    by (simp only: unsigned_take_bit_eq) (simp add: take_bit_eq_mod)
  show "ATOMIC_ELEM target b = target + unat b div 32"
    by (simp add: ATOMIC_ELEM_def ATOMIC_BITS_def unat_div)
qed

lemma bit_atomic_mask: "bit (ATOMIC_MASK b) k \<longleftrightarrow> k = unat b mod 32"
  by (auto simp: ATOMIC_MASK_def bit_simps)

lemma and_mask_iff: "w AND ATOMIC_MASK b \<noteq> 0 \<longleftrightarrow> bit w (unat b mod 32)"
proof -
  have k: "bit (ATOMIC_MASK b) (unat b mod 32)" by (simp add: bit_atomic_mask)
  have "w AND ATOMIC_MASK b = (if bit w (unat b mod 32) then ATOMIC_MASK b else 0)"
    by (rule bit_word_eqI) (auto simp: bit_and_iff bit_atomic_mask)
  moreover have "ATOMIC_MASK b \<noteq> 0" using k by (metis bit_0_eq bot_apply bot_bool_def)
  ultimately show ?thesis by simp
qed

lemma shifted_bit_iff: "1 AND signed_drop_bit (n mod 32) (w :: u32) \<noteq> 0 \<longleftrightarrow> bit w (n mod 32)"
proof -
  have "1 AND signed_drop_bit (n mod 32) w = of_bool (bit w (n mod 32))"
    by (rule bit_word_eqI) (auto simp: bit_simps)
  then show ?thesis by simp
qed

text \<open>Changing the word of bit \<open>n\<close>.\<close>

lemma bitmap_upd:
  "atomic_bitmap target (m(target + n div 32 := w)) =
     {i. if i div 32 = n div 32 then bit w (i mod 32) else i \<in> atomic_bitmap target m}"
  by (auto simp: atomic_bitmap_def)

lemma div_mod_eq_iff: "i div 32 = n div 32 \<Longrightarrow> i mod 32 = n mod 32 \<longleftrightarrow> i = (n :: nat)"
  by (metis div_mult_mod_eq)

lemma mem_bitmap: "n \<in> atomic_bitmap target m \<longleftrightarrow> bit (m (target + n div 32)) (n mod 32)"
  by (simp add: atomic_bitmap_def)

lemma bitmap_or_mask:
  "atomic_bitmap target (m(target + unat b div 32 := m (target + unat b div 32) OR ATOMIC_MASK b)) =
     insert (unat b) (atomic_bitmap target m)"
proof -
  have "bit (m (target + unat b div 32) OR ATOMIC_MASK b) (i mod 32) \<longleftrightarrow> i = unat b \<or> i \<in> atomic_bitmap target m"
    if "i div 32 = unat b div 32" for i
    using div_mod_eq_iff [OF that] that by (auto simp: bit_or_iff bit_atomic_mask mem_bitmap)
  then show ?thesis unfolding bitmap_upd by auto
qed

lemma bitmap_and_mask:
  "atomic_bitmap target (m(target + unat b div 32 := m (target + unat b div 32) AND NOT (ATOMIC_MASK b))) =
     atomic_bitmap target m - {unat b}"
proof -
  have "bit (m (target + unat b div 32) AND NOT (ATOMIC_MASK b)) (i mod 32) \<longleftrightarrow> i \<noteq> unat b \<and> i \<in> atomic_bitmap target m"
    if "i div 32 = unat b div 32" for i
    using div_mod_eq_iff [OF that] that by (auto simp: bit_and_iff bit_not_iff bit_atomic_mask mem_bitmap)
  then show ?thesis unfolding bitmap_upd by auto
qed

section \<open>Sequences of calls\<close>

datatype bit_call =
    BTest u32 | BSet u32 | BClear u32 | BSetTo u32 bool | BTestSet u32 | BTestClear u32 | BTestSetTo u32 bool

fun bit_of :: "bit_call \<Rightarrow> u32" where
  "bit_of (BTest b) = b" | "bit_of (BSet b) = b" | "bit_of (BClear b) = b" | "bit_of (BSetTo b v) = b"
| "bit_of (BTestSet b) = b" | "bit_of (BTestClear b) = b" | "bit_of (BTestSetTo b v) = b"

text \<open>The result of a call, \<open>False\<close> for those that return nothing.\<close>

fun atomic_bit_call :: "nat \<Rightarrow> bit_call \<Rightarrow> atomic_mem \<Rightarrow> bool \<times> atomic_mem" where
  "atomic_bit_call target (BTest b) m = (atomic_test_bit target b m, m)"
| "atomic_bit_call target (BSet b) m = (False, atomic_set_bit target b m)"
| "atomic_bit_call target (BClear b) m = (False, atomic_clear_bit target b m)"
| "atomic_bit_call target (BSetTo b v) m = (False, atomic_set_bit_to target b v m)"
| "atomic_bit_call target (BTestSet b) m = atomic_test_and_set_bit target b m"
| "atomic_bit_call target (BTestClear b) m = atomic_test_and_clear_bit target b m"
| "atomic_bit_call target (BTestSetTo b v) m = atomic_test_and_set_bit_to target b v m"

fun set_bit_call :: "bit_call \<Rightarrow> nat set \<Rightarrow> bool \<times> nat set" where
  "set_bit_call (BTest b) S = (unat b \<in> S, S)"
| "set_bit_call (BSet b) S = (False, insert (unat b) S)"
| "set_bit_call (BClear b) S = (False, S - {unat b})"
| "set_bit_call (BSetTo b v) S = (False, if v then insert (unat b) S else S - {unat b})"
| "set_bit_call (BTestSet b) S = (unat b \<in> S, insert (unat b) S)"
| "set_bit_call (BTestClear b) S = (unat b \<in> S, S - {unat b})"
| "set_bit_call (BTestSetTo b v) S =
     ((unat b \<in> S) \<noteq> v, if v then insert (unat b) S else S - {unat b})"

fun run_calls :: "('c \<Rightarrow> 'm \<Rightarrow> 'r \<times> 'm) \<Rightarrow> 'c list \<Rightarrow> 'm \<Rightarrow> 'r list \<times> 'm" where
  "run_calls f [] m = ([], m)"
| "run_calls f (c # cs) m = (let (r, m) = f c m; (rs, m) = run_calls f cs m in (r # rs, m))"

lemmas atomic_bit_defs = atomic_test_bit_def atomic_set_bit_def atomic_clear_bit_def atomic_set_bit_to_def
  atomic_test_and_set_bit_def atomic_test_and_clear_bit_def atomic_test_and_set_bit_to_def
  atomic_or_def atomic_and_def atomic_get_def

lemma bit_call_refines:
  "fst (atomic_bit_call target c m) = fst (set_bit_call c (atomic_bitmap target m))"
  "atomic_bitmap target (snd (atomic_bit_call target c m)) = snd (set_bit_call c (atomic_bitmap target m))"
  by (cases c; simp add: atomic_bit_defs bitmap_or_mask bitmap_and_mask and_mask_iff shifted_bit_iff mem_bitmap)
    (cases c; simp add: atomic_bit_defs bitmap_or_mask bitmap_and_mask and_mask_iff shifted_bit_iff mem_bitmap)

lemma bit_call_frame:
  "a \<noteq> target + unat (bit_of c) div 32 \<Longrightarrow> snd (atomic_bit_call target c m) a = m a"
  by (cases c) (auto simp: atomic_bit_defs Let_def split_beta)

section \<open>Properties\<close>

text \<open>C37: An array of atomic variables is a set of bit numbers: the results of any sequence of test,
  set, clear, set-to and the three test-and-modify calls, hence of any interleaving of the threads
  that make them, are those of the set operations; the bits left are that set; and no word but those
  of the bits named is written.\<close>

theorem atomic_bitmap_refines_set:
  "fst (run_calls (atomic_bit_call target) cs m) = fst (run_calls set_bit_call cs (atomic_bitmap target m))
   \<and> atomic_bitmap target (snd (run_calls (atomic_bit_call target) cs m)) =
       snd (run_calls set_bit_call cs (atomic_bitmap target m))
   \<and> (a \<notin> (\<lambda>c. target + unat (bit_of c) div 32) ` set cs \<longrightarrow> snd (run_calls (atomic_bit_call target) cs m) a = m a)"
proof (induction cs arbitrary: m)
  case (Cons c cs)
  obtain r m1 where c: "atomic_bit_call target c m = (r, m1)" by fastforce
  have s: "set_bit_call c (atomic_bitmap target m) = (r, atomic_bitmap target m1)"
    using bit_call_refines [of target c m] by (simp add: c prod_eq_iff)
  show ?case using Cons.IH [of m1] bit_call_frame [of a target c m] by (auto simp: c s split_beta)
qed simp

theorem atomic_bitmap_refines_set_witness:
  "snd (run_calls (atomic_bit_call 0) [BTestSet 40, BTestSet 40] (\<lambda>_. 0)) 0 = 0"
  using atomic_bitmap_refines_set [where target = 0 and a = 0 and cs = "[BTestSet 40, BTestSet 40]" and m = "\<lambda>_. 0"]
  by simp

text \<open>\<open>ATOMIC_DEFINE\<close> reserves room for all of its bits.\<close>

lemma atomic_bitmap_size:
  assumes "unat n \<le> 2 ^ 32 - 32" and "i < unat n"
  shows "i div 32 < unat (ATOMIC_BITMAP_SIZE n)"
proof -
  have bits: "i div 32 < (k + 31) div 32" if "i < k" for k :: nat
  proof -
    have "(i + 32) div 32 \<le> (k + 31) div 32" using that by (intro div_le_mono) simp
    then show ?thesis by simp
  qed
  have n: "unat (n + 31) = unat n + 31"
    using assms(1) by (subst unat_add_lem [THEN iffD1]) simp_all
  have "ROUND_UP n ATOMIC_BITS div ATOMIC_BITS = drop_bit 5 (n + 31)"
  proof -
    have "ATOMIC_BITS = 2 ^ 5" by (simp add: ATOMIC_BITS_def)
    then have "ROUND_UP n ATOMIC_BITS div ATOMIC_BITS = drop_bit 5 (ROUND_UP n ATOMIC_BITS)"
      by (simp add: drop_bit_eq_div)
    also have "\<dots> = drop_bit 5 (n + 31)"
    proof (rule bit_word_eqI)
      fix k
      have "\<not> bit (31 :: u32) (5 + k)"
        using bit_mask_iff [where 'a = u32, of 5 "5 + k"] by (simp add: mask_eq_exp_minus_1)
      moreover have "bit (134217727 :: u32) k" if "bit (n + 31) (5 + k)"
        using bit_imp_le_length [OF that] bit_mask_iff [where 'a = u32, of 27 k] by (simp add: mask_eq_exp_minus_1)
      ultimately show "bit (drop_bit 5 (ROUND_UP n ATOMIC_BITS)) k \<longleftrightarrow> bit (drop_bit 5 (n + 31)) k"
        if "k < LENGTH(32)" using that
        by (auto simp: ROUND_UP_def ATOMIC_BITS_def bit_drop_bit_eq bit_and_iff bit_not_iff dest: bit_imp_le_length)
    qed
    finally show ?thesis .
  qed
  then have "unat (ATOMIC_BITMAP_SIZE n) = (unat n + 31) div 32"
    using assms(1)
    by (simp only: ATOMIC_BITMAP_SIZE_def unsigned_drop_bit_eq n) (simp add: drop_bit_eq_div take_bit_nat_eq_self)
  then show ?thesis using bits [OF assms(2)] by simp
qed

end
