(* ===== verification/Dlist_Ranges.thy ===== *)
theory Dlist_Ranges
  imports Dlist
begin

text \<open>
  The rest of \<open>include/hazel_wireless/sys/dlist.h\<close>: moving a range of nodes to another list, the
  loop that starts after a node, and the loop whose body may remove the node it is at.
\<close>

section \<open>The operations\<close>

definition sys_dlist_range_prepend :: "'a \<Rightarrow> 'a \<Rightarrow> 'a \<Rightarrow> 'a dheap \<Rightarrow> 'a dheap option" where
  "sys_dlist_range_prepend dest start final h = do {
     let head = dn_next (h dest);
     let prev = dn_prev (h start);
     let next' = dn_next (h final);
     h \<leftarrow> store_next prev next' h;
     h \<leftarrow> store_prev next' prev h;
     let h = set_prev start (Some dest) (set_next final head h);
     h \<leftarrow> store_prev head (Some final) h;
     Some (set_next dest (Some start) h)
   }"

definition sys_dlist_range_append :: "'a \<Rightarrow> 'a \<Rightarrow> 'a \<Rightarrow> 'a dheap \<Rightarrow> 'a dheap option" where
  "sys_dlist_range_append dest start final h = do {
     let tail = dn_prev (h dest);
     let prev = dn_prev (h start);
     let next' = dn_next (h final);
     h \<leftarrow> store_next prev next' h;
     h \<leftarrow> store_prev next' prev h;
     let h = set_prev start tail (set_next final (Some dest) h);
     h \<leftarrow> store_next tail (Some start) h;
     Some (set_prev dest (Some final) h)
   }"

text \<open>\<open>SYS_DLIST_ITERATE_FROM_NODE\<close>.\<close>

definition sys_dlist_iterate_from_node ::
  "'a \<Rightarrow> 'a option \<Rightarrow> 'a dheap \<Rightarrow> ('a \<Rightarrow> 'c \<Rightarrow> 'c + 'r) \<Rightarrow> 'c \<Rightarrow> ('c + 'r) option" where
  "sys_dlist_iterate_from_node list node h f c =
     dlist_for_each list h f
       (case node of Some n \<Rightarrow> sys_dlist_peek_next_no_check list n h | None \<Rightarrow> sys_dlist_peek_head list h) c"

text \<open>
  \<open>SYS_DLIST_FOR_EACH_NODE_SAFE\<close>: the body \<open>f\<close> may change the links; the next node is read before
  the body runs. A body that dereferences NULL gives \<open>None\<close>, as does a loop that never ends.
\<close>

partial_function (option) dlist_for_each_safe ::
  "'a \<Rightarrow> ('a \<Rightarrow> 'a dheap \<times> 'c \<Rightarrow> ('a dheap \<times> 'c) option) \<Rightarrow> 'a option \<Rightarrow> 'a option \<Rightarrow> 'a dheap \<times> 'c
   \<Rightarrow> ('a dheap \<times> 'c) option" where
  "dlist_for_each_safe list f dn dns s =
     (case dn of
        None \<Rightarrow> Some s
      | Some n \<Rightarrow>
          Option.bind (f n s) (\<lambda>s. dlist_for_each_safe list f dns (sys_dlist_peek_next list dns (fst s)) s))"

definition sys_dlist_for_each_node_safe ::
  "'a \<Rightarrow> ('a \<Rightarrow> 'a dheap \<times> 'c \<Rightarrow> ('a dheap \<times> 'c) option) \<Rightarrow> 'a dheap \<times> 'c \<Rightarrow> ('a dheap \<times> 'c) option" where
  "sys_dlist_for_each_node_safe list f s =
     (let dn = sys_dlist_peek_head list (fst s)
      in dlist_for_each_safe list f dn (sys_dlist_peek_next list dn (fst s)) s)"

section \<open>Moving a range\<close>

lemma butlast_not_last: "distinct zs \<Longrightarrow> a \<in> set (butlast zs) \<Longrightarrow> a \<noteq> last zs"
  by (cases zs rule: rev_cases) auto

lemma tl_not_hd: "distinct zs \<Longrightarrow> a \<in> set (tl zs) \<Longrightarrow> a \<noteq> hd zs"
  by (cases zs) auto

text \<open>
  Taking \<open>rs\<close> out between \<open>xs\<close> and \<open>ys\<close> and putting it between \<open>us\<close> and \<open>vs\<close> changes three links
  in each direction.
\<close>

lemma links_move:
  assumes links: "links h (xs @ rs @ ys)" "links h (us @ vs)"
    and ne: "xs \<noteq> []" "rs \<noteq> []" "ys \<noteq> []" "us \<noteq> []" "vs \<noteq> []"
    and dist: "distinct (xs @ rs @ butlast ys @ us @ butlast vs)" "distinct (tl xs @ rs @ ys @ tl us @ vs)"
    and next': "\<And>a. dn_next (h' a) = (if a = last us then Some (hd rs) else if a = last rs then Some (hd vs)
                  else if a = last xs then Some (hd ys) else dn_next (h a))"
    and prev': "\<And>a. dn_prev (h' a) = (if a = hd vs then Some (last rs) else if a = hd rs then Some (last us)
                  else if a = hd ys then Some (last xs) else dn_prev (h a))"
  shows "links h' (xs @ ys) \<and> links h' (us @ rs @ vs)"
proof -
  obtain x r' u where x: "last xs = x" "x \<in> set xs" and r': "last rs = r'" "r' \<in> set rs"
    and u: "last us = u" "u \<in> set us" using ne by (meson last_in_set)
  obtain y r v where y: "hd ys = y" "y \<in> set ys" and r: "hd rs = r" "r \<in> set rs" and v: "hd vs = v" "v \<in> set vs"
    using ne by (meson hd_in_set)
  note ends = x r' u y r v
  have same: "links h' zs = links h zs" if zs: "zs \<in> {xs, rs, ys, us, vs}" for zs
  proof (rule links_cong)
    fix a
    show "dn_next (h' a) = dn_next (h a)" if a: "a \<in> set (butlast zs)"
    proof -
      have "a \<noteq> u \<and> a \<noteq> r' \<and> a \<noteq> x"
        using dist(1) ends(2,4,6) a zs butlast_not_last [of zs a] in_set_butlastD [OF a] by (auto simp: ends(1,3,5))
      then show ?thesis by (simp add: next' ends)
    qed
    show "dn_prev (h' a) = dn_prev (h a)" if a: "a \<in> set (tl zs)"
    proof -
      have "a \<in> set zs" using a by (cases zs) auto
      then have "a \<noteq> v \<and> a \<noteq> r \<and> a \<noteq> y"
        using dist(2) ends(8,10,12) a zs tl_not_hd [of zs a] by (auto simp: ends(7,9,11))
      then show ?thesis by (simp add: prev' ends)
    qed
  qed
  have "links h xs" "links h rs" "links h ys" "links h us" "links h vs"
    using links ne by (auto simp: links_append)
  moreover have "last us \<noteq> last rs" "last us \<noteq> last xs" "last rs \<noteq> last xs" "hd vs \<noteq> hd rs" "hd vs \<noteq> hd ys" "hd rs \<noteq> hd ys"
    using dist ends(2,4,6,8,10,12) by (auto simp: ends(1,3,5,7,9,11))
  ultimately show ?thesis using ne same by (simp add: links_append next' prev')
qed

lemma range_moves:
  assumes src: "dlist_rep h s (as @ rs @ bs)" and dst: "dlist_rep h d ds"
    and ne: "rs \<noteq> []" and disj: "set (s # as @ rs @ bs) \<inter> set (d # ds) = {}"
  shows "\<exists>h'. sys_dlist_range_append d (hd rs) (last rs) h = Some h'
           \<and> dlist_rep h' s (as @ bs) \<and> dlist_rep h' d (ds @ rs)
           \<and> (\<forall>a. a \<notin> set (s # as @ rs @ bs) \<union> set (d # ds) \<longrightarrow> h' a = h a)" (is ?app)
    and "\<exists>h'. sys_dlist_range_prepend d (hd rs) (last rs) h = Some h'
           \<and> dlist_rep h' s (as @ bs) \<and> dlist_rep h' d (rs @ ds)
           \<and> (\<forall>a. a \<notin> set (s # as @ rs @ bs) \<union> set (d # ds) \<longrightarrow> h' a = h a)" (is ?pre)
proof -
  obtain p n where p: "p = last (s # as)" "p \<in> set (s # as)" and n: "n = hd (bs @ [s])" "n \<in> set (bs @ [s])"
    using last_in_set [of "s # as"] hd_in_set [of "bs @ [s]"] by blast
  obtain t v where t: "t = last (d # ds)" "t \<in> set (d # ds)" and v: "v = hd (ds @ [d])" "v \<in> set (ds @ [d])"
    using last_in_set [of "d # ds"] hd_in_set [of "ds @ [d]"] by blast
  obtain r e where r: "r = hd rs" "r \<in> set rs" and e: "e = last rs" "e \<in> set rs" using ne by simp
  have links: "links h ((s # as) @ rs @ (bs @ [s]))" "links h ((d # ds) @ [d])" "links h ([d] @ (ds @ [d]))"
    and dist: "distinct (s # as @ rs @ bs)" "distinct (d # ds)"
    using src dst by (simp_all add: dlist_rep_def)
  have split: "as @ rs @ bs = as @ r # (tl rs @ bs)" "as @ rs @ bs = (as @ butlast rs) @ e # bs"
    using ne by (simp_all add: r(1) e(1))
  have pn: "dn_prev (h r) = Some p" "dn_next (h e) = Some n"
    using dlist_rep_around(1) [OF src [unfolded split(1)]] dlist_rep_around(2) [OF src [unfolded split(2)]]
    by (simp_all add: p n)
  have dv: "dn_prev (h d) = Some t" "dn_next (h d) = Some v"
    using dlist_rep_ends [OF dst] by (simp_all add: t v)
  let ?cut = "set_prev n (Some p) (set_next p (Some n) h)"
  let ?a = "set_prev d (Some e) (set_next t (Some r) (set_prev r (Some t) (set_next e (Some d) ?cut)))"
  let ?p = "set_next d (Some r) (set_prev v (Some e) (set_prev r (Some d) (set_next e (Some v) ?cut)))"
  have neq: "d \<noteq> r" "d \<noteq> e" "d \<noteq> p" "d \<noteq> n" "t \<noteq> e" "t \<noteq> p" "v \<noteq> r" "v \<noteq> n" "r \<noteq> n" "e \<noteq> p"
    using p(2) n(2) t(2) v(2) r(2) e(2) dist disj by auto
  have da: "distinct ((s # as) @ rs @ butlast (bs @ [s]) @ (d # ds) @ butlast [d])"
      "distinct (tl (s # as) @ rs @ (bs @ [s]) @ tl (d # ds) @ [d])"
    and dp: "distinct ((s # as) @ rs @ butlast (bs @ [s]) @ [d] @ butlast (ds @ [d]))"
      "distinct (tl (s # as) @ rs @ (bs @ [s]) @ tl [d] @ (ds @ [d]))"
    using dist disj by auto
  have fa: "dn_next (?a a) = (if a = t then Some r else if a = e then Some d else if a = p then Some n else dn_next (h a))"
      "dn_prev (?a a) = (if a = d then Some e else if a = r then Some t else if a = n then Some p else dn_prev (h a))"
    and fp: "dn_next (?p a) = (if a = d then Some r else if a = e then Some v else if a = p then Some n else dn_next (h a))"
      "dn_prev (?p a) = (if a = v then Some e else if a = r then Some d else if a = n then Some p else dn_prev (h a))" for a
    by simp_all
  have one: "last [d] = d" by simp
  note names = p(1) [symmetric] n(1) [symmetric] t(1) [symmetric] v(1) [symmetric] r(1) [symmetric] e(1) [symmetric]
  have "links ?a ((s # as) @ (bs @ [s])) \<and> links ?a ((d # ds) @ rs @ [d])"
    by (rule links_move [OF links(1,2) _ ne _ _ _ da]) (simp_all only: names fa list.sel(1), simp_all)
  moreover have "links ?p ((s # as) @ (bs @ [s])) \<and> links ?p ([d] @ rs @ (ds @ [d]))"
    by (rule links_move [OF links(1,3) _ ne _ _ _ dp]) (simp_all only: names fp one list.sel(1), simp_all)
  moreover have "sys_dlist_range_append d (hd rs) (last rs) h = Some ?a"
    "sys_dlist_range_prepend d (hd rs) (last rs) h = Some ?p"
    using pn dv neq
    by (simp_all add: sys_dlist_range_append_def sys_dlist_range_prepend_def r(1) [symmetric] e(1) [symmetric])
  moreover have "?a a = h a" "?p a = h a" if "a \<notin> set (s # as @ rs @ bs) \<union> set (d # ds)" for a
  proof -
    have "a \<noteq> p" "a \<noteq> n" "a \<noteq> t" "a \<noteq> v" "a \<noteq> r" "a \<noteq> e" "a \<noteq> d" using that p(2) n(2) t(2) v(2) r(2) e(2) by auto
    then show "?a a = h a" "?p a = h a" by simp_all
  qed
  ultimately show ?app ?pre using dist disj unfolding dlist_rep_def by auto
qed

text \<open>
  A range that already starts the list it is moved to is not put back where it was: the tail of the
  range is linked to its own head.
\<close>

lemma range_prepend_own_head:
  assumes "dlist_rep h s (rs @ bs)" "rs \<noteq> []"
  shows "\<exists>h'. sys_dlist_range_prepend s (hd rs) (last rs) h = Some h' \<and> dn_next (h' (last rs)) = Some (hd rs)"
proof -
  have split: "rs @ bs = [] @ hd rs # (tl rs @ bs)" "rs @ bs = butlast rs @ last rs # bs" using assms(2) by simp_all
  have "dn_prev (h (hd rs)) = Some s" "dn_next (h (last rs)) = Some (hd (bs @ [s]))"
    using dlist_rep_around(1) [OF assms(1) [unfolded split(1)]] dlist_rep_around(2) [OF assms(1) [unfolded split(2)]]
    by simp_all
  moreover have "dn_next (h s) = Some (hd rs)" using dlist_rep_ends(1) [OF assms(1)] assms(2) by simp
  moreover have "last rs \<noteq> s" using dlist_rep_distinct [OF assms(1)] last_in_set [OF assms(2)] by auto
  ultimately have "sys_dlist_range_prepend s (hd rs) (last rs) h =
      Some (set_next s (Some (hd rs)) (set_prev (hd rs) (Some (last rs)) (set_prev (hd rs) (Some s)
        (set_next (last rs) (Some (hd rs)) (set_prev (hd (bs @ [s])) (Some s) (set_next s (Some (hd (bs @ [s]))) h))))))"
    by (simp add: sys_dlist_range_prepend_def Let_def)
  with \<open>last rs \<noteq> s\<close> show ?thesis by simp
qed

section \<open>Loops\<close>

lemma iterate_from_rep:
  assumes "dlist_rep h l (as @ n # bs)"
  shows "sys_dlist_iterate_from_node l (Some n) h f c = Some (list_for_each f bs c)"
    "sys_dlist_iterate_from_node l None h f c = Some (list_for_each f (as @ n # bs) c)"
proof -
  have next': "sys_dlist_peek_next_no_check l n h = (case bs of [] \<Rightarrow> None | b # _ \<Rightarrow> Some b)"
    using sys_dlist_peek_next_rep [OF assms] by (simp add: sys_dlist_peek_next_def)
  show "sys_dlist_iterate_from_node l (Some n) h f c = Some (list_for_each f bs c)"
    using dlist_for_each_suffix [of h l "as @ [n]" bs f c] assms
    by (simp add: sys_dlist_iterate_from_node_def next')
  show "sys_dlist_iterate_from_node l None h f c = Some (list_for_each f (as @ n # bs) c)"
    using sys_dlist_for_each_node_rep [OF assms, of f c]
    by (simp add: sys_dlist_iterate_from_node_def sys_dlist_for_each_node_def)
qed

text \<open>The body that takes out the nodes \<open>P\<close> selects and records the order of its visits.\<close>

definition remove_if :: "('a \<Rightarrow> bool) \<Rightarrow> 'a \<Rightarrow> 'a dheap \<times> 'a list \<Rightarrow> ('a dheap \<times> 'a list) option" where
  "remove_if P n s =
     (if P n then map_option (\<lambda>h. (h, snd s @ [n])) (sys_dlist_remove n (fst s)) else Some (fst s, snd s @ [n]))"

lemma remove_if_loop:
  assumes "dlist_rep h l (as @ bs)"
  shows "\<exists>h'. dlist_for_each_safe l (remove_if P) (case bs of [] \<Rightarrow> None | b # _ \<Rightarrow> Some b)
                (case bs of b # c # _ \<Rightarrow> Some c | _ \<Rightarrow> None) (h, seen) = Some (h', seen @ bs)
           \<and> dlist_rep h' l (as @ filter (\<lambda>n. \<not> P n) bs)
           \<and> (\<forall>n \<in> set bs. P n \<longrightarrow> \<not> sys_dnode_is_linked n h')
           \<and> (\<forall>a. a \<notin> set (l # as @ bs) \<longrightarrow> h' a = h a)"
  using assms
proof (induction bs arbitrary: h as seen)
  case Nil
  then show ?case by (simp add: dlist_for_each_safe.simps)
next
  case (Cons b bs)
  have dist: "distinct (l # as @ b # bs)" using Cons.prems by (simp add: dlist_rep_def)
  obtain h1 where h1: "remove_if P b (h, seen) = Some (h1, seen @ [b])"
      "dlist_rep h1 l ((as @ filter (\<lambda>n. \<not> P n) [b]) @ bs)" "P b \<Longrightarrow> dn_next (h1 b) = None"
      "\<And>a. a \<notin> set (l # as @ b # bs) \<Longrightarrow> h1 a = h a"
  proof (cases "P b")
    case True
    obtain h1 where "sys_dlist_remove b h = Some h1" "dlist_rep h1 l (as @ bs)" "dn_next (h1 b) = None"
        "\<forall>a. a \<notin> set (l # as @ b # bs) \<longrightarrow> h1 a = h a"
      using sys_dlist_remove_rep [OF Cons.prems] by blast
    with True that [of h1] show ?thesis by (simp add: remove_if_def)
  next
    case False
    with Cons.prems that [of h] show ?thesis by (simp add: remove_if_def)
  qed
  let ?as1 = "as @ filter (\<lambda>n. \<not> P n) [b]"
  have peek: "sys_dlist_peek_next l (case bs of [] \<Rightarrow> None | b # _ \<Rightarrow> Some b) h1 =
      (case bs of b # c # _ \<Rightarrow> Some c | _ \<Rightarrow> None)"
    using h1(2) sys_dlist_peek_next_rep [of h1 l ?as1 "hd bs" "tl bs"]
    by (cases bs) (auto simp: sys_dlist_peek_next_def split: list.split)
  obtain h' where h': "dlist_for_each_safe l (remove_if P) (case bs of [] \<Rightarrow> None | b # _ \<Rightarrow> Some b)
        (case bs of b # c # _ \<Rightarrow> Some c | _ \<Rightarrow> None) (h1, seen @ [b]) = Some (h', (seen @ [b]) @ bs)"
      "dlist_rep h' l (?as1 @ filter (\<lambda>n. \<not> P n) bs)" "\<forall>n \<in> set bs. P n \<longrightarrow> \<not> sys_dnode_is_linked n h'"
      "\<forall>a. a \<notin> set (l # ?as1 @ bs) \<longrightarrow> h' a = h1 a"
    using Cons.IH [OF h1(2), of "seen @ [b]"] by blast
  have "\<not> sys_dnode_is_linked b h'" if "P b"
  proof -
    have "h' b = h1 b" using h'(4) dist that by auto
    then show ?thesis using h1(3) [OF that] by (simp add: sys_dnode_is_linked_def)
  qed
  moreover have "h' a = h a" if "a \<notin> set (l # as @ b # bs)" for a
    using h'(4) h1(4) [of a] that by auto
  moreover have "dlist_for_each_safe l (remove_if P) (Some b) (case bs of [] \<Rightarrow> None | b # _ \<Rightarrow> Some b) (h, seen) = Some (h', seen @ b # bs)"
    using h'(1) by (subst dlist_for_each_safe.simps) (simp add: h1(1) peek)
  moreover have "(case b # bs of b # c # _ \<Rightarrow> Some c | _ \<Rightarrow> None) = (case bs of [] \<Rightarrow> None | b # _ \<Rightarrow> Some b)"
    by (simp split: list.split)
  ultimately show ?case using h'(2,3) by (intro exI [of _ h']) auto
qed

section \<open>Properties\<close>

text \<open>C35: The removal-safe loop over a well-formed list, with a body that removes the nodes it chooses,
  ends after visiting every node once and in order; the nodes it kept are the list, in their order,
  the nodes it removed are unlinked, and no other node of memory is written.\<close>

theorem dlist_safe_removal:
  assumes "dlist_rep h l xs"
  shows "\<exists>h'. sys_dlist_for_each_node_safe l (remove_if P) (h, []) = Some (h', xs)
           \<and> dlist_rep h' l (filter (\<lambda>n. \<not> P n) xs)
           \<and> (\<forall>n \<in> set xs. sys_dnode_is_linked n h' \<longrightarrow> \<not> P n)
           \<and> (\<forall>a. a \<notin> set (l # xs) \<longrightarrow> h' a = h a)"
proof -
  have "sys_dlist_peek_next l (sys_dlist_peek_head l h) h = (case xs of b # c # _ \<Rightarrow> Some c | _ \<Rightarrow> None)"
    using assms sys_dlist_peek_next_rep [of h l "[]" "hd xs" "tl xs"]
    by (cases xs) (auto simp: sys_dlist_peek_head_rep sys_dlist_peek_next_def split: list.split)
  then show ?thesis
    using remove_if_loop [of h l "[]" xs P "[]"] assms
    by (auto simp: sys_dlist_for_each_node_safe_def sys_dlist_peek_head_rep)
qed

lemma three_nodes: "\<exists>h. dlist_rep h (0 :: nat) [1, 2, 3]"
proof -
  let ?h = "\<lambda>a :: nat. if a = 0 then \<lparr>dn_next = Some 1, dn_prev = Some 3\<rparr>
    else \<lparr>dn_next = Some ((a + 1) mod 4), dn_prev = Some (a - 1)\<rparr>"
  have "dlist_rep ?h 0 [1, 2, 3]" by (simp add: dlist_rep_def)
  then show ?thesis by blast
qed

theorem dlist_safe_removal_witness:
  "\<exists>h h'. sys_dlist_for_each_node_safe (0 :: nat) (remove_if odd) (h, []) = Some (h', [1, 2, 3]) \<and> dlist_rep h' 0 [2]"
proof -
  obtain h where h: "dlist_rep h (0 :: nat) [1, 2, 3]" using three_nodes by blast
  show ?thesis using dlist_safe_removal [OF h, of odd] by auto
qed

end
