(* ===== verification/Util_Arith.thy ===== *)
theory Util_Arith
  imports Atomic "HOL-Library.Signed_Division"
begin

text \<open>
  The arithmetic and address macros of \<open>include/hazel_wireless/sys/util.h\<close>. An \<open>int\<close> has 32 bits
  and an expression that overflows it, or divides by zero, is \<open>None\<close>; \<open>unsigned long\<close>, \<open>size_t\<close>
  and addresses are 32-bit words. A macro is modelled at \<open>int\<close> or at \<open>unsigned long\<close>, and the
  comparisons at any linear order.
\<close>

section \<open>Comparisons\<close>

definition Z_INTERNAL_MAX :: "'a :: linorder \<Rightarrow> 'a \<Rightarrow> 'a" where
  "Z_INTERNAL_MAX a b = (if a > b then a else b)"

definition Z_INTERNAL_MIN :: "'a :: linorder \<Rightarrow> 'a \<Rightarrow> 'a" where
  "Z_INTERNAL_MIN a b = (if a < b then a else b)"

definition max3 :: "'a :: linorder \<Rightarrow> 'a \<Rightarrow> 'a \<Rightarrow> 'a" where
  "max3 a b c = Z_INTERNAL_MAX a (Z_INTERNAL_MAX b c)"

definition min3 :: "'a :: linorder \<Rightarrow> 'a \<Rightarrow> 'a \<Rightarrow> 'a" where
  "min3 a b c = Z_INTERNAL_MIN a (Z_INTERNAL_MIN b c)"

definition CLAMP :: "'a :: linorder \<Rightarrow> 'a \<Rightarrow> 'a \<Rightarrow> 'a" where
  "CLAMP val low high = (if val \<le> low then low else Z_INTERNAL_MIN val high)"

definition clamp :: "'a :: linorder \<Rightarrow> 'a \<Rightarrow> 'a \<Rightarrow> 'a" where
  "clamp val low high = (if val < low then low else if val > high then high else val)"

definition IN_RANGE :: "'a :: linorder \<Rightarrow> 'a \<Rightarrow> 'a \<Rightarrow> bool" where
  "IN_RANGE val lo hi = (val \<ge> lo \<and> val \<le> hi)"

lemma max_min_eq: "Z_INTERNAL_MAX a b = max a b" "Z_INTERNAL_MIN a b = min a b" "max3 a b c = max a (max b c)" "min3 a b c = min a (min b c)"
  by (auto simp: Z_INTERNAL_MAX_def Z_INTERNAL_MIN_def max3_def min3_def max_def min_def)

text \<open>The two clamps agree when the bounds are ordered, and only then on every value.\<close>

lemma clamps_agree:
  "low \<le> high \<Longrightarrow> CLAMP val low high = clamp val low high \<and> IN_RANGE (clamp val low high) low high
     \<and> (IN_RANGE val low high \<longrightarrow> clamp val low high = val)"
  "high < low \<Longrightarrow> CLAMP low low high \<noteq> clamp low low high"
  by (auto simp: CLAMP_def clamp_def IN_RANGE_def Z_INTERNAL_MIN_def)

section \<open>Rounding\<close>

definition ROUND_DOWN :: "u32 \<Rightarrow> u32 \<Rightarrow> u32" where
  "ROUND_DOWN x align = x AND NOT (align - 1)"

definition WB_UP :: "u32 \<Rightarrow> u32" where
  "WB_UP x = ROUND_UP x 4"

definition WB_DN :: "u32 \<Rightarrow> u32" where
  "WB_DN x = ROUND_DOWN x 4"

definition DIV_ROUND_UP :: "u32 \<Rightarrow> u32 \<Rightarrow> u32 option" where
  "DIV_ROUND_UP n d = (if d = 0 then None else Some ((n + d - 1) div d))"

lemma and_not_low: "(x :: u32) AND NOT (2 ^ k - 1) = push_bit k (drop_bit k x)"
  if "k < 32" for k
proof (rule bit_word_eqI)
  fix i
  have "(2 :: u32) ^ k - 1 = mask k" by (simp add: mask_eq_exp_minus_1)
  then show "bit (x AND NOT (2 ^ k - 1)) i \<longleftrightarrow> bit (push_bit k (drop_bit k x)) i" if "i < LENGTH(32)"
    using that by (auto simp: bit_and_iff bit_not_iff bit_mask_iff bit_push_bit_iff bit_drop_bit_eq)
qed

lemma unat_round_down:
  assumes "k < 32"
  shows "unat (ROUND_DOWN x (2 ^ k)) = unat x div 2 ^ k * 2 ^ k"
proof -
  have "unat x div 2 ^ k * 2 ^ k < 2 ^ 32"
    by (rule le_less_trans [of _ "unat x"]) (use unsigned_less [of x] in simp_all)
  moreover have "take_bit 32 (unat x) = unat x"
    by (rule take_bit_nat_eq_self) (use unsigned_less [of x] in simp)
  ultimately show ?thesis
    by (simp only: ROUND_DOWN_def and_not_low [OF assms] unsigned_push_bit_eq unsigned_drop_bit_eq)
      (simp add: push_bit_eq_mult drop_bit_eq_div take_bit_nat_eq_self)
qed

lemma next_multiple:
  fixes n :: nat
  assumes "q * m + r = n + (m - 1)" "r < m"
  shows "n \<le> q * m \<and> q * m < n + m"
  using assms by linarith

text \<open>Rounding down gives the greatest multiple below, rounding up the least one above.\<close>

lemma round_up_least:
  assumes k: "k < 32" and fits: "unat x + (2 ^ k - 1) < 2 ^ 32"
  shows "2 ^ k dvd unat (ROUND_UP x (2 ^ k)) \<and> unat x \<le> unat (ROUND_UP x (2 ^ k))
    \<and> unat (ROUND_UP x (2 ^ k)) < unat x + 2 ^ k"
proof -
  have one: "unat ((2 :: u32) ^ k - 1) = 2 ^ k - 1"
  proof -
    have "(2 :: u32) ^ k - 1 = take_bit k (- 1)" by (simp add: mask_eq_exp_minus_1 take_bit_minus_one_eq_mask)
    then show ?thesis using k
      by (simp only: unsigned_take_bit_eq unsigned_minus_1_eq_mask take_bit_of_mask) (simp add: min_def mask_eq_exp_minus_1)
  qed
  have "unat (x + (2 ^ k - 1)) = unat x + (2 ^ k - 1)"
    using fits by (simp add: unat_add_lem [THEN iffD1] one)
  moreover have "ROUND_UP x (2 ^ k) = ROUND_DOWN (x + (2 ^ k - 1)) (2 ^ k)"
    by (simp add: ROUND_UP_def ROUND_DOWN_def)
  ultimately have eq: "unat (ROUND_UP x (2 ^ k)) = (unat x + (2 ^ k - 1)) div 2 ^ k * 2 ^ k"
    by (simp add: unat_round_down [OF k])
  show ?thesis unfolding eq using next_multiple [OF div_mult_mod_eq, of "unat x" "2 ^ k"] by simp
qed

text \<open>The sum of \<open>DIV_ROUND_UP\<close> wraps for a numerator near the top, which then gives a small result.\<close>

lemma div_round_up_exact:
  assumes "d \<noteq> 0" "unat n + unat d \<le> 2 ^ 32"
  shows "\<exists>q. DIV_ROUND_UP n d = Some q \<and> unat n \<le> unat q * unat d \<and> unat q * unat d < unat n + unat d"
proof -
  have d: "0 < unat d" using assms(1) by (simp add: unat_gt_0)
  have eq: "unat (n + d - 1) = unat n + unat d - 1"
  proof -
    have d1: "unat (d - 1) = unat d - 1" using assms(1) by (simp add: unat_sub_if' word_le_nat_alt d Suc_leI)
    have "unat (n + (d - 1)) = unat n + unat (d - 1)"
      using assms(2) d by (simp add: unat_add_lem [THEN iffD1] d1)
    then show ?thesis using d d1 by (simp only: add_diff_eq)
  qed
  have q: "unat ((n + d - 1) div d) = (unat n + unat d - 1) div unat d" by (simp add: unat_div eq)
  have "(unat n + unat d - 1) div unat d * unat d + (unat n + unat d - 1) mod unat d = unat n + (unat d - 1)"
    using d by simp
  from next_multiple [OF this] show ?thesis using assms(1) d q by (auto simp: DIV_ROUND_UP_def)
qed

lemma div_round_up_wraps: "DIV_ROUND_UP (- 1) 2 = Some 0"
  by (simp add: DIV_ROUND_UP_def)

subsection \<open>To the nearest\<close>

definition c_int :: "int \<Rightarrow> int option" where
  "c_int x = (if - (2 ^ 31) \<le> x \<and> x < 2 ^ 31 then Some x else None)"

definition c_div :: "int \<Rightarrow> int \<Rightarrow> int option" where
  "c_div n d = (if d = 0 then None else c_int (n sdiv d))"

text \<open>At a signed type the test of the signs is made, at an unsigned one it is not.\<close>

definition DIV_ROUND_CLOSEST :: "int \<Rightarrow> int \<Rightarrow> int option" where
  "DIV_ROUND_CLOSEST n d = do {
     h \<leftarrow> c_div d 2;
     x \<leftarrow> (if (n < 0) \<noteq> (d < 0) then c_int (n - h) else c_int (n + h));
     c_div x d
   }"

definition DIV_ROUND_CLOSEST_unsigned :: "u32 \<Rightarrow> u32 \<Rightarrow> u32 option" where
  "DIV_ROUND_CLOSEST_unsigned n d = (if d = 0 then None else Some ((n + d div 2) div d))"

lemma sdiv_signs: "(a sdiv b :: int) = sgn a * sgn b * (\<bar>a\<bar> div \<bar>b\<bar>)"
  by (simp add: signed_divide_int_def mult.commute mult.assoc)

lemma near_multiple:
  fixes n d :: int
  assumes "q * d + r = n + h" "0 \<le> r" "r < d" "2 * h \<le> d" "d \<le> 2 * h + 1"
  shows "2 * \<bar>n - q * d\<bar> \<le> d"
proof -
  have "n - q * d = r - h" using assms(1) by simp
  then show ?thesis using assms(2-) by (simp add: abs_if)
qed

text \<open>The result is a nearest integer to the quotient.\<close>

lemma div_round_closest_nearest:
  assumes d: "d \<noteq> 0" and fits: "\<bar>n\<bar> + \<bar>d\<bar> div 2 < 2 ^ 31"
  shows "\<exists>q. DIV_ROUND_CLOSEST n d = Some q \<and> 2 * \<bar>n - q * d\<bar> \<le> \<bar>d\<bar>"
proof -
  obtain e where e: "\<bar>d\<bar> div 2 = e" "0 \<le> e" "2 * e \<le> \<bar>d\<bar>" "\<bar>d\<bar> \<le> 2 * e + 1" by simp
  let ?x = "if n < 0 then n - e else n + e" and ?q = "(\<bar>n\<bar> + e) div \<bar>d\<bar>"
  have small: "\<bar>n\<bar> + e < 2 ^ 31" using fits e(1) by simp
  have h: "c_div d 2 = Some (sgn d * e)"
    using small e(2) by (auto simp: c_div_def c_int_def sdiv_signs e(1) sgn_if)
  have x: "(if (n < 0) \<noteq> (d < 0) then c_int (n - sgn d * e) else c_int (n + sgn d * e)) = Some ?x"
    using small e(2) d by (auto simp: c_int_def sgn_if)
  have abs: "\<bar>?x\<bar> = \<bar>n\<bar> + e" using e(2) by auto
  have near: "2 * \<bar>\<bar>n\<bar> - ?q * \<bar>d\<bar>\<bar> \<le> \<bar>d\<bar>"
    by (rule near_multiple [OF div_mult_mod_eq]) (use d e in auto)
  have q: "0 \<le> ?q" "?q < 2 ^ 31"
  proof -
    have "1 \<le> \<bar>d\<bar>" using d by simp
    then have "?q \<le> \<bar>n\<bar> + e" using zdiv_mono2 [of "\<bar>n\<bar> + e" 1 "\<bar>d\<bar>"] e(2) by simp
    then show "?q < 2 ^ 31" using small by simp
    show "0 \<le> ?q" using e(2) d by (simp add: pos_imp_zdiv_nonneg_iff)
  qed
  have div: "c_div ?x d = c_int (sgn ?x * sgn d * ?q)" using d abs by (simp add: c_div_def sdiv_signs)
  have some: "c_int (sgn ?x * sgn d * ?q) = Some (sgn ?x * sgn d * ?q)"
    using q by (auto simp: c_int_def sgn_if)
  have "2 * \<bar>n - sgn ?x * sgn d * ?q * d\<bar> \<le> \<bar>d\<bar>"
  proof (cases "n = 0")
    case True
    then show ?thesis using e d by (simp add: div_pos_pos_trivial)
  next
    case False
    have "n - sgn ?x * sgn d * ?q * d = sgn n * (\<bar>n\<bar> - ?q * \<bar>d\<bar>)"
      using e(2) False by (cases "d < 0"; cases "n < 0") (auto simp: sgn_if algebra_simps)
    then show ?thesis using near False by (simp add: abs_mult)
  qed
  then show ?thesis using x h div some by (simp add: DIV_ROUND_CLOSEST_def)
qed

subsection \<open>Maxima of lists\<close>

text \<open>\<open>Z_MAX_n\<close> for the ten argument counts that \<open>MAX_FROM_LIST\<close> dispatches to.\<close>

fun Z_MAX :: "'a :: linorder list \<Rightarrow> 'a option" where
  "Z_MAX [a] = Some a"
| "Z_MAX [a, b] = Some (if a > b then a else b)"
| "Z_MAX [a, b, c] = do { m \<leftarrow> Z_MAX [b, c]; Z_MAX [a, m] }"
| "Z_MAX [a, b, c, d] = do { m \<leftarrow> Z_MAX [a, b]; n \<leftarrow> Z_MAX [c, d]; Z_MAX [m, n] }"
| "Z_MAX [a, b, c, d, e] = do { m \<leftarrow> Z_MAX [a, b, c, d]; Z_MAX [m, e] }"
| "Z_MAX [a, b, c, d, e, f] = do { m \<leftarrow> Z_MAX [a, b, c, d, e]; Z_MAX [m, f] }"
| "Z_MAX [a, b, c, d, e, f, g] = do { m \<leftarrow> Z_MAX [a, b, c, d, e, f]; Z_MAX [m, g] }"
| "Z_MAX [a, b, c, d, e, f, g, h] = do { m \<leftarrow> Z_MAX [a, b, c, d, e, f, g]; Z_MAX [m, h] }"
| "Z_MAX [a, b, c, d, e, f, g, h, i] = do { m \<leftarrow> Z_MAX [a, b, c, d, e, f, g, h]; Z_MAX [m, i] }"
| "Z_MAX [a, b, c, d, e, f, g, h, i, j] = do { m \<leftarrow> Z_MAX [a, b, c, d, e, f, g, h, i]; Z_MAX [m, j] }"
| "Z_MAX _ = None"

lemma z_max_two: "Z_MAX [a, b] = Some (max b a)"
  by (auto simp: max_def)

lemma z_max_three: "Z_MAX [a, b, c] = Some (fold max [b, c] a)"
  by (simp add: z_max_two max.commute max.left_commute del: Z_MAX.simps(2))

lemma z_max_four: "Z_MAX [a, b, c, d] = Some (fold max [b, c, d] a)"
  by (simp add: z_max_two max.commute max.left_commute del: Z_MAX.simps(2))

lemma z_max_more:
  "Z_MAX [a, b, c, d, e] = Some (fold max [b, c, d, e] a)"
  "Z_MAX [a, b, c, d, e, f] = Some (fold max [b, c, d, e, f] a)"
  "Z_MAX [a, b, c, d, e, f, g] = Some (fold max [b, c, d, e, f, g] a)"
  "Z_MAX [a, b, c, d, e, f, g, h] = Some (fold max [b, c, d, e, f, g, h] a)"
  "Z_MAX [a, b, c, d, e, f, g, h, i] = Some (fold max [b, c, d, e, f, g, h, i] a)"
  "Z_MAX [a, b, c, d, e, f, g, h, i, j] = Some (fold max [b, c, d, e, f, g, h, i, j] a)"
  by (simp_all only: Z_MAX.simps(5-10) z_max_four z_max_two Option.bind.simps fold.simps comp_apply id_apply)

section \<open>Elements of an array\<close>

text \<open>An array is its address, the number of its elements and their size; \<open>0\<close> is NULL.\<close>

definition PART_OF_ARRAY :: "u32 \<Rightarrow> u32 \<Rightarrow> u32 \<Rightarrow> u32 \<Rightarrow> bool" where
  "PART_OF_ARRAY array n esize ptr = (ptr \<noteq> 0 \<and> array \<le> ptr \<and> ptr < array + n * esize)"

definition IS_ARRAY_ELEMENT :: "u32 \<Rightarrow> u32 \<Rightarrow> u32 \<Rightarrow> u32 \<Rightarrow> bool" where
  "IS_ARRAY_ELEMENT array n esize ptr =
     (ptr \<noteq> 0 \<and> array \<le> ptr \<and> ptr < array + n * esize \<and> (ptr - array) mod esize = 0)"

text \<open>The assertion of the macro is on, and stops the program.\<close>

definition ARRAY_INDEX_FLOOR :: "u32 \<Rightarrow> u32 \<Rightarrow> u32 \<Rightarrow> u32 \<Rightarrow> u32 option" where
  "ARRAY_INDEX_FLOOR array n esize ptr =
     (if PART_OF_ARRAY array n esize ptr then Some ((ptr - array) div esize) else None)"

text \<open>For an array that does not wrap around the end of memory.\<close>

lemma array_element_iff:
  assumes "array \<noteq> 0" "esize \<noteq> 0" and fits: "unat array + unat n * unat esize < 2 ^ 32"
  shows "IS_ARRAY_ELEMENT array n esize ptr \<longleftrightarrow> (\<exists>i < unat n. unat ptr = unat array + i * unat esize)"
    and "i < unat n \<Longrightarrow> r < unat esize \<Longrightarrow> unat ptr = unat array + i * unat esize + r \<Longrightarrow>
         ARRAY_INDEX_FLOOR array n esize ptr = Some (of_nat i)"
proof -
  have s: "0 < unat esize" "0 < unat array" using assms(1,2) by (simp_all add: unat_gt_0)
  have "unat (n * esize) = unat n * unat esize"
    using fits by (simp add: unat_mult_lem [THEN iffD1])
  then have top: "unat (array + n * esize) = unat array + unat n * unat esize"
    using fits by (simp add: unat_add_lem [THEN iffD1])
  have part: "PART_OF_ARRAY array n esize ptr \<longleftrightarrow>
      unat array \<le> unat ptr \<and> unat ptr < unat array + unat n * unat esize" for ptr
    using s(2) by (auto simp: PART_OF_ARRAY_def word_le_nat_alt word_less_nat_alt top)
  have diff: "unat (ptr - array) = unat ptr - unat array" if "unat array \<le> unat ptr" for ptr
    using that by (simp add: unat_sub word_le_nat_alt)
  have elem: "IS_ARRAY_ELEMENT array n esize ptr \<longleftrightarrow>
      PART_OF_ARRAY array n esize ptr \<and> unat esize dvd unat ptr - unat array"
    unfolding IS_ARRAY_ELEMENT_def PART_OF_ARRAY_def word_le_nat_alt
    by (metis diff dvd_eq_mod_eq_0 unat_eq_0 unat_mod)
  show "IS_ARRAY_ELEMENT array n esize ptr \<longleftrightarrow> (\<exists>i < unat n. unat ptr = unat array + i * unat esize)"
    unfolding elem part
  proof (intro iffI; clarify)
    assume "unat array \<le> unat ptr" "unat ptr < unat array + unat n * unat esize" "unat esize dvd unat ptr - unat array"
    then obtain i where "unat ptr = unat array + i * unat esize" by (metis dvd_div_mult_self le_add_diff_inverse)
    then show "\<exists>i < unat n. unat ptr = unat array + i * unat esize"
      using \<open>unat ptr < _\<close> s by (intro exI [of _ i]) simp
  next
    fix i assume "i < unat n" "unat ptr = unat array + i * unat esize"
    then show "(unat array \<le> unat ptr \<and> unat ptr < unat array + unat n * unat esize) \<and> unat esize dvd unat ptr - unat array"
      using s by simp
  qed
  show "ARRAY_INDEX_FLOOR array n esize ptr = Some (of_nat i)"
    if i: "i < unat n" "r < unat esize" "unat ptr = unat array + i * unat esize + r"
  proof -
    have "(i + 1) * unat esize \<le> unat n * unat esize" using i(1) by (intro mult_right_mono) simp_all
    then have "PART_OF_ARRAY array n esize ptr" using i by (simp add: part)
    moreover have "(ptr - array) div esize = of_nat i"
    proof -
      have "unat ((ptr - array) div esize) = i" using i s by (simp add: unat_div diff)
      from this [symmetric] show ?thesis by simp
    qed
    ultimately show ?thesis by (simp add: ARRAY_INDEX_FLOOR_def)
  qed
qed

end
