(* ===== verification/Rt_Lifecycle.thy ===== *)
theory Rt_Lifecycle
  imports Thread_Lifecycle Rt_Create
begin

text \<open>
  The end of an RT-Thread thread: its exit path, clients inside \<open>os_thread_join\<close>,
  \<open>os_thread_delete\<close>, \<open>os_thread_cancel\<close> and \<open>os_thread_abort\<close>, one critical section or native call
  at a time, on the two semaphores of the thread. Reaping detaches both before its critical section.
\<close>

section \<open>Laws of the kernel\<close>

locale rt_kernel_end = rt_kernel +
  assumes release_sems: "sems (rt_sem_release0 R s k) = sems k"
    and trytake_sems: "sems (snd (rt_sem_trytake0 R s k)) = sems k"
    and detach_token: "s \<noteq> s' \<Longrightarrow> token s (rt_sem_detach0 R s' k) = token s k"
    and close_sems: "sems (snd (rt_thread_detach R h k)) = sems k" "sems (snd (rt_thread_delete R h k)) = sems k"
    and close_token: "token s (snd (rt_thread_detach R h k)) = token s k"
      "token s (snd (rt_thread_delete R h k)) = token s k"

interpretation ref_rt_end: rt_kernel_end ref_rt rk_sems "\<lambda>s k. s \<in> rk_tokens k" rk_threads
  by unfold_locales (auto simp: ref_rt_def ref_drop_def)

section \<open>Steps\<close>

text \<open>
  A client waits for the completion semaphore, may reap, has detached one semaphore, or both; or it
  has marked the thread as aborted, has closed it, or has released the semaphore in its place.
\<close>

datatype rlc_client = RIdle | RWaiting | RReaping | RHalf | RDetached | RMarked | RClosed | RReleased

definition rlc_reaping :: "rlc_client \<Rightarrow> bool" where
  "rlc_reaping p = (p \<in> {RWaiting, RReaping, RHalf, RDetached})"

definition rlc_aborting :: "rlc_client \<Rightarrow> bool" where
  "rlc_aborting p = (p \<in> {RMarked, RClosed, RReleased})"

record ('h, 'k) rlc_config =
  r_mem :: "('h, 'k) rt_osal"
  r_target :: lc_target
  r_dead :: bool
  r_client :: "nat \<Rightarrow> rlc_client"

text \<open>
  With \<open>window\<close>, the thread may run between the critical section of an abort and the native call
  that closes it, as it can when its priority is above the aborter's.
\<close>

definition rlc_runs :: "bool \<Rightarrow> ('h, 'k) rlc_config \<Rightarrow> bool" where
  "rlc_runs window c \<longleftrightarrow> \<not> r_dead c \<and> (window \<or> (\<forall>i. r_client c i \<noteq> RMarked))"

inductive rlc_step ::
  "('h, 'k) rt_threads \<Rightarrow> bool \<Rightarrow> nat \<Rightarrow> ('h, 'k) rlc_config \<Rightarrow> ('h, 'k) rlc_config \<Rightarrow> bool" for R window t where
  exits: "rlc_runs window c \<Longrightarrow> r_target c = TRunning \<Longrightarrow>
    rlc_step R window t c (c\<lparr>r_mem := exit_section t (r_mem c), r_target := TCompleted\<rparr>)"
| releases: "rlc_runs window c \<Longrightarrow> r_target c = TCompleted \<Longrightarrow> completion_handle (th (r_mem c) t) = Some s \<Longrightarrow>
    rlc_step R window t c (c\<lparr>r_mem := run_native (rt_sem_release0 R s) (r_mem c), r_target := TGave\<rparr>)"
| signals: "rlc_runs window c \<Longrightarrow> r_target c = TGave \<Longrightarrow>
    rlc_step R window t c (c\<lparr>r_mem := signal_section t (r_mem c), r_target := TSignaled\<rparr>)"
| join_waits: "r_client c i = RIdle \<Longrightarrow> join_section t (r_mem c) = (Inr s, m) \<Longrightarrow>
    rlc_step R window t c (c\<lparr>r_mem := m, r_client := (r_client c)(i := RWaiting)\<rparr>)"
| join_takes: "r_client c i = RWaiting \<Longrightarrow> call_native (rt_sem_trytake0 R (CompletionSem t)) (r_mem c) = (True, m) \<Longrightarrow>
    rlc_step R window t c (c\<lparr>r_mem := m, r_client := (r_client c)(i := RReaping)\<rparr>)"
| join_gives_up: "r_client c i = RWaiting \<Longrightarrow>
    rlc_step R window t c (c\<lparr>r_mem := join_cancel_section t (r_mem c), r_client := (r_client c)(i := RIdle)\<rparr>)"
| delete_claims: "r_client c i = RIdle \<Longrightarrow> delete_section t (r_mem c) = (None, m) \<Longrightarrow>
    rlc_step R window t c (c\<lparr>r_mem := m, r_client := (r_client c)(i := RReaping)\<rparr>)"
| detaches_completion: "r_client c i = RReaping \<Longrightarrow>
    rlc_step R window t c (c\<lparr>r_mem := run_native (rt_sem_detach0 R (CompletionSem t)) (r_mem c),
      r_client := (r_client c)(i := RHalf)\<rparr>)"
| detaches_wait: "r_client c i = RHalf \<Longrightarrow>
    rlc_step R window t c (c\<lparr>r_mem := run_native (rt_sem_detach0 R (WaitSem t)) (r_mem c),
      r_client := (r_client c)(i := RDetached)\<rparr>)"
| reaps: "r_client c i = RDetached \<Longrightarrow>
    rlc_step R window t c (c\<lparr>r_mem := snd (reap_section t (r_mem c)), r_client := (r_client c)(i := RIdle)\<rparr>)"
| cancels: "cancel_request_section t (r_mem c) = (r, m) \<Longrightarrow> rlc_step R window t c (c\<lparr>r_mem := m\<rparr>)"
| abort_marks: "r_client c i = RIdle \<Longrightarrow> rt_abort_section t (r_mem c) = Some (None, m) \<Longrightarrow>
    rlc_step R window t c (c\<lparr>r_mem := m, r_client := (r_client c)(i := RMarked)\<rparr>)"
| abort_closes: "r_client c i = RMarked \<Longrightarrow> rt_abort_native R h static (r_mem c) = (True, m) \<Longrightarrow>
    rlc_step R window t c (c\<lparr>r_mem := m, r_dead := True, r_client := (r_client c)(i := RClosed)\<rparr>)"
| abort_fails: "r_client c i = RMarked \<Longrightarrow> rt_abort_native R h static (r_mem c) = (False, m) \<Longrightarrow>
    rlc_step R window t c (c\<lparr>r_mem := rt_abort_failed t m, r_client := (r_client c)(i := RIdle)\<rparr>)"
| abort_releases: "r_client c i = RClosed \<Longrightarrow>
    rlc_step R window t c (c\<lparr>r_mem := run_native (rt_sem_release0 R (CompletionSem t)) (r_mem c),
      r_client := (r_client c)(i := RReleased)\<rparr>)"
| abort_signals: "r_client c i = RReleased \<Longrightarrow>
    rlc_step R window t c (c\<lparr>r_mem := signal_section t (r_mem c), r_client := (r_client c)(i := RIdle)\<rparr>)"

text \<open>
  A refused call changes nothing (\<open>join_section\<close>, \<open>delete_section\<close> and \<open>rt_abort_section\<close> return
  their memory), so it is no step. At the start \<open>os_thread_create\<close> has returned 0.
\<close>

lemma refused_calls:
  "join_section t m = (Inl r, m') \<Longrightarrow> m' = m" "delete_section t m = (Some r, m') \<Longrightarrow> m' = m"
  "rt_abort_section t m = Some (Some r, m') \<Longrightarrow> m' = m"
  by (auto simp: join_section_def delete_section_def rt_abort_section_def bind_eq_Some_conv split: if_splits option.splits)

definition rlc_start :: "('k \<Rightarrow> rt_sem_id set) \<Rightarrow> (rt_sem_id \<Rightarrow> 'k \<Rightarrow> bool) \<Rightarrow> nat \<Rightarrow> ('h, 'k) rlc_config \<Rightarrow> bool" where
  "rlc_start sems token t c \<longleftrightarrow>
     completion_handle (th (r_mem c) t) = Some (CompletionSem t) \<and> \<not> completed (th (r_mem c) t)
     \<and> \<not> completion_signaled (th (r_mem c) t) \<and> \<not> completion_reaped (th (r_mem c) t)
     \<and> \<not> join_active (th (r_mem c) t) \<and> r_target c = TRunning \<and> \<not> r_dead c \<and> r_client c = (\<lambda>_. RIdle)
     \<and> {WaitSem t, CompletionSem t} \<subseteq> sems (native (kern (r_mem c)))
     \<and> \<not> token (CompletionSem t) (native (kern (r_mem c)))"

inductive rlc_reach ::
  "('h, 'k) rt_threads \<Rightarrow> ('k \<Rightarrow> rt_sem_id set) \<Rightarrow> (rt_sem_id \<Rightarrow> 'k \<Rightarrow> bool) \<Rightarrow> bool \<Rightarrow> nat \<Rightarrow> ('h, 'k) rlc_config \<Rightarrow> bool"
  for R sems token window t where
  start: "rlc_start sems token t c \<Longrightarrow> rlc_reach R sems token window t c"
| step: "rlc_reach R sems token window t c \<Longrightarrow> rlc_step R window t c c' \<Longrightarrow> rlc_reach R sems token window t c'"

section \<open>Invariant\<close>

text \<open>The completion semaphore has been given by the thread, or in its place.\<close>

definition rlc_given :: "('h, 'k) rlc_config \<Rightarrow> bool" where
  "rlc_given c \<longleftrightarrow> r_target c = TGave \<or> r_target c = TSignaled \<or> r_dead c \<and> (\<forall>i. r_client c i \<noteq> RClosed)"

definition rlc_done :: "('h, 'k) rlc_config \<Rightarrow> bool" where
  "rlc_done c \<longleftrightarrow> r_target c = TSignaled \<or> r_dead c \<and> (\<forall>i. r_client c i \<noteq> RClosed \<and> r_client c i \<noteq> RReleased)"

definition rlc_thread_ok :: "('h, rt_sem_id) os_thread \<Rightarrow> nat \<Rightarrow> ('h, 'k) rlc_config \<Rightarrow> bool" where
  "rlc_thread_ok T t c \<longleftrightarrow>
     (completed T \<longleftrightarrow> r_target c \<noteq> TRunning \<or> r_dead c \<or> (\<exists>i. r_client c i = RMarked))
     \<and> (completion_signaled T \<longleftrightarrow> rlc_done c)
     \<and> completion_handle T = (if completion_reaped T then None else Some (CompletionSem t))
     \<and> (completion_reaped T \<longrightarrow> rlc_given c)
     \<and> (r_dead c \<longrightarrow> r_target c = TRunning \<and> (\<forall>i. r_client c i \<noteq> RMarked))"

definition rlc_clients_ok :: "('h, rt_sem_id) os_thread \<Rightarrow> ('h, 'k) rlc_config \<Rightarrow> bool" where
  "rlc_clients_ok T c \<longleftrightarrow>
     (\<forall>i j. rlc_reaping (r_client c i) \<longrightarrow> rlc_reaping (r_client c j) \<longrightarrow> i = j)
     \<and> (\<forall>i j. rlc_aborting (r_client c i) \<longrightarrow> rlc_aborting (r_client c j) \<longrightarrow> i = j)
     \<and> (\<forall>i. rlc_aborting (r_client c i) \<longrightarrow> r_target c = TRunning \<and> (r_dead c \<longleftrightarrow> r_client c i \<noteq> RMarked))
     \<and> (join_active T \<longleftrightarrow> (\<exists>i. rlc_reaping (r_client c i)))
     \<and> (\<forall>i. rlc_reaping (r_client c i) \<longrightarrow> \<not> completion_reaped T \<and> (r_client c i \<noteq> RWaiting \<longrightarrow> rlc_given c))"

definition rlc_sems_ok ::
  "('k \<Rightarrow> rt_sem_id set) \<Rightarrow> (rt_sem_id \<Rightarrow> 'k \<Rightarrow> bool) \<Rightarrow> ('h, rt_sem_id) os_thread \<Rightarrow> nat \<Rightarrow> 'k \<Rightarrow> ('h, 'k) rlc_config \<Rightarrow> bool" where
  "rlc_sems_ok sems token T t k c \<longleftrightarrow>
     (CompletionSem t \<in> sems k \<longleftrightarrow> \<not> completion_reaped T \<and> (\<forall>i. r_client c i \<noteq> RHalf \<and> r_client c i \<noteq> RDetached))
     \<and> (WaitSem t \<in> sems k \<longleftrightarrow> \<not> completion_reaped T \<and> (\<forall>i. r_client c i \<noteq> RDetached))
     \<and> (CompletionSem t \<in> sems k \<longrightarrow> token (CompletionSem t) k \<longrightarrow> rlc_given c)"

definition rlc_inv ::
  "('k \<Rightarrow> rt_sem_id set) \<Rightarrow> (rt_sem_id \<Rightarrow> 'k \<Rightarrow> bool) \<Rightarrow> nat \<Rightarrow> ('h, 'k) rlc_config \<Rightarrow> bool" where
  "rlc_inv sems token t c \<longleftrightarrow>
     rlc_thread_ok (th (r_mem c) t) t c \<and> rlc_clients_ok (th (r_mem c) t) c
     \<and> rlc_sems_ok sems token (th (r_mem c) t) t (native (kern (r_mem c))) c"

lemma rlc_inv_start: "rlc_start sems token t c \<Longrightarrow> rlc_inv sems token t c"
  by (simp add: rlc_inv_def rlc_thread_ok_def rlc_clients_ok_def rlc_sems_ok_def rlc_start_def rlc_given_def
      rlc_done_def rlc_reaping_def rlc_aborting_def)

lemma rt_abort_marks:
  assumes "rt_abort_section t m = Some (None, m')"
  shows "\<not> completed (th m t)" "completed (th m' t)" "completion_signaled (th m' t) = completion_signaled (th m t)"
    "completion_handle (th m' t) = completion_handle (th m t)" "completion_reaped (th m' t) = completion_reaped (th m t)"
    "join_active (th m' t) = join_active (th m t)" "kern m' = kern m"
  using assms by (auto simp: rt_abort_section_def waitq_remove_def bind_eq_Some_conv upd_th_def split: if_splits)

lemma rt_abort_native_th: "rt_abort_native R h static m = (r, m') \<Longrightarrow> th m' = th m"
  by (auto simp: rt_abort_native_def call_native_def split: if_splits)

lemmas rlc_sections = exit_section_def signal_section_def join_section_def join_cancel_section_def
  delete_section_def reap_section_def cancel_request_section_def rt_abort_failed_def upd_th_def

lemma fun_upd_all: "f i \<noteq> x \<Longrightarrow> y \<noteq> x \<Longrightarrow> (\<forall>j. (f(i := y)) j \<noteq> x) \<longleftrightarrow> (\<forall>j. f j \<noteq> x)"
  by (metis fun_upd_apply)

text \<open>A client that is not aborting moves on.\<close>

lemma rlc_moves:
  assumes "r_target c' = r_target c" "r_dead c' = r_dead c" "r_client c' = (r_client c)(i := q)"
    and "\<not> rlc_aborting (r_client c i)" "\<not> rlc_aborting q"
  shows "rlc_given c' = rlc_given c" "rlc_done c' = rlc_done c"
    "(\<forall>j. r_client c' j \<noteq> RMarked) = (\<forall>j. r_client c j \<noteq> RMarked)"
proof -
  have ne: "r_client c i \<noteq> RMarked" "q \<noteq> RMarked" "r_client c i \<noteq> RClosed" "q \<noteq> RClosed"
      "r_client c i \<noteq> RReleased" "q \<noteq> RReleased"
    using assms(4,5) by (auto simp: rlc_aborting_def)
  show "(\<forall>j. r_client c' j \<noteq> RMarked) = (\<forall>j. r_client c j \<noteq> RMarked)"
    unfolding assms(3) by (rule fun_upd_all) (simp_all add: ne)
  moreover have "(\<forall>j. r_client c' j \<noteq> RClosed) = (\<forall>j. r_client c j \<noteq> RClosed)"
    unfolding assms(3) by (rule fun_upd_all) (simp_all add: ne)
  moreover have "(\<forall>j. r_client c' j \<noteq> RReleased) = (\<forall>j. r_client c j \<noteq> RReleased)"
    unfolding assms(3) by (rule fun_upd_all) (simp_all add: ne)
  ultimately show "rlc_given c' = rlc_given c" "rlc_done c' = rlc_done c"
    by (simp_all add: rlc_given_def rlc_done_def assms(1,2) all_conj_distrib)
qed

lemma rlc_thread_moves:
  assumes ok: "rlc_thread_ok T t c" and move: "r_target c' = r_target c" "r_dead c' = r_dead c"
      "r_client c' = (r_client c)(i := q)" "\<not> rlc_aborting (r_client c i)" "\<not> rlc_aborting q"
    and same: "completed T' = completed T" "completion_signaled T' = completion_signaled T"
      "completion_handle T' = completion_handle T" "completion_reaped T' = completion_reaped T"
  shows "rlc_thread_ok T' t c'"
proof -
  note m = rlc_moves [OF move]
  have "(\<exists>j. r_client c' j = RMarked) = (\<exists>j. r_client c j = RMarked)" using m(3) by blast
  then show ?thesis using ok m by (simp add: rlc_thread_ok_def same move(1,2))
qed

text \<open>The aborting client, of which there is one.\<close>

lemma rlc_aborter:
  assumes cl: "rlc_clients_ok T c" and i: "rlc_aborting (r_client c i)"
  shows "r_target c = TRunning" "r_dead c \<longleftrightarrow> r_client c i \<noteq> RMarked" "\<not> rlc_done c"
    "rlc_given c \<longleftrightarrow> r_client c i = RReleased" "\<And>j. j \<noteq> i \<Longrightarrow> \<not> rlc_aborting (r_client c j)"
proof -
  have one: "\<not> rlc_aborting (r_client c j)" if "j \<noteq> i" for j
    using cl i that unfolding rlc_clients_ok_def by blast
  have st: "r_target c = TRunning" "r_dead c \<longleftrightarrow> r_client c i \<noteq> RMarked"
    using cl i unfolding rlc_clients_ok_def by blast+
  show "r_target c = TRunning" "r_dead c \<longleftrightarrow> r_client c i \<noteq> RMarked" by (fact st)+
  show "\<not> rlc_done c" using st i by (auto simp: rlc_done_def rlc_aborting_def)
  have "r_client c j \<noteq> RClosed" if "r_client c i \<noteq> RClosed" for j
    using one [of j] that by (cases "j = i") (auto simp: rlc_aborting_def)
  then show "rlc_given c \<longleftrightarrow> r_client c i = RReleased"
    using st i by (auto simp: rlc_given_def rlc_aborting_def)
  show "\<not> rlc_aborting (r_client c j)" if "j \<noteq> i" for j using one that .
qed

lemma rlc_aborter_upd:
  assumes "\<And>j. j \<noteq> i \<Longrightarrow> \<not> rlc_aborting (f j)" and "rlc_aborting x"
  shows "(\<forall>j. (f(i := q)) j \<noteq> x) \<longleftrightarrow> q \<noteq> x" "(\<exists>j. (f(i := q)) j = x) \<longleftrightarrow> q = x"
proof -
  have "(f(i := q)) j = x \<longleftrightarrow> j = i \<and> q = x" for j using assms(1) [of j] assms(2) by auto
  then show "(\<forall>j. (f(i := q)) j \<noteq> x) \<longleftrightarrow> q \<noteq> x" "(\<exists>j. (f(i := q)) j = x) \<longleftrightarrow> q = x" by auto
qed

lemma rlc_thread_step:
  assumes inv: "rlc_inv sems token t c" and step: "rlc_step R False t c c'"
  shows "rlc_thread_ok (th (r_mem c') t) t c'"
proof -
  let ?T = "th (r_mem c) t"
  have ok: "rlc_thread_ok ?T t c" and cl: "rlc_clients_ok ?T c" using inv by (simp_all add: rlc_inv_def)
  note defs = rlc_thread_ok_def rlc_clients_ok_def rlc_given_def rlc_done_def rlc_runs_def rlc_aborting_def rlc_reaping_def
  from step show ?thesis
  proof cases
    case exits
    then show ?thesis using ok cl by (auto simp: defs rlc_sections)
  next
    case (releases s)
    then show ?thesis using ok cl by (auto simp: defs rlc_sections)
  next
    case signals
    then show ?thesis using ok cl by (auto simp: defs rlc_sections)
  next
    case (join_waits i s m)
    show ?thesis
      by (rule rlc_thread_moves [OF ok, of _ i RWaiting])
        (use join_waits in \<open>auto simp: rlc_aborting_def rlc_sections call_native_def split: if_splits option.splits\<close>)
  next
    case (join_takes i m)
    show ?thesis
      by (rule rlc_thread_moves [OF ok, of _ i RReaping])
        (use join_takes in \<open>auto simp: rlc_aborting_def rlc_sections call_native_def split: if_splits option.splits\<close>)
  next
    case (join_gives_up i)
    show ?thesis
      by (rule rlc_thread_moves [OF ok, of _ i RIdle])
        (use join_gives_up in \<open>auto simp: rlc_aborting_def rlc_sections call_native_def split: if_splits option.splits\<close>)
  next
    case (delete_claims i m)
    show ?thesis
      by (rule rlc_thread_moves [OF ok, of _ i RReaping])
        (use delete_claims in \<open>auto simp: rlc_aborting_def rlc_sections call_native_def split: if_splits option.splits\<close>)
  next
    case (detaches_completion i)
    show ?thesis
      by (rule rlc_thread_moves [OF ok, of _ i RHalf])
        (use detaches_completion in \<open>auto simp: rlc_aborting_def rlc_sections call_native_def split: if_splits option.splits\<close>)
  next
    case (detaches_wait i)
    show ?thesis
      by (rule rlc_thread_moves [OF ok, of _ i RDetached])
        (use detaches_wait in \<open>auto simp: rlc_aborting_def rlc_sections call_native_def split: if_splits option.splits\<close>)
  next
    case (reaps i)
    have given: "rlc_given c" using cl reaps(2) by (auto simp: rlc_clients_ok_def rlc_reaping_def)
    have m: "rlc_given c' = rlc_given c" "rlc_done c' = rlc_done c"
        "(\<forall>j. r_client c' j \<noteq> RMarked) = (\<forall>j. r_client c j \<noteq> RMarked)"
      using rlc_moves [of c' c i RIdle] reaps by (simp_all add: rlc_aborting_def)
    then have "(\<exists>j. r_client c' j = RMarked) = (\<exists>j. r_client c j = RMarked)" by blast
    then show ?thesis using ok given m by (simp add: rlc_thread_ok_def rlc_sections reaps(1))
  next
    case (cancels r m)
    then show ?thesis using ok cl by (auto simp: defs rlc_sections split: if_splits)
  next
    case (abort_marks i m)
    note mk = rt_abort_marks [OF abort_marks(3)]
    have run: "r_target c = TRunning" "\<not> r_dead c" using ok mk(1) by (auto simp: rlc_thread_ok_def)
    then have "\<not> completion_reaped ?T" "\<not> completion_signaled ?T"
      using ok by (auto simp: rlc_thread_ok_def rlc_given_def rlc_done_def)
    then show ?thesis using ok mk run
      by (auto simp: rlc_thread_ok_def rlc_given_def rlc_done_def abort_marks(1))
  next
    case (abort_closes i h static m)
    have ab: "rlc_aborting (r_client c i)" using abort_closes by (simp add: rlc_aborting_def)
    note a = rlc_aborter [OF cl ab]
    note u = rlc_aborter_upd [of i "r_client c", OF a(5), unfolded rlc_aborting_def]
    have "\<exists>j. r_client c j = RMarked" using abort_closes(2) by blast
    then show ?thesis using abort_closes ok a(1-4) u
      by (simp add: rlc_thread_ok_def rlc_given_def rlc_done_def all_conj_distrib rt_abort_native_th)
  next
    case (abort_fails i h static m)
    have ab: "rlc_aborting (r_client c i)" using abort_fails by (simp add: rlc_aborting_def)
    note a = rlc_aborter [OF cl ab]
    note u = rlc_aborter_upd [of i "r_client c", OF a(5), unfolded rlc_aborting_def]
    show ?thesis using abort_fails ok a(1-4) u
      by (simp add: rlc_thread_ok_def rlc_given_def rlc_done_def all_conj_distrib rt_abort_native_th rlc_sections)
  next
    case (abort_releases i)
    have ab: "rlc_aborting (r_client c i)" using abort_releases by (simp add: rlc_aborting_def)
    note a = rlc_aborter [OF cl ab]
    note u = rlc_aborter_upd [of i "r_client c", OF a(5), unfolded rlc_aborting_def]
    show ?thesis using abort_releases ok a(1-4) u
      by (simp add: rlc_thread_ok_def rlc_given_def rlc_done_def all_conj_distrib)
  next
    case (abort_signals i)
    have ab: "rlc_aborting (r_client c i)" using abort_signals by (simp add: rlc_aborting_def)
    note a = rlc_aborter [OF cl ab]
    note u = rlc_aborter_upd [of i "r_client c", OF a(5), unfolded rlc_aborting_def]
    show ?thesis using abort_signals ok a(1-4) u
      by (simp add: rlc_thread_ok_def rlc_given_def rlc_done_def all_conj_distrib rlc_sections)
  qed
qed

subsection \<open>Clients\<close>

lemma rlc_clients_reap:
  assumes cl: "rlc_clients_ok T c" and move: "r_target c' = r_target c" "r_dead c' = r_dead c"
      "r_client c' = (r_client c)(i := q)" "\<not> rlc_aborting (r_client c i)" "\<not> rlc_aborting q"
    and others: "\<And>j. j \<noteq> i \<Longrightarrow> \<not> rlc_reaping (r_client c j)"
    and T': "join_active T' = rlc_reaping q" "rlc_reaping q \<Longrightarrow> \<not> completion_reaped T'"
      "rlc_reaping q \<Longrightarrow> q \<noteq> RWaiting \<Longrightarrow> rlc_given c"
  shows "rlc_clients_ok T' c'"
proof -
  have reap: "rlc_reaping (r_client c' j) \<longleftrightarrow> j = i \<and> rlc_reaping q" for j using others [of j] by (simp add: move(3))
  have abort: "rlc_aborting (r_client c' j) \<longleftrightarrow> rlc_aborting (r_client c j)"
      "rlc_aborting (r_client c j) \<Longrightarrow> r_client c' j = r_client c j" for j
    using move(4,5) by (auto simp: move(3))
  show ?thesis unfolding rlc_clients_ok_def rlc_moves(1) [OF move]
  proof (intro conjI allI impI)
    fix j k
    show "rlc_reaping (r_client c' j) \<Longrightarrow> rlc_reaping (r_client c' k) \<Longrightarrow> j = k" by (simp add: reap)
    show "rlc_aborting (r_client c' j) \<Longrightarrow> rlc_aborting (r_client c' k) \<Longrightarrow> j = k"
      using cl unfolding abort(1) rlc_clients_ok_def by blast
    assume a: "rlc_aborting (r_client c' j)"
    show "r_target c' = TRunning" "r_dead c' \<longleftrightarrow> r_client c' j \<noteq> RMarked"
      using cl a abort unfolding rlc_clients_ok_def move(1,2) by (metis (no_types))+
  next
    show "join_active T' = (\<exists>j. rlc_reaping (r_client c' j))" by (simp add: reap T'(1))
    fix j assume r: "rlc_reaping (r_client c' j)"
    then have j: "j = i" "rlc_reaping q" by (simp_all add: reap)
    show "\<not> completion_reaped T'" using T'(2) j(2) .
    show "rlc_given c" if "r_client c' j \<noteq> RWaiting" using T'(3) j that by (simp add: move(3))
  qed
qed

lemma rlc_clients_abort:
  assumes cl: "rlc_clients_ok T c" and move: "r_target c' = r_target c" "r_client c' = (r_client c)(i := q)"
      "\<not> rlc_reaping (r_client c i)" "\<not> rlc_reaping q"
    and others: "\<And>j. j \<noteq> i \<Longrightarrow> \<not> rlc_aborting (r_client c j)"
    and q: "rlc_aborting q \<Longrightarrow> r_target c = TRunning \<and> (r_dead c' \<longleftrightarrow> q \<noteq> RMarked)"
    and given: "rlc_given c \<Longrightarrow> rlc_given c'"
    and T': "join_active T' = join_active T" "completion_reaped T' = completion_reaped T"
  shows "rlc_clients_ok T' c'"
proof -
  have abort: "rlc_aborting (r_client c' j) \<longleftrightarrow> j = i \<and> rlc_aborting q" for j using others [of j] by (simp add: move(2))
  have reap: "rlc_reaping (r_client c' j) \<longleftrightarrow> rlc_reaping (r_client c j)"
      "rlc_reaping (r_client c j) \<Longrightarrow> r_client c' j = r_client c j" for j
    using move(3,4) by (auto simp: move(2))
  show ?thesis unfolding rlc_clients_ok_def
  proof (intro conjI allI impI)
    fix j k
    show "rlc_aborting (r_client c' j) \<Longrightarrow> rlc_aborting (r_client c' k) \<Longrightarrow> j = k" by (simp add: abort)
    show "rlc_reaping (r_client c' j) \<Longrightarrow> rlc_reaping (r_client c' k) \<Longrightarrow> j = k"
      using cl unfolding reap(1) rlc_clients_ok_def by blast
    show "join_active T' = (\<exists>i. rlc_reaping (r_client c' i))"
      using cl unfolding reap(1) T' rlc_clients_ok_def by blast
    assume a: "rlc_reaping (r_client c' j)"
    show "\<not> completion_reaped T'" using cl a unfolding reap(1) T' rlc_clients_ok_def by blast
    show "rlc_given c'" if "r_client c' j \<noteq> RWaiting"
      using cl a reap that given unfolding rlc_clients_ok_def by (metis (no_types))
  next
    fix j assume "rlc_aborting (r_client c' j)"
    then have j: "j = i" "rlc_aborting q" by (simp_all add: abort)
    show "r_target c' = TRunning" "r_dead c' \<longleftrightarrow> r_client c' j \<noteq> RMarked" using q [OF j(2)] j(1) by (simp_all add: move)
  qed
qed

lemma rlc_clients_run:
  assumes cl: "rlc_clients_ok T c" and run: "rlc_runs False c"
    and same: "r_client c' = r_client c" "rlc_given c \<Longrightarrow> rlc_given c'"
      "join_active T' = join_active T" "completion_reaped T' = completion_reaped T"
  shows "rlc_clients_ok T' c'"
proof -
  have "\<not> rlc_aborting (r_client c j)" for j
    using cl run unfolding rlc_clients_ok_def rlc_runs_def by blast
  then show ?thesis using cl same unfolding rlc_clients_ok_def by simp
qed

lemma rlc_reaper:
  assumes "rlc_clients_ok T c"
  shows "rlc_reaping (r_client c i) \<Longrightarrow> j \<noteq> i \<Longrightarrow> \<not> rlc_reaping (r_client c j)"
    and "\<not> join_active T \<Longrightarrow> \<not> rlc_reaping (r_client c j)"
    and "rlc_reaping (r_client c i) \<Longrightarrow> \<not> completion_reaped T \<and> join_active T"
    and "rlc_reaping (r_client c i) \<Longrightarrow> r_client c i \<noteq> RWaiting \<Longrightarrow> rlc_given c"
  using assms unfolding rlc_clients_ok_def by blast+

lemma trytake_given:
  assumes "rlc_sems_ok sems token T t k c" "rlc_clients_ok T c" "r_client c i = RWaiting" "token (CompletionSem t) k"
  shows "rlc_given c"
proof -
  have r: "rlc_reaping (r_client c i)" using assms(3) by (simp add: rlc_reaping_def)
  have "r_client c j \<noteq> RHalf \<and> r_client c j \<noteq> RDetached" for j
    using rlc_reaper(1) [OF assms(2) r, of j] assms(3) by (cases "j = i") (auto simp: rlc_reaping_def)
  then show ?thesis using assms rlc_reaper(3) [OF assms(2) r] by (auto simp: rlc_sems_ok_def)
qed

context rt_kernel_end
begin

lemma rlc_clients_step:
  assumes inv: "rlc_inv sems token t c" and step: "rlc_step R False t c c'"
  shows "rlc_clients_ok (th (r_mem c') t) c'"
proof -
  let ?T = "th (r_mem c) t"
  have ok: "rlc_thread_ok ?T t c" and cl: "rlc_clients_ok ?T c"
    and se: "rlc_sems_ok sems token ?T t (native (kern (r_mem c))) c" using inv by (simp_all add: rlc_inv_def)
  note r = rlc_reaper [OF cl]
  from step show ?thesis
  proof cases
    case exits
    then show ?thesis by (intro rlc_clients_run [OF cl]) (auto simp: rlc_given_def rlc_sections)
  next
    case (releases s)
    then show ?thesis by (intro rlc_clients_run [OF cl]) (auto simp: rlc_given_def)
  next
    case signals
    then show ?thesis by (intro rlc_clients_run [OF cl]) (auto simp: rlc_given_def rlc_sections)
  next
    case (join_waits i s m)
    have T: "\<not> join_active ?T" "\<not> completion_reaped ?T" "join_active (th m t)" "\<not> completion_reaped (th m t)"
      using join_waits(3) by (auto simp: rlc_sections split: if_splits option.splits)
    show ?thesis
      by (rule rlc_clients_reap [OF cl, of _ i RWaiting]) (use join_waits r(2) T in \<open>auto simp: rlc_aborting_def rlc_reaping_def\<close>)
  next
    case (join_takes i m)
    have m: "th m = th (r_mem c)" "token (CompletionSem t) (native (kern (r_mem c)))"
      using join_takes(3) trytake by (auto simp: call_native_def prod_eq_iff)
    have w: "rlc_reaping (r_client c i)" using join_takes(2) by (simp add: rlc_reaping_def)
    have given: "rlc_given c" by (rule trytake_given [OF se cl join_takes(2) m(2)])
    show ?thesis
      by (rule rlc_clients_reap [OF cl, of _ i RReaping])
        (use join_takes(1,2) r(1) [OF w] r(3) [OF w] m(1) given in \<open>auto simp: rlc_aborting_def rlc_reaping_def\<close>)
  next
    case (join_gives_up i)
    have w: "rlc_reaping (r_client c i)" using join_gives_up(2) by (simp add: rlc_reaping_def)
    show ?thesis
      by (rule rlc_clients_reap [OF cl, of _ i RIdle])
        (use join_gives_up r(1) [OF w] in \<open>auto simp: rlc_aborting_def rlc_reaping_def rlc_sections\<close>)
  next
    case (delete_claims i m)
    have T: "\<not> join_active ?T" "completion_signaled ?T" "join_active (th m t)" "\<not> completion_reaped (th m t)"
      using delete_claims(3) by (auto simp: rlc_sections split: if_splits)
    have "rlc_given c" using T(2) ok by (auto simp: rlc_thread_ok_def rlc_done_def rlc_given_def)
    then show ?thesis
      by (intro rlc_clients_reap [OF cl, of _ i RReaping]) (use delete_claims r(2) T in \<open>auto simp: rlc_aborting_def rlc_reaping_def\<close>)
  next
    case (detaches_completion i)
    have w: "rlc_reaping (r_client c i)" using detaches_completion(2) by (simp add: rlc_reaping_def)
    show ?thesis
      by (rule rlc_clients_reap [OF cl, of _ i RHalf])
        (use detaches_completion r(1) [OF w] r(3,4) [OF w] in \<open>auto simp: rlc_aborting_def rlc_reaping_def\<close>)
  next
    case (detaches_wait i)
    have w: "rlc_reaping (r_client c i)" using detaches_wait(2) by (simp add: rlc_reaping_def)
    show ?thesis
      by (rule rlc_clients_reap [OF cl, of _ i RDetached])
        (use detaches_wait r(1) [OF w] r(3,4) [OF w] in \<open>auto simp: rlc_aborting_def rlc_reaping_def\<close>)
  next
    case (reaps i)
    have w: "rlc_reaping (r_client c i)" using reaps(2) by (simp add: rlc_reaping_def)
    show ?thesis
      by (rule rlc_clients_reap [OF cl, of _ i RIdle])
        (use reaps r(1) [OF w] in \<open>auto simp: rlc_aborting_def rlc_reaping_def rlc_sections\<close>)
  next
    case (cancels r m)
    then have "join_active (th m t) = join_active ?T" "completion_reaped (th m t) = completion_reaped ?T"
      by (auto simp: rlc_sections split: if_splits)
    then show ?thesis using cl by (simp add: cancels(1) rlc_clients_ok_def rlc_given_def)
  next
    case (abort_marks i m)
    note mk = rt_abort_marks [OF abort_marks(3)]
    have run: "r_target c = TRunning" "\<not> r_dead c" "\<And>j. r_client c j \<noteq> RMarked"
      using ok mk(1) by (auto simp: rlc_thread_ok_def)
    have "\<not> rlc_aborting (r_client c j)" for j using cl run(2,3) unfolding rlc_clients_ok_def by blast
    then show ?thesis using abort_marks(1,2) mk run
      by (intro rlc_clients_abort [OF cl, of c' i RMarked]) (auto simp: rlc_reaping_def rlc_given_def)
  next
    case (abort_closes i h static m)
    have ab: "rlc_aborting (r_client c i)" using abort_closes by (simp add: rlc_aborting_def)
    note a = rlc_aborter [OF cl ab]
    show ?thesis using abort_closes(1,2) rt_abort_native_th [OF abort_closes(3)] a
      by (intro rlc_clients_abort [OF cl, of c' i RClosed]) (auto simp: rlc_reaping_def)
  next
    case (abort_fails i h static m)
    have ab: "rlc_aborting (r_client c i)" using abort_fails by (simp add: rlc_aborting_def)
    note a = rlc_aborter [OF cl ab]
    show ?thesis using abort_fails(1,2) rt_abort_native_th [OF abort_fails(3)] a
      by (intro rlc_clients_abort [OF cl, of c' i RIdle]) (auto simp: rlc_reaping_def rlc_aborting_def rlc_sections)
  next
    case (abort_releases i)
    have ab: "rlc_aborting (r_client c i)" using abort_releases by (simp add: rlc_aborting_def)
    note a = rlc_aborter [OF cl ab]
    show ?thesis using abort_releases a
      by (intro rlc_clients_abort [OF cl, of c' i RReleased]) (auto simp: rlc_reaping_def)
  next
    case (abort_signals i)
    have ab: "rlc_aborting (r_client c i)" using abort_signals by (simp add: rlc_aborting_def)
    note a = rlc_aborter [OF cl ab]
    note u = rlc_aborter_upd(1) [of i "r_client c", OF a(5), unfolded rlc_aborting_def]
    show ?thesis using abort_signals a(1,2,5) u
      by (intro rlc_clients_abort [OF cl, of c' i RIdle]) (auto simp: rlc_reaping_def rlc_sections rlc_given_def rlc_aborting_def)
  qed
qed

subsection \<open>Semaphores\<close>

lemma rlc_sems_same:
  assumes se: "rlc_sems_ok sems token T t k c"
    and kern: "sems k' = sems k" "token (CompletionSem t) k' \<Longrightarrow> token (CompletionSem t) k \<or> rlc_given c'"
    and T': "completion_reaped T' = completion_reaped T" and given: "rlc_given c \<Longrightarrow> rlc_given c'"
    and cl: "\<And>x. x = RHalf \<or> x = RDetached \<Longrightarrow> (\<forall>j. r_client c' j \<noteq> x) = (\<forall>j. r_client c j \<noteq> x)"
  shows "rlc_sems_ok sems token T' t k' c'"
  using se kern given cl [of RHalf] cl [of RDetached] unfolding rlc_sems_ok_def T' all_conj_distrib by blast

lemma rlc_sems_move:
  assumes se: "rlc_sems_ok sems token T t k c"
    and kern: "sems k' = sems k" "token (CompletionSem t) k' \<Longrightarrow> token (CompletionSem t) k \<or> rlc_given c'"
    and T': "completion_reaped T' = completion_reaped T" and given: "rlc_given c \<Longrightarrow> rlc_given c'"
    and client: "r_client c' = (r_client c)(i := q)" "r_client c i \<notin> {RHalf, RDetached}" "q \<notin> {RHalf, RDetached}"
  shows "rlc_sems_ok sems token T' t k' c'"
proof (rule rlc_sems_same [OF se kern T' given])
  show "(\<forall>j. r_client c' j \<noteq> x) = (\<forall>j. r_client c j \<noteq> x)" if "x = RHalf \<or> x = RDetached" for x
    unfolding client(1) by (rule fun_upd_all) (use client(2,3) that in auto)
qed

lemma rlc_sems_step:
  assumes inv: "rlc_inv sems token t c" and step: "rlc_step R False t c c'"
  shows "rlc_sems_ok sems token (th (r_mem c') t) t (native (kern (r_mem c'))) c'"
proof -
  let ?T = "th (r_mem c) t" and ?k = "native (kern (r_mem c))"
  have ok: "rlc_thread_ok ?T t c" and cl: "rlc_clients_ok ?T c" and se: "rlc_sems_ok sems token ?T t ?k c"
    using inv by (simp_all add: rlc_inv_def)
  note r = rlc_reaper [OF cl]
  from step show ?thesis
  proof cases
    case exits
    then show ?thesis by (intro rlc_sems_same [OF se]) (auto simp: rlc_given_def rlc_sections)
  next
    case (releases s)
    then show ?thesis by (intro rlc_sems_same [OF se]) (auto simp: rlc_given_def release_sems)
  next
    case signals
    then show ?thesis by (intro rlc_sems_same [OF se]) (auto simp: rlc_given_def rlc_sections)
  next
    case (join_waits i s m)
    have m: "completion_reaped (th m t) = completion_reaped ?T" "kern m = kern (r_mem c)"
      using join_waits(3) by (auto simp: rlc_sections split: if_splits option.splits)
    show ?thesis
      by (rule rlc_sems_move [OF se, where i = i and q = RWaiting])
        (use join_waits(1,2) m rlc_moves(1) [of c' c i RWaiting] in \<open>auto simp: rlc_aborting_def\<close>)
  next
    case (join_takes i m)
    have m: "th m = th (r_mem c)" "sems (native (kern m)) = sems ?k"
        "token (CompletionSem t) (native (kern m)) \<Longrightarrow> token (CompletionSem t) ?k"
      using join_takes(3) trytake trytake_sems by (auto simp: call_native_def prod_eq_iff split: if_splits)
    show ?thesis
      by (rule rlc_sems_move [OF se, where i = i and q = RReaping])
        (use join_takes(1,2) m rlc_moves(1) [of c' c i RReaping] in \<open>auto simp: rlc_aborting_def\<close>)
  next
    case (join_gives_up i)
    show ?thesis
      by (rule rlc_sems_move [OF se, where i = i and q = RIdle])
        (use join_gives_up rlc_moves(1) [of c' c i RIdle] in \<open>auto simp: rlc_aborting_def rlc_sections\<close>)
  next
    case (delete_claims i m)
    have m: "completion_reaped (th m t) = completion_reaped ?T" "kern m = kern (r_mem c)"
      using delete_claims(3) by (auto simp: rlc_sections split: if_splits)
    show ?thesis
      by (rule rlc_sems_move [OF se, where i = i and q = RReaping])
        (use delete_claims(1,2) m rlc_moves(1) [of c' c i RReaping] in \<open>auto simp: rlc_aborting_def\<close>)
  next
    case (detaches_completion i)
    have w: "rlc_reaping (r_client c i)" using detaches_completion(2) by (simp add: rlc_reaping_def)
    have "r_client c j \<noteq> RDetached" for j
      using r(1) [OF w, of j] detaches_completion(2) by (cases "j = i") (auto simp: rlc_reaping_def)
    then show ?thesis using se r(3) [OF w] detaches_completion(1) by (auto simp: rlc_sems_ok_def sem_detach)
  next
    case (detaches_wait i)
    then show ?thesis using se by (auto simp: rlc_sems_ok_def sem_detach)
  next
    case (reaps i)
    then show ?thesis using se by (auto simp: rlc_sems_ok_def rlc_sections)
  next
    case (cancels r m)
    then have "completion_reaped (th m t) = completion_reaped ?T" "kern m = kern (r_mem c)"
      by (auto simp: rlc_sections split: if_splits)
    then show ?thesis by (intro rlc_sems_same [OF se]) (auto simp: cancels(1) rlc_given_def)
  next
    case (abort_marks i m)
    note mk = rt_abort_marks [OF abort_marks(3)]
    have "r_target c = TRunning" "\<not> r_dead c" using ok mk(1) by (auto simp: rlc_thread_ok_def)
    then show ?thesis
      by (intro rlc_sems_move [OF se, where i = i and q = RMarked])
        (use abort_marks(1,2) mk in \<open>auto simp: rlc_given_def\<close>)
  next
    case (abort_closes i h static m)
    have ab: "rlc_aborting (r_client c i)" using abort_closes by (simp add: rlc_aborting_def)
    have m: "sems (native (kern m)) = sems ?k" "token s (native (kern m)) = token s ?k" for s
      using abort_closes(3) close_sems close_token by (auto simp: rt_abort_native_def call_native_def split: if_splits)
    show ?thesis
      by (rule rlc_sems_move [OF se, where i = i and q = RClosed])
        (use abort_closes(1,2) rt_abort_native_th [OF abort_closes(3)] m rlc_aborter(4) [OF cl ab] in auto)
  next
    case (abort_fails i h static m)
    have ab: "rlc_aborting (r_client c i)" using abort_fails by (simp add: rlc_aborting_def)
    have m: "sems (native (kern m)) = sems ?k" "token s (native (kern m)) = token s ?k" for s
      using abort_fails(3) close_sems close_token by (auto simp: rt_abort_native_def call_native_def split: if_splits)
    show ?thesis
      by (rule rlc_sems_move [OF se, where i = i and q = RIdle])
        (use abort_fails(1,2) rt_abort_native_th [OF abort_fails(3)] m rlc_aborter(4) [OF cl ab] in \<open>auto simp: rlc_sections\<close>)
  next
    case (abort_releases i)
    have ab: "rlc_aborting (r_client c i)" using abort_releases by (simp add: rlc_aborting_def)
    note a = rlc_aborter [OF cl ab]
    note u = rlc_aborter_upd(1) [of i "r_client c", OF a(5), unfolded rlc_aborting_def]
    have "rlc_given c'" using a(1,2) u abort_releases by (simp add: rlc_given_def)
    then show ?thesis
      by (intro rlc_sems_move [OF se, where i = i and q = RReleased])
        (use abort_releases(1,2) in \<open>auto simp: release_sems\<close>)
  next
    case (abort_signals i)
    have ab: "rlc_aborting (r_client c i)" using abort_signals by (simp add: rlc_aborting_def)
    note a = rlc_aborter [OF cl ab]
    note u = rlc_aborter_upd(1) [of i "r_client c", OF a(5), unfolded rlc_aborting_def]
    have "rlc_given c'" using a(1,2) u abort_signals by (simp add: rlc_given_def)
    then show ?thesis
      by (intro rlc_sems_move [OF se, where i = i and q = RIdle])
        (use abort_signals(1,2) in \<open>auto simp: rlc_sections\<close>)
  qed
qed

lemma rlc_reach_inv: "rlc_reach R sems token False t c \<Longrightarrow> rlc_inv sems token t c"
proof (induction rule: rlc_reach.induct)
  case (step c c')
  then show ?case
    using rlc_thread_step rlc_clients_step rlc_sems_step by (simp add: rlc_inv_def [of sems token t c'])
qed (rule rlc_inv_start)

text \<open>The semaphore is there for the client that closed the thread to release.\<close>

lemma rlc_closes_alive:
  assumes "rlc_reach R sems token False t c"
  shows "(r_dead c \<longrightarrow> r_target c = TRunning) \<and> (r_client c i = RClosed \<longrightarrow> CompletionSem t \<in> sems (native (kern (r_mem c))))"
proof -
  have inv: "rlc_inv sems token t c" by (rule rlc_reach_inv [OF assms])
  then have ok: "rlc_thread_ok (th (r_mem c) t) t c" and cl: "rlc_clients_ok (th (r_mem c) t) c"
    and se: "rlc_sems_ok sems token (th (r_mem c) t) t (native (kern (r_mem c))) c" by (simp_all add: rlc_inv_def)
  have "CompletionSem t \<in> sems (native (kern (r_mem c)))" if "r_client c i = RClosed"
  proof -
    have "\<not> rlc_given c" using rlc_aborter(4) [OF cl, of i] that by (simp add: rlc_aborting_def)
    moreover from this have "r_client c k \<noteq> RHalf \<and> r_client c k \<noteq> RDetached" for k
      using rlc_reaper(4) [OF cl, of k] by (auto simp: rlc_reaping_def)
    ultimately show ?thesis using ok se by (auto simp: rlc_thread_ok_def rlc_sems_ok_def)
  qed
  then show ?thesis using ok by (simp add: rlc_thread_ok_def)
qed

end

section \<open>With the window\<close>

text \<open>
  What holds also when the thread runs between the critical section of an abort and the native call:
  everything that joiners and deleters rely on. The thread is over when it has given its semaphore
  or was closed.
\<close>

definition rlc_over :: "('h, 'k) rlc_config \<Rightarrow> bool" where
  "rlc_over c \<longleftrightarrow> r_target c \<in> {TGave, TSignaled} \<or> r_dead c"

definition rlc_flags :: "('h, rt_sem_id) os_thread \<Rightarrow> nat \<Rightarrow> ('h, 'k) rlc_config \<Rightarrow> bool" where
  "rlc_flags T t c \<longleftrightarrow>
     completion_handle T = (if completion_reaped T then None else Some (CompletionSem t))
     \<and> (completion_reaped T \<or> completion_signaled T \<longrightarrow> rlc_over c)
     \<and> (\<forall>i. r_client c i \<in> {RClosed, RReleased} \<longrightarrow> r_dead c)"

definition rlc_reapers :: "('h, rt_sem_id) os_thread \<Rightarrow> ('h, 'k) rlc_config \<Rightarrow> bool" where
  "rlc_reapers T c \<longleftrightarrow>
     (\<forall>i j. rlc_reaping (r_client c i) \<longrightarrow> rlc_reaping (r_client c j) \<longrightarrow> i = j)
     \<and> (join_active T \<longleftrightarrow> (\<exists>i. rlc_reaping (r_client c i)))
     \<and> (\<forall>i. rlc_reaping (r_client c i) \<longrightarrow> \<not> completion_reaped T \<and> (r_client c i \<noteq> RWaiting \<longrightarrow> rlc_over c))"

definition rlc_held ::
  "('k \<Rightarrow> rt_sem_id set) \<Rightarrow> (rt_sem_id \<Rightarrow> 'k \<Rightarrow> bool) \<Rightarrow> ('h, rt_sem_id) os_thread \<Rightarrow> nat \<Rightarrow> 'k \<Rightarrow> ('h, 'k) rlc_config \<Rightarrow> bool" where
  "rlc_held sems token T t k c \<longleftrightarrow>
     (CompletionSem t \<in> sems k \<longleftrightarrow> \<not> completion_reaped T \<and> (\<forall>i. r_client c i \<noteq> RHalf \<and> r_client c i \<noteq> RDetached))
     \<and> (WaitSem t \<in> sems k \<longleftrightarrow> \<not> completion_reaped T \<and> (\<forall>i. r_client c i \<noteq> RDetached))
     \<and> (CompletionSem t \<in> sems k \<longrightarrow> token (CompletionSem t) k \<longrightarrow> rlc_over c)"

definition rlc_base ::
  "('k \<Rightarrow> rt_sem_id set) \<Rightarrow> (rt_sem_id \<Rightarrow> 'k \<Rightarrow> bool) \<Rightarrow> nat \<Rightarrow> ('h, 'k) rlc_config \<Rightarrow> bool" where
  "rlc_base sems token t c \<longleftrightarrow>
     rlc_flags (th (r_mem c) t) t c \<and> rlc_reapers (th (r_mem c) t) c
     \<and> rlc_held sems token (th (r_mem c) t) t (native (kern (r_mem c))) c"

lemmas rlc_base_defs = rlc_base_def rlc_flags_def rlc_reapers_def rlc_held_def

lemma rlc_base_start: "rlc_start sems token t c \<Longrightarrow> rlc_base sems token t c"
  by (simp add: rlc_base_defs rlc_start_def rlc_reaping_def)

text \<open>A step that leaves the joining and deleting clients where they are.\<close>

lemma rlc_base_keep:
  assumes base: "rlc_base sems token t c"
    and over: "rlc_over c \<Longrightarrow> rlc_over c'"
    and T: "completion_handle (th (r_mem c') t) = completion_handle (th (r_mem c) t)"
      "completion_reaped (th (r_mem c') t) = completion_reaped (th (r_mem c) t)"
      "join_active (th (r_mem c') t) = join_active (th (r_mem c) t)"
      "completion_signaled (th (r_mem c') t) \<Longrightarrow> completion_signaled (th (r_mem c) t) \<or> rlc_over c'"
    and k: "sems (native (kern (r_mem c'))) = sems (native (kern (r_mem c)))"
      "token (CompletionSem t) (native (kern (r_mem c'))) \<Longrightarrow>
       token (CompletionSem t) (native (kern (r_mem c))) \<or> rlc_over c'"
    and clients: "\<And>j x. rlc_reaping x \<Longrightarrow> r_client c' j = x \<longleftrightarrow> r_client c j = x"
    and closed: "\<And>j. r_client c' j \<in> {RClosed, RReleased} \<Longrightarrow> r_dead c'"
  shows "rlc_base sems token t c'"
proof -
  have reaping: "rlc_reaping (r_client c' j) = rlc_reaping (r_client c j)" for j
    using clients [of "r_client c j" j] clients [of "r_client c' j" j] by metis
  have waiting: "rlc_reaping (r_client c j) \<Longrightarrow> r_client c' j = RWaiting \<longleftrightarrow> r_client c j = RWaiting" for j
    using clients [of RWaiting j] by (simp add: rlc_reaping_def)
  have late: "r_client c' j = RHalf \<longleftrightarrow> r_client c j = RHalf" "r_client c' j = RDetached \<longleftrightarrow> r_client c j = RDetached" for j
    using clients [of RHalf j] clients [of RDetached j] by (simp_all add: rlc_reaping_def)
  have "rlc_flags (th (r_mem c') t) t c'"
    using base over T(4) closed by (auto simp: rlc_base_def rlc_flags_def T(1,2))
  moreover have "rlc_reapers (th (r_mem c') t) c'"
    using base over waiting unfolding rlc_base_def rlc_reapers_def T(2,3) reaping by blast
  moreover have "rlc_held sems token (th (r_mem c') t) t (native (kern (r_mem c'))) c'"
    using base over k(2) unfolding rlc_base_def rlc_held_def T(2) k(1) late by blast
  ultimately show ?thesis by (simp add: rlc_base_def)
qed

text \<open>A step of the only joining or deleting client.\<close>

lemma rlc_reapers_move:
  assumes others: "\<And>j. j \<noteq> i \<Longrightarrow> \<not> rlc_reaping (r_client c j)" and move: "r_client c' = (r_client c)(i := q)"
    and T': "join_active T' = rlc_reaping q" "rlc_reaping q \<Longrightarrow> \<not> completion_reaped T'"
      "rlc_reaping q \<Longrightarrow> q \<noteq> RWaiting \<Longrightarrow> rlc_over c'"
  shows "rlc_reapers T' c'"
proof -
  have "rlc_reaping (r_client c' j) \<longleftrightarrow> j = i \<and> rlc_reaping q" for j using others [of j] by (simp add: move)
  then show ?thesis using T' by (auto simp: rlc_reapers_def move)
qed

lemma rlc_late:
  assumes "\<And>j. j \<noteq> i \<Longrightarrow> \<not> rlc_reaping (f j)" "rlc_reaping x"
  shows "(\<forall>j. (f(i := q)) j \<noteq> x) \<longleftrightarrow> q \<noteq> x" "(\<forall>j. f j \<noteq> x) \<longleftrightarrow> f i \<noteq> x"
  using assms by (metis fun_upd_apply)+

lemma rlc_base_move:
  assumes base: "rlc_base sems token t c"
    and others: "\<And>j. j \<noteq> i \<Longrightarrow> \<not> rlc_reaping (r_client c j)"
    and move: "r_client c' = (r_client c)(i := q)" "r_target c' = r_target c" "r_dead c' = r_dead c"
      "r_client c i \<notin> {RClosed, RReleased}" "q \<notin> {RClosed, RReleased}"
    and T: "completion_handle (th (r_mem c') t) = completion_handle (th (r_mem c) t)"
      "completion_reaped (th (r_mem c') t) = completion_reaped (th (r_mem c) t)"
      "completion_signaled (th (r_mem c') t) = completion_signaled (th (r_mem c) t)"
      "join_active (th (r_mem c') t) = rlc_reaping q" "rlc_reaping q \<Longrightarrow> \<not> completion_reaped (th (r_mem c) t)"
      "rlc_reaping q \<Longrightarrow> q \<noteq> RWaiting \<Longrightarrow> rlc_over c"
    and k: "rlc_held sems token (th (r_mem c) t) t (native (kern (r_mem c'))) c'"
  shows "rlc_base sems token t c'"
proof -
  have over: "rlc_over c' = rlc_over c" by (simp add: rlc_over_def move(2,3))
  have "r_client c' j \<in> {RClosed, RReleased} \<Longrightarrow> r_client c j \<in> {RClosed, RReleased}" for j
    using move(5) by (cases "j = i") (simp_all add: move(1))
  then have "rlc_flags (th (r_mem c') t) t c'"
    using base unfolding rlc_base_def rlc_flags_def over T(1-3) move(3) by blast
  moreover have "rlc_reapers (th (r_mem c') t) c'"
    using T(5,6) by (intro rlc_reapers_move [OF others move(1)]) (simp_all add: T(2,4) over)
  ultimately show ?thesis using k by (simp add: rlc_base_def rlc_held_def T(2))
qed

lemma rlc_base_reaper:
  assumes "rlc_base sems token t c"
  shows "rlc_reaping (r_client c i) \<Longrightarrow> j \<noteq> i \<Longrightarrow> \<not> rlc_reaping (r_client c j)"
    and "\<not> join_active (th (r_mem c) t) \<Longrightarrow> \<not> rlc_reaping (r_client c j)"
    and "rlc_reaping (r_client c i) \<Longrightarrow> \<not> completion_reaped (th (r_mem c) t) \<and> join_active (th (r_mem c) t)"
    and "rlc_reaping (r_client c i) \<Longrightarrow> r_client c i \<noteq> RWaiting \<Longrightarrow> rlc_over c"
  using assms unfolding rlc_base_def rlc_reapers_def by blast+

text \<open>A joining or deleting client that detaches nothing keeps the semaphores.\<close>

lemma rlc_held_move:
  assumes "rlc_held sems token T t k c" "\<And>j. j \<noteq> i \<Longrightarrow> \<not> rlc_reaping (r_client c j)"
    and "r_client c' = (r_client c)(i := q)" "r_client c i \<notin> {RHalf, RDetached}" "q \<notin> {RHalf, RDetached}"
    and "rlc_over c' = rlc_over c" "sems k' = sems k" "token (CompletionSem t) k' \<Longrightarrow> token (CompletionSem t) k"
  shows "rlc_held sems token T t k' c'"
proof -
  have "(\<forall>j. r_client c' j \<noteq> x) = (\<forall>j. r_client c j \<noteq> x)" if "x = RHalf \<or> x = RDetached" for x
    unfolding assms(3) by (rule fun_upd_all) (use assms(4,5) that in auto)
  then show ?thesis using assms(1,6-8) unfolding rlc_held_def all_conj_distrib by blast
qed

context rt_kernel_end
begin

lemma rlc_base_step:
  assumes base: "rlc_base sems token t c" and step: "rlc_step R window t c c'"
  shows "rlc_base sems token t c'"
proof -
  let ?T = "th (r_mem c) t" and ?k = "native (kern (r_mem c))"
  have fl: "rlc_flags ?T t c" and held: "rlc_held sems token ?T t ?k c" using base by (simp_all add: rlc_base_def)
  note r = rlc_base_reaper [OF base]
  note closed = fl [unfolded rlc_flags_def, THEN conjunct2, THEN conjunct2, rule_format]
  from step show ?thesis
  proof cases
    case exits
    then show ?thesis using closed by (intro rlc_base_keep [OF base]) (auto simp: rlc_over_def rlc_sections)
  next
    case (releases s)
    then show ?thesis using closed by (intro rlc_base_keep [OF base]) (auto simp: rlc_over_def release_sems)
  next
    case signals
    then show ?thesis using closed by (intro rlc_base_keep [OF base]) (auto simp: rlc_over_def rlc_sections)
  next
    case (join_waits i s m)
    have T: "\<not> join_active ?T" "\<not> completion_reaped ?T" "m = upd_th t (\<lambda>T. T\<lparr>join_active := True\<rparr>) (r_mem c)"
      using join_waits(3) by (auto simp: join_section_def split: if_splits option.splits)
    show ?thesis using join_waits(1,2) T r(2)
      by (intro rlc_base_move [OF base, where i = i and q = RWaiting] rlc_held_move [OF held, where i = i and q = RWaiting])
        (auto simp: rlc_reaping_def rlc_over_def upd_th_def)
  next
    case (join_takes i m)
    have m: "th m = th (r_mem c)" "sems (native (kern m)) = sems ?k" "token (CompletionSem t) ?k"
        "token (CompletionSem t) (native (kern m)) \<Longrightarrow> token (CompletionSem t) ?k"
      using join_takes(3) trytake trytake_sems by (auto simp: call_native_def prod_eq_iff split: if_splits)
    have w: "rlc_reaping (r_client c i)" using join_takes(2) by (simp add: rlc_reaping_def)
    have "r_client c j \<noteq> RHalf \<and> r_client c j \<noteq> RDetached" for j
      using r(1) [OF w, of j] join_takes(2) by (cases "j = i") (auto simp: rlc_reaping_def)
    then have "rlc_over c" using held m(3) r(3) [OF w] by (auto simp: rlc_held_def)
    then show ?thesis using join_takes(1,2) m r(3) [OF w]
      by (intro rlc_base_move [OF base r(1) [OF w], where q = RReaping] rlc_held_move [OF held r(1) [OF w], where q = RReaping])
        (auto simp: rlc_reaping_def rlc_over_def)
  next
    case (join_gives_up i)
    have w: "rlc_reaping (r_client c i)" using join_gives_up(2) by (simp add: rlc_reaping_def)
    show ?thesis using join_gives_up
      by (intro rlc_base_move [OF base r(1) [OF w], where q = RIdle] rlc_held_move [OF held r(1) [OF w], where q = RIdle])
        (auto simp: rlc_reaping_def rlc_over_def rlc_sections)
  next
    case (delete_claims i m)
    have T: "\<not> join_active ?T" "\<not> completion_reaped ?T" "completion_signaled ?T"
        "m = upd_th t (\<lambda>T. T\<lparr>join_active := True\<rparr>) (r_mem c)"
      using delete_claims(3) by (auto simp: delete_section_def split: if_splits)
    then have "rlc_over c" using fl by (simp add: rlc_flags_def)
    then show ?thesis using delete_claims(1,2) T r(2)
      by (intro rlc_base_move [OF base, where i = i and q = RReaping] rlc_held_move [OF held, where i = i and q = RReaping])
        (auto simp: rlc_reaping_def rlc_over_def upd_th_def)
  next
    case (detaches_completion i)
    have w: "rlc_reaping (r_client c i)" using detaches_completion(2) by (simp add: rlc_reaping_def)
    have "r_client c j \<noteq> RDetached" for j
      using r(1) [OF w, of j] detaches_completion(2) by (cases "j = i") (auto simp: rlc_reaping_def)
    then show ?thesis using detaches_completion held r(3,4) [OF w]
      by (intro rlc_base_move [OF base r(1) [OF w], where q = RHalf])
        (auto simp: rlc_reaping_def rlc_held_def sem_detach)
  next
    case (detaches_wait i)
    have w: "rlc_reaping (r_client c i)" using detaches_wait(2) by (simp add: rlc_reaping_def)
    show ?thesis using detaches_wait held r(3,4) [OF w]
      by (intro rlc_base_move [OF base r(1) [OF w], where q = RDetached])
        (auto simp: rlc_reaping_def rlc_held_def sem_detach)
  next
    case (reaps i)
    have w: "rlc_reaping (r_client c i)" using reaps(2) by (simp add: rlc_reaping_def)
    have over: "rlc_over c'" using r(4) [OF w] reaps by (simp add: rlc_over_def)
    have "rlc_reapers (th (r_mem c') t) c'"
      by (rule rlc_reapers_move [OF r(1) [OF w]]) (use reaps in \<open>auto simp: rlc_reaping_def rlc_sections\<close>)
    moreover have "rlc_held sems token (th (r_mem c') t) t (native (kern (r_mem c'))) c'"
      using held reaps by (auto simp: rlc_held_def rlc_sections)
    moreover have "rlc_flags (th (r_mem c') t) t c'"
      using fl over reaps by (auto simp: rlc_flags_def rlc_sections)
    ultimately show ?thesis by (simp add: rlc_base_def)
  next
    case (cancels x m)
    then show ?thesis using closed
      by (intro rlc_base_keep [OF base]) (auto simp: rlc_over_def rlc_sections split: if_splits)
  next
    case (abort_marks i m)
    then show ?thesis using closed rt_abort_marks [OF abort_marks(3)]
      by (intro rlc_base_keep [OF base]) (auto simp: rlc_over_def rlc_reaping_def split: if_splits)
  next
    case (abort_closes i h static m)
    have m: "sems (native (kern m)) = sems ?k" "token s (native (kern m)) = token s ?k" for s
      using abort_closes(3) close_sems close_token by (auto simp: rt_abort_native_def call_native_def split: if_splits)
    show ?thesis using abort_closes(1,2) closed rt_abort_native_th [OF abort_closes(3)] m
      by (intro rlc_base_keep [OF base]) (auto simp: rlc_over_def rlc_reaping_def split: if_splits)
  next
    case (abort_fails i h static m)
    have m: "sems (native (kern m)) = sems ?k" "token s (native (kern m)) = token s ?k" for s
      using abort_fails(3) close_sems close_token by (auto simp: rt_abort_native_def call_native_def split: if_splits)
    show ?thesis using abort_fails(1,2) closed rt_abort_native_th [OF abort_fails(3)] m
      by (intro rlc_base_keep [OF base]) (auto simp: rlc_over_def rlc_reaping_def rlc_sections split: if_splits)
  next
    case (abort_releases i)
    then show ?thesis using closed [of i] closed
      by (intro rlc_base_keep [OF base]) (auto simp: rlc_over_def rlc_reaping_def release_sems split: if_splits)
  next
    case (abort_signals i)
    then show ?thesis using closed [of i] closed
      by (intro rlc_base_keep [OF base]) (auto simp: rlc_over_def rlc_reaping_def rlc_sections split: if_splits)
  qed
qed

lemma rlc_reach_base: "rlc_reach R sems token window t c \<Longrightarrow> rlc_base sems token t c"
  by (induction rule: rlc_reach.induct) (auto intro: rlc_base_start rlc_base_step)

end

section \<open>Runs\<close>

text \<open>A dynamic thread, number 1000 in the reference kernel, just created.\<close>

definition rlc_demo :: "(nat, ref_kernel) rlc_config" where
  "rlc_demo = \<lparr>r_mem = \<lparr>th = (\<lambda>_. os_thread_zero\<lparr>completion_handle := Some (CompletionSem 0), t_handle := Some 1000\<rparr>),
       mx = (\<lambda>_. os_mutex_zero), waits = (\<lambda>_. \<lparr>dn_next = None, dn_prev = None\<rparr>),
       owned = (\<lambda>_. \<lparr>dn_next = None, dn_prev = None\<rparr>),
       kern = \<lparr>name_sequence = 3, native = (ref_kernel_empty 8 0)\<lparr>rk_sems := {WaitSem 0, CompletionSem 0}, rk_threads := {1000}\<rparr>\<rparr>\<rparr>,
     r_target = TRunning, r_dead = False, r_client = (\<lambda>_. RIdle)\<rparr>"

abbreviation ref_rlc_reach :: "bool \<Rightarrow> (nat, ref_kernel) rlc_config \<Rightarrow> bool" where
  "ref_rlc_reach window c \<equiv> rlc_reach ref_rt rk_sems (\<lambda>s k. s \<in> rk_tokens k) window 0 c"

lemma rlc_demo_start: "ref_rlc_reach window rlc_demo"
  by (rule rlc_reach.start) (simp add: rlc_start_def rlc_demo_def os_thread_zero_def ref_kernel_empty_def)

text \<open>The thread ends while client 1, which has nothing to do with it or has marked it as aborted, is at \<open>p\<close>.\<close>

definition rlc_ended :: "(nat, ref_kernel) rlc_config \<Rightarrow> (nat, ref_kernel) rlc_config" where
  "rlc_ended c = c\<lparr>r_mem := signal_section 0 (run_native (rt_sem_release0 ref_rt (CompletionSem 0)) (exit_section 0 (r_mem c))),
     r_target := TSignaled\<rparr>"

lemma rlc_ends:
  assumes "ref_rlc_reach window c" "rlc_runs window c" "r_target c = TRunning"
    "completion_handle (th (r_mem c) 0) = Some (CompletionSem 0)"
  shows "ref_rlc_reach window (rlc_ended c)"
proof -
  let ?c1 = "c\<lparr>r_mem := exit_section 0 (r_mem c), r_target := TCompleted\<rparr>"
  let ?c2 = "?c1\<lparr>r_mem := run_native (rt_sem_release0 ref_rt (CompletionSem 0)) (r_mem ?c1), r_target := TGave\<rparr>"
  let ?c3 = "?c2\<lparr>r_mem := signal_section 0 (r_mem ?c2), r_target := TSignaled\<rparr>"
  have "ref_rlc_reach window ?c1" by (rule rlc_reach.step [OF assms(1) rlc_step.exits]) (use assms in simp_all)
  then have "ref_rlc_reach window ?c2"
    by (rule rlc_reach.step) (rule rlc_step.releases, use assms in \<open>simp_all add: rlc_runs_def rlc_sections\<close>)
  then have "ref_rlc_reach window ?c3"
    by (rule rlc_reach.step) (rule rlc_step.signals, use assms in \<open>simp_all add: rlc_runs_def\<close>)
  moreover have "?c3 = rlc_ended c" by (simp add: rlc_ended_def)
  ultimately show ?thesis by simp
qed

text \<open>Client 0 joins the thread that has ended.\<close>

definition rlc_joined :: "(nat, ref_kernel) rlc_config \<Rightarrow> (nat, ref_kernel) rlc_config" where
  "rlc_joined c =
     (let m1 = upd_th 0 (\<lambda>T. T\<lparr>join_active := True\<rparr>) (r_mem c);
          m2 = snd (call_native (rt_sem_trytake0 ref_rt (CompletionSem 0)) m1);
          m3 = run_native (rt_sem_detach0 ref_rt (WaitSem 0)) (run_native (rt_sem_detach0 ref_rt (CompletionSem 0)) m2)
      in c\<lparr>r_mem := snd (reap_section 0 m3)\<rparr>)"

lemma rlc_reach_to:
  "rlc_reach R sems token window t c \<Longrightarrow> rlc_step R window t c c'' \<Longrightarrow> c'' = c' \<Longrightarrow> rlc_reach R sems token window t c'"
  using rlc_reach.step by blast

lemma rlc_joins:
  assumes "ref_rlc_reach window c" "r_client c 0 = RIdle"
    and T: "completion_handle (th (r_mem c) 0) = Some (CompletionSem 0)" "\<not> completion_reaped (th (r_mem c) 0)"
      "\<not> join_active (th (r_mem c) 0)" "CompletionSem 0 \<in> rk_tokens (native (kern (r_mem c)))"
  shows "ref_rlc_reach window (rlc_joined c)"
proof -
  let ?m1 = "upd_th 0 (\<lambda>T. T\<lparr>join_active := True\<rparr>) (r_mem c)"
  let ?c1 = "c\<lparr>r_mem := ?m1, r_client := (r_client c)(0 := RWaiting)\<rparr>"
  let ?c2 = "?c1\<lparr>r_mem := snd (call_native (rt_sem_trytake0 ref_rt (CompletionSem 0)) ?m1), r_client := (r_client c)(0 := RReaping)\<rparr>"
  let ?c3 = "?c2\<lparr>r_mem := run_native (rt_sem_detach0 ref_rt (CompletionSem 0)) (r_mem ?c2), r_client := (r_client c)(0 := RHalf)\<rparr>"
  let ?c4 = "?c3\<lparr>r_mem := run_native (rt_sem_detach0 ref_rt (WaitSem 0)) (r_mem ?c3), r_client := (r_client c)(0 := RDetached)\<rparr>"
  have "ref_rlc_reach window ?c1"
    by (rule rlc_reach_to [OF assms(1) rlc_step.join_waits [where i = 0 and s = "CompletionSem 0" and m = ?m1]])
      (use assms in \<open>simp_all add: join_section_def\<close>)
  then have "ref_rlc_reach window ?c2"
    by (rule rlc_reach_to [OF _ rlc_step.join_takes [where i = 0]])
      (use T(4) in \<open>simp_all add: call_native_def ref_rt_def\<close>)
  then have "ref_rlc_reach window ?c3"
    by (rule rlc_reach_to [OF _ rlc_step.detaches_completion [where i = 0]]) simp_all
  then have "ref_rlc_reach window ?c4"
    by (rule rlc_reach_to [OF _ rlc_step.detaches_wait [where i = 0]]) simp_all
  then show ?thesis
    by (rule rlc_reach_to [OF _ rlc_step.reaps [where i = 0]]) (use assms(2) in \<open>simp_all add: rlc_joined_def Let_def fun_upd_idem\<close>)
qed

lemma rlc_demo_joined:
  "ref_rlc_reach window (rlc_joined (rlc_ended rlc_demo))"
  "completion_reaped (th (r_mem (rlc_joined (rlc_ended rlc_demo))) 0)"
proof -
  have "ref_rlc_reach window (rlc_ended rlc_demo)"
    by (rule rlc_ends [OF rlc_demo_start]) (simp_all add: rlc_demo_def rlc_runs_def)
  then show "ref_rlc_reach window (rlc_joined (rlc_ended rlc_demo))"
    by (rule rlc_joins) (simp_all add: rlc_ended_def rlc_demo_def rlc_sections ref_rt_def os_thread_zero_def)
  show "completion_reaped (th (r_mem (rlc_joined (rlc_ended rlc_demo))) 0)"
    by (simp add: rlc_joined_def Let_def reap_section_def)
qed

section \<open>Properties\<close>

text \<open>C38: The end of an RT-Thread thread, with any number of clients joining, deleting, cancelling and
  aborting it in any interleaving. The completion semaphore is initialised whenever the thread is about
  to release it, whenever a client waits for it and when a client detaches it; the wait semaphore is
  initialised when it is detached; one client at a time joins or deletes; and a thread that was reaped
  has ended or was closed, and has given both semaphores back. A client that aborts the thread finds the
  completion semaphore initialised for its own release only if the thread does not run between the
  critical section of the abort and the call that closes it (without \<open>window\<close>); then an abort also
  closes the thread before it begins to end.\<close>

theorem rt_thread_reaped_once:
  assumes kernel: "rt_kernel_end R sems token threads" and reach: "rlc_reach R sems token window t c"
  shows "(r_target c = TCompleted \<and> \<not> r_dead c \<or> r_client c i \<in> {RWaiting, RReaping} \<longrightarrow>
         CompletionSem t \<in> sems (native (kern (r_mem c))))
     \<and> (r_target c = TCompleted \<and> \<not> r_dead c \<longrightarrow> completion_handle (th (r_mem c) t) = Some (CompletionSem t))
     \<and> (r_client c i = RHalf \<longrightarrow> WaitSem t \<in> sems (native (kern (r_mem c))))
     \<and> (rlc_reaping (r_client c i) \<and> rlc_reaping (r_client c j) \<longrightarrow> i = j)
     \<and> (completion_reaped (th (r_mem c) t) \<longrightarrow>
         (r_target c \<in> {TGave, TSignaled} \<or> r_dead c) \<and> {WaitSem t, CompletionSem t} \<inter> sems (native (kern (r_mem c))) = {})
     \<and> (\<not> window \<longrightarrow> (r_dead c \<longrightarrow> r_target c = TRunning)
         \<and> (r_client c i = RClosed \<longrightarrow> CompletionSem t \<in> sems (native (kern (r_mem c)))))"
proof -
  have base: "rlc_base sems token t c" by (rule rt_kernel_end.rlc_reach_base [OF kernel reach])
  note r = rlc_base_reaper [OF base]
  have window: "(r_dead c \<longrightarrow> r_target c = TRunning) \<and> (r_client c i = RClosed \<longrightarrow> CompletionSem t \<in> sems (native (kern (r_mem c))))"
    if "\<not> window"
    using reach that by (intro rt_kernel_end.rlc_closes_alive [OF kernel]) simp
  have alive: "CompletionSem t \<in> sems (native (kern (r_mem c))) \<and> completion_handle (th (r_mem c) t) = Some (CompletionSem t)"
    if "\<not> rlc_over c"
  proof -
    have "r_client c k \<noteq> RHalf \<and> r_client c k \<noteq> RDetached" for k using r(4) [of k] that by (auto simp: rlc_reaping_def)
    then show ?thesis using base that by (auto simp: rlc_base_def rlc_flags_def rlc_held_def)
  qed
  have waiting: "CompletionSem t \<in> sems (native (kern (r_mem c)))" if "r_client c i = RWaiting \<or> r_client c i = RReaping"
  proof -
    have w: "rlc_reaping (r_client c i)" using that by (auto simp: rlc_reaping_def)
    have "r_client c k \<noteq> RHalf \<and> r_client c k \<noteq> RDetached" for k
      using r(1) [OF w, of k] that by (cases "k = i") (auto simp: rlc_reaping_def)
    then show ?thesis using base r(3) [OF w] by (auto simp: rlc_base_def rlc_held_def)
  qed
  have half: "WaitSem t \<in> sems (native (kern (r_mem c)))" if "r_client c i = RHalf"
  proof -
    have w: "rlc_reaping (r_client c i)" using that by (auto simp: rlc_reaping_def)
    have "r_client c k \<noteq> RDetached" for k using r(1) [OF w, of k] that by (cases "k = i") (auto simp: rlc_reaping_def)
    then show ?thesis using base r(3) [OF w] by (auto simp: rlc_base_def rlc_held_def)
  qed
  have "rlc_over c \<and> {WaitSem t, CompletionSem t} \<inter> sems (native (kern (r_mem c))) = {}" if "completion_reaped (th (r_mem c) t)"
    using base that by (auto simp: rlc_base_def rlc_flags_def rlc_held_def)
  moreover have "r_target c = TCompleted \<and> \<not> r_dead c \<Longrightarrow> \<not> rlc_over c" by (simp add: rlc_over_def)
  ultimately show ?thesis using alive waiting half window r(1) by (auto simp: rlc_over_def)
qed

theorem rt_thread_reaped_once_witness:
  "{WaitSem 0, CompletionSem 0} \<inter> rk_sems (native (kern (r_mem (rlc_joined (rlc_ended rlc_demo))))) = {}"
  by (rule rt_thread_reaped_once [OF ref_rt_end.rt_kernel_end_axioms rlc_demo_joined(1), where i = 0 and j = 0,
        THEN conjunct2, THEN conjunct2, THEN conjunct2, THEN conjunct2, THEN conjunct1, THEN mp, OF rlc_demo_joined(2),
        THEN conjunct2])

text \<open>
  With the window, the thread ends and is joined after an abort marked it: the aborter then closes
  it and releases a semaphore that the joiner has detached.
\<close>

definition rlc_marked :: "(nat, ref_kernel) rlc_config" where
  "rlc_marked = rlc_demo\<lparr>r_mem := upd_th 0 (\<lambda>T. T\<lparr>cancel_requested := True, aborted := True, completed := True,
       t_state := OS_THREAD_TERMINATED\<rparr>) (r_mem rlc_demo), r_client := (\<lambda>_. RIdle)(1 := RMarked)\<rparr>"

lemma abort_releases_detached:
  "\<exists>c. ref_rlc_reach True c \<and> r_client c 1 = RClosed \<and> CompletionSem 0 \<notin> rk_sems (native (kern (r_mem c)))"
proof -
  let ?c = "rlc_joined (rlc_ended rlc_marked)"
  have "ref_rlc_reach True rlc_marked"
    by (rule rlc_reach_to [OF rlc_demo_start rlc_step.abort_marks [where i = 1]])
      (simp_all add: rlc_marked_def rlc_demo_def rt_abort_section_def os_thread_zero_def)
  then have "ref_rlc_reach True (rlc_ended rlc_marked)"
    by (rule rlc_ends) (simp_all add: rlc_marked_def rlc_demo_def rlc_runs_def)
  then have reach: "ref_rlc_reach True ?c"
    by (rule rlc_joins) (simp_all add: rlc_ended_def rlc_marked_def rlc_demo_def rlc_sections ref_rt_def os_thread_zero_def)
  let ?m = "snd (rt_abort_native ref_rt 1000 False (r_mem ?c))"
  have close: "rt_abort_native ref_rt 1000 False (r_mem ?c) = (True, ?m)"
    by (simp add: rt_abort_native_def call_native_def ref_rt_def ref_drop_def rlc_joined_def Let_def rlc_ended_def
        rlc_marked_def rlc_demo_def rlc_sections run_native_def)
  have gone: "CompletionSem 0 \<notin> rk_sems (native (kern ?m))"
    by (simp add: rt_abort_native_def call_native_def ref_rt_def ref_drop_def rlc_joined_def Let_def rlc_ended_def
        rlc_marked_def rlc_demo_def rlc_sections run_native_def)
  have "r_client ?c 1 = RMarked" by (simp add: rlc_joined_def Let_def rlc_ended_def rlc_marked_def)
  then have "ref_rlc_reach True (?c\<lparr>r_mem := ?m, r_dead := True, r_client := (r_client ?c)(1 := RClosed)\<rparr>)"
    by (rule rlc_reach.step [OF reach rlc_step.abort_closes [OF _ close]])
  moreover have "r_client (c\<lparr>r_mem := m, r_dead := True, r_client := f(1 := RClosed)\<rparr>) 1 = RClosed"
    "r_mem (c\<lparr>r_mem := m, r_dead := True, r_client := f(1 := RClosed)\<rparr>) = m" for c :: "(nat, ref_kernel) rlc_config" and m f
    by simp_all
  ultimately show ?thesis using gone by metis
qed

end
