(* ===== verification/Portable.thy ===== *)
theory Portable
  imports Message_Queue Fifo Mem_Slab Signal Sem_Zephyr
begin

text \<open>
  The common layer as a whole. A client uses message queues, FIFOs, a memory slab and signals
  together, mixing threads and interrupt handlers, without waiting; all of them stand on the one
  semaphore implementation that the build selects. The theory shows that the client cannot tell
  the FreeRTOS, the RT-Thread and the Zephyr build apart: the calls return the same results.
\<close>

section \<open>The client's objects\<close>

record 's objects =
  ob_msgqs :: "'s os_msgq list"
  ob_fifos :: "(nat, nat, 's) fifo_mem"
  ob_slab :: "'s os_mem_slab"
  ob_mem :: words
  ob_signals :: "'s os_signal list"

text \<open>The arguments of the init calls: buffer, message size and capacity of each queue, the FIFOs,
  address, block size and block count of the slab, its storage, the number of signals.\<close>

record config =
  cf_msgqs :: "(u8 list \<times> size_t \<times> u32) list"
  cf_fifos :: "nat list"
  cf_slab :: "u32 \<times> size_t \<times> u32"
  cf_mem :: words
  cf_signals :: nat

text \<open>The client's storage is zeroed before the init calls. A failed init ends the start.\<close>

fun msgqs_start :: "'s sem_ops \<Rightarrow> (u8 list \<times> size_t \<times> u32) list \<Rightarrow> 's os_msgq list option" where
  "msgqs_start S [] = Some []"
| "msgqs_start S ((buf, sz, cap) # cs) =
     (case os_msgq_init S False (Some (os_msgq_zero S)) (Some buf) sz cap of
        (r, Some q) \<Rightarrow> if r = 0 then map_option ((#) q) (msgqs_start S cs) else None
      | _ \<Rightarrow> None)"

fun signals_start :: "'s sem_ops \<Rightarrow> nat \<Rightarrow> 's os_signal list option" where
  "signals_start S 0 = Some []"
| "signals_start S (Suc k) =
     (case os_signal_init S (Some (os_signal_zero S)) of
        (r, Some g) \<Rightarrow> if r = 0 then map_option ((#) g) (signals_start S k) else None
      | _ \<Rightarrow> None)"

definition zeroed_fifos :: "'s sem_ops \<Rightarrow> (nat, nat, 's) fifo_mem" where
  "zeroed_fifos S = \<lparr>fm_heap = \<lambda>_. null_dnode, fm_fifo = \<lambda>_. os_fifo_zero S, fm_queued = \<lambda>_. False\<rparr>"

definition slab_start :: "'s sem_ops \<Rightarrow> u32 \<times> size_t \<times> u32 \<Rightarrow> words \<Rightarrow> ('s os_mem_slab \<times> words) option" where
  "slab_start S cfg mem =
     (case cfg of (buffer, bsize, n) \<Rightarrow>
        case os_mem_slab_init S (Some (os_mem_slab_zero S)) buffer bsize n mem of
          Some (r, Some q, mem') \<Rightarrow> if r = 0 then Some (q, mem') else None
        | _ \<Rightarrow> None)"

definition objects_start :: "'s sem_ops \<Rightarrow> config \<Rightarrow> 's objects option" where
  "objects_start S cfg = do {
     qs \<leftarrow> msgqs_start S (cf_msgqs cfg);
     ff \<leftarrow> fifo_init_all S (cf_fifos cfg) (zeroed_fifos S);
     (q, mem) \<leftarrow> slab_start S (cf_slab cfg) (cf_mem cfg);
     gs \<leftarrow> signals_start S (cf_signals cfg);
     Some \<lparr>ob_msgqs = qs, ob_fifos = ff, ob_slab = q, ob_mem = mem, ob_signals = gs\<rparr>
   }"

section \<open>Calls\<close>

datatype object_op = OnMsgq nat mq_op | OnFifo "(nat, nat) ff_op" | OnSlab slab_op | OnSignal nat signal_op

datatype object_result =
    FromMsgq "int \<times> u8 list" | FromFifo "int \<times> nat option" | FromSlab "int \<times> u32"
  | FromSignal "int \<times> int option"

text \<open>A call is made by a thread or, when the flag is set, by an interrupt handler.\<close>

fun object_call ::
  "'s sem_ops \<Rightarrow> bool \<times> object_op \<Rightarrow> 's objects \<Rightarrow> (object_result \<times> 's objects) option" where
  "object_call S (isr, OnMsgq i c) s =
     (if i < length (ob_msgqs s)
      then map_option (\<lambda>(r, q). (FromMsgq r, s\<lparr>ob_msgqs := (ob_msgqs s)[i := q]\<rparr>)) (msgq_call S isr (ob_msgqs s ! i) c)
      else None)"
| "object_call S (isr, OnFifo c) s =
     map_option (\<lambda>(r, m). (FromFifo r, s\<lparr>ob_fifos := m\<rparr>)) (fifo_call S isr (ob_fifos s) c)"
| "object_call S (isr, OnSlab c) s =
     map_option (\<lambda>(r, q, mem). (FromSlab r, s\<lparr>ob_slab := q, ob_mem := mem\<rparr>)) (slab_call S isr (ob_slab s) (ob_mem s) c)"
| "object_call S (isr, OnSignal i c) s =
     (if i < length (ob_signals s)
      then map_option (\<lambda>(r, g). (FromSignal r, s\<lparr>ob_signals := (ob_signals s)[i := g]\<rparr>))
             (signal_call S isr (ob_signals s ! i) c)
      else None)"

fun objects_run ::
  "'s sem_ops \<Rightarrow> (bool \<times> object_op) list \<Rightarrow> 's objects \<Rightarrow> (object_result list \<times> 's objects) option" where
  "objects_run S [] s = Some ([], s)"
| "objects_run S (c # cs) s = do {
     (r, s) \<leftarrow> object_call S c s;
     (rs, s) \<leftarrow> objects_run S cs s;
     Some (r # rs, s)
   }"

section \<open>The abstract objects\<close>

text \<open>Capacity, message size and contents of each queue, the queues of nodes, the free list, the
  pending result of each signal.\<close>

record abstract =
  ab_msgqs :: "(nat \<times> nat \<times> u8 list list) list"
  ab_fifos :: "nat \<Rightarrow> nat list"
  ab_slab :: "u32 list"
  ab_signals :: "int option list"

definition config_blocks :: "config \<Rightarrow> u32 list" where
  "config_blocks cfg = (case cf_slab cfg of (buffer, bsize, n) \<Rightarrow> map (\<lambda>i. buffer + of_nat i * bsize) [0..<unat n])"

definition abstract_start :: "config \<Rightarrow> abstract" where
  "abstract_start cfg =
     \<lparr>ab_msgqs = map (\<lambda>(buf, sz, cap). (unat cap, unat sz, [])) (cf_msgqs cfg), ab_fifos = \<lambda>_. [],
      ab_slab = config_blocks cfg, ab_signals = replicate (cf_signals cfg) None\<rparr>"

fun abstract_call :: "config \<Rightarrow> object_op \<Rightarrow> abstract \<Rightarrow> object_result \<times> abstract" where
  "abstract_call cfg (OnMsgq i c) a =
     (case ab_msgqs a ! i of (cap, sz, xs) \<Rightarrow>
        case bq_call cap sz xs c of (r, ys) \<Rightarrow> (FromMsgq r, a\<lparr>ab_msgqs := (ab_msgqs a)[i := (cap, sz, ys)]\<rparr>))"
| "abstract_call cfg (OnFifo c) a =
     (case fq_call (cf_fifos cfg) (ab_fifos a) c of (r, xs) \<Rightarrow> (FromFifo r, a\<lparr>ab_fifos := xs\<rparr>))"
| "abstract_call cfg (OnSlab c) a =
     (case free_list_call (config_blocks cfg) (ab_slab a) c of (r, xs) \<Rightarrow> (FromSlab r, a\<lparr>ab_slab := xs\<rparr>))"
| "abstract_call cfg (OnSignal i c) a =
     (case mailbox_call (ab_signals a ! i) c of (r, p) \<Rightarrow> (FromSignal r, a\<lparr>ab_signals := (ab_signals a)[i := p]\<rparr>))"

fun abstract_run :: "config \<Rightarrow> object_op list \<Rightarrow> abstract \<Rightarrow> object_result list \<times> abstract" where
  "abstract_run cfg [] a = ([], a)"
| "abstract_run cfg (c # cs) a =
     (let (r, a) = abstract_call cfg c a; (rs, a) = abstract_run cfg cs a in (r # rs, a))"

text \<open>What the client owes: storage as large as it says, calls on objects that exist, message
  buffers of the message size, writes to blocks that it holds.\<close>

definition config_ok :: "config \<Rightarrow> bool" where
  "config_ok cfg \<longleftrightarrow>
     (\<forall>(buf, sz, cap) \<in> set (cf_msgqs cfg). unat cap * unat sz \<le> length buf)
     \<and> (case cf_slab cfg of (buffer, bsize, n) \<Rightarrow> slab_storage buffer bsize n (cf_mem cfg))"

fun op_ok :: "config \<Rightarrow> abstract \<Rightarrow> object_op \<Rightarrow> bool" where
  "op_ok cfg a (OnMsgq i c) = (i < length (ab_msgqs a) \<and> call_fits (fst (snd (ab_msgqs a ! i))) c)"
| "op_ok cfg a (OnFifo c) = ff_op_on (set (cf_fifos cfg)) c"
| "op_ok cfg a (OnSlab c) = slab_op_ok (config_blocks cfg) (ab_slab a) c"
| "op_ok cfg a (OnSignal i c) = (i < length (ab_signals a))"

fun ops_ok :: "config \<Rightarrow> abstract \<Rightarrow> object_op list \<Rightarrow> bool" where
  "ops_ok cfg a [] = True"
| "ops_ok cfg a (c # cs) = (op_ok cfg a c \<and> ops_ok cfg (snd (abstract_call cfg c a)) cs)"

section \<open>One semaphore contract, one behaviour\<close>

context os_sem_contract begin

definition msgq_is :: "'s os_msgq \<Rightarrow> nat \<times> nat \<times> u8 list list \<Rightarrow> bool" where
  "msgq_is q e \<longleftrightarrow> mq_inv q \<and> e = (unat (capacity q), unat (message_size q), msgq_contents q)"

definition signal_is :: "'s os_signal \<Rightarrow> int option \<Rightarrow> bool" where
  "signal_is g p \<longleftrightarrow> signal_inv live cnt lim g \<and> pending g = p"

definition objects_are :: "config \<Rightarrow> 's objects \<Rightarrow> abstract \<Rightarrow> bool" where
  "objects_are cfg s a \<longleftrightarrow>
     list_all2 msgq_is (ob_msgqs s) (ab_msgqs a) \<and> ff_inv (set (cf_fifos cfg)) (ab_fifos a) (ob_fifos s)
     \<and> sl_inv (ab_slab a) (ob_slab s) (ob_mem s) \<and> slab_blocks (ob_slab s) = config_blocks cfg
     \<and> list_all2 signal_is (ob_signals s) (ab_signals a)"

lemma msgqs_start_are:
  assumes "msgqs_start S cs = Some qs" "\<forall>(buf, sz, cap) \<in> set cs. unat cap * unat sz \<le> length buf"
  shows "list_all2 msgq_is qs (map (\<lambda>(buf, sz, cap). (unat cap, unat sz, [])) cs)"
  using assms
proof (induction cs arbitrary: qs)
  case (Cons c cs)
  obtain buf sz cap where c: "c = (buf, sz, cap)" by (metis prod_cases3)
  obtain q qs' where q: "os_msgq_init S False (Some (os_msgq_zero S)) (Some buf) sz cap = (0, Some q)"
      and rest: "msgqs_start S cs = Some qs'" "qs = q # qs'"
    using Cons.prems(1) by (auto simp: c split: prod.splits option.splits if_splits)
  with Cons.IH [OF rest(1)] Cons.prems(2) msgq_init_inv [OF q] show ?case
    by (auto simp: msgq_is_def c)
qed simp

lemma signals_start_are:
  "signals_start S k = Some gs \<Longrightarrow> list_all2 signal_is gs (replicate k None)"
proof (induction k arbitrary: gs)
  case (Suc k)
  then show ?case
    by (auto simp: signal_is_def dest!: signal_init_inv split: prod.splits option.splits if_splits)
qed simp

lemma slab_start_is:
  assumes "slab_start S (cf_slab cfg) mem = Some (q, mem')"
    and "case cf_slab cfg of (buffer, bsize, n) \<Rightarrow> slab_storage buffer bsize n mem"
  shows "sl_inv (config_blocks cfg) q mem' \<and> slab_blocks q = config_blocks cfg"
proof -
  obtain buffer bsize n where cfg: "cf_slab cfg = (buffer, bsize, n)" by (cases "cf_slab cfg")
  have init: "os_mem_slab_init S (Some (os_mem_slab_zero S)) buffer bsize n mem = Some (0, Some q, mem')"
    using assms(1) by (auto simp: slab_start_def cfg split: option.splits if_splits)
  obtain e av where "sem_init S (available (os_mem_slab_zero S)) n n = (e, av)" by fastforce
  with init have "slab_blocks q = config_blocks cfg"
    by (auto simp: os_mem_slab_init_def bind_eq_Some_conv Let_def slab_blocks_def slab_block_def config_blocks_def cfg
        split: if_splits prod.splits)
  then show ?thesis using slab_init_inv [OF init] assms(2) by (simp add: cfg)
qed

lemma objects_start_are:
  assumes start: "objects_start S cfg = Some s" and ok: "config_ok cfg"
  shows "objects_are cfg s (abstract_start cfg)"
proof -
  obtain qs ff q mem gs where
      *: "msgqs_start S (cf_msgqs cfg) = Some qs" "fifo_init_all S (cf_fifos cfg) (zeroed_fifos S) = Some ff"
        "slab_start S (cf_slab cfg) (cf_mem cfg) = Some (q, mem)" "signals_start S (cf_signals cfg) = Some gs"
      and s: "s = \<lparr>ob_msgqs = qs, ob_fifos = ff, ob_slab = q, ob_mem = mem, ob_signals = gs\<rparr>"
    using start by (auto simp: objects_start_def bind_eq_Some_conv)
  have "\<not> fm_queued (zeroed_fifos S) n" for n by (simp add: zeroed_fifos_def)
  with * ok show ?thesis
    by (simp add: objects_are_def s abstract_start_def config_ok_def msgqs_start_are signals_start_are
        slab_start_is fifo_init_all_start)
qed

lemma object_call_refines:
  assumes are: "objects_are cfg s a" and ok: "op_ok cfg a c"
  shows "\<exists>s'. object_call S (isr, c) s = Some (fst (abstract_call cfg c a), s')
     \<and> objects_are cfg s' (snd (abstract_call cfg c a))"
proof (cases c)
  case (OnMsgq i m)
  obtain cap sz xs where e: "ab_msgqs a ! i = (cap, sz, xs)" by (metis prod_cases3)
  have i: "i < length (ab_msgqs a)" "length (ob_msgqs s) = length (ab_msgqs a)"
    using ok are OnMsgq by (auto simp: objects_are_def dest: list_all2_lengthD)
  then have q: "msgq_is (ob_msgqs s ! i) (cap, sz, xs)"
    using are list_all2_nthD2 [of msgq_is "ob_msgqs s" "ab_msgqs a" i] by (simp add: objects_are_def e)
  obtain r ys where r: "bq_call cap sz xs m = (r, ys)" by fastforce
  have "call_fits sz m" using ok by (simp add: OnMsgq e)
  with q r obtain q' where "msgq_call S isr (ob_msgqs s ! i) m = Some (r, q')" "msgq_is q' (cap, sz, ys)"
    using msgq_call_refines [of "ob_msgqs s ! i" m r ys isr] by (auto simp: msgq_is_def)
  with are i show ?thesis
    by (simp add: OnMsgq e r objects_are_def list_all2_update_cong)
next
  case (OnFifo m)
  obtain ff where "fifo_call S isr (ob_fifos s) m = Some (fst (fq_call (cf_fifos cfg) (ab_fifos a) m), ff)"
      "ff_inv (set (cf_fifos cfg)) (snd (fq_call (cf_fifos cfg) (ab_fifos a) m)) ff"
    using are ok OnFifo fifo_call_refines [of "cf_fifos cfg" "ab_fifos a" "ob_fifos s" m isr]
    by (auto simp: objects_are_def)
  with are show ?thesis by (simp add: OnFifo objects_are_def split_beta)
next
  case (OnSlab m)
  let ?r = "free_list_call (config_blocks cfg) (ab_slab a) m"
  obtain q mem where "slab_call S isr (ob_slab s) (ob_mem s) m = Some (fst ?r, q, mem)"
      "sl_inv (snd ?r) q mem" "slab_blocks q = config_blocks cfg"
    using are ok OnSlab slab_call_refines [of "ab_slab a" "ob_slab s" "ob_mem s" m isr]
    by (auto simp: objects_are_def)
  with are show ?thesis by (simp add: OnSlab objects_are_def split_beta)
next
  case (OnSignal i m)
  have i: "i < length (ab_signals a)" "length (ob_signals s) = length (ab_signals a)"
    using ok are OnSignal by (auto simp: objects_are_def dest: list_all2_lengthD)
  then have g: "signal_is (ob_signals s ! i) (ab_signals a ! i)"
    using are list_all2_nthD2 [of signal_is "ob_signals s" "ab_signals a" i] by (simp add: objects_are_def)
  then obtain g' where "signal_call S isr (ob_signals s ! i) m = Some (fst (mailbox_call (ab_signals a ! i) m), g')"
      "signal_is g' (snd (mailbox_call (ab_signals a ! i) m))"
    using signal_call_refines [of "ob_signals s ! i" isr m] by (auto simp: signal_is_def)
  with are i show ?thesis
    by (simp add: OnSignal objects_are_def list_all2_update_cong split_beta)
qed

lemma objects_run_refines:
  "objects_are cfg s a \<Longrightarrow> ops_ok cfg a (map snd cs) \<Longrightarrow>
   \<exists>s'. objects_run S cs s = Some (fst (abstract_run cfg (map snd cs) a), s')
     \<and> objects_are cfg s' (snd (abstract_run cfg (map snd cs) a))"
proof (induction cs arbitrary: s a)
  case (Cons c cs)
  obtain isr d where c: "c = (isr, d)" by fastforce
  obtain s1 where s1: "object_call S c s = Some (fst (abstract_call cfg d a), s1)"
      "objects_are cfg s1 (snd (abstract_call cfg d a))"
    using object_call_refines [OF Cons.prems(1), of d isr] Cons.prems(2) by (auto simp: c)
  from Cons.IH [OF s1(2)] Cons.prems(2) s1(1) show ?case by (auto simp: c split_beta)
qed simp

lemma objects_implement:
  assumes "objects_start S cfg = Some s" "config_ok cfg" "ops_ok cfg (abstract_start cfg) (map snd cs)"
  shows "\<exists>s'. objects_run S cs s = Some (fst (abstract_run cfg (map snd cs) (abstract_start cfg)), s')"
  using objects_run_refines [OF objects_start_are [OF assms(1,2)] assms(3)] by blast

end


section \<open>What starts\<close>

text \<open>The arguments that the init calls accept, and the limits of the semaphores they ask for.\<close>

definition config_valid :: "config \<Rightarrow> bool" where
  "config_valid cfg \<longleftrightarrow>
     (\<forall>(buf, sz, cap) \<in> set (cf_msgqs cfg). sz \<noteq> 0 \<and> cap \<noteq> 0 \<and> sz \<le> SIZE_MAX div cap)
     \<and> (case cf_slab cfg of (buffer, bsize, n) \<Rightarrow>
          buffer \<noteq> 0 \<and> 4 \<le> bsize \<and> n \<noteq> 0 \<and> buffer mod 4 = 0 \<and> bsize mod 4 = 0 \<and> bsize \<le> SIZE_MAX div n)"

definition limits_within :: "u32 \<Rightarrow> config \<Rightarrow> bool" where
  "limits_within M cfg \<longleftrightarrow> (\<forall>(buf, sz, cap) \<in> set (cf_msgqs cfg). cap \<le> M) \<and> snd (snd (cf_slab cfg)) \<le> M"

text \<open>A kernel that creates every semaphore of a limit up to \<open>M\<close>: all three use storage of the caller,
  so creation is documented to fail for bad arguments only.\<close>

definition sems_created :: "u32 \<Rightarrow> 's sem_ops \<Rightarrow> bool" where
  "sems_created M S \<longleftrightarrow> (\<forall>s i l. l \<noteq> 0 \<and> i \<le> l \<and> l \<le> M \<longrightarrow> (\<exists>s'. sem_init S s i l = (0, s')))"

definition fr_creates :: "'n freertos_sem \<Rightarrow> bool" where
  "fr_creates F \<longleftrightarrow> (\<forall>i l. l \<noteq> 0 \<and> i \<le> l \<longrightarrow> xSemaphoreCreateCountingStatic F l i \<noteq> None)"

definition rt_creates :: "'n rt_sem \<Rightarrow> bool" where
  "rt_creates R \<longleftrightarrow> UINT16_MAX \<le> RT_SEM_VALUE_MAX R
     \<and> (\<forall>i l. i \<le> l \<and> l \<le> RT_SEM_VALUE_MAX R \<longrightarrow>
          fst (rt_sem_init R i) \<and> fst (rt_sem_control_vlimit R (snd (rt_sem_init R i)) l))"

definition zephyr_creates :: "'n zephyr_sem \<Rightarrow> bool" where
  "zephyr_creates Z \<longleftrightarrow> (\<forall>i l. l \<noteq> 0 \<and> i \<le> l \<longrightarrow> fst (k_sem_init Z i l) = 0)"

lemma fr_adapter_creates: "fr_creates F \<Longrightarrow> sems_created M (freertos_sem_ops F)"
  by (auto simp: sems_created_def fr_creates_def freertos_sem_ops_def freertos_os_sem_init_def via_ptr_def not_less
      split: option.splits) (metis option.distinct(1))

lemma rt_adapter_creates:
  assumes "rt_creates R" "M \<le> RT_SEM_VALUE_MAX R"
  shows "sems_created M (rt_sem_ops R)"
  unfolding sems_created_def
proof (intro allI impI, elim conjE)
  fix s :: "'a rt_os_sem" and i l :: u32
  assume l: "l \<noteq> 0" "i \<le> l" "l \<le> M"
  obtain ok n where n: "rt_sem_init R i = (ok, n)" by fastforce
  obtain ok' n' where n': "rt_sem_control_vlimit R n l = (ok', n')" by fastforce
  have "l \<le> RT_SEM_VALUE_MAX R" using l assms(2) by simp
  moreover from this have "fst (rt_sem_init R i) \<and> fst (rt_sem_control_vlimit R (snd (rt_sem_init R i)) l)"
    using assms(1) l(2) by (simp add: rt_creates_def)
  ultimately show "\<exists>s'. sem_init (rt_sem_ops R) s i l = (0, s')"
    using l n n' by (simp add: rt_sem_ops_def rt_os_sem_init_def via_ptr_def not_less)
qed

lemma zephyr_adapter_creates: "zephyr_creates Z \<Longrightarrow> sems_created M (zephyr_sem_ops Z)"
  by (auto simp: sems_created_def zephyr_creates_def zephyr_sem_ops_def zephyr_os_sem_init_def via_ptr_def not_less
      split: prod.splits) (metis fst_conv)

lemmas adapters_create = fr_adapter_creates rt_adapter_creates zephyr_adapter_creates

lemma sems_createdD: "sems_created M S \<Longrightarrow> l \<noteq> 0 \<Longrightarrow> i \<le> l \<Longrightarrow> l \<le> M \<Longrightarrow> \<exists>s'. sem_init S s i l = (0, s')"
  by (simp add: sems_created_def)

lemma msgqs_start_iff:
  assumes "sems_created M S" "\<forall>(buf, sz, cap) \<in> set cs. cap \<le> M"
  shows "msgqs_start S cs \<noteq> None \<longleftrightarrow> (\<forall>(buf, sz, cap) \<in> set cs. sz \<noteq> 0 \<and> cap \<noteq> 0 \<and> sz \<le> SIZE_MAX div cap)"
  using assms(2)
proof (induction cs)
  case (Cons c cs)
  obtain buf sz cap where c: "c = (buf, sz, cap)" by (metis prod_cases3)
  show ?case
  proof (cases "sz = 0 \<or> cap = 0 \<or> sz > SIZE_MAX div cap")
    case False
    obtain e1 e2 where "sem_init S (sem_zero S) 0 cap = (0, e1)" "sem_init S (sem_zero S) cap cap = (0, e2)"
      using sems_createdD [OF assms(1), of cap 0] sems_createdD [OF assms(1), of cap cap] False Cons.prems
      by (fastforce simp: c)
    with False Cons show ?thesis by (auto simp: c os_msgq_init_def os_msgq_zero_def not_less)
  qed (auto simp: c os_msgq_init_def not_le)
qed simp

lemma fifo_inits_start:
  assumes "sems_created M S" "UINT16_MAX \<le> M"
  shows "\<exists>m'. fifo_init_all S qs m = Some m'"
proof (induction qs arbitrary: m)
  case (Cons q qs)
  obtain e where "sem_init S (ff_items (fm_fifo (fifo_zero_at S q m) q)) 0 UINT16_MAX = (0, e)"
    using sems_createdD [OF assms(1), of UINT16_MAX 0] assms(2) by (auto simp: UINT16_MAX_def)
  then have "\<exists>m'. os_fifo_init S (Some q) m = (0, m')" by (auto simp: os_fifo_init_def Let_def)
  with Cons show ?case by auto
qed simp

lemma signals_start_all:
  assumes "sems_created M S" "UINT16_MAX \<le> M"
  shows "\<exists>gs. signals_start S k = Some gs"
proof (induction k)
  case (Suc k)
  have "1 \<le> M" using assms(2) by (rule order_trans [rotated]) (simp add: UINT16_MAX_def)
  then obtain e where "sem_init S (sem_zero S) 0 1 = (0, e)"
    using sems_createdD [OF assms(1), of 1 0] by auto
  with Suc show ?case by (auto simp: os_signal_init_def os_signal_zero_def)
qed simp

lemma slab_start_iff:
  assumes "sems_created M S" "n \<le> M" "slab_storage buffer bsize n mem"
  shows "slab_start S (buffer, bsize, n) mem \<noteq> None \<longleftrightarrow>
    buffer \<noteq> 0 \<and> 4 \<le> bsize \<and> n \<noteq> 0 \<and> buffer mod 4 = 0 \<and> bsize mod 4 = 0 \<and> bsize \<le> SIZE_MAX div n"
proof (cases "buffer = 0 \<or> bsize < 4 \<or> n = 0 \<or> buffer mod 4 \<noteq> 0 \<or> bsize mod 4 \<noteq> 0 \<or> bsize > SIZE_MAX div n")
  case True
  then show ?thesis by (auto simp: slab_start_def os_mem_slab_init_def not_le not_less)
next
  case False
  let ?q = "(os_mem_slab_zero S)\<lparr>slab_buffer := buffer, free_list := buffer, block_size := bsize,
      num_blocks := n, free_blocks := n, slab_initialized := True\<rparr>"
  obtain m where "slab_link_loop buffer bsize n 0 mem = Some m"
    using slab_init_shape [OF _ _ _ _ _ _ _ _ _ assms(3), of ?q] False by (auto simp: not_less)
  moreover obtain e where "sem_init S (sem_zero S) n n = (0, e)"
    using sems_createdD [OF assms(1), of n n] False assms(2) by auto
  ultimately show ?thesis using False by (simp add: slab_start_def os_mem_slab_init_def os_mem_slab_zero_def Let_def not_less)
qed

lemma objects_start_iff:
  assumes "sems_created M S" "UINT16_MAX \<le> M" "limits_within M cfg" "config_ok cfg"
  shows "objects_start S cfg \<noteq> None \<longleftrightarrow> config_valid cfg"
proof -
  obtain buffer bsize n where cfg: "cf_slab cfg = (buffer, bsize, n)" by (cases "cf_slab cfg")
  have "slab_start S (cf_slab cfg) (cf_mem cfg) \<noteq> None \<longleftrightarrow>
      buffer \<noteq> 0 \<and> 4 \<le> bsize \<and> n \<noteq> 0 \<and> buffer mod 4 = 0 \<and> bsize mod 4 = 0 \<and> bsize \<le> SIZE_MAX div n"
    using slab_start_iff [OF assms(1), of n buffer bsize "cf_mem cfg"] assms(3,4)
    by (simp add: cfg limits_within_def config_ok_def)
  moreover have "msgqs_start S (cf_msgqs cfg) \<noteq> None \<longleftrightarrow>
      (\<forall>(buf, sz, cap) \<in> set (cf_msgqs cfg). sz \<noteq> 0 \<and> cap \<noteq> 0 \<and> sz \<le> SIZE_MAX div cap)"
    using msgqs_start_iff [OF assms(1)] assms(3) by (simp add: limits_within_def)
  moreover obtain ff gs where "fifo_init_all S (cf_fifos cfg) (zeroed_fifos S) = Some ff" "signals_start S (cf_signals cfg) = Some gs"
    using fifo_inits_start [OF assms(1,2)] signals_start_all [OF assms(1,2)] by blast
  ultimately show ?thesis
    by (cases "msgqs_start S (cf_msgqs cfg)"; cases "slab_start S (cf_slab cfg) (cf_mem cfg)")
      (auto simp: objects_start_def config_valid_def cfg)
qed

text \<open>The bound on the limits is there for RT-Thread, which refuses a limit above \<open>RT_SEM_VALUE_MAX\<close>
  where FreeRTOS accepts it; \<open>kernel.h\<close> only asks for a limit above zero.\<close>

lemma large_limits_not_portable:
  assumes "fr_creates F" "config_ok cfg" "config_valid cfg"
    and "(buf, sz, cap) \<in> set (cf_msgqs cfg)" "RT_SEM_VALUE_MAX R < cap"
  shows "objects_start (freertos_sem_ops F) cfg \<noteq> None" "objects_start (rt_sem_ops R) cfg = None"
proof -
  have "limits_within (- 1) cfg" by (simp add: limits_within_def)
  with assms(1-3) show "objects_start (freertos_sem_ops F) cfg \<noteq> None"
    by (subst objects_start_iff [OF adapters_create(1)]) simp_all
  have "msgqs_start (rt_sem_ops R) cs = None" if "(buf, sz, cap) \<in> set cs" for cs
    using that
  proof (induction cs)
    case (Cons c cs)
    have "fst (os_msgq_init (rt_sem_ops R) False (Some (os_msgq_zero (rt_sem_ops R))) (Some buf) sz cap) \<noteq> 0"
      using assms(5) by (simp add: os_msgq_init_def rt_sem_ops_def rt_os_sem_init_def via_ptr_def Let_def)
    with Cons show ?case by (cases c) (auto split: prod.splits option.splits)
  qed simp
  with assms(4) show "objects_start (rt_sem_ops R) cfg = None" by (simp add: objects_start_def)
qed

section \<open>Property\<close>

text \<open>C7: The common layer behaves the same on the three kernels, for semaphore limits that all three
  have and calls that do not wait. A program that starts message queues, FIFOs, a slab and signals, with
  capacities up to 65535, and then calls them in any order, from threads and interrupt handlers, is
  refused at the start by the FreeRTOS, the RT-Thread and the Zephyr build or by none of them, on the same
  arguments; when it starts, its calls return the same list of results, whatever the kernels' semaphores
  are inside, and none of the runs leaves the client's storage.\<close>

theorem common_layer_portable:
  assumes "freertos_sem_native F fok fcnt fmax" "rt_sem_native R rok rcnt rmax" "zephyr_sem_native Z zok zcnt zmax"
    and "fr_creates F" "rt_creates R" "zephyr_creates Z"
    and "limits_within UINT16_MAX cfg" "config_ok cfg" "ops_ok cfg (abstract_start cfg) (map snd cs)"
  shows "if config_valid cfg
     then \<exists>rs f r z f' r' z'. objects_start (freertos_sem_ops F) cfg = Some f
       \<and> objects_start (rt_sem_ops R) cfg = Some r \<and> objects_start (zephyr_sem_ops Z) cfg = Some z
       \<and> objects_run (freertos_sem_ops F) cs f = Some (rs, f') \<and> objects_run (rt_sem_ops R) cs r = Some (rs, r')
       \<and> objects_run (zephyr_sem_ops Z) cs z = Some (rs, z')
       \<and> rs = fst (abstract_run cfg (map snd cs) (abstract_start cfg))
     else objects_start (freertos_sem_ops F) cfg = None \<and> objects_start (rt_sem_ops R) cfg = None
       \<and> objects_start (zephyr_sem_ops Z) cfg = None"
proof -
  have "UINT16_MAX \<le> RT_SEM_VALUE_MAX R" using assms(5) by (simp add: rt_creates_def)
  note created = adapters_create(1) [OF assms(4)] adapters_create(2) [OF assms(5) this] adapters_create(3) [OF assms(6)]
  note starts = objects_start_iff [OF created(1) order_refl assms(7,8)]
    objects_start_iff [OF created(2) order_refl assms(7,8)] objects_start_iff [OF created(3) order_refl assms(7,8)]
  note runs = os_sem_contract.objects_implement [OF freertos_sem_native.adapter_contract [OF assms(1)] _ assms(8,9)]
    os_sem_contract.objects_implement [OF rt_sem_native.adapter_contract [OF assms(2)] _ assms(8,9)]
    os_sem_contract.objects_implement [OF zephyr_sem_native.adapter_contract [OF assms(3)] _ assms(8,9)]
  show ?thesis
  proof (cases "config_valid cfg")
    case True
    with starts obtain f r z where "objects_start (freertos_sem_ops F) cfg = Some f"
        "objects_start (rt_sem_ops R) cfg = Some r" "objects_start (zephyr_sem_ops Z) cfg = Some z" by auto
    with runs(1) [of f] runs(2) [of r] runs(3) [of z] True show ?thesis by auto
  qed (use starts in simp)
qed

text \<open>The program of the witness: two queues, two FIFOs, a slab of two blocks and a signal.\<close>

definition client_config :: config where
  "client_config = \<lparr>cf_msgqs = [(replicate 4 0, 2, 2), ([0], 1, 1)], cf_fifos = [0, 1], cf_slab = (0x100, 8, 2),
     cf_mem = ref_storage, cf_signals = 1\<rparr>"

definition client_ops :: "(bool \<times> object_op) list" where
  "client_ops = [(True, OnMsgq 0 (MPut [1, 2])), (False, OnSlab SAlloc), (False, OnFifo (FPut 1 7)),
     (True, OnSignal 0 (SigRaise 5)), (True, OnFifo (FPut 0 7)), (False, OnMsgq 0 (MGet [0, 0])),
     (False, OnMsgq 1 (MGet [9])), (False, OnSignal 0 SigWait), (False, OnSlab (SFree 0x100))]"

definition client_results :: "object_result list" where
  "client_results = [FromMsgq (0, []), FromSlab (0, 0x100), FromFifo (0, None), FromSignal (0, None),
     FromFifo (- EBUSY, None), FromMsgq (0, [1, 2]), FromMsgq (- EBUSY, [9]), FromSignal (0, Some 5),
     FromSlab (0, 0)]"

lemma client_ok: "config_ok client_config"
  by (simp add: config_ok_def client_config_def ref_slab_storage)

lemma client_blocks: "config_blocks client_config = [0x100, 0x108]"
  using upt_rec [of 0 2] upt_rec [of 1 2] by (simp add: config_blocks_def client_config_def)

lemma client_abstract:
  "abstract_start client_config = \<lparr>ab_msgqs = [(2, 2, []), (1, 1, [])], ab_fifos = \<lambda>_. [], ab_slab = [0x100, 0x108],
     ab_signals = [None]\<rparr>"
  "cf_fifos client_config = [0, 1]"
  by (simp add: abstract_start_def client_blocks) (simp_all add: client_config_def)

lemma client_run:
  "ops_ok client_config (abstract_start client_config) (map snd client_ops)"
  "fst (abstract_run client_config (map snd client_ops) (abstract_start client_config)) = client_results"
  by (simp_all add: client_ops_def client_results_def client_abstract client_blocks call_fits_def)

lemma client_valid: "config_valid client_config" "limits_within UINT16_MAX client_config"
  by (simp_all add: config_valid_def limits_within_def client_config_def SIZE_MAX_def UINT16_MAX_def)

lemma client_sems: "fr_creates native_freertos" "rt_creates (native_rt w)" "zephyr_creates native_zephyr"
  by (simp_all add: fr_creates_def rt_creates_def zephyr_creates_def native_freertos_def native_rt_def native_zephyr_def
      UINT16_MAX_def)

theorem common_layer_portable_witness:
  "\<exists>f r z f' r' z'. objects_start (freertos_sem_ops native_freertos) client_config = Some f
     \<and> objects_start (rt_sem_ops (native_rt (\<lambda>_. False))) client_config = Some r
     \<and> objects_start (zephyr_sem_ops native_zephyr) client_config = Some z
     \<and> objects_run (freertos_sem_ops native_freertos) client_ops f = Some (client_results, f')
     \<and> objects_run (rt_sem_ops (native_rt (\<lambda>_. False))) client_ops r = Some (client_results, r')
     \<and> objects_run (zephyr_sem_ops native_zephyr) client_ops z = Some (client_results, z')"
  using common_layer_portable [OF fr.freertos_sem_native_axioms rtn.rt_sem_native_axioms
      zen.zephyr_sem_native_axioms client_sems client_valid(2) client_ok client_run(1)]
  unfolding if_P [OF client_valid(1)] client_run(2) by blast

end
