(* ===== verification/Mutex_Backends.thy ===== *)
theory Mutex_Backends
  imports Mutex_Properties Rt_Mutex
begin

text \<open>
  The FreeRTOS mutex is built by the library out of a list, a counter and critical sections; the
  RT-Thread one wraps a native object. One call at a time and without waiting, both are the
  recursive mutex of \<open>kernel.h\<close>, and a client gets the same return codes from either.
\<close>

section \<open>Calls on FreeRTOS\<close>

text \<open>A call of a thread that does not wait; the thread is the one the kernel runs.\<close>

fun fr_mutex_call ::
  "('h, 's, 'k) fr_tasks \<Rightarrow> nat \<Rightarrow> mutex_call \<Rightarrow> ('h, 's, 'k) osal \<Rightarrow> (int \<times> ('h, 's, 'k) osal) option" where
  "fr_mutex_call K u (MLock t) m = os_mutex_lock K False (\<lambda>_ _ m. (False, m)) (Some u) 0 m"
| "fr_mutex_call K u (MTry t) m = os_mutex_trylock K False (\<lambda>_ _ m. (False, m)) (Some u) m"
| "fr_mutex_call K u (MUnlock t) m = os_mutex_unlock K False (Some u) m"

fun caller :: "mutex_call \<Rightarrow> nat" where
  "caller (MLock t) = t" | "caller (MTry t) = t" | "caller (MUnlock t) = t"

text \<open>\<open>scheduled\<close>: the kernel has switched to thread \<open>t\<close> and changed nothing else that the mutexes
  look at. \<open>fr_calls\<close> runs a list of calls with such a switch before each.\<close>

definition scheduled ::
  "('h, 's, 'k) fr_tasks \<Rightarrow> ('h \<Rightarrow> 'k \<Rightarrow> bool) \<Rightarrow> nat \<Rightarrow> ('h, 's, 'k) osal \<Rightarrow> ('h, 's, 'k) osal \<Rightarrow> bool" where
  "scheduled K live t m m' \<longleftrightarrow>
     (\<exists>k. m' = m\<lparr>kern := k\<rparr> \<and> kernel_same K live (kern m) k) \<and> os_get_current_thread K m' = Some t"

inductive fr_calls ::
  "('h, 's, 'k) fr_tasks \<Rightarrow> ('h \<Rightarrow> 'k \<Rightarrow> bool) \<Rightarrow> nat \<Rightarrow> mutex_call list \<Rightarrow> ('h, 's, 'k) osal \<Rightarrow>
   int list \<Rightarrow> ('h, 's, 'k) osal \<Rightarrow> bool"
  for K live u where
  none: "fr_calls K live u [] m [] m"
| call: "scheduled K live (caller c) m m1 \<Longrightarrow> fr_mutex_call K u c m1 = Some (v, m2) \<Longrightarrow>
    fr_calls K live u cs m2 vs m3 \<Longrightarrow> fr_calls K live u (c # cs) m (v # vs) m3"

inductive_cases fr_calls_NilE: "fr_calls K live u [] m vs m'"
inductive_cases fr_calls_ConsE: "fr_calls K live u (c # cs) m vs m'"

section \<open>The mutex represents a recursive mutex\<close>

fun owner_is :: "os_mutex \<Rightarrow> rec_mutex \<Rightarrow> bool" where
  "owner_is M None = (m_owner M = None)"
| "owner_is M (Some (t, n)) = (m_owner M = Some t \<and> unat (lock_count M) = n \<and> 0 < n)"

definition fr_mutex_rep ::
  "('h, 's, 'k) fr_tasks \<Rightarrow> ('h \<Rightarrow> 'k \<Rightarrow> bool) \<Rightarrow> nat \<Rightarrow> wait_queue set \<Rightarrow> nat set \<Rightarrow> nat \<Rightarrow>
   ('h, 's, 'k) osal \<Rightarrow> rec_mutex \<Rightarrow> bool" where
  "fr_mutex_rep K live maxp Q A u m r \<longleftrightarrow>
     (\<exists>wq ow. sys_ok K live maxp Q A wq ow m) \<and> (\<forall>t \<in> A. wait_q (th m t) = None) \<and> owner_is (mx m u) r"

fun depth :: "rec_mutex \<Rightarrow> nat" where
  "depth None = 0" | "depth (Some (t, n)) = n"

lemma rec_call_depth: "depth (snd (rec_call deepest r c)) \<le> Suc (depth r)"
  by (cases c; cases r) (auto split: prod.splits if_splits)

text \<open>No thread nests its locks deeper than \<open>d\<close>.\<close>

fun nests_within :: "nat \<Rightarrow> rec_mutex \<Rightarrow> mutex_call list \<Rightarrow> bool" where
  "nests_within d r [] = True"
| "nests_within d r (c # cs) =
     (depth (snd (rec_call (Suc d) r c)) \<le> d \<and> nests_within d (snd (rec_call (Suc d) r c)) cs)"

text \<open>A counter that is deep enough for the calls does not show.\<close>

lemma rec_call_deep:
  assumes "depth r \<le> d" "depth (snd (rec_call (Suc d) r c)) \<le> d" "d \<le> e"
  shows "rec_call e r c = rec_call (Suc d) r c"
  using assms by (cases c; cases r) (auto split: if_splits)

lemma nests_within_step:
  assumes "nests_within d r (c # cs)" "depth r \<le> d" "d \<le> e"
  shows "depth (snd (rec_call e r c)) \<le> d" "nests_within d (snd (rec_call e r c)) cs"
  using assms rec_call_deep [of r d c e] by simp_all

lemma rec_run_deep:
  "nests_within d r cs \<Longrightarrow> depth r \<le> d \<Longrightarrow> d \<le> e \<Longrightarrow> d \<le> e' \<Longrightarrow> rec_run e r cs = rec_run e' r cs"
proof (induction cs arbitrary: r)
  case (Cons c cs)
  have "rec_call e r c = rec_call e' r c"
    using Cons.prems rec_call_deep [of r d c e] rec_call_deep [of r d c e'] by simp
  then show ?case using Cons.IH [OF nests_within_step(2,1) [OF Cons.prems(1,2,3)]] Cons.prems(3,4)
    by (simp add: split_beta)
qed simp

lemma rec_run_within:
  "nests_within d r cs \<Longrightarrow> depth r \<le> d \<Longrightarrow> d \<le> e \<Longrightarrow> depth (snd (rec_run e r cs)) \<le> d"
proof (induction cs arbitrary: r)
  case (Cons c cs)
  then show ?case using nests_within_step [OF Cons.prems] by (simp add: split_beta)
qed simp

context fr_kernel begin

lemma scheduled_rep:
  assumes rep: "fr_mutex_rep K live maxp Q A u m r" and s: "scheduled K live t m m'"
  shows "fr_mutex_rep K live maxp Q A u m' r"
proof -
  obtain k where k: "m' = m\<lparr>kern := k\<rparr>" "kernel_same K live (kern m) k" using s by (auto simp: scheduled_def)
  obtain wq ow where sys: "sys_ok K live maxp Q A wq ow m" using rep by (auto simp: fr_mutex_rep_def)
  have "sys_ok K live maxp Q A wq ow m'"
    by (rule sys_ok_outside(1) [OF sys]) (use k lists_okD [OF sys_okD(1) [OF sys]] in simp_all)
  then show ?thesis using rep by (auto simp: fr_mutex_rep_def k)
qed

lemma lock_rep:
  assumes rep: "fr_mutex_rep K live maxp Q A u m r" and t: "t \<in> A" and u: "MutexQueue u \<in> Q"
    and deep: "depth r < 2 ^ 32 - 1"
  shows "\<exists>m'. lock_section K t u 0 start m = Some (LockReturns (fst (rec_call (2 ^ 32 - 1) r (MLock t))), m')
    \<and> fr_mutex_rep K live maxp Q A u m' (snd (rec_call (2 ^ 32 - 1) r (MLock t)))"
proof -
  obtain wq ow where sys: "sys_ok K live maxp Q A wq ow m" using rep by (auto simp: fr_mutex_rep_def)
  have idle: "\<forall>s \<in> A. wait_q (th m s) = None" and own: "owner_is (mx m u) r"
    using rep by (auto simp: fr_mutex_rep_def)
  show ?thesis
  proof (cases r)
    case None
    then have "m_owner (mx m u) = None" using own by simp
    with lock_acquire_ok [OF sys t _ u] idle t obtain h where
      "lock_section K t u 0 start m = Some (LockReturns 0, upd_mx u (\<lambda>M. M\<lparr>m_owner := Some t, lock_count := 1\<rparr>) m\<lparr>owned := h\<rparr>)"
      "sys_ok K live maxp Q A wq (ow(t := ow t @ [u])) (upd_mx u (\<lambda>M. M\<lparr>m_owner := Some t, lock_count := 1\<rparr>) m\<lparr>owned := h\<rparr>)"
      by blast
    with None idle show ?thesis by (auto simp: fr_mutex_rep_def)
  next
    case (Some p)
    then obtain w n where r: "r = Some (w, n)" by (cases p) auto
    have o: "m_owner (mx m u) = Some w" "unat (lock_count (mx m u)) = n" using own r by auto
    show ?thesis
    proof (cases "w = t")
      case True
      have n: "unat (lock_count (mx m u) + 1) = n + 1"
        using deep by (simp add: r unat_word_ariths o(2))
      then have nz: "lock_count (mx m u) + 1 \<noteq> 0" by (metis add_is_0 one_neq_zero unat_0)
      have "m_owner (mx m u) = Some t" using o True by simp
      from lock_again_ok [OF sys u this nz] show ?thesis
        using deep idle True n o by (auto simp: r fr_mutex_rep_def)
    next
      case False
      then show ?thesis using o rep by (auto simp: r lock_section_def)
    qed
  qed
qed

lemma unlock_rep:
  assumes rep: "fr_mutex_rep K live maxp Q A u m r" and u: "MutexQueue u \<in> Q"
  shows "\<exists>m'. unlock_section K t u m = Some (fst (rec_call deepest r (MUnlock t)), m')
    \<and> fr_mutex_rep K live maxp Q A u m' (snd (rec_call deepest r (MUnlock t)))"
proof -
  obtain wq ow where sys: "sys_ok K live maxp Q A wq ow m" using rep by (auto simp: fr_mutex_rep_def)
  have idle: "\<forall>s \<in> A. wait_q (th m s) = None" and own: "owner_is (mx m u) r"
    using rep by (auto simp: fr_mutex_rep_def)
  show ?thesis
  proof (cases "m_owner (mx m u) = Some t")
    case False
    then have "rec_call deepest r (MUnlock t) = (- EPERM, r)"
      using own by (cases r) auto
    then show ?thesis using False rep by (simp add: unlock_section_def)
  next
    case True
    then obtain n where r: "r = Some (t, n)" "unat (lock_count (mx m u)) = n" "0 < n"
      using own by (cases r) auto
    show ?thesis
    proof (cases "n = 1")
      case one: True
      then have "lock_count (mx m u) = 1" using r(2) by (simp add: word_unat_eq_iff)
      note count = this
      obtain m' wq' where m': "unlock_section K t u m = Some (0, m')" "sys_ok K live maxp Q A wq' (ow(t := remove1 u (ow t))) m'"
          "mx m' = (mx m)(u := mx m u\<lparr>lock_count := 0, m_owner := None\<rparr>)"
          "th m' = (case wq (MutexQueue u) of [] \<Rightarrow> th m | t # _ \<Rightarrow> (th m)(t := unlock_wake_update (th m t)))"
        by (rule unlock_release_ok [OF sys u True count]) (rule that)
      then have "wait_q (th m' s) = None" if "s \<in> A" for s
        using idle that by (cases "wq (MutexQueue u)") (simp_all add: unlock_wake_update_def)
      with m' one r(1) show ?thesis by (auto simp: fr_mutex_rep_def)
    next
      case False
      have "lock_count (mx m u) \<noteq> 0" using r(2,3) by auto
      then have n: "unat (lock_count (mx m u) - 1) = n - 1" using r(2) by (simp add: unat_dec)
      then have "lock_count (mx m u) - 1 > 0" using False r(3) by (simp add: word_less_nat_alt)
      from unlock_nested_ok [OF sys u True this] show ?thesis
        using False idle n r(1,3) True by (auto simp: fr_mutex_rep_def)
    qed
  qed
qed

lemma call_rep:
  assumes rep: "fr_mutex_rep K live maxp Q A u m r" and t: "caller c \<in> A" and u: "MutexQueue u \<in> Q"
    and deep: "depth r < 2 ^ 32 - 1" and self: "os_get_current_thread K m = Some (caller c)"
  shows "\<exists>m'. fr_mutex_call K u c m = Some (fst (rec_call (2 ^ 32 - 1) r c), m')
    \<and> fr_mutex_rep K live maxp Q A u m' (snd (rec_call (2 ^ 32 - 1) r c))"
proof -
  obtain wq ow where sys: "sys_ok K live maxp Q A wq ow m" using rep by (auto simp: fr_mutex_rep_def)
  have init: "m_initialized (mx m u)"
    by (rule owners_agreeD(5) [OF lists_ok_owners_agree [OF sys_okD(1) [OF sys]] u])
  have lock: "\<exists>m'. os_mutex_lock K False w (Some u) 0 m = Some (fst (rec_call (2 ^ 32 - 1) r (MLock t)), m')
      \<and> fr_mutex_rep K live maxp Q A u m' (snd (rec_call (2 ^ 32 - 1) r (MLock t)))"
    if "t = caller c" for t w
    using lock_rep [OF rep t u deep, of "os_tick_get K m"] init self that
    by (auto simp: os_mutex_lock_def lock_loop.simps [where timeout = 0] simp del: rec_call.simps)
  show ?thesis
  proof (cases c)
    case (MLock t)
    then show ?thesis using lock [of t] by simp
  next
    case (MTry t)
    then show ?thesis using lock [of t] by (simp add: os_mutex_trylock_def)
  next
    case (MUnlock t)
    then show ?thesis using unlock_rep [OF rep u, of t "2 ^ 32 - 1"] init self
      by (simp add: os_mutex_unlock_def del: rec_call.simps)
  qed
qed

lemma calls_rep:
  assumes "fr_calls K live u cs m vs m'" "fr_mutex_rep K live maxp Q A u m r" "caller ` set cs \<subseteq> A"
    and "MutexQueue u \<in> Q" "nests_within d r cs" "depth r \<le> d" "d < 2 ^ 32 - 1"
  shows "vs = fst (rec_run (2 ^ 32 - 1) r cs) \<and> fr_mutex_rep K live maxp Q A u m' (snd (rec_run (2 ^ 32 - 1) r cs))"
  using assms
proof (induction arbitrary: r rule: fr_calls.induct)
  case (call c m m1 v m2 cs vs m3)
  let ?d = "2 ^ 32 - 1 :: nat"
  have rep: "fr_mutex_rep K live maxp Q A u m1 r" using scheduled_rep call.hyps(1) call.prems(1) by blast
  have "\<exists>m'. fr_mutex_call K u c m1 = Some (fst (rec_call ?d r c), m')
      \<and> fr_mutex_rep K live maxp Q A u m' (snd (rec_call ?d r c))"
    using call.prems call.hyps(1) by (intro call_rep [OF rep]) (auto simp: scheduled_def)
  then have "v = fst (rec_call ?d r c)" "fr_mutex_rep K live maxp Q A u m2 (snd (rec_call ?d r c))"
    using call.hyps(2) by auto
  moreover have "nests_within d (snd (rec_call ?d r c)) cs" "depth (snd (rec_call ?d r c)) \<le> d"
    using nests_within_step [OF call.prems(4,5), of ?d] call.prems(6) by simp_all
  ultimately show ?case using call.IH call.prems(2,3,6) by (simp add: split_beta)
qed simp

lemma calls_go_on:
  assumes rep: "fr_mutex_rep K live maxp Q A u m r" and "depth r < 2 ^ 32 - 1" "MutexQueue u \<in> Q"
    and "caller c \<in> A" "scheduled K live (caller c) m m1"
  shows "\<exists>v m2. fr_mutex_call K u c m1 = Some (v, m2) \<and> fr_mutex_rep K live maxp Q A u m2 (snd (rec_call (2 ^ 32 - 1) r c))"
  using call_rep [OF scheduled_rep [OF rep]] assms by (meson scheduled_def)

lemma calls_exist:
  assumes "fr_mutex_rep K live maxp Q A u m r" "caller ` set cs \<subseteq> A" "MutexQueue u \<in> Q"
    and "depth r + length cs < 2 ^ 32" "\<And>t m. \<exists>m1. scheduled K live t m m1"
  shows "\<exists>vs m'. fr_calls K live u cs m vs m'"
  using assms(1,2,4)
proof (induction cs arbitrary: m r)
  case Nil
  then show ?case using fr_calls.none by blast
next
  case (Cons c cs)
  obtain m1 where m1: "scheduled K live (caller c) m m1" using assms(5) by blast
  obtain v m2 where m2: "fr_mutex_call K u c m1 = Some (v, m2)"
      "fr_mutex_rep K live maxp Q A u m2 (snd (rec_call (2 ^ 32 - 1) r c))"
    using calls_go_on [OF Cons.prems(1) _ assms(3) _ m1] Cons.prems(2,3) by auto
  obtain vs m' where "fr_calls K live u cs m2 vs m'"
    using Cons.IH [OF m2(2)] Cons.prems(2,3) rec_call_depth [of "2 ^ 32 - 1" r c] by force
  with fr_calls.call [OF m1 m2(1)] show ?case by blast
qed

lemma deinit_rep:
  assumes rep: "fr_mutex_rep K live maxp Q A u m r" and u: "MutexQueue u \<in> Q"
  shows "fst (os_mutex_deinit False (Some u) m) = (if r = None then 0 else - EBUSY)"
proof -
  obtain wq ow where sys: "sys_ok K live maxp Q A wq ow m" using rep by (auto simp: fr_mutex_rep_def)
  note ok = sys_okD(1) [OF sys]
  have "wq (MutexQueue u) = []"
    using waits_agreeD(1,2) [OF lists_ok_waits_agree [OF ok], where q = "MutexQueue u"] u rep
    by (cases "wq (MutexQueue u)") (fastforce simp: fr_mutex_rep_def)+
  then have "sys_dlist_is_empty (WaitList (MutexQueue u)) (waits m)"
    using waitq_empty_spec [OF lists_ok_waits [OF ok] u] by simp
  moreover have "m_initialized (mx m u)" by (rule owners_agreeD(5) [OF lists_ok_owners_agree [OF ok] u])
  ultimately show ?thesis using rep by (cases r) (auto simp: fr_mutex_rep_def os_mutex_deinit_def)
qed

end

text \<open>A mutex that is initialised while every thread is outside the mutex calls.\<close>

context fr_kernel_create begin

lemma fresh_rep:
  assumes "fr_reach K live maxp c" "\<And>t. t \<in> c_threads c \<Longrightarrow> c_pc c t = Idle" "MutexQueue u \<notin> c_queues c"
  shows "fr_mutex_rep K live maxp (insert (MutexQueue u) (c_queues c)) (c_threads c) u
     (os_mutex_init (Some u) (c_mem c)) None"
proof -
  let ?c = "c\<lparr>c_mem := os_mutex_init (Some u) (c_mem c), c_queues := insert (MutexQueue u) (c_queues c)\<rparr>"
  have "fr_inv K live maxp ?c"
    using fr_reach_inv [OF fr_reach.step [OF assms(1) fr_step.init_mutex [OF assms(3)]]] .
  then obtain wq ow where "sys_ok K live maxp (c_queues ?c) (c_threads ?c) wq ow (c_mem ?c)"
      "\<And>t. t \<in> c_threads ?c \<Longrightarrow> pc_ok (c_queues ?c) (wait_q (th (c_mem ?c) t)) (c_pc ?c t)"
    by (rule fr_invE) (rule that)
  then have "\<exists>wq ow. sys_ok K live maxp (insert (MutexQueue u) (c_queues c)) (c_threads c) wq ow (os_mutex_init (Some u) (c_mem c))"
      "\<forall>t \<in> c_threads c. wait_q (th (os_mutex_init (Some u) (c_mem c)) t) = None"
    using assms(2) by auto
  moreover have "m_owner (mx (os_mutex_init (Some u) (c_mem c)) u) = None"
    by (simp add: os_mutex_init_def os_mutex_zero_def os_waitq_init_def mutex_clear_def)
  ultimately show ?thesis by (simp add: fr_mutex_rep_def)
qed

end

text \<open>At the depth of the native counter the backends part: RT-Thread refuses the owner's next lock,
  FreeRTOS grants it.\<close>

lemma deeper_nesting_differs:
  assumes "rt_mutex_native N ok rec deepest" "rt_mutex_rep ok rec z (Some (t, deepest))"
    and "fr_kernel K live maxp" "fr_mutex_rep K live maxp Q A u m (Some (t, deepest))"
    and "t \<in> A" "MutexQueue u \<in> Q" "deepest < 2 ^ 32 - 1" "os_get_current_thread K m = Some t"
  shows "fst (rt_mutex_call N z (MLock t)) = - EBUSY" "\<exists>m'. fr_mutex_call K u (MLock t) m = Some (0, m')"
  using rt_mutex_native.call_refines [OF assms(1,2), of "MLock t"]
    fr_kernel.call_rep [OF assms(3,4), of "MLock t"] assms(5-8) by auto

section \<open>Property\<close>

text \<open>C25: The FreeRTOS and the RT-Thread mutex are the same mutex to threads that do not wait and nest
  their locks no deeper than the native counter of RT-Thread (and less than \<open>2 ^ 32 - 1\<close> levels). From any
  reachable state of the FreeRTOS system in which the threads are outside the mutex calls, a freshly
  initialised mutex answers any sequence of locks, trylocks and unlocks by any threads, of any length,
  with the kernel switching between them, with the return codes that the RT-Thread mutex gives, which are
  those of the recursive mutex; every call returns, and the two can be deinitialised at the same
  moments.\<close>

theorem mutex_backends_agree:
  assumes "fr_kernel_create K live maxp" "fr_reach K live maxp c" "\<forall>t \<in> c_threads c. c_pc c t = Idle"
    and "MutexQueue u \<notin> c_queues c"
    and "rt_mutex_native N ok rec deepest" "rt_mutex_init N \<noteq> None"
    and "caller ` set cs \<subseteq> c_threads c" "nests_within d None cs" "d \<le> deepest" "d < 2 ^ 32 - 1"
    and "fr_calls K live u cs (os_mutex_init (Some u) (c_mem c)) vs m"
  shows "vs = fst (rt_mutex_run N (rt_os_mutex_init N (Some z)) cs)
    \<and> vs = fst (rec_run deepest None cs)
    \<and> fst (os_mutex_deinit False (Some u) m)
        = fst (rt_os_mutex_deinit N False (snd (rt_mutex_run N (rt_os_mutex_init N (Some z)) cs)))
    \<and> (caller e \<in> c_threads c \<and> scheduled K live (caller e) m m1 \<longrightarrow> fr_mutex_call K u e m1 \<noteq> None)"
proof -
  note fr = fr_kernel_create.axioms(1) [OF assms(1)]
  let ?Q = "insert (MutexQueue u) (c_queues c)" and ?r = "rec_run (2 ^ 32 - 1) None cs"
  have start: "fr_mutex_rep K live maxp ?Q (c_threads c) u (os_mutex_init (Some u) (c_mem c)) None"
    using fr_kernel_create.fresh_rep [OF assms(1,2)] assms(3,4) by blast
  have run: "vs = fst ?r \<and> fr_mutex_rep K live maxp ?Q (c_threads c) u m (snd ?r)"
    using fr_kernel.calls_rep [OF fr assms(11) start assms(7)] assms(8,10) by simp
  obtain g where g: "rt_mutex_init N = Some g" using assms(6) by auto
  have "rt_mutex_rep ok rec (rt_os_mutex_init N (Some z)) None"
    using rt_mutex_native.init_free [OF assms(5) g] by (simp add: rt_mutex_rep_def rt_os_mutex_init_def g)
  note rt = rt_mutex_native.run_refines [OF assms(5) this, of cs]
  have deep: "rec_run deepest None cs = ?r" using assms(8-10) by (intro rec_run_deep) auto
  have "depth (snd ?r) < 2 ^ 32 - 1" using rec_run_within [OF assms(8), of "2 ^ 32 - 1"] assms(10) by simp
  then have "caller e \<in> c_threads c \<and> scheduled K live (caller e) m m1 \<longrightarrow> fr_mutex_call K u e m1 \<noteq> None"
    using fr_kernel.calls_go_on [OF fr conjunct2 [OF run]] by fastforce
  then show ?thesis
    using run rt fr_kernel.deinit_rep [OF fr conjunct2 [OF run]]
      rt_mutex_native.deinit_free [OF assms(5) conjunct2 [OF rt]] by (simp add: deep)
qed

text \<open>Two threads on the reference kernel.\<close>

lemma ref_scheduled: "\<exists>m1. scheduled ref_tasks ref_live t m m1"
  by (intro exI [of _ "m\<lparr>kern := (kern m)\<lparr>rk_current := t, rk_tls := (\<lambda>_. Some t)\<rparr>\<rparr>"])
    (auto simp: scheduled_def os_get_current_thread_def ref_tasks_def kernel_same_def ref_live_def)

theorem mutex_backends_agree_witness:
  "\<exists>c vs m. fr_reach ref_tasks ref_live 32 c
     \<and> fr_calls ref_tasks ref_live 0 [MLock 0, MTry 1, MLock 0, MUnlock 1, MUnlock 0] (os_mutex_init (Some 0) (c_mem c)) vs m
     \<and> vs = [0, - EBUSY, 0, - EPERM, 0] \<and> fst (os_mutex_deinit False (Some 0) m) = - EBUSY"
proof -
  let ?cs = "[MLock 0, MTry 1, MLock 0, MUnlock 1, MUnlock 0]"
  let ?c = "demo_config (demo_create 1 10 (demo_create 0 5 demo_memory)) {} {1, 0}"
  have "fr_reach ref_tasks ref_live 32 (demo_config demo_memory {} {})"
    using fr_reach.boot [of ref_tasks ref_live 32 demo_memory] by (simp add: fr_boot_def demo_config_def)
  then have reach: "fr_reach ref_tasks ref_live 32 ?c"
    by (intro demo_reach_create) simp_all
  have rep: "fr_mutex_rep ref_tasks ref_live 32 {MutexQueue 0} {1, 0} 0 (os_mutex_init (Some 0) (c_mem ?c)) None"
    using ref.fresh_rep [OF reach, of 0] by simp
  have "\<exists>vs m. fr_calls ref_tasks ref_live 0 ?cs (os_mutex_init (Some 0) (c_mem ?c)) vs m"
    by (rule ref.calls_exist [OF rep _ _ _ ref_scheduled]) simp_all
  then obtain vs m where run: "fr_calls ref_tasks ref_live 0 ?cs (os_mutex_init (Some 0) (c_mem ?c)) vs m"
    by blast
  have native: "rt_mutex_native native_rt_mutex (\<lambda>_. True) id 255" by (rule native_mutex.rt_mutex_native_axioms)
  from mutex_backends_agree [OF ref_tasks_create reach _ _ native _ _ _ _ _ run, of 2 rt_os_mutex_zero] run reach
  show ?thesis
    by (intro exI [of _ ?c] exI [of _ vs] exI [of _ m])
      (simp add: native_rt_mutex_def rt_os_mutex_init_def rt_os_mutex_lock_def rt_os_mutex_trylock_def
        rt_os_mutex_unlock_def rt_os_mutex_deinit_def rt_native_mutex_def OS_WAIT_FOREVER_def)
qed

end
