(* ===== verification/Return_Codes.thy ===== *)
theory Return_Codes
  imports Message_Queue Fifo Mem_Slab Signal Sem_Zephyr
begin

text \<open>
  A type for the integers that the common layer returns: the error numbers that each call can give in
  its context (interrupt or thread, waiting or not), over any of the three semaphore adapters and
  whatever the kernel below answers. No law of the kernel is used, so the types hold for a kernel that
  is out of memory or out of order. They are compared with the codes that \<open>kernel.h\<close> documents.
\<close>

section \<open>Types\<close>

text \<open>A call with what its codes depend on: whether the caller is an interrupt handler, and the timeout.\<close>

datatype common_fn =
    SemInit | SemDeinit bool | SemTake bool u32 | SemTrytake bool
  | MsgqInit | MsgqDeinit bool | MsgqPut bool u32 | MsgqGet bool u32
  | FifoInit | FifoDeinit bool | FifoPut | FifoGet bool u32
  | SlabInit | SlabDeinit bool | SlabAlloc bool u32 | SlabFree
  | SignalInit | SignalDeinit bool | SignalRaise | SignalWait bool u32 | SignalReset

definition init_codes :: "int set" where
  "init_codes = {0, - EINVAL, - ENOMEM}"

definition deinit_codes :: "bool \<Rightarrow> int set" where
  "deinit_codes isr = (if isr then {- EINVAL, - EWOULDBLOCK} else {0, - EINVAL, - EBUSY})"

text \<open>A call that may wait: busy only without a timeout, timed out only with one, and never a wait in
  an interrupt.\<close>

definition wait_codes :: "bool \<Rightarrow> u32 \<Rightarrow> int set" where
  "wait_codes isr t =
     (if t = 0 then {0, - EINVAL, - EBUSY}
      else if isr then {- EINVAL, - EWOULDBLOCK} else {0, - EINVAL, - ETIMEDOUT})"

fun codes :: "common_fn \<Rightarrow> int set" where
  "codes SemInit = init_codes" | "codes (SemDeinit isr) = deinit_codes isr"
| "codes (SemTake isr t) = wait_codes isr t" | "codes (SemTrytake isr) = {0, - EBUSY, - EINVAL}"
| "codes MsgqInit = init_codes" | "codes (MsgqDeinit isr) = deinit_codes isr"
| "codes (MsgqPut isr t) = wait_codes isr t" | "codes (MsgqGet isr t) = wait_codes isr t"
| "codes FifoInit = init_codes" | "codes (FifoDeinit isr) = insert (- EBUSY) (deinit_codes isr)"
| "codes FifoPut = {0, - EINVAL, - EBUSY, - ENOSPC}"
| "codes (FifoGet isr t) = wait_codes isr t \<union> (if isr \<and> t \<noteq> 0 then {} else {- EAGAIN})"
| "codes SlabInit = init_codes" | "codes (SlabDeinit isr) = insert (- EBUSY) (deinit_codes isr)"
| "codes (SlabAlloc isr t) = wait_codes isr t" | "codes SlabFree = {0, - EINVAL}"
| "codes SignalInit = init_codes" | "codes (SignalDeinit isr) = deinit_codes isr"
| "codes SignalRaise = {0, - EINVAL, - EBUSY}" | "codes (SignalWait isr t) = wait_codes isr t"
| "codes SignalReset = {0, - EINVAL}"

subsection \<open>What \<open>kernel.h\<close> documents\<close>

text \<open>"0 on success, ..., or another negative error": any error.\<close>

definition any_error :: "int set" where
  "any_error = {r. r \<le> 0}"

text \<open>The list of each call; a miss without a timeout is \<open>-EBUSY\<close>, a miss with one \<open>-ETIMEDOUT\<close>.\<close>

definition doc_wait :: "u32 \<Rightarrow> int set" where
  "doc_wait t = any_error - (if t = 0 then {- ETIMEDOUT} else {- EBUSY})"

fun documented :: "common_fn \<Rightarrow> int set" where
  "documented SemInit = {0, - EINVAL}" | "documented (SemDeinit isr) = {0, - EBUSY, - EINVAL}"
| "documented (SemTake isr t) = doc_wait t" | "documented (SemTrytake isr) = {0, - EBUSY, - EINVAL}"
| "documented MsgqInit = {0, - EINVAL, - ENOMEM}" | "documented (MsgqDeinit isr) = any_error"
| "documented (MsgqPut isr t) = doc_wait t" | "documented (MsgqGet isr t) = doc_wait t"
| "documented FifoInit = any_error" | "documented (FifoDeinit isr) = any_error"
| "documented FifoPut = any_error" | "documented (FifoGet isr t) = doc_wait t"
| "documented SlabInit = {0, - EINVAL}" | "documented (SlabDeinit isr) = any_error"
| "documented (SlabAlloc isr t) = doc_wait t" | "documented SlabFree = {0, - EINVAL}"
| "documented SignalInit = any_error" | "documented (SignalDeinit isr) = any_error"
| "documented SignalRaise = {0, - EBUSY}" | "documented (SignalWait isr t) = doc_wait t"
| "documented SignalReset = {0, - EINVAL}"

text \<open>The codes that the calls return and the header does not list.\<close>

fun undocumented :: "common_fn \<Rightarrow> int set" where
  "undocumented SemInit = {- ENOMEM}"
| "undocumented (SemDeinit isr) = (if isr then {- EWOULDBLOCK} else {})"
| "undocumented SlabInit = {- ENOMEM}"
| "undocumented SignalRaise = {- EINVAL}"
| "undocumented _ = {}"

lemma codes_documented: "codes f \<subseteq> documented f \<union> undocumented f"
  by (cases f) (auto simp: init_codes_def deinit_codes_def wait_codes_def any_error_def doc_wait_def errno_defs)

text \<open>\<open>returns S f r\<close>: some call of \<open>f\<close>, with any arguments in any state, returns \<open>r\<close>.\<close>

inductive returns :: "'s sem_ops \<Rightarrow> common_fn \<Rightarrow> int \<Rightarrow> bool" for S where
  "sem_init S s i l = (r, s') \<Longrightarrow> returns S SemInit r"
| "sem_deinit S isr s = (r, s') \<Longrightarrow> returns S (SemDeinit isr) r"
| "sem_take S isr s t = (r, s') \<Longrightarrow> returns S (SemTake isr t) r"
| "sem_trytake S isr s = (r, s') \<Longrightarrow> returns S (SemTrytake isr) r"
| "os_msgq_init S isr q buf sz cap = (r, q') \<Longrightarrow> returns S MsgqInit r"
| "os_msgq_deinit S isr q = (r, q') \<Longrightarrow> returns S (MsgqDeinit isr) r"
| "os_msgq_put S isr q msg t = Some (r, q') \<Longrightarrow> returns S (MsgqPut isr t) r"
| "os_msgq_get S isr q dst t = Some (r, q', dst') \<Longrightarrow> returns S (MsgqGet isr t) r"
| "os_fifo_init S f (m :: (nat, nat, 's) fifo_mem) = (r, m') \<Longrightarrow> returns S FifoInit r"
| "os_fifo_deinit S isr f (m :: (nat, nat, 's) fifo_mem) = (r, m') \<Longrightarrow> returns S (FifoDeinit isr) r"
| "os_fifo_put S isr f n (m :: (nat, nat, 's) fifo_mem) = Some (r, m') \<Longrightarrow> returns S FifoPut r"
| "os_fifo_get S isr f out t (m :: (nat, nat, 's) fifo_mem) = Some (r, out', m') \<Longrightarrow> returns S (FifoGet isr t) r"
| "os_mem_slab_init S s buffer bsize n mem = Some (r, s', mem') \<Longrightarrow> returns S SlabInit r"
| "os_mem_slab_deinit S isr s = (r, s') \<Longrightarrow> returns S (SlabDeinit isr) r"
| "os_mem_slab_alloc S isr s addr t mem = Some (r, s', addr') \<Longrightarrow> returns S (SlabAlloc isr t) r"
| "os_mem_slab_free S isr s a mem = Some (r, s', mem') \<Longrightarrow> returns S SlabFree r"
| "os_signal_init S g = (r, g') \<Longrightarrow> returns S SignalInit r"
| "os_signal_deinit S isr g = (r, g') \<Longrightarrow> returns S (SignalDeinit isr) r"
| "os_signal_raise S isr g v = (r, g') \<Longrightarrow> returns S SignalRaise r"
| "os_signal_wait S isr g t res = (r, g', res') \<Longrightarrow> returns S (SignalWait isr t) r"
| "os_signal_reset S isr g = Some (r, g') \<Longrightarrow> returns S SignalReset r"

section \<open>Typing the layer over typed semaphores\<close>

locale sem_typed =
  fixes S :: "'s sem_ops"
  assumes init_typed: "fst (sem_init S s i l) \<in> init_codes"
    and deinit_typed: "fst (sem_deinit S isr s) \<in> deinit_codes isr"
    and take_typed: "fst (sem_take S isr s t) \<in> wait_codes isr t"
    and trytake_typed: "fst (sem_trytake S isr s) \<in> {0, - EBUSY, - EINVAL}"
begin

lemma init_in: "sem_init S s i l = (r, s') \<Longrightarrow> r \<in> init_codes"
  using init_typed [of s i l] by simp

lemma trytake_in: "sem_trytake S isr s = (r, s') \<Longrightarrow> r \<in> {0, - EBUSY, - EINVAL}"
  using trytake_typed [of isr s] by simp

lemma deinit_in: "sem_deinit S isr s = (r, s') \<Longrightarrow> r \<in> deinit_codes isr"
  using deinit_typed [of isr s] by simp

lemma take_in: "sem_take S isr s t = (r, s') \<Longrightarrow> r \<in> wait_codes isr t"
  using take_typed [of isr s t] by simp

lemma take_done: "sem_take S isr s t = (0, s') \<Longrightarrow> isr \<and> t \<noteq> 0 \<Longrightarrow> False"
  using take_in [of isr s t 0] by (auto simp: wait_codes_def)

lemma deinit_done: "sem_deinit S isr s = (0, s') \<Longrightarrow> \<not> isr"
  using deinit_in [of isr s 0] by (auto simp: deinit_codes_def split: if_splits)

lemma consts_in:
  "0 \<in> init_codes" "- EINVAL \<in> init_codes" "- ENOMEM \<in> init_codes" "- EINVAL \<in> deinit_codes isr"
  "- EINVAL \<in> wait_codes isr t"
  by (simp_all add: init_codes_def deinit_codes_def wait_codes_def)

lemma zero_in: "\<not> isr \<Longrightarrow> 0 \<in> deinit_codes isr" "\<not> (isr \<and> t \<noteq> 0) \<Longrightarrow> 0 \<in> wait_codes isr t"
  by (auto simp: deinit_codes_def wait_codes_def)

lemmas typed_defs = os_msgq_init_def os_msgq_deinit_def os_msgq_put_def os_msgq_get_def os_fifo_init_def
  os_fifo_deinit_def os_mem_slab_deinit_def os_mem_slab_alloc_def
  os_signal_init_def os_signal_deinit_def os_signal_raise_def os_signal_wait_def

lemma fifo_put_typed: "os_fifo_put S isr f n m = Some (r, m') \<Longrightarrow> r \<in> {0, - EINVAL, - EBUSY, - ENOSPC}"
  by (auto simp: os_fifo_put_def fifo_put_section_def Let_def bind_eq_Some_conv split: option.splits if_splits)

lemma fifo_get_section_typed:
  assumes "fifo_get_section q m = Some (r, e, m')"
  shows "r = 0 \<or> r = - EAGAIN"
proof -
  obtain x h where x: "sys_dlist_get (FifoList q) (fm_heap m) = Some (x, h)"
    using assms by (auto simp: fifo_get_section_def bind_eq_Some_conv)
  show ?thesis
  proof (cases x)
    case (Some y)
    with assms x show ?thesis by (cases y) (auto simp: fifo_get_section_def Let_def)
  qed (use assms x in \<open>simp add: fifo_get_section_def Let_def\<close>)
qed

lemma slab_free_typed: "os_mem_slab_free S isr s a mem = Some (r, s', mem') \<Longrightarrow> r \<in> {0, - EINVAL}"
  by (auto simp: os_mem_slab_free_def slab_free_section_def bind_eq_Some_conv split: option.splits if_splits)

lemma signal_reset_typed: "os_signal_reset S isr g = Some (r, g') \<Longrightarrow> r \<in> {0, - EINVAL}"
  by (auto simp: os_signal_reset_def split: option.splits if_splits)

lemma slab_init_typed:
  assumes "os_mem_slab_init S s buffer bsize n mem = Some (r, s', mem')"
  shows "r \<in> init_codes"
proof -
  obtain e av where "sem_init S (available (os_mem_slab_zero S)) n n = (e, av)" by fastforce
  with assms show ?thesis
    by (auto simp: os_mem_slab_init_def Let_def bind_eq_Some_conv consts_in split: if_splits)
qed

lemma fifo_get_typed: "os_fifo_get S isr f out t m = Some (r, out', m') \<Longrightarrow> r \<in> codes (FifoGet isr t)"
  by (auto simp: os_fifo_get_def Let_def bind_eq_Some_conv consts_in zero_in split: option.splits prod.splits if_splits
      dest: take_in take_done fifo_get_section_typed)

lemma returns_typed: "returns S f r \<Longrightarrow> r \<in> codes f"
  by (induction rule: returns.induct) (auto simp: typed_defs Let_def bind_eq_Some_conv consts_in zero_in signal_wait_section_def
    split: option.splits prod.splits if_splits simp del: codes.simps(12)
    dest: init_in deinit_in take_in trytake_in take_done deinit_done slab_init_typed fifo_put_typed fifo_get_typed
      slab_free_typed signal_reset_typed)

end

interpretation fr_typed: sem_typed "freertos_sem_ops N" for N
  by unfold_locales (auto simp: freertos_sem_ops_def freertos_sem_defs via_ptr_def init_codes_def deinit_codes_def
      wait_codes_def split: option.splits prod.splits)

interpretation rt_typed: sem_typed "rt_sem_ops N" for N
  by unfold_locales (auto simp: rt_sem_ops_def rt_os_sem_init_def rt_os_sem_deinit_def rt_os_sem_take_def rt_os_sem_trytake_def via_ptr_def
      init_codes_def deinit_codes_def wait_codes_def split: option.splits prod.splits)

interpretation zephyr_typed: sem_typed "zephyr_sem_ops N" for N
  by unfold_locales (auto simp: zephyr_sem_ops_def zephyr_os_sem_init_def zephyr_os_sem_deinit_def zephyr_os_sem_take_def
      zephyr_os_sem_trytake_def via_ptr_def init_codes_def deinit_codes_def wait_codes_def split: option.splits prod.splits)

text \<open>Every code that the header leaves out is returned: \<open>-ENOMEM\<close> by a kernel without a free
  semaphore, \<open>-EWOULDBLOCK\<close> to an interrupt handler, \<open>-EINVAL\<close> for an object that is not initialised.\<close>

lemma undocumented_codes_returned:
  assumes "xSemaphoreCreateCountingStatic N 2 2 = None" "r \<in> undocumented f"
  shows "returns (freertos_sem_ops N) f r"
proof -
  let ?S = "freertos_sem_ops N"
  have "sem_init ?S os_sem_zero 2 2 = (- ENOMEM, os_sem_zero)"
    using assms(1) by (simp add: freertos_sem_ops_def freertos_os_sem_init_def via_ptr_def)
  then have 1: "returns ?S SemInit (- ENOMEM)" by (rule returns.intros)
  have "os_mem_slab_init ?S (Some (os_mem_slab_zero ?S)) 0x100 8 2 ref_storage =
      Some (- ENOMEM, Some (os_mem_slab_zero ?S), ref_slab_mem)"
    using assms(1) by (simp add: os_mem_slab_init_def SIZE_MAX_def ref_slab_mem_def os_mem_slab_zero_def
        slab_link_loop.simps store_word_def ref_storage_def Let_def freertos_sem_ops_def freertos_os_sem_init_def via_ptr_def)
  then have 2: "returns ?S SlabInit (- ENOMEM)" by (rule returns.intros)
  have "sem_deinit ?S True \<lparr>sem_handle = Some h, sem_limit = 1\<rparr> = (- EWOULDBLOCK, \<lparr>sem_handle = Some h, sem_limit = 1\<rparr>)" for h
    by (simp add: freertos_sem_ops_def freertos_os_sem_deinit_def via_ptr_def)
  then have 3: "returns ?S (SemDeinit True) (- EWOULDBLOCK)" by (rule returns.intros)
  have "os_signal_raise ?S isr None 0 = (- EINVAL, None)" for isr by (simp add: os_signal_raise_def)
  then have 4: "returns ?S SignalRaise (- EINVAL)" by (rule returns.intros)
  show ?thesis using assms(2) 1 2 3 4 by (cases f) (auto split: if_splits)
qed

section \<open>Property\<close>

text \<open>C11: Every call of the semaphore adapters and of the common layer is typed. With any arguments, in
  any state, initialised or not, over the FreeRTOS, the RT-Thread and the Zephyr semaphores and whatever
  their kernels answer, it returns one of the listed codes of its context: a code of the kernel never
  reaches the caller, \<open>-EBUSY\<close> for a miss comes without a timeout, \<open>-ETIMEDOUT\<close> with one, a trytake gives
  only 0, \<open>-EBUSY\<close> and \<open>-EINVAL\<close>, and no call of an interrupt handler waits. The code is one that
  \<open>kernel.h\<close> documents for the call, but for \<open>-ENOMEM\<close> of a semaphore and a slab, \<open>-EWOULDBLOCK\<close> of a
  semaphore deinitialised by an interrupt handler and \<open>-EINVAL\<close> of a raise.\<close>

theorem return_codes_typed:
  assumes "returns (freertos_sem_ops F) f r \<or> returns (rt_sem_ops R) f r \<or> returns (zephyr_sem_ops Z) f r"
  shows "r \<in> codes f \<and> r \<in> documented f \<union> undocumented f"
proof -
  have "r \<in> codes f" using assms fr_typed.returns_typed rt_typed.returns_typed zephyr_typed.returns_typed by blast
  then show ?thesis using codes_documented by blast
qed

theorem return_codes_typed_witness:
  "\<exists>r. returns (freertos_sem_ops native_freertos) (SignalWait True 0) r \<and> r \<in> {0, - EINVAL, - EBUSY} \<and> r = - EBUSY"
proof -
  have "os_signal_wait (freertos_sem_ops native_freertos) True (Some ref_signal) 0 (Some 5) =
      (- EBUSY, Some ref_signal, Some 5)"
    by (simp add: os_signal_wait_def ref_signal_def freertos_sem_ops_def freertos_os_sem_take_def native_freertos_def
        native_take_def via_ptr_def)
  then have "returns (freertos_sem_ops native_freertos) (SignalWait True 0) (- EBUSY)" by (rule returns.intros)
  with return_codes_typed [where f = "SignalWait True 0"] show ?thesis by (auto simp: wait_codes_def)
qed

end
