(* ===== verification/Linker_Sections.thy ===== *)
theory Linker_Sections
  imports Osal_Prelude "HOL-Library.Char_ord" "HOL-Library.List_Lexorder" "HOL-Library.Multiset"
begin

text \<open>
  Objects that the linker gathers: the initcalls of \<open>include/hazel_wireless/sys/init.h\<close> and the
  iterable sections of \<open>include/hazel_wireless/sys/iterable_sections.h\<close>. The macros put each
  object into a section whose name they build from their arguments. The linker and its script are not
  in the repository: the theorems take the array it lays out as a parameter, of which they use what the
  comment of \<open>init.h\<close> relies on, that the input sections are kept and sorted by name. In which order it
  puts sections of the same name is left open.
\<close>

section \<open>Init levels\<close>

text \<open>A priority is the token that the caller writes: \<open>#prio\<close> turns its digits into text, so
  \<open>100\<close> and \<open>0100\<close> are different names.\<close>

type_synonym token = string

datatype init_level = Early | Core | Arch | Bus | Device | Subsys | App | Late

text \<open>The argument \<open>level\<close> of \<open>__define_initcall\<close>.\<close>

fun level_token :: "init_level \<Rightarrow> token" where
  "level_token Early = ''0''" | "level_token Core = ''1''" | "level_token Arch = ''2''"
| "level_token Bus = ''3''" | "level_token Device = ''4''" | "level_token Subsys = ''5''"
| "level_token App = ''6''" | "level_token Late = ''7''"

definition INITCALL_PRIO_DEFAULT :: token where
  "INITCALL_PRIO_DEFAULT = ''5000''"

definition INITCALL_SECTION :: "token \<Rightarrow> token \<Rightarrow> string" where
  "INITCALL_SECTION level prio = ''.initcall'' @ level @ ''.'' @ prio @ ''.init''"

text \<open>The object that a definition leaves in the object file: its name, its section, its contents.\<close>

record 'f initcall =
  ic_symbol :: string
  ic_section :: string
  ic_fn :: 'f

definition define_initcall :: "string \<times> 'f \<Rightarrow> token \<Rightarrow> token \<Rightarrow> 'f initcall" where
  "define_initcall fn level prio =
     \<lparr>ic_symbol = ''__initcall_'' @ fst fn @ level @ prio,
      ic_section = ''.initcall'' @ level @ ''.'' @ prio @ ''.init'', ic_fn = snd fn\<rparr>"

lemma define_initcall_section: "ic_section (define_initcall fn level prio) = INITCALL_SECTION level prio"
  by (simp add: define_initcall_def INITCALL_SECTION_def)

definition early_initcall :: "string \<times> 'f \<Rightarrow> token \<Rightarrow> 'f initcall" where
  "early_initcall fn prio = define_initcall fn ''0'' prio"

definition core_initcall :: "string \<times> 'f \<Rightarrow> token \<Rightarrow> 'f initcall" where
  "core_initcall fn prio = define_initcall fn ''1'' prio"

definition arch_initcall :: "string \<times> 'f \<Rightarrow> token \<Rightarrow> 'f initcall" where
  "arch_initcall fn prio = define_initcall fn ''2'' prio"

definition bus_initcall :: "string \<times> 'f \<Rightarrow> token \<Rightarrow> 'f initcall" where
  "bus_initcall fn prio = define_initcall fn ''3'' prio"

definition device_initcall :: "string \<times> 'f \<Rightarrow> token \<Rightarrow> 'f initcall" where
  "device_initcall fn prio = define_initcall fn ''4'' prio"

definition subsys_initcall :: "string \<times> 'f \<Rightarrow> token \<Rightarrow> 'f initcall" where
  "subsys_initcall fn prio = define_initcall fn ''5'' prio"

definition app_initcall :: "string \<times> 'f \<Rightarrow> token \<Rightarrow> 'f initcall" where
  "app_initcall fn prio = define_initcall fn ''6'' prio"

definition late_initcall :: "string \<times> 'f \<Rightarrow> token \<Rightarrow> 'f initcall" where
  "late_initcall fn prio = define_initcall fn ''7'' prio"

definition early_init :: "string \<times> 'f \<Rightarrow> 'f initcall" where
  "early_init fn = early_initcall fn INITCALL_PRIO_DEFAULT"

definition core_init :: "string \<times> 'f \<Rightarrow> 'f initcall" where
  "core_init fn = core_initcall fn INITCALL_PRIO_DEFAULT"

definition arch_init :: "string \<times> 'f \<Rightarrow> 'f initcall" where
  "arch_init fn = arch_initcall fn INITCALL_PRIO_DEFAULT"

definition bus_init :: "string \<times> 'f \<Rightarrow> 'f initcall" where
  "bus_init fn = bus_initcall fn INITCALL_PRIO_DEFAULT"

definition device_init :: "string \<times> 'f \<Rightarrow> 'f initcall" where
  "device_init fn = device_initcall fn INITCALL_PRIO_DEFAULT"

definition subsys_init :: "string \<times> 'f \<Rightarrow> 'f initcall" where
  "subsys_init fn = subsys_initcall fn INITCALL_PRIO_DEFAULT"

definition app_init :: "string \<times> 'f \<Rightarrow> 'f initcall" where
  "app_init fn = app_initcall fn INITCALL_PRIO_DEFAULT"

definition late_init :: "string \<times> 'f \<Rightarrow> 'f initcall" where
  "late_init fn = late_initcall fn INITCALL_PRIO_DEFAULT"

definition platform_initcall :: "string \<times> 'f \<Rightarrow> token \<Rightarrow> 'f initcall" where
  "platform_initcall fn prio = arch_initcall fn prio"

definition module_initcall :: "string \<times> 'f \<Rightarrow> token \<Rightarrow> 'f initcall" where
  "module_initcall fn prio = subsys_initcall fn prio"

definition legacy_initcall :: "string \<times> 'f \<Rightarrow> 'f initcall" where
  "legacy_initcall fn = device_init fn"

subsection \<open>The linker's order\<close>

text \<open>\<open>out\<close>, the array between \<open>__initcall_start\<close> and \<open>__initcall_end\<close>, holds the initcalls of the
  program in lexicographic order of their section names.\<close>

definition laid_out_by_name :: "'f initcall list \<Rightarrow> 'f initcall list \<Rightarrow> bool" where
  "laid_out_by_name ics out \<longleftrightarrow> mset out = mset ics \<and> sorted (map ic_section out)"

text \<open>What a source file says: the level, the priority token and the function.\<close>

type_synonym 'f init_use = "init_level \<times> token \<times> string \<times> 'f"

fun level_initcall :: "'f init_use \<Rightarrow> 'f initcall" where
  "level_initcall (Early, prio, fn) = early_initcall fn prio"
| "level_initcall (Core, prio, fn) = core_initcall fn prio"
| "level_initcall (Arch, prio, fn) = arch_initcall fn prio"
| "level_initcall (Bus, prio, fn) = bus_initcall fn prio"
| "level_initcall (Device, prio, fn) = device_initcall fn prio"
| "level_initcall (Subsys, prio, fn) = subsys_initcall fn prio"
| "level_initcall (App, prio, fn) = app_initcall fn prio"
| "level_initcall (Late, prio, fn) = late_initcall fn prio"

fun level_rank :: "init_level \<Rightarrow> nat" where
  "level_rank Early = 0" | "level_rank Core = 1" | "level_rank Arch = 2" | "level_rank Bus = 3"
| "level_rank Device = 4" | "level_rank Subsys = 5" | "level_rank App = 6" | "level_rank Late = 7"

definition digit_val :: "char \<Rightarrow> nat" where
  "digit_val c = of_char c - 48"

definition is_digit :: "char \<Rightarrow> bool" where
  "is_digit c \<longleftrightarrow> 48 \<le> (of_char c :: nat) \<and> (of_char c :: nat) \<le> 57"

fun dec_val :: "token \<Rightarrow> nat" where
  "dec_val [] = 0"
| "dec_val (c # cs) = digit_val c * 10 ^ length cs + dec_val cs"

definition prio_ok :: "nat \<Rightarrow> token \<Rightarrow> bool" where
  "prio_ok w t \<longleftrightarrow> length t = w \<and> list_all is_digit t"

text \<open>The intended order: the level first, then the number.\<close>

definition init_rank :: "nat \<Rightarrow> 'f init_use \<Rightarrow> nat" where
  "init_rank w u = level_rank (fst u) * 10 ^ w + dec_val (fst (snd u))"

lemma level_initcall_eq: "level_initcall (l, prio, fn) = define_initcall fn (level_token l) prio"
  by (cases l) (simp_all add: early_initcall_def core_initcall_def arch_initcall_def bus_initcall_def
      device_initcall_def subsys_initcall_def app_initcall_def late_initcall_def)

lemma digit_less: "is_digit c \<Longrightarrow> digit_val c < 10"
  unfolding is_digit_def digit_val_def by arith

lemma dec_val_less: "list_all is_digit t \<Longrightarrow> dec_val t < 10 ^ length t"
proof (induction t)
  case (Cons c t)
  then have "digit_val c * 10 ^ length t + dec_val t < (digit_val c + 1) * 10 ^ length t" by simp
  also have "\<dots> \<le> 10 * 10 ^ length t"
    using Cons.prems digit_less [of c] by (intro mult_le_mono1) simp
  finally show ?case by simp
qed simp

lemma two_digit_less:
  fixes a b :: nat
  assumes "x < m" "y < m"
  shows "a * m + x \<le> b * m + y \<longleftrightarrow> a < b \<or> a = b \<and> x \<le> y"
proof -
  consider "a < b" | "a = b" | "b < a" by linarith
  then show ?thesis
  proof cases
    case 1
    then have "(a + 1) * m \<le> b * m" by (intro mult_le_mono1) simp
    with assms 1 show ?thesis by simp
  next
    case 3
    then have "(b + 1) * m \<le> a * m" by (intro mult_le_mono1) simp
    with assms 3 show ?thesis by simp
  qed simp
qed

lemma digit_order:
  assumes "is_digit c" "is_digit d"
  shows "digit_val c < digit_val d \<longleftrightarrow> c < d" "digit_val c = digit_val d \<longleftrightarrow> c = d"
proof -
  show "digit_val c < digit_val d \<longleftrightarrow> c < d"
    using assms by (auto simp: digit_val_def is_digit_def less_char_def)
  have "digit_val c = digit_val d \<longleftrightarrow> (of_char c :: nat) = of_char d"
    using assms unfolding digit_val_def is_digit_def by arith
  then show "digit_val c = digit_val d \<longleftrightarrow> c = d" by simp
qed

lemma append_le_same: "p @ a \<le> p @ b \<longleftrightarrow> a \<le> (b :: string)"
  by (induction p) auto

lemma digits_le:
  assumes "list_all is_digit s" "list_all is_digit t" "length s = length t"
  shows "s @ z \<le> t @ z \<longleftrightarrow> dec_val s \<le> dec_val t"
  using assms
proof (induction s t rule: list_induct2')
  case (4 c s d t)
  then have "c # (s @ z) \<le> d # (t @ z) \<longleftrightarrow> c < d \<or> c = d \<and> dec_val s \<le> dec_val t" by auto
  also have "\<dots> \<longleftrightarrow> digit_val c * 10 ^ length s + dec_val s \<le> digit_val d * 10 ^ length s + dec_val t"
    using 4 dec_val_less [of s] dec_val_less [of t] by (subst two_digit_less) (auto simp: digit_order)
  finally show ?case using 4 by simp
qed auto

lemma level_order: "level_token k @ x \<le> level_token l @ y \<longleftrightarrow>
   level_rank k < level_rank l \<or> level_rank k = level_rank l \<and> x \<le> (y :: string)"
  by (cases k; cases l) (simp_all add: less_char_def)

lemma section_order:
  assumes "prio_ok w s" "prio_ok w t"
  shows "ic_section (level_initcall (k, s, f)) \<le> ic_section (level_initcall (l, t, g))
    \<longleftrightarrow> init_rank w (k, s, f) \<le> init_rank w (l, t, g)"
proof -
  have "''.'' @ s @ ''.init'' \<le> ''.'' @ t @ ''.init'' \<longleftrightarrow> dec_val s \<le> dec_val t"
    using assms digits_le [of s t "''.init''"] by (simp add: prio_ok_def)
  moreover have "dec_val s < 10 ^ w" "dec_val t < 10 ^ w"
    using assms dec_val_less [of s] dec_val_less [of t] by (auto simp: prio_ok_def)
  ultimately show ?thesis
    unfolding level_initcall_eq define_initcall_def init_rank_def
    by (simp only: initcall.simps append_le_same level_order fst_conv snd_conv two_digit_less)
qed

lemma init_rank_order:
  assumes "prio_ok w s" "prio_ok w t"
  shows "init_rank w (k, s, f) \<le> init_rank w (l, t, g) \<longleftrightarrow>
    level_rank k < level_rank l \<or> k = l \<and> dec_val s \<le> dec_val t"
proof -
  have "dec_val s < 10 ^ w" "dec_val t < 10 ^ w"
    using assms dec_val_less [of s] dec_val_less [of t] by (auto simp: prio_ok_def)
  then show ?thesis by (cases k; cases l) (simp_all add: init_rank_def two_digit_less)
qed

text \<open>A permutation of an image is the image of a permutation.\<close>

lemma mset_map_permutes: "mset ys = mset (map f xs) \<Longrightarrow> \<exists>zs. ys = map f zs \<and> mset zs = mset xs"
proof (induction ys arbitrary: xs)
  case (Cons y ys)
  then have "image_mset f (mset xs) = add_mset y (mset ys)" by simp
  then obtain x M where x: "mset xs = add_mset x M" "f x = y" "image_mset f M = mset ys"
    by (rule msed_map_invR [THEN exE]) auto
  obtain us where us: "mset us = M" using ex_mset by blast
  with x Cons.IH [of us] obtain zs where "ys = map f zs" "mset zs = M" by auto
  with x show ?case by (intro exI [of _ "x # zs"]) simp
qed simp

lemma sorted_map_order:
  assumes "\<And>u v. u \<in> set xs \<Longrightarrow> v \<in> set xs \<Longrightarrow> f u \<le> f v \<longleftrightarrow> g u \<le> g v"
  shows "sorted (map f xs) \<longleftrightarrow> sorted (map g xs)"
proof -
  have "sorted_wrt (\<lambda>u v. f u \<le> f v) xs \<longleftrightarrow> sorted_wrt (\<lambda>u v. g u \<le> g v) xs"
    using assms by (induction xs) auto
  then show ?thesis by (simp add: sorted_map)
qed

lemma laid_out_ranks:
  assumes "laid_out_by_name (map level_initcall us) out" "\<forall>(l, prio, fn) \<in> set us. prio_ok w prio"
  shows "\<exists>vs. mset vs = mset us \<and> out = map level_initcall vs \<and> sorted (map (init_rank w) vs)"
proof -
  obtain vs where vs: "out = map level_initcall vs" "mset vs = mset us"
    using assms(1) mset_map_permutes [of out level_initcall us] by (auto simp: laid_out_by_name_def)
  have "(ic_section \<circ> level_initcall) u \<le> (ic_section \<circ> level_initcall) v \<longleftrightarrow> init_rank w u \<le> init_rank w v"
    if "u \<in> set vs" "v \<in> set vs" for u v
  proof -
    obtain l s f k t g where uv: "u = (l, s, f)" "v = (k, t, g)" by (metis prod_cases3)
    have "set vs = set us" using vs(2) by (metis set_mset_mset)
    with that assms(2) uv have "prio_ok w s" "prio_ok w t" by force+
    then show ?thesis using section_order [of w s t l f k g] uv by simp
  qed
  then have "sorted (map (ic_section \<circ> level_initcall) vs) \<longleftrightarrow> sorted (map (init_rank w) vs)"
    by (rule sorted_map_order)
  with assms(1) vs show ?thesis by (auto simp: laid_out_by_name_def)
qed

text \<open>An array that is sorted strictly is the only one.\<close>

lemma laid_out_unique:
  assumes "laid_out_by_name ics out" "laid_out_by_name ics out'" "inj_on ic_section (set ics)"
  shows "out = out'"
proof -
  have m: "mset out = mset ics" "mset out' = mset ics" using assms(1,2) by (simp_all add: laid_out_by_name_def)
  then have "set out = set ics" "set out' = set ics" by (metis set_mset_mset)+
  moreover have "map ic_section out = sort (map ic_section ics)" "map ic_section out' = sort (map ic_section ics)"
    using assms(1,2) by (auto simp: laid_out_by_name_def intro: properties_for_sort [symmetric])
  ultimately show ?thesis using assms(3) by (intro map_inj_on [of ic_section]) simp_all
qed

lemma laid_out_two: "laid_out_by_name [a, b] out \<Longrightarrow> ic_section b < ic_section a \<Longrightarrow> out = [b, a]"
  by (rule laid_out_unique [of "[a, b]"]) (auto simp: laid_out_by_name_def)

text \<open>Without padding the order breaks: 900 runs after the default 5000, and 200 after 1000.\<close>

lemma unpadded_priorities_misordered:
  "laid_out_by_name [bus_initcall f ''900'', bus_init g] out \<Longrightarrow> out = [bus_init g, bus_initcall f ''900'']"
  "laid_out_by_name [bus_initcall f ''200'', bus_initcall g ''1000''] out \<Longrightarrow>
   out = [bus_initcall g ''1000'', bus_initcall f ''200'']"
  by (erule laid_out_two; simp add: bus_initcall_def bus_init_def define_initcall_def
      INITCALL_PRIO_DEFAULT_def less_char_def)+

text \<open>The symbol of an initcall determines the function, the level and the priority when the
  priorities have one width, so distinct uses in a file do not clash.\<close>

lemma initcall_symbols_distinct:
  assumes "prio_ok w s" "prio_ok w t"
    and "ic_symbol (level_initcall (k, s, f)) = ic_symbol (level_initcall (l, t, g))"
  shows "fst f = fst g \<and> k = l \<and> s = t"
proof -
  have len: "length (level_token l) = 1" for l by (cases l) auto
  have "fst f @ level_token k @ s = fst g @ level_token l @ t"
    using assms(3) by (simp add: level_initcall_eq define_initcall_def)
  moreover have "length (level_token k @ s) = length (level_token l @ t)"
    using assms(1,2) by (simp add: prio_ok_def len)
  ultimately have "fst f = fst g" "level_token k = level_token l" "s = t" using len by auto
  then show ?thesis by (cases k; cases l) auto
qed

section \<open>Iterable sections\<close>

text \<open>
  Addresses of elements of one type, whose size is a parameter; \<open>_<name>_list_start\<close> and
  \<open>_<name>_list_end\<close> are given by the linker. \<open>asserts\<close> says whether \<open>__ASSERT\<close> is compiled in; a
  failed assertion, or a body that does not return, is \<open>None\<close>.
\<close>

partial_function (option) section_foreach ::
  "bool \<Rightarrow> u32 \<Rightarrow> (u32 \<Rightarrow> 's \<Rightarrow> 's option) \<Rightarrow> u32 \<Rightarrow> u32 \<Rightarrow> 's \<Rightarrow> 's option" where
  "section_foreach asserts sz body iterator list_end s =
     (if asserts \<and> \<not> iterator \<le> list_end then None
      else if iterator < list_end
      then Option.bind (body iterator s) (section_foreach asserts sz body (iterator + sz) list_end)
      else Some s)"

definition TYPE_SECTION_FOREACH ::
  "bool \<Rightarrow> u32 \<Rightarrow> u32 \<Rightarrow> u32 \<Rightarrow> (u32 \<Rightarrow> 's \<Rightarrow> 's option) \<Rightarrow> 's \<Rightarrow> 's option" where
  "TYPE_SECTION_FOREACH asserts sz list_start list_end body = section_foreach asserts sz body list_start list_end"

definition TYPE_SECTION_GET :: "u32 \<Rightarrow> u32 \<Rightarrow> u32 \<Rightarrow> u32" where
  "TYPE_SECTION_GET sz list_start i = list_start + i * sz"

definition TYPE_SECTION_COUNT :: "u32 \<Rightarrow> u32 \<Rightarrow> u32 \<Rightarrow> u32" where
  "TYPE_SECTION_COUNT sz list_start list_end = (list_end - list_start) div sz"

fun run_bodies :: "(u32 \<Rightarrow> 's \<Rightarrow> 's option) \<Rightarrow> u32 list \<Rightarrow> 's \<Rightarrow> 's option" where
  "run_bodies body [] s = Some s"
| "run_bodies body (a # as) s = Option.bind (body a s) (run_bodies body as)"

lemma unat_element:
  fixes st sz :: u32
  assumes "unat st + k * unat sz < 2 ^ 32"
  shows "unat (st + of_nat k * sz) = unat st + k * unat sz"
proof -
  have "st + of_nat k * sz = of_nat (unat st + k * unat sz)" by simp
  also have "unat (of_nat (unat st + k * unat sz) :: u32) = unat st + k * unat sz"
    using assms by (simp only: unat_of_nat) (simp add: take_bit_nat_eq_self)
  finally show ?thesis .
qed

lemma foreach_from:
  fixes st sz :: u32
  assumes "sz \<noteq> 0" "k \<le> n" "unat st + n * unat sz < 2 ^ 32"
  shows "section_foreach asserts sz body (st + of_nat k * sz) (st + of_nat n * sz) s =
     run_bodies body (map (\<lambda>i. st + of_nat i * sz) [k..<n]) s"
  using assms(2)
proof (induction "n - k" arbitrary: k s)
  case 0
  then show ?case by (subst section_foreach.simps) simp
next
  case (Suc d)
  have "k * unat sz \<le> n * unat sz" using Suc.prems by (rule mult_le_mono1)
  then have "unat st + k * unat sz < 2 ^ 32" using assms(3) by linarith
  then have k: "unat (st + of_nat k * sz) = unat st + k * unat sz" by (rule unat_element)
  have n: "unat (st + of_nat n * sz) = unat st + n * unat sz" using assms(3) by (rule unat_element)
  have "0 < unat sz" using assms(1) by (simp add: unat_gt_0)
  then have "st + of_nat k * sz < st + of_nat n * sz"
    using Suc.hyps(2) k n by (simp add: word_less_nat_alt)
  moreover have "section_foreach asserts sz body (st + of_nat k * sz + sz) (st + of_nat n * sz) =
      run_bodies body (map (\<lambda>i. st + of_nat i * sz) [Suc k..<n])"
    using Suc.hyps(1) [of "Suc k"] Suc.hyps(2) Suc.prems by (intro ext) (simp add: algebra_simps)
  moreover have "[k..<n] = k # [Suc k..<n]" using Suc.hyps(2) by (simp add: upt_conv_Cons)
  ultimately show ?case by (subst section_foreach.simps) (simp add: order_less_imp_le)
qed

section \<open>Properties\<close>

text \<open>C39: The names that the macros give to sections make the linker's order the documented one when
  all priority tokens have one width, such as the four digits of the comment. However the linker lays the
  initcalls out, as long as it keeps them and sorts the sections by name, the array holds the uses of the
  program, the lower levels first and within a level the smaller priorities first.\<close>

theorem initcalls_run_by_level_and_priority:
  assumes "laid_out_by_name (map level_initcall us) out" "\<forall>(l, prio, fn) \<in> set us. prio_ok w prio"
  shows "\<exists>vs. mset vs = mset us \<and> out = map level_initcall vs
     \<and> sorted_wrt (\<lambda>(k, s, _) (l, t, _). level_rank k < level_rank l \<or> k = l \<and> dec_val s \<le> dec_val t) vs"
proof -
  obtain vs where vs: "mset vs = mset us" "out = map level_initcall vs" "sorted (map (init_rank w) vs)"
    using laid_out_ranks [OF assms] by blast
  have "set vs = set us" using vs(1) by (metis set_mset_mset)
  with assms(2) have ok: "\<And>l s f. (l, s, f) \<in> set vs \<Longrightarrow> prio_ok w s" by blast
  have "sorted_wrt (\<lambda>u v. init_rank w u \<le> init_rank w v) vs" using vs(3) by (simp add: sorted_map)
  then have "sorted_wrt (\<lambda>(k, s, _) (l, t, _). level_rank k < level_rank l \<or> k = l \<and> dec_val s \<le> dec_val t) vs"
    by (rule sorted_wrt_mono_rel [rotated]) (clarify, metis init_rank_order ok)
  with vs show ?thesis by blast
qed

theorem initcalls_run_by_level_and_priority_witness:
  "\<exists>vs. mset vs = {#(Subsys, ''0010'', ''shell'', 1), (Bus, ''0900'', ''spi'', 2), (Bus, ''0100'', ''uart'', 3 :: nat)#}
     \<and> [bus_initcall (''uart'', 3) ''0100'', bus_initcall (''spi'', 2) ''0900'', subsys_initcall (''shell'', 1) ''0010'']
         = map level_initcall vs"
proof -
  let ?us = "[(Subsys, ''0010'', ''shell'', 1), (Bus, ''0900'', ''spi'', 2), (Bus, ''0100'', ''uart'', 3 :: nat)]"
  let ?out = "[bus_initcall (''uart'', 3) ''0100'', bus_initcall (''spi'', 2) ''0900'', subsys_initcall (''shell'', 1 :: nat) ''0010'']"
  have "laid_out_by_name (map level_initcall ?us) ?out"
    by (simp add: laid_out_by_name_def bus_initcall_def subsys_initcall_def define_initcall_def less_char_def)
  from initcalls_run_by_level_and_priority [OF this, of 4] show ?thesis
    by (auto simp: prio_ok_def is_digit_def)
qed

text \<open>Iterating over a section of \<open>n\<close> whole elements that does not wrap around runs the body once on
  the address of each element, in order, and returns; the addresses are those of \<open>TYPE_SECTION_GET\<close>, and
  \<open>TYPE_SECTION_COUNT\<close> is \<open>n\<close>. The assertion never fires.\<close>

theorem section_foreach_visits_each:
  fixes sz st :: u32
  assumes "sz \<noteq> 0" "unat st + n * unat sz < 2 ^ 32"
  shows "TYPE_SECTION_FOREACH asserts sz st (st + of_nat n * sz) body s
       = run_bodies body (map (\<lambda>i. TYPE_SECTION_GET sz st (of_nat i)) [0..<n]) s
     \<and> unat (TYPE_SECTION_COUNT sz st (st + of_nat n * sz)) = n"
proof -
  have "unat (of_nat n * sz) = n * unat sz" using unat_element [of 0 n sz] assms(2) by simp
  then have "unat (TYPE_SECTION_COUNT sz st (st + of_nat n * sz)) = n"
    using assms(1) by (simp add: TYPE_SECTION_COUNT_def unat_div unat_gt_0)
  with foreach_from [of sz 0 n st asserts body s] assms show ?thesis
    by (simp add: TYPE_SECTION_FOREACH_def TYPE_SECTION_GET_def)
qed

theorem section_foreach_visits_each_witness:
  "TYPE_SECTION_FOREACH True 8 0x100 0x118 (\<lambda>a s. Some (s @ [a])) [] = Some [0x100, 0x108, 0x110 :: u32]"
proof -
  have "[0..<3] = [0, 1, 2 :: nat]" by (simp add: upt_rec)
  then show ?thesis
    using section_foreach_visits_each [of 8 "0x100" 3 True "\<lambda>a s. Some (s @ [a])" "[]"]
    by (simp add: TYPE_SECTION_GET_def)
qed

end
