(* ===== verification/Atomic_Inline.thy ===== *)
theory Atomic_Inline
  imports Atomic
begin

text \<open>
  \<open>include/hazel_wireless/sys/atomic_gcc.h\<close>: the inline atomics over the builtins of GCC. Each
  builtin is one step on the memory. All calls are one builtin except the NAND, a load and a
  compare-and-swap in a loop, between which the other threads run; it is a step relation. An
  \<open>atomic_val_t\<close> is an \<open>int32_t\<close>, which as a word is that of \<open>atomic.c\<close>. The memory order of the
  three relaxed, acquire and release accessors is not modelled: their steps interleave like the
  others.
\<close>

section \<open>Builtins\<close>

definition atomic_load_n :: "nat \<Rightarrow> (nat \<Rightarrow> 'v) \<Rightarrow> 'v" where
  "atomic_load_n target m = m target"

definition atomic_store_n :: "nat \<Rightarrow> 'v \<Rightarrow> (nat \<Rightarrow> 'v) \<Rightarrow> nat \<Rightarrow> 'v" where
  "atomic_store_n target v m = m(target := v)"

definition atomic_exchange_n :: "nat \<Rightarrow> 'v \<Rightarrow> (nat \<Rightarrow> 'v) \<Rightarrow> 'v \<times> (nat \<Rightarrow> 'v)" where
  "atomic_exchange_n target v m = (m target, m(target := v))"

text \<open>The strong compare-and-swap also writes the value that it found to \<open>expected\<close>.\<close>

definition atomic_compare_exchange_n ::
  "nat \<Rightarrow> 'v \<Rightarrow> 'v \<Rightarrow> (nat \<Rightarrow> 'v) \<Rightarrow> bool \<times> 'v \<times> (nat \<Rightarrow> 'v)" where
  "atomic_compare_exchange_n target expected desired m =
     (if m target = expected then (True, expected, m(target := desired)) else (False, m target, m))"

definition atomic_fetch_op :: "(u32 \<Rightarrow> u32 \<Rightarrow> u32) \<Rightarrow> nat \<Rightarrow> u32 \<Rightarrow> atomic_mem \<Rightarrow> u32 \<times> atomic_mem" where
  "atomic_fetch_op f target v m = (m target, m(target := f (m target) v))"

section \<open>Calls\<close>

definition inline_atomic_get :: "nat \<Rightarrow> atomic_mem \<Rightarrow> u32" where
  "inline_atomic_get target m = atomic_load_n target m"

definition inline_atomic_set :: "nat \<Rightarrow> u32 \<Rightarrow> atomic_mem \<Rightarrow> u32 \<times> atomic_mem" where
  "inline_atomic_set target v = atomic_exchange_n target v"

definition inline_atomic_clear :: "nat \<Rightarrow> atomic_mem \<Rightarrow> u32 \<times> atomic_mem" where
  "inline_atomic_clear target = inline_atomic_set target 0"

definition inline_atomic_cas :: "nat \<Rightarrow> u32 \<Rightarrow> u32 \<Rightarrow> atomic_mem \<Rightarrow> bool \<times> atomic_mem" where
  "inline_atomic_cas target old_value new_value m =
     (let (ok, _, m) = atomic_compare_exchange_n target old_value new_value m in (ok, m))"

definition inline_atomic_add :: "nat \<Rightarrow> u32 \<Rightarrow> atomic_mem \<Rightarrow> u32 \<times> atomic_mem" where
  "inline_atomic_add target v = atomic_fetch_op (+) target v"

definition inline_atomic_sub :: "nat \<Rightarrow> u32 \<Rightarrow> atomic_mem \<Rightarrow> u32 \<times> atomic_mem" where
  "inline_atomic_sub target v = atomic_fetch_op (-) target v"

definition inline_atomic_inc :: "nat \<Rightarrow> atomic_mem \<Rightarrow> u32 \<times> atomic_mem" where
  "inline_atomic_inc target = atomic_fetch_op (+) target 1"

definition inline_atomic_dec :: "nat \<Rightarrow> atomic_mem \<Rightarrow> u32 \<times> atomic_mem" where
  "inline_atomic_dec target = atomic_fetch_op (-) target 1"

definition inline_atomic_or :: "nat \<Rightarrow> u32 \<Rightarrow> atomic_mem \<Rightarrow> u32 \<times> atomic_mem" where
  "inline_atomic_or target v = atomic_fetch_op (OR) target v"

definition inline_atomic_xor :: "nat \<Rightarrow> u32 \<Rightarrow> atomic_mem \<Rightarrow> u32 \<times> atomic_mem" where
  "inline_atomic_xor target v = atomic_fetch_op (XOR) target v"

definition inline_atomic_and :: "nat \<Rightarrow> u32 \<Rightarrow> atomic_mem \<Rightarrow> u32 \<times> atomic_mem" where
  "inline_atomic_and target v = atomic_fetch_op (AND) target v"

definition inline_atomic_get_relaxed :: "nat \<Rightarrow> atomic_mem \<Rightarrow> u32" where
  "inline_atomic_get_relaxed target m = atomic_load_n target m"

definition inline_atomic_get_acquire :: "nat \<Rightarrow> atomic_mem \<Rightarrow> u32" where
  "inline_atomic_get_acquire target m = atomic_load_n target m"

definition inline_atomic_set_release :: "nat \<Rightarrow> u32 \<Rightarrow> atomic_mem \<Rightarrow> atomic_mem" where
  "inline_atomic_set_release target v = atomic_store_n target v"

subsection \<open>Pointers\<close>

text \<open>An \<open>atomic_ptr_t\<close> is an \<open>intptr_t\<close>, converted from and to \<open>void *\<close>; NULL converts to 0.\<close>

definition inline_atomic_ptr_get :: "nat \<Rightarrow> (nat \<Rightarrow> 'p option) \<Rightarrow> 'p option" where
  "inline_atomic_ptr_get target m = atomic_load_n target m"

definition inline_atomic_ptr_set :: "nat \<Rightarrow> 'p option \<Rightarrow> (nat \<Rightarrow> 'p option) \<Rightarrow> 'p option \<times> (nat \<Rightarrow> 'p option)" where
  "inline_atomic_ptr_set target v = atomic_exchange_n target v"

definition inline_atomic_ptr_clear :: "nat \<Rightarrow> (nat \<Rightarrow> 'p option) \<Rightarrow> 'p option \<times> (nat \<Rightarrow> 'p option)" where
  "inline_atomic_ptr_clear target = inline_atomic_ptr_set target None"

definition inline_atomic_ptr_cas ::
  "nat \<Rightarrow> 'p option \<Rightarrow> 'p option \<Rightarrow> (nat \<Rightarrow> 'p option) \<Rightarrow> bool \<times> (nat \<Rightarrow> 'p option)" where
  "inline_atomic_ptr_cas target old_value new_value m =
     (let (ok, _, m) = atomic_compare_exchange_n target old_value new_value m in (ok, m))"

section \<open>The NAND loop\<close>

text \<open>One turn of the loop: the load, the value to store, the compare-and-swap, whose failure goes back
  to the load.\<close>

definition nand_load :: "nat \<Rightarrow> u32 \<Rightarrow> atomic_mem \<Rightarrow> u32 \<times> u32" where
  "nand_load target v m = (let old = atomic_load_n target m in (old, NOT (old AND v)))"

definition nand_swap :: "nat \<Rightarrow> u32 \<times> u32 \<Rightarrow> atomic_mem \<Rightarrow> bool \<times> atomic_mem" where
  "nand_swap target regs m =
     (case regs of (old, new_val) \<Rightarrow>
        let (ok, _, m) = atomic_compare_exchange_n target old new_val m in (ok, m))"

text \<open>Calls of one step, which return the old value of the variable, or the outcome of the swap.\<close>

datatype inline_call =
    IGet nat | IGetRelaxed nat | IGetAcquire nat | ISet nat u32 | ISetRelease nat u32 | IClear nat
  | ICas nat u32 u32 | IAdd nat u32 | ISub nat u32 | IInc nat | IDec nat
  | IOr nat u32 | IXor nat u32 | IAnd nat u32

datatype inline_result = RUnit | RBool bool | RVal u32

fun inline_step :: "inline_call \<Rightarrow> atomic_mem \<Rightarrow> inline_result \<times> atomic_mem" where
  "inline_step (IGet t) m = (RVal (inline_atomic_get t m), m)"
| "inline_step (IGetRelaxed t) m = (RVal (inline_atomic_get_relaxed t m), m)"
| "inline_step (IGetAcquire t) m = (RVal (inline_atomic_get_acquire t m), m)"
| "inline_step (ISet t v) m = apfst RVal (inline_atomic_set t v m)"
| "inline_step (ISetRelease t v) m = (RUnit, inline_atomic_set_release t v m)"
| "inline_step (IClear t) m = apfst RVal (inline_atomic_clear t m)"
| "inline_step (ICas t a b) m = apfst RBool (inline_atomic_cas t a b m)"
| "inline_step (IAdd t v) m = apfst RVal (inline_atomic_add t v m)"
| "inline_step (ISub t v) m = apfst RVal (inline_atomic_sub t v m)"
| "inline_step (IInc t) m = apfst RVal (inline_atomic_inc t m)"
| "inline_step (IDec t) m = apfst RVal (inline_atomic_dec t m)"
| "inline_step (IOr t v) m = apfst RVal (inline_atomic_or t v m)"
| "inline_step (IXor t v) m = apfst RVal (inline_atomic_xor t v m)"
| "inline_step (IAnd t v) m = apfst RVal (inline_atomic_and t v m)"

text \<open>The same calls of \<open>atomic.c\<close>.\<close>

fun common_step :: "inline_call \<Rightarrow> atomic_mem \<Rightarrow> inline_result \<times> atomic_mem" where
  "common_step (IGet t) m = (RVal (atomic_get t m), m)"
| "common_step (IGetRelaxed t) m = (RVal (atomic_get t m), m)"
| "common_step (IGetAcquire t) m = (RVal (atomic_get t m), m)"
| "common_step (ISet t v) m = apfst RVal (atomic_set t v m)"
| "common_step (ISetRelease t v) m = (RUnit, snd (atomic_set t v m))"
| "common_step (IClear t) m = apfst RVal (atomic_clear t m)"
| "common_step (ICas t a b) m = apfst RBool (atomic_cas t a b m)"
| "common_step (IAdd t v) m = apfst RVal (atomic_add t v m)"
| "common_step (ISub t v) m = apfst RVal (atomic_sub t v m)"
| "common_step (IInc t) m = apfst RVal (atomic_inc t m)"
| "common_step (IDec t) m = apfst RVal (atomic_dec t m)"
| "common_step (IOr t v) m = apfst RVal (atomic_or t v m)"
| "common_step (IXor t v) m = apfst RVal (atomic_xor t v m)"
| "common_step (IAnd t v) m = apfst RVal (atomic_and t v m)"

section \<open>Threads\<close>

text \<open>
  A thread runs its list of calls. \<open>NLoaded\<close> is a thread inside a NAND, between the load and the
  swap. \<open>ps_log\<close> is a ghost log of the calls that took effect, with the thread and the result.
\<close>

datatype atomic_call = One inline_call | Nand nat u32

datatype nand_pc = NIdle | NLoaded "u32 \<times> u32"

record atomic_sys =
  ps_mem :: atomic_mem
  ps_todo :: "nat \<Rightarrow> atomic_call list"
  ps_pc :: "nat \<Rightarrow> nand_pc"
  ps_log :: "(nat \<times> atomic_call \<times> inline_result) list"

inductive atomic_sys_step :: "atomic_sys \<Rightarrow> atomic_sys \<Rightarrow> bool" where
  one:
  "ps_todo s i = One c # cs \<Longrightarrow> inline_step c (ps_mem s) = (r, m) \<Longrightarrow>
   atomic_sys_step s (s\<lparr>ps_mem := m, ps_todo := (ps_todo s)(i := cs), ps_log := ps_log s @ [(i, One c, r)]\<rparr>)"
| nand_load:
  "ps_todo s i = Nand t v # cs \<Longrightarrow> ps_pc s i = NIdle \<Longrightarrow>
   atomic_sys_step s (s\<lparr>ps_pc := (ps_pc s)(i := NLoaded (nand_load t v (ps_mem s)))\<rparr>)"
| nand_swap:
  "ps_todo s i = Nand t v # cs \<Longrightarrow> ps_pc s i = NLoaded regs \<Longrightarrow> nand_swap t regs (ps_mem s) = (True, m) \<Longrightarrow>
   atomic_sys_step s (s\<lparr>ps_mem := m, ps_todo := (ps_todo s)(i := cs), ps_pc := (ps_pc s)(i := NIdle),
     ps_log := ps_log s @ [(i, Nand t v, RVal (fst regs))]\<rparr>)"
| nand_retry:
  "ps_todo s i = Nand t v # cs \<Longrightarrow> ps_pc s i = NLoaded regs \<Longrightarrow> nand_swap t regs (ps_mem s) = (False, m) \<Longrightarrow>
   atomic_sys_step s (s\<lparr>ps_mem := m, ps_pc := (ps_pc s)(i := NIdle)\<rparr>)"

inductive atomic_sys_reachable :: "atomic_mem \<Rightarrow> (nat \<Rightarrow> atomic_call list) \<Rightarrow> atomic_sys \<Rightarrow> bool"
  for m0 :: atomic_mem and todo :: "nat \<Rightarrow> atomic_call list" where
  start:
  "atomic_sys_reachable m0 todo \<lparr>ps_mem = m0, ps_todo = todo, ps_pc = \<lambda>_. NIdle, ps_log = []\<rparr>"
| step: "atomic_sys_reachable m0 todo s \<Longrightarrow> atomic_sys_step s s' \<Longrightarrow> atomic_sys_reachable m0 todo s'"

text \<open>The calls of the log, run one after the other on the functions of \<open>atomic.c\<close>.\<close>

fun common_call :: "atomic_call \<Rightarrow> atomic_mem \<Rightarrow> inline_result \<times> atomic_mem" where
  "common_call (One c) m = common_step c m"
| "common_call (Nand t v) m = apfst RVal (atomic_nand t v m)"

lemma inline_step_eq: "inline_step c m = common_step c m"
  by (cases c) (simp_all add: inline_atomic_get_def inline_atomic_get_relaxed_def inline_atomic_get_acquire_def
      inline_atomic_set_def inline_atomic_set_release_def inline_atomic_clear_def inline_atomic_cas_def
      inline_atomic_add_def inline_atomic_sub_def inline_atomic_inc_def inline_atomic_dec_def
      inline_atomic_or_def inline_atomic_xor_def inline_atomic_and_def atomic_load_n_def atomic_store_n_def
      atomic_exchange_n_def atomic_compare_exchange_n_def atomic_fetch_op_def atomic_get_def atomic_set_def
      atomic_clear_def atomic_cas_def atomic_add_def atomic_sub_def atomic_inc_def atomic_dec_def
      atomic_or_def atomic_xor_def atomic_and_def)

text \<open>The pointer calls are those of \<open>atomic.c\<close> as well.\<close>

lemma inline_ptr_eq:
  "inline_atomic_ptr_get target m = atomic_ptr_get target m"
  "inline_atomic_ptr_set target p m = atomic_ptr_set target p m"
  "inline_atomic_ptr_clear target m = atomic_ptr_clear target m"
  "inline_atomic_ptr_cas target p q m = atomic_ptr_cas target p q m"
  by (simp_all add: inline_atomic_ptr_get_def inline_atomic_ptr_set_def inline_atomic_ptr_clear_def
      inline_atomic_ptr_cas_def atomic_load_n_def atomic_exchange_n_def atomic_compare_exchange_n_def
      atomic_ptr_get_def atomic_ptr_set_def atomic_ptr_clear_def atomic_ptr_cas_def)

text \<open>A swap that succeeds is the NAND at that moment, whatever ran since the load.\<close>

lemma nand_swap_linearises:
  assumes "nand_swap t (nand_load t v m0) m = (True, m')"
  shows "atomic_nand t v m = (fst (nand_load t v m0), m')"
  using assms by (auto simp: nand_swap_def nand_load_def atomic_load_n_def atomic_compare_exchange_n_def
      atomic_nand_def Let_def split: if_splits)

lemma nand_swap_fails:
  assumes "nand_swap t (nand_load t v m0) m = (False, m')"
  shows "m' = m \<and> m t \<noteq> m0 t"
  using assms by (auto simp: nand_swap_def nand_load_def atomic_load_n_def atomic_compare_exchange_n_def
      Let_def split: if_splits)

text \<open>What every step keeps.\<close>

definition atomic_sys_inv :: "atomic_mem \<Rightarrow> (nat \<Rightarrow> atomic_call list) \<Rightarrow> atomic_sys \<Rightarrow> bool" where
  "atomic_sys_inv m0 todo s \<longleftrightarrow>
     run_calls common_call (map (fst \<circ> snd) (ps_log s)) m0 = (map (snd \<circ> snd) (ps_log s), ps_mem s)
     \<and> (\<forall>i. todo i = map (fst \<circ> snd) (filter (\<lambda>e. fst e = i) (ps_log s)) @ ps_todo s i)
     \<and> (\<forall>i regs. ps_pc s i = NLoaded regs \<longrightarrow>
          (\<exists>t v cs m. ps_todo s i = Nand t v # cs \<and> regs = nand_load t v m))"

lemma run_calls_snoc:
  "run_calls f (cs @ [c]) m =
     (let (rs, m1) = run_calls f cs m; (r, m2) = f c m1 in (rs @ [r], m2))"
  by (induction cs arbitrary: m) (simp_all add: split_beta)

lemma atomic_sys_inv_loaded:
  assumes "atomic_sys_inv m0 todo s" "ps_todo s i = Nand t v # cs" "ps_pc s i = NLoaded regs"
  shows "\<exists>m. regs = nand_load t v m"
  using assms unfolding atomic_sys_inv_def by (metis atomic_call.inject(2) list.inject)

lemma atomic_sys_inv_step:
  assumes "atomic_sys_step s s'" "atomic_sys_inv m0 todo s"
  shows "atomic_sys_inv m0 todo s'"
  using assms
proof (cases rule: atomic_sys_step.cases)
  case (one i c cs r m)
  have "ps_pc s i = NIdle"
    using assms(2) one(2) by (cases "ps_pc s i") (fastforce simp: atomic_sys_inv_def)+
  then show ?thesis using assms(2) one
    by (auto simp: atomic_sys_inv_def run_calls_snoc inline_step_eq)
next
  case (nand_load i t v cs)
  then show ?thesis using assms(2) by (auto simp: atomic_sys_inv_def intro!: exI [of _ "ps_mem s"])
next
  case (nand_swap i t v cs regs m)
  obtain m1 where "regs = nand_load t v m1"
    using atomic_sys_inv_loaded [OF assms(2) nand_swap(2,3)] by blast
  then have "atomic_nand t v (ps_mem s) = (fst regs, m)"
    using nand_swap_linearises nand_swap(4) by blast
  then show ?thesis using assms(2) nand_swap
    by (auto simp: atomic_sys_inv_def run_calls_snoc)
next
  case (nand_retry i t v cs regs m)
  obtain m1 where "regs = nand_load t v m1"
    using atomic_sys_inv_loaded [OF assms(2) nand_retry(2,3)] by blast
  then have "m = ps_mem s" using nand_swap_fails nand_retry(4) by blast
  then show ?thesis using assms(2) nand_retry by (auto simp: atomic_sys_inv_def)
qed

lemma atomic_sys_reachable_inv: "atomic_sys_reachable m0 todo s \<Longrightarrow> atomic_sys_inv m0 todo s"
proof (induction rule: atomic_sys_reachable.induct)
  case start
  then show ?case by (simp add: atomic_sys_inv_def)
next
  case (step s s')
  then show ?case using atomic_sys_inv_step by blast
qed

text \<open>A swap fails only when the variable changed since the load, so a thread that runs alone leaves
  the loop in its first or its second turn.\<close>

lemma nand_turn_returns:
  assumes "ps_todo s i = Nand t v # cs" "ps_pc s i = NIdle"
  shows "\<exists>s'. atomic_sys_step\<^sup>*\<^sup>* s s' \<and> ps_todo s' = (ps_todo s)(i := cs) \<and> ps_pc s' = (ps_pc s)(i := NIdle)
     \<and> ps_log s' = ps_log s @ [(i, Nand t v, RVal (ps_mem s t))]"
proof -
  let ?s1 = "s\<lparr>ps_pc := (ps_pc s)(i := NLoaded (nand_load t v (ps_mem s)))\<rparr>"
  let ?m = "(ps_mem s)(t := NOT (ps_mem s t AND v))"
  have load: "atomic_sys_step s ?s1" using assms by (rule atomic_sys_step.nand_load)
  have "nand_swap t (nand_load t v (ps_mem s)) (ps_mem s) = (True, ?m)"
    by (simp add: nand_swap_def nand_load_def atomic_load_n_def atomic_compare_exchange_n_def Let_def)
  then have "atomic_sys_step ?s1 (?s1\<lparr>ps_mem := ?m, ps_todo := (ps_todo s)(i := cs), ps_pc := (ps_pc ?s1)(i := NIdle),
     ps_log := ps_log s @ [(i, Nand t v, RVal (fst (nand_load t v (ps_mem s))))]\<rparr>)" (is "atomic_sys_step _ ?s2")
    using atomic_sys_step.nand_swap [of ?s1 i t v cs "nand_load t v (ps_mem s)" ?m] assms(1) by simp
  with load have "atomic_sys_step\<^sup>*\<^sup>* s ?s2" by (meson converse_rtranclp_into_rtranclp rtranclp.rtrancl_refl)
  then show ?thesis
    by (intro exI [of _ ?s2]) (simp add: nand_load_def atomic_load_n_def Let_def)
qed

lemma nand_alone_returns:
  assumes todo: "ps_todo s i = Nand t v # cs"
  shows "\<exists>s' r. atomic_sys_step\<^sup>*\<^sup>* s s' \<and> ps_todo s' = (ps_todo s)(i := cs) \<and> ps_pc s' = (ps_pc s)(i := NIdle)
     \<and> ps_log s' = ps_log s @ [(i, Nand t v, RVal r)]"
proof (cases "ps_pc s i")
  case NIdle
  from nand_turn_returns [OF todo this] show ?thesis by blast
next
  case (NLoaded regs)
  obtain ok m where swap: "nand_swap t regs (ps_mem s) = (ok, m)" by fastforce
  show ?thesis
  proof (cases ok)
    case True
    with swap atomic_sys_step.nand_swap [OF todo NLoaded, of m] show ?thesis
      by (intro exI [of _ "s\<lparr>ps_mem := m, ps_todo := (ps_todo s)(i := cs), ps_pc := (ps_pc s)(i := NIdle),
          ps_log := ps_log s @ [(i, Nand t v, RVal (fst regs))]\<rparr>"]) auto
  next
    case False
    let ?s1 = "s\<lparr>ps_mem := m, ps_pc := (ps_pc s)(i := NIdle)\<rparr>"
    have retry: "atomic_sys_step s ?s1" using swap False by (intro atomic_sys_step.nand_retry [OF todo NLoaded]) simp
    obtain s' r where s': "atomic_sys_step\<^sup>*\<^sup>* ?s1 s'" "ps_todo s' = (ps_todo s)(i := cs)"
        "ps_pc s' = (ps_pc s)(i := NIdle)" "ps_log s' = ps_log s @ [(i, Nand t v, RVal r)]"
      using nand_turn_returns [of ?s1 i t v cs] todo by auto
    from retry s'(1) have "atomic_sys_step\<^sup>*\<^sup>* s s'" by (rule converse_rtranclp_into_rtranclp)
    with s' show ?thesis by blast
  qed
qed

section \<open>Properties\<close>

text \<open>C40: The inline atomics are linearisable to those of \<open>atomic.c\<close>. Threads run any lists of inline
  calls, every builtin is one step and the NAND loads and swaps in separate steps; at every moment
  the memory and all the results returned so far are those of some one-at-a-time execution of the
  functions of \<open>atomic.c\<close> that contains each thread's calls in its order; and from every such moment
  a thread that runs alone leaves the NAND loop.\<close>

theorem inline_atomics_linearise:
  assumes "atomic_sys_reachable m0 todo s"
  shows "run_calls common_call (map (fst \<circ> snd) (ps_log s)) m0 = (map (snd \<circ> snd) (ps_log s), ps_mem s)
    \<and> todo i = map (fst \<circ> snd) (filter (\<lambda>e. fst e = i) (ps_log s)) @ ps_todo s i
    \<and> (ps_todo s i = Nand t v # cs \<longrightarrow>
        (\<exists>s' r. atomic_sys_step\<^sup>*\<^sup>* s s' \<and> ps_todo s' = (ps_todo s)(i := cs) \<and> ps_pc s' = (ps_pc s)(i := NIdle)
           \<and> ps_log s' = ps_log s @ [(i, Nand t v, RVal r)]))"
  using atomic_sys_reachable_inv [OF assms] nand_alone_returns [of s i t v cs]
  by (simp add: atomic_sys_inv_def)

theorem inline_atomics_linearise_witness:
  "\<exists>s. atomic_sys_reachable (\<lambda>_. 0xFF) (\<lambda>i. if i = 0 then [Nand 3 0x0F] else [One (IInc 3)]) s
     \<and> run_calls common_call (map (fst \<circ> snd) (ps_log s)) (\<lambda>_. 0xFF) = (map (snd \<circ> snd) (ps_log s), ps_mem s)
     \<and> length (ps_log s) = 1"
proof -
  let ?todo = "\<lambda>i :: nat. if i = 0 then [Nand 3 0x0F] else [One (IInc 3)]"
  let ?s = "\<lparr>ps_mem = \<lambda>_. 0xFF, ps_todo = ?todo, ps_pc = \<lambda>_. NIdle, ps_log = []\<rparr>"
  have r: "atomic_sys_reachable (\<lambda>_. 0xFF) ?todo ?s" by (rule atomic_sys_reachable.start)
  from inline_atomics_linearise [OF this, of 0 3 "0x0F" "[]"]
  obtain s' where s': "atomic_sys_step\<^sup>*\<^sup>* ?s s'" "length (ps_log s') = 1" by auto
  from s'(1) have "atomic_sys_reachable (\<lambda>_. 0xFF) ?todo s'"
    by (induction rule: rtranclp_induct) (auto intro: r atomic_sys_reachable.step)
  with inline_atomics_linearise [OF this] s'(2) show ?thesis by blast
qed

end
