(* ===== verification/Util_Bits.thy ===== *)
theory Util_Bits
  imports Util_Arith
begin

text \<open>
  The run-time bit macros of \<open>include/hazel_wireless/sys/util_macro.h\<close>, on \<open>unsigned long\<close> values
  of 32 bits and, for the \<open>BIT64\<close> pair, \<open>unsigned long long\<close>. A shift by the width or more and a
  division by zero are undefined in C and \<open>None\<close> here.
\<close>

section \<open>Macros\<close>

definition BIT :: "nat \<Rightarrow> u32 option" where
  "BIT n = (if n < 32 then Some (push_bit n 1) else None)"

definition BIT64 :: "nat \<Rightarrow> 64 word option" where
  "BIT64 n = (if n < 64 then Some (push_bit n 1) else None)"

definition WRITE_BIT :: "u32 \<Rightarrow> nat \<Rightarrow> bool \<Rightarrow> u32 option" where
  "WRITE_BIT var b st =
     (if b < 32 then let m = push_bit b 1 in Some (if st then var OR m else var AND NOT m) else None)"

definition BIT_MASK :: "nat \<Rightarrow> u32 option" where
  "BIT_MASK n = map_option (\<lambda>b. b - 1) (BIT n)"

definition BIT64_MASK :: "nat \<Rightarrow> 64 word option" where
  "BIT64_MASK n = map_option (\<lambda>b. b - 1) (BIT64 n)"

definition IS_POWER_OF_TWO :: "u32 \<Rightarrow> bool" where
  "IS_POWER_OF_TWO x \<longleftrightarrow> x \<noteq> 0 \<and> x AND (x - 1) = 0"

definition IS_SHIFTED_BIT_MASK :: "u32 \<Rightarrow> nat \<Rightarrow> bool option" where
  "IS_SHIFTED_BIT_MASK m s =
     (if s < 32 then Some (drop_bit s m AND (drop_bit s m + 1) = 0) else None)"

definition IS_BIT_MASK :: "u32 \<Rightarrow> bool option" where
  "IS_BIT_MASK m = IS_SHIFTED_BIT_MASK m 0"

definition IS_BIT_SET :: "u32 \<Rightarrow> nat \<Rightarrow> bool option" where
  "IS_BIT_SET val b = (if b < 32 then Some (drop_bit b val AND 1 \<noteq> 0) else None)"

definition LSB_GET :: "u32 \<Rightarrow> u32" where
  "LSB_GET val = val AND - val"

definition FIELD_GET :: "u32 \<Rightarrow> u32 \<Rightarrow> u32 option" where
  "FIELD_GET m val = (if LSB_GET m = 0 then None else Some ((val AND m) div LSB_GET m))"

definition FIELD_PREP :: "u32 \<Rightarrow> u32 \<Rightarrow> u32" where
  "FIELD_PREP m val = (val * LSB_GET m) AND m"

section \<open>The lowest bit\<close>

text \<open>\<open>lowest w s\<close>: bit \<open>s\<close> is the lowest one of \<open>w\<close>.\<close>

definition lowest :: "u32 \<Rightarrow> nat \<Rightarrow> bool" where
  "lowest w s \<longleftrightarrow> bit w s \<and> (\<forall>i < s. \<not> bit w i)"

lemma lowest_less: "lowest w s \<Longrightarrow> s < 32"
  by (auto simp: lowest_def dest: bit_imp_le_length)

lemma lowest_exists: "w \<noteq> 0 \<Longrightarrow> \<exists>s. lowest w s"
proof -
  assume "w \<noteq> 0"
  then obtain k where "bit w k" by (auto simp: bit_eq_iff)
  then have "lowest w (LEAST i. bit w i)" unfolding lowest_def by (metis LeastI not_less_Least)
  then show ?thesis ..
qed

lemma bit_one_shifted: "bit (2 ^ s :: u32) i \<longleftrightarrow> i = s \<and> i < 32"
  by (auto simp: bit_exp_iff)

text \<open>Subtracting one clears the lowest bit and sets those below.\<close>

lemma pred_lowest:
  assumes s: "lowest w s"
  shows "w - 1 = (w AND NOT (2 ^ s)) OR mask s"
proof -
  note s32 = lowest_less [OF s]
  have "(w AND NOT (2 ^ s)) AND 2 ^ s = 0"
    by (rule bit_word_eqI) (auto simp: bit_simps)
  then have "(w AND NOT (2 ^ s)) + 2 ^ s = (w AND NOT (2 ^ s)) OR 2 ^ s" by (rule disjunctive_add_eq_or)
  also have "\<dots> = w" using s s32
    by (intro bit_word_eqI) (auto simp: bit_and_iff bit_or_iff bit_not_iff bit_one_shifted lowest_def)
  finally have w: "w = (w AND NOT (2 ^ s)) + 2 ^ s" ..
  have "(w AND NOT (2 ^ s)) AND mask s = 0"
    using s by (intro bit_word_eqI) (auto simp: bit_and_iff bit_not_iff bit_mask_iff lowest_def)
  then have "(w AND NOT (2 ^ s)) + mask s = (w AND NOT (2 ^ s)) OR mask s" by (rule disjunctive_add_eq_or)
  moreover have "w - 1 = (w AND NOT (2 ^ s)) + mask s"
    by (subst w) (simp add: mask_eq_exp_minus_1)
  ultimately show ?thesis by simp
qed

lemma and_pred_lowest:
  assumes s: "lowest w s"
  shows "w AND (w - 1) = w AND NOT (2 ^ s)"
  unfolding pred_lowest [OF s] using s
  by (intro bit_word_eqI) (auto simp: bit_and_iff bit_or_iff bit_not_iff bit_mask_iff lowest_def)

lemma LSB_GET_lowest:
  assumes s: "lowest w s"
  shows "LSB_GET w = 2 ^ s"
proof -
  have "- w = NOT (w - 1)" by (simp add: minus_eq_not_minus_1)
  then have "LSB_GET w = w AND NOT ((w AND NOT (2 ^ s)) OR mask s)"
    by (simp add: LSB_GET_def pred_lowest [OF s])
  also have "\<dots> = 2 ^ s" using s lowest_less [OF s]
    by (intro bit_word_eqI)
      (auto simp: bit_and_iff bit_or_iff bit_not_iff bit_mask_iff bit_one_shifted lowest_def)
  finally show ?thesis .
qed

lemma LSB_GET_zero: "LSB_GET w = 0 \<longleftrightarrow> w = 0"
proof (cases "w = 0")
  case False
  then obtain s where s: "lowest w s" using lowest_exists by blast
  have "bit (LSB_GET w) s" using lowest_less [OF s] by (simp add: LSB_GET_lowest [OF s] bit_one_shifted)
  with False show ?thesis by auto
qed (simp add: LSB_GET_def)

lemma bit_within: "x AND NOT y = 0 \<Longrightarrow> bit x i \<Longrightarrow> bit y i" for x y :: u32
proof -
  assume z: "x AND NOT y = 0" and b: "bit x i"
  have "\<not> bit (x AND NOT y) i" by (simp add: z)
  with b bit_imp_le_length [OF b] show "bit y i" by (simp add: bit_and_iff bit_not_iff)
qed

section \<open>Single bits and masks\<close>

lemma power_of_two_iff: "IS_POWER_OF_TWO x \<longleftrightarrow> (\<exists>k < 32. x = 2 ^ k)"
proof
  assume p: "IS_POWER_OF_TWO x"
  then obtain s where s: "lowest x s" using lowest_exists by (auto simp: IS_POWER_OF_TWO_def)
  have "x AND NOT (2 ^ s) = 0" using p and_pred_lowest [OF s] by (simp add: IS_POWER_OF_TWO_def)
  then have "bit x i \<longleftrightarrow> i = s" if "i < 32" for i
    using that s bit_within [OF \<open>x AND NOT (2 ^ s) = 0\<close>, of i] by (auto simp: bit_one_shifted lowest_def)
  then have "x = 2 ^ s" by (intro bit_word_eqI) (simp add: bit_one_shifted)
  with lowest_less [OF s] show "\<exists>k < 32. x = 2 ^ k" by blast
next
  assume "\<exists>k < 32. x = 2 ^ k"
  then obtain k where k: "k < 32" "x = 2 ^ k" by blast
  then have s: "lowest x k" by (simp add: lowest_def bit_one_shifted)
  then have "x AND (x - 1) = 0" by (simp add: and_pred_lowest k(2)) 
  moreover have "x \<noteq> 0" using s by (auto simp: lowest_def)
  ultimately show "IS_POWER_OF_TWO x" by (simp add: IS_POWER_OF_TWO_def)
qed

lemma bit_mask_iff_pred: "y AND (y + 1) = 0 \<longleftrightarrow> (\<exists>k \<le> 32. (y :: u32) = mask k)"
proof (cases "y + 1 = 0")
  case True
  then have "y = - 1" by (simp add: add_eq_0_iff2)
  then have "y = mask 32" by (simp add: mask_eq_exp_minus_1)
  with True show ?thesis by auto
next
  case False
  have "y AND (y + 1) = 0 \<longleftrightarrow> IS_POWER_OF_TWO (y + 1)"
    using False by (simp add: IS_POWER_OF_TWO_def and.commute)
  also have "\<dots> \<longleftrightarrow> (\<exists>k < 32. y = mask k)"
    by (simp add: power_of_two_iff mask_eq_exp_minus_1 eq_diff_eq)
  also have "\<dots> \<longleftrightarrow> (\<exists>k \<le> 32. y = mask k)"
  proof
    assume "\<exists>k \<le> 32. y = mask k"
    then obtain k where k: "k \<le> 32" "y = mask k" by blast
    then have "k \<noteq> 32" using False by (auto simp: mask_eq_exp_minus_1)
    with k show "\<exists>k < 32. y = mask k" by (intro exI [of _ k]) simp
  qed (auto intro: less_imp_le)
  finally show ?thesis .
qed

lemma shifted_mask_iff:
  "s < 32 \<Longrightarrow> IS_SHIFTED_BIT_MASK m s = Some (\<exists>k \<le> 32. drop_bit s m = mask k)"
  by (simp add: IS_SHIFTED_BIT_MASK_def bit_mask_iff_pred)

lemma write_bit_then_test:
  assumes "b < 32" "i < 32"
  shows "\<exists>w. WRITE_BIT v b st = Some w \<and> IS_BIT_SET w i = Some (if i = b then st else bit v i)"
proof -
  have bit0: "drop_bit i w AND 1 \<noteq> 0 \<longleftrightarrow> bit w i" for w :: u32
  proof -
    have "drop_bit i w AND 1 = of_bool (bit w i)" by (simp add: and_one_eq bit_iff_odd_drop_bit mod2_eq_if)
    then show ?thesis by simp
  qed
  show ?thesis using assms
    by (auto simp: WRITE_BIT_def IS_BIT_SET_def bit0 Let_def bit_or_iff bit_and_iff bit_not_iff bit_one_shifted)
qed

section \<open>Fields\<close>

lemma field_get_drop:
  assumes "lowest m s"
  shows "FIELD_GET m w = Some (drop_bit s (w AND m))"
  using LSB_GET_lowest [OF assms] LSB_GET_zero [of m] assms
  by (auto simp: FIELD_GET_def lowest_def drop_bit_eq_div)

lemma field_prep_push:
  assumes "lowest m s"
  shows "FIELD_PREP m v = push_bit s v AND m"
  by (simp add: FIELD_PREP_def LSB_GET_lowest [OF assms] push_bit_eq_mult)

lemma field_get_prep:
  assumes s: "lowest m s" and w: "w AND m = 0"
  shows "FIELD_GET m (FIELD_PREP m v OR w) = Some (v AND drop_bit s m)"
proof -
  have "bit (FIELD_PREP m v OR w) i \<longleftrightarrow> s \<le> i \<and> bit v (i - s)" if "bit m i" for i
    using that arg_cong [OF w, of "\<lambda>w. bit w i"] bit_imp_le_length [OF that] s
    by (auto simp: field_prep_push [OF s] bit_or_iff bit_and_iff bit_push_bit_iff lowest_def not_less)
  then show ?thesis unfolding field_get_drop [OF s]
    by (intro arg_cong [where f = Some] bit_word_eqI)
      (simp only: bit_drop_bit_eq bit_and_iff o_apply, auto)
qed

lemma field_prep_outside: "m AND m' = 0 \<Longrightarrow> FIELD_PREP m v AND m' = 0"
  by (simp add: FIELD_PREP_def and.assoc)

section \<open>Property\<close>

text \<open>Bit fields of disjoint masks do not disturb each other. When two prepared fields are combined
  with OR, as the comment asks, reading either gives back the value stored, cut to the bits that its
  mask has from its lowest one up, so a value that fits comes back unchanged; a zero mask is a
  division by zero.\<close>

theorem fields_roundtrip:
  assumes "m AND m' = 0" "m \<noteq> 0"
  shows "\<exists>s < 32. bit m s \<and> (\<forall>i < s. \<not> bit m i)
     \<and> FIELD_GET m (FIELD_PREP m v OR FIELD_PREP m' v') = Some (v AND drop_bit s m)
     \<and> (v AND NOT (drop_bit s m) = 0 \<longrightarrow> FIELD_GET m (FIELD_PREP m v OR FIELD_PREP m' v') = Some v)"
proof -
  obtain s where s: "lowest m s" using assms(2) lowest_exists by blast
  have "FIELD_PREP m' v' AND m = 0" using assms(1) by (intro field_prep_outside) (simp add: and.commute)
  then have get: "FIELD_GET m (FIELD_PREP m v OR FIELD_PREP m' v') = Some (v AND drop_bit s m)"
    by (rule field_get_prep [OF s])
  have "v AND drop_bit s m = v" if "v AND NOT (drop_bit s m) = 0"
    using bit_within [OF that] by (intro bit_word_eqI) (auto simp only: bit_and_iff)
  with get s lowest_less [OF s] show ?thesis by (auto simp: lowest_def)
qed

theorem fields_roundtrip_witness:
  "FIELD_GET 0xF0 (FIELD_PREP 0xF0 9 OR FIELD_PREP 0x0F 5) = Some 9"
proof -
  have "(0xF0 :: u32) AND 0x0F = 0" "(0xF0 :: u32) \<noteq> 0" by simp_all
  from fields_roundtrip [OF this, of 9 5] obtain s where s: "bit (0xF0 :: u32) s" "\<forall>i < s. \<not> bit (0xF0 :: u32) i"
      "FIELD_GET 0xF0 (FIELD_PREP 0xF0 9 OR FIELD_PREP 0x0F 5) = Some (9 AND drop_bit s 0xF0)" by blast
  have "bit (0xF0 :: u32) 4" by simp
  with s(2) have "\<not> 4 < s" by blast
  then have "s \<in> {0, 1, 2, 3, 4}" by auto
  with s(1) have "s = 4" by auto
  with s(3) show ?thesis by simp
qed

end
