(* ===== verification/Spec2Isabelle.thy ===== *)
theory Spec2Isabelle
  imports Msgq_Interleaving Fifo_Interleaving Mem_Slab_Interleaving Signal Sem_Zephyr Time Work_Stop Byteorder
    Mutex_Races Thread_Lifecycle Event_Contract Kernel_Control Rt_Waitq Rt_Create Rt_Mutex Slist_Loops Atomic
    Dlist_Ranges Util_Arith Rt_Lifecycle Portable Mutex_Backends Return_Codes Linker_Sections Atomic_Inline Util_Bits
begin

text \<open>
  The Hazel operating-system abstraction layer: one C interface, \<open>include/hazel_wireless/kernel.h\<close>,
  over FreeRTOS, RT-Thread and Zephyr. This library models the implementation, from the intrusive
  lists up to the work queues, and proves what makes each part correct.

  \<^bold>\<open>The program and its parts.\<close> \<open>src/osal_freertos\<close>, \<open>src/osal_rtthread\<close> and \<open>src/zephyr\<close> adapt one
  kernel each: semaphores, mutexes, wait queues, threads, event groups, time, memory, critical
  sections and scheduler control. \<open>src/common\<close> is written once over that interface: message queue,
  FIFO, memory slab, signal and work queue use a counting semaphore to wait and a critical section
  to change their own state. The lists of \<open>sys/dlist.h\<close> link FIFO nodes, waiting threads, owned
  mutexes and delayed work. The kernels themselves are not in the repository.

  \<^bold>\<open>How code becomes definitions.\<close> A definition has the name of the C function it translates, with
  \<open>freertos_\<close>, \<open>rt_\<close> or \<open>zephyr_\<close> in front where the backends define the same name. A struct is a
  record, a pointer that may be NULL an option, an error number a negative \<open>int\<close>, an integer a word
  of its width (pointers, \<open>size_t\<close> and \<open>long\<close> have 32 bits). A read or write through NULL, an access
  out of a buffer and a loop that never ends make a definition \<open>None\<close>, so every refinement theorem
  is also a memory-safety theorem. Code between entering and leaving a critical section is one
  definition, called a section; a blocking call is its sections with the wait between them, and an
  interleaving theory is a step relation that runs sections of any number of threads and interrupts
  in any order. \<open>isr\<close> says that the caller is an interrupt handler. A kernel is a record of functions
  whose documented laws are a locale; each locale is interpreted on the adapters of the repository
  and on a small kernel that keeps the laws, which is what the witnesses run on.

  \<^bold>\<open>Which theory models what.\<close>
  \<^item> \<open>Osal_Prelude\<close>: C types, \<open>errno\<close>, the byte loops of \<open>common/internal.h\<close>, buffers, words.
  \<^item> \<open>Dlist\<close>, \<open>Dlist_Ranges\<close>: \<open>sys/dlist.h\<close> on pointers; \<open>dlist_rep\<close> and the locale \<open>dlist_family\<close>
    relate a heap to the sequences its lists hold. \<open>Slist\<close>, \<open>Slist_Loops\<close>: \<open>sys/slist.h\<close> and the loops
    and containers of \<open>sys/list_gen.h\<close>.
  \<^item> \<open>Atomic\<close>: \<open>common/atomic.c\<close> and the bit operations of \<open>sys/atomic.h\<close>. \<open>Byteorder\<close>:
    \<open>sys/byteorder.h\<close>. \<open>Util_Arith\<close>: the arithmetic of \<open>sys/util.h\<close>; \<open>Util_Bits\<close>: the bit and field
    macros of \<open>sys/util_macro.h\<close>. \<open>Atomic_Inline\<close>: \<open>sys/atomic_gcc.h\<close>, with the steps of its NAND loop
    interleaved. \<open>Linker_Sections\<close>: the names that \<open>sys/init.h\<close> gives to initcalls, what any linker
    that sorts sections by name makes of them, and the loop over a section of
    \<open>sys/iterable_sections.h\<close>.
  \<^item> \<open>Semaphore\<close>: the portable contract (\<open>os_sem_contract\<close>); \<open>Sem_FreeRTOS\<close>, \<open>Sem_RTThread\<close>,
    \<open>Sem_Zephyr\<close>: the three \<open>semaphore.c\<close>, each an instance of it over the kernel's laws;
    \<open>Native_Semaphore\<close>: a kernel that keeps them.
  \<^item> \<open>Message_Queue\<close>, \<open>Fifo\<close>, \<open>Mem_Slab\<close>, \<open>Signal\<close>: the modules of \<open>src/common\<close> with the abstract
    queue, free list and mailbox they implement; \<open>Msgq_Interleaving\<close>, \<open>Fifo_Interleaving\<close> and
    \<open>Mem_Slab_Interleaving\<close> let any number of callers preempt each other between the sections.
    \<open>Portable\<close> puts the objects of a client together, starts them and runs the same program over the
    three adapters; \<open>Return_Codes\<close> types the codes that each call returns, by the caller's context and
    timeout, and compares them with the ones \<open>kernel.h\<close> documents.
  \<^item> \<open>Work_Queue\<close>: every function of \<open>common/work_queue.c\<close>. \<open>Work_Invariant\<close> and \<open>Work_Sections\<close>
    show that each section keeps the invariant of flags and lists, \<open>Work_Interleaving\<close> runs clients,
    interrupts and workers together, \<open>Work_Calls\<close> follows whole calls, \<open>Work_Races\<close> and \<open>Work_Stop\<close>
    the orders of calls in which the code gives less than it documents.
  \<^item> \<open>Thread_FreeRTOS\<close>: \<open>thread.c\<close>, \<open>waitq.c\<close> and \<open>mutex.c\<close> of FreeRTOS on one memory.
    \<open>Waitq_FreeRTOS\<close> has the kernel's laws (\<open>fr_kernel\<close>), \<open>Priority_Inheritance\<close> the priority
    computation, \<open>Mutex_Sections\<close> and \<open>Thread_Setup\<close> what each section and each creation preserves,
    \<open>Mutex_Interleaving\<close> the reachable states, \<open>Mutex_Properties\<close> and \<open>Mutex_Inheritance\<close> what they
    mean to callers (the locale \<open>fr_kernel_wake\<close> adds which task a notification wakes), \<open>Mutex_Races\<close> where they mean less, \<open>Thread_Lifecycle\<close> the end of a thread,
    \<open>Ref_Tasks\<close> a kernel that keeps the laws.
  \<^item> \<open>Rt_Threads\<close>: \<open>thread.c\<close> and \<open>waitq.c\<close> of RT-Thread; \<open>Rt_Kernel\<close> the laws (\<open>rt_kernel\<close>) and a
    kernel that keeps them; \<open>Rt_Waitq\<close> the interleaving, \<open>Rt_Create\<close> creation and its failures,
    \<open>Rt_Lifecycle\<close> the end of a thread, \<open>Rt_Mutex\<close> the mutexes, \<open>Rt_Names\<close> names and priorities.
    \<open>Mutex_Backends\<close> compares the mutexes of the two backends call by call, as long as no thread nests
    deeper than the native counter of RT-Thread.
  \<^item> \<open>Event\<close>, \<open>Event_Contract\<close>: the three \<open>event.c\<close> and the contract two of them keep. \<open>Time\<close>: the
    three \<open>time.c\<close>. \<open>Kernel_Control\<close>: \<open>kernel.c\<close>, \<open>memory.c\<close> and \<open>context.c\<close>.

  \<^bold>\<open>What the theorems show.\<close> Sequential refinement: whatever calls are made in whatever order, a list,
  queue, FIFO, slab, signal, semaphore, recursive mutex, event group or bitmap returns what its
  abstract object returns, errors included. So a program of calls that do not wait, over common objects whose
  sizes are at most 65535, starts on all three builds or on none and gets the same results; larger
  sizes are refused by RT-Thread alone. The same holds of the two mutexes within the nesting depth
  that RT-Thread counts, and not beyond it. A type of return codes: no code of a kernel reaches a
  caller, and the codes that \<open>kernel.h\<close> does not document are named and shown to occur. Invariants of every reachable state of the interleavings:
  messages, nodes and blocks are neither lost nor duplicated nor reordered; a work item is on exactly
  the lists its flags say and runs on one worker at a time, in order; a mutex has one owner, wait
  queues hold exactly the threads that name them, highest priority first, no cycle of waiting threads
  arises, priorities are inherited exactly (but for barging, which the theorem names), and an unlock
  notifies the task of the first waiter and no other; a thread is reaped once, and what its end uses
  is live, except by an aborter when the aborted thread still runs before it is closed. Liveness
  and termination: traversals, promotion of delayed work and scheduler start return. Bounds and
  arithmetic: blocks are disjoint and in range, tick conversion is exact or saturates, uptime clocks
  survive counter wraps, names are unique, bit fields come back as stored, initcalls of one priority
  width run by level and then number under any linker that sorts by name. Other lemmas record what the code does where that differs from its
  documentation: a lost or repeated wake-up, a flush that does not return, a reset that duplicates a
  result, a swap that copies nothing, an abort that releases a semaphore after its thread was reaped.

  \<^bold>\<open>Bounds.\<close> Loops over lists are \<open>partial_function\<close>s: on a well-formed list they are proved to
  return. The walks along a chain of mutex owners have the code's own limit of sixteen steps, and the
  theorems about inheritance assume at most sixteen threads, so that the limit is never met;
  \<open>Mutex_Races\<close> shows what happens beyond it. No other fuel is used. Counts of tokens, lock depths
  and sizes stay words of the code's width.

  \<^bold>\<open>Not modelled.\<close> The kernels and boards (parameters with laws, or clients); waiting itself, that is
  which thread a kernel runs next, so that wake-ups are stated as tokens and states of threads and
  not as progress of a scheduler; weak memory (every atomic builtin of the code is taken as one
  sequentially consistent step, the relaxed, acquire and release ones of \<open>sys/atomic_gcc.h\<close> too, and
  shared fields are only used inside critical sections but for the ones the interleavings make
  separate steps); the preprocessor tables \<open>sys/util_listify.h\<close>,
  \<open>sys/util_internal*.h\<close>, \<open>sys/util_loops.h\<close> and the token macros of \<open>sys/util_macro.h\<close>; the linker
  script and \<open>do_initcalls\<close>, which the repository does not have (the linker's output is a parameter,
  constrained only by what sorting by name promises; ties are in no particular order); headers that only declare functions
  the repository does not define (\<open>sys/base64.h\<close>, \<open>sys/binascii.h\<close>, \<open>sys/mem_slab.h\<close>); the 8-bit event
  mask of FreeRTOS builds with 16-bit ticks. Threads are interleaved separately at their wait queues,
  at their creation and at their end.
\<close>

end
